(* ===== verification/Prelude.thy ===== *)
theory Prelude
  imports Complex_Main "HOL-Library.AList" "HOL-Library.Multiset"
begin

text \<open>
  Shared vocabulary of the development.

  \<^item> Exceptions: one datatype \<open>py_error\<close> with a constructor per exception class the modelled
    files raise, carrying the message where the code later inspects it.  A call that may raise
    returns \<open>'a result\<close>; a method that may raise and also writes its object is a
    \<open>('s, 'a) method\<close>, which returns the result and the object as the call leaves it (Python
    keeps every write made before a \<open>raise\<close>).
  \<^item> Dictionaries: a Python \<open>dict\<close> keeps insertion order, so it is an association list with
    distinct keys; \<open>AList.update\<close> (replace in place, append a new key) is \<open>d[k] = v\<close>,
    \<open>AList.delete\<close> is \<open>d.pop(k, None)\<close> and \<open>map_of\<close> is \<open>d.get\<close>.
  \<^item> \<open>asum f d\<close> is \<open>sum(f(v) for v in d.values())\<close>; its laws carry the accounting proofs.
\<close>

section \<open>Exceptions, results and methods\<close>

datatype py_error =
    ValueError string
  | RuntimeError string
  | TypeError
  | KeyError
  | StopIteration
  | OSError
  | TimeoutError
  | MemoryCapacityError
  | ExecutionPlanAdmissionError string
  | MaintenanceInProgressError string
  | AdaptiveScheduleCapacityError string
  | ScheduleQueueFullError
  | DeviceResourceCapacityError string
  | MemoryPressureAdmissionError string
  | BackendExecutionError string bool
  | OtherError string

type_synonym 'a result = "py_error + 'a"

type_synonym ('s, 'a) "method" = "'s \<Rightarrow> 'a result \<times> 's"

definition guard_ok :: "bool \<Rightarrow> string \<Rightarrow> 'a \<Rightarrow> 'a result" where
  "guard_ok ok message x = (if ok then Inr x else Inl (ValueError message))"

named_theorems guards \<open>constructor checks of the dataclasses\<close>
named_theorems frames \<open>what an operation leaves unchanged\<close>

lemma guard_ok_Inr [simp]: "guard_ok ok m x = Inr y \<longleftrightarrow> ok \<and> y = x"
  by (auto simp: guard_ok_def)

lemma guard_ok_Inl [simp]: "guard_ok ok m x = Inl e \<longleftrightarrow> \<not> ok \<and> e = ValueError m"
  by (auto simp: guard_ok_def)

section \<open>Python floats as they arrive\<close>

text \<open>A \<open>float\<close> before \<open>math.isfinite\<close> has been asked: a finite double is a rational (see
  \<open>PyFloat\<close>); \<open>fin_val\<close> reads one that has passed the check.  A comparison with NaN is false.\<close>

datatype xfloat = Fin rat | PosInf | NegInf | NaN

fun isfinite :: "xfloat \<Rightarrow> bool" where
  "isfinite (Fin r) = True"
| "isfinite _ = False"

fun fin_val :: "xfloat \<Rightarrow> rat" where
  "fin_val (Fin r) = r"
| "fin_val _ = 0"

fun x_less :: "xfloat \<Rightarrow> rat \<Rightarrow> bool" where
  "x_less (Fin r) q = (r < q)"
| "x_less NegInf q = True"
| "x_less _ q = False"

fun x_le :: "xfloat \<Rightarrow> rat \<Rightarrow> bool" where
  "x_le (Fin r) q = (r \<le> q)"
| "x_le NegInf q = True"
| "x_le _ q = False"

lemma isfinite_iff: "isfinite x \<longleftrightarrow> x = Fin (fin_val x)"
  by (cases x) auto

section \<open>JSON values\<close>

text \<open>What \<open>to_dict\<close> builds and \<open>json.loads\<close> returns.  An object is a dictionary in insertion
  order; floats may be non-finite (\<open>json.loads\<close> accepts \<open>NaN\<close> and \<open>Infinity\<close>).\<close>

datatype json =
    JNull
  | JBool bool
  | JInt int
  | JFloat xfloat
  | JStr string
  | JList "json list"
  | JObj "(string \<times> json) list"

fun j_option :: "('a \<Rightarrow> json) \<Rightarrow> 'a option \<Rightarrow> json" where
  "j_option f None = JNull"
| "j_option f (Some x) = f x"

section \<open>Dictionaries as association lists\<close>

type_synonym ('k, 'v) dict = "('k \<times> 'v) list"

abbreviation keys :: "('k, 'v) dict \<Rightarrow> 'k list" where
  "keys d \<equiv> map fst d"

abbreviation dict_ok :: "('k, 'v) dict \<Rightarrow> bool" where
  "dict_ok d \<equiv> distinct (keys d)"

definition asum :: "('v \<Rightarrow> 'n::comm_monoid_add) \<Rightarrow> ('k, 'v) dict \<Rightarrow> 'n" where
  "asum f d = sum_list (map (\<lambda>(k, v). f v) d)"

lemma asum_Nil [simp]: "asum f [] = 0"
  by (simp add: asum_def)

lemma asum_Cons [simp]: "asum f ((k, v) # d) = f v + asum f d"
  by (simp add: asum_def)

lemma asum_append [simp]: "asum f (d @ e) = asum f d + asum f e"
  by (simp add: asum_def)

lemma map_of_None_keys: "map_of d k = None \<longleftrightarrow> k \<notin> set (keys d)"
  by (simp add: map_of_eq_None_iff)

lemma map_of_Some_keys: "map_of d k = Some v \<Longrightarrow> k \<in> set (keys d)"
  by (metis map_of_None_keys option.distinct(1))

lemma update_fresh: "k \<notin> set (keys d) \<Longrightarrow> AList.update k v d = d @ [(k, v)]"
  by (induction d) auto

lemma asum_update_fresh:
  "k \<notin> set (keys d) \<Longrightarrow> asum f (AList.update k v d) = asum f d + f v"
  by (simp add: update_fresh)

lemma length_update_fresh:
  "k \<notin> set (keys d) \<Longrightarrow> length (AList.update k v d) = Suc (length d)"
  by (simp add: update_fresh)

lemma length_update_existing:
  "k \<in> set (keys d) \<Longrightarrow> length (AList.update k v d) = length d"
  by (induction d) auto

lemma dict_ok_update: "dict_ok d \<Longrightarrow> dict_ok (AList.update k v d)"
  by (rule distinct_update)

lemma dict_ok_delete: "dict_ok d \<Longrightarrow> dict_ok (AList.delete k d)"
  by (rule distinct_delete)

lemma delete_fresh: "k \<notin> set (keys d) \<Longrightarrow> AList.delete k d = d"
  by (induction d) auto

lemma asum_delete:
  fixes f :: "'v \<Rightarrow> int"
  assumes "dict_ok d" and "map_of d k = Some v"
  shows "asum f (AList.delete k d) = asum f d - f v"
  using assms
proof (induction d)
  case Nil
  then show ?case by simp
next
  case (Cons p d)
  obtain a b where p: "p = (a, b)" by force
  show ?case
  proof (cases "a = k")
    case True
    with Cons.prems p have "k \<notin> set (keys d)" and "b = v" by auto
    with True p show ?thesis by (simp add: delete_fresh)
  next
    case False
    with Cons p show ?thesis by simp
  qed
qed

lemma length_delete:
  assumes "dict_ok d" and "k \<in> set (keys d)"
  shows "Suc (length (AList.delete k d)) = length d"
  using assms
proof (induction d)
  case Nil
  then show ?case by simp
next
  case (Cons p d)
  then show ?case by (cases p) (auto simp: delete_fresh)
qed

lemma asum_update_existing:
  fixes f :: "'v \<Rightarrow> int"
  shows "dict_ok d \<Longrightarrow> map_of d k = Some v0 \<Longrightarrow>
    asum f (AList.update k v d) = asum f d - f v0 + f v"
  by (induction d) (auto split: if_splits)

lemma asum_nonneg:
  fixes f :: "'v \<Rightarrow> int"
  shows "(\<And>k v. (k, v) \<in> set d \<Longrightarrow> 0 \<le> f v) \<Longrightarrow> 0 \<le> asum f d"
  by (induction d) force+

lemma asum_member_le:
  fixes f :: "'v \<Rightarrow> int"
  assumes "\<And>k v. (k, v) \<in> set d \<Longrightarrow> 0 \<le> f v" and "(k, v) \<in> set d"
  shows "f v \<le> asum f d"
  using assms
proof (induction d)
  case Nil
  then show ?case by simp
next
  case (Cons p d)
  have nonneg: "0 \<le> asum f d"
    by (rule asum_nonneg) (use Cons.prems(1) in force)
  show ?case
  proof (cases "(k, v) = p")
    case True
    with nonneg show ?thesis by (cases p) auto
  next
    case False
    with Cons.prems(2) have "(k, v) \<in> set d" by auto
    then have "f v \<le> asum f d"
      by (rule Cons.IH [rotated]) (use Cons.prems(1) in force)
    moreover have "0 \<le> f (snd p)"
      using Cons.prems(1) [of "fst p" "snd p"] by simp
    ultimately show ?thesis by (cases p) simp
  qed
qed

lemma update_delete_fresh:
  "k \<notin> set (keys d) \<Longrightarrow> AList.delete k (AList.update k v d) = d"
  by (induction d) auto

lemma update_subset: "set (AList.update k v d) \<subseteq> insert (k, v) (set d)"
  by (induction d) auto

lemma delete_subset: "set (AList.delete k d) \<subseteq> set d"
  by (induction d) auto

lemma set_delete: "set (AList.delete k d) = {e \<in> set d. fst e \<noteq> k}"
  by (induction d) auto

lemma set_update_dict: "dict_ok d \<Longrightarrow> set (AList.update k v d) = insert (k, v) {e \<in> set d. fst e \<noteq> k}"
  by (induction d) force+

lemma length_delete_le: "length (AList.delete k d) \<le> length d"
  by (induction d) auto

lemma distinct_map_delete: "distinct (map f d) \<Longrightarrow> distinct (map f (AList.delete k d))"
  by (simp add: AList.delete_eq distinct_map_filter)

lemma distinct_map_insort: "distinct (map f (insort x xs)) = distinct (map f (x # xs))"
  by (induction xs) (auto simp: set_insort_key)

lemma dict_card: "dict_ok d \<Longrightarrow> card (fst ` set d) = length d"
  using distinct_card [of "keys d"] by simp

lemma map_of_eq_dict: "dict_ok d \<Longrightarrow> map_of d k = Some v \<longleftrightarrow> (k, v) \<in> set d"
  by simp

lemma keys_delete: "set (keys (AList.delete k d)) = set (keys d) - {k}"
  by (induction d) auto

lemma keys_update: "set (keys (AList.update k v d)) = insert k (set (keys d))"
  by (induction d) auto

lemma list_all_update: "list_all P d \<Longrightarrow> P (k, v) \<Longrightarrow> list_all P (AList.update k v d)"
  by (induction d) auto

lemma list_all_delete: "list_all P d \<Longrightarrow> list_all P (AList.delete k d)"
  using delete_subset by (fastforce simp: list_all_iff)

lemmas dict_facts = dict_ok_update dict_ok_delete asum_update_fresh asum_update_existing
  asum_delete length_update_fresh length_update_existing map_of_None_keys

section \<open>Sequences of calls\<close>

text \<open>\<open>attempts f s xs\<close> calls \<open>f\<close> on each element in turn; a call that raises leaves the state as
  it was.  \<open>fold_result f s xs\<close> stops at the first call that raises.\<close>

definition attempt :: "('s \<Rightarrow> 'a \<Rightarrow> 's result) \<Rightarrow> 's \<Rightarrow> 'a \<Rightarrow> 's" where
  "attempt f s x = (case f s x of Inl e \<Rightarrow> s | Inr s' \<Rightarrow> s')"

fun attempts :: "('s \<Rightarrow> 'a \<Rightarrow> 's result) \<Rightarrow> 's \<Rightarrow> 'a list \<Rightarrow> 's" where
  "attempts f s [] = s"
| "attempts f s (x # xs) = attempts f (attempt f s x) xs"

fun fold_result :: "('s \<Rightarrow> 'a \<Rightarrow> 's result) \<Rightarrow> 's \<Rightarrow> 'a list \<Rightarrow> 's result" where
  "fold_result f s [] = Inr s"
| "fold_result f s (x # xs) = (case f s x of Inl e \<Rightarrow> Inl e | Inr s' \<Rightarrow> fold_result f s' xs)"

lemma attempts_append [simp]: "attempts f s (xs @ ys) = attempts f (attempts f s xs) ys"
  by (induction xs arbitrary: s) auto

lemma attempts_invariant:
  assumes "I s" and "\<And>s x s'. I s \<Longrightarrow> x \<in> set xs \<Longrightarrow> f s x = Inr s' \<Longrightarrow> I s'"
  shows "I (attempts f s xs)"
  using assms
proof (induction xs arbitrary: s)
  case Nil
  then show ?case by simp
next
  case (Cons x xs)
  have "I (attempt f s x)"
  proof (cases "f s x")
    case (Inl e)
    with Cons.prems(1) show ?thesis by (simp add: attempt_def)
  next
    case (Inr s')
    then have "I s'" by (intro Cons.prems(2) [OF Cons.prems(1)]) simp_all
    with Inr show ?thesis by (simp add: attempt_def)
  qed
  moreover have "\<And>t y t'. I t \<Longrightarrow> y \<in> set xs \<Longrightarrow> f t y = Inr t' \<Longrightarrow> I t'"
    by (rule Cons.prems(2)) simp_all
  ultimately have "I (attempts f (attempt f s x) xs)" by (rule Cons.IH)
  then show ?case by simp
qed

lemma fold_result_attempts: "fold_result f s xs = Inr s' \<Longrightarrow> attempts f s xs = s'"
proof (induction xs arbitrary: s)
  case (Cons x xs)
  then show ?case by (cases "f s x") (simp_all add: attempt_def)
qed simp

lemma fold_result_invariant:
  assumes "fold_result f s xs = Inr s'" and "I s"
    and "\<And>s x s'. I s \<Longrightarrow> x \<in> set xs \<Longrightarrow> f s x = Inr s' \<Longrightarrow> I s'"
  shows "I s'"
  unfolding fold_result_attempts [OF assms(1), symmetric]
  using assms(2,3) by (rule attempts_invariant [where I = I and s = s])

lemma fold_result_append:
  "fold_result f s (xs @ ys)
     = (case fold_result f s xs of Inl e \<Rightarrow> Inl e | Inr s' \<Rightarrow> fold_result f s' ys)"
proof (induction xs arbitrary: s)
  case (Cons x xs)
  then show ?case by (cases "f s x") simp_all
qed simp

section \<open>Floor division\<close>

lemma le_div_int: "0 < b \<Longrightarrow> j * b \<le> n \<Longrightarrow> j \<le> n div (b::int)"
  using zdiv_mono1 [of "j * b" n b] by simp

lemma div_mult_le_int: "0 < b \<Longrightarrow> n div b * b \<le> (n::int)"
  using div_mult_mod_eq [of n b] pos_mod_sign [of b n] by linarith

section \<open>Python strings\<close>

text \<open>\<open>contains s t\<close> is \<open>s in t\<close>: \<open>s\<close> occurs in \<open>t\<close> as a contiguous block.\<close>

fun starts_with :: "string \<Rightarrow> string \<Rightarrow> bool" where
  "starts_with [] t = True"
| "starts_with (c # s) [] = False"
| "starts_with (c # s) (d # t) = (c = d \<and> starts_with s t)"

fun contains :: "string \<Rightarrow> string \<Rightarrow> bool" where
  "contains s [] = (s = [])"
| "contains s (c # t) = (starts_with s (c # t) \<or> contains s t)"

text \<open>\<open>str.lower\<close>.  The characters of the model are the code points below 256, and on those only the
  letters A to Z and the accented capitals 192 to 222, without the multiplication sign 215, change.\<close>

definition lower_char :: "char \<Rightarrow> char" where
  "lower_char c =
     (let n = (of_char c :: nat)
      in if 65 \<le> n \<and> n \<le> 90 \<or> 192 \<le> n \<and> n \<le> 222 \<and> n \<noteq> 215 then char_of (n + 32) else c)"

text \<open>\<open>str(n)\<close> of an integer.\<close>

fun digits :: "nat \<Rightarrow> string" where
  "digits n = (if n < 10 then [char_of (48 + n)] else digits (n div 10) @ [char_of (48 + n mod 10)])"

declare digits.simps [simp del]

definition show_int :: "int \<Rightarrow> string" where
  "show_int n = (if n < 0 then CHR ''-'' # digits (nat (- n)) else digits (nat n))"

definition lower :: "string \<Rightarrow> string" where
  "lower s = map lower_char s"

text \<open>Lower-case hexadecimal text, and the form of a SHA-256 hex digest.\<close>

definition is_hex :: "char \<Rightarrow> bool" where
  "is_hex c \<longleftrightarrow> c \<in> set ''0123456789abcdef''"

definition is_digest :: "string \<Rightarrow> bool" where
  "is_digest s \<longleftrightarrow> length s = 64 \<and> list_all is_hex s"

lemma starts_with_append [simp]: "starts_with s (s @ t)"
  by (induction s) auto

lemma contains_self [simp]: "contains s s"
  by (cases s) (auto intro: starts_with_append [of _ "[]", simplified])

end
