(* ===== verification/PyFloat.thy ===== *)
theory PyFloat
  imports Prelude Complex_Main
begin

text \<open>
  Python's \<open>float\<close> is an IEEE 754 double.  A finite double is a rational number, so the model's
  type of a float is \<open>rat\<close>, and every arithmetic step of the source is followed by the rounding
  \<open>rnd\<close>: round to nearest, ties to even, 53 significant bits, exponents not below the
  subnormal range.  Overflow to infinity (values from \<open>2 ^ 1024\<close> on) and NaN do not occur for
  byte counts and are not represented.  A decimal literal \<open>0.85\<close> is \<open>lit 85 100\<close>, the double
  nearest to it, as the Python parser reads it.

  The lemmas are the facts the memory policies rest on: rounding is monotone, exact on integers
  up to \<open>2 ^ 53\<close>, has relative error at most \<open>2 ^ -53\<close>, and scaling a byte count by a ratio
  below one (\<open>int(n * r)\<close>) is monotone and never exceeds the count.
\<close>

section \<open>Binary exponent of a positive rational\<close>

function bitlen :: "int \<Rightarrow> int" where
  "bitlen n = (if n \<le> 0 then 0 else 1 + bitlen (n div 2))"
  by pat_completeness auto
termination
  by (relation "measure nat") auto

declare bitlen.simps [simp del]

definition ilog2 :: "rat \<Rightarrow> int" where
  "ilog2 x =
     (let (p, q) = quotient_of x;
          k = bitlen p - bitlen q
      in if 2 powi k \<le> x then k else k - 1)"

lemma powi_double: "(2::rat) powi (k + 1) = 2 * 2 powi k"
  by (simp add: power_int_add)

lemma bitlen_nonneg: "0 \<le> bitlen n"
proof (induction n rule: bitlen.induct)
  case (1 n)
  then show ?case by (subst bitlen.simps) auto
qed

lemma bitlen_bounds:
  "0 < n \<Longrightarrow> (2::rat) powi (bitlen n - 1) \<le> of_int n \<and> of_int n < (2::rat) powi bitlen n"
proof (induction n rule: bitlen.induct)
  case (1 n)
  show ?case
  proof (cases "n = 1")
    case True
    then show ?thesis by (simp add: bitlen.simps)
  next
    case False
    with "1.prems" have half: "0 < n div 2" and n: "\<not> n \<le> 0" by auto
    have b: "bitlen n = 1 + bitlen (n div 2)" using n by (subst bitlen.simps) simp
    have lo: "(2::rat) powi (bitlen (n div 2) - 1) \<le> of_int (n div 2)"
      and hi: "of_int (n div 2) < (2::rat) powi bitlen (n div 2)"
      using "1.IH" [OF n half] by auto
    have nn: "n = 2 * (n div 2) + n mod 2" and m: "0 \<le> n mod 2" "n mod 2 < 2" by auto
    have len: "0 \<le> bitlen (n div 2)" by (rule bitlen_nonneg)
    have "of_int (n div 2) < (of_int (2 ^ nat (bitlen (n div 2))) :: rat)"
      using hi len by (simp add: power_int_def)
    then have "n div 2 + 1 \<le> 2 ^ nat (bitlen (n div 2))" by (simp only: of_int_less_iff)
    then have "(of_int (n div 2 + 1) :: rat) \<le> of_int (2 ^ nat (bitlen (n div 2)))"
      by (simp only: of_int_le_iff)
    then have hi': "of_int (n div 2) + 1 \<le> (2::rat) powi bitlen (n div 2)"
      using len by (simp add: power_int_def)
    have n_rat: "(of_int n :: rat) = 2 * of_int (n div 2) + of_int (n mod 2)"
    proof -
      have "(of_int n :: rat) = of_int (2 * (n div 2) + n mod 2)" by simp
      then show ?thesis by (simp only: of_int_add of_int_mult of_int_numeral)
    qed
    have mr: "(0::rat) \<le> of_int (n mod 2)" "(of_int (n mod 2) :: rat) < 2" using m by simp_all
    have "2 * (2::rat) powi (bitlen (n div 2) - 1) = 2 powi (bitlen n - 1)"
      unfolding b by (simp add: powi_double [symmetric])
    moreover have "2 * (2::rat) powi bitlen (n div 2) = 2 powi bitlen n"
      unfolding b by (simp add: powi_double [symmetric] add.commute)
    ultimately show ?thesis using lo hi' n_rat mr by linarith
  qed
qed

lemma powi_two_less [simp]: "(2::rat) powi a < 2 powi b \<longleftrightarrow> a < b"
proof
  assume "a < b"
  then show "(2::rat) powi a < 2 powi b" by (rule power_int_strict_increasing) simp
next
  assume l: "(2::rat) powi a < 2 powi b"
  show "a < b"
  proof (rule ccontr)
    assume "\<not> a < b"
    then have "(2::rat) powi b \<le> 2 powi a" by (intro power_int_increasing) auto
    with l show False by simp
  qed
qed

lemma powi_two_le [simp]: "(2::rat) powi a \<le> 2 powi b \<longleftrightarrow> a \<le> b"
  using powi_two_less [of b a] by (simp only: not_less [symmetric])

lemma ilog2_bounds:
  assumes "0 < x"
  shows "2 powi ilog2 x \<le> x" and "x < 2 powi (ilog2 x + 1)"
proof -
  obtain p q where pq: "quotient_of x = (p, q)" by force
  have q: "0 < q" using pq by (rule quotient_of_denom_pos)
  have x: "x = of_int p / of_int q" using pq by (rule quotient_of_div)
  have p: "0 < p" using assms q x by (simp add: zero_less_divide_iff)
  define a where "a = bitlen p"
  define b where "b = bitlen q"
  have p1: "(2::rat) powi (a - 1) \<le> of_int p" and p2: "of_int p < (2::rat) powi a"
    using bitlen_bounds [OF p] unfolding a_def by simp_all
  have q1: "(2::rat) powi (b - 1) \<le> of_int q" and q2: "of_int q < (2::rat) powi b"
    using bitlen_bounds [OF q] unfolding b_def by simp_all
  have qpos: "(0::rat) < of_int q" using q by simp
  have up: "x < 2 powi (a - b + 1)"
  proof -
    have "(2::rat) powi a = 2 powi (a - b + 1) * 2 powi (b - 1)"
      by (simp add: power_int_add [symmetric])
    also have "\<dots> \<le> 2 powi (a - b + 1) * of_int q"
      using q1 by (intro mult_left_mono) auto
    finally have "of_int p < 2 powi (a - b + 1) * (of_int q :: rat)" using p2 by linarith
    then show ?thesis using qpos x by (simp add: pos_divide_less_eq)
  qed
  have lo: "2 powi (a - b - 1) \<le> x"
  proof -
    have "2 powi (a - b - 1) * (of_int q :: rat) \<le> 2 powi (a - b - 1) * 2 powi b"
      using q2 by (intro mult_left_mono) auto
    also have "\<dots> = 2 powi (a - 1)" by (simp add: power_int_add [symmetric])
    finally have "2 powi (a - b - 1) * (of_int q :: rat) \<le> of_int p" using p1 by linarith
    then show ?thesis using qpos x by (simp add: pos_le_divide_eq)
  qed
  have il: "ilog2 x = (if 2 powi (a - b) \<le> x then a - b else a - b - 1)"
    by (simp add: ilog2_def pq a_def b_def)
  show "2 powi ilog2 x \<le> x" using lo il by auto
  show "x < 2 powi (ilog2 x + 1)" using up il by auto
qed

lemma ilog2_mono:
  assumes "0 < x" and "x \<le> y"
  shows "ilog2 x \<le> ilog2 y"
proof -
  have "0 < y" using assms by simp
  have "(2::rat) powi ilog2 x < 2 powi (ilog2 y + 1)"
    using ilog2_bounds(1) [OF \<open>0 < x\<close>] ilog2_bounds(2) [OF \<open>0 < y\<close>] assms(2) by linarith
  then have "ilog2 x < ilog2 y + 1" by simp
  then show ?thesis by simp
qed

section \<open>Rounding to the nearest double\<close>

text \<open>Round a rational to an integer, ties to the even neighbour.\<close>

definition round_even :: "rat \<Rightarrow> int" where
  "round_even y =
     (let f = \<lfloor>y\<rfloor>; d = y - of_int f
      in if d < 1/2 then f else if 1/2 < d then f + 1 else if even f then f else f + 1)"

lemma round_even_int [simp]: "round_even (of_int n) = n"
  by (simp add: round_even_def)

lemma round_even_error: "\<bar>of_int (round_even y) - y\<bar> \<le> 1/2"
proof -
  have a: "(of_int \<lfloor>y\<rfloor> :: rat) \<le> y" and b: "y < of_int \<lfloor>y\<rfloor> + 1"
    by linarith+
  show ?thesis
    using a b unfolding round_even_def Let_def by (simp add: abs_le_iff)
qed

lemma round_even_mono:
  assumes "x \<le> y"
  shows "round_even x \<le> round_even y"
proof (cases "\<lfloor>x\<rfloor> = \<lfloor>y\<rfloor>")
  case True
  then show ?thesis using assms by (auto simp: round_even_def Let_def)
next
  case False
  then have "\<lfloor>x\<rfloor> + 1 \<le> \<lfloor>y\<rfloor>" using assms floor_mono [of x y] by linarith
  moreover have "round_even x \<le> \<lfloor>x\<rfloor> + 1" and "\<lfloor>y\<rfloor> \<le> round_even y"
    by (auto simp: round_even_def Let_def)
  ultimately show ?thesis by linarith
qed

lemma round_even_le_int: "y \<le> of_int n \<Longrightarrow> round_even y \<le> n"
  using round_even_mono [of y "of_int n"] by simp

lemma round_even_ge_int: "of_int n \<le> y \<Longrightarrow> n \<le> round_even y"
  using round_even_mono [of "of_int n" y] by simp

text \<open>The unit in the last place of a double near \<open>x\<close> is \<open>2 powi fexp x\<close>.\<close>

definition fexp :: "rat \<Rightarrow> int" where
  "fexp x = max (ilog2 x - 52) (-1074)"

definition rnd_pos :: "rat \<Rightarrow> rat" where
  "rnd_pos x = of_int (round_even (x / 2 powi fexp x)) * 2 powi fexp x"

definition rnd :: "rat \<Rightarrow> rat" where
  "rnd x = (if x = 0 then 0 else if x < 0 then - rnd_pos (- x) else rnd_pos x)"

definition lit :: "int \<Rightarrow> int \<Rightarrow> rat" where
  "lit p q = rnd (of_int p / of_int q)"

lemma powi_two_int: "0 \<le> m \<Longrightarrow> (2::rat) powi m = of_int (2 ^ nat m)"
  by (simp add: power_int_def)

lemma rnd_pos_le_powi:
  assumes "x \<le> 2 powi m" and "fexp x \<le> m"
  shows "rnd_pos x \<le> 2 powi m"
proof -
  have e: "(2::rat) powi m = 2 powi (m - fexp x) * 2 powi fexp x"
    by (simp add: power_int_add [symmetric])
  have "x / 2 powi fexp x \<le> of_int (2 ^ nat (m - fexp x))"
    using assms powi_two_int [of "m - fexp x"] e by (simp add: pos_divide_le_eq)
  then have "round_even (x / 2 powi fexp x) \<le> 2 ^ nat (m - fexp x)"
    by (rule round_even_le_int)
  then have "(of_int (round_even (x / 2 powi fexp x)) :: rat) \<le> 2 powi (m - fexp x)"
    using powi_two_int [of "m - fexp x"] assms(2) by (metis diff_ge_0_iff_ge of_int_le_iff)
  then show ?thesis unfolding rnd_pos_def e by (intro mult_right_mono) auto
qed

lemma rnd_pos_ge_powi:
  assumes "2 powi m \<le> x" and "fexp x \<le> m"
  shows "2 powi m \<le> rnd_pos x"
proof -
  have e: "(2::rat) powi m = 2 powi (m - fexp x) * 2 powi fexp x"
    by (simp add: power_int_add [symmetric])
  have "of_int (2 ^ nat (m - fexp x)) \<le> x / 2 powi fexp x"
    using assms powi_two_int [of "m - fexp x"] e by (simp add: pos_le_divide_eq)
  then have "2 ^ nat (m - fexp x) \<le> round_even (x / 2 powi fexp x)"
    by (rule round_even_ge_int)
  then have "2 powi (m - fexp x) \<le> (of_int (round_even (x / 2 powi fexp x)) :: rat)"
    using powi_two_int [of "m - fexp x"] assms(2) by (metis diff_ge_0_iff_ge of_int_le_iff)
  then show ?thesis unfolding rnd_pos_def e by (intro mult_right_mono) auto
qed

lemma rnd_pos_nonneg: "0 < x \<Longrightarrow> 0 \<le> rnd_pos x"
  unfolding rnd_pos_def using round_even_ge_int [of 0 "x / 2 powi fexp x"] by simp

lemma rnd_pos_mono:
  assumes "0 < x" and "x \<le> y"
  shows "rnd_pos x \<le> rnd_pos y"
proof (cases "fexp x = fexp y")
  case True
  have "x / 2 powi fexp x \<le> y / 2 powi fexp x"
    using assms(2) by (simp add: divide_right_mono)
  then have "round_even (x / 2 powi fexp x) \<le> round_even (y / 2 powi fexp x)"
    by (rule round_even_mono)
  then show ?thesis
    unfolding rnd_pos_def True [symmetric] by (intro mult_right_mono) auto
next
  case False
  have il: "ilog2 x \<le> ilog2 y" using assms by (rule ilog2_mono)
  then have lt: "fexp x < fexp y" using False by (auto simp: fexp_def)
  then have fy: "fexp y = ilog2 y - 52" and less: "ilog2 x < ilog2 y"
    using il by (auto simp: fexp_def)
  have "x < 2 powi (ilog2 x + 1)" using ilog2_bounds(2) [OF assms(1)] .
  also have "(2::rat) powi (ilog2 x + 1) \<le> 2 powi ilog2 y" using less by simp
  finally have "rnd_pos x \<le> 2 powi ilog2 y"
    using lt fy by (intro rnd_pos_le_powi) auto
  also have "2 powi ilog2 y \<le> rnd_pos y"
    using ilog2_bounds(1) [of y] assms fy by (intro rnd_pos_ge_powi) auto
  finally show ?thesis .
qed

lemma rnd_zero [simp]: "rnd 0 = 0"
  by (simp add: rnd_def)

lemma rnd_nonneg: "0 \<le> x \<Longrightarrow> 0 \<le> rnd x"
  by (auto simp: rnd_def rnd_pos_nonneg)

lemma rnd_mono:
  assumes "x \<le> y"
  shows "rnd x \<le> rnd y"
proof -
  consider "0 < x" | "x \<le> 0" "0 \<le> y" | "y < 0" by linarith
  then show ?thesis
  proof cases
    case 1
    then show ?thesis using assms rnd_pos_mono [of x y] by (auto simp: rnd_def)
  next
    case 2
    have "rnd x \<le> 0" using 2 rnd_pos_nonneg [of "- x"] by (auto simp: rnd_def)
    moreover have "0 \<le> rnd y" using 2 by (simp add: rnd_nonneg)
    ultimately show ?thesis by linarith
  next
    case 3
    then show ?thesis using assms rnd_pos_mono [of "- y" "- x"] by (auto simp: rnd_def)
  qed
qed

lemma rnd_error:
  assumes "2 powi (-1022) \<le> x"
  shows "\<bar>rnd x - x\<bar> \<le> x / 2 ^ 53"
proof -
  have pos: "0 < x" using assms by (rule less_le_trans [rotated]) simp
  have "(2::rat) powi (-1022) < 2 powi (ilog2 x + 1)"
    using assms ilog2_bounds(2) [OF pos] by (rule le_less_trans)
  then have "-1022 < ilog2 x + 1" by (simp only: powi_two_less)
  then have f: "fexp x = ilog2 x - 52" by (simp add: fexp_def)
  define y where "y = x / 2 powi fexp x"
  have x: "x = y * 2 powi fexp x" by (simp add: y_def)
  have "rnd x - x = (of_int (round_even y) - y) * 2 powi fexp x"
    using pos x by (simp add: rnd_def rnd_pos_def y_def algebra_simps)
  then have "\<bar>rnd x - x\<bar> = \<bar>of_int (round_even y) - y\<bar> * 2 powi fexp x"
    by (simp add: abs_mult)
  also have "\<dots> \<le> 1/2 * 2 powi fexp x"
    by (intro mult_right_mono round_even_error) simp
  also have "\<dots> = 2 powi ilog2 x / 2 ^ 53"
    unfolding f by (simp add: power_int_diff)
  also have "\<dots> \<le> x / 2 ^ 53"
    using ilog2_bounds(1) [OF pos] by (simp add: divide_right_mono)
  finally show ?thesis .
qed

lemma rnd_le_rel: "1/4 \<le> x \<Longrightarrow> rnd x \<le> x * (1 + 1 / 2 ^ 53)"
proof -
  assume x: "1/4 \<le> x"
  have "(2::rat) powi (-1022) \<le> 2 powi (-2)" by (simp only: powi_two_le)
  also have "\<dots> = 1/4" by (simp add: power_int_minus)
  finally have "2 powi (-1022) \<le> x" using x by linarith
  then have "\<bar>rnd x - x\<bar> \<le> x / 2 ^ 53" by (rule rnd_error)
  then have "rnd x - x \<le> x / 2 ^ 53" by (rule order_trans [OF abs_ge_self])
  then show ?thesis by (simp add: distrib_left)
qed

text \<open>Integers of at most 53 bits are doubles.\<close>

lemma rnd_int_exact:
  assumes "0 \<le> n" and "n < 2 ^ 53"
  shows "rnd (of_int n) = of_int n"
proof (cases "n = 0")
  case False
  then have pos: "(0::rat) < of_int n" using assms by simp
  have "(of_int n :: rat) < 2 powi 53"
    using assms(2) by simp
  then have "(2::rat) powi ilog2 (of_int n) < 2 powi 53"
    using ilog2_bounds(1) [OF pos] by linarith
  then have "ilog2 (of_int n) < 53" by (simp only: powi_two_less)
  then have f: "fexp (of_int n) \<le> 0" by (simp add: fexp_def)
  define k where "k = nat (- fexp (of_int n))"
  have fk: "fexp (of_int n) = - int k" using f by (simp add: k_def)
  have "(of_int n :: rat) / 2 powi fexp (of_int n) = of_int (n * 2 ^ k)"
    by (simp add: fk power_int_minus divide_inverse)
  then have "rnd_pos (of_int n) = of_int (n * 2 ^ k) * 2 powi (- int k)"
    unfolding rnd_pos_def by (simp only: round_even_int fk)
  also have "\<dots> = of_int n" by (simp add: power_int_minus)
  finally show ?thesis using pos by (simp add: rnd_def)
qed simp

section \<open>Scaling a byte count by a ratio\<close>

text \<open>\<open>int(x)\<close> truncates towards zero; \<open>py_scale n r\<close> is \<open>int(n * r)\<close> for an \<open>int\<close> \<open>n\<close> and a
  \<open>float\<close> \<open>r\<close>: the count is converted to a double, multiplied, rounded and truncated.\<close>

definition py_trunc :: "rat \<Rightarrow> int" where
  "py_trunc x = (if 0 \<le> x then \<lfloor>x\<rfloor> else \<lceil>x\<rceil>)"

definition py_scale :: "int \<Rightarrow> rat \<Rightarrow> int" where
  "py_scale n r = py_trunc (rnd (rnd (of_int n) * r))"

lemma py_trunc_mono: "0 \<le> x \<Longrightarrow> x \<le> y \<Longrightarrow> py_trunc x \<le> py_trunc y"
  by (simp add: py_trunc_def floor_mono)

lemma py_scale_zero [simp]: "py_scale 0 r = 0"
  by (simp add: py_scale_def py_trunc_def)

lemma py_scale_nonneg: "0 \<le> n \<Longrightarrow> 0 \<le> r \<Longrightarrow> 0 \<le> py_scale n r"
  by (simp add: py_scale_def py_trunc_def rnd_nonneg)

lemma py_scale_mono_ratio:
  assumes "0 \<le> n" and "0 \<le> r" and "r \<le> s"
  shows "py_scale n r \<le> py_scale n s"
  unfolding py_scale_def using assms
  by (intro py_trunc_mono rnd_mono rnd_nonneg mult_left_mono mult_nonneg_nonneg) auto

lemma py_scale_mono_int:
  assumes "0 \<le> m" and "m \<le> n" and "0 \<le> r"
  shows "py_scale m r \<le> py_scale n r"
  unfolding py_scale_def using assms
  by (intro py_trunc_mono rnd_mono rnd_nonneg mult_right_mono mult_nonneg_nonneg) auto

lemma py_scale_le:
  assumes n: "0 \<le> n" and r: "0 \<le> r" "r \<le> 1 - 4 / 2 ^ 53"
  shows "py_scale n r \<le> n"
proof (cases "n = 0")
  case False
  then have n1: "(1::rat) \<le> of_int n" using n by simp
  let ?u = "(1::rat) / 2 ^ 53"
  have a: "rnd (of_int n) \<le> of_int n * (1 + ?u)" using n1 by (intro rnd_le_rel) simp
  have "rnd (of_int n) * r \<le> (of_int n * (1 + ?u)) * (1 - 4 * ?u)"
    using a r n by (intro mult_mono) auto
  also have "\<dots> \<le> of_int n * (1 - 2 * ?u)"
  proof -
    have "(1 + ?u) * (1 - 4 * ?u) \<le> 1 - 2 * ?u" by simp
    then have "of_int n * ((1 + ?u) * (1 - 4 * ?u)) \<le> of_int n * (1 - 2 * ?u)"
      using n1 by (intro mult_left_mono) auto
    then show ?thesis by (simp only: mult.assoc)
  qed
  finally have p: "rnd (of_int n) * r \<le> of_int n * (1 - 2 * ?u)" .
  have "rnd (rnd (of_int n) * r) \<le> rnd (of_int n * (1 - 2 * ?u))" using p by (rule rnd_mono)
  also have "\<dots> \<le> of_int n * (1 - 2 * ?u) * (1 + ?u)"
  proof (rule rnd_le_rel)
    have "1/4 \<le> (1::rat) * (1 - 2 * ?u)" by simp
    also have "\<dots> \<le> of_int n * (1 - 2 * ?u)" using n1 by (intro mult_right_mono) auto
    finally show "1/4 \<le> of_int n * (1 - 2 * ?u)" .
  qed
  also have "\<dots> \<le> of_int n"
  proof -
    have "(1 - 2 * ?u) * (1 + ?u) \<le> 1" by simp
    then have "of_int n * ((1 - 2 * ?u) * (1 + ?u)) \<le> of_int n * 1"
      using n1 by (intro mult_left_mono) auto
    then show ?thesis by (simp add: mult.assoc)
  qed
  finally have "rnd (rnd (of_int n) * r) \<le> of_int n" .
  then have "\<lfloor>rnd (rnd (of_int n) * r)\<rfloor> \<le> n" by (simp add: floor_le_iff)
  moreover have "0 \<le> rnd (rnd (of_int n) * r)" using n r by (intro rnd_nonneg mult_nonneg_nonneg) auto
  ultimately show ?thesis by (simp add: py_scale_def py_trunc_def)
qed simp

end
