(* ===== verification/RuntimeTypes.thy ===== *)
theory RuntimeTypes
  imports Prelude
begin

text \<open>
  The data model of \<open>vllm_apple/types.py\<close>: the enumerations with their string values, and the
  frozen dataclasses as records.  A dataclass with a \<open>__post_init__\<close> check gets a constructor
  function \<open>..._init\<close> that returns the record or the \<open>ValueError\<close> the check raises, and a
  predicate \<open>..._ok\<close> for the check itself.  \<open>state_bytes\<close> and \<open>total_bytes\<close> compute the memory a
  model needs for a number of tokens; the lemmas state their monotonicity and bounds.
\<close>

definition GIB :: int where
  "GIB = 1024 ^ 3"

definition MIB :: int where
  "MIB = 1024 ^ 2"

section \<open>Enumerations\<close>

datatype runtime_state =
  Stopped | Starting | Profiling | LoadingModel | Ready | Degraded | Failed | Stopping

fun runtime_state_value :: "runtime_state \<Rightarrow> string" where
  "runtime_state_value Stopped = ''stopped''"
| "runtime_state_value Starting = ''starting''"
| "runtime_state_value Profiling = ''profiling''"
| "runtime_state_value LoadingModel = ''loading_model''"
| "runtime_state_value Ready = ''ready''"
| "runtime_state_value Degraded = ''degraded''"
| "runtime_state_value Failed = ''failed''"
| "runtime_state_value Stopping = ''stopping''"

datatype memory_pressure = MP_Normal | MP_Warning | MP_Critical | MP_Unknown

fun memory_pressure_value :: "memory_pressure \<Rightarrow> string" where
  "memory_pressure_value MP_Normal = ''normal''"
| "memory_pressure_value MP_Warning = ''warning''"
| "memory_pressure_value MP_Critical = ''critical''"
| "memory_pressure_value MP_Unknown = ''unknown''"

datatype thermal_state = TS_Nominal | TS_Fair | TS_Serious | TS_Critical | TS_Unknown

fun thermal_state_value :: "thermal_state \<Rightarrow> string" where
  "thermal_state_value TS_Nominal = ''nominal''"
| "thermal_state_value TS_Fair = ''fair''"
| "thermal_state_value TS_Serious = ''serious''"
| "thermal_state_value TS_Critical = ''critical''"
| "thermal_state_value TS_Unknown = ''unknown''"

datatype power_mode = PM_Automatic | PM_LowPower | PM_HighPower | PM_Unknown

fun power_mode_value :: "power_mode \<Rightarrow> string" where
  "power_mode_value PM_Automatic = ''automatic''"
| "power_mode_value PM_LowPower = ''low_power''"
| "power_mode_value PM_HighPower = ''high_power''"
| "power_mode_value PM_Unknown = ''unknown''"

datatype priority = Realtime | Interactive | Normal | Background

fun priority_value :: "priority \<Rightarrow> string" where
  "priority_value Realtime = ''realtime''"
| "priority_value Interactive = ''interactive''"
| "priority_value Normal = ''normal''"
| "priority_value Background = ''background''"

datatype backend = B_CPU | B_MLX_GPU | B_METAL | B_COREML

fun backend_value :: "backend \<Rightarrow> string" where
  "backend_value B_CPU = ''cpu''"
| "backend_value B_MLX_GPU = ''mlx_gpu''"
| "backend_value B_METAL = ''metal''"
| "backend_value B_COREML = ''coreml''"

section \<open>Memory and hardware\<close>

record memory_info =
  mi_total_bytes :: int
  mi_available_bytes :: int
  mi_process_resident_bytes :: int
  mi_pressure :: memory_pressure
  mi_source :: string

definition memory_info_init :: "memory_info \<Rightarrow> memory_info result" where
  "memory_info_init m =
     (if mi_total_bytes m \<le> 0 then Inl (ValueError ''total_bytes must be positive'')
      else if \<not> (0 \<le> mi_available_bytes m \<and> mi_available_bytes m \<le> mi_total_bytes m)
        then Inl (ValueError ''available_bytes must be between zero and total_bytes'')
      else Inr m)"

definition memory_info_ok :: "memory_info \<Rightarrow> bool" where
  "memory_info_ok m \<longleftrightarrow>
     0 < mi_total_bytes m \<and> 0 \<le> mi_available_bytes m \<and> mi_available_bytes m \<le> mi_total_bytes m"

lemma memory_info_init_iff [guards]: "memory_info_init m = Inr m' \<longleftrightarrow> memory_info_ok m \<and> m' = m"
  by (auto simp: memory_info_init_def memory_info_ok_def)

definition memory_info_to_dict :: "memory_info \<Rightarrow> json" where
  "memory_info_to_dict m = JObj
     [(''total_bytes'', JInt (mi_total_bytes m)),
      (''available_bytes'', JInt (mi_available_bytes m)),
      (''process_resident_bytes'', JInt (mi_process_resident_bytes m)),
      (''pressure'', JStr (memory_pressure_value (mi_pressure m))),
      (''source'', JStr (mi_source m))]"

record hardware_info =
  hw_platform :: string
  hw_architecture :: string
  hw_soc :: string
  hw_physical_cpu_count :: int
  hw_logical_cpu_count :: int
  hw_gpu_core_count :: "int option"
  hw_memory :: memory_info
  hw_is_apple_silicon :: bool
  hw_os_version :: string
  hw_thermal_state :: thermal_state
  hw_power_mode :: power_mode

definition hardware_info_to_dict :: "hardware_info \<Rightarrow> json" where
  "hardware_info_to_dict h = JObj
     [(''platform'', JStr (hw_platform h)),
      (''architecture'', JStr (hw_architecture h)),
      (''soc'', JStr (hw_soc h)),
      (''physical_cpu_count'', JInt (hw_physical_cpu_count h)),
      (''logical_cpu_count'', JInt (hw_logical_cpu_count h)),
      (''gpu_core_count'', j_option JInt (hw_gpu_core_count h)),
      (''memory'', memory_info_to_dict (hw_memory h)),
      (''is_apple_silicon'', JBool (hw_is_apple_silicon h)),
      (''os_version'', JStr (hw_os_version h)),
      (''thermal_state'', JStr (thermal_state_value (hw_thermal_state h))),
      (''power_mode'', JStr (power_mode_value (hw_power_mode h)))]"

section \<open>Model memory specifications\<close>

record model_memory_spec =
  mm_model_id :: string
  mm_weights_bytes :: int
  mm_kv_bytes_per_token :: int
  mm_workspace_bytes :: int
  mm_model_max_context :: "int option"

definition model_memory_spec_init :: "model_memory_spec \<Rightarrow> model_memory_spec result" where
  "model_memory_spec_init m =
     (if mm_weights_bytes m < 0 \<or> mm_kv_bytes_per_token m < 0 \<or> mm_workspace_bytes m < 0
        then Inl (ValueError ''invalid model memory specification'')
      else if (case mm_model_max_context m of None \<Rightarrow> False | Some c \<Rightarrow> c \<le> 0)
        then Inl (ValueError ''model_max_context must be positive'')
      else if mm_kv_bytes_per_token m = 0 \<and> mm_model_max_context m = None
        then Inl (ValueError ''bounded-state models require model_max_context'')
      else Inr m)"

record state_memory_spec =
  sm_model_id :: string
  sm_architecture :: string
  sm_weights_bytes :: int
  sm_kv_bytes_per_token :: int
  sm_recurrent_state_bytes :: int
  sm_prefix_state_bytes :: int
  sm_attention_window_bytes_per_token :: int
  sm_attention_window_tokens :: "int option"
  sm_sparse_index_bytes_per_token :: int
  sm_sparse_retrieval_bytes_per_token :: int
  sm_sparse_retrieval_tokens :: "int option"
  sm_expert_storage_bytes :: int
  sm_expert_working_set_bytes :: int
  sm_ngram_storage_bytes :: int
  sm_ngram_working_set_bytes :: int
  sm_mtp_storage_bytes :: int
  sm_mtp_working_set_bytes :: int
  sm_scratch_workspace_bytes :: int
  sm_model_max_context :: "int option"

definition state_byte_fields :: "state_memory_spec \<Rightarrow> int list" where
  "state_byte_fields s =
     [sm_weights_bytes s, sm_kv_bytes_per_token s, sm_recurrent_state_bytes s,
      sm_prefix_state_bytes s, sm_attention_window_bytes_per_token s,
      sm_sparse_index_bytes_per_token s, sm_sparse_retrieval_bytes_per_token s,
      sm_expert_storage_bytes s, sm_expert_working_set_bytes s, sm_ngram_storage_bytes s,
      sm_ngram_working_set_bytes s, sm_mtp_storage_bytes s, sm_mtp_working_set_bytes s,
      sm_scratch_workspace_bytes s]"

abbreviation nonpositive :: "int option \<Rightarrow> bool" where
  "nonpositive x \<equiv> (case x of None \<Rightarrow> False | Some c \<Rightarrow> c \<le> 0)"

definition state_memory_spec_init :: "state_memory_spec \<Rightarrow> state_memory_spec result" where
  "state_memory_spec_init s =
     (if sm_model_id s = [] \<or> sm_architecture s = []
        then Inl (ValueError ''model_id and architecture must not be empty'')
      else if list_ex (\<lambda>value. value < 0) (state_byte_fields s)
        then Inl (ValueError ''state memory byte counts must not be negative'')
      else if sm_kv_bytes_per_token s = 0 \<and> sm_model_max_context s = None
        then Inl (ValueError ''bounded-state models require model_max_context'')
      else if nonpositive (sm_attention_window_tokens s)
        then Inl (ValueError ''attention_window_tokens must be positive'')
      else if nonpositive (sm_sparse_retrieval_tokens s)
        then Inl (ValueError ''sparse_retrieval_tokens must be positive'')
      else if nonpositive (sm_model_max_context s)
        then Inl (ValueError ''model_max_context must be positive'')
      else Inr s)"

definition state_memory_spec_ok :: "state_memory_spec \<Rightarrow> bool" where
  "state_memory_spec_ok s \<longleftrightarrow>
     sm_model_id s \<noteq> [] \<and> sm_architecture s \<noteq> [] \<and>
     (\<forall>v\<in>set (state_byte_fields s). 0 \<le> v) \<and>
     \<not> (sm_kv_bytes_per_token s = 0 \<and> sm_model_max_context s = None) \<and>
     \<not> nonpositive (sm_attention_window_tokens s) \<and>
     \<not> nonpositive (sm_sparse_retrieval_tokens s) \<and>
     \<not> nonpositive (sm_model_max_context s)"

lemma state_memory_spec_init_iff [guards]:
  "state_memory_spec_init s = Inr s' \<longleftrightarrow> state_memory_spec_ok s \<and> s' = s"
proof -
  have neg: "list_ex (\<lambda>value. value < 0) (state_byte_fields s)
      \<longleftrightarrow> \<not> (\<forall>v\<in>set (state_byte_fields s). 0 \<le> v)"
    by (auto simp: list_ex_iff not_le)
  show ?thesis
    unfolding state_memory_spec_init_def state_memory_spec_ok_def neg by (simp split: if_split) blast
qed

lemma state_memory_spec_nonneg:
  assumes "state_memory_spec_ok s"
  shows "0 \<le> sm_weights_bytes s" "0 \<le> sm_kv_bytes_per_token s" "0 \<le> sm_recurrent_state_bytes s"
    "0 \<le> sm_prefix_state_bytes s" "0 \<le> sm_attention_window_bytes_per_token s"
    "0 \<le> sm_sparse_index_bytes_per_token s" "0 \<le> sm_sparse_retrieval_bytes_per_token s"
    "0 \<le> sm_expert_working_set_bytes s" "0 \<le> sm_ngram_working_set_bytes s"
    "0 \<le> sm_mtp_working_set_bytes s" "0 \<le> sm_scratch_workspace_bytes s"
  using assms by (simp_all add: state_memory_spec_ok_def state_byte_fields_def)

definition as_state_memory_spec :: "model_memory_spec \<Rightarrow> state_memory_spec result" where
  "as_state_memory_spec m = state_memory_spec_init
     \<lparr>sm_model_id = mm_model_id m, sm_architecture = ''transformer'',
      sm_weights_bytes = mm_weights_bytes m, sm_kv_bytes_per_token = mm_kv_bytes_per_token m,
      sm_recurrent_state_bytes = 0, sm_prefix_state_bytes = 0,
      sm_attention_window_bytes_per_token = 0, sm_attention_window_tokens = None,
      sm_sparse_index_bytes_per_token = 0, sm_sparse_retrieval_bytes_per_token = 0,
      sm_sparse_retrieval_tokens = None, sm_expert_storage_bytes = 0,
      sm_expert_working_set_bytes = 0, sm_ngram_storage_bytes = 0,
      sm_ngram_working_set_bytes = 0, sm_mtp_storage_bytes = 0, sm_mtp_working_set_bytes = 0,
      sm_scratch_workspace_bytes = mm_workspace_bytes m,
      sm_model_max_context = mm_model_max_context m\<rparr>"

definition fixed_bytes :: "state_memory_spec \<Rightarrow> int" where
  "fixed_bytes s =
     sm_weights_bytes s + sm_recurrent_state_bytes s + sm_prefix_state_bytes s
     + sm_expert_working_set_bytes s + sm_ngram_working_set_bytes s + sm_mtp_working_set_bytes s
     + sm_scratch_workspace_bytes s"

definition capped :: "int \<Rightarrow> int option \<Rightarrow> int" where
  "capped tokens limit = (case limit of None \<Rightarrow> tokens | Some l \<Rightarrow> min tokens l)"

definition state_bytes_of :: "state_memory_spec \<Rightarrow> int \<Rightarrow> int" where
  "state_bytes_of s tokens =
     sm_recurrent_state_bytes s + sm_prefix_state_bytes s
     + tokens * sm_kv_bytes_per_token s
     + capped tokens (sm_attention_window_tokens s) * sm_attention_window_bytes_per_token s
     + tokens * sm_sparse_index_bytes_per_token s
     + capped tokens (sm_sparse_retrieval_tokens s) * sm_sparse_retrieval_bytes_per_token s"

definition state_bytes :: "state_memory_spec \<Rightarrow> int \<Rightarrow> int result" where
  "state_bytes s tokens =
     (if tokens < 0 then Inl (ValueError ''tokens must not be negative'')
      else Inr (state_bytes_of s tokens))"

definition total_bytes_of :: "state_memory_spec \<Rightarrow> int \<Rightarrow> int" where
  "total_bytes_of s tokens =
     sm_weights_bytes s + sm_expert_working_set_bytes s + sm_ngram_working_set_bytes s
     + sm_mtp_working_set_bytes s + sm_scratch_workspace_bytes s + state_bytes_of s tokens"

definition total_bytes :: "state_memory_spec \<Rightarrow> int \<Rightarrow> int result" where
  "total_bytes s tokens =
     (case state_bytes s tokens of Inl e \<Rightarrow> Inl e | Inr _ \<Rightarrow> Inr (total_bytes_of s tokens))"

lemma capped_mono: "x \<le> y \<Longrightarrow> capped x l \<le> capped y l"
  by (auto simp: capped_def split: option.split)

lemma capped_le: "capped x l \<le> x"
  by (auto simp: capped_def split: option.split)

lemma state_bytes_of_mono:
  assumes "state_memory_spec_ok s" and "x \<le> y"
  shows "state_bytes_of s x \<le> state_bytes_of s y"
  unfolding state_bytes_of_def using assms
  by (intro add_mono mult_right_mono capped_mono order_refl)
    (auto simp: state_memory_spec_nonneg)

lemma total_bytes_of_mono:
  "state_memory_spec_ok s \<Longrightarrow> x \<le> y \<Longrightarrow> total_bytes_of s x \<le> total_bytes_of s y"
  by (simp add: total_bytes_of_def state_bytes_of_mono)

lemma total_bytes_of_zero:
  assumes "state_memory_spec_ok s"
  shows "total_bytes_of s 0 = fixed_bytes s"
proof -
  have c: "capped 0 (sm_attention_window_tokens s) = 0" "capped 0 (sm_sparse_retrieval_tokens s) = 0"
    using assms by (auto simp: capped_def state_memory_spec_ok_def split: option.splits)
  show ?thesis by (simp add: total_bytes_of_def state_bytes_of_def fixed_bytes_def c)
qed

section \<open>Context recommendations\<close>

record context_tier =
  ct_name :: string
  ct_max_tokens :: int
  ct_kv_budget_bytes :: int

record context_recommendation =
  cr_model_id :: string
  cr_allocatable_bytes :: int
  cr_os_reserve_bytes :: int
  cr_safety_headroom_bytes :: int
  cr_workspace_bytes :: int
  cr_tiers :: "context_tier list"
  cr_limiting_factor :: "string option"

definition context_recommendation_to_dict :: "context_recommendation \<Rightarrow> json" where
  "context_recommendation_to_dict r = JObj
     [(''model_id'', JStr (cr_model_id r)),
      (''allocatable_bytes'', JInt (cr_allocatable_bytes r)),
      (''os_reserve_bytes'', JInt (cr_os_reserve_bytes r)),
      (''safety_headroom_bytes'', JInt (cr_safety_headroom_bytes r)),
      (''workspace_bytes'', JInt (cr_workspace_bytes r)),
      (''tiers'', JList (map (\<lambda>t. JObj
         [(''name'', JStr (ct_name t)), (''max_tokens'', JInt (ct_max_tokens t)),
          (''kv_budget_bytes'', JInt (ct_kv_budget_bytes t))]) (cr_tiers r))),
      (''limiting_factor'', j_option JStr (cr_limiting_factor r))]"

end
