(* ===== verification/ContextPlan.thy ===== *)
theory ContextPlan
  imports RuntimeTypes PyFloat
begin

text \<open>
  \<open>vllm_apple/context.py\<close>: how many tokens of context a machine can hold for a model.
  \<open>recommend_state_context\<close> subtracts the operating-system reserve, the safety headroom and the
  model's fixed memory from the machine, gives each tier a share of what is left
  (\<open>py_scale\<close>: the source multiplies by a float and truncates) and finds by bisection the
  largest whole number of token blocks whose state fits that share.

  The lemmas show that the bisection returns the greatest block count that fits, that the tiers
  are ordered, and that no tier overcommits the machine.
\<close>

section \<open>Policy\<close>

record context_policy =
  cp_os_reserve_ratio :: rat
  cp_minimum_os_reserve_bytes :: int
  cp_safety_headroom_ratio :: rat
  cp_minimum_safety_headroom_bytes :: int
  cp_default_workspace_ratio :: rat
  cp_token_block_size :: int

definition default_context_policy :: context_policy where
  "default_context_policy =
     \<lparr>cp_os_reserve_ratio = lit 15 100, cp_minimum_os_reserve_bytes = 3 * GIB,
      cp_safety_headroom_ratio = lit 8 100, cp_minimum_safety_headroom_bytes = GIB,
      cp_default_workspace_ratio = lit 5 100, cp_token_block_size = 256\<rparr>"

definition context_policy_init :: "context_policy \<Rightarrow> context_policy result" where
  "context_policy_init p =
     (if list_ex (\<lambda>value. value < 0 \<or> 1 \<le> value)
           [cp_os_reserve_ratio p, cp_safety_headroom_ratio p, cp_default_workspace_ratio p]
        then Inl (ValueError ''policy ratios must be in [0, 1)'')
      else if cp_token_block_size p \<le> 0
        then Inl (ValueError ''token_block_size must be positive'')
      else Inr p)"

definition context_policy_ok :: "context_policy \<Rightarrow> bool" where
  "context_policy_ok p \<longleftrightarrow>
     0 \<le> cp_os_reserve_ratio p \<and> cp_os_reserve_ratio p < 1 \<and>
     0 \<le> cp_safety_headroom_ratio p \<and> cp_safety_headroom_ratio p < 1 \<and>
     0 \<le> cp_default_workspace_ratio p \<and> cp_default_workspace_ratio p < 1 \<and>
     0 < cp_token_block_size p"

lemma context_policy_init_iff [guards]:
  "context_policy_init p = Inr q \<longleftrightarrow> context_policy_ok p \<and> q = p"
  by (auto simp: context_policy_init_def context_policy_ok_def)

definition aligned_tokens :: "int \<Rightarrow> int \<Rightarrow> int \<Rightarrow> int" where
  "aligned_tokens kv_bytes bytes_per_token block_size =
     (let raw = max 0 (kv_bytes div bytes_per_token) in (raw div block_size) * block_size)"

section \<open>The largest block count that fits a budget\<close>

text \<open>\<open>fits\<close> is the loop's test \<open>model.state_bytes(tokens) - fixed_state <= budget\<close> at
  \<open>tokens = middle * block_size\<close>.\<close>

definition fits :: "state_memory_spec \<Rightarrow> int \<Rightarrow> int \<Rightarrow> int \<Rightarrow> bool" where
  "fits model budget block_size middle \<longleftrightarrow>
     state_bytes_of model (middle * block_size)
       - (sm_recurrent_state_bytes model + sm_prefix_state_bytes model) \<le> budget"

function bisect :: "(int \<Rightarrow> bool) \<Rightarrow> int \<Rightarrow> int \<Rightarrow> int" where
  "bisect ok low high =
     (if low < high
      then let middle = (low + high + 1) div 2
           in if ok middle then bisect ok middle high else bisect ok low (middle - 1)
      else low)"
  by pat_completeness auto
termination
  by (relation "measure (\<lambda>(ok, low, high). nat (high - low))") auto

declare bisect.simps [simp del]

definition search_upper :: "state_memory_spec \<Rightarrow> int \<Rightarrow> int \<Rightarrow> int result" where
  "search_upper model budget block_size =
     (case sm_model_max_context model of
        Some limit \<Rightarrow> Inr (limit div block_size)
      | None \<Rightarrow>
          if 0 < sm_kv_bytes_per_token model
          then Inr (budget div sm_kv_bytes_per_token model div block_size)
          else Inl (OtherError ''AssertionError''))"

definition maximum_tokens :: "state_memory_spec \<Rightarrow> int \<Rightarrow> int \<Rightarrow> int result" where
  "maximum_tokens model budget block_size =
     (if sm_kv_bytes_per_token model + sm_attention_window_bytes_per_token model = 0
      then (case sm_model_max_context model of
              None \<Rightarrow> Inl (OtherError ''AssertionError'')
            | Some limit \<Rightarrow> Inr ((limit div block_size) * block_size))
      else (case search_upper model budget block_size of
              Inl e \<Rightarrow> Inl e
            | Inr upper \<Rightarrow>
                Inr (bisect (fits model budget block_size) 0 (max 0 upper) * block_size)))"

lemma bisect_spec:
  assumes "ok low" and "low \<le> high"
    and down: "\<And>i j. low \<le> i \<Longrightarrow> i \<le> j \<Longrightarrow> j \<le> high \<Longrightarrow> ok j \<Longrightarrow> ok i"
  shows "low \<le> bisect ok low high \<and> bisect ok low high \<le> high \<and> ok (bisect ok low high)
    \<and> (\<forall>j. bisect ok low high < j \<and> j \<le> high \<longrightarrow> \<not> ok j)"
  using assms
proof (induction ok low high rule: bisect.induct)
  case (1 ok low high)
  show ?case
  proof (cases "low < high")
    case False
    have b: "bisect ok low high = low" using False by (subst bisect.simps) simp
    have "low = high" using False "1.prems"(2) by simp
    with b "1.prems"(1) show ?thesis by auto
  next
    case True
    define middle where "middle = (low + high + 1) div 2"
    have m: "low < middle" "middle \<le> high" using True unfolding middle_def by auto
    show ?thesis
    proof (cases "ok middle")
      case ok: True
      have b: "bisect ok low high = bisect ok middle high"
        using True ok by (subst bisect.simps) (simp add: Let_def middle_def)
      have "middle \<le> bisect ok middle high \<and> bisect ok middle high \<le> high
        \<and> ok (bisect ok middle high)
        \<and> (\<forall>j. bisect ok middle high < j \<and> j \<le> high \<longrightarrow> \<not> ok j)"
        using "1.IH"(1) [OF True middle_def ok ok m(2)] "1.prems"(3) m by force
      with b m show ?thesis by force
    next
      case bad: False
      have b: "bisect ok low high = bisect ok low (middle - 1)"
        using True bad by (subst bisect.simps) (simp add: Let_def middle_def)
      have above: "\<not> ok j" if "middle \<le> j" "j \<le> high" for j
        using "1.prems"(3) [of middle j] that m bad by auto
      have lm: "low \<le> middle - 1" using m by simp
      have ih: "low \<le> bisect ok low (middle - 1) \<and> bisect ok low (middle - 1) \<le> middle - 1
        \<and> ok (bisect ok low (middle - 1))
        \<and> (\<forall>j. bisect ok low (middle - 1) < j \<and> j \<le> middle - 1 \<longrightarrow> \<not> ok j)"
        using "1.IH"(2) [OF True middle_def bad "1.prems"(1) lm] "1.prems"(3) m by force
      have "\<not> ok j" if "bisect ok low (middle - 1) < j" "j \<le> high" for j
        using ih above [of j] that by (cases "j \<le> middle - 1") auto
      with b ih m show ?thesis by auto
    qed
  qed
qed

lemma fits_downward:
  assumes "state_memory_spec_ok model" and "0 < block_size" and "i \<le> j"
    and "fits model budget block_size j"
  shows "fits model budget block_size i"
proof -
  have "state_bytes_of model (i * block_size) \<le> state_bytes_of model (j * block_size)"
    using assms by (intro state_bytes_of_mono) (auto intro: mult_right_mono)
  with assms(4) show ?thesis unfolding fits_def by linarith
qed

lemma fits_zero:
  assumes "state_memory_spec_ok model" and "0 \<le> budget"
  shows "fits model budget block_size 0"
proof -
  have "capped 0 (sm_attention_window_tokens model) \<le> 0"
    and "capped 0 (sm_sparse_retrieval_tokens model) \<le> 0" by (rule capped_le)+
  then have "capped 0 (sm_attention_window_tokens model) * sm_attention_window_bytes_per_token model
      + capped 0 (sm_sparse_retrieval_tokens model) * sm_sparse_retrieval_bytes_per_token model \<le> 0"
    using assms(1) by (intro add_nonpos_nonpos mult_nonpos_nonneg) (auto simp: state_memory_spec_nonneg)
  with assms(2) show ?thesis by (simp add: fits_def state_bytes_of_def)
qed

lemma fits_kv_bound:
  assumes "state_memory_spec_ok model" and "0 < block_size" and "0 \<le> k"
    and "fits model budget block_size k"
  shows "k * block_size * sm_kv_bytes_per_token model \<le> budget"
proof -
  have "0 \<le> capped (k * block_size) (sm_attention_window_tokens model)"
    and "0 \<le> capped (k * block_size) (sm_sparse_retrieval_tokens model)"
    using assms by (auto simp: capped_def state_memory_spec_ok_def split: option.splits)
  then have "0 \<le> capped (k * block_size) (sm_attention_window_tokens model)
        * sm_attention_window_bytes_per_token model
      + k * block_size * sm_sparse_index_bytes_per_token model
      + capped (k * block_size) (sm_sparse_retrieval_tokens model)
        * sm_sparse_retrieval_bytes_per_token model"
    using assms by (intro add_nonneg_nonneg mult_nonneg_nonneg) (auto simp: state_memory_spec_nonneg)
  with assms(4) show ?thesis unfolding fits_def state_bytes_of_def by linarith
qed

text \<open>Every result of the search: a block count within the search range that fits and has no
  larger fitting count in range.\<close>

lemma maximum_tokens_greatest:
  assumes ok: "state_memory_spec_ok model" and block: "0 < block_size" and budget: "0 \<le> budget"
    and grows: "sm_kv_bytes_per_token model + sm_attention_window_bytes_per_token model \<noteq> 0"
    and upper: "search_upper model budget block_size = Inr upper"
  obtains k where "maximum_tokens model budget block_size = Inr (k * block_size)"
    and "0 \<le> k" and "k \<le> max 0 upper" and "fits model budget block_size k"
    and "\<And>j. k < j \<Longrightarrow> j \<le> max 0 upper \<Longrightarrow> \<not> fits model budget block_size j"
proof -
  let ?k = "bisect (fits model budget block_size) 0 (max 0 upper)"
  have "0 \<le> ?k \<and> ?k \<le> max 0 upper \<and> fits model budget block_size ?k
    \<and> (\<forall>j. ?k < j \<and> j \<le> max 0 upper \<longrightarrow> \<not> fits model budget block_size j)"
    by (rule bisect_spec) (use ok block budget fits_downward fits_zero in auto)
  moreover have "maximum_tokens model budget block_size = Inr (?k * block_size)"
    using grows upper by (simp add: maximum_tokens_def)
  ultimately show ?thesis by (intro that) auto
qed

lemma search_upper_total:
  assumes "state_memory_spec_ok model"
  obtains upper where "search_upper model budget block_size = Inr upper"
  using assms state_memory_spec_nonneg(2) [OF assms]
  by (cases "sm_model_max_context model") (auto simp: search_upper_def state_memory_spec_ok_def)

lemma maximum_tokens_total:
  assumes ok: "state_memory_spec_ok model"
  obtains tokens where "maximum_tokens model budget block_size = Inr tokens"
proof (cases "sm_kv_bytes_per_token model + sm_attention_window_bytes_per_token model = 0")
  case True
  then have "sm_kv_bytes_per_token model = 0" using state_memory_spec_nonneg [OF ok] by simp
  then obtain limit where "sm_model_max_context model = Some limit"
    using ok by (auto simp: state_memory_spec_ok_def)
  with True show ?thesis by (intro that) (simp add: maximum_tokens_def)
next
  case False
  obtain upper where "search_upper model budget block_size = Inr upper"
    using ok by (rule search_upper_total)
  with False show ?thesis by (intro that) (simp add: maximum_tokens_def)
qed

section \<open>Recommendations\<close>

definition os_reserve_of :: "memory_info \<Rightarrow> context_policy \<Rightarrow> int" where
  "os_reserve_of memory policy =
     max (cp_minimum_os_reserve_bytes policy)
       (py_scale (mi_total_bytes memory) (cp_os_reserve_ratio policy))"

definition safety_of :: "memory_info \<Rightarrow> context_policy \<Rightarrow> int" where
  "safety_of memory policy =
     max (cp_minimum_safety_headroom_bytes policy)
       (py_scale (mi_total_bytes memory) (cp_safety_headroom_ratio policy))"

definition capacity_limit_of :: "memory_info \<Rightarrow> context_policy \<Rightarrow> int" where
  "capacity_limit_of memory policy =
     max 0 (mi_total_bytes memory - os_reserve_of memory policy - safety_of memory policy)"

definition availability_limit_of :: "memory_info \<Rightarrow> context_policy \<Rightarrow> int" where
  "availability_limit_of memory policy =
     max 0 (mi_available_bytes memory - safety_of memory policy)"

definition allocatable_of :: "memory_info \<Rightarrow> context_policy \<Rightarrow> int" where
  "allocatable_of memory policy =
     min (capacity_limit_of memory policy) (availability_limit_of memory policy)"

definition workspace_of :: "state_memory_spec \<Rightarrow> context_policy \<Rightarrow> int" where
  "workspace_of model policy =
     (if sm_scratch_workspace_bytes model \<noteq> 0 then sm_scratch_workspace_bytes model
      else py_scale (sm_weights_bytes model) (cp_default_workspace_ratio policy))"

definition fixed_of :: "state_memory_spec \<Rightarrow> context_policy \<Rightarrow> int" where
  "fixed_of model policy =
     sm_weights_bytes model + sm_recurrent_state_bytes model + sm_prefix_state_bytes model
     + sm_expert_working_set_bytes model + sm_ngram_working_set_bytes model
     + sm_mtp_working_set_bytes model + workspace_of model policy"

definition state_capacity_of :: "memory_info \<Rightarrow> state_memory_spec \<Rightarrow> context_policy \<Rightarrow> int" where
  "state_capacity_of memory model policy =
     max 0 (allocatable_of memory policy - fixed_of model policy)"

definition tier_ratios :: "(string \<times> rat) list" where
  "tier_ratios = [(''safe'', lit 70 100), (''balanced'', lit 85 100), (''aggressive'', lit 95 100)]"

text \<open>The loop over the tiers: each pass appends a tier and may set \<open>limited_by_model\<close>.\<close>

fun build_tiers ::
  "state_memory_spec \<Rightarrow> int \<Rightarrow> int \<Rightarrow> (string \<times> rat) list \<Rightarrow> context_tier list \<Rightarrow> bool
    \<Rightarrow> (context_tier list \<times> bool) result" where
  "build_tiers model state_capacity block_size [] tiers limited = Inr (tiers, limited)"
| "build_tiers model state_capacity block_size ((name, ratio) # rest) tiers limited =
     (let budget = py_scale state_capacity ratio
      in case maximum_tokens model budget block_size of
           Inl e \<Rightarrow> Inl e
         | Inr tokens \<Rightarrow>
             build_tiers model state_capacity block_size rest
               (tiers @ [\<lparr>ct_name = name, ct_max_tokens = tokens, ct_kv_budget_bytes = budget\<rparr>])
               (limited \<or> (case sm_model_max_context model of
                             None \<Rightarrow> False
                           | Some limit \<Rightarrow> tokens = (limit div block_size) * block_size)))"

definition limiting_factor_of :: "int \<Rightarrow> bool \<Rightarrow> int \<Rightarrow> int \<Rightarrow> string" where
  "limiting_factor_of state_capacity limited availability_limit capacity_limit =
     (if state_capacity = 0 then ''insufficient_memory''
      else if limited then ''model_max_context''
      else if availability_limit < capacity_limit then ''current_memory_availability''
      else ''physical_memory'')"

definition recommend_state_context ::
  "memory_info \<Rightarrow> state_memory_spec \<Rightarrow> context_policy \<Rightarrow> context_recommendation result" where
  "recommend_state_context memory model policy =
     (let state_capacity = state_capacity_of memory model policy
      in case build_tiers model state_capacity (cp_token_block_size policy) tier_ratios [] False of
           Inl e \<Rightarrow> Inl e
         | Inr (tiers, limited) \<Rightarrow>
             Inr \<lparr>cr_model_id = sm_model_id model,
                  cr_allocatable_bytes = allocatable_of memory policy,
                  cr_os_reserve_bytes = os_reserve_of memory policy,
                  cr_safety_headroom_bytes = safety_of memory policy,
                  cr_workspace_bytes = workspace_of model policy,
                  cr_tiers = tiers,
                  cr_limiting_factor = Some (limiting_factor_of state_capacity limited
                    (availability_limit_of memory policy) (capacity_limit_of memory policy))\<rparr>)"

definition recommend_context ::
  "memory_info \<Rightarrow> model_memory_spec \<Rightarrow> context_policy \<Rightarrow> context_recommendation result" where
  "recommend_context memory model policy =
     (case as_state_memory_spec model of
        Inl e \<Rightarrow> Inl e
      | Inr spec \<Rightarrow> recommend_state_context memory spec policy)"

subsection \<open>The tiers\<close>

lemma lit_tiers:
  "(0::rat) \<le> lit 70 100" "lit 70 100 \<le> lit 85 100" "lit 85 100 \<le> lit 95 100"
  "lit 95 100 \<le> 1 - 4 / 2 ^ 53"
proof -
  show "(0::rat) \<le> lit 70 100" by (simp add: lit_def rnd_nonneg)
  show "lit 70 100 \<le> lit 85 100" "lit 85 100 \<le> lit 95 100"
    unfolding lit_def by (rule rnd_mono; simp)+
  show "lit 95 100 \<le> 1 - 4 / 2 ^ 53"
    unfolding lit_def by (rule order_trans [OF rnd_le_rel]) simp_all
qed

definition tier_tokens :: "state_memory_spec \<Rightarrow> int \<Rightarrow> int \<Rightarrow> rat \<Rightarrow> int" where
  "tier_tokens model state_capacity block_size ratio =
     (case maximum_tokens model (py_scale state_capacity ratio) block_size of
        Inl e \<Rightarrow> 0 | Inr tokens \<Rightarrow> tokens)"

lemma recommend_tiers:
  assumes ok: "state_memory_spec_ok model"
    and cap: "cap = state_capacity_of memory model policy"
    and block: "block = cp_token_block_size policy"
  obtains r where "recommend_state_context memory model policy = Inr r"
    and "cr_allocatable_bytes r = allocatable_of memory policy"
    and "cr_tiers r = map (\<lambda>(name, ratio).
      \<lparr>ct_name = name, ct_max_tokens = tier_tokens model cap block ratio,
       ct_kv_budget_bytes = py_scale cap ratio\<rparr>) tier_ratios"
proof -
  have total: "\<exists>t. maximum_tokens model b block = Inr t" for b
    using maximum_tokens_total [OF ok, of b block] by blast
  obtain t1 where t1: "maximum_tokens model (py_scale cap (lit 70 100)) block = Inr t1"
    using total by blast
  obtain t2 where t2: "maximum_tokens model (py_scale cap (lit 85 100)) block = Inr t2"
    using total by blast
  obtain t3 where t3: "maximum_tokens model (py_scale cap (lit 95 100)) block = Inr t3"
    using total by blast
  note eval = recommend_state_context_def tier_ratios_def tier_tokens_def cap [symmetric]
    block [symmetric] t1 t2 t3 Let_def
  obtain r where r: "recommend_state_context memory model policy = Inr r"
    by (simp add: eval)
  show ?thesis
    by (rule that [OF r]) (use r in \<open>auto simp: eval\<close>)
qed

subsection \<open>Every tier fits its share\<close>

abbreviation grows :: "state_memory_spec \<Rightarrow> bool" where
  "grows model \<equiv> sm_kv_bytes_per_token model + sm_attention_window_bytes_per_token model \<noteq> 0"

lemma search_upper_mono:
  assumes "0 < block" and "b1 \<le> b2" and ok: "state_memory_spec_ok model"
    and "search_upper model b1 block = Inr u1" and "search_upper model b2 block = Inr u2"
  shows "u1 \<le> u2"
  using assms by (auto simp: search_upper_def zdiv_mono1 split: option.splits if_splits)

lemma maximum_tokens_mono:
  assumes ok: "state_memory_spec_ok model" and block: "0 < block"
    and b: "0 \<le> b1" "b1 \<le> b2"
    and t1: "maximum_tokens model b1 block = Inr t1"
    and t2: "maximum_tokens model b2 block = Inr t2"
  shows "t1 \<le> t2"
proof (cases "grows model")
  case False
  then show ?thesis using t1 t2 by (auto simp: maximum_tokens_def split: option.splits)
next
  case True
  obtain u1 where u1: "search_upper model b1 block = Inr u1" using ok by (rule search_upper_total)
  obtain u2 where u2: "search_upper model b2 block = Inr u2" using ok by (rule search_upper_total)
  have u: "max 0 u1 \<le> max 0 u2"
    using search_upper_mono [OF block b(2) ok u1 u2] by linarith
  obtain k1 where k1: "t1 = k1 * block" "k1 \<le> max 0 u1" "fits model b1 block k1"
    using maximum_tokens_greatest [OF ok block b(1) True u1] t1 by (metis sum.inject(2))
  have b2: "0 \<le> b2" using b by simp
  obtain k2 where k2: "t2 = k2 * block"
    "\<And>j. k2 < j \<Longrightarrow> j \<le> max 0 u2 \<Longrightarrow> \<not> fits model b2 block j"
    using maximum_tokens_greatest [OF ok block b2 True u2] t2 by (metis sum.inject(2))
  have "fits model b2 block k1" using k1(3) b(2) by (simp add: fits_def)
  then have "k1 \<le> k2" using k2(2) [of k1] k1(2) u by force
  then show ?thesis using k1(1) k2(1) block by simp
qed

lemma tier_tokens_fit:
  assumes ok: "state_memory_spec_ok model" and block: "0 < block" and g: "grows model"
    and cap: "0 \<le> cap" and r: "0 \<le> r" "r \<le> 1 - 4 / 2 ^ 53"
  shows "state_bytes_of model (tier_tokens model cap block r)
      - (sm_recurrent_state_bytes model + sm_prefix_state_bytes model) \<le> cap"
    and "0 \<le> tier_tokens model cap block r"
proof -
  let ?b = "py_scale cap r"
  have b: "0 \<le> ?b" "?b \<le> cap" using cap r by (auto simp: py_scale_nonneg py_scale_le)
  obtain upper where u: "search_upper model ?b block = Inr upper" using ok by (rule search_upper_total)
  obtain k where k: "maximum_tokens model ?b block = Inr (k * block)" "0 \<le> k"
    "fits model ?b block k"
    using maximum_tokens_greatest [OF ok block b(1) g u] by metis
  then have t: "tier_tokens model cap block r = k * block" by (simp add: tier_tokens_def)
  show "state_bytes_of model (tier_tokens model cap block r)
      - (sm_recurrent_state_bytes model + sm_prefix_state_bytes model) \<le> cap"
    using k(3) b(2) unfolding t fits_def by linarith
  show "0 \<le> tier_tokens model cap block r" unfolding t using k(2) block by simp
qed

lemma tier_ratios_bounds:
  "(name, r) \<in> set tier_ratios \<Longrightarrow> 0 \<le> r \<and> r \<le> 1 - 4 / 2 ^ 53"
  using lit_tiers by (auto simp: tier_ratios_def)

lemma allocatable_bounds:
  assumes "memory_info_ok memory" and "context_policy_ok policy"
  shows "0 \<le> allocatable_of memory policy" "allocatable_of memory policy \<le> mi_available_bytes memory"
proof -
  have "0 \<le> py_scale (mi_total_bytes memory) (cp_safety_headroom_ratio policy)"
    using assms by (auto simp: memory_info_ok_def context_policy_ok_def intro: py_scale_nonneg)
  then have "0 \<le> safety_of memory policy" by (simp add: safety_of_def)
  then show "0 \<le> allocatable_of memory policy" "allocatable_of memory policy \<le> mi_available_bytes memory"
    using assms(1) by (auto simp: allocatable_of_def availability_limit_of_def
        capacity_limit_of_def memory_info_ok_def)
qed

lemma workspace_ge_scratch:
  assumes "state_memory_spec_ok model" and "context_policy_ok policy"
  shows "sm_scratch_workspace_bytes model \<le> workspace_of model policy"
  using assms by (auto simp: workspace_of_def context_policy_ok_def state_memory_spec_nonneg
      intro: py_scale_nonneg)

section \<open>Properties\<close>

text \<open>The token count of a tier is the greatest whole number of blocks whose state fits the
  tier's byte budget: it fits, and every larger block count up to the model's context limit (every
  larger one at all when the model declares no limit) exceeds the budget.\<close>
theorem maximum_tokens_optimal:
  assumes ok: "state_memory_spec_ok model" and block: "0 < block" and b: "0 \<le> budget"
    and g: "grows model" and t: "maximum_tokens model budget block = Inr tokens"
  shows "\<exists>k\<ge>0. tokens = k * block \<and> fits model budget block k
    \<and> (\<forall>j>k. (case sm_model_max_context model of None \<Rightarrow> True | Some limit \<Rightarrow> j * block \<le> limit)
          \<longrightarrow> \<not> fits model budget block j)"
proof -
  obtain upper where u: "search_upper model budget block = Inr upper"
    using ok by (rule search_upper_total)
  obtain k where k: "maximum_tokens model budget block = Inr (k * block)" "0 \<le> k"
    "fits model budget block k"
    "\<And>j. k < j \<Longrightarrow> j \<le> max 0 upper \<Longrightarrow> \<not> fits model budget block j"
    using maximum_tokens_greatest [OF ok block b g u] by metis
  have "\<not> fits model budget block j"
    if j: "k < j"
      and lim: "case sm_model_max_context model of None \<Rightarrow> True | Some limit \<Rightarrow> j * block \<le> limit" for j
  proof (cases "sm_model_max_context model")
    case (Some limit)
    then have "j \<le> limit div block" using lim block by (simp add: le_div_int)
    moreover have "upper = limit div block" using u Some by (simp add: search_upper_def)
    ultimately show ?thesis using k(4) [OF j] by simp
  next
    case None
    then have kv: "0 < sm_kv_bytes_per_token model"
      and up: "upper = budget div sm_kv_bytes_per_token model div block"
      using u by (auto simp: search_upper_def split: if_splits)
    show ?thesis
    proof
      assume f: "fits model budget block j"
      have "j * block * sm_kv_bytes_per_token model \<le> budget"
        using fits_kv_bound [OF ok block _ f] j k(2) by simp
      then have "j \<le> upper" unfolding up using kv block by (simp add: le_div_int)
      then have "j \<le> max 0 upper" by simp
      with f show False using k(4) [OF j] by blast
    qed
  qed
  with k(1-3) t show ?thesis by auto
qed

lemma optimal_when_flat:
  assumes "\<not> grows model" and "state_memory_spec_ok model" and block: "0 < block"
    and "maximum_tokens model budget block = Inr tokens"
  obtains limit where "sm_model_max_context model = Some limit" "tokens = limit div block * block"
    "\<And>j. j * block \<le> limit \<Longrightarrow> j * block \<le> tokens" "0 \<le> tokens"
proof -
  have "sm_kv_bytes_per_token model = 0" using assms(1,2) state_memory_spec_nonneg [OF assms(2)] by simp
  then obtain limit where l: "sm_model_max_context model = Some limit" "0 \<le> limit"
    using assms(2) by (fastforce simp: state_memory_spec_ok_def)
  then have t: "tokens = limit div block * block" using assms(1,4) by (simp add: maximum_tokens_def)
  show ?thesis
  proof (rule that [OF l(1) t])
    show "j * block \<le> tokens" if "j * block \<le> limit" for j
      using le_div_int [OF block that] block by (simp add: t)
    show "0 \<le> tokens" using l(2) block by (simp add: t pos_imp_zdiv_nonneg_iff)
  qed
qed

text \<open>A model whose whole per-token state is a sparse index or its retrieval: for it the code returns the
  model's context limit without looking at the budget (\<open>sparse_state_ignores_budget\<close> below).\<close>

definition sparse_only :: "state_memory_spec \<Rightarrow> bool" where
  "sparse_only model \<longleftrightarrow> \<not> grows model
     \<and> (sm_sparse_index_bytes_per_token model \<noteq> 0 \<or> sm_sparse_retrieval_bytes_per_token model \<noteq> 0)"

text \<open>What the code's search promises of a tier: its state beyond the fixed part fits the tier's budget, and no
  larger whole number of blocks within the model's context limit does.\<close>

lemma tier_tokens_best:
  assumes ok: "state_memory_spec_ok model" and block: "0 < block" and b: "0 \<le> budget" and sparse: "\<not> sparse_only model"
    and t: "maximum_tokens model budget block = Inr tokens"
  shows "0 \<le> tokens \<and> block dvd tokens
    \<and> state_bytes_of model tokens - (sm_recurrent_state_bytes model + sm_prefix_state_bytes model) \<le> budget
    \<and> (\<forall>j. tokens < j * block \<longrightarrow> (case sm_model_max_context model of None \<Rightarrow> True | Some limit \<Rightarrow> j * block \<le> limit) \<longrightarrow>
         budget < state_bytes_of model (j * block) - (sm_recurrent_state_bytes model + sm_prefix_state_bytes model))"
proof (cases "grows model")
  case True
  from maximum_tokens_optimal [OF ok block b True t] obtain k where k: "0 \<le> k" "tokens = k * block" "fits model budget block k"
    "\<And>j. k < j \<Longrightarrow> (case sm_model_max_context model of None \<Rightarrow> True | Some limit \<Rightarrow> j * block \<le> limit) \<Longrightarrow> \<not> fits model budget block j"
    by blast
  have "k < j" if "tokens < j * block" for j using that block by (simp add: k(2))
  with k block show ?thesis by (auto simp: fits_def not_le)
next
  case False
  obtain limit where l: "sm_model_max_context model = Some limit" "tokens = limit div block * block"
    "\<And>j. j * block \<le> limit \<Longrightarrow> j * block \<le> tokens" "0 \<le> tokens"
    using optimal_when_flat [OF False ok block t] by metis
  have "state_bytes_of model tokens = sm_recurrent_state_bytes model + sm_prefix_state_bytes model"
  proof -
    have "sm_kv_bytes_per_token model = 0" "sm_attention_window_bytes_per_token model = 0"
      using False state_memory_spec_nonneg [OF ok] by simp_all
    then show ?thesis using False sparse by (simp add: sparse_only_def state_bytes_of_def)
  qed
  with l b show ?thesis by (force simp: not_less [symmetric])
qed

lemma recommended_parts:
  assumes ok: "state_memory_spec_ok model" and r: "recommend_state_context memory model policy = Inr r"
    and tier: "tier \<in> set (cr_tiers r)"
  obtains ratio where "0 \<le> ratio" "ratio \<le> 1 - 4 / 2 ^ 53"
    "ct_kv_budget_bytes tier = py_scale (state_capacity_of memory model policy) ratio"
    "maximum_tokens model (ct_kv_budget_bytes tier) (cp_token_block_size policy) = Inr (ct_max_tokens tier)"
proof -
  let ?cap = "state_capacity_of memory model policy" and ?block = "cp_token_block_size policy"
  obtain r' where r': "recommend_state_context memory model policy = Inr r'"
    and tiers: "cr_tiers r' = map (\<lambda>(name, ratio).
      \<lparr>ct_name = name, ct_max_tokens = tier_tokens model ?cap ?block ratio,
       ct_kv_budget_bytes = py_scale ?cap ratio\<rparr>) tier_ratios"
    using recommend_tiers [OF ok refl refl] by blast
  have "tier \<in> set (cr_tiers r')" using tier r r' by simp
  then obtain name ratio where ratio: "(name, ratio) \<in> set tier_ratios"
    and t: "ct_max_tokens tier = tier_tokens model ?cap ?block ratio" "ct_kv_budget_bytes tier = py_scale ?cap ratio"
    unfolding tiers by auto
  obtain tokens where tk: "maximum_tokens model (py_scale ?cap ratio) ?block = Inr tokens"
    using maximum_tokens_total [OF ok] by blast
  then have "maximum_tokens model (ct_kv_budget_bytes tier) ?block = Inr (ct_max_tokens tier)"
    by (simp add: t tier_tokens_def)
  then show ?thesis using that tier_ratios_bounds [OF ratio] t(2) by blast
qed

lemma recommended_limits:
  assumes "recommend_state_context memory model policy = Inr r"
  shows "cr_allocatable_bytes r = allocatable_of memory policy
    \<and> (cr_limiting_factor r = Some ''insufficient_memory'' \<longleftrightarrow> state_capacity_of memory model policy = 0)"
  using assms by (auto simp: recommend_state_context_def Let_def limiting_factor_of_def split: sum.splits prod.splits if_splits)


text \<open>The tiers come in the order safe, balanced, aggressive with non-decreasing budgets and
  token counts, and no budget exceeds the state capacity.\<close>
theorem tiers_are_ordered:
  assumes ok: "state_memory_spec_ok model" and pol: "context_policy_ok policy"
    and r: "recommend_state_context memory model policy = Inr r"
  shows "map ct_name (cr_tiers r) = [''safe'', ''balanced'', ''aggressive'']
    \<and> sorted (map ct_max_tokens (cr_tiers r)) \<and> sorted (map ct_kv_budget_bytes (cr_tiers r))
    \<and> (\<forall>b\<in>set (map ct_kv_budget_bytes (cr_tiers r)).
          0 \<le> b \<and> b \<le> state_capacity_of memory model policy)"
proof -
  define cap where "cap = state_capacity_of memory model policy"
  define block where "block = cp_token_block_size policy"
  have block: "0 < block" using pol by (simp add: block_def context_policy_ok_def)
  have cap: "0 \<le> cap" by (simp add: cap_def state_capacity_of_def)
  obtain r' where "recommend_state_context memory model policy = Inr r'"
    and tiers: "cr_tiers r' = map (\<lambda>(name, ratio).
      \<lparr>ct_name = name, ct_max_tokens = tier_tokens model cap block ratio,
       ct_kv_budget_bytes = py_scale cap ratio\<rparr>) tier_ratios"
    using recommend_tiers [OF ok cap_def block_def] by blast
  with r have r': "r' = r" by simp
  have mono: "tier_tokens model cap block a \<le> tier_tokens model cap block b
      \<and> py_scale cap a \<le> py_scale cap b" if "0 \<le> a" "a \<le> b" for a b
  proof -
    have ab: "0 \<le> py_scale cap a" "py_scale cap a \<le> py_scale cap b"
      using cap that by (auto simp: py_scale_nonneg py_scale_mono_ratio)
    obtain ta where ta: "maximum_tokens model (py_scale cap a) block = Inr ta"
      using ok by (rule maximum_tokens_total)
    obtain tb where tb: "maximum_tokens model (py_scale cap b) block = Inr tb"
      using ok by (rule maximum_tokens_total)
    have "ta \<le> tb" by (rule maximum_tokens_mono [OF ok block ab ta tb])
    with ta tb ab(2) show ?thesis by (simp add: tier_tokens_def)
  qed
  have le: "0 \<le> py_scale cap a \<and> py_scale cap a \<le> cap" if "(n, a) \<in> set tier_ratios" for n a
    using tier_ratios_bounds [OF that] cap by (simp add: py_scale_nonneg py_scale_le)
  have bounds: "\<forall>b\<in>set (map ct_kv_budget_bytes (cr_tiers r)). 0 \<le> b \<and> b \<le> cap"
    using le tiers r' by auto
  have m1: "tier_tokens model cap block (lit 70 100) \<le> tier_tokens model cap block (lit 85 100)
      \<and> py_scale cap (lit 70 100) \<le> py_scale cap (lit 85 100)"
    by (rule mono) (use lit_tiers in auto)
  have m2: "tier_tokens model cap block (lit 85 100) \<le> tier_tokens model cap block (lit 95 100)
      \<and> py_scale cap (lit 85 100) \<le> py_scale cap (lit 95 100)"
    by (rule mono) (use lit_tiers in auto)
  show ?thesis
    using bounds m1 m2 tiers r' by (simp add: tier_ratios_def cap_def [symmetric])
qed

section \<open>A concrete machine\<close>

text \<open>A 16 GiB machine with 12 GiB free and a small grouped-query model, used by the witnesses.\<close>

definition example_memory :: memory_info where
  "example_memory =
     \<lparr>mi_total_bytes = 17179869184, mi_available_bytes = 12884901888,
      mi_process_resident_bytes = 0, mi_pressure = MP_Normal, mi_source = ''vm_stat''\<rparr>"

definition example_model :: state_memory_spec where
  "example_model =
     \<lparr>sm_model_id = ''gemma'', sm_architecture = ''transformer'',
      sm_weights_bytes = 4294967296, sm_kv_bytes_per_token = 106496, sm_recurrent_state_bytes = 0,
      sm_prefix_state_bytes = 0, sm_attention_window_bytes_per_token = 0,
      sm_attention_window_tokens = None, sm_sparse_index_bytes_per_token = 0,
      sm_sparse_retrieval_bytes_per_token = 0, sm_sparse_retrieval_tokens = None,
      sm_expert_storage_bytes = 0, sm_expert_working_set_bytes = 0, sm_ngram_storage_bytes = 0,
      sm_ngram_working_set_bytes = 0, sm_mtp_storage_bytes = 0, sm_mtp_working_set_bytes = 0,
      sm_scratch_workspace_bytes = 0, sm_model_max_context = None\<rparr>"

definition example_recommendation :: context_recommendation where
  "example_recommendation =
     \<lparr>cr_model_id = ''gemma'', cr_allocatable_bytes = 11510512354,
      cr_os_reserve_bytes = 3221225472, cr_safety_headroom_bytes = 1374389534,
      cr_workspace_bytes = 214748364,
      cr_tiers =
        [\<lparr>ct_name = ''safe'', ct_max_tokens = 45824, ct_kv_budget_bytes = 4900557685\<rparr>,
         \<lparr>ct_name = ''balanced'', ct_max_tokens = 55808, ct_kv_budget_bytes = 5950677189\<rparr>,
         \<lparr>ct_name = ''aggressive'', ct_max_tokens = 62208, ct_kv_budget_bytes = 6650756859\<rparr>],
      cr_limiting_factor = Some ''current_memory_availability''\<rparr>"

lemma example_os_reserve: "os_reserve_of example_memory default_context_policy = 3221225472"
  by code_simp

lemma example_safety: "safety_of example_memory default_context_policy = 1374389534"
  by code_simp

lemma example_workspace: "workspace_of example_model default_context_policy = 214748364"
  by code_simp

lemma example_budgets:
  "py_scale 7000796694 (lit 70 100) = 4900557685"
  "py_scale 7000796694 (lit 85 100) = 5950677189"
  "py_scale 7000796694 (lit 95 100) = 6650756859"
  by code_simp+

lemma example_tokens:
  "maximum_tokens example_model 4900557685 256 = Inr 45824"
  "maximum_tokens example_model 5950677189 256 = Inr 55808"
  "maximum_tokens example_model 6650756859 256 = Inr 62208"
  by code_simp+

lemma example_allocatable: "allocatable_of example_memory default_context_policy = 11510512354"
  unfolding allocatable_of_def capacity_limit_of_def availability_limit_of_def
    example_os_reserve example_safety
  by (simp add: example_memory_def)

lemma example_fixed: "fixed_of example_model default_context_policy = 4509715660"
  unfolding fixed_of_def example_workspace by (simp add: example_model_def)

lemma example_recommended:
  "recommend_state_context example_memory example_model default_context_policy
     = Inr example_recommendation"
proof -
  have cap: "state_capacity_of example_memory example_model default_context_policy = 7000796694"
    by (simp add: state_capacity_of_def example_allocatable example_fixed)
  have block: "cp_token_block_size default_context_policy = 256"
    by (simp add: default_context_policy_def)
  have limits: "availability_limit_of example_memory default_context_policy = 11510512354"
    "capacity_limit_of example_memory default_context_policy = 12584254178"
    unfolding availability_limit_of_def capacity_limit_of_def example_os_reserve example_safety
    by (simp_all add: example_memory_def)
  have model: "sm_model_id example_model = ''gemma''" "sm_model_max_context example_model = None"
    by (simp_all add: example_model_def)
  show ?thesis
    unfolding recommend_state_context_def cap block tier_ratios_def Let_def
    by (simp add: example_budgets example_tokens example_allocatable example_os_reserve
        example_safety example_workspace limits model limiting_factor_of_def
        example_recommendation_def)
qed

lemma example_wellformed:
  "memory_info_ok example_memory" "state_memory_spec_ok example_model"
  "context_policy_ok default_context_policy" "grows example_model"
  "fixed_of example_model default_context_policy
     \<le> allocatable_of example_memory default_context_policy"
proof -
  show "memory_info_ok example_memory" by (simp add: memory_info_ok_def example_memory_def)
  show "state_memory_spec_ok example_model"
    by (simp add: state_memory_spec_ok_def state_byte_fields_def example_model_def)
  show "context_policy_ok default_context_policy" by code_simp
  show "grows example_model" by (simp add: example_model_def)
  show "fixed_of example_model default_context_policy
      \<le> allocatable_of example_memory default_context_policy"
    by (simp add: example_allocatable example_fixed)
qed


theorem maximum_tokens_optimal_witness:
  "maximum_tokens example_model 4900557685 256 = Inr 45824
   \<and> (\<exists>k\<ge>0. 45824 = k * 256 \<and> fits example_model 4900557685 256 k
      \<and> (\<forall>j>k. \<not> fits example_model 4900557685 256 j))"
proof -
  note t = example_tokens(1)
  have none: "sm_model_max_context example_model = None" by (simp add: example_model_def)
  show ?thesis
    using maximum_tokens_optimal [OF example_wellformed(2) _ _ example_wellformed(4) t] t none
    by auto
qed

theorem tiers_are_ordered_witness:
  "sorted (map ct_max_tokens (cr_tiers example_recommendation))"
  using tiers_are_ordered [OF example_wellformed(2) example_wellformed(3) example_recommended]
  by blast

text \<open>A model whose state is a sparse index only (no KV bytes and no attention window per
  token) passes the specification check, but the tier computation returns its whole context limit
  whatever the budget: here \<open>1048576\<close> tokens for a budget of one byte, while the index at that
  length takes 64 MiB.  The early return on \<open>per_token == 0\<close> leaves the sparse bytes out.\<close>
theorem sparse_state_ignores_budget:
  "state_memory_spec_ok (example_model\<lparr>sm_kv_bytes_per_token := 0,
       sm_sparse_index_bytes_per_token := 64, sm_model_max_context := Some 1048576\<rparr>)
   \<and> maximum_tokens (example_model\<lparr>sm_kv_bytes_per_token := 0,
       sm_sparse_index_bytes_per_token := 64, sm_model_max_context := Some 1048576\<rparr>) 1 256
     = Inr 1048576
   \<and> state_bytes_of (example_model\<lparr>sm_kv_bytes_per_token := 0,
       sm_sparse_index_bytes_per_token := 64, sm_model_max_context := Some 1048576\<rparr>) 1048576
     = 64 * MIB"
  by code_simp

end
