(* ===== verification/ExecutionTypes.thy ===== *)
theory ExecutionTypes
  imports RuntimeTypes "HOL-Library.List_Lexorder" "HOL-Library.Char_ord"
begin

text \<open>
  The data of \<open>vllm_apple/execution.py\<close>: workload phases and execution backends with their
  string values and the lookup by value (a round trip), the order \<open>sorted\<close> gives backends, chip
  profiles with their constructor check, and execution plans, with the dictionaries they print.
\<close>

section \<open>Phases and backends\<close>

datatype workload_phase =
  Prefill | Decode | Sampling | VisionEncoder | AudioEncoder | Embedding | Classifier | Draft
  | Verify | Auxiliary

fun workload_phase_value :: "workload_phase \<Rightarrow> string" where
  "workload_phase_value Prefill = ''prefill''"
| "workload_phase_value Decode = ''decode''"
| "workload_phase_value Sampling = ''sampling''"
| "workload_phase_value VisionEncoder = ''vision_encoder''"
| "workload_phase_value AudioEncoder = ''audio_encoder''"
| "workload_phase_value Embedding = ''embedding''"
| "workload_phase_value Classifier = ''classifier''"
| "workload_phase_value Draft = ''draft''"
| "workload_phase_value Verify = ''verify''"
| "workload_phase_value Auxiliary = ''auxiliary''"

definition all_phases :: "workload_phase list" where
  "all_phases = [Prefill, Decode, Sampling, VisionEncoder, AudioEncoder, Embedding, Classifier,
     Draft, Verify, Auxiliary]"

text \<open>\<open>WorkloadPhase(value)\<close>: the member with that value, \<open>None\<close> for the \<open>ValueError\<close>.\<close>

definition phase_of_value :: "string \<Rightarrow> workload_phase option" where
  "phase_of_value v = find (\<lambda>p. workload_phase_value p = v) all_phases"

datatype execution_backend = VLLM_METAL | NATIVE_MLX | NATIVE_METAL | COREML_DRAFT | CPU

fun execution_backend_value :: "execution_backend \<Rightarrow> string" where
  "execution_backend_value VLLM_METAL = ''vllm_metal''"
| "execution_backend_value NATIVE_MLX = ''native_mlx''"
| "execution_backend_value NATIVE_METAL = ''native_metal''"
| "execution_backend_value COREML_DRAFT = ''coreml_draft''"
| "execution_backend_value CPU = ''cpu''"

definition all_backends :: "execution_backend list" where
  "all_backends = [VLLM_METAL, NATIVE_MLX, NATIVE_METAL, COREML_DRAFT, CPU]"

definition backend_of_value :: "string \<Rightarrow> execution_backend option" where
  "backend_of_value v = find (\<lambda>b. execution_backend_value b = v) all_backends"

lemma all_backends_complete [simp]: "set all_backends = UNIV"
  unfolding all_backends_def using execution_backend.exhaust by auto

lemma backend_of_value [simp]: "backend_of_value (execution_backend_value b) = Some b"
  by (cases b) (simp_all add: backend_of_value_def all_backends_def)

lemma execution_backend_value_inject [simp]:
  "execution_backend_value a = execution_backend_value b \<longleftrightarrow> a = b"
  by (metis backend_of_value option.inject)

lemma distinct_backends_length:
  assumes "distinct (bs :: execution_backend list)"
  shows "length bs \<le> 5"
proof -
  have "card (set bs) \<le> card (set all_backends)" by (rule card_mono [OF finite_set]) simp
  also have "card (set all_backends) \<le> 5"
    by (rule order_trans [OF card_length]) (simp add: all_backends_def)
  finally show ?thesis using assms by (simp add: distinct_card)
qed

text \<open>\<open>sorted(..., key=lambda item: (item[0].value, ...))\<close> orders backends by their value.\<close>

instantiation execution_backend :: linorder
begin

definition less_eq_execution_backend :: "execution_backend \<Rightarrow> execution_backend \<Rightarrow> bool" where
  "less_eq_execution_backend a b \<longleftrightarrow> execution_backend_value a \<le> execution_backend_value b"

definition less_execution_backend :: "execution_backend \<Rightarrow> execution_backend \<Rightarrow> bool" where
  "less_execution_backend a b \<longleftrightarrow> execution_backend_value a < execution_backend_value b"

instance
  by standard (auto simp: less_eq_execution_backend_def less_execution_backend_def order_less_le)

end

section \<open>Chip profiles\<close>

record apple_chip_profile =
  chip_profile_version :: int
  chip_hardware_fingerprint :: string
  chip_soc :: string
  chip_total_memory_bytes :: int
  chip_backends :: "execution_backend list"
  chip_precisions :: "string list"
  chip_platform :: string
  chip_architecture :: string
  chip_os_version :: string
  chip_gpu_core_count :: "int option"
  chip_capability_issues :: "string list"
  chip_measured_memory_bandwidth :: "int option"
  chip_metal_launch_latency :: "int option"

definition inference_backends :: "execution_backend list" where
  "inference_backends = [VLLM_METAL, NATIVE_MLX, NATIVE_METAL, CPU]"

definition chip_profile_init :: "apple_chip_profile \<Rightarrow> apple_chip_profile result" where
  "chip_profile_init c =
     (if chip_profile_version c \<le> 0 \<or> chip_hardware_fingerprint c = [] \<or> chip_soc c = []
        then Inl (ValueError ''invalid chip profile identity'')
      else if chip_total_memory_bytes c \<le> 0 \<or> chip_backends c = []
        then Inl (ValueError ''chip profile requires memory and at least one backend'')
      else if chip_precisions c = []
        then Inl (ValueError ''chip profile requires at least one precision'')
      else if nonpositive (chip_gpu_core_count c)
        then Inl (ValueError ''gpu_core_count must be positive'')
      else if \<not> list_ex (\<lambda>b. b \<in> set inference_backends) (chip_backends c)
        then Inl (ValueError ''chip profile requires a main-model inference backend'')
      else Inr c)"

definition chip_profile_ok :: "apple_chip_profile \<Rightarrow> bool" where
  "chip_profile_ok c \<longleftrightarrow>
     0 < chip_profile_version c \<and> chip_hardware_fingerprint c \<noteq> [] \<and> chip_soc c \<noteq> [] \<and>
     0 < chip_total_memory_bytes c \<and> chip_backends c \<noteq> [] \<and> chip_precisions c \<noteq> [] \<and>
     \<not> nonpositive (chip_gpu_core_count c) \<and>
     list_ex (\<lambda>b. b \<in> set inference_backends) (chip_backends c)"

lemma chip_profile_init_iff [guards]:
  "chip_profile_init c = Inr c' \<longleftrightarrow> chip_profile_ok c \<and> c' = c"
  unfolding chip_profile_init_def chip_profile_ok_def by (simp split: if_split) auto

definition j_strings :: "string list \<Rightarrow> json" where
  "j_strings xs = JList (map JStr xs)"

definition chip_profile_to_dict :: "apple_chip_profile \<Rightarrow> json" where
  "chip_profile_to_dict c = JObj
     [(''profile_version'', JInt (chip_profile_version c)),
      (''hardware_fingerprint'', JStr (chip_hardware_fingerprint c)),
      (''soc'', JStr (chip_soc c)),
      (''total_memory_bytes'', JInt (chip_total_memory_bytes c)),
      (''backends'', j_strings (map execution_backend_value (chip_backends c))),
      (''precisions'', j_strings (chip_precisions c)),
      (''platform'', JStr (chip_platform c)),
      (''architecture'', JStr (chip_architecture c)),
      (''os_version'', JStr (chip_os_version c)),
      (''gpu_core_count'', j_option JInt (chip_gpu_core_count c)),
      (''capability_issues'', j_strings (chip_capability_issues c)),
      (''measured_memory_bandwidth_bytes_per_second'',
         j_option JInt (chip_measured_memory_bandwidth c)),
      (''metal_launch_latency_nanoseconds'', j_option JInt (chip_metal_launch_latency c))]"

section \<open>Plans\<close>

record phase_execution_plan =
  pp_phase :: workload_phase
  pp_backend :: execution_backend
  pp_batch_size :: int
  pp_state_precision :: string

record apple_execution_plan =
  ep_schema_version :: int
  ep_plan_id :: string
  ep_model_id :: string
  ep_hardware_fingerprint :: string
  ep_context_tokens :: int
  ep_memory_ceiling_bytes :: int
  ep_estimated_peak_bytes :: int
  ep_prefill :: phase_execution_plan
  ep_decode :: phase_execution_plan
  ep_fallback_chain :: "execution_backend list"
  ep_decision_reasons :: "string list"
  ep_dry_run :: bool

definition phase_plan_to_dict :: "phase_execution_plan \<Rightarrow> json" where
  "phase_plan_to_dict p = JObj
     [(''phase'', JStr (workload_phase_value (pp_phase p))),
      (''backend'', JStr (execution_backend_value (pp_backend p))),
      (''batch_size'', JInt (pp_batch_size p)),
      (''state_precision'', JStr (pp_state_precision p))]"

definition execution_plan_to_dict :: "apple_execution_plan \<Rightarrow> json" where
  "execution_plan_to_dict p = JObj
     [(''schema_version'', JInt (ep_schema_version p)),
      (''plan_id'', JStr (ep_plan_id p)),
      (''model_id'', JStr (ep_model_id p)),
      (''hardware_fingerprint'', JStr (ep_hardware_fingerprint p)),
      (''context_tokens'', JInt (ep_context_tokens p)),
      (''memory_ceiling_bytes'', JInt (ep_memory_ceiling_bytes p)),
      (''estimated_peak_bytes'', JInt (ep_estimated_peak_bytes p)),
      (''prefill'', phase_plan_to_dict (ep_prefill p)),
      (''decode'', phase_plan_to_dict (ep_decode p)),
      (''fallback_chain'', j_strings (map execution_backend_value (ep_fallback_chain p))),
      (''decision_reasons'', j_strings (ep_decision_reasons p)),
      (''dry_run'', JBool (ep_dry_run p))]"

end
