(* ===== verification/Execution.thy ===== *)
theory Execution
  imports ContextPlan ExecutionTypes
begin

text \<open>
  \<open>AppleExecutionPlanner\<close> of \<open>vllm_apple/execution.py\<close>, which turns a model, a machine and a chip into an execution plan.  The plan identifier is a
  SHA-256 digest of a JSON seed; the digest is a parameter \<open>digest\<close> of the planner, and nothing
  proved here depends on it.

  The planner lemmas show that a plan never needs more memory than its ceiling, never exceeds the
  requested or the balanced context, uses a backend and a precision the chip has, and that the
  only failure for a well-formed input is fixed memory beyond the ceiling.
\<close>

section \<open>The planner's choices\<close>

definition preferred_backend :: "execution_backend list \<Rightarrow> execution_backend result" where
  "preferred_backend backends =
     (case find (\<lambda>candidate. candidate \<in> set backends)
             [VLLM_METAL, NATIVE_MLX, NATIVE_METAL, CPU] of
        None \<Rightarrow> Inl StopIteration
      | Some candidate \<Rightarrow> Inr candidate)"

definition state_precision :: "memory_pressure \<Rightarrow> string list \<Rightarrow> string" where
  "state_precision pressure precisions =
     (let fallback = (if ''fp16'' \<in> set precisions then ''fp16'' else hd precisions)
      in if pressure \<in> {MP_Warning, MP_Critical}
         then (case find (\<lambda>candidate. candidate \<in> set precisions) [''int8'', ''q8'', ''fp16''] of
                 Some candidate \<Rightarrow> candidate | None \<Rightarrow> fallback)
         else fallback)"

definition prefill_batch_limit :: "memory_pressure \<Rightarrow> thermal_state \<Rightarrow> power_mode \<Rightarrow> int" where
  "prefill_batch_limit pressure thermal mode =
     (if pressure \<in> {MP_Warning, MP_Critical} then 1
      else if thermal \<in> {TS_Serious, TS_Critical} then 1
      else if mode = PM_LowPower then 1
      else if thermal \<in> {TS_Fair, TS_Unknown} then 2
      else if mode = PM_Unknown then 2
      else 4)"

text \<open>The loop \<open>while context_tokens > 0 and estimated_peak > ceiling\<close>.\<close>

function shrink_context :: "state_memory_spec \<Rightarrow> int \<Rightarrow> int \<Rightarrow> int \<Rightarrow> int" where
  "shrink_context model block cap context =
     (if 0 < block \<and> 0 < context \<and> cap < total_bytes_of model context
      then shrink_context model block cap (max 0 (context - block))
      else context)"
  by pat_completeness auto
termination
  by (relation "measure (\<lambda>(model, block, cap, context). nat context)") auto

declare shrink_context.simps [simp del]

definition state_memory_spec_to_dict :: "state_memory_spec \<Rightarrow> json" where
  "state_memory_spec_to_dict s = JObj
     [(''model_id'', JStr (sm_model_id s)),
      (''architecture'', JStr (sm_architecture s)),
      (''weights_bytes'', JInt (sm_weights_bytes s)),
      (''kv_bytes_per_token'', JInt (sm_kv_bytes_per_token s)),
      (''recurrent_state_bytes'', JInt (sm_recurrent_state_bytes s)),
      (''prefix_state_bytes'', JInt (sm_prefix_state_bytes s)),
      (''attention_window_bytes_per_token'', JInt (sm_attention_window_bytes_per_token s)),
      (''attention_window_tokens'', j_option JInt (sm_attention_window_tokens s)),
      (''sparse_index_bytes_per_token'', JInt (sm_sparse_index_bytes_per_token s)),
      (''sparse_retrieval_bytes_per_token'', JInt (sm_sparse_retrieval_bytes_per_token s)),
      (''sparse_retrieval_tokens'', j_option JInt (sm_sparse_retrieval_tokens s)),
      (''expert_storage_bytes'', JInt (sm_expert_storage_bytes s)),
      (''expert_working_set_bytes'', JInt (sm_expert_working_set_bytes s)),
      (''ngram_storage_bytes'', JInt (sm_ngram_storage_bytes s)),
      (''ngram_working_set_bytes'', JInt (sm_ngram_working_set_bytes s)),
      (''mtp_storage_bytes'', JInt (sm_mtp_storage_bytes s)),
      (''mtp_working_set_bytes'', JInt (sm_mtp_working_set_bytes s)),
      (''scratch_workspace_bytes'', JInt (sm_scratch_workspace_bytes s)),
      (''model_max_context'', j_option JInt (sm_model_max_context s))]"

record plan_inputs =
  pi_model :: state_memory_spec
  pi_memory :: memory_info
  pi_chip :: apple_chip_profile
  pi_requested_context_tokens :: "int option"
  pi_thermal_state :: thermal_state
  pi_power_mode :: power_mode
  pi_dry_run :: bool

definition plan_seed :: "plan_inputs \<Rightarrow> int \<Rightarrow> execution_backend \<Rightarrow> string \<Rightarrow> json" where
  "plan_seed i context b precision = JObj
     [(''schema_version'', JInt 1),
      (''model'', state_memory_spec_to_dict (pi_model i)),
      (''memory'', memory_info_to_dict (pi_memory i)),
      (''chip'', chip_profile_to_dict (pi_chip i)),
      (''context_tokens'', JInt context),
      (''backend'', JStr (execution_backend_value b)),
      (''precision'', JStr precision),
      (''thermal_state'', JStr (thermal_state_value (pi_thermal_state i))),
      (''power_mode'', JStr (power_mode_value (pi_power_mode i)))]"

definition context_request :: "int \<Rightarrow> int option \<Rightarrow> (int \<times> string list) result" where
  "context_request balanced requested =
     (case requested of
        None \<Rightarrow> Inr (balanced, [])
      | Some wanted \<Rightarrow>
          if wanted \<le> 0 then Inl (ValueError ''requested_context_tokens must be positive'')
          else let tokens = min balanced wanted
               in Inr (tokens,
                    [if tokens = wanted then ''context:requested'' else ''context:clamped'']))"

definition plan_for ::
  "(json \<Rightarrow> string) \<Rightarrow> context_policy \<Rightarrow> plan_inputs \<Rightarrow> context_recommendation \<Rightarrow> int
    \<Rightarrow> string list \<Rightarrow> execution_backend \<Rightarrow> apple_execution_plan result" where
  "plan_for digest policy i recommendation start reasons b =
     (let precision = state_precision (mi_pressure (pi_memory i)) (chip_precisions (pi_chip i));
          batch = (if b = CPU then 1
                   else prefill_batch_limit (mi_pressure (pi_memory i)) (pi_thermal_state i)
                          (pi_power_mode i));
          cap = cr_allocatable_bytes recommendation;
          context = shrink_context (pi_model i) (cp_token_block_size policy) cap start;
          peak = total_bytes_of (pi_model i) context
      in if cap < peak
         then Inl (ValueError ''model fixed memory exceeds the safe memory ceiling'')
         else Inr \<lparr>ep_schema_version = 1,
                   ep_plan_id = take 24 (digest (plan_seed i context b precision)),
                   ep_model_id = sm_model_id (pi_model i),
                   ep_hardware_fingerprint = chip_hardware_fingerprint (pi_chip i),
                   ep_context_tokens = context,
                   ep_memory_ceiling_bytes = cap,
                   ep_estimated_peak_bytes = peak,
                   ep_prefill = \<lparr>pp_phase = Prefill, pp_backend = b, pp_batch_size = batch,
                     pp_state_precision = precision\<rparr>,
                   ep_decode = \<lparr>pp_phase = Decode, pp_backend = b, pp_batch_size = 1,
                     pp_state_precision = precision\<rparr>,
                   ep_fallback_chain = filter (\<lambda>c. c \<noteq> b) (chip_backends (pi_chip i)),
                   ep_decision_reasons = reasons @
                     [''thermal:'' @ thermal_state_value (pi_thermal_state i),
                      ''power:'' @ power_mode_value (pi_power_mode i)],
                   ep_dry_run = pi_dry_run i\<rparr>)"

definition plan ::
  "(json \<Rightarrow> string) \<Rightarrow> context_policy \<Rightarrow> plan_inputs \<Rightarrow> apple_execution_plan result" where
  "plan digest policy i =
     (if mi_total_bytes (pi_memory i) \<noteq> chip_total_memory_bytes (pi_chip i)
      then Inl (ValueError ''memory and chip profile totals must match'')
      else case recommend_state_context (pi_memory i) (pi_model i) policy of
        Inl e \<Rightarrow> Inl e
      | Inr recommendation \<Rightarrow>
          (case find (\<lambda>tier. ct_name tier = ''balanced'') (cr_tiers recommendation) of
             None \<Rightarrow> Inl StopIteration
           | Some balanced \<Rightarrow>
               (case context_request (ct_max_tokens balanced) (pi_requested_context_tokens i) of
                  Inl e \<Rightarrow> Inl e
                | Inr (start, extra) \<Rightarrow>
                    (case preferred_backend (chip_backends (pi_chip i)) of
                       Inl e \<Rightarrow> Inl e
                     | Inr b \<Rightarrow>
                         plan_for digest policy i recommendation start
                           ((''context:'' @
                               (case cr_limiting_factor recommendation of
                                  None \<Rightarrow> ''None'' | Some f \<Rightarrow> f)) # extra) b))))"

section \<open>Lemmas on the choices\<close>

lemma preferred_backend_ok:
  assumes "chip_profile_ok c"
  obtains b where "preferred_backend (chip_backends c) = Inr b" and "b \<in> set (chip_backends c)"
proof -
  have "\<exists>b\<in>set (chip_backends c). b \<in> set inference_backends"
    using assms by (simp add: chip_profile_ok_def list_ex_iff)
  then have "find (\<lambda>candidate. candidate \<in> set (chip_backends c)) inference_backends \<noteq> None"
    by (auto simp: find_None_iff)
  then obtain b where b: "find (\<lambda>candidate. candidate \<in> set (chip_backends c)) inference_backends = Some b"
    by blast
  then have "b \<in> set (chip_backends c)" by (auto simp: find_Some_iff)
  with b show ?thesis by (intro that) (simp_all add: preferred_backend_def inference_backends_def)
qed

lemma state_precision_member: "precisions \<noteq> [] \<Longrightarrow> state_precision pressure precisions \<in> set precisions"
  by (auto simp: state_precision_def Let_def find_Some_iff split: option.split)

lemma prefill_batch_limit_bounds:
  "prefill_batch_limit pressure thermal mode \<in> {1, 2, 4}"
  "pressure \<in> {MP_Warning, MP_Critical} \<or> thermal \<in> {TS_Serious, TS_Critical} \<or> mode = PM_LowPower
    \<Longrightarrow> prefill_batch_limit pressure thermal mode = 1"
  by (auto simp: prefill_batch_limit_def)

lemma shrink_context_spec:
  assumes "0 < block" and "0 \<le> context"
  shows "0 \<le> shrink_context model block cap context
    \<and> shrink_context model block cap context \<le> context
    \<and> (total_bytes_of model (shrink_context model block cap context) \<le> cap
        \<or> shrink_context model block cap context = 0)"
  using assms
proof (induction model block cap "context" rule: shrink_context.induct)
  case (1 model block cap ctx)
  show ?case
  proof (cases "0 < block \<and> 0 < ctx \<and> cap < total_bytes_of model ctx")
    case True
    have "0 \<le> max 0 (ctx - block)" by simp
    from "1.IH" [OF True "1.prems"(1) this] True "1.prems"
    show ?thesis by (subst (1 2 3 4) shrink_context.simps) auto
  next
    case False
    then show ?thesis using "1.prems" by (subst (1 2 3 4) shrink_context.simps) auto
  qed
qed

lemma tier_tokens_nonneg:
  assumes ok: "state_memory_spec_ok model" and block: "0 < block" and cap: "0 \<le> cap"
    and r: "0 \<le> r" "r \<le> 1 - 4 / 2 ^ 53"
  shows "0 \<le> tier_tokens model cap block r"
proof (cases "grows model")
  case True
  then show ?thesis using tier_tokens_fit(2) [OF ok block True cap r] by simp
next
  case False
  have "\<not> nonpositive (sm_model_max_context model)" using ok by (simp add: state_memory_spec_ok_def)
  then show ?thesis
    using False block by (auto simp: tier_tokens_def maximum_tokens_def pos_imp_zdiv_nonneg_iff
        split: option.splits)
qed

text \<open>The planner past its input checks: everything is decided by \<open>plan_for\<close> at a non-negative
  start no larger than what was requested.\<close>

lemma plan_reduces:
  assumes ok: "state_memory_spec_ok (pi_model i)" and chip: "chip_profile_ok (pi_chip i)"
    and pol: "context_policy_ok policy"
    and totals: "mi_total_bytes (pi_memory i) = chip_total_memory_bytes (pi_chip i)"
    and req: "\<not> nonpositive (pi_requested_context_tokens i)"
  obtains recommendation start reasons b where
    "plan digest policy i = plan_for digest policy i recommendation start reasons b"
    "cr_allocatable_bytes recommendation = allocatable_of (pi_memory i) policy"
    "0 \<le> start" "b \<in> set (chip_backends (pi_chip i))"
    "case pi_requested_context_tokens i of None \<Rightarrow> True | Some wanted \<Rightarrow> start \<le> wanted"
proof -
  define cap where "cap = state_capacity_of (pi_memory i) (pi_model i) policy"
  define block where "block = cp_token_block_size policy"
  obtain r where r: "recommend_state_context (pi_memory i) (pi_model i) policy = Inr r"
    and alloc: "cr_allocatable_bytes r = allocatable_of (pi_memory i) policy"
    and tiers: "cr_tiers r = map (\<lambda>(name, ratio).
      \<lparr>ct_name = name, ct_max_tokens = tier_tokens (pi_model i) cap block ratio,
       ct_kv_budget_bytes = py_scale cap ratio\<rparr>) tier_ratios"
    using recommend_tiers [OF ok cap_def block_def] by blast
  obtain b where b: "preferred_backend (chip_backends (pi_chip i)) = Inr b"
    "b \<in> set (chip_backends (pi_chip i))"
    using chip by (rule preferred_backend_ok)
  define t where "t = tier_tokens (pi_model i) cap block (lit 85 100)"
  have block: "0 < block" and cap: "0 \<le> cap"
    using pol by (simp_all add: block_def cap_def context_policy_ok_def state_capacity_of_def)
  have bal: "find (\<lambda>tier. ct_name tier = ''balanced'') (cr_tiers r)
      = Some \<lparr>ct_name = ''balanced'', ct_max_tokens = t, ct_kv_budget_bytes = py_scale cap (lit 85 100)\<rparr>"
    by (simp add: tiers tier_ratios_def t_def)
  have "0 \<le> lit 85 100 \<and> lit 85 100 \<le> 1 - 4 / 2 ^ 53"
    by (rule tier_ratios_bounds [of "''balanced''"]) (simp add: tier_ratios_def)
  then have t: "0 \<le> t" unfolding t_def using ok block cap by (intro tier_tokens_nonneg) auto
  have "\<exists>start extra. context_request t (pi_requested_context_tokens i) = Inr (start, extra) \<and> 0 \<le> start
      \<and> (case pi_requested_context_tokens i of None \<Rightarrow> True | Some wanted \<Rightarrow> start \<le> wanted)"
    using req t by (auto simp: context_request_def Let_def split: option.splits)
  then obtain start extra where s: "context_request t (pi_requested_context_tokens i) = Inr (start, extra)"
    "0 \<le> start"
    "case pi_requested_context_tokens i of None \<Rightarrow> True | Some wanted \<Rightarrow> start \<le> wanted" by blast
  show ?thesis
    by (rule that [OF _ alloc s(2) b(2) s(3)]) (simp add: plan_def totals r bal s(1) b(1))
qed

text \<open>The outcome of planning for well-formed inputs.\<close>

lemma plan_decides:
  assumes ok: "state_memory_spec_ok (pi_model i)"
    and chip: "chip_profile_ok (pi_chip i)" and pol: "context_policy_ok policy"
    and totals: "mi_total_bytes (pi_memory i) = chip_total_memory_bytes (pi_chip i)"
    and req: "\<not> nonpositive (pi_requested_context_tokens i)"
  shows "if allocatable_of (pi_memory i) policy < fixed_bytes (pi_model i)
    then plan digest policy i
      = Inl (ValueError ''model fixed memory exceeds the safe memory ceiling'')
    else \<exists>p. plan digest policy i = Inr p"
proof -
  obtain r start reasons b where
    eq: "plan digest policy i = plan_for digest policy i r start reasons b"
    and alloc: "cr_allocatable_bytes r = allocatable_of (pi_memory i) policy"
    and start: "0 \<le> start"
    using plan_reduces [OF ok chip pol totals req] by metis
  define c where "c = shrink_context (pi_model i) (cp_token_block_size policy)
    (allocatable_of (pi_memory i) policy) start"
  have block: "0 < cp_token_block_size policy" using pol by (simp add: context_policy_ok_def)
  have c: "0 \<le> c" "total_bytes_of (pi_model i) c \<le> allocatable_of (pi_memory i) policy \<or> c = 0"
    using shrink_context_spec [OF block start] unfolding c_def by auto
  have "fixed_bytes (pi_model i) \<le> total_bytes_of (pi_model i) c"
    using total_bytes_of_mono [OF ok c(1)] total_bytes_of_zero [OF ok] by simp
  then have "allocatable_of (pi_memory i) policy < total_bytes_of (pi_model i) c
      \<longleftrightarrow> allocatable_of (pi_memory i) policy < fixed_bytes (pi_model i)"
    using c(2) total_bytes_of_zero [OF ok] by auto
  moreover note eq [unfolded plan_for_def Let_def alloc, folded c_def]
  ultimately show ?thesis by auto
qed

section \<open>Properties\<close>

text \<open>C7: every plan the planner returns is safe to activate: its estimated peak is the model's
  memory at the planned context, stays within the ceiling and hence within the available memory;
  the context is not larger than requested; backend, fallback chain and the state precision of both
  phases come from the chip profile; the decode batch is 1 and the prefill batch is 1 under memory pressure, thermal
  throttling or low power.\<close>

theorem plan_is_safe:
  assumes mem: "memory_info_ok (pi_memory i)" and ok: "state_memory_spec_ok (pi_model i)"
    and chip: "chip_profile_ok (pi_chip i)" and pol: "context_policy_ok policy"
    and totals: "mi_total_bytes (pi_memory i) = chip_total_memory_bytes (pi_chip i)"
    and req: "\<not> nonpositive (pi_requested_context_tokens i)"
    and p: "plan digest policy i = Inr p"
  shows "ep_estimated_peak_bytes p = total_bytes_of (pi_model i) (ep_context_tokens p)
    \<and> ep_estimated_peak_bytes p \<le> ep_memory_ceiling_bytes p
    \<and> ep_memory_ceiling_bytes p \<le> mi_available_bytes (pi_memory i)
    \<and> 0 \<le> ep_context_tokens p
    \<and> (case pi_requested_context_tokens i of None \<Rightarrow> True | Some w \<Rightarrow> ep_context_tokens p \<le> w)
    \<and> pp_backend (ep_prefill p) \<in> set (chip_backends (pi_chip i))
    \<and> pp_backend (ep_decode p) = pp_backend (ep_prefill p)
    \<and> set (ep_fallback_chain p) = set (chip_backends (pi_chip i)) - {pp_backend (ep_prefill p)}
    \<and> pp_state_precision (ep_decode p) \<in> set (chip_precisions (pi_chip i))
    \<and> pp_state_precision (ep_prefill p) = pp_state_precision (ep_decode p)
    \<and> pp_batch_size (ep_decode p) = 1
    \<and> (mi_pressure (pi_memory i) \<in> {MP_Warning, MP_Critical}
        \<or> pi_thermal_state i \<in> {TS_Serious, TS_Critical} \<or> pi_power_mode i = PM_LowPower
          \<longrightarrow> pp_batch_size (ep_prefill p) = 1)"
proof -
  obtain r start reasons b where
    eq: "plan digest policy i = plan_for digest policy i r start reasons b"
    and alloc: "cr_allocatable_bytes r = allocatable_of (pi_memory i) policy"
    and start: "0 \<le> start" and b: "b \<in> set (chip_backends (pi_chip i))"
    and le: "case pi_requested_context_tokens i of None \<Rightarrow> True | Some w \<Rightarrow> start \<le> w"
    using plan_reduces [OF ok chip pol totals req] by metis
  define c where "c = shrink_context (pi_model i) (cp_token_block_size policy)
    (allocatable_of (pi_memory i) policy) start"
  have block: "0 < cp_token_block_size policy" using pol by (simp add: context_policy_ok_def)
  have c: "0 \<le> c" "c \<le> start" using shrink_context_spec [OF block start] unfolding c_def by auto
  have prec: "state_precision (mi_pressure (pi_memory i)) (chip_precisions (pi_chip i))
      \<in> set (chip_precisions (pi_chip i))"
    using chip by (intro state_precision_member) (simp add: chip_profile_ok_def)
  note eq [unfolded p plan_for_def Let_def alloc, folded c_def]
  then have "total_bytes_of (pi_model i) c \<le> allocatable_of (pi_memory i) policy"
    and fields: "ep_context_tokens p = c" "ep_estimated_peak_bytes p = total_bytes_of (pi_model i) c"
      "ep_memory_ceiling_bytes p = allocatable_of (pi_memory i) policy"
      "pp_backend (ep_prefill p) = b" "pp_backend (ep_decode p) = b"
      "ep_fallback_chain p = filter (\<lambda>c. c \<noteq> b) (chip_backends (pi_chip i))"
      "pp_state_precision (ep_decode p)
        = state_precision (mi_pressure (pi_memory i)) (chip_precisions (pi_chip i))"
      "pp_state_precision (ep_prefill p) = pp_state_precision (ep_decode p)"
      "pp_batch_size (ep_decode p) = 1"
      "pp_batch_size (ep_prefill p) = (if b = CPU then 1
         else prefill_batch_limit (mi_pressure (pi_memory i)) (pi_thermal_state i) (pi_power_mode i))"
    by (auto split: if_splits)
  then show ?thesis
    using c le b prec allocatable_bounds(2) [OF mem pol] prefill_batch_limit_bounds(2)
    by (auto split: option.splits)
qed

text \<open>C31: for well-formed inputs the planner fails exactly when the model's fixed memory alone
  exceeds the ceiling, with the error that says so; the loop that shrinks the context always stops
  and reaches a fitting length otherwise.\<close>

theorem plan_fails_iff_fixed_memory_exceeds:
  assumes ok: "state_memory_spec_ok (pi_model i)"
    and chip: "chip_profile_ok (pi_chip i)" and pol: "context_policy_ok policy"
    and totals: "mi_total_bytes (pi_memory i) = chip_total_memory_bytes (pi_chip i)"
    and req: "\<not> nonpositive (pi_requested_context_tokens i)"
  shows "(\<exists>p. plan digest policy i = Inr p)
      = (fixed_bytes (pi_model i) \<le> allocatable_of (pi_memory i) policy)
    \<and> (\<forall>e. plan digest policy i = Inl e \<longrightarrow>
          e = ValueError ''model fixed memory exceeds the safe memory ceiling'')"
  using plan_decides [OF assms, of digest] by (auto split: if_splits)

section \<open>Witnesses\<close>

definition example_chip :: apple_chip_profile where
  "example_chip =
     \<lparr>chip_profile_version = 1, chip_hardware_fingerprint = ''f00d'', chip_soc = ''Apple M4'',
      chip_total_memory_bytes = 17179869184, chip_backends = [CPU, NATIVE_MLX, COREML_DRAFT],
      chip_precisions = [''fp16'', ''int8''], chip_platform = ''macOS'',
      chip_architecture = ''arm64'', chip_os_version = ''15.0'', chip_gpu_core_count = Some 10,
      chip_capability_issues = [], chip_measured_memory_bandwidth = None,
      chip_metal_launch_latency = None\<rparr>"

definition example_inputs :: plan_inputs where
  "example_inputs =
     \<lparr>pi_model = example_model, pi_memory = example_memory, pi_chip = example_chip,
      pi_requested_context_tokens = Some 8192, pi_thermal_state = TS_Serious,
      pi_power_mode = PM_Automatic, pi_dry_run = False\<rparr>"

lemma example_inputs_ok:
  "memory_info_ok (pi_memory example_inputs)" "state_memory_spec_ok (pi_model example_inputs)"
  "chip_profile_ok (pi_chip example_inputs)" "context_policy_ok default_context_policy"
  "mi_total_bytes (pi_memory example_inputs) = chip_total_memory_bytes (pi_chip example_inputs)"
  "\<not> nonpositive (pi_requested_context_tokens example_inputs)"
  "fixed_bytes (pi_model example_inputs)
     \<le> allocatable_of (pi_memory example_inputs) default_context_policy"
proof -
  have fields: "pi_memory example_inputs = example_memory" "pi_model example_inputs = example_model"
    "pi_chip example_inputs = example_chip" "pi_requested_context_tokens example_inputs = Some 8192"
    by (simp_all add: example_inputs_def)
  show "memory_info_ok (pi_memory example_inputs)" "state_memory_spec_ok (pi_model example_inputs)"
    "context_policy_ok default_context_policy"
    "\<not> nonpositive (pi_requested_context_tokens example_inputs)"
    using example_wellformed by (simp_all add: fields)
  show "chip_profile_ok (pi_chip example_inputs)"
    by (simp add: fields chip_profile_ok_def example_chip_def inference_backends_def)
  show "mi_total_bytes (pi_memory example_inputs) = chip_total_memory_bytes (pi_chip example_inputs)"
    by (simp add: fields example_memory_def example_chip_def)
  have "fixed_bytes example_model \<le> 4509715660" by (simp add: fixed_bytes_def example_model_def)
  then show "fixed_bytes (pi_model example_inputs)
      \<le> allocatable_of (pi_memory example_inputs) default_context_policy"
    by (simp add: fields example_allocatable)
qed

theorem plan_is_safe_witness:
  "\<exists>p. plan (\<lambda>_. ''abc'') default_context_policy example_inputs = Inr p
    \<and> ep_estimated_peak_bytes p \<le> mi_available_bytes example_memory
    \<and> ep_context_tokens p \<le> 8192 \<and> pp_batch_size (ep_prefill p) = 1"
proof -
  obtain p where p: "plan (\<lambda>_. ''abc'') default_context_policy example_inputs = Inr p"
    using plan_decides [OF example_inputs_ok(2-6), of "\<lambda>_. ''abc''"] example_inputs_ok(7)
    by (auto split: if_splits)
  have "pi_memory example_inputs = example_memory" "pi_requested_context_tokens example_inputs = Some 8192"
    "pi_thermal_state example_inputs = TS_Serious" by (simp_all add: example_inputs_def)
  with plan_is_safe [OF example_inputs_ok(1-6) p] p show ?thesis by auto
qed

theorem plan_fails_iff_fixed_memory_exceeds_witness:
  "\<exists>p. plan (\<lambda>_. ''abc'') default_context_policy example_inputs = Inr p"
  using plan_fails_iff_fixed_memory_exceeds [OF example_inputs_ok(2-6), of "\<lambda>_. ''abc''"]
    example_inputs_ok(7) by blast

end
