(* ===== verification/ProfileRegistry.thy ===== *)
theory ProfileRegistry
  imports Prelude
begin

text \<open>
  The interface of the two capability registries (\<open>KernelCapabilityRegistry\<close> in
  \<open>kernel_probe.py\<close> and \<open>DeviceCapabilityRegistry\<close> in \<open>device_capability.py\<close>).  A client relies
  on \<open>add\<close> storing a value under its own key and touching no other key; a \<open>sticky_registry\<close>
  also refuses a good value where a bad one is stored.  The lemmas are about any sequence of
  calls, failing ones included.
\<close>

locale profile_registry =
  fixes add :: "'reg \<Rightarrow> 'v \<Rightarrow> 'reg result"
    and lookup_entry :: "'reg \<Rightarrow> 'k \<Rightarrow> 'v option"
    and key_of :: "'v \<Rightarrow> 'k"
    and fits_profile :: "'reg \<Rightarrow> 'v \<Rightarrow> bool"
  assumes stored: "add r v = Inr r' \<Longrightarrow>
      lookup_entry r' k = (if k = key_of v then Some v else lookup_entry r k)"
    and profile: "add r v = Inr r' \<Longrightarrow> fits_profile r v"
    and profile_kept: "add r v = Inr r' \<Longrightarrow> fits_profile r' = fits_profile r"
begin

lemma attempts_profile: "fits_profile (attempts add r vs) = fits_profile r"
  by (rule attempts_invariant [where I = "\<lambda>s. fits_profile s = fits_profile r"])
    (auto dest: profile_kept)

text \<open>Nothing enters but recorded values of the right profile.\<close>

lemma provenance:
  assumes "lookup_entry (attempts add r vs) k = Some v"
  shows "lookup_entry r k = Some v \<or> v \<in> set vs \<and> key_of v = k \<and> fits_profile r v"
proof -
  have "fits_profile (attempts add r vs) = fits_profile r \<and>
     (lookup_entry (attempts add r vs) k = Some v \<longrightarrow>
      lookup_entry r k = Some v \<or> v \<in> set vs \<and> key_of v = k \<and> fits_profile r v)"
  proof (rule attempts_invariant [where I = "\<lambda>s. fits_profile s = fits_profile r \<and>
       (lookup_entry s k = Some v \<longrightarrow>
        lookup_entry r k = Some v \<or> v \<in> set vs \<and> key_of v = k \<and> fits_profile r v)"])
    fix s x s'
    assume I: "fits_profile s = fits_profile r \<and>
       (lookup_entry s k = Some v \<longrightarrow>
        lookup_entry r k = Some v \<or> v \<in> set vs \<and> key_of v = k \<and> fits_profile r v)"
      and x: "x \<in> set vs" and step: "add s x = Inr s'"
    show "fits_profile s' = fits_profile r \<and>
       (lookup_entry s' k = Some v \<longrightarrow>
        lookup_entry r k = Some v \<or> v \<in> set vs \<and> key_of v = k \<and> fits_profile r v)"
      using I x stored [OF step, of k] profile [OF step] profile_kept [OF step]
      by (auto split: if_splits)
  qed simp
  with assms show ?thesis by blast
qed

text \<open>Adding a list of values with distinct keys, none refused, stores exactly those.\<close>

lemma fold_stores:
  "fold_result add r vs = Inr r' \<Longrightarrow> distinct (map key_of vs) \<Longrightarrow>
   lookup_entry r' k =
     (case find (\<lambda>v. key_of v = k) vs of None \<Rightarrow> lookup_entry r k | Some v \<Rightarrow> Some v)"
proof (induction vs arbitrary: r)
  case Nil
  then show ?case by simp
next
  case (Cons v vs)
  from Cons.prems obtain s where s: "add r v = Inr s" "fold_result add s vs = Inr r'"
    by (auto split: sum.splits)
  have "find (\<lambda>u. key_of u = key_of v) vs = None"
    using Cons.prems(2) by (force simp: find_None_iff image_iff)
  then show ?case
    using Cons.IH [OF s(2)] Cons.prems(2) stored [OF s(1), of k] by (auto split: option.splits)
qed

end

locale sticky_registry = profile_registry +
  fixes bad :: "'v \<Rightarrow> bool" and good :: "'v \<Rightarrow> bool"
  assumes refused: "add r v = Inr r' \<Longrightarrow> lookup_entry r (key_of v) = Some u \<Longrightarrow> bad u \<Longrightarrow> \<not> good v"
begin

text \<open>When every recorded value is bad or good, a bad entry is never replaced by a good one,
  whatever the sequence of calls.\<close>

lemma quarantine_is_sticky:
  assumes "lookup_entry r k = Some u" and "bad u"
    and "\<And>v. v \<in> set vs \<Longrightarrow> bad v \<or> good v"
  shows "\<exists>w. lookup_entry (attempts add r vs) k = Some w \<and> bad w"
proof (rule attempts_invariant [where I = "\<lambda>s. \<exists>w. lookup_entry s k = Some w \<and> bad w"])
  show "\<exists>w. lookup_entry r k = Some w \<and> bad w" using assms(1,2) by blast
next
  fix s x s'
  assume "\<exists>w. lookup_entry s k = Some w \<and> bad w" and x: "x \<in> set vs" and step: "add s x = Inr s'"
  then obtain w where "lookup_entry s k = Some w" "bad w" by blast
  then show "\<exists>w. lookup_entry s' k = Some w \<and> bad w"
    using stored [OF step, of k] refused [OF step, of w] assms(3) [OF x] by (cases "k = key_of x") auto
qed

end

end
