(* ===== verification/KernelProbe.thy ===== *)
theory KernelProbe
  imports PyFloat ExecutionTypes ProfileRegistry "HOL-Library.Product_Lexorder"
begin

text \<open>
  \<open>vllm_apple/kernel_probe.py\<close>: the correctness and latency probe of one kernel, its result with
  the constructor check, the bounded registry with sticky quarantine, and the cache file.  The
  probed callables are functions of the call's index that return a measurement or raise; SHA-256
  over the JSON text is the parameter \<open>digest\<close>; the cache file's attributes, its content and the
  clock are arguments of \<open>load_probe_cache\<close>, which gives no answer for a file whose text fields are not strings.
  Writing the file atomically is not modelled.
\<close>

section \<open>Measurements, configurations and results\<close>

definition MAX_PROBE_SAMPLES :: int where "MAX_PROBE_SAMPLES = 32"
definition MAX_REGISTRY_ENTRIES :: int where "MAX_REGISTRY_ENTRIES = 512"
definition MAX_PROBE_CACHE_BYTES :: int where "MAX_PROBE_CACHE_BYTES = 1024 * 1024"
definition PROBE_SUITE_VERSION :: int where "PROBE_SUITE_VERSION = 8"

record kernel_measurement =
  km_output_digest :: string
  km_latency_nanoseconds :: int
  km_numeric_values :: "xfloat list option"

definition kernel_measurement_init :: "kernel_measurement \<Rightarrow> kernel_measurement result" where
  "kernel_measurement_init m =
     (if length (km_output_digest m) \<noteq> 64 \<or> \<not> list_all is_hex (km_output_digest m)
        then Inl (ValueError ''output_digest must be lowercase SHA-256'')
      else if km_latency_nanoseconds m \<le> 0 then Inl (ValueError ''latency must be positive'')
      else (case km_numeric_values m of
              None \<Rightarrow> Inr m
            | Some values \<Rightarrow>
                if \<not> (1 \<le> length values \<and> length values \<le> 4096) \<or> \<not> list_all isfinite values
                then Inl (ValueError ''numeric probe values must be finite and bounded'')
                else Inr m))"

record kernel_probe_config =
  kc_hardware_fingerprint :: string
  kc_environment_fingerprint :: string
  kc_backend :: execution_backend
  kc_operator :: string
  kc_samples :: int
  kc_maximum_slowdown_ratio :: xfloat
  kc_maximum_absolute_error :: "xfloat option"

definition kernel_probe_config_init :: "kernel_probe_config \<Rightarrow> kernel_probe_config result" where
  "kernel_probe_config_init c =
     (if \<not> (1 \<le> length (kc_hardware_fingerprint c) \<and> length (kc_hardware_fingerprint c) \<le> 128)
         \<or> \<not> (1 \<le> length (kc_environment_fingerprint c)
              \<and> length (kc_environment_fingerprint c) \<le> 128)
        then Inl (ValueError ''probe fingerprints cannot be empty'')
      else if kc_operator c = [] \<or> 128 < length (kc_operator c)
        then Inl (ValueError ''operator must contain 1 to 128 characters'')
      else if \<not> (1 \<le> kc_samples c \<and> kc_samples c \<le> MAX_PROBE_SAMPLES)
        then Inl (ValueError ''samples must be between 1 and 32'')
      else if \<not> isfinite (kc_maximum_slowdown_ratio c) \<or> x_less (kc_maximum_slowdown_ratio c) 1
        then Inl (ValueError ''maximum slowdown ratio must be finite and at least 1'')
      else (case kc_maximum_absolute_error c of
              None \<Rightarrow> Inr c
            | Some e \<Rightarrow>
                if \<not> isfinite e \<or> x_less e 0
                then Inl (ValueError ''maximum absolute error must be finite and non-negative'')
                else Inr c))"

record kernel_probe_result =
  kr_schema_version :: int
  kr_probe_id :: string
  kr_hardware_fingerprint :: string
  kr_environment_fingerprint :: string
  kr_backend :: execution_backend
  kr_operator :: string
  kr_samples_completed :: int
  kr_baseline_latency :: "int option"
  kr_candidate_latency :: "int option"
  kr_slowdown_ratio :: "rat option"
  kr_passed :: bool
  kr_quarantined :: bool
  kr_reason :: string

definition kernel_probe_result_init :: "kernel_probe_result \<Rightarrow> kernel_probe_result result" where
  "kernel_probe_result_init r =
     (if kr_schema_version r \<noteq> 1
        then Inl (ValueError ''unsupported kernel probe schema version'')
      else if kr_passed r = kr_quarantined r
        then Inl (ValueError ''probe must be either passed or quarantined'')
      else if kr_passed r \<noteq> (kr_reason r = ''passed'')
        then Inl (ValueError ''probe reason does not match status'')
      else if \<not> (0 \<le> kr_samples_completed r \<and> kr_samples_completed r \<le> MAX_PROBE_SAMPLES)
        then Inl (ValueError ''invalid completed sample count'')
      else if length (kr_probe_id r) \<noteq> 24 \<or> \<not> list_all is_hex (kr_probe_id r)
        then Inl (ValueError ''invalid probe ID'')
      else Inr r)"

definition kernel_probe_result_ok :: "kernel_probe_result \<Rightarrow> bool" where
  "kernel_probe_result_ok r \<longleftrightarrow>
     kr_schema_version r = 1 \<and> kr_passed r = (\<not> kr_quarantined r) \<and>
     kr_passed r = (kr_reason r = ''passed'') \<and>
     0 \<le> kr_samples_completed r \<and> kr_samples_completed r \<le> 32 \<and>
     length (kr_probe_id r) = 24 \<and> list_all is_hex (kr_probe_id r)"

lemma kernel_probe_result_init_iff [guards]:
  "kernel_probe_result_init r = Inr r' \<longleftrightarrow> kernel_probe_result_ok r \<and> r' = r"
  unfolding kernel_probe_result_init_def kernel_probe_result_ok_def MAX_PROBE_SAMPLES_def
  by (auto split: if_splits)

definition j_rat :: "rat \<Rightarrow> json" where "j_rat r = JFloat (Fin r)"

definition kernel_probe_result_to_dict :: "kernel_probe_result \<Rightarrow> json" where
  "kernel_probe_result_to_dict r = JObj
     [(''schema_version'', JInt (kr_schema_version r)),
      (''probe_id'', JStr (kr_probe_id r)),
      (''hardware_fingerprint'', JStr (kr_hardware_fingerprint r)),
      (''environment_fingerprint'', JStr (kr_environment_fingerprint r)),
      (''backend'', JStr (execution_backend_value (kr_backend r))),
      (''operator'', JStr (kr_operator r)),
      (''samples_completed'', JInt (kr_samples_completed r)),
      (''baseline_latency_nanoseconds'', j_option JInt (kr_baseline_latency r)),
      (''candidate_latency_nanoseconds'', j_option JInt (kr_candidate_latency r)),
      (''slowdown_ratio'', j_option j_rat (kr_slowdown_ratio r)),
      (''passed'', JBool (kr_passed r)),
      (''quarantined'', JBool (kr_quarantined r)),
      (''reason'', JStr (kr_reason r))]"

section \<open>Running a probe\<close>

fun xfloat_close :: "xfloat \<Rightarrow> xfloat \<Rightarrow> xfloat \<Rightarrow> bool" where
  "xfloat_close (Fin e) (Fin a) (Fin tol) = (\<bar>rnd (e - a)\<bar> \<le> tol)"
| "xfloat_close _ _ _ = False"

definition measurements_match ::
  "kernel_measurement \<Rightarrow> kernel_measurement \<Rightarrow> xfloat option \<Rightarrow> bool" where
  "measurements_match reference measured maximum_absolute_error =
     (if km_output_digest reference = km_output_digest measured then True
      else (case (maximum_absolute_error, km_numeric_values reference, km_numeric_values measured) of
              (Some tol, Some es, Some as) \<Rightarrow>
                if length es \<noteq> length as then False
                else list_all (\<lambda>(e, a). xfloat_close e a tol) (zip es as)
            | _ \<Rightarrow> False))"

definition median :: "int list \<Rightarrow> int option" where
  "median values =
     (if values = [] then None
      else let ordered = sort values in Some (ordered ! (length ordered div 2)))"

text \<open>The sample loop from call number \<open>i\<close>, with \<open>n\<close> samples left: the reason, the number of
  samples completed and the two latency lists.\<close>

fun probe_samples ::
  "xfloat option \<Rightarrow> (nat \<Rightarrow> kernel_measurement result) \<Rightarrow> (nat \<Rightarrow> kernel_measurement result)
    \<Rightarrow> nat \<Rightarrow> nat \<Rightarrow> int \<Rightarrow> int list \<Rightarrow> int list \<Rightarrow> string \<times> int \<times> int list \<times> int list" where
  "probe_samples tol baseline candidate 0 i completed bs cs = (''passed'', completed, bs, cs)"
| "probe_samples tol baseline candidate (Suc n) i completed bs cs =
     (case baseline i of
        Inl e \<Rightarrow> (''probe_error'', completed, bs, cs)
      | Inr reference \<Rightarrow>
          (case candidate i of
             Inl e \<Rightarrow> (''probe_error'', completed, bs, cs)
           | Inr measured \<Rightarrow>
               if \<not> measurements_match reference measured tol
               then (''correctness_mismatch'', completed, bs, cs)
               else probe_samples tol baseline candidate n (Suc i) (completed + 1)
                      (bs @ [km_latency_nanoseconds reference])
                      (cs @ [km_latency_nanoseconds measured])))"

text \<open>\<open>int / int\<close> is the double nearest to the quotient; \<open>round(x, 6)\<close> is the double nearest to
  \<open>x\<close> rounded half to even at six decimals.\<close>

definition true_div :: "int \<Rightarrow> int \<Rightarrow> rat" where
  "true_div a b = rnd (of_int a / of_int b)"

definition round6 :: "rat \<Rightarrow> rat" where
  "round6 x = rnd (of_int (round_even (x * 1000000)) / 1000000)"

definition probe_identity :: "kernel_probe_config \<Rightarrow> json" where
  "probe_identity c = JObj
     [(''schema_version'', JInt 1),
      (''hardware_fingerprint'', JStr (kc_hardware_fingerprint c)),
      (''environment_fingerprint'', JStr (kc_environment_fingerprint c)),
      (''backend'', JStr (execution_backend_value (kc_backend c))),
      (''operator'', JStr (kc_operator c)),
      (''samples'', JInt (kc_samples c)),
      (''maximum_slowdown_ratio'', JFloat (kc_maximum_slowdown_ratio c)),
      (''maximum_absolute_error'', j_option JFloat (kc_maximum_absolute_error c))]"

definition slowdown_of :: "int option \<Rightarrow> int option \<Rightarrow> rat option" where
  "slowdown_of baseline_median candidate_median =
     (case (baseline_median, candidate_median) of
        (Some b, Some c) \<Rightarrow> Some (true_div c b) | _ \<Rightarrow> None)"

definition probe_reason :: "string \<Rightarrow> rat option \<Rightarrow> rat \<Rightarrow> string" where
  "probe_reason reason ratio limit =
     (case ratio of
        Some q \<Rightarrow> if reason = ''passed'' \<and> limit < q then ''performance_regression'' else reason
      | None \<Rightarrow> reason)"

definition run_kernel_probe ::
  "(json \<Rightarrow> string) \<Rightarrow> kernel_probe_config \<Rightarrow> (nat \<Rightarrow> kernel_measurement result)
    \<Rightarrow> (nat \<Rightarrow> kernel_measurement result) \<Rightarrow> kernel_probe_result result" where
  "run_kernel_probe digest config baseline candidate =
     (let (reason0, completed, bs, cs) =
            probe_samples (kc_maximum_absolute_error config) baseline candidate
              (nat (kc_samples config)) 0 0 [] [];
          baseline_median = median bs;
          candidate_median = median cs;
          ratio = slowdown_of baseline_median candidate_median;
          reason = probe_reason reason0 ratio (fin_val (kc_maximum_slowdown_ratio config));
          passed = (reason = ''passed'' \<and> completed = kc_samples config)
      in kernel_probe_result_init
           \<lparr>kr_schema_version = 1,
            kr_probe_id = take 24 (digest (probe_identity config)),
            kr_hardware_fingerprint = kc_hardware_fingerprint config,
            kr_environment_fingerprint = kc_environment_fingerprint config,
            kr_backend = kc_backend config,
            kr_operator = kc_operator config,
            kr_samples_completed = completed,
            kr_baseline_latency = baseline_median,
            kr_candidate_latency = candidate_median,
            kr_slowdown_ratio = map_option round6 ratio,
            kr_passed = passed,
            kr_quarantined = (\<not> passed),
            kr_reason = reason\<rparr>)"

section \<open>The registry\<close>

record kernel_registry =
  rg_hardware_fingerprint :: string
  rg_environment_fingerprint :: string
  rg_capacity :: int
  rg_results :: "(execution_backend \<times> string, kernel_probe_result) dict"

definition new_kernel_registry :: "string \<Rightarrow> string \<Rightarrow> int \<Rightarrow> kernel_registry result" where
  "new_kernel_registry hardware environment capacity =
     (if hardware = [] \<or> environment = []
        then Inl (ValueError ''registry fingerprints cannot be empty'')
      else if \<not> (1 \<le> capacity \<and> capacity \<le> MAX_REGISTRY_ENTRIES)
        then Inl (ValueError ''registry capacity must be between 1 and 512'')
      else Inr \<lparr>rg_hardware_fingerprint = hardware, rg_environment_fingerprint = environment,
                rg_capacity = capacity, rg_results = []\<rparr>)"

definition result_key :: "kernel_probe_result \<Rightarrow> execution_backend \<times> string" where
  "result_key r = (kr_backend r, kr_operator r)"

definition record_probe :: "kernel_registry \<Rightarrow> kernel_probe_result \<Rightarrow> kernel_registry result" where
  "record_probe g r =
     (if kr_hardware_fingerprint r \<noteq> rg_hardware_fingerprint g
         \<or> kr_environment_fingerprint r \<noteq> rg_environment_fingerprint g
      then Inl (ValueError ''probe result does not match registry profile'')
      else
        let existing = map_of (rg_results g) (result_key r)
        in if (\<exists>e\<in>set_option existing. kr_quarantined e \<and> kr_passed r)
             then Inl (ValueError ''quarantine is sticky for the current environment'')
           else if existing = None \<and> rg_capacity g \<le> int (length (rg_results g))
             then Inl (ValueError ''kernel capability registry is full'')
           else Inr (g\<lparr>rg_results := AList.update (result_key r) r (rg_results g)\<rparr>))"

definition is_usable :: "kernel_registry \<Rightarrow> execution_backend \<Rightarrow> string \<Rightarrow> bool" where
  "is_usable g b operator =
     (case map_of (rg_results g) (b, operator) of
        None \<Rightarrow> False | Some r \<Rightarrow> kr_passed r \<and> \<not> kr_quarantined r)"

definition registry_snapshot :: "kernel_registry \<Rightarrow> kernel_probe_result list" where
  "registry_snapshot g =
     map (\<lambda>k. the (map_of (rg_results g) k)) (sort (keys (rg_results g)))"

section \<open>The cache file\<close>

text \<open>A field of a parsed object; a value of the wrong JSON type is the \<open>TypeError\<close> or
  \<open>ValueError\<close> that the parser turns into its own \<open>ValueError\<close>.\<close>

definition result_fields :: "string list" where
  "result_fields =
     [''schema_version'', ''probe_id'', ''hardware_fingerprint'', ''environment_fingerprint'',
      ''backend'', ''operator'', ''samples_completed'', ''baseline_latency_nanoseconds'',
      ''candidate_latency_nanoseconds'', ''slowdown_ratio'', ''passed'', ''quarantined'',
      ''reason'']"

fun j_is_int :: "json \<Rightarrow> bool" where
  "j_is_int (JInt n) = True" | "j_is_int _ = False"

fun j_is_bool :: "json \<Rightarrow> bool" where
  "j_is_bool (JBool b) = True" | "j_is_bool _ = False"

fun latency_valid :: "json \<Rightarrow> bool" where
  "latency_valid JNull = True"
| "latency_valid (JInt n) = (0 < n)"
| "latency_valid _ = False"

fun ratio_valid :: "json \<Rightarrow> bool" where
  "ratio_valid JNull = True"
| "ratio_valid (JInt n) = (0 \<le> n)"
| "ratio_valid (JFloat x) = (isfinite x \<and> \<not> x_less x 0)"
| "ratio_valid _ = False"

fun j_int_value :: "json \<Rightarrow> int option" where
  "j_int_value (JInt n) = Some n" | "j_int_value _ = None"

fun j_float_value :: "json \<Rightarrow> rat option" where
  "j_float_value (JInt n) = Some (rnd (of_int n))"
| "j_float_value (JFloat x) = Some (fin_val x)"
| "j_float_value _ = None"

fun j_str_value :: "json \<Rightarrow> string option" where
  "j_str_value (JStr s) = Some s" | "j_str_value _ = None"

fun j_truth :: "json \<Rightarrow> bool" where
  "j_truth (JBool b) = b" | "j_truth _ = False"

definition field :: "(string \<times> json) list \<Rightarrow> string \<Rightarrow> json" where
  "field d name = (case map_of d name of None \<Rightarrow> JNull | Some v \<Rightarrow> v)"

text \<open>The constructor call at the end of the parser.  The source does not check that the probe id, the fingerprints, the
  operator and the reason are strings, and returns a result that breaks its own annotations when one is not; the typed
  record has no such value, so the model gives no answer there (\<open>None\<close>).\<close>

definition build_parsed_result :: "(string \<times> json) list \<Rightarrow> kernel_probe_result result option" where
  "build_parsed_result d =
     (case Option.bind (j_str_value (field d ''backend'')) backend_of_value of
        None \<Rightarrow> Some (Inl (ValueError ''not a valid ExecutionBackend''))
      | Some b \<Rightarrow>
     (case (j_str_value (field d ''probe_id''), j_str_value (field d ''hardware_fingerprint''),
            j_str_value (field d ''environment_fingerprint''), j_str_value (field d ''operator''),
            j_str_value (field d ''reason'')) of
        (Some pid, Some hw, Some env, Some operator, Some reason) \<Rightarrow>
          Some (kernel_probe_result_init
            \<lparr>kr_schema_version = the (j_int_value (field d ''schema_version'')), kr_probe_id = pid,
             kr_hardware_fingerprint = hw, kr_environment_fingerprint = env, kr_backend = b,
             kr_operator = operator,
             kr_samples_completed = the (j_int_value (field d ''samples_completed'')),
             kr_baseline_latency = j_int_value (field d ''baseline_latency_nanoseconds''),
             kr_candidate_latency = j_int_value (field d ''candidate_latency_nanoseconds''),
             kr_slowdown_ratio = j_float_value (field d ''slowdown_ratio''),
             kr_passed = j_truth (field d ''passed''),
             kr_quarantined = j_truth (field d ''quarantined''),
             kr_reason = reason\<rparr>)
      | _ \<Rightarrow> None))"

fun parse_kernel_probe_result :: "json \<Rightarrow> kernel_probe_result result option" where
  "parse_kernel_probe_result (JObj d) =
     (if set (keys d) \<noteq> set result_fields
        then Some (Inl (ValueError ''invalid cached kernel probe fields''))
      else if \<not> j_is_int (field d ''schema_version'') \<or> \<not> j_is_int (field d ''samples_completed'')
        then Some (Inl (ValueError ''invalid cached kernel probe integer''))
      else if \<not> latency_valid (field d ''baseline_latency_nanoseconds'')
              \<or> \<not> latency_valid (field d ''candidate_latency_nanoseconds'')
        then Some (Inl (ValueError ''invalid cached kernel probe latency''))
      else if \<not> ratio_valid (field d ''slowdown_ratio'')
        then Some (Inl (ValueError ''invalid cached kernel probe ratio''))
      else if \<not> j_is_bool (field d ''passed'') \<or> \<not> j_is_bool (field d ''quarantined'')
        then Some (Inl (ValueError ''invalid cached kernel probe status''))
      else (case build_parsed_result d of
              None \<Rightarrow> None
            | Some (Inl e) \<Rightarrow> Some (Inl (ValueError ''invalid cached kernel probe values''))
            | Some (Inr r) \<Rightarrow> Some (Inr r)))"
| "parse_kernel_probe_result _ = Some (Inl (ValueError ''invalid cached kernel probe fields''))"

record probe_cache =
  pc_hardware_fingerprint :: string
  pc_environment_fingerprint :: string
  pc_max_age_seconds :: xfloat

definition probe_cache_init :: "probe_cache \<Rightarrow> probe_cache result" where
  "probe_cache_init c =
     (if \<not> isfinite (pc_max_age_seconds c) \<or> x_le (pc_max_age_seconds c) 0
      then Inl (ValueError ''probe cache max age must be positive and finite'') else Inr c)"

record file_attributes =
  fa_regular :: bool
  fa_current_user :: bool
  fa_size :: int
  fa_mode :: int

text \<open>\<open>save\<close> up to the write: \<open>encoded_size\<close> is the length of the encoded JSON text.\<close>

definition probe_cache_payload ::
  "(json \<Rightarrow> int) \<Rightarrow> probe_cache \<Rightarrow> kernel_registry \<Rightarrow> rat \<Rightarrow> json result" where
  "probe_cache_payload encoded_size c g clock =
     (if rg_hardware_fingerprint g \<noteq> pc_hardware_fingerprint c
         \<or> rg_environment_fingerprint g \<noteq> pc_environment_fingerprint c
      then Inl (ValueError ''registry does not match probe cache profile'')
      else
        let payload = JObj
          [(''schema_version'', JInt 1),
           (''probe_suite_version'', JInt PROBE_SUITE_VERSION),
           (''hardware_fingerprint'', JStr (pc_hardware_fingerprint c)),
           (''environment_fingerprint'', JStr (pc_environment_fingerprint c)),
           (''created_at_unix_seconds'', JInt (py_trunc clock)),
           (''results'', JList (map kernel_probe_result_to_dict (registry_snapshot g)))]
        in if MAX_PROBE_CACHE_BYTES < encoded_size payload
           then Inl (ValueError ''kernel probe cache exceeded 1 MiB'') else Inr payload)"

definition cache_fields :: "string list" where
  "cache_fields =
     [''schema_version'', ''probe_suite_version'', ''hardware_fingerprint'',
      ''environment_fingerprint'', ''created_at_unix_seconds'', ''results'']"

fun record_parsed :: "kernel_registry \<Rightarrow> json list \<Rightarrow> kernel_registry result option" where
  "record_parsed g [] = Some (Inr g)"
| "record_parsed g (v # vs) =
     (case parse_kernel_probe_result v of
        None \<Rightarrow> None
      | Some (Inl e) \<Rightarrow> Some (Inl e)
      | Some (Inr r) \<Rightarrow> (case record_probe g r of Inl e \<Rightarrow> Some (Inl e) | Inr g' \<Rightarrow> record_parsed g' vs))"

definition load_probe_results ::
  "probe_cache \<Rightarrow> json \<Rightarrow> kernel_registry result option" where
  "load_probe_results c values =
     (case values of
        JList vs \<Rightarrow>
          if MAX_REGISTRY_ENTRIES < int (length vs)
          then Some (Inl (ValueError ''invalid kernel probe cache result count''))
          else (case new_kernel_registry (pc_hardware_fingerprint c)
                       (pc_environment_fingerprint c) MAX_REGISTRY_ENTRIES of
                  Inl e \<Rightarrow> Some (Inl e)
                | Inr g \<Rightarrow> record_parsed g vs)
      | _ \<Rightarrow> Some (Inl (ValueError ''invalid kernel probe cache result count'')))"

fun number_is :: "int \<Rightarrow> json \<Rightarrow> bool" where
  "number_is n (JInt m) = (m = n)"
| "number_is n (JFloat x) = (x = Fin (of_int n))"
| "number_is n (JBool b) = (n = (if b then 1 else 0))"
| "number_is n _ = False"

definition load_probe_cache ::
  "probe_cache \<Rightarrow> file_attributes \<Rightarrow> json \<Rightarrow> rat \<Rightarrow> kernel_registry result option" where
  "load_probe_cache c attributes payload now =
     (if \<not> fa_regular attributes \<or> \<not> fa_current_user attributes
        then Some (Inl (ValueError ''kernel probe cache must be a current-user regular file''))
      else if MAX_PROBE_CACHE_BYTES < fa_size attributes
        then Some (Inl (ValueError ''kernel probe cache exceeded 1 MiB''))
      else if fa_mode attributes mod 64 \<noteq> 0
        then Some (Inl (ValueError ''kernel probe cache must be private''))
      else (case payload of
        JObj d \<Rightarrow>
          if set (keys d) \<noteq> set cache_fields
            then Some (Inl (ValueError ''invalid kernel probe cache fields''))
          else if \<not> number_is 1 (field d ''schema_version'')
                  \<or> \<not> number_is PROBE_SUITE_VERSION (field d ''probe_suite_version'')
            then Some (Inl (ValueError ''unsupported kernel probe cache version''))
          else if field d ''hardware_fingerprint'' \<noteq> JStr (pc_hardware_fingerprint c)
                  \<or> field d ''environment_fingerprint'' \<noteq> JStr (pc_environment_fingerprint c)
            then Some (Inl (ValueError ''kernel probe cache profile mismatch''))
          else (case field d ''created_at_unix_seconds'' of
            JInt created \<Rightarrow>
              if created \<le> 0 then Some (Inl (ValueError ''invalid kernel probe cache creation time''))
              else if rnd (now + 300) < of_int created
                then Some (Inl (ValueError ''kernel probe cache creation time is in the future''))
              else if fin_val (pc_max_age_seconds c) < rnd (now - rnd (of_int created))
                then Some (Inl (ValueError ''kernel probe cache expired''))
              else load_probe_results c (field d ''results'')
          | _ \<Rightarrow> Some (Inl (ValueError ''invalid kernel probe cache creation time'')))
      | _ \<Rightarrow> Some (Inl (ValueError ''invalid kernel probe cache fields''))))"

definition build_environment_identity :: "string \<Rightarrow> string \<Rightarrow> string \<Rightarrow> string \<Rightarrow> string \<Rightarrow> json" where
  "build_environment_identity platform os_version toolchain mlx backend_version = JObj
     [(''probe_suite_version'', JStr ''8''), (''platform'', JStr platform),
      (''os_version'', JStr os_version), (''toolchain_version'', JStr toolchain),
      (''mlx_version'', JStr mlx), (''backend_version'', JStr backend_version)]"

definition build_environment_fingerprint ::
  "(json \<Rightarrow> string) \<Rightarrow> string \<Rightarrow> string \<Rightarrow> string \<Rightarrow> string \<Rightarrow> string \<Rightarrow> string result" where
  "build_environment_fingerprint digest platform os_version toolchain mlx backend_version =
     (if list_ex (\<lambda>v. v = [] \<or> 128 < length v)
           [''8'', platform, os_version, toolchain, mlx, backend_version]
      then Inl (ValueError ''environment components must contain 1 to 128 characters'')
      else Inr (take 24 (digest
             (build_environment_identity platform os_version toolchain mlx backend_version))))"

section \<open>The sample loop\<close>

definition agrees_at ::
  "xfloat option \<Rightarrow> (nat \<Rightarrow> kernel_measurement result) \<Rightarrow> (nat \<Rightarrow> kernel_measurement result)
    \<Rightarrow> nat \<Rightarrow> bool" where
  "agrees_at tol baseline candidate i =
     (case (baseline i, candidate i) of
        (Inr reference, Inr measured) \<Rightarrow> measurements_match reference measured tol
      | _ \<Rightarrow> False)"

definition latency_at :: "(nat \<Rightarrow> kernel_measurement result) \<Rightarrow> nat \<Rightarrow> int" where
  "latency_at f i = (case f i of Inr m \<Rightarrow> km_latency_nanoseconds m | Inl e \<Rightarrow> 0)"

lemma probe_samples_all:
  "\<forall>j<n. agrees_at tol f g (i + j) \<Longrightarrow>
   probe_samples tol f g n i k bs cs =
     (''passed'', k + int n, bs @ map (latency_at f) [i..<i + n], cs @ map (latency_at g) [i..<i + n])"
proof (induction n arbitrary: i k bs cs)
  case 0
  then show ?case by simp
next
  case (Suc n)
  have "agrees_at tol f g i" using Suc.prems by (metis add_0_right zero_less_Suc)
  then obtain r m where rm: "f i = Inr r" "g i = Inr m" "measurements_match r m tol"
    by (auto simp: agrees_at_def split: sum.splits)
  have "\<forall>j<n. agrees_at tol f g (Suc i + j)" using Suc.prems by auto
  from Suc.IH [OF this] rm show ?case
    by (simp add: latency_at_def upt_conv_Cons del: upt_Suc)
qed

lemma probe_samples_stops:
  "\<not> (\<forall>j<n. agrees_at tol f g (i + j)) \<Longrightarrow>
   fst (probe_samples tol f g n i k bs cs) \<in> {''probe_error'', ''correctness_mismatch''}
   \<and> k \<le> fst (snd (probe_samples tol f g n i k bs cs))
   \<and> fst (snd (probe_samples tol f g n i k bs cs)) < k + int n"
proof (induction n arbitrary: i k bs cs)
  case 0
  then show ?case by simp
next
  case (Suc n)
  show ?case
  proof (cases "agrees_at tol f g i")
    case True
    then obtain r m where rm: "f i = Inr r" "g i = Inr m" "measurements_match r m tol"
      by (auto simp: agrees_at_def split: sum.splits)
    have "\<not> (\<forall>j<n. agrees_at tol f g (Suc i + j))"
      using Suc.prems True by (auto simp: less_Suc_eq_0_disj)
    from Suc.IH [OF this, of "k + 1" "bs @ [km_latency_nanoseconds r]" "cs @ [km_latency_nanoseconds m]"] rm
    show ?thesis by auto
  next
    case False
    then show ?thesis by (auto simp: agrees_at_def split: sum.splits)
  qed
qed

lemma median_Some: "values \<noteq> [] \<Longrightarrow> median values = Some (sort values ! (length values div 2))"
  by (simp add: median_def)

section \<open>The registry as a sticky registry\<close>

definition fits_registry :: "kernel_registry \<Rightarrow> kernel_probe_result \<Rightarrow> bool" where
  "fits_registry g r \<longleftrightarrow> kr_hardware_fingerprint r = rg_hardware_fingerprint g
     \<and> kr_environment_fingerprint r = rg_environment_fingerprint g"

lemma record_probe_Inr:
  "record_probe g r = Inr g' \<longleftrightarrow>
     fits_registry g r
     \<and> \<not> (\<exists>e. map_of (rg_results g) (result_key r) = Some e \<and> kr_quarantined e \<and> kr_passed r)
     \<and> (map_of (rg_results g) (result_key r) = None \<longrightarrow> int (length (rg_results g)) < rg_capacity g)
     \<and> g' = g\<lparr>rg_results := AList.update (result_key r) r (rg_results g)\<rparr>"
  by (auto simp: record_probe_def fits_registry_def Let_def not_le split: if_splits)

interpretation kernel_registry: sticky_registry record_probe
  "\<lambda>g. map_of (rg_results g)" result_key fits_registry kr_quarantined kr_passed
proof unfold_locales
  fix g r g' k u
  assume step: "record_probe g r = Inr g'"
  show "map_of (rg_results g') k = (if k = result_key r then Some r else map_of (rg_results g) k)"
    using step by (auto simp: record_probe_Inr update_conv')
  show "fits_registry g r" using step by (simp add: record_probe_Inr)
  show "fits_registry g' = fits_registry g"
    using step by (auto simp: record_probe_Inr fits_registry_def fun_eq_iff)
  show "map_of (rg_results g) (result_key r) = Some u \<Longrightarrow> kr_quarantined u \<Longrightarrow> \<not> kr_passed r"
    using step by (auto simp: record_probe_Inr)
qed

definition registry_ok :: "kernel_registry \<Rightarrow> bool" where
  "registry_ok g \<longleftrightarrow>
     rg_hardware_fingerprint g \<noteq> [] \<and> rg_environment_fingerprint g \<noteq> [] \<and>
     rg_capacity g \<le> 512 \<and> int (length (rg_results g)) \<le> rg_capacity g \<and>
     dict_ok (rg_results g) \<and>
     list_all (\<lambda>(k, r). result_key r = k \<and> fits_registry g r \<and> kernel_probe_result_ok r)
       (rg_results g)"

lemma new_kernel_registry_ok: "new_kernel_registry hw env n = Inr g \<Longrightarrow> registry_ok g"
  by (auto simp: new_kernel_registry_def registry_ok_def MAX_REGISTRY_ENTRIES_def split: if_splits)

lemma record_probe_ok:
  assumes "registry_ok g" and "kernel_probe_result_ok r" and "record_probe g r = Inr g'"
  shows "registry_ok g'"
proof -
  note step = assms(3) [unfolded record_probe_Inr]
  have fits: "fits_registry g' = fits_registry g"
    using step by (auto simp: fits_registry_def fun_eq_iff)
  have len: "int (length (rg_results g')) \<le> rg_capacity g"
    using step assms(1) by (cases "result_key r \<in> set (keys (rg_results g))")
      (auto simp: registry_ok_def length_update_existing length_update_fresh map_of_eq_None_iff)
  have "list_all (\<lambda>(k, r). result_key r = k \<and> fits_registry g r \<and> kernel_probe_result_ok r)
      (rg_results g')"
    using assms(1,2) step by (auto simp: registry_ok_def intro!: list_all_update)
  with assms(1) step len fits show ?thesis
    by (auto simp: registry_ok_def dict_ok_update)
qed

section \<open>Round trips\<close>

text \<open>What the parser demands beyond the constructor check; every result of a probe over valid
  measurements has it.\<close>

definition kernel_result_storable :: "kernel_probe_result \<Rightarrow> bool" where
  "kernel_result_storable r \<longleftrightarrow> kernel_probe_result_ok r \<and>
     latency_valid (j_option JInt (kr_baseline_latency r)) \<and>
     latency_valid (j_option JInt (kr_candidate_latency r)) \<and>
     ratio_valid (j_option j_rat (kr_slowdown_ratio r))"

lemma parse_to_dict:
  assumes "kernel_result_storable r"
  shows "parse_kernel_probe_result (kernel_probe_result_to_dict r) = Some (Inr r)"
proof -
  have "j_int_value (j_option JInt x) = x" for x by (cases x) simp_all
  moreover have "j_float_value (j_option j_rat x) = x" for x by (cases x) (simp_all add: j_rat_def)
  moreover have "kernel_probe_result_init r = Inr r"
    using assms by (simp add: guards kernel_result_storable_def)
  ultimately show ?thesis
    using assms
    by (cases r) (simp add: kernel_probe_result_to_dict_def kernel_result_storable_def field_def
        build_parsed_result_def result_fields_def)
qed

lemma snapshot_facts:
  assumes "registry_ok g"
  shows "set (registry_snapshot g) = snd ` set (rg_results g)"
    and "distinct (map result_key (registry_snapshot g))"
    and "length (registry_snapshot g) = length (rg_results g)"
    and "\<forall>r\<in>set (registry_snapshot g). map_of (rg_results g) (result_key r) = Some r"
proof -
  have dict: "dict_ok (rg_results g)" using assms by (simp add: registry_ok_def)
  have entry: "map_of (rg_results g) k = Some r" "result_key r = k"
    if "(k, r) \<in> set (rg_results g)" for k r
    using that assms dict by (auto simp: registry_ok_def list_all_iff)
  show img: "set (registry_snapshot g) = snd ` set (rg_results g)"
    using entry(1) by (force simp: registry_snapshot_def image_iff)
  show "\<forall>r\<in>set (registry_snapshot g). map_of (rg_results g) (result_key r) = Some r"
    unfolding img using entry by fastforce
  have "result_key (the (map_of (rg_results g) k)) = k" if "k \<in> set (keys (rg_results g))" for k
    using that entry by fastforce
  then have "map result_key (registry_snapshot g) = sort (keys (rg_results g))"
    by (auto simp: registry_snapshot_def comp_def intro!: map_idI)
  then show "distinct (map result_key (registry_snapshot g))" using dict by simp
  show "length (registry_snapshot g) = length (rg_results g)" by (simp add: registry_snapshot_def)
qed

lemma fold_record_parsed:
  "\<forall>r\<in>set rs. kernel_result_storable r \<Longrightarrow>
   record_parsed g (map kernel_probe_result_to_dict rs) = Some (fold_result record_probe g rs)"
proof (induction rs arbitrary: g)
  case (Cons r rs)
  then show ?case by (simp add: parse_to_dict split: sum.split)
qed simp

lemma fold_record_probe_succeeds:
  assumes "\<forall>r\<in>set rs. fits_registry g r" and "distinct (map result_key rs)"
    and "\<forall>r\<in>set rs. map_of (rg_results g) (result_key r) = None"
    and "int (length (rg_results g) + length rs) \<le> rg_capacity g"
  shows "\<exists>g'. fold_result record_probe g rs = Inr g'"
  using assms
proof (induction rs arbitrary: g)
  case Nil
  then show ?case by simp
next
  case (Cons r rs)
  define h where "h = g\<lparr>rg_results := AList.update (result_key r) r (rg_results g)\<rparr>"
  have none: "map_of (rg_results g) (result_key r) = None" using Cons.prems(3) by simp
  then have step: "record_probe g r = Inr h"
    using Cons.prems(1,4) by (simp add: record_probe_Inr h_def)
  have "\<exists>g'. fold_result record_probe h rs = Inr g'"
  proof (rule Cons.IH)
    show "\<forall>r\<in>set rs. fits_registry h r" using Cons.prems(1) by (simp add: h_def fits_registry_def)
    show "distinct (map result_key rs)" using Cons.prems(2) by simp
    show "\<forall>r'\<in>set rs. map_of (rg_results h) (result_key r') = None"
    proof
      fix r'
      assume r': "r' \<in> set rs"
      then have "result_key r' \<noteq> result_key r" using Cons.prems(2) by (auto simp: image_iff)
      then show "map_of (rg_results h) (result_key r') = None"
        using Cons.prems(3) r' by (simp add: h_def update_conv')
    qed
    have "length (rg_results h) = Suc (length (rg_results g))"
      using none by (simp add: h_def length_update_fresh map_of_eq_None_iff)
    then show "int (length (rg_results h) + length rs) \<le> rg_capacity h"
      using Cons.prems(4) by (simp add: h_def)
  qed
  with step show ?case by simp
qed

section \<open>Properties\<close>

definition hex_digest :: "(json \<Rightarrow> string) \<Rightarrow> bool" where
  "hex_digest digest \<longleftrightarrow> (\<forall>x. length (digest x) = 64 \<and> list_all is_hex (digest x))"

text \<open>A probe always produces a result, and the result passes exactly when every one of the
  configured samples ran on both kernels, agreed within the configured error, and the candidate's
  median latency over the baseline's (as doubles) stays within the allowed slowdown.  A raised
  exception, a mismatch or a slow kernel is quarantined; completed samples never exceed the
  configured number.\<close>
theorem probe_verdict:
  assumes "hex_digest digest" and config: "kernel_probe_config_init c = Inr c"
  shows "\<exists>r. run_kernel_probe digest c f g = Inr r
    \<and> kr_quarantined r = (\<not> kr_passed r)
    \<and> kr_passed r =
        ((\<forall>i<nat (kc_samples c). agrees_at (kc_maximum_absolute_error c) f g i)
         \<and> true_div (the (median (map (latency_at g) [0..<nat (kc_samples c)])))
              (the (median (map (latency_at f) [0..<nat (kc_samples c)])))
            \<le> fin_val (kc_maximum_slowdown_ratio c))
    \<and> 0 \<le> kr_samples_completed r \<and> kr_samples_completed r \<le> kc_samples c
    \<and> (kr_backend r, kr_operator r) = (kc_backend c, kc_operator c)"
proof -
  define tol where "tol = kc_maximum_absolute_error c"
  define n where "n = nat (kc_samples c)"
  have n: "kc_samples c = int n" "0 < n" "n \<le> 32"
    using config by (auto simp: n_def kernel_probe_config_init_def MAX_PROBE_SAMPLES_def split: if_splits)
  have pid: "length (take 24 (digest x)) = 24" "list_all is_hex (take 24 (digest x))" for x
    using assms(1) by (auto simp: hex_digest_def list_all_iff dest: in_set_takeD)
  obtain reason k bs cs where out: "probe_samples tol f g n 0 0 [] [] = (reason, k, bs, cs)"
    by (metis prod_cases4)
  note run = run_kernel_probe_def [of digest c f g, folded tol_def n_def, unfolded out Let_def prod.case]
  show ?thesis
  proof (cases "\<forall>i<n. agrees_at tol f g i")
    case True
    then have "\<forall>j<n. agrees_at tol f g (0 + j)" by simp
    from probe_samples_all [OF this, of 0 "[]" "[]"] out
    have vals: "reason = ''passed''" "k = int n" "bs = map (latency_at f) [0..<n]"
      "cs = map (latency_at g) [0..<n]" by auto
    have "bs \<noteq> []" "cs \<noteq> []" using n(2) vals by auto
    then show ?thesis
      using True n pid
      by (auto simp: run vals(1,2) vals(3,4) [symmetric] median_Some slowdown_of_def probe_reason_def
          kernel_probe_result_init_def MAX_PROBE_SAMPLES_def tol_def [symmetric] n_def [symmetric])
  next
    case False
    then have "\<not> (\<forall>j<n. agrees_at tol f g (0 + j))" by simp
    from probe_samples_stops [OF this, of 0 "[]" "[]"] out
    have vals: "reason \<in> {''probe_error'', ''correctness_mismatch''}" "0 \<le> k" "k < int n" by auto
    then have reason: "probe_reason reason q l = reason" "reason \<noteq> ''passed''" for q l
      by (auto simp: probe_reason_def split: option.split)
    show ?thesis
      using False n pid vals(2,3) reason
      by (auto simp: run kernel_probe_result_init_def MAX_PROBE_SAMPLES_def tol_def [symmetric]
          n_def [symmetric])
  qed
qed

text \<open>Quarantine is sticky.  Once the registry holds a quarantined result for a backend and
  operator, no sequence of further recordings (successful or refused) of well-formed results makes
  that pair usable again; and any usable pair was recorded with a passing result of this registry's
  hardware and environment.\<close>
theorem quarantine_never_usable:
  assumes "\<forall>r\<in>set rs. kernel_probe_result_ok r"
  shows "(\<forall>q. map_of (rg_results g) (b, operator) = Some q \<and> kr_quarantined q \<longrightarrow>
            \<not> is_usable (attempts record_probe g rs) b operator)
    \<and> (rg_results g = [] \<and> is_usable (attempts record_probe g rs) b operator \<longrightarrow>
        (\<exists>r\<in>set rs. result_key r = (b, operator) \<and> kr_passed r \<and> fits_registry g r))"
proof (intro conjI allI impI)
  fix q
  assume q: "map_of (rg_results g) (b, operator) = Some q \<and> kr_quarantined q"
  have "\<And>v. v \<in> set rs \<Longrightarrow> kr_quarantined v \<or> kr_passed v"
    using assms by (auto simp: kernel_probe_result_ok_def)
  then have "\<exists>w. map_of (rg_results (attempts record_probe g rs)) (b, operator) = Some w
      \<and> kr_quarantined w"
    using q by (intro kernel_registry.quarantine_is_sticky [of g _ q]) auto
  then show "\<not> is_usable (attempts record_probe g rs) b operator" by (auto simp: is_usable_def)
next
  assume "rg_results g = [] \<and> is_usable (attempts record_probe g rs) b operator"
  then obtain r where "map_of (rg_results (attempts record_probe g rs)) (b, operator) = Some r"
    "kr_passed r" "rg_results g = []" by (auto simp: is_usable_def split: option.splits)
  then show "\<exists>r\<in>set rs. result_key r = (b, operator) \<and> kr_passed r \<and> fits_registry g r"
    using kernel_registry.provenance [of g rs "(b, operator)" r] by auto
qed

text \<open>C32: the cache file round-trips.  What \<open>save\<close> writes for a well-formed registry, \<open>load\<close>
  reads back into a registry with the same entry for every backend and operator, as long as the
  file is private, within its size, and the age at loading is within the maximum.\<close>

theorem probe_cache_roundtrip:
  assumes "registry_ok g" and "\<forall>(k, r)\<in>set (rg_results g). kernel_result_storable r"
    and "probe_cache_payload size_of c g saved_at = Inr payload"
    and "fa_regular a" and "fa_current_user a" and "fa_size a \<le> MAX_PROBE_CACHE_BYTES"
    and "fa_mode a mod 64 = 0"
    and "0 < py_trunc saved_at" and "of_int (py_trunc saved_at) \<le> rnd (now + 300)"
    and "rnd (now - rnd (of_int (py_trunc saved_at))) \<le> fin_val (pc_max_age_seconds c)"
  shows "\<exists>g'. load_probe_cache c a payload now = Some (Inr g')
    \<and> (\<forall>k. map_of (rg_results g') k = map_of (rg_results g) k)
    \<and> (\<forall>b operator. is_usable g' b operator = is_usable g b operator)"
proof -
  define rs where "rs = registry_snapshot g"
  note facts = snapshot_facts [OF assms(1), folded rs_def]
  define g0 where "g0 = \<lparr>rg_hardware_fingerprint = rg_hardware_fingerprint g,
     rg_environment_fingerprint = rg_environment_fingerprint g, rg_capacity = MAX_REGISTRY_ENTRIES,
     rg_results = []\<rparr>"
  have fp: "pc_hardware_fingerprint c = rg_hardware_fingerprint g"
    "pc_environment_fingerprint c = rg_environment_fingerprint g"
    using assms(3) by (auto simp: probe_cache_payload_def split: if_splits)
  have small: "length rs \<le> 512" using assms(1) facts(3) by (auto simp: registry_ok_def)
  have new: "new_kernel_registry (rg_hardware_fingerprint g) (rg_environment_fingerprint g)
      MAX_REGISTRY_ENTRIES = Inr g0"
    using assms(1) by (simp add: new_kernel_registry_def registry_ok_def g0_def MAX_REGISTRY_ENTRIES_def)
  have "\<forall>r\<in>set rs. fits_registry g0 r"
    using assms(1) facts(1) by (fastforce simp: registry_ok_def list_all_iff g0_def fits_registry_def)
  then obtain g' where g': "fold_result record_probe g0 rs = Inr g'"
    using fold_record_probe_succeeds [of rs g0] facts(2) small
    by (auto simp: g0_def MAX_REGISTRY_ENTRIES_def)
  have same: "map_of (rg_results g') k = map_of (rg_results g) k" for k
  proof (cases "find (\<lambda>v. result_key v = k) rs")
    case None
    have "map_of (rg_results g) k = None"
    proof (rule ccontr)
      assume "map_of (rg_results g) k \<noteq> None"
      then obtain r where r: "(k, r) \<in> set (rg_results g)" by (auto dest: map_of_SomeD)
      then have "r \<in> set rs" "result_key r = k"
        using facts(1) assms(1) by (force, auto simp: registry_ok_def list_all_iff)
      with None show False by (auto simp: find_None_iff)
    qed
    with None kernel_registry.fold_stores [OF g' facts(2), of k] show ?thesis by (simp add: g0_def)
  next
    case (Some r)
    then have "r \<in> set rs" "result_key r = k" by (auto simp: find_Some_iff)
    with Some kernel_registry.fold_stores [OF g' facts(2), of k] facts(4) show ?thesis by auto
  qed
  have "\<forall>r\<in>set rs. kernel_result_storable r" using facts(1) assms(2) by auto
  then have "record_parsed g0 (map kernel_probe_result_to_dict rs) = Some (Inr g')"
    using g' by (simp add: fold_record_parsed)
  moreover have "int (length rs) \<le> MAX_REGISTRY_ENTRIES"
    using small by (simp add: MAX_REGISTRY_ENTRIES_def)
  ultimately have "load_probe_results c (JList (map kernel_probe_result_to_dict rs)) = Some (Inr g')"
    by (simp add: load_probe_results_def fp new)
  moreover have "payload = JObj
      [(''schema_version'', JInt 1), (''probe_suite_version'', JInt PROBE_SUITE_VERSION),
       (''hardware_fingerprint'', JStr (pc_hardware_fingerprint c)),
       (''environment_fingerprint'', JStr (pc_environment_fingerprint c)),
       (''created_at_unix_seconds'', JInt (py_trunc saved_at)),
       (''results'', JList (map kernel_probe_result_to_dict rs))]"
    using assms(3) by (simp add: probe_cache_payload_def rs_def Let_def split: if_splits)
  ultimately have "load_probe_cache c a payload now = Some (Inr g')"
    using assms(4-10) by (simp add: load_probe_cache_def field_def cache_fields_def not_less)
  then show ?thesis using same by (auto simp: is_usable_def)
qed

section \<open>Witnesses\<close>

definition example_digest :: "json \<Rightarrow> string" where
  "example_digest x = replicate 64 (CHR ''a'')"

definition example_probe_config :: kernel_probe_config where
  "example_probe_config =
     \<lparr>kc_hardware_fingerprint = ''m4'', kc_environment_fingerprint = ''env'',
      kc_backend = NATIVE_MLX, kc_operator = ''matmul'', kc_samples = 2,
      kc_maximum_slowdown_ratio = Fin (5 / 4), kc_maximum_absolute_error = None\<rparr>"

definition example_measurement :: "nat \<Rightarrow> kernel_measurement result" where
  "example_measurement i =
     (if i < 2 then Inr \<lparr>km_output_digest = replicate 64 (CHR ''0''),
        km_latency_nanoseconds = 100, km_numeric_values = None\<rparr>
      else Inl (RuntimeError ''exhausted''))"

definition example_failure :: kernel_probe_result where
  "example_failure =
     \<lparr>kr_schema_version = 1, kr_probe_id = replicate 24 (CHR ''a''),
      kr_hardware_fingerprint = ''m4'', kr_environment_fingerprint = ''env'',
      kr_backend = NATIVE_MLX, kr_operator = ''matmul'', kr_samples_completed = 0,
      kr_baseline_latency = None, kr_candidate_latency = None, kr_slowdown_ratio = None,
      kr_passed = False, kr_quarantined = True, kr_reason = ''probe_error''\<rparr>"

definition example_kernel_registry :: kernel_registry where
  "example_kernel_registry =
     \<lparr>rg_hardware_fingerprint = ''m4'', rg_environment_fingerprint = ''env'', rg_capacity = 512,
      rg_results = [((NATIVE_MLX, ''matmul''), example_failure)]\<rparr>"

definition example_probe_cache :: probe_cache where
  "example_probe_cache =
     \<lparr>pc_hardware_fingerprint = ''m4'', pc_environment_fingerprint = ''env'',
      pc_max_age_seconds = Fin 604800\<rparr>"

lemma example_failure_ok: "kernel_probe_result_ok example_failure"
  by (simp add: kernel_probe_result_ok_def example_failure_def is_hex_def list_all_iff)

lemma example_pass_ok:
  "kernel_probe_result_ok
     (example_failure\<lparr>kr_passed := True, kr_quarantined := False, kr_reason := ''passed''\<rparr>)"
  by (simp add: kernel_probe_result_ok_def example_failure_def is_hex_def list_all_iff)

lemma example_registry_ok: "registry_ok example_kernel_registry"
  using example_failure_ok
  by (simp add: registry_ok_def example_kernel_registry_def result_key_def fits_registry_def)
    (simp add: example_failure_def)

lemma example_quarantined:
  "map_of (rg_results example_kernel_registry) (NATIVE_MLX, ''matmul'') = Some example_failure"
  "kr_quarantined example_failure"
  by (simp_all add: example_kernel_registry_def) (simp add: example_failure_def)

theorem probe_verdict_witness:
  "\<exists>r. run_kernel_probe example_digest example_probe_config example_measurement
     example_measurement = Inr r \<and> 0 \<le> kr_samples_completed r \<and> kr_samples_completed r \<le> 2"
proof -
  have "hex_digest example_digest"
    by (simp add: hex_digest_def example_digest_def is_hex_def list_all_iff)
  moreover have "kernel_probe_config_init example_probe_config = Inr example_probe_config"
    by (simp add: kernel_probe_config_init_def example_probe_config_def MAX_PROBE_SAMPLES_def)
  ultimately show ?thesis
    using probe_verdict [of example_digest example_probe_config example_measurement example_measurement]
    by (auto simp: example_probe_config_def)
qed

theorem quarantine_never_usable_witness:
  "\<not> is_usable (attempts record_probe example_kernel_registry
     [example_failure\<lparr>kr_passed := True, kr_quarantined := False, kr_reason := ''passed''\<rparr>])
     NATIVE_MLX ''matmul''"
proof -
  have "\<forall>r\<in>set [example_failure\<lparr>kr_passed := True, kr_quarantined := False,
      kr_reason := ''passed''\<rparr>]. kernel_probe_result_ok r"
    using example_pass_ok by simp
  from quarantine_never_usable [OF this, of example_kernel_registry NATIVE_MLX "''matmul''"]
  show ?thesis using example_quarantined by blast
qed

theorem probe_cache_roundtrip_witness:
  "\<exists>payload g'. probe_cache_payload (\<lambda>_. 400) example_probe_cache example_kernel_registry 1000
       = Inr payload
     \<and> load_probe_cache example_probe_cache
         \<lparr>fa_regular = True, fa_current_user = True, fa_size = 400, fa_mode = 33152\<rparr> payload 1000
       = Some (Inr g')
     \<and> \<not> is_usable g' NATIVE_MLX ''matmul''"
proof -
  let ?a = "\<lparr>fa_regular = True, fa_current_user = True, fa_size = 400, fa_mode = 33152\<rparr>"
  have st: "\<forall>(k, r)\<in>set (rg_results example_kernel_registry). kernel_result_storable r"
    using example_failure_ok
    by (simp add: example_kernel_registry_def kernel_result_storable_def)
      (simp add: example_failure_def)
  obtain payload where p: "probe_cache_payload (\<lambda>_. 400) example_probe_cache
      example_kernel_registry 1000 = Inr payload"
    by (simp add: probe_cache_payload_def example_kernel_registry_def example_probe_cache_def
        MAX_PROBE_CACHE_BYTES_def Let_def)
  have r: "py_trunc 1000 = 1000" "rnd 1000 = 1000" "rnd 1300 = 1300" "rnd 0 = 0"
    using rnd_int_exact [of 1000] rnd_int_exact [of 1300] rnd_int_exact [of 0]
    by (simp_all add: py_trunc_def)
  have "\<exists>g'. load_probe_cache example_probe_cache ?a payload 1000 = Some (Inr g')
    \<and> (\<forall>k. map_of (rg_results g') k = map_of (rg_results example_kernel_registry) k)
    \<and> (\<forall>b operator. is_usable g' b operator = is_usable example_kernel_registry b operator)"
    by (rule probe_cache_roundtrip [OF example_registry_ok st p])
      (simp_all add: r MAX_PROBE_CACHE_BYTES_def example_probe_cache_def)
  moreover have "\<not> is_usable example_kernel_registry NATIVE_MLX ''matmul''"
    by (simp add: is_usable_def example_kernel_registry_def example_failure_def)
  ultimately show ?thesis using p by auto
qed

end
