(* ===== verification/OperatorDispatch.thy ===== *)
theory OperatorDispatch
  imports KernelProbe
begin

text \<open>
  \<open>vllm_apple/operator_dispatch.py\<close>: the fail-closed dispatcher, which orders the candidate
  backends by what the probe registry says, and the executor that walks the resulting fallback
  chain.  The caller's \<open>prepare\<close>, \<open>operation\<close> and \<open>validate\<close> callbacks are arguments; they act on a
  state \<open>'s\<close> of the caller (the scheduler moves a device reservation in \<open>prepare\<close>).
\<close>

section \<open>Requests and decisions\<close>

definition backend_execution_error :: "string \<Rightarrow> bool \<Rightarrow> py_error" where
  "backend_execution_error code retryable =
     (if code = [] \<or> 128 < length code
      then ValueError ''backend error code must contain 1 to 128 characters''
      else BackendExecutionError code retryable)"

record backend_attempt =
  at_backend :: execution_backend
  at_status :: string
  at_error_code :: "string option"

definition backend_attempt_init :: "backend_attempt \<Rightarrow> backend_attempt result" where
  "backend_attempt_init a =
     (if at_status a \<notin> {''failed'', ''succeeded''}
      then Inl (ValueError ''invalid backend execution attempt status'') else Inr a)"

definition failed_attempt :: "execution_backend \<Rightarrow> string \<Rightarrow> backend_attempt" where
  "failed_attempt b code = \<lparr>at_backend = b, at_status = ''failed'', at_error_code = Some code\<rparr>"

definition succeeded_attempt :: "execution_backend \<Rightarrow> backend_attempt" where
  "succeeded_attempt b = \<lparr>at_backend = b, at_status = ''succeeded'', at_error_code = None\<rparr>"

record dispatch_request =
  dr_operator :: string
  dr_candidates :: "execution_backend list"

definition dispatch_request_init :: "dispatch_request \<Rightarrow> dispatch_request result" where
  "dispatch_request_init r =
     (if dr_operator r = [] \<or> 128 < length (dr_operator r)
        then Inl (ValueError ''operator must contain 1 to 128 characters'')
      else if dr_candidates r = [] \<or> length all_backends < length (dr_candidates r)
        then Inl (ValueError ''dispatch requires bounded backend candidates'')
      else if \<not> distinct (dr_candidates r)
        then Inl (ValueError ''dispatch candidates must be unique'')
      else Inr r)"

record dispatch_decision_record =
  dd_operator :: string
  dd_selected :: execution_backend
  dd_fallback_chain :: "execution_backend list"
  dd_quarantined :: "execution_backend list"
  dd_unprobed :: "execution_backend list"
  dd_reason :: string

section \<open>The dispatcher\<close>

text \<open>The dictionary built from the snapshot; a later result for a key would win.\<close>

definition results_by_key ::
  "kernel_registry \<Rightarrow> execution_backend \<times> string \<Rightarrow> kernel_probe_result option" where
  "results_by_key g = map_of (rev (map (\<lambda>r. (result_key r, r)) (registry_snapshot g)))"

fun classify ::
  "(execution_backend \<times> string \<Rightarrow> kernel_probe_result option) \<Rightarrow> string \<Rightarrow> execution_backend list
    \<Rightarrow> execution_backend list \<times> execution_backend list \<times> execution_backend list" where
  "classify results operator [] = ([], [], [])"
| "classify results operator (b # bs) =
     (let (usable, quarantined, unprobed) = classify results operator bs
      in if b = CPU then (b # usable, quarantined, unprobed)
         else (case results (b, operator) of
                 None \<Rightarrow> (usable, quarantined, b # unprobed)
               | Some r \<Rightarrow>
                   if kr_quarantined r then (usable, b # quarantined, unprobed)
                   else if kr_passed r then (b # usable, quarantined, unprobed)
                   else (usable, quarantined, unprobed)))"

definition dispatch :: "kernel_registry \<Rightarrow> dispatch_request \<Rightarrow> dispatch_decision_record result" where
  "dispatch g request =
     (let (usable, quarantined, unprobed) =
            classify (results_by_key g) (dr_operator request) (dr_candidates request)
      in case usable of
           [] \<Rightarrow> Inl (RuntimeError ''no probed backend or CPU fallback is available'')
         | selected # chain \<Rightarrow>
             Inr \<lparr>dd_operator = dr_operator request, dd_selected = selected,
                  dd_fallback_chain = chain, dd_quarantined = quarantined, dd_unprobed = unprobed,
                  dd_reason = (if selected \<noteq> CPU then ''preferred_probe_passed''
                               else ''accelerator_unavailable_cpu_fallback'')\<rparr>)"

section \<open>The fallback executor\<close>

text \<open>How \<open>execute\<close> ends: a value with its attempts, \<open>OperatorFallbackExhaustedError\<close> with the
  attempts it carries, or another exception that propagates.\<close>

datatype 'a fallback_outcome =
    Completed 'a execution_backend "backend_attempt list"
  | Exhausted "backend_attempt list"
  | Raised py_error

definition run_on ::
  "(execution_backend \<Rightarrow> ('s, unit) method) option \<Rightarrow> (execution_backend \<Rightarrow> ('s, 'a) method)
    \<Rightarrow> execution_backend \<Rightarrow> ('s, 'a) method" where
  "run_on prepare operation b s =
     (case prepare of
        None \<Rightarrow> operation b s
      | Some p \<Rightarrow> (case p b s of (Inl e, s') \<Rightarrow> (Inl e, s') | (Inr u, s') \<Rightarrow> operation b s'))"

fun run_chain ::
  "(execution_backend \<Rightarrow> ('s, unit) method) option \<Rightarrow> (execution_backend \<Rightarrow> ('s, 'a) method)
    \<Rightarrow> ('a \<Rightarrow> execution_backend \<Rightarrow> bool result) option \<Rightarrow> execution_backend list
    \<Rightarrow> backend_attempt list \<Rightarrow> 's \<Rightarrow> 'a fallback_outcome \<times> 's" where
  "run_chain prepare operation validate [] tried s = (Exhausted tried, s)"
| "run_chain prepare operation validate (b # bs) tried s =
     (case run_on prepare operation b s of
        (Inl e, s') \<Rightarrow>
          (case e of
             BackendExecutionError code retryable \<Rightarrow>
               if \<not> retryable then (Raised e, s')
               else run_chain prepare operation validate bs (tried @ [failed_attempt b code]) s'
           | TimeoutError \<Rightarrow>
               run_chain prepare operation validate bs
                 (tried @ [failed_attempt b ''backend_timeout'']) s'
           | _ \<Rightarrow> (Raised e, s'))
      | (Inr v, s') \<Rightarrow>
          (case (case validate of None \<Rightarrow> Inr True | Some f \<Rightarrow> f v b) of
             Inl e \<Rightarrow> (Raised e, s')
           | Inr valid \<Rightarrow>
               if \<not> valid
               then run_chain prepare operation validate bs
                      (tried @ [failed_attempt b ''output_mismatch'']) s'
               else (Completed v b (tried @ [succeeded_attempt b]), s')))"

definition execute_fallback ::
  "dispatch_decision_record \<Rightarrow> (execution_backend \<Rightarrow> ('s, 'a) method)
    \<Rightarrow> ('a \<Rightarrow> execution_backend \<Rightarrow> bool result) option
    \<Rightarrow> (execution_backend \<Rightarrow> ('s, unit) method) option \<Rightarrow> 's \<Rightarrow> 'a fallback_outcome \<times> 's" where
  "execute_fallback decision operation validate prepare s =
     (let backends = dd_selected decision # dd_fallback_chain decision
      in if length all_backends < length backends \<or> \<not> distinct backends
         then (Raised (ValueError ''invalid operator fallback chain''), s)
         else run_chain prepare operation validate backends [] s)"

section \<open>Dispatch lemmas\<close>

lemma results_by_key_registry:
  assumes "registry_ok g"
  shows "results_by_key g = map_of (rg_results g)"
proof
  fix k
  note facts = snapshot_facts [OF assms]
  let ?d = "rev (map (\<lambda>r. (result_key r, r)) (registry_snapshot g))"
  have dist: "dict_ok ?d" using facts(2) by (simp add: comp_def flip: rev_map)
  show "results_by_key g k = map_of (rg_results g) k"
  proof (cases "map_of (rg_results g) k")
    case None
    have "k \<notin> result_key ` set (registry_snapshot g)" using facts(4) None by force
    then have "map_of ?d k = None" by (auto simp: map_of_eq_None_iff)
    with None show ?thesis by (simp add: results_by_key_def)
  next
    case (Some r)
    then have mem: "(k, r) \<in> set (rg_results g)" by (rule map_of_SomeD)
    then have "r \<in> set (registry_snapshot g)" unfolding facts(1) by force
    moreover have "result_key r = k" using mem assms by (auto simp: registry_ok_def list_all_iff)
    ultimately have "(k, r) \<in> set ?d" by auto
    with dist Some show ?thesis unfolding results_by_key_def by (metis map_of_is_SomeI)
  qed
qed

text \<open>A backend may be used when it is the CPU or its probe passed.\<close>

definition dispatchable :: "kernel_registry \<Rightarrow> string \<Rightarrow> execution_backend \<Rightarrow> bool" where
  "dispatchable g operator b \<longleftrightarrow> b = CPU \<or> is_usable g b operator"

lemma classify_filters:
  "classify results operator bs =
     (filter (\<lambda>b. b = CPU \<or> (\<exists>r. results (b, operator) = Some r \<and> \<not> kr_quarantined r \<and> kr_passed r)) bs,
      filter (\<lambda>b. b \<noteq> CPU \<and> (\<exists>r. results (b, operator) = Some r \<and> kr_quarantined r)) bs,
      filter (\<lambda>b. b \<noteq> CPU \<and> results (b, operator) = None) bs)"
  by (induction bs) (auto split: option.splits)

lemma usable_filter:
  "filter (\<lambda>b. b = CPU \<or> (\<exists>r. map_of (rg_results g) (b, operator) = Some r \<and> \<not> kr_quarantined r
      \<and> kr_passed r)) bs = filter (dispatchable g operator) bs"
  by (rule filter_cong) (auto simp: dispatchable_def is_usable_def split: option.splits)

lemma dispatch_Inr:
  assumes "registry_ok g" and "dispatch g request = Inr d"
  shows "dd_selected d # dd_fallback_chain d
      = filter (dispatchable g (dr_operator request)) (dr_candidates request)"
    and "dd_operator d = dr_operator request"
  using assms(2)
  by (auto simp: dispatch_def classify_filters results_by_key_registry [OF assms(1)] usable_filter
      split: list.splits)

section \<open>Executor lemmas\<close>

lemma run_chain_spec:
  assumes "run_chain prepare operation validate bs tried s = (outcome, s')"
  shows "case outcome of
      Completed v b final \<Rightarrow> \<exists>pre post new.
        bs = pre @ b # post \<and> final = tried @ new @ [succeeded_attempt b]
        \<and> map at_backend new = pre \<and> (\<forall>a\<in>set new. at_status a = ''failed'')
        \<and> (\<exists>t t'. run_on prepare operation b t = (Inr v, t'))
        \<and> (\<forall>f. validate = Some f \<longrightarrow> f v b = Inr True)
    | Exhausted final \<Rightarrow> \<exists>new. final = tried @ new
        \<and> map at_backend new = bs \<and> (\<forall>a\<in>set new. at_status a = ''failed'')
    | Raised e \<Rightarrow> e \<noteq> TimeoutError \<and> (\<forall>code. e \<noteq> BackendExecutionError code True)
        \<or> (\<exists>f b v. validate = Some f \<and> f v b = Inl e)"
  using assms
proof (induction bs arbitrary: tried s)
  case Nil
  then show ?case by auto
next
  case (Cons b bs)
  have step: ?case
    if "run_chain prepare operation validate bs (tried @ [failed_attempt b code]) t = (outcome, s')"
    for code t
  proof -
    have f: "at_backend (failed_attempt b code) = b" "at_status (failed_attempt b code) = ''failed''"
      by (simp_all add: failed_attempt_def)
    note IH = Cons.IH [OF that]
    show ?thesis
    proof (cases outcome)
      case (Completed v c final)
      with IH have "\<exists>pre post new. bs = pre @ c # post
        \<and> final = (tried @ [failed_attempt b code]) @ new @ [succeeded_attempt c]
        \<and> map at_backend new = pre \<and> (\<forall>a\<in>set new. at_status a = ''failed'')"
        and rest: "\<exists>t t'. run_on prepare operation c t = (Inr v, t')"
          "\<forall>f. validate = Some f \<longrightarrow> f v c = Inr True" by auto
      then obtain pre post new where "bs = pre @ c # post"
        "final = (tried @ [failed_attempt b code]) @ new @ [succeeded_attempt c]"
        "map at_backend new = pre" "\<forall>a\<in>set new. at_status a = ''failed''" by blast
      then have "b # bs = (b # pre) @ c # post"
        "final = tried @ (failed_attempt b code # new) @ [succeeded_attempt c]"
        "map at_backend (failed_attempt b code # new) = b # pre"
        "\<forall>a\<in>set (failed_attempt b code # new). at_status a = ''failed''" by (simp_all add: f)
      then have "\<exists>pre post new. b # bs = pre @ c # post
          \<and> final = tried @ new @ [succeeded_attempt c]
          \<and> map at_backend new = pre \<and> (\<forall>a\<in>set new. at_status a = ''failed'')"
        by (intro exI [of _ "b # pre"] exI [of _ post] exI [of _ "failed_attempt b code # new"] conjI)
      with rest Completed show ?thesis by simp
    next
      case (Exhausted final)
      with IH obtain new where "final = (tried @ [failed_attempt b code]) @ new"
        "map at_backend new = bs" "\<forall>a\<in>set new. at_status a = ''failed''" by auto
      then have "final = tried @ (failed_attempt b code # new)"
        "map at_backend (failed_attempt b code # new) = b # bs"
        "\<forall>a\<in>set (failed_attempt b code # new). at_status a = ''failed''" by (simp_all add: f)
      then have "\<exists>new. final = tried @ new \<and> map at_backend new = b # bs
          \<and> (\<forall>a\<in>set new. at_status a = ''failed'')"
        by (intro exI [of _ "failed_attempt b code # new"] conjI)
      with Exhausted show ?thesis by simp
    next
      case (Raised e)
      with IH show ?thesis by simp
    qed
  qed
  obtain out t where run: "run_on prepare operation b s = (out, t)" by force
  show ?case
  proof (cases out)
    case (Inl e)
    show ?thesis
      using Cons.prems run Inl step
      by (cases e) (auto split: if_splits)
  next
    case (Inr v)
    obtain valid where valid: "(case validate of None \<Rightarrow> Inr True | Some f \<Rightarrow> f v b) = valid" by simp
    show ?thesis
    proof (cases valid)
      case (Inl e)
      with valid have "\<exists>f b v. validate = Some f \<and> f v b = Inl e" by (auto split: option.splits)
      then show ?thesis using Cons.prems run Inr valid Inl by auto
    next
      case (Inr ok)
      with valid have ok: "\<forall>f. validate = Some f \<longrightarrow> f v b = Inr ok" by auto
      show ?thesis
      proof (cases ok)
        case True
        then have "outcome = Completed v b (tried @ [succeeded_attempt b])"
          using Cons.prems run \<open>out = Inr v\<close> valid Inr by simp
        moreover have "\<exists>t t'. run_on prepare operation b t = (Inr v, t')"
          using run \<open>out = Inr v\<close> by blast
        ultimately show ?thesis using ok True by simp
      next
        case False
        then show ?thesis using Cons.prems run \<open>out = Inr v\<close> valid Inr step by simp
      qed
    qed
  qed
qed

section \<open>Properties\<close>

text \<open>C33: dispatch is fail-closed.  For a well-formed registry the selected backend and its fallback
  chain are exactly the candidates that are the CPU or whose probe passed, in the caller's order;
  no quarantined or unprobed accelerator is ever in the chain; and dispatch fails, with the error
  that says so, exactly when no candidate qualifies.\<close>

theorem dispatch_fail_closed:
  assumes "registry_ok g"
  shows "(case dispatch g request of
      Inr d \<Rightarrow>
        dd_selected d # dd_fallback_chain d
          = filter (dispatchable g (dr_operator request)) (dr_candidates request)
        \<and> set (dd_quarantined d) \<inter> set (dd_selected d # dd_fallback_chain d) = {}
        \<and> set (dd_unprobed d) \<inter> set (dd_selected d # dd_fallback_chain d) = {}
        \<and> set (dr_candidates request) = set (dd_selected d # dd_fallback_chain d)
            \<union> set (dd_quarantined d) \<union> set (dd_unprobed d)
    | Inl e \<Rightarrow> e = RuntimeError ''no probed backend or CPU fallback is available''
        \<and> \<not> list_ex (dispatchable g (dr_operator request)) (dr_candidates request))"
proof -
  let ?op = "dr_operator request"
  have passed: "kr_passed r = (\<not> kr_quarantined r)" if "map_of (rg_results g) k = Some r" for k r
    using that assms by (auto simp: registry_ok_def list_all_iff kernel_probe_result_ok_def dest!: map_of_SomeD)
  note u = usable_filter [of g ?op]
  show ?thesis
  proof (cases "filter (dispatchable g ?op) (dr_candidates request)")
    case Nil
    then have "dispatch g request = Inl (RuntimeError ''no probed backend or CPU fallback is available'')"
      by (simp add: dispatch_def classify_filters results_by_key_registry [OF assms] u)
    with Nil show ?thesis by (auto simp: filter_empty_conv list_ex_iff)
  next
    case (Cons b bs)
    define q where "q = filter (\<lambda>b. b \<noteq> CPU \<and> (\<exists>r. map_of (rg_results g) (b, ?op) = Some r
      \<and> kr_quarantined r)) (dr_candidates request)"
    define n where "n = filter (\<lambda>b. b \<noteq> CPU \<and> map_of (rg_results g) (b, ?op) = None)
      (dr_candidates request)"
    obtain d where d: "dispatch g request = Inr d" "dd_selected d # dd_fallback_chain d = b # bs"
      "dd_quarantined d = q" "dd_unprobed d = n"
      by (simp add: dispatch_def classify_filters results_by_key_registry [OF assms] u Cons q_def n_def)
    have chain: "set (b # bs) = {c \<in> set (dr_candidates request). dispatchable g ?op c}"
      unfolding Cons [symmetric] by simp
    have "c \<in> set (b # bs) \<longleftrightarrow> c \<in> set (dr_candidates request) \<and> c \<notin> set q \<and> c \<notin> set n" for c
      unfolding chain using passed
      by (auto simp: q_def n_def dispatchable_def is_usable_def split: option.splits)
    moreover have "set q \<subseteq> set (dr_candidates request)" "set n \<subseteq> set (dr_candidates request)"
      by (auto simp: q_def n_def)
    ultimately show ?thesis unfolding d(1) sum.case d(2-4) Cons by blast
  qed
qed

text \<open>The executor tries each backend of the chain at most once and in order.  When it
  completes, every earlier backend failed, and the value was produced by the last backend and passed
  validation; when it is exhausted, every backend of the chain failed; a retryable failure, a
  timeout or a mismatch never escapes as an exception, unless the validator itself raises one.\<close>
theorem execute_fallback_outcomes:
  shows "(case fst (execute_fallback decision operation validate prepare s) of
      Completed v b tried \<Rightarrow>
        (\<exists>pre post. dd_selected decision # dd_fallback_chain decision = pre @ b # post
          \<and> map at_backend tried = pre @ [b])
        \<and> at_status (last tried) = ''succeeded''
        \<and> (\<forall>a\<in>set (butlast tried). at_status a = ''failed'')
        \<and> length tried \<le> 5
        \<and> (\<exists>t t'. run_on prepare operation b t = (Inr v, t'))
        \<and> (\<forall>f. validate = Some f \<longrightarrow> f v b = Inr True)
    | Exhausted tried \<Rightarrow>
        map at_backend tried = dd_selected decision # dd_fallback_chain decision
        \<and> (\<forall>a\<in>set tried. at_status a = ''failed'')
    | Raised e \<Rightarrow> e \<noteq> TimeoutError \<and> (\<forall>code. e \<noteq> BackendExecutionError code True)
        \<or> (\<exists>f b v. validate = Some f \<and> f v b = Inl e))"
proof (cases "length all_backends < length (dd_selected decision # dd_fallback_chain decision)
    \<or> \<not> distinct (dd_selected decision # dd_fallback_chain decision)")
  case True
  then have "fst (execute_fallback decision operation validate prepare s)
      = Raised (ValueError ''invalid operator fallback chain'')"
    unfolding execute_fallback_def Let_def by simp
  then show ?thesis by simp
next
  case False
  define bs where "bs = dd_selected decision # dd_fallback_chain decision"
  obtain outcome s' where run: "run_chain prepare operation validate bs [] s = (outcome, s')" by force
  have len: "length bs \<le> 5" using False by (simp add: bs_def all_backends_def)
  have "fst (execute_fallback decision operation validate prepare s) = outcome"
    using False run unfolding execute_fallback_def Let_def bs_def by simp
  with run_chain_spec [OF run] len show ?thesis
    unfolding bs_def [symmetric]
    by (cases outcome) (auto simp: succeeded_attempt_def)
qed

definition example_operation :: "execution_backend \<Rightarrow> (unit, int) method" where
  "example_operation b s =
     (if b = NATIVE_MLX then (Inl (BackendExecutionError ''metal_fault'' True), s) else (Inr 7, s))"

definition example_chain :: dispatch_decision_record where
  "example_chain = \<lparr>dd_operator = ''matmul'', dd_selected = NATIVE_MLX, dd_fallback_chain = [CPU],
     dd_quarantined = [], dd_unprobed = [], dd_reason = ''preferred_probe_passed''\<rparr>"

theorem execute_fallback_outcomes_witness:
  "\<exists>tried. fst (execute_fallback example_chain example_operation (Some (\<lambda>v b. Inr (v = 7))) None ())
       = Completed 7 CPU tried
     \<and> map at_backend tried = [NATIVE_MLX, CPU] \<and> (\<forall>a\<in>set (butlast tried). at_status a = ''failed'')"
proof -
  obtain tried where t: "fst (execute_fallback example_chain example_operation
      (Some (\<lambda>v b. Inr (v = 7))) None ()) = Completed 7 CPU tried" "map at_backend tried = [NATIVE_MLX, CPU]"
    by (simp add: execute_fallback_def example_chain_def example_operation_def run_on_def all_backends_def
        failed_attempt_def succeeded_attempt_def)
  then show ?thesis
    using execute_fallback_outcomes [where decision = example_chain and operation = example_operation
        and validate = "Some (\<lambda>v b. Inr (v = 7))" and prepare = None and s = "()"]
    by simp
qed

theorem dispatch_fail_closed_witness:
  "dispatch example_kernel_registry \<lparr>dr_operator = ''matmul'', dr_candidates = [NATIVE_MLX, CPU]\<rparr>
     = Inr \<lparr>dd_operator = ''matmul'', dd_selected = CPU, dd_fallback_chain = [],
         dd_quarantined = [NATIVE_MLX], dd_unprobed = [],
         dd_reason = ''accelerator_unavailable_cpu_fallback''\<rparr>
   \<and> filter (dispatchable example_kernel_registry ''matmul'') [NATIVE_MLX, CPU] = [CPU]"
proof -
  let ?r = "\<lparr>dr_operator = ''matmul'', dr_candidates = [NATIVE_MLX, CPU]\<rparr>"
  have snap: "registry_snapshot example_kernel_registry = [example_failure]"
    by (simp add: registry_snapshot_def example_kernel_registry_def)
  have d: "dispatch example_kernel_registry ?r
     = Inr \<lparr>dd_operator = ''matmul'', dd_selected = CPU, dd_fallback_chain = [],
         dd_quarantined = [NATIVE_MLX], dd_unprobed = [],
         dd_reason = ''accelerator_unavailable_cpu_fallback''\<rparr>"
    by (simp add: dispatch_def results_by_key_def snap result_key_def)
      (simp add: example_failure_def)
  then show ?thesis
    using dispatch_fail_closed [OF example_registry_ok, of ?r] by simp
qed

end
