(* ===== verification/Accounting.thy ===== *)
theory Accounting
  imports Prelude
begin

text \<open>
  The interface of the runtime's two ledgers: the memory admission controller of \<open>scheduler.py\<close>
  and the device resource ledger of \<open>device_resources.py\<close>.  Each keeps running totals next to a
  dictionary of reservations.  The contract is that reserving adds one entry and its amount to
  every total without passing the capacity, and releasing takes an entry and its amount away; the
  lemmas are that the totals then always equal the sum over the live reservations and that every
  reservation can be undone exactly.
\<close>

definition balanced ::
  "('s \<Rightarrow> ('i, 'r) dict) \<Rightarrow> ('s \<Rightarrow> 'k \<Rightarrow> int) \<Rightarrow> ('s \<Rightarrow> 'k \<Rightarrow> int) \<Rightarrow> ('r \<Rightarrow> 'k \<Rightarrow> int) \<Rightarrow> 's \<Rightarrow> bool"
where
  "balanced entries used limit amount s \<longleftrightarrow>
     dict_ok (entries s)
     \<and> (\<forall>k. used s k = asum (\<lambda>r. amount r k) (entries s))
     \<and> (\<forall>k. asum (\<lambda>r. amount r k) (entries s) \<le> limit s k)
     \<and> (\<forall>k. \<forall>(i, r)\<in>set (entries s). 0 \<le> amount r k)"

locale ledger =
  fixes entries :: "'s \<Rightarrow> ('i, 'r) dict"
    and used :: "'s \<Rightarrow> 'k \<Rightarrow> int"
    and limit :: "'s \<Rightarrow> 'k \<Rightarrow> int"
    and amount :: "'r \<Rightarrow> 'k \<Rightarrow> int"
    and reserve :: "'i \<Rightarrow> 'q \<Rightarrow> 's \<Rightarrow> ('r \<times> 's) result"
    and release :: "'i \<Rightarrow> 's \<Rightarrow> bool \<times> 's"
  assumes reserve_entries: "reserve i q s = Inr (r, s') \<Longrightarrow> entries s' = AList.update i r (entries s)"
    and reserve_used: "reserve i q s = Inr (r, s') \<Longrightarrow> used s' k = used s k + amount r k"
    and reserve_limit: "reserve i q s = Inr (r, s') \<Longrightarrow>
        limit s' = limit s \<and> used s k + amount r k \<le> limit s k"
    and release_missing: "map_of (entries s) i = None \<Longrightarrow> release i s = (False, s)"
    and release_entries: "map_of (entries s) i = Some r \<Longrightarrow>
        fst (release i s) \<and> entries (snd (release i s)) = AList.delete i (entries s)"
    and release_used: "map_of (entries s) i = Some r \<Longrightarrow>
        used (snd (release i s)) k = used s k - amount r k"
    and release_limit: "limit (snd (release i s)) = limit s"
begin

abbreviation ok :: "'s \<Rightarrow> bool" where
  "ok \<equiv> balanced entries used limit amount"

lemma reserve_ok:
  assumes "ok s" and "i \<notin> set (keys (entries s))" and "reserve i q s = Inr (r, s')"
    and "\<And>k. 0 \<le> amount r k"
  shows "ok s'"
proof -
  note e = reserve_entries [OF assms(3)]
  have "dict_ok (entries s')" using assms(1) e by (simp add: balanced_def dict_ok_update)
  moreover have "used s' k = asum (\<lambda>r. amount r k) (entries s') \<and> used s' k \<le> limit s' k" for k
    using assms(1) e reserve_used [OF assms(3), of k] reserve_limit [OF assms(3), of k]
    by (simp add: balanced_def asum_update_fresh [OF assms(2)])
  moreover have "\<forall>(j, v)\<in>set (entries s'). 0 \<le> amount v k" for k
    using assms(1,4) e update_fresh [OF assms(2), of r] by (auto simp: balanced_def)
  ultimately show ?thesis unfolding balanced_def by metis
qed

lemma release_ok:
  assumes "ok s"
  shows "ok (snd (release i s))"
proof (cases "map_of (entries s) i")
  case None
  then show ?thesis using assms by (simp add: release_missing)
next
  case (Some r)
  have dict: "dict_ok (entries s)" and nonneg: "\<And>k. 0 \<le> amount r k"
    using assms map_of_SomeD [OF Some] by (auto simp: balanced_def)
  have e: "entries (snd (release i s)) = AList.delete i (entries s)"
    using release_entries [OF Some] by simp
  have "used (snd (release i s)) k = asum (\<lambda>r. amount r k) (entries (snd (release i s)))
      \<and> asum (\<lambda>r. amount r k) (entries (snd (release i s))) \<le> limit (snd (release i s)) k" for k
  proof -
    have "asum (\<lambda>r. amount r k) (entries s) \<le> limit s k" using assms by (simp add: balanced_def)
    with nonneg [of k] have "asum (\<lambda>r. amount r k) (entries s) - amount r k \<le> limit s k" by linarith
    moreover have "used s k = asum (\<lambda>r. amount r k) (entries s)" using assms by (simp add: balanced_def)
    ultimately show ?thesis
      by (simp add: e release_used [OF Some] asum_delete [OF dict Some] release_limit)
  qed
  moreover have "\<forall>k. \<forall>(i, r)\<in>set (AList.delete i (entries s)). 0 \<le> amount r k"
    using assms delete_subset [of i "entries s"] unfolding balanced_def by blast
  ultimately show ?thesis
    using dict by (simp add: balanced_def e dict_ok_delete)
qed

lemma used_bounds: "ok s \<Longrightarrow> 0 \<le> used s k \<and> used s k \<le> limit s k"
  unfolding balanced_def using asum_nonneg [of "entries s" "\<lambda>r. amount r k"] by fastforce

text \<open>Releasing what was just reserved restores every total and every other entry, and a second
  release finds nothing.\<close>

lemma reserve_release:
  assumes "i \<notin> set (keys (entries s))" and "reserve i q s = Inr (r, s')"
  shows "fst (release i s') \<and> entries (snd (release i s')) = entries s
    \<and> used (snd (release i s')) = used s \<and> limit (snd (release i s')) = limit s
    \<and> fst (release i (snd (release i s'))) = False"
proof -
  have some: "map_of (entries s') i = Some r"
    by (simp add: reserve_entries [OF assms(2)] update_conv')
  have e: "entries (snd (release i s')) = entries s"
    using release_entries [OF some] update_delete_fresh [OF assms(1), of r]
    by (simp add: reserve_entries [OF assms(2)])
  have "map_of (entries (snd (release i s'))) i = None" using assms(1) by (simp add: e map_of_eq_None_iff)
  then have "fst (release i (snd (release i s'))) = False" by (simp add: release_missing)
  moreover have "used (snd (release i s')) = used s"
    by (rule ext) (simp add: release_used [OF some] reserve_used [OF assms(2)])
  ultimately show ?thesis
    using release_entries [OF some] e reserve_limit [OF assms(2)] release_limit by simp
qed

text \<open>Releasing every live reservation brings every total back to zero.\<close>

fun release_all :: "'i list \<Rightarrow> 's \<Rightarrow> 's" where
  "release_all [] s = s"
| "release_all (i # is) s = release_all is (snd (release i s))"

lemma release_all_ok: "ok s \<Longrightarrow> ok (release_all is s)"
  by (induction "is" arbitrary: s) (simp_all add: release_ok)

lemma release_all_keys: "set (keys (entries (release_all is s))) = set (keys (entries s)) - set is"
proof (induction "is" arbitrary: s)
  case (Cons i "is")
  show ?case
  proof (cases "map_of (entries s) i")
    case None
    then have "i \<notin> set (keys (entries s))" by (simp add: map_of_eq_None_iff)
    with None Cons show ?thesis by (auto simp: release_missing)
  next
    case (Some r)
    then have "set (keys (entries (snd (release i s)))) = set (keys (entries s)) - {i}"
      using release_entries [OF Some] keys_delete by metis
    then show ?thesis using Cons by auto
  qed
qed simp

lemma drained:
  assumes "ok s" and "set (keys (entries s)) \<subseteq> set is"
  shows "entries (release_all is s) = [] \<and> used (release_all is s) k = 0"
proof -
  have "set (keys (entries (release_all is s))) = {}" using release_all_keys assms(2) by auto
  then have "entries (release_all is s) = []" by simp
  then show ?thesis using release_all_ok [OF assms(1), of "is"] by (simp add: balanced_def)
qed

end

end
