(* ===== verification/DeviceResources.thy ===== *)
theory DeviceResources
  imports ExecutionTypes Accounting
begin

text \<open>
  \<open>vllm_apple/device_resources.py\<close>: requests for CPU threads, GPU queues, ANE tasks, bandwidth
  slots and Unified Memory, the evidence that two backends may run at the same time, and the
  ledger that grants, moves and releases reservations atomically.  Each method holds the ledger's
  lock for its whole body, so it is one step on the record \<open>device_ledger\<close>; \<open>uuid4\<close> values are
  arguments.  The dictionaries keyed by resource name have a fixed key set and are functions on
  the type \<open>device_resource\<close>; a \<open>frozenset\<close> of two backends is a set.
\<close>

section \<open>Requests and evidence\<close>

definition contention_profile_id :: "(string \<Rightarrow> string) \<Rightarrow> string \<Rightarrow> string \<Rightarrow> string \<Rightarrow> string result" where
  "contention_profile_id sha256 soc os_version architecture =
     (if soc = [] \<or> os_version = [] \<or> architecture = []
      then Inl (ValueError ''contention profile identity is invalid'')
      else Inr (sha256 (soc @ [CHR 0x00] @ os_version @ [CHR 0x00] @ architecture)))"

record contention_evidence =
  be_profile_id :: string
  be_first_backend :: execution_backend
  be_second_backend :: execution_backend
  be_sequential_latency :: int
  be_parallel_latency :: int
  be_sample_count :: int
  be_outputs_match :: bool

definition contention_evidence_init :: "contention_evidence \<Rightarrow> contention_evidence result" where
  "contention_evidence_init e =
     guard_ok (\<not> (be_profile_id e = [] \<or> 128 < length (be_profile_id e)
                 \<or> be_first_backend e = be_second_backend e
                 \<or> be_sequential_latency e < 1 \<or> be_parallel_latency e < 1
                 \<or> \<not> (3 \<le> be_sample_count e \<and> be_sample_count e \<le> 1024)))
       ''invalid bandwidth contention evidence'' e"

definition evidence_qualified :: "contention_evidence \<Rightarrow> bool" where
  "evidence_qualified e \<longleftrightarrow>
     be_outputs_match e \<and> be_parallel_latency e * 100 \<le> be_sequential_latency e * 95"

definition evidence_pair :: "contention_evidence \<Rightarrow> execution_backend set" where
  "evidence_pair e = {be_first_backend e, be_second_backend e}"

record device_request =
  dq_backend :: execution_backend
  dq_unified_memory_bytes :: int
  dq_cpu_threads :: int
  dq_gpu_command_queues :: int
  dq_ane_tasks :: int
  dq_bandwidth_slots :: int

definition device_request_ok :: "device_request \<Rightarrow> bool" where
  "device_request_ok q \<longleftrightarrow>
     0 \<le> dq_unified_memory_bytes q \<and> 0 \<le> dq_cpu_threads q \<and> 0 \<le> dq_gpu_command_queues q \<and>
     0 \<le> dq_ane_tasks q \<and> 1 \<le> dq_bandwidth_slots q \<and> dq_cpu_threads q \<le> 1024 \<and>
     dq_gpu_command_queues q \<le> 64 \<and> dq_ane_tasks q \<le> 64 \<and> dq_bandwidth_slots q \<le> 64"

definition device_request_init :: "device_request \<Rightarrow> device_request result" where
  "device_request_init q =
     (let values = [dq_unified_memory_bytes q, dq_cpu_threads q, dq_gpu_command_queues q,
                    dq_ane_tasks q, dq_bandwidth_slots q]
      in if list_ex (\<lambda>v. v < 0) values \<or> dq_bandwidth_slots q < 1 \<or> 1024 < dq_cpu_threads q
            \<or> 64 < dq_gpu_command_queues q \<or> 64 < dq_ane_tasks q \<or> 64 < dq_bandwidth_slots q
         then Inl (ValueError ''invalid device resource request'') else Inr q)"

lemma device_request_init_iff [guards]:
  "device_request_init q = Inr q' \<longleftrightarrow> device_request_ok q \<and> q' = q"
  by (auto simp: device_request_init_def device_request_ok_def)

definition for_backend :: "execution_backend \<Rightarrow> int \<Rightarrow> device_request result" where
  "for_backend b memory = device_request_init
     \<lparr>dq_backend = b, dq_unified_memory_bytes = memory,
      dq_cpu_threads = (if b = CPU then 1 else 0),
      dq_gpu_command_queues = (if b \<in> {VLLM_METAL, NATIVE_MLX, NATIVE_METAL} then 1 else 0),
      dq_ane_tasks = (if b = COREML_DRAFT then 1 else 0),
      dq_bandwidth_slots = 1\<rparr>"

lemma for_backend_Inr:
  "for_backend b memory = Inr q \<Longrightarrow>
     device_request_ok q \<and> dq_backend q = b \<and> dq_unified_memory_bytes q = memory"
  by (auto simp: for_backend_def guards)

section \<open>The ledger\<close>

datatype device_resource = UnifiedMemory | CpuThreads | GpuQueues | AneTasks | BandwidthSlots

definition all_resources :: "device_resource list" where
  "all_resources = [UnifiedMemory, CpuThreads, GpuQueues, AneTasks, BandwidthSlots]"

fun resource_name :: "device_resource \<Rightarrow> string" where
  "resource_name UnifiedMemory = ''unified_memory_bytes''"
| "resource_name CpuThreads = ''cpu_threads''"
| "resource_name GpuQueues = ''gpu_command_queues''"
| "resource_name AneTasks = ''ane_tasks''"
| "resource_name BandwidthSlots = ''bandwidth_slots''"

fun demand_of :: "device_request \<Rightarrow> device_resource \<Rightarrow> int" where
  "demand_of q UnifiedMemory = dq_unified_memory_bytes q"
| "demand_of q CpuThreads = dq_cpu_threads q"
| "demand_of q GpuQueues = dq_gpu_command_queues q"
| "demand_of q AneTasks = dq_ane_tasks q"
| "demand_of q BandwidthSlots = dq_bandwidth_slots q"

record device_reservation =
  dv_reservation_id :: string
  dv_request :: device_request

record device_ledger =
  dl_profile_id :: string
  dl_capacity :: "device_resource \<Rightarrow> int"
  dl_used :: "device_resource \<Rightarrow> int"
  dl_reservations :: "(string, device_request) dict"
  dl_qualified_pairs :: "execution_backend set set"

definition new_device_ledger ::
  "(device_resource \<Rightarrow> int) \<Rightarrow> string \<Rightarrow> device_ledger result" where
  "new_device_ledger capacities profile_id =
     (if list_ex (\<lambda>k. capacities k < 0) all_resources
        then Inl (ValueError ''invalid device resource capacity'')
      else if capacities BandwidthSlots < 1 \<or> capacities CpuThreads < 1
        then Inl (ValueError ''CPU and bandwidth capacities must be positive'')
      else if profile_id = [] \<or> 128 < length profile_id
        then Inl (ValueError ''contention profile ID is invalid'')
      else Inr \<lparr>dl_profile_id = profile_id, dl_capacity = capacities, dl_used = (\<lambda>k. 0),
                dl_reservations = [], dl_qualified_pairs = {}\<rparr>)"

definition active_backends :: "device_ledger \<Rightarrow> execution_backend list" where
  "active_backends l = map (\<lambda>(i, q). dq_backend q) (dl_reservations l)"

fun comma_join :: "string list \<Rightarrow> string" where
  "comma_join [] = []"
| "comma_join [s] = s"
| "comma_join (s # t # ss) = s @ '','' @ comma_join (t # ss)"

definition unavailable :: "string \<Rightarrow> py_error" where
  "unavailable reason = DeviceResourceCapacityError (''device resources unavailable: '' @ reason)"

definition contended :: "device_ledger \<Rightarrow> execution_backend list \<Rightarrow> execution_backend \<Rightarrow> bool" where
  "contended l actives b \<longleftrightarrow>
     list_ex (\<lambda>a. a \<noteq> b \<and> {a, b} \<notin> dl_qualified_pairs l) actives"

definition exhausted :: "device_ledger \<Rightarrow> (device_resource \<Rightarrow> int) \<Rightarrow> device_resource list" where
  "exhausted l demand = filter (\<lambda>k. dl_capacity l k < dl_used l k + demand k) all_resources"

definition device_reserve ::
  "string \<Rightarrow> device_request \<Rightarrow> execution_backend option \<Rightarrow> device_ledger
    \<Rightarrow> (device_reservation \<times> device_ledger) result" where
  "device_reserve uuid q steal_from l =
     (let actives = active_backends l;
          full = exhausted l (demand_of q)
      in if (case steal_from of None \<Rightarrow> False | Some source \<Rightarrow>
               source \<notin> set actives \<or> dq_backend q \<in> set actives
               \<or> {source, dq_backend q} \<notin> dl_qualified_pairs l)
           then Inl (unavailable ''work_steal_unqualified_or_busy'')
         else if contended l actives (dq_backend q)
           then Inl (unavailable ''bandwidth_contention_unqualified'')
         else if full \<noteq> [] then Inl (unavailable (comma_join (map resource_name full)))
         else Inr (\<lparr>dv_reservation_id = uuid, dv_request = q\<rparr>,
                   l\<lparr>dl_used := (\<lambda>k. dl_used l k + demand_of q k),
                     dl_reservations := AList.update uuid q (dl_reservations l)\<rparr>))"

definition combined_demand :: "device_request list \<Rightarrow> device_resource \<Rightarrow> int" where
  "combined_demand qs k = sum_list (map (\<lambda>q. demand_of q k) qs)"

fun some_pair :: "('a \<Rightarrow> 'a \<Rightarrow> bool) \<Rightarrow> 'a list \<Rightarrow> bool" where
  "some_pair P [] = False"
| "some_pair P (x # xs) = (list_ex (P x) xs \<or> some_pair P xs)"

fun store_all :: "(string \<times> device_request) list \<Rightarrow> (string, device_request) dict
    \<Rightarrow> (string, device_request) dict" where
  "store_all [] d = d"
| "store_all ((i, q) # es) d = store_all es (AList.update i q d)"

definition reserve_many ::
  "string list \<Rightarrow> device_request list \<Rightarrow> device_ledger
    \<Rightarrow> (device_reservation list \<times> device_ledger) result" where
  "reserve_many uuids qs l =
     (if \<not> (2 \<le> length qs \<and> length qs \<le> 3) \<or> \<not> distinct (map dq_backend qs)
        then Inl (ValueError ''pipeline requires two or three distinct device backends'')
      else
        let backends = remdups (active_backends l @ map dq_backend qs);
            full = exhausted l (combined_demand qs)
        in if some_pair (\<lambda>a b. {a, b} \<notin> dl_qualified_pairs l) backends
             then Inl (unavailable ''bandwidth_contention_unqualified'')
           else if full \<noteq> [] then Inl (unavailable (comma_join (map resource_name full)))
           else Inr (map (\<lambda>(i, q). \<lparr>dv_reservation_id = i, dv_request = q\<rparr>) (zip uuids qs),
                     l\<lparr>dl_used := (\<lambda>k. dl_used l k + combined_demand qs k),
                       dl_reservations := store_all (zip uuids qs) (dl_reservations l)\<rparr>))"

definition transfer ::
  "string \<Rightarrow> device_request \<Rightarrow> device_ledger \<Rightarrow> (device_reservation \<times> device_ledger) result" where
  "transfer i q l =
     (case map_of (dl_reservations l) i of
        None \<Rightarrow> Inl (ValueError ''device resource reservation does not exist'')
      | Some previous \<Rightarrow>
          let others = map (\<lambda>(j, r). dq_backend r) (filter (\<lambda>(j, r). j \<noteq> i) (dl_reservations l));
              full = filter (\<lambda>k. dl_capacity l k < dl_used l k - demand_of previous k + demand_of q k)
                       all_resources
          in if contended l others (dq_backend q)
               then Inl (unavailable ''bandwidth_contention_unqualified'')
             else if full \<noteq> [] then Inl (unavailable (comma_join (map resource_name full)))
             else Inr (\<lparr>dv_reservation_id = i, dv_request = q\<rparr>,
                       l\<lparr>dl_used := (\<lambda>k. dl_used l k + (demand_of q k - demand_of previous k)),
                         dl_reservations := AList.update i q (dl_reservations l)\<rparr>))"

definition install_contention_evidence ::
  "contention_evidence \<Rightarrow> device_ledger \<Rightarrow> (bool \<times> device_ledger) result" where
  "install_contention_evidence e l =
     (if be_profile_id e \<noteq> dl_profile_id l
        then Inl (ValueError ''bandwidth contention evidence profile mismatch'')
      else if \<not> evidence_qualified e then Inr (False, l)
      else Inr (True, l\<lparr>dl_qualified_pairs := insert (evidence_pair e) (dl_qualified_pairs l)\<rparr>))"

definition is_contention_pair_qualified ::
  "execution_backend \<Rightarrow> execution_backend \<Rightarrow> device_ledger \<Rightarrow> bool" where
  "is_contention_pair_qualified a b l \<longleftrightarrow> (if a = b then False else {a, b} \<in> dl_qualified_pairs l)"

definition can_steal :: "execution_backend \<Rightarrow> execution_backend \<Rightarrow> device_ledger \<Rightarrow> bool" where
  "can_steal source target l \<longleftrightarrow>
     source \<in> set (active_backends l) \<and> target \<notin> set (active_backends l)
     \<and> {source, target} \<in> dl_qualified_pairs l"

definition replace_contention_evidence ::
  "contention_evidence list \<Rightarrow> device_ledger \<Rightarrow> device_ledger result" where
  "replace_contention_evidence es l =
     (if \<not> (1 \<le> length es \<and> length es \<le> 16)
         \<or> list_ex (\<lambda>e. be_profile_id e \<noteq> dl_profile_id l \<or> \<not> evidence_qualified e) es
        then Inl (ValueError ''invalid replacement contention evidence'')
      else if \<not> distinct (map evidence_pair es)
        then Inl (ValueError ''duplicate replacement contention evidence'')
      else Inr (l\<lparr>dl_qualified_pairs := set (map evidence_pair es)\<rparr>))"

definition device_release :: "string \<Rightarrow> device_ledger \<Rightarrow> bool \<times> device_ledger" where
  "device_release i l =
     (case map_of (dl_reservations l) i of
        None \<Rightarrow> (False, l)
      | Some q \<Rightarrow>
          (True, l\<lparr>dl_used := (\<lambda>k. dl_used l k - demand_of q k),
                   dl_reservations := AList.delete i (dl_reservations l)\<rparr>))"

record device_snapshot =
  ds_capacity :: "device_resource \<Rightarrow> int"
  ds_used :: "device_resource \<Rightarrow> int"
  ds_available :: "device_resource \<Rightarrow> int"
  ds_active_reservations :: int
  ds_contention_profile_id :: string
  ds_qualified_pairs :: int
  ds_profile_loaded :: bool

definition device_ledger_snapshot :: "device_ledger \<Rightarrow> device_snapshot" where
  "device_ledger_snapshot l =
     \<lparr>ds_capacity = dl_capacity l, ds_used = dl_used l,
      ds_available = (\<lambda>k. dl_capacity l k - dl_used l k),
      ds_active_reservations = int (length (dl_reservations l)),
      ds_contention_profile_id = dl_profile_id l,
      ds_qualified_pairs = int (card (dl_qualified_pairs l)),
      ds_profile_loaded = (dl_qualified_pairs l \<noteq> {})\<rparr>"

section \<open>The ledger keeps the accounting contract\<close>

lemma all_resources_complete [simp]: "k \<in> set all_resources"
  by (cases k) (simp_all add: all_resources_def)

lemma exhausted_Nil: "exhausted l demand = [] \<longleftrightarrow> (\<forall>k. dl_used l k + demand k \<le> dl_capacity l k)"
  by (auto simp: exhausted_def filter_empty_conv not_less)

lemma demand_nonneg: "device_request_ok q \<Longrightarrow> 0 \<le> demand_of q k"
  by (cases k) (simp_all add: device_request_ok_def)

lemma device_reserve_Inr:
  "device_reserve uuid q steal l = Inr (v, l') \<longleftrightarrow>
     (case steal of None \<Rightarrow> True | Some source \<Rightarrow> can_steal source (dq_backend q) l)
     \<and> \<not> contended l (active_backends l) (dq_backend q)
     \<and> (\<forall>k. dl_used l k + demand_of q k \<le> dl_capacity l k)
     \<and> v = \<lparr>dv_reservation_id = uuid, dv_request = q\<rparr>
     \<and> l' = l\<lparr>dl_used := (\<lambda>k. dl_used l k + demand_of q k),
              dl_reservations := AList.update uuid q (dl_reservations l)\<rparr>"
  unfolding exhausted_Nil [symmetric]
  by (auto simp: device_reserve_def Let_def can_steal_def split: option.splits if_splits)

lemma device_reserve_value:
  "device_reserve uuid q steal l = Inr (v, l') \<Longrightarrow> v = \<lparr>dv_reservation_id = uuid, dv_request = q\<rparr>"
  by (simp add: device_reserve_Inr)

lemma transfer_Inr:
  "transfer i q l = Inr (v, l') \<longleftrightarrow>
     (\<exists>previous. map_of (dl_reservations l) i = Some previous
     \<and> \<not> contended l (map (\<lambda>(j, r). dq_backend r) (filter (\<lambda>(j, r). j \<noteq> i) (dl_reservations l)))
           (dq_backend q)
     \<and> (\<forall>k. dl_used l k - demand_of previous k + demand_of q k \<le> dl_capacity l k)
     \<and> v = \<lparr>dv_reservation_id = i, dv_request = q\<rparr>
     \<and> l' = l\<lparr>dl_used := (\<lambda>k. dl_used l k + (demand_of q k - demand_of previous k)),
              dl_reservations := AList.update i q (dl_reservations l)\<rparr>)"
  by (auto simp: transfer_def Let_def filter_empty_conv not_less split: option.splits if_splits)

definition reserve_entry ::
  "string \<Rightarrow> device_request \<times> execution_backend option \<Rightarrow> device_ledger
    \<Rightarrow> (device_request \<times> device_ledger) result" where
  "reserve_entry uuid p l =
     (case device_reserve uuid (fst p) (snd p) l of
        Inl e \<Rightarrow> Inl e | Inr (v, l') \<Rightarrow> Inr (dv_request v, l'))"

lemma reserve_entry_Inr:
  "reserve_entry uuid p l = Inr (r, l') \<longleftrightarrow>
     r = fst p \<and> device_reserve uuid (fst p) (snd p) l
       = Inr (\<lparr>dv_reservation_id = uuid, dv_request = fst p\<rparr>, l')"
  by (cases "device_reserve uuid (fst p) (snd p) l")
    (auto simp: reserve_entry_def dest: device_reserve_value)

interpretation devices: ledger dl_reservations dl_used dl_capacity demand_of reserve_entry
  device_release
  by unfold_locales
    (auto simp: reserve_entry_Inr device_reserve_Inr device_release_def split: option.splits)

abbreviation ledger_ok :: "device_ledger \<Rightarrow> bool" where
  "ledger_ok \<equiv> balanced dl_reservations dl_used dl_capacity demand_of"

lemma new_device_ledger_ok: "new_device_ledger capacities pid = Inr l \<Longrightarrow> ledger_ok l"
  by (auto simp: new_device_ledger_def balanced_def list_ex_iff not_less split: if_splits)

lemma device_reserve_ok:
  assumes "ledger_ok l" and "uuid \<notin> set (keys (dl_reservations l))" and "device_request_ok q"
    and "device_reserve uuid q steal l = Inr (v, l')"
  shows "ledger_ok l'"
proof (rule devices.reserve_ok [OF assms(1,2)])
  show "reserve_entry uuid (q, steal) l = Inr (q, l')"
    using assms(4) device_reserve_value [OF assms(4)] by (simp add: reserve_entry_def)
  show "0 \<le> demand_of q k" for k by (rule demand_nonneg [OF assms(3)])
qed

lemma store_all_fresh:
  "distinct (map fst es) \<Longrightarrow> set (map fst es) \<inter> set (keys d) = {} \<Longrightarrow> store_all es d = d @ es"
proof (induction es arbitrary: d)
  case (Cons p es)
  obtain i q where p: "p = (i, q)" by force
  have "i \<notin> set (keys d)" using Cons.prems(2) p by auto
  then have "AList.update i q d = d @ [(i, q)]" by (rule update_fresh)
  then show ?case using Cons p by auto
qed simp

lemma asum_zip: "length is = length qs \<Longrightarrow> asum (\<lambda>q. f q) (zip is qs) = sum_list (map f qs)"
  by (induction "is" qs rule: list_induct2) simp_all

lemma reserve_many_ok:
  assumes "ledger_ok l" and "distinct uuids" and "length uuids = length qs"
    and "set uuids \<inter> set (keys (dl_reservations l)) = {}" and "\<forall>q\<in>set qs. device_request_ok q"
    and "reserve_many uuids qs l = Inr (vs, l')"
  shows "ledger_ok l'" and "dl_reservations l' = dl_reservations l @ zip uuids qs"
proof -
  have fit: "\<forall>k. dl_used l k + combined_demand qs k \<le> dl_capacity l k"
    and l': "l' = l\<lparr>dl_used := (\<lambda>k. dl_used l k + combined_demand qs k),
                   dl_reservations := store_all (zip uuids qs) (dl_reservations l)\<rparr>"
    using assms(6) unfolding exhausted_Nil [symmetric]
    by (auto simp: reserve_many_def Let_def split: if_splits)
  have store: "store_all (zip uuids qs) (dl_reservations l) = dl_reservations l @ zip uuids qs"
    by (rule store_all_fresh) (use assms(2-4) in auto)
  then show "dl_reservations l' = dl_reservations l @ zip uuids qs" by (simp add: l')
  have sum: "asum (\<lambda>q. demand_of q k) (dl_reservations l @ zip uuids qs)
      = dl_used l k + combined_demand qs k" for k
    using assms(1,3) by (simp add: balanced_def asum_zip combined_demand_def)
  have "dict_ok (dl_reservations l @ zip uuids qs)"
    using assms(1-4) by (auto simp: balanced_def)
  moreover have "\<forall>k. \<forall>(i, r)\<in>set (dl_reservations l @ zip uuids qs). 0 \<le> demand_of r k"
    using assms(1,5) by (auto simp: balanced_def dest!: set_zip_rightD intro: demand_nonneg)
  ultimately show "ledger_ok l'"
    using fit sum by (simp add: l' store balanced_def)
qed

lemma transfer_ok:
  assumes "ledger_ok l" and "device_request_ok q" and "transfer i q l = Inr (v, l')"
  shows "ledger_ok l'"
proof -
  obtain previous where p: "map_of (dl_reservations l) i = Some previous"
    and fit: "\<forall>k. dl_used l k - demand_of previous k + demand_of q k \<le> dl_capacity l k"
    and l': "l' = l\<lparr>dl_used := (\<lambda>k. dl_used l k + (demand_of q k - demand_of previous k)),
              dl_reservations := AList.update i q (dl_reservations l)\<rparr>"
    using assms(3) by (auto simp: transfer_Inr)
  have dict: "dict_ok (dl_reservations l)" using assms(1) by (simp add: balanced_def)
  have sum: "asum (\<lambda>q. demand_of q k) (AList.update i q (dl_reservations l))
      = dl_used l k - demand_of previous k + demand_of q k" for k
    using assms(1) by (simp add: asum_update_existing [OF dict p] balanced_def)
  have "\<forall>k. \<forall>(i, r)\<in>set (AList.update i q (dl_reservations l)). 0 \<le> demand_of r k"
    using assms(1) update_subset [of i q "dl_reservations l"] demand_nonneg [OF assms(2)]
    unfolding balanced_def by fastforce
  moreover have "asum (\<lambda>q. demand_of q k) (AList.update i q (dl_reservations l)) \<le> dl_capacity l k" for k
    using sum fit by simp
  moreover have "dl_used l' k = asum (\<lambda>q. demand_of q k) (dl_reservations l')" for k
    by (simp add: l' sum)
  ultimately show ?thesis
    using dict by (simp add: l' balanced_def dict_ok_update)
qed

lemma device_reserve_undone:
  assumes "device_reserve uuid q steal l = Inr (v, l')" and "uuid \<notin> set (keys (dl_reservations l))"
  shows "device_release uuid l' = (True, l)"
proof -
  have "map_of (dl_reservations l') uuid = Some q"
    using assms(1) by (simp add: device_reserve_Inr update_conv')
  then show ?thesis
    using assms(1) update_delete_fresh [OF assms(2), of q]
    by (simp add: device_reserve_Inr device_release_def)
qed

section \<open>Reachable ledgers\<close>

text \<open>Any sequence of successful calls with fresh \<open>uuid4\<close> values (a call that raises changes
  nothing).  With \<open>idle\<close> set, evidence is replaced only while no reservation is live.\<close>

inductive device_reachable :: "bool \<Rightarrow> device_ledger \<Rightarrow> bool" for idle where
  start: "new_device_ledger capacities pid = Inr l \<Longrightarrow> device_reachable idle l"
| reserve: "device_reachable idle l \<Longrightarrow> device_request_ok q \<Longrightarrow>
    uuid \<notin> set (keys (dl_reservations l)) \<Longrightarrow> device_reserve uuid q steal l = Inr (v, l') \<Longrightarrow>
    device_reachable idle l'"
| reserve_many: "device_reachable idle l \<Longrightarrow> \<forall>q\<in>set qs. device_request_ok q \<Longrightarrow> distinct uuids \<Longrightarrow>
    length uuids = length qs \<Longrightarrow> set uuids \<inter> set (keys (dl_reservations l)) = {} \<Longrightarrow>
    reserve_many uuids qs l = Inr (vs, l') \<Longrightarrow> device_reachable idle l'"
| transfer: "device_reachable idle l \<Longrightarrow> device_request_ok q \<Longrightarrow> transfer i q l = Inr (v, l') \<Longrightarrow>
    device_reachable idle l'"
| release: "device_reachable idle l \<Longrightarrow> device_release i l = (found, l') \<Longrightarrow> device_reachable idle l'"
| install: "device_reachable idle l \<Longrightarrow> install_contention_evidence e l = Inr (installed, l') \<Longrightarrow>
    device_reachable idle l'"
| replace: "device_reachable idle l \<Longrightarrow> (idle \<Longrightarrow> dl_reservations l = []) \<Longrightarrow>
    replace_contention_evidence es l = Inr l' \<Longrightarrow> device_reachable idle l'"

lemma balanced_frame:
  "dl_reservations l' = dl_reservations l \<Longrightarrow> dl_used l' = dl_used l \<Longrightarrow> dl_capacity l' = dl_capacity l \<Longrightarrow>
   ledger_ok l' = ledger_ok l"
  by (simp add: balanced_def)

lemma reachable_ok: "device_reachable idle l \<Longrightarrow> ledger_ok l"
proof (induction rule: device_reachable.induct)
  case (start capacities pid l)
  then show ?case by (rule new_device_ledger_ok)
next
  case (reserve l q uuid steal v l')
  then show ?case by (intro device_reserve_ok [OF reserve.IH])
next
  case (reserve_many l qs uuids vs l')
  then show ?case by (intro reserve_many_ok(1) [OF reserve_many.IH])
next
  case (transfer l q i v l')
  then show ?case by (intro transfer_ok [OF transfer.IH])
next
  case (release l i found l')
  then show ?case using devices.release_ok [OF release.IH, of i] by simp
next
  case (install l e installed l')
  then have "ledger_ok l' = ledger_ok l"
    by (intro balanced_frame) (auto simp: install_contention_evidence_def split: if_splits)
  with install.IH show ?case by simp
next
  case (replace l es l')
  then have "ledger_ok l' = ledger_ok l"
    by (intro balanced_frame) (auto simp: replace_contention_evidence_def split: if_splits)
  with replace.IH show ?case by simp
qed

definition pairwise_qualified :: "execution_backend set set \<Rightarrow> execution_backend set \<Rightarrow> bool" where
  "pairwise_qualified pairs bs \<longleftrightarrow> (\<forall>a\<in>bs. \<forall>b\<in>bs. a \<noteq> b \<longrightarrow> {a, b} \<in> pairs)"

definition live_backends :: "device_ledger \<Rightarrow> execution_backend set" where
  "live_backends l = dq_backend ` snd ` set (dl_reservations l)"

lemma active_backends_set: "set (active_backends l) = live_backends l"
  by (force simp: active_backends_def live_backends_def)

lemma not_contended:
  "\<not> contended l bs b \<longleftrightarrow> (\<forall>a\<in>set bs. a \<noteq> b \<longrightarrow> {a, b} \<in> dl_qualified_pairs l)"
  by (auto simp: contended_def list_ex_iff)

lemma pairwise_insert:
  "pairwise_qualified pairs bs \<Longrightarrow> (\<And>a. a \<in> bs \<Longrightarrow> a \<noteq> b \<Longrightarrow> {a, b} \<in> pairs) \<Longrightarrow>
   pairwise_qualified pairs (insert b bs)"
  unfolding pairwise_qualified_def by (metis insert_commute insert_iff)

lemma pairwise_mono:
  "pairwise_qualified pairs bs \<Longrightarrow> pairs \<subseteq> pairs' \<Longrightarrow> bs' \<subseteq> bs \<Longrightarrow> pairwise_qualified pairs' bs'"
  unfolding pairwise_qualified_def by blast

lemma not_some_pair:
  "\<not> some_pair P xs \<Longrightarrow> (\<And>x y. P x y = P y x) \<Longrightarrow> x \<in> set xs \<Longrightarrow> y \<in> set xs \<Longrightarrow> x \<noteq> y \<Longrightarrow> \<not> P x y"
  by (induction xs) (auto simp: list_ex_iff)

section \<open>Evidence\<close>

text \<open>The calls that book devices or give them back, and what was known while they were made: \<open>ever\<close> holds the pairs
  qualified at some time since the ledger was last idle, and \<open>changed\<close> says that evidence was replaced since then while a
  reservation was live.  Nothing in the code prevents that.\<close>

inductive booking :: "device_ledger \<Rightarrow> device_ledger \<Rightarrow> bool" where
  reserve: "device_request_ok q \<Longrightarrow> uuid \<notin> set (keys (dl_reservations l)) \<Longrightarrow>
    device_reserve uuid q steal l = Inr (v, l') \<Longrightarrow> booking l l'"
| reserve_many: "\<forall>q\<in>set qs. device_request_ok q \<Longrightarrow> distinct uuids \<Longrightarrow> length uuids = length qs \<Longrightarrow>
    set uuids \<inter> set (keys (dl_reservations l)) = {} \<Longrightarrow> reserve_many uuids qs l = Inr (vs, l') \<Longrightarrow> booking l l'"
| transfer: "device_request_ok q \<Longrightarrow> transfer i q l = Inr (v, l') \<Longrightarrow> booking l l'"
| release: "device_release i l = (found, l') \<Longrightarrow> booking l l'"

inductive evidence_since_idle :: "bool \<Rightarrow> execution_backend set set \<Rightarrow> device_ledger \<Rightarrow> bool" where
  created: "new_device_ledger capacities pid = Inr l \<Longrightarrow> evidence_since_idle False {} l"
| booked: "evidence_since_idle changed ever l \<Longrightarrow> booking l l' \<Longrightarrow> evidence_since_idle changed ever l'"
| installed: "evidence_since_idle changed ever l \<Longrightarrow> install_contention_evidence e l = Inr (x, l') \<Longrightarrow>
    evidence_since_idle changed (ever \<union> dl_qualified_pairs l') l'"
| replaced: "evidence_since_idle changed ever l \<Longrightarrow> replace_contention_evidence es l = Inr l' \<Longrightarrow>
    evidence_since_idle (changed \<or> dl_reservations l \<noteq> []) (ever \<union> dl_qualified_pairs l') l'"
| idle: "evidence_since_idle changed ever l \<Longrightarrow> dl_reservations l = [] \<Longrightarrow>
    evidence_since_idle False (dl_qualified_pairs l) l"

lemma booking_reachable: "booking l l' \<Longrightarrow> device_reachable r l \<Longrightarrow> device_reachable r l'"
  by (induction rule: booking.induct) (blast intro: device_reachable.intros)+

lemma evidence_reachable: "evidence_since_idle changed ever l \<Longrightarrow> device_reachable False l"
  by (induction rule: evidence_since_idle.induct) (blast intro: booking_reachable device_reachable.intros)+

lemma booking_qualified:
  assumes "booking l l'" and "ledger_ok l" and "dl_qualified_pairs l \<subseteq> pairs" and "pairwise_qualified pairs (live_backends l)"
  shows "dl_qualified_pairs l' = dl_qualified_pairs l \<and> pairwise_qualified pairs (live_backends l')"
  using assms
proof (induction rule: booking.induct)
  case (reserve q uuid l steal v l')
  have l': "\<not> contended l (active_backends l) (dq_backend q)"
    "dl_reservations l' = AList.update uuid q (dl_reservations l)"
    "dl_qualified_pairs l' = dl_qualified_pairs l"
    using reserve.hyps by (auto simp: device_reserve_Inr)
  have "live_backends l' = insert (dq_backend q) (live_backends l)"
    using update_fresh [OF reserve.hyps(2), of q] by (simp add: live_backends_def l')
  then show ?case
    using reserve.prems(2,3) l' by (auto simp: not_contended active_backends_set intro: pairwise_insert)
next
  case (reserve_many qs uuids l vs l')
  have res: "dl_reservations l' = dl_reservations l @ zip uuids qs"
    by (rule reserve_many_ok(2) [OF reserve_many.prems(1) reserve_many.hyps(2-4,1,5)])
  have l': "\<not> some_pair (\<lambda>a b. {a, b} \<notin> dl_qualified_pairs l)
      (remdups (active_backends l @ map dq_backend qs))"
    "dl_qualified_pairs l' = dl_qualified_pairs l"
    using reserve_many.hyps by (auto simp: reserve_many_def Let_def split: if_splits)
  have "snd ` set (zip uuids qs) = set qs"
    using reserve_many.hyps(3) by (metis map_snd_zip set_map)
  then have "live_backends l' \<subseteq> set (remdups (active_backends l @ map dq_backend qs))"
    by (simp add: live_backends_def res active_backends_set image_Un)
  then have "pairwise_qualified (dl_qualified_pairs l) (live_backends l')"
    using not_some_pair [OF l'(1)] unfolding pairwise_qualified_def
    by (metis (no_types, lifting) doubleton_eq_iff subsetD)
  then show ?case using pairwise_mono reserve_many.prems(2) l'(2) by blast
next
  case (transfer q i l v l')
  obtain previous where p: "map_of (dl_reservations l) i = Some previous"
    and c: "\<not> contended l (map (\<lambda>(j, r). dq_backend r) (filter (\<lambda>(j, r). j \<noteq> i) (dl_reservations l)))
           (dq_backend q)"
    and l': "dl_reservations l' = AList.update i q (dl_reservations l)"
      "dl_qualified_pairs l' = dl_qualified_pairs l"
    using transfer.hyps by (auto simp: transfer_Inr)
  have dict: "dict_ok (AList.update i q (dl_reservations l))"
    using transfer.prems(1) by (simp add: balanced_def dict_ok_update)
  define rest where "rest = dq_backend ` snd ` {e \<in> set (dl_reservations l). fst e \<noteq> i}"
  have "e = (i, q) \<or> e \<in> set (dl_reservations l) \<and> fst e \<noteq> i"
    if e: "e \<in> set (AList.update i q (dl_reservations l))" for e
  proof (cases "fst e = i")
    case True
    then have "map_of (AList.update i q (dl_reservations l)) i = Some (snd e)"
      using e dict by (metis map_of_is_SomeI prod.collapse)
    then show ?thesis using True by (simp add: update_conv' prod_eq_iff)
  next
    case False
    then show ?thesis using e update_subset [of i q "dl_reservations l"] by auto
  qed
  then have sub: "live_backends l' \<subseteq> insert (dq_backend q) rest"
    by (force simp: live_backends_def l' rest_def)
  have "rest = set (map (\<lambda>(j, r). dq_backend r) (filter (\<lambda>(j, r). j \<noteq> i) (dl_reservations l)))"
    by (force simp: rest_def)
  with c have "\<And>a. a \<in> rest \<Longrightarrow> a \<noteq> dq_backend q \<Longrightarrow> {a, dq_backend q} \<in> dl_qualified_pairs l"
    unfolding not_contended by blast
  then have "\<And>a. a \<in> rest \<Longrightarrow> a \<noteq> dq_backend q \<Longrightarrow> {a, dq_backend q} \<in> pairs" using transfer.prems(2) by blast
  moreover have "pairwise_qualified pairs rest"
    by (rule pairwise_mono [OF transfer.prems(3)]) (auto simp: rest_def live_backends_def)
  ultimately have "pairwise_qualified pairs (insert (dq_backend q) rest)" using pairwise_insert by blast
  then show ?case using l'(2) pairwise_mono [OF _ order.refl sub] by blast
next
  case (release i l found l')
  then have "set (dl_reservations l') \<subseteq> set (dl_reservations l)"
    "dl_qualified_pairs l' = dl_qualified_pairs l"
    using delete_subset [of i "dl_reservations l"]
    by (auto simp: device_release_def split: option.splits)
  then show ?case
    using pairwise_mono [OF release.prems(3) order.refl] by (simp add: live_backends_def image_mono)
qed

lemma evidence_known:
  "evidence_since_idle changed ever l \<Longrightarrow> dl_qualified_pairs l \<subseteq> ever \<and> pairwise_qualified ever (live_backends l)
     \<and> (\<not> changed \<longrightarrow> pairwise_qualified (dl_qualified_pairs l) (live_backends l))"
proof (induction rule: evidence_since_idle.induct)
  case (created capacities pid l)
  then show ?case
    by (auto simp: new_device_ledger_def live_backends_def pairwise_qualified_def split: if_splits)
next
  case (booked changed ever l l')
  have ok: "ledger_ok l" by (rule reachable_ok [OF evidence_reachable [OF booked.hyps(1)]])
  show ?case
    using booked.IH booking_qualified [OF booked.hyps(2) ok, of ever]
      booking_qualified [OF booked.hyps(2) ok, of "dl_qualified_pairs l"] by auto
next
  case (installed changed ever l e x l')
  then have "dl_reservations l' = dl_reservations l" "dl_qualified_pairs l \<subseteq> dl_qualified_pairs l'"
    by (auto simp: install_contention_evidence_def split: if_splits)
  then show ?case using installed.IH by (auto simp: live_backends_def intro: pairwise_mono)
next
  case (replaced changed ever l es l')
  then have "dl_reservations l' = dl_reservations l"
    by (auto simp: replace_contention_evidence_def split: if_splits)
  then show ?case using replaced.IH by (auto simp: live_backends_def pairwise_qualified_def intro: pairwise_mono)
next
  case (idle changed ever l)
  then show ?case by (simp add: live_backends_def pairwise_qualified_def)
qed

section \<open>Properties\<close>

text \<open>C4: in every reachable state, and for every resource, what the ledger counts as used is exactly
  the sum of the live reservations' demands, is never negative and never exceeds the capacity, and
  reservation identifiers are unique.\<close>

theorem device_ledger_never_overcommits:
  assumes "device_reachable idle l"
  shows "dl_used l k = asum (\<lambda>q. demand_of q k) (dl_reservations l)
    \<and> 0 \<le> dl_used l k \<and> dl_used l k \<le> dl_capacity l k \<and> dict_ok (dl_reservations l)"
  using reachable_ok [OF assms] devices.used_bounds [OF reachable_ok [OF assms], of k]
  by (simp add: balanced_def)


text \<open>Replacing evidence while two backends run together may leave them without qualified evidence: the new profile need not
  mention their pair, and the ledger neither refuses it nor reports it.\<close>
theorem replacing_disqualifies_live_pairs:
  assumes "1 \<le> length es" "length es \<le> 16" "\<forall>e\<in>set es. be_profile_id e = dl_profile_id l \<and> evidence_qualified e"
    and "distinct (map evidence_pair es)" and "{a, b} \<notin> set (map evidence_pair es)"
    and "(i, p) \<in> set (dl_reservations l)" "dq_backend p = a" "(j, q) \<in> set (dl_reservations l)" "dq_backend q = b" "a \<noteq> b"
  shows "\<exists>l'. replace_contention_evidence es l = Inr l' \<and> dl_reservations l' = dl_reservations l
    \<and> \<not> is_contention_pair_qualified a b l'"
  using assms by (auto simp: replace_contention_evidence_def is_contention_pair_qualified_def list_ex_iff)

text \<open>A reservation can be undone exactly: releasing it restores the usage of every resource and
  every other reservation, a second release reports that nothing was held, and a stolen slot is only
  granted from a busy backend to an idle one whose pair is qualified.\<close>
theorem device_reserve_release:
  assumes "device_reserve uuid q steal l = Inr (v, l')" and "uuid \<notin> set (keys (dl_reservations l))"
  shows "device_release (dv_reservation_id v) l' = (True, l)
    \<and> fst (device_release (dv_reservation_id v) l) = False
    \<and> (\<forall>source. steal = Some source \<longrightarrow> can_steal source (dq_backend q) l)"
proof -
  have "dv_reservation_id v = uuid" using device_reserve_value [OF assms(1)] by simp
  moreover have "map_of (dl_reservations l) uuid = None" using assms(2) by (simp add: map_of_eq_None_iff)
  then have "\<not> fst (device_release uuid l)" by (simp add: device_release_def)
  ultimately show ?thesis
    using assms(1) device_reserve_undone [OF assms] by (auto simp: device_reserve_Inr)
qed

section \<open>Witnesses\<close>

definition example_capacity :: "device_resource \<Rightarrow> int" where
  "example_capacity k = (case k of UnifiedMemory \<Rightarrow> 1000 | CpuThreads \<Rightarrow> 8 | GpuQueues \<Rightarrow> 4
     | AneTasks \<Rightarrow> 2 | BandwidthSlots \<Rightarrow> 4)"

definition example_evidence :: contention_evidence where
  "example_evidence =
     \<lparr>be_profile_id = ''m4'', be_first_backend = CPU, be_second_backend = NATIVE_MLX,
      be_sequential_latency = 200, be_parallel_latency = 150, be_sample_count = 5,
      be_outputs_match = True\<rparr>"

definition example_request :: "execution_backend \<Rightarrow> device_request" where
  "example_request b = \<lparr>dq_backend = b, dq_unified_memory_bytes = 100,
     dq_cpu_threads = (if b = CPU then 1 else 0), dq_gpu_command_queues = (if b = CPU then 0 else 1),
     dq_ane_tasks = 0, dq_bandwidth_slots = 1\<rparr>"

definition example_ledger :: device_ledger where
  "example_ledger =
     \<lparr>dl_profile_id = ''m4'', dl_capacity = example_capacity, dl_used = (\<lambda>k. 0),
      dl_reservations = [], dl_qualified_pairs = {}\<rparr>"

definition example_busy_ledger :: device_ledger where
  "example_busy_ledger =
     \<lparr>dl_profile_id = ''m4'', dl_capacity = example_capacity,
      dl_used = (\<lambda>k. 0 + demand_of (example_request CPU) k + demand_of (example_request NATIVE_MLX) k),
      dl_reservations = [(''a'', example_request CPU), (''b'', example_request NATIVE_MLX)],
      dl_qualified_pairs = {{CPU, NATIVE_MLX}}\<rparr>"

lemma example_request_ok: "device_request_ok (example_request b)"
  by (simp add: device_request_ok_def example_request_def)

lemma example_capacity_facts:
  "demand_of (example_request CPU) k \<le> example_capacity k"
  "demand_of (example_request CPU) k + demand_of (example_request NATIVE_MLX) k \<le> example_capacity k"
  by (cases k; simp add: example_request_def example_capacity_def)+

lemma example_reserve:
  "device_reserve ''a'' (example_request CPU) None example_ledger
     = Inr (\<lparr>dv_reservation_id = ''a'', dv_request = example_request CPU\<rparr>,
         example_ledger\<lparr>dl_used := (\<lambda>k. 0 + demand_of (example_request CPU) k),
           dl_reservations := [(''a'', example_request CPU)]\<rparr>)"
  using example_capacity_facts(1)
  by (simp add: device_reserve_Inr example_ledger_def active_backends_def contended_def)

lemma example_busy_evidence: "evidence_since_idle False {{CPU, NATIVE_MLX}} example_busy_ledger"
proof -
  let ?l1 = "example_ledger\<lparr>dl_used := (\<lambda>k. 0 + demand_of (example_request CPU) k),
     dl_reservations := [(''a'', example_request CPU)]\<rparr>"
  have "new_device_ledger example_capacity ''m4'' = Inr example_ledger"
    by (simp add: new_device_ledger_def example_ledger_def example_capacity_def all_resources_def)
  then have "evidence_since_idle False {} example_ledger" by (rule evidence_since_idle.created)
  moreover have "booking example_ledger ?l1"
    by (rule booking.reserve [OF example_request_ok _ example_reserve]) (simp add: example_ledger_def)
  ultimately have r1: "evidence_since_idle False {} ?l1" by (rule evidence_since_idle.booked)
  have "install_contention_evidence example_evidence ?l1
      = Inr (True, ?l1\<lparr>dl_qualified_pairs := {{CPU, NATIVE_MLX}}\<rparr>)"
    by (simp add: install_contention_evidence_def example_evidence_def evidence_qualified_def
        evidence_pair_def example_ledger_def)
  from evidence_since_idle.installed [OF r1 this]
  have r2: "evidence_since_idle False {{CPU, NATIVE_MLX}} (?l1\<lparr>dl_qualified_pairs := {{CPU, NATIVE_MLX}}\<rparr>)" by simp
  have "device_reserve ''b'' (example_request NATIVE_MLX) None
      (?l1\<lparr>dl_qualified_pairs := {{CPU, NATIVE_MLX}}\<rparr>)
    = Inr (\<lparr>dv_reservation_id = ''b'', dv_request = example_request NATIVE_MLX\<rparr>, example_busy_ledger)"
    using example_capacity_facts(2)
    by (simp add: device_reserve_Inr example_ledger_def active_backends_def contended_def
        example_busy_ledger_def) (simp add: example_request_def)
  then have "booking (?l1\<lparr>dl_qualified_pairs := {{CPU, NATIVE_MLX}}\<rparr>) example_busy_ledger"
    by (rule booking.reserve [OF example_request_ok, rotated]) simp
  with r2 show ?thesis by (rule evidence_since_idle.booked)
qed

lemma example_busy_reachable: "device_reachable False example_busy_ledger"
  by (rule evidence_reachable [OF example_busy_evidence])

theorem device_ledger_never_overcommits_witness:
  "dl_used example_busy_ledger UnifiedMemory = 200 \<and> dl_used example_busy_ledger UnifiedMemory \<le> 1000"
  using device_ledger_never_overcommits [OF example_busy_reachable, of UnifiedMemory]
  by (simp add: example_busy_ledger_def example_request_def example_capacity_def)


theorem replacing_disqualifies_live_pairs_witness:
  "\<exists>l'. replace_contention_evidence [example_evidence\<lparr>be_second_backend := COREML_DRAFT\<rparr>] example_busy_ledger = Inr l'
     \<and> dl_reservations l' = dl_reservations example_busy_ledger \<and> \<not> is_contention_pair_qualified CPU NATIVE_MLX l'"
  by (rule replacing_disqualifies_live_pairs [of _ _ CPU NATIVE_MLX "''a''" "example_request CPU" "''b''" "example_request NATIVE_MLX"])
    (auto simp: example_evidence_def evidence_qualified_def evidence_pair_def example_busy_ledger_def
      example_request_def doubleton_eq_iff)

theorem device_reserve_release_witness:
  "device_release ''a'' (example_ledger\<lparr>dl_used := (\<lambda>k. 0 + demand_of (example_request CPU) k),
     dl_reservations := [(''a'', example_request CPU)]\<rparr>) = (True, example_ledger)"
  using device_reserve_release [OF example_reserve] by (simp add: example_ledger_def)

end
