(* ===== verification/ProfileStore.thy ===== *)
theory ProfileStore
  imports KernelProbe
begin

text \<open>
  Evidence files with a last-known-good copy: the code that \<open>device_contention.py\<close> and
  \<open>device_placement.py\<close> share line by line.  A file is its attributes and its parsed content.
  Loading falls back to the archived copy when the current file cannot be used; promotion archives
  a valid current file with another identity before it replaces it.

  The locale \<open>evidence_file\<close> is what that code relies on: a saved value loads back, and whatever
  loads is valid.  Its main lemma is that promotion never loses the previous evidence.
\<close>

text \<open>A file that exists: its attributes and, when it is JSON, its value.\<close>

type_synonym stored_file = "file_attributes \<times> json option"

fun recoverable :: "py_error \<Rightarrow> bool" where
  "recoverable (ValueError m) = True"
| "recoverable OSError = True"
| "recoverable _ = False"

record profile_store =
  ps_current :: "stored_file option"
  ps_last_known_good :: "stored_file option"

definition load_with_fallback ::
  "(stored_file option \<Rightarrow> 'p result) \<Rightarrow> profile_store \<Rightarrow> ('p \<times> string) result" where
  "load_with_fallback load store =
     (case load (ps_current store) of
        Inr p \<Rightarrow> Inr (p, ''current'')
      | Inl e \<Rightarrow>
          if recoverable e
          then (case load (ps_last_known_good store) of
                  Inl e' \<Rightarrow> Inl e' | Inr p \<Rightarrow> Inr (p, ''last_known_good''))
          else Inl e)"

definition previous_profile ::
  "(stored_file option \<Rightarrow> 'p result) \<Rightarrow> stored_file option \<Rightarrow> 'p option result" where
  "previous_profile load current =
     (case current of
        None \<Rightarrow> Inr None
      | Some f \<Rightarrow>
          (case load (Some f) of
             Inr p \<Rightarrow> Inr (Some p)
           | Inl e \<Rightarrow> if recoverable e then Inr None else Inl e))"

definition keep_previous ::
  "('p \<Rightarrow> stored_file result) \<Rightarrow> ('p \<Rightarrow> string) \<Rightarrow> 'p \<Rightarrow> 'p option \<Rightarrow> (profile_store, unit) method"
where
  "keep_previous save ident p previous store =
     (case previous of
        None \<Rightarrow> (Inr (), store)
      | Some old \<Rightarrow>
          if ident old = ident p then (Inr (), store)
          else (case save old of
                  Inl e \<Rightarrow> (Inl e, store)
                | Inr f \<Rightarrow> (Inr (), store\<lparr>ps_last_known_good := Some f\<rparr>)))"

definition promote ::
  "(stored_file option \<Rightarrow> 'p result) \<Rightarrow> ('p \<Rightarrow> stored_file result) \<Rightarrow> ('p \<Rightarrow> string) \<Rightarrow> string
    \<Rightarrow> bool \<Rightarrow> 'p \<Rightarrow> (profile_store, unit) method" where
  "promote load save ident message same_path p store =
     (if same_path then (Inl (ValueError message), store)
      else (case previous_profile load (ps_current store) of
        Inl e \<Rightarrow> (Inl e, store)
      | Inr previous \<Rightarrow>
          (case keep_previous save ident p previous store of
             (Inl e, store') \<Rightarrow> (Inl e, store')
           | (Inr u, store') \<Rightarrow>
               (case save p of
                  Inl e \<Rightarrow> (Inl e, store')
                | Inr f \<Rightarrow> (Inr (), store'\<lparr>ps_current := Some f\<rparr>)))))"

locale evidence_file =
  fixes load :: "stored_file option \<Rightarrow> 'p result"
    and save :: "'p \<Rightarrow> stored_file result"
    and valid :: "'p \<Rightarrow> bool"
  assumes load_missing: "load None = Inl OSError"
    and load_saved: "save p = Inr f \<Longrightarrow> valid p \<Longrightarrow> load (Some f) = Inr p"
    and load_valid: "load stored = Inr p \<Longrightarrow> valid p"
begin

lemma promoted:
  assumes "valid p" and "promote load save ident message same_path p store = (Inr (), store')"
  shows "load (ps_current store') = Inr p"
    and "load (ps_current store) = Inr old \<Longrightarrow> ident old \<noteq> ident p \<Longrightarrow>
      load damaged = Inl e \<Longrightarrow> recoverable e \<Longrightarrow>
      load_with_fallback load (store'\<lparr>ps_current := damaged\<rparr>) = Inr (old, ''last_known_good'')"
proof -
  obtain previous mid f where prev: "previous_profile load (ps_current store) = Inr previous"
    and kept: "keep_previous save ident p previous store = (Inr (), mid)"
    and saved: "save p = Inr f" and store': "store' = mid\<lparr>ps_current := Some f\<rparr>"
    using assms(2) by (auto simp: promote_def split: if_splits sum.splits prod.splits)
  show "load (ps_current store') = Inr p" using load_saved [OF saved assms(1)] by (simp add: store')
  assume old: "load (ps_current store) = Inr old" and diff: "ident old \<noteq> ident p"
    and bad: "load damaged = Inl e" "recoverable e"
  obtain g where g: "ps_current store = Some g"
    using old load_missing by (cases "ps_current store") simp_all
  have "previous = Some old" using prev old unfolding previous_profile_def g by simp
  with kept diff obtain h where h: "save old = Inr h" "mid = store\<lparr>ps_last_known_good := Some h\<rparr>"
    by (auto simp: keep_previous_def split: sum.splits)
  have "load (Some h) = Inr old" by (rule load_saved [OF h(1) load_valid [OF old]])
  then show "load_with_fallback load (store'\<lparr>ps_current := damaged\<rparr>) = Inr (old, ''last_known_good'')"
    using bad by (simp add: load_with_fallback_def store' h(2))
qed

end

end
