(* ===== verification/DeviceContention.thy ===== *)
theory DeviceContention
  imports DeviceResources ProfileStore
begin

text \<open>
  \<open>vllm_apple/device_contention.py\<close>: the benchmark that measures two backends alone and together,
  the profile of qualified pairs it leads to, and the profile's file with its last-known-good copy.
  The two operations and the clock appear as the list of what each round observed.  A file is its
  attributes and its parsed content; \<open>digest\<close> is SHA-256 of the canonical JSON text and
  \<open>encoded_size\<close> its length.  Temporary files and \<open>os.replace\<close> make a write atomic: it either
  replaces the file or raises.
\<close>

section \<open>Profiles\<close>

definition MAX_CONTENTION_PROFILE_BYTES :: int where
  "MAX_CONTENTION_PROFILE_BYTES = 128 * 1024"

record contention_config =
  cb_profile_id :: string
  cb_first_backend :: execution_backend
  cb_second_backend :: execution_backend
  cb_samples :: int

definition contention_config_init :: "contention_config \<Rightarrow> contention_config result" where
  "contention_config_init c =
     guard_ok (\<not> (cb_profile_id c = [] \<or> 128 < length (cb_profile_id c)
                 \<or> cb_first_backend c = cb_second_backend c
                 \<or> \<not> (3 \<le> cb_samples c \<and> cb_samples c \<le> 64)))
       ''invalid contention benchmark configuration'' c"

record contention_profile =
  cf_profile_id :: string
  cf_evidence :: "contention_evidence list"
  cf_schema_version :: json

definition contention_profile_ok :: "contention_profile \<Rightarrow> bool" where
  "contention_profile_ok p \<longleftrightarrow>
     number_is 1 (cf_schema_version p)
     \<and> cf_profile_id p \<noteq> [] \<and> length (cf_profile_id p) \<le> 128
     \<and> 1 \<le> length (cf_evidence p) \<and> length (cf_evidence p) \<le> 16
     \<and> card (set (map evidence_pair (cf_evidence p))) = length (cf_evidence p)
     \<and> list_all (\<lambda>e. be_profile_id e = cf_profile_id p) (cf_evidence p)
     \<and> list_all evidence_qualified (cf_evidence p)"

definition contention_profile_init :: "contention_profile \<Rightarrow> contention_profile result" where
  "contention_profile_init p =
     (let pairs = set (map evidence_pair (cf_evidence p))
      in if \<not> number_is 1 (cf_schema_version p)
            \<or> cf_profile_id p = [] \<or> 128 < length (cf_profile_id p)
            \<or> \<not> (1 \<le> length (cf_evidence p) \<and> length (cf_evidence p) \<le> 16)
            \<or> card pairs \<noteq> length (cf_evidence p)
            \<or> list_ex (\<lambda>e. be_profile_id e \<noteq> cf_profile_id p) (cf_evidence p)
            \<or> list_ex (\<lambda>e. \<not> evidence_qualified e) (cf_evidence p)
         then Inl (ValueError ''invalid contention profile'') else Inr p)"

lemma contention_profile_init_iff [guards]:
  "contention_profile_init p = Inr p' \<longleftrightarrow> contention_profile_ok p \<and> p' = p"
  unfolding contention_profile_init_def contention_profile_ok_def
  by (auto simp: Let_def list_all_iff list_ex_iff not_less Suc_le_eq split: if_splits)

definition evidence_to_dict :: "contention_evidence \<Rightarrow> json" where
  "evidence_to_dict e = JObj
     [(''profile_id'', JStr (be_profile_id e)),
      (''first_backend'', JStr (execution_backend_value (be_first_backend e))),
      (''second_backend'', JStr (execution_backend_value (be_second_backend e))),
      (''sequential_latency_nanoseconds'', JInt (be_sequential_latency e)),
      (''parallel_latency_nanoseconds'', JInt (be_parallel_latency e)),
      (''sample_count'', JInt (be_sample_count e)),
      (''outputs_match'', JBool (be_outputs_match e))]"

definition profile_fields :: "contention_profile \<Rightarrow> (string \<times> json) list" where
  "profile_fields p =
     [(''schema_version'', cf_schema_version p),
      (''profile_id'', JStr (cf_profile_id p)),
      (''evidence'', JList (map evidence_to_dict (cf_evidence p)))]"

definition profile_digest :: "(json \<Rightarrow> string) \<Rightarrow> contention_profile \<Rightarrow> string" where
  "profile_digest digest p = digest (JObj (profile_fields p))"

definition contention_profile_to_dict :: "(json \<Rightarrow> string) \<Rightarrow> contention_profile \<Rightarrow> json" where
  "contention_profile_to_dict digest p =
     JObj (profile_fields p @ [(''profile_digest'', JStr (profile_digest digest p))])"

section \<open>The benchmark\<close>

text \<open>One round: the outputs of the two operations run one after the other (or what the first to
  fail raised), the outputs of the two threads (\<open>None\<close> when one failed or did not finish), and the
  clock differences around them.\<close>

record contention_round =
  ro_sequential :: "(string \<times> string) result"
  ro_sequential_elapsed :: int
  ro_parallel :: "(string \<times> string) option"
  ro_parallel_elapsed :: int

fun contention_rounds ::
  "contention_round list \<Rightarrow> (string \<times> string) option \<Rightarrow> bool \<Rightarrow> int list \<Rightarrow> int list
    \<Rightarrow> (bool \<times> int list \<times> int list) result" where
  "contention_rounds [] expected matching ss ps = Inr (matching, ss, ps)"
| "contention_rounds (r # rs) expected matching ss ps =
     (case ro_sequential r of
        Inl e \<Rightarrow> Inl e
      | Inr sequential_output \<Rightarrow>
          (case ro_parallel r of
             None \<Rightarrow> Inl (RuntimeError ''contention benchmark operation failed or timed out'')
           | Some parallel_output \<Rightarrow>
               if list_ex (\<lambda>v. \<not> is_digest v)
                    [fst sequential_output, snd sequential_output,
                     fst parallel_output, snd parallel_output]
               then Inl (ValueError ''contention benchmark output digest is invalid'')
               else let reference = (case expected of None \<Rightarrow> sequential_output | Some x \<Rightarrow> x)
                    in contention_rounds rs (Some reference)
                         (matching \<and> sequential_output = parallel_output
                            \<and> parallel_output = reference)
                         (ss @ [max 1 (ro_sequential_elapsed r)])
                         (ps @ [max 1 (ro_parallel_elapsed r)])))"

definition run_contention_benchmark ::
  "contention_config \<Rightarrow> contention_round list \<Rightarrow> contention_evidence result" where
  "run_contention_benchmark c observed =
     (case contention_rounds (take (nat (cb_samples c)) observed) None True [] [] of
        Inl e \<Rightarrow> Inl e
      | Inr (matching, ss, ps) \<Rightarrow>
          let middle = length ss div 2
          in contention_evidence_init
               \<lparr>be_profile_id = cb_profile_id c, be_first_backend = cb_first_backend c,
                be_second_backend = cb_second_backend c,
                be_sequential_latency = sort ss ! middle, be_parallel_latency = sort ps ! middle,
                be_sample_count = cb_samples c, be_outputs_match = matching\<rparr>)"

definition install_contention_profile ::
  "contention_profile \<Rightarrow> device_ledger \<Rightarrow> (int \<times> device_ledger) result" where
  "install_contention_profile p l =
     (case replace_contention_evidence (cf_evidence p) l of
        Inl e \<Rightarrow> Inl e | Inr l' \<Rightarrow> Inr (int (length (cf_evidence p)), l'))"

section \<open>The profile file\<close>

text \<open>\<open>private_directory\<close> says whether the parent directory passes the privacy check as it is, and
  \<open>owned_directory\<close> whether it does after the \<open>mkdir\<close> and \<open>chmod\<close> of a save.\<close>

definition save_contention_profile ::
  "(json \<Rightarrow> string) \<Rightarrow> (json \<Rightarrow> nat) \<Rightarrow> bool \<Rightarrow> contention_profile \<Rightarrow> stored_file result" where
  "save_contention_profile digest encoded_size owned_directory p =
     (let payload = contention_profile_to_dict digest p;
          size = int (encoded_size payload) + 1
      in if \<not> owned_directory
           then Inl (ValueError ''contention profile directory must be private'')
         else if MAX_CONTENTION_PROFILE_BYTES < size
           then Inl (ValueError ''contention profile exceeds bounded size'')
         else Inr (\<lparr>fa_regular = True, fa_current_user = True, fa_size = size, fa_mode = 0x180\<rparr>,
                   Some payload))"

definition evidence_keys :: "string list" where
  "evidence_keys =
     [''profile_id'', ''first_backend'', ''second_backend'', ''sequential_latency_nanoseconds'',
      ''parallel_latency_nanoseconds'', ''sample_count'', ''outputs_match'']"

fun complete_item :: "json \<Rightarrow> bool" where
  "complete_item (JObj d) = (set (keys d) = set evidence_keys)"
| "complete_item _ = False"

fun parse_evidence :: "json \<Rightarrow> contention_evidence result" where
  "parse_evidence (JObj d) =
     (case (j_str_value (field d ''profile_id''),
            Option.bind (j_str_value (field d ''first_backend'')) backend_of_value,
            Option.bind (j_str_value (field d ''second_backend'')) backend_of_value,
            j_int_value (field d ''sequential_latency_nanoseconds''),
            j_int_value (field d ''parallel_latency_nanoseconds''),
            j_int_value (field d ''sample_count''),
            field d ''outputs_match'') of
        (Some pid, Some first, Some second, Some s, Some p, Some n, JBool matching) \<Rightarrow>
          contention_evidence_init
            \<lparr>be_profile_id = pid, be_first_backend = first, be_second_backend = second,
             be_sequential_latency = s, be_parallel_latency = p, be_sample_count = n,
             be_outputs_match = matching\<rparr>
      | _ \<Rightarrow> Inl (ValueError ''invalid bandwidth contention evidence''))"
| "parse_evidence _ = Inl TypeError"

fun parse_all :: "json list \<Rightarrow> contention_evidence list result" where
  "parse_all [] = Inr []"
| "parse_all (j # js) =
     (case parse_evidence j of
        Inl e \<Rightarrow> Inl e
      | Inr x \<Rightarrow> (case parse_all js of Inl e \<Rightarrow> Inl e | Inr xs \<Rightarrow> Inr (x # xs)))"

definition parse_profile :: "(string \<times> json) list \<Rightarrow> json list \<Rightarrow> string \<Rightarrow> contention_profile result" where
  "parse_profile d items profile_id =
     (case parse_all (filter complete_item items) of
        Inl e \<Rightarrow> Inl (ValueError ''invalid contention profile values'')
      | Inr evidence \<Rightarrow>
          (case contention_profile_init
                  \<lparr>cf_profile_id = profile_id, cf_evidence = evidence,
                   cf_schema_version = field d ''schema_version''\<rparr> of
             Inl e \<Rightarrow> Inl (ValueError ''invalid contention profile values'')
           | Inr p \<Rightarrow> Inr p))"

definition load_items ::
  "(json \<Rightarrow> string) \<Rightarrow> string \<Rightarrow> (string \<times> json) list \<Rightarrow> json list \<Rightarrow> contention_profile result" where
  "load_items digest profile_id d items =
     (if set (keys d) \<noteq> {''schema_version'', ''profile_id'', ''evidence'', ''profile_digest''}
         \<or> field d ''profile_id'' \<noteq> JStr profile_id
        then Inl (ValueError ''invalid contention profile fields'')
      else (case parse_profile d items profile_id of
        Inl e \<Rightarrow> Inl e
      | Inr p \<Rightarrow>
          if length (cf_evidence p) \<noteq> length items
             \<or> field d ''profile_digest'' \<noteq> JStr (profile_digest digest p)
          then Inl (ValueError ''contention profile digest mismatch'')
          else Inr p))"

fun load_payload :: "(json \<Rightarrow> string) \<Rightarrow> string \<Rightarrow> json \<Rightarrow> contention_profile result" where
  "load_payload digest profile_id (JObj d) =
     (case field d ''evidence'' of
        JList items \<Rightarrow> load_items digest profile_id d items
      | _ \<Rightarrow> Inl (ValueError ''invalid contention profile fields''))"
| "load_payload digest profile_id _ = Inl (ValueError ''invalid contention profile fields'')"

definition load_contention_profile ::
  "(json \<Rightarrow> string) \<Rightarrow> bool \<Rightarrow> stored_file option \<Rightarrow> string \<Rightarrow> contention_profile result" where
  "load_contention_profile digest private_directory file profile_id =
     (if \<not> private_directory
        then Inl (ValueError ''contention profile directory must be private'')
      else (case file of
        None \<Rightarrow> Inl OSError
      | Some (a, content) \<Rightarrow>
          if \<not> fa_regular a \<or> \<not> fa_current_user a \<or> fa_mode a mod 64 \<noteq> 0
             \<or> \<not> (0 < fa_size a \<and> fa_size a \<le> MAX_CONTENTION_PROFILE_BYTES)
            then Inl (ValueError ''contention profile must be a bounded private regular file'')
          else (case content of
            None \<Rightarrow> Inl (ValueError ''JSONDecodeError'')
          | Some j \<Rightarrow> load_payload digest profile_id j)))"

definition load_contention_profile_with_fallback ::
  "(json \<Rightarrow> string) \<Rightarrow> bool \<Rightarrow> profile_store \<Rightarrow> string \<Rightarrow> (contention_profile \<times> string) result" where
  "load_contention_profile_with_fallback digest private_directory store profile_id =
     load_with_fallback (\<lambda>f. load_contention_profile digest private_directory f profile_id) store"

definition promote_contention_profile ::
  "(json \<Rightarrow> string) \<Rightarrow> (json \<Rightarrow> nat) \<Rightarrow> bool \<Rightarrow> bool \<Rightarrow> bool \<Rightarrow> contention_profile
    \<Rightarrow> (profile_store, unit) method" where
  "promote_contention_profile digest encoded_size private_directory owned_directory same_path p =
     promote (\<lambda>f. load_contention_profile digest private_directory f (cf_profile_id p))
       (save_contention_profile digest encoded_size owned_directory) (profile_digest digest)
       ''contention current and rollback paths must differ'' same_path p"

definition default_profile_names :: "string \<Rightarrow> (string \<times> string) result" where
  "default_profile_names profile_id =
     (if profile_id = [] \<or> length profile_id \<noteq> 64 \<or> \<not> list_all is_hex profile_id
      then Inl (ValueError ''invalid contention profile path identity'')
      else Inr (profile_id @ ''.json'', profile_id @ ''.last-known-good.json''))"

section \<open>Reading back what was written\<close>

definition evidence_ok :: "contention_evidence \<Rightarrow> bool" where
  "evidence_ok e \<longleftrightarrow> contention_evidence_init e = Inr e"

lemma evidence_init_ok: "contention_evidence_init e = Inr e' \<Longrightarrow> evidence_ok e' \<and> e' = e"
  by (auto simp: evidence_ok_def contention_evidence_init_def)

lemma parse_evidence_to_dict: "evidence_ok e \<Longrightarrow> parse_evidence (evidence_to_dict e) = Inr e"
  by (cases e) (simp add: evidence_to_dict_def field_def evidence_ok_def)

lemma complete_evidence: "complete_item (evidence_to_dict e)"
  by (simp add: evidence_to_dict_def evidence_keys_def)

lemma parse_all_to_dict:
  "\<forall>e\<in>set es. evidence_ok e \<Longrightarrow> parse_all (map evidence_to_dict es) = Inr es"
  by (induction es) (simp_all add: parse_evidence_to_dict)

lemma parse_all_ok: "parse_all js = Inr es \<Longrightarrow> \<forall>e\<in>set es. evidence_ok e"
proof (induction js arbitrary: es)
  case (Cons j js)
  from Cons.prems obtain x xs where x: "parse_evidence j = Inr x" "parse_all js = Inr xs" "es = x # xs"
    by (auto split: sum.splits)
  have "evidence_ok x" using x(1)
    by (cases j) (auto dest!: evidence_init_ok split: option.splits json.splits prod.splits)
  with Cons.IH [OF x(2)] x(3) show ?case by simp
qed simp

definition profile_ok :: "contention_profile \<Rightarrow> bool" where
  "profile_ok p \<longleftrightarrow> contention_profile_ok p \<and> (\<forall>e\<in>set (cf_evidence p). evidence_ok e)"

lemma load_saved_contention:
  assumes "save_contention_profile digest encoded_size True p = Inr f" and "profile_ok p"
  shows "load_contention_profile digest True (Some f) (cf_profile_id p) = Inr p"
proof -
  define a where "a = \<lparr>fa_regular = True, fa_current_user = True,
     fa_size = int (encoded_size (contention_profile_to_dict digest p)) + 1, fa_mode = 0x180\<rparr>"
  have "f = (a, Some (contention_profile_to_dict digest p))
    \<and> int (encoded_size (contention_profile_to_dict digest p)) + 1 \<le> MAX_CONTENTION_PROFILE_BYTES"
    using assms(1) unfolding save_contention_profile_def Let_def a_def
    by (simp split: if_splits)
  then have f: "f = (a, Some (contention_profile_to_dict digest p))"
    and a: "fa_regular a" "fa_current_user a" "fa_mode a = 0x180"
      "fa_size a = int (encoded_size (contention_profile_to_dict digest p)) + 1"
      "fa_size a \<le> MAX_CONTENTION_PROFILE_BYTES"
    by (simp_all add: a_def)
  have size: "0 < fa_size a" using a(4) by linarith
  define fields where "fields = profile_fields p @ [(''profile_digest'', JStr (profile_digest digest p))]"
  have get: "field fields ''evidence'' = JList (map evidence_to_dict (cf_evidence p))"
    "field fields ''profile_id'' = JStr (cf_profile_id p)"
    "field fields ''schema_version'' = cf_schema_version p"
    "field fields ''profile_digest'' = JStr (profile_digest digest p)"
    "fst ` set fields = {''schema_version'', ''profile_id'', ''evidence'', ''profile_digest''}"
    by (simp_all add: fields_def profile_fields_def field_def)
  have "filter complete_item (map evidence_to_dict (cf_evidence p)) = map evidence_to_dict (cf_evidence p)"
    by (simp add: complete_evidence)
  moreover have "\<lparr>cf_profile_id = cf_profile_id p, cf_evidence = cf_evidence p,
      cf_schema_version = cf_schema_version p\<rparr> = p" by simp
  then have "contention_profile_init \<lparr>cf_profile_id = cf_profile_id p, cf_evidence = cf_evidence p,
      cf_schema_version = cf_schema_version p\<rparr> = Inr p"
    using assms(2) by (simp only: guards profile_ok_def)
  ultimately have "parse_profile fields (map evidence_to_dict (cf_evidence p)) (cf_profile_id p) = Inr p"
    using assms(2) by (simp add: parse_profile_def parse_all_to_dict profile_ok_def get)
  then show ?thesis
    using a size
    by (simp add: load_contention_profile_def f contention_profile_to_dict_def fields_def [symmetric]
        load_items_def get)
qed

lemma load_contention_ok:
  assumes "load_contention_profile digest private_directory file pid = Inr p"
  shows "profile_ok p" and "cf_profile_id p = pid"
proof -
  obtain a content where stored: "file = Some (a, content)"
    using assms by (cases "file") (auto simp: load_contention_profile_def split: if_splits)
  obtain j where "load_payload digest pid j = Inr p"
    using assms by (cases content) (simp_all add: load_contention_profile_def stored split: if_splits)
  then obtain d where "load_payload digest pid (JObj d) = Inr p" by (cases j) simp_all
  then obtain items where "load_items digest pid d items = Inr p"
    by (cases "field d ''evidence''") simp_all
  then have "parse_profile d items pid = Inr p"
    by (auto simp: load_items_def split: if_splits sum.splits)
  then show "profile_ok p" "cf_profile_id p = pid"
    by (auto simp: parse_profile_def profile_ok_def guards dest: parse_all_ok split: sum.splits)
qed

interpretation contention: evidence_file
  "\<lambda>f. load_contention_profile digest True f pid" "save_contention_profile digest encoded_size True"
  "\<lambda>p. profile_ok p \<and> cf_profile_id p = pid" for digest encoded_size pid
proof unfold_locales
  fix p f
  show "load_contention_profile digest True None pid = Inl OSError"
    by (simp add: load_contention_profile_def)
  show "save_contention_profile digest encoded_size True p = Inr f \<Longrightarrow>
      profile_ok p \<and> cf_profile_id p = pid \<Longrightarrow> load_contention_profile digest True (Some f) pid = Inr p"
    using load_saved_contention [of digest encoded_size p f] by blast
  show "load_contention_profile digest True f' pid = Inr p \<Longrightarrow> profile_ok p \<and> cf_profile_id p = pid" for f'
    using load_contention_ok [of digest True f' pid p] by blast
qed

section \<open>The rounds of a benchmark\<close>

definition round_agrees :: "contention_round \<Rightarrow> string \<times> string \<Rightarrow> bool" where
  "round_agrees r out \<longleftrightarrow> ro_sequential r = Inr out \<and> ro_parallel r = Some out"

lemma contention_rounds_spec:
  "contention_rounds rs expected m ss ps = Inr (m', ss', ps') \<Longrightarrow>
   length ss' = length ss + length rs \<and> length ps' = length ps + length rs
   \<and> (m' \<longleftrightarrow> m \<and> (case expected of
         Some out \<Rightarrow> \<forall>r\<in>set rs. round_agrees r out
       | None \<Rightarrow> rs = [] \<or> (\<exists>out. \<forall>r\<in>set rs. round_agrees r out)))
   \<and> ss' = ss @ map (\<lambda>r. max 1 (ro_sequential_elapsed r)) rs
   \<and> ps' = ps @ map (\<lambda>r. max 1 (ro_parallel_elapsed r)) rs"
proof (induction rs arbitrary: expected m ss ps)
  case Nil
  then show ?case by (auto split: option.split)
next
  case (Cons r rs)
  obtain so po where out: "ro_sequential r = Inr so" "ro_parallel r = Some po"
    using Cons.prems by (auto split: sum.splits option.splits)
  define reference where "reference = (case expected of None \<Rightarrow> so | Some x \<Rightarrow> x)"
  have "contention_rounds rs (Some reference) (m \<and> so = po \<and> po = reference)
      (ss @ [max 1 (ro_sequential_elapsed r)]) (ps @ [max 1 (ro_parallel_elapsed r)]) = Inr (m', ss', ps')"
    using Cons.prems out by (simp add: reference_def Let_def split: if_splits)
  note IH = Cons.IH [OF this]
  have "round_agrees r x \<longleftrightarrow> so = x \<and> po = x" for x by (auto simp: round_agrees_def out)
  with IH show ?case by (cases expected) (auto simp: reference_def)
qed

section \<open>Properties\<close>

text \<open>Promotion keeps a way back.  After a successful promotion the current file loads as the
  new profile; and if the previous current file held a valid profile with another digest, then
  whatever later damages the current file, loading with fallback returns that previous profile from
  the last-known-good copy.\<close>
theorem promotion_keeps_rollback:
  assumes "profile_ok p"
    and "promote_contention_profile digest encoded_size True True False p store = (Inr (), store')"
  shows "load_contention_profile digest True (ps_current store') (cf_profile_id p) = Inr p
    \<and> (\<forall>old damaged e.
        load_contention_profile digest True (ps_current store) (cf_profile_id p) = Inr old
        \<and> profile_digest digest old \<noteq> profile_digest digest p
        \<and> load_contention_profile digest True damaged (cf_profile_id p) = Inl e \<and> recoverable e
        \<longrightarrow> load_contention_profile_with_fallback digest True (store'\<lparr>ps_current := damaged\<rparr>)
              (cf_profile_id p) = Inr (old, ''last_known_good''))"
proof -
  have promoted: "promote (\<lambda>f. load_contention_profile digest True f (cf_profile_id p))
      (save_contention_profile digest encoded_size True) (profile_digest digest)
      ''contention current and rollback paths must differ'' False p store = (Inr (), store')"
    using assms(2) by (simp add: promote_contention_profile_def)
  have valid: "profile_ok p \<and> cf_profile_id p = cf_profile_id p" using assms(1) by simp
  show ?thesis
    using contention.promoted [OF valid promoted]
    by (simp add: load_contention_profile_with_fallback_def)
qed

text \<open>The benchmark's evidence says that the outputs match exactly when one and the same pair of
  outputs came out of every round, sequential and parallel; so a pair of backends qualifies only
  then, and only when the median parallel time is at most 95 percent of the median sequential
  time.\<close>
theorem benchmark_qualifies:
  assumes "run_contention_benchmark c observed = Inr e" and "1 \<le> cb_samples c"
    and "int (length observed) = cb_samples c"
  shows "be_outputs_match e = (\<exists>out. \<forall>r\<in>set observed. round_agrees r out)
    \<and> Some (be_sequential_latency e) = median (map (\<lambda>r. max 1 (ro_sequential_elapsed r)) observed)
    \<and> Some (be_parallel_latency e) = median (map (\<lambda>r. max 1 (ro_parallel_elapsed r)) observed)
    \<and> evidence_pair e = {cb_first_backend c, cb_second_backend c}
    \<and> (evidence_qualified e \<longrightarrow> (\<exists>out. \<forall>r\<in>set observed. round_agrees r out)
        \<and> be_parallel_latency e * 100 \<le> be_sequential_latency e * 95)"
proof -
  have all: "take (nat (cb_samples c)) observed = observed" "observed \<noteq> []" using assms(2,3) by auto
  obtain m ss ps where r: "contention_rounds observed None True [] [] = Inr (m, ss, ps)"
    and e: "contention_evidence_init
               \<lparr>be_profile_id = cb_profile_id c, be_first_backend = cb_first_backend c,
                be_second_backend = cb_second_backend c,
                be_sequential_latency = sort ss ! (length ss div 2),
                be_parallel_latency = sort ps ! (length ss div 2),
                be_sample_count = cb_samples c, be_outputs_match = m\<rparr> = Inr e"
    using assms(1) by (auto simp: run_contention_benchmark_def all(1) Let_def split: sum.splits)
  note spec = contention_rounds_spec [OF r]
  have m: "m = (\<exists>out. \<forall>r\<in>set observed. round_agrees r out)" using spec all(2) by simp
  have len: "length ss = length observed" "length ps = length observed" using spec by simp_all
  have vals: "ss = map (\<lambda>r. max 1 (ro_sequential_elapsed r)) observed"
    "ps = map (\<lambda>r. max 1 (ro_parallel_elapsed r)) observed" using spec by simp_all
  have "be_outputs_match e = m" "be_sequential_latency e = sort ss ! (length ss div 2)"
    "be_parallel_latency e = sort ps ! (length ps div 2)"
    "evidence_pair e = {cb_first_backend c, cb_second_backend c}"
    using evidence_init_ok [OF e] len by (simp_all add: evidence_pair_def)
  then show ?thesis
    using all(2) unfolding m vals by (simp add: median_def Let_def evidence_qualified_def)
qed

section \<open>Witnesses\<close>

definition example_profile :: contention_profile where
  "example_profile =
     \<lparr>cf_profile_id = ''m4'', cf_evidence = [example_evidence], cf_schema_version = JInt 1\<rparr>"

definition example_older_profile :: contention_profile where
  "example_older_profile =
     \<lparr>cf_profile_id = ''m4'', cf_evidence = [example_evidence\<lparr>be_sample_count := 7\<rparr>],
      cf_schema_version = JInt 1\<rparr>"

definition example_profile_digest :: "json \<Rightarrow> string" where
  "example_profile_digest j =
     (if j = JObj (profile_fields example_older_profile) then ''seven'' else ''other'')"

definition example_file :: "contention_profile \<Rightarrow> stored_file" where
  "example_file p = (\<lparr>fa_regular = True, fa_current_user = True, fa_size = 501, fa_mode = 0x180\<rparr>,
     Some (contention_profile_to_dict example_profile_digest p))"

lemma example_profiles_ok: "profile_ok example_profile" "profile_ok example_older_profile"
  by (simp_all add: profile_ok_def contention_profile_ok_def example_profile_def
      example_older_profile_def example_evidence_def evidence_ok_def contention_evidence_init_def
      evidence_qualified_def evidence_pair_def)

lemma example_save:
  "save_contention_profile example_profile_digest (\<lambda>_. 500) True p = Inr (example_file p)"
  by (simp add: save_contention_profile_def example_file_def MAX_CONTENTION_PROFILE_BYTES_def)

lemma example_digests:
  "profile_digest example_profile_digest example_profile = ''other''"
  "profile_digest example_profile_digest example_older_profile = ''seven''"
  by (simp_all add: profile_digest_def example_profile_digest_def)
    (simp add: profile_fields_def example_profile_def example_older_profile_def
      evidence_to_dict_def example_evidence_def)

lemma example_older_loads:
  "load_contention_profile example_profile_digest True (Some (example_file example_older_profile)) ''m4''
     = Inr example_older_profile"
  using load_saved_contention [OF example_save example_profiles_ok(2)] by (simp add: example_older_profile_def)

theorem promotion_keeps_rollback_witness:
  "\<exists>store'. promote_contention_profile example_profile_digest (\<lambda>_. 500) True True False example_profile
       \<lparr>ps_current = Some (example_file example_older_profile), ps_last_known_good = None\<rparr>
       = (Inr (), store')
     \<and> load_contention_profile_with_fallback example_profile_digest True
         (store'\<lparr>ps_current := None\<rparr>) ''m4'' = Inr (example_older_profile, ''last_known_good'')"
proof -
  let ?store = "\<lparr>ps_current = Some (example_file example_older_profile), ps_last_known_good = None\<rparr>"
  have pid: "cf_profile_id example_profile = ''m4''" by (simp add: example_profile_def)
  obtain store' where p: "promote_contention_profile example_profile_digest (\<lambda>_. 500) True True False
      example_profile ?store = (Inr (), store')"
    by (simp add: promote_contention_profile_def promote_def pid previous_profile_def
        example_older_loads keep_previous_def example_digests example_save)
  have "load_contention_profile example_profile_digest True None ''m4'' = Inl OSError"
    by (simp add: load_contention_profile_def)
  with promotion_keeps_rollback [OF example_profiles_ok(1) p] p show ?thesis
    by (simp add: pid example_older_loads example_digests)
qed

theorem benchmark_qualifies_witness:
  "\<exists>e. run_contention_benchmark
       \<lparr>cb_profile_id = ''m4'', cb_first_backend = CPU, cb_second_backend = NATIVE_MLX, cb_samples = 3\<rparr>
       (replicate 3 \<lparr>ro_sequential = Inr (replicate 64 (CHR ''a''), replicate 64 (CHR ''b'')),
          ro_sequential_elapsed = 200,
          ro_parallel = Some (replicate 64 (CHR ''a''), replicate 64 (CHR ''b'')),
          ro_parallel_elapsed = 150\<rparr>) = Inr e
     \<and> be_outputs_match e"
proof -
  let ?c = "\<lparr>cb_profile_id = ''m4'', cb_first_backend = CPU, cb_second_backend = NATIVE_MLX, cb_samples = 3\<rparr>"
  let ?o = "\<lparr>ro_sequential = Inr (replicate 64 (CHR ''a''), replicate 64 (CHR ''b'')),
          ro_sequential_elapsed = 200,
          ro_parallel = Some (replicate 64 (CHR ''a''), replicate 64 (CHR ''b'')),
          ro_parallel_elapsed = 150\<rparr>"
  have digests: "is_digest (replicate 64 (CHR ''a''))" "is_digest (replicate 64 (CHR ''b''))"
    by (simp_all add: is_digest_def list_all_iff is_hex_def)
  obtain e where e: "run_contention_benchmark ?c (replicate 3 ?o) = Inr e"
    using digests
    by (simp add: run_contention_benchmark_def numeral_3_eq_3 contention_evidence_init_def)
  have "\<exists>out. \<forall>r\<in>set (replicate 3 ?o). round_agrees r out"
    by (intro exI [of _ "(replicate 64 (CHR ''a''), replicate 64 (CHR ''b''))"])
      (simp add: round_agrees_def)
  then show ?thesis using benchmark_qualifies [OF e] e by simp
qed

end
