(* ===== verification/HeapQueue.thy ===== *)
theory HeapQueue
  imports Prelude "HOL-Library.Product_Lexorder" "HOL-Library.List_Lexorder" "HOL-Library.Char_ord"
begin

text \<open>
  Priority queues on \<open>heapq\<close> with lazy deletion, the shape shared by the scheduler's queue and the
  audio and video schedulers.  What the code uses of \<open>heapq\<close> is that \<open>heappop\<close> returns the least
  entry in the order of its key, so a heap is the sorted list of its entries: \<open>heappush\<close> inserts in order, \<open>heappop\<close> takes
  the head, and \<open>heapify\<close> of a filtered list is the filtered list.  Cancelled entries stay in the
  heap until they reach the head; \<open>pop_live\<close> is the loop that skips them.

  The locale \<open>lazy_heap\<close> states what a queue promises its clients: taking from it yields the least
  live entry and leaves the other live entries in order.
\<close>

fun pop_live :: "('e \<Rightarrow> bool) \<Rightarrow> 'e list \<Rightarrow> 'e option \<times> 'e list" where
  "pop_live live [] = (None, [])"
| "pop_live live (e # es) = (if live e then (Some e, es) else pop_live live es)"

fun drop_dead :: "('e \<Rightarrow> bool) \<Rightarrow> 'e list \<Rightarrow> 'e list" where
  "drop_dead live [] = []"
| "drop_dead live (e # es) = (if live e then e # es else drop_dead live es)"

lemma pop_live_None: "pop_live live es = (None, es') \<longleftrightarrow> filter live es = [] \<and> es' = []"
  by (induction es) auto

lemma pop_live_Some:
  "pop_live live es = (Some e, es') \<Longrightarrow>
     live e \<and> (\<exists>dead. es = dead @ e # es' \<and> filter live dead = []) \<and> filter live es = e # filter live es'"
proof (induction es)
  case (Cons x es)
  show ?case
  proof (cases "live x")
    case True
    with Cons.prems show ?thesis by auto
  next
    case False
    with Cons.prems have IH: "live e \<and> (\<exists>dead. es = dead @ e # es' \<and> filter live dead = [])
        \<and> filter live es = e # filter live es'" by (intro Cons.IH) simp
    then obtain dead where "es = dead @ e # es'" "filter live dead = []" by blast
    then have "x # es = (x # dead) @ e # es'" "filter live (x # dead) = []" using False by simp_all
    with IH False show ?thesis by auto
  qed
qed simp

lemma drop_dead_filter [simp]: "filter live (drop_dead live es) = filter live es"
  by (induction es) auto

lemma drop_dead_hd:
  "drop_dead live es = [] \<longleftrightarrow> filter live es = []"
  "drop_dead live es = e # es' \<Longrightarrow> live e \<and> filter live es = e # filter live es'"
  by (induction es) (auto split: if_splits)

lemma drop_dead_suffix: "\<exists>dead. es = dead @ drop_dead live es"
proof (induction es)
  case (Cons x es)
  then obtain dead where "es = dead @ drop_dead live es" by blast
  then have "x # es = (if live x then [] else x # dead) @ drop_dead live (x # es)" by simp
  then show ?case by blast
qed simp

lemma distinct_map_insort_key: "distinct (map g (insort_key f x xs)) = distinct (map g (x # xs))"
  by (induction xs) (auto simp: set_insort_key)

lemma pop_live_cong: "(\<And>e. e \<in> set es \<Longrightarrow> live e = live' e) \<Longrightarrow> pop_live live es = pop_live live' es"
  by (induction es) auto

lemma pop_live_subset: "pop_live live es = (r, es') \<Longrightarrow> set es' \<subseteq> set es"
  by (induction es) (auto split: if_splits)

text \<open>The loop of the media schedulers: the identifiers of queued entries and of cancelled ones are sets, and an
  entry leaves both when it is popped.\<close>

fun pop_active ::
  "('e \<Rightarrow> 'i) \<Rightarrow> 'e list \<Rightarrow> 'i set \<Rightarrow> 'i set \<Rightarrow> 'e option \<times> 'e list \<times> 'i set \<times> 'i set" where
  "pop_active ident [] ids gone = (None, [], ids, gone)"
| "pop_active ident (e # es) ids gone =
     (if ident e \<in> gone then pop_active ident es (ids - {ident e}) (gone - {ident e})
      else (Some e, es, ids - {ident e}, gone))"

lemma pop_active_spec:
  assumes "distinct (map ident es)" and "pop_active ident es ids gone = (r, es', ids', gone')"
  shows "pop_live (\<lambda>e. ident e \<notin> gone) es = (r, es')
    \<and> ids' = ids - (ident ` set es - ident ` set es') \<and> gone' = gone - (ident ` set es - ident ` set es')"
  using assms
proof (induction es arbitrary: ids gone)
  case (Cons e es)
  show ?case
  proof (cases "ident e \<in> gone")
    case False
    then have "ident ` set (e # es) - ident ` set es = {ident e}" "gone - {ident e} = gone" using Cons.prems(1) by auto
    then show ?thesis using Cons.prems(2) False by auto
  next
    case True
    have "pop_active ident es (ids - {ident e}) (gone - {ident e}) = (r, es', ids', gone')"
      using Cons.prems(2) True by simp
    then have IH: "pop_live (\<lambda>x. ident x \<notin> gone - {ident e}) es = (r, es')"
      "ids' = ids - {ident e} - (ident ` set es - ident ` set es')"
      "gone' = gone - {ident e} - (ident ` set es - ident ` set es')"
      using Cons.IH [of "ids - {ident e}" "gone - {ident e}"] Cons.prems(1) by simp_all
    have fresh: "ident e \<notin> ident ` set es" using Cons.prems(1) by simp
    have "pop_live (\<lambda>x. ident x \<notin> gone - {ident e}) es = pop_live (\<lambda>x. ident x \<notin> gone) es"
      by (rule pop_live_cong) (metis Diff_iff fresh image_eqI singletonD)
    moreover have "set es' \<subseteq> set es" by (rule pop_live_subset [OF IH(1)])
    then have "ident e \<notin> ident ` set es'" using fresh by blast
    then have "ident ` set (e # es) - ident ` set es' = insert (ident e) (ident ` set es - ident ` set es')"
      by (simp add: insert_Diff_if)
    then have "A - {ident e} - (ident ` set es - ident ` set es') = A - (ident ` set (e # es) - ident ` set es')" for A
      by blast
    ultimately show ?thesis using IH True by simp
  qed
qed simp

lemma pop_live_front: "pop_live live es = (r, es') \<Longrightarrow> \<exists>front. es = front @ es'"
proof (induction es)
  case (Cons e es)
  show ?case
  proof (cases "live e")
    case True
    then have "e # es = [e] @ es'" using Cons.prems by simp
    then show ?thesis by blast
  next
    case False
    then obtain front where "es = front @ es'" using Cons by auto
    then have "e # es = (e # front) @ es'" by simp
    then show ?thesis by blast
  qed
qed simp

lemma mset_insort_filter: "mset (map f (filter P (insort_key k e es))) = mset (map f (filter P (e # es)))"
  by (simp add: mset_filter)

lemma mset_filter_cancelled:
  assumes "e \<in> set es" and "distinct (map ident es)" and "ident e \<notin> gone"
  shows "mset (map f (filter (\<lambda>x. ident x \<notin> gone) es))
    = add_mset (f e) (mset (map f (filter (\<lambda>x. ident x \<notin> insert (ident e) gone) es)))"
  using assms
proof (induction es)
  case (Cons x es)
  show ?case
  proof (cases "x = e")
    case True
    then have "filter (\<lambda>x. ident x \<notin> insert (ident e) gone) es = filter (\<lambda>x. ident x \<notin> gone) es"
      using Cons.prems(2) by (intro filter_cong) (auto simp: image_iff)
    then show ?thesis using True Cons.prems(3) by simp
  next
    case False
    then have "ident x \<noteq> ident e" using Cons.prems by auto
    then show ?thesis using False Cons by simp
  qed
qed simp

lemma queue_depth:
  assumes "distinct (map ident es)" and "gone \<subseteq> ident ` set es"
  shows "int (card (ident ` set es)) - int (card gone) = int (length (filter (\<lambda>x. ident x \<notin> gone) es))"
proof -
  let ?dead = "filter (\<lambda>x. ident x \<in> gone) es"
  have "gone = ident ` set ?dead" using assms(2) by auto
  moreover have "distinct (map ident ?dead)" using assms(1) by (simp add: distinct_map_filter)
  ultimately have "card gone = length ?dead" using distinct_card [of "map ident ?dead"] by simp
  moreover have "card (ident ` set es) = length es" using distinct_card [OF assms(1)] by simp
  ultimately show ?thesis using sum_length_filter_compl [of "\<lambda>x. ident x \<in> gone" es] by simp
qed

locale lazy_heap =
  fixes ok :: "'s \<Rightarrow> bool"
    and heap :: "'s \<Rightarrow> 'e list"
    and key :: "'e \<Rightarrow> 'k::linorder"
    and live :: "'s \<Rightarrow> 'e \<Rightarrow> bool"
    and take_next :: "'s \<Rightarrow> 'e option \<times> 's"
  assumes ok_heap: "ok s \<Longrightarrow> sorted (map key (heap s)) \<and> distinct (heap s)"
    and take_ok: "ok s \<Longrightarrow> take_next s = (r, s') \<Longrightarrow> ok s'"
    and take_heap: "ok s \<Longrightarrow> take_next s = (r, s') \<Longrightarrow> pop_live (live s) (heap s) = (r, heap s')"
    and take_live: "ok s \<Longrightarrow> take_next s = (r, s') \<Longrightarrow> e \<in> set (heap s') \<Longrightarrow>
        live s' e = (live s e \<and> r \<noteq> Some e)"
begin

definition pending :: "'s \<Rightarrow> 'e list" where
  "pending s = filter (live s) (heap s)"

text \<open>The next entry is the least pending one; the rest stay pending in order.\<close>

lemma take_pending:
  assumes "take_next s = (r, s')" and "ok s"
  shows "case pending s of
      [] \<Rightarrow> r = None \<and> pending s' = []
    | e # es \<Rightarrow> r = Some e \<and> pending s' = es"
proof (cases r)
  case None
  with take_heap [OF assms(2,1)] have "filter (live s) (heap s) = []" "heap s' = []"
    by (simp_all add: pop_live_None)
  then show ?thesis using None by (simp add: pending_def)
next
  case (Some e)
  from pop_live_Some [OF take_heap [OF assms(2,1), unfolded Some]] obtain dead where
    dead: "heap s = dead @ e # heap s'" and p: "filter (live s) (heap s) = e # filter (live s) (heap s')"
    by blast
  have "live s' x = live s x" if "x \<in> set (heap s')" for x
    using take_live [OF assms(2,1) that] that ok_heap [OF assms(2)] dead Some by auto
  then have "filter (live s') (heap s') = filter (live s) (heap s')" by (simp cong: filter_cong)
  then show ?thesis using p Some by (simp add: pending_def)
qed

lemma take_least:
  assumes "take_next s = (Some e, s')" and "ok s"
  shows "e \<in> set (heap s) \<and> live s e \<and> (\<forall>x\<in>set (heap s). live s x \<longrightarrow> key e \<le> key x)"
proof -
  from take_pending [OF assms(1,2)] obtain es where p: "pending s = e # es"
    by (cases "pending s") auto
  have "sorted (map key (pending s))" unfolding pending_def using ok_heap [OF assms(2)] by (simp add: sorted_filter)
  then have "\<forall>x\<in>set (pending s). key e \<le> key x" using p by auto
  moreover have "e \<in> set (pending s)" using p by simp
  ultimately show ?thesis by (auto simp: pending_def)
qed

lemma take_none: "ok s \<Longrightarrow> take_next s = (None, s') \<Longrightarrow> \<forall>x\<in>set (heap s). \<not> live s x"
  using take_heap [of s None s'] by (simp add: pop_live_None filter_empty_conv)

text \<open>Taking again and again yields the pending entries in order.\<close>

fun drain :: "nat \<Rightarrow> 's \<Rightarrow> 'e list \<times> 's" where
  "drain 0 s = ([], s)"
| "drain (Suc n) s =
     (case take_next s of
        (None, s') \<Rightarrow> ([], s')
      | (Some e, s') \<Rightarrow> (case drain n s' of (es, s'') \<Rightarrow> (e # es, s'')))"

lemma drain_pending: "ok s \<Longrightarrow> fst (drain n s) = take n (pending s)"
proof (induction n arbitrary: s)
  case (Suc n)
  obtain r s' where t: "take_next s = (r, s')" by force
  note p = take_pending [OF t Suc.prems]
  show ?case
  proof (cases r)
    case None
    with p have "pending s = []" by (cases "pending s") auto
    with t None show ?thesis by simp
  next
    case (Some e)
    with p obtain es where "pending s = e # es" "pending s' = es" by (cases "pending s") auto
    moreover have "fst (drain n s') = take n (pending s')"
      by (rule Suc.IH) (rule take_ok [OF Suc.prems t])
    ultimately show ?thesis using t Some by (simp add: case_prod_unfold)
  qed
qed simp

end

end
