(* ===== verification/ScheduleQueue.thy ===== *)
theory ScheduleQueue
  imports ExecutionTypes HeapQueue
begin

text \<open>
  \<open>ScheduleRequest\<close> and \<open>PriorityScheduleQueue\<close> of \<open>vllm_apple/scheduler.py\<close>.  Every method runs
  under the queue's condition lock, so it is one step on the record \<open>schedule_queue\<close>; the uuid and
  the clock are arguments.  \<open>dequeue\<close> releases the lock while it waits: what other threads do during
  each wait, and the time left after it, is a list of wake-ups, and running out of wake-ups means
  that the call has not returned.
\<close>

section \<open>Requests\<close>

record schedule_request =
  sr_operator :: string
  sr_estimated_memory_bytes :: int
  sr_priority :: priority
  sr_batch_size :: int
  sr_phase :: "workload_phase option"
  sr_estimated_context_tokens :: int
  sr_precision :: "string option"
  sr_dimensions :: "int list"

definition schedule_request_ok :: "schedule_request \<Rightarrow> bool" where
  "schedule_request_ok r \<longleftrightarrow>
     0 \<le> sr_estimated_memory_bytes r \<and> 0 < sr_batch_size r \<and> 0 \<le> sr_estimated_context_tokens r
     \<and> sr_precision r \<noteq> Some [] \<and> length (sr_dimensions r) \<le> 8
     \<and> list_all (\<lambda>v. 0 < v) (sr_dimensions r)"

definition schedule_request_init :: "schedule_request \<Rightarrow> schedule_request result" where
  "schedule_request_init r =
     (if sr_estimated_memory_bytes r < 0 \<or> sr_batch_size r \<le> 0 \<or> sr_estimated_context_tokens r < 0
         \<or> sr_precision r = Some [] \<or> 8 < length (sr_dimensions r)
         \<or> list_ex (\<lambda>v. v \<le> 0) (sr_dimensions r)
      then Inl (ValueError ''invalid schedule request'') else Inr r)"

lemma schedule_request_init_iff [guards]:
  "schedule_request_init r = Inr r' \<longleftrightarrow> schedule_request_ok r \<and> r' = r"
  by (auto simp: schedule_request_init_def schedule_request_ok_def list_ex_iff list_all_iff not_le not_less)

section \<open>The queue\<close>

fun priority_rank :: "priority \<Rightarrow> int" where
  "priority_rank Realtime = 0"
| "priority_rank Interactive = 1"
| "priority_rank Normal = 2"
| "priority_rank Background = 3"

type_synonym heap_entry = "int \<times> int \<times> string"

abbreviation entry_token :: "heap_entry \<Rightarrow> string" where
  "entry_token e \<equiv> snd (snd e)"

abbreviation entry_sequence :: "heap_entry \<Rightarrow> int" where
  "entry_sequence e \<equiv> fst (snd e)"

record schedule_queue =
  sq_maximum :: int
  sq_sequence :: int
  sq_heap :: "heap_entry list"
  sq_requests :: "(string, schedule_request) dict"
  sq_enqueued_ns :: "(string, int) dict"
  sq_claimed :: "string set"
  sq_claim_entries :: "(string, int \<times> int \<times> schedule_request) dict"

definition new_schedule_queue :: "int \<Rightarrow> schedule_queue result" where
  "new_schedule_queue maximum =
     (if maximum \<le> 0 \<or> 65536 < maximum
      then Inl (ValueError ''maximum_requests must be between 1 and 65536'')
      else Inr \<lparr>sq_maximum = maximum, sq_sequence = 0, sq_heap = [], sq_requests = [],
                sq_enqueued_ns = [], sq_claimed = {}, sq_claim_entries = []\<rparr>)"

definition enqueue :: "string \<Rightarrow> int \<Rightarrow> schedule_request \<Rightarrow> schedule_queue \<Rightarrow> (string \<times> schedule_queue) result" where
  "enqueue token now request q =
     (if sq_maximum q \<le> int (length (sq_requests q)) + int (card (sq_claimed q))
      then Inl ScheduleQueueFullError
      else Inr (token,
        q\<lparr>sq_sequence := sq_sequence q + 1,
          sq_requests := AList.update token request (sq_requests q),
          sq_enqueued_ns := AList.update token now (sq_enqueued_ns q),
          sq_heap := insort (priority_rank (sr_priority request), sq_sequence q, token) (sq_heap q)\<rparr>))"

definition is_queued :: "schedule_queue \<Rightarrow> heap_entry \<Rightarrow> bool" where
  "is_queued q e \<longleftrightarrow> entry_token e \<in> set (keys (sq_requests q))"

definition compact_cancelled :: "schedule_queue \<Rightarrow> schedule_queue" where
  "compact_cancelled q =
     (if sq_requests q = [] then q\<lparr>sq_heap := []\<rparr>
      else if 2 * length (sq_requests q) + 64 < length (sq_heap q)
        then q\<lparr>sq_heap := filter (is_queued q) (sq_heap q)\<rparr>
      else q)"

definition drop_claim :: "string \<Rightarrow> schedule_queue \<Rightarrow> schedule_queue" where
  "drop_claim token q =
     q\<lparr>sq_claimed := sq_claimed q - {token},
       sq_claim_entries := AList.delete token (sq_claim_entries q),
       sq_enqueued_ns := AList.delete token (sq_enqueued_ns q)\<rparr>"

definition cancel_queued :: "string \<Rightarrow> schedule_queue \<Rightarrow> bool \<times> schedule_queue" where
  "cancel_queued token q =
     (if map_of (sq_requests q) token \<noteq> None
        then (True, compact_cancelled
                (q\<lparr>sq_requests := AList.delete token (sq_requests q),
                   sq_enqueued_ns := AList.delete token (sq_enqueued_ns q)\<rparr>))
      else if token \<in> sq_claimed q then (True, drop_claim token q)
      else (False, q))"

definition finish_claim :: "string \<Rightarrow> schedule_queue \<Rightarrow> bool \<times> schedule_queue" where
  "finish_claim token q =
     (if token \<notin> sq_claimed q then (False, q) else (True, drop_claim token q))"

definition claimed_wait_nanoseconds :: "string \<Rightarrow> int \<Rightarrow> schedule_queue \<Rightarrow> int" where
  "claimed_wait_nanoseconds token now q =
     (case map_of (sq_enqueued_ns q) token of None \<Rightarrow> 0 | Some started \<Rightarrow> max 0 (now - started))"

definition restore_claim :: "string \<Rightarrow> schedule_queue \<Rightarrow> bool \<times> schedule_queue" where
  "restore_claim token q =
     (case map_of (sq_claim_entries q) token of
        None \<Rightarrow> (False, q)
      | Some (rank, sequence, request) \<Rightarrow>
          if token \<notin> sq_claimed q
          then (False, q\<lparr>sq_claim_entries := AList.delete token (sq_claim_entries q)\<rparr>)
          else (True,
            q\<lparr>sq_claim_entries := AList.delete token (sq_claim_entries q),
              sq_claimed := sq_claimed q - {token},
              sq_requests := AList.update token request (sq_requests q),
              sq_heap := insort (rank, sequence, token) (sq_heap q)\<rparr>))"

text \<open>What happens to the entry the inner loop of \<open>dequeue\<close> and \<open>claim_head\<close> take.\<close>

definition claim_entry :: "heap_entry \<Rightarrow> schedule_queue \<Rightarrow> (string \<times> schedule_request) \<times> schedule_queue" where
  "claim_entry e q =
     (case e of (rank, sequence, token) \<Rightarrow>
        let request = the (map_of (sq_requests q) token)
        in ((token, request),
            q\<lparr>sq_requests := AList.delete token (sq_requests q),
              sq_claimed := insert token (sq_claimed q),
              sq_claim_entries := AList.update token (rank, sequence, request) (sq_claim_entries q)\<rparr>))"

definition poll :: "schedule_queue \<Rightarrow> (string \<times> schedule_request) option \<times> schedule_queue" where
  "poll q =
     (case pop_live (is_queued q) (sq_heap q) of
        (None, es) \<Rightarrow> (None, q\<lparr>sq_heap := es\<rparr>)
      | (Some e, es) \<Rightarrow>
          (case claim_entry e (q\<lparr>sq_heap := es\<rparr>) of (r, q') \<Rightarrow> (Some r, q')))"

datatype 'a wait_outcome = Returned 'a | Waiting

fun dequeue_loop ::
  "rat option \<Rightarrow> (rat \<times> (schedule_queue \<Rightarrow> schedule_queue)) list \<Rightarrow> schedule_queue
    \<Rightarrow> (string \<times> schedule_request) option wait_outcome \<times> schedule_queue" where
  "dequeue_loop timeout [] q =
     (case poll q of
        (Some r, q') \<Rightarrow> (Returned (Some r), q')
      | (None, q') \<Rightarrow> if timeout = Some 0 then (Returned None, q') else (Waiting, q'))"
| "dequeue_loop timeout ((remaining, others) # wakes) q =
     (case poll q of
        (Some r, q') \<Rightarrow> (Returned (Some r), q')
      | (None, q') \<Rightarrow>
          if timeout = Some 0 then (Returned None, q')
          else if timeout \<noteq> None \<and> remaining \<le> 0 then (Returned None, q')
          else dequeue_loop timeout wakes (others q'))"

definition dequeue ::
  "rat option \<Rightarrow> (rat \<times> (schedule_queue \<Rightarrow> schedule_queue)) list \<Rightarrow> schedule_queue
    \<Rightarrow> (string \<times> schedule_request) option wait_outcome result \<times> schedule_queue" where
  "dequeue timeout wakes q =
     (if (case timeout of None \<Rightarrow> False | Some t \<Rightarrow> t < 0)
      then (Inl (ValueError ''queue timeout must not be negative''), q)
      else (case dequeue_loop timeout wakes q of (r, q') \<Rightarrow> (Inr r, q')))"

definition peek :: "schedule_queue \<Rightarrow> (string \<times> schedule_request) option \<times> schedule_queue" where
  "peek q =
     (let es = drop_dead (is_queued q) (sq_heap q)
      in (case es of
            [] \<Rightarrow> None
          | e # _ \<Rightarrow> Some (entry_token e, the (map_of (sq_requests q) (entry_token e))),
          q\<lparr>sq_heap := es\<rparr>))"

definition claim_head :: "string \<Rightarrow> schedule_queue \<Rightarrow> (string \<times> schedule_request) option \<times> schedule_queue" where
  "claim_head token q =
     (case drop_dead (is_queued q) (sq_heap q) of
        [] \<Rightarrow> (None, q\<lparr>sq_heap := []\<rparr>)
      | e # es \<Rightarrow>
          if entry_token e \<noteq> token then (None, q\<lparr>sq_heap := e # es\<rparr>)
          else (case claim_entry e (q\<lparr>sq_heap := es\<rparr>) of (r, q') \<Rightarrow> (Some r, q')))"

record queue_counts =
  qc_queued :: int
  qc_dispatching :: int
  qc_capacity :: int
  qc_by_priority :: "priority \<Rightarrow> int"

definition queue_snapshot :: "schedule_queue \<Rightarrow> queue_counts" where
  "queue_snapshot q =
     \<lparr>qc_queued = int (length (sq_requests q)), qc_dispatching = int (card (sq_claimed q)),
      qc_capacity = sq_maximum q,
      qc_by_priority = (\<lambda>p. int (length (filter (\<lambda>(t, r). sr_priority r = p) (sq_requests q))))\<rparr>"

section \<open>The queue's invariant\<close>

text \<open>The heap is in order and free of duplicates; every queued request has its entry, with the
  rank of its priority; claims remember the entry they took, which is gone from the heap; sequence
  numbers are unique and below the counter; and the bound on the queue holds.\<close>

definition queue_ok :: "schedule_queue \<Rightarrow> bool" where
  "queue_ok q \<longleftrightarrow>
     sorted (sq_heap q) \<and> distinct (map entry_token (sq_heap q))
     \<and> distinct (map entry_sequence (sq_heap q))
     \<and> dict_ok (sq_requests q) \<and> dict_ok (sq_claim_entries q)
     \<and> sq_claimed q = set (keys (sq_claim_entries q))
     \<and> (\<forall>(t, r)\<in>set (sq_requests q). \<exists>n. (priority_rank (sr_priority r), n, t) \<in> set (sq_heap q))
     \<and> (\<forall>(t, k, n, r)\<in>set (sq_claim_entries q). k = priority_rank (sr_priority r)
          \<and> n < sq_sequence q \<and> (\<forall>e\<in>set (sq_heap q). entry_sequence e \<noteq> n \<and> entry_token e \<noteq> t))
     \<and> (\<forall>e\<in>set (sq_heap q). entry_sequence e < sq_sequence q)
     \<and> distinct (map (\<lambda>(t, k, n, r). n) (sq_claim_entries q))
     \<and> int (length (sq_requests q)) + int (length (sq_claim_entries q)) \<le> sq_maximum q
     \<and> int (length (sq_heap q)) \<le> int (length (sq_requests q)) + sq_maximum q + 64"

definition fresh_token :: "string \<Rightarrow> schedule_queue \<Rightarrow> bool" where
  "fresh_token t q \<longleftrightarrow> t \<notin> entry_token ` set (sq_heap q) \<and> t \<notin> sq_claimed q"

lemma queue_okD:
  assumes "queue_ok q"
  shows "sorted (sq_heap q)" "distinct (map entry_token (sq_heap q))"
    "distinct (map entry_sequence (sq_heap q))" "dict_ok (sq_requests q)" "dict_ok (sq_claim_entries q)"
    "sq_claimed q = set (keys (sq_claim_entries q))"
    "\<forall>(t, r)\<in>set (sq_requests q). \<exists>n. (priority_rank (sr_priority r), n, t) \<in> set (sq_heap q)"
    "\<forall>(t, k, n, r)\<in>set (sq_claim_entries q). k = priority_rank (sr_priority r)
          \<and> n < sq_sequence q \<and> (\<forall>e\<in>set (sq_heap q). entry_sequence e \<noteq> n \<and> entry_token e \<noteq> t)"
    "\<forall>e\<in>set (sq_heap q). entry_sequence e < sq_sequence q"
    "distinct (map (\<lambda>(t, k, n, r). n) (sq_claim_entries q))"
    "int (length (sq_requests q)) + int (length (sq_claim_entries q)) \<le> sq_maximum q"
    "int (length (sq_heap q)) \<le> int (length (sq_requests q)) + sq_maximum q + 64"
  by (insert assms [unfolded queue_ok_def], (elim conjE, assumption)+)

lemma claimed_card: "queue_ok q \<Longrightarrow> int (card (sq_claimed q)) = int (length (sq_claim_entries q))"
  using dict_card [of "sq_claim_entries q"] queue_okD(5,6) [of q] by simp

lemma new_schedule_queue_ok: "new_schedule_queue n = Inr q \<Longrightarrow> queue_ok q"
  by (auto simp: new_schedule_queue_def queue_ok_def split: if_splits)

lemma requests_in_heap: "queue_ok q \<Longrightarrow> set (keys (sq_requests q)) \<subseteq> entry_token ` set (sq_heap q)"
  using queue_okD(7) [of q] by force

lemma enqueue_ok:
  assumes "queue_ok q" and "fresh_token token q" and "enqueue token now request q = Inr (t, q')"
  shows "queue_ok q'"
proof -
  have new: "token \<notin> set (keys (sq_requests q))"
    using requests_in_heap [OF assms(1)] assms(2) by (auto simp: fresh_token_def)
  have room: "int (length (sq_requests q)) + int (length (sq_claim_entries q)) < sq_maximum q"
    using assms(3) claimed_card [OF assms(1)] by (auto simp: enqueue_def split: if_splits)
  have "set (AList.update token request (sq_requests q)) = insert (token, request) (set (sq_requests q))"
    using new by (simp add: update_fresh)
  moreover have "length (AList.update token request (sq_requests q)) = Suc (length (sq_requests q))"
    using new by (rule length_update_fresh)
  moreover have "distinct (keys (AList.update token request (sq_requests q)))"
    using assms(1) by (simp add: queue_ok_def dict_ok_update)
  moreover have q': "q' = q\<lparr>sq_sequence := sq_sequence q + 1,
          sq_requests := AList.update token request (sq_requests q),
          sq_enqueued_ns := AList.update token now (sq_enqueued_ns q),
          sq_heap := insort (priority_rank (sr_priority request), sq_sequence q, token) (sq_heap q)\<rparr>"
    using assms(3) by (auto simp: enqueue_def split: if_splits)
  ultimately show ?thesis
    using assms(1,2) room unfolding queue_ok_def q'
    apply (simp add: distinct_map_insort set_insort_key sorted_insort fresh_token_def)
    apply (intro conjI)
    apply (fastforce simp: image_iff)+
    done
qed

lemma queue_entry:
  "queue_ok q \<Longrightarrow> (t, r) \<in> set (sq_requests q) \<Longrightarrow>
   \<exists>n. (priority_rank (sr_priority r), n, t) \<in> set (sq_heap q)"
  using queue_okD(7) [of q] by auto

lemma entry_unique:
  "queue_ok q \<Longrightarrow> x \<in> set (sq_heap q) \<Longrightarrow> y \<in> set (sq_heap q) \<Longrightarrow> entry_token x = entry_token y \<Longrightarrow> x = y"
  using queue_okD(2) [of q] unfolding distinct_map inj_on_def by blast

lemma claim_not_in_heap:
  "queue_ok q \<Longrightarrow> e \<in> set (sq_heap q) \<Longrightarrow> entry_token e \<notin> fst ` set (sq_claim_entries q)"
  using queue_okD(8) [of q] by auto

lemma claim_facts:
  "queue_ok q \<Longrightarrow> (t, k, n, r) \<in> set (sq_claim_entries q) \<Longrightarrow> e \<in> set (sq_heap q) \<Longrightarrow>
   entry_sequence e \<noteq> n \<and> entry_token e \<noteq> t"
  using queue_okD(8) [of q] by fast

lemma claim_rank:
  "queue_ok q \<Longrightarrow> (t, k, n, r) \<in> set (sq_claim_entries q) \<Longrightarrow>
   k = priority_rank (sr_priority r) \<and> n < sq_sequence q"
  using queue_okD(8) [of q] by fast

text \<open>Entries and requests may disappear together.\<close>

lemma shrink_ok:
  assumes "queue_ok q" and "set es \<subseteq> set (sq_heap q)" and "sorted es"
    and "distinct (map entry_token es)" and "distinct (map entry_sequence es)"
    and "dict_ok rs" and "length rs \<le> length (sq_requests q)"
    and "\<forall>(t, r)\<in>set rs. \<exists>n. (priority_rank (sr_priority r), n, t) \<in> set es"
    and "int (length es) \<le> int (length rs) + sq_maximum q + 64"
  shows "queue_ok (q\<lparr>sq_heap := es, sq_requests := rs, sq_enqueued_ns := ts\<rparr>)"
  unfolding queue_ok_def using assms(2-9) queue_okD [OF assms(1)] by (auto; fastforce)

lemma finish_claim_ok:
  assumes "queue_ok q"
  shows "queue_ok (drop_claim t q)"
proof -
  note D = queue_okD [OF assms]
  have "fst ` {e \<in> set (sq_claim_entries q). fst e \<noteq> t} = fst ` set (sq_claim_entries q) - {t}" by auto
  then show ?thesis
    using D length_delete_le [of t "sq_claim_entries q"]
    unfolding queue_ok_def drop_claim_def
    by (simp add: set_delete dict_ok_delete distinct_map_delete)
qed

lemma cancel_queued_ok:
  assumes "queue_ok q"
  shows "queue_ok (snd (cancel_queued t q))"
proof (cases "map_of (sq_requests q) t")
  case None
  then show ?thesis using assms finish_claim_ok [OF assms, of t] by (simp add: cancel_queued_def)
next
  case (Some r)
  note D = queue_okD [OF assms]
  define rs where "rs = AList.delete t (sq_requests q)"
  define ts where "ts = AList.delete t (sq_enqueued_ns q)"
  define p where "p = q\<lparr>sq_requests := rs, sq_enqueued_ns := ts\<rparr>"
  have rs: "set rs \<subseteq> set (sq_requests q)" "dict_ok rs" "length rs \<le> length (sq_requests q)"
    using D(4) by (auto simp: rs_def set_delete dict_ok_delete length_delete_le)
  have live: "\<exists>n. (priority_rank (sr_priority r), n, u) \<in> set (filter (is_queued p) (sq_heap q))"
    if u: "(u, r) \<in> set rs" for u r
  proof -
    obtain n where "(priority_rank (sr_priority r), n, u) \<in> set (sq_heap q)"
      using queue_entry [OF assms] u rs(1) by blast
    moreover have "u \<in> fst ` set rs" using u by force
    ultimately show ?thesis by (auto simp: p_def is_queued_def)
  qed
  have kept: "\<forall>(u, r)\<in>set rs. \<exists>n. (priority_rank (sr_priority r), n, u) \<in> set (sq_heap q)"
    using queue_entry [OF assms] rs(1) by blast
  have filtered: "queue_ok (q\<lparr>sq_heap := filter (is_queued p) (sq_heap q), sq_requests := rs,
      sq_enqueued_ns := ts\<rparr>)"
  proof (rule shrink_ok [OF assms])
    show "sorted (filter (is_queued p) (sq_heap q))" by (rule sorted_wrt_filter [OF D(1)])
    have "length (filter (is_queued p) (sq_heap q)) = card (entry_token ` set (filter (is_queued p) (sq_heap q)))"
      using distinct_card [of "map entry_token (filter (is_queued p) (sq_heap q))"] D(2)
      by (simp add: distinct_map_filter)
    also have "\<dots> \<le> card (set (keys rs))"
      by (intro card_mono) (auto simp: p_def is_queued_def)
    also have "\<dots> \<le> length rs" using card_length [of "keys rs"] by simp
    finally show "int (length (filter (is_queued p) (sq_heap q))) \<le> int (length rs) + sq_maximum q + 64"
      using D(11) by linarith
  qed (use D rs live in \<open>auto simp: distinct_map_filter\<close>)
  have whole: "queue_ok p" if "length (sq_heap q) \<le> 2 * length rs + 64"
  proof -
    have "queue_ok (q\<lparr>sq_heap := sq_heap q, sq_requests := rs, sq_enqueued_ns := ts\<rparr>)"
      by (rule shrink_ok [OF assms]) (use D rs kept that in auto)
    then show ?thesis by (simp add: p_def)
  qed
  have empty: "queue_ok (p\<lparr>sq_heap := []\<rparr>)" if "rs = []"
  proof -
    have "queue_ok (q\<lparr>sq_heap := [], sq_requests := rs, sq_enqueued_ns := ts\<rparr>)"
      by (rule shrink_ok [OF assms]) (use D(11) that in auto)
    moreover have "p\<lparr>sq_heap := []\<rparr> = q\<lparr>sq_heap := [], sq_requests := rs, sq_enqueued_ns := ts\<rparr>"
      by (simp add: p_def)
    ultimately show ?thesis by (simp only:)
  qed
  have "snd (cancel_queued t q) = compact_cancelled p"
    using Some by (simp add: cancel_queued_def p_def rs_def ts_def)
  moreover have "p\<lparr>sq_heap := filter (is_queued p) (sq_heap q)\<rparr>
      = q\<lparr>sq_heap := filter (is_queued p) (sq_heap q), sq_requests := rs, sq_enqueued_ns := ts\<rparr>"
    by (simp add: p_def)
  with filtered have "queue_ok (p\<lparr>sq_heap := filter (is_queued p) (sq_heap q)\<rparr>)" by (simp only:)
  moreover have "sq_requests p = rs" "sq_heap p = sq_heap q" by (simp_all add: p_def)
  ultimately show ?thesis
    using whole empty by (simp add: compact_cancelled_def)
qed

text \<open>Taking an entry from the heap into a claim, after dropping dead entries before it.\<close>

lemma claim_entry_ok:
  assumes "queue_ok q" and "sq_heap q = dead @ e # es" and "is_queued q e"
    and "filter (is_queued q) dead = []"
  shows "queue_ok (snd (claim_entry e (q\<lparr>sq_heap := es\<rparr>)))"
proof -
  note D = queue_okD [OF assms(1)]
  obtain k n t where e: "e = (k, n, t)" by (cases e)
  obtain r where r: "map_of (sq_requests q) t = Some r"
    using assms(3) e by (cases "map_of (sq_requests q) t") (auto simp: is_queued_def map_of_eq_None_iff)
  then have mem: "(t, r) \<in> set (sq_requests q)" by (rule map_of_SomeD)
  have e_in: "e \<in> set (sq_heap q)" using assms(2) by simp
  obtain m where "(priority_rank (sr_priority r), m, t) \<in> set (sq_heap q)"
    using queue_entry [OF assms(1) mem] by blast
  from entry_unique [OF assms(1) this e_in] have k: "k = priority_rank (sr_priority r)"
    by (simp add: e)
  have es: "sorted es" "distinct (map entry_token es)" "distinct (map entry_sequence es)"
    "t \<notin> entry_token ` set es" "n \<notin> entry_sequence ` set es" "set es \<subseteq> set (sq_heap q)"
    using D(1-3) by (auto simp: assms(2) e sorted_append)
  define rs where "rs = AList.delete t (sq_requests q)"
  have none: "t \<notin> fst ` set (sq_claim_entries q)"
    using claim_not_in_heap [OF assms(1) e_in] by (simp add: e)
  have live: "\<exists>m. (priority_rank (sr_priority s), m, u) \<in> set es" if "(u, s) \<in> set rs" for u s
  proof -
    have u: "(u, s) \<in> set (sq_requests q)" "u \<noteq> t" using that by (auto simp: rs_def set_delete)
    then obtain m where m: "(priority_rank (sr_priority s), m, u) \<in> set (sq_heap q)"
      using queue_entry [OF assms(1)] by blast
    have "is_queued q (priority_rank (sr_priority s), m, u)"
      using u(1) by (force simp: is_queued_def)
    then have "(priority_rank (sr_priority s), m, u) \<notin> set dead"
      using assms(4) by (auto simp: filter_empty_conv)
    with m u(2) show ?thesis by (auto simp: assms(2) e)
  qed
  have "length (AList.delete t (sq_requests q)) + 1 = length (sq_requests q)"
    using length_delete [OF D(4), of t] mem by force
  then have len: "length rs + 1 = length (sq_requests q)" by (simp add: rs_def)
  have n: "n < sq_sequence q" "\<forall>(t, k, j, r)\<in>set (sq_claim_entries q). j \<noteq> n"
    using D(8,9) e_in by (fastforce simp: e)+
  have c: "AList.update t (k, n, r) (sq_claim_entries q) = sq_claim_entries q @ [(t, k, n, r)]"
    by (rule update_fresh) (use none in simp)
  have q': "snd (claim_entry e (q\<lparr>sq_heap := es\<rparr>)) =
      q\<lparr>sq_heap := es, sq_requests := rs, sq_claimed := insert t (sq_claimed q),
        sq_claim_entries := sq_claim_entries q @ [(t, k, n, r)]\<rparr>"
    by (simp add: claim_entry_def e r rs_def c)
  have claims: "\<forall>(u, j, m, s)\<in>set (sq_claim_entries q @ [(t, k, n, r)]).
      j = priority_rank (sr_priority s) \<and> m < sq_sequence q
      \<and> (\<forall>x\<in>set es. entry_sequence x \<noteq> m \<and> entry_token x \<noteq> u)"
  proof (rule ballI, clarify, intro conjI ballI)
    fix u j m s
    assume c: "(u, j, m, s) \<in> set (sq_claim_entries q @ [(t, k, n, r)])"
    show "j = priority_rank (sr_priority s)" "m < sq_sequence q"
      using c claim_rank [OF assms(1)] k n(1) by auto
    fix x
    assume "x \<in> set es"
    then show "entry_sequence x \<noteq> m" "entry_token x \<noteq> u"
      using c claim_facts [OF assms(1), of u j m s x] es(4-6) by auto
  qed
  have "distinct (map (\<lambda>(t, k, n, r). n) (sq_claim_entries q @ [(t, k, n, r)]))"
    using D(10) n(2) by auto
  then show ?thesis
    using D es none live claims len length_delete_le [of t "sq_requests q"]
    unfolding q' queue_ok_def
    by (auto simp: assms(2) rs_def dict_ok_delete)
qed

lemma poll_ok:
  assumes "queue_ok q"
  shows "queue_ok (snd (poll q))"
proof -
  note D = queue_okD [OF assms]
  obtain r es where p: "pop_live (is_queued q) (sq_heap q) = (r, es)" by force
  show ?thesis
  proof (cases r)
    case None
    with p have "filter (is_queued q) (sq_heap q) = []" and es: "es = []" by (simp_all add: pop_live_None)
    then have "sq_requests q = []"
      using requests_in_heap [OF assms]
      by (cases "sq_requests q") (auto simp: filter_empty_conv is_queued_def)
    then have "queue_ok (q\<lparr>sq_heap := [], sq_requests := sq_requests q, sq_enqueued_ns := sq_enqueued_ns q\<rparr>)"
      by (intro shrink_ok [OF assms]) (use D(11) in auto)
    then show ?thesis using p None es by (simp add: poll_def)
  next
    case (Some e)
    from pop_live_Some [OF p [unfolded Some]] obtain dead where
      "sq_heap q = dead @ e # es" "filter (is_queued q) dead = []" "is_queued q e" by blast
    from claim_entry_ok [OF assms this(1,3,2)] show ?thesis
      using p Some by (simp add: poll_def case_prod_unfold)
  qed
qed

lemma drop_dead_ok:
  assumes "queue_ok q"
  shows "queue_ok (q\<lparr>sq_heap := drop_dead (is_queued q) (sq_heap q)\<rparr>)"
proof -
  note D = queue_okD [OF assms]
  define es where "es = drop_dead (is_queued q) (sq_heap q)"
  obtain dead where dead: "sq_heap q = dead @ es"
    using drop_dead_suffix [of "sq_heap q" "is_queued q"] by (auto simp: es_def)
  have "filter (is_queued q) (sq_heap q) = filter (is_queued q) es" by (simp add: es_def)
  then have same: "e \<in> set es" if "e \<in> set (sq_heap q)" "is_queued q e" for e
  proof -
    have "e \<in> set (filter (is_queued q) (sq_heap q))" using that by simp
    then have "e \<in> set (filter (is_queued q) es)"
      by (simp only: es_def drop_dead_filter)
    then show ?thesis by simp
  qed
  have "\<forall>(t, r)\<in>set (sq_requests q). \<exists>n. (priority_rank (sr_priority r), n, t) \<in> set es"
    using queue_entry [OF assms] by (force simp: is_queued_def intro: same)
  then have "queue_ok (q\<lparr>sq_heap := es, sq_requests := sq_requests q, sq_enqueued_ns := sq_enqueued_ns q\<rparr>)"
    by (intro shrink_ok [OF assms]) (use D in \<open>auto simp: dead sorted_append\<close>)
  then show ?thesis by (simp add: es_def)
qed

lemma peek_ok: "queue_ok q \<Longrightarrow> queue_ok (snd (peek q))"
  using drop_dead_ok by (simp add: peek_def Let_def)

lemma claim_head_ok:
  assumes "queue_ok q"
  shows "queue_ok (snd (claim_head t q))"
proof (cases "drop_dead (is_queued q) (sq_heap q)")
  case Nil
  then show ?thesis using drop_dead_ok [OF assms] by (simp add: claim_head_def)
next
  case (Cons e es)
  define p where "p = q\<lparr>sq_heap := e # es\<rparr>"
  have p: "queue_ok p" using drop_dead_ok [OF assms] Cons by (simp add: p_def)
  have "is_queued q e" using drop_dead_hd(2) [OF Cons] by simp
  then have "queue_ok (snd (claim_entry e (p\<lparr>sq_heap := es\<rparr>)))"
    by (intro claim_entry_ok [OF p, of "[]"]) (simp_all add: p_def is_queued_def)
  then show ?thesis using Cons p by (simp add: claim_head_def p_def case_prod_unfold)
qed

lemma restore_claim_ok:
  assumes "queue_ok q"
  shows "queue_ok (snd (restore_claim t q))"
proof (cases "map_of (sq_claim_entries q) t")
  case None
  then show ?thesis using assms by (simp add: restore_claim_def)
next
  case (Some entry)
  note D = queue_okD [OF assms]
  obtain k n r where entry: "entry = (k, n, r)" by (cases entry)
  have mem: "(t, k, n, r) \<in> set (sq_claim_entries q)" using Some entry by (auto dest: map_of_SomeD)
  then have t: "t \<in> sq_claimed q" using D(6) by force
  have facts: "k = priority_rank (sr_priority r)" "n < sq_sequence q"
    "n \<notin> entry_sequence ` set (sq_heap q)" "t \<notin> entry_token ` set (sq_heap q)"
    using D(8) mem by fastforce+
  have new: "t \<notin> fst ` set (sq_requests q)"
    using queue_entry [OF assms] facts(4) by force
  define cs where "cs = AList.delete t (sq_claim_entries q)"
  have cs: "set cs = {e \<in> set (sq_claim_entries q). fst e \<noteq> t}" "dict_ok cs"
    "distinct (map (\<lambda>(t, k, n, r). n) cs)" "length cs + 1 = length (sq_claim_entries q)"
    using D(5,10) length_delete [OF D(5), of t] mem
    by (force simp: cs_def set_delete dict_ok_delete distinct_map_delete)+
  have others: "m \<noteq> n" if "(u, j, m, s) \<in> set cs" for u j m s
    using that D(10) mem unfolding cs(1) distinct_map inj_on_def by force
  have u: "AList.update t r (sq_requests q) = sq_requests q @ [(t, r)]"
    by (rule update_fresh) (use new in simp)
  have claimed: "sq_claimed q - {t} = fst ` set cs" using D(6) by (auto simp: cs(1))
  have q': "snd (restore_claim t q) = q\<lparr>sq_claim_entries := cs, sq_claimed := sq_claimed q - {t},
      sq_requests := sq_requests q @ [(t, r)], sq_heap := insort (k, n, t) (sq_heap q)\<rparr>"
    using Some t by (simp add: restore_claim_def entry cs_def u)
  have claims: "\<forall>(v, j, m, s)\<in>set cs. j = priority_rank (sr_priority s) \<and> m < sq_sequence q
      \<and> (\<forall>x\<in>insert (k, n, t) (set (sq_heap q)). entry_sequence x \<noteq> m \<and> entry_token x \<noteq> v)"
    using D(8) others by (fastforce simp: cs(1))
  have reqs: "\<forall>(v, s)\<in>set (sq_requests q @ [(t, r)]).
      \<exists>m. (priority_rank (sr_priority s), m, v) \<in> insert (k, n, t) (set (sq_heap q))"
    using D(7) facts(1) by auto
  show ?thesis
    unfolding q' queue_ok_def
    using D(1-4,9,11,12) cs(2-4) facts(2-4) new claims reqs
    by (simp add: distinct_map_insort set_insort_key sorted_insort claimed)
qed

lemma queue_nonempty:
  assumes "queue_ok q"
  shows "filter (is_queued q) (sq_heap q) = [] \<longleftrightarrow> sq_requests q = []"
proof
  assume empty: "filter (is_queued q) (sq_heap q) = []"
  show "sq_requests q = []"
  proof (rule ccontr)
    assume "sq_requests q \<noteq> []"
    then obtain t r where tr: "(t, r) \<in> set (sq_requests q)" by (cases "sq_requests q") auto
    then obtain n where "(priority_rank (sr_priority r), n, t) \<in> set (sq_heap q)"
      using queue_entry [OF assms] by blast
    then have "\<not> is_queued q (priority_rank (sr_priority r), n, t)"
      using empty by (auto simp: filter_empty_conv)
    then show False using tr by (force simp: is_queued_def)
  qed
qed (simp add: is_queued_def)

section \<open>The queue as a lazy heap\<close>

definition take_entry :: "schedule_queue \<Rightarrow> heap_entry option \<times> schedule_queue" where
  "take_entry q =
     (case pop_live (is_queued q) (sq_heap q) of
        (None, es) \<Rightarrow> (None, q\<lparr>sq_heap := es\<rparr>)
      | (Some e, es) \<Rightarrow> (Some e, snd (claim_entry e (q\<lparr>sq_heap := es\<rparr>))))"

lemma claim_entry_eq:
  "claim_entry e q =
     ((entry_token e, the (map_of (sq_requests q) (entry_token e))),
      q\<lparr>sq_requests := AList.delete (entry_token e) (sq_requests q),
        sq_claimed := insert (entry_token e) (sq_claimed q),
        sq_claim_entries := AList.update (entry_token e)
          (fst e, entry_sequence e, the (map_of (sq_requests q) (entry_token e))) (sq_claim_entries q)\<rparr>)"
  by (simp add: claim_entry_def case_prod_unfold Let_def)

lemma poll_take:
  "poll q = (case take_entry q of
     (None, q') \<Rightarrow> (None, q')
   | (Some e, q') \<Rightarrow> (Some (entry_token e, the (map_of (sq_requests q) (entry_token e))), q'))"
  by (simp add: poll_def take_entry_def claim_entry_eq case_prod_unfold split: option.split)

lemma poll_None: "fst (poll q) = None \<longleftrightarrow> filter (is_queued q) (sq_heap q) = []"
proof -
  obtain r es where p: "pop_live (is_queued q) (sq_heap q) = (r, es)" by force
  show ?thesis
  proof (cases r)
    case None
    then have "filter (is_queued q) (sq_heap q) = []" using p pop_live_None by blast
    moreover have "fst (poll q) = None" using p None by (simp add: poll_def)
    ultimately show ?thesis by simp
  next
    case (Some e)
    from pop_live_Some [OF p [unfolded Some]] show ?thesis
      using p Some by (simp add: poll_def case_prod_unfold)
  qed
qed

lemma poll_Some:
  assumes "poll q = (Some (t, r), q')"
  obtains dead e es where "sq_heap q = dead @ e # es" "filter (is_queued q) dead = []"
    "is_queued q e" "entry_token e = t" "map_of (sq_requests q) t = Some r"
    "q' = snd (claim_entry e (q\<lparr>sq_heap := es\<rparr>))" "take_entry q = (Some e, q')"
proof -
  obtain x es where p: "pop_live (is_queued q) (sq_heap q) = (x, es)" by force
  then obtain e where e: "x = Some e" using assms by (cases x) (simp_all add: poll_def)
  from pop_live_Some [OF p [unfolded e]] obtain dead where d: "sq_heap q = dead @ e # es"
    "filter (is_queued q) dead = []" "is_queued q e" by blast
  have r: "entry_token e = t" "r = the (map_of (sq_requests q) t)"
    "q' = snd (claim_entry e (q\<lparr>sq_heap := es\<rparr>))"
    using assms p e by (auto simp: poll_def claim_entry_eq)
  have "map_of (sq_requests q) t = Some r"
    using d(3) r(1,2) by (cases "map_of (sq_requests q) t") (auto simp: is_queued_def map_of_eq_None_iff)
  moreover have "take_entry q = (Some e, q')" using p e r(3) by (simp add: take_entry_def)
  ultimately show ?thesis using that d r by blast
qed

lemma claim_entry_fields:
  "sq_heap (snd (claim_entry e q)) = sq_heap q"
  "sq_requests (snd (claim_entry e q)) = AList.delete (entry_token e) (sq_requests q)"
  by (simp_all add: claim_entry_eq case_prod_unfold)

text \<open>Taking an entry and giving it back.\<close>

lemma restore_undoes_claim:
  assumes "queue_ok q" and dead: "sq_heap q = dead @ e # es" "filter (is_queued q) dead = []" "is_queued q e"
    and t: "entry_token e = t" and some: "map_of (sq_requests q) t = Some r"
    and q': "q' = snd (claim_entry e (q\<lparr>sq_heap := es\<rparr>))"
  shows "fst (restore_claim t q')
    \<and> filter (is_queued (snd (restore_claim t q'))) (sq_heap (snd (restore_claim t q')))
        = filter (is_queued q) (sq_heap q)
    \<and> map_of (sq_requests (snd (restore_claim t q'))) = map_of (sq_requests q)
    \<and> sq_claimed (snd (restore_claim t q')) = sq_claimed q"
proof -
  note D = queue_okD [OF assms(1)]
  obtain k n where e: "e = (k, n, t)" using t by (cases e) auto
  have in_heap: "e \<in> set (sq_heap q)" by (simp add: dead(1))
  have unclaimed: "t \<notin> fst ` set (sq_claim_entries q)"
    using claim_not_in_heap [OF assms(1) in_heap] t by simp
  then have un: "t \<notin> sq_claimed q" using D(6) by simp
  have claim: "map_of (sq_claim_entries q') t = Some (k, n, r)" "t \<in> sq_claimed q'"
    by (simp_all add: q' claim_entry_eq e some update_conv')
  have insort: "insort e es = e # es"
    using D(1) by (cases es) (auto simp: dead(1) sorted_append)
  have keys: "set (keys (AList.update t r (AList.delete t (sq_requests q)))) = set (keys (sq_requests q))"
    using map_of_Some_keys [OF some] by (simp only: keys_update keys_delete) blast
  define q'' where "q'' = snd (restore_claim t q')"
  have q'': "sq_heap q'' = e # es" "sq_requests q'' = AList.update t r (AList.delete t (sq_requests q))"
    "sq_claimed q'' = sq_claimed q"
    using claim un insort by (simp_all add: q''_def restore_claim_def q' claim_entry_eq e some)
  have "is_queued q'' = is_queued q" using keys by (simp add: is_queued_def q''(2) fun_eq_iff)
  then have "filter (is_queued q'') (sq_heap q'') = filter (is_queued q) (sq_heap q)"
    by (simp add: q''(1) dead(1,2))
  moreover have "map_of (sq_requests q'') = map_of (sq_requests q)"
    using some by (auto simp: q''(2) update_conv' delete_conv' fun_eq_iff)
  moreover have "fst (restore_claim t q')" using claim by (simp add: restore_claim_def)
  ultimately show ?thesis using q''(3) by (simp add: q''_def)
qed

lemma drop_dead_split: "\<exists>dead. es = dead @ drop_dead live es \<and> filter live dead = []"
proof (induction es)
  case (Cons x es)
  then obtain dead where "es = dead @ drop_dead live es" "filter live dead = []" by blast
  then have "x # es = (if live x then [] else x # dead) @ drop_dead live (x # es)
      \<and> filter live (if live x then [] else x # dead) = []" by auto
  then show ?case by blast
qed simp

lemma claim_head_Some:
  assumes "claim_head t q = (Some (t', r), q')"
  obtains dead e es where "sq_heap q = dead @ e # es" "filter (is_queued q) dead = []"
    "is_queued q e" "entry_token e = t" "t' = t" "map_of (sq_requests q) t = Some r"
    "q' = snd (claim_entry e (q\<lparr>sq_heap := es\<rparr>))"
proof -
  obtain e es where d: "drop_dead (is_queued q) (sq_heap q) = e # es"
    using assms by (cases "drop_dead (is_queued q) (sq_heap q)") (simp_all add: claim_head_def)
  obtain dead where dead: "sq_heap q = dead @ e # es" "filter (is_queued q) dead = []"
    using drop_dead_split [of "sq_heap q" "is_queued q"] d by auto
  have live: "is_queued q e" using drop_dead_hd(2) [OF d] by blast
  have r: "entry_token e = t" "t' = t" "r = the (map_of (sq_requests q) t)"
    "q' = snd (claim_entry e (q\<lparr>sq_heap := es\<rparr>))"
    using assms d by (auto simp: claim_head_def claim_entry_eq split: if_splits)
  have "map_of (sq_requests q) t = Some r"
    using live r(1,3) by (cases "map_of (sq_requests q) t") (auto simp: is_queued_def map_of_eq_None_iff)
  with that dead live r show ?thesis by blast
qed

lemma claim_head_restored:
  assumes "queue_ok q" and "claim_head t q = (Some c, q')"
  shows "filter (is_queued (snd (restore_claim t q'))) (sq_heap (snd (restore_claim t q')))
        = filter (is_queued q) (sq_heap q)
    \<and> map_of (sq_requests (snd (restore_claim t q'))) = map_of (sq_requests q)
    \<and> sq_claimed (snd (restore_claim t q')) = sq_claimed q"
proof -
  obtain t' r where c: "claim_head t q = (Some (t', r), q')" using assms(2) by (cases c) auto
  show ?thesis
    by (rule claim_head_Some [OF c]) (use restore_undoes_claim [OF assms(1)] in blast)
qed

lemma distinct_heap: "queue_ok q \<Longrightarrow> distinct (sq_heap q)"
  using queue_okD(2) [of q] by (simp add: distinct_map)

interpretation queue: lazy_heap queue_ok sq_heap id is_queued take_entry
proof unfold_locales
  fix q :: schedule_queue and r q' e
  show "queue_ok q \<Longrightarrow> sorted (map id (sq_heap q)) \<and> distinct (sq_heap q)"
    by (simp add: queue_okD(1) distinct_heap)
  assume t: "take_entry q = (r, q')"
  show "queue_ok q \<Longrightarrow> queue_ok q'"
    using poll_ok [of q] t by (auto simp: poll_take split: option.splits)
  obtain x es where p: "pop_live (is_queued q) (sq_heap q) = (x, es)" by force
  then show "pop_live (is_queued q) (sq_heap q) = (r, sq_heap q')"
    using t by (auto simp: take_entry_def claim_entry_fields split: option.splits)
  assume ok: "queue_ok q" and e: "e \<in> set (sq_heap q')"
  show "is_queued q' e = (is_queued q e \<and> r \<noteq> Some e)"
  proof (cases x)
    case None
    with p have "es = []" by (simp add: pop_live_None)
    then show ?thesis using t p None e by (auto simp: take_entry_def)
  next
    case (Some y)
    then have r: "r = Some y" "sq_heap q' = es" "sq_requests q' = AList.delete (entry_token y) (sq_requests q)"
      using t p by (auto simp: take_entry_def claim_entry_fields)
    from pop_live_Some [OF p [unfolded Some]] obtain dead where "sq_heap q = dead @ y # es" by blast
    then have "entry_token e = entry_token y \<longleftrightarrow> e = y"
      using entry_unique [OF ok, of e y] e r(2) by auto
    then show ?thesis using keys_delete [of "entry_token y" "sq_requests q"] r
      by (auto simp: is_queued_def)
  qed
qed

section \<open>Reachable queues\<close>

inductive queue_reachable :: "int \<Rightarrow> schedule_queue \<Rightarrow> bool" for maximum where
  start: "new_schedule_queue maximum = Inr q \<Longrightarrow> queue_reachable maximum q"
| enqueue: "queue_reachable maximum q \<Longrightarrow> fresh_token token q \<Longrightarrow>
    enqueue token now request q = Inr (t, q') \<Longrightarrow> queue_reachable maximum q'"
| cancel: "queue_reachable maximum q \<Longrightarrow> queue_reachable maximum (snd (cancel_queued t q))"
| finish: "queue_reachable maximum q \<Longrightarrow> queue_reachable maximum (snd (finish_claim t q))"
| restore: "queue_reachable maximum q \<Longrightarrow> queue_reachable maximum (snd (restore_claim t q))"
| poll: "queue_reachable maximum q \<Longrightarrow> queue_reachable maximum (snd (poll q))"
| peek: "queue_reachable maximum q \<Longrightarrow> queue_reachable maximum (snd (peek q))"
| claim: "queue_reachable maximum q \<Longrightarrow> queue_reachable maximum (snd (claim_head t q))"

lemma claim_entry_maximum: "sq_maximum (snd (claim_entry e q)) = sq_maximum q"
  by (simp add: claim_entry_eq case_prod_unfold)

lemma queue_maximum_kept:
  "sq_maximum (snd (cancel_queued t q)) = sq_maximum q"
  "sq_maximum (snd (finish_claim t q)) = sq_maximum q"
  "sq_maximum (snd (restore_claim t q)) = sq_maximum q"
  "sq_maximum (snd (poll q)) = sq_maximum q"
  "sq_maximum (snd (peek q)) = sq_maximum q"
  "sq_maximum (snd (claim_head t q)) = sq_maximum q"
  by (simp_all add: cancel_queued_def finish_claim_def restore_claim_def poll_def peek_def
      claim_head_def compact_cancelled_def drop_claim_def claim_entry_maximum Let_def case_prod_unfold
      split: option.split list.split)

lemma finish_ok: "queue_ok q \<Longrightarrow> queue_ok (snd (finish_claim t q))"
  by (simp add: finish_claim_def finish_claim_ok)

lemma queue_reachable_ok: "queue_reachable maximum q \<Longrightarrow> queue_ok q \<and> sq_maximum q = maximum"
proof (induction rule: queue_reachable.induct)
  case (start q)
  then show ?case
    using new_schedule_queue_ok by (auto simp: new_schedule_queue_def split: if_splits)
next
  case (enqueue q token now request t q')
  have "sq_maximum q' = sq_maximum q"
    using enqueue.hyps(3) by (auto simp: enqueue_def split: if_splits)
  then show ?case using enqueue.IH enqueue_ok [OF _ enqueue.hyps(2,3)] by simp
qed (simp_all add: queue_maximum_kept cancel_queued_ok finish_ok restore_claim_ok poll_ok peek_ok
    claim_head_ok)

section \<open>Properties\<close>

text \<open>C35: the queue stays bounded.  Whatever sequence of enqueues, cancels, claims, restores and
  finished claims it has been through, the queued and the claimed requests together never exceed
  the configured maximum, an enqueue is refused exactly at the maximum, and the heap with its
  cancelled entries never holds more than twice the maximum plus 64 entries.\<close>

theorem schedule_queue_bounded:
  assumes "queue_reachable maximum q"
  shows "qc_queued (queue_snapshot q) + qc_dispatching (queue_snapshot q) \<le> maximum
    \<and> int (length (sq_heap q)) \<le> 2 * maximum + 64
    \<and> (enqueue token now request q = Inl ScheduleQueueFullError
         \<longleftrightarrow> qc_queued (queue_snapshot q) + qc_dispatching (queue_snapshot q) = maximum)"
proof -
  have ok: "queue_ok q" and m: "sq_maximum q = maximum" using queue_reachable_ok [OF assms] by auto
  show ?thesis
    using queue_okD(11,12) [OF ok] claimed_card [OF ok] m
    by (auto simp: queue_snapshot_def enqueue_def)
qed

text \<open>Giving a claim back undoes it.  After a poll, restoring the claim puts the request back at
  its old place: the queued entries, their order, the requests and the claims are what they were,
  so a request blocked on capacity does not lose its turn.\<close>
theorem restore_claim_undoes_poll:
  assumes "queue_ok q" and "poll q = (Some (t, r), q')"
  shows "fst (restore_claim t q')
    \<and> filter (is_queued (snd (restore_claim t q'))) (sq_heap (snd (restore_claim t q')))
        = filter (is_queued q) (sq_heap q)
    \<and> map_of (sq_requests (snd (restore_claim t q'))) = map_of (sq_requests q)
    \<and> sq_claimed (snd (restore_claim t q')) = sq_claimed q"
  by (rule poll_Some [OF assms(2)]) (rule restore_undoes_claim [OF assms(1)])

text \<open>A dequeue does not wait while something is queued, and with a timeout it returns: with a
  queued request it returns at once; a zero timeout never waits; and otherwise it returns at the
  latest at the first wake-up after the deadline, whatever other threads do in between.\<close>
theorem dequeue_returns:
  assumes "queue_ok q"
  shows "(sq_requests q \<noteq> [] \<longrightarrow> (\<exists>t r. fst (dequeue_loop timeout wakes q) = Returned (Some (t, r))
              \<and> map_of (sq_requests q) t = Some r))
    \<and> fst (dequeue_loop (Some 0) wakes q) \<noteq> Waiting
    \<and> (list_ex (\<lambda>(remaining, others). remaining \<le> 0) wakes \<longrightarrow>
        fst (dequeue_loop (Some limit) wakes q) \<noteq> Waiting)"
proof -
  have "\<exists>t r q'. poll q = (Some (t, r), q') \<and> map_of (sq_requests q) t = Some r" if "sq_requests q \<noteq> []"
  proof -
    have "fst (poll q) \<noteq> None" using queue_nonempty [OF assms] that by (simp add: poll_None)
    then obtain t r q' where p: "poll q = (Some (t, r), q')"
      by (metis option.exhaust prod.exhaust prod.collapse)
    then have "map_of (sq_requests q) t = Some r" by (rule poll_Some)
    with p show ?thesis by blast
  qed
  then have "sq_requests q \<noteq> [] \<longrightarrow> (\<exists>t r. fst (dequeue_loop timeout wakes q) = Returned (Some (t, r))
              \<and> map_of (sq_requests q) t = Some r)"
    by (cases wakes) auto
  moreover have "fst (dequeue_loop (Some 0) wakes q) \<noteq> Waiting"
    by (cases wakes) (auto split: prod.splits option.splits)
  moreover have "list_ex (\<lambda>(remaining, others). remaining \<le> 0) ws \<longrightarrow>
      fst (dequeue_loop (Some limit) ws p) \<noteq> Waiting" for ws p
    by (induction ws arbitrary: p) (auto split: prod.splits option.splits)
  ultimately show ?thesis by blast
qed

section \<open>Witnesses\<close>

definition example_schedule_request :: "priority \<Rightarrow> schedule_request" where
  "example_schedule_request p =
     \<lparr>sr_operator = ''matmul'', sr_estimated_memory_bytes = 64, sr_priority = p, sr_batch_size = 1,
      sr_phase = None, sr_estimated_context_tokens = 0, sr_precision = None, sr_dimensions = []\<rparr>"

definition example_queue :: schedule_queue where
  "example_queue =
     \<lparr>sq_maximum = 2, sq_sequence = 2, sq_heap = [(1, 1, ''b''), (2, 0, ''a'')],
      sq_requests = [(''a'', example_schedule_request Normal), (''b'', example_schedule_request Interactive)],
      sq_enqueued_ns = [(''a'', 10), (''b'', 20)], sq_claimed = {}, sq_claim_entries = []\<rparr>"

lemma example_queue_reachable: "queue_reachable 2 example_queue"
proof -
  let ?q0 = "\<lparr>sq_maximum = 2, sq_sequence = 0, sq_heap = [], sq_requests = [],
                sq_enqueued_ns = [], sq_claimed = {}, sq_claim_entries = []\<rparr>"
  let ?q1 = "?q0\<lparr>sq_sequence := 1, sq_heap := [(2, 0, ''a'')],
     sq_requests := [(''a'', example_schedule_request Normal)], sq_enqueued_ns := [(''a'', 10)]\<rparr>"
  have r0: "queue_reachable 2 ?q0" by (rule queue_reachable.start) (simp add: new_schedule_queue_def)
  have e1: "enqueue ''a'' 10 (example_schedule_request Normal) ?q0 = Inr (''a'', ?q1)"
    by (simp add: enqueue_def example_schedule_request_def)
  have r1: "queue_reachable 2 ?q1"
    by (rule queue_reachable.enqueue [OF r0 _ e1]) (simp add: fresh_token_def)
  have e2: "enqueue ''b'' 20 (example_schedule_request Interactive) ?q1 = Inr (''b'', example_queue)"
    by (simp add: enqueue_def example_schedule_request_def example_queue_def)
  show ?thesis
    by (rule queue_reachable.enqueue [OF r1 _ e2]) (simp add: fresh_token_def)
qed

lemma example_queue_ok: "queue_ok example_queue"
  using queue_reachable_ok [OF example_queue_reachable] by simp

lemma example_poll:
  "\<exists>q'. poll example_queue = (Some (''b'', example_schedule_request Interactive), q')"
  by (simp add: poll_def example_queue_def is_queued_def claim_entry_eq)

theorem schedule_queue_bounded_witness:
  "enqueue ''c'' 30 (example_schedule_request Realtime) example_queue = Inl ScheduleQueueFullError"
  using schedule_queue_bounded [OF example_queue_reachable, of "''c''" 30 "example_schedule_request Realtime"]
  by (simp add: queue_snapshot_def example_queue_def)

theorem restore_claim_undoes_poll_witness:
  "\<exists>q'. poll example_queue = (Some (''b'', example_schedule_request Interactive), q')
     \<and> fst (restore_claim ''b'' q')
     \<and> sq_claimed (snd (restore_claim ''b'' q')) = {}"
proof -
  obtain q' where p: "poll example_queue = (Some (''b'', example_schedule_request Interactive), q')"
    using example_poll by blast
  show ?thesis
    using restore_claim_undoes_poll [OF example_queue_ok p] p by (simp add: example_queue_def)
qed

theorem dequeue_returns_witness:
  "\<exists>t r. fst (dequeue_loop None [] example_queue) = Returned (Some (t, r))"
  using dequeue_returns [OF example_queue_ok, of None "[]"] by (auto simp: example_queue_def)

end
