(* ===== verification/QueueOrder.thy ===== *)
theory QueueOrder
  imports ScheduleQueue
begin

text \<open>
  The order in which \<open>PriorityScheduleQueue\<close> (\<open>vllm_apple/scheduler.py\<close>) serves requests, stated without
  the heap: the accepted requests are listed as they arrived, and \<open>service_order\<close> sorts those that
  wait by class, keeping the order of arrival within a class.  The code's ranks, sequence numbers, lazily deleted
  heap entries and restored claims refine that list.
\<close>

section \<open>The reference queue\<close>

definition service_order :: "(string \<times> schedule_request) list \<Rightarrow> (string \<times> schedule_request) list" where
  "service_order waiting =
     concat (map (\<lambda>p. filter (\<lambda>a. sr_priority (snd a) = p) waiting) [Realtime, Interactive, Normal, Background])"

abbreviation answered :: "(string \<times> schedule_request) option \<Rightarrow> string set" where
  "answered x \<equiv> fst ` set_option x"

text \<open>Every sequence of calls, with the requests in the order \<open>enqueue\<close> accepted them, the tokens that
  wait and those that are claimed.  Tokens are fresh, as \<open>uuid4\<close> makes them.\<close>

inductive queue_history :: "schedule_queue \<Rightarrow> (string \<times> schedule_request) list \<Rightarrow> string set \<Rightarrow> string set \<Rightarrow> bool" where
  created: "new_schedule_queue maximum = Inr q \<Longrightarrow> queue_history q [] {} {}"
| enqueued: "queue_history q arrived waiting claimed \<Longrightarrow> token \<notin> fst ` set arrived \<Longrightarrow>
    enqueue token now request q = Inr (token, q') \<Longrightarrow>
    queue_history q' (arrived @ [(token, request)]) (insert token waiting) claimed"
| polled: "queue_history q arrived waiting claimed \<Longrightarrow> poll q = (x, q') \<Longrightarrow>
    queue_history q' arrived (waiting - answered x) (claimed \<union> answered x)"
| head_claimed: "queue_history q arrived waiting claimed \<Longrightarrow> claim_head t q = (x, q') \<Longrightarrow>
    queue_history q' arrived (waiting - answered x) (claimed \<union> answered x)"
| peeked: "queue_history q arrived waiting claimed \<Longrightarrow> queue_history (snd (peek q)) arrived waiting claimed"
| cancelled: "queue_history q arrived waiting claimed \<Longrightarrow>
    queue_history (snd (cancel_queued t q)) arrived (waiting - {t}) (claimed - {t})"
| finished: "queue_history q arrived waiting claimed \<Longrightarrow>
    queue_history (snd (finish_claim t q)) arrived waiting (claimed - {t})"
| restored: "queue_history q arrived waiting claimed \<Longrightarrow>
    queue_history (snd (restore_claim t q)) arrived (waiting \<union> ({t} \<inter> claimed)) (claimed - {t})"

fun polls :: "nat \<Rightarrow> schedule_queue \<Rightarrow> (string \<times> schedule_request) list" where
  "polls 0 q = []"
| "polls (Suc k) q = (case poll q of (None, q') \<Rightarrow> [] | (Some a, q') \<Rightarrow> a # polls k q')"

section \<open>Sequence numbers are places in the order of arrival\<close>

definition arrival_ok :: "schedule_queue \<Rightarrow> (string \<times> schedule_request) list \<Rightarrow> bool" where
  "arrival_ok q arrived \<longleftrightarrow> queue_ok q \<and> sq_sequence q = int (length arrived) \<and> distinct (map fst arrived)
     \<and> (\<forall>(k, n, t)\<in>set (sq_heap q). 0 \<le> n \<and> nat n < length arrived \<and> fst (arrived ! nat n) = t)
     \<and> set (sq_requests q) \<subseteq> set arrived
     \<and> (\<forall>(t, k, n, r)\<in>set (sq_claim_entries q). 0 \<le> n \<and> nat n < length arrived \<and> arrived ! nat n = (t, r))"

lemma arrival_okD:
  assumes "arrival_ok q arrived"
  shows "queue_ok q" "sq_sequence q = int (length arrived)" "distinct (map fst arrived)"
    "(k, n, t) \<in> set (sq_heap q) \<Longrightarrow> 0 \<le> n \<and> nat n < length arrived \<and> fst (arrived ! nat n) = t"
    "set (sq_requests q) \<subseteq> set arrived"
    "(t, k, n, r) \<in> set (sq_claim_entries q) \<Longrightarrow> 0 \<le> n \<and> nat n < length arrived \<and> arrived ! nat n = (t, r)"
  using assms by (auto simp: arrival_ok_def)

lemma arrival_place:
  assumes "arrival_ok q arrived" and "(k, n, t) \<in> set (sq_heap q)" and "(t, r) \<in> set (sq_requests q)"
  shows "arrived ! nat n = (t, r) \<and> k = priority_rank (sr_priority r)"
proof -
  note A = arrival_okD [OF assms(1)]
  have n: "nat n < length arrived" "fst (arrived ! nat n) = t" using A(4) [OF assms(2)] by auto
  have "(t, r) \<in> set arrived" using A(5) assms(3) by blast
  then have "arrived ! nat n = (t, r)"
    using n A(3) nth_mem [OF n(1)] by (metis eq_key_imp_eq_value prod.collapse)
  moreover obtain m where m: "(priority_rank (sr_priority r), m, t) \<in> set (sq_heap q)"
    using queue_entry [OF A(1) assms(3)] by blast
  then have "(priority_rank (sr_priority r), m, t) = (k, n, t)" by (rule entry_unique [OF A(1) _ assms(2)]) simp
  ultimately show ?thesis by simp
qed

text \<open>Operations that only drop entries keep the correspondence.\<close>

lemma arrival_shrink:
  assumes "arrival_ok q arrived" and "queue_ok q'" and "sq_sequence q' = sq_sequence q"
    and "set (sq_heap q') \<subseteq> set (sq_heap q)" and "set (sq_requests q') \<subseteq> set (sq_requests q)"
    and "set (sq_claim_entries q') \<subseteq> set (sq_claim_entries q)"
  shows "arrival_ok q' arrived"
  using assms unfolding arrival_ok_def by (auto dest!: subsetD [OF assms(4)] subsetD [OF assms(6)])

lemma arrival_created: "new_schedule_queue maximum = Inr q \<Longrightarrow> arrival_ok q []"
  using new_schedule_queue_ok by (auto simp: arrival_ok_def new_schedule_queue_def split: if_splits)

lemma arrival_enqueued:
  assumes "arrival_ok q arrived" and "token \<notin> fst ` set arrived" and "enqueue token now request q = Inr (token, q')"
  shows "arrival_ok q' (arrived @ [(token, request)])"
proof -
  note A = arrival_okD [OF assms(1)]
  have q': "q' = q\<lparr>sq_sequence := sq_sequence q + 1,
          sq_requests := AList.update token request (sq_requests q),
          sq_enqueued_ns := AList.update token now (sq_enqueued_ns q),
          sq_heap := insort (priority_rank (sr_priority request), sq_sequence q, token) (sq_heap q)\<rparr>"
    using assms(3) by (auto simp: enqueue_def split: if_splits)
  have "token \<notin> entry_token ` set (sq_heap q)"
  proof
    assume "token \<in> entry_token ` set (sq_heap q)"
    then obtain k n where "(k, n, token) \<in> set (sq_heap q)" by force
    then show False using A(4) assms(2) nth_mem by (metis image_eqI)
  qed
  moreover have "token \<notin> sq_claimed q"
  proof
    assume "token \<in> sq_claimed q"
    then obtain k n r where "(token, k, n, r) \<in> set (sq_claim_entries q)" using queue_okD(6) [OF A(1)] by force
    then show False using A(6) assms(2) nth_mem by (metis fst_conv image_eqI)
  qed
  ultimately have "queue_ok q'" using enqueue_ok [OF A(1) _ assms(3)] by (simp add: fresh_token_def)
  moreover have "set (sq_requests q') \<subseteq> set (arrived @ [(token, request)])"
    using update_subset [of token request "sq_requests q"] A(5) by (auto simp: q')
  moreover have "0 \<le> n \<and> nat n < length (arrived @ [(token, request)]) \<and> fst ((arrived @ [(token, request)]) ! nat n) = t"
    if "(k, n, t) \<in> set (sq_heap q')" for k n t
    using that A(2) A(4) [of k n t] by (auto simp: q' set_insort_key nth_append)
  moreover have "0 \<le> n \<and> nat n < length (arrived @ [(token, request)]) \<and> (arrived @ [(token, request)]) ! nat n = (t, r)"
    if "(t, k, n, r) \<in> set (sq_claim_entries q')" for t k n r
    using that A(6) [of t k n r] by (auto simp: q' nth_append)
  ultimately show ?thesis using A(2,3) assms(2) by (auto simp: arrival_ok_def q')
qed

lemma arrival_claimed:
  assumes "arrival_ok q arrived" and split: "sq_heap q = dead @ e # es" and live: "filter (is_queued q) dead = []" "is_queued q e"
  shows "arrival_ok (snd (claim_entry e (q\<lparr>sq_heap := es\<rparr>))) arrived"
proof -
  note A = arrival_okD [OF assms(1)]
  obtain k n t where e: "e = (k, n, t)" by (cases e)
  obtain r where r: "map_of (sq_requests q) t = Some r"
    using live(2) by (cases "map_of (sq_requests q) t") (auto simp: e is_queued_def map_of_eq_None_iff)
  have "arrived ! nat n = (t, r)" "0 \<le> n" "nat n < length arrived"
    using arrival_place [OF assms(1), of k n t r] A(4) [of k n t] map_of_SomeD [OF r] by (auto simp: split e)
  moreover have "set (AList.update t (k, n, r) (sq_claim_entries q)) \<subseteq> insert (t, k, n, r) (set (sq_claim_entries q))"
    by (rule update_subset)
  ultimately show ?thesis
    using A claim_entry_ok [OF A(1) split live(2,1)] delete_subset [of t "sq_requests q"]
    unfolding arrival_ok_def by (auto simp: claim_entry_eq e r split)
qed

lemma arrival_polled:
  assumes "arrival_ok q arrived" and "poll q = (x, q')"
  shows "arrival_ok q' arrived"
proof (cases x)
  case None
  obtain y es where p: "pop_live (is_queued q) (sq_heap q) = (y, es)" by force
  then have q': "q' = q\<lparr>sq_heap := es\<rparr>" using assms(2) None by (auto simp: poll_def split: option.splits prod.splits)
  have "queue_ok q'" using poll_ok [OF arrival_okD(1) [OF assms(1)]] assms(2) by simp
  then show ?thesis by (rule arrival_shrink [OF assms(1)]) (use pop_live_subset [OF p] in \<open>simp_all add: q'\<close>)
next
  case (Some a)
  obtain t r where a: "a = (t, r)" by force
  show ?thesis
    by (rule poll_Some [OF assms(2) [unfolded Some a]]) (use arrival_claimed [OF assms(1)] in blast)
qed

lemma arrival_dropped:
  assumes "arrival_ok q arrived"
  shows "arrival_ok (q\<lparr>sq_heap := drop_dead (is_queued q) (sq_heap q)\<rparr>) arrived"
proof -
  obtain dead where "sq_heap q = dead @ drop_dead (is_queued q) (sq_heap q)"
    using drop_dead_suffix [of "sq_heap q" "is_queued q"] by auto
  then have "set (drop_dead (is_queued q) (sq_heap q)) \<subseteq> set (sq_heap q)" by (metis Un_upper2 set_append)
  then show ?thesis
    by (intro arrival_shrink [OF assms drop_dead_ok [OF arrival_okD(1) [OF assms]]]) simp_all
qed

lemma arrival_head_claimed:
  assumes "arrival_ok q arrived" and "claim_head t q = (x, q')"
  shows "arrival_ok q' arrived"
proof (cases x)
  case None
  then have "q' = q\<lparr>sq_heap := drop_dead (is_queued q) (sq_heap q)\<rparr>"
    using assms(2) by (auto simp: claim_head_def claim_entry_eq split: list.splits if_splits)
  then show ?thesis using arrival_dropped [OF assms(1)] by simp
next
  case (Some a)
  obtain u r where a: "a = (u, r)" by force
  show ?thesis
    by (rule claim_head_Some [OF assms(2) [unfolded Some a]]) (use arrival_claimed [OF assms(1)] in blast)
qed

lemma arrival_cancelled:
  assumes "arrival_ok q arrived"
  shows "arrival_ok (snd (cancel_queued t q)) arrived"
  by (rule arrival_shrink [OF assms cancel_queued_ok [OF arrival_okD(1) [OF assms]]])
    (auto simp: cancel_queued_def compact_cancelled_def drop_claim_def dest!: subsetD [OF delete_subset])

lemma arrival_finished:
  assumes "arrival_ok q arrived"
  shows "arrival_ok (snd (finish_claim t q)) arrived"
  by (rule arrival_shrink [OF assms finish_ok [OF arrival_okD(1) [OF assms]]])
    (auto simp: finish_claim_def drop_claim_def dest!: subsetD [OF delete_subset])

lemma arrival_restored:
  assumes "arrival_ok q arrived"
  shows "arrival_ok (snd (restore_claim t q)) arrived"
proof (cases "map_of (sq_claim_entries q) t")
  case None
  then show ?thesis using assms by (simp add: restore_claim_def)
next
  case (Some entry)
  note A = arrival_okD [OF assms]
  obtain k n r where entry: "entry = (k, n, r)" by (cases entry)
  have mem: "(t, k, n, r) \<in> set (sq_claim_entries q)" using map_of_SomeD [OF Some] by (simp add: entry)
  then have place: "0 \<le> n" "nat n < length arrived" "arrived ! nat n = (t, r)" using A(6) by auto
  then have "(t, r) \<in> set arrived" by (metis nth_mem)
  moreover have "t \<in> sq_claimed q" using mem queue_okD(6) [OF A(1)] by force
  ultimately show ?thesis
    using A(2,3,5) place restore_claim_ok [OF A(1), of t] A(4,6) update_subset [of t r "sq_requests q"]
      delete_subset [of t "sq_claim_entries q"]
    unfolding arrival_ok_def by (auto simp: restore_claim_def Some entry set_insort_key)
qed

section \<open>The two queues agree\<close>

definition same_state :: "schedule_queue \<Rightarrow> (string \<times> schedule_request) list \<Rightarrow> string set \<Rightarrow> string set \<Rightarrow> bool" where
  "same_state q arrived waiting claimed \<longleftrightarrow>
     arrival_ok q arrived \<and> set (keys (sq_requests q)) = waiting \<and> sq_claimed q = claimed"

lemma enqueued_sets:
  assumes "enqueue token now request q = Inr (token, q')"
  shows "set (keys (sq_requests q')) = insert token (set (keys (sq_requests q))) \<and> sq_claimed q' = sq_claimed q"
proof -
  have "sq_requests q' = AList.update token request (sq_requests q)" "sq_claimed q' = sq_claimed q"
    using assms by (auto simp: enqueue_def split: if_splits)
  then show ?thesis by (simp only: keys_update)
qed

lemma claim_entry_sets:
  "set (keys (sq_requests (snd (claim_entry e q)))) = set (keys (sq_requests q)) - {entry_token e}"
  "sq_claimed (snd (claim_entry e q)) = insert (entry_token e) (sq_claimed q)"
proof -
  have "sq_requests (snd (claim_entry e q)) = AList.delete (entry_token e) (sq_requests q)"
    by (rule claim_entry_fields)
  then show "set (keys (sq_requests (snd (claim_entry e q)))) = set (keys (sq_requests q)) - {entry_token e}"
    by (simp only: keys_delete)
  show "sq_claimed (snd (claim_entry e q)) = insert (entry_token e) (sq_claimed q)" by (simp add: claim_entry_eq)
qed

lemma claimed_sets:
  assumes "poll q = (x, q') \<or> claim_head t q = (x, q')"
  shows "set (keys (sq_requests q')) = set (keys (sq_requests q)) - answered x \<and> sq_claimed q' = sq_claimed q \<union> answered x"
proof (cases x)
  case None
  with assms have "sq_requests q' = sq_requests q \<and> sq_claimed q' = sq_claimed q"
    by (auto simp: poll_def claim_head_def claim_entry_eq split: prod.splits option.splits list.splits if_splits)
  with None show ?thesis by simp
next
  case (Some a)
  have "\<exists>e es. q' = snd (claim_entry e (q\<lparr>sq_heap := es\<rparr>)) \<and> entry_token e = fst a"
    using assms
  proof
    assume "poll q = (x, q')"
    then show ?thesis using poll_Some [of q "fst a" "snd a" q'] Some by (metis prod.collapse)
  next
    assume "claim_head t q = (x, q')"
    then show ?thesis using claim_head_Some [of t q "fst a" "snd a" q'] Some by (metis prod.collapse)
  qed
  then obtain e es where e: "q' = snd (claim_entry e (q\<lparr>sq_heap := es\<rparr>))" "entry_token e = fst a" by blast
  show ?thesis unfolding e(1) claim_entry_sets using e(2) Some by simp
qed

lemma queued_not_claimed:
  assumes "queue_ok q" and "t \<in> set (keys (sq_requests q))"
  shows "t \<notin> sq_claimed q"
proof -
  obtain e where "e \<in> set (sq_heap q)" "t = entry_token e" using requests_in_heap [OF assms(1)] assms(2) by blast
  with claim_not_in_heap [OF assms(1)] queue_okD(6) [OF assms(1)] show ?thesis by simp
qed

lemma cancelled_sets:
  assumes "queue_ok q"
  shows "set (keys (sq_requests (snd (cancel_queued t q)))) = set (keys (sq_requests q)) - {t}
    \<and> sq_claimed (snd (cancel_queued t q)) = sq_claimed q - {t}"
proof (cases "t \<in> set (keys (sq_requests q))")
  case True
  then have "sq_requests (snd (cancel_queued t q)) = AList.delete t (sq_requests q)"
    "sq_claimed (snd (cancel_queued t q)) = sq_claimed q"
    by (simp_all add: cancel_queued_def compact_cancelled_def map_of_None_keys)
  with True queued_not_claimed [OF assms True] show ?thesis by (simp only: keys_delete) simp
next
  case False
  then show ?thesis by (auto simp: cancel_queued_def drop_claim_def map_of_None_keys)
qed

lemma restored_sets:
  assumes "queue_ok q"
  shows "set (keys (sq_requests (snd (restore_claim t q)))) = set (keys (sq_requests q)) \<union> ({t} \<inter> sq_claimed q)
    \<and> sq_claimed (snd (restore_claim t q)) = sq_claimed q - {t}"
proof (cases "map_of (sq_claim_entries q) t")
  case None
  then have "t \<notin> sq_claimed q" using queue_okD(6) [OF assms] by (simp add: map_of_None_keys)
  then show ?thesis by (auto simp: restore_claim_def None)
next
  case (Some entry)
  obtain k n r where entry: "entry = (k, n, r)" by (cases entry)
  have "t \<in> sq_claimed q" using map_of_Some_keys [OF Some] queue_okD(6) [OF assms] by simp
  moreover from this have "sq_requests (snd (restore_claim t q)) = AList.update t r (sq_requests q)"
    "sq_claimed (snd (restore_claim t q)) = sq_claimed q - {t}"
    by (simp_all add: restore_claim_def Some entry)
  ultimately show ?thesis by (simp only: keys_update) blast
qed

lemma queue_history_same: "queue_history q arrived waiting claimed \<Longrightarrow> same_state q arrived waiting claimed"
proof (induction rule: queue_history.induct)
  case (created maximum q)
  then show ?case using arrival_created [of maximum q] by (auto simp: same_state_def new_schedule_queue_def split: if_splits)
next
  case (enqueued q arrived waiting claimed token now request q')
  then show ?case
    using arrival_enqueued [of q arrived token now request q'] enqueued_sets [of token now request q q']
    by (simp add: same_state_def)
next
  case (polled q arrived waiting claimed x q')
  then show ?case using arrival_polled [of q arrived x q'] claimed_sets [of q x q'] by (simp add: same_state_def)
next
  case (head_claimed q arrived waiting claimed t x q')
  then show ?case
    using arrival_head_claimed [of q arrived t x q'] claimed_sets [of q x q' t] by (simp add: same_state_def)
next
  case (peeked q arrived waiting claimed)
  then show ?case using arrival_dropped [of q arrived] by (simp add: same_state_def peek_def Let_def)
next
  case (cancelled q arrived waiting claimed t)
  then show ?case using arrival_cancelled [of q arrived t] cancelled_sets [OF arrival_okD(1), of q arrived t]
    by (simp add: same_state_def)
next
  case (finished q arrived waiting claimed t)
  then show ?case using arrival_finished [of q arrived t]
    by (auto simp: same_state_def finish_claim_def drop_claim_def)
next
  case (restored q arrived waiting claimed t)
  then show ?case using arrival_restored [of q arrived t] restored_sets [OF arrival_okD(1), of q arrived t]
    by (simp add: same_state_def)
qed

text \<open>The live heap entries are the waiting requests in the order of service.\<close>

definition entry_at :: "(string \<times> schedule_request) list \<Rightarrow> nat \<Rightarrow> heap_entry" where
  "entry_at arrived i = (priority_rank (sr_priority (snd (arrived ! i))), int i, fst (arrived ! i))"

lemma sorted_entries: "sorted is \<Longrightarrow> (\<forall>i\<in>set is. sr_priority (snd (arrived ! i)) = p) \<Longrightarrow> sorted (map (entry_at arrived) is)"
proof (induction "is")
  case (Cons i "is")
  have "entry_at arrived i \<le> entry_at arrived j" if "j \<in> set is" for j
    using that Cons.prems by (cases "i = j") (auto simp: entry_at_def)
  with Cons show ?case by auto
qed simp

lemma heap_is_service_order:
  assumes "arrival_ok q arrived" and "set (keys (sq_requests q)) = waiting"
  shows "map (\<lambda>(k, n, t). arrived ! nat n) (filter (is_queued q) (sq_heap q))
    = service_order (filter (\<lambda>a. fst a \<in> waiting) arrived)"
proof -
  note A = arrival_okD [OF assms(1)]
  define ps where "ps = filter (\<lambda>i. fst (arrived ! i) \<in> waiting) [0..<length arrived]"
  define places where "places p = filter (\<lambda>i. sr_priority (snd (arrived ! i)) = p) ps" for p
  define L where "L = concat (map (\<lambda>p. map (entry_at arrived) (places p)) [Realtime, Interactive, Normal, Background])"
  have "filter (\<lambda>a. fst a \<in> waiting) arrived = map ((!) arrived) ps"
    using filter_map [of "\<lambda>a. fst a \<in> waiting" "(!) arrived" "[0..<length arrived]"] by (simp add: map_nth ps_def comp_def)
  then have order: "service_order (filter (\<lambda>a. fst a \<in> waiting) arrived) = map (\<lambda>(k, n, t). arrived ! nat n) L"
    by (simp add: service_order_def L_def places_def filter_map comp_def entry_at_def)
  have pos: "sorted (places p)" "distinct (places p)" "\<forall>i\<in>set (places p). sr_priority (snd (arrived ! i)) = p" for p
    by (simp_all add: places_def ps_def sorted_wrt_filter sorted_wrt_upt strict_sorted_imp_sorted)
  have "sorted (map (entry_at arrived) (places p))" for p using sorted_entries [OF pos(1,3)] .
  moreover have "\<forall>e\<in>set (map (entry_at arrived) (places p)). fst e = priority_rank p" for p
    using pos(3) [of p] by (auto simp: entry_at_def)
  ultimately have "sorted L" unfolding L_def by (fastforce simp: sorted_append less_eq_prod_def)
  moreover have "distinct L"
  proof -
    have "inj_on (entry_at arrived) A" for A by (auto simp: inj_on_def entry_at_def)
    then show ?thesis using pos(2,3) by (fastforce simp: L_def distinct_map entry_at_def)
  qed
  moreover have "set L = entry_at arrived ` set ps"
  proof -
    have "set (places Realtime) \<union> set (places Interactive) \<union> set (places Normal) \<union> set (places Background) = set ps"
      using priority.exhaust by (auto simp: places_def)
    then show ?thesis by (auto simp: L_def)
  qed
  moreover have "set (filter (is_queued q) (sq_heap q)) = entry_at arrived ` set ps"
  proof (intro set_eqI iffI)
    fix e
    assume "e \<in> set (filter (is_queued q) (sq_heap q))"
    moreover obtain k n t where e: "e = (k, n, t)" by (cases e)
    ultimately obtain r where mem: "(k, n, t) \<in> set (sq_heap q)" "(t, r) \<in> set (sq_requests q)" "t \<in> waiting"
      using assms(2) by (force simp: is_queued_def)
    have "arrived ! nat n = (t, r) \<and> k = priority_rank (sr_priority r)" by (rule arrival_place [OF assms(1) mem(1,2)])
    moreover have "0 \<le> n" "nat n < length arrived" using A(4) [OF mem(1)] by auto
    ultimately have "e = entry_at arrived (nat n)" "nat n \<in> set ps" using mem(3) by (auto simp: e entry_at_def ps_def)
    then show "e \<in> entry_at arrived ` set ps" by blast
  next
    fix e
    assume "e \<in> entry_at arrived ` set ps"
    then obtain i where i: "e = entry_at arrived i" "i < length arrived" "fst (arrived ! i) \<in> waiting" by (auto simp: ps_def)
    then obtain t r where t: "(t, r) \<in> set (sq_requests q)" "t = fst (arrived ! i)" using assms(2) by force
    obtain n where n: "(priority_rank (sr_priority r), n, t) \<in> set (sq_heap q)" using queue_entry [OF A(1) t(1)] by blast
    have at: "arrived ! nat n = (t, r)" "0 \<le> n" "nat n < length arrived"
      using arrival_place [OF assms(1) n t(1)] A(4) [OF n] by auto
    then have "map fst arrived ! nat n = map fst arrived ! i" using i(2) t(2) by simp
    then have "nat n = i" using A(3) at(3) i(2) nth_eq_iff_index_eq [of "map fst arrived" "nat n" i] by simp
    then have "e = (priority_rank (sr_priority r), n, t)" using at i(1) by (auto simp: entry_at_def)
    then show "e \<in> set (filter (is_queued q) (sq_heap q))" using n t(1) by (force simp: is_queued_def)
  qed
  ultimately have "filter (is_queued q) (sq_heap q) = L"
    using sorted_distinct_set_unique [of "filter (is_queued q) (sq_heap q)" L] queue_okD(1) [OF A(1)] distinct_heap [OF A(1)]
    by (simp add: sorted_wrt_filter)
  then show ?thesis by (simp add: order)
qed

lemma poll_answer:
  assumes "arrival_ok q arrived" and "set (keys (sq_requests q)) = waiting"
  shows "fst (poll q) = (case service_order (filter (\<lambda>a. fst a \<in> waiting) arrived) of [] \<Rightarrow> None | a # _ \<Rightarrow> Some a)"
proof (cases "fst (poll q)")
  case None
  then have "filter (is_queued q) (sq_heap q) = []" by (simp add: poll_None)
  then show ?thesis using heap_is_service_order [OF assms] None by simp
next
  case (Some a)
  obtain t r q' where p: "poll q = (Some (t, r), q')" "a = (t, r)" using Some by (cases a, cases "poll q") auto
  obtain dead e es where e: "sq_heap q = dead @ e # es" "filter (is_queued q) dead = []" "is_queued q e"
    "entry_token e = t" "map_of (sq_requests q) t = Some r" using p(1) by (rule poll_Some)
  obtain k n where en: "e = (k, n, t)" using e(4) by (cases e) auto
  have "arrived ! nat n = (t, r)"
    using arrival_place [OF assms(1), of k n t r] map_of_SomeD [OF e(5)] e(1) en by simp
  moreover have "map (\<lambda>(k, n, t). arrived ! nat n) (filter (is_queued q) (sq_heap q))
      = arrived ! nat n # map (\<lambda>(k, n, t). arrived ! nat n) (filter (is_queued q) es)"
    using e(1-3) by (simp add: en)
  ultimately show ?thesis using heap_is_service_order [OF assms] Some p(2) by (metis list.simps(5))
qed

lemma service_order_filter: "service_order (filter P ws) = filter P (service_order ws)"
proof -
  have "filter (\<lambda>a. sr_priority (snd a) = p) (filter P ws) = filter P (filter (\<lambda>a. sr_priority (snd a) = p) ws)" for p
    by (induction ws) auto
  then show ?thesis by (simp add: service_order_def)
qed

lemma service_order_tokens: "distinct (map fst ws) \<Longrightarrow> distinct (map fst (service_order ws))"
proof -
  assume d: "distinct (map fst ws)"
  have "mset (service_order ws) = mset ws"
  proof (induction ws)
    case (Cons a ws)
    then show ?case by (cases "sr_priority (snd a)") (auto simp: service_order_def)
  qed (simp add: service_order_def)
  then have "mset (map fst (service_order ws)) = mset (map fst ws)" by (simp only: mset_map)
  then show ?thesis using d by (metis distinct_count_atmost_1 mset_eq_setD)
qed

lemma polls_service_order:
  "queue_history q arrived waiting claimed \<Longrightarrow> polls k q = take k (service_order (filter (\<lambda>a. fst a \<in> waiting) arrived))"
proof (induction k arbitrary: q waiting claimed)
  case (Suc k)
  let ?order = "service_order (filter (\<lambda>a. fst a \<in> waiting) arrived)"
  have state: "arrival_ok q arrived" "set (keys (sq_requests q)) = waiting"
    using queue_history_same [OF Suc.prems] by (simp_all add: same_state_def)
  obtain x q' where p: "poll q = (x, q')" by force
  show ?case
  proof (cases ?order)
    case Nil
    then show ?thesis using poll_answer [OF state] p by simp
  next
    case (Cons a rest)
    then have x: "x = Some a" using poll_answer [OF state] p by simp
    have "queue_history q' arrived (waiting - {fst a}) (claimed \<union> {fst a})"
      using queue_history.polled [OF Suc.prems p] x by simp
    from Suc.IH [OF this]
    have "polls k q' = take k (service_order (filter (\<lambda>b. fst b \<in> waiting - {fst a}) arrived))" .
    also have "filter (\<lambda>b. fst b \<in> waiting - {fst a}) arrived
        = filter (\<lambda>b. fst b \<noteq> fst a) (filter (\<lambda>b. fst b \<in> waiting) arrived)" by (induction arrived) auto
    also have "service_order \<dots> = filter (\<lambda>b. fst b \<noteq> fst a) (a # rest)"
      by (simp only: service_order_filter [of "\<lambda>b. fst b \<noteq> fst a"] Cons)
    also have "\<dots> = rest"
    proof -
      have "distinct (map fst (a # rest))"
        using service_order_tokens [of "filter (\<lambda>b. fst b \<in> waiting) arrived"] arrival_okD(3) [OF state(1)]
        by (simp add: Cons distinct_map_filter)
      then have "fst a \<notin> fst ` set rest" by simp
      then have "\<forall>b\<in>set rest. fst b \<noteq> fst a" using image_eqI by metis
      then show ?thesis by simp
    qed
    finally show ?thesis using p x Cons by simp
  qed
qed simp

section \<open>The property\<close>

text \<open>C16: requests are served by class and, within a class, in the order they arrived.  After any sequence of
  enqueues, polls, claims of the head, cancellations, finished and restored claims, a poll answers with the first of
  the waiting requests in the order of service: every realtime request before every interactive one, those before the
  normal ones, the background ones last, and in each class the one that \<open>enqueue\<close> accepted first, also
  when it was claimed and given back in between; there is no answer only when nothing waits.  Polling again and again
  yields all waiting requests in that order, and the tokens that wait and those that are claimed are the ones the calls left so.\<close>

theorem dequeue_follows_priority:
  assumes "queue_history q arrived waiting claimed"
  shows "fst (poll q) = (case service_order (filter (\<lambda>a. fst a \<in> waiting) arrived) of [] \<Rightarrow> None | a # _ \<Rightarrow> Some a)
    \<and> polls k q = take k (service_order (filter (\<lambda>a. fst a \<in> waiting) arrived))
    \<and> set (keys (sq_requests q)) = waiting \<and> sq_claimed q = claimed"
  using queue_history_same [OF assms] poll_answer [of q arrived waiting] polls_service_order [OF assms, of k]
  by (auto simp: same_state_def)

text \<open>Two normal requests, the first of which is claimed and given back, and a realtime one that arrives last.\<close>

definition example_history :: "schedule_queue" where
  "example_history =
     \<lparr>sq_maximum = 4, sq_sequence = 3, sq_heap = [(0, 2, ''c''), (2, 0, ''a''), (2, 1, ''b'')],
      sq_requests = [(''b'', example_schedule_request Normal), (''c'', example_schedule_request Realtime),
        (''a'', example_schedule_request Normal)],
      sq_enqueued_ns = [(''a'', 10), (''b'', 20), (''c'', 30)], sq_claimed = {}, sq_claim_entries = []\<rparr>"

lemma example_queue_history:
  "queue_history example_history [(''a'', example_schedule_request Normal), (''b'', example_schedule_request Normal),
     (''c'', example_schedule_request Realtime)] {''a'', ''b'', ''c''} {}"
proof -
  let ?n = "example_schedule_request Normal"
  let ?q0 = "\<lparr>sq_maximum = 4, sq_sequence = 0, sq_heap = [], sq_requests = [], sq_enqueued_ns = [], sq_claimed = {},
    sq_claim_entries = []\<rparr>"
  let ?q1 = "?q0\<lparr>sq_sequence := 1, sq_heap := [(2, 0, ''a'')], sq_requests := [(''a'', ?n)], sq_enqueued_ns := [(''a'', 10)]\<rparr>"
  let ?q2 = "?q0\<lparr>sq_sequence := 2, sq_heap := [(2, 0, ''a''), (2, 1, ''b'')], sq_requests := [(''a'', ?n), (''b'', ?n)],
    sq_enqueued_ns := [(''a'', 10), (''b'', 20)]\<rparr>"
  let ?q3 = "?q2\<lparr>sq_heap := [(2, 1, ''b'')], sq_requests := [(''b'', ?n)], sq_claimed := {''a''},
    sq_claim_entries := [(''a'', 2, 0, ?n)]\<rparr>"
  let ?q4 = "?q3\<lparr>sq_sequence := 3, sq_heap := [(0, 2, ''c''), (2, 1, ''b'')],
    sq_requests := [(''b'', ?n), (''c'', example_schedule_request Realtime)],
    sq_enqueued_ns := [(''a'', 10), (''b'', 20), (''c'', 30)]\<rparr>"
  have "queue_history ?q0 [] {} {}" by (rule queue_history.created [of 4]) (simp add: new_schedule_queue_def)
  then have "queue_history ?q1 ([] @ [(''a'', ?n)]) (insert ''a'' {}) {}"
    by (rule queue_history.enqueued [where now = 10]) (simp_all add: enqueue_def example_schedule_request_def)
  then have "queue_history ?q2 (([] @ [(''a'', ?n)]) @ [(''b'', ?n)]) (insert ''b'' (insert ''a'' {})) {}"
    by (rule queue_history.enqueued [where now = 20]) (simp_all add: enqueue_def example_schedule_request_def)
  then have 2: "queue_history ?q2 [(''a'', ?n), (''b'', ?n)] {''a'', ''b''} {}" by (simp add: insert_commute)
  have "poll ?q2 = (Some (''a'', ?n), ?q3)"
    by (simp add: poll_def is_queued_def claim_entry_eq)
  from queue_history.polled [OF 2 this]
  have "queue_history ?q3 [(''a'', ?n), (''b'', ?n)] {''b''} {''a''}" by simp
  then have "queue_history ?q4 ([(''a'', ?n), (''b'', ?n)] @ [(''c'', example_schedule_request Realtime)]) (insert ''c'' {''b''}) {''a''}"
    by (rule queue_history.enqueued [where now = 30]) (simp_all add: enqueue_def example_schedule_request_def)
  from queue_history.restored [OF this, of "''a''"] show ?thesis
    by (simp add: restore_claim_def example_history_def insert_commute)
qed

theorem dequeue_follows_priority_witness:
  "polls 4 example_history = [(''c'', example_schedule_request Realtime), (''a'', example_schedule_request Normal),
     (''b'', example_schedule_request Normal)]"
  using dequeue_follows_priority [OF example_queue_history, of 4]
  by (simp add: service_order_def example_schedule_request_def)

end
