(* ===== verification/MemoryController.thy ===== *)
theory MemoryController
  imports ScheduleQueue Accounting
begin

text \<open>
  \<open>Reservation\<close> and \<open>MemoryAdmissionController\<close> of \<open>vllm_apple/scheduler.py\<close>: the hard limit on
  the bytes of admitted work.  Each method runs under the controller's lock and is one step; the
  uuid and the monotonic clock are arguments.  The controller keeps the accounting contract of
  \<open>Accounting\<close>, with the single resource \<open>()\<close>.
\<close>

record reservation =
  rv_reservation_id :: string
  rv_bytes :: int
  rv_backend :: backend
  rv_priority :: priority
  rv_created_at :: rat
  rv_execution_plan_id :: "string option"
  rv_kernel_tuning_id :: "string option"
  rv_device_placement_plan_id :: "string option"
  rv_device_reservation_id :: "string option"

record memory_controller =
  mc_capacity :: int
  mc_reserved :: int
  mc_reservations :: "(string, reservation) dict"

definition new_memory_controller :: "int \<Rightarrow> memory_controller result" where
  "new_memory_controller capacity =
     (if capacity < 0 then Inl (ValueError ''capacity_bytes cannot be negative'')
      else Inr \<lparr>mc_capacity = capacity, mc_reserved = 0, mc_reservations = []\<rparr>)"

definition memory_reserve ::
  "string \<Rightarrow> schedule_request \<times> backend \<times> rat \<Rightarrow> memory_controller
    \<Rightarrow> (reservation \<times> memory_controller) result" where
  "memory_reserve uuid p m =
     (case p of (request, b, now) \<Rightarrow>
        let remaining = mc_capacity m - mc_reserved m
        in if remaining < sr_estimated_memory_bytes request then Inl MemoryCapacityError
           else let v = \<lparr>rv_reservation_id = uuid, rv_bytes = sr_estimated_memory_bytes request,
                         rv_backend = b, rv_priority = sr_priority request, rv_created_at = now,
                         rv_execution_plan_id = None, rv_kernel_tuning_id = None,
                         rv_device_placement_plan_id = None, rv_device_reservation_id = None\<rparr>
                in Inr (v, m\<lparr>mc_reservations := AList.update uuid v (mc_reservations m),
                             mc_reserved := mc_reserved m + rv_bytes v\<rparr>))"

definition memory_release :: "string \<Rightarrow> memory_controller \<Rightarrow> bool \<times> memory_controller" where
  "memory_release i m =
     (case map_of (mc_reservations m) i of
        None \<Rightarrow> (False, m)
      | Some v \<Rightarrow> (True, m\<lparr>mc_reservations := AList.delete i (mc_reservations m),
                          mc_reserved := mc_reserved m - rv_bytes v\<rparr>))"

record memory_counts =
  mq_capacity_bytes :: int
  mq_reserved_bytes :: int
  mq_available_bytes :: int
  mq_active_reservations :: int

definition memory_snapshot :: "memory_controller \<Rightarrow> memory_counts" where
  "memory_snapshot m =
     \<lparr>mq_capacity_bytes = mc_capacity m, mq_reserved_bytes = mc_reserved m,
      mq_available_bytes = mc_capacity m - mc_reserved m,
      mq_active_reservations = int (length (mc_reservations m))\<rparr>"

abbreviation mem_used :: "memory_controller \<Rightarrow> unit \<Rightarrow> int" where
  "mem_used m \<equiv> (\<lambda>k. mc_reserved m)"

abbreviation mem_limit :: "memory_controller \<Rightarrow> unit \<Rightarrow> int" where
  "mem_limit m \<equiv> (\<lambda>k. mc_capacity m)"

abbreviation mem_amount :: "reservation \<Rightarrow> unit \<Rightarrow> int" where
  "mem_amount v \<equiv> (\<lambda>k. rv_bytes v)"

lemma memory_reserve_Inr:
  "memory_reserve uuid p m = Inr (v, m') \<longleftrightarrow>
     sr_estimated_memory_bytes (fst p) \<le> mc_capacity m - mc_reserved m
     \<and> v = \<lparr>rv_reservation_id = uuid, rv_bytes = sr_estimated_memory_bytes (fst p),
            rv_backend = fst (snd p), rv_priority = sr_priority (fst p), rv_created_at = snd (snd p),
            rv_execution_plan_id = None, rv_kernel_tuning_id = None,
            rv_device_placement_plan_id = None, rv_device_reservation_id = None\<rparr>
     \<and> m' = m\<lparr>mc_reservations := AList.update uuid v (mc_reservations m),
              mc_reserved := mc_reserved m + rv_bytes v\<rparr>"
  by (auto simp: memory_reserve_def case_prod_unfold Let_def)

interpretation memory: ledger mc_reservations mem_used mem_limit mem_amount memory_reserve memory_release
  by unfold_locales (auto simp: memory_reserve_Inr memory_release_def split: option.splits)

abbreviation memory_ok :: "memory_controller \<Rightarrow> bool" where
  "memory_ok \<equiv> balanced mc_reservations mem_used mem_limit mem_amount"

lemma new_memory_controller_ok: "new_memory_controller capacity = Inr m \<Longrightarrow> memory_ok m"
  by (auto simp: new_memory_controller_def balanced_def split: if_splits)

lemma memory_reserve_release:
  assumes "uuid \<notin> set (keys (mc_reservations m))" and "memory_reserve uuid p m = Inr (v, m')"
  shows "memory_release uuid m' = (True, m)"
  using memory.reserve_release [OF assms] assms(2)
  by (cases m) (auto simp: memory_reserve_Inr memory_release_def update_conv' prod_eq_iff fun_eq_iff)

text \<open>Memory admission keeps a hard limit and leaks nothing: a request is admitted exactly when
  its estimate fits what is left; after admission the reserved bytes are the sum over the live
  reservations and within capacity; releasing the reservation restores the controller, and
  releasing twice changes nothing.\<close>
theorem memory_admission_exact:
  assumes "memory_ok m" and "uuid \<notin> set (keys (mc_reservations m))"
    and "0 \<le> sr_estimated_memory_bytes request"
  shows "(\<exists>v m'. memory_reserve uuid (request, b, now) m = Inr (v, m'))
      = (sr_estimated_memory_bytes request \<le> mq_available_bytes (memory_snapshot m))
    \<and> (\<forall>v m'. memory_reserve uuid (request, b, now) m = Inr (v, m') \<longrightarrow>
        mc_reserved m' = asum rv_bytes (mc_reservations m')
        \<and> mc_reserved m' \<le> mc_capacity m'
        \<and> memory_release (rv_reservation_id v) m' = (True, m)
        \<and> memory_release (rv_reservation_id v) m = (False, m))"
proof -
  have "mc_reserved m' = asum rv_bytes (mc_reservations m') \<and> mc_reserved m' \<le> mc_capacity m'
      \<and> memory_release (rv_reservation_id v) m' = (True, m)
      \<and> memory_release (rv_reservation_id v) m = (False, m)"
    if r: "memory_reserve uuid (request, b, now) m = Inr (v, m')" for v m'
  proof -
    have v: "rv_reservation_id v = uuid" "0 \<le> rv_bytes v" using r assms(3) by (auto simp: memory_reserve_Inr)
    have "memory_ok m'" by (rule memory.reserve_ok [OF assms(1,2) r]) (rule v(2))
    then have "mc_reserved m' = asum rv_bytes (mc_reservations m') \<and> mc_reserved m' \<le> mc_capacity m'"
      by (simp add: balanced_def)
    moreover have "memory_release uuid m = (False, m)"
      using assms(2) by (simp add: memory_release_def map_of_eq_None_iff [THEN iffD2])
    ultimately show ?thesis using memory_reserve_release [OF assms(2) r] v by simp
  qed
  moreover have "(\<exists>v m'. memory_reserve uuid (request, b, now) m = Inr (v, m'))
      = (sr_estimated_memory_bytes request \<le> mq_available_bytes (memory_snapshot m))"
    by (auto simp: memory_reserve_Inr memory_snapshot_def)
  ultimately show ?thesis by blast
qed

theorem memory_admission_exact_witness:
  "\<exists>v m'. memory_reserve ''r1'' (example_schedule_request Normal, B_MLX_GPU, 0)
       \<lparr>mc_capacity = 100, mc_reserved = 0, mc_reservations = []\<rparr> = Inr (v, m')
     \<and> mc_reserved m' \<le> 100"
  using memory_admission_exact [of "\<lparr>mc_capacity = 100, mc_reserved = 0, mc_reservations = []\<rparr>" "''r1''"
      "example_schedule_request Normal" B_MLX_GPU 0]
  by (auto simp: balanced_def example_schedule_request_def memory_snapshot_def memory_reserve_Inr)

end
