(* ===== verification/Observability.thy ===== *)
theory Observability
  imports ExecutionTypes
begin

text \<open>
  \<open>vllm_apple/scheduling_observability.py\<close>: the fixed-cardinality counters of the scheduler.  The
  dictionaries keyed by backend, bucket and status have fixed key sets and are functions.  Every
  counter saturates at \<open>_MAX_COUNT\<close>.
\<close>

definition MAX_COUNT :: int where "MAX_COUNT = 2147483647"

datatype wait_bucket = Under1ms | Ms1to10 | Ms10to100 | Ms100orMore

fun wait_bucket_name :: "wait_bucket \<Rightarrow> string" where
  "wait_bucket_name Under1ms = ''under_1ms''"
| "wait_bucket_name Ms1to10 = ''1_to_10ms''"
| "wait_bucket_name Ms10to100 = ''10_to_100ms''"
| "wait_bucket_name Ms100orMore = ''100ms_or_more''"

datatype transition = Applied | Deferred | Ignored

fun transition_name :: "transition \<Rightarrow> string" where
  "transition_name Applied = ''applied''"
| "transition_name Deferred = ''deferred''"
| "transition_name Ignored = ''ignored''"

record counters =
  co_assignments :: "execution_backend \<Rightarrow> int"
  co_queue_wait :: "wait_bucket \<Rightarrow> int"
  co_adaptive :: "transition \<Rightarrow> int"
  co_fallback_attempts :: int
  co_fallback_exhausted :: int
  co_contention_rejections :: int
  co_steals :: int

definition new_counters :: counters where
  "new_counters = \<lparr>co_assignments = (\<lambda>b. 0), co_queue_wait = (\<lambda>w. 0), co_adaptive = (\<lambda>t. 0),
     co_fallback_attempts = 0, co_fallback_exhausted = 0, co_contention_rejections = 0, co_steals = 0\<rparr>"

definition increment :: "int \<Rightarrow> int \<Rightarrow> int" where
  "increment value amount = min MAX_COUNT (value + amount)"

definition count_assignment :: "execution_backend \<Rightarrow> counters \<Rightarrow> counters" where
  "count_assignment b c =
     c\<lparr>co_assignments := (co_assignments c)(b := increment (co_assignments c b) 1)\<rparr>"

definition wait_bucket_of :: "int \<Rightarrow> wait_bucket" where
  "wait_bucket_of nanoseconds =
     (if nanoseconds < 1000000 then Under1ms
      else if nanoseconds < 10000000 then Ms1to10
      else if nanoseconds < 100000000 then Ms10to100
      else Ms100orMore)"

definition count_queue_wait :: "int \<Rightarrow> counters \<Rightarrow> counters result" where
  "count_queue_wait nanoseconds c =
     (if nanoseconds < 0 then Inl (ValueError ''negative queue wait'')
      else let w = wait_bucket_of nanoseconds
           in Inr (c\<lparr>co_queue_wait := (co_queue_wait c)(w := increment (co_queue_wait c w) 1)\<rparr>))"

definition count_fallback :: "int \<Rightarrow> bool \<Rightarrow> counters \<Rightarrow> counters result" where
  "count_fallback attempts_made was_exhausted c =
     (if attempts_made < 0 \<or> int (length all_backends) < attempts_made
      then Inl (ValueError ''invalid fallback attempt count'')
      else let c' = c\<lparr>co_fallback_attempts := increment (co_fallback_attempts c) attempts_made\<rparr>
           in Inr (if was_exhausted
                   then c'\<lparr>co_fallback_exhausted := increment (co_fallback_exhausted c') 1\<rparr>
                   else c'))"

definition count_contention_rejection :: "counters \<Rightarrow> counters" where
  "count_contention_rejection c =
     c\<lparr>co_contention_rejections := increment (co_contention_rejections c) 1\<rparr>"

definition count_steal :: "counters \<Rightarrow> counters" where
  "count_steal c = c\<lparr>co_steals := increment (co_steals c) 1\<rparr>"

definition count_transition :: "transition \<Rightarrow> counters \<Rightarrow> counters" where
  "count_transition t c = c\<lparr>co_adaptive := (co_adaptive c)(t := increment (co_adaptive c t) 1)\<rparr>"

definition counters_snapshot :: "counters \<Rightarrow> json" where
  "counters_snapshot c = JObj
     [(''assignments'', JObj (map (\<lambda>b. (execution_backend_value b, JInt (co_assignments c b))) all_backends)),
      (''queue_wait_buckets'', JObj (map (\<lambda>w. (wait_bucket_name w, JInt (co_queue_wait c w)))
         [Under1ms, Ms1to10, Ms10to100, Ms100orMore])),
      (''fallback_attempts'', JInt (co_fallback_attempts c)),
      (''fallback_exhausted'', JInt (co_fallback_exhausted c)),
      (''contention_rejections'', JInt (co_contention_rejections c)),
      (''steals'', JInt (co_steals c)),
      (''adaptive_transitions'', JObj (map (\<lambda>t. (transition_name t, JInt (co_adaptive c t)))
         [Applied, Deferred, Ignored]))]"

text \<open>Every counter is between zero and the cap.\<close>

definition count_ok :: "int \<Rightarrow> bool" where "count_ok n \<longleftrightarrow> 0 \<le> n \<and> n \<le> MAX_COUNT"

definition counters_ok :: "counters \<Rightarrow> bool" where
  "counters_ok c \<longleftrightarrow>
     (\<forall>b. count_ok (co_assignments c b)) \<and> (\<forall>w. count_ok (co_queue_wait c w))
     \<and> (\<forall>t. count_ok (co_adaptive c t)) \<and> count_ok (co_fallback_attempts c)
     \<and> count_ok (co_fallback_exhausted c) \<and> count_ok (co_contention_rejections c)
     \<and> count_ok (co_steals c)"

lemma increment_ok: "count_ok n \<Longrightarrow> 0 \<le> a \<Longrightarrow> count_ok (increment n a)"
  by (simp add: count_ok_def increment_def MAX_COUNT_def)

lemma new_counters_ok: "counters_ok new_counters"
  by (simp add: counters_ok_def new_counters_def count_ok_def MAX_COUNT_def)

lemma counters_ok_steps [simp]:
  "counters_ok c \<Longrightarrow> counters_ok (count_assignment b c)"
  "counters_ok c \<Longrightarrow> counters_ok (count_contention_rejection c)"
  "counters_ok c \<Longrightarrow> counters_ok (count_steal c)"
  "counters_ok c \<Longrightarrow> counters_ok (count_transition t c)"
  by (simp_all add: counters_ok_def count_assignment_def count_contention_rejection_def
      count_steal_def count_transition_def increment_ok)

lemma counters_ok_results:
  "counters_ok c \<Longrightarrow> count_queue_wait n c = Inr c' \<Longrightarrow> counters_ok c'"
  "counters_ok c \<Longrightarrow> count_fallback n x c = Inr c' \<Longrightarrow> counters_ok c'"
  by (auto simp: counters_ok_def count_queue_wait_def count_fallback_def Let_def increment_ok
      split: if_splits)

end
