(* ===== verification/DevicePlacement.thy ===== *)
theory DevicePlacement
  imports ProfileStore
begin

text \<open>
  The placement plans of \<open>vllm_apple/device_placement.py\<close>: one measured placement of an operator,
  the plan that holds them with its lifetime and its identifier, and the plan's file with its
  last-known-good copy.  SHA-256 over the JSON text is \<open>digest\<close>, the length of the written text
  \<open>encoded_size\<close>, the clock an argument.  Values of another JSON type than a field declares are
  refused by the parser of the model; \<open>improvement_ratio\<close> keeps its JSON number.  Building a plan
  from a decision is in \<open>DeviceSelection\<close>.
\<close>

definition MAX_DEVICE_PLACEMENTS :: nat where "MAX_DEVICE_PLACEMENTS = 64"
definition MAX_DEVICE_PLACEMENT_BYTES :: int where "MAX_DEVICE_PLACEMENT_BYTES = 256 * 1024"
definition MAX_DEVICE_PLACEMENT_TTL_SECONDS :: int where
  "MAX_DEVICE_PLACEMENT_TTL_SECONDS = 30 * 24 * 60 * 60"

fun number_value :: "json \<Rightarrow> rat option" where
  "number_value (JInt n) = Some (of_int n)"
| "number_value (JBool b) = Some (if b then 1 else 0)"
| "number_value (JFloat (Fin r)) = Some r"
| "number_value _ = None"

definition unit_interval :: "json \<Rightarrow> bool" where
  "unit_interval j = (case number_value j of None \<Rightarrow> False | Some r \<Rightarrow> 0 \<le> r \<and> r < 1)"

record device_placement =
  dp_operator :: string
  dp_phase :: workload_phase
  dp_precision :: string
  dp_dimensions :: "int list"
  dp_batch_size :: int
  dp_backend :: execution_backend
  dp_baseline_backend :: execution_backend
  dp_capability_id :: string
  dp_benchmark_report_id :: string
  dp_improvement_ratio :: json

definition device_placement_ok :: "device_placement \<Rightarrow> bool" where
  "device_placement_ok p \<longleftrightarrow>
     dp_operator p \<noteq> [] \<and> dp_precision p \<noteq> [] \<and> dp_dimensions p \<noteq> [] \<and> 0 < dp_batch_size p \<and>
     length (dp_capability_id p) = 24 \<and> length (dp_benchmark_report_id p) = 24 \<and>
     unit_interval (dp_improvement_ratio p)"

definition device_placement_init :: "device_placement \<Rightarrow> device_placement result" where
  "device_placement_init p =
     (if dp_operator p = [] \<or> dp_precision p = [] \<or> dp_dimensions p = [] \<or> dp_batch_size p \<le> 0
         \<or> length (dp_capability_id p) \<noteq> 24 \<or> length (dp_benchmark_report_id p) \<noteq> 24
         \<or> \<not> unit_interval (dp_improvement_ratio p)
      then Inl (ValueError ''invalid device placement'') else Inr p)"

lemma device_placement_init_iff [guards]:
  "device_placement_init p = Inr p' \<longleftrightarrow> device_placement_ok p \<and> p' = p"
  by (auto simp: device_placement_init_def device_placement_ok_def)

record device_placement_plan =
  pl_hardware_fingerprint :: string
  pl_environment_fingerprint :: string
  pl_placements :: "device_placement list"
  pl_created_at :: int
  pl_valid_until :: int
  pl_plan_id :: string
  pl_schema_version :: int

definition j_ints :: "int list \<Rightarrow> json" where
  "j_ints ns = JList (map JInt ns)"

definition placement_dict :: "device_placement \<Rightarrow> json" where
  "placement_dict p = JObj
     [(''operator'', JStr (dp_operator p)),
      (''phase'', JStr (workload_phase_value (dp_phase p))),
      (''precision'', JStr (dp_precision p)),
      (''dimensions'', j_ints (dp_dimensions p)),
      (''batch_size'', JInt (dp_batch_size p)),
      (''backend'', JStr (execution_backend_value (dp_backend p))),
      (''baseline_backend'', JStr (execution_backend_value (dp_baseline_backend p))),
      (''capability_id'', JStr (dp_capability_id p)),
      (''benchmark_report_id'', JStr (dp_benchmark_report_id p)),
      (''improvement_ratio'', dp_improvement_ratio p)]"

definition placement_plan_id ::
  "(json \<Rightarrow> string) \<Rightarrow> string \<Rightarrow> string \<Rightarrow> device_placement list \<Rightarrow> int \<Rightarrow> int \<Rightarrow> string" where
  "placement_plan_id digest hw env ps created valid_until =
     take 24 (digest (JObj
       [(''schema_version'', JInt 1),
        (''hardware_fingerprint'', JStr hw),
        (''environment_fingerprint'', JStr env),
        (''created_at_unix_seconds'', JInt created),
        (''valid_until_unix_seconds'', JInt valid_until),
        (''placements'', JList (map placement_dict ps))]))"

definition workload_identity ::
  "device_placement \<Rightarrow> string \<times> workload_phase \<times> string \<times> int list \<times> int" where
  "workload_identity p =
     (dp_operator p, dp_phase p, dp_precision p, dp_dimensions p, dp_batch_size p)"

definition placement_plan_ok :: "(json \<Rightarrow> string) \<Rightarrow> device_placement_plan \<Rightarrow> bool" where
  "placement_plan_ok digest p \<longleftrightarrow>
     pl_schema_version p = 1 \<and> pl_hardware_fingerprint p \<noteq> [] \<and> pl_environment_fingerprint p \<noteq> [] \<and>
     1 \<le> length (pl_placements p) \<and> length (pl_placements p) \<le> MAX_DEVICE_PLACEMENTS \<and>
     0 < pl_created_at p \<and> pl_created_at p < pl_valid_until p \<and>
     pl_valid_until p - pl_created_at p \<le> MAX_DEVICE_PLACEMENT_TTL_SECONDS \<and>
     length (pl_plan_id p) = 24 \<and>
     pl_plan_id p = placement_plan_id digest (pl_hardware_fingerprint p)
       (pl_environment_fingerprint p) (pl_placements p) (pl_created_at p) (pl_valid_until p) \<and>
     card (set (map workload_identity (pl_placements p))) = length (pl_placements p)"

definition placement_plan_init ::
  "(json \<Rightarrow> string) \<Rightarrow> device_placement_plan \<Rightarrow> device_placement_plan result" where
  "placement_plan_init digest p =
     (if pl_schema_version p \<noteq> 1 \<or> pl_hardware_fingerprint p = [] \<or> pl_environment_fingerprint p = []
         \<or> \<not> (1 \<le> length (pl_placements p) \<and> length (pl_placements p) \<le> MAX_DEVICE_PLACEMENTS)
         \<or> \<not> (0 < pl_created_at p \<and> pl_created_at p < pl_valid_until p)
         \<or> MAX_DEVICE_PLACEMENT_TTL_SECONDS < pl_valid_until p - pl_created_at p
         \<or> length (pl_plan_id p) \<noteq> 24
         \<or> pl_plan_id p \<noteq> placement_plan_id digest (pl_hardware_fingerprint p)
              (pl_environment_fingerprint p) (pl_placements p) (pl_created_at p) (pl_valid_until p)
        then Inl (ValueError ''invalid device placement plan'')
      else if card (set (map workload_identity (pl_placements p))) \<noteq> length (pl_placements p)
        then Inl (ValueError ''device placement plan contains duplicate workload identities'')
      else Inr p)"

lemma placement_plan_init_iff [guards]:
  "placement_plan_init digest p = Inr p' \<longleftrightarrow> placement_plan_ok digest p \<and> p' = p"
  unfolding placement_plan_init_def placement_plan_ok_def
  by (auto simp: not_less simp del: set_map split: if_splits)

definition plan_fields :: "device_placement_plan \<Rightarrow> (string \<times> json) list" where
  "plan_fields p =
     [(''schema_version'', JInt (pl_schema_version p)),
      (''plan_id'', JStr (pl_plan_id p)),
      (''hardware_fingerprint'', JStr (pl_hardware_fingerprint p)),
      (''environment_fingerprint'', JStr (pl_environment_fingerprint p)),
      (''created_at_unix_seconds'', JInt (pl_created_at p)),
      (''valid_until_unix_seconds'', JInt (pl_valid_until p)),
      (''placements'', JList (map placement_dict (pl_placements p)))]"

definition placement_plan_to_dict :: "device_placement_plan \<Rightarrow> json" where
  "placement_plan_to_dict p = JObj (plan_fields p)"

section \<open>The plan file\<close>

definition save_device_placement_plan ::
  "(json \<Rightarrow> nat) \<Rightarrow> bool \<Rightarrow> device_placement_plan \<Rightarrow> stored_file result" where
  "save_device_placement_plan encoded_size private_directory p =
     (let payload = placement_plan_to_dict p;
          size = int (encoded_size payload)
      in if MAX_DEVICE_PLACEMENT_BYTES < size
           then Inl (ValueError ''device placement plan exceeded 256 KiB'')
         else if \<not> private_directory
           then Inl (ValueError ''device placement directory must be private'')
         else Inr (\<lparr>fa_regular = True, fa_current_user = True, fa_size = size, fa_mode = 0x180\<rparr>,
                   Some payload))"

definition placement_keys :: "string list" where
  "placement_keys =
     [''operator'', ''phase'', ''precision'', ''dimensions'', ''batch_size'', ''backend'',
      ''baseline_backend'', ''capability_id'', ''benchmark_report_id'', ''improvement_ratio'']"

definition plan_keys :: "string list" where
  "plan_keys =
     [''schema_version'', ''plan_id'', ''hardware_fingerprint'', ''environment_fingerprint'',
      ''created_at_unix_seconds'', ''valid_until_unix_seconds'', ''placements'']"

fun j_int_list :: "json \<Rightarrow> int list option" where
  "j_int_list (JList js) = those (map j_int_value js)"
| "j_int_list _ = None"

definition parse_placement_fields :: "(string \<times> json) list \<Rightarrow> device_placement result" where
  "parse_placement_fields d =
     (case (j_str_value (field d ''operator''),
            Option.bind (j_str_value (field d ''phase'')) phase_of_value,
            j_str_value (field d ''precision''), j_int_list (field d ''dimensions''),
            j_int_value (field d ''batch_size''),
            Option.bind (j_str_value (field d ''backend'')) backend_of_value,
            Option.bind (j_str_value (field d ''baseline_backend'')) backend_of_value,
            j_str_value (field d ''capability_id''),
            j_str_value (field d ''benchmark_report_id'')) of
        (Some operator, Some phase, Some precision, Some dims, Some batch, Some b, Some base,
         Some cap, Some rep) \<Rightarrow>
          device_placement_init
            \<lparr>dp_operator = operator, dp_phase = phase, dp_precision = precision,
             dp_dimensions = dims, dp_batch_size = batch, dp_backend = b,
             dp_baseline_backend = base, dp_capability_id = cap, dp_benchmark_report_id = rep,
             dp_improvement_ratio = field d ''improvement_ratio''\<rparr>
      | _ \<Rightarrow> Inl TypeError)"

fun parse_placement :: "json \<Rightarrow> device_placement result" where
  "parse_placement (JObj d) =
     (if set (keys d) \<noteq> set placement_keys then Inl (ValueError ''invalid device placement values'')
      else parse_placement_fields d)"
| "parse_placement _ = Inl (ValueError ''invalid device placement values'')"

fun parse_placements :: "json list \<Rightarrow> device_placement list result" where
  "parse_placements [] = Inr []"
| "parse_placements (j # js) =
     (case parse_placement j of
        Inl e \<Rightarrow> Inl e
      | Inr x \<Rightarrow> (case parse_placements js of Inl e \<Rightarrow> Inl e | Inr xs \<Rightarrow> Inr (x # xs)))"

definition parse_plan ::
  "(json \<Rightarrow> string) \<Rightarrow> (string \<times> json) list \<Rightarrow> string \<Rightarrow> string \<Rightarrow> device_placement_plan result" where
  "parse_plan digest d hw env =
     (case (field d ''placements'', field d ''created_at_unix_seconds'',
            field d ''valid_until_unix_seconds'', field d ''plan_id'', field d ''schema_version'') of
        (JList js, JInt created, JInt valid_until, JStr pid, JInt version) \<Rightarrow>
          (case parse_placements js of
             Inl e \<Rightarrow> Inl e
           | Inr ps \<Rightarrow> placement_plan_init digest
               \<lparr>pl_hardware_fingerprint = hw, pl_environment_fingerprint = env, pl_placements = ps,
                pl_created_at = created, pl_valid_until = valid_until, pl_plan_id = pid,
                pl_schema_version = version\<rparr>)
      | _ \<Rightarrow> Inl (ValueError ''invalid device placement values''))"

definition load_plan_payload ::
  "(json \<Rightarrow> string) \<Rightarrow> string \<Rightarrow> string \<Rightarrow> int \<Rightarrow> (string \<times> json) list \<Rightarrow> device_placement_plan result" where
  "load_plan_payload digest hw env now d =
     (if set (keys d) \<noteq> set plan_keys then Inl (ValueError ''invalid device placement plan fields'')
      else if field d ''hardware_fingerprint'' \<noteq> JStr hw
              \<or> field d ''environment_fingerprint'' \<noteq> JStr env
        then Inl (ValueError ''device placement plan identity mismatch'')
      else (case parse_plan digest d hw env of
        Inl e \<Rightarrow> Inl (ValueError ''invalid device placement plan values'')
      | Inr p \<Rightarrow>
          if now + 300 < pl_created_at p
            then Inl (ValueError ''device placement plan creation time is in the future'')
          else if pl_valid_until p \<le> now then Inl (ValueError ''device placement plan expired'')
          else Inr p))"

definition load_device_placement_plan ::
  "(json \<Rightarrow> string) \<Rightarrow> string \<Rightarrow> string \<Rightarrow> rat \<Rightarrow> stored_file option \<Rightarrow> device_placement_plan result" where
  "load_device_placement_plan digest hw env clock stored =
     (case stored of
        None \<Rightarrow> Inl OSError
      | Some (a, content) \<Rightarrow>
          if \<not> fa_regular a \<or> \<not> fa_current_user a \<or> fa_mode a mod 64 \<noteq> 0
             \<or> MAX_DEVICE_PLACEMENT_BYTES < fa_size a
            then Inl (ValueError ''device placement plan must be a bounded private regular file'')
          else (case content of
            None \<Rightarrow> Inl (ValueError ''JSONDecodeError'')
          | Some (JObj d) \<Rightarrow> load_plan_payload digest hw env (py_trunc clock) d
          | Some _ \<Rightarrow> Inl (ValueError ''invalid device placement plan fields'')))"

definition load_device_placement_with_fallback ::
  "(json \<Rightarrow> string) \<Rightarrow> string \<Rightarrow> string \<Rightarrow> rat \<Rightarrow> profile_store \<Rightarrow> (device_placement_plan \<times> string) result"
where
  "load_device_placement_with_fallback digest hw env clock store =
     load_with_fallback (load_device_placement_plan digest hw env clock) store"

definition promote_device_placement_plan ::
  "(json \<Rightarrow> string) \<Rightarrow> (json \<Rightarrow> nat) \<Rightarrow> bool \<Rightarrow> rat \<Rightarrow> bool \<Rightarrow> device_placement_plan
    \<Rightarrow> (profile_store, unit) method" where
  "promote_device_placement_plan digest encoded_size private_directory clock same_path p =
     promote
       (load_device_placement_plan digest (pl_hardware_fingerprint p) (pl_environment_fingerprint p) clock)
       (save_device_placement_plan encoded_size private_directory) pl_plan_id
       ''device placement current and rollback paths must differ'' same_path p"

section \<open>Reading back what was written\<close>

lemma those_map_Some: "those (map (\<lambda>n. Some (f n)) xs) = Some (map f xs)"
  by (induction xs) simp_all

lemma phase_of_value [simp]: "phase_of_value (workload_phase_value p) = Some p"
  by (cases p) (simp_all add: phase_of_value_def all_phases_def)

lemma parse_placement_dict:
  assumes "device_placement_ok p"
  shows "parse_placement (placement_dict p) = Inr p"
proof -
  have "device_placement_init p = Inr p" using assms by (simp add: guards)
  then show ?thesis
    by (cases p) (simp add: placement_dict_def placement_keys_def parse_placement_fields_def
        field_def j_ints_def comp_def those_map_Some [where f = id, simplified])
qed

lemma parse_placements_dict:
  "\<forall>p\<in>set ps. device_placement_ok p \<Longrightarrow> parse_placements (map placement_dict ps) = Inr ps"
  by (induction ps) (simp_all add: parse_placement_dict)

lemma parse_placement_ok: "parse_placement j = Inr p \<Longrightarrow> device_placement_ok p"
  by (cases j) (auto simp: parse_placement_fields_def guards split: if_splits option.splits)

lemma parse_placements_ok: "parse_placements js = Inr ps \<Longrightarrow> \<forall>p\<in>set ps. device_placement_ok p"
proof (induction js arbitrary: ps)
  case (Cons j js)
  then obtain x xs where "parse_placement j = Inr x" "parse_placements js = Inr xs" "ps = x # xs"
    by (auto split: sum.splits)
  with Cons.IH [of xs] parse_placement_ok [of j x] show ?case by simp
qed simp

text \<open>A plan that may be used with a given dispatcher profile at a given time.\<close>

definition plan_current :: "(json \<Rightarrow> string) \<Rightarrow> string \<Rightarrow> string \<Rightarrow> rat \<Rightarrow> device_placement_plan \<Rightarrow> bool" where
  "plan_current digest hw env clock p \<longleftrightarrow>
     placement_plan_ok digest p \<and> (\<forall>x\<in>set (pl_placements p). device_placement_ok x)
     \<and> pl_hardware_fingerprint p = hw \<and> pl_environment_fingerprint p = env
     \<and> pl_created_at p \<le> py_trunc clock + 300 \<and> py_trunc clock < pl_valid_until p"

lemma load_saved_plan:
  assumes "save_device_placement_plan encoded_size True p = Inr f"
    and "plan_current digest hw env clock p"
  shows "load_device_placement_plan digest hw env clock (Some f) = Inr p"
proof -
  define a where "a = \<lparr>fa_regular = True, fa_current_user = True,
     fa_size = int (encoded_size (placement_plan_to_dict p)), fa_mode = 0x180\<rparr>"
  have "f = (a, Some (placement_plan_to_dict p))
      \<and> int (encoded_size (placement_plan_to_dict p)) \<le> MAX_DEVICE_PLACEMENT_BYTES"
    using assms(1) unfolding save_device_placement_plan_def Let_def a_def by (simp split: if_splits)
  then have f: "f = (a, Some (JObj (plan_fields p)))" and a: "fa_regular a" "fa_current_user a"
      "fa_mode a mod 64 = 0" "fa_size a \<le> MAX_DEVICE_PLACEMENT_BYTES"
    by (simp_all add: a_def placement_plan_to_dict_def)
  have get: "fst ` set (plan_fields p) = set plan_keys"
    "field (plan_fields p) ''hardware_fingerprint'' = JStr (pl_hardware_fingerprint p)"
    "field (plan_fields p) ''environment_fingerprint'' = JStr (pl_environment_fingerprint p)"
    "field (plan_fields p) ''placements'' = JList (map placement_dict (pl_placements p))"
    "field (plan_fields p) ''created_at_unix_seconds'' = JInt (pl_created_at p)"
    "field (plan_fields p) ''valid_until_unix_seconds'' = JInt (pl_valid_until p)"
    "field (plan_fields p) ''plan_id'' = JStr (pl_plan_id p)"
    "field (plan_fields p) ''schema_version'' = JInt (pl_schema_version p)"
    by (simp_all add: plan_fields_def plan_keys_def field_def)
  have p: "placement_plan_ok digest p" "\<forall>x\<in>set (pl_placements p). device_placement_ok x"
    "pl_hardware_fingerprint p = hw" "pl_environment_fingerprint p = env"
    "pl_created_at p \<le> py_trunc clock + 300" "py_trunc clock < pl_valid_until p"
    using assms(2) by (simp_all add: plan_current_def)
  have "\<lparr>pl_hardware_fingerprint = hw, pl_environment_fingerprint = env,
      pl_placements = pl_placements p, pl_created_at = pl_created_at p,
      pl_valid_until = pl_valid_until p, pl_plan_id = pl_plan_id p,
      pl_schema_version = pl_schema_version p\<rparr> = p"
    by (simp add: p(3,4) [symmetric])
  moreover have "placement_plan_init digest p = Inr p" using p(1) by (simp only: guards)
  ultimately have "parse_plan digest (plan_fields p) hw env = Inr p"
    using parse_placements_dict [OF p(2)] by (simp add: parse_plan_def get)
  then show ?thesis
    using a p(5,6)
    by (simp add: load_device_placement_plan_def f load_plan_payload_def get p(3,4))
qed

lemma load_plan_current:
  assumes "load_device_placement_plan digest hw env clock stored = Inr p"
  shows "plan_current digest hw env clock p"
proof -
  obtain a content where s: "stored = Some (a, content)"
    using assms by (cases stored) (auto simp: load_device_placement_plan_def)
  obtain j where j: "content = Some j"
    using assms by (cases content) (simp_all add: load_device_placement_plan_def s split: if_splits)
  obtain d where "j = JObj d"
    using assms by (cases j) (simp_all add: load_device_placement_plan_def s j split: if_splits)
  then have d: "load_plan_payload digest hw env (py_trunc clock) d = Inr p"
    using assms by (simp add: load_device_placement_plan_def s j split: if_splits)
  then have parsed: "parse_plan digest d hw env = Inr p"
    and time: "pl_created_at p \<le> py_trunc clock + 300" "py_trunc clock < pl_valid_until p"
    by (auto simp: load_plan_payload_def split: if_splits sum.splits)
  from parsed obtain js where js: "field d ''placements'' = JList js"
    by (cases "field d ''placements''") (simp_all add: parse_plan_def)
  from parsed js obtain ps where ps: "parse_placements js = Inr ps"
    by (cases "parse_placements js") (auto simp: parse_plan_def split: json.splits)
  have "placement_plan_ok digest p \<and> pl_placements p = ps \<and> pl_hardware_fingerprint p = hw
      \<and> pl_environment_fingerprint p = env"
    using parsed js ps by (auto simp: parse_plan_def guards split: json.splits)
  then show ?thesis
    using time parse_placements_ok [OF ps] by (simp add: plan_current_def)
qed

interpretation placement: evidence_file "load_device_placement_plan digest hw env clock"
  "save_device_placement_plan encoded_size True" "plan_current digest hw env clock"
  for digest hw env clock encoded_size
proof unfold_locales
  fix p f
  show "load_device_placement_plan digest hw env clock None = Inl OSError"
    by (simp add: load_device_placement_plan_def)
  show "save_device_placement_plan encoded_size True p = Inr f \<Longrightarrow> plan_current digest hw env clock p \<Longrightarrow>
      load_device_placement_plan digest hw env clock (Some f) = Inr p"
    by (rule load_saved_plan)
  show "load_device_placement_plan digest hw env clock stored = Inr p \<Longrightarrow>
      plan_current digest hw env clock p" for stored
    by (rule load_plan_current)
qed

section \<open>Properties\<close>

text \<open>A placement plan is loaded only while it may be used: what loads is a valid plan with the
  identifier of its content, made for the asked hardware and environment, not from the future and
  not expired; a saved plan loads back unchanged within its lifetime; and promotion keeps a valid
  previous plan loadable whatever later happens to the current file.\<close>
theorem placement_plan_files:
  assumes "plan_current digest (pl_hardware_fingerprint p) (pl_environment_fingerprint p) clock p"
    and "promote_device_placement_plan digest encoded_size True clock False p store = (Inr (), store')"
  shows "load_device_placement_plan digest (pl_hardware_fingerprint p) (pl_environment_fingerprint p)
        clock (ps_current store') = Inr p
    \<and> (\<forall>stored q. load_device_placement_plan digest hw env clock stored = Inr q \<longrightarrow>
          plan_current digest hw env clock q)
    \<and> (\<forall>old damaged e.
        load_device_placement_plan digest (pl_hardware_fingerprint p) (pl_environment_fingerprint p)
          clock (ps_current store) = Inr old
        \<and> pl_plan_id old \<noteq> pl_plan_id p
        \<and> load_device_placement_plan digest (pl_hardware_fingerprint p)
            (pl_environment_fingerprint p) clock damaged = Inl e \<and> recoverable e
        \<longrightarrow> load_device_placement_with_fallback digest (pl_hardware_fingerprint p)
              (pl_environment_fingerprint p) clock (store'\<lparr>ps_current := damaged\<rparr>)
            = Inr (old, ''last_known_good''))"
  using placement.promoted [OF assms(1), of encoded_size pl_plan_id
      "''device placement current and rollback paths must differ''" False store store'] assms(2)
    load_plan_current
  by (simp add: promote_device_placement_plan_def load_device_placement_with_fallback_def)

definition example_placement :: device_placement where
  "example_placement =
     \<lparr>dp_operator = ''matmul'', dp_phase = Prefill, dp_precision = ''fp16'', dp_dimensions = [8, 8],
      dp_batch_size = 1, dp_backend = NATIVE_MLX, dp_baseline_backend = CPU,
      dp_capability_id = replicate 24 (CHR ''a''), dp_benchmark_report_id = replicate 24 (CHR ''b''),
      dp_improvement_ratio = JFloat (Fin (1 / 2))\<rparr>"

definition example_placement_plan :: device_placement_plan where
  "example_placement_plan =
     \<lparr>pl_hardware_fingerprint = ''m4'', pl_environment_fingerprint = ''env'',
      pl_placements = [example_placement], pl_created_at = 1000, pl_valid_until = 2000,
      pl_plan_id = replicate 24 (CHR ''a''), pl_schema_version = 1\<rparr>"

lemma example_placement_plan_ok:
  "placement_plan_ok example_digest example_placement_plan" "device_placement_ok example_placement"
  by (simp_all add: placement_plan_ok_def example_placement_plan_def placement_plan_id_def
      example_digest_def MAX_DEVICE_PLACEMENTS_def MAX_DEVICE_PLACEMENT_TTL_SECONDS_def
      device_placement_ok_def example_placement_def unit_interval_def)

theorem placement_plan_files_witness:
  "\<exists>store'. promote_device_placement_plan example_digest (\<lambda>_. 400) True 1500 False
       example_placement_plan \<lparr>ps_current = None, ps_last_known_good = None\<rparr> = (Inr (), store')
     \<and> load_device_placement_plan example_digest ''m4'' ''env'' 1500 (ps_current store')
       = Inr example_placement_plan"
proof -
  have id: "pl_hardware_fingerprint example_placement_plan = ''m4''"
    "pl_environment_fingerprint example_placement_plan = ''env''"
    by (simp_all add: example_placement_plan_def)
  have "py_trunc 1500 = 1500" by (simp add: py_trunc_def)
  then have c: "plan_current example_digest ''m4'' ''env'' 1500 example_placement_plan"
    using example_placement_plan_ok by (simp add: plan_current_def example_placement_plan_def)
  obtain store' where s: "promote_device_placement_plan example_digest (\<lambda>_. 400) True 1500 False
       example_placement_plan \<lparr>ps_current = None, ps_last_known_good = None\<rparr> = (Inr (), store')"
    by (simp add: promote_device_placement_plan_def promote_def previous_profile_def keep_previous_def
        save_device_placement_plan_def MAX_DEVICE_PLACEMENT_BYTES_def)
  from placement_plan_files [OF _ s] c s show ?thesis by (simp add: id)
qed

end
