(* ===== verification/Scheduler.thy ===== *)
theory Scheduler
  imports OperatorDispatch DeviceResources MemoryController Observability DevicePlacement
begin

text \<open>
  The state of \<open>BasicScheduler\<close> (\<open>vllm_apple/scheduler.py\<close>), its adaptive policy, the choice of a
  backend and admission.  Methods that hold \<open>_policy_lock\<close> for their whole body are one step
  (a function of the state returning a result and the next state); uuids and clocks are arguments.
  Queue operations, plans and maintenance are in \<open>SchedulerQueueing\<close> and \<open>SchedulerPlans\<close>.
\<close>

section \<open>The adaptive policy\<close>

record adaptive_policy =
  po_pressure :: memory_pressure
  po_thermal :: thermal_state
  po_power :: power_mode
  po_level :: nat
  po_maximum_active_requests :: int
  po_maximum_batch_size :: int

fun pressure_level :: "memory_pressure \<Rightarrow> nat" where
  "pressure_level MP_Critical = 2"
| "pressure_level MP_Warning = 1"
| "pressure_level _ = 0"

fun thermal_level :: "thermal_state \<Rightarrow> nat" where
  "thermal_level TS_Critical = 2"
| "thermal_level TS_Serious = 1"
| "thermal_level _ = 0"

definition preference_level :: "string \<Rightarrow> power_mode \<Rightarrow> nat" where
  "preference_level preference mode =
     (if preference = ''low_power'' \<or> (preference = ''automatic'' \<and> mode = PM_LowPower)
      then 1 else 0)"

definition scheduling_preferences :: "string list" where
  "scheduling_preferences = [''automatic'', ''low_power'', ''high_performance'']"

definition policy_from_inputs ::
  "memory_pressure \<Rightarrow> thermal_state \<Rightarrow> power_mode \<Rightarrow> string \<Rightarrow> adaptive_policy result" where
  "policy_from_inputs pressure thermal mode preference =
     (if preference \<notin> set scheduling_preferences
      then Inl (ValueError ''invalid scheduling preference'')
      else
        let level = max (pressure_level pressure)
                      (max (thermal_level thermal) (preference_level preference mode))
        in Inr \<lparr>po_pressure = pressure, po_thermal = thermal, po_power = mode, po_level = level,
                po_maximum_active_requests = [1024, 2, 1] ! level,
                po_maximum_batch_size = [2147483647, 4, 1] ! level\<rparr>)"

section \<open>The state\<close>

record scheduler =
  sh_hardware :: hardware_info
  sh_memory :: memory_controller
  sh_devices :: device_ledger
  sh_active_plan :: "apple_execution_plan option"
  sh_pending_plan :: "apple_execution_plan option"
  sh_active_placement :: "device_placement_plan option"
  sh_pending_placement :: "device_placement_plan option"
  sh_dispatcher :: "kernel_registry option"
  sh_maintenance_owner :: "string option"
  sh_queue :: schedule_queue
  sh_queued_active :: "(string, reservation) dict"
  sh_counters :: counters
  sh_preference :: string
  sh_policy :: adaptive_policy
  sh_pending_policy :: "adaptive_policy option"

definition device_capacities :: "hardware_info \<Rightarrow> int \<Rightarrow> device_resource \<Rightarrow> int" where
  "device_capacities hw memory_bytes k =
     (case k of
        UnifiedMemory \<Rightarrow> memory_bytes
      | CpuThreads \<Rightarrow> max 1 (hw_logical_cpu_count hw)
      | GpuQueues \<Rightarrow> if hw_is_apple_silicon hw then 4 else 0
      | AneTasks \<Rightarrow> if hw_is_apple_silicon hw then 2 else 0
      | BandwidthSlots \<Rightarrow> if hw_is_apple_silicon hw then 4 else 1)"

definition new_scheduler ::
  "(string \<Rightarrow> string) \<Rightarrow> hardware_info \<Rightarrow> int \<Rightarrow> kernel_registry option \<Rightarrow> int \<Rightarrow> scheduler result" where
  "new_scheduler sha256 hw memory_bytes dispatcher maximum_queued =
     (case new_memory_controller memory_bytes of
        Inl e \<Rightarrow> Inl e
      | Inr memory \<Rightarrow>
     (case contention_profile_id sha256 (hw_soc hw) (hw_os_version hw) (hw_architecture hw) of
        Inl e \<Rightarrow> Inl e
      | Inr profile_id \<Rightarrow>
     (case new_device_ledger (device_capacities hw memory_bytes) profile_id of
        Inl e \<Rightarrow> Inl e
      | Inr devices \<Rightarrow>
     (case new_schedule_queue maximum_queued of
        Inl e \<Rightarrow> Inl e
      | Inr queue \<Rightarrow>
     (case policy_from_inputs (mi_pressure (hw_memory hw)) (hw_thermal_state hw) (hw_power_mode hw)
             ''automatic'' of
        Inl e \<Rightarrow> Inl e
      | Inr policy \<Rightarrow>
          Inr \<lparr>sh_hardware = hw, sh_memory = memory, sh_devices = devices,
               sh_active_plan = None, sh_pending_plan = None,
               sh_active_placement = None, sh_pending_placement = None,
               sh_dispatcher = dispatcher, sh_maintenance_owner = None, sh_queue = queue,
               sh_queued_active = [], sh_counters = new_counters, sh_preference = ''automatic'',
               sh_policy = policy, sh_pending_policy = None\<rparr>)))))"

definition active_reservations :: "scheduler \<Rightarrow> int" where
  "active_reservations s = mq_active_reservations (memory_snapshot (sh_memory s))"

definition has_active_work :: "scheduler \<Rightarrow> bool" where
  "has_active_work s \<longleftrightarrow>
     active_reservations s \<noteq> 0 \<or> ds_active_reservations (device_ledger_snapshot (sh_devices s)) \<noteq> 0"

section \<open>Changing the policy\<close>

definition known :: "'a \<Rightarrow> 'a option \<Rightarrow> 'a \<Rightarrow> 'a" where
  "known unknown given latest =
     (case given of None \<Rightarrow> latest | Some v \<Rightarrow> if v = unknown then latest else v)"

definition update_adaptive_inputs ::
  "memory_pressure option \<Rightarrow> thermal_state option \<Rightarrow> power_mode option \<Rightarrow> (scheduler, transition) method"
where
  "update_adaptive_inputs pressure thermal mode s =
     (let current = sh_policy s;
          latest = (case sh_pending_policy s of None \<Rightarrow> current | Some p \<Rightarrow> p)
      in case policy_from_inputs (known MP_Unknown pressure (po_pressure latest))
                (known TS_Unknown thermal (po_thermal latest))
                (known PM_Unknown mode (po_power latest)) (sh_preference s) of
           Inl e \<Rightarrow> (Inl e, s)
         | Inr proposed \<Rightarrow>
             if proposed = current
               then (Inr Ignored, s\<lparr>sh_pending_policy := None,
                       sh_counters := count_transition Ignored (sh_counters s)\<rparr>)
             else if po_level proposed < po_level current \<and> has_active_work s
               then (Inr Deferred, s\<lparr>sh_pending_policy := Some proposed,
                       sh_counters := count_transition Deferred (sh_counters s)\<rparr>)
             else (Inr Applied, s\<lparr>sh_policy := proposed, sh_pending_policy := None,
                       sh_counters := count_transition Applied (sh_counters s)\<rparr>))"

definition set_scheduling_preference :: "string \<Rightarrow> (scheduler, transition) method" where
  "set_scheduling_preference preference s =
     (if preference \<notin> set scheduling_preferences
      then (Inl (ValueError ''invalid scheduling preference''), s)
      else update_adaptive_inputs None None None (s\<lparr>sh_preference := preference\<rparr>))"

definition apply_pending_adaptive_policy :: "scheduler \<Rightarrow> transition option \<times> scheduler" where
  "apply_pending_adaptive_policy s =
     (case sh_pending_policy s of
        None \<Rightarrow> (None, s)
      | Some p \<Rightarrow>
          if has_active_work s then (Some Deferred, s)
          else (Some Applied, s\<lparr>sh_policy := p, sh_pending_policy := None,
                  sh_counters := count_transition Applied (sh_counters s)\<rparr>))"

definition adaptive_scheduling_snapshot :: "scheduler \<Rightarrow> json" where
  "adaptive_scheduling_snapshot s = JObj
     [(''level'', JInt (int (po_level (sh_policy s)))),
      (''maximum_active_requests'', JInt (po_maximum_active_requests (sh_policy s))),
      (''maximum_batch_size'', JInt (po_maximum_batch_size (sh_policy s))),
      (''pressure'', JStr (memory_pressure_value (po_pressure (sh_policy s)))),
      (''thermal'', JStr (thermal_state_value (po_thermal (sh_policy s)))),
      (''power'', JStr (power_mode_value (po_power (sh_policy s)))),
      (''preference'', JStr (sh_preference s)),
      (''pending_level'', j_option (\<lambda>p. JInt (int (po_level p))) (sh_pending_policy s))]"

section \<open>Choosing a backend\<close>

definition cpu_operators :: "string list" where
  "cpu_operators = [''sampling'', ''tokenization'', ''routing'', ''state_read'', ''state_write'']"

definition metal_operators :: "string list" where
  "metal_operators = [''paged_attention'', ''mla'']"

definition gpu_operators :: "string list" where
  "gpu_operators = [''matmul'', ''gemm'', ''gemv'', ''attention'', ''convolution'', ''image_resize'',
     ''video_decode'']"

definition dispatch_candidates :: "string \<Rightarrow> int \<Rightarrow> execution_backend list" where
  "dispatch_candidates operator batch_size =
     (if operator \<in> set cpu_operators then [CPU]
      else if operator \<in> {''gemv'', ''matmul''} \<and> batch_size = 1 then [CPU, NATIVE_MLX]
      else if operator \<in> set metal_operators then [NATIVE_METAL, NATIVE_MLX, CPU]
      else if operator \<in> set gpu_operators then [NATIVE_MLX, CPU]
      else [CPU])"

definition matching_device_placement :: "schedule_request \<Rightarrow> scheduler \<Rightarrow> device_placement option" where
  "matching_device_placement r s =
     (case (sh_active_placement s, sr_phase r, sr_precision r) of
        (Some p, Some phase, Some precision) \<Rightarrow>
          find (\<lambda>x. dp_operator x = lower (sr_operator r) \<and> dp_phase x = phase
                    \<and> dp_precision x = precision \<and> dp_dimensions x = sr_dimensions r
                    \<and> dp_batch_size x = sr_batch_size r) (pl_placements p)
      | _ \<Rightarrow> None)"

definition dispatch_decision :: "schedule_request \<Rightarrow> scheduler \<Rightarrow> dispatch_decision_record result" where
  "dispatch_decision r s =
     (let operator = lower (sr_operator r);
          base = dispatch_candidates operator (sr_batch_size r);
          placed = (case matching_device_placement r s of
                      None \<Rightarrow> base
                    | Some p \<Rightarrow> dp_backend p # filter (\<lambda>b. b \<noteq> dp_backend p) base);
          candidates = (if po_level (sh_policy s) = 2 then [CPU] else placed)
      in case sh_dispatcher s of
           Some registry \<Rightarrow>
             (case dispatch_request_init \<lparr>dr_operator = operator, dr_candidates = candidates\<rparr> of
                Inl e \<Rightarrow> Inl e | Inr q \<Rightarrow> dispatch registry q)
         | None \<Rightarrow>
             let final = (if \<not> hw_is_apple_silicon (sh_hardware s) then [CPU] else candidates)
             in Inr \<lparr>dd_operator = operator, dd_selected = hd final, dd_fallback_chain = tl final,
                     dd_quarantined = [], dd_unprobed = [], dd_reason = ''legacy_policy''\<rparr>)"

fun runtime_backend :: "execution_backend \<Rightarrow> backend" where
  "runtime_backend CPU = B_CPU"
| "runtime_backend VLLM_METAL = B_METAL"
| "runtime_backend NATIVE_MLX = B_MLX_GPU"
| "runtime_backend NATIVE_METAL = B_METAL"
| "runtime_backend COREML_DRAFT = B_COREML"

definition choose_backend :: "schedule_request \<Rightarrow> scheduler \<Rightarrow> backend result" where
  "choose_backend r s =
     (case dispatch_decision r s of Inl e \<Rightarrow> Inl e | Inr d \<Rightarrow> Inr (runtime_backend (dd_selected d)))"

section \<open>Admission\<close>

definition plan_phase :: "schedule_request \<Rightarrow> workload_phase" where
  "plan_phase r =
     (case sr_phase r of
        Some phase \<Rightarrow> phase
      | None \<Rightarrow> (case phase_of_value (lower (sr_operator r)) of None \<Rightarrow> Auxiliary | Some p \<Rightarrow> p))"

definition plan_batch_limit :: "workload_phase \<Rightarrow> apple_execution_plan \<Rightarrow> int option" where
  "plan_batch_limit phase p =
     (if phase = Prefill then Some (pp_batch_size (ep_prefill p))
      else if phase = Decode then Some (pp_batch_size (ep_decode p))
      else None)"

definition validate_plan_admission :: "schedule_request \<Rightarrow> scheduler \<Rightarrow> unit result" where
  "validate_plan_admission r s =
     (case sh_active_plan s of
        None \<Rightarrow> Inr ()
      | Some p \<Rightarrow>
          (case plan_batch_limit (plan_phase r) p of
             Some limit \<Rightarrow>
               if limit < sr_batch_size r
               then Inl (ExecutionPlanAdmissionError
                      (workload_phase_value (plan_phase r) @ '' batch '' @ show_int (sr_batch_size r)
                       @ '' exceeds active plan limit '' @ show_int limit))
               else Inr ()
           | None \<Rightarrow> Inr ()))"

text \<open>The uuids and the clock an admission reads.\<close>

record admission_inputs =
  ai_memory_id :: string
  ai_device_id :: string
  ai_now :: rat

fun is_contention_error :: "py_error \<Rightarrow> bool" where
  "is_contention_error (DeviceResourceCapacityError m) =
     (contains ''contention_unqualified'' m \<or> contains ''work_steal_unqualified_or_busy'' m)"
| "is_contention_error _ = False"

definition reserve_devices ::
  "string \<Rightarrow> execution_backend \<Rightarrow> int \<Rightarrow> execution_backend option \<Rightarrow> device_ledger
    \<Rightarrow> (device_reservation \<times> device_ledger) result" where
  "reserve_devices uuid b memory_bytes steal_from l =
     (case for_backend b memory_bytes of
        Inl e \<Rightarrow> Inl e | Inr q \<Rightarrow> device_reserve uuid q steal_from l)"

definition admission_check :: "schedule_request \<Rightarrow> scheduler \<Rightarrow> unit result" where
  "admission_check r s =
     (case sh_maintenance_owner s of
        Some owner \<Rightarrow>
          Inl (MaintenanceInProgressError (''scheduler maintenance is active: '' @ owner))
      | None \<Rightarrow>
          (case validate_plan_admission r s of
             Inl e \<Rightarrow> Inl e
           | Inr u \<Rightarrow>
               if po_maximum_batch_size (sh_policy s) < sr_batch_size r
                 then Inl (ExecutionPlanAdmissionError ''request batch exceeds adaptive scheduling limit'')
               else if po_maximum_active_requests (sh_policy s) \<le> active_reservations s
                 then Inl (AdaptiveScheduleCapacityError ''adaptive scheduling concurrency limit reached'')
               else Inr ()))"

definition admit_selected ::
  "admission_inputs \<Rightarrow> schedule_request \<Rightarrow> execution_backend \<Rightarrow> execution_backend option
    \<Rightarrow> (scheduler, reservation) method" where
  "admit_selected ids r b steal_from s =
     (case admission_check r s of
        Inl e \<Rightarrow> (Inl e, s)
      | Inr u \<Rightarrow>
     (case memory_reserve (ai_memory_id ids) (r, runtime_backend b, ai_now ids) (sh_memory s) of
        Inl e \<Rightarrow> (Inl e, s)
      | Inr (v, m) \<Rightarrow>
     (case reserve_devices (ai_device_id ids) b (sr_estimated_memory_bytes r) steal_from (sh_devices s) of
        Inl e \<Rightarrow>
          (Inl e, s\<lparr>sh_memory := snd (memory_release (rv_reservation_id v) m),
             sh_counters := (if is_contention_error e then count_contention_rejection (sh_counters s)
                             else sh_counters s)\<rparr>)
      | Inr (d, l) \<Rightarrow>
          (Inr (v\<lparr>rv_execution_plan_id := map_option ep_plan_id (sh_active_plan s),
                  rv_device_placement_plan_id := map_option pl_plan_id (sh_active_placement s),
                  rv_device_reservation_id := Some (dv_reservation_id d)\<rparr>),
           s\<lparr>sh_memory := m, sh_devices := l,
             sh_counters := count_assignment b (sh_counters s)\<rparr>))))"

definition admit :: "admission_inputs \<Rightarrow> schedule_request \<Rightarrow> (scheduler, reservation) method" where
  "admit ids r s =
     (case dispatch_decision r s of
        Inl e \<Rightarrow> (Inl e, s)
      | Inr d \<Rightarrow> admit_selected ids r (dd_selected d) None s)"

definition release_reservation :: "reservation \<Rightarrow> scheduler \<Rightarrow> scheduler" where
  "release_reservation v s =
     s\<lparr>sh_memory := snd (memory_release (rv_reservation_id v) (sh_memory s)),
       sh_devices := (case rv_device_reservation_id v of
                        None \<Rightarrow> sh_devices s
                      | Some i \<Rightarrow> snd (device_release i (sh_devices s)))\<rparr>"

definition complete :: "reservation \<Rightarrow> scheduler \<Rightarrow> scheduler" where
  "complete v s = snd (apply_pending_adaptive_policy (release_reservation v s))"

section \<open>Running with fallback\<close>

definition prepare_fallback ::
  "reservation option \<Rightarrow> execution_backend \<Rightarrow> (scheduler, unit) method" where
  "prepare_fallback v b s =
     (case v of
        None \<Rightarrow> (Inr (), s)
      | Some w \<Rightarrow>
          (case rv_device_reservation_id w of
             None \<Rightarrow> (Inl (BackendExecutionError ''resource_reservation_missing'' False), s)
           | Some i \<Rightarrow>
               (case (case for_backend b (rv_bytes w) of
                        Inl e \<Rightarrow> Inl e | Inr q \<Rightarrow> transfer i q (sh_devices s)) of
                  Inr (d, l) \<Rightarrow> (Inr (), s\<lparr>sh_devices := l\<rparr>)
                | Inl (DeviceResourceCapacityError m) \<Rightarrow>
                    (Inl (BackendExecutionError ''fallback_resource_unavailable'' True), s)
                | Inl e \<Rightarrow> (Inl e, s))))"

definition record_fallback :: "'a fallback_outcome \<Rightarrow> counters \<Rightarrow> counters result" where
  "record_fallback outcome c =
     (case outcome of
        Exhausted tried \<Rightarrow> count_fallback (int (length tried)) True c
      | Completed v b tried \<Rightarrow>
          count_fallback (int (length (filter (\<lambda>a. at_status a = ''failed'') tried))) False c
      | Raised e \<Rightarrow> Inr c)"

definition execute_with_fallback ::
  "schedule_request \<Rightarrow> (execution_backend \<Rightarrow> (scheduler, 'a) method)
    \<Rightarrow> ('a \<Rightarrow> execution_backend \<Rightarrow> bool result) option \<Rightarrow> reservation option
    \<Rightarrow> scheduler \<Rightarrow> 'a fallback_outcome \<times> scheduler" where
  "execute_with_fallback r operation validate v s =
     (case dispatch_decision r s of
        Inl e \<Rightarrow> (Raised e, s)
      | Inr d \<Rightarrow>
          (case execute_fallback d operation validate (Some (prepare_fallback v)) s of
             (outcome, s') \<Rightarrow>
               (case record_fallback outcome (sh_counters s') of
                  Inl e \<Rightarrow> (Raised e, s')
                | Inr c \<Rightarrow> (outcome, s'\<lparr>sh_counters := c\<rparr>))))"

end
