(* ===== verification/DeviceCapability.thy ===== *)
theory DeviceCapability
  imports KernelProbe
begin

text \<open>
  \<open>vllm_apple/device_capability.py\<close>: which backend may run which operator, phase and precision.  A
  capability is made from a kernel probe's result; the registry keeps one per backend and operator,
  and a request is decided against it.  SHA-256 of the JSON text is \<open>digest\<close>.

  The registry keeps the contract of \<open>profile_registry\<close>.  It does not keep the one of
  \<open>sticky_registry\<close>: the code refuses an available capability only where a quarantined one is
  stored, and the third status, unavailable, lifts a quarantine (see the last property).
\<close>

datatype compute_device = DeviceCPU | DeviceGPU | DeviceANE

fun compute_device_value :: "compute_device \<Rightarrow> string" where
  "compute_device_value DeviceCPU = ''cpu''"
| "compute_device_value DeviceGPU = ''gpu''"
| "compute_device_value DeviceANE = ''ane''"

fun backend_device :: "execution_backend \<Rightarrow> compute_device" where
  "backend_device CPU = DeviceCPU"
| "backend_device VLLM_METAL = DeviceGPU"
| "backend_device NATIVE_MLX = DeviceGPU"
| "backend_device NATIVE_METAL = DeviceGPU"
| "backend_device COREML_DRAFT = DeviceANE"

definition MAX_DEVICE_CAPABILITIES :: int where "MAX_DEVICE_CAPABILITIES = 64"
definition MAX_ELIGIBILITY_VALUES :: nat where "MAX_ELIGIBILITY_VALUES = 128"

definition bounded_text :: "string \<Rightarrow> bool" where
  "bounded_text v \<longleftrightarrow>
     1 \<le> length v \<and> length v \<le> 128 \<and> list_all (\<lambda>c. (0x20::nat) \<le> of_char c) v"

definition bounded_values :: "string list \<Rightarrow> string \<Rightarrow> unit result" where
  "bounded_values values what =
     (if values = [] \<or> MAX_ELIGIBILITY_VALUES < length values \<or> \<not> distinct values
         \<or> \<not> list_all bounded_text values
      then Inl (ValueError (''invalid device capability '' @ what)) else Inr ())"

record device_capability =
  dc_backend :: execution_backend
  dc_device :: compute_device
  dc_backend_version :: string
  dc_hardware_fingerprint :: string
  dc_environment_fingerprint :: string
  dc_operators :: "string list"
  dc_phases :: "workload_phase list"
  dc_precisions :: "string list"
  dc_status :: string
  dc_reason :: string
  dc_evidence_ids :: "string list"
  dc_schema_version :: int

definition field_length_ok :: "string \<Rightarrow> bool" where
  "field_length_ok v \<longleftrightarrow> 1 \<le> length v \<and> length v \<le> 128"

definition evidence_ids_ok :: "string \<Rightarrow> string list \<Rightarrow> bool" where
  "evidence_ids_ok status ids \<longleftrightarrow>
     length ids \<le> MAX_ELIGIBILITY_VALUES \<and> distinct ids
     \<and> list_all (\<lambda>v. length v = 24 \<and> list_all is_hex v) ids
     \<and> \<not> (status = ''available'' \<and> ids = [])"

definition device_capability_init :: "device_capability \<Rightarrow> device_capability result" where
  "device_capability_init c =
     (if dc_schema_version c \<noteq> 1
        then Inl (ValueError ''unsupported device capability schema version'')
      else if backend_device (dc_backend c) \<noteq> dc_device c
        then Inl (ValueError ''backend and compute device do not match'')
      else if \<not> field_length_ok (dc_backend_version c)
        then Inl (ValueError ''invalid device capability backend version'')
      else if \<not> field_length_ok (dc_hardware_fingerprint c)
        then Inl (ValueError ''invalid device capability hardware fingerprint'')
      else if \<not> field_length_ok (dc_environment_fingerprint c)
        then Inl (ValueError ''invalid device capability environment fingerprint'')
      else if \<not> field_length_ok (dc_reason c)
        then Inl (ValueError ''invalid device capability reason'')
      else (case bounded_values (dc_operators c) ''operators'' of
        Inl e \<Rightarrow> Inl e
      | Inr u \<Rightarrow> (case bounded_values (dc_precisions c) ''precisions'' of
        Inl e \<Rightarrow> Inl e
      | Inr u \<Rightarrow>
          if dc_phases c = [] \<or> \<not> distinct (dc_phases c)
            then Inl (ValueError ''invalid device capability phases'')
          else if dc_status c \<notin> {''available'', ''unavailable'', ''quarantined''}
            then Inl (ValueError ''invalid device capability status'')
          else if dc_status c = ''available'' \<and> dc_reason c \<noteq> ''probe_passed''
            then Inl (ValueError ''available capability requires passing probe evidence'')
          else if dc_status c \<noteq> ''available'' \<and> dc_reason c = ''probe_passed''
            then Inl (ValueError ''unusable capability cannot have passing evidence'')
          else if \<not> evidence_ids_ok (dc_status c) (dc_evidence_ids c)
            then Inl (ValueError ''invalid device capability evidence'')
          else Inr c)))"

definition device_capability_to_dict :: "device_capability \<Rightarrow> json" where
  "device_capability_to_dict c = JObj
     [(''backend'', JStr (execution_backend_value (dc_backend c))),
      (''device'', JStr (compute_device_value (dc_device c))),
      (''backend_version'', JStr (dc_backend_version c)),
      (''hardware_fingerprint'', JStr (dc_hardware_fingerprint c)),
      (''environment_fingerprint'', JStr (dc_environment_fingerprint c)),
      (''operators'', j_strings (dc_operators c)),
      (''phases'', j_strings (map workload_phase_value (dc_phases c))),
      (''precisions'', j_strings (dc_precisions c)),
      (''status'', JStr (dc_status c)),
      (''reason'', JStr (dc_reason c)),
      (''evidence_ids'', j_strings (dc_evidence_ids c)),
      (''schema_version'', JInt (dc_schema_version c))]"

definition capability_id :: "(json \<Rightarrow> string) \<Rightarrow> device_capability \<Rightarrow> string" where
  "capability_id digest c = take 24 (digest (device_capability_to_dict c))"

definition device_capability_from_probe ::
  "kernel_probe_result \<Rightarrow> compute_device \<Rightarrow> string \<Rightarrow> workload_phase list \<Rightarrow> string list
    \<Rightarrow> device_capability result" where
  "device_capability_from_probe r device version phases precisions =
     device_capability_init
       \<lparr>dc_backend = kr_backend r, dc_device = device, dc_backend_version = version,
        dc_hardware_fingerprint = kr_hardware_fingerprint r,
        dc_environment_fingerprint = kr_environment_fingerprint r,
        dc_operators = [kr_operator r], dc_phases = phases, dc_precisions = precisions,
        dc_status = (if kr_passed r then ''available'' else ''quarantined''),
        dc_reason = (if kr_passed r then ''probe_passed'' else kr_reason r),
        dc_evidence_ids = [kr_probe_id r], dc_schema_version = 1\<rparr>"

record eligibility_request =
  er_operator :: string
  er_phase :: workload_phase
  er_precision :: string
  er_candidates :: "execution_backend list"

definition eligibility_request_init :: "eligibility_request \<Rightarrow> eligibility_request result" where
  "eligibility_request_init r =
     (case bounded_values [er_operator r] ''operator'' of
        Inl e \<Rightarrow> Inl e
      | Inr u \<Rightarrow> (case bounded_values [er_precision r] ''precision'' of
        Inl e \<Rightarrow> Inl e
      | Inr u \<Rightarrow>
          if er_candidates r = [] \<or> length all_backends < length (er_candidates r)
             \<or> \<not> distinct (er_candidates r)
          then Inl (ValueError ''invalid device eligibility request'') else Inr r))"

record eligibility_decision =
  ed_selected :: execution_backend
  ed_fallback_chain :: "execution_backend list"
  ed_rejected :: "(execution_backend \<times> string) list"

section \<open>The registry\<close>

record capability_registry =
  cg_hardware_fingerprint :: string
  cg_environment_fingerprint :: string
  cg_entries :: "(execution_backend \<times> string, device_capability) dict"

definition new_capability_registry :: "string \<Rightarrow> string \<Rightarrow> capability_registry result" where
  "new_capability_registry hw env =
     (if hw = [] \<or> env = [] then Inl (ValueError ''device registry fingerprints cannot be empty'')
      else Inr \<lparr>cg_hardware_fingerprint = hw, cg_environment_fingerprint = env, cg_entries = []\<rparr>)"

definition capability_key :: "device_capability \<Rightarrow> execution_backend \<times> string" where
  "capability_key c = (dc_backend c, hd (dc_operators c))"

definition record_capability :: "capability_registry \<Rightarrow> device_capability \<Rightarrow> capability_registry result" where
  "record_capability g c =
     (if dc_hardware_fingerprint c \<noteq> cg_hardware_fingerprint g
         \<or> dc_environment_fingerprint c \<noteq> cg_environment_fingerprint g
        then Inl (ValueError ''device capability does not match registry profile'')
      else if length (dc_operators c) \<noteq> 1
        then Inl (ValueError ''device registry entries require exactly one operator'')
      else
        let existing = map_of (cg_entries g) (capability_key c)
        in if (\<exists>e\<in>set_option existing. dc_status e = ''quarantined'' \<and> dc_status c = ''available'')
             then Inl (ValueError ''device capability quarantine is sticky'')
           else if existing = None \<and> MAX_DEVICE_CAPABILITIES \<le> int (length (cg_entries g))
             then Inl (ValueError ''device capability registry is full'')
           else Inr (g\<lparr>cg_entries := AList.update (capability_key c) c (cg_entries g)\<rparr>))"

definition rejection :: "capability_registry \<Rightarrow> eligibility_request \<Rightarrow> execution_backend \<Rightarrow> string option" where
  "rejection g r b =
     (case map_of (cg_entries g) (b, er_operator r) of
        None \<Rightarrow> Some ''unprobed''
      | Some c \<Rightarrow>
          if dc_status c \<noteq> ''available'' then Some (dc_status c)
          else if er_operator r \<notin> set (dc_operators c) then Some ''operator_ineligible''
          else if er_phase r \<notin> set (dc_phases c) then Some ''phase_ineligible''
          else if er_precision r \<notin> set (dc_precisions c) then Some ''precision_ineligible''
          else None)"

definition decide :: "capability_registry \<Rightarrow> eligibility_request \<Rightarrow> eligibility_decision result" where
  "decide g r =
     (let eligible = filter (\<lambda>b. rejection g r b = None) (er_candidates r);
          rejected = map (\<lambda>b. (b, the (rejection g r b)))
                       (filter (\<lambda>b. rejection g r b \<noteq> None) (er_candidates r))
      in case eligible of
           [] \<Rightarrow> Inl (RuntimeError ''device capability fallback chain is exhausted'')
         | b # bs \<Rightarrow> Inr \<lparr>ed_selected = b, ed_fallback_chain = bs, ed_rejected = rejected\<rparr>)"

definition capability_snapshot :: "capability_registry \<Rightarrow> device_capability list" where
  "capability_snapshot g = map (\<lambda>k. the (map_of (cg_entries g) k)) (sort (keys (cg_entries g)))"

definition compose_one ::
  "(execution_backend, string) dict \<Rightarrow> (string, workload_phase list) dict \<Rightarrow> (string, string list) dict
    \<Rightarrow> capability_registry \<Rightarrow> kernel_probe_result \<Rightarrow> capability_registry result" where
  "compose_one versions phases_by_operator precisions_by_operator g r =
     (case (map_of versions (kr_backend r), map_of phases_by_operator (kr_operator r),
            map_of precisions_by_operator (kr_operator r)) of
        (Some version, Some phases, Some precisions) \<Rightarrow>
          (case device_capability_from_probe r (backend_device (kr_backend r)) version phases precisions of
             Inl e \<Rightarrow> Inl e | Inr c \<Rightarrow> record_capability g c)
      | _ \<Rightarrow> Inl (ValueError ''device capability composition metadata is incomplete''))"

definition compose_device_capability_registry ::
  "kernel_registry \<Rightarrow> (execution_backend, string) dict \<Rightarrow> (string, workload_phase list) dict
    \<Rightarrow> (string, string list) dict \<Rightarrow> capability_registry result" where
  "compose_device_capability_registry k versions phases_by_operator precisions_by_operator =
     (case new_capability_registry (rg_hardware_fingerprint k) (rg_environment_fingerprint k) of
        Inl e \<Rightarrow> Inl e
      | Inr g \<Rightarrow> fold_result (compose_one versions phases_by_operator precisions_by_operator) g
                   (registry_snapshot k))"

section \<open>The registry as a profile registry\<close>

definition fits_capability_profile :: "capability_registry \<Rightarrow> device_capability \<Rightarrow> bool" where
  "fits_capability_profile g c \<longleftrightarrow> dc_hardware_fingerprint c = cg_hardware_fingerprint g
     \<and> dc_environment_fingerprint c = cg_environment_fingerprint g"

lemma record_capability_Inr:
  "record_capability g c = Inr g' \<longleftrightarrow>
     fits_capability_profile g c \<and> length (dc_operators c) = 1
     \<and> \<not> (\<exists>e. map_of (cg_entries g) (capability_key c) = Some e
             \<and> dc_status e = ''quarantined'' \<and> dc_status c = ''available'')
     \<and> (map_of (cg_entries g) (capability_key c) = None \<longrightarrow> int (length (cg_entries g)) < 64)
     \<and> g' = g\<lparr>cg_entries := AList.update (capability_key c) c (cg_entries g)\<rparr>"
  by (auto simp: record_capability_def fits_capability_profile_def MAX_DEVICE_CAPABILITIES_def
      Let_def not_le split: if_splits)

interpretation capability_registry: profile_registry record_capability
  "\<lambda>g. map_of (cg_entries g)" capability_key fits_capability_profile
  by unfold_locales
    (auto simp: record_capability_Inr update_conv' fits_capability_profile_def fun_eq_iff)

lemma device_capability_from_probe_Inr:
  assumes "device_capability_from_probe r device version phases precisions = Inr c"
  shows "dc_backend c = kr_backend r" "dc_operators c = [kr_operator r]"
    "dc_status c = (if kr_passed r then ''available'' else ''quarantined'')"
    "dc_phases c = phases" "dc_precisions c = precisions"
  using assms
  by (auto simp: device_capability_from_probe_def device_capability_init_def split: if_splits sum.splits)

section \<open>Properties\<close>

text \<open>A decision is justified by recorded evidence.  After any sequence of recordings into an
  empty registry, every backend a decision selects or keeps as a fallback has a recorded capability
  of the registry's profile for exactly that operator, available, with the requested phase and
  precision; the selected backend and the fallbacks are the eligible candidates in order, and every
  other candidate is rejected with a reason.\<close>
theorem decisions_have_evidence:
  assumes "cg_entries g = []" and "decide (attempts record_capability g cs) r = Inr d"
  shows "(\<forall>b\<in>set (ed_selected d # ed_fallback_chain d). \<exists>c\<in>set cs.
        capability_key c = (b, er_operator r) \<and> fits_capability_profile g c
        \<and> dc_status c = ''available'' \<and> er_phase r \<in> set (dc_phases c)
        \<and> er_precision r \<in> set (dc_precisions c))
    \<and> set (er_candidates r)
        = set (ed_selected d # ed_fallback_chain d) \<union> fst ` set (ed_rejected d)"
proof -
  define h where "h = attempts record_capability g cs"
  have chain: "ed_selected d # ed_fallback_chain d = filter (\<lambda>b. rejection h r b = None) (er_candidates r)"
    and rej: "fst ` set (ed_rejected d) = {b \<in> set (er_candidates r). rejection h r b \<noteq> None}"
    using assms(2) unfolding h_def [symmetric] by (auto simp: decide_def Let_def image_iff split: list.splits)
  have "\<exists>c\<in>set cs. capability_key c = (b, er_operator r) \<and> fits_capability_profile g c
        \<and> dc_status c = ''available'' \<and> er_phase r \<in> set (dc_phases c)
        \<and> er_precision r \<in> set (dc_precisions c)"
    if "b \<in> set (ed_selected d # ed_fallback_chain d)" for b
  proof -
    have "rejection h r b = None" using that unfolding chain by simp
    then obtain c where c: "map_of (cg_entries h) (b, er_operator r) = Some c"
      "dc_status c = ''available''" "er_phase r \<in> set (dc_phases c)"
      "er_precision r \<in> set (dc_precisions c)"
      by (auto simp: rejection_def split: option.splits if_splits)
    have "c \<in> set cs \<and> capability_key c = (b, er_operator r) \<and> fits_capability_profile g c"
      using capability_registry.provenance [of g cs "(b, er_operator r)" c] c(1) assms(1)
      by (simp add: h_def)
    with c show ?thesis by blast
  qed
  moreover have "set (er_candidates r)
      = set (ed_selected d # ed_fallback_chain d) \<union> fst ` set (ed_rejected d)"
    unfolding chain rej by auto
  ultimately show ?thesis by blast
qed

definition example_capability :: "string \<Rightarrow> string \<Rightarrow> device_capability" where
  "example_capability status reason =
     \<lparr>dc_backend = COREML_DRAFT, dc_device = DeviceANE, dc_backend_version = ''1'',
      dc_hardware_fingerprint = ''m4'', dc_environment_fingerprint = ''env'',
      dc_operators = [''vision''], dc_phases = [Auxiliary], dc_precisions = [''fp16''],
      dc_status = status, dc_reason = reason,
      dc_evidence_ids = [replicate 24 (CHR ''a'')], dc_schema_version = 1\<rparr>"

definition example_capability_registry :: capability_registry where
  "example_capability_registry =
     \<lparr>cg_hardware_fingerprint = ''m4'', cg_environment_fingerprint = ''env'', cg_entries = []\<rparr>"

definition example_eligibility :: eligibility_request where
  "example_eligibility = \<lparr>er_operator = ''vision'', er_phase = Auxiliary, er_precision = ''fp16'',
     er_candidates = [COREML_DRAFT]\<rparr>"

theorem decisions_have_evidence_witness:
  "\<exists>d. decide (attempts record_capability example_capability_registry
          [example_capability ''available'' ''probe_passed'']) example_eligibility = Inr d
     \<and> (\<exists>c\<in>{example_capability ''available'' ''probe_passed''}. capability_key c = (ed_selected d, ''vision''))"
proof -
  let ?cs = "[example_capability ''available'' ''probe_passed'']"
  obtain d where d: "decide (attempts record_capability example_capability_registry ?cs)
      example_eligibility = Inr d"
    by (simp add: attempt_def record_capability_def decide_def rejection_def example_eligibility_def
        example_capability_registry_def example_capability_def capability_key_def
        MAX_DEVICE_CAPABILITIES_def)
  from decisions_have_evidence [OF _ d] d show ?thesis
    by (auto simp: example_capability_registry_def example_eligibility_def)
qed

text \<open>Quarantine in the device registry is not sticky.  Each of these three capabilities passes
  its constructor check; recording an available one over a quarantined one is refused, but
  recording an unavailable one first lifts the quarantine, and the backend is selected again.\<close>
theorem unavailable_lifts_quarantine:
  "device_capability_init (example_capability ''quarantined'' ''probe_error'')
      = Inr (example_capability ''quarantined'' ''probe_error'')
   \<and> device_capability_init (example_capability ''unavailable'' ''offline'')
      = Inr (example_capability ''unavailable'' ''offline'')
   \<and> device_capability_init (example_capability ''available'' ''probe_passed'')
      = Inr (example_capability ''available'' ''probe_passed'')
   \<and> fold_result record_capability example_capability_registry
       [example_capability ''quarantined'' ''probe_error'', example_capability ''available'' ''probe_passed'']
      = Inl (ValueError ''device capability quarantine is sticky'')
   \<and> (\<exists>g d. fold_result record_capability example_capability_registry
        [example_capability ''quarantined'' ''probe_error'', example_capability ''unavailable'' ''offline'',
         example_capability ''available'' ''probe_passed''] = Inr g
      \<and> decide g example_eligibility = Inr d \<and> ed_selected d = COREML_DRAFT)"
proof -
  let ?q = "example_capability ''quarantined'' ''probe_error''"
  let ?u = "example_capability ''unavailable'' ''offline''"
  let ?a = "example_capability ''available'' ''probe_passed''"
  let ?key = "(COREML_DRAFT, ''vision'')"
  let ?g = "\<lambda>c. example_capability_registry\<lparr>cg_entries := [(?key, c)]\<rparr>"
  have names: "bounded_values [''vision''] w = Inr ()" "bounded_values [''fp16''] w = Inr ()" for w
    by (simp_all add: bounded_values_def bounded_text_def MAX_ELIGIBILITY_VALUES_def)
  have ids: "evidence_ids_ok st [replicate 24 (CHR ''a'')]" for st
    by (simp add: evidence_ids_ok_def MAX_ELIGIBILITY_VALUES_def is_hex_def list_all_iff)
  have init: "device_capability_init ?q = Inr ?q" "device_capability_init ?u = Inr ?u"
    "device_capability_init ?a = Inr ?a"
    by (simp_all add: device_capability_init_def example_capability_def names ids field_length_ok_def)
  have steps: "record_capability example_capability_registry ?q = Inr (?g ?q)"
    "record_capability (?g ?q) ?u = Inr (?g ?u)" "record_capability (?g ?u) ?a = Inr (?g ?a)"
    "record_capability (?g ?q) ?a = Inl (ValueError ''device capability quarantine is sticky'')"
    by (simp_all add: record_capability_def example_capability_def example_capability_registry_def
        capability_key_def MAX_DEVICE_CAPABILITIES_def)
  have "decide (?g ?a) example_eligibility
      = Inr \<lparr>ed_selected = COREML_DRAFT, ed_fallback_chain = [], ed_rejected = []\<rparr>"
    by (simp add: decide_def rejection_def example_eligibility_def example_capability_def
        example_capability_registry_def)
  moreover have "fold_result record_capability example_capability_registry [?q, ?u, ?a] = Inr (?g ?a)"
    by (simp add: steps)
  ultimately show ?thesis using init by (simp add: steps)
qed

end
