(* ===== verification/DevicePipeline.thy ===== *)
theory DevicePipeline
  imports DeviceCapability DeviceResources
begin

text \<open>
  \<open>vllm_apple/device_pipeline.py\<close> and the request context of \<open>vllm_apple/inference_request.py\<close>: the
  parallel pipeline whose stages are admitted to the device ledger as one group, the evidence an
  ANE route needs, and the asynchronous encoder pipeline, which reserves the ANE, releases it, and
  only then reserves the GPU.

  A callback is what calling it ends in (a result); what other threads do to the ledger while a
  callback runs is a function on the ledger, so that every interleaving is some choice of these
  functions.  The clock and the uuids are arguments.  The thread pool of the encoder pipeline is
  the list of its outstanding jobs: \<open>submit\<close> adds one, and a job leaves the list when it has run or
  is cancelled, which is when its done-callback gives the slot back.
\<close>

section \<open>The parallel pipeline\<close>

record 'a pipeline_stage =
  pg_name :: string
  pg_backend :: execution_backend
  pg_unified_memory_bytes :: int
  pg_operation :: "'a result"

definition pipeline_stage_init :: "'a pipeline_stage \<Rightarrow> 'a pipeline_stage result" where
  "pipeline_stage_init g =
     (if pg_name g = [] \<or> 128 < length (pg_name g) \<or> pg_unified_memory_bytes g < 0
      then Inl (ValueError ''invalid device pipeline stage'') else Inr g)"

record 'a pipeline_result =
  px_outputs :: "'a list"
  px_backends :: "execution_backend list"
  px_elapsed_nanoseconds :: int

fun all_results :: "'a result list \<Rightarrow> 'a list result" where
  "all_results [] = Inr []"
| "all_results (r # rs) =
     (case r of Inl e \<Rightarrow> Inl e
      | Inr x \<Rightarrow> (case all_results rs of Inl e \<Rightarrow> Inl e | Inr xs \<Rightarrow> Inr (x # xs)))"

definition pipeline_reserve ::
  "string list \<Rightarrow> 'a pipeline_stage list \<Rightarrow> device_ledger
    \<Rightarrow> (device_reservation list \<times> device_ledger) result" where
  "pipeline_reserve uuids stages l =
     (if \<not> (2 \<le> length stages \<and> length stages \<le> 3) \<or> \<not> distinct (map pg_name stages)
         \<or> \<not> distinct (map pg_backend stages)
      then Inl (ValueError ''pipeline requires two or three unique stages and backends'')
      else (case all_results (map (\<lambda>g. for_backend (pg_backend g) (pg_unified_memory_bytes g)) stages) of
              Inl e \<Rightarrow> Inl e | Inr qs \<Rightarrow> reserve_many uuids qs l))"

fun pipeline_release :: "device_reservation list \<Rightarrow> device_ledger \<Rightarrow> device_ledger" where
  "pipeline_release [] l = l"
| "pipeline_release (v # vs) l = pipeline_release vs (snd (device_release (dv_reservation_id v) l))"

definition pipeline_outcome ::
  "'a pipeline_stage list \<Rightarrow> int \<Rightarrow> int \<Rightarrow> 'a pipeline_result result" where
  "pipeline_outcome stages started finished =
     (case all_results (map pg_operation stages) of
        Inl e \<Rightarrow> Inl e
      | Inr outputs \<Rightarrow> Inr \<lparr>px_outputs = outputs, px_backends = map pg_backend stages,
                          px_elapsed_nanoseconds = max 1 (finished - started)\<rparr>)"

definition pipeline_execute ::
  "string list \<Rightarrow> 'a pipeline_stage list \<Rightarrow> (device_ledger \<Rightarrow> device_ledger) \<Rightarrow> int \<Rightarrow> int
    \<Rightarrow> (device_ledger, 'a pipeline_result) method" where
  "pipeline_execute uuids stages others started finished l =
     (case pipeline_reserve uuids stages l of
        Inl e \<Rightarrow> (Inl e, l)
      | Inr (vs, l') \<Rightarrow> (pipeline_outcome stages started finished, pipeline_release vs (others l')))"

section \<open>Routes to the ANE\<close>

datatype ane_workload = VisionEncoder | AudioEncoder | Embedding | Classifier

fun ane_workload_value :: "ane_workload \<Rightarrow> string" where
  "ane_workload_value VisionEncoder = ''vision_encoder''"
| "ane_workload_value AudioEncoder = ''audio_encoder''"
| "ane_workload_value Embedding = ''embedding''"
| "ane_workload_value Classifier = ''classifier''"

record ane_route =
  ar_workload :: ane_workload
  ar_operator :: string
  ar_precision :: string
  ar_capability_id :: string

definition require_ane_auxiliary_route ::
  "(json \<Rightarrow> string) \<Rightarrow> capability_registry \<Rightarrow> ane_workload \<Rightarrow> string \<Rightarrow> string \<Rightarrow> ane_route result" where
  "require_ane_auxiliary_route digest registry workload operator precision =
     (if \<not> starts_with (ane_workload_value workload @ ''@'') operator
      then Inl (ValueError ''ANE auxiliary operator does not match workload'')
      else (case eligibility_request_init \<lparr>er_operator = operator, er_phase = Auxiliary,
                   er_precision = precision, er_candidates = [COREML_DRAFT]\<rparr> of
        Inl e \<Rightarrow> Inl e
      | Inr request \<Rightarrow> (case decide registry request of
        Inl e \<Rightarrow> Inl e
      | Inr decision \<Rightarrow>
          (case find (\<lambda>c. dc_backend c = ed_selected decision \<and> dc_operators c = [operator])
                  (capability_snapshot registry) of
             Some c \<Rightarrow>
               if dc_status c = ''available''
               then Inr \<lparr>ar_workload = workload, ar_operator = operator, ar_precision = precision,
                         ar_capability_id = capability_id digest c\<rparr>
               else Inl (RuntimeError ''ANE auxiliary capability evidence is unavailable'')
           | None \<Rightarrow> Inl (RuntimeError ''ANE auxiliary capability evidence is unavailable'')))))"

section \<open>The request context\<close>

record inference_context =
  ic_request_id :: string
  ic_deadline :: xfloat

definition inference_context_init :: "inference_context \<Rightarrow> inference_context result" where
  "inference_context_init c =
     (if \<not> (1 \<le> length (ic_request_id c) \<and> length (ic_request_id c) \<le> 128)
         \<or> \<not> isfinite (ic_deadline c)
      then Inl (ValueError ''invalid inference request context'') else Inr c)"

definition remaining_seconds :: "rat \<Rightarrow> inference_context \<Rightarrow> rat" where
  "remaining_seconds now c = max 0 (fin_val (ic_deadline c) - now)"

text \<open>One reading of the cancellation signal and of the clock.\<close>

definition raise_if_cancelled :: "bool \<times> rat \<Rightarrow> inference_context \<Rightarrow> unit result" where
  "raise_if_cancelled reading c =
     (if fst reading then Inl (RuntimeError ''inference request client disconnected'')
      else if remaining_seconds (snd reading) c \<le> 0
        then Inl (RuntimeError ''inference request timed out'')
      else Inr ())"

section \<open>The encoder pipeline\<close>

record ('e, 'a) encoder_job =
  ej_route :: ane_route
  ej_encoder_memory_bytes :: int
  ej_llm_backend :: execution_backend
  ej_llm_memory_bytes :: int
  ej_encode :: "'e result"
  ej_consume :: "'e \<Rightarrow> 'a result"

record ('e, 'a) encoder_pipeline =
  ea_ledger :: device_ledger
  ea_registry :: capability_registry
  ea_maximum_pending :: int
  ea_slots :: int
  ea_jobs :: "(string, ('e, 'a) encoder_job) dict"
  ea_closed :: bool

definition gpu_backends :: "execution_backend list" where
  "gpu_backends = [VLLM_METAL, NATIVE_MLX, NATIVE_METAL]"

definition new_encoder_pipeline ::
  "device_ledger \<Rightarrow> capability_registry \<Rightarrow> int \<Rightarrow> ('e, 'a) encoder_pipeline result" where
  "new_encoder_pipeline l registry maximum_pending =
     (if \<not> (1 \<le> maximum_pending \<and> maximum_pending \<le> 64)
      then Inl (ValueError ''invalid asynchronous encoder pipeline configuration'')
      else Inr \<lparr>ea_ledger = l, ea_registry = registry, ea_maximum_pending = maximum_pending,
                ea_slots = maximum_pending, ea_jobs = [], ea_closed = False\<rparr>)"

definition current_job ::
  "(json \<Rightarrow> string) \<Rightarrow> ('e, 'a) encoder_job \<Rightarrow> ('e, 'a) encoder_pipeline \<Rightarrow> unit result" where
  "current_job digest j p =
     (if ej_llm_backend j \<notin> set gpu_backends \<or> ej_encoder_memory_bytes j < 0 \<or> ej_llm_memory_bytes j < 0
      then Inl (ValueError ''invalid encoder LLM pipeline request'')
      else (case require_ane_auxiliary_route digest (ea_registry p) (ar_workload (ej_route j))
                   (ar_operator (ej_route j)) (ar_precision (ej_route j)) of
              Inl e \<Rightarrow> Inl e
            | Inr current \<Rightarrow>
                if ar_capability_id current \<noteq> ar_capability_id (ej_route j)
                then Inl (RuntimeError ''ANE auxiliary capability evidence is stale'')
                else Inr ()))"

definition acquire_slot :: "(('e, 'a) encoder_pipeline, unit) method" where
  "acquire_slot p =
     (if ea_closed p then (Inl (RuntimeError ''encoder LLM pipeline is closed''), p)
      else if ea_slots p = 0 then (Inl (RuntimeError ''encoder LLM pipeline queue is full''), p)
      else (Inr (), p\<lparr>ea_slots := ea_slots p - 1\<rparr>))"

text \<open>\<open>submit\<close>: the future is named by the job's identifier; when the pool refuses the job
  (\<open>accepted\<close> is false) the slot is given back and the pool's error is raised.\<close>

definition submit_encoder ::
  "(json \<Rightarrow> string) \<Rightarrow> string \<Rightarrow> bool \<Rightarrow> ('e, 'a) encoder_job
    \<Rightarrow> (('e, 'a) encoder_pipeline, string) method" where
  "submit_encoder digest i accepted j p =
     (case current_job digest j p of
        Inl e \<Rightarrow> (Inl e, p)
      | Inr u \<Rightarrow>
     (case acquire_slot p of
        (Inl e, p') \<Rightarrow> (Inl e, p')
      | (Inr u, p') \<Rightarrow>
          if \<not> accepted then (Inl (RuntimeError ''cannot schedule new futures''), p'\<lparr>ea_slots := ea_slots p' + 1\<rparr>)
          else (Inr i, p'\<lparr>ea_jobs := AList.update i j (ea_jobs p')\<rparr>)))"

record 'a encoder_result =
  ex_output :: 'a
  ex_encoder_backend :: execution_backend
  ex_llm_backend :: execution_backend
  ex_capability_id :: string
  ex_elapsed_nanoseconds :: int

text \<open>The uuids, the clock and the other threads a run of \<open>_execute\<close> sees: during the encoding,
  between the release of the ANE and the reservation of the GPU, and during the consumption.\<close>

record encoder_run =
  en_encoder_id :: string
  en_llm_id :: string
  en_while_encoding :: "device_ledger \<Rightarrow> device_ledger"
  en_between :: "device_ledger \<Rightarrow> device_ledger"
  en_while_consuming :: "device_ledger \<Rightarrow> device_ledger"
  en_started :: int
  en_finished :: int

definition reserve_backend ::
  "string \<Rightarrow> execution_backend \<Rightarrow> int \<Rightarrow> device_ledger \<Rightarrow> (device_reservation \<times> device_ledger) result"
where
  "reserve_backend uuid b memory_bytes l =
     (case for_backend b memory_bytes of
        Inl e \<Rightarrow> Inl e | Inr q \<Rightarrow> device_reserve uuid q None l)"

definition execute_encoder ::
  "encoder_run \<Rightarrow> ('e, 'a) encoder_job \<Rightarrow> (device_ledger, 'a encoder_result) method" where
  "execute_encoder n j l =
     (case reserve_backend (en_encoder_id n) COREML_DRAFT (ej_encoder_memory_bytes j) l of
        Inl e \<Rightarrow> (Inl e, l)
      | Inr (v, l1) \<Rightarrow>
          let l2 = snd (device_release (dv_reservation_id v) (en_while_encoding n l1))
          in case ej_encode j of
               Inl e \<Rightarrow> (Inl e, l2)
             | Inr encoded \<Rightarrow>
                 let l3 = en_between n l2
                 in case reserve_backend (en_llm_id n) (ej_llm_backend j) (ej_llm_memory_bytes j) l3 of
                      Inl e \<Rightarrow> (Inl e, l3)
                    | Inr (w, l4) \<Rightarrow>
                        let l5 = snd (device_release (dv_reservation_id w) (en_while_consuming n l4))
                        in (case ej_consume j encoded of
                              Inl e \<Rightarrow> (Inl e, l5)
                            | Inr out \<Rightarrow>
                                (Inr \<lparr>ex_output = out, ex_encoder_backend = COREML_DRAFT,
                                      ex_llm_backend = ej_llm_backend j,
                                      ex_capability_id = ar_capability_id (ej_route j),
                                      ex_elapsed_nanoseconds = max 1 (en_finished n - en_started n)\<rparr>,
                                 l5)))"

text \<open>A worker runs an outstanding job; its done-callback releases the slot.\<close>

definition run_job ::
  "encoder_run \<Rightarrow> string \<Rightarrow> ('e, 'a) encoder_pipeline
    \<Rightarrow> 'a encoder_result result option \<times> ('e, 'a) encoder_pipeline" where
  "run_job n i p =
     (case map_of (ea_jobs p) i of
        None \<Rightarrow> (None, p)
      | Some j \<Rightarrow>
          (case execute_encoder n j (ea_ledger p) of
             (r, l) \<Rightarrow> (Some r, p\<lparr>ea_ledger := l, ea_jobs := AList.delete i (ea_jobs p),
                                 ea_slots := ea_slots p + 1\<rparr>)))"

text \<open>\<open>execute_inline\<close>; the context is checked before the encoding and around the consumption, with
  three readings of the signal and the clock.\<close>

definition consume_checked ::
  "(bool \<times> rat) \<times> (bool \<times> rat) \<Rightarrow> inference_context \<Rightarrow> ('e \<Rightarrow> 'a result) \<Rightarrow> 'e \<Rightarrow> 'a result" where
  "consume_checked readings c consume v =
     (case raise_if_cancelled (fst readings) c of
        Inl e \<Rightarrow> Inl e
      | Inr u \<Rightarrow> (case consume v of
        Inl e \<Rightarrow> Inl e
      | Inr out \<Rightarrow> (case raise_if_cancelled (snd readings) c of Inl e \<Rightarrow> Inl e | Inr u \<Rightarrow> Inr out)))"

definition execute_inline ::
  "(json \<Rightarrow> string) \<Rightarrow> encoder_run \<Rightarrow> (inference_context \<times> (bool \<times> rat) \<times> (bool \<times> rat) \<times> (bool \<times> rat)) option
    \<Rightarrow> ('e, 'a) encoder_job \<Rightarrow> (('e, 'a) encoder_pipeline, 'a encoder_result) method" where
  "execute_inline digest n checked j p =
     (case current_job digest j p of
        Inl e \<Rightarrow> (Inl e, p)
      | Inr u \<Rightarrow>
     (case acquire_slot p of
        (Inl e, p') \<Rightarrow> (Inl e, p')
      | (Inr u, p') \<Rightarrow>
          (case (case checked of None \<Rightarrow> Inr () | Some (c, first, rest) \<Rightarrow> raise_if_cancelled first c) of
             Inl e \<Rightarrow> (Inl e, p'\<lparr>ea_slots := ea_slots p' + 1\<rparr>)
           | Inr u \<Rightarrow>
               (case execute_encoder n
                       (case checked of None \<Rightarrow> j
                        | Some (c, first, rest) \<Rightarrow> j\<lparr>ej_consume := consume_checked rest c (ej_consume j)\<rparr>)
                       (ea_ledger p') of
                  (r, l) \<Rightarrow> (r, p'\<lparr>ea_ledger := l, ea_slots := ea_slots p' + 1\<rparr>)))))"

text \<open>\<open>close\<close> cancels every job that has not started; the callbacks of the cancelled jobs give their
  slots back.\<close>

definition close_encoder :: "('e, 'a) encoder_pipeline \<Rightarrow> ('e, 'a) encoder_pipeline" where
  "close_encoder p =
     (if ea_closed p then p
      else p\<lparr>ea_closed := True, ea_jobs := [], ea_slots := ea_slots p + int (length (ea_jobs p))\<rparr>)"

section \<open>The ledger after a pipeline\<close>

lemma device_release_keys:
  "set (keys (dl_reservations (snd (device_release i l)))) = set (keys (dl_reservations l)) - {i}"
proof (cases "map_of (dl_reservations l) i")
  case None
  then have "i \<notin> set (keys (dl_reservations l))" by (simp add: map_of_eq_None_iff)
  with None show ?thesis by (simp add: device_release_def)
next
  case (Some q)
  then show ?thesis by (simp add: device_release_def keys_delete [simplified])
qed

lemma pipeline_release_keys:
  "set (keys (dl_reservations (pipeline_release vs l)))
     = set (keys (dl_reservations l)) - dv_reservation_id ` set vs"
  by (induction vs arbitrary: l) (auto simp: device_release_keys [simplified])

lemma pipeline_release_ok: "ledger_ok l \<Longrightarrow> ledger_ok (pipeline_release vs l)"
  by (induction vs arbitrary: l) (simp_all add: devices.release_ok)

lemma all_results_Inr: "all_results rs = Inr xs \<longleftrightarrow> rs = map Inr xs"
proof
  show "all_results rs = Inr xs \<Longrightarrow> rs = map Inr xs"
    by (induction rs arbitrary: xs) (auto split: sum.splits)
  show "rs = map Inr xs \<Longrightarrow> all_results rs = Inr xs"
    by (induction xs arbitrary: rs) auto
qed

lemma release_group_undone:
  assumes "set (map fst es) \<inter> set (keys (dl_reservations l)) = {}" and "distinct (map fst es)"
  shows "pipeline_release (map (\<lambda>(i, q). \<lparr>dv_reservation_id = i, dv_request = q\<rparr>) es)
      (l\<lparr>dl_used := (\<lambda>k. dl_used l k + combined_demand (map snd es) k),
         dl_reservations := dl_reservations l @ es\<rparr>) = l"
  using assms
proof (induction es arbitrary: l)
  case Nil
  then show ?case by (simp add: combined_demand_def)
next
  case (Cons e es)
  obtain i q where e: "e = (i, q)" by force
  let ?l = "l\<lparr>dl_used := (\<lambda>k. dl_used l k + combined_demand (map snd (e # es)) k),
         dl_reservations := dl_reservations l @ e # es\<rparr>"
  have fresh: "i \<notin> set (keys (dl_reservations l))" "i \<notin> set (map fst es)" using Cons.prems by (auto simp: e)
  have some: "map_of (dl_reservations ?l) i = Some q"
    using fresh(1) by (simp add: e map_add_def map_of_eq_None_iff [THEN iffD2])
  have "AList.delete i (dl_reservations l @ e # es) = dl_reservations l @ es"
    using delete_fresh [OF fresh(1)] delete_fresh [OF fresh(2)] by (simp add: e AList.delete_eq)
  then have "snd (device_release i ?l) = l\<lparr>dl_used := (\<lambda>k. dl_used l k + combined_demand (map snd es) k),
         dl_reservations := dl_reservations l @ es\<rparr>"
    using some by (simp add: device_release_def combined_demand_def e fun_eq_iff)
  moreover have "pipeline_release (map (\<lambda>(i, q). \<lparr>dv_reservation_id = i, dv_request = q\<rparr>) es)
      (l\<lparr>dl_used := (\<lambda>k. dl_used l k + combined_demand (map snd es) k),
         dl_reservations := dl_reservations l @ es\<rparr>) = l"
    using Cons.prems by (intro Cons.IH) auto
  ultimately show ?case by (simp add: e)
qed

lemma for_backend_all:
  "all_results (map (\<lambda>g. for_backend (pg_backend g) (pg_unified_memory_bytes g)) gs) = Inr qs \<Longrightarrow>
     map dq_backend qs = map pg_backend gs \<and> (\<forall>q\<in>set qs. device_request_ok q)"
proof (induction gs arbitrary: qs)
  case (Cons g gs)
  from Cons.prems obtain q qs' where q: "for_backend (pg_backend g) (pg_unified_memory_bytes g) = Inr q"
    "all_results (map (\<lambda>g. for_backend (pg_backend g) (pg_unified_memory_bytes g)) gs) = Inr qs'"
    "qs = q # qs'" by (auto split: sum.splits)
  with Cons.IH [OF q(2)] for_backend_Inr [OF q(1)] show ?case by simp
qed simp

lemma pipeline_reserve_Inr:
  assumes "pipeline_reserve uuids stages l = Inr (vs, l')" and "distinct uuids"
    and "length uuids = length stages" and "set uuids \<inter> set (keys (dl_reservations l)) = {}"
  obtains qs where "map dq_backend qs = map pg_backend stages" "\<forall>q\<in>set qs. device_request_ok q"
    "vs = map (\<lambda>(i, q). \<lparr>dv_reservation_id = i, dv_request = q\<rparr>) (zip uuids qs)"
    "reserve_many uuids qs l = Inr (vs, l')"
    "l' = l\<lparr>dl_used := (\<lambda>k. dl_used l k + combined_demand qs k),
            dl_reservations := dl_reservations l @ zip uuids qs\<rparr>"
    "length qs = length uuids"
proof -
  obtain qs where a: "all_results (map (\<lambda>g. for_backend (pg_backend g) (pg_unified_memory_bytes g)) stages) = Inr qs"
    and r: "reserve_many uuids qs l = Inr (vs, l')"
    using assms(1) by (auto simp: pipeline_reserve_def split: if_splits sum.splits)
  note f = for_backend_all [OF a]
  have len: "length qs = length uuids" using f assms(3) by (metis length_map)
  then have "store_all (zip uuids qs) (dl_reservations l) = dl_reservations l @ zip uuids qs"
    using assms(2,4) by (intro store_all_fresh) auto
  then have "vs = map (\<lambda>(i, q). \<lparr>dv_reservation_id = i, dv_request = q\<rparr>) (zip uuids qs)"
    "l' = l\<lparr>dl_used := (\<lambda>k. dl_used l k + combined_demand qs k),
            dl_reservations := dl_reservations l @ zip uuids qs\<rparr>"
    using r by (auto simp: reserve_many_def Let_def split: if_splits)
  with f r len that show ?thesis by blast
qed

lemma pipeline_ids:
  assumes "pipeline_reserve uuids stages l = Inr (vs, l')" and "distinct uuids"
    and "length uuids = length stages" and "set uuids \<inter> set (keys (dl_reservations l)) = {}"
  shows "map dv_reservation_id vs = uuids"
proof -
  from pipeline_reserve_Inr [OF assms] obtain qs where
    "vs = map (\<lambda>(i, q). \<lparr>dv_reservation_id = i, dv_request = q\<rparr>) (zip uuids qs)"
    and len: "length qs = length uuids" by blast
  then have "map dv_reservation_id vs = map fst (zip uuids qs)" by (simp add: case_prod_unfold comp_def)
  then show ?thesis using len by simp
qed

section \<open>The encoder pipeline's slots\<close>

text \<open>Any sequence of calls from any number of threads: submissions, jobs run by the pool, the slot
  held by an inline request while it runs, and closing.\<close>

inductive encoder_reachable :: "int \<Rightarrow> int \<Rightarrow> ('e, 'a) encoder_pipeline \<Rightarrow> bool" for maximum where
  start: "new_encoder_pipeline l registry maximum = Inr p \<Longrightarrow> encoder_reachable maximum 0 p"
| submit: "encoder_reachable maximum inline p \<Longrightarrow> i \<notin> set (keys (ea_jobs p)) \<Longrightarrow>
    submit_encoder digest i accepted j p = (r, p') \<Longrightarrow> encoder_reachable maximum inline p'"
| run: "encoder_reachable maximum inline p \<Longrightarrow> run_job n i p = (r, p') \<Longrightarrow>
    encoder_reachable maximum inline p'"
| enter: "encoder_reachable maximum inline p \<Longrightarrow> acquire_slot p = (Inr (), p') \<Longrightarrow>
    encoder_reachable maximum (inline + 1) p'"
| leave: "encoder_reachable maximum inline p \<Longrightarrow> 0 < inline \<Longrightarrow>
    encoder_reachable maximum (inline - 1) (p\<lparr>ea_slots := ea_slots p + 1\<rparr>)"
| ledger: "encoder_reachable maximum inline p \<Longrightarrow> encoder_reachable maximum inline (p\<lparr>ea_ledger := l\<rparr>)"
| close: "encoder_reachable maximum inline p \<Longrightarrow> encoder_reachable maximum inline (close_encoder p)"

definition slots_ok :: "int \<Rightarrow> int \<Rightarrow> ('e, 'a) encoder_pipeline \<Rightarrow> bool" where
  "slots_ok maximum inline p \<longleftrightarrow>
     ea_slots p + int (length (ea_jobs p)) + inline = maximum \<and> 0 \<le> ea_slots p \<and> 0 \<le> inline
     \<and> dict_ok (ea_jobs p) \<and> (ea_closed p \<longrightarrow> ea_jobs p = []) \<and> ea_maximum_pending p = maximum"

lemma acquire_slot_Inr:
  "acquire_slot p = (Inr u, p') \<longleftrightarrow>
     \<not> ea_closed p \<and> ea_slots p \<noteq> 0 \<and> p' = p\<lparr>ea_slots := ea_slots p - 1\<rparr>"
  by (auto simp: acquire_slot_def)

lemma acquire_slot_Inl: "acquire_slot p = (Inl e, p') \<Longrightarrow> p' = p"
  by (auto simp: acquire_slot_def split: if_splits)

lemma submit_encoder_cases:
  assumes "submit_encoder digest i accepted j p = (r, p')"
  shows "p' = p \<or> \<not> ea_closed p \<and> ea_slots p \<noteq> 0
    \<and> p' = p\<lparr>ea_slots := ea_slots p - 1, ea_jobs := AList.update i j (ea_jobs p)\<rparr>"
  using assms
  by (auto simp: submit_encoder_def acquire_slot_def split: if_splits sum.splits)

lemma encoder_slots: "encoder_reachable maximum inline p \<Longrightarrow> slots_ok maximum inline p"
proof (induction rule: encoder_reachable.induct)
  case (start l registry p)
  then show ?case by (auto simp: new_encoder_pipeline_def slots_ok_def split: if_splits)
next
  case (submit inline p i digest accepted j r p')
  from submit_encoder_cases [OF submit.hyps(3)] submit.IH submit.hyps(2) show ?case
    by (elim disjE) (auto simp: slots_ok_def length_update_fresh dict_ok_update)
next
  case (run inline p n i r p')
  show ?case
  proof (cases "map_of (ea_jobs p) i")
    case None
    with run show ?thesis by (simp add: run_job_def)
  next
    case (Some j)
    then have "i \<in> set (keys (ea_jobs p))" by (rule map_of_Some_keys)
    with run.IH have "Suc (length (AList.delete i (ea_jobs p))) = length (ea_jobs p)"
      by (intro length_delete) (auto simp: slots_ok_def)
    with run Some show ?thesis
      by (auto simp: run_job_def slots_ok_def dict_ok_delete split: prod.splits)
  qed
next
  case (enter inline p p')
  then show ?case by (auto simp: acquire_slot_Inr slots_ok_def)
qed (auto simp: slots_ok_def close_encoder_def)

section \<open>Other threads\<close>

text \<open>What the other threads may do to the ledger while ours waits: keep it balanced, and leave the
  entries under our identifiers alone.\<close>

definition keeps_ours :: "string set \<Rightarrow> (device_ledger \<Rightarrow> device_ledger) \<Rightarrow> bool" where
  "keeps_ours ours others \<longleftrightarrow>
     (\<forall>l. ledger_ok l \<longrightarrow> ledger_ok (others l)
        \<and> (\<forall>i\<in>ours. map_of (dl_reservations (others l)) i = map_of (dl_reservations l) i))"

lemma keeps_oursD:
  assumes "keeps_ours ours others" and "ledger_ok l"
  shows "ledger_ok (others l)"
    and "i \<in> ours \<Longrightarrow> i \<notin> set (keys (dl_reservations l)) \<Longrightarrow> i \<notin> set (keys (dl_reservations (others l)))"
  using assms unfolding keeps_ours_def map_of_None_keys [symmetric] by auto

lemma keeps_ours_id: "keeps_ours ours (\<lambda>l. l)"
  by (simp add: keeps_ours_def)

lemma reserve_backend_Inr:
  assumes "reserve_backend uuid b m l = Inr (v, l')"
  obtains q where "device_reserve uuid q None l = Inr (v, l')" "device_request_ok q" "dq_backend q = b"
    "dv_reservation_id v = uuid"
proof -
  obtain q where q: "for_backend b m = Inr q" "device_reserve uuid q None l = Inr (v, l')"
    using assms by (auto simp: reserve_backend_def split: sum.splits)
  show ?thesis by (rule that [OF q(2)]) (use for_backend_Inr [OF q(1)] device_reserve_value [OF q(2)] in auto)
qed

lemma reserve_backend_ok:
  assumes "ledger_ok l" and "uuid \<notin> set (keys (dl_reservations l))"
    and "reserve_backend uuid b m l = Inr (v, l')"
  shows "ledger_ok l'" "set (keys (dl_reservations l')) = insert uuid (set (keys (dl_reservations l)))"
    "dv_reservation_id v = uuid" "device_release uuid l' = (True, l)"
proof -
  from reserve_backend_Inr [OF assms(3)] obtain q where q: "device_reserve uuid q None l = Inr (v, l')"
    "device_request_ok q" "dv_reservation_id v = uuid" by blast
  show "ledger_ok l'" by (rule device_reserve_ok [OF assms(1,2) q(2,1)])
  show "set (keys (dl_reservations l')) = insert uuid (set (keys (dl_reservations l)))"
    using q(1) keys_update [of uuid q "dl_reservations l"] by (simp add: device_reserve_Inr)
  show "dv_reservation_id v = uuid" by (rule q(3))
  show "device_release uuid l' = (True, l)" by (rule device_reserve_undone [OF q(1) assms(2)])
qed

lemma starts_with_prefix: "starts_with (s @ t) u \<Longrightarrow> starts_with s u"
proof (induction s arbitrary: u)
  case (Cons c s)
  then show ?case by (cases u) auto
qed simp

definition capability_registry_ok :: "capability_registry \<Rightarrow> bool" where
  "capability_registry_ok g \<longleftrightarrow>
     dict_ok (cg_entries g) \<and> list_all (\<lambda>(k, c). k = capability_key c) (cg_entries g)"

lemma attempts_ok:
  "capability_registry_ok g \<Longrightarrow> capability_registry_ok (attempts record_capability g cs)"
  by (rule attempts_invariant [where I = capability_registry_ok])
    (auto simp: capability_registry_ok_def record_capability_Inr dict_ok_update list_all_update)

lemma snapshot_entry:
  assumes "capability_registry_ok g" and "c \<in> set (capability_snapshot g)"
  shows "map_of (cg_entries g) (capability_key c) = Some c"
proof -
  obtain k where "k \<in> set (keys (cg_entries g))" and c: "c = the (map_of (cg_entries g) k)"
    using assms(2) by (auto simp: capability_snapshot_def)
  then obtain c' where c': "map_of (cg_entries g) k = Some c'" by (metis map_of_None_keys not_None_eq)
  then have "k = capability_key c'"
    using assms(1) map_of_SomeD [OF c'] by (auto simp: capability_registry_ok_def list_all_iff)
  with c c' show ?thesis by simp
qed

section \<open>Properties\<close>

text \<open>C15: the parallel pipeline leaks nothing.  Whether the group is refused, a stage raises or all
  stages finish, and whatever the other threads do meanwhile, no reservation of the pipeline is left
  in the ledger and the ledger stays balanced; without other threads it is restored exactly.  The
  result, when there is one, lists the outputs of all stages in order.\<close>

theorem pipeline_leaks_nothing:
  assumes "ledger_ok l" and "distinct uuids" and "length uuids = length stages"
    and "set uuids \<inter> set (keys (dl_reservations l)) = {}" and "keeps_ours (set uuids) others"
    and "pipeline_execute uuids stages others started finished l = (r, l')"
  shows "ledger_ok l' \<and> set uuids \<inter> set (keys (dl_reservations l')) = {}
    \<and> (others = (\<lambda>l. l) \<longrightarrow> l' = l)
    \<and> (\<forall>x. r = Inr x \<longrightarrow> map Inr (px_outputs x) = map pg_operation stages
         \<and> px_backends x = map pg_backend stages \<and> 1 \<le> px_elapsed_nanoseconds x)"
proof (cases "pipeline_reserve uuids stages l")
  case (Inl e)
  then show ?thesis using assms by (auto simp: pipeline_execute_def)
next
  case (Inr p)
  then obtain vs l1 where r1: "pipeline_reserve uuids stages l = Inr (vs, l1)" by (cases p) auto
  from pipeline_reserve_Inr [OF r1 assms(2-4)] obtain qs where qs: "\<forall>q\<in>set qs. device_request_ok q"
    "vs = map (\<lambda>(i, q). \<lparr>dv_reservation_id = i, dv_request = q\<rparr>) (zip uuids qs)"
    "reserve_many uuids qs l = Inr (vs, l1)"
    "l1 = l\<lparr>dl_used := (\<lambda>k. dl_used l k + combined_demand qs k),
            dl_reservations := dl_reservations l @ zip uuids qs\<rparr>"
    "length qs = length uuids" by blast
  have ids: "dv_reservation_id ` set vs = set uuids"
    using pipeline_ids [OF r1 assms(2-4)] by (metis image_set)
  have l': "l' = pipeline_release vs (others l1)" and r: "r = pipeline_outcome stages started finished"
    using assms(6) r1 by (simp_all add: pipeline_execute_def)
  have "ledger_ok l1" by (rule reserve_many_ok(1) [OF assms(1,2) _ assms(4) qs(1,3)]) (simp add: qs(5))
  then have "ledger_ok l'" unfolding l' by (intro pipeline_release_ok keeps_oursD(1) [OF assms(5)])
  moreover have "set uuids \<inter> set (keys (dl_reservations l')) = {}"
    unfolding l' pipeline_release_keys ids by blast
  moreover have "pipeline_release vs l1 = l"
    using release_group_undone [of "zip uuids qs" l] assms(2,4) qs(5) by (simp add: qs(2,4))
  moreover have "\<forall>x. r = Inr x \<longrightarrow> map Inr (px_outputs x) = map pg_operation stages
         \<and> px_backends x = map pg_backend stages \<and> 1 \<le> px_elapsed_nanoseconds x"
    unfolding r by (auto simp: pipeline_outcome_def all_results_Inr split: sum.splits)
  ultimately show ?thesis by (simp add: l')
qed

text \<open>The encoder pipeline is sequential and leaks nothing.  However a job ends, neither its ANE
  nor its GPU reservation is left in the ledger, whatever the other threads do between its steps; a
  job that succeeds passed the encoder's output to the consumer, and ran on the ANE and then on the
  backend it asked for.\<close>
theorem encoder_job_leaks_nothing:
  assumes "ledger_ok l"
    and "en_encoder_id n \<notin> set (keys (dl_reservations l))" "en_llm_id n \<notin> set (keys (dl_reservations l))"
    and "en_encoder_id n \<noteq> en_llm_id n"
    and "\<forall>f\<in>{en_while_encoding n, en_between n, en_while_consuming n}.
           keeps_ours {en_encoder_id n, en_llm_id n} f"
    and "execute_encoder n j l = (r, l')"
  shows "ledger_ok l' \<and> en_encoder_id n \<notin> set (keys (dl_reservations l'))
    \<and> en_llm_id n \<notin> set (keys (dl_reservations l'))
    \<and> (\<forall>x. r = Inr x \<longrightarrow> (\<exists>encoded. ej_encode j = Inr encoded \<and> ej_consume j encoded = Inr (ex_output x))
         \<and> ex_encoder_backend x = COREML_DRAFT \<and> ex_llm_backend x = ej_llm_backend j)"
proof -
  let ?e = "en_encoder_id n" and ?g = "en_llm_id n"
  let ?free = "\<lambda>m. ledger_ok m \<and> ?e \<notin> set (keys (dl_reservations m)) \<and> ?g \<notin> set (keys (dl_reservations m))"
  note env = assms(5) [unfolded ball_simps]
  show ?thesis
  proof (cases "reserve_backend ?e COREML_DRAFT (ej_encoder_memory_bytes j) l")
    case (Inl err)
    with assms(6) have "l' = l \<and> r = Inl err" by (simp add: execute_encoder_def)
    with assms(1-3) show ?thesis by simp
  next
    case (Inr p)
    then obtain v l1 where e1: "reserve_backend ?e COREML_DRAFT (ej_encoder_memory_bytes j) l = Inr (v, l1)"
      by (cases p) auto
    note k1 = reserve_backend_ok [OF assms(1,2) e1]
    define l2 where "l2 = snd (device_release ?e (en_while_encoding n l1))"
    have f1: "ledger_ok (en_while_encoding n l1)" "?g \<notin> set (keys (dl_reservations (en_while_encoding n l1)))"
      using env k1(1,2) assms(3,4) keeps_oursD(1) [of "{?e, ?g}" "en_while_encoding n" l1]
        keeps_oursD(2) [of "{?e, ?g}" "en_while_encoding n" l1 ?g] by simp_all
    then have f2: "?free l2" by (auto simp: l2_def devices.release_ok device_release_keys [simplified])
    show ?thesis
    proof (cases "ej_encode j")
      case (Inl err)
      with assms(6) e1 k1(3) have "l' = l2 \<and> r = Inl err" by (simp add: execute_encoder_def l2_def)
      with f2 show ?thesis by simp
    next
      case (Inr encoded)
      define l3 where "l3 = en_between n l2"
      have f3: "?free l3" using env f2 keeps_oursD(1) [of "{?e, ?g}" "en_between n" l2]
          keeps_oursD(2) [of "{?e, ?g}" "en_between n" l2] by (simp add: l3_def)
      show ?thesis
      proof (cases "reserve_backend ?g (ej_llm_backend j) (ej_llm_memory_bytes j) l3")
        case (Inl err)
        with assms(6) e1 k1(3) Inr have "l' = l3 \<and> r = Inl err"
          by (simp add: execute_encoder_def l2_def l3_def)
        with f3 show ?thesis by simp
      next
        case (Inr p')
        then obtain w l4 where g4: "reserve_backend ?g (ej_llm_backend j) (ej_llm_memory_bytes j) l3 = Inr (w, l4)"
          by (cases p') auto
        note k4 = reserve_backend_ok [OF conjunct1 [OF f3] conjunct2 [OF conjunct2 [OF f3]] g4]
        define l5 where "l5 = snd (device_release ?g (en_while_consuming n l4))"
        have "ledger_ok (en_while_consuming n l4)" "?e \<notin> set (keys (dl_reservations (en_while_consuming n l4)))"
          using env k4(1,2) f3 assms(4) keeps_oursD(1) [of "{?e, ?g}" "en_while_consuming n" l4]
            keeps_oursD(2) [of "{?e, ?g}" "en_while_consuming n" l4 ?e] by simp_all
        then have f5: "?free l5" by (auto simp: l5_def devices.release_ok device_release_keys [simplified])
        have "l' = l5" and "r = Inr x \<Longrightarrow> ej_consume j encoded = Inr (ex_output x)
            \<and> ex_encoder_backend x = COREML_DRAFT \<and> ex_llm_backend x = ej_llm_backend j" for x
          using assms(6) e1 k1(3) \<open>ej_encode j = Inr encoded\<close> g4 k4(3)
          by (auto simp: execute_encoder_def l2_def l3_def l5_def Let_def split: sum.splits)
        with f5 \<open>ej_encode j = Inr encoded\<close> show ?thesis by blast
      qed
    qed
  qed
qed

text \<open>The encoder pipeline is bounded.  Whatever calls are made, the jobs outstanding in the pool
  and the requests running inline are together at most \<open>maximum_pending\<close>, and every slot is
  accounted for; a valid job is accepted exactly while the pipeline is open and below the bound;
  nothing is outstanding after \<open>close\<close>; an inline request gives its slot back however it ends.\<close>
theorem encoder_pipeline_bounded:
  assumes "encoder_reachable maximum inline p"
  shows "int (length (ea_jobs p)) + inline \<le> maximum
    \<and> ea_slots p = maximum - int (length (ea_jobs p)) - inline
    \<and> (\<forall>digest i j. current_job digest j p = Inr () \<longrightarrow>
         (\<exists>p'. submit_encoder digest i True j p = (Inr i, p'))
           = (\<not> ea_closed p \<and> int (length (ea_jobs p)) + inline < maximum))
    \<and> ea_jobs (close_encoder p) = []
    \<and> (\<forall>digest n checked j r p'. execute_inline digest n checked j p = (r, p') \<longrightarrow>
         ea_slots p' = ea_slots p \<and> ea_jobs p' = ea_jobs p \<and> ea_closed p' = ea_closed p)"
proof -
  have ok: "slots_ok maximum inline p" by (rule encoder_slots [OF assms])
  have "(\<exists>p'. submit_encoder digest i True j p = (Inr i, p'))
      = (\<not> ea_closed p \<and> int (length (ea_jobs p)) + inline < maximum)"
    if "current_job digest j p = Inr ()" for digest i j
    using ok that by (auto simp: submit_encoder_def acquire_slot_def slots_ok_def)
  moreover have "ea_slots p' = ea_slots p \<and> ea_jobs p' = ea_jobs p \<and> ea_closed p' = ea_closed p"
    if "execute_inline digest n checked j p = (r, p')" for digest n checked j r p'
    using that acquire_slot_Inl [of p]
    by (auto simp: execute_inline_def acquire_slot_Inr split: sum.splits prod.splits option.splits)
  ultimately show ?thesis
    using ok by (auto simp: slots_ok_def close_encoder_def)
qed

text \<open>C36: an ANE route carries its evidence.  Against a registry filled by any recordings, a route is
  granted only for an operator of the workload with a recorded capability of the ANE backend that is
  available in the auxiliary phase and the requested precision, and it is bound to that capability's
  identifier, so a job submitted after the evidence changed is refused.\<close>

theorem ane_route_has_evidence:
  assumes "cg_entries g = []"
    and "require_ane_auxiliary_route digest (attempts record_capability g cs) workload operator precision
      = Inr route"
  shows "\<exists>c\<in>set cs. dc_backend c = COREML_DRAFT \<and> dc_operators c = [operator]
      \<and> dc_status c = ''available'' \<and> Auxiliary \<in> set (dc_phases c) \<and> precision \<in> set (dc_precisions c)
      \<and> ar_capability_id route = capability_id digest c
      \<and> starts_with (ane_workload_value workload) operator"
proof -
  let ?q = "\<lparr>er_operator = operator, er_phase = Auxiliary, er_precision = precision,
     er_candidates = [COREML_DRAFT]\<rparr>"
  let ?r = "attempts record_capability g cs"
  obtain d c where d: "decide ?r ?q = Inr d"
    and f: "find (\<lambda>c. dc_backend c = ed_selected d \<and> dc_operators c = [operator])
              (capability_snapshot ?r) = Some c"
    and id: "ar_capability_id route = capability_id digest c"
    and pre: "starts_with (ane_workload_value workload @ ''@'') operator"
    using assms(2)
    by (auto simp: require_ane_auxiliary_route_def eligibility_request_init_def
        split: if_splits sum.splits option.splits)
  have sel: "ed_selected d = COREML_DRAFT" and rej: "rejection ?r ?q COREML_DRAFT = None"
    using d by (auto simp: decide_def Let_def split: if_splits)
  have c: "c \<in> set (capability_snapshot ?r)" "dc_backend c = COREML_DRAFT" "dc_operators c = [operator]"
    using f sel by (auto simp: find_Some_iff)
  have ok: "capability_registry_ok ?r" using assms(1) by (intro attempts_ok) (simp add: capability_registry_ok_def)
  have some: "map_of (cg_entries ?r) (COREML_DRAFT, operator) = Some c"
    using snapshot_entry [OF ok c(1)] c(2,3) by (simp add: capability_key_def)
  then have "dc_status c = ''available''" "Auxiliary \<in> set (dc_phases c)" "precision \<in> set (dc_precisions c)"
    using rej by (auto simp: rejection_def split: if_splits)
  moreover have "c \<in> set cs"
    using capability_registry.provenance [of g cs "(COREML_DRAFT, operator)" c] some assms(1) by simp
  ultimately show ?thesis using c id starts_with_prefix [OF pre] by blast
qed

section \<open>Witnesses\<close>

definition example_paired_ledger :: device_ledger where
  "example_paired_ledger = example_ledger\<lparr>dl_qualified_pairs := {{CPU, NATIVE_MLX}}\<rparr>"

definition example_stages :: "int pipeline_stage list" where
  "example_stages =
     [\<lparr>pg_name = ''a'', pg_backend = CPU, pg_unified_memory_bytes = 10, pg_operation = Inr 1\<rparr>,
      \<lparr>pg_name = ''b'', pg_backend = NATIVE_MLX, pg_unified_memory_bytes = 20, pg_operation = Inr 2\<rparr>]"

lemma example_paired_ledger_ok: "ledger_ok example_paired_ledger"
  by (auto simp: balanced_def example_paired_ledger_def example_ledger_def example_capacity_def
      split: device_resource.splits)

lemma example_reserved:
  "\<exists>vs l'. pipeline_reserve [''x'', ''y''] example_stages example_paired_ledger = Inr (vs, l')"
  by (simp add: pipeline_reserve_def example_stages_def for_backend_def device_request_init_def
      reserve_many_def active_backends_def example_paired_ledger_def example_ledger_def
      exhausted_def all_resources_def combined_demand_def example_capacity_def)

theorem pipeline_leaks_nothing_witness:
  "\<exists>r. pipeline_execute [''x'', ''y''] example_stages (\<lambda>l. l) 5 9 example_paired_ledger
       = (Inr r, example_paired_ledger) \<and> px_outputs r = [1, 2]"
proof -
  obtain vs l' where v: "pipeline_reserve [''x'', ''y''] example_stages example_paired_ledger = Inr (vs, l')"
    using example_reserved by blast
  then have "pipeline_execute [''x'', ''y''] example_stages (\<lambda>l. l) 5 9 example_paired_ledger
      = (pipeline_outcome example_stages 5 9, pipeline_release vs l')" by (simp add: pipeline_execute_def)
  from pipeline_leaks_nothing [OF example_paired_ledger_ok _ _ _ keeps_ours_id this] this show ?thesis
    by (simp add: example_stages_def pipeline_outcome_def example_paired_ledger_def example_ledger_def)
qed

definition example_run :: encoder_run where
  "example_run = \<lparr>en_encoder_id = ''e'', en_llm_id = ''g'', en_while_encoding = (\<lambda>l. l),
     en_between = (\<lambda>l. l), en_while_consuming = (\<lambda>l. l), en_started = 0, en_finished = 7\<rparr>"

definition example_job :: "string \<Rightarrow> (int, int) encoder_job" where
  "example_job capability = \<lparr>ej_route = \<lparr>ar_workload = VisionEncoder, ar_operator = ''vision_encoder@1'',
       ar_precision = ''fp16'', ar_capability_id = capability\<rparr>,
     ej_encoder_memory_bytes = 10, ej_llm_backend = NATIVE_MLX, ej_llm_memory_bytes = 20,
     ej_encode = Inr 3, ej_consume = (\<lambda>x. Inr (x + 1))\<rparr>"

lemma example_job_runs: "\<exists>x l'. execute_encoder example_run (example_job i) example_paired_ledger = (Inr x, l')"
  by (simp add: execute_encoder_def reserve_backend_def for_backend_def device_request_init_def
      device_reserve_def device_release_def example_run_def example_job_def example_paired_ledger_def
      example_ledger_def active_backends_def contended_def exhausted_def all_resources_def
      example_capacity_def Let_def)

theorem encoder_job_leaks_nothing_witness:
  "\<exists>x l'. execute_encoder example_run (example_job ''c'') example_paired_ledger = (Inr x, l')
     \<and> ex_output x = 4 \<and> ''e'' \<notin> set (keys (dl_reservations l')) \<and> ''g'' \<notin> set (keys (dl_reservations l'))"
proof -
  obtain x l' where e: "execute_encoder example_run (example_job ''c'') example_paired_ledger = (Inr x, l')"
    using example_job_runs by blast
  from encoder_job_leaks_nothing [OF example_paired_ledger_ok _ _ _ _ e] e show ?thesis
    by (simp add: example_run_def example_job_def keeps_ours_id example_paired_ledger_def example_ledger_def)
qed

definition example_encoder_pipeline :: "(int, int) encoder_pipeline" where
  "example_encoder_pipeline = \<lparr>ea_ledger = example_paired_ledger,
     ea_registry = example_capability_registry, ea_maximum_pending = 2, ea_slots = 2, ea_jobs = [],
     ea_closed = False\<rparr>"

lemma example_encoder_reachable: "encoder_reachable 2 0 example_encoder_pipeline"
  by (rule encoder_reachable.start [of example_paired_ledger example_capability_registry])
    (simp add: new_encoder_pipeline_def example_encoder_pipeline_def)

theorem encoder_pipeline_bounded_witness:
  "ea_slots example_encoder_pipeline = 2 \<and> ea_jobs (close_encoder example_encoder_pipeline) = []"
  using encoder_pipeline_bounded [OF example_encoder_reachable]
  by (simp add: example_encoder_pipeline_def)

theorem ane_route_has_evidence_witness:
  "\<exists>route. require_ane_auxiliary_route (\<lambda>j. replicate 64 (CHR ''a''))
       (attempts record_capability example_capability_registry
          [(example_capability ''available'' ''probe_passed'')\<lparr>dc_operators := [''vision_encoder@1'']\<rparr>])
       VisionEncoder ''vision_encoder@1'' ''fp16'' = Inr route
     \<and> ar_capability_id route = replicate 24 (CHR ''a'')"
proof -
  let ?c = "(example_capability ''available'' ''probe_passed'')\<lparr>dc_operators := [''vision_encoder@1'']\<rparr>"
  let ?r = "attempts record_capability example_capability_registry [?c]"
  have r: "?r = example_capability_registry\<lparr>cg_entries := [((COREML_DRAFT, ''vision_encoder@1''), ?c)]\<rparr>"
    by (simp add: attempt_def record_capability_def example_capability_registry_def example_capability_def
        capability_key_def MAX_DEVICE_CAPABILITIES_def)
  have q: "eligibility_request_init \<lparr>er_operator = ''vision_encoder@1'', er_phase = Auxiliary,
       er_precision = ''fp16'', er_candidates = [COREML_DRAFT]\<rparr>
     = Inr \<lparr>er_operator = ''vision_encoder@1'', er_phase = Auxiliary, er_precision = ''fp16'',
       er_candidates = [COREML_DRAFT]\<rparr>"
    by (simp add: eligibility_request_init_def bounded_values_def bounded_text_def
        MAX_ELIGIBILITY_VALUES_def all_backends_def)
  have s: "capability_snapshot ?r = [?c]" unfolding r by (simp add: capability_snapshot_def)
  have d: "decide ?r \<lparr>er_operator = ''vision_encoder@1'', er_phase = Auxiliary,
       er_precision = ''fp16'', er_candidates = [COREML_DRAFT]\<rparr>
     = Inr \<lparr>ed_selected = COREML_DRAFT, ed_fallback_chain = [], ed_rejected = []\<rparr>"
    unfolding r by (simp add: decide_def rejection_def example_capability_def)
  have "\<exists>route. require_ane_auxiliary_route (\<lambda>j. replicate 64 (CHR ''a'')) ?r
       VisionEncoder ''vision_encoder@1'' ''fp16'' = Inr route"
    unfolding require_ane_auxiliary_route_def q s d sum.case
    by (simp add: example_capability_def)
  then obtain route where e: "require_ane_auxiliary_route (\<lambda>j. replicate 64 (CHR ''a'')) ?r
       VisionEncoder ''vision_encoder@1'' ''fp16'' = Inr route" by blast
  from ane_route_has_evidence [OF _ e] e show ?thesis
    by (auto simp: example_capability_registry_def capability_id_def)
qed

end
