(* ===== verification/SchedulerQueueing.thy ===== *)
theory SchedulerQueueing
  imports Scheduler DevicePipeline
begin

text \<open>
  The queued side of \<open>BasicScheduler\<close>: submission, admission of the next request, work stealing,
  completion and cancellation by token, and the device pipeline.  \<open>admit_next\<close> takes the policy lock
  only for its second half, and the queue has a lock of its own, so what other threads do between
  two locked sections is a function argument (\<open>others\<close>), which may be any sequence of their steps.
\<close>

definition submit :: "string \<Rightarrow> int \<Rightarrow> schedule_request \<Rightarrow> (scheduler, string) method" where
  "submit token now r s =
     (case enqueue token now r (sh_queue s) of
        Inl e \<Rightarrow> (Inl e, s)
      | Inr (t, q) \<Rightarrow> (Inr t, s\<lparr>sh_queue := q\<rparr>))"

text \<open>How a call that takes a request from the queue ends: it is still waiting, there is nothing
  to admit, a request is admitted, or \<open>QueuedAdmissionError\<close> names the request that failed.\<close>

datatype queued_outcome =
    StillWaiting
  | NothingAdmitted
  | QueueRaised py_error
  | Admitted string schedule_request reservation
  | AdmissionRaised string schedule_request py_error

definition finish_in_queue :: "string \<Rightarrow> scheduler \<Rightarrow> bool \<times> scheduler" where
  "finish_in_queue token s =
     (case finish_claim token (sh_queue s) of (found, q) \<Rightarrow> (found, s\<lparr>sh_queue := q\<rparr>))"

definition observe_wait :: "int \<Rightarrow> scheduler \<Rightarrow> scheduler" where
  "observe_wait nanoseconds s =
     (case count_queue_wait nanoseconds (sh_counters s) of
        Inl e \<Rightarrow> s | Inr c \<Rightarrow> s\<lparr>sh_counters := c\<rparr>)"

text \<open>The second half of \<open>admit_next\<close>, from the reservation to the result: the claim is finished,
  or, when it was cancelled meanwhile, everything is released.\<close>

definition register_claim ::
  "string \<Rightarrow> schedule_request \<Rightarrow> reservation \<Rightarrow> int \<Rightarrow> (scheduler \<Rightarrow> scheduler)
    \<Rightarrow> scheduler \<Rightarrow> queued_outcome \<times> scheduler" where
  "register_claim token r v now others s =
     (let s1 = s\<lparr>sh_queued_active := AList.update token v (sh_queued_active s)\<rparr>;
          waited = claimed_wait_nanoseconds token now (sh_queue s1)
      in case finish_in_queue token (others s1) of
           (False, s2) \<Rightarrow>
             (NothingAdmitted,
              release_reservation v (s2\<lparr>sh_queued_active := AList.delete token (sh_queued_active s2)\<rparr>))
         | (True, s2) \<Rightarrow> (Admitted token r v, observe_wait waited s2))"

record admit_others =
  ao_dequeued :: "scheduler \<Rightarrow> scheduler"
  ao_admitted :: "scheduler \<Rightarrow> scheduler"
  ao_registered :: "scheduler \<Rightarrow> scheduler"

definition admit_next ::
  "rat option \<Rightarrow> (rat \<times> (schedule_queue \<Rightarrow> schedule_queue)) list \<Rightarrow> admit_others \<Rightarrow> admission_inputs
    \<Rightarrow> int \<Rightarrow> scheduler \<Rightarrow> queued_outcome \<times> scheduler" where
  "admit_next timeout wakes others ids now s =
     (case dequeue timeout wakes (sh_queue s) of
        (Inl e, q) \<Rightarrow> (QueueRaised e, s\<lparr>sh_queue := q\<rparr>)
      | (Inr Waiting, q) \<Rightarrow> (StillWaiting, s\<lparr>sh_queue := q\<rparr>)
      | (Inr (Returned None), q) \<Rightarrow> (NothingAdmitted, s\<lparr>sh_queue := q\<rparr>)
      | (Inr (Returned (Some (token, r))), q) \<Rightarrow>
          (case admit ids r (ao_dequeued others (s\<lparr>sh_queue := q\<rparr>)) of
             (Inl e, s1) \<Rightarrow> (AdmissionRaised token r e, snd (finish_in_queue token (ao_admitted others s1)))
           | (Inr v, s1) \<Rightarrow> register_claim token r v now (ao_registered others) (ao_admitted others s1)))"

section \<open>Work stealing\<close>

record steal_others =
  so_peeked :: "scheduler \<Rightarrow> scheduler"
  so_claimed :: "scheduler \<Rightarrow> scheduler"
  so_registered :: "scheduler \<Rightarrow> scheduler"

definition steal_allowed :: "scheduler \<Rightarrow> bool" where
  "steal_allowed s \<longleftrightarrow>
     sh_maintenance_owner s = None \<and> sh_dispatcher s \<noteq> None \<and> po_level (sh_policy s) = 0"

definition peek_queue :: "scheduler \<Rightarrow> (string \<times> schedule_request) option \<times> scheduler" where
  "peek_queue s = (case peek (sh_queue s) of (h, q) \<Rightarrow> (h, s\<lparr>sh_queue := q\<rparr>))"

definition claim_in_queue :: "string \<Rightarrow> scheduler \<Rightarrow> (string \<times> schedule_request) option \<times> scheduler" where
  "claim_in_queue token s = (case claim_head token (sh_queue s) of (h, q) \<Rightarrow> (h, s\<lparr>sh_queue := q\<rparr>))"

definition restore_in_queue :: "string \<Rightarrow> scheduler \<Rightarrow> scheduler" where
  "restore_in_queue token s = s\<lparr>sh_queue := snd (restore_claim token (sh_queue s))\<rparr>"

fun is_capacity_error :: "py_error \<Rightarrow> bool" where
  "is_capacity_error MemoryCapacityError = True"
| "is_capacity_error (DeviceResourceCapacityError m) = True"
| "is_capacity_error _ = False"

definition steal_register ::
  "string \<Rightarrow> schedule_request \<Rightarrow> reservation \<Rightarrow> int \<Rightarrow> (scheduler \<Rightarrow> scheduler)
    \<Rightarrow> scheduler \<Rightarrow> queued_outcome \<times> scheduler" where
  "steal_register token r v now others s =
     (let s1 = s\<lparr>sh_queued_active := AList.update token v (sh_queued_active s)\<rparr>;
          waited = claimed_wait_nanoseconds token now (sh_queue s1)
      in case finish_in_queue token (others s1) of
           (False, s2) \<Rightarrow>
             (NothingAdmitted,
              complete v (s2\<lparr>sh_queued_active := AList.delete token (sh_queued_active s2)\<rparr>))
         | (True, s2) \<Rightarrow>
             (let s3 = observe_wait waited s2
              in (Admitted token r v, s3\<lparr>sh_counters := count_steal (sh_counters s3)\<rparr>)))"

definition steal_next ::
  "execution_backend \<Rightarrow> steal_others \<Rightarrow> admission_inputs \<Rightarrow> int \<Rightarrow> scheduler
    \<Rightarrow> queued_outcome \<times> scheduler" where
  "steal_next target others ids now s =
     (if \<not> steal_allowed s then (NothingAdmitted, s)
      else (case peek_queue s of
        (None, s1) \<Rightarrow> (NothingAdmitted, s1)
      | (Some (token, r), s1) \<Rightarrow>
          (let s2 = so_peeked others s1
           in case dispatch_decision r s2 of
             Inl e \<Rightarrow> (QueueRaised e, s2)
           | Inr d \<Rightarrow>
               if target = dd_selected d \<or> target \<notin> set (dd_fallback_chain d)
                  \<or> \<not> can_steal (dd_selected d) target (sh_devices s2)
               then (NothingAdmitted, s2)
               else (case claim_in_queue token s2 of
                 (None, s3) \<Rightarrow> (NothingAdmitted, s3)
               | (Some claimed, s3) \<Rightarrow>
                   (case admit_selected ids r target (Some (dd_selected d)) s3 of
                      (Inl e, s4) \<Rightarrow>
                        if is_capacity_error e
                        then (NothingAdmitted, restore_in_queue token (so_claimed others s4))
                        else (AdmissionRaised token r e,
                              snd (finish_in_queue token (so_claimed others s4)))
                    | (Inr v, s4) \<Rightarrow>
                        steal_register token r v now (so_registered others) (so_claimed others s4))))))"

section \<open>Completion and cancellation\<close>

definition complete_queued :: "string \<Rightarrow> scheduler \<Rightarrow> bool \<times> scheduler" where
  "complete_queued token s =
     (case map_of (sh_queued_active s) token of
        None \<Rightarrow> (False, s)
      | Some v \<Rightarrow>
          (True, snd (apply_pending_adaptive_policy
             (release_reservation v (s\<lparr>sh_queued_active := AList.delete token (sh_queued_active s)\<rparr>)))))"

definition cancel_in_queue :: "string \<Rightarrow> scheduler \<Rightarrow> bool \<times> scheduler" where
  "cancel_in_queue token s =
     (case cancel_queued token (sh_queue s) of (found, q) \<Rightarrow> (found, s\<lparr>sh_queue := q\<rparr>))"

definition cancel :: "string \<Rightarrow> (scheduler \<Rightarrow> scheduler) \<Rightarrow> scheduler \<Rightarrow> bool \<times> scheduler" where
  "cancel token others s =
     (case cancel_in_queue token s of
        (True, s1) \<Rightarrow> (True, s1)
      | (False, s1) \<Rightarrow> complete_queued token (others s1))"

definition scheduler_queue_snapshot :: "scheduler \<Rightarrow> queue_counts \<times> int" where
  "scheduler_queue_snapshot s = (queue_snapshot (sh_queue s), int (length (sh_queued_active s)))"

section \<open>The device pipeline\<close>

text \<open>The policy lock is held only for the check of the level: other threads run between it and the reservation (\<open>checked\<close>), so
  the level may rise in between, and while the stages run (\<open>running\<close>).\<close>

definition pipeline_done :: "'a result \<Rightarrow> (scheduler, 'a) method" where
  "pipeline_done outcome s =
     (outcome, snd (apply_pending_adaptive_policy
        (case outcome of
           Inl (DeviceResourceCapacityError m) \<Rightarrow>
             if contains ''contention_unqualified'' m
             then s\<lparr>sh_counters := count_contention_rejection (sh_counters s)\<rparr> else s
         | _ \<Rightarrow> s)))"

definition execute_device_pipeline ::
  "string list \<Rightarrow> 'a pipeline_stage list \<Rightarrow> (scheduler \<Rightarrow> scheduler) \<Rightarrow> (scheduler \<Rightarrow> scheduler) \<Rightarrow> int \<Rightarrow> int
    \<Rightarrow> (scheduler, 'a pipeline_result) method" where
  "execute_device_pipeline uuids stages checked running started finished s =
     (if 0 < po_level (sh_policy s)
      then (Inl (AdaptiveScheduleCapacityError ''parallel device pipeline disabled under adaptive pressure''), s)
      else
        let s0 = checked s
        in (case pipeline_reserve uuids stages (sh_devices s0) of
              Inl e \<Rightarrow> pipeline_done (Inl e) s0
            | Inr (vs, l) \<Rightarrow>
                (let s1 = running (s0\<lparr>sh_devices := l\<rparr>)
                 in pipeline_done (pipeline_outcome stages started finished)
                      (s1\<lparr>sh_devices := pipeline_release vs (sh_devices s1)\<rparr>))))"

end
