(* ===== verification/SchedulerPlans.thy ===== *)
theory SchedulerPlans
  imports SchedulerQueueing
begin

text \<open>
  The control side of \<open>BasicScheduler\<close>: execution plans and device placement plans, which change
  only at a safe point, the operator dispatcher, operations at a safe point and the lease of idle
  maintenance.  Every method holds the policy lock for the part that changes state.
\<close>

record plan_decision =
  pd_plan_id :: string
  pd_status :: string
  pd_replaced_plan_id :: "string option"

definition plan_decision_init :: "plan_decision \<Rightarrow> plan_decision result" where
  "plan_decision_init d =
     guard_ok (pd_status d \<in> {''applied'', ''deferred'', ''ignored''})
       ''invalid plan application status'' d"

definition at_rest :: "scheduler \<Rightarrow> bool" where
  "at_rest s \<longleftrightarrow> active_reservations s = 0"

section \<open>Execution plans\<close>

definition validate_execution_plan :: "apple_execution_plan \<Rightarrow> unit result" where
  "validate_execution_plan p =
     (if ep_dry_run p then Inl (ValueError ''dry-run execution plans cannot be activated'')
      else if ep_memory_ceiling_bytes p < ep_estimated_peak_bytes p
        then Inl (ValueError ''execution plan exceeds its memory ceiling'')
      else Inr ())"

definition request_execution_plan :: "apple_execution_plan \<Rightarrow> (scheduler, plan_decision) method" where
  "request_execution_plan p s =
     (case validate_execution_plan p of
        Inl e \<Rightarrow> (Inl e, s)
      | Inr u \<Rightarrow>
          (let current = map_option ep_plan_id (sh_active_plan s)
           in if current = Some (ep_plan_id p)
                then (plan_decision_init \<lparr>pd_plan_id = ep_plan_id p, pd_status = ''ignored'',
                        pd_replaced_plan_id = current\<rparr>, s\<lparr>sh_pending_plan := None\<rparr>)
              else if \<not> at_rest s
                then (plan_decision_init \<lparr>pd_plan_id = ep_plan_id p, pd_status = ''deferred'',
                        pd_replaced_plan_id = map_option ep_plan_id (sh_pending_plan s)\<rparr>,
                      s\<lparr>sh_pending_plan := Some p\<rparr>)
              else (plan_decision_init \<lparr>pd_plan_id = ep_plan_id p, pd_status = ''applied'',
                      pd_replaced_plan_id = current\<rparr>,
                    s\<lparr>sh_active_plan := Some p, sh_pending_plan := None\<rparr>)))"

definition apply_pending_execution_plan :: "(scheduler, plan_decision option) method" where
  "apply_pending_execution_plan s =
     (case sh_pending_plan s of
        None \<Rightarrow> (Inr None, s)
      | Some p \<Rightarrow>
          if \<not> at_rest s
          then (map_sum id Some (plan_decision_init \<lparr>pd_plan_id = ep_plan_id p, pd_status = ''deferred'',
                  pd_replaced_plan_id = None\<rparr>), s)
          else (map_sum id Some (plan_decision_init \<lparr>pd_plan_id = ep_plan_id p, pd_status = ''applied'',
                  pd_replaced_plan_id = map_option ep_plan_id (sh_active_plan s)\<rparr>),
                s\<lparr>sh_active_plan := Some p, sh_pending_plan := None\<rparr>))"

section \<open>Device placement plans\<close>

definition request_device_placement_plan ::
  "rat \<Rightarrow> device_placement_plan \<Rightarrow> (scheduler, plan_decision) method" where
  "request_device_placement_plan now p s =
     (if pl_valid_until p \<le> py_trunc now
      then (Inl (ValueError ''expired device placement plans cannot be activated''), s)
      else (case sh_dispatcher s of
        None \<Rightarrow> (Inl (RuntimeError ''device placement requires a probe-gated dispatcher''), s)
      | Some registry \<Rightarrow>
          if pl_hardware_fingerprint p \<noteq> rg_hardware_fingerprint registry
             \<or> pl_environment_fingerprint p \<noteq> rg_environment_fingerprint registry
          then (Inl (ValueError ''device placement plan does not match dispatcher profile''), s)
          else
            (let current = map_option pl_plan_id (sh_active_placement s)
             in if current = Some (pl_plan_id p)
                  then (plan_decision_init \<lparr>pd_plan_id = pl_plan_id p, pd_status = ''ignored'',
                          pd_replaced_plan_id = current\<rparr>, s\<lparr>sh_pending_placement := None\<rparr>)
                else if \<not> at_rest s
                  then (plan_decision_init \<lparr>pd_plan_id = pl_plan_id p, pd_status = ''deferred'',
                          pd_replaced_plan_id = map_option pl_plan_id (sh_pending_placement s)\<rparr>,
                        s\<lparr>sh_pending_placement := Some p\<rparr>)
                else (plan_decision_init \<lparr>pd_plan_id = pl_plan_id p, pd_status = ''applied'',
                        pd_replaced_plan_id = current\<rparr>,
                      s\<lparr>sh_active_placement := Some p, sh_pending_placement := None\<rparr>))))"

definition apply_pending_device_placement_plan :: "(scheduler, plan_decision option) method" where
  "apply_pending_device_placement_plan s =
     (case sh_pending_placement s of
        None \<Rightarrow> (Inr None, s)
      | Some p \<Rightarrow>
          if \<not> at_rest s
          then (map_sum id Some (plan_decision_init \<lparr>pd_plan_id = pl_plan_id p, pd_status = ''deferred'',
                  pd_replaced_plan_id = None\<rparr>), s)
          else (map_sum id Some (plan_decision_init \<lparr>pd_plan_id = pl_plan_id p, pd_status = ''applied'',
                  pd_replaced_plan_id = map_option pl_plan_id (sh_active_placement s)\<rparr>),
                s\<lparr>sh_active_placement := Some p, sh_pending_placement := None\<rparr>))"

definition placement_entry :: "device_placement \<Rightarrow> json" where
  "placement_entry p = JObj
     [(''operator'', JStr (dp_operator p)),
      (''phase'', JStr (workload_phase_value (dp_phase p))),
      (''precision'', JStr (dp_precision p)),
      (''dimensions'', j_ints (dp_dimensions p)),
      (''batch_size'', JInt (dp_batch_size p)),
      (''backend'', JStr (execution_backend_value (dp_backend p))),
      (''improvement_ratio'', dp_improvement_ratio p)]"

definition device_placement_snapshot :: "scheduler \<Rightarrow> json" where
  "device_placement_snapshot s =
     (let active = sh_active_placement s
      in JObj
     [(''enabled'', JBool (active \<noteq> None)),
      (''active_plan_id'', j_option (\<lambda>p. JStr (pl_plan_id p)) active),
      (''pending_plan_id'', j_option (\<lambda>p. JStr (pl_plan_id p)) (sh_pending_placement s)),
      (''placement_count'', JInt (case active of None \<Rightarrow> 0 | Some p \<Rightarrow> int (length (pl_placements p)))),
      (''valid_until_unix_seconds'', j_option (\<lambda>p. JInt (pl_valid_until p)) active),
      (''placements'', JList (case active of None \<Rightarrow> [] | Some p \<Rightarrow> map placement_entry (pl_placements p)))])"

definition execution_plan_snapshot :: "scheduler \<Rightarrow> json" where
  "execution_plan_snapshot s =
     (let active = sh_active_plan s
      in JObj
     [(''enabled'', JBool (active \<noteq> None)),
      (''active_plan_id'', j_option (\<lambda>p. JStr (ep_plan_id p)) active),
      (''pending_plan_id'', j_option (\<lambda>p. JStr (ep_plan_id p)) (sh_pending_plan s)),
      (''context_tokens'', JInt (case active of None \<Rightarrow> 0 | Some p \<Rightarrow> ep_context_tokens p)),
      (''prefill_batch_size'', JInt (case active of None \<Rightarrow> 0 | Some p \<Rightarrow> pp_batch_size (ep_prefill p))),
      (''decode_batch_size'', JInt (case active of None \<Rightarrow> 0 | Some p \<Rightarrow> pp_batch_size (ep_decode p))),
      (''state_precision'', j_option (\<lambda>p. JStr (pp_state_precision (ep_decode p))) active)])"

section \<open>Safe points and maintenance\<close>

definition install_operator_dispatcher :: "kernel_registry \<Rightarrow> (scheduler, unit) method" where
  "install_operator_dispatcher g s =
     (if \<not> at_rest s
      then (Inl (RuntimeError ''operator dispatcher requires a scheduler safe point''), s)
      else (Inr (), s\<lparr>sh_dispatcher := Some g\<rparr>))"

definition at_safe_point :: "(scheduler, 'a) method \<Rightarrow> (scheduler, bool \<times> 'a option) method" where
  "at_safe_point operation s =
     (if \<not> at_rest s then (Inr (False, None), s)
      else (case operation s of
              (Inl e, s') \<Rightarrow> (Inl e, s')
            | (Inr x, s') \<Rightarrow> (Inr (True, Some x), s')))"

definition begin_idle_maintenance :: "string \<Rightarrow> (scheduler, bool) method" where
  "begin_idle_maintenance owner s =
     (if owner = [] \<or> 64 < length owner
        then (Inl (ValueError ''maintenance owner must contain 1 to 64 characters''), s)
      else if sh_maintenance_owner s \<noteq> None then (Inr False, s)
      else if \<not> at_rest s then (Inr False, s)
      else (Inr True, s\<lparr>sh_maintenance_owner := Some owner\<rparr>))"

definition end_idle_maintenance :: "string \<Rightarrow> (scheduler, unit) method" where
  "end_idle_maintenance owner s =
     (if sh_maintenance_owner s \<noteq> Some owner
      then (Inl (RuntimeError ''scheduler maintenance owner mismatch''), s)
      else (Inr (), s\<lparr>sh_maintenance_owner := None\<rparr>))"

definition maintenance_snapshot :: "scheduler \<Rightarrow> json" where
  "maintenance_snapshot s = JObj
     [(''active'', JBool (sh_maintenance_owner s \<noteq> None)),
      (''owner'', j_option JStr (sh_maintenance_owner s))]"

end
