(* ===== verification/SchedulerSteps.thy ===== *)
theory SchedulerSteps
  imports SchedulerPlans
begin

text \<open>
  The scheduler as a transition system.  Each rule of \<open>sched_step\<close> is one section of the code that
  runs under a lock, so a run of any number of threads is a sequence of these steps.  The invariant
  \<open>scheduler_ok\<close> holds in every reachable state, and the public calls are shown to be sequences of
  steps when what the other threads do between their locked sections is one.
\<close>

section \<open>What admission does\<close>

definition fresh_ids :: "admission_inputs \<Rightarrow> scheduler \<Rightarrow> bool" where
  "fresh_ids ids s \<longleftrightarrow>
     ai_memory_id ids \<notin> set (keys (mc_reservations (sh_memory s)))
     \<and> ai_device_id ids \<notin> set (keys (dl_reservations (sh_devices s)))"

lemma reserve_devices_Inr:
  "reserve_devices uuid b n steal l = Inr (d, l') \<longleftrightarrow>
     (\<exists>q. for_backend b n = Inr q \<and> device_reserve uuid q steal l = Inr (d, l'))"
  by (auto simp: reserve_devices_def split: sum.splits)

lemma for_backend_nonneg: "for_backend b n = Inr q \<Longrightarrow> 0 \<le> n"
  using for_backend_Inr [of b n q] by (auto simp: device_request_ok_def)

lemma admit_selected_cases:
  assumes "admit_selected ids r b steal s = (res, s')" and "fresh_ids ids s"
  obtains (refused) e where "res = Inl e"
      "s' = s \<or> s' = s\<lparr>sh_counters := count_contention_rejection (sh_counters s)\<rparr>"
  | (admitted) w m q d l where "admission_check r s = Inr ()"
      "memory_reserve (ai_memory_id ids) (r, runtime_backend b, ai_now ids) (sh_memory s) = Inr (w, m)"
      "for_backend b (sr_estimated_memory_bytes r) = Inr q"
      "device_reserve (ai_device_id ids) q steal (sh_devices s) = Inr (d, l)"
      "res = Inr (w\<lparr>rv_execution_plan_id := map_option ep_plan_id (sh_active_plan s),
                    rv_device_placement_plan_id := map_option pl_plan_id (sh_active_placement s),
                    rv_device_reservation_id := Some (dv_reservation_id d)\<rparr>)"
      "s' = s\<lparr>sh_memory := m, sh_devices := l, sh_counters := count_assignment b (sh_counters s)\<rparr>"
proof (cases "admission_check r s")
  case (Inl e)
  then show ?thesis using assms(1) by (intro refused [of e]) (simp_all add: admit_selected_def)
next
  case check: (Inr u)
  show ?thesis
  proof (cases "memory_reserve (ai_memory_id ids) (r, runtime_backend b, ai_now ids) (sh_memory s)")
    case (Inl e)
    then show ?thesis using assms(1) check by (intro refused [of e]) (simp_all add: admit_selected_def)
  next
    case (Inr p)
    then obtain w m where w: "memory_reserve (ai_memory_id ids) (r, runtime_backend b, ai_now ids) (sh_memory s)
        = Inr (w, m)" by (cases p) auto
    have undo: "snd (memory_release (rv_reservation_id w) m) = sh_memory s"
      using memory_reserve_release [OF _ w] assms(2) w by (simp add: fresh_ids_def memory_reserve_Inr)
    show ?thesis
    proof (cases "reserve_devices (ai_device_id ids) b (sr_estimated_memory_bytes r) steal (sh_devices s)")
      case (Inl e)
      then have "res = Inl e"
        "s' = s\<lparr>sh_memory := sh_memory s, sh_counters := (if is_contention_error e
            then count_contention_rejection (sh_counters s) else sh_counters s)\<rparr>"
        using assms(1) check w undo by (simp_all add: admit_selected_def)
      then show ?thesis by (intro refused [of e]) simp_all
    next
      case (Inr p')
      then obtain d l where d: "reserve_devices (ai_device_id ids) b (sr_estimated_memory_bytes r) steal
          (sh_devices s) = Inr (d, l)" by (cases p') auto
      then obtain q where q: "for_backend b (sr_estimated_memory_bytes r) = Inr q"
        "device_reserve (ai_device_id ids) q steal (sh_devices s) = Inr (d, l)"
        by (auto simp: reserve_devices_Inr)
      show ?thesis
        by (rule admitted [OF _ w q]) (use assms(1) check w d in \<open>simp_all add: admit_selected_def\<close>)
    qed
  qed
qed

lemma admit_as_selected:
  "admit ids r s = (res, s') \<Longrightarrow> (\<exists>e. res = Inl e \<and> s' = s)
     \<or> (\<exists>d. dispatch_decision r s = Inr d \<and> admit_selected ids r (dd_selected d) None s = (res, s'))"
  by (auto simp: admit_def split: sum.splits)

section \<open>Steps\<close>

text \<open>\<open>control\<close> collects the calls on the policy, the plans, the dispatcher and maintenance.\<close>

inductive control :: "scheduler \<Rightarrow> scheduler \<Rightarrow> bool" where
  inputs: "control s (snd (update_adaptive_inputs pressure thermal mode s))"
| preference: "control s (snd (set_scheduling_preference preference s))"
| pending_policy: "control s (snd (apply_pending_adaptive_policy s))"
| request_plan: "control s (snd (request_execution_plan p s))"
| pending_plan: "control s (snd (apply_pending_execution_plan s))"
| request_placement: "control s (snd (request_device_placement_plan now pp s))"
| pending_placement: "control s (snd (apply_pending_device_placement_plan s))"
| dispatcher: "control s (snd (install_operator_dispatcher g s))"
| begin_maintenance: "control s (snd (begin_idle_maintenance owner s))"
| end_maintenance: "control s (snd (end_idle_maintenance owner s))"

text \<open>\<open>counting\<close> collects the writes to the counters and to the dictionary of queued work, and
  \<open>queueing\<close> the methods of the queue.\<close>

inductive counting :: "scheduler \<Rightarrow> scheduler \<Rightarrow> bool" where
  waited: "counting s (observe_wait ns s)"
| stole: "counting s (s\<lparr>sh_counters := count_steal (sh_counters s)\<rparr>)"
| contention: "counting s (s\<lparr>sh_counters := count_contention_rejection (sh_counters s)\<rparr>)"
| fell_back: "count_fallback n exhausted_chain (sh_counters s) = Inr c \<Longrightarrow> counting s (s\<lparr>sh_counters := c\<rparr>)"
| register: "counting s (s\<lparr>sh_queued_active := AList.update token v (sh_queued_active s)\<rparr>)"
| unregister: "counting s (s\<lparr>sh_queued_active := AList.delete token (sh_queued_active s)\<rparr>)"

inductive queueing :: "schedule_queue \<Rightarrow> schedule_queue \<Rightarrow> bool" where
  enqueue: "fresh_token token q \<Longrightarrow> enqueue token now r q = Inr (t, q') \<Longrightarrow> queueing q q'"
| poll: "queueing q (snd (poll q))"
| peek: "queueing q (snd (peek q))"
| claim: "queueing q (snd (claim_head token q))"
| finish: "queueing q (snd (finish_claim token q))"
| restore: "queueing q (snd (restore_claim token q))"
| cancelled: "queueing q (snd (cancel_queued token q))"

inductive devicing :: "device_ledger \<Rightarrow> device_ledger \<Rightarrow> bool" where
  group: "distinct uuids \<Longrightarrow> length uuids = length qs \<Longrightarrow>
    set uuids \<inter> set (keys (dl_reservations l)) = {} \<Longrightarrow> \<forall>q\<in>set qs. device_request_ok q \<Longrightarrow>
    reserve_many uuids qs l = Inr (vs, l') \<Longrightarrow> devicing l l'"
| release_group: "devicing l (pipeline_release vs l)"
| moved: "for_backend b n = Inr q \<Longrightarrow> transfer i q l = Inr (v, l') \<Longrightarrow> devicing l l'"
| installed: "install_contention_evidence e l = Inr (x, l') \<Longrightarrow> devicing l l'"
| replaced: "replace_contention_evidence es l = Inr l' \<Longrightarrow> devicing l l'"

inductive sched_step :: "scheduler \<Rightarrow> scheduler \<Rightarrow> bool" where
  control: "control s s' \<Longrightarrow> sched_step s s'"
| counting: "counting s s' \<Longrightarrow> sched_step s s'"
| queueing: "queueing (sh_queue s) q \<Longrightarrow> sched_step s (s\<lparr>sh_queue := q\<rparr>)"
| devicing: "devicing (sh_devices s) l \<Longrightarrow> sched_step s (s\<lparr>sh_devices := l\<rparr>)"
| admission: "fresh_ids ids s \<Longrightarrow> sched_step s (snd (admit_selected ids r b steal s))"
| release: "sched_step s (release_reservation v s)"

section \<open>The invariant\<close>

definition policy_ok :: "adaptive_policy \<Rightarrow> bool" where
  "policy_ok p \<longleftrightarrow> po_level p \<le> 2
     \<and> po_maximum_active_requests p = [1024, 2, 1] ! po_level p
     \<and> po_maximum_batch_size p = [2147483647, 4, 1] ! po_level p
     \<and> max (pressure_level (po_pressure p)) (thermal_level (po_thermal p)) \<le> po_level p"

text \<open>A pending policy only relaxes, and while the maintenance lease is held no admitted work holds
  memory.\<close>

definition scheduler_ok :: "scheduler \<Rightarrow> bool" where
  "scheduler_ok s \<longleftrightarrow>
     memory_ok (sh_memory s) \<and> ledger_ok (sh_devices s) \<and> queue_ok (sh_queue s)
     \<and> counters_ok (sh_counters s) \<and> dict_ok (sh_queued_active s)
     \<and> policy_ok (sh_policy s)
     \<and> (\<forall>p. sh_pending_policy s = Some p \<longrightarrow> policy_ok p \<and> po_level p < po_level (sh_policy s))
     \<and> (sh_maintenance_owner s \<noteq> None \<longrightarrow> mc_reservations (sh_memory s) = [])"

lemma level_bounds: "pressure_level p \<le> 2" "thermal_level t \<le> 2" "preference_level x m \<le> 1"
  subgoal by (cases p) simp_all
  subgoal by (cases t) simp_all
  by (simp add: preference_level_def)

lemma policy_from_inputs_ok: "policy_from_inputs p t m x = Inr q \<Longrightarrow> policy_ok q"
  using level_bounds(1) [of p] level_bounds(2) [of t] level_bounds(3) [of x m]
  by (auto simp: policy_from_inputs_def policy_ok_def Let_def split: if_splits)

lemma policy_from_inputs_level:
  "policy_from_inputs p t m x = Inr q \<Longrightarrow>
     po_level q = max (pressure_level p) (max (thermal_level t) (preference_level x m))
     \<and> po_pressure q = p \<and> po_thermal q = t \<and> po_power q = m"
  by (auto simp: policy_from_inputs_def Let_def split: if_splits)

lemma no_active_reservations: "at_rest s \<longleftrightarrow> mc_reservations (sh_memory s) = []"
  by (simp add: at_rest_def active_reservations_def memory_snapshot_def)

lemma has_active_work_iff:
  "has_active_work s \<longleftrightarrow> mc_reservations (sh_memory s) \<noteq> [] \<or> dl_reservations (sh_devices s) \<noteq> []"
  by (simp add: has_active_work_def active_reservations_def memory_snapshot_def device_ledger_snapshot_def)

lemma new_scheduler_ok: "new_scheduler sha256 hw n g maximum = Inr s \<Longrightarrow> scheduler_ok s"
  using new_memory_controller_ok new_device_ledger_ok new_schedule_queue_ok policy_from_inputs_ok
    new_counters_ok
  by (auto simp: new_scheduler_def scheduler_ok_def split: sum.splits)

text \<open>Effects of the control calls, each as the two or three states it may end in.\<close>

lemma update_adaptive_inputs_cases:
  obtains (error) e where "update_adaptive_inputs pressure thermal mode s = (Inl e, s)"
  | (ignored) "update_adaptive_inputs pressure thermal mode s
      = (Inr Ignored, s\<lparr>sh_pending_policy := None, sh_counters := count_transition Ignored (sh_counters s)\<rparr>)"
  | (deferred) p where "policy_ok p" "po_level p < po_level (sh_policy s)" "has_active_work s"
      "update_adaptive_inputs pressure thermal mode s
        = (Inr Deferred, s\<lparr>sh_pending_policy := Some p, sh_counters := count_transition Deferred (sh_counters s)\<rparr>)"
  | (applied) p where "policy_ok p" "po_level (sh_policy s) \<le> po_level p \<or> \<not> has_active_work s"
      "update_adaptive_inputs pressure thermal mode s
        = (Inr Applied, s\<lparr>sh_policy := p, sh_pending_policy := None,
             sh_counters := count_transition Applied (sh_counters s)\<rparr>)"
proof -
  let ?l = "case sh_pending_policy s of None \<Rightarrow> sh_policy s | Some p \<Rightarrow> p"
  show ?thesis
  proof (cases "policy_from_inputs (known MP_Unknown pressure (po_pressure ?l))
                (known TS_Unknown thermal (po_thermal ?l))
                (known PM_Unknown mode (po_power ?l)) (sh_preference s)")
    case (Inl e)
    then show ?thesis by (intro error [of e]) (simp add: update_adaptive_inputs_def Let_def)
  next
    case (Inr p)
    note ok = policy_from_inputs_ok [OF Inr]
    consider "p = sh_policy s"
      | "p \<noteq> sh_policy s" "po_level p < po_level (sh_policy s)" "has_active_work s"
      | "p \<noteq> sh_policy s" "po_level (sh_policy s) \<le> po_level p \<or> \<not> has_active_work s"
      by linarith
    then show ?thesis
    proof cases
      case 1
      with Inr show ?thesis by (intro ignored) (simp add: update_adaptive_inputs_def Let_def)
    next
      case 2
      with Inr ok show ?thesis by (intro deferred [of p]) (simp_all add: update_adaptive_inputs_def Let_def)
    next
      case 3
      with Inr ok show ?thesis
        by (intro applied [of p]) (auto simp: update_adaptive_inputs_def Let_def)
    qed
  qed
qed

lemma apply_pending_cases:
  obtains (kept) "snd (apply_pending_adaptive_policy s) = s"
  | (applied) p where "sh_pending_policy s = Some p" "\<not> has_active_work s"
      "snd (apply_pending_adaptive_policy s) = s\<lparr>sh_policy := p, sh_pending_policy := None,
         sh_counters := count_transition Applied (sh_counters s)\<rparr>"
proof (cases "sh_pending_policy s")
  case None
  then show ?thesis by (intro kept) (simp add: apply_pending_adaptive_policy_def)
next
  case (Some p)
  show ?thesis
  proof (cases "has_active_work s")
    case True
    with Some show ?thesis by (intro kept) (simp add: apply_pending_adaptive_policy_def)
  next
    case False
    with Some show ?thesis by (intro applied [of p]) (simp_all add: apply_pending_adaptive_policy_def)
  qed
qed

text \<open>Everything but the policy, plan, dispatcher and maintenance fields is untouched by a control
  call, and those fields change as stated.\<close>

definition work_frame :: "scheduler \<Rightarrow> scheduler \<Rightarrow> bool" where
  "work_frame s s' \<longleftrightarrow> sh_memory s' = sh_memory s \<and> sh_devices s' = sh_devices s
     \<and> sh_queue s' = sh_queue s \<and> sh_queued_active s' = sh_queued_active s
     \<and> sh_hardware s' = sh_hardware s"

definition config_frame :: "scheduler \<Rightarrow> scheduler \<Rightarrow> bool" where
  "config_frame s s' \<longleftrightarrow> sh_active_plan s' = sh_active_plan s \<and> sh_pending_plan s' = sh_pending_plan s
     \<and> sh_active_placement s' = sh_active_placement s \<and> sh_pending_placement s' = sh_pending_placement s
     \<and> sh_dispatcher s' = sh_dispatcher s \<and> sh_maintenance_owner s' = sh_maintenance_owner s
     \<and> sh_policy s' = sh_policy s \<and> sh_pending_policy s' = sh_pending_policy s
     \<and> sh_preference s' = sh_preference s \<and> sh_hardware s' = sh_hardware s"

lemma update_adaptive_inputs_work: "work_frame s (snd (update_adaptive_inputs pressure thermal mode s))"
  by (rule update_adaptive_inputs_cases [of pressure thermal mode s]) (simp_all add: work_frame_def)

lemma apply_pending_work [frames]: "work_frame s (snd (apply_pending_adaptive_policy s))"
  by (rule apply_pending_cases [of s]) (simp_all add: work_frame_def)

lemma control_work: "control s s' \<Longrightarrow> work_frame s s'"
proof (induction rule: control.induct)
  case (inputs s pressure thermal mode)
  show ?case by (rule update_adaptive_inputs_work)
next
  case (preference s p)
  have "work_frame (s\<lparr>sh_preference := p\<rparr>) (snd (update_adaptive_inputs None None None (s\<lparr>sh_preference := p\<rparr>)))"
    by (rule update_adaptive_inputs_work)
  then show ?case by (simp add: set_scheduling_preference_def work_frame_def)
next
  case (pending_policy s)
  show ?case by (rule apply_pending_work)
qed (auto simp: work_frame_def request_execution_plan_def apply_pending_execution_plan_def
    request_device_placement_plan_def apply_pending_device_placement_plan_def
    install_operator_dispatcher_def begin_idle_maintenance_def end_idle_maintenance_def Let_def
    split: sum.splits option.splits)

lemma update_adaptive_inputs_ok:
  "scheduler_ok s \<Longrightarrow> scheduler_ok (snd (update_adaptive_inputs pressure thermal mode s))"
  by (rule update_adaptive_inputs_cases [of pressure thermal mode s]) (simp_all add: scheduler_ok_def)

lemma apply_pending_ok: "scheduler_ok s \<Longrightarrow> scheduler_ok (snd (apply_pending_adaptive_policy s))"
  by (rule apply_pending_cases [of s]) (simp_all add: scheduler_ok_def)

lemma control_ok: "control s s' \<Longrightarrow> scheduler_ok s \<Longrightarrow> scheduler_ok s'"
proof (induction rule: control.induct)
  case (inputs s pressure thermal mode)
  then show ?case by (rule update_adaptive_inputs_ok)
next
  case (preference s p)
  then have "scheduler_ok (s\<lparr>sh_preference := p\<rparr>)" by (simp add: scheduler_ok_def)
  with preference show ?case by (simp add: set_scheduling_preference_def update_adaptive_inputs_ok)
next
  case (pending_policy s)
  then show ?case by (rule apply_pending_ok)
qed (auto simp: scheduler_ok_def request_execution_plan_def apply_pending_execution_plan_def
    request_device_placement_plan_def apply_pending_device_placement_plan_def
    install_operator_dispatcher_def begin_idle_maintenance_def end_idle_maintenance_def Let_def
    no_active_reservations split: sum.splits option.splits)

lemma counting_ok: "counting s s' \<Longrightarrow> scheduler_ok s \<Longrightarrow> scheduler_ok s'"
proof (induction rule: counting.induct)
  case (waited s ns)
  then show ?case
    by (auto simp: observe_wait_def scheduler_ok_def counters_ok_results(1) split: sum.splits)
qed (auto simp: scheduler_ok_def counters_ok_results(2) dict_ok_update dict_ok_delete)

lemma queueing_ok: "queueing q q' \<Longrightarrow> queue_ok q \<Longrightarrow> queue_ok q'"
  by (induction rule: queueing.induct)
    (simp_all add: enqueue_ok poll_ok peek_ok claim_head_ok finish_ok restore_claim_ok cancel_queued_ok)

lemma devicing_ok: "devicing l l' \<Longrightarrow> ledger_ok l \<Longrightarrow> ledger_ok l'"
proof (induction rule: devicing.induct)
  case (group uuids qs l vs l')
  show ?case by (rule reserve_many_ok(1) [OF group.prems group.hyps])
next
  case (release_group l vs)
  then show ?case by (rule pipeline_release_ok)
next
  case (moved b n q i l v l')
  show ?case
    by (rule transfer_ok [OF moved.prems _ moved.hyps(2)]) (use for_backend_Inr [OF moved.hyps(1)] in simp)
next
  case (installed e l x l')
  then have "ledger_ok l' = ledger_ok l"
    by (intro balanced_frame) (auto simp: install_contention_evidence_def split: if_splits)
  with installed show ?case by simp
next
  case (replaced es l l')
  then have "ledger_ok l' = ledger_ok l"
    by (intro balanced_frame) (auto simp: replace_contention_evidence_def split: if_splits)
  with replaced show ?case by simp
qed

lemma admission_ok:
  assumes "scheduler_ok s" and "fresh_ids ids s"
  shows "scheduler_ok (snd (admit_selected ids r b steal s))"
proof -
  obtain res s' where a: "admit_selected ids r b steal s = (res, s')" by force
  from a assms(2) show ?thesis
  proof (cases rule: admit_selected_cases)
    case (refused e)
    with assms(1) show ?thesis by (auto simp: a scheduler_ok_def)
  next
    case (admitted w m q d l)
    have pos: "0 \<le> rv_bytes w" using admitted(2,3) for_backend_nonneg by (auto simp: memory_reserve_Inr)
    have "memory_ok m"
      by (rule memory.reserve_ok [OF _ _ admitted(2)]) (use assms pos in \<open>auto simp: scheduler_ok_def fresh_ids_def\<close>)
    moreover have "ledger_ok l"
      by (rule device_reserve_ok [OF _ _ _ admitted(4)])
        (use assms for_backend_Inr [OF admitted(3)] in \<open>auto simp: scheduler_ok_def fresh_ids_def\<close>)
    moreover have "sh_maintenance_owner s = None"
      using admitted(1) by (auto simp: admission_check_def split: option.splits)
    ultimately show ?thesis using assms(1) by (simp add: a admitted(6) scheduler_ok_def)
  qed
qed

lemma release_nil: "mc_reservations m = [] \<Longrightarrow> mc_reservations (snd (memory_release i m)) = []"
  by (simp add: memory_release_def)

lemma scheduler_release_ok: "scheduler_ok s \<Longrightarrow> scheduler_ok (release_reservation v s)"
  by (auto simp: release_reservation_def scheduler_ok_def memory.release_ok devices.release_ok release_nil
      split: option.splits)

lemma sched_step_ok: "sched_step s s' \<Longrightarrow> scheduler_ok s \<Longrightarrow> scheduler_ok s'"
proof (induction rule: sched_step.induct)
  case (queueing s q)
  then show ?case using queueing_ok by (simp add: scheduler_ok_def)
next
  case (devicing s l)
  then show ?case using devicing_ok by (simp add: scheduler_ok_def)
qed (simp_all add: control_ok counting_ok admission_ok scheduler_release_ok)

section \<open>Runs\<close>

abbreviation steps :: "scheduler \<Rightarrow> scheduler \<Rightarrow> bool" where
  "steps \<equiv> sched_step\<^sup>*\<^sup>*"

definition sched_reachable :: "scheduler \<Rightarrow> bool" where
  "sched_reachable s \<longleftrightarrow>
     (\<exists>sha256 hw n g maximum s0. new_scheduler sha256 hw n g maximum = Inr s0 \<and> steps s0 s)"

lemma steps_ok: "steps s s' \<Longrightarrow> scheduler_ok s \<Longrightarrow> scheduler_ok s'"
  by (induction rule: rtranclp_induct) (simp_all add: sched_step_ok)

lemma reachable_scheduler_ok: "sched_reachable s \<Longrightarrow> scheduler_ok s"
  unfolding sched_reachable_def using steps_ok new_scheduler_ok by blast

lemma reachable_steps: "sched_reachable s \<Longrightarrow> steps s s' \<Longrightarrow> sched_reachable s'"
  unfolding sched_reachable_def by (metis rtranclp_trans)

lemma step_steps: "sched_step s s' \<Longrightarrow> steps s s'"
  by (rule r_into_rtranclp)

lemmas steps_trans = rtranclp_trans [where r = sched_step]

section \<open>The calls are sequences of steps\<close>

lemma queue_steps: "queueing (sh_queue s) q \<Longrightarrow> steps s (s\<lparr>sh_queue := q\<rparr>)"
  by (intro step_steps sched_step.queueing)

lemma finish_steps: "steps s (snd (finish_in_queue token s))"
proof -
  have "queueing (sh_queue s) (snd (finish_claim token (sh_queue s)))" by (rule queueing.finish)
  then have "steps s (s\<lparr>sh_queue := snd (finish_claim token (sh_queue s))\<rparr>)" by (rule queue_steps)
  then show ?thesis by (simp add: finish_in_queue_def case_prod_unfold)
qed

lemma apply_pending_steps: "steps s (snd (apply_pending_adaptive_policy s))"
  by (intro step_steps sched_step.control control.pending_policy)

lemma release_steps: "steps s (release_reservation v s)"
  by (intro step_steps sched_step.release)

lemma complete_steps: "steps s (complete v s)"
  unfolding complete_def using release_steps apply_pending_steps by (rule steps_trans)

lemma counting_steps:
  "steps s (observe_wait ns s)"
  "steps s (s\<lparr>sh_counters := count_steal (sh_counters s)\<rparr>)"
  "steps s (s\<lparr>sh_counters := count_contention_rejection (sh_counters s)\<rparr>)"
  "steps s (s\<lparr>sh_queued_active := AList.update token v (sh_queued_active s)\<rparr>)"
  "steps s (s\<lparr>sh_queued_active := AList.delete token (sh_queued_active s)\<rparr>)"
  by (intro step_steps sched_step.counting counting.intros)+

lemma admit_steps: "fresh_ids ids s \<Longrightarrow> steps s (snd (admit ids r s))"
  by (cases "dispatch_decision r s") (auto simp: admit_def intro: step_steps sched_step.admission)

text \<open>What other threads do is a sequence of steps.\<close>

definition stepwise :: "(scheduler \<Rightarrow> scheduler) \<Rightarrow> bool" where
  "stepwise f \<longleftrightarrow> (\<forall>s. steps s (f s))"

lemma stepwise_id: "stepwise (\<lambda>s. s)"
  by (simp add: stepwise_def)

lemma stepwise_run: "stepwise f \<Longrightarrow> steps s t \<Longrightarrow> steps s (f t)"
  by (auto simp: stepwise_def intro: steps_trans)

lemma queueing_run: "queueing\<^sup>*\<^sup>* q q' \<Longrightarrow> sh_queue s = q \<Longrightarrow> steps s (s\<lparr>sh_queue := q'\<rparr>)"
proof (induction rule: rtranclp_induct)
  case base
  then have "s\<lparr>sh_queue := q\<rparr> = s" by simp
  then show ?case by simp
next
  case (step q1 q2)
  have "steps (s\<lparr>sh_queue := q1\<rparr>) (s\<lparr>sh_queue := q1\<rparr>\<lparr>sh_queue := q2\<rparr>)"
    by (rule queue_steps) (simp add: step.hyps(2))
  with step.IH [OF step.prems] have "steps s (s\<lparr>sh_queue := q1\<rparr>\<lparr>sh_queue := q2\<rparr>)" by (rule steps_trans)
  then show ?case by simp
qed

lemma dequeue_loop_queueing:
  "list_all (\<lambda>w. \<forall>q. queueing\<^sup>*\<^sup>* q (snd w q)) wakes \<Longrightarrow> queueing\<^sup>*\<^sup>* q (snd (dequeue_loop timeout wakes q))"
proof (induction timeout wakes q rule: dequeue_loop.induct)
  case (1 timeout q)
  have "queueing q (snd (poll q))" by (rule queueing.poll)
  then show ?case by (auto split: option.splits prod.splits)
next
  case (2 timeout remaining others wakes q)
  obtain r q' where p: "poll q = (r, q')" by force
  have first: "queueing\<^sup>*\<^sup>* q q'" using queueing.poll [of q] p by auto
  show ?case
  proof (cases "r = None \<and> timeout \<noteq> Some 0 \<and> \<not> (timeout \<noteq> None \<and> remaining \<le> 0)")
    case True
    then have "queueing\<^sup>*\<^sup>* (others q') (snd (dequeue_loop timeout wakes (others q')))"
      using 2 p by auto
    moreover have "queueing\<^sup>*\<^sup>* q' (others q')" using 2(2) by simp
    ultimately show ?thesis using first True p by simp
  next
    case False
    then show ?thesis using first p by (auto split: option.splits)
  qed
qed

lemma dequeue_steps:
  assumes "list_all (\<lambda>w. \<forall>q. queueing\<^sup>*\<^sup>* q (snd w q)) wakes"
    and "dequeue timeout wakes (sh_queue s) = (res, q)"
  shows "steps s (s\<lparr>sh_queue := q\<rparr>)"
proof (rule queueing_run [OF _ refl])
  show "queueing\<^sup>*\<^sup>* (sh_queue s) q"
    using dequeue_loop_queueing [OF assms(1), of "sh_queue s" timeout] assms(2)
    by (auto simp: dequeue_def split: if_splits prod.splits)
qed

lemma register_claim_steps:
  assumes "stepwise others"
  shows "steps s (snd (register_claim token r v now others s))"
proof -
  let ?s1 = "s\<lparr>sh_queued_active := AList.update token v (sh_queued_active s)\<rparr>"
  obtain found s2 where f: "finish_in_queue token (others ?s1) = (found, s2)" by force
  have "steps s (others ?s1)" using assms counting_steps(4) by (rule stepwise_run)
  moreover have "steps (others ?s1) s2" using finish_steps [of "others ?s1" token] f by simp
  ultimately have "steps s s2" by (rule steps_trans)
  moreover have "steps s2 (snd (register_claim token r v now others s))"
    using f counting_steps(1) [of s2] steps_trans [OF counting_steps(5) [of s2 token] release_steps]
    by (cases found) (simp_all add: register_claim_def Let_def)
  ultimately show ?thesis by (rule steps_trans)
qed

lemma admit_next_steps:
  assumes "list_all (\<lambda>w. \<forall>q. queueing\<^sup>*\<^sup>* q (snd w q)) wakes"
    and "stepwise (ao_dequeued others)" "stepwise (ao_admitted others)" "stepwise (ao_registered others)"
    and "fresh_ids ids (ao_dequeued others (s\<lparr>sh_queue := snd (dequeue timeout wakes (sh_queue s))\<rparr>))"
  shows "steps s (snd (admit_next timeout wakes others ids now s))"
proof -
  obtain res q where d: "dequeue timeout wakes (sh_queue s) = (res, q)" by force
  note start = dequeue_steps [OF assms(1) d]
  show ?thesis
  proof (cases "\<exists>token r. res = Inr (Returned (Some (token, r)))")
    case False
    then show ?thesis using start d
      by (auto simp: admit_next_def split: sum.splits wait_outcome.splits option.splits)
  next
    case True
    then obtain token r where res: "res = Inr (Returned (Some (token, r)))" by blast
    let ?s0 = "ao_dequeued others (s\<lparr>sh_queue := q\<rparr>)"
    obtain v s1 where a: "admit ids r ?s0 = (v, s1)" by force
    have "fresh_ids ids ?s0" using assms(5) d by simp
    then have "steps ?s0 s1" using admit_steps [of ids ?s0 r] a by simp
    with stepwise_run [OF assms(2) start] have "steps s s1" by (rule steps_trans)
    then have "steps s (ao_admitted others s1)" by (rule stepwise_run [OF assms(3)])
    moreover have "steps (ao_admitted others s1) (snd (admit_next timeout wakes others ids now s))"
      using d res a finish_steps register_claim_steps [OF assms(4)]
      by (cases v) (simp_all add: admit_next_def)
    ultimately show ?thesis by (rule steps_trans)
  qed
qed

lemma peek_steps: "steps s (snd (peek_queue s))"
proof -
  have "queueing (sh_queue s) (snd (peek (sh_queue s)))" by (rule queueing.peek)
  then have "steps s (s\<lparr>sh_queue := snd (peek (sh_queue s))\<rparr>)" by (rule queue_steps)
  then show ?thesis by (simp add: peek_queue_def case_prod_unfold)
qed

lemma claim_steps: "steps s (snd (claim_in_queue token s))"
proof -
  have "queueing (sh_queue s) (snd (claim_head token (sh_queue s)))" by (rule queueing.claim)
  then have "steps s (s\<lparr>sh_queue := snd (claim_head token (sh_queue s))\<rparr>)" by (rule queue_steps)
  then show ?thesis by (simp add: claim_in_queue_def case_prod_unfold)
qed

lemma restore_steps: "steps s (restore_in_queue token s)"
  unfolding restore_in_queue_def by (intro queue_steps queueing.restore)

lemma cancel_in_queue_steps: "steps s (snd (cancel_in_queue token s))"
proof -
  have "queueing (sh_queue s) (snd (cancel_queued token (sh_queue s)))" by (rule queueing.cancelled)
  then have "steps s (s\<lparr>sh_queue := snd (cancel_queued token (sh_queue s))\<rparr>)" by (rule queue_steps)
  then show ?thesis by (simp add: cancel_in_queue_def case_prod_unfold)
qed

lemma complete_queued_steps: "steps s (snd (complete_queued token s))"
proof (cases "map_of (sh_queued_active s) token")
  case None
  then show ?thesis by (simp add: complete_queued_def)
next
  case (Some v)
  let ?s = "s\<lparr>sh_queued_active := AList.delete token (sh_queued_active s)\<rparr>"
  have "steps s (snd (apply_pending_adaptive_policy (release_reservation v ?s)))"
    using counting_steps(5) release_steps apply_pending_steps by (blast intro: steps_trans)
  with Some show ?thesis by (simp add: complete_queued_def)
qed

lemma cancel_steps:
  assumes "stepwise others"
  shows "steps s (snd (cancel token others s))"
proof -
  obtain found s1 where c: "cancel_in_queue token s = (found, s1)" by force
  have first: "steps s s1" using cancel_in_queue_steps [of s token] c by simp
  moreover have "steps s (snd (complete_queued token (others s1)))"
    using stepwise_run [OF assms first] complete_queued_steps by (rule steps_trans)
  ultimately show ?thesis using c by (auto simp: cancel_def split: bool.splits)
qed

lemma steal_register_steps:
  assumes "stepwise others"
  shows "steps s (snd (steal_register token r v now others s))"
proof -
  let ?s1 = "s\<lparr>sh_queued_active := AList.update token v (sh_queued_active s)\<rparr>"
  obtain found s2 where f: "finish_in_queue token (others ?s1) = (found, s2)" by force
  have "steps s (others ?s1)" using assms counting_steps(4) by (rule stepwise_run)
  moreover have "steps (others ?s1) s2" using finish_steps [of "others ?s1" token] f by simp
  ultimately have "steps s s2" by (rule steps_trans)
  moreover have "steps s2 (snd (steal_register token r v now others s))"
    using f steps_trans [OF counting_steps(1) [of s2] counting_steps(2)]
      steps_trans [OF counting_steps(5) [of s2 token] complete_steps]
    by (cases found) (simp_all add: steal_register_def Let_def)
  ultimately show ?thesis by (rule steps_trans)
qed

lemma claim_ledgers:
  "sh_memory (snd (claim_in_queue token s)) = sh_memory s"
  "sh_devices (snd (claim_in_queue token s)) = sh_devices s"
  by (simp_all add: claim_in_queue_def case_prod_unfold)

lemma steal_next_steps:
  assumes "stepwise (so_peeked others)" "stepwise (so_claimed others)" "stepwise (so_registered others)"
    and "fresh_ids ids (so_peeked others (snd (peek_queue s)))"
  shows "steps s (snd (steal_next target others ids now s))"
proof -
  obtain h s1 where p: "peek_queue s = (h, s1)" by force
  define s2 where "s2 = so_peeked others s1"
  have s1: "steps s s1" using peek_steps [of s] p by simp
  have s2: "steps s s2" unfolding s2_def by (rule stepwise_run [OF assms(1) s1])
  show ?thesis
  proof (cases h)
    case None
    with p s1 show ?thesis by (simp add: steal_next_def)
  next
    case (Some head)
    obtain token r where h: "h = Some (token, r)" using Some by (cases head) auto
    obtain c s3 where c: "claim_in_queue token s2 = (c, s3)" by force
    have s3: "steps s s3" using steps_trans [OF s2 claim_steps [of s2 token]] c by simp
    have fresh: "fresh_ids ids s3"
      using assms(4) claim_ledgers [of token s2] p c by (simp add: fresh_ids_def s2_def)
    have admitted: "steps s (so_claimed others (snd (admit_selected ids r target st s3)))" for st
      by (rule stepwise_run [OF assms(2)])
        (rule steps_trans [OF s3 step_steps [OF sched_step.admission [OF fresh]]])
    have outcomes:
      "steps s (snd (finish_in_queue token (so_claimed others (snd (admit_selected ids r target st s3)))))"
      "steps s (restore_in_queue token (so_claimed others (snd (admit_selected ids r target st s3))))"
      "steps s (snd (steal_register token r v now (so_registered others)
          (so_claimed others (snd (admit_selected ids r target st s3)))))" for st v
      by (rule steps_trans [OF admitted finish_steps] steps_trans [OF admitted restore_steps]
          steps_trans [OF admitted steal_register_steps [OF assms(3)]])+
    have after: "steps s (snd (case admit_selected ids r target st s3 of
         (Inl e, s4) \<Rightarrow>
           if is_capacity_error e then (NothingAdmitted, restore_in_queue token (so_claimed others s4))
           else (AdmissionRaised token r e, snd (finish_in_queue token (so_claimed others s4)))
       | (Inr v, s4) \<Rightarrow> steal_register token r v now (so_registered others) (so_claimed others s4)))" for st
    proof -
      obtain res s4 where "admit_selected ids r target st s3 = (res, s4)" by force
      with outcomes [where st = st] show ?thesis by (cases res) simp_all
    qed
    show ?thesis
    proof (cases "dispatch_decision r s2")
      case (Inl e)
      with p h s1 s2 show ?thesis by (simp add: steal_next_def s2_def)
    next
      case (Inr d)
      show ?thesis
      proof (cases c)
        case None
        with Inr p h c s2 s3 show ?thesis by (simp add: steal_next_def s2_def [symmetric])
      next
        case (Some claimed)
        with Inr p h c s2 after [of "Some (dd_selected d)"] show ?thesis
          by (simp add: steal_next_def s2_def [symmetric])
      qed
    qed
  qed
qed

lemma submit_steps: "fresh_token token (sh_queue s) \<Longrightarrow> steps s (snd (submit token now r s))"
  by (auto simp: submit_def intro!: queue_steps queueing.enqueue split: sum.splits)

end
