(* ===== verification/SchedulerSafety.thy ===== *)
theory SchedulerSafety
  imports SchedulerSteps
begin

text \<open>
  What the scheduler promises: the refinement of its calls by atomic steps, its invariants in every
  interleaving, changes of configuration only at safe points, and the guarantees of admission,
  completion, stealing and cancellation.  The last section states behaviour that differs from what
  the code means to do.
\<close>

section \<open>Choosing a backend\<close>

lemma dispatch_candidates_facts:
  "CPU \<in> set (dispatch_candidates operator n)" "distinct (dispatch_candidates operator n)"
  "length (dispatch_candidates operator n) \<le> 3"
  by (simp_all add: dispatch_candidates_def)

definition chosen_candidates :: "schedule_request \<Rightarrow> scheduler \<Rightarrow> execution_backend list" where
  "chosen_candidates r s =
     (let base = dispatch_candidates (lower (sr_operator r)) (sr_batch_size r)
      in if po_level (sh_policy s) = 2 then [CPU]
         else case matching_device_placement r s of
                None \<Rightarrow> base
              | Some p \<Rightarrow> dp_backend p # filter (\<lambda>b. b \<noteq> dp_backend p) base)"

lemma chosen_candidates_facts:
  "CPU \<in> set (chosen_candidates r s)" "distinct (chosen_candidates r s)"
  "chosen_candidates r s \<noteq> []" "length (chosen_candidates r s) \<le> 4"
proof -
  let ?base = "dispatch_candidates (lower (sr_operator r)) (sr_batch_size r)"
  have "length (filter P ?base) \<le> 3" for P
    using length_filter_le [of P ?base] dispatch_candidates_facts(3) by (rule le_trans)
  then show "length (chosen_candidates r s) \<le> 4"
    using dispatch_candidates_facts(3) [of "lower (sr_operator r)" "sr_batch_size r"]
    by (auto simp: chosen_candidates_def Let_def split: option.splits)
  show "CPU \<in> set (chosen_candidates r s)" "distinct (chosen_candidates r s)"
    "chosen_candidates r s \<noteq> []"
    using dispatch_candidates_facts [of "lower (sr_operator r)" "sr_batch_size r"]
    by (auto simp: chosen_candidates_def Let_def split: option.splits)
qed

lemma dispatch_decision_chosen:
  "dispatch_decision r s =
     (case sh_dispatcher s of
        Some registry \<Rightarrow>
          (case dispatch_request_init \<lparr>dr_operator = lower (sr_operator r),
                  dr_candidates = chosen_candidates r s\<rparr> of
             Inl e \<Rightarrow> Inl e | Inr q \<Rightarrow> dispatch registry q)
      | None \<Rightarrow>
          let final = (if \<not> hw_is_apple_silicon (sh_hardware s) then [CPU] else chosen_candidates r s)
          in Inr \<lparr>dd_operator = lower (sr_operator r), dd_selected = hd final, dd_fallback_chain = tl final,
                  dd_quarantined = [], dd_unprobed = [], dd_reason = ''legacy_policy''\<rparr>)"
  by (simp add: dispatch_decision_def chosen_candidates_def Let_def split: option.splits)

text \<open>Dispatch is total and can always fall back to the CPU.  For an operator name of 1 to 128
  characters a decision is always made; its chain contains the CPU and has no duplicates; under
  critical pressure or heat only the CPU is chosen; and with a dispatcher every other backend of the
  chain passed its probe for the operator.\<close>
theorem dispatch_reaches_cpu:
  assumes "sr_operator r \<noteq> []" and "length (sr_operator r) \<le> 128"
    and "\<forall>g. sh_dispatcher s = Some g \<longrightarrow> registry_ok g"
  shows "\<exists>d. dispatch_decision r s = Inr d
    \<and> CPU \<in> set (dd_selected d # dd_fallback_chain d)
    \<and> distinct (dd_selected d # dd_fallback_chain d)
    \<and> (po_level (sh_policy s) = 2 \<longrightarrow> dd_selected d = CPU \<and> dd_fallback_chain d = [])
    \<and> (\<forall>g b. sh_dispatcher s = Some g \<longrightarrow> b \<in> set (dd_selected d # dd_fallback_chain d) \<longrightarrow>
         b = CPU \<or> is_usable g b (lower (sr_operator r)))"
proof (cases "sh_dispatcher s")
  case None
  define f where "f = (if \<not> hw_is_apple_silicon (sh_hardware s) then [CPU] else chosen_candidates r s)"
  have f: "f \<noteq> []" "CPU \<in> set f" "distinct f" "po_level (sh_policy s) = 2 \<Longrightarrow> f = [CPU]"
    using chosen_candidates_facts [of r s] by (simp_all add: f_def) (simp add: chosen_candidates_def)
  then obtain b bs where b: "f = b # bs" by (cases f) auto
  have "dispatch_decision r s = Inr \<lparr>dd_operator = lower (sr_operator r), dd_selected = b,
      dd_fallback_chain = bs, dd_quarantined = [], dd_unprobed = [], dd_reason = ''legacy_policy''\<rparr>"
    using None b by (simp add: dispatch_decision_chosen Let_def f_def [symmetric])
  then show ?thesis using None f b by auto
next
  case (Some g)
  let ?q = "\<lparr>dr_operator = lower (sr_operator r), dr_candidates = chosen_candidates r s\<rparr>"
  have init: "dispatch_request_init ?q = Inr ?q"
    using assms(1,2) chosen_candidates_facts [of r s]
    by (simp add: dispatch_request_init_def lower_def all_backends_def not_less)
  have ok: "registry_ok g" using assms(3) Some by simp
  have "CPU \<in> set (filter (dispatchable g (lower (sr_operator r))) (chosen_candidates r s))"
    using chosen_candidates_facts(1) by (simp add: dispatchable_def)
  then obtain c cs where "filter (dispatchable g (lower (sr_operator r))) (chosen_candidates r s) = c # cs"
    by (cases "filter (dispatchable g (lower (sr_operator r))) (chosen_candidates r s)") (simp_all del: set_filter)
  then obtain d where d: "dispatch g ?q = Inr d"
    by (simp add: dispatch_def classify_filters results_by_key_registry [OF ok] usable_filter)
  have chain: "dd_selected d # dd_fallback_chain d
      = filter (dispatchable g (lower (sr_operator r))) (chosen_candidates r s)"
    using dispatch_Inr(1) [OF ok d] by simp
  have "po_level (sh_policy s) = 2 \<Longrightarrow> dd_selected d = CPU \<and> dd_fallback_chain d = []"
    using chain by (auto simp: chosen_candidates_def dispatchable_def)
  moreover have "CPU \<in> set (dd_selected d # dd_fallback_chain d)"
    unfolding chain using chosen_candidates_facts(1) by (simp add: dispatchable_def)
  moreover have "distinct (dd_selected d # dd_fallback_chain d)"
    unfolding chain using chosen_candidates_facts(2) by (rule distinct_filter)
  moreover have "\<forall>b\<in>set (dd_selected d # dd_fallback_chain d). b = CPU \<or> is_usable g b (lower (sr_operator r))"
    unfolding chain by (simp add: dispatchable_def)
  moreover have "dispatch_decision r s = Inr d" using Some init d by (simp add: dispatch_decision_chosen)
  ultimately show ?thesis using Some by (intro exI [of _ d]) simp
qed

section \<open>Refinement and invariants\<close>

text \<open>C1: the scheduler's invariant.  In every reachable state, whatever the interleaving: the memory
  and device ledgers equal the sum of their live reservations and stay within capacity; the queue
  stays within its bound; the policy in force covers the pressure and heat last applied, and a pending
  policy only relaxes it; and while the maintenance lease is held no admitted request holds memory.\<close>

theorem scheduler_invariant:
  assumes "sched_reachable s"
  shows "mc_reserved (sh_memory s) = asum rv_bytes (mc_reservations (sh_memory s))
    \<and> mc_reserved (sh_memory s) \<le> mc_capacity (sh_memory s)
    \<and> (\<forall>k. dl_used (sh_devices s) k = asum (\<lambda>q. demand_of q k) (dl_reservations (sh_devices s))
         \<and> dl_used (sh_devices s) k \<le> dl_capacity (sh_devices s) k)
    \<and> qc_queued (queue_snapshot (sh_queue s)) + qc_dispatching (queue_snapshot (sh_queue s))
        \<le> sq_maximum (sh_queue s)
    \<and> pressure_level (po_pressure (sh_policy s)) \<le> po_level (sh_policy s)
    \<and> thermal_level (po_thermal (sh_policy s)) \<le> po_level (sh_policy s)
    \<and> (\<forall>p. sh_pending_policy s = Some p \<longrightarrow> po_level p < po_level (sh_policy s))
    \<and> (sh_maintenance_owner s \<noteq> None \<longrightarrow> active_reservations s = 0)"
proof -
  have ok: "scheduler_ok s" by (rule reachable_scheduler_ok [OF assms])
  then have q: "queue_ok (sh_queue s)" by (simp add: scheduler_ok_def)
  have "qc_queued (queue_snapshot (sh_queue s)) + qc_dispatching (queue_snapshot (sh_queue s))
      \<le> sq_maximum (sh_queue s)"
    using claimed_card [OF q] queue_okD(11) [OF q] by (simp add: queue_snapshot_def)
  moreover have "sh_maintenance_owner s \<noteq> None \<longrightarrow> active_reservations s = 0"
    using ok no_active_reservations [of s] by (auto simp: scheduler_ok_def at_rest_def)
  ultimately show ?thesis using ok by (simp add: scheduler_ok_def balanced_def policy_ok_def)
qed

section \<open>Safe points\<close>

lemma counting_config: "counting s s' \<Longrightarrow> config_frame s s'"
  by (induction rule: counting.induct) (auto simp: config_frame_def observe_wait_def split: sum.splits)

lemma work_frames_config:
  "config_frame s (s\<lparr>sh_queue := q\<rparr>)" "config_frame s (s\<lparr>sh_devices := l\<rparr>)"
  "config_frame s (release_reservation v s)"
  by (simp_all add: config_frame_def release_reservation_def)

lemma admission_config: "fresh_ids ids s \<Longrightarrow> config_frame s (snd (admit_selected ids r b steal s))"
proof -
  assume fresh: "fresh_ids ids s"
  obtain res s' where a: "admit_selected ids r b steal s = (res, s')" by force
  from a fresh show ?thesis by (cases rule: admit_selected_cases) (auto simp: a config_frame_def)
qed

definition safe_change :: "scheduler \<Rightarrow> scheduler \<Rightarrow> bool" where
  "safe_change s s' \<longleftrightarrow>
     (sh_active_plan s' \<noteq> sh_active_plan s \<or> sh_active_placement s' \<noteq> sh_active_placement s
        \<or> sh_dispatcher s' \<noteq> sh_dispatcher s
        \<or> sh_maintenance_owner s = None \<and> sh_maintenance_owner s' \<noteq> None
      \<longrightarrow> at_rest s)
     \<and> (po_level (sh_policy s') < po_level (sh_policy s) \<longrightarrow> \<not> has_active_work s)"

lemma config_frame_safe: "config_frame s s' \<Longrightarrow> safe_change s s'"
  by (auto simp: config_frame_def safe_change_def)

lemma inputs_safe: "safe_change s (snd (update_adaptive_inputs pressure thermal mode s))"
  by (rule update_adaptive_inputs_cases [of pressure thermal mode s]) (auto simp: safe_change_def)

lemma preference_safe: "safe_change s (snd (set_scheduling_preference p s))"
proof -
  let ?s = "s\<lparr>sh_preference := p\<rparr>"
  have "safe_change ?s (snd (update_adaptive_inputs None None None ?s))" by (rule inputs_safe)
  then show ?thesis
    by (auto simp: set_scheduling_preference_def safe_change_def at_rest_def active_reservations_def
        has_active_work_iff)
qed

lemma pending_policy_safe: "safe_change s (snd (apply_pending_adaptive_policy s))"
  by (rule apply_pending_cases [of s]) (auto simp: safe_change_def)

lemma control_safe: "control s s' \<Longrightarrow> safe_change s s'"
proof (induction rule: control.induct)
  case (inputs s pressure thermal mode)
  show ?case by (rule inputs_safe)
next
  case (preference s p)
  show ?case by (rule preference_safe)
next
  case (pending_policy s)
  show ?case by (rule pending_policy_safe)
qed (auto simp: safe_change_def request_execution_plan_def apply_pending_execution_plan_def
    request_device_placement_plan_def apply_pending_device_placement_plan_def
    install_operator_dispatcher_def begin_idle_maintenance_def end_idle_maintenance_def Let_def
    split: sum.splits option.splits)

text \<open>C3: configuration changes only at safe points.  A step of any thread that changes the active
  execution plan, the active placement plan or the dispatcher, or takes the maintenance lease, is
  taken while no admitted request holds memory; a step that relaxes the adaptive policy is taken while
  neither memory nor device reservations are live.\<close>

theorem reconfiguration_at_safe_points:
  assumes "sched_step s s'"
  shows "(sh_active_plan s' \<noteq> sh_active_plan s \<or> sh_active_placement s' \<noteq> sh_active_placement s
        \<or> sh_dispatcher s' \<noteq> sh_dispatcher s
        \<or> sh_maintenance_owner s = None \<and> sh_maintenance_owner s' \<noteq> None
      \<longrightarrow> active_reservations s = 0)
    \<and> (po_level (sh_policy s') < po_level (sh_policy s) \<longrightarrow> \<not> has_active_work s)"
proof -
  have "safe_change s s'"
    using assms
    by (cases rule: sched_step.cases)
      (auto intro: control_safe config_frame_safe counting_config work_frames_config admission_config)
  then show ?thesis by (simp add: safe_change_def at_rest_def)
qed

section \<open>Witnesses\<close>

definition example_memory_info :: memory_info where
  "example_memory_info = \<lparr>mi_total_bytes = 1000, mi_available_bytes = 800, mi_process_resident_bytes = 10,
     mi_pressure = MP_Normal, mi_source = ''vm_stat''\<rparr>"

definition example_hardware :: hardware_info where
  "example_hardware = \<lparr>hw_platform = ''darwin'', hw_architecture = ''arm64'', hw_soc = ''m4'',
     hw_physical_cpu_count = 8, hw_logical_cpu_count = 8, hw_gpu_core_count = Some 10,
     hw_memory = example_memory_info, hw_is_apple_silicon = True, hw_os_version = ''15'',
     hw_thermal_state = TS_Nominal, hw_power_mode = PM_Automatic\<rparr>"

definition example_policy :: adaptive_policy where
  "example_policy = \<lparr>po_pressure = MP_Normal, po_thermal = TS_Nominal, po_power = PM_Automatic,
     po_level = 0, po_maximum_active_requests = 1024, po_maximum_batch_size = 2147483647\<rparr>"

definition example_scheduler :: scheduler where
  "example_scheduler =
     \<lparr>sh_hardware = example_hardware,
      sh_memory = \<lparr>mc_capacity = 1000, mc_reserved = 0, mc_reservations = []\<rparr>,
      sh_devices = \<lparr>dl_profile_id = ''p'', dl_capacity = device_capacities example_hardware 1000,
        dl_used = (\<lambda>k. 0), dl_reservations = [], dl_qualified_pairs = {}\<rparr>,
      sh_active_plan = None, sh_pending_plan = None, sh_active_placement = None,
      sh_pending_placement = None, sh_dispatcher = Some example_kernel_registry,
      sh_maintenance_owner = None,
      sh_queue = \<lparr>sq_maximum = 4, sq_sequence = 0, sq_heap = [], sq_requests = [], sq_enqueued_ns = [],
        sq_claimed = {}, sq_claim_entries = []\<rparr>,
      sh_queued_active = [], sh_counters = new_counters, sh_preference = ''automatic'',
      sh_policy = example_policy, sh_pending_policy = None\<rparr>"

lemma example_new_scheduler:
  "new_scheduler (\<lambda>x. ''p'') example_hardware 1000 (Some example_kernel_registry) 4 = Inr example_scheduler"
  by (simp add: new_scheduler_def new_memory_controller_def contention_profile_id_def
      new_device_ledger_def all_resources_def device_capacities_def new_schedule_queue_def
      policy_from_inputs_def scheduling_preferences_def preference_level_def
      example_hardware_def example_memory_info_def example_scheduler_def example_policy_def)

lemma example_reachable: "sched_reachable example_scheduler"
  unfolding sched_reachable_def using example_new_scheduler by blast

lemma example_scheduler_ok: "scheduler_ok example_scheduler"
  by (rule reachable_scheduler_ok [OF example_reachable])

theorem dispatch_reaches_cpu_witness:
  "\<exists>d. dispatch_decision (example_schedule_request Normal) example_scheduler = Inr d
     \<and> CPU \<in> set (dd_selected d # dd_fallback_chain d)"
  using dispatch_reaches_cpu [of "example_schedule_request Normal" example_scheduler] example_registry_ok
  by (auto simp: example_schedule_request_def example_scheduler_def)

definition example_admission :: admission_inputs where
  "example_admission = \<lparr>ai_memory_id = ''m1'', ai_device_id = ''d1'', ai_now = 0\<rparr>"

definition quiet_admit :: admit_others where
  "quiet_admit = \<lparr>ao_dequeued = (\<lambda>s. s), ao_admitted = (\<lambda>s. s), ao_registered = (\<lambda>s. s)\<rparr>"

definition quiet_steal :: steal_others where
  "quiet_steal = \<lparr>so_peeked = (\<lambda>s. s), so_claimed = (\<lambda>s. s), so_registered = (\<lambda>s. s)\<rparr>"

theorem scheduler_invariant_witness:
  "mc_reserved (sh_memory example_scheduler) \<le> 1000
     \<and> thermal_level (po_thermal (sh_policy example_scheduler)) \<le> 0"
  using scheduler_invariant [OF example_reachable] by (simp add: example_scheduler_def example_policy_def)

lemma example_plan_step:
  "sched_step example_scheduler (snd (begin_idle_maintenance ''autotuner'' example_scheduler))"
  by (intro sched_step.control control.begin_maintenance)

theorem reconfiguration_at_safe_points_witness:
  "sh_maintenance_owner (snd (begin_idle_maintenance ''autotuner'' example_scheduler)) = Some ''autotuner''
     \<and> active_reservations example_scheduler = 0"
proof -
  have "sh_maintenance_owner (snd (begin_idle_maintenance ''autotuner'' example_scheduler)) = Some ''autotuner''"
    by (simp add: begin_idle_maintenance_def no_active_reservations example_scheduler_def)
  moreover have "sh_maintenance_owner example_scheduler = None" by (simp add: example_scheduler_def)
  ultimately show ?thesis using reconfiguration_at_safe_points [OF example_plan_step] by simp
qed

end
