(* ===== verification/SchedulerAdmission.thy ===== *)
theory SchedulerAdmission
  imports SchedulerSafety
begin

text \<open>
  The guarantees of direct admission: it is all or nothing and respects every limit, and completion undoes
  it; and three places where the code does less than it means to.
\<close>

section \<open>Frames\<close>

lemma dispatch_decision_frame:
  "dispatch_decision r (s\<lparr>sh_queue := q\<rparr>) = dispatch_decision r s"
  by (simp add: dispatch_decision_def matching_device_placement_def Let_def split: option.splits)

lemma apply_pending_frame:
  "sh_memory (snd (apply_pending_adaptive_policy s)) = sh_memory s"
  "sh_devices (snd (apply_pending_adaptive_policy s)) = sh_devices s"
  "sh_queue (snd (apply_pending_adaptive_policy s)) = sh_queue s"
  "sh_queued_active (snd (apply_pending_adaptive_policy s)) = sh_queued_active s"
  using apply_pending_work [of s] by (simp_all add: work_frame_def)

lemma apply_pending_drained:
  "sh_pending_policy (snd (apply_pending_adaptive_policy s)) \<noteq> None \<Longrightarrow> has_active_work s"
  by (auto simp: apply_pending_adaptive_policy_def split: option.splits if_splits)

lemma release_frame:
  "sh_queue (release_reservation v s) = sh_queue s"
  "sh_queued_active (release_reservation v s) = sh_queued_active s"
  "sh_pending_policy (release_reservation v s) = sh_pending_policy s"
  "sh_policy (release_reservation v s) = sh_policy s"
  by (simp_all add: release_reservation_def)

lemma has_active_work_cong:
  "sh_memory s' = sh_memory s \<Longrightarrow> sh_devices s' = sh_devices s \<Longrightarrow> has_active_work s' = has_active_work s"
  by (simp add: has_active_work_iff)

lemma memory_release_keys:
  "set (keys (mc_reservations (snd (memory_release i m)))) = set (keys (mc_reservations m)) - {i}"
proof (cases "map_of (mc_reservations m) i")
  case None
  then have "i \<notin> set (keys (mc_reservations m))" by (simp add: map_of_eq_None_iff)
  with None show ?thesis by (simp add: memory_release_def)
next
  case (Some v)
  then show ?thesis by (simp add: memory_release_def keys_delete [simplified])
qed

lemma released_gone:
  "rv_reservation_id v \<notin> set (keys (mc_reservations (sh_memory (release_reservation v s))))"
  "rv_device_reservation_id v = Some i \<Longrightarrow>
     i \<notin> set (keys (dl_reservations (sh_devices (release_reservation v s))))"
  using memory_release_keys [of "rv_reservation_id v" "sh_memory s"] device_release_keys [of i "sh_devices s"]
  by (auto simp: release_reservation_def)

lemma admitted_released:
  assumes "admit_selected ids r b steal s = (Inr v, s')" and "fresh_ids ids s"
  shows "sh_memory (release_reservation v s') = sh_memory s"
    and "sh_devices (release_reservation v s') = sh_devices s"
    and "rv_reservation_id v = ai_memory_id ids" and "rv_device_reservation_id v = Some (ai_device_id ids)"
proof -
  from assms obtain w m q d l where a: "memory_reserve (ai_memory_id ids) (r, runtime_backend b, ai_now ids) (sh_memory s) = Inr (w, m)"
    "device_reserve (ai_device_id ids) q steal (sh_devices s) = Inr (d, l)"
    "v = w\<lparr>rv_execution_plan_id := map_option ep_plan_id (sh_active_plan s),
           rv_device_placement_plan_id := map_option pl_plan_id (sh_active_placement s),
           rv_device_reservation_id := Some (dv_reservation_id d)\<rparr>"
    "s' = s\<lparr>sh_memory := m, sh_devices := l, sh_counters := count_assignment b (sh_counters s)\<rparr>"
    by (cases rule: admit_selected_cases) auto
  have fresh: "ai_memory_id ids \<notin> set (keys (mc_reservations (sh_memory s)))"
    "ai_device_id ids \<notin> set (keys (dl_reservations (sh_devices s)))"
    using assms(2) by (simp_all add: fresh_ids_def)
  have id: "rv_reservation_id w = ai_memory_id ids" "dv_reservation_id d = ai_device_id ids"
    using a(1,2) by (simp_all add: memory_reserve_Inr device_reserve_Inr)
  show "sh_memory (release_reservation v s') = sh_memory s"
    using memory_reserve_release [OF fresh(1) a(1)] id by (simp add: release_reservation_def a(3,4))
  show "sh_devices (release_reservation v s') = sh_devices s"
    using device_reserve_undone [OF a(2) fresh(2)] id by (simp add: release_reservation_def a(3,4))
  show "rv_reservation_id v = ai_memory_id ids" "rv_device_reservation_id v = Some (ai_device_id ids)"
    using id by (simp_all add: a(3))
qed

section \<open>Admission and completion\<close>

text \<open>Admission is all or nothing.  When admission raises, for whatever reason, the scheduler is as
  before; only the counter of contention rejections may have grown.\<close>
theorem failed_admission_changes_nothing:
  assumes "fresh_ids ids s" and "admit ids r s = (Inl e, s')"
  shows "s' = s \<or> s' = s\<lparr>sh_counters := count_contention_rejection (sh_counters s)\<rparr>"
proof -
  from admit_as_selected [OF assms(2)]
  consider "s' = s" | b where "admit_selected ids r b None s = (Inl e, s')" by blast
  then show ?thesis
  proof cases
    case 2
    from this assms(1) show ?thesis by (cases rule: admit_selected_cases) auto
  qed simp
qed

text \<open>C2: admission respects every limit.  An admitted request found no maintenance lease, fits the
  batch and concurrency limits of the policy, the batch limit of the active plan and the memory left;
  its device reservation is for the backend dispatch selected, which is pair-qualified with every
  backend at work; and both ledgers now hold its estimate under the identifiers of the reservation.\<close>

theorem admission_respects_limits:
  assumes "fresh_ids ids s" and "admit ids r s = (Inr v, s')"
  shows "sh_maintenance_owner s = None
    \<and> sr_batch_size r \<le> po_maximum_batch_size (sh_policy s)
    \<and> active_reservations s < po_maximum_active_requests (sh_policy s)
    \<and> (\<forall>p limit. sh_active_plan s = Some p \<longrightarrow> plan_batch_limit (plan_phase r) p = Some limit \<longrightarrow>
         sr_batch_size r \<le> limit)
    \<and> sr_estimated_memory_bytes r \<le> mq_available_bytes (memory_snapshot (sh_memory s))
    \<and> (\<exists>w. map_of (mc_reservations (sh_memory s')) (rv_reservation_id v) = Some w
         \<and> rv_bytes w = sr_estimated_memory_bytes r \<and> rv_bytes v = rv_bytes w)
    \<and> (\<exists>d q i. dispatch_decision r s = Inr d \<and> rv_backend v = runtime_backend (dd_selected d)
         \<and> rv_device_reservation_id v = Some i \<and> map_of (dl_reservations (sh_devices s')) i = Some q
         \<and> dq_backend q = dd_selected d \<and> dq_unified_memory_bytes q = sr_estimated_memory_bytes r
         \<and> (\<forall>b\<in>live_backends (sh_devices s). b \<noteq> dd_selected d \<longrightarrow>
              {b, dd_selected d} \<in> dl_qualified_pairs (sh_devices s)))"
proof -
  from admit_as_selected [OF assms(2)] obtain d where d: "dispatch_decision r s = Inr d"
    and sel: "admit_selected ids r (dd_selected d) None s = (Inr v, s')" by auto
  from sel assms(1) obtain w m q x l where a: "admission_check r s = Inr ()"
    "memory_reserve (ai_memory_id ids) (r, runtime_backend (dd_selected d), ai_now ids) (sh_memory s) = Inr (w, m)"
    "for_backend (dd_selected d) (sr_estimated_memory_bytes r) = Inr q"
    "device_reserve (ai_device_id ids) q None (sh_devices s) = Inr (x, l)"
    "v = w\<lparr>rv_execution_plan_id := map_option ep_plan_id (sh_active_plan s),
           rv_device_placement_plan_id := map_option pl_plan_id (sh_active_placement s),
           rv_device_reservation_id := Some (dv_reservation_id x)\<rparr>"
    "s' = s\<lparr>sh_memory := m, sh_devices := l, sh_counters := count_assignment (dd_selected d) (sh_counters s)\<rparr>"
    by (cases rule: admit_selected_cases) auto
  have check: "sh_maintenance_owner s = None" "sr_batch_size r \<le> po_maximum_batch_size (sh_policy s)"
    "active_reservations s < po_maximum_active_requests (sh_policy s)"
    using a(1) by (auto simp: admission_check_def split: option.splits sum.splits if_splits)
  have limit: "sr_batch_size r \<le> limit"
    if "sh_active_plan s = Some p" "plan_batch_limit (plan_phase r) p = Some limit" for p limit
    using a(1) check(1) that
    by (auto simp: admission_check_def validate_plan_admission_def split: sum.splits if_splits)
  note q = for_backend_Inr [OF a(3)]
  have mem: "sr_estimated_memory_bytes r \<le> mq_available_bytes (memory_snapshot (sh_memory s))"
    "\<exists>w'. map_of (mc_reservations (sh_memory s')) (rv_reservation_id v) = Some w'
         \<and> rv_bytes w' = sr_estimated_memory_bytes r \<and> rv_bytes v = rv_bytes w'"
    "rv_backend v = runtime_backend (dd_selected d)"
    using a(2) by (auto simp: memory_reserve_Inr memory_snapshot_def a(5,6) update_conv')
  have dev: "rv_device_reservation_id v = Some (ai_device_id ids)"
    "map_of (dl_reservations (sh_devices s')) (ai_device_id ids) = Some q"
    "\<forall>b\<in>live_backends (sh_devices s). b \<noteq> dd_selected d \<longrightarrow>
        {b, dd_selected d} \<in> dl_qualified_pairs (sh_devices s)"
    using a(4) q by (simp_all add: device_reserve_Inr a(5,6) update_conv' not_contended active_backends_set)
  show ?thesis using check limit mem dev q d by blast
qed

text \<open>C11: completing a request undoes its admission.  After \<open>complete\<close> both ledgers are what they
  were, nothing else of the work state has changed, completing again changes neither ledger, and a
  policy still pending means that work is still active, so a deferred relaxation takes effect with the
  last completion.\<close>

theorem complete_undoes_admit:
  assumes "fresh_ids ids s" and "admit ids r s = (Inr v, s')"
  shows "sh_memory (complete v s') = sh_memory s \<and> sh_devices (complete v s') = sh_devices s
    \<and> sh_queue (complete v s') = sh_queue s \<and> sh_queued_active (complete v s') = sh_queued_active s
    \<and> sh_memory (complete v (complete v s')) = sh_memory s
    \<and> sh_devices (complete v (complete v s')) = sh_devices s
    \<and> (sh_pending_policy (complete v s') \<noteq> None \<longrightarrow> has_active_work (complete v s'))"
proof -
  from admit_as_selected [OF assms(2)] obtain b where sel: "admit_selected ids r b None s = (Inr v, s')" by auto
  note rel = admitted_released [OF sel assms(1)]
  have frame: "sh_queue s' = sh_queue s" "sh_queued_active s' = sh_queued_active s"
    using sel assms(1) by (cases rule: admit_selected_cases; simp)+
  have "memory_release (rv_reservation_id v) (sh_memory s) = (False, sh_memory s)"
    "device_release (ai_device_id ids) (sh_devices s) = (False, sh_devices s)"
    using assms(1) rel(3) by (auto simp: memory_release_def device_release_def fresh_ids_def
        map_of_eq_None_iff [THEN iffD2])
  then have again: "sh_memory (release_reservation v t) = sh_memory s" "sh_devices (release_reservation v t) = sh_devices s"
    if "sh_memory t = sh_memory s" "sh_devices t = sh_devices s" for t
    using that rel(4) by (simp_all add: release_reservation_def)
  have pending: "sh_pending_policy (complete v s') \<noteq> None \<Longrightarrow> has_active_work (complete v s')"
    using apply_pending_drained [of "release_reservation v s'"]
    by (simp add: complete_def has_active_work_cong [OF apply_pending_frame(1,2)])
  have first: "sh_memory (complete v s') = sh_memory s" "sh_devices (complete v s') = sh_devices s"
    "sh_queue (complete v s') = sh_queue s" "sh_queued_active (complete v s') = sh_queued_active s"
    by (simp_all add: complete_def apply_pending_frame release_frame rel frame)
  moreover have "sh_memory (complete v (complete v s')) = sh_memory s"
    "sh_devices (complete v (complete v s')) = sh_devices s"
    using again [OF first(1,2)] unfolding complete_def [of v "complete v s'"]
    by (simp_all add: apply_pending_frame)
  ultimately show ?thesis using pending by blast
qed

section \<open>Where the code does less than it means to\<close>

text \<open>A deferred placement plan outlives its expiry.  A plan that was requested in time but deferred
  is activated at the next safe point whenever that is, and whatever dispatcher is installed by then;
  requesting the same plan at that moment is refused as expired.\<close>
theorem deferred_placement_activated_after_expiry:
  assumes "sh_pending_placement s = Some p" and "active_reservations s = 0"
    and "pl_valid_until p \<le> py_trunc now"
  shows "sh_active_placement (snd (apply_pending_device_placement_plan s)) = Some p
    \<and> fst (request_device_placement_plan now p s)
        = Inl (ValueError ''expired device placement plans cannot be activated'')"
  using assms by (simp add: apply_pending_device_placement_plan_def request_device_placement_plan_def at_rest_def)

text \<open>A cancelled claim can leave a relaxation pending with no work left.  When the claim was
  cancelled while its request was admitted, \<open>admit_next\<close> releases the last reservations but does not
  apply the pending policy, so the stricter policy stays in force although the scheduler is idle;
  completing a request in the same state would have applied it.\<close>
theorem cancelled_claim_leaves_policy_pending:
  assumes "sh_pending_policy s = Some p" and "token \<notin> sq_claimed (sh_queue s)"
    and "\<not> has_active_work (release_reservation v s)"
  shows "fst (register_claim token r v now (\<lambda>s. s) s) = NothingAdmitted
    \<and> \<not> has_active_work (snd (register_claim token r v now (\<lambda>s. s) s))
    \<and> sh_policy (snd (register_claim token r v now (\<lambda>s. s) s)) = sh_policy s
    \<and> sh_pending_policy (snd (register_claim token r v now (\<lambda>s. s) s)) = Some p
    \<and> sh_policy (complete v s) = p \<and> sh_pending_policy (complete v s) = None"
proof -
  have "register_claim token r v now (\<lambda>s. s) s
      = (NothingAdmitted, release_reservation v (s\<lparr>sh_queued_active :=
           AList.delete token (AList.update token v (sh_queued_active s))\<rparr>))"
    using assms(2) by (simp add: register_claim_def Let_def finish_in_queue_def finish_claim_def)
  moreover have "complete v s = (release_reservation v s)\<lparr>sh_policy := p, sh_pending_policy := None,
       sh_counters := count_transition Applied (sh_counters (release_reservation v s))\<rparr>"
    using assms(1,3) by (simp add: complete_def apply_pending_adaptive_policy_def release_frame)
  moreover have "has_active_work (release_reservation v (s\<lparr>sh_queued_active := d\<rparr>))
      = has_active_work (release_reservation v s)" for d
    by (rule has_active_work_cong) (simp_all add: release_reservation_def cong: option.case_cong)
  ultimately show ?thesis using assms(1,3) by (simp add: release_frame)
qed

text \<open>Maintenance does not exclude device pipelines.  The lease is granted while device
  reservations are live, as long as no memory reservation is, and a pipeline that starts while the lease
  is held runs exactly as without it.\<close>
theorem maintenance_admits_pipelines:
  assumes "owner \<noteq> []" and "length owner \<le> 64" and "sh_maintenance_owner s = None"
    and "mc_reservations (sh_memory s) = []"
  shows "fst (begin_idle_maintenance owner (s\<lparr>sh_devices := l\<rparr>)) = Inr True
    \<and> fst (execute_device_pipeline uuids stages (\<lambda>t. t) (\<lambda>t. t) started finished
             (snd (begin_idle_maintenance owner s)))
        = fst (execute_device_pipeline uuids stages (\<lambda>t. t) (\<lambda>t. t) started finished s)"
proof -
  have b: "begin_idle_maintenance owner (s\<lparr>sh_devices := l\<rparr>)
      = (Inr True, s\<lparr>sh_devices := l, sh_maintenance_owner := Some owner\<rparr>)" for l
    using assms by (simp add: begin_idle_maintenance_def no_active_reservations not_less)
  from b [of "sh_devices s"] have "snd (begin_idle_maintenance owner s) = s\<lparr>sh_maintenance_owner := Some owner\<rparr>"
    by simp
  then show ?thesis using b [of l] by (simp add: execute_device_pipeline_def pipeline_done_def Let_def split: sum.splits prod.splits)
qed

section \<open>Witnesses\<close>

lemma example_registry_snapshot: "registry_snapshot example_kernel_registry = [example_failure]"
  by (simp add: registry_snapshot_def example_kernel_registry_def)

lemma example_lower: "lower ''matmul'' = ''matmul''"
  by (simp add: lower_def lower_char_def)

lemma example_decision:
  "dispatch_decision (example_schedule_request p) (example_scheduler\<lparr>sh_devices := l\<rparr>)
     = Inr \<lparr>dd_operator = ''matmul'', dd_selected = CPU, dd_fallback_chain = [], dd_quarantined = [NATIVE_MLX],
            dd_unprobed = [], dd_reason = ''accelerator_unavailable_cpu_fallback''\<rparr>"
  by (simp add: dispatch_decision_def example_schedule_request_def example_lower dispatch_candidates_def
      cpu_operators_def matching_device_placement_def example_scheduler_def example_policy_def
      dispatch_request_init_def all_backends_def dispatch_def results_by_key_def example_registry_snapshot
      result_key_def) (simp add: example_failure_def)

lemma example_admitted:
  "\<exists>v s'. admit example_admission (example_schedule_request Normal) example_scheduler = (Inr v, s')"
  using example_decision [of Normal "sh_devices example_scheduler"]
  by (simp add: admit_def admit_selected_def admission_check_def validate_plan_admission_def
      example_scheduler_def example_policy_def example_schedule_request_def active_reservations_def
      memory_snapshot_def memory_reserve_def example_admission_def reserve_devices_def for_backend_def
      device_request_init_def device_reserve_def active_backends_def contended_def exhausted_def
      all_resources_def device_capacities_def example_hardware_def Let_def)

lemma example_fresh: "fresh_ids example_admission example_scheduler"
  by (simp add: fresh_ids_def example_scheduler_def)

lemma example_refused:
  "\<exists>s'. admit example_admission ((example_schedule_request Normal)\<lparr>sr_estimated_memory_bytes := 5000\<rparr>)
       example_scheduler = (Inl MemoryCapacityError, s')"
proof -
  let ?r = "(example_schedule_request Normal)\<lparr>sr_estimated_memory_bytes := 5000\<rparr>"
  have "dispatch_decision ?r example_scheduler = dispatch_decision (example_schedule_request Normal) example_scheduler"
    by (simp add: dispatch_decision_def matching_device_placement_def example_schedule_request_def
        example_scheduler_def Let_def)
  moreover have "\<exists>d. dispatch_decision (example_schedule_request Normal) example_scheduler = Inr d"
    using example_decision [of Normal "sh_devices example_scheduler"] by simp
  ultimately obtain d where d: "dispatch_decision ?r example_scheduler = Inr d" by auto
  have "admit_selected example_admission ?r (dd_selected d) None example_scheduler
      = (Inl MemoryCapacityError, example_scheduler)"
    by (simp add: admit_selected_def admission_check_def validate_plan_admission_def
        active_reservations_def memory_snapshot_def memory_reserve_def example_scheduler_def
        example_policy_def example_schedule_request_def Let_def)
  with d show ?thesis by (simp add: admit_def)
qed

theorem failed_admission_changes_nothing_witness:
  "\<exists>s'. admit example_admission ((example_schedule_request Normal)\<lparr>sr_estimated_memory_bytes := 5000\<rparr>)
       example_scheduler = (Inl MemoryCapacityError, s')
     \<and> sh_memory s' = sh_memory example_scheduler \<and> sh_devices s' = sh_devices example_scheduler"
proof -
  obtain s' where a: "admit example_admission ((example_schedule_request Normal)\<lparr>sr_estimated_memory_bytes := 5000\<rparr>)
       example_scheduler = (Inl MemoryCapacityError, s')" using example_refused by blast
  from failed_admission_changes_nothing [OF example_fresh a] a show ?thesis by auto
qed

theorem admission_respects_limits_witness:
  "\<exists>v s'. admit example_admission (example_schedule_request Normal) example_scheduler = (Inr v, s')
     \<and> rv_bytes v = 64 \<and> (\<exists>w. map_of (mc_reservations (sh_memory s')) (rv_reservation_id v) = Some w)"
proof -
  obtain v s' where a: "admit example_admission (example_schedule_request Normal) example_scheduler = (Inr v, s')"
    using example_admitted by blast
  from admission_respects_limits [OF example_fresh a] a show ?thesis
    by (auto simp: example_schedule_request_def)
qed

theorem complete_undoes_admit_witness:
  "\<exists>v s'. admit example_admission (example_schedule_request Normal) example_scheduler = (Inr v, s')
     \<and> sh_memory (complete v s') = sh_memory example_scheduler
     \<and> sh_devices (complete v s') = sh_devices example_scheduler"
proof -
  obtain v s' where a: "admit example_admission (example_schedule_request Normal) example_scheduler = (Inr v, s')"
    using example_admitted by blast
  from complete_undoes_admit [OF example_fresh a] a show ?thesis by blast
qed

definition example_reservation :: reservation where
  "example_reservation = \<lparr>rv_reservation_id = ''m1'', rv_bytes = 64, rv_backend = B_CPU,
     rv_priority = Normal, rv_created_at = 0, rv_execution_plan_id = None, rv_kernel_tuning_id = None,
     rv_device_placement_plan_id = None, rv_device_reservation_id = Some ''d1''\<rparr>"

text \<open>A scheduler whose CPU is busy and whose queue holds one request that the GPU may steal.\<close>

definition example_busy :: scheduler where
  "example_busy = example_scheduler\<lparr>
     sh_dispatcher := Some (example_kernel_registry\<lparr>rg_results := [((NATIVE_MLX, ''matmul''),
       example_failure\<lparr>kr_passed := True, kr_quarantined := False, kr_reason := ''passed''\<rparr>)]\<rparr>),
     sh_devices := \<lparr>dl_profile_id = ''p'', dl_capacity = device_capacities example_hardware 1000,
        dl_used = (\<lambda>k. if k = CpuThreads \<or> k = BandwidthSlots then 1 else 0),
        dl_reservations = [(''d0'', \<lparr>dq_backend = CPU, dq_unified_memory_bytes = 0, dq_cpu_threads = 1,
           dq_gpu_command_queues = 0, dq_ane_tasks = 0, dq_bandwidth_slots = 1\<rparr>)],
        dl_qualified_pairs = {{CPU, NATIVE_MLX}}\<rparr>,
     sh_queue := \<lparr>sq_maximum = 4, sq_sequence = 1, sq_heap = [(2, 0, ''t'')],
        sq_requests = [(''t'', example_schedule_request Normal)], sq_enqueued_ns = [(''t'', 0)],
        sq_claimed = {}, sq_claim_entries = []\<rparr>\<rparr>"

lemma example_busy_decision:
  "dispatch_decision (example_schedule_request Normal) (example_busy\<lparr>sh_queue := q\<rparr>)
     = Inr \<lparr>dd_operator = ''matmul'', dd_selected = CPU, dd_fallback_chain = [NATIVE_MLX],
            dd_quarantined = [], dd_unprobed = [], dd_reason = ''accelerator_unavailable_cpu_fallback''\<rparr>"
  by (simp add: dispatch_decision_def example_schedule_request_def example_lower dispatch_candidates_def
      cpu_operators_def matching_device_placement_def example_busy_def example_scheduler_def
      example_policy_def dispatch_request_init_def all_backends_def dispatch_def results_by_key_def
      registry_snapshot_def example_kernel_registry_def result_key_def)
    (simp add: example_failure_def)

theorem deferred_placement_activated_after_expiry_witness:
  "sh_active_placement (snd (apply_pending_device_placement_plan
       (example_scheduler\<lparr>sh_pending_placement := Some example_placement_plan\<rparr>))) = Some example_placement_plan
   \<and> fst (request_device_placement_plan 3000 example_placement_plan example_scheduler)
       = Inl (ValueError ''expired device placement plans cannot be activated'')"
proof -
  have late: "pl_valid_until example_placement_plan \<le> py_trunc 3000"
    by (simp add: example_placement_plan_def py_trunc_def)
  then have "fst (request_device_placement_plan 3000 example_placement_plan example_scheduler)
       = Inl (ValueError ''expired device placement plans cannot be activated'')"
    by (simp add: request_device_placement_plan_def)
  with deferred_placement_activated_after_expiry [OF _ _ late,
      of "example_scheduler\<lparr>sh_pending_placement := Some example_placement_plan\<rparr>"] show ?thesis
    by (simp add: active_reservations_def memory_snapshot_def example_scheduler_def)
qed

theorem cancelled_claim_leaves_policy_pending_witness:
  "sh_pending_policy (snd (register_claim ''t'' (example_schedule_request Normal) example_reservation 0 (\<lambda>s. s)
       (example_scheduler\<lparr>sh_policy := example_policy\<lparr>po_level := 1\<rparr>, sh_pending_policy := Some example_policy\<rparr>)))
     = Some example_policy"
proof -
  let ?s = "example_scheduler\<lparr>sh_policy := example_policy\<lparr>po_level := 1\<rparr>, sh_pending_policy := Some example_policy\<rparr>"
  have "\<not> has_active_work (release_reservation example_reservation ?s)"
    by (simp add: has_active_work_iff release_reservation_def memory_release_def device_release_def
        example_scheduler_def example_reservation_def)
  with cancelled_claim_leaves_policy_pending [of ?s example_policy "''t''" example_reservation] show ?thesis
    by (simp add: example_scheduler_def)
qed

theorem maintenance_admits_pipelines_witness:
  "fst (begin_idle_maintenance ''autotuner'' (example_scheduler\<lparr>sh_devices := sh_devices example_busy\<rparr>)) = Inr True
     \<and> dl_reservations (sh_devices example_busy) \<noteq> []"
proof -
  have "fst (begin_idle_maintenance ''autotuner'' (example_scheduler\<lparr>sh_devices := sh_devices example_busy\<rparr>)) = Inr True"
    by (rule maintenance_admits_pipelines [THEN conjunct1]) (simp_all add: example_scheduler_def)
  then show ?thesis by (simp add: example_busy_def)
qed

end
