(* ===== verification/QueuedAdmission.thy ===== *)
theory QueuedAdmission
  imports SchedulerAdmission
begin

text \<open>
  What taking a request from the queue and stealing one guarantee while other threads run.  The other
  threads are arbitrary functions between the locked sections; two conditions say what they respect.  Before
  the reservation is in the table of active requests nobody else knows its two uuids (\<open>unaware\<close>); once it is
  there, another thread may complete it by its token, which \<open>cancel\<close> does only after it found no claim of that
  token, so it is left alone unless the claim has gone (\<open>tolerant\<close>).
\<close>

section \<open>What the other threads respect\<close>

definition untouched :: "admission_inputs \<Rightarrow> scheduler \<Rightarrow> scheduler \<Rightarrow> bool" where
  "untouched ids s t \<longleftrightarrow>
     map_of (mc_reservations (sh_memory t)) (ai_memory_id ids) = map_of (mc_reservations (sh_memory s)) (ai_memory_id ids)
     \<and> map_of (dl_reservations (sh_devices t)) (ai_device_id ids) = map_of (dl_reservations (sh_devices s)) (ai_device_id ids)"

definition unaware :: "admission_inputs \<Rightarrow> (scheduler \<Rightarrow> scheduler) \<Rightarrow> bool" where
  "unaware ids f \<longleftrightarrow> (\<forall>s. untouched ids s (f s))"

definition tolerant :: "admission_inputs \<Rightarrow> (scheduler \<Rightarrow> scheduler) \<Rightarrow> bool" where
  "tolerant ids f \<longleftrightarrow> (\<forall>s token v. map_of (sh_queued_active s) token = Some v \<longrightarrow> rv_reservation_id v = ai_memory_id ids \<longrightarrow>
     untouched ids s (f s) \<and> map_of (sh_queued_active (f s)) token = Some v \<or> token \<notin> sq_claimed (sh_queue (f s)))"

lemma fresh_ids_untouched: "untouched ids s t \<Longrightarrow> fresh_ids ids s \<Longrightarrow> fresh_ids ids t"
  unfolding untouched_def fresh_ids_def by (metis map_of_eq_None_iff set_map)

section \<open>Reservations in the ledgers\<close>

text \<open>The reservation \<open>v\<close> of request \<open>r\<close> on backend \<open>b\<close> is booked: the memory ledger charges the bytes of the
  request to its id, the device ledger the demand of \<open>b\<close>.\<close>

definition booked :: "admission_inputs \<Rightarrow> schedule_request \<Rightarrow> execution_backend \<Rightarrow> reservation \<Rightarrow> scheduler \<Rightarrow> bool" where
  "booked ids r b v s \<longleftrightarrow>
     rv_reservation_id v = ai_memory_id ids \<and> rv_device_reservation_id v = Some (ai_device_id ids)
     \<and> rv_backend v = runtime_backend b \<and> rv_bytes v = sr_estimated_memory_bytes r
     \<and> map_option rv_bytes (map_of (mc_reservations (sh_memory s)) (ai_memory_id ids)) = Some (sr_estimated_memory_bytes r)
     \<and> (\<exists>q. for_backend b (sr_estimated_memory_bytes r) = Inr q
          \<and> map_of (dl_reservations (sh_devices s)) (ai_device_id ids) = Some q)"

lemma booked_untouched: "untouched ids s t \<Longrightarrow> booked ids r b v s \<Longrightarrow> booked ids r b v t"
  by (simp add: untouched_def booked_def)

lemma booked_frame: "sh_memory t = sh_memory s \<Longrightarrow> sh_devices t = sh_devices s \<Longrightarrow> booked ids r b v t = booked ids r b v s"
  by (simp add: booked_def)

lemma admit_selected_booked:
  assumes "admit_selected ids r b steal s = (Inr v, s')" and "fresh_ids ids s"
  shows "booked ids r b v s'" "sh_queue s' = sh_queue s" "sh_queued_active s' = sh_queued_active s"
  using assms by (cases rule: admit_selected_cases; auto simp: booked_def memory_reserve_Inr device_reserve_Inr update_conv')+

lemma admit_selected_refused:
  assumes "admit_selected ids r b steal s = (Inl e, s')" and "fresh_ids ids s"
  shows "fresh_ids ids s'" "sh_memory s' = sh_memory s" "sh_devices s' = sh_devices s" "sh_queue s' = sh_queue s"
    "sh_queued_active s' = sh_queued_active s"
  using assms by (cases rule: admit_selected_cases; auto simp: fresh_ids_def)+

lemma released_fresh:
  assumes "rv_reservation_id v = ai_memory_id ids" and "rv_device_reservation_id v = Some (ai_device_id ids)"
  shows "fresh_ids ids (release_reservation v s)"
  using released_gone [where v = v and s = s] assms by (simp add: fresh_ids_def)

text \<open>Completing by token releases exactly what was booked.\<close>

definition completes :: "admission_inputs \<Rightarrow> string \<Rightarrow> scheduler \<Rightarrow> bool" where
  "completes ids token s \<longleftrightarrow> (\<exists>t. complete_queued token s = (True, t) \<and> fresh_ids ids t
     \<and> sh_queued_active t = AList.delete token (sh_queued_active s)
     \<and> mc_reservations (sh_memory t) = AList.delete (ai_memory_id ids) (mc_reservations (sh_memory s))
     \<and> dl_reservations (sh_devices t) = AList.delete (ai_device_id ids) (dl_reservations (sh_devices s))
     \<and> fst (complete_queued token t) = False)"

lemma booked_completes:
  assumes "booked ids r b v s" and "map_of (sh_queued_active s) token = Some v"
  shows "completes ids token s"
proof -
  let ?s = "s\<lparr>sh_queued_active := AList.delete token (sh_queued_active s)\<rparr>"
  let ?t = "snd (apply_pending_adaptive_policy (release_reservation v ?s))"
  have ids: "rv_reservation_id v = ai_memory_id ids" "rv_device_reservation_id v = Some (ai_device_id ids)"
    using assms(1) by (simp_all add: booked_def)
  obtain w q where "map_of (mc_reservations (sh_memory s)) (ai_memory_id ids) = Some w"
    "map_of (dl_reservations (sh_devices s)) (ai_device_id ids) = Some q"
    using assms(1) by (auto simp: booked_def)
  moreover have "fresh_ids ids ?t" using released_fresh [OF ids, of ?s] by (simp add: fresh_ids_def apply_pending_frame)
  moreover have "map_of (AList.delete token (sh_queued_active s)) token = None" by (simp add: delete_conv')
  ultimately show ?thesis
    using assms(2) ids by (simp add: completes_def complete_queued_def apply_pending_frame release_frame
        release_reservation_def memory_release_def device_release_def)
qed

section \<open>Finishing the claim\<close>

lemma finish_in_queue_facts:
  assumes "finish_in_queue token s = (found, t)"
  shows "found \<longleftrightarrow> token \<in> sq_claimed (sh_queue s)" "token \<notin> sq_claimed (sh_queue t)"
    "sh_memory t = sh_memory s" "sh_devices t = sh_devices s" "sh_queued_active t = sh_queued_active s"
  using assms by (auto simp: finish_in_queue_def finish_claim_def drop_claim_def split: if_splits)

lemma observe_wait_frame:
  "sh_memory (observe_wait n s) = sh_memory s" "sh_devices (observe_wait n s) = sh_devices s"
  "sh_queue (observe_wait n s) = sh_queue s" "sh_queued_active (observe_wait n s) = sh_queued_active s"
  by (simp_all add: observe_wait_def split: sum.splits)

text \<open>However registering ends, the reservation is in the table or it is nowhere.\<close>

definition settled :: "admission_inputs \<Rightarrow> string \<Rightarrow> schedule_request \<Rightarrow> execution_backend \<Rightarrow> reservation
    \<Rightarrow> queued_outcome \<Rightarrow> scheduler \<Rightarrow> bool" where
  "settled ids token r b v out s \<longleftrightarrow> token \<notin> sq_claimed (sh_queue s)
     \<and> (out = Admitted token r v \<and> booked ids r b v s \<and> map_of (sh_queued_active s) token = Some v
        \<or> out = NothingAdmitted \<and> fresh_ids ids s \<and> map_of (sh_queued_active s) token = None)"

lemma registered_or_released:
  assumes "booked ids r b v s" and "tolerant ids others"
    and "finish_in_queue token (others (s\<lparr>sh_queued_active := AList.update token v (sh_queued_active s)\<rparr>)) = (found, t)"
  shows "found \<Longrightarrow> booked ids r b v t \<and> map_of (sh_queued_active t) token = Some v" "token \<notin> sq_claimed (sh_queue t)"
proof -
  let ?s = "s\<lparr>sh_queued_active := AList.update token v (sh_queued_active s)\<rparr>"
  note F = finish_in_queue_facts [OF assms(3)]
  show "token \<notin> sq_claimed (sh_queue t)" by (rule F(2))
  assume found
  then have claimed: "token \<in> sq_claimed (sh_queue (others ?s))" using F(1) by simp
  have "map_of (sh_queued_active ?s) token = Some v" "rv_reservation_id v = ai_memory_id ids"
    using assms(1) by (simp_all add: update_conv' booked_def)
  then have "untouched ids ?s (others ?s)" "map_of (sh_queued_active (others ?s)) token = Some v"
    using assms(2) claimed unfolding tolerant_def by blast+
  moreover have "booked ids r b v ?s" using assms(1) booked_frame [of ?s s] by simp
  ultimately show "booked ids r b v t \<and> map_of (sh_queued_active t) token = Some v"
    using booked_untouched booked_frame [of t "others ?s"] F(3-5) by auto
qed

lemma register_claim_settled:
  assumes "booked ids r b v s" and "tolerant ids others" and "register_claim token r v now others s = (out, s')"
  shows "settled ids token r b v out s'"
proof -
  obtain found t where f: "finish_in_queue token (others (s\<lparr>sh_queued_active := AList.update token v (sh_queued_active s)\<rparr>)) = (found, t)"
    by force
  note R = registered_or_released [OF assms(1,2) f]
  have ids: "rv_reservation_id v = ai_memory_id ids" "rv_device_reservation_id v = Some (ai_device_id ids)"
    using assms(1) by (simp_all add: booked_def)
  show ?thesis
  proof (cases found)
    case True
    then have "out = Admitted token r v" "s' = observe_wait (claimed_wait_nanoseconds token now (sh_queue s)) t"
      using assms(3) f by (auto simp: register_claim_def Let_def)
    with R True show ?thesis by (simp add: settled_def observe_wait_frame booked_frame [of "observe_wait _ t" t])
  next
    case False
    then have "out = NothingAdmitted"
      "s' = release_reservation v (t\<lparr>sh_queued_active := AList.delete token (sh_queued_active t)\<rparr>)"
      using assms(3) f by (auto simp: register_claim_def Let_def)
    with R(2) released_fresh [OF ids] show ?thesis by (simp add: settled_def release_frame delete_conv')
  qed
qed

lemma steal_register_settled:
  assumes "booked ids r b v s" and "tolerant ids others" and "steal_register token r v now others s = (out, s')"
  shows "settled ids token r b v out s'"
proof -
  obtain found t where f: "finish_in_queue token (others (s\<lparr>sh_queued_active := AList.update token v (sh_queued_active s)\<rparr>)) = (found, t)"
    by force
  note R = registered_or_released [OF assms(1,2) f]
  have ids: "rv_reservation_id v = ai_memory_id ids" "rv_device_reservation_id v = Some (ai_device_id ids)"
    using assms(1) by (simp_all add: booked_def)
  show ?thesis
  proof (cases found)
    case True
    let ?u = "observe_wait (claimed_wait_nanoseconds token now (sh_queue s)) t"
    have "out = Admitted token r v" "s' = ?u\<lparr>sh_counters := count_steal (sh_counters ?u)\<rparr>"
      using True assms(3) f by (auto simp: steal_register_def Let_def)
    with R True show ?thesis by (simp add: settled_def observe_wait_frame booked_frame [of "_\<lparr>sh_counters := _\<rparr>" t])
  next
    case False
    let ?u = "t\<lparr>sh_queued_active := AList.delete token (sh_queued_active t)\<rparr>"
    have "out = NothingAdmitted" "s' = complete v ?u"
      using False assms(3) f by (auto simp: steal_register_def Let_def)
    with R(2) released_fresh [OF ids, of ?u] show ?thesis
      by (simp add: settled_def complete_def fresh_ids_def apply_pending_frame release_frame delete_conv')
  qed
qed

section \<open>Taking the next request\<close>

text \<open>How a call may end for the uuids it drew: they are booked for an admitted request that can be completed by its
  token, or they are in no ledger.\<close>

definition nothing_lost :: "admission_inputs \<Rightarrow> queued_outcome \<Rightarrow> scheduler \<Rightarrow> bool" where
  "nothing_lost ids out s \<longleftrightarrow> (case out of
       Admitted token r v \<Rightarrow> (\<exists>b. booked ids r b v s) \<and> map_of (sh_queued_active s) token = Some v \<and> token \<notin> sq_claimed (sh_queue s)
     | AdmissionRaised token r e \<Rightarrow> fresh_ids ids s \<and> token \<notin> sq_claimed (sh_queue s)
     | _ \<Rightarrow> fresh_ids ids s)"

lemma settled_nothing_lost: "settled ids token r b v out s \<Longrightarrow> nothing_lost ids out s"
  by (auto simp: settled_def nothing_lost_def)

lemma nothing_lost_cases:
  assumes "nothing_lost ids out s"
  shows "out = Admitted token r v \<Longrightarrow> \<exists>b. booked ids r b v s"
    "out = Admitted token r v \<Longrightarrow> map_of (sh_queued_active s) token = Some v \<and> token \<notin> sq_claimed (sh_queue s)"
    "out = AdmissionRaised token r e \<Longrightarrow> token \<notin> sq_claimed (sh_queue s)"
    "(\<And>token r v. out \<noteq> Admitted token r v) \<Longrightarrow> fresh_ids ids s"
  using assms by (cases out; auto simp: nothing_lost_def)+

lemma fresh_ids_queue [simp]: "fresh_ids ids (s\<lparr>sh_queue := q\<rparr>) = fresh_ids ids s"
  by (simp add: fresh_ids_def)

lemma unaware_fresh: "unaware ids f \<Longrightarrow> fresh_ids ids s \<Longrightarrow> fresh_ids ids (f s)"
  using fresh_ids_untouched unfolding unaware_def by blast

lemma unaware_booked: "unaware ids f \<Longrightarrow> booked ids r b v s \<Longrightarrow> booked ids r b v (f s)"
  using booked_untouched unfolding unaware_def by blast

lemma finished_claim_fresh:
  "fresh_ids ids s \<Longrightarrow> fresh_ids ids (snd (finish_in_queue token s)) \<and> token \<notin> sq_claimed (sh_queue (snd (finish_in_queue token s)))"
  using finish_in_queue_facts [OF surjective_pairing, of token s] by (simp add: fresh_ids_def)

lemma admit_next_nothing_lost:
  assumes "fresh_ids ids s" and "unaware ids (ao_dequeued others)" "unaware ids (ao_admitted others)" "tolerant ids (ao_registered others)"
    and "admit_next timeout wakes others ids now s = (out, s')"
  shows "nothing_lost ids out s'"
proof -
  obtain res q where d: "dequeue timeout wakes (sh_queue s) = (res, q)" by force
  show ?thesis
  proof (cases "\<exists>token r. res = Inr (Returned (Some (token, r)))")
    case False
    then have "(\<exists>e. out = QueueRaised e) \<or> out = StillWaiting \<or> out = NothingAdmitted" "s' = s\<lparr>sh_queue := q\<rparr>"
      using assms(5) d by (auto simp: admit_next_def split: sum.splits wait_outcome.splits option.splits)
    then show ?thesis using assms(1) by (auto simp: nothing_lost_def)
  next
    case True
    then obtain token r where res: "res = Inr (Returned (Some (token, r)))" by blast
    let ?s0 = "ao_dequeued others (s\<lparr>sh_queue := q\<rparr>)"
    have fresh: "fresh_ids ids ?s0" using unaware_fresh [OF assms(2)] assms(1) by simp
    obtain v s1 where a: "admit ids r ?s0 = (v, s1)" by force
    show ?thesis
    proof (cases v)
      case (Inl e)
      have "s1 = ?s0 \<or> (\<exists>b. admit_selected ids r b None ?s0 = (Inl e, s1))"
        using admit_as_selected [OF a] Inl by auto
      then have "fresh_ids ids s1" using fresh admit_selected_refused(1) [OF _ fresh] by blast
      then have "fresh_ids ids (ao_admitted others s1)" by (rule unaware_fresh [OF assms(3)])
      note F = finished_claim_fresh [OF this, of token]
      have "out = AdmissionRaised token r e" "s' = snd (finish_in_queue token (ao_admitted others s1))"
        using assms(5) d res a Inl by (simp_all add: admit_next_def)
      with F show ?thesis by (simp add: nothing_lost_def)
    next
      case (Inr w)
      then obtain b where "admit_selected ids r b None ?s0 = (Inr w, s1)" using admit_as_selected [OF a] by auto
      then have "booked ids r b w (ao_admitted others s1)"
        using admit_selected_booked(1) fresh unaware_booked [OF assms(3)] by blast
      moreover have "register_claim token r w now (ao_registered others) (ao_admitted others s1) = (out, s')"
        using assms(5) d res a Inr by (simp add: admit_next_def)
      ultimately show ?thesis using register_claim_settled [OF _ assms(4)] settled_nothing_lost by blast
    qed
  qed
qed

section \<open>Stealing one\<close>

definition pending_order :: "schedule_queue \<Rightarrow> heap_entry list" where
  "pending_order q = filter (is_queued q) (sq_heap q)"

text \<open>Two queues that hold the same pending requests, in the same order, and the same claims.\<close>

definition same_queue :: "schedule_queue \<Rightarrow> schedule_queue \<Rightarrow> bool" where
  "same_queue q q' \<longleftrightarrow> pending_order q' = pending_order q \<and> map_of (sq_requests q') = map_of (sq_requests q)
     \<and> sq_claimed q' = sq_claimed q"

lemma same_queue_refl [simp]: "same_queue q q"
  by (simp add: same_queue_def)

lemma is_queued_heap [simp]: "is_queued (q\<lparr>sq_heap := es\<rparr>) = is_queued q"
  by (simp add: is_queued_def fun_eq_iff)

lemma peek_same: "same_queue q (snd (peek q))"
  by (simp add: same_queue_def pending_order_def peek_def Let_def)

lemma peek_head:
  "fst (peek q) = Some (t, r) \<Longrightarrow>
     \<exists>e es. pending_order q = e # es \<and> entry_token e = t \<and> map_of (sq_requests q) t = Some r"
proof -
  assume p: "fst (peek q) = Some (t, r)"
  then obtain e es where d: "drop_dead (is_queued q) (sq_heap q) = e # es"
    by (cases "drop_dead (is_queued q) (sq_heap q)") (simp_all add: peek_def Let_def)
  note h = drop_dead_hd(2) [OF d]
  have "entry_token e = t" "r = the (map_of (sq_requests q) t)" using p d by (auto simp: peek_def Let_def)
  moreover have "map_of (sq_requests q) (entry_token e) \<noteq> None"
    using h by (auto simp: is_queued_def map_of_eq_None_iff)
  ultimately show ?thesis using h unfolding pending_order_def by auto
qed

lemma claim_head_keeps: "claim_head t q = (None, q') \<Longrightarrow> same_queue q q'"
proof -
  assume c: "claim_head t q = (None, q')"
  have "q' = q\<lparr>sq_heap := drop_dead (is_queued q) (sq_heap q)\<rparr>"
    using c by (auto simp: claim_head_def split: list.splits if_splits prod.splits)
  then show ?thesis by (simp add: same_queue_def pending_order_def)
qed

lemma same_queue_trans: "same_queue q r \<Longrightarrow> same_queue r t \<Longrightarrow> same_queue q t"
  by (simp add: same_queue_def)

text \<open>The end of a steal whose token is claimed.\<close>

definition after_claim :: "string \<Rightarrow> schedule_request \<Rightarrow> execution_backend \<Rightarrow> execution_backend \<Rightarrow> steal_others
    \<Rightarrow> admission_inputs \<Rightarrow> int \<Rightarrow> scheduler \<Rightarrow> queued_outcome \<times> scheduler" where
  "after_claim token r selected target others ids now s =
     (case admit_selected ids r target (Some selected) s of
        (Inl e, s4) \<Rightarrow>
          if is_capacity_error e then (NothingAdmitted, restore_in_queue token (so_claimed others s4))
          else (AdmissionRaised token r e, snd (finish_in_queue token (so_claimed others s4)))
      | (Inr v, s4) \<Rightarrow> steal_register token r v now (so_registered others) (so_claimed others s4))"

lemma steal_next_cases:
  assumes "steal_next target others ids now s = (out, s')" and t: "t = so_peeked others (snd (peek_queue s))"
  obtains (declined) "out = NothingAdmitted \<or> (\<exists>e. out = QueueRaised e)"
      "s' = s \<or> s' = snd (peek_queue s) \<or> s' = t \<or> (\<exists>token. claim_in_queue token t = (None, s'))"
  | (claimed) token r d c s3 where "steal_allowed s" "fst (peek_queue s) = Some (token, r)" "dispatch_decision r t = Inr d"
      "target \<noteq> dd_selected d" "target \<in> set (dd_fallback_chain d)" "can_steal (dd_selected d) target (sh_devices t)"
      "claim_in_queue token t = (Some c, s3)" "after_claim token r (dd_selected d) target others ids now s3 = (out, s')"
proof (cases "steal_allowed s")
  case False
  with assms(1) show ?thesis by (intro declined) (auto simp: steal_next_def)
next
  case allowed: True
  obtain h s1 where p: "peek_queue s = (h, s1)" by force
  show ?thesis
  proof (cases h)
    case None
    with assms(1) allowed p show ?thesis by (intro declined) (auto simp: steal_next_def)
  next
    case (Some head)
    then obtain token r where h: "h = Some (token, r)" by (cases head) auto
    obtain c s3 where c: "claim_in_queue token t = (c, s3)" by force
    note defs = steal_next_def allowed p h c t [symmetric, unfolded p snd_conv] after_claim_def
    show ?thesis
    proof (cases "\<exists>d. dispatch_decision r t = Inr d \<and> target \<noteq> dd_selected d \<and> target \<in> set (dd_fallback_chain d)
        \<and> can_steal (dd_selected d) target (sh_devices t) \<and> c \<noteq> None")
      case True
      then obtain d c' where "dispatch_decision r t = Inr d" "target \<noteq> dd_selected d" "target \<in> set (dd_fallback_chain d)"
        "can_steal (dd_selected d) target (sh_devices t)" "c = Some c'" by auto
      with assms(1) show ?thesis by (intro claimed [OF allowed]) (simp_all add: defs)
    next
      case False
      have t': "so_peeked others s1 = t" using t p by simp
      show ?thesis
      proof (cases "dispatch_decision r t")
        case (Inl e)
        with assms(1) show ?thesis by (intro declined) (auto simp add: steal_next_def allowed p h t' Let_def)
      next
        case (Inr d)
        with False assms(1) c show ?thesis
          by (intro declined) (auto simp: steal_next_def allowed p h t' Let_def split: if_splits option.splits)
      qed
    qed
  qed
qed

lemma peek_queue_frame:
  "sh_memory (snd (peek_queue s)) = sh_memory s" "sh_devices (snd (peek_queue s)) = sh_devices s"
  "sh_queued_active (snd (peek_queue s)) = sh_queued_active s"
  by (simp_all add: peek_queue_def case_prod_unfold)

lemma claim_in_queue_frame:
  "sh_memory (snd (claim_in_queue token s)) = sh_memory s" "sh_devices (snd (claim_in_queue token s)) = sh_devices s"
  "sh_queued_active (snd (claim_in_queue token s)) = sh_queued_active s"
  by (simp_all add: claim_in_queue_def case_prod_unfold)

lemma after_claim_outcomes:
  assumes "after_claim token r selected target others ids now s = (out, s')"
    and fresh: "fresh_ids ids s" and "unaware ids (so_claimed others)" and "tolerant ids (so_registered others)"
  shows "nothing_lost ids out s'"
    "out = Admitted k r' v \<Longrightarrow> k = token \<and> r' = r \<and> booked ids r target v s'"
    "out = AdmissionRaised k r' e \<Longrightarrow> k = token \<and> r' = r \<and> \<not> is_capacity_error e"
    "out \<noteq> StillWaiting"
proof -
  obtain res s4 where a: "admit_selected ids r target (Some selected) s = (res, s4)" by force
  have "nothing_lost ids out s' \<and> (\<forall>k r' v. out = Admitted k r' v \<longrightarrow> k = token \<and> r' = r \<and> booked ids r target v s')
    \<and> (\<forall>k r' e. out = AdmissionRaised k r' e \<longrightarrow> k = token \<and> r' = r \<and> \<not> is_capacity_error e) \<and> out \<noteq> StillWaiting"
  proof (cases res)
    case (Inl e)
    then have "fresh_ids ids (so_claimed others s4)"
      using admit_selected_refused(1) a fresh unaware_fresh [OF assms(3)] by blast
    then show ?thesis
      using assms(1) a Inl finished_claim_fresh [of ids "so_claimed others s4" token]
      by (auto simp: after_claim_def nothing_lost_def restore_in_queue_def split: if_splits)
  next
    case (Inr w)
    then have "booked ids r target w (so_claimed others s4)"
      using admit_selected_booked(1) a fresh unaware_booked [OF assms(3)] by blast
    moreover have "steal_register token r w now (so_registered others) (so_claimed others s4) = (out, s')"
      using assms(1) a Inr by (simp add: after_claim_def)
    ultimately have "settled ids token r target w out s'" by (rule steal_register_settled [OF _ assms(4)])
    then show ?thesis using settled_nothing_lost by (fastforce simp: settled_def)
  qed
  then show "nothing_lost ids out s'"
    "out = Admitted k r' v \<Longrightarrow> k = token \<and> r' = r \<and> booked ids r target v s'"
    "out = AdmissionRaised k r' e \<Longrightarrow> k = token \<and> r' = r \<and> \<not> is_capacity_error e"
    "out \<noteq> StillWaiting" by blast+
qed

lemma claimed_fresh:
  assumes "fresh_ids ids s" and "unaware ids (so_peeked others)" and "claim_in_queue token (so_peeked others (snd (peek_queue s))) = (c, s3)"
  shows "fresh_ids ids s3"
  using unaware_fresh [OF assms(2), of "snd (peek_queue s)"] assms(1,3) claim_in_queue_frame [of token "so_peeked others (snd (peek_queue s))"]
  by (simp add: fresh_ids_def peek_queue_frame)

lemma steal_next_nothing_lost:
  assumes "fresh_ids ids s" and "unaware ids (so_peeked others)" "unaware ids (so_claimed others)" "tolerant ids (so_registered others)"
    and "steal_next target others ids now s = (out, s')"
  shows "nothing_lost ids out s'"
  using assms(5) refl [of "so_peeked others (snd (peek_queue s))"]
proof (cases rule: steal_next_cases)
  case declined
  have peeked: "fresh_ids ids (snd (peek_queue s))" using assms(1) by (simp add: fresh_ids_def peek_queue_frame)
  then have "fresh_ids ids s'"
    using declined(2) assms(1) unaware_fresh [OF assms(2)] claimed_fresh [OF assms(1,2)] by auto
  then show ?thesis using declined(1) by (auto simp: nothing_lost_def)
next
  case (claimed token r d c s3)
  show ?thesis by (rule after_claim_outcomes(1) [OF claimed(8) claimed_fresh [OF assms(1,2) claimed(7)] assms(3,4)])
qed

section \<open>The properties\<close>

text \<open>C12: taking a request from the queue or stealing one leaks nothing.  Let the other threads change anything between the
  locked sections, except what belongs to the two uuids that this call drew, as \<open>unaware\<close> and \<open>tolerant\<close>
  say; they may cancel the claim.  If the call admits a request, both ledgers charge it, it is in the table of active requests and its
  claim has gone, so that completing it by its token succeeds, releases exactly the two bookings, and cannot succeed twice.
  If the call ends in any other way (nothing to admit, still waiting, a claim cancelled meanwhile, no capacity,
  any exception), neither ledger holds anything under the two uuids, and a request whose admission raised is claimed no more.\<close>

theorem queued_admission_leaks_nothing:
  assumes "fresh_ids ids s"
    and "unaware ids (ao_dequeued ao)" "unaware ids (ao_admitted ao)" "tolerant ids (ao_registered ao)"
    and "unaware ids (so_peeked so)" "unaware ids (so_claimed so)" "tolerant ids (so_registered so)"
    and "admit_next timeout wakes ao ids now s = (out, s') \<or> steal_next target so ids now s = (out, s')"
  shows "(\<forall>token r v. out = Admitted token r v \<longrightarrow>
        (\<exists>b. booked ids r b v s') \<and> map_of (sh_queued_active s') token = Some v \<and> token \<notin> sq_claimed (sh_queue s')
        \<and> completes ids token s')
    \<and> ((\<forall>token r v. out \<noteq> Admitted token r v) \<longrightarrow> fresh_ids ids s')
    \<and> (\<forall>token r e. out = AdmissionRaised token r e \<longrightarrow> token \<notin> sq_claimed (sh_queue s'))"
proof -
  have N: "nothing_lost ids out s'"
    using assms(8) admit_next_nothing_lost [OF assms(1-4)] steal_next_nothing_lost [OF assms(1,5-7)] by blast
  show ?thesis
  proof (cases "\<exists>token r v. out = Admitted token r v")
    case True
    then obtain token r v where out: "out = Admitted token r v" by blast
    then obtain b where "booked ids r b v s'" "map_of (sh_queued_active s') token = Some v" "token \<notin> sq_claimed (sh_queue s')"
      using nothing_lost_cases(1,2) [OF N] by blast
    then show ?thesis using booked_completes [of ids r b v s' token] by (auto simp: out)
  next
    case False
    then show ?thesis using nothing_lost_cases(4) [OF N] nothing_lost_cases(3) [OF N] by simp
  qed
qed

lemma after_claim_undisturbed:
  assumes "queue_ok (sh_queue t)" and fresh: "fresh_ids ids t" and "so_claimed others = (\<lambda>s. s)" and "so_registered others = (\<lambda>s. s)"
    and c: "claim_in_queue token t = (Some c, s3)" and a: "after_claim token r selected target others ids now s3 = (NothingAdmitted, s')"
  shows "sh_memory s' = sh_memory t" "sh_devices s' = sh_devices t" "sh_queued_active s' = sh_queued_active t"
    "same_queue (sh_queue t) (sh_queue s')"
proof -
  obtain q3 where q3: "claim_head token (sh_queue t) = (Some c, q3)" "s3 = t\<lparr>sh_queue := q3\<rparr>"
    using c by (auto simp: claim_in_queue_def split: prod.splits)
  have claimed: "token \<in> sq_claimed q3"
    using q3(1) by (auto simp: claim_head_def claim_entry_eq split: list.splits if_splits)
  have restored: "same_queue (sh_queue t) (snd (restore_claim token q3))"
    using claim_head_restored [OF assms(1) q3(1)] by (simp add: same_queue_def pending_order_def)
  obtain res s4 where adm: "admit_selected ids r target (Some selected) s3 = (res, s4)" by force
  have fresh3: "fresh_ids ids s3" using fresh q3(2) by simp
  show "sh_memory s' = sh_memory t" "sh_devices s' = sh_devices t" "sh_queued_active s' = sh_queued_active t"
    "same_queue (sh_queue t) (sh_queue s')"
  proof (atomize (full), cases res)
    case (Inl e)
    note A = admit_selected_refused [OF adm [unfolded Inl] fresh3]
    have "s' = restore_in_queue token s4" using a adm Inl assms(3) by (auto simp: after_claim_def split: if_splits)
    then show "(sh_memory s' = sh_memory t \<and> sh_devices s' = sh_devices t) \<and> sh_queued_active s' = sh_queued_active t
        \<and> same_queue (sh_queue t) (sh_queue s')"
      using A q3(2) restored by (simp add: restore_in_queue_def)
  next
    case (Inr v)
    have "sh_queue s4 = q3" using admit_selected_booked(2) [OF adm [unfolded Inr] fresh3] q3(2) by simp
    then show "(sh_memory s' = sh_memory t \<and> sh_devices s' = sh_devices t) \<and> sh_queued_active s' = sh_queued_active t
        \<and> same_queue (sh_queue t) (sh_queue s')"
      using a adm Inr claimed assms(3,4)
      by (auto simp: after_claim_def steal_register_def Let_def finish_in_queue_def finish_claim_def)
  qed
qed

lemma peek_queue_fst: "fst (peek_queue s) = fst (peek (sh_queue s))" "sh_queue (snd (peek_queue s)) = snd (peek (sh_queue s))"
  by (simp_all add: peek_queue_def case_prod_unfold)

lemma claimed_is_head:
  "claim_in_queue token t = (Some c, s3) \<Longrightarrow> \<exists>e es. pending_order (sh_queue t) = e # es \<and> entry_token e = token"
proof -
  assume "claim_in_queue token t = (Some c, s3)"
  then obtain r q where "claim_head token (sh_queue t) = (Some r, q)" by (auto simp: claim_in_queue_def split: prod.splits)
  moreover obtain k x where "r = (k, x)" by force
  ultimately obtain dead e es where "sq_heap (sh_queue t) = dead @ e # es" "filter (is_queued (sh_queue t)) dead = []"
    "is_queued (sh_queue t) e" "entry_token e = token" by (auto elim: claim_head_Some)
  then show ?thesis by (simp add: pending_order_def)
qed

lemma dropped_request:
  assumes "so_claimed others = (\<lambda>s. s)" and fresh: "fresh_ids ids t" and c: "claim_in_queue token t = (Some c, s3)"
    and a: "after_claim token r selected target others ids now s3 = (AdmissionRaised k r' e, s')"
  shows "map_of (sq_requests (sh_queue s')) token = None"
proof -
  obtain q3 where q3: "claim_head token (sh_queue t) = (Some c, q3)" "s3 = t\<lparr>sh_queue := q3\<rparr>"
    using c by (auto simp: claim_in_queue_def split: prod.splits)
  have gone: "map_of (sq_requests q3) token = None"
    using q3(1) by (auto simp: claim_head_def claim_entry_eq delete_conv' split: list.splits if_splits)
  have fresh3: "fresh_ids ids s3" using fresh q3(2) by simp
  obtain res s4 where adm: "admit_selected ids r target (Some selected) s3 = (res, s4)" by force
  then obtain e' where "res = Inl e'"
    using a by (cases res) (auto simp: after_claim_def steal_register_def Let_def split: prod.splits bool.splits)
  moreover from this have "s' = snd (finish_in_queue token s4)" "sh_queue s4 = q3"
    using a adm assms(1) admit_selected_refused(4) [OF _ fresh3] q3(2) by (auto simp: after_claim_def split: if_splits)
  ultimately show ?thesis
    using gone by (auto simp: finish_in_queue_def finish_claim_def drop_claim_def split: if_splits)
qed


section \<open>Witnesses\<close>

text \<open>On the scheduler whose CPU is busy: its waiting request is taken normally, by a call during which nothing else happens
  or whose claim another thread cancels, and it is stolen for the GPU.\<close>

abbreviation cancelling :: "scheduler \<Rightarrow> scheduler" where
  "cancelling s \<equiv> snd (cancel_in_queue ''t'' s)"

definition cancelled_admit :: admit_others where
  "cancelled_admit = quiet_admit\<lparr>ao_registered := cancelling\<rparr>"

lemma example_others:
  "unaware ids (\<lambda>s. s)" "tolerant ids (\<lambda>s. s)" "tolerant ids cancelling"
  by (simp_all add: unaware_def tolerant_def untouched_def cancel_in_queue_def case_prod_unfold)

lemma example_busy_fresh: "fresh_ids example_admission example_busy"
  by (simp add: fresh_ids_def example_busy_def example_scheduler_def example_admission_def)

definition example_taken_queue :: schedule_queue where
  "example_taken_queue = (sh_queue example_busy)\<lparr>sq_heap := [], sq_requests := [], sq_claimed := {''t''},
     sq_claim_entries := [(''t'', 2, 0, example_schedule_request Normal)]\<rparr>"

lemma example_dequeued:
  "dequeue None [] (sh_queue example_busy) = (Inr (Returned (Some (''t'', example_schedule_request Normal))), example_taken_queue)"
  by (simp add: example_taken_queue_def example_busy_def dequeue_def poll_def is_queued_def claim_entry_eq)

lemma example_taken:
  obtains v s1 where "admit example_admission (example_schedule_request Normal) (example_busy\<lparr>sh_queue := example_taken_queue\<rparr>) = (Inr v, s1)"
    "sh_queue s1 = example_taken_queue"
proof -
  obtain v s1 where a: "admit example_admission (example_schedule_request Normal) (example_busy\<lparr>sh_queue := example_taken_queue\<rparr>) = (Inr v, s1)"
    using example_busy_decision [of example_taken_queue]
    by (simp add: admit_def admit_selected_def admission_check_def validate_plan_admission_def example_busy_def
        example_scheduler_def example_policy_def example_schedule_request_def active_reservations_def
        memory_snapshot_def memory_reserve_def example_admission_def reserve_devices_def for_backend_def
        device_request_init_def device_reserve_def active_backends_def contended_def exhausted_def
        all_resources_def device_capacities_def example_hardware_def Let_def)
  then obtain b where "admit_selected example_admission (example_schedule_request Normal) b None
      (example_busy\<lparr>sh_queue := example_taken_queue\<rparr>) = (Inr v, s1)"
    using admit_as_selected by blast
  then have "sh_queue s1 = example_taken_queue" using admit_selected_booked(2) example_busy_fresh by fastforce
  with a that show thesis by blast
qed

theorem queued_admission_leaks_nothing_witness:
  "(\<exists>v s. admit_next None [] quiet_admit example_admission 9 example_busy
        = (Admitted ''t'' (example_schedule_request Normal) v, s) \<and> completes example_admission ''t'' s)
   \<and> (\<exists>s. admit_next None [] cancelled_admit example_admission 9 example_busy = (NothingAdmitted, s)
        \<and> fresh_ids example_admission s)"
proof -
  obtain v s1 where a: "admit example_admission (example_schedule_request Normal) (example_busy\<lparr>sh_queue := example_taken_queue\<rparr>) = (Inr v, s1)"
    "sh_queue s1 = example_taken_queue" by (rule example_taken)
  note run = admit_next_def example_dequeued quiet_admit_def cancelled_admit_def a register_claim_def Let_def finish_in_queue_def
  have "''t'' \<in> sq_claimed example_taken_queue" by (simp add: example_taken_queue_def)
  then obtain s where admitted: "admit_next None [] quiet_admit example_admission 9 example_busy
      = (Admitted ''t'' (example_schedule_request Normal) v, s)" by (simp add: run finish_claim_def)
  have "fst (finish_claim ''t'' (snd (cancel_queued ''t'' example_taken_queue))) = False"
    by (simp add: example_taken_queue_def cancel_queued_def finish_claim_def drop_claim_def)
  then obtain s' where cancelled: "admit_next None [] cancelled_admit example_admission 9 example_busy = (NothingAdmitted, s')"
    by (cases "finish_claim ''t'' (snd (cancel_queued ''t'' example_taken_queue))")
      (simp add: run cancel_in_queue_def case_prod_unfold)
  note T = queued_admission_leaks_nothing [OF example_busy_fresh, where so = quiet_steal]
  have "completes example_admission ''t'' s" using T [OF _ _ _ _ _ _ disjI1 [OF admitted]] example_others
    by (simp add: quiet_admit_def quiet_steal_def)
  moreover have "fresh_ids example_admission s'" using T [OF _ _ _ _ _ _ disjI1 [OF cancelled]] example_others
    by (simp add: quiet_admit_def quiet_steal_def cancelled_admit_def)
  ultimately show ?thesis using admitted cancelled by blast
qed

lemma example_steal:
  "\<exists>v s'. steal_next NATIVE_MLX quiet_steal example_admission 9 example_busy
     = (Admitted ''t'' (example_schedule_request Normal) v, s')"
proof -
  have allowed: "steal_allowed example_busy"
    by (simp add: steal_allowed_def example_busy_def example_scheduler_def example_policy_def)
  let ?q = "sh_queue example_busy"
  have peek: "peek_queue example_busy = (Some (''t'', example_schedule_request Normal), example_busy)"
    by (simp add: peek_queue_def peek_def example_busy_def is_queued_def)
  have decision: "dispatch_decision (example_schedule_request Normal) example_busy
     = Inr \<lparr>dd_operator = ''matmul'', dd_selected = CPU, dd_fallback_chain = [NATIVE_MLX],
            dd_quarantined = [], dd_unprobed = [], dd_reason = ''accelerator_unavailable_cpu_fallback''\<rparr>"
    using example_busy_decision [of ?q] by simp
  have steal: "can_steal CPU NATIVE_MLX (sh_devices example_busy)"
    by (simp add: can_steal_def active_backends_def example_busy_def)
  let ?q' = "?q\<lparr>sq_heap := [], sq_requests := [], sq_claimed := {''t''},
     sq_claim_entries := [(''t'', 2, 0, example_schedule_request Normal)]\<rparr>"
  have claim: "claim_in_queue ''t'' example_busy
      = (Some (''t'', example_schedule_request Normal), example_busy\<lparr>sh_queue := ?q'\<rparr>)"
    by (simp add: claim_in_queue_def claim_head_def claim_entry_eq is_queued_def)
      (simp add: example_busy_def is_queued_def claim_entry_eq)
  obtain v s4 where a: "admit_selected example_admission (example_schedule_request Normal) NATIVE_MLX (Some CPU)
      (example_busy\<lparr>sh_queue := ?q'\<rparr>) = (Inr v, s4)"
    by (simp add: admit_selected_def admission_check_def validate_plan_admission_def example_busy_def
        example_scheduler_def example_policy_def example_schedule_request_def active_reservations_def
        memory_snapshot_def memory_reserve_def example_admission_def reserve_devices_def for_backend_def
        device_request_init_def device_reserve_def active_backends_def contended_def exhausted_def
        all_resources_def device_capacities_def example_hardware_def Let_def)
  have fresh: "fresh_ids example_admission (example_busy\<lparr>sh_queue := ?q'\<rparr>)"
    by (simp add: fresh_ids_def example_busy_def example_scheduler_def example_admission_def)
  from a fresh have "sh_queue s4 = ?q'" by (cases rule: admit_selected_cases) auto
  then obtain s' where "steal_register ''t'' (example_schedule_request Normal) v 9 (\<lambda>s. s) s4
      = (Admitted ''t'' (example_schedule_request Normal) v, s')"
    by (simp add: steal_register_def Let_def finish_in_queue_def finish_claim_def)
  then have "steal_next NATIVE_MLX quiet_steal example_admission 9 example_busy
      = (Admitted ''t'' (example_schedule_request Normal) v, s')"
    by (simp add: steal_next_def allowed peek decision steal claim a quiet_steal_def)
  then show ?thesis by blast
qed


end
