(* ===== verification/MemoryArena.thy ===== *)
theory MemoryArena
  imports Prelude "HOL-Library.Word" "HOL-Library.Product_Lexorder"
begin

text \<open>
  \<open>vllm_apple/unified_memory_arena.py\<close>: the first-fit suballocator over one anonymous mapping.  The
  state holds the sorted list of free ranges, the table of allocations and the bytes of the mapping;
  an anonymous mapping starts with zeros.  A lease is its record; writing through its view changes the
  bytes of its range.  Each method runs under the arena's lock.  \<open>madvise\<close> is an argument: whether
  the call succeeds, and which bytes the kernel discards (they read as zero afterwards).
\<close>

unbundle bit_operations_syntax

definition MAX_UNIFIED_MEMORY_ARENA_BYTES :: int where "MAX_UNIFIED_MEMORY_ARENA_BYTES = 2 ^ 40"
definition MAX_UNIFIED_MEMORY_ALLOCATIONS :: int where "MAX_UNIFIED_MEMORY_ALLOCATIONS = 65536"

type_synonym mem_range = "int \<times> int"

record arena =
  am_capacity :: int
  am_zero_on_release :: bool
  am_free :: "mem_range list"
  am_allocations :: "(int, mem_range) dict"
  am_next_id :: int
  am_allocated :: int
  am_peak :: int
  am_failed :: int
  am_closed :: bool
  am_bytes :: "int \<Rightarrow> 8 word"

definition new_arena :: "int \<Rightarrow> bool \<Rightarrow> arena result" where
  "new_arena capacity zero_on_release =
     (if \<not> (4096 \<le> capacity \<and> capacity \<le> MAX_UNIFIED_MEMORY_ARENA_BYTES)
      then Inl (ValueError ''invalid Unified Memory arena capacity'')
      else Inr \<lparr>am_capacity = capacity, am_zero_on_release = zero_on_release,
                am_free = [(0, capacity)], am_allocations = [], am_next_id = 1, am_allocated = 0,
                am_peak = 0, am_failed = 0, am_closed = False, am_bytes = (\<lambda>x. 0)\<rparr>)"

definition align :: "int \<Rightarrow> int \<Rightarrow> int" where
  "align v a = (v + a - 1) div a * a"

record memory_lease =
  le_allocation_id :: int
  le_offset :: int
  le_size :: int
  le_released :: bool

text \<open>The loop over the free ranges: the offset found and the list with the range replaced.\<close>

fun first_fit :: "int \<Rightarrow> int \<Rightarrow> mem_range list \<Rightarrow> (int \<times> mem_range list) option" where
  "first_fit nbytes alignment [] = None"
| "first_fit nbytes alignment ((start, len) # ranges) =
     (let offset = align start alignment;
          prefix = offset - start
      in if len < prefix + nbytes
         then map_option (\<lambda>(found, rest). (found, (start, len) # rest)) (first_fit nbytes alignment ranges)
         else
           let suffix_start = offset + nbytes;
               suffix = start + len - suffix_start
           in Some (offset, (if prefix \<noteq> 0 then [(start, prefix)] else [])
                @ (if suffix \<noteq> 0 then [(suffix_start, suffix)] else []) @ ranges))"

definition allocate :: "int \<Rightarrow> int \<Rightarrow> (arena, memory_lease) method" where
  "allocate nbytes alignment a =
     (if \<not> (1 \<le> nbytes \<and> nbytes \<le> am_capacity a) \<or> \<not> (1 \<le> alignment \<and> alignment \<le> 65536)
         \<or> alignment AND (alignment - 1) \<noteq> 0
        then (Inl (ValueError ''invalid Unified Memory allocation''), a)
      else if am_closed a then (Inl (RuntimeError ''Unified Memory arena is closed''), a)
      else if MAX_UNIFIED_MEMORY_ALLOCATIONS \<le> int (length (am_allocations a))
        then (Inl (ValueError ''Unified Memory allocation table is full''),
              a\<lparr>am_failed := am_failed a + 1\<rparr>)
      else (case first_fit nbytes alignment (am_free a) of
        None \<Rightarrow> (Inl (ValueError ''Unified Memory arena has no aligned free range''),
                 a\<lparr>am_failed := am_failed a + 1\<rparr>)
      | Some (offset, free) \<Rightarrow>
          (Inr \<lparr>le_allocation_id = am_next_id a, le_offset = offset, le_size = nbytes, le_released = False\<rparr>,
           a\<lparr>am_free := free, am_next_id := am_next_id a + 1,
             am_allocations := AList.update (am_next_id a) (offset, nbytes) (am_allocations a),
             am_allocated := am_allocated a + nbytes, am_peak := max (am_peak a) (am_allocated a + nbytes)\<rparr>)))"

text \<open>The chunked loop that clears a released range; sizes are positive, so a chunk is never empty.\<close>

function clear_from :: "int \<Rightarrow> int \<Rightarrow> int \<Rightarrow> (int \<Rightarrow> 8 word) \<Rightarrow> int \<Rightarrow> 8 word" where
  "clear_from offset nbytes written bytes =
     (if \<not> written < nbytes \<or> nbytes \<le> 0 then bytes
      else let count = min (min nbytes (1024 * 1024)) (nbytes - written)
           in clear_from offset nbytes (written + count)
                (\<lambda>x. if offset + written \<le> x \<and> x < offset + written + count then 0 else bytes x))"
  by auto
termination by (relation "measure (\<lambda>(offset, nbytes, written, bytes). nat (nbytes - written))") auto

declare clear_from.simps [simp del]

function coalesce :: "mem_range list \<Rightarrow> mem_range list" where
  "coalesce [] = []"
| "coalesce [r] = [r]"
| "coalesce ((s, l) # (t, m) # ranges) =
     (if s + l = t then coalesce ((s, l + m) # ranges) else (s, l) # coalesce ((t, m) # ranges))"
  by pat_completeness auto
termination by (relation "measure length") auto

definition arena_release :: "int \<Rightarrow> (arena, unit) method" where
  "arena_release i a =
     (case map_of (am_allocations a) i of
        None \<Rightarrow> (Inl (RuntimeError ''Unified Memory allocation is stale''), a)
      | Some (offset, nbytes) \<Rightarrow>
          (Inr (), a\<lparr>am_allocations := AList.delete i (am_allocations a),
             am_bytes := (if am_zero_on_release a then clear_from offset nbytes 0 (am_bytes a) else am_bytes a),
             am_allocated := am_allocated a - nbytes,
             am_free := coalesce (sort (am_free a @ [(offset, nbytes)]))\<rparr>))"

text \<open>\<open>UnifiedMemoryLease.release\<close>; \<open>memoryview.release\<close> raises while the view is exported.\<close>

definition lease_release :: "bool \<Rightarrow> memory_lease \<Rightarrow> arena \<Rightarrow> unit result \<times> memory_lease \<times> arena" where
  "lease_release exported le a =
     (if le_released le then (Inr (), le, a)
      else if exported then (Inl (OtherError ''BufferError''), le, a)
      else (case arena_release (le_allocation_id le) a of
              (Inl e, a') \<Rightarrow> (Inl e, le, a')
            | (Inr u, a') \<Rightarrow> (Inr (), le\<lparr>le_released := True\<rparr>, a')))"

definition lease_write :: "memory_lease \<Rightarrow> int \<Rightarrow> 8 word \<Rightarrow> arena \<Rightarrow> arena" where
  "lease_write le i v a =
     (if le_released le \<or> \<not> (0 \<le> i \<and> i < le_size le) then a
      else a\<lparr>am_bytes := (am_bytes a)(le_offset le + i := v)\<rparr>)"

text \<open>\<open>trim_free_pages\<close>; \<open>advice\<close> is None where the platform has no \<open>madvise\<close>, and otherwise tells for
  each range whether the call succeeds and for each address whether the kernel discards it.\<close>

fun trim_ranges ::
  "int \<Rightarrow> (int \<Rightarrow> int \<Rightarrow> bool) \<Rightarrow> (int \<Rightarrow> bool) \<Rightarrow> mem_range list \<Rightarrow> int \<Rightarrow> (int \<Rightarrow> 8 word) \<Rightarrow> int \<times> (int \<Rightarrow> 8 word)"
where
  "trim_ranges page succeeds discards [] trimmed bytes = (trimmed, bytes)"
| "trim_ranges page succeeds discards ((start, len) # ranges) trimmed bytes =
     (let first = align start page;
          last = (start + len) div page * page
      in if last \<le> first \<or> \<not> succeeds first (last - first)
         then trim_ranges page succeeds discards ranges trimmed bytes
         else trim_ranges page succeeds discards ranges (trimmed + (last - first))
                (\<lambda>x. if first \<le> x \<and> x < last \<and> discards x then 0 else bytes x))"

definition trim_free_pages ::
  "int \<Rightarrow> ((int \<Rightarrow> int \<Rightarrow> bool) \<times> (int \<Rightarrow> bool)) option \<Rightarrow> arena \<Rightarrow> int \<times> arena" where
  "trim_free_pages page advice a =
     (if am_closed a then (0, a)
      else (case advice of
        None \<Rightarrow> (0, a)
      | Some (succeeds, discards) \<Rightarrow>
          (case trim_ranges page succeeds discards (am_free a) 0 (am_bytes a) of
             (trimmed, bytes) \<Rightarrow> (trimmed, a\<lparr>am_bytes := bytes\<rparr>))))"

record arena_snapshot =
  as_capacity_bytes :: int
  as_allocated_bytes :: int
  as_free_bytes :: int
  as_largest_free_range_bytes :: int
  as_allocation_count :: int
  as_peak_allocated_bytes :: int
  as_failed_allocations :: int
  as_fragmentation_bytes :: int

definition snapshot_arena :: "arena \<Rightarrow> arena_snapshot" where
  "snapshot_arena a =
     (let free = sum_list (map snd (am_free a));
          largest = (case map snd (am_free a) of [] \<Rightarrow> 0 | l # ls \<Rightarrow> fold max ls l)
      in \<lparr>as_capacity_bytes = am_capacity a, as_allocated_bytes = am_allocated a, as_free_bytes = free,
          as_largest_free_range_bytes = largest, as_allocation_count = int (length (am_allocations a)),
          as_peak_allocated_bytes = am_peak a, as_failed_allocations = am_failed a,
          as_fragmentation_bytes = free - largest\<rparr>)"

definition close_arena :: "(arena, unit) method" where
  "close_arena a =
     (if am_allocations a \<noteq> [] then (Inl (RuntimeError ''Unified Memory arena has active allocations''), a)
      else (Inr (), if am_closed a then a else a\<lparr>am_closed := True\<rparr>))"

section \<open>Ranges\<close>

fun inside :: "int \<Rightarrow> mem_range \<Rightarrow> bool" where
  "inside x (s, l) = (s \<le> x \<and> x < s + l)"

text \<open>How many ranges of a list hold an address.\<close>

fun cover :: "mem_range list \<Rightarrow> int \<Rightarrow> int" where
  "cover [] x = 0"
| "cover (r # rs) x = (if inside x r then 1 else 0) + cover rs x"

definition separated :: "mem_range list \<Rightarrow> bool" where
  "separated rs \<longleftrightarrow> sorted_wrt (\<lambda>r q. fst r + snd r < fst q) rs \<and> (\<forall>r\<in>set rs. 0 < snd r)"

lemma separated_simps [simp]:
  "separated []"
  "separated (r # rs) \<longleftrightarrow> 0 < snd r \<and> (\<forall>q\<in>set rs. fst r + snd r < fst q) \<and> separated rs"
  by (auto simp: separated_def)

lemma cover_append [simp]: "cover (rs @ qs) x = cover rs x + cover qs x"
  by (induction rs) auto

lemma cover_nonneg: "0 \<le> cover rs x"
  by (induction rs) auto

lemma cover_zero: "cover rs x = 0 \<longleftrightarrow> (\<forall>r\<in>set rs. \<not> inside x r)"
proof (induction rs)
  case (Cons r rs)
  then show ?case using cover_nonneg [of rs x] by auto
qed simp

lemma cover_mset: "mset rs = mset qs \<Longrightarrow> cover rs x = cover qs x"
proof -
  have "cover rs x = (\<Sum>r\<in>#mset rs. if inside x r then 1 else 0)" for rs
    by (induction rs) auto
  then show "mset rs = mset qs \<Longrightarrow> cover rs x = cover qs x" by simp
qed

lemma align_bounds: "0 < a \<Longrightarrow> v \<le> align v a \<and> align v a < v + a"
  unfolding align_def using div_mult_mod_eq [of "v + a - 1" a] pos_mod_bound [of a "v + a - 1"]
    pos_mod_sign [of a "v + a - 1"] by linarith

text \<open>What \<open>first_fit\<close> finds.\<close>

lemma first_fit_spec:
  assumes "first_fit n a rs = Some (pos, rs')" and "0 < a" and "0 < n" and "separated rs"
  shows "separated rs' \<and> (\<forall>x. cover rs x = cover rs' x + (if inside x (pos, n) then 1 else 0))
    \<and> sum_list (map snd rs) = sum_list (map snd rs') + n \<and> a dvd pos
    \<and> (\<forall>q\<in>set rs'. \<exists>r\<in>set rs. fst r \<le> fst q \<and> fst q + snd q \<le> fst r + snd r)
    \<and> (\<exists>r\<in>set rs. fst r \<le> pos \<and> pos + n \<le> fst r + snd r)"
  using assms
proof (induction rs arbitrary: rs')
  case (Cons r rs)
  obtain s l where r: "r = (s, l)" by force
  let ?o = "align s a"
  note ob = align_bounds [OF Cons.prems(2), of s]
  show ?case
  proof (cases "l < ?o - s + n")
    case True
    then obtain rest where rest: "first_fit n a rs = Some (pos, rest)" "rs' = (s, l) # rest"
      using Cons.prems(1) by (auto simp: r Let_def)
    have "separated rs" using Cons.prems(4) by simp
    note IH = Cons.IH [OF rest(1) Cons.prems(2,3) this]
    have "s + l < fst q" if "q \<in> set rest" for q
      using IH that Cons.prems(4) by (force simp: r)
    then show ?thesis using IH Cons.prems(4) by (auto simp: r rest(2))
  next
    case False
    then have pos: "pos = ?o" and rs': "rs' = (if ?o - s \<noteq> 0 then [(s, ?o - s)] else [])
        @ (if s + l - (?o + n) \<noteq> 0 then [(?o + n, s + l - (?o + n))] else []) @ rs"
      using Cons.prems(1) by (auto simp: r Let_def)
    have "separated rs'" using Cons.prems(3,4) ob False by (auto simp: rs' r)
    moreover have "\<forall>x. cover (r # rs) x = cover rs' x + (if inside x (pos, n) then 1 else 0)"
      using ob False Cons.prems(3) by (auto simp: rs' r pos)
    moreover have "sum_list (map snd (r # rs)) = sum_list (map snd rs') + n" by (simp add: rs' r)
    moreover have "a dvd pos" by (simp add: pos align_def)
    moreover have "\<forall>q\<in>set rs'. \<exists>p\<in>set (r # rs). fst p \<le> fst q \<and> fst q + snd q \<le> fst p + snd p"
      using ob False Cons.prems(3) by (auto simp: rs' r split: if_splits)
    moreover have "fst r \<le> pos \<and> pos + n \<le> fst r + snd r" using ob False by (simp add: pos r)
    ultimately show ?thesis by auto
  qed
qed simp

lemma first_fit_None:
  "first_fit n a rs = None \<longleftrightarrow> (\<forall>(s, l)\<in>set rs. l < align s a - s + n)"
  by (induction rs) (auto simp: Let_def split: if_splits)

lemma coalesce_facts:
  assumes "sorted_wrt (\<lambda>r q. fst r + snd r \<le> fst q) rs" and "\<forall>r\<in>set rs. 0 < snd r"
  shows "separated (coalesce rs) \<and> (\<forall>x. cover (coalesce rs) x = cover rs x)
    \<and> sum_list (map snd (coalesce rs)) = sum_list (map snd rs)
    \<and> (\<forall>q\<in>set (coalesce rs). \<exists>r\<in>set rs. fst r = fst q)"
  using assms
proof (induction rs rule: coalesce.induct)
  case (3 s l t m rs)
  show ?case
  proof (cases "s + l = t")
    case True
    have "sorted_wrt (\<lambda>r q. fst r + snd r \<le> fst q) ((s, l + m) # rs)" "\<forall>r\<in>set ((s, l + m) # rs). 0 < snd r"
      using "3.prems" True by auto
    from "3.IH"(1) [OF True this] True show ?thesis using "3.prems" by auto
  next
    case False
    have "sorted_wrt (\<lambda>r q. fst r + snd r \<le> fst q) ((t, m) # rs)" "\<forall>r\<in>set ((t, m) # rs). 0 < snd r"
      using "3.prems" by auto
    note IH = "3.IH"(2) [OF False this]
    have "s + l < fst r" if "r \<in> set ((t, m) # rs)" for r
      using that "3.prems" False by auto
    then have "s + l < fst q" if "q \<in> set (coalesce ((t, m) # rs))" for q
      using IH that by metis
    then show ?thesis using IH "3.prems" False by auto
  qed
qed simp_all

section \<open>The invariant\<close>

text \<open>The free list is sorted, without empty or adjacent ranges; every address of the mapping belongs to
  exactly one free range or allocation, and no other address to any; the counters say the same; and
  when released memory is cleared, every free byte is zero.\<close>

definition arena_ok :: "arena \<Rightarrow> bool" where
  "arena_ok a \<longleftrightarrow> separated (am_free a) \<and> dict_ok (am_allocations a)
     \<and> (\<forall>(i, r)\<in>set (am_allocations a). i < am_next_id a \<and> 0 < snd r)
     \<and> (\<forall>x. cover (am_free a) x + cover (map snd (am_allocations a)) x
          = (if 0 \<le> x \<and> x < am_capacity a then 1 else 0))
     \<and> am_allocated a = asum snd (am_allocations a)
     \<and> sum_list (map snd (am_free a)) + am_allocated a = am_capacity a
     \<and> am_allocated a \<le> am_peak a \<and> am_peak a \<le> am_capacity a
     \<and> (am_zero_on_release a \<longrightarrow> (\<forall>x. 0 < cover (am_free a) x \<longrightarrow> am_bytes a x = 0))"

lemma new_arena_ok: "new_arena capacity zero = Inr a \<Longrightarrow> arena_ok a"
  by (auto simp: new_arena_def arena_ok_def split: if_splits)

lemma cover_delete:
  "dict_ok d \<Longrightarrow> map_of d i = Some r \<Longrightarrow>
     cover (map snd d) x = cover (map snd (AList.delete i d)) x + (if inside x r then 1 else 0)"
  by (induction d) (auto simp: delete_fresh map_of_eq_None_iff split: if_splits)

lemma allocate_cases:
  assumes "allocate n alignment a = (r, a')"
  obtains (refused) e where "r = Inl e" "a' = a \<or> a' = a\<lparr>am_failed := am_failed a + 1\<rparr>"
  | (granted) pos free where "1 \<le> n" "1 \<le> alignment" "\<not> am_closed a"
      "first_fit n alignment (am_free a) = Some (pos, free)"
      "r = Inr \<lparr>le_allocation_id = am_next_id a, le_offset = pos, le_size = n, le_released = False\<rparr>"
      "a' = a\<lparr>am_free := free, am_next_id := am_next_id a + 1,
             am_allocations := AList.update (am_next_id a) (pos, n) (am_allocations a),
             am_allocated := am_allocated a + n, am_peak := max (am_peak a) (am_allocated a + n)\<rparr>"
proof (cases r)
  case (Inl e)
  have "a' = a \<or> a' = a\<lparr>am_failed := am_failed a + 1\<rparr>"
    using assms Inl by (auto simp: allocate_def split: if_splits option.splits)
  with Inl show ?thesis by (rule refused)
next
  case (Inr le)
  then obtain pos free where f: "first_fit n alignment (am_free a) = Some (pos, free)"
    using assms by (auto simp: allocate_def split: if_splits option.splits)
  show ?thesis
    by (rule granted [OF _ _ _ f]) (use assms Inr f in \<open>simp_all add: allocate_def split: if_splits\<close>)
qed

lemma allocate_ok:
  assumes "arena_ok a"
  shows "arena_ok (snd (allocate n alignment a))"
proof -
  obtain r a' where e: "allocate n alignment a = (r, a')" by force
  then show ?thesis
  proof (cases rule: allocate_cases)
    case (refused err)
    with assms show ?thesis by (elim disjE) (simp_all add: e arena_ok_def)
  next
    case (granted pos free)
    have sep: "separated (am_free a)" using assms by (simp add: arena_ok_def)
    note f = first_fit_spec [OF granted(4) _ _ sep]
    have fresh: "am_next_id a \<notin> set (keys (am_allocations a))" using assms by (auto simp: arena_ok_def)
    have fit: "separated free" "\<And>x. cover (am_free a) x = cover free x + (if inside x (pos, n) then 1 else 0)"
      "sum_list (map snd (am_free a)) = sum_list (map snd free) + n"
      using f granted(1,2) by simp_all
    have nonneg: "0 \<le> sum_list (map snd free)"
      using fit(1) by (intro sum_list_nonneg) (auto simp: separated_def)
    have sum: "sum_list (map snd free) + (am_allocated a + n) = am_capacity a"
      using assms fit(3) by (simp add: arena_ok_def)
    have entries: "am_allocations a' = am_allocations a @ [(am_next_id a, pos, n)]"
      by (simp add: granted(6) update_fresh [OF fresh])
    have fields: "am_free a' = free" "am_next_id a' = am_next_id a + 1" "am_capacity a' = am_capacity a"
      "am_allocated a' = am_allocated a + n" "am_peak a' = max (am_peak a) (am_allocated a + n)"
      "am_zero_on_release a' = am_zero_on_release a" "am_bytes a' = am_bytes a"
      by (simp_all add: granted(6))
    have cov: "\<forall>x. cover free x + cover (map snd (am_allocations a')) x
        = (if 0 \<le> x \<and> x < am_capacity a then 1 else 0)"
    proof
      fix x
      have "cover (am_free a) x + cover (map snd (am_allocations a)) x
          = (if 0 \<le> x \<and> x < am_capacity a then 1 else 0)" using assms by (simp add: arena_ok_def)
      then show "cover free x + cover (map snd (am_allocations a')) x
          = (if 0 \<le> x \<and> x < am_capacity a then 1 else 0)"
        using fit(2) [of x] by (simp add: entries)
    qed
    have zero: "am_zero_on_release a \<longrightarrow> (\<forall>x. 0 < cover free x \<longrightarrow> am_bytes a x = 0)"
    proof (intro impI allI)
      fix x assume z: "am_zero_on_release a" and c: "0 < cover free x"
      have "0 < cover (am_free a) x" using fit(2) [of x] c by simp
      then show "am_bytes a x = 0" using assms z by (simp add: arena_ok_def)
    qed
    have dict: "dict_ok (am_allocations a')" "am_allocated a + n = asum snd (am_allocations a')"
      "\<forall>(i, r)\<in>set (am_allocations a'). i < am_next_id a + 1 \<and> 0 < snd r"
      using assms fresh granted(1) by (auto simp: entries arena_ok_def)
    have peak: "am_allocated a + n \<le> max (am_peak a) (am_allocated a + n)"
      "max (am_peak a) (am_allocated a + n) \<le> am_capacity a"
      using assms sum nonneg by (simp_all add: arena_ok_def)
    show ?thesis
      unfolding e snd_conv arena_ok_def fields
      using fit(1) dict(1,3) cov dict(2) sum peak zero by (intro conjI) assumption+
  qed
qed

section \<open>Releasing\<close>

lemma clear_from_spec:
  assumes "0 \<le> written"
  shows "clear_from offset nbytes written bytes
      = (\<lambda>x. if offset + written \<le> x \<and> x < offset + nbytes then 0 else bytes x)"
  using assms
proof (induction offset nbytes written bytes rule: clear_from.induct)
  case (1 offset nbytes written bytes)
  show ?case
  proof (cases "\<not> written < nbytes \<or> nbytes \<le> 0")
    case True
    with 1(2) show ?thesis by (auto simp: clear_from.simps fun_eq_iff)
  next
    case False
    let ?c = "min (min nbytes (1024 * 1024)) (nbytes - written)"
    have c: "0 < ?c" "?c \<le> nbytes - written" using False by simp_all
    have "clear_from offset nbytes written bytes = clear_from offset nbytes (written + ?c)
        (\<lambda>x. if offset + written \<le> x \<and> x < offset + written + ?c then 0 else bytes x)"
      using False by (subst clear_from.simps) (simp add: Let_def)
    also have "\<dots> = (\<lambda>x. if offset + (written + ?c) \<le> x \<and> x < offset + nbytes then 0
        else if offset + written \<le> x \<and> x < offset + written + ?c then 0 else bytes x)"
      using 1(1) [OF False refl] 1(2) c by simp
    also have "\<dots> = (\<lambda>x. if offset + written \<le> x \<and> x < offset + nbytes then 0 else bytes x)"
      using c by (auto simp: fun_eq_iff)
    finally show ?thesis .
  qed
qed

lemma sorted_disjoint:
  assumes "sorted rs" and "\<forall>r\<in>set rs. 0 < snd r" and "\<forall>x. cover rs x \<le> 1"
  shows "sorted_wrt (\<lambda>r q. fst r + snd r \<le> fst q) rs"
  using assms
proof (induction rs)
  case (Cons r rs)
  have "cover rs x \<le> 1" for x
    using Cons.prems(3) cover_nonneg [of rs x] by (auto dest!: spec [of _ x] split: if_splits)
  then have "sorted_wrt (\<lambda>r q. fst r + snd r \<le> fst q) rs" using Cons by simp
  moreover have "fst r + snd r \<le> fst q" if q: "q \<in> set rs" for q
  proof (rule ccontr)
    assume over: "\<not> fst r + snd r \<le> fst q"
    obtain s l t m where rq: "r = (s, l)" "q = (t, m)" by (metis surj_pair)
    have "r \<le> q" using Cons.prems(1) q by simp
    then have "s \<le> t" by (auto simp: rq)
    moreover have "0 < m" using Cons.prems(2) q by (auto simp: rq)
    ultimately have both: "inside (fst q) r" "inside (fst q) q" using over by (simp_all add: rq)
    then have "cover rs (fst q) \<noteq> 0" using q unfolding cover_zero by blast
    then have "2 \<le> cover (r # rs) (fst q)" using both(1) cover_nonneg [of rs "fst q"] by simp
    moreover have "cover (r # rs) (fst q) \<le> 1" using Cons.prems(3) by blast
    ultimately show False by linarith
  qed
  ultimately show ?case by simp
qed simp

lemma arena_release_ok:
  assumes "arena_ok a"
  shows "arena_ok (snd (arena_release i a))"
proof (cases "map_of (am_allocations a) i")
  case None
  with assms show ?thesis by (simp add: arena_release_def)
next
  case (Some r)
  obtain pos n where r: "r = (pos, n)" by force
  have sep: "separated (am_free a)" and dict: "dict_ok (am_allocations a)"
    and part: "\<And>x. cover (am_free a) x + cover (map snd (am_allocations a)) x
        = (if 0 \<le> x \<and> x < am_capacity a then 1 else 0)"
    and sum: "sum_list (map snd (am_free a)) + am_allocated a = am_capacity a"
    using assms by (simp_all add: arena_ok_def)
  have n: "0 < n" using assms map_of_SomeD [OF Some] by (auto simp: arena_ok_def r)
  let ?fs = "sort (am_free a @ [(pos, n)])"
  define a' where "a' = snd (arena_release i a)"
  have mset: "mset ?fs = mset (am_free a @ [(pos, n)])" by simp
  have cover_fs: "cover ?fs x = cover (am_free a) x + (if inside x (pos, n) then 1 else 0)" for x
    using cover_mset [OF mset, of x] by simp
  have del: "cover (map snd (am_allocations a)) x
      = cover (map snd (AList.delete i (am_allocations a))) x + (if inside x (pos, n) then 1 else 0)" for x
    using cover_delete [OF dict Some, of x] by (simp add: r)
  have "sorted_wrt (\<lambda>r q. fst r + snd r \<le> fst q) ?fs"
  proof (rule sorted_disjoint)
    show "\<forall>r\<in>set ?fs. 0 < snd r" using sep n by (auto simp: separated_def)
    show "\<forall>x. cover ?fs x \<le> 1"
    proof
      fix x
      show "cover ?fs x \<le> 1"
        using part [of x] del [of x] cover_fs [of x]
          cover_nonneg [of "map snd (AList.delete i (am_allocations a))" x] by (auto split: if_splits)
    qed
  qed simp
  moreover have pos_fs: "\<forall>r\<in>set ?fs. 0 < snd r" using sep n by (auto simp: separated_def)
  ultimately have c: "separated (coalesce ?fs)" "\<And>x. cover (coalesce ?fs) x = cover ?fs x"
    "sum_list (map snd (coalesce ?fs)) = sum_list (map snd ?fs)"
    using coalesce_facts by blast+
  have sum_fs: "sum_list (map snd ?fs) = sum_list (map snd (am_free a)) + n"
  proof -
    have "mset (map snd ?fs) = mset (map snd (am_free a @ [(pos, n)]))" unfolding mset_map mset ..
    then have "sum_list (map snd ?fs) = sum_list (map snd (am_free a @ [(pos, n)]))"
      by (metis sum_mset_sum_list)
    then show ?thesis by simp
  qed
  have fields: "am_free a' = coalesce ?fs" "am_next_id a' = am_next_id a" "am_capacity a' = am_capacity a"
    "am_allocations a' = AList.delete i (am_allocations a)" "am_allocated a' = am_allocated a - n"
    "am_peak a' = am_peak a" "am_zero_on_release a' = am_zero_on_release a"
    "am_bytes a' = (if am_zero_on_release a then clear_from pos n 0 (am_bytes a) else am_bytes a)"
    using Some by (simp_all add: a'_def arena_release_def r)
  have cov: "\<forall>x. cover (coalesce ?fs) x + cover (map snd (AList.delete i (am_allocations a))) x
      = (if 0 \<le> x \<and> x < am_capacity a then 1 else 0)"
    using part del cover_fs c(2) by (metis add.assoc add.commute)
  have zero: "am_zero_on_release a \<longrightarrow> (\<forall>x. 0 < cover (coalesce ?fs) x \<longrightarrow>
      (if am_zero_on_release a then clear_from pos n 0 (am_bytes a) else am_bytes a) x = 0)"
    using assms c(2) cover_fs by (auto simp: arena_ok_def clear_from_spec split: if_splits)
  have rest: "dict_ok (AList.delete i (am_allocations a))"
    "\<forall>(j, r)\<in>set (AList.delete i (am_allocations a)). j < am_next_id a \<and> 0 < snd r"
    "am_allocated a - n = asum snd (AList.delete i (am_allocations a))"
    "sum_list (map snd (coalesce ?fs)) + (am_allocated a - n) = am_capacity a"
    "am_allocated a - n \<le> am_peak a" "am_peak a \<le> am_capacity a"
    using assms dict_ok_delete [OF dict] asum_delete [OF dict Some, of snd] n sum sum_fs c(3)
    by (auto simp: arena_ok_def r set_delete)
  show ?thesis
    unfolding a'_def [symmetric] arena_ok_def fields
    using c(1) rest(1,2) cov rest(3-6) zero by (intro conjI) assumption+
qed

lemma trim_ranges_bytes:
  assumes "trim_ranges page succeeds discards rs t bytes = (t', bytes')"
  shows "bytes' x = bytes x \<or> bytes' x = 0"
    and "0 < page \<Longrightarrow> cover rs x = 0 \<Longrightarrow> bytes' x = bytes x"
proof -
  show "bytes' x = bytes x \<or> bytes' x = 0"
    using assms
  proof (induction rs arbitrary: t bytes)
    case (Cons r rs)
    obtain s l where r: "r = (s, l)" by force
    from Cons.prems Cons.IH show ?case by (fastforce simp: r Let_def split: if_splits)
  qed simp
  show "bytes' x = bytes x" if "0 < page" "cover rs x = 0"
    using assms that
  proof (induction rs arbitrary: t bytes)
    case (Cons r rs)
    obtain s l where r: "r = (s, l)" by force
    have out: "\<not> inside x (s, l)" "cover rs x = 0"
      using Cons.prems(3) cover_nonneg [of rs x] by (auto simp: r split: if_splits)
    have "s \<le> align s page" using align_bounds [OF that(1), of s] by simp
    moreover have "(s + l) div page * page \<le> s + l" using that(1) by (simp add: div_mult_le_int)
    ultimately have "\<not> (align s page \<le> x \<and> x < (s + l) div page * page)" using out(1) by auto
    then show ?case
      using Cons.IH [OF _ that(1) out(2)] Cons.prems(1) by (auto simp: r Let_def split: if_splits)
  qed simp
qed

section \<open>Leases\<close>

text \<open>The arena and the leases its clients hold, in any sequence of calls.\<close>

inductive arena_reachable :: "arena \<Rightarrow> memory_lease list \<Rightarrow> bool" where
  start: "new_arena capacity zero = Inr a \<Longrightarrow> arena_reachable a []"
| allocate: "arena_reachable a ls \<Longrightarrow> allocate n alignment a = (Inr le, a') \<Longrightarrow>
    arena_reachable a' (le # ls)"
| refused: "arena_reachable a ls \<Longrightarrow> allocate n alignment a = (Inl e, a') \<Longrightarrow> arena_reachable a' ls"
| release: "arena_reachable a ls \<Longrightarrow> le \<in> set ls \<Longrightarrow> lease_release False le a = (Inr (), le', a') \<Longrightarrow>
    arena_reachable a' (remove1 le ls)"
| written: "arena_reachable a ls \<Longrightarrow> le \<in> set ls \<Longrightarrow> arena_reachable (lease_write le i v a) ls"
| trim: "arena_reachable a ls \<Longrightarrow> 0 < page \<Longrightarrow> arena_reachable (snd (trim_free_pages page advice a)) ls"
| close: "arena_reachable a ls \<Longrightarrow> arena_reachable (snd (close_arena a)) ls"

definition lease_range :: "memory_lease \<Rightarrow> mem_range" where
  "lease_range le = (le_offset le, le_size le)"

definition leases_ok :: "arena \<Rightarrow> memory_lease list \<Rightarrow> bool" where
  "leases_ok a ls \<longleftrightarrow> arena_ok a \<and> distinct (map le_allocation_id ls)
     \<and> set (keys (am_allocations a)) = le_allocation_id ` set ls
     \<and> (\<forall>le\<in>set ls. \<not> le_released le
          \<and> map_of (am_allocations a) (le_allocation_id le) = Some (lease_range le))"

lemma arena_ok_bytes:
  assumes "arena_ok a" and "\<And>x. 0 < cover (am_free a) x \<Longrightarrow> bytes x = am_bytes a x \<or> bytes x = 0"
  shows "arena_ok (a\<lparr>am_bytes := bytes\<rparr>)"
  using assms by (auto simp: arena_ok_def)

lemma cover_member: "r \<in> set rs \<Longrightarrow> inside x r \<Longrightarrow> 1 \<le> cover rs x"
  using cover_zero [of rs x] cover_nonneg [of rs x] by fastforce

lemma lease_inside:
  assumes "leases_ok a ls" and "le \<in> set ls" and "inside x (lease_range le)"
  shows "cover (am_free a) x = 0" and "0 \<le> x \<and> x < am_capacity a"
    and "cover (map snd (am_allocations a)) x = 1"
proof -
  have "map_of (am_allocations a) (le_allocation_id le) = Some (lease_range le)"
    using assms(1,2) by (simp add: leases_ok_def)
  then have "lease_range le \<in> set (map snd (am_allocations a))" using map_of_SomeD by force
  then have "1 \<le> cover (map snd (am_allocations a)) x" using assms(3) by (rule cover_member)
  moreover have "cover (am_free a) x + cover (map snd (am_allocations a)) x
      = (if 0 \<le> x \<and> x < am_capacity a then 1 else 0)"
    using assms(1) by (simp add: leases_ok_def arena_ok_def)
  ultimately show "cover (am_free a) x = 0" "0 \<le> x \<and> x < am_capacity a"
    "cover (map snd (am_allocations a)) x = 1"
    using cover_nonneg [of "am_free a" x] by (auto split: if_splits)
qed

lemma leases_disjoint:
  assumes "leases_ok a ls" and "le \<in> set ls" "other \<in> set ls" "le \<noteq> other"
    and "inside x (lease_range le)"
  shows "\<not> inside x (lease_range other)"
proof
  assume inside: "inside x (lease_range other)"
  have dict: "dict_ok (am_allocations a)" using assms(1) by (simp add: leases_ok_def arena_ok_def)
  have ids: "le_allocation_id le \<noteq> le_allocation_id other"
    using assms(1-4) by (auto simp: leases_ok_def distinct_map inj_on_def)
  have some: "map_of (am_allocations a) (le_allocation_id le) = Some (lease_range le)"
    "map_of (am_allocations a) (le_allocation_id other) = Some (lease_range other)"
    using assms(1-3) by (simp_all add: leases_ok_def)
  have "map_of (AList.delete (le_allocation_id le) (am_allocations a)) (le_allocation_id other)
      = Some (lease_range other)" using some(2) ids by (simp add: delete_conv')
  then have "lease_range other \<in> set (map snd (AList.delete (le_allocation_id le) (am_allocations a)))"
    using map_of_SomeD by force
  then have "1 \<le> cover (map snd (AList.delete (le_allocation_id le) (am_allocations a))) x"
    using inside by (rule cover_member)
  with cover_delete [OF dict some(1), of x] assms(5) lease_inside(3) [OF assms(1,2,5)] show False by simp
qed

lemma released_leases_ok:
  assumes "leases_ok a ls" and "le \<in> set ls" and "lease_release False le a = (Inr (), le', a')"
  shows "leases_ok a' (remove1 le ls)"
proof -
  have a': "a' = snd (arena_release (le_allocation_id le) a)" "\<not> le_released le"
    using assms by (auto simp: lease_release_def leases_ok_def split: if_splits sum.splits prod.splits)
  have some: "map_of (am_allocations a) (le_allocation_id le) = Some (lease_range le)"
    using assms by (simp add: leases_ok_def)
  then have al: "am_allocations a' = AList.delete (le_allocation_id le) (am_allocations a)"
    by (simp add: a' arena_release_def case_prod_unfold)
  have dist: "distinct ls" "inj_on le_allocation_id (set ls)"
    using assms(1) by (auto simp: leases_ok_def distinct_map)
  then have ids: "le_allocation_id q \<noteq> le_allocation_id le" if "q \<in> set (remove1 le ls)" for q
    using that assms(2) by (auto simp: inj_on_def)
  have "arena_ok a'" using assms(1) arena_release_ok by (simp add: a' leases_ok_def)
  moreover have "distinct (map le_allocation_id (remove1 le ls))"
    using dist by (simp add: distinct_map inj_on_subset)
  moreover have "set (keys (am_allocations a')) = le_allocation_id ` set (remove1 le ls)"
  proof -
    have "set (keys (am_allocations a')) = le_allocation_id ` set ls - {le_allocation_id le}"
      using assms(1) keys_delete [of "le_allocation_id le" "am_allocations a"] by (simp add: al leases_ok_def)
    also have "\<dots> = le_allocation_id ` (set ls - {le})"
      using dist(2) assms(2) by (auto simp: inj_on_def)
    finally show ?thesis using dist(1) by simp
  qed
  moreover have "\<forall>q\<in>set (remove1 le ls). \<not> le_released q
      \<and> map_of (am_allocations a') (le_allocation_id q) = Some (lease_range q)"
    using assms(1) ids dist(1) by (auto simp: al delete_conv' leases_ok_def)
  ultimately show ?thesis by (simp add: leases_ok_def)
qed

lemma reachable_leases: "arena_reachable a ls \<Longrightarrow> leases_ok a ls"
proof (induction rule: arena_reachable.induct)
  case (start capacity zero a)
  then show ?case using new_arena_ok by (auto simp: leases_ok_def new_arena_def split: if_splits)
next
  case (allocate a ls n alignment le a')
  from allocate.hyps(2) show ?case
  proof (cases rule: allocate_cases)
    case (granted pos free)
    have "\<forall>e\<in>set (am_allocations a). fst e < am_next_id a"
      using allocate.IH by (auto simp: leases_ok_def arena_ok_def)
    then have fresh: "am_next_id a \<notin> set (keys (am_allocations a))" by force
    then have new: "le_allocation_id x \<noteq> am_next_id a" if "x \<in> set ls" for x
      using allocate.IH that by (metis image_eqI leases_ok_def)
    have "arena_ok a'" using allocate_ok [of a n alignment] allocate by (simp add: leases_ok_def)
    then show ?thesis
      using allocate.IH fresh new granted(5) keys_update [of "am_next_id a" "(pos, n)" "am_allocations a"]
      by (auto simp: leases_ok_def granted(6) update_conv' lease_range_def)
  qed simp
next
  case (refused a ls n alignment e a')
  from refused.hyps(2) have "am_allocations a' = am_allocations a" by (cases rule: allocate_cases) auto
  moreover have "arena_ok a'" using allocate_ok [of a n alignment] refused by (simp add: leases_ok_def)
  ultimately show ?case using refused.IH by (simp add: leases_ok_def)
next
  case (release a ls le le' a')
  then show ?case using released_leases_ok by blast
next
  case (written a ls le i v)
  have in_range: "inside (le_offset le + i) (lease_range le)" if "0 \<le> i" "i < le_size le"
    using that by (simp add: lease_range_def)
  have "arena_ok (a\<lparr>am_bytes := (am_bytes a)(le_offset le + i := v)\<rparr>)" if "0 \<le> i" "i < le_size le"
    using written lease_inside(1) [OF written.IH written.hyps(2) in_range [OF that]]
    by (intro arena_ok_bytes) (auto simp: leases_ok_def)
  then show ?case using written.IH by (auto simp: lease_write_def leases_ok_def)
next
  case (trim a ls page advice)
  have "arena_ok (a\<lparr>am_bytes := snd (trim_ranges page s d (am_free a) 0 (am_bytes a))\<rparr>)" for s d
    using trim.IH
      trim_ranges_bytes(1) [of page s d "am_free a" 0 "am_bytes a", OF prod.collapse [symmetric]]
    by (intro arena_ok_bytes) (auto simp: leases_ok_def)
  then show ?case
    using trim.IH by (auto simp: trim_free_pages_def leases_ok_def case_prod_unfold split: option.splits)
next
  case (close a ls)
  then show ?case by (auto simp: close_arena_def leases_ok_def arena_ok_def)
qed

section \<open>Properties\<close>

text \<open>C5: leases are isolated.  In every reachable arena the ranges of the live leases lie in the mapping
  and are pairwise disjoint, so writing through one never changes a byte of another; and when released
  memory is cleared, a new lease reads as zero everywhere, whatever was written to its range before and
  whatever the kernel discarded.\<close>

theorem leases_are_isolated:
  assumes "arena_reachable a ls" and "le \<in> set ls"
  shows "(\<forall>x. inside x (lease_range le) \<longrightarrow> 0 \<le> x \<and> x < am_capacity a)
    \<and> (\<forall>other\<in>set ls. other \<noteq> le \<longrightarrow>
        (\<forall>x. inside x (lease_range other) \<longrightarrow> \<not> inside x (lease_range le)
           \<and> (\<forall>i v. am_bytes (lease_write le i v a) x = am_bytes a x)))
    \<and> (\<forall>n alignment new a'. allocate n alignment a = (Inr new, a') \<longrightarrow> am_zero_on_release a \<longrightarrow>
        (\<forall>x. inside x (lease_range new) \<longrightarrow> am_bytes a' x = 0 \<and> \<not> inside x (lease_range le)))"
proof -
  note ok = reachable_leases [OF assms(1)]
  have other: "\<not> inside x (lease_range le) \<and> am_bytes (lease_write le i v a) x = am_bytes a x"
    if "q \<in> set ls" "q \<noteq> le" "inside x (lease_range q)" for q x i v
  proof -
    have "\<not> inside x (lease_range le)" by (rule leases_disjoint [OF ok that(1) assms(2) that(2,3)])
    then show ?thesis by (auto simp: lease_write_def lease_range_def)
  qed
  have new: "am_bytes a' x = 0 \<and> \<not> inside x (lease_range le)"
    if al: "allocate n alignment a = (Inr new, a')" and z: "am_zero_on_release a" and x: "inside x (lease_range new)"
    for n alignment new a' x
  proof -
    from al obtain pos free where g: "1 \<le> n" "1 \<le> alignment"
      "first_fit n alignment (am_free a) = Some (pos, free)"
      "lease_range new = (pos, n)" "am_bytes a' = am_bytes a"
      by (cases rule: allocate_cases) (auto simp: lease_range_def)
    have "separated (am_free a)" using ok by (simp add: leases_ok_def arena_ok_def)
    from first_fit_spec [OF g(3) _ _ this] g(1,2) x
    have "0 < cover (am_free a) x" using cover_nonneg [of free x] by (simp add: g(4))
    then show ?thesis
      using ok z lease_inside(1) [OF ok assms(2)] by (auto simp: g(5) leases_ok_def arena_ok_def)
  qed
  show ?thesis using lease_inside(2) [OF ok assms(2)] other new by blast
qed

lemma drained_arena:
  assumes "arena_ok a" and "am_allocations a = []" and "0 < am_capacity a"
  shows "am_free a = [(0, am_capacity a)]"
proof -
  have sep: "separated (am_free a)"
    and part: "\<And>x. cover (am_free a) x = (if 0 \<le> x \<and> x < am_capacity a then 1 else 0)"
    using assms(1,2) by (simp_all add: arena_ok_def)
  obtain r rs where fs: "am_free a = r # rs"
    using part [of 0] assms(3) by (cases "am_free a") simp_all
  obtain s l where r: "r = (s, l)" by force
  have l: "0 < l" and later: "\<And>q. q \<in> set rs \<Longrightarrow> s + l < fst q"
    using sep by (auto simp: fs r)
  have "rs = []"
  proof (rule ccontr)
    assume "rs \<noteq> []"
    then obtain q qs where q: "rs = q # qs" by (cases rs) auto
    obtain t m where tm: "q = (t, m)" by force
    have "0 < m" using sep by (simp add: fs q tm)
    have "\<forall>p\<in>set (r # rs). \<not> inside (s + l) p" using later r by (auto, fastforce)
    then have "cover (am_free a) (s + l) = 0" unfolding fs cover_zero by blast
    moreover have "inside t q" "s + l < t" using \<open>0 < m\<close> later [of q] by (simp_all add: q tm)
    then have "t < am_capacity a"
      using part [of t] cover_member [of q "am_free a" t] by (auto simp: fs q split: if_splits)
    moreover have "0 \<le> s" using part [of s] l cover_member [of r "am_free a" s] by (auto simp: fs r split: if_splits)
    ultimately show False using part [of "s + l"] l \<open>s + l < t\<close> by simp
  qed
  then have cov: "inside x (s, l) = (0 \<le> x \<and> x < am_capacity a)" for x
    using part [of x] by (auto simp: fs r split: if_splits)
  from cov [of s] cov [of 0] cov [of "s + l - 1"] cov [of "am_capacity a - 1"] l assms(3)
  have "s = 0" "l = am_capacity a" by auto
  with \<open>rs = []\<close> show ?thesis by (simp add: fs r)
qed

lemma asum_leases:
  assumes "leases_ok a ls"
  shows "asum snd (am_allocations a) = sum_list (map le_size ls)"
proof -
  have d: "distinct (keys (am_allocations a))" "distinct (map le_allocation_id ls)"
    using assms by (simp_all add: leases_ok_def arena_ok_def)
  have "(le_allocation_id le, le_size le) \<in> (\<lambda>(k, r). (k, snd r)) ` set (am_allocations a)"
    if "le \<in> set ls" for le
    using assms that by (force simp: leases_ok_def lease_range_def dest!: map_of_SomeD)
  have size: "snd (the (map_of (am_allocations a) (le_allocation_id le))) = le_size le" if "le \<in> set ls" for le
    using assms that by (simp add: leases_ok_def lease_range_def)
  let ?f = "\<lambda>k. snd (the (map_of (am_allocations a) k))"
  have "asum snd (am_allocations a) = sum_list (map ?f (keys (am_allocations a)))"
    unfolding asum_def map_map using d(1) by (intro arg_cong [where f = sum_list] map_cong) auto
  also have "\<dots> = sum ?f (set (keys (am_allocations a)))" by (rule sum_list_distinct_conv_sum_set [OF d(1)])
  also have "\<dots> = sum ?f (set (map le_allocation_id ls))" using assms by (simp add: leases_ok_def)
  also have "\<dots> = sum_list (map ?f (map le_allocation_id ls))" by (rule sum_list_distinct_conv_sum_set [OF d(2), symmetric])
  also have "\<dots> = sum_list (map le_size ls)" using size by (simp add: comp_def cong: map_cong)
  finally show ?thesis .
qed

lemma reachable_capacity: "arena_reachable a ls \<Longrightarrow> 4096 \<le> am_capacity a"
proof (induction rule: arena_reachable.induct)
  case (release a ls le le' a')
  then show ?case
    by (auto simp: lease_release_def arena_release_def split: if_splits option.splits sum.splits prod.splits)
qed (auto simp: new_arena_def allocate_def lease_write_def trim_free_pages_def close_arena_def
    split: if_splits option.splits prod.splits)

lemma number_of_leases:
  assumes "leases_ok a ls"
  shows "length (am_allocations a) = length ls"
proof -
  have d: "distinct (keys (am_allocations a))" "distinct (map le_allocation_id ls)"
    using assms by (simp_all add: leases_ok_def arena_ok_def)
  from distinct_card [OF d(1)] distinct_card [OF d(2)] show ?thesis
    using assms by (simp add: leases_ok_def)
qed

lemma free_range_bounded:
  assumes "arena_ok a" and "(s, l) \<in> set (am_free a)"
  shows "l \<le> am_capacity a"
proof -
  have pos: "\<forall>x\<in>set (map snd (am_free a)). 0 \<le> x"
    using assms(1) by (auto simp: arena_ok_def separated_def intro: less_imp_le)
  have "l \<le> sum_list (map snd (am_free a))"
    using assms(2) pos by (intro member_le_sum_list) force+
  moreover have "0 \<le> asum snd (am_allocations a)"
    using assms(1) by (intro asum_nonneg) (auto simp: arena_ok_def)
  ultimately show ?thesis using assms(1) by (simp add: arena_ok_def)
qed

lemma allocate_granted_iff:
  assumes "leases_ok a ls"
  shows "(\<exists>le a'. allocate n alignment a = (Inr le, a')) \<longleftrightarrow>
         1 \<le> n \<and> 1 \<le> alignment \<and> alignment \<le> 65536 \<and> alignment AND (alignment - 1) = 0 \<and> \<not> am_closed a
         \<and> int (length ls) < MAX_UNIFIED_MEMORY_ALLOCATIONS
         \<and> (\<exists>(s, l)\<in>set (am_free a). align s alignment - s + n \<le> l)"
proof -
  let ?fits = "\<exists>(s, l)\<in>set (am_free a). align s alignment - s + n \<le> l"
  have ok: "arena_ok a" using assms by (simp add: leases_ok_def)
  have fits: "?fits \<longleftrightarrow> first_fit n alignment (am_free a) \<noteq> None"
    unfolding first_fit_None not_less by (auto simp: not_less case_prod_unfold)
  have "n \<le> am_capacity a" if fit: "?fits" and "1 \<le> alignment"
  proof -
    from fit obtain s l where "(s, l) \<in> set (am_free a)" "align s alignment - s + n \<le> l" by auto
    with free_range_bounded [OF ok this(1)] align_bounds [of alignment s] that(2) show ?thesis by simp
  qed
  then show ?thesis
    unfolding allocate_def by (auto simp: fits number_of_leases [OF assms] split: option.splits)
qed

text \<open>C38: the arena accounts for every byte.  In every reachable arena the allocated bytes are the sum of
  the live leases and with the free bytes make up the capacity; an allocation of a valid size is granted
  exactly when some free range holds it at its alignment; and when every lease is released the arena is
  one free range again, however it was fragmented.\<close>


theorem arena_accounts_for_every_byte:
  assumes "arena_reachable a ls"
  shows "as_allocated_bytes (snapshot_arena a) = sum_list (map le_size ls)
    \<and> as_allocated_bytes (snapshot_arena a) + as_free_bytes (snapshot_arena a) = am_capacity a
    \<and> (\<forall>n alignment. (\<exists>le a'. allocate n alignment a = (Inr le, a')) \<longleftrightarrow>
         1 \<le> n \<and> 1 \<le> alignment \<and> alignment \<le> 65536 \<and> alignment AND (alignment - 1) = 0 \<and> \<not> am_closed a
         \<and> int (length ls) < MAX_UNIFIED_MEMORY_ALLOCATIONS
         \<and> (\<exists>(s, l)\<in>set (am_free a). align s alignment - s + n \<le> l))
    \<and> (ls = [] \<longrightarrow> am_free a = [(0, am_capacity a)])"
proof -
  note ok = reachable_leases [OF assms]
  have "am_free a = [(0, am_capacity a)]" if "ls = []"
    using drained_arena [of a] ok number_of_leases [OF ok] reachable_capacity [OF assms] that
    by (simp add: leases_ok_def)
  moreover have "am_allocated a = sum_list (map le_size ls)"
    and "am_allocated a + sum_list (map snd (am_free a)) = am_capacity a"
    using asum_leases [OF ok] ok by (simp_all add: leases_ok_def arena_ok_def)
  ultimately show ?thesis
    using allocate_granted_iff [OF ok] by (simp add: snapshot_arena_def Let_def)
qed

section \<open>A run\<close>

text \<open>Two leases are taken, the first is written and given back, and the second stays.\<close>

definition example_arena ::
  "mem_range list \<Rightarrow> (int, mem_range) dict \<Rightarrow> int \<Rightarrow> int \<Rightarrow> int \<Rightarrow> (int \<Rightarrow> 8 word) \<Rightarrow> arena" where
  "example_arena free allocations nid allocated peak bytes =
     \<lparr>am_capacity = 4096, am_zero_on_release = True, am_free = free, am_allocations = allocations,
      am_next_id = nid, am_allocated = allocated, am_peak = peak, am_failed = 0, am_closed = False,
      am_bytes = bytes\<rparr>"

definition example_lease :: "int \<Rightarrow> memory_lease" where
  "example_lease k = \<lparr>le_allocation_id = k, le_offset = 1024 * (k - 1), le_size = 1024, le_released = False\<rparr>"

definition example_fragmented :: arena where
  "example_fragmented = example_arena [(0, 1024), (2048, 2048)] [(2, 1024, 1024)] 3 1024 2048
     (clear_from 0 1024 0 ((\<lambda>x. 0)(5 := 7)))"

lemmas example_arena_simps = example_arena_def example_lease_def example_fragmented_def allocate_def align_def
  Let_def MAX_UNIFIED_MEMORY_ALLOCATIONS_def lease_write_def lease_release_def arena_release_def

lemma example_fragmented_reachable: "arena_reachable example_fragmented [example_lease 2]"
proof -
  let ?a = "example_arena [(1024, 3072)] [(1, 0, 1024)] 2 1024 1024 (\<lambda>x. 0)"
  let ?b = "example_arena [(2048, 2048)] [(1, 0, 1024), (2, 1024, 1024)] 3 2048 2048"
  have "new_arena 4096 True = Inr (example_arena [(0, 4096)] [] 1 0 0 (\<lambda>x. 0))"
    by (simp add: new_arena_def example_arena_def MAX_UNIFIED_MEMORY_ARENA_BYTES_def)
  then have 0: "arena_reachable (example_arena [(0, 4096)] [] 1 0 0 (\<lambda>x. 0)) []"
    by (rule arena_reachable.start)
  have "allocate 1024 64 (example_arena [(0, 4096)] [] 1 0 0 (\<lambda>x. 0)) = (Inr (example_lease 1), ?a)"
    by (simp add: example_arena_simps)
  from arena_reachable.allocate [OF 0 this] have 1: "arena_reachable ?a [example_lease 1]" .
  have "allocate 1024 64 ?a = (Inr (example_lease 2), ?b (\<lambda>x. 0))"
    by (simp add: example_arena_simps)
  from arena_reachable.allocate [OF 1 this]
  have "arena_reachable (?b (\<lambda>x. 0)) [example_lease 2, example_lease 1]" .
  then have "arena_reachable (lease_write (example_lease 1) 5 7 (?b (\<lambda>x. 0))) [example_lease 2, example_lease 1]"
    by (rule arena_reachable.written) simp
  then have 2: "arena_reachable (?b ((\<lambda>x. 0)(5 := 7))) [example_lease 2, example_lease 1]"
    by (simp add: example_arena_simps)
  have "lease_release False (example_lease 1) (?b ((\<lambda>x. 0)(5 := 7)))
      = (Inr (), (example_lease 1)\<lparr>le_released := True\<rparr>, example_fragmented)"
    by (simp add: example_arena_simps)
  from arena_reachable.release [OF 2 _ this] show ?thesis by (simp add: example_lease_def)
qed

theorem leases_are_isolated_witness:
  "\<exists>new a'. allocate 100 8 example_fragmented = (Inr new, a') \<and> le_offset new = 0 \<and> am_bytes a' 5 = 0"
proof -
  have "(8::int) AND 7 = 0" by simp
  then obtain new a' where al: "allocate 100 8 example_fragmented = (Inr new, a')" "le_offset new = 0" "le_size new = 100"
    by (simp add: example_arena_simps)
  have "inside 5 (lease_range new)" by (simp add: lease_range_def al)
  with leases_are_isolated [OF example_fragmented_reachable, of "example_lease 2"] al
  show ?thesis by (auto simp: example_fragmented_def example_arena_def)
qed

theorem arena_accounts_for_every_byte_witness:
  "as_allocated_bytes (snapshot_arena example_fragmented) = 1024
   \<and> as_free_bytes (snapshot_arena example_fragmented) = 3072"
  using arena_accounts_for_every_byte [OF example_fragmented_reachable]
  by (simp add: example_lease_def example_fragmented_def example_arena_def)

end
