(* ===== verification/LruCache.thy ===== *)
theory LruCache
  imports Prelude "HOL-Library.Sublist"
begin

text \<open>
  The least-recently-used caches of the program: \<open>vision_cache.py\<close>, \<open>audio_encoder_cache.py\<close>,
  \<open>video_cache.py\<close>, \<open>semantic_cache.py\<close>, \<open>token_count_cache.py\<close> and \<open>hierarchical_state_cache.py\<close>
  all keep an \<open>OrderedDict\<close>, oldest entry first, with a byte counter beside it, and run the same
  eviction loop.  \<open>lru_evict\<close> is that loop with the counter; \<open>fitting\<close> is its reference: the longest
  run of newest entries within the limits.  The locale \<open>lru_store\<close> is what a caller relies on; it
  holds the lemmas about \<open>get_or_compute\<close> and about any sequence of calls.
\<close>

section \<open>Ordered dictionaries\<close>

definition move_to_end :: "'k \<Rightarrow> ('k, 'v) dict \<Rightarrow> ('k, 'v) dict" where
  "move_to_end k d = (case map_of d k of None \<Rightarrow> d | Some v \<Rightarrow> AList.delete k d @ [(k, v)])"

text \<open>\<open>pop(key, None)\<close> followed by \<open>d[key] = value\<close>: the entry becomes the newest.\<close>

definition put_newest :: "'k \<Rightarrow> 'v \<Rightarrow> ('k, 'v) dict \<Rightarrow> ('k, 'v) dict" where
  "put_newest k v d = AList.delete k d @ [(k, v)]"

lemma delete_keys: "k \<notin> fst ` set (AList.delete k d)"
  by (induction d) auto

lemma put_newest_facts [simp]:
  "dict_ok d \<Longrightarrow> dict_ok (put_newest k v d)"
  "map_of (put_newest k v d) = (map_of d)(k \<mapsto> v)"
  "set (put_newest k v d) = insert (k, v) {e \<in> set d. fst e \<noteq> k}"
  using delete_keys [of k d]
  by (auto simp: put_newest_def dict_ok_delete set_delete delete_conv' map_add_def fun_eq_iff split: option.splits)

lemma move_to_end_Some: "map_of d k = Some v \<Longrightarrow> move_to_end k d = put_newest k v d"
  by (simp add: move_to_end_def put_newest_def)

lemma move_to_end_None: "map_of d k = None \<Longrightarrow> move_to_end k d = d"
  by (simp add: move_to_end_def)

lemma asum_put_newest:
  fixes f :: "'v \<Rightarrow> int"
  shows "dict_ok d \<Longrightarrow> asum f (put_newest k v d)
    = asum f d - (case map_of d k of None \<Rightarrow> 0 | Some v0 \<Rightarrow> f v0) + f v"
proof (cases "map_of d k")
  case None
  then have "AList.delete k d = d" using map_of_None_keys by (intro delete_fresh) fast
  with None show ?thesis by (simp add: put_newest_def)
qed (simp add: put_newest_def asum_delete)

lemma move_to_end_facts [simp]:
  fixes f :: "'v \<Rightarrow> int"
  assumes "dict_ok d"
  shows "dict_ok (move_to_end k d)" "map_of (move_to_end k d) = map_of d" "set (move_to_end k d) = set d"
    "asum f (move_to_end k d) = asum f d" "length (move_to_end k d) = length d"
proof -
  consider "map_of d k = None" | v where "map_of d k = Some v" by (cases "map_of d k") auto
  then have "dict_ok (move_to_end k d) \<and> map_of (move_to_end k d) = map_of d \<and> set (move_to_end k d) = set d
    \<and> asum f (move_to_end k d) = asum f d \<and> length (move_to_end k d) = length d"
  proof cases
    case 1
    then show ?thesis using assms by (simp add: move_to_end_None)
  next
    case 2
    have "length (put_newest k v d) = length d"
      using length_delete [OF assms map_of_Some_keys [OF 2]] by (simp add: put_newest_def)
    moreover have "insert (k, v) {e \<in> set d. fst e \<noteq> k} = set d"
      using assms map_of_SomeD [OF 2] by (auto simp: eq_key_imp_eq_value)
    ultimately show ?thesis
      using 2 assms by (simp add: move_to_end_Some asum_put_newest map_upd_triv)
  qed
  then show "dict_ok (move_to_end k d)" "map_of (move_to_end k d) = map_of d" "set (move_to_end k d) = set d"
    "asum f (move_to_end k d) = asum f d" "length (move_to_end k d) = length d" by auto
qed

section \<open>The eviction loop\<close>

text \<open>\<open>while len(entries) > n or resident > b: popitem(last=False)\<close>; popping from an empty dictionary
  raises.  The result holds the evicted entries, the entries left and the counter.\<close>

fun lru_evict ::
  "int \<Rightarrow> int \<Rightarrow> ('v \<Rightarrow> int) \<Rightarrow> ('k, 'v) dict \<Rightarrow> int \<Rightarrow> unit result \<times> ('k, 'v) dict \<times> ('k, 'v) dict \<times> int"
where
  "lru_evict n b weight [] resident = ((if n < 0 \<or> b < resident then Inl KeyError else Inr ()), [], [], resident)"
| "lru_evict n b weight (e # d) resident =
     (if n < 1 + int (length d) \<or> b < resident
      then (case lru_evict n b weight d (resident - weight (snd e)) of
              (r, evicted, left, counter) \<Rightarrow> (r, e # evicted, left, counter))
      else (Inr (), [], e # d, resident))"

text \<open>The reference: drop the oldest entries until the others are within the limits.\<close>

fun fitting :: "int \<Rightarrow> int \<Rightarrow> ('v \<Rightarrow> int) \<Rightarrow> ('k, 'v) dict \<Rightarrow> ('k, 'v) dict" where
  "fitting n b weight [] = []"
| "fitting n b weight (e # d) =
     (if 1 + int (length d) \<le> n \<and> asum weight (e # d) \<le> b then e # d else fitting n b weight d)"

lemma fitting_suffix: "suffix (fitting n b weight d) d"
  by (induction d) (auto intro: suffix_ConsI)

lemma fitting_within:
  "0 \<le> n \<Longrightarrow> 0 \<le> b \<Longrightarrow> int (length (fitting n b weight d)) \<le> n \<and> asum weight (fitting n b weight d) \<le> b"
  by (induction d) auto

lemma fitting_greatest:
  "suffix s d \<Longrightarrow> int (length s) \<le> n \<Longrightarrow> asum weight s \<le> b \<Longrightarrow> suffix s (fitting n b weight d)"
  by (induction d) (auto simp: suffix_Cons)

lemma fitting_fits [simp]:
  "int (length d) \<le> n \<Longrightarrow> asum weight d \<le> b \<Longrightarrow> fitting n b weight d = d"
  by (cases d) auto

lemma lru_evict_fitting:
  assumes "resident = asum weight d" and "0 \<le> n" and "0 \<le> b"
  shows "\<exists>evicted. lru_evict n b weight d resident
      = (Inr (), evicted, fitting n b weight d, asum weight (fitting n b weight d))
      \<and> d = evicted @ fitting n b weight d"
  using assms(1)
proof (induction d arbitrary: resident)
  case (Cons e d)
  have "resident - weight (snd e) = asum weight d" using Cons.prems by (cases e) simp
  from Cons.IH [OF this] Cons.prems show ?case by auto
qed (use assms(2,3) in simp)

lemma fitting_keeps_newest:
  assumes "1 \<le> n" and "weight v \<le> b"
  obtains older where "fitting n b weight (put_newest k v d) = older @ [(k, v)]"
proof -
  have "suffix [(k, v)] (fitting n b weight (put_newest k v d))"
    by (rule fitting_greatest) (use assms in \<open>auto simp: put_newest_def suffix_def\<close>)
  then show ?thesis using that by (auto simp: suffix_def)
qed

lemma suffix_dict_ok: "suffix s d \<Longrightarrow> dict_ok d \<Longrightarrow> dict_ok s"
  by (auto simp: suffix_def)

lemma suffix_map_le:
  assumes "suffix s d" and "dict_ok d"
  shows "map_of s \<subseteq>\<^sub>m map_of d"
proof (unfold map_le_def, intro ballI)
  fix k
  assume "k \<in> dom (map_of s)"
  then obtain v where v: "map_of s k = Some v" by auto
  then have "(k, v) \<in> set d" using assms(1) by (auto simp: suffix_def dest: map_of_SomeD)
  then show "map_of s k = map_of d k" using assms(2) v by simp
qed

lemma fitting_dict: "dict_ok d \<Longrightarrow> dict_ok (fitting n b weight d)"
  by (rule suffix_dict_ok [OF fitting_suffix])

lemma fitting_subset: "set (fitting n b weight d) \<subseteq> set d"
  by (rule set_mono_suffix [OF fitting_suffix])

section \<open>What callers rely on\<close>

text \<open>\<open>get_or_compute\<close> of the encoder caches: a hit returns the cached value; a miss computes the value
  outside the lock (other threads run meanwhile) and offers it to the cache.\<close>

definition get_or_compute ::
  "('q \<Rightarrow> 's \<Rightarrow> 'v option \<times> 's) \<Rightarrow> ('q \<Rightarrow> 'v \<Rightarrow> int \<Rightarrow> ('s, bool) method) \<Rightarrow> 'q \<Rightarrow> ('v \<times> int) result
    \<Rightarrow> ('s \<Rightarrow> 's) \<Rightarrow> ('s, 'v) method" where
  "get_or_compute get put q computed others s =
     (case get q s of
        (Some v, s') \<Rightarrow> (Inr v, s')
      | (None, s') \<Rightarrow>
          (case computed of
             Inl e \<Rightarrow> (Inl e, others s')
           | Inr (v, n) \<Rightarrow>
               (case put q v n (others s') of
                  (Inl e, s'') \<Rightarrow> (Inl e, s'')
                | (Inr stored, s'') \<Rightarrow> (Inr v, s''))))"

text \<open>How a dictionary in insertion order changes when an entry becomes the newest, and what the eviction loop
  promises: it drops the oldest entries, the last of which the limits did demand.\<close>

lemma keys_without: "keys (AList.delete k d) = removeAll k (keys d)"
  by (induction d) auto

lemma remdups_snoc: "remdups (u @ [k]) = removeAll k (remdups u) @ [k]"
  by (induction u) auto

lemma suffix_renewed: "suffix a b \<Longrightarrow> suffix (removeAll k a @ [k]) (removeAll k b @ [k])"
  by (auto simp: suffix_def)

lemma fitting_evicts:
  "\<exists>evicted. d = evicted @ fitting n b weight d
     \<and> (evicted \<noteq> [] \<longrightarrow> n < 1 + int (length (fitting n b weight d))
          \<or> b < weight (snd (last evicted)) + asum weight (fitting n b weight d))"
proof (induction d)
  case (Cons e d)
  show ?case
  proof (cases "1 + int (length d) \<le> n \<and> asum weight (e # d) \<le> b")
    case True
    then show ?thesis by simp
  next
    case False
    from Cons obtain evicted where ev: "d = evicted @ fitting n b weight d" "evicted \<noteq> [] \<longrightarrow>
      n < 1 + int (length (fitting n b weight d)) \<or> b < weight (snd (last evicted)) + asum weight (fitting n b weight d)"
      by blast
    have "n < 1 + int (length (fitting n b weight d))
        \<or> b < weight (snd (last (e # evicted))) + asum weight (fitting n b weight d)"
    proof (cases "evicted = []")
      case True
      with ev(1) have "fitting n b weight d = d" by simp
      with False True show ?thesis by (cases e) auto
    qed (use ev(2) in simp)
    moreover have "e # d = (e # evicted) @ fitting n b weight (e # d)" using ev(1) False by simp
    ultimately show ?thesis using False by (metis fitting.simps(2))
  qed
qed simp

text \<open>What a value stored into a cache replaces: its own old entry and the oldest others, no more of them than the
  limits \<open>n\<close> and \<open>b\<close> demand; the next lookup finds it.\<close>

definition put_evicts ::
  "('s \<Rightarrow> ('k, 'v \<times> int) dict) \<Rightarrow> ('q \<Rightarrow> 'k) \<Rightarrow> ('q \<Rightarrow> 's \<Rightarrow> 'v option \<times> 's) \<Rightarrow> ('q \<Rightarrow> 'v \<Rightarrow> int \<Rightarrow> ('s, bool) method)
    \<Rightarrow> int \<Rightarrow> int \<Rightarrow> 's \<Rightarrow> 'q \<Rightarrow> 'v \<Rightarrow> int \<Rightarrow> bool"
where
  "put_evicts entries key get put n b s q v w \<longleftrightarrow> (\<exists>evicted s'. put q v w s = (Inr True, s')
     \<and> filter (\<lambda>e. fst e \<noteq> key q) (entries s) @ [(key q, (v, w))] = evicted @ entries s'
     \<and> (evicted \<noteq> [] \<longrightarrow> n < 1 + int (length (entries s')) \<or> b < snd (snd (last evicted)) + asum snd (entries s'))
     \<and> fst (get q s') = Some v)"

locale lru_store =
  fixes entries :: "'s \<Rightarrow> ('k, 'v \<times> int) dict"
    and key :: "'q \<Rightarrow> 'k"
    and get :: "'q \<Rightarrow> 's \<Rightarrow> 'v option \<times> 's"
    and put :: "'q \<Rightarrow> 'v \<Rightarrow> int \<Rightarrow> ('s, bool) method"
    and clear :: "'s \<Rightarrow> 's"
    and max_entries :: "'s \<Rightarrow> int"
    and max_bytes :: "'s \<Rightarrow> int"
    and ok :: "'s \<Rightarrow> bool"
  assumes within: "ok s \<Longrightarrow> dict_ok (entries s) \<and> 1 \<le> max_entries s \<and> int (length (entries s)) \<le> max_entries s
      \<and> asum snd (entries s) \<le> max_bytes s"
    and get_value: "ok s \<Longrightarrow> fst (get q s) = map_option fst (map_of (entries s) (key q))"
    and get_entries: "ok s \<Longrightarrow> entries (snd (get q s)) = move_to_end (key q) (entries s)"
    and get_ok: "ok s \<Longrightarrow> ok (snd (get q s))"
    and get_limits: "ok s \<Longrightarrow> max_entries (snd (get q s)) = max_entries s \<and> max_bytes (snd (get q s)) = max_bytes s"
    and put_result: "ok s \<Longrightarrow> fst (put q v n s) = Inr (1 \<le> n \<and> n \<le> max_bytes s)"
    and put_entries: "ok s \<Longrightarrow> entries (snd (put q v n s)) =
      (if 1 \<le> n \<and> n \<le> max_bytes s
       then fitting (max_entries s) (max_bytes s) snd (put_newest (key q) (v, n) (entries s)) else entries s)"
    and put_ok: "ok s \<Longrightarrow> ok (snd (put q v n s))"
    and put_limits: "ok s \<Longrightarrow> max_entries (snd (put q v n s)) = max_entries s \<and> max_bytes (snd (put q v n s)) = max_bytes s"
    and clear_all: "ok s \<Longrightarrow> entries (clear s) = [] \<and> ok (clear s) \<and> max_entries (clear s) = max_entries s
      \<and> max_bytes (clear s) = max_bytes s"
begin

text \<open>A value that fits is there after it was put, and nothing else is ever found under its key.\<close>

lemma put_then_get:
  assumes "ok s" and "1 \<le> n" and "n \<le> max_bytes s"
  shows "fst (get q (snd (put q v n s))) = Some v"
proof -
  obtain older where older:
    "fitting (max_entries s) (max_bytes s) snd (put_newest (key q) (v, n) (entries s)) = older @ [(key q, (v, n))]"
    using fitting_keeps_newest [of "max_entries s" snd "(v, n)" "max_bytes s"] within [OF assms(1)] assms(3)
    by (metis snd_conv)
  have e: "entries (snd (put q v n s)) = older @ [(key q, (v, n))]"
    using older assms by (simp add: put_entries)
  have "dict_ok (entries (snd (put q v n s)))" using within [OF put_ok [OF assms(1)]] by blast
  then have "map_of (entries (snd (put q v n s))) (key q) = Some (v, n)"
    by (simp add: e map_of_eq_dict del: map_of_append)
  then show ?thesis using get_value [OF put_ok [OF assms(1)]] by simp
qed

lemma put_submap:
  assumes "ok s"
  shows "map_of (entries (snd (put q v n s))) \<subseteq>\<^sub>m (if fst (put q v n s) = Inr True
      then (map_of (entries s))(key q \<mapsto> (v, n)) else map_of (entries s))"
  using suffix_map_le [OF fitting_suffix, of "put_newest (key q) (v, n) (entries s)"] within [OF assms]
  by (simp add: put_entries put_result assms)

text \<open>The calls in any order, with the map a cache without limits would hold and the keys in the order of
  their uses: a lookup that finds its key uses it, and so does a \<open>put\<close> that stores.\<close>

inductive history :: "'s \<Rightarrow> 's \<Rightarrow> ('k \<Rightarrow> ('v \<times> int) option) \<Rightarrow> 'k list \<Rightarrow> bool" for s0 where
  fresh: "entries s0 = [] \<Longrightarrow> history s0 s0 Map.empty []"
| got: "history s0 s m used \<Longrightarrow> get q s = (Some v, s') \<Longrightarrow> history s0 s' m (used @ [key q])"
| missed: "history s0 s m used \<Longrightarrow> get q s = (None, s') \<Longrightarrow> history s0 s' m used"
| stored: "history s0 s m used \<Longrightarrow> put q v n s = (Inr True, s') \<Longrightarrow> history s0 s' (m(key q \<mapsto> (v, n))) (used @ [key q])"
| refused: "history s0 s m used \<Longrightarrow> put q v n s = (Inr False, s') \<Longrightarrow> history s0 s' m used"
| cleared: "history s0 s m used \<Longrightarrow> history s0 (clear s) Map.empty []"

lemma put_recency:
  assumes "ok s" and "suffix (keys (entries s)) (remdups used)" and "put q v n s = (Inr True, s')"
  shows "suffix (keys (entries s')) (remdups (used @ [key q]))"
proof -
  have "1 \<le> n \<and> n \<le> max_bytes s" using put_result [OF assms(1), of q v n] assms(3) by simp
  then have "entries s' = fitting (max_entries s) (max_bytes s) snd (put_newest (key q) (v, n) (entries s))"
    using put_entries [OF assms(1), of q v n] assms(3) by simp
  then have "suffix (keys (entries s')) (keys (put_newest (key q) (v, n) (entries s)))"
    using map_mono_suffix [OF fitting_suffix] by simp
  also have "keys (put_newest (key q) (v, n) (entries s)) = removeAll (key q) (keys (entries s)) @ [key q]"
    by (simp add: put_newest_def keys_without)
  also have "suffix \<dots> (remdups (used @ [key q]))"
    unfolding remdups_snoc using assms(2) by (rule suffix_renewed)
  finally show ?thesis .
qed

lemma get_recency:
  assumes "ok s" and "suffix (keys (entries s)) (remdups used)" and "get q s = (Some v, s')"
  shows "suffix (keys (entries s')) (remdups (used @ [key q]))"
proof -
  obtain x where "map_of (entries s) (key q) = Some x"
    using get_value [OF assms(1), of q] assms(3) by (cases "map_of (entries s) (key q)") simp_all
  then have "keys (entries s') = removeAll (key q) (keys (entries s)) @ [key q]"
    using get_entries [OF assms(1), of q] assms(3) by (simp add: move_to_end_Some put_newest_def keys_without)
  then show ?thesis unfolding remdups_snoc using suffix_renewed [OF assms(2)] by simp
qed

lemma history_refines:
  assumes "ok s0" and "history s0 s m used"
  shows "ok s \<and> map_of (entries s) \<subseteq>\<^sub>m m \<and> max_entries s = max_entries s0 \<and> max_bytes s = max_bytes s0
    \<and> suffix (keys (entries s)) (remdups used)"
  using assms(2)
proof induction
  case fresh
  then show ?case using assms(1) by simp
next
  case (got s m used q v s')
  then have s: "ok s" "suffix (keys (entries s)) (remdups used)" "map_of (entries s) \<subseteq>\<^sub>m m" by blast+
  have "snd (get q s) = s'" using got.hyps(2) by simp
  moreover have "map_of (entries s') = map_of (entries s)"
    using get_entries [OF s(1), of q] got.hyps(2) within [OF s(1)] by simp
  ultimately show ?case
    using got.IH s(3) get_recency [OF s(1,2) got.hyps(2)] get_ok [OF s(1), of q] get_limits [OF s(1), of q] by simp
next
  case (missed s m used q s')
  then have s: "ok s" by blast
  have "map_of (entries s) (key q) = None" using get_value [OF s, of q] missed.hyps(2) by simp
  then have "entries s' = entries s" using get_entries [OF s, of q] missed.hyps(2) by (simp add: move_to_end_None)
  moreover have "snd (get q s) = s'" using missed.hyps(2) by simp
  ultimately show ?case using missed.IH get_ok [OF s, of q] get_limits [OF s, of q] by simp
next
  case (stored s m used q v n s')
  then have s: "ok s" "suffix (keys (entries s)) (remdups used)" "map_of (entries s) \<subseteq>\<^sub>m m" by blast+
  have "map_of (entries s') \<subseteq>\<^sub>m (map_of (entries s))(key q \<mapsto> (v, n))"
    using put_submap [OF s(1), of q v n] stored.hyps(2) by simp
  also have "(map_of (entries s))(key q \<mapsto> (v, n)) \<subseteq>\<^sub>m m(key q \<mapsto> (v, n))"
    using s(3) by (simp add: map_le_def)
  finally have "map_of (entries s') \<subseteq>\<^sub>m m(key q \<mapsto> (v, n))" .
  moreover have "snd (put q v n s) = s'" using stored.hyps(2) by simp
  ultimately show ?case
    using stored.IH put_recency [OF s(1,2) stored.hyps(2)] put_ok [OF s(1), of q v n] put_limits [OF s(1), of q v n]
    by (simp del: fun_upd_apply)
next
  case (refused s m used q v n s')
  then have s: "ok s" by blast
  have "\<not> (1 \<le> n \<and> n \<le> max_bytes s)" using put_result [OF s, of q v n] refused.hyps(2) by simp
  then have "entries s' = entries s" using put_entries [OF s, of q v n] refused.hyps(2) by (simp only: if_False snd_conv)
  moreover have "snd (put q v n s) = s'" using refused.hyps(2) by simp
  ultimately show ?case using refused.IH put_ok [OF s, of q v n] put_limits [OF s, of q v n] by simp
next
  case (cleared s m used)
  then show ?case using clear_all [of s] by simp
qed

lemma get_or_compute_caches:
  assumes "ok s" and "\<And>t. ok t \<Longrightarrow> ok (others t) \<and> max_bytes (others t) = max_bytes t"
    and "get_or_compute get put q (Inr (v, n)) others s = (r, s')"
  shows "ok s' \<and> r = Inr (case fst (get q s) of None \<Rightarrow> v | Some w \<Rightarrow> w)
    \<and> (fst (get q s) = None \<longrightarrow> 1 \<le> n \<longrightarrow> n \<le> max_bytes s \<longrightarrow>
         (\<forall>other others'. fst (get_or_compute get put q other others' s') = Inr v))"
proof (cases "fst (get q s)")
  case None
  let ?t = "others (snd (get q s))"
  have t: "ok ?t" "max_bytes ?t = max_bytes s"
    using assms(1,2) get_ok get_limits by simp_all
  have "put q v n ?t = (Inr (1 \<le> n \<and> n \<le> max_bytes s), snd (put q v n ?t))"
    using put_result [OF t(1)] t(2) by (simp add: prod_eq_iff)
  then have r: "r = Inr v" "s' = snd (put q v n ?t)"
    using assms(3) None by (auto simp: get_or_compute_def split: prod.splits option.splits)
  have "fst (get_or_compute get put q other others' s') = Inr v" if "1 \<le> n" "n \<le> max_bytes s" for other others'
    using put_then_get [OF t(1), of n q v] that t(2)
    by (auto simp: r get_or_compute_def split: prod.splits option.splits)
  then show ?thesis using r None put_ok [OF t(1)] by simp
next
  case (Some w)
  then show ?thesis
    using assms(3) get_ok [OF assms(1), of q] by (auto simp: get_or_compute_def split: prod.splits option.splits)
qed

lemma put_evicts_oldest:
  assumes "ok s" and "1 \<le> w" and "w \<le> max_bytes s"
  shows "put_evicts entries key get put (max_entries s) (max_bytes s) s q v w"
proof -
  let ?d = "put_newest (key q) (v, w) (entries s)"
  have "AList.delete (key q) d = filter (\<lambda>e. fst e \<noteq> key q) d" for d :: "('k, 'v \<times> int) dict" by (induction d) auto
  then have new: "filter (\<lambda>e. fst e \<noteq> key q) (entries s) @ [(key q, (v, w))] = ?d" by (simp add: put_newest_def)
  have put: "put q v w s = (Inr True, snd (put q v w s))" using put_result [OF assms(1), of q v w] assms(2,3)
    by (simp add: prod_eq_iff)
  have e: "entries (snd (put q v w s)) = fitting (max_entries s) (max_bytes s) snd ?d"
    using put_entries [OF assms(1), of q v w] assms(2,3) by simp
  from fitting_evicts [of ?d "max_entries s" "max_bytes s" snd] put_then_get [OF assms, of q v]
  show ?thesis unfolding put_evicts_def new using put e by metis
qed

lemma history_summary:
  assumes "ok s0" and "history s0 s m used"
  shows "ok s \<and> int (length (entries s)) \<le> max_entries s0 \<and> asum snd (entries s) \<le> max_bytes s0
    \<and> map_of (entries s) \<subseteq>\<^sub>m m
    \<and> (\<exists>forgotten. remdups used = forgotten @ keys (entries s))
    \<and> (\<forall>q. fst (get q s) = map_option fst (map_of (entries s) (key q)))
    \<and> (\<forall>q v w. 1 \<le> w \<longrightarrow> w \<le> max_bytes s0 \<longrightarrow> put_evicts entries key get put (max_entries s0) (max_bytes s0) s q v w
         \<and> (fst (get q s) = None \<longrightarrow> (\<forall>other others. fst (get_or_compute get put q other others
              (snd (get_or_compute get put q (Inr (v, w)) (\<lambda>t. t) s))) = Inr v)))"
proof -
  note h = history_refines [OF assms]
  have "fst (get_or_compute get put q other others (snd (get_or_compute get put q (Inr (v, n)) (\<lambda>t. t) s))) = Inr v"
    if "fst (get q s) = None" "1 \<le> n" "n \<le> max_bytes s" for q v n other others
    using get_or_compute_caches [of s "\<lambda>t. t" q v n] h that by (auto simp: prod_eq_iff)
  moreover have "\<exists>forgotten. remdups used = forgotten @ keys (entries s)" using h by (auto simp: suffix_def)
  ultimately show ?thesis using h within [of s] put_evicts_oldest [of s] get_value [of s] by simp
qed

end

end
