(* ===== verification/EncoderCaches.thy ===== *)
theory EncoderCaches
  imports LruCache
begin

text \<open>
  \<open>vllm_apple/vision_cache.py\<close> and \<open>vllm_apple/audio_encoder_cache.py\<close>: the outputs of the encoders,
  kept by the digest of everything they depend on.  SHA-256 of the JSON text is \<open>digest\<close>.  Every
  method is one step under the cache's lock.  Cached values are not None: \<open>get\<close> says None for a miss.
\<close>

section \<open>Vision\<close>

record vision_key =
  vk_image_sha256 :: string
  vk_model_revision :: string
  vk_preprocessing_fingerprint :: string
  vk_encoder_fingerprint :: string

definition vision_key_init :: "vision_key \<Rightarrow> vision_key result" where
  "vision_key_init k =
     guard_ok (list_all is_digest [vk_image_sha256 k, vk_model_revision k, vk_preprocessing_fingerprint k,
         vk_encoder_fingerprint k])
       ''vision cache key fields must be SHA-256 digests'' k"

definition vision_digest :: "(json \<Rightarrow> string) \<Rightarrow> vision_key \<Rightarrow> string" where
  "vision_digest digest k = digest (JObj
     [(''encoder'', JStr (vk_encoder_fingerprint k)), (''image'', JStr (vk_image_sha256 k)),
      (''model'', JStr (vk_model_revision k)), (''preprocessing'', JStr (vk_preprocessing_fingerprint k))])"

record 'v vision_cache =
  vc_maximum_entries :: int
  vc_maximum_bytes :: int
  vc_entries :: "(string, 'v \<times> int) dict"
  vc_resident_bytes :: int
  vc_hits :: int
  vc_misses :: int
  vc_evictions :: int

definition new_vision_cache :: "int \<Rightarrow> int \<Rightarrow> 'v vision_cache result" where
  "new_vision_cache maximum_entries maximum_bytes =
     (if \<not> (1 \<le> maximum_entries \<and> maximum_entries \<le> 4096) \<or> \<not> (1 \<le> maximum_bytes \<and> maximum_bytes \<le> 2 ^ 40)
      then Inl (ValueError ''invalid vision encoder cache limits'')
      else Inr \<lparr>vc_maximum_entries = maximum_entries, vc_maximum_bytes = maximum_bytes, vc_entries = [],
                vc_resident_bytes = 0, vc_hits = 0, vc_misses = 0, vc_evictions = 0\<rparr>)"

definition vision_get :: "(json \<Rightarrow> string) \<Rightarrow> vision_key \<Rightarrow> 'v vision_cache \<Rightarrow> 'v option \<times> 'v vision_cache" where
  "vision_get digest k c =
     (case map_of (vc_entries c) (vision_digest digest k) of
        None \<Rightarrow> (None, c\<lparr>vc_misses := vc_misses c + 1\<rparr>)
      | Some (v, n) \<Rightarrow>
          (Some v, c\<lparr>vc_entries := move_to_end (vision_digest digest k) (vc_entries c), vc_hits := vc_hits c + 1\<rparr>))"

definition vision_put :: "(json \<Rightarrow> string) \<Rightarrow> vision_key \<Rightarrow> 'v \<Rightarrow> int \<Rightarrow> ('v vision_cache, bool) method" where
  "vision_put digest k v nbytes c =
     (if \<not> (1 \<le> nbytes \<and> nbytes \<le> vc_maximum_bytes c) then (Inr False, c)
      else
        let previous = (case map_of (vc_entries c) (vision_digest digest k) of None \<Rightarrow> 0 | Some (w, n) \<Rightarrow> n)
        in case lru_evict (vc_maximum_entries c) (vc_maximum_bytes c) snd
                  (put_newest (vision_digest digest k) (v, nbytes) (vc_entries c))
                  (vc_resident_bytes c - previous + nbytes) of
             (r, evicted, left, resident) \<Rightarrow>
               (map_sum id (\<lambda>_. vision_digest digest k \<in> set (keys left)) r,
                c\<lparr>vc_entries := left, vc_resident_bytes := resident,
                  vc_evictions := vc_evictions c + int (length evicted)\<rparr>))"

definition vision_get_or_compute ::
  "(json \<Rightarrow> string) \<Rightarrow> vision_key \<Rightarrow> ('v \<times> int) result \<Rightarrow> ('v vision_cache \<Rightarrow> 'v vision_cache)
    \<Rightarrow> ('v vision_cache, 'v) method" where
  "vision_get_or_compute digest = get_or_compute (vision_get digest) (vision_put digest)"

definition vision_clear :: "'v vision_cache \<Rightarrow> 'v vision_cache" where
  "vision_clear c = c\<lparr>vc_entries := [], vc_resident_bytes := 0\<rparr>"

record vision_stats =
  vt_entries :: int
  vt_resident_bytes :: int
  vt_hits :: int
  vt_misses :: int
  vt_evictions :: int

definition vision_stats_of :: "'v vision_cache \<Rightarrow> vision_stats" where
  "vision_stats_of c =
     \<lparr>vt_entries = int (length (vc_entries c)), vt_resident_bytes = vc_resident_bytes c, vt_hits = vc_hits c,
      vt_misses = vc_misses c, vt_evictions = vc_evictions c\<rparr>"

section \<open>Audio\<close>

record audio_key =
  ak_audio_sha256 :: string
  ak_encoder_fingerprint :: string
  ak_feature_fingerprint :: string
  ak_sample_rate :: int
  ak_channels :: int
  ak_start_sample :: int
  ak_end_sample :: int

definition audio_key_init :: "audio_key \<Rightarrow> audio_key result" where
  "audio_key_init k =
     (if \<not> list_all is_digest [ak_audio_sha256 k, ak_encoder_fingerprint k, ak_feature_fingerprint k]
         \<or> \<not> (1 \<le> ak_sample_rate k \<and> ak_sample_rate k \<le> 384000) \<or> \<not> (1 \<le> ak_channels k \<and> ak_channels k \<le> 32)
         \<or> ak_start_sample k < 0 \<or> ak_end_sample k \<le> ak_start_sample k
      then Inl (ValueError ''invalid audio encoder cache key'') else Inr k)"

definition audio_digest :: "(json \<Rightarrow> string) \<Rightarrow> audio_key \<Rightarrow> string" where
  "audio_digest digest k = digest (JObj
     [(''audio'', JStr (ak_audio_sha256 k)), (''channels'', JInt (ak_channels k)),
      (''encoder'', JStr (ak_encoder_fingerprint k)), (''end'', JInt (ak_end_sample k)),
      (''feature'', JStr (ak_feature_fingerprint k)), (''rate'', JInt (ak_sample_rate k)),
      (''start'', JInt (ak_start_sample k))])"

record 'v audio_cache =
  ac_maximum_entries :: int
  ac_maximum_bytes :: int
  ac_entries :: "(string, 'v \<times> int) dict"
  ac_resident_bytes :: int
  ac_hits :: int
  ac_misses :: int
  ac_evictions :: int
  ac_rejected_oversize :: int

definition new_audio_cache :: "int \<Rightarrow> int \<Rightarrow> 'v audio_cache result" where
  "new_audio_cache maximum_entries maximum_bytes =
     (if \<not> (1 \<le> maximum_entries \<and> maximum_entries \<le> 8192) \<or> \<not> (1 \<le> maximum_bytes \<and> maximum_bytes \<le> 2 ^ 40)
      then Inl (ValueError ''invalid audio encoder cache limits'')
      else Inr \<lparr>ac_maximum_entries = maximum_entries, ac_maximum_bytes = maximum_bytes, ac_entries = [],
                ac_resident_bytes = 0, ac_hits = 0, ac_misses = 0, ac_evictions = 0, ac_rejected_oversize = 0\<rparr>)"

definition audio_get :: "(json \<Rightarrow> string) \<Rightarrow> audio_key \<Rightarrow> 'v audio_cache \<Rightarrow> 'v option \<times> 'v audio_cache" where
  "audio_get digest k c =
     (case map_of (ac_entries c) (audio_digest digest k) of
        None \<Rightarrow> (None, c\<lparr>ac_misses := ac_misses c + 1\<rparr>)
      | Some (v, n) \<Rightarrow>
          (Some v, c\<lparr>ac_entries := move_to_end (audio_digest digest k) (ac_entries c), ac_hits := ac_hits c + 1\<rparr>))"

definition audio_put :: "(json \<Rightarrow> string) \<Rightarrow> audio_key \<Rightarrow> 'v \<Rightarrow> int \<Rightarrow> ('v audio_cache, bool) method" where
  "audio_put digest k v nbytes c =
     (if \<not> (1 \<le> nbytes \<and> nbytes \<le> ac_maximum_bytes c)
      then (Inr False, c\<lparr>ac_rejected_oversize := ac_rejected_oversize c + 1\<rparr>)
      else
        let previous = (case map_of (ac_entries c) (audio_digest digest k) of None \<Rightarrow> 0 | Some (w, n) \<Rightarrow> n)
        in case lru_evict (ac_maximum_entries c) (ac_maximum_bytes c) snd
                  (put_newest (audio_digest digest k) (v, nbytes) (ac_entries c))
                  (ac_resident_bytes c - previous + nbytes) of
             (r, evicted, left, resident) \<Rightarrow>
               (map_sum id (\<lambda>_. audio_digest digest k \<in> set (keys left)) r,
                c\<lparr>ac_entries := left, ac_resident_bytes := resident,
                  ac_evictions := ac_evictions c + int (length evicted)\<rparr>))"

definition audio_get_or_compute ::
  "(json \<Rightarrow> string) \<Rightarrow> audio_key \<Rightarrow> ('v \<times> int) result \<Rightarrow> ('v audio_cache \<Rightarrow> 'v audio_cache)
    \<Rightarrow> ('v audio_cache, 'v) method" where
  "audio_get_or_compute digest = get_or_compute (audio_get digest) (audio_put digest)"

definition audio_clear :: "'v audio_cache \<Rightarrow> 'v audio_cache" where
  "audio_clear c = c\<lparr>ac_entries := [], ac_resident_bytes := 0\<rparr>"

record audio_snapshot =
  at_entries :: int
  at_resident_bytes :: int
  at_hits :: int
  at_misses :: int
  at_evictions :: int
  at_rejected_oversize :: int

definition audio_snapshot_of :: "'v audio_cache \<Rightarrow> audio_snapshot" where
  "audio_snapshot_of c =
     \<lparr>at_entries = int (length (ac_entries c)), at_resident_bytes = ac_resident_bytes c, at_hits = ac_hits c,
      at_misses = ac_misses c, at_evictions = ac_evictions c, at_rejected_oversize = ac_rejected_oversize c\<rparr>"

definition audio_feature_fingerprint :: "(json \<Rightarrow> string) \<Rightarrow> int \<Rightarrow> int \<Rightarrow> int \<Rightarrow> int \<Rightarrow> string result" where
  "audio_feature_fingerprint digest model_rate frame_length hop_length feature_bands =
     (if list_ex (\<lambda>v. v \<le> 0) [model_rate, frame_length, hop_length, feature_bands]
      then Inl (ValueError ''invalid audio feature fingerprint input'')
      else Inr (digest (JList (map JInt [model_rate, frame_length, hop_length, feature_bands]))))"

section \<open>Both keep the contract\<close>

definition vision_ok :: "'v vision_cache \<Rightarrow> bool" where
  "vision_ok c \<longleftrightarrow> dict_ok (vc_entries c) \<and> 1 \<le> vc_maximum_entries c \<and> 1 \<le> vc_maximum_bytes c
     \<and> vc_resident_bytes c = asum snd (vc_entries c)
     \<and> int (length (vc_entries c)) \<le> vc_maximum_entries c \<and> vc_resident_bytes c \<le> vc_maximum_bytes c"

definition audio_ok :: "'v audio_cache \<Rightarrow> bool" where
  "audio_ok c \<longleftrightarrow> dict_ok (ac_entries c) \<and> 1 \<le> ac_maximum_entries c \<and> 1 \<le> ac_maximum_bytes c
     \<and> ac_resident_bytes c = asum snd (ac_entries c)
     \<and> int (length (ac_entries c)) \<le> ac_maximum_entries c \<and> ac_resident_bytes c \<le> ac_maximum_bytes c"

lemma new_vision_ok: "new_vision_cache n b = Inr c \<Longrightarrow> vision_ok c"
  by (auto simp: new_vision_cache_def vision_ok_def split: if_splits)

lemma new_audio_ok: "new_audio_cache n b = Inr c \<Longrightarrow> audio_ok c"
  by (auto simp: new_audio_cache_def audio_ok_def split: if_splits)

text \<open>The counter loop evicts exactly to the reference contents, and the new entry survives it.\<close>

lemma evict_after_put:
  assumes "dict_ok d" "1 \<le> n" "w \<le> b" "0 \<le> b"
  obtains evicted where
    "lru_evict n b snd (put_newest k (v, w) d) (asum snd d - (case map_of d k of None \<Rightarrow> 0 | Some (u, m) \<Rightarrow> m) + w)
      = (Inr (), evicted, fitting n b snd (put_newest k (v, w) d), asum snd (fitting n b snd (put_newest k (v, w) d)))"
    "k \<in> set (keys (fitting n b snd (put_newest k (v, w) d)))"
proof -
  have previous: "(case map_of d k of None \<Rightarrow> 0 | Some (u, m) \<Rightarrow> m) = (case map_of d k of None \<Rightarrow> 0 | Some p \<Rightarrow> snd p)"
    by (simp split: option.split)
  obtain evicted where e: "lru_evict n b snd (put_newest k (v, w) d)
      (asum snd d - (case map_of d k of None \<Rightarrow> 0 | Some (u, m) \<Rightarrow> m) + w)
      = (Inr (), evicted, fitting n b snd (put_newest k (v, w) d), asum snd (fitting n b snd (put_newest k (v, w) d)))"
    using lru_evict_fitting [of "asum snd d - (case map_of d k of None \<Rightarrow> 0 | Some (u, m) \<Rightarrow> m) + w" snd
        "put_newest k (v, w) d" n b] assms by (auto simp: asum_put_newest previous)
  obtain older where "fitting n b snd (put_newest k (v, w) d) = older @ [(k, (v, w))]"
    by (rule fitting_keeps_newest [of n snd "(v, w)" b k d]) (use assms(2,3) in simp_all)
  then have "k \<in> set (keys (fitting n b snd (put_newest k (v, w) d)))" by simp
  with e show ?thesis by (rule that)
qed

lemma vision_put_spec:
  assumes "vision_ok c"
  shows "fst (vision_put digest q v n c) = Inr (1 \<le> n \<and> n \<le> vc_maximum_bytes c)
    \<and> vision_ok (snd (vision_put digest q v n c))
    \<and> vc_maximum_entries (snd (vision_put digest q v n c)) = vc_maximum_entries c
    \<and> vc_maximum_bytes (snd (vision_put digest q v n c)) = vc_maximum_bytes c
    \<and> vc_entries (snd (vision_put digest q v n c)) =
      (if 1 \<le> n \<and> n \<le> vc_maximum_bytes c
       then fitting (vc_maximum_entries c) (vc_maximum_bytes c) snd
              (put_newest (vision_digest digest q) (v, n) (vc_entries c)) else vc_entries c)"
proof (cases "1 \<le> n \<and> n \<le> vc_maximum_bytes c")
  case True
  let ?new = "put_newest (vision_digest digest q) (v, n) (vc_entries c)"
  from assms True obtain evicted where e: "lru_evict (vc_maximum_entries c) (vc_maximum_bytes c) snd ?new
      (asum snd (vc_entries c) - (case map_of (vc_entries c) (vision_digest digest q) of None \<Rightarrow> 0 | Some (u, m) \<Rightarrow> m) + n)
      = (Inr (), evicted, fitting (vc_maximum_entries c) (vc_maximum_bytes c) snd ?new,
         asum snd (fitting (vc_maximum_entries c) (vc_maximum_bytes c) snd ?new))"
    and k: "vision_digest digest q \<in> set (keys (fitting (vc_maximum_entries c) (vc_maximum_bytes c) snd ?new))"
    by (auto simp: vision_ok_def elim: evict_after_put [of "vc_entries c" "vc_maximum_entries c" n
          "vc_maximum_bytes c" "vision_digest digest q" v])
  have "dict_ok (fitting (vc_maximum_entries c) (vc_maximum_bytes c) snd ?new)"
    using assms by (simp add: fitting_dict vision_ok_def)
  moreover note fitting_within [of "vc_maximum_entries c" "vc_maximum_bytes c" snd ?new]
  ultimately show ?thesis
    using True k assms by (simp add: vision_put_def e vision_ok_def)
qed (use assms in \<open>auto simp: vision_put_def\<close>)

lemma audio_put_spec:
  assumes "audio_ok c"
  shows "fst (audio_put digest q v n c) = Inr (1 \<le> n \<and> n \<le> ac_maximum_bytes c)
    \<and> audio_ok (snd (audio_put digest q v n c))
    \<and> ac_maximum_entries (snd (audio_put digest q v n c)) = ac_maximum_entries c
    \<and> ac_maximum_bytes (snd (audio_put digest q v n c)) = ac_maximum_bytes c
    \<and> ac_entries (snd (audio_put digest q v n c)) =
      (if 1 \<le> n \<and> n \<le> ac_maximum_bytes c
       then fitting (ac_maximum_entries c) (ac_maximum_bytes c) snd
              (put_newest (audio_digest digest q) (v, n) (ac_entries c)) else ac_entries c)"
proof (cases "1 \<le> n \<and> n \<le> ac_maximum_bytes c")
  case True
  let ?new = "put_newest (audio_digest digest q) (v, n) (ac_entries c)"
  from assms True obtain evicted where e: "lru_evict (ac_maximum_entries c) (ac_maximum_bytes c) snd ?new
      (asum snd (ac_entries c) - (case map_of (ac_entries c) (audio_digest digest q) of None \<Rightarrow> 0 | Some (u, m) \<Rightarrow> m) + n)
      = (Inr (), evicted, fitting (ac_maximum_entries c) (ac_maximum_bytes c) snd ?new,
         asum snd (fitting (ac_maximum_entries c) (ac_maximum_bytes c) snd ?new))"
    and k: "audio_digest digest q \<in> set (keys (fitting (ac_maximum_entries c) (ac_maximum_bytes c) snd ?new))"
    by (auto simp: audio_ok_def elim: evict_after_put [of "ac_entries c" "ac_maximum_entries c" n
          "ac_maximum_bytes c" "audio_digest digest q" v])
  have "dict_ok (fitting (ac_maximum_entries c) (ac_maximum_bytes c) snd ?new)"
    using assms by (simp add: fitting_dict audio_ok_def)
  moreover note fitting_within [of "ac_maximum_entries c" "ac_maximum_bytes c" snd ?new]
  ultimately show ?thesis
    using True k assms by (simp add: audio_put_def e audio_ok_def)
qed (use assms in \<open>auto simp: audio_put_def audio_ok_def\<close>)

lemma vision_get_spec:
  assumes "vision_ok c"
  shows "fst (vision_get digest q c) = map_option fst (map_of (vc_entries c) (vision_digest digest q))
    \<and> vc_entries (snd (vision_get digest q c)) = move_to_end (vision_digest digest q) (vc_entries c)
    \<and> vision_ok (snd (vision_get digest q c))
    \<and> vc_maximum_entries (snd (vision_get digest q c)) = vc_maximum_entries c
    \<and> vc_maximum_bytes (snd (vision_get digest q c)) = vc_maximum_bytes c"
  using assms
  by (cases "map_of (vc_entries c) (vision_digest digest q)")
    (auto simp: vision_get_def vision_ok_def move_to_end_None)

lemma vision_clear_spec:
  "vision_ok c \<Longrightarrow> vc_entries (vision_clear c) = [] \<and> vision_ok (vision_clear c)
    \<and> vc_maximum_entries (vision_clear c) = vc_maximum_entries c \<and> vc_maximum_bytes (vision_clear c) = vc_maximum_bytes c"
  by (simp add: vision_clear_def vision_ok_def)

lemma audio_clear_spec:
  "audio_ok c \<Longrightarrow> ac_entries (audio_clear c) = [] \<and> audio_ok (audio_clear c)
    \<and> ac_maximum_entries (audio_clear c) = ac_maximum_entries c \<and> ac_maximum_bytes (audio_clear c) = ac_maximum_bytes c"
  by (simp add: audio_clear_def audio_ok_def)

lemma audio_get_spec:
  assumes "audio_ok c"
  shows "fst (audio_get digest q c) = map_option fst (map_of (ac_entries c) (audio_digest digest q))
    \<and> ac_entries (snd (audio_get digest q c)) = move_to_end (audio_digest digest q) (ac_entries c)
    \<and> audio_ok (snd (audio_get digest q c))
    \<and> ac_maximum_entries (snd (audio_get digest q c)) = ac_maximum_entries c
    \<and> ac_maximum_bytes (snd (audio_get digest q c)) = ac_maximum_bytes c"
  using assms
  by (cases "map_of (ac_entries c) (audio_digest digest q)")
    (auto simp: audio_get_def audio_ok_def move_to_end_None)

interpretation vision: lru_store vc_entries "vision_digest digest" "vision_get digest" "vision_put digest" vision_clear
  vc_maximum_entries vc_maximum_bytes vision_ok for digest
by unfold_locales (simp_all add: vision_get_spec vision_put_spec vision_clear_spec, simp_all add: vision_ok_def)

interpretation audio: lru_store ac_entries "audio_digest digest" "audio_get digest" "audio_put digest" audio_clear
  ac_maximum_entries ac_maximum_bytes audio_ok for digest
by unfold_locales (simp_all add: audio_get_spec audio_put_spec audio_clear_spec, simp_all add: audio_ok_def)

section \<open>Properties\<close>

text \<open>C18: the encoder caches are least-recently-used caches within their limits.  Starting from a new cache,
  after any calls of \<open>get\<close>, \<open>put\<close> and \<open>clear\<close>, the cached digests are the most recently used ones since
  the last \<open>clear\<close>, in the order of their last use, where a lookup that finds its digest and a \<open>put\<close> that stores
  are the uses; whatever is cached under a digest is the last value stored under it and is what a lookup answers; the byte
  counter is exact and both limits hold.  Storing a value of an admissible size always succeeds; besides its own old entry it
  evicts the least recently used entries, no more of them than the limits demand, and the next lookup finds it; and a
  value computed on a miss is computed once.\<close>

theorem encoder_caches_are_lru:
  assumes "new_vision_cache n b = Inr c" and "vision.history digest c s m used"
    and "new_audio_cache n' b' = Inr c'" and "audio.history digest c' s' m' used'"
  shows "(vc_resident_bytes s = asum snd (vc_entries s) \<and> int (length (vc_entries s)) \<le> n \<and> vc_resident_bytes s \<le> b
      \<and> map_of (vc_entries s) \<subseteq>\<^sub>m m \<and> (\<exists>forgotten. remdups used = forgotten @ keys (vc_entries s))
      \<and> (\<forall>q. fst (vision_get digest q s) = map_option fst (map_of (vc_entries s) (vision_digest digest q)))
      \<and> (\<forall>q v w. 1 \<le> w \<longrightarrow> w \<le> b \<longrightarrow>
           put_evicts vc_entries (vision_digest digest) (vision_get digest) (vision_put digest) n b s q v w
           \<and> (fst (vision_get digest q s) = None \<longrightarrow> (\<forall>other others.
                fst (vision_get_or_compute digest q other others
                  (snd (vision_get_or_compute digest q (Inr (v, w)) (\<lambda>t. t) s))) = Inr v))))
    \<and> (ac_resident_bytes s' = asum snd (ac_entries s') \<and> int (length (ac_entries s')) \<le> n' \<and> ac_resident_bytes s' \<le> b'
      \<and> map_of (ac_entries s') \<subseteq>\<^sub>m m' \<and> (\<exists>forgotten. remdups used' = forgotten @ keys (ac_entries s'))
      \<and> (\<forall>q. fst (audio_get digest q s') = map_option fst (map_of (ac_entries s') (audio_digest digest q)))
      \<and> (\<forall>q v w. 1 \<le> w \<longrightarrow> w \<le> b' \<longrightarrow>
           put_evicts ac_entries (audio_digest digest) (audio_get digest) (audio_put digest) n' b' s' q v w
           \<and> (fst (audio_get digest q s') = None \<longrightarrow> (\<forall>other others.
                fst (audio_get_or_compute digest q other others
                  (snd (audio_get_or_compute digest q (Inr (v, w)) (\<lambda>t. t) s'))) = Inr v))))"
proof -
  have limits: "vision_ok c" "vc_maximum_entries c = n" "vc_maximum_bytes c = b"
      "audio_ok c'" "ac_maximum_entries c' = n'" "ac_maximum_bytes c' = b'"
    using assms(1,3) by (auto simp: new_vision_ok new_audio_ok)
      (auto simp: new_vision_cache_def new_audio_cache_def split: if_splits)
  have exact: "vc_resident_bytes s = asum snd (vc_entries s)" "ac_resident_bytes s' = asum snd (ac_entries s')"
    using vision.history_summary [OF limits(1) assms(2)] audio.history_summary [OF limits(4) assms(4)]
    by (simp_all add: vision_ok_def audio_ok_def)
  show ?thesis
    using vision.history_summary [OF limits(1) assms(2)] audio.history_summary [OF limits(4) assms(4)]
    unfolding exact limits vision_get_or_compute_def audio_get_or_compute_def by simp
qed

text \<open>A cache of six bytes holds two values of three.  The first is looked up again, so the third value evicts the
  second; a cache that forgets lookups would evict the first.\<close>

fun example_encoder_digest :: "json \<Rightarrow> string" where
  "example_encoder_digest (JObj ((name, JStr x) # others)) = x"
| "example_encoder_digest _ = []"

definition example_vision_key :: "string \<Rightarrow> vision_key" where
  "example_vision_key x = \<lparr>vk_image_sha256 = x, vk_model_revision = x, vk_preprocessing_fingerprint = x,
     vk_encoder_fingerprint = x\<rparr>"

definition example_audio_key :: "string \<Rightarrow> audio_key" where
  "example_audio_key x = \<lparr>ak_audio_sha256 = x, ak_encoder_fingerprint = x, ak_feature_fingerprint = x,
     ak_sample_rate = 16000, ak_channels = 1, ak_start_sample = 0, ak_end_sample = 160\<rparr>"

definition example_vision_cache :: "(string, nat \<times> int) dict \<Rightarrow> int \<Rightarrow> int \<Rightarrow> int \<Rightarrow> nat vision_cache" where
  "example_vision_cache d resident hits evictions = \<lparr>vc_maximum_entries = 8, vc_maximum_bytes = 6, vc_entries = d,
     vc_resident_bytes = resident, vc_hits = hits, vc_misses = 0, vc_evictions = evictions\<rparr>"

definition example_audio_cache :: "(string, nat \<times> int) dict \<Rightarrow> int \<Rightarrow> int \<Rightarrow> nat audio_cache" where
  "example_audio_cache d resident misses = \<lparr>ac_maximum_entries = 8, ac_maximum_bytes = 5, ac_entries = d,
     ac_resident_bytes = resident, ac_hits = 0, ac_misses = misses, ac_evictions = 0, ac_rejected_oversize = 0\<rparr>"

lemmas example_encoder_simps = example_vision_key_def example_audio_key_def example_vision_cache_def
  example_audio_cache_def vision_digest_def audio_digest_def vision_put_def vision_get_def audio_put_def audio_get_def
  put_newest_def move_to_end_def

lemma example_vision_history:
  "vision.history example_encoder_digest (example_vision_cache [] 0 0 0)
     (example_vision_cache [(''a'', (11, 3)), (''c'', (13, 3))] 6 1 1)
     [''a'' \<mapsto> (11, 3), ''b'' \<mapsto> (12, 3), ''c'' \<mapsto> (13, 3)] [''a'', ''b'', ''a'', ''c'']"
proof -
  let ?d = "example_encoder_digest" and ?k = example_vision_key and ?c = example_vision_cache
  have calls: "vision_put ?d (?k ''a'') 11 3 (?c [] 0 0 0) = (Inr True, ?c [(''a'', (11, 3))] 3 0 0)"
    "vision_put ?d (?k ''b'') 12 3 (?c [(''a'', (11, 3))] 3 0 0) = (Inr True, ?c [(''a'', (11, 3)), (''b'', (12, 3))] 6 0 0)"
    "vision_get ?d (?k ''a'') (?c [(''a'', (11, 3)), (''b'', (12, 3))] 6 0 0)
      = (Some 11, ?c [(''b'', (12, 3)), (''a'', (11, 3))] 6 1 0)"
    "vision_put ?d (?k ''c'') 13 3 (?c [(''b'', (12, 3)), (''a'', (11, 3))] 6 1 0)
      = (Inr True, ?c [(''a'', (11, 3)), (''c'', (13, 3))] 6 1 1)"
    by (simp_all add: example_encoder_simps)
  have "vision.history ?d (?c [] 0 0 0) (?c [] 0 0 0) Map.empty []"
    by (rule vision.history.fresh) (simp add: example_vision_cache_def)
  from vision.history.stored [OF vision.history.got [OF vision.history.stored [OF vision.history.stored [OF this calls(1)]
      calls(2)] calls(3)] calls(4)]
  show ?thesis by (simp add: example_vision_key_def vision_digest_def)
qed

lemma example_audio_history:
  "audio.history example_encoder_digest (example_audio_cache [] 0 0) (example_audio_cache [] 0 1) Map.empty []"
proof -
  have "audio.history example_encoder_digest (example_audio_cache [] 0 0) (example_audio_cache [] 0 0) Map.empty []"
    by (rule audio.history.fresh) (simp add: example_audio_cache_def)
  moreover have "audio_get example_encoder_digest (example_audio_key ''a'') (example_audio_cache [] 0 0)
      = (None, example_audio_cache [] 0 1)"
    by (simp add: example_encoder_simps)
  ultimately show ?thesis by (rule audio.history.missed)
qed

theorem encoder_caches_are_lru_witness:
  "fst (vision_get example_encoder_digest (example_vision_key ''a'')
       (example_vision_cache [(''a'', (11, 3)), (''c'', (13, 3))] 6 1 1)) = Some 11
   \<and> put_evicts vc_entries (vision_digest example_encoder_digest) (vision_get example_encoder_digest)
       (vision_put example_encoder_digest) 8 6 (example_vision_cache [(''a'', (11, 3)), (''c'', (13, 3))] 6 1 1)
       (example_vision_key ''d'') 14 4
   \<and> (\<exists>forgotten. remdups [''a'', ''b'', ''a'', ''c''] = forgotten @ [''a'', ''c''])
   \<and> fst (audio_get example_encoder_digest (example_audio_key ''c'') (example_audio_cache [] 0 1)) = None"
proof -
  have "new_vision_cache 8 6 = Inr (example_vision_cache [] 0 0 0)" "new_audio_cache 8 5 = Inr (example_audio_cache [] 0 0)"
    by (simp_all add: new_vision_cache_def new_audio_cache_def example_vision_cache_def example_audio_cache_def)
  note all = encoder_caches_are_lru [OF this(1) example_vision_history this(2) example_audio_history]
  have "keys (vc_entries (example_vision_cache [(''a'', (11, 3)), (''c'', (13, 3))] 6 1 1)) = [''a'', ''c'']"
    "map_of (vc_entries (example_vision_cache [(''a'', (11, 3)), (''c'', (13, 3))] 6 1 1))
       (vision_digest example_encoder_digest (example_vision_key ''a'')) = Some (11, 3)"
    "map_of (ac_entries (example_audio_cache [] 0 1)) (audio_digest example_encoder_digest (example_audio_key ''c'')) = None"
    by (simp_all add: example_encoder_simps)
  with all show ?thesis by (auto simp del: remdups.simps)
qed

end
