(* ===== verification/TokenCache.thy ===== *)
theory TokenCache
  imports LruCache
begin

text \<open>
  \<open>vllm_apple/token_count_cache.py\<close>: the least-recently-used cache of token counts with an age limit, and
  the single-flight table that lets the first request for a fingerprint n while the others wait.
  Every locked section is one step; the clock's readings are arguments.  The flight states are objects
  with an identity, so they live in a store, and a flight holds the address of its state.
\<close>

section \<open>The cache\<close>

record token_cache =
  tc_capacity :: int
  tc_ttl_seconds :: rat
  tc_entries :: "(string, int \<times> rat) dict"
  tc_hits :: int
  tc_misses :: int
  tc_evictions :: int
  tc_expirations :: int

definition new_token_cache :: "int \<Rightarrow> rat \<Rightarrow> token_cache result" where
  "new_token_cache capacity ttl =
     (if capacity \<le> 0 \<or> ttl \<le> 0 then Inl (ValueError ''token count cache limits must be positive'')
      else Inr \<lparr>tc_capacity = capacity, tc_ttl_seconds = ttl, tc_entries = [], tc_hits = 0, tc_misses = 0,
                tc_evictions = 0, tc_expirations = 0\<rparr>)"

definition token_get :: "string \<Rightarrow> rat \<Rightarrow> token_cache \<Rightarrow> int option \<times> token_cache" where
  "token_get f now c =
     (case map_of (tc_entries c) f of
        None \<Rightarrow> (None, c\<lparr>tc_misses := tc_misses c + 1\<rparr>)
      | Some (n, created_at) \<Rightarrow>
          if tc_ttl_seconds c \<le> now - created_at
          then (None, c\<lparr>tc_entries := AList.delete f (tc_entries c), tc_misses := tc_misses c + 1,
                        tc_expirations := tc_expirations c + 1\<rparr>)
          else (Some n, c\<lparr>tc_entries := move_to_end f (tc_entries c), tc_hits := tc_hits c + 1\<rparr>))"

definition token_put :: "string \<Rightarrow> int \<Rightarrow> rat \<Rightarrow> (token_cache, unit) method" where
  "token_put f n now c =
     (if f = [] \<or> n < 0 then (Inl (ValueError ''invalid token count cache entry''), c)
      else (case lru_evict (tc_capacity c) 0 (\<lambda>e. 0) (put_newest f (n, now) (tc_entries c)) 0 of
              (r, evicted, left, counter) \<Rightarrow>
                (r, c\<lparr>tc_entries := left, tc_evictions := tc_evictions c + int (length evicted)\<rparr>)))"

record token_cache_snapshot =
  ts_capacity :: int
  ts_entries :: int
  ts_hits :: int
  ts_misses :: int
  ts_evictions :: int
  ts_expirations :: int

definition token_cache_snapshot_of :: "token_cache \<Rightarrow> token_cache_snapshot" where
  "token_cache_snapshot_of c =
     \<lparr>ts_capacity = tc_capacity c, ts_entries = int (length (tc_entries c)), ts_hits = tc_hits c,
      ts_misses = tc_misses c, ts_evictions = tc_evictions c, ts_expirations = tc_expirations c\<rparr>"

definition token_cache_ok :: "token_cache \<Rightarrow> bool" where
  "token_cache_ok c \<longleftrightarrow> dict_ok (tc_entries c) \<and> 1 \<le> tc_capacity c \<and> int (length (tc_entries c)) \<le> tc_capacity c"

text \<open>Calls in any order, with the last count put for each fingerprint and when.\<close>

inductive token_history :: "token_cache \<Rightarrow> token_cache \<Rightarrow> (string \<Rightarrow> (int \<times> rat) option) \<Rightarrow> bool" for c0 where
  empty: "token_history c0 c0 Map.empty"
| looked_up: "token_history c0 c m \<Longrightarrow> token_history c0 (snd (token_get f now c)) m"
| counted: "token_history c0 c m \<Longrightarrow> fst (token_put f n now c) = Inr () \<Longrightarrow>
    token_history c0 (snd (token_put f n now c)) (m(f \<mapsto> (n, now)))"

lemma zero_weight [simp]: "asum (\<lambda>e. 0::int) d = 0"
  by (induction d) auto

lemma token_put_spec:
  assumes "token_cache_ok c"
  shows "fst (token_put f n now c) =
      (if f = [] \<or> n < 0 then Inl (ValueError ''invalid token count cache entry'') else Inr ())
    \<and> tc_entries (snd (token_put f n now c)) =
      (if f = [] \<or> n < 0 then tc_entries c
       else fitting (tc_capacity c) 0 (\<lambda>e. 0) (put_newest f (n, now) (tc_entries c)))
    \<and> token_cache_ok (snd (token_put f n now c))
    \<and> tc_capacity (snd (token_put f n now c)) = tc_capacity c
    \<and> tc_ttl_seconds (snd (token_put f n now c)) = tc_ttl_seconds c"
proof (cases "f = [] \<or> n < 0")
  case False
  let ?new = "put_newest f (n, now) (tc_entries c)"
  obtain evicted where e: "lru_evict (tc_capacity c) 0 (\<lambda>e. 0) ?new 0 = (Inr (), evicted, fitting (tc_capacity c) 0 (\<lambda>e. 0) ?new, 0)"
    using lru_evict_fitting [of 0 "\<lambda>e. 0" ?new "tc_capacity c" 0] assms by (auto simp: token_cache_ok_def)
  have "dict_ok (fitting (tc_capacity c) 0 (\<lambda>e. 0) ?new)"
    using assms by (simp add: fitting_dict token_cache_ok_def)
  then show ?thesis
    using False assms fitting_within [of "tc_capacity c" 0 "\<lambda>e. 0" ?new]
    by (simp add: token_put_def e token_cache_ok_def)
qed (use assms in \<open>simp add: token_put_def\<close>)

lemma token_put_stored:
  assumes "token_cache_ok c" and "f \<noteq> []" and "0 \<le> n"
  shows "map_of (tc_entries (snd (token_put f n now c))) f = Some (n, now)"
proof -
  obtain older where "fitting (tc_capacity c) 0 (\<lambda>e. 0) (put_newest f (n, now) (tc_entries c)) = older @ [(f, (n, now))]"
    by (rule fitting_keeps_newest [of "tc_capacity c" "\<lambda>e. 0" "(n, now)" 0 f "tc_entries c"])
      (use assms(1) in \<open>simp_all add: token_cache_ok_def\<close>)
  moreover have "dict_ok (tc_entries (snd (token_put f n now c)))"
    using token_put_spec [OF assms(1), of f n now] unfolding token_cache_ok_def by blast
  ultimately show ?thesis using token_put_spec [OF assms(1), of f n now] assms(2,3)
    by (simp add: map_of_eq_dict del: map_of_append)
qed

lemma token_get_ok:
  assumes "token_cache_ok c"
  shows "token_cache_ok (snd (token_get f now c)) \<and> tc_capacity (snd (token_get f now c)) = tc_capacity c
    \<and> tc_ttl_seconds (snd (token_get f now c)) = tc_ttl_seconds c
    \<and> map_of (tc_entries (snd (token_get f now c))) \<subseteq>\<^sub>m map_of (tc_entries c)"
  using assms length_delete_le [of f "tc_entries c"]
  by (auto simp: token_get_def token_cache_ok_def dict_ok_delete map_le_def delete_conv' split: option.splits)

lemma token_history_refines:
  assumes "token_cache_ok c0" and "tc_entries c0 = []" and "token_history c0 c m"
  shows "token_cache_ok c \<and> tc_capacity c = tc_capacity c0 \<and> tc_ttl_seconds c = tc_ttl_seconds c0
    \<and> map_of (tc_entries c) \<subseteq>\<^sub>m m"
  using assms(3)
proof induction
  case (looked_up c m f now)
  then show ?case using token_get_ok [of c f now] map_le_trans by auto
next
  case (counted c m f n now)
  note spec = token_put_spec [of c f n now]
  have "map_of (tc_entries (snd (token_put f n now c))) \<subseteq>\<^sub>m map_of (put_newest f (n, now) (tc_entries c))"
    using suffix_map_le [OF fitting_suffix, of "put_newest f (n, now) (tc_entries c)"] counted spec
    by (simp add: token_cache_ok_def split: if_splits)
  also have "\<dots> \<subseteq>\<^sub>m m(f \<mapsto> (n, now))" using counted.IH counted.hyps(2) spec by (simp add: map_le_def token_cache_ok_def)
  finally show ?case using spec counted.IH by (simp del: fun_upd_apply)
qed (use assms(1,2) in simp)

text \<open>The token count cache never serves a wrong or an expired count.  After any calls on a new cache,
  a lookup answers with a count only if it is the last count put for the fingerprint and is younger than
  the age limit; a count just put is found as long as it is; and the number of entries never exceeds the
  capacity.\<close>
theorem token_counts_are_current:
  assumes "new_token_cache capacity ttl = Inr c0" and "token_history c0 c m"
  shows "int (length (tc_entries c)) \<le> capacity
    \<and> (\<forall>f now. case fst (token_get f now c) of None \<Rightarrow> True
         | Some n \<Rightarrow> (\<exists>t. m f = Some (n, t) \<and> now - t < ttl))
    \<and> (\<forall>f n now later. f \<noteq> [] \<longrightarrow> 0 \<le> n \<longrightarrow>
         fst (token_get f later (snd (token_put f n now c))) = (if later - now < ttl then Some n else None))"
proof -
  have c0: "token_cache_ok c0" "tc_entries c0 = []" "tc_capacity c0 = capacity" "tc_ttl_seconds c0 = ttl"
    using assms(1) by (auto simp: new_token_cache_def token_cache_ok_def split: if_splits)
  have c: "token_cache_ok c" "tc_capacity c = capacity" "tc_ttl_seconds c = ttl" "map_of (tc_entries c) \<subseteq>\<^sub>m m"
    using token_history_refines [OF c0(1,2) assms(2)] c0 by auto
  have "case fst (token_get f now c) of None \<Rightarrow> True | Some n \<Rightarrow> (\<exists>t. m f = Some (n, t) \<and> now - t < ttl)" for f now
    using c(3,4) by (auto simp: token_get_def map_le_def dom_def split: option.splits)
  moreover have "fst (token_get f later (snd (token_put f n now c))) = (if later - now < ttl then Some n else None)"
    if "f \<noteq> []" "0 \<le> n" for f n now later
  proof -
    have "tc_ttl_seconds (snd (token_put f n now c)) = ttl" using token_put_spec [OF c(1), of f n now] c(3) by blast
    then show ?thesis by (auto simp: token_get_def token_put_stored [OF c(1) that])
  qed
  ultimately show ?thesis using c(1,2) by (simp add: token_cache_ok_def)
qed

definition example_token_cache :: token_cache where
  "example_token_cache = \<lparr>tc_capacity = 1, tc_ttl_seconds = 5, tc_entries = [], tc_hits = 0, tc_misses = 0,
     tc_evictions = 0, tc_expirations = 0\<rparr>"

theorem token_counts_are_current_witness:
  "fst (token_get ''g'' 3 (snd (token_put ''g'' 9 1 (snd (token_put ''f'' 7 0 example_token_cache))))) = Some 9
   \<and> fst (token_get ''g'' 6 (snd (token_put ''g'' 9 1 (snd (token_put ''f'' 7 0 example_token_cache))))) = None"
proof -
  have "token_history example_token_cache (snd (token_put ''f'' 7 0 example_token_cache)) [''f'' \<mapsto> (7, 0)]"
    using token_history.counted [OF token_history.empty, of "''f''" 7 0 example_token_cache]
    by (simp add: token_put_def example_token_cache_def put_newest_def)
  moreover have "new_token_cache 1 5 = Inr example_token_cache"
    by (simp add: new_token_cache_def example_token_cache_def)
  ultimately show ?thesis using token_counts_are_current by simp
qed

section \<open>Single flight\<close>

record flight_state =
  fs_set :: bool
  fs_result :: "int option"

record token_flight =
  fl_fingerprint :: string
  fl_leader :: bool
  fl_state :: "nat option"

record single_flight =
  sf_capacity :: int
  sf_entries :: "(string, nat) dict"
  sf_states :: "nat \<Rightarrow> flight_state"
  sf_next :: nat
  sf_leaders :: int
  sf_followers :: int
  sf_bypasses :: int
  sf_timeouts :: int

definition new_single_flight :: "int \<Rightarrow> single_flight result" where
  "new_single_flight capacity =
     (if capacity \<le> 0 then Inl (ValueError ''single-flight capacity must be positive'')
      else Inr \<lparr>sf_capacity = capacity, sf_entries = [], sf_states = (\<lambda>i. \<lparr>fs_set = False, fs_result = None\<rparr>),
                sf_next = 0, sf_leaders = 0, sf_followers = 0, sf_bypasses = 0, sf_timeouts = 0\<rparr>)"

definition join_flight :: "string \<Rightarrow> (single_flight, token_flight) method" where
  "join_flight f s =
     (if f = [] then (Inl (ValueError ''single-flight fingerprint cannot be empty''), s)
      else (case map_of (sf_entries s) f of
        Some i \<Rightarrow> (Inr \<lparr>fl_fingerprint = f, fl_leader = False, fl_state = Some i\<rparr>,
                   s\<lparr>sf_followers := sf_followers s + 1\<rparr>)
      | None \<Rightarrow>
          if sf_capacity s \<le> int (length (sf_entries s))
          then (Inr \<lparr>fl_fingerprint = f, fl_leader = True, fl_state = None\<rparr>, s\<lparr>sf_bypasses := sf_bypasses s + 1\<rparr>)
          else (Inr \<lparr>fl_fingerprint = f, fl_leader = True, fl_state = Some (sf_next s)\<rparr>,
                s\<lparr>sf_states := (sf_states s)(sf_next s := \<lparr>fs_set = False, fs_result = None\<rparr>),
                  sf_next := sf_next s + 1,
                  sf_entries := AList.update f (sf_next s) (sf_entries s),
                  sf_leaders := sf_leaders s + 1\<rparr>)))"

text \<open>While a follower waits the other threads run (\<open>others\<close>); \<open>Event.wait\<close> tells whether the event is
  set in the end.\<close>

definition wait_flight ::
  "token_flight \<Rightarrow> rat \<Rightarrow> (single_flight \<Rightarrow> single_flight) \<Rightarrow> (single_flight, int option) method" where
  "wait_flight fl timeout others s =
     (case fl_state fl of
        None \<Rightarrow> (Inl (ValueError ''invalid single-flight follower wait''), s)
      | Some i \<Rightarrow>
          if fl_leader fl \<or> timeout \<le> 0 then (Inl (ValueError ''invalid single-flight follower wait''), s)
          else
            let s' = others s
            in if \<not> fs_set (sf_states s' i) then (Inr None, s'\<lparr>sf_timeouts := sf_timeouts s' + 1\<rparr>)
               else (Inr (fs_result (sf_states s' i)), s'))"

definition complete_flight :: "token_flight \<Rightarrow> int option \<Rightarrow> (single_flight, unit) method" where
  "complete_flight fl result s =
     (if \<not> fl_leader fl then (Inl (ValueError ''only a single-flight leader can complete work''), s)
      else (case fl_state fl of
        None \<Rightarrow> (Inr (), s)
      | Some i \<Rightarrow>
          if map_of (sf_entries s) (fl_fingerprint fl) \<noteq> Some i then (Inr (), s)
          else (Inr (), s\<lparr>sf_states := (sf_states s)(i := \<lparr>fs_set = True, fs_result = result\<rparr>),
                         sf_entries := AList.delete (fl_fingerprint fl) (sf_entries s)\<rparr>)))"

record single_flight_snapshot =
  ss_capacity :: int
  ss_active :: int
  ss_leaders :: int
  ss_followers :: int
  ss_bypasses :: int
  ss_timeouts :: int

definition single_flight_snapshot_of :: "single_flight \<Rightarrow> single_flight_snapshot" where
  "single_flight_snapshot_of s =
     \<lparr>ss_capacity = sf_capacity s, ss_active = int (length (sf_entries s)), ss_leaders = sf_leaders s,
      ss_followers = sf_followers s, ss_bypasses = sf_bypasses s, ss_timeouts = sf_timeouts s\<rparr>"

text \<open>One call of any thread; a flight handed to \<open>complete\<close> or \<open>wait\<close> is arbitrary.\<close>

inductive flight_step :: "single_flight \<Rightarrow> single_flight \<Rightarrow> bool" where
  joins: "flight_step s (snd (join_flight f s))"
| completes: "flight_step s (snd (complete_flight fl r s))"
| waits: "flight_step s (snd (wait_flight fl timeout (\<lambda>t. t) s))"

abbreviation flight_steps :: "single_flight \<Rightarrow> single_flight \<Rightarrow> bool" where
  "flight_steps \<equiv> flight_step\<^sup>*\<^sup>*"

text \<open>A live entry's event is not set; an event that is set keeps its result.\<close>

definition single_flight_ok :: "single_flight \<Rightarrow> bool" where
  "single_flight_ok s \<longleftrightarrow> dict_ok (sf_entries s) \<and> distinct (map snd (sf_entries s))
     \<and> int (length (sf_entries s)) \<le> sf_capacity s
     \<and> (\<forall>(f, i)\<in>set (sf_entries s). i < sf_next s \<and> \<not> fs_set (sf_states s i))"

definition keeps_results :: "single_flight \<Rightarrow> single_flight \<Rightarrow> bool" where
  "keeps_results s s' \<longleftrightarrow> sf_capacity s' = sf_capacity s \<and> sf_next s \<le> sf_next s'
     \<and> (\<forall>i<sf_next s. fs_set (sf_states s i) \<longrightarrow> sf_states s' i = sf_states s i)"

lemma keeps_results_refl [simp]: "keeps_results s s"
  by (simp add: keeps_results_def)

lemma keeps_results_trans: "keeps_results s t \<Longrightarrow> keeps_results t u \<Longrightarrow> keeps_results s u"
  by (auto simp: keeps_results_def)

lemma new_single_flight_ok: "new_single_flight n = Inr s \<Longrightarrow> single_flight_ok s"
  by (auto simp: new_single_flight_def single_flight_ok_def split: if_splits)

lemma join_flight_ok:
  assumes "single_flight_ok s"
  shows "single_flight_ok (snd (join_flight f s)) \<and> keeps_results s (snd (join_flight f s))"
proof -
  have "sf_next s \<notin> snd ` set (sf_entries s)" using assms by (auto simp: single_flight_ok_def)
  moreover have "f \<notin> fst ` set (sf_entries s)" if "map_of (sf_entries s) f = None"
    using that by (simp add: map_of_eq_None_iff)
  ultimately show ?thesis
    using assms by (auto simp: join_flight_def single_flight_ok_def keeps_results_def update_fresh split: option.splits)
qed

lemma complete_flight_ok:
  assumes "single_flight_ok s"
  shows "single_flight_ok (snd (complete_flight fl r s)) \<and> keeps_results s (snd (complete_flight fl r s))"
proof (cases "fl_leader fl \<and> (\<exists>i. fl_state fl = Some i \<and> map_of (sf_entries s) (fl_fingerprint fl) = Some i)")
  case True
  then obtain i where i: "fl_state fl = Some i" "map_of (sf_entries s) (fl_fingerprint fl) = Some i" "fl_leader fl" by auto
  have inj: "j \<noteq> i" if "(f, j) \<in> set (sf_entries s)" "f \<noteq> fl_fingerprint fl" for f j
    using that assms map_of_SomeD [OF i(2)] inj_onD [of snd "set (sf_entries s)" "(f, j)" "(fl_fingerprint fl, i)"]
    by (auto simp: single_flight_ok_def distinct_map)
  then show ?thesis
    using assms i map_of_SomeD [OF i(2)] length_delete_le [of "fl_fingerprint fl" "sf_entries s"]
    by (auto simp: complete_flight_def single_flight_ok_def keeps_results_def set_delete dict_ok_delete distinct_map_delete)
qed (use assms in \<open>auto simp: complete_flight_def split: option.splits\<close>)

lemma wait_flight_ok:
  "single_flight_ok s \<Longrightarrow> single_flight_ok (snd (wait_flight fl timeout (\<lambda>t. t) s))
    \<and> keeps_results s (snd (wait_flight fl timeout (\<lambda>t. t) s))"
  by (auto simp: wait_flight_def Let_def single_flight_ok_def keeps_results_def split: option.splits)

lemma flight_steps_ok:
  "flight_steps s t \<Longrightarrow> single_flight_ok s \<Longrightarrow> single_flight_ok t \<and> keeps_results s t"
proof (induction rule: rtranclp_induct)
  case (step t u)
  from step.hyps(2) have "single_flight_ok u \<and> keeps_results t u"
    using step.IH step.prems
    by (cases rule: flight_step.cases) (simp_all add: join_flight_ok complete_flight_ok wait_flight_ok)
  then show ?case using step.IH step.prems keeps_results_trans by blast
qed simp

lemma completed_result:
  assumes "single_flight_ok s" and "fl_leader fl" and "fl_state fl = Some i"
    and "map_of (sf_entries s) (fl_fingerprint fl) = Some i" and "flight_steps (snd (complete_flight fl r s)) t"
  shows "sf_states t i = \<lparr>fs_set = True, fs_result = r\<rparr>"
proof -
  let ?s = "snd (complete_flight fl r s)"
  have "single_flight_ok ?s" "i < sf_next s"
    using assms(1) complete_flight_ok map_of_SomeD [OF assms(4)] by (auto simp: single_flight_ok_def)
  then have "keeps_results ?s t" using flight_steps_ok [OF assms(5)] by blast
  then show ?thesis using assms(2-4) \<open>i < sf_next s\<close> by (simp add: complete_flight_def keeps_results_def)
qed


definition example_flights :: "nat \<Rightarrow> single_flight" where
  "example_flights followers = \<lparr>sf_capacity = 1, sf_entries = [(''f'', 0)],
     sf_states = (\<lambda>i. \<lparr>fs_set = False, fs_result = None\<rparr>), sf_next = 1, sf_leaders = 1,
     sf_followers = int followers, sf_bypasses = 0, sf_timeouts = 0\<rparr>"


end
