(* ===== verification/SemanticCache.thy ===== *)
theory SemanticCache
  imports LruCache
begin

text \<open>
  \<open>vllm_apple/semantic_cache.py\<close>: anchors of reusable prefix states, by session and prefix.  The cache
  keeps metadata only; the backend's state handle belongs to the caller, who must release every anchor
  the cache gives back.  A handle's UTF-8 length is a parameter of the anchor check.
\<close>

definition MAX_ANCHOR_ENTRIES :: int where "MAX_ANCHOR_ENTRIES = 4096"
definition MAX_ANCHOR_STATE_BYTES :: int where "MAX_ANCHOR_STATE_BYTES = 2 ^ 40"
definition MAX_PREFIX_TOKENS :: int where "MAX_PREFIX_TOKENS = 1048576"
definition MAX_STATE_HANDLE_BYTES :: int where "MAX_STATE_HANDLE_BYTES = 512"

datatype anchor_kind = Turn | ToolCall | ToolResult | Thinking

fun anchor_kind_value :: "anchor_kind \<Rightarrow> string" where
  "anchor_kind_value Turn = ''turn''"
| "anchor_kind_value ToolCall = ''tool_call''"
| "anchor_kind_value ToolResult = ''tool_result''"
| "anchor_kind_value Thinking = ''thinking''"

text \<open>What \<open>int(text, 16)\<close> accepts of ASCII text: blanks around it, a sign, the prefix \<open>0x\<close>, digits of
  either case, and single underscores between them.\<close>

definition is_blank :: "char \<Rightarrow> bool" where
  "is_blank c \<longleftrightarrow> c = CHR '' '' \<or> (of_char c :: nat) \<in> {9, 10, 11, 12, 13, 28, 29, 30, 31}"

definition is_hex_digit :: "char \<Rightarrow> bool" where
  "is_hex_digit c \<longleftrightarrow> c \<in> set ''0123456789abcdefABCDEF''"

fun hex_digits :: "string \<Rightarrow> bool" where
  "hex_digits [] = False"
| "hex_digits [c] = is_hex_digit c"
| "hex_digits (c # d # s) =
     (is_hex_digit c \<and> (if d = CHR ''_'' then hex_digits s else hex_digits (d # s)))"

definition without_sign :: "string \<Rightarrow> string" where
  "without_sign s = (case s of c # t \<Rightarrow> if c = CHR ''+'' \<or> c = CHR ''-'' then t else s | [] \<Rightarrow> s)"

definition without_prefix :: "string \<Rightarrow> string" where
  "without_prefix s =
     (if take 2 s = ''0x'' \<or> take 2 s = ''0X''
      then (case drop 2 s of c # t \<Rightarrow> if c = CHR ''_'' then t else c # t | [] \<Rightarrow> []) else s)"

definition int16_accepts :: "string \<Rightarrow> bool" where
  "int16_accepts s = hex_digits (without_prefix (without_sign
     (rev (dropWhile is_blank (rev (dropWhile is_blank s))))))"

definition validate_sha256 :: "string \<Rightarrow> string \<Rightarrow> unit result" where
  "validate_sha256 name v =
     (if length v \<noteq> 64 \<or> \<not> int16_accepts v then Inl (ValueError (name @ '' must be SHA-256'')) else Inr ())"

record semantic_anchor =
  sn_session_fingerprint :: string
  sn_prefix_fingerprint :: string
  sn_token_position :: int
  sn_kind :: anchor_kind
  sn_state_handle :: string
  sn_state_bytes :: int

definition semantic_anchor_init :: "(string \<Rightarrow> int) \<Rightarrow> semantic_anchor \<Rightarrow> semantic_anchor result" where
  "semantic_anchor_init utf8_length a =
     (case validate_sha256 ''session fingerprint'' (sn_session_fingerprint a) of
        Inl e \<Rightarrow> Inl e
      | Inr u \<Rightarrow>
          (case validate_sha256 ''prefix fingerprint'' (sn_prefix_fingerprint a) of
             Inl e \<Rightarrow> Inl e
           | Inr u \<Rightarrow>
               if \<not> (1 \<le> sn_token_position a \<and> sn_token_position a \<le> MAX_PREFIX_TOKENS)
                 then Inl (ValueError ''semantic anchor token position is invalid'')
               else if sn_state_handle a = [] \<or> MAX_STATE_HANDLE_BYTES < utf8_length (sn_state_handle a)
                    \<or> \<not> (1 \<le> sn_state_bytes a \<and> sn_state_bytes a \<le> MAX_ANCHOR_STATE_BYTES)
                 then Inl (ValueError ''semantic anchor state metadata is invalid'')
               else Inr a))"

definition semantic_anchor_to_dict :: "semantic_anchor \<Rightarrow> json" where
  "semantic_anchor_to_dict a = JObj
     [(''schema_version'', JInt 1), (''session_fingerprint'', JStr (sn_session_fingerprint a)),
      (''prefix_fingerprint'', JStr (sn_prefix_fingerprint a)), (''token_position'', JInt (sn_token_position a)),
      (''kind'', JStr (anchor_kind_value (sn_kind a))), (''state_handle'', JStr (sn_state_handle a)),
      (''state_bytes'', JInt (sn_state_bytes a))]"

type_synonym anchor_key = "string \<times> string"

record semantic_cache =
  sm_capacity_entries :: int
  sm_capacity_bytes :: int
  sm_resident_bytes :: int
  sm_evictions :: int
  sm_entries :: "(anchor_key, semantic_anchor) dict"

definition validate_capacity :: "int \<Rightarrow> int \<Rightarrow> unit result" where
  "validate_capacity n b =
     (if \<not> (1 \<le> n \<and> n \<le> MAX_ANCHOR_ENTRIES) \<or> \<not> (1 \<le> b \<and> b \<le> MAX_ANCHOR_STATE_BYTES)
      then Inl (ValueError ''semantic cache capacity is invalid'') else Inr ())"

definition new_semantic_cache :: "int \<Rightarrow> int \<Rightarrow> semantic_cache result" where
  "new_semantic_cache n b =
     (case validate_capacity n b of
        Inl e \<Rightarrow> Inl e
      | Inr u \<Rightarrow> Inr \<lparr>sm_capacity_entries = n, sm_capacity_bytes = b, sm_resident_bytes = 0, sm_evictions = 0,
                     sm_entries = []\<rparr>)"

definition evict_to_budget :: "(semantic_cache, semantic_anchor list) method" where
  "evict_to_budget c =
     (case lru_evict (sm_capacity_entries c) (sm_capacity_bytes c) sn_state_bytes (sm_entries c) (sm_resident_bytes c) of
        (r, evicted, left, resident) \<Rightarrow>
          (map_sum id (\<lambda>_. map snd evicted) r,
           c\<lparr>sm_entries := left, sm_resident_bytes := resident, sm_evictions := sm_evictions c + int (length evicted)\<rparr>))"

definition store_anchor :: "semantic_anchor \<Rightarrow> (semantic_cache, semantic_anchor list) method" where
  "store_anchor a c =
     (let k = (sn_session_fingerprint a, sn_prefix_fingerprint a);
          previous = map_of (sm_entries c) k;
          replaced = (case previous of None \<Rightarrow> []
                      | Some p \<Rightarrow> if sn_state_handle p \<noteq> sn_state_handle a then [p] else []);
          freed = (case previous of None \<Rightarrow> 0 | Some p \<Rightarrow> sn_state_bytes p)
      in case evict_to_budget (c\<lparr>sm_entries := put_newest k a (sm_entries c),
                sm_resident_bytes := sm_resident_bytes c - freed + sn_state_bytes a\<rparr>) of
           (r, c') \<Rightarrow> (map_sum id (\<lambda>evicted. replaced @ evicted) r, c'))"

text \<open>\<open>put\<close> compares with the capacity before it takes the lock; other threads run in between.\<close>

definition put_anchor :: "semantic_anchor \<Rightarrow> (semantic_cache \<Rightarrow> semantic_cache) \<Rightarrow> (semantic_cache, semantic_anchor list) method" where
  "put_anchor a others c =
     (if sm_capacity_bytes c < sn_state_bytes a
      then (Inl (ValueError ''semantic anchor exceeds cache byte capacity''), c) else store_anchor a (others c))"

fun check_boundaries :: "int \<Rightarrow> (int \<times> string) list \<Rightarrow> unit result" where
  "check_boundaries previous [] = Inr ()"
| "check_boundaries previous ((position, f) # bs) =
     (if \<not> (previous < position \<and> position \<le> MAX_PREFIX_TOKENS)
      then Inl (ValueError ''semantic prefix boundaries must be strictly increasing'')
      else (case validate_sha256 ''prefix fingerprint'' f of
              Inl e \<Rightarrow> Inl e | Inr u \<Rightarrow> check_boundaries position bs))"

fun deepest_match :: "string \<Rightarrow> (anchor_key, semantic_anchor) dict \<Rightarrow> (int \<times> string) list \<Rightarrow> (anchor_key \<times> semantic_anchor) option"
where
  "deepest_match session d [] = None"
| "deepest_match session d ((position, f) # bs) =
     (case map_of d (session, f) of
        None \<Rightarrow> deepest_match session d bs
      | Some a \<Rightarrow> if sn_token_position a = position then Some ((session, f), a) else deepest_match session d bs)"

definition deepest_reusable :: "string \<Rightarrow> (int \<times> string) list \<Rightarrow> (semantic_cache, semantic_anchor option) method" where
  "deepest_reusable session boundaries c =
     (case validate_sha256 ''session fingerprint'' session of
        Inl e \<Rightarrow> (Inl e, c)
      | Inr u \<Rightarrow>
          (case check_boundaries 0 boundaries of
             Inl e \<Rightarrow> (Inl e, c)
           | Inr u \<Rightarrow>
               (case deepest_match session (sm_entries c) (rev boundaries) of
                  None \<Rightarrow> (Inr None, c)
                | Some (k, a) \<Rightarrow> (Inr (Some a), c\<lparr>sm_entries := move_to_end k (sm_entries c)\<rparr>))))"

definition resize_semantic :: "int \<Rightarrow> int \<Rightarrow> (semantic_cache, semantic_anchor list) method" where
  "resize_semantic n b c =
     (case validate_capacity n b of
        Inl e \<Rightarrow> (Inl e, c)
      | Inr u \<Rightarrow> evict_to_budget (c\<lparr>sm_capacity_entries := n, sm_capacity_bytes := b\<rparr>))"

definition discard_anchor :: "string \<Rightarrow> string \<Rightarrow> (semantic_cache, semantic_anchor option) method" where
  "discard_anchor session prefix_fingerprint c =
     (case validate_sha256 ''session fingerprint'' session of
        Inl e \<Rightarrow> (Inl e, c)
      | Inr u \<Rightarrow>
          (case validate_sha256 ''prefix fingerprint'' prefix_fingerprint of
             Inl e \<Rightarrow> (Inl e, c)
           | Inr u \<Rightarrow>
               (case map_of (sm_entries c) (session, prefix_fingerprint) of
                  None \<Rightarrow> (Inr None, c)
                | Some a \<Rightarrow> (Inr (Some a),
                    c\<lparr>sm_entries := AList.delete (session, prefix_fingerprint) (sm_entries c),
                      sm_resident_bytes := sm_resident_bytes c - sn_state_bytes a\<rparr>))))"

definition clear_semantic :: "semantic_cache \<Rightarrow> semantic_anchor list \<times> semantic_cache" where
  "clear_semantic c =
     (map snd (sm_entries c),
      c\<lparr>sm_entries := [], sm_resident_bytes := 0, sm_evictions := sm_evictions c + int (length (sm_entries c))\<rparr>)"

record semantic_snapshot =
  sx_capacity_entries :: int
  sx_capacity_bytes :: int
  sx_entry_count :: int
  sx_resident_bytes :: int
  sx_evictions :: int

definition semantic_snapshot_of :: "semantic_cache \<Rightarrow> semantic_snapshot" where
  "semantic_snapshot_of c =
     \<lparr>sx_capacity_entries = sm_capacity_entries c, sx_capacity_bytes = sm_capacity_bytes c,
      sx_entry_count = int (length (sm_entries c)), sx_resident_bytes = sm_resident_bytes c,
      sx_evictions = sm_evictions c\<rparr>"

section \<open>The invariant and the ownership of handles\<close>

definition semantic_ok :: "semantic_cache \<Rightarrow> bool" where
  "semantic_ok c \<longleftrightarrow> dict_ok (sm_entries c) \<and> 1 \<le> sm_capacity_entries c \<and> 1 \<le> sm_capacity_bytes c
     \<and> (\<forall>e\<in>set (sm_entries c). 1 \<le> sn_state_bytes (snd e))
     \<and> sm_resident_bytes c = asum sn_state_bytes (sm_entries c)
     \<and> int (length (sm_entries c)) \<le> sm_capacity_entries c \<and> sm_resident_bytes c \<le> sm_capacity_bytes c"

text \<open>The handles the cache holds.\<close>

definition handles :: "semantic_cache \<Rightarrow> string multiset" where
  "handles c = mset (map (sn_state_handle \<circ> snd) (sm_entries c))"

abbreviation handles_of :: "semantic_anchor list \<Rightarrow> string multiset" where
  "handles_of as \<equiv> mset (map sn_state_handle as)"

text \<open>Whether an anchor replaces one with its own handle: then the caller keeps one claim for it.\<close>

definition renews :: "semantic_anchor \<Rightarrow> semantic_cache \<Rightarrow> bool" where
  "renews a c \<longleftrightarrow> (\<exists>p\<in>set_option (map_of (sm_entries c) (sn_session_fingerprint a, sn_prefix_fingerprint a)).
     sn_state_handle p = sn_state_handle a)"

lemma evict_to_budget_spec:
  assumes "dict_ok (sm_entries c)" and "sm_resident_bytes c = asum sn_state_bytes (sm_entries c)"
    and "1 \<le> sm_capacity_entries c" and "1 \<le> sm_capacity_bytes c"
    and "\<forall>e\<in>set (sm_entries c). 1 \<le> sn_state_bytes (snd e)"
  obtains evicted c' where "evict_to_budget c = (Inr (map snd evicted), c')" "semantic_ok c'"
    "sm_entries c' = fitting (sm_capacity_entries c) (sm_capacity_bytes c) sn_state_bytes (sm_entries c)"
    "sm_entries c = evicted @ sm_entries c'"
    "sm_capacity_entries c' = sm_capacity_entries c" "sm_capacity_bytes c' = sm_capacity_bytes c"
proof -
  let ?d = "fitting (sm_capacity_entries c) (sm_capacity_bytes c) sn_state_bytes (sm_entries c)"
  obtain evicted where e: "lru_evict (sm_capacity_entries c) (sm_capacity_bytes c) sn_state_bytes (sm_entries c)
      (sm_resident_bytes c) = (Inr (), evicted, ?d, asum sn_state_bytes ?d)" "sm_entries c = evicted @ ?d"
    using lru_evict_fitting [OF assms(2), of "sm_capacity_entries c" "sm_capacity_bytes c"] assms(3,4) by auto
  have "dict_ok ?d" using assms(1) by (rule fitting_dict)
  moreover have "\<forall>e\<in>set ?d. 1 \<le> sn_state_bytes (snd e)" using assms(5) fitting_subset by fast
  ultimately show ?thesis
    using e assms(3,4) fitting_within [of "sm_capacity_entries c" "sm_capacity_bytes c" sn_state_bytes "sm_entries c"]
    by (intro that [of evicted "snd (evict_to_budget c)"]) (simp_all add: evict_to_budget_def semantic_ok_def)
qed

lemma handles_delete:
  assumes "dict_ok d" and "map_of d k = Some a"
  shows "mset (map (f \<circ> snd) d) = add_mset (f a) (mset (map (f \<circ> snd) (AList.delete k d)))"
  using assms by (induction d) (auto simp: delete_fresh split: if_splits)

lemma store_anchor_spec:
  assumes "semantic_ok t" and "1 \<le> sn_state_bytes a"
  obtains out v where "store_anchor a t = (Inr out, v)" "semantic_ok v"
    "(if renews a t then {#} else {#sn_state_handle a#}) + handles t = handles v + handles_of out"
    "sm_capacity_entries v = sm_capacity_entries t" "sm_capacity_bytes v = sm_capacity_bytes t"
    "sn_state_bytes a \<le> sm_capacity_bytes t \<Longrightarrow>
       map_of (sm_entries v) (sn_session_fingerprint a, sn_prefix_fingerprint a) = Some a"
proof -
  define k where "k = (sn_session_fingerprint a, sn_prefix_fingerprint a)"
  define freed where "freed = (case map_of (sm_entries t) k of None \<Rightarrow> 0 | Some p \<Rightarrow> sn_state_bytes p)"
  define replaced where "replaced = (case map_of (sm_entries t) k of None \<Rightarrow> []
      | Some p \<Rightarrow> if sn_state_handle p \<noteq> sn_state_handle a then [p] else [])"
  let ?u = "t\<lparr>sm_entries := put_newest k a (sm_entries t), sm_resident_bytes := sm_resident_bytes t - freed + sn_state_bytes a\<rparr>"
  have u: "dict_ok (sm_entries ?u)" "sm_resident_bytes ?u = asum sn_state_bytes (sm_entries ?u)"
    "1 \<le> sm_capacity_entries ?u" "1 \<le> sm_capacity_bytes ?u"
    "\<forall>e\<in>set (sm_entries ?u). 1 \<le> sn_state_bytes (snd e)"
    using assms by (simp_all add: semantic_ok_def asum_put_newest freed_def)
  from evict_to_budget_spec [OF u] obtain evicted v where v: "evict_to_budget ?u = (Inr (map snd evicted), v)"
      "semantic_ok v"
      "sm_entries v = fitting (sm_capacity_entries ?u) (sm_capacity_bytes ?u) sn_state_bytes (sm_entries ?u)"
      "sm_entries ?u = evicted @ sm_entries v"
      "sm_capacity_entries v = sm_capacity_entries ?u" "sm_capacity_bytes v = sm_capacity_bytes ?u" .
  have "store_anchor a t = (case evict_to_budget ?u of (r, c') \<Rightarrow> (map_sum id (\<lambda>evicted. replaced @ evicted) r, c'))"
    unfolding store_anchor_def Let_def k_def freed_def replaced_def by (rule refl)
  then have r: "store_anchor a t = (Inr (replaced @ map snd evicted), v)" by (simp add: v(1))
  have "add_mset (sn_state_handle a) (mset (map (sn_state_handle \<circ> snd) (AList.delete k (sm_entries t))))
      = mset (map (sn_state_handle \<circ> snd) (put_newest k a (sm_entries t)))" by (simp add: put_newest_def)
  also have "\<dots> = handles v + handles_of (map snd evicted)" using v(4) by (simp add: handles_def)
  finally have kept: "add_mset (sn_state_handle a) (mset (map (sn_state_handle \<circ> snd) (AList.delete k (sm_entries t))))
      = handles v + handles_of (map snd evicted)" .
  have balance: "(if renews a t then {#} else {#sn_state_handle a#}) + handles t
      = handles v + handles_of (replaced @ map snd evicted)"
  proof (cases "map_of (sm_entries t) k")
    case None
    then have "AList.delete k (sm_entries t) = sm_entries t" using map_of_None_keys by (intro delete_fresh) fast
    then show ?thesis using kept None by (simp add: renews_def k_def [symmetric] replaced_def handles_def)
  next
    case (Some p)
    have "handles t = add_mset (sn_state_handle p) (mset (map (sn_state_handle \<circ> snd) (AList.delete k (sm_entries t))))"
      unfolding handles_def by (rule handles_delete) (use assms Some in \<open>simp_all add: semantic_ok_def\<close>)
    then show ?thesis using kept Some by (simp add: renews_def k_def [symmetric] replaced_def)
  qed
  have "map_of (sm_entries v) k = Some a" if fits: "sn_state_bytes a \<le> sm_capacity_bytes t"
  proof -
    have v3: "sm_entries v = fitting (sm_capacity_entries t) (sm_capacity_bytes t) sn_state_bytes (put_newest k a (sm_entries t))"
      using v(3) by simp
    obtain older where "sm_entries v = older @ [(k, a)]"
      unfolding v3
      by (rule fitting_keeps_newest [of "sm_capacity_entries t" sn_state_bytes a "sm_capacity_bytes t" k "sm_entries t"])
        (use assms fits in \<open>simp_all add: semantic_ok_def\<close>)
    moreover have "dict_ok (sm_entries v)" using v(2) by (simp add: semantic_ok_def)
    ultimately show ?thesis by (simp add: map_of_eq_dict del: map_of_append)
  qed
  then show ?thesis using that [OF r v(2) balance] v(5,6) by (simp add: k_def)
qed

text \<open>Every call the threads can make, with the handles their owners passed to \<open>put\<close> (a renewed handle
  counts once) and the handles that were handed back for release.\<close>

inductive anchor_history :: "semantic_cache \<Rightarrow> string multiset \<Rightarrow> string multiset \<Rightarrow> bool" where
  created: "new_semantic_cache n b = Inr c \<Longrightarrow> anchor_history c {#} {#}"
| stored: "anchor_history c owned released \<Longrightarrow> semantic_anchor_init utf8_length a = Inr a \<Longrightarrow> store_anchor a c = (Inr out, c') \<Longrightarrow>
    anchor_history c' ((if renews a c then {#} else {#sn_state_handle a#}) + owned) (released + handles_of out)"
| reused: "anchor_history c owned released \<Longrightarrow>
    anchor_history (snd (deepest_reusable session boundaries c)) owned released"
| resized: "anchor_history c owned released \<Longrightarrow> resize_semantic n b c = (Inr out, c') \<Longrightarrow>
    anchor_history c' owned (released + handles_of out)"
| discarded: "anchor_history c owned released \<Longrightarrow> discard_anchor session f c = (Inr out, c') \<Longrightarrow>
    anchor_history c' owned (released + mset_set (sn_state_handle ` set_option out))"
| cleared: "anchor_history c owned released \<Longrightarrow> clear_semantic c = (out, c') \<Longrightarrow>
    anchor_history c' owned (released + handles_of out)"

lemma move_to_end_handles:
  assumes "dict_ok d"
  shows "mset (map f (move_to_end k d)) = mset (map f d)"
proof -
  have "mset (move_to_end k d) = mset d"
    using assms move_to_end_facts(1) [OF assms, of k]
    by (intro iffD1 [OF set_eq_iff_mset_eq_distinct]) (simp_all add: distinct_map)
  then show ?thesis by (metis mset_map)
qed

lemma deepest_match_keys: "deepest_match session d bs = Some (k, a) \<Longrightarrow> map_of d k = Some a"
  by (induction bs) (auto split: option.splits if_splits)

lemma reused_ok:
  assumes "semantic_ok c"
  shows "semantic_ok (snd (deepest_reusable session boundaries c))"
    "handles (snd (deepest_reusable session boundaries c)) = handles c"
proof -
  let ?c = "snd (deepest_reusable session boundaries c)"
  have "?c = c \<or> (\<exists>k. ?c = c\<lparr>sm_entries := move_to_end k (sm_entries c)\<rparr>)"
    unfolding deepest_reusable_def by (auto split: sum.split option.split)
  then obtain k where k: "?c = c \<or> ?c = c\<lparr>sm_entries := move_to_end k (sm_entries c)\<rparr>" by blast
  have "dict_ok (sm_entries c)" using assms by (simp add: semantic_ok_def)
  with k assms show "semantic_ok ?c" "handles ?c = handles c"
    by (auto simp: semantic_ok_def handles_def move_to_end_handles simp del: mset_map)
qed

lemma discarded_ok:
  assumes "semantic_ok c" and "discard_anchor session f c = (Inr out, c')"
  shows "semantic_ok c' \<and> handles c = handles c' + mset_set (sn_state_handle ` set_option out)"
proof (cases "map_of (sm_entries c) (session, f)")
  case (Some a)
  then have out: "out = Some a" "c' = c\<lparr>sm_entries := AList.delete (session, f) (sm_entries c),
      sm_resident_bytes := sm_resident_bytes c - sn_state_bytes a\<rparr>"
    using assms(2) by (auto simp: discard_anchor_def split: sum.splits)
  have d: "dict_ok (sm_entries c)" using assms(1) by (simp add: semantic_ok_def)
  have "1 \<le> sn_state_bytes a" using assms(1) map_of_SomeD [OF Some] by (auto simp: semantic_ok_def)
  moreover have "\<forall>e\<in>set (AList.delete (session, f) (sm_entries c)). 1 \<le> sn_state_bytes (snd e)"
    using assms(1) delete_subset unfolding semantic_ok_def by fast
  ultimately show ?thesis
    using assms(1) handles_delete [OF d Some, of sn_state_handle] asum_delete [OF d Some, of sn_state_bytes]
      length_delete_le [of "(session, f)" "sm_entries c"] dict_ok_delete [OF d]
    by (simp add: out semantic_ok_def handles_def)
qed (use assms in \<open>auto simp: discard_anchor_def split: sum.splits\<close>)

lemma resized_ok:
  assumes "semantic_ok c" and "resize_semantic n b c = (Inr out, c')"
  shows "semantic_ok c' \<and> handles c = handles c' + handles_of out \<and> sm_capacity_entries c' = n \<and> sm_capacity_bytes c' = b"
proof -
  let ?c = "c\<lparr>sm_capacity_entries := n, sm_capacity_bytes := b\<rparr>"
  have e: "evict_to_budget ?c = (Inr out, c')" and n: "1 \<le> n" "1 \<le> b"
    using assms(2) by (auto simp: resize_semantic_def validate_capacity_def split: if_splits)
  have u: "dict_ok (sm_entries ?c)" "sm_resident_bytes ?c = asum sn_state_bytes (sm_entries ?c)"
    "1 \<le> sm_capacity_entries ?c" "1 \<le> sm_capacity_bytes ?c" "\<forall>e\<in>set (sm_entries ?c). 1 \<le> sn_state_bytes (snd e)"
    using assms(1) n by (simp_all add: semantic_ok_def)
  from evict_to_budget_spec [OF u] obtain evicted v where v: "evict_to_budget ?c = (Inr (map snd evicted), v)"
    "semantic_ok v" "sm_entries ?c = evicted @ sm_entries v"
    "sm_capacity_entries v = sm_capacity_entries ?c" "sm_capacity_bytes v = sm_capacity_bytes ?c" .
  then show ?thesis using e by (simp add: handles_def)
qed

lemma anchor_history_ok: "anchor_history c owned released \<Longrightarrow> semantic_ok c \<and> owned = handles c + released"
proof (induction rule: anchor_history.induct)
  case (created n b c)
  then show ?case
    by (auto simp: new_semantic_cache_def validate_capacity_def semantic_ok_def handles_def split: if_splits)
next
  case (stored c owned released utf8_length a out c')
  have "1 \<le> sn_state_bytes a"
    using stored.hyps(2) by (auto simp: semantic_anchor_init_def split: sum.splits if_splits)
  with stored.IH obtain out' v where "store_anchor a c = (Inr out', v)" "semantic_ok v"
    "(if renews a c then {#} else {#sn_state_handle a#}) + handles c = handles v + handles_of out'"
    using store_anchor_spec [of c a] by metis
  then show ?case using stored by (simp add: add.assoc [symmetric])
next
  case (reused c owned released session boundaries)
  then show ?case using reused_ok by simp
next
  case (resized c owned released n b out c')
  then show ?case using resized_ok [of c n b out c'] by simp
next
  case (discarded c owned released session f out c')
  then show ?case using discarded_ok [of c session f out c'] by simp
next
  case (cleared c owned released out c')
  then show ?case by (auto simp: clear_semantic_def semantic_ok_def handles_def multiset.map_comp)
qed

lemma deepest_match_None: "deepest_match session d bs = None \<longleftrightarrow>
    (\<forall>(p, f)\<in>set bs. \<forall>a. map_of d (session, f) = Some a \<longrightarrow> sn_token_position a \<noteq> p)"
  by (induction bs) (auto split: option.splits if_splits)

lemma deepest_match_Some:
  "deepest_match session d bs = Some (k, a) \<Longrightarrow> \<exists>before p f after. bs = before @ (p, f) # after \<and> k = (session, f)
     \<and> map_of d k = Some a \<and> sn_token_position a = p \<and> deepest_match session d before = None"
proof (induction bs)
  case (Cons b bs)
  obtain p f where b: "b = (p, f)" by force
  show ?case
  proof (cases "\<exists>a. map_of d (session, f) = Some a \<and> sn_token_position a = p")
    case True
    then have "b # bs = [] @ (p, f) # bs \<and> k = (session, f) \<and> map_of d k = Some a \<and> sn_token_position a = p
        \<and> deepest_match session d [] = None"
      using Cons.prems by (auto simp: b)
    then show ?thesis by blast
  next
    case False
    then have "deepest_match session d bs = Some (k, a)" using Cons.prems by (auto simp: b split: option.splits if_splits)
    then obtain before p' f' after where "bs = before @ (p', f') # after" "k = (session, f')" "map_of d k = Some a"
      "sn_token_position a = p'" "deepest_match session d before = None" using Cons.IH by blast
    moreover have "deepest_match session d (b # before) = None"
      using False \<open>deepest_match session d before = None\<close> by (auto simp: b split: option.splits)
    ultimately have "b # bs = (b # before) @ (p', f') # after \<and> k = (session, f') \<and> map_of d k = Some a
        \<and> sn_token_position a = p' \<and> deepest_match session d (b # before) = None" by simp
    then show ?thesis by blast
  qed
qed simp

lemma check_boundaries_sorted:
  "check_boundaries p bs = Inr () \<Longrightarrow> sorted_wrt (<) (map fst bs) \<and> (\<forall>b\<in>set bs. p < fst b)"
proof (induction bs arbitrary: p)
  case (Cons b bs)
  obtain q f where b: "b = (q, f)" by force
  then have "check_boundaries q bs = Inr ()" "p < q" using Cons.prems by (auto split: if_splits sum.splits)
  with Cons.IH [of q] show ?case by (auto simp: b)
qed simp

lemma deepest_reusable_spec:
  assumes "deepest_reusable session boundaries c = (Inr r, c')"
  shows "case r of
      None \<Rightarrow> \<forall>(p, f)\<in>set boundaries. \<forall>a. map_of (sm_entries c) (session, f) = Some a \<longrightarrow> sn_token_position a \<noteq> p
    | Some a \<Rightarrow> \<exists>f. (sn_token_position a, f) \<in> set boundaries \<and> map_of (sm_entries c) (session, f) = Some a
        \<and> (\<forall>(p, g)\<in>set boundaries. \<forall>b. sn_token_position a < p \<longrightarrow> map_of (sm_entries c) (session, g) = Some b \<longrightarrow>
             sn_token_position b \<noteq> p)"
proof -
  have valid: "check_boundaries 0 boundaries = Inr ()"
    using assms by (auto simp: deepest_reusable_def split: sum.splits)
  show ?thesis
  proof (cases "deepest_match session (sm_entries c) (rev boundaries)")
    case None
    then have "r = None" using assms valid by (auto simp: deepest_reusable_def split: sum.splits)
    with None show ?thesis by (simp add: deepest_match_None)
  next
    case (Some ka)
    then obtain k a where ka: "deepest_match session (sm_entries c) (rev boundaries) = Some (k, a)" by (cases ka) auto
    then have r: "r = Some a" using assms valid by (auto simp: deepest_reusable_def split: sum.splits)
    from deepest_match_Some [OF ka] obtain before f after where m: "rev boundaries = before @ (sn_token_position a, f) # after"
      "map_of (sm_entries c) (session, f) = Some a" "deepest_match session (sm_entries c) before = None" by auto
    then have b: "boundaries = rev after @ (sn_token_position a, f) # rev before" by (simp add: rev_swap)
    have "x \<in> set before" if "x \<in> set boundaries" "sn_token_position a < fst x" for x
      using that check_boundaries_sorted [OF valid] by (auto simp: b sorted_wrt_append)
    moreover have "\<forall>(p, g)\<in>set before. \<forall>x. map_of (sm_entries c) (session, g) = Some x \<longrightarrow> sn_token_position x \<noteq> p"
      using m(3) by (simp add: deepest_match_None)
    ultimately have "\<forall>(p, g)\<in>set boundaries. \<forall>x. sn_token_position a < p \<longrightarrow>
        map_of (sm_entries c) (session, g) = Some x \<longrightarrow> sn_token_position x \<noteq> p" by fastforce
    moreover have "(sn_token_position a, f) \<in> set boundaries" by (simp add: b)
    ultimately show ?thesis using m(2) unfolding r option.case by blast
  qed
qed

text \<open>C10: the semantic cache loses no state handle.  After any calls of any threads, the handles their owners
  passed to \<open>put\<close> are exactly the handles the cache holds and the handles it gave back for release, each as
  often; the byte counter is exact and the cache is within its limits; storing an anchor that fits the limits
  keeps it; and \<open>deepest_reusable\<close> answers with the cached anchor of the greatest matching boundary.\<close>

theorem no_state_handle_is_lost:
  assumes "anchor_history c owned released"
  shows "owned = handles c + released
    \<and> sm_resident_bytes c = asum sn_state_bytes (sm_entries c)
    \<and> int (length (sm_entries c)) \<le> sm_capacity_entries c \<and> sm_resident_bytes c \<le> sm_capacity_bytes c
    \<and> (\<forall>utf8_length a. semantic_anchor_init utf8_length a = Inr a \<longrightarrow> sn_state_bytes a \<le> sm_capacity_bytes c \<longrightarrow>
         (\<exists>out c'. put_anchor a (\<lambda>t. t) c = (Inr out, c')
            \<and> map_of (sm_entries c') (sn_session_fingerprint a, sn_prefix_fingerprint a) = Some a))
    \<and> (\<forall>session boundaries a c'. deepest_reusable session boundaries c = (Inr (Some a), c') \<longrightarrow>
         (\<exists>f. (sn_token_position a, f) \<in> set boundaries \<and> map_of (sm_entries c) (session, f) = Some a
            \<and> (\<forall>(p, g)\<in>set boundaries. \<forall>b. sn_token_position a < p \<longrightarrow>
                 map_of (sm_entries c) (session, g) = Some b \<longrightarrow> sn_token_position b \<noteq> p)))"
proof -
  have ok: "semantic_ok c" and balance: "owned = handles c + released" using anchor_history_ok [OF assms] by auto
  have "\<exists>out c'. put_anchor a (\<lambda>t. t) c = (Inr out, c')
      \<and> map_of (sm_entries c') (sn_session_fingerprint a, sn_prefix_fingerprint a) = Some a"
    if init: "semantic_anchor_init utf8_length a = Inr a" and fits: "sn_state_bytes a \<le> sm_capacity_bytes c" for utf8_length a
  proof -
    have "1 \<le> sn_state_bytes a" using init by (auto simp: semantic_anchor_init_def split: sum.splits if_splits)
    from store_anchor_spec [OF ok this, of thesis for thesis] fits
    have "\<exists>out v. store_anchor a c = (Inr out, v)
        \<and> map_of (sm_entries v) (sn_session_fingerprint a, sn_prefix_fingerprint a) = Some a" by metis
    then show ?thesis using fits by (simp add: put_anchor_def)
  qed
  moreover have "\<exists>f. (sn_token_position a, f) \<in> set boundaries \<and> map_of (sm_entries c) (session, f) = Some a
      \<and> (\<forall>(p, g)\<in>set boundaries. \<forall>b. sn_token_position a < p \<longrightarrow>
           map_of (sm_entries c) (session, g) = Some b \<longrightarrow> sn_token_position b \<noteq> p)"
    if "deepest_reusable session boundaries c = (Inr (Some a), c')" for session boundaries a c'
    using deepest_reusable_spec [OF that] by simp
  ultimately show ?thesis using ok balance by (simp add: semantic_ok_def)
qed

text \<open>Two anchors of three bytes in a cache of five: storing the second gives the handle of the first back.\<close>

definition example_anchor :: "string \<Rightarrow> int \<Rightarrow> string \<Rightarrow> semantic_anchor" where
  "example_anchor f position handle = \<lparr>sn_session_fingerprint = replicate 64 CHR ''a'', sn_prefix_fingerprint = f,
     sn_token_position = position, sn_kind = Turn, sn_state_handle = handle, sn_state_bytes = 3\<rparr>"

definition example_semantic :: "semantic_anchor list \<Rightarrow> int \<Rightarrow> semantic_cache" where
  "example_semantic as evictions = \<lparr>sm_capacity_entries = 4, sm_capacity_bytes = 5,
     sm_resident_bytes = 3 * int (length as), sm_evictions = evictions,
     sm_entries = map (\<lambda>a. ((sn_session_fingerprint a, sn_prefix_fingerprint a), a)) as\<rparr>"

lemma example_anchor_init:
  "semantic_anchor_init (\<lambda>h. int (length h)) (example_anchor (replicate 64 CHR ''b'') 10 ''one'')
     = Inr (example_anchor (replicate 64 CHR ''b'') 10 ''one'')"
  "semantic_anchor_init (\<lambda>h. int (length h)) (example_anchor (replicate 64 CHR ''c'') 20 ''two'')
     = Inr (example_anchor (replicate 64 CHR ''c'') 20 ''two'')"
  by code_simp+

theorem no_state_handle_is_lost_witness:
  "anchor_history (example_semantic [example_anchor (replicate 64 CHR ''c'') 20 ''two''] 1) {#''one'', ''two''#} {#''one''#}
   \<and> {#''one'', ''two''#} = handles (example_semantic [example_anchor (replicate 64 CHR ''c'') 20 ''two''] 1) + {#''one''#}"
proof -
  let ?one = "example_anchor (replicate 64 CHR ''b'') 10 ''one''"
  let ?two = "example_anchor (replicate 64 CHR ''c'') 20 ''two''"
  have "new_semantic_cache 4 5 = Inr (example_semantic [] 0)"
    by (simp add: new_semantic_cache_def validate_capacity_def example_semantic_def MAX_ANCHOR_ENTRIES_def
        MAX_ANCHOR_STATE_BYTES_def)
  then have 0: "anchor_history (example_semantic [] 0) {#} {#}" by (rule anchor_history.created)
  have "store_anchor ?one (example_semantic [] 0) = (Inr [], example_semantic [?one] 0)"
    by (simp add: store_anchor_def evict_to_budget_def example_semantic_def example_anchor_def put_newest_def Let_def)
  from anchor_history.stored [OF 0 example_anchor_init(1) this]
  have 1: "anchor_history (example_semantic [?one] 0) {#''one''#} {#}"
    by (simp add: renews_def example_semantic_def example_anchor_def)
  have differ: "replicate 64 CHR ''b'' \<noteq> replicate 64 CHR ''c''" by simp
  have "store_anchor ?two (example_semantic [?one] 0) = (Inr [?one], example_semantic [?two] 1)"
    using differ by (simp add: store_anchor_def evict_to_budget_def example_semantic_def example_anchor_def put_newest_def Let_def)
  from anchor_history.stored [OF 1 example_anchor_init(2) this]
  have 2: "anchor_history (example_semantic [?two] 1) {#''one'', ''two''#} {#''one''#}"
    using differ by (simp add: renews_def example_semantic_def example_anchor_def add_mset_commute)
  from no_state_handle_is_lost [OF 2] 2 show ?thesis by blast
qed

text \<open>The digest check is weaker than it says: a prefix, a sign or underscores pass it.\<close>

theorem sha256_check_accepts_other_text:
  "validate_sha256 what (''0x'' @ replicate 62 CHR ''a'') = Inr ()"
  "validate_sha256 what (''+_'' @ replicate 62 CHR ''a'') \<noteq> Inr ()"
  "validate_sha256 what (''+a_'' @ replicate 61 CHR ''a'') = Inr ()"
  by code_simp+

end
