(* ===== verification/VideoCache.thy ===== *)
theory VideoCache
  imports LruCache
begin

text \<open>
  \<open>vllm_apple/video_cache.py\<close>: one least-recently-used cache for the frames, patches, embeddings and scenes
  of videos, with a byte budget per kind beside the global limits.  SHA-256 of the JSON text is
  \<open>digest\<close>; every method is one step under the lock.  The dictionaries over the four kinds are functions.
\<close>

datatype video_kind = Frame | Patch | Embedding | Scene

fun video_kind_value :: "video_kind \<Rightarrow> string" where
  "video_kind_value Frame = ''frame''"
| "video_kind_value Patch = ''patch''"
| "video_kind_value Embedding = ''embedding''"
| "video_kind_value Scene = ''scene''"

definition video_kinds :: "video_kind list" where
  "video_kinds = [Frame, Patch, Embedding, Scene]"

record video_key =
  vy_kind :: video_kind
  vy_video_sha256 :: string
  vy_transform_fingerprint :: string
  vy_model_fingerprint :: string
  vy_start_microseconds :: int
  vy_end_microseconds :: int

definition video_key_init :: "video_key \<Rightarrow> video_key result" where
  "video_key_init k =
     (if \<not> list_all is_digest [vy_video_sha256 k, vy_transform_fingerprint k, vy_model_fingerprint k]
         \<or> vy_start_microseconds k < 0 \<or> vy_end_microseconds k \<le> vy_start_microseconds k
      then Inl (ValueError ''invalid video cache key'') else Inr k)"

definition video_digest :: "(json \<Rightarrow> string) \<Rightarrow> video_key \<Rightarrow> string" where
  "video_digest digest k = digest (JObj
     [(''end'', JInt (vy_end_microseconds k)), (''kind'', JStr (video_kind_value (vy_kind k))),
      (''model'', JStr (vy_model_fingerprint k)), (''start'', JInt (vy_start_microseconds k)),
      (''transform'', JStr (vy_transform_fingerprint k)), (''video'', JStr (vy_video_sha256 k))])"

record 'v video_entry =
  ve_key :: video_key
  ve_value :: 'v
  ve_size_bytes :: int

abbreviation ve_kind :: "'v video_entry \<Rightarrow> video_kind" where
  "ve_kind e \<equiv> vy_kind (ve_key e)"

record 'v video_cache =
  vd_maximum_entries :: int
  vd_maximum_bytes :: int
  vd_tier_maximum :: "video_kind \<Rightarrow> int"
  vd_entries :: "(string, 'v video_entry) dict"
  vd_resident_bytes :: int
  vd_tier_bytes :: "video_kind \<Rightarrow> int"
  vd_hits :: "video_kind \<Rightarrow> int"
  vd_misses :: "video_kind \<Rightarrow> int"
  vd_evictions :: "video_kind \<Rightarrow> int"
  vd_rejected_oversize :: int

definition new_video_cache :: "int \<Rightarrow> int \<Rightarrow> (video_kind \<Rightarrow> int option) \<Rightarrow> 'v video_cache result" where
  "new_video_cache maximum_entries maximum_bytes tiers =
     (let defaults = (\<lambda>kind. case tiers kind of None \<Rightarrow> maximum_bytes | Some b \<Rightarrow> b)
      in if \<not> (1 \<le> maximum_entries \<and> maximum_entries \<le> 65536) \<or> \<not> (1 \<le> maximum_bytes \<and> maximum_bytes \<le> 2 ^ 42)
            \<or> list_ex (\<lambda>kind. \<not> (1 \<le> defaults kind \<and> defaults kind \<le> maximum_bytes)) video_kinds
         then Inl (ValueError ''invalid video cache limits'')
         else Inr \<lparr>vd_maximum_entries = maximum_entries, vd_maximum_bytes = maximum_bytes, vd_tier_maximum = defaults,
                   vd_entries = [], vd_resident_bytes = 0, vd_tier_bytes = (\<lambda>kind. 0), vd_hits = (\<lambda>kind. 0),
                   vd_misses = (\<lambda>kind. 0), vd_evictions = (\<lambda>kind. 0), vd_rejected_oversize = 0\<rparr>)"

definition bump :: "video_kind \<Rightarrow> (video_kind \<Rightarrow> int) \<Rightarrow> video_kind \<Rightarrow> int" where
  "bump kind counter = counter(kind := counter kind + 1)"

definition video_get :: "(json \<Rightarrow> string) \<Rightarrow> video_key \<Rightarrow> 'v video_cache \<Rightarrow> 'v option \<times> 'v video_cache" where
  "video_get digest k c =
     (case map_of (vd_entries c) (video_digest digest k) of
        None \<Rightarrow> (None, c\<lparr>vd_misses := bump (vy_kind k) (vd_misses c)\<rparr>)
      | Some e \<Rightarrow>
          (Some (ve_value e), c\<lparr>vd_entries := move_to_end (video_digest digest k) (vd_entries c),
             vd_hits := bump (vy_kind k) (vd_hits c)\<rparr>))"

definition remove_accounting :: "'v video_entry \<Rightarrow> 'v video_cache \<Rightarrow> 'v video_cache" where
  "remove_accounting e c =
     c\<lparr>vd_resident_bytes := vd_resident_bytes c - ve_size_bytes e,
       vd_tier_bytes := (vd_tier_bytes c)(ve_kind e := vd_tier_bytes c (ve_kind e) - ve_size_bytes e)\<rparr>"

definition remove_video_entry :: "bool \<Rightarrow> string \<times> 'v video_entry \<Rightarrow> 'v video_cache \<Rightarrow> 'v video_cache" where
  "remove_video_entry count_eviction x c =
     (case x of (d, e) \<Rightarrow>
        let c' = remove_accounting e (c\<lparr>vd_entries := AList.delete d (vd_entries c)\<rparr>)
        in if count_eviction then c'\<lparr>vd_evictions := bump (ve_kind e) (vd_evictions c')\<rparr> else c')"

text \<open>The two eviction loops; \<open>next\<close> on an exhausted generator raises.\<close>

function evict_tier :: "video_kind \<Rightarrow> ('v video_cache, unit) method" where
  "evict_tier kind c =
     (if vd_tier_bytes c kind \<le> vd_tier_maximum c kind then (Inr (), c)
      else (case find (\<lambda>(d, e). ve_kind e = kind) (vd_entries c) of
              None \<Rightarrow> (Inl StopIteration, c)
            | Some x \<Rightarrow> evict_tier kind (remove_video_entry True x c)))"
  by pat_completeness auto

lemma remove_video_entry_frame [simp]:
  "vd_entries (remove_video_entry counts x c) = AList.delete (fst x) (vd_entries c)"
  "vd_maximum_entries (remove_video_entry counts x c) = vd_maximum_entries c"
  "vd_maximum_bytes (remove_video_entry counts x c) = vd_maximum_bytes c"
  "vd_tier_maximum (remove_video_entry counts x c) = vd_tier_maximum c"
  "vd_resident_bytes (remove_video_entry counts x c) = vd_resident_bytes c - ve_size_bytes (snd x)"
  "vd_tier_bytes (remove_video_entry counts x c) = (vd_tier_bytes c)(ve_kind (snd x) :=
     vd_tier_bytes c (ve_kind (snd x)) - ve_size_bytes (snd x))"
  by (simp_all add: remove_video_entry_def remove_accounting_def Let_def split: prod.split)

lemma shorter_delete: "x \<in> set d \<Longrightarrow> length (AList.delete (fst x) d) < length d"
proof (induction d)
  case (Cons y d)
  then show ?case using length_delete_le [of "fst x" d] by (cases y; cases x) auto
qed simp

termination evict_tier
proof (relation "measure (\<lambda>(kind, c). length (vd_entries c))")
  fix kind and c :: "'v video_cache" and x
  assume "find (\<lambda>(d, e). ve_kind e = kind) (vd_entries c) = Some x"
  then have "x \<in> set (vd_entries c)" by (metis find_Some_iff nth_mem)
  then show "((kind, remove_video_entry True x c), kind, c) \<in> measure (\<lambda>(kind, c). length (vd_entries c))"
    by (simp add: shorter_delete)
qed simp

function evict_global :: "('v video_cache, unit) method" where
  "evict_global c =
     (if int (length (vd_entries c)) \<le> vd_maximum_entries c \<and> vd_resident_bytes c \<le> vd_maximum_bytes c then (Inr (), c)
      else (case vd_entries c of [] \<Rightarrow> (Inl StopIteration, c)
            | x # d \<Rightarrow> evict_global (remove_video_entry True x c)))"
  by pat_completeness auto
termination
proof (relation "measure (\<lambda>c. length (vd_entries c))")
  fix c :: "'v video_cache" and x d
  assume "vd_entries c = x # d"
  then show "(remove_video_entry True x c, c) \<in> measure (\<lambda>c. length (vd_entries c))"
    using shorter_delete [of x "vd_entries c"] by simp
qed simp

declare evict_tier.simps [simp del] evict_global.simps [simp del]

definition video_put :: "(json \<Rightarrow> string) \<Rightarrow> video_key \<Rightarrow> 'v \<Rightarrow> int \<Rightarrow> ('v video_cache, bool) method" where
  "video_put digest k v nbytes c =
     (if \<not> (1 \<le> nbytes \<and> nbytes \<le> min (vd_tier_maximum c (vy_kind k)) (vd_maximum_bytes c))
      then (Inr False, c\<lparr>vd_rejected_oversize := vd_rejected_oversize c + 1\<rparr>)
      else
        let d = video_digest digest k;
            c1 = (case map_of (vd_entries c) d of None \<Rightarrow> c | Some previous \<Rightarrow> remove_video_entry False (d, previous) c);
            c2 = c1\<lparr>vd_entries := vd_entries c1 @ [(d, \<lparr>ve_key = k, ve_value = v, ve_size_bytes = nbytes\<rparr>)],
                    vd_resident_bytes := vd_resident_bytes c1 + nbytes,
                    vd_tier_bytes := (vd_tier_bytes c1)(vy_kind k := vd_tier_bytes c1 (vy_kind k) + nbytes)\<rparr>
        in case evict_tier (vy_kind k) c2 of
             (Inl e, c3) \<Rightarrow> (Inl e, c3)
           | (Inr u, c3) \<Rightarrow>
               (case evict_global c3 of (r, c4) \<Rightarrow> (map_sum id (\<lambda>_. d \<in> set (keys (vd_entries c4))) r, c4)))"

definition video_clear :: "video_kind option \<Rightarrow> 'v video_cache \<Rightarrow> 'v video_cache" where
  "video_clear kind c =
     (case kind of
        None \<Rightarrow> c\<lparr>vd_entries := [], vd_resident_bytes := 0, vd_tier_bytes := (\<lambda>kind. 0)\<rparr>
      | Some q \<Rightarrow> fold (remove_video_entry False) (filter (\<lambda>(d, e). ve_kind e = q) (vd_entries c)) c)"

record video_tier_snapshot =
  vr_kind :: video_kind
  vr_entries :: int
  vr_resident_bytes :: int
  vr_hits :: int
  vr_misses :: int
  vr_evictions :: int

record video_snapshot =
  vs_entries :: int
  vs_resident_bytes :: int
  vs_rejected_oversize :: int
  vs_tiers :: "video_tier_snapshot list"

definition video_snapshot_of :: "'v video_cache \<Rightarrow> video_snapshot" where
  "video_snapshot_of c =
     \<lparr>vs_entries = int (length (vd_entries c)), vs_resident_bytes = vd_resident_bytes c,
      vs_rejected_oversize = vd_rejected_oversize c,
      vs_tiers = map (\<lambda>kind. \<lparr>vr_kind = kind,
        vr_entries = int (length (filter (\<lambda>(d, e). ve_kind e = kind) (vd_entries c))),
        vr_resident_bytes = vd_tier_bytes c kind, vr_hits = vd_hits c kind, vr_misses = vd_misses c kind,
        vr_evictions = vd_evictions c kind\<rparr>) video_kinds\<rparr>"

section \<open>The invariant\<close>

text \<open>The bytes of one kind, as a sum over the entries.\<close>

definition of_kind :: "video_kind \<Rightarrow> 'v video_entry \<Rightarrow> int" where
  "of_kind kind e = (if ve_kind e = kind then ve_size_bytes e else 0)"

definition video_counted :: "'v video_cache \<Rightarrow> bool" where
  "video_counted c \<longleftrightarrow> dict_ok (vd_entries c) \<and> 1 \<le> vd_maximum_entries c
     \<and> (\<forall>kind. 1 \<le> vd_tier_maximum c kind \<and> vd_tier_maximum c kind \<le> vd_maximum_bytes c)
     \<and> (\<forall>x\<in>set (vd_entries c). 1 \<le> ve_size_bytes (snd x))
     \<and> vd_resident_bytes c = asum ve_size_bytes (vd_entries c)
     \<and> (\<forall>kind. vd_tier_bytes c kind = asum (of_kind kind) (vd_entries c))"

definition video_ok :: "'v video_cache \<Rightarrow> bool" where
  "video_ok c \<longleftrightarrow> video_counted c \<and> int (length (vd_entries c)) \<le> vd_maximum_entries c
     \<and> vd_resident_bytes c \<le> vd_maximum_bytes c \<and> (\<forall>kind. vd_tier_bytes c kind \<le> vd_tier_maximum c kind)"

definition same_video_limits :: "'v video_cache \<Rightarrow> 'v video_cache \<Rightarrow> bool" where
  "same_video_limits c c' \<longleftrightarrow> vd_maximum_entries c' = vd_maximum_entries c \<and> vd_maximum_bytes c' = vd_maximum_bytes c
     \<and> vd_tier_maximum c' = vd_tier_maximum c"

lemma same_video_limits_refl [simp]: "same_video_limits c c"
  by (simp add: same_video_limits_def)

lemma remove_counted:
  assumes "video_counted c" and "x \<in> set (vd_entries c)"
  shows "video_counted (remove_video_entry counts x c) \<and> same_video_limits c (remove_video_entry counts x c)"
proof -
  have d: "dict_ok (vd_entries c)" and x: "map_of (vd_entries c) (fst x) = Some (snd x)"
    using assms by (simp_all add: video_counted_def)
  have "\<forall>y\<in>set (AList.delete (fst x) (vd_entries c)). 1 \<le> ve_size_bytes (snd y)"
    using assms(1) delete_subset unfolding video_counted_def by fast
  then show ?thesis
    using assms(1) asum_delete [OF d x, of ve_size_bytes] asum_delete [OF d x, of "of_kind kind" for kind] dict_ok_delete [OF d]
    by (auto simp: video_counted_def same_video_limits_def of_kind_def)
qed

lemma find_middle: "P y \<Longrightarrow> \<forall>z\<in>set ys. \<not> P z \<Longrightarrow> find P (ys @ y # zs) = Some y"
  by (induction ys) auto

lemma delete_middle: "dict_ok (ys @ y # zs) \<Longrightarrow> AList.delete (fst y) (ys @ y # zs) = ys @ zs"
  by (induction ys) (auto simp: delete_fresh)

lemma asum_no_kind: "\<forall>x\<in>set d. ve_kind (snd x) \<noteq> kind \<Longrightarrow> asum (of_kind kind) d = 0"
  by (induction d) (auto simp: of_kind_def)

lemma evict_tier_spec:
  assumes "video_counted c" and "vd_entries c = older @ [x]" and "ve_kind (snd x) = kind"
    and "ve_size_bytes (snd x) \<le> vd_tier_maximum c kind"
  shows "\<exists>left c'. evict_tier kind c = (Inr (), c') \<and> video_counted c' \<and> same_video_limits c c'
    \<and> vd_entries c' = left @ [x] \<and> vd_tier_bytes c' kind \<le> vd_tier_maximum c kind
    \<and> (\<forall>other. other \<noteq> kind \<longrightarrow> vd_tier_bytes c' other = vd_tier_bytes c other)
    \<and> filter (\<lambda>y. ve_kind (snd y) \<noteq> kind) left = filter (\<lambda>y. ve_kind (snd y) \<noteq> kind) older
    \<and> suffix (filter (\<lambda>y. ve_kind (snd y) = kind) left) (filter (\<lambda>y. ve_kind (snd y) = kind) older)"
  using assms
proof (induction kind c arbitrary: older rule: evict_tier.induct)
  case (1 kind c)
  show ?case
  proof (cases "vd_tier_bytes c kind \<le> vd_tier_maximum c kind")
    case True
    then show ?thesis using "1.prems" by (intro exI [of _ older] exI [of _ c]) (simp add: evict_tier.simps [of kind c])
  next
    case False
    have "\<exists>y\<in>set older. ve_kind (snd y) = kind"
    proof (rule ccontr)
      assume "\<not> ?thesis"
      then have "asum (of_kind kind) (vd_entries c) = ve_size_bytes (snd x)"
        using "1.prems"(2,3) by (cases x) (simp add: asum_no_kind of_kind_def)
      then show False using False "1.prems"(1,4) by (simp add: video_counted_def)
    qed
    then obtain ys y zs where split: "older = ys @ y # zs" "ve_kind (snd y) = kind" "\<forall>z\<in>set ys. ve_kind (snd z) \<noteq> kind"
      using split_list_first_prop [of older "\<lambda>y. ve_kind (snd y) = kind"] by blast
    have find: "find (\<lambda>(d, e). ve_kind e = kind) (vd_entries c) = Some y"
      using find_middle [of "\<lambda>(d, e). ve_kind e = kind" y ys "zs @ [x]"] split
      by (simp add: "1.prems"(2) case_prod_unfold)
    let ?c = "remove_video_entry True y c"
    have y: "video_counted ?c" "same_video_limits c ?c"
      using remove_counted [OF "1.prems"(1), of y True] by (simp_all add: "1.prems"(2) split(1))
    have e: "vd_entries ?c = (ys @ zs) @ [x]"
      using delete_middle [of ys y "zs @ [x]"] "1.prems"(1,2) by (simp add: split(1) video_counted_def)
    have "ve_size_bytes (snd x) \<le> vd_tier_maximum ?c kind" using "1.prems"(4) by simp
    from "1.IH" [OF False find y(1) e "1.prems"(3) this] obtain left c' where IH: "evict_tier kind ?c = (Inr (), c')"
      "video_counted c'" "same_video_limits ?c c'" "vd_entries c' = left @ [x]"
      "vd_tier_bytes c' kind \<le> vd_tier_maximum ?c kind"
      "\<forall>other. other \<noteq> kind \<longrightarrow> vd_tier_bytes c' other = vd_tier_bytes ?c other"
      "filter (\<lambda>y. ve_kind (snd y) \<noteq> kind) left = filter (\<lambda>y. ve_kind (snd y) \<noteq> kind) (ys @ zs)"
      "suffix (filter (\<lambda>y. ve_kind (snd y) = kind) left) (filter (\<lambda>y. ve_kind (snd y) = kind) (ys @ zs))" by blast
    have "evict_tier kind c = (Inr (), c')" using False find IH(1) by (simp add: evict_tier.simps [of kind c])
    moreover have "suffix (filter (\<lambda>y. ve_kind (snd y) = kind) left) (filter (\<lambda>y. ve_kind (snd y) = kind) older)"
      using IH(8) split by (auto simp: suffix_def filter_empty_conv intro: exI [of _ "y # _"])
    ultimately show ?thesis
      using IH(2-7) y(2) split(2) by (intro exI [of _ left] exI [of _ c']) (auto simp: same_video_limits_def split(1))
  qed
qed

lemma evict_global_spec:
  assumes "video_counted c"
  shows "\<exists>c'. evict_global c = (Inr (), c') \<and> video_counted c' \<and> same_video_limits c c'
    \<and> vd_entries c' = fitting (vd_maximum_entries c) (vd_maximum_bytes c) ve_size_bytes (vd_entries c)
    \<and> (\<forall>kind. vd_tier_bytes c' kind \<le> vd_tier_bytes c kind)"
  using assms
proof (induction c rule: evict_global.induct)
  case (1 c)
  show ?case
  proof (cases "int (length (vd_entries c)) \<le> vd_maximum_entries c \<and> vd_resident_bytes c \<le> vd_maximum_bytes c")
    case True
    then show ?thesis using "1.prems" by (simp add: evict_global.simps [of c] video_counted_def)
  next
    case False
    have "0 \<le> vd_maximum_bytes c" using "1.prems" by (auto simp: video_counted_def intro: order_trans [of 0 1])
    with False "1.prems" obtain x d where xd: "vd_entries c = x # d"
      by (cases "vd_entries c") (auto simp: video_counted_def)
    let ?c = "remove_video_entry True x c"
    have y: "video_counted ?c" "same_video_limits c ?c"
      using remove_counted [OF "1.prems", of x True] by (simp_all add: xd)
    have d: "vd_entries ?c = d"
      using delete_middle [of "[]" x d] "1.prems" by (simp add: xd video_counted_def)
    from "1.IH" [OF False xd y(1)] obtain c' where IH: "evict_global ?c = (Inr (), c')" "video_counted c'"
      "same_video_limits ?c c'" "vd_entries c' = fitting (vd_maximum_entries c) (vd_maximum_bytes c) ve_size_bytes d"
      "\<forall>kind. vd_tier_bytes c' kind \<le> vd_tier_bytes ?c kind" using d by auto
    have "0 \<le> ve_size_bytes (snd x)" using "1.prems" by (auto simp: video_counted_def xd)
    then have "vd_tier_bytes ?c kind \<le> vd_tier_bytes c kind" for kind by simp
    then have "\<forall>kind. vd_tier_bytes c' kind \<le> vd_tier_bytes c kind" using IH(5) order_trans by blast
    moreover have "fitting (vd_maximum_entries c) (vd_maximum_bytes c) ve_size_bytes (vd_entries c)
        = fitting (vd_maximum_entries c) (vd_maximum_bytes c) ve_size_bytes d"
      using False "1.prems" by (auto simp: xd video_counted_def)
    moreover have "evict_global c = (Inr (), c')"
      using IH(1) False by (simp only: evict_global.simps [of c] xd if_False list.case)
    ultimately show ?thesis using IH(2-4) y(2) by (simp add: same_video_limits_def)
  qed
qed

lemma new_video_ok:
  assumes "new_video_cache n b tiers = Inr c"
  shows "video_ok c"
proof -
  have tiers: "\<forall>kind\<in>set video_kinds. 1 \<le> vd_tier_maximum c kind \<and> vd_tier_maximum c kind \<le> b"
    and c: "vd_maximum_bytes c = b" "1 \<le> vd_maximum_entries c" "vd_entries c = []" "vd_resident_bytes c = 0"
      "vd_tier_bytes c = (\<lambda>kind. 0)"
    using assms by (auto simp: new_video_cache_def Let_def list_ex_iff split: if_splits)
  have "1 \<le> vd_tier_maximum c kind \<and> vd_tier_maximum c kind \<le> b" for kind
    using tiers by (cases kind) (simp_all add: video_kinds_def)
  moreover from this [of Frame] have "0 \<le> b" by simp
  ultimately show ?thesis using c by (simp add: video_ok_def video_counted_def order_trans [of 0 1])
qed

text \<open>The cache after the previous entry was taken out and the new one appended, before any eviction.\<close>

definition with_newest :: "string \<Rightarrow> 'v video_entry \<Rightarrow> 'v video_cache \<Rightarrow> 'v video_cache" where
  "with_newest d e c =
     (let c1 = (case map_of (vd_entries c) d of None \<Rightarrow> c | Some previous \<Rightarrow> remove_video_entry False (d, previous) c)
      in c1\<lparr>vd_entries := vd_entries c1 @ [(d, e)], vd_resident_bytes := vd_resident_bytes c1 + ve_size_bytes e,
            vd_tier_bytes := (vd_tier_bytes c1)(ve_kind e := vd_tier_bytes c1 (ve_kind e) + ve_size_bytes e)\<rparr>)"

lemma with_newest_counted:
  assumes "video_counted c" and "1 \<le> ve_size_bytes e"
  shows "video_counted (with_newest d e c) \<and> same_video_limits c (with_newest d e c)
    \<and> vd_entries (with_newest d e c) = AList.delete d (vd_entries c) @ [(d, e)]
    \<and> (\<forall>kind. kind \<noteq> ve_kind e \<longrightarrow> vd_tier_bytes (with_newest d e c) kind \<le> vd_tier_bytes c kind)"
proof -
  define c1 where "c1 = (case map_of (vd_entries c) d of None \<Rightarrow> c | Some previous \<Rightarrow> remove_video_entry False (d, previous) c)"
  have c1: "video_counted c1" "same_video_limits c c1" "vd_entries c1 = AList.delete d (vd_entries c)"
    "vd_tier_bytes c1 kind \<le> vd_tier_bytes c kind" for kind
  proof -
    have "video_counted c1 \<and> same_video_limits c c1 \<and> vd_entries c1 = AList.delete d (vd_entries c)
        \<and> vd_tier_bytes c1 kind \<le> vd_tier_bytes c kind" for kind
    proof (cases "map_of (vd_entries c) d")
      case None
      then have "AList.delete d (vd_entries c) = vd_entries c" using map_of_None_keys by (intro delete_fresh) fast
      with None assms(1) show ?thesis by (simp add: c1_def)
    next
      case (Some p)
      then have "0 \<le> ve_size_bytes p" using assms(1) map_of_SomeD [OF Some] by (force simp: video_counted_def)
      then show ?thesis
        using Some remove_counted [OF assms(1) map_of_SomeD [OF Some], of False] by (simp add: c1_def)
    qed
    then show "video_counted c1" "same_video_limits c c1" "vd_entries c1 = AList.delete d (vd_entries c)"
      "vd_tier_bytes c1 kind \<le> vd_tier_bytes c kind" by blast+
  qed
  have w: "with_newest d e c = c1\<lparr>vd_entries := vd_entries c1 @ [(d, e)],
      vd_resident_bytes := vd_resident_bytes c1 + ve_size_bytes e,
      vd_tier_bytes := (vd_tier_bytes c1)(ve_kind e := vd_tier_bytes c1 (ve_kind e) + ve_size_bytes e)\<rparr>"
    by (simp add: with_newest_def c1_def Let_def)
  have "d \<notin> fst ` set (vd_entries c1)" using delete_keys [of d "vd_entries c"] by (simp add: c1(3))
  then have "video_counted (with_newest d e c)"
    using c1(1) assms(2) by (auto simp: w video_counted_def of_kind_def)
  then show ?thesis using c1(2-4) by (simp add: w same_video_limits_def)
qed

lemma video_put_cases:
  assumes "video_ok c" and "1 \<le> n" and "n \<le> vd_tier_maximum c (vy_kind k)"
  obtains left c' where "video_put digest k v n c = (Inr True, c')" "video_ok c'" "same_video_limits c c'"
    "vd_entries c' = fitting (vd_maximum_entries c) (vd_maximum_bytes c) ve_size_bytes
       (left @ [(video_digest digest k, \<lparr>ve_key = k, ve_value = v, ve_size_bytes = n\<rparr>)])"
    "filter (\<lambda>y. ve_kind (snd y) \<noteq> vy_kind k) left
       = filter (\<lambda>y. ve_kind (snd y) \<noteq> vy_kind k) (AList.delete (video_digest digest k) (vd_entries c))"
    "suffix (filter (\<lambda>y. ve_kind (snd y) = vy_kind k) left)
       (filter (\<lambda>y. ve_kind (snd y) = vy_kind k) (AList.delete (video_digest digest k) (vd_entries c)))"
    "map_of (vd_entries c') (video_digest digest k) = Some \<lparr>ve_key = k, ve_value = v, ve_size_bytes = n\<rparr>"
proof -
  let ?d = "video_digest digest k"
  let ?e = "\<lparr>ve_key = k, ve_value = v, ve_size_bytes = n\<rparr>"
  let ?c2 = "with_newest ?d ?e c"
  have counted: "video_counted c" using assms(1) by (simp add: video_ok_def)
  note c2 = with_newest_counted [OF counted, of ?e ?d]
  have "\<exists>left c3. evict_tier (vy_kind k) ?c2 = (Inr (), c3) \<and> video_counted c3 \<and> same_video_limits ?c2 c3
    \<and> vd_entries c3 = left @ [(?d, ?e)] \<and> vd_tier_bytes c3 (vy_kind k) \<le> vd_tier_maximum ?c2 (vy_kind k)
    \<and> (\<forall>other. other \<noteq> vy_kind k \<longrightarrow> vd_tier_bytes c3 other = vd_tier_bytes ?c2 other)
    \<and> filter (\<lambda>y. ve_kind (snd y) \<noteq> vy_kind k) left = filter (\<lambda>y. ve_kind (snd y) \<noteq> vy_kind k) (AList.delete ?d (vd_entries c))
    \<and> suffix (filter (\<lambda>y. ve_kind (snd y) = vy_kind k) left) (filter (\<lambda>y. ve_kind (snd y) = vy_kind k) (AList.delete ?d (vd_entries c)))"
    by (rule evict_tier_spec) (use c2 assms(2,3) in \<open>simp_all add: same_video_limits_def\<close>)
  then obtain left c3 where c3: "evict_tier (vy_kind k) ?c2 = (Inr (), c3)" "video_counted c3" "same_video_limits ?c2 c3"
    "vd_entries c3 = left @ [(?d, ?e)]" "vd_tier_bytes c3 (vy_kind k) \<le> vd_tier_maximum ?c2 (vy_kind k)"
    "\<forall>other. other \<noteq> vy_kind k \<longrightarrow> vd_tier_bytes c3 other = vd_tier_bytes ?c2 other"
    "filter (\<lambda>y. ve_kind (snd y) \<noteq> vy_kind k) left = filter (\<lambda>y. ve_kind (snd y) \<noteq> vy_kind k) (AList.delete ?d (vd_entries c))"
    "suffix (filter (\<lambda>y. ve_kind (snd y) = vy_kind k) left) (filter (\<lambda>y. ve_kind (snd y) = vy_kind k) (AList.delete ?d (vd_entries c)))"
    by blast
  from evict_global_spec [OF c3(2)] obtain c4 where c4: "evict_global c3 = (Inr (), c4)" "video_counted c4"
    "same_video_limits c3 c4"
    "vd_entries c4 = fitting (vd_maximum_entries c3) (vd_maximum_bytes c3) ve_size_bytes (left @ [(?d, ?e)])"
    "\<forall>kind. vd_tier_bytes c4 kind \<le> vd_tier_bytes c3 kind" by (auto simp: c3(4))
  have limits: "vd_maximum_entries c3 = vd_maximum_entries c" "vd_maximum_bytes c3 = vd_maximum_bytes c"
    "same_video_limits c c4" "vd_tier_maximum ?c2 = vd_tier_maximum c"
    using c2 c3(3) c4(3) assms(2) by (simp_all add: same_video_limits_def)
  have small: "n \<le> vd_maximum_bytes c" "1 \<le> vd_maximum_entries c" "0 \<le> vd_maximum_bytes c"
    using counted assms(2,3) by (auto simp: video_counted_def intro: order_trans)
  have "suffix [(?d, ?e)] (vd_entries c4)"
    unfolding c4(4) by (rule fitting_greatest) (use small in \<open>simp_all add: limits suffix_def\<close>)
  then have last: "(?d, ?e) \<in> set (vd_entries c4)" by (auto simp: suffix_def)
  then have found: "map_of (vd_entries c4) ?d = Some ?e" using c4(2) by (simp add: video_counted_def)
  have "vd_tier_bytes c3 kind \<le> vd_tier_maximum c kind" for kind
  proof (cases "kind = vy_kind k")
    case True
    then show ?thesis using c3(5) by (simp add: limits(4))
  next
    case False
    then have "vd_tier_bytes c3 kind \<le> vd_tier_bytes c kind" using c3(6) c2 assms(2) by simp
    also have "\<dots> \<le> vd_tier_maximum c kind" using assms(1) by (simp add: video_ok_def)
    finally show ?thesis .
  qed
  then have "vd_tier_bytes c4 kind \<le> vd_tier_maximum c kind" for kind using c4(5) order_trans by blast
  then have ok: "video_ok c4"
    using c4(2,4) limits small fitting_within [of "vd_maximum_entries c" "vd_maximum_bytes c" ve_size_bytes "left @ [(?d, ?e)]"]
    by (simp add: video_ok_def same_video_limits_def) (simp add: video_counted_def)
  have "video_put digest k v n c = (Inr (?d \<in> set (keys (vd_entries c4))), c4)"
    using assms(2,3) small(1) c3(1) c4(1) by (simp add: video_put_def Let_def with_newest_def)
  moreover have "?d \<in> set (keys (vd_entries c4))" using last by force
  ultimately show ?thesis using that [of c4 left] ok limits c4(4) c3(7,8) found by simp
qed

lemma remove_ok:
  assumes "video_ok c" and "x \<in> set (vd_entries c)"
  shows "video_ok (remove_video_entry counts x c) \<and> same_video_limits c (remove_video_entry counts x c)"
proof -
  have "video_counted c" "1 \<le> ve_size_bytes (snd x)" using assms by (auto simp: video_ok_def video_counted_def)
  moreover have "vd_tier_bytes (remove_video_entry counts x c) kind \<le> vd_tier_maximum c kind" for kind
    using assms(1) \<open>1 \<le> ve_size_bytes (snd x)\<close> by (simp add: video_ok_def) (smt (verit))
  ultimately show ?thesis
    using remove_counted [of c x counts] assms length_delete_le [of "fst x" "vd_entries c"]
    by (simp add: video_ok_def)
qed

lemma fold_remove_ok:
  assumes "video_ok c" and "dict_ok xs" and "set xs \<subseteq> set (vd_entries c)"
  shows "video_ok (fold (remove_video_entry False) xs c) \<and> same_video_limits c (fold (remove_video_entry False) xs c)"
  using assms
proof (induction xs arbitrary: c)
  case (Cons x xs)
  have x: "video_ok (remove_video_entry False x c)" "same_video_limits c (remove_video_entry False x c)"
    using remove_ok [OF Cons.prems(1), of x False] Cons.prems(3) by auto
  have "set xs \<subseteq> set (vd_entries (remove_video_entry False x c))"
    using Cons.prems(2,3) by (auto simp: set_delete image_iff)
  with Cons.IH [OF x(1)] Cons.prems(2) x(2) show ?case by (simp add: same_video_limits_def)
qed simp

inductive video_step :: "(json \<Rightarrow> string) \<Rightarrow> 'v video_cache \<Rightarrow> 'v video_cache \<Rightarrow> bool" for digest where
  looks_up: "video_step digest c (snd (video_get digest k c))"
| stores: "video_step digest c (snd (video_put digest k v n c))"
| clears: "video_step digest c (video_clear kind c)"

lemma video_step_ok:
  assumes "video_ok c" and "video_step digest c c'"
  shows "video_ok c' \<and> same_video_limits c c'"
  using assms(2)
proof cases
  case (looks_up k)
  then show ?thesis using assms(1)
    by (auto simp: video_get_def video_ok_def video_counted_def same_video_limits_def split: option.splits)
next
  case (stores k v n)
  show ?thesis
  proof (cases "1 \<le> n \<and> n \<le> vd_tier_maximum c (vy_kind k)")
    case True
    with assms(1) show ?thesis
      unfolding stores by (elim conjE) (rule video_put_cases [of c n k digest v]; simp)
  next
    case False
    moreover have "vd_tier_maximum c (vy_kind k) \<le> vd_maximum_bytes c"
      using assms(1) by (simp add: video_ok_def video_counted_def)
    ultimately have "c' = c\<lparr>vd_rejected_oversize := vd_rejected_oversize c + 1\<rparr>"
      by (simp add: stores video_put_def min_absorb1)
    moreover have "video_ok (c\<lparr>vd_rejected_oversize := r\<rparr>) = video_ok c" for r
      by (simp add: video_ok_def video_counted_def)
    ultimately show ?thesis using assms(1) by (simp add: same_video_limits_def)
  qed
next
  case (clears kind)
  show ?thesis
  proof (cases kind)
    case None
    have "0 \<le> vd_maximum_bytes c" "\<forall>kind. 0 \<le> vd_tier_maximum c kind" "0 \<le> vd_maximum_entries c"
      using assms(1) by (auto simp: video_ok_def video_counted_def intro: order_trans [of 0 1] order_trans)
    with None show ?thesis using assms(1)
      by (simp add: clears video_clear_def video_ok_def video_counted_def same_video_limits_def)
  next
    case (Some q)
    have "dict_ok (filter (\<lambda>(d, e). ve_kind e = q) (vd_entries c))"
      using assms(1) by (simp add: video_ok_def video_counted_def distinct_map_filter)
    then show ?thesis using fold_remove_ok [OF assms(1)] Some by (auto simp: clears video_clear_def)
  qed
qed

lemma video_steps_ok: "(video_step digest)\<^sup>*\<^sup>* c c' \<Longrightarrow> video_ok c \<Longrightarrow> video_ok c' \<and> same_video_limits c c'"
proof (induction rule: rtranclp_induct)
  case (step d e)
  then show ?case using video_step_ok [of d digest e] by (simp add: same_video_limits_def)
qed simp

section \<open>The property\<close>

text \<open>The video cache keeps its budgets.  After any calls on a new cache the counters are the sums over the
  entries, in all and per kind, and no limit is exceeded.  A put succeeds exactly when the size is within the
  budget of its kind; then the value is found under its key, the older entries of the same kind make room first
  (the oldest of them go), and of the other kinds only what the global limits demand, oldest first.\<close>
theorem video_cache_keeps_budgets:
  assumes "new_video_cache n b tiers = Inr c0" and "(video_step digest)\<^sup>*\<^sup>* c0 c"
  shows "vd_resident_bytes c = asum ve_size_bytes (vd_entries c)
    \<and> (\<forall>kind. vd_tier_bytes c kind = asum (of_kind kind) (vd_entries c)
         \<and> vd_tier_bytes c kind \<le> (case tiers kind of None \<Rightarrow> b | Some t \<Rightarrow> t))
    \<and> int (length (vd_entries c)) \<le> n \<and> vd_resident_bytes c \<le> b
    \<and> (\<forall>k v w. if 1 \<le> w \<and> w \<le> (case tiers (vy_kind k) of None \<Rightarrow> b | Some t \<Rightarrow> t)
         then \<exists>left c'. video_put digest k v w c = (Inr True, c') \<and> fst (video_get digest k c') = Some v
           \<and> vd_entries c' = fitting n b ve_size_bytes
               (left @ [(video_digest digest k, \<lparr>ve_key = k, ve_value = v, ve_size_bytes = w\<rparr>)])
           \<and> filter (\<lambda>y. ve_kind (snd y) \<noteq> vy_kind k) left
               = filter (\<lambda>y. ve_kind (snd y) \<noteq> vy_kind k) (AList.delete (video_digest digest k) (vd_entries c))
           \<and> suffix (filter (\<lambda>y. ve_kind (snd y) = vy_kind k) left)
               (filter (\<lambda>y. ve_kind (snd y) = vy_kind k) (AList.delete (video_digest digest k) (vd_entries c)))
         else fst (video_put digest k v w c) = Inr False \<and> vd_entries (snd (video_put digest k v w c)) = vd_entries c)"
proof -
  have c: "video_ok c" "same_video_limits c0 c"
    using video_steps_ok [OF assms(2) new_video_ok [OF assms(1)]] by auto
  have limits: "vd_maximum_entries c = n" "vd_maximum_bytes c = b"
    "vd_tier_maximum c = (\<lambda>kind. case tiers kind of None \<Rightarrow> b | Some t \<Rightarrow> t)"
    using c(2) assms(1) by (auto simp: same_video_limits_def new_video_cache_def Let_def split: if_splits)
  have tier: "vd_tier_maximum c kind \<le> b" for kind using c(1) by (simp add: video_ok_def video_counted_def limits(2))
  have accepted: "\<exists>left c'. video_put digest k v w c = (Inr True, c') \<and> fst (video_get digest k c') = Some v
      \<and> vd_entries c' = fitting n b ve_size_bytes
          (left @ [(video_digest digest k, \<lparr>ve_key = k, ve_value = v, ve_size_bytes = w\<rparr>)])
      \<and> filter (\<lambda>y. ve_kind (snd y) \<noteq> vy_kind k) left
          = filter (\<lambda>y. ve_kind (snd y) \<noteq> vy_kind k) (AList.delete (video_digest digest k) (vd_entries c))
      \<and> suffix (filter (\<lambda>y. ve_kind (snd y) = vy_kind k) left)
          (filter (\<lambda>y. ve_kind (snd y) = vy_kind k) (AList.delete (video_digest digest k) (vd_entries c)))"
    if w: "1 \<le> w" "w \<le> vd_tier_maximum c (vy_kind k)" for k v w
  proof (rule video_put_cases [OF c(1) w, of digest v])
    fix left c'
    assume "video_put digest k v w c = (Inr True, c')"
      and "map_of (vd_entries c') (video_digest digest k) = Some \<lparr>ve_key = k, ve_value = v, ve_size_bytes = w\<rparr>"
      and "vd_entries c' = fitting (vd_maximum_entries c) (vd_maximum_bytes c) ve_size_bytes
        (left @ [(video_digest digest k, \<lparr>ve_key = k, ve_value = v, ve_size_bytes = w\<rparr>)])"
      and "filter (\<lambda>y. ve_kind (snd y) \<noteq> vy_kind k) left
        = filter (\<lambda>y. ve_kind (snd y) \<noteq> vy_kind k) (AList.delete (video_digest digest k) (vd_entries c))"
      and "suffix (filter (\<lambda>y. ve_kind (snd y) = vy_kind k) left)
        (filter (\<lambda>y. ve_kind (snd y) = vy_kind k) (AList.delete (video_digest digest k) (vd_entries c)))"
    then show ?thesis by (intro exI [of _ left] exI [of _ c']) (simp add: video_get_def limits(1,2))
  qed
  have "fst (video_put digest k v w c) = Inr False \<and> vd_entries (snd (video_put digest k v w c)) = vd_entries c"
    if "\<not> (1 \<le> w \<and> w \<le> vd_tier_maximum c (vy_kind k))" for k v w
    using that by (auto simp: video_put_def)
  moreover have "vd_resident_bytes c = asum ve_size_bytes (vd_entries c)
      \<and> (\<forall>kind. vd_tier_bytes c kind = asum (of_kind kind) (vd_entries c) \<and> vd_tier_bytes c kind \<le> vd_tier_maximum c kind)
      \<and> int (length (vd_entries c)) \<le> n \<and> vd_resident_bytes c \<le> b"
    using c(1) unfolding video_ok_def video_counted_def limits(1,2) by blast
  ultimately show ?thesis using accepted unfolding limits(3) if_bool_eq_conj by blast
qed

text \<open>A scene of three bytes beside a frame, in a cache whose frames have two bytes.\<close>

fun example_video_digest :: "json \<Rightarrow> string" where
  "example_video_digest (JObj (x # y # (name, JStr m) # others)) = m"
| "example_video_digest _ = []"

definition example_video_key :: "video_kind \<Rightarrow> string \<Rightarrow> video_key" where
  "example_video_key kind x = \<lparr>vy_kind = kind, vy_video_sha256 = x, vy_transform_fingerprint = x,
     vy_model_fingerprint = x, vy_start_microseconds = 0, vy_end_microseconds = 1\<rparr>"

definition example_video_cache :: "int video_cache" where
  "example_video_cache = (case new_video_cache 4 4 [Frame \<mapsto> 2] of Inr c \<Rightarrow> c)"

theorem video_cache_keeps_budgets_witness:
  "fst (video_put example_video_digest (example_video_key Frame ''a'') 10 3 example_video_cache) = Inr False
   \<and> (\<exists>c'. video_put example_video_digest (example_video_key Frame ''a'') 10 2 example_video_cache = (Inr True, c')
        \<and> fst (video_get example_video_digest (example_video_key Frame ''a'') c') = Some 10)"
proof -
  have new: "new_video_cache 4 4 [Frame \<mapsto> 2] = Inr example_video_cache"
    by (simp add: example_video_cache_def new_video_cache_def video_kinds_def)
  note put = video_cache_keeps_budgets [OF new rtranclp.rtrancl_refl, THEN conjunct2, THEN conjunct2, THEN conjunct2,
      THEN conjunct2, rule_format]
  have "fst (video_put example_video_digest (example_video_key Frame ''a'') 10 3 example_video_cache) = Inr False"
    using put [of 3 "example_video_key Frame ''a''" example_video_digest 10] by (simp add: example_video_key_def)
  moreover have "\<exists>c'. video_put example_video_digest (example_video_key Frame ''a'') 10 2 example_video_cache = (Inr True, c')
      \<and> fst (video_get example_video_digest (example_video_key Frame ''a'') c') = Some 10"
    using put [of 2 "example_video_key Frame ''a''" example_video_digest 10] by (auto simp: example_video_key_def)
  ultimately show ?thesis by simp
qed

end
