(* ===== verification/StateCache.thy ===== *)
theory StateCache
  imports LruCache
begin

text \<open>
  \<open>vllm_apple/hierarchical_state_cache.py\<close>: a hot tier in memory over a cold tier of private files.  Bytes
  are strings of characters; SHA-256 in hexadecimal is \<open>sha\<close>.  The state holds the directory's files, so that
  the cold tier can be compared with it.  A file is its content and whether \<open>fstat\<close> finds it a private
  regular file.  Whether writing a file succeeds is an argument of each call, by key: within a call a key is
  written at most once.  Every method is one step under the lock.
\<close>

definition MAX_HIERARCHICAL_CACHE_ENTRIES :: int where "MAX_HIERARCHICAL_CACHE_ENTRIES = 65536"
definition MAX_HIERARCHICAL_CACHE_BYTES :: int where "MAX_HIERARCHICAL_CACHE_BYTES = 2 ^ 40"

datatype state_kind = KVState | PrefixState | VisionEmbedding | VideoEmbedding | AudioEmbedding

fun state_kind_value :: "state_kind \<Rightarrow> string" where
  "state_kind_value KVState = ''kv''"
| "state_kind_value PrefixState = ''prefix''"
| "state_kind_value VisionEmbedding = ''vision_embedding''"
| "state_kind_value VideoEmbedding = ''video_embedding''"
| "state_kind_value AudioEmbedding = ''audio_embedding''"

record state_key =
  sk_kind :: state_kind
  sk_fingerprint :: string

definition state_key_init :: "state_key \<Rightarrow> state_key result" where
  "state_key_init k = guard_ok (is_digest (sk_fingerprint k)) ''invalid hierarchical state key'' k"

definition state_cache_id :: "(string \<Rightarrow> string) \<Rightarrow> state_key \<Rightarrow> string" where
  "state_cache_id sha k = sha (state_kind_value (sk_kind k) @ '':'' @ sk_fingerprint k)"

record state_value =
  sv_payload :: string
  sv_tier :: string
  sv_sha256 :: string

record cold_entry =
  ce_path :: string
  ce_size :: int
  ce_sha256 :: string

record cold_file =
  cf_opens :: bool
  cf_private :: bool
  cf_bytes :: string

record state_cache =
  hs_hot_limit :: "int \<times> int"
  hs_cold_limit :: "int \<times> int"
  hs_hot :: "(state_key, string) dict"
  hs_cold :: "(state_key, cold_entry) dict"
  hs_hot_bytes :: int
  hs_cold_bytes :: int
  hs_hits_hot :: int
  hs_hits_cold :: int
  hs_misses :: int
  hs_promotions :: int
  hs_spills :: int
  hs_evictions :: int
  hs_files :: "string \<Rightarrow> cold_file option"

text \<open>\<open>private_root\<close>: the directory exists or could be made, is the user's own and closed to others.\<close>

definition new_state_cache :: "bool \<Rightarrow> int \<Rightarrow> int \<Rightarrow> int \<Rightarrow> int \<Rightarrow> state_cache result" where
  "new_state_cache private_root hot_entries hot_bytes cold_entries cold_bytes =
     (if list_ex (\<lambda>v. v < 0) [hot_entries, hot_bytes, cold_entries, cold_bytes]
         \<or> MAX_HIERARCHICAL_CACHE_ENTRIES < hot_entries \<or> MAX_HIERARCHICAL_CACHE_ENTRIES < cold_entries
         \<or> MAX_HIERARCHICAL_CACHE_BYTES < hot_bytes \<or> MAX_HIERARCHICAL_CACHE_BYTES < cold_bytes
         \<or> (hot_entries = 0) \<noteq> (hot_bytes = 0) \<or> (cold_entries = 0) \<noteq> (cold_bytes = 0)
         \<or> hot_entries + cold_entries = 0
        then Inl (ValueError ''invalid hierarchical cache bounds'')
      else if \<not> private_root then Inl (ValueError ''hierarchical cache root must be private'')
      else Inr \<lparr>hs_hot_limit = (hot_entries, hot_bytes), hs_cold_limit = (cold_entries, cold_bytes), hs_hot = [],
                hs_cold = [], hs_hot_bytes = 0, hs_cold_bytes = 0, hs_hits_hot = 0, hs_hits_cold = 0, hs_misses = 0,
                hs_promotions = 0, hs_spills = 0, hs_evictions = 0, hs_files = Map.empty\<rparr>)"

abbreviation bytes_of :: "string \<Rightarrow> int" where
  "bytes_of p \<equiv> int (length p)"

definition delete_cold :: "state_key \<Rightarrow> state_cache \<Rightarrow> state_cache" where
  "delete_cold k c =
     (case map_of (hs_cold c) k of
        None \<Rightarrow> c
      | Some e \<Rightarrow> c\<lparr>hs_cold := AList.delete k (hs_cold c), hs_cold_bytes := hs_cold_bytes c - ce_size e,
                   hs_files := (hs_files c)(ce_path e := None)\<rparr>)"

definition cold_name :: "(string \<Rightarrow> string) \<Rightarrow> state_key \<Rightarrow> string \<Rightarrow> string" where
  "cold_name sha k payload = state_cache_id sha k @ ''-'' @ sha payload @ ''.bin''"

text \<open>The victims of the loop leave the dictionary oldest first, each with its file.\<close>

definition evict_cold :: "(state_cache, unit) method" where
  "evict_cold c =
     (case lru_evict (fst (hs_cold_limit c)) (snd (hs_cold_limit c)) ce_size (hs_cold c) (hs_cold_bytes c) of
        (r, evicted, left, counter) \<Rightarrow>
          (map_sum (\<lambda>e. StopIteration) id r,
           c\<lparr>hs_cold := left, hs_cold_bytes := counter, hs_evictions := hs_evictions c + int (length evicted),
             hs_files := fold (\<lambda>x files. files(ce_path (snd x) := None)) evicted (hs_files c)\<rparr>))"

definition store_cold ::
  "(string \<Rightarrow> string) \<Rightarrow> (state_key \<Rightarrow> bool) \<Rightarrow> state_key \<Rightarrow> string \<Rightarrow> (state_cache, bool) method" where
  "store_cold sha writes k payload c =
     (if fst (hs_cold_limit c) = 0 \<or> snd (hs_cold_limit c) < bytes_of payload then (Inr False, c)
      else if \<not> writes k then (Inl OSError, c)
      else
        let name = cold_name sha k payload
        in case evict_cold (c\<lparr>hs_files := (hs_files c)(name \<mapsto> \<lparr>cf_opens = True, cf_private = True, cf_bytes = payload\<rparr>),
                  hs_cold := AList.update k \<lparr>ce_path = name, ce_size = bytes_of payload, ce_sha256 = sha payload\<rparr> (hs_cold c),
                  hs_cold_bytes := hs_cold_bytes c + bytes_of payload\<rparr>) of
             (r, c') \<Rightarrow> (map_sum id (\<lambda>_. k \<in> set (keys (hs_cold c'))) r, c'))"

definition read_cold :: "(string \<Rightarrow> string) \<Rightarrow> cold_entry \<Rightarrow> state_cache \<Rightarrow> string result" where
  "read_cold sha e c =
     (case hs_files c (ce_path e) of
        None \<Rightarrow> Inl OSError
      | Some f \<Rightarrow>
          if \<not> cf_opens f then Inl OSError
          else if \<not> cf_private f \<or> bytes_of (cf_bytes f) \<noteq> ce_size e then Inl (ValueError ''cold state cache entry is unsafe'')
          else if sha (cf_bytes f) \<noteq> ce_sha256 e then Inl (ValueError ''cold state cache digest mismatch'')
          else Inr (cf_bytes f))"

definition fits_hot :: "string \<Rightarrow> state_cache \<Rightarrow> bool" where
  "fits_hot payload c \<longleftrightarrow> fst (hs_hot_limit c) \<noteq> 0 \<and> bytes_of payload \<le> snd (hs_hot_limit c)"

lemma evict_cold_hot [simp]:
  "hs_hot (snd (evict_cold c)) = hs_hot c" "hs_hot_bytes (snd (evict_cold c)) = hs_hot_bytes c"
  "hs_hot_limit (snd (evict_cold c)) = hs_hot_limit c" "hs_cold_limit (snd (evict_cold c)) = hs_cold_limit c"
  by (simp_all add: evict_cold_def split: prod.split)

lemma store_cold_hot [simp]:
  "hs_hot (snd (store_cold sha writes k p c)) = hs_hot c"
  "hs_hot_bytes (snd (store_cold sha writes k p c)) = hs_hot_bytes c"
  "hs_hot_limit (snd (store_cold sha writes k p c)) = hs_hot_limit c"
  "hs_cold_limit (snd (store_cold sha writes k p c)) = hs_cold_limit c"
  by (simp_all add: store_cold_def Let_def case_prod_unfold)

text \<open>One turn of \<open>_trim_hot\<close>: the oldest entry but the excluded one moves down.\<close>

definition spill ::
  "(string \<Rightarrow> string) \<Rightarrow> (state_key \<Rightarrow> bool) \<Rightarrow> state_key \<Rightarrow> string \<Rightarrow> (state_cache, unit) method" where
  "spill sha writes k payload c =
     (case store_cold sha writes k payload
             (c\<lparr>hs_hot := AList.delete k (hs_hot c), hs_hot_bytes := hs_hot_bytes c - bytes_of payload\<rparr>) of
        (Inl e, c') \<Rightarrow> (Inl e, c')
      | (Inr True, c') \<Rightarrow> (Inr (), c'\<lparr>hs_spills := hs_spills c' + 1\<rparr>)
      | (Inr False, c') \<Rightarrow> (Inr (), c'\<lparr>hs_evictions := hs_evictions c' + 1\<rparr>))"

lemma spill_hot [simp]:
  "hs_hot (snd (spill sha writes k p c)) = AList.delete k (hs_hot c)"
  "hs_hot_bytes (snd (spill sha writes k p c)) = hs_hot_bytes c - bytes_of p"
  "hs_hot_limit (snd (spill sha writes k p c)) = hs_hot_limit c"
  "hs_cold_limit (snd (spill sha writes k p c)) = hs_cold_limit c"
  by (auto simp: spill_def split: prod.split sum.split bool.split)
    (metis store_cold_hot snd_conv select_convs surjective update_convs)+

function trim_hot ::
  "(string \<Rightarrow> string) \<Rightarrow> (state_key \<Rightarrow> bool) \<Rightarrow> state_key option \<Rightarrow> (state_cache, unit) method" where
  "trim_hot sha writes exclude c =
     (if int (length (hs_hot c)) \<le> fst (hs_hot_limit c) \<and> hs_hot_bytes c \<le> snd (hs_hot_limit c) then (Inr (), c)
      else (case find (\<lambda>x. Some (fst x) \<noteq> exclude) (hs_hot c) of
              None \<Rightarrow> (Inl StopIteration, c)
            | Some x \<Rightarrow>
                (case fst (spill sha writes (fst x) (snd x) c) of
                   Inl e \<Rightarrow> (Inl e, snd (spill sha writes (fst x) (snd x) c))
                 | Inr u \<Rightarrow> trim_hot sha writes exclude (snd (spill sha writes (fst x) (snd x) c)))))"
  by pat_completeness auto

lemma shorter_delete_hot: "find P d = Some x \<Longrightarrow> length (AList.delete (fst x) d) < length d"
proof (induction d)
  case (Cons y d)
  then show ?case using length_delete_le [of "fst x" d] by (cases y; cases x) (auto split: if_splits)
qed simp

termination trim_hot
  by (relation "measure (\<lambda>(sha, writes, exclude, c). length (hs_hot c))") (auto dest: shorter_delete_hot)

declare trim_hot.simps [simp del]

definition remove_locked :: "state_key \<Rightarrow> state_cache \<Rightarrow> bool \<times> state_cache" where
  "remove_locked k c =
     (case map_of (hs_hot c) k of
        Some payload \<Rightarrow>
          (True, c\<lparr>hs_hot := AList.delete k (hs_hot c), hs_hot_bytes := hs_hot_bytes c - bytes_of payload\<rparr>)
      | None \<Rightarrow> if k \<in> set (keys (hs_cold c)) then (True, delete_cold k c) else (False, c))"

definition put_state ::
  "(string \<Rightarrow> string) \<Rightarrow> (state_key \<Rightarrow> bool) \<Rightarrow> state_key \<Rightarrow> string \<Rightarrow> (state_cache, string) method" where
  "put_state sha writes k payload c0 =
     (if \<not> (1 \<le> bytes_of payload \<and> bytes_of payload \<le> MAX_HIERARCHICAL_CACHE_BYTES)
      then (Inl (ValueError ''invalid hierarchical cache value''), c0)
      else
        let c = snd (remove_locked k c0)
        in if fits_hot payload c
           then (case trim_hot sha writes None (c\<lparr>hs_hot := AList.update k payload (hs_hot c),
                        hs_hot_bytes := hs_hot_bytes c + bytes_of payload\<rparr>) of
                   (r, c') \<Rightarrow> (map_sum id (\<lambda>_. ''hot'') r, c'))
           else (case store_cold sha writes k payload c of
                   (Inl e, c') \<Rightarrow> (Inl e, c')
                 | (Inr True, c') \<Rightarrow> (Inr ''cold'', c')
                 | (Inr False, c') \<Rightarrow> (Inr ''dropped'', c'\<lparr>hs_evictions := hs_evictions c' + 1\<rparr>)))"

definition get_state ::
  "(string \<Rightarrow> string) \<Rightarrow> (state_key \<Rightarrow> bool) \<Rightarrow> state_key \<Rightarrow> (state_cache, state_value option) method" where
  "get_state sha writes k c =
     (case map_of (hs_hot c) k of
        Some payload \<Rightarrow>
          (Inr (Some \<lparr>sv_payload = payload, sv_tier = ''hot'', sv_sha256 = sha payload\<rparr>),
           c\<lparr>hs_hot := move_to_end k (hs_hot c), hs_hits_hot := hs_hits_hot c + 1\<rparr>)
      | None \<Rightarrow>
          (case map_of (hs_cold c) k of
             None \<Rightarrow> (Inr None, c\<lparr>hs_misses := hs_misses c + 1\<rparr>)
           | Some e \<Rightarrow>
               (case read_cold sha e c of
                  Inl (ValueError m) \<Rightarrow>
                    (Inl (ValueError m), (delete_cold k c)\<lparr>hs_evictions := hs_evictions c + 1\<rparr>)
                | Inl other \<Rightarrow> (Inl other, c)
                | Inr payload \<Rightarrow>
                    let c1 = c\<lparr>hs_cold := move_to_end k (hs_cold c), hs_hits_cold := hs_hits_cold c + 1\<rparr>
                    in if fits_hot payload c1
                       then
                         let c2 = delete_cold k c1;
                             c3 = c2\<lparr>hs_hot := AList.update k payload (hs_hot c2),
                                     hs_hot_bytes := hs_hot_bytes c2 + bytes_of payload,
                                     hs_promotions := hs_promotions c2 + 1\<rparr>
                         in case trim_hot sha writes (Some k) c3 of
                              (r, c4) \<Rightarrow> (map_sum id (\<lambda>_. Some \<lparr>sv_payload = payload, sv_tier = ''hot'',
                                           sv_sha256 = ce_sha256 e\<rparr>) r, c4)
                       else (Inr (Some \<lparr>sv_payload = payload, sv_tier = ''cold'', sv_sha256 = ce_sha256 e\<rparr>), c1))))"

definition clear_state :: "state_cache \<Rightarrow> state_cache" where
  "clear_state c = fold delete_cold (keys (hs_cold c)) (c\<lparr>hs_hot := [], hs_hot_bytes := 0\<rparr>)"

definition state_cache_snapshot :: "state_cache \<Rightarrow> (string \<times> int) list" where
  "state_cache_snapshot c =
     [(''hot_entries'', int (length (hs_hot c))), (''hot_bytes'', hs_hot_bytes c),
      (''cold_entries'', int (length (hs_cold c))), (''cold_bytes'', hs_cold_bytes c),
      (''hot_hits'', hs_hits_hot c), (''cold_hits'', hs_hits_cold c), (''misses'', hs_misses c),
      (''promotions'', hs_promotions c), (''spills'', hs_spills c), (''evictions'', hs_evictions c)]"

section \<open>The invariant\<close>

text \<open>What collision freedom of the digests gives the cache: files of different keys have different names.\<close>

definition names_distinct :: "(string \<Rightarrow> string) \<Rightarrow> bool" where
  "names_distinct sha \<longleftrightarrow> (\<forall>k k' p p'. cold_name sha k p = cold_name sha k' p' \<longrightarrow> k = k')"

definition cold_entry_of :: "(string \<Rightarrow> string) \<Rightarrow> state_key \<Rightarrow> string \<Rightarrow> cold_entry" where
  "cold_entry_of sha k p = \<lparr>ce_path = cold_name sha k p, ce_size = bytes_of p, ce_sha256 = sha p\<rparr>"

text \<open>Nothing is in both tiers, the counters are exact, and the directory holds exactly the files of the cold
  entries, each with the payload its entry describes.  The limits are separate: they are restored last.\<close>

definition tiers_ok :: "(string \<Rightarrow> string) \<Rightarrow> state_cache \<Rightarrow> bool" where
  "tiers_ok sha c \<longleftrightarrow> dict_ok (hs_hot c) \<and> dict_ok (hs_cold c) \<and> fst ` set (hs_hot c) \<inter> fst ` set (hs_cold c) = {}
     \<and> hs_hot_bytes c = asum bytes_of (hs_hot c) \<and> hs_cold_bytes c = asum ce_size (hs_cold c)
     \<and> (\<forall>x\<in>set (hs_hot c). snd x \<noteq> [] \<and> bytes_of (snd x) \<le> snd (hs_hot_limit c) \<and> 1 \<le> fst (hs_hot_limit c))
     \<and> (\<forall>x\<in>set (hs_cold c). \<exists>p. snd x = cold_entry_of sha (fst x) p \<and> p \<noteq> []
          \<and> hs_files c (ce_path (snd x)) = Some \<lparr>cf_opens = True, cf_private = True, cf_bytes = p\<rparr>)
     \<and> dom (hs_files c) = (ce_path \<circ> snd) ` set (hs_cold c)
     \<and> 0 \<le> fst (hs_hot_limit c) \<and> 0 \<le> snd (hs_hot_limit c) \<and> 0 \<le> fst (hs_cold_limit c) \<and> 0 \<le> snd (hs_cold_limit c)"

definition cold_within :: "state_cache \<Rightarrow> bool" where
  "cold_within c \<longleftrightarrow> int (length (hs_cold c)) \<le> fst (hs_cold_limit c) \<and> hs_cold_bytes c \<le> snd (hs_cold_limit c)"

definition hot_within :: "state_cache \<Rightarrow> bool" where
  "hot_within c \<longleftrightarrow> int (length (hs_hot c)) \<le> fst (hs_hot_limit c) \<and> hs_hot_bytes c \<le> snd (hs_hot_limit c)"

definition state_ok :: "(string \<Rightarrow> string) \<Rightarrow> state_cache \<Rightarrow> bool" where
  "state_ok sha c \<longleftrightarrow> tiers_ok sha c \<and> cold_within c"

definition same_state_limits :: "state_cache \<Rightarrow> state_cache \<Rightarrow> bool" where
  "same_state_limits c c' \<longleftrightarrow> hs_hot_limit c' = hs_hot_limit c \<and> hs_cold_limit c' = hs_cold_limit c"

text \<open>The abstract map: what the cache holds for a key, in either tier.\<close>

definition cached :: "state_cache \<Rightarrow> state_key \<Rightarrow> string option" where
  "cached c k = (case map_of (hs_hot c) k of
       Some p \<Rightarrow> Some p
     | None \<Rightarrow> (case map_of (hs_cold c) k of None \<Rightarrow> None | Some e \<Rightarrow> map_option cf_bytes (hs_files c (ce_path e))))"

lemma fold_remove_files:
  "fold (\<lambda>x files. files(ce_path (snd x) := None)) xs files p
     = (if p \<in> (ce_path \<circ> snd) ` set xs then None else files p)"
  by (induction xs arbitrary: files) auto

lemma tiers_cold:
  "tiers_ok sha c \<Longrightarrow> x \<in> set (hs_cold c) \<Longrightarrow> \<exists>p. snd x = cold_entry_of sha (fst x) p \<and> p \<noteq> []
     \<and> hs_files c (ce_path (snd x)) = Some \<lparr>cf_opens = True, cf_private = True, cf_bytes = p\<rparr>"
  unfolding tiers_ok_def by (elim conjE) (rule bspec)

lemma tiersD:
  assumes "tiers_ok sha c"
  shows "dict_ok (hs_hot c)" "dict_ok (hs_cold c)" "fst ` set (hs_hot c) \<inter> fst ` set (hs_cold c) = {}"
    "hs_hot_bytes c = asum bytes_of (hs_hot c)" "hs_cold_bytes c = asum ce_size (hs_cold c)"
    "\<And>x. x \<in> set (hs_hot c) \<Longrightarrow> snd x \<noteq> [] \<and> bytes_of (snd x) \<le> snd (hs_hot_limit c) \<and> 1 \<le> fst (hs_hot_limit c)"
    "dom (hs_files c) = (ce_path \<circ> snd) ` set (hs_cold c)"
    "0 \<le> fst (hs_hot_limit c)" "0 \<le> snd (hs_hot_limit c)" "0 \<le> fst (hs_cold_limit c)" "0 \<le> snd (hs_cold_limit c)"
  using assms unfolding tiers_ok_def by blast+

lemma cold_paths_distinct:
  assumes "names_distinct sha" and "tiers_ok sha c" and "x \<in> set (hs_cold c)" "y \<in> set (hs_cold c)"
    and "ce_path (snd x) = ce_path (snd y)"
  shows "fst x = fst y"
proof -
  obtain p where p: "snd x = cold_entry_of sha (fst x) p" using assms(2,3) unfolding tiers_ok_def by blast
  obtain q where q: "snd y = cold_entry_of sha (fst y) q" using assms(2,4) unfolding tiers_ok_def by blast
  have "cold_name sha (fst x) p = cold_name sha (fst y) q" using assms(5) by (simp add: p q cold_entry_of_def)
  then show ?thesis using assms(1) unfolding names_distinct_def by blast
qed

lemma cached_cold:
  assumes "tiers_ok sha c" and "map_of (hs_cold c) k = Some e"
  obtains p where "e = cold_entry_of sha k p" "p \<noteq> []" "hs_files c (ce_path e) = Some \<lparr>cf_opens = True, cf_private = True, cf_bytes = p\<rparr>"
    "cached c k = Some p" "map_of (hs_hot c) k = None"
proof -
  have x: "(k, e) \<in> set (hs_cold c)" using assms(2) by (rule map_of_SomeD)
  then obtain p where p: "e = cold_entry_of sha k p" "p \<noteq> []" "hs_files c (ce_path e) = Some \<lparr>cf_opens = True, cf_private = True, cf_bytes = p\<rparr>"
    using assms(1) unfolding tiers_ok_def by (metis fst_conv snd_conv)
  have "k \<notin> fst ` set (hs_hot c)" using assms(1) x unfolding tiers_ok_def by force
  then have "map_of (hs_hot c) k = None" by (simp add: map_of_eq_None_iff)
  with p assms(2) show ?thesis by (intro that [of p]) (simp_all add: cached_def)
qed

text \<open>Dropping a part of the cold tier with its files.\<close>

lemma drop_cold_ok:
  assumes n: "names_distinct sha" and ok: "tiers_ok sha c"
    and part: "set (hs_cold c') \<subseteq> set (hs_cold c)" "dict_ok (hs_cold c')" "hs_cold_bytes c' = asum ce_size (hs_cold c')"
    and files: "\<And>p. hs_files c' p = (if p \<in> (ce_path \<circ> snd) ` set (hs_cold c') then hs_files c p else None)"
    and hot: "hs_hot c' = hs_hot c" "hs_hot_bytes c' = hs_hot_bytes c" "same_state_limits c c'"
  shows "tiers_ok sha c' \<and> cached c' \<subseteq>\<^sub>m cached c
    \<and> (\<forall>k. map_of (hs_hot c) k = None \<longrightarrow> k \<notin> fst ` set (hs_cold c') \<longrightarrow> cached c' k = None)
    \<and> (\<forall>k. k \<in> fst ` set (hs_cold c') \<longrightarrow> cached c' k = cached c k)"
proof -
  have "dom (hs_files c') = (ce_path \<circ> snd) ` set (hs_cold c')"
    using ok part(1) unfolding tiers_ok_def by (auto simp: files dom_def split: if_splits)
  then have tiers: "tiers_ok sha c'"
    using ok part hot unfolding tiers_ok_def same_state_limits_def by (auto simp: files)
  have kept: "cached c' k = cached c k" if k: "k \<in> fst ` set (hs_cold c')" for k
  proof -
    obtain e where e: "(k, e) \<in> set (hs_cold c')" using k by auto
    then have "map_of (hs_cold c') k = Some e" using part(2) by simp
    moreover have "map_of (hs_cold c) k = Some e" using e part(1) ok by (auto simp: tiers_ok_def)
    moreover have "hs_files c' (ce_path e) = hs_files c (ce_path e)" using e by (force simp: files)
    ultimately show ?thesis by (simp add: cached_def hot(1) split: option.split)
  qed
  have gone: "cached c' k = None" if "map_of (hs_hot c) k = None" "k \<notin> fst ` set (hs_cold c')" for k
  proof -
    have "map_of (hs_cold c') k = None" using that(2) by (simp add: map_of_eq_None_iff)
    with that(1) show ?thesis by (simp add: cached_def hot(1))
  qed
  have "cached c' k = cached c k" if "k \<in> dom (cached c')" for k
  proof (cases "map_of (hs_hot c) k")
    case None
    then have "k \<in> fst ` set (hs_cold c')" using that gone [of k] by (metis domIff)
    then show ?thesis by (rule kept)
  next
    case (Some p)
    then show ?thesis by (simp add: cached_def hot(1))
  qed
  then show ?thesis using tiers kept gone by (auto simp: map_le_def)
qed

lemma delete_cold_ok:
  assumes "names_distinct sha" and "tiers_ok sha c"
  shows "tiers_ok sha (delete_cold k c) \<and> same_state_limits c (delete_cold k c)
    \<and> hs_hot (delete_cold k c) = hs_hot c \<and> cached (delete_cold k c) \<subseteq>\<^sub>m cached c
    \<and> (map_of (hs_hot c) k = None \<longrightarrow> cached (delete_cold k c) k = None)
    \<and> hs_cold (delete_cold k c) = AList.delete k (hs_cold c)
    \<and> hs_cold_bytes (delete_cold k c) \<le> hs_cold_bytes c"
proof (cases "map_of (hs_cold c) k")
  case None
  then have "AList.delete k (hs_cold c) = hs_cold c" using map_of_None_keys by (intro delete_fresh) fast
  with None show ?thesis using assms(2) by (simp add: delete_cold_def same_state_limits_def cached_def)
next
  case (Some e)
  have x: "(k, e) \<in> set (hs_cold c)" using Some by (rule map_of_SomeD)
  have d: "dict_ok (hs_cold c)" using assms(2) by (simp add: tiers_ok_def)
  obtain q where q: "e = cold_entry_of sha k q" using cached_cold [OF assms(2) Some] by blast
  have "hs_files (delete_cold k c) p
      = (if p \<in> (ce_path \<circ> snd) ` set (hs_cold (delete_cold k c)) then hs_files c p else None)" for p
  proof (cases "p = ce_path e")
    case True
    have "p \<notin> (ce_path \<circ> snd) ` set (AList.delete k (hs_cold c))"
      using cold_paths_distinct [OF assms _ x] True by (auto simp: set_delete)
    then show ?thesis using True Some by (simp add: delete_cold_def)
  next
    case False
    have "p \<in> (ce_path \<circ> snd) ` set (AList.delete k (hs_cold c))" if "hs_files c p \<noteq> None"
    proof -
      have "p \<in> (ce_path \<circ> snd) ` set (hs_cold c)" using that assms(2) unfolding tiers_ok_def by blast
      then obtain y where y: "y \<in> set (hs_cold c)" "p = ce_path (snd y)" by auto
      have "fst y \<noteq> k"
      proof
        assume "fst y = k"
        then have "y = (k, e)" using y(1) x d by (cases y) (auto dest: eq_key_imp_eq_value)
        then show False using False y(2) by simp
      qed
      then show ?thesis using y by (auto simp: set_delete)
    qed
    then show ?thesis using False Some by (cases "hs_files c p") (auto simp: delete_cold_def)
  qed
  moreover have "set (hs_cold (delete_cold k c)) \<subseteq> set (hs_cold c)" "dict_ok (hs_cold (delete_cold k c))"
    "hs_cold_bytes (delete_cold k c) = asum ce_size (hs_cold (delete_cold k c))"
    using Some delete_subset [of k "hs_cold c"] dict_ok_delete [OF d] asum_delete [OF d Some, of ce_size] assms(2)
    by (simp_all add: delete_cold_def tiers_ok_def)
  moreover have "hs_hot (delete_cold k c) = hs_hot c" "hs_hot_bytes (delete_cold k c) = hs_hot_bytes c"
    "same_state_limits c (delete_cold k c)" "hs_cold (delete_cold k c) = AList.delete k (hs_cold c)"
    using Some by (simp_all add: delete_cold_def same_state_limits_def)
  moreover have "hs_cold_bytes (delete_cold k c) \<le> hs_cold_bytes c"
    using Some by (simp add: delete_cold_def q cold_entry_of_def)
  ultimately show ?thesis
    using drop_cold_ok [OF assms, of "delete_cold k c"] delete_keys [of k "hs_cold c"] by simp
qed

lemma evict_cold_ok:
  assumes "names_distinct sha" and "tiers_ok sha c"
  obtains c' where "evict_cold c = (Inr (), c')" "state_ok sha c'" "same_state_limits c c'" "hs_hot c' = hs_hot c"
    "hs_cold c' = fitting (fst (hs_cold_limit c)) (snd (hs_cold_limit c)) ce_size (hs_cold c)"
    "cached c' \<subseteq>\<^sub>m cached c" "\<forall>k. k \<in> fst ` set (hs_cold c') \<longrightarrow> cached c' k = cached c k"
    "\<forall>k. map_of (hs_hot c) k = None \<longrightarrow> k \<notin> fst ` set (hs_cold c') \<longrightarrow> cached c' k = None"
proof -
  let ?d = "fitting (fst (hs_cold_limit c)) (snd (hs_cold_limit c)) ce_size (hs_cold c)"
  have lim: "0 \<le> fst (hs_cold_limit c)" "0 \<le> snd (hs_cold_limit c)" "hs_cold_bytes c = asum ce_size (hs_cold c)"
    and dict: "dict_ok (hs_cold c)" and dom: "dom (hs_files c) = (ce_path \<circ> snd) ` set (hs_cold c)"
    using assms(2) by (simp_all add: tiers_ok_def)
  obtain evicted where e: "lru_evict (fst (hs_cold_limit c)) (snd (hs_cold_limit c)) ce_size (hs_cold c) (hs_cold_bytes c)
      = (Inr (), evicted, ?d, asum ce_size ?d)" "hs_cold c = evicted @ ?d"
    using lru_evict_fitting [OF lim(3,1,2)] by blast
  define c' where "c' = snd (evict_cold c)"
  have c': "evict_cold c = (Inr (), c')" "hs_cold c' = ?d" "hs_cold_bytes c' = asum ce_size ?d"
    "hs_files c' = fold (\<lambda>x files. files(ce_path (snd x) := None)) evicted (hs_files c)"
    "hs_hot c' = hs_hot c" "hs_hot_bytes c' = hs_hot_bytes c" "same_state_limits c c'"
    using e(1) by (simp_all add: c'_def evict_cold_def same_state_limits_def)
  have "hs_files c' p = (if p \<in> (ce_path \<circ> snd) ` set ?d then hs_files c p else None)" for p
  proof (cases "p \<in> (ce_path \<circ> snd) ` set evicted")
    case True
    then obtain x where x: "x \<in> set evicted" "p = ce_path (snd x)" by auto
    have "p \<notin> (ce_path \<circ> snd) ` set ?d"
    proof
      assume "p \<in> (ce_path \<circ> snd) ` set ?d"
      then obtain y where y: "y \<in> set ?d" "p = ce_path (snd y)" by auto
      have "x \<in> set (hs_cold c)" "y \<in> set (hs_cold c)" using x(1) y(1) e(2) by (metis UnCI set_append)+
      then have "fst x = fst y" using cold_paths_distinct [OF assms] x(2) y(2) by metis
      moreover have "fst ` set evicted \<inter> fst ` set ?d = {}" using dict e(2) by (metis distinct_append map_append set_map)
      ultimately show False using x(1) y(1) by (metis IntI empty_iff imageI)
    qed
    with True show ?thesis by (simp add: c'(4) fold_remove_files)
  next
    case False
    have "hs_files c p = None" if "p \<notin> (ce_path \<circ> snd) ` set ?d"
    proof -
      have "set (hs_cold c) = set evicted \<union> set ?d" using e(2) by (metis set_append)
      then have "p \<notin> dom (hs_files c)" using that False by (simp add: dom image_Un)
      then show ?thesis by blast
    qed
    with False show ?thesis by (auto simp: c'(4) fold_remove_files)
  qed
  then have "\<And>p. hs_files c' p = (if p \<in> (ce_path \<circ> snd) ` set (hs_cold c') then hs_files c p else None)" by (simp add: c'(2))
  moreover have "set (hs_cold c') \<subseteq> set (hs_cold c)" "dict_ok (hs_cold c')"
    unfolding c'(2) using fitting_subset fitting_dict [OF dict] by blast+
  ultimately have "tiers_ok sha c' \<and> cached c' \<subseteq>\<^sub>m cached c
    \<and> (\<forall>k. map_of (hs_hot c) k = None \<longrightarrow> k \<notin> fst ` set (hs_cold c') \<longrightarrow> cached c' k = None)
    \<and> (\<forall>k. k \<in> fst ` set (hs_cold c') \<longrightarrow> cached c' k = cached c k)"
    using c'(2,3,5-7) by (intro drop_cold_ok [OF assms]) simp_all
  moreover have "cold_within c'"
    using fitting_within [OF lim(1,2), of ce_size "hs_cold c"] c'(7) by (simp add: cold_within_def c'(2,3) same_state_limits_def)
  ultimately show ?thesis using that [of c'] c' by (simp add: state_ok_def)
qed

text \<open>Storing a payload of a key that is in neither tier.\<close>

lemma store_cold_ok:
  assumes n: "names_distinct sha" and ok: "state_ok sha c"
    and fresh: "map_of (hs_hot c) k = None" "map_of (hs_cold c) k = None" and p: "p \<noteq> []"
  shows "state_ok sha (snd (store_cold sha writes k p c)) \<and> same_state_limits c (snd (store_cold sha writes k p c))
    \<and> (case fst (store_cold sha writes k p c) of
         Inl e \<Rightarrow> e = OSError \<and> \<not> writes k \<and> snd (store_cold sha writes k p c) = c
       | Inr stored \<Rightarrow> if stored then cached (snd (store_cold sha writes k p c)) \<subseteq>\<^sub>m (cached c)(k \<mapsto> p)
             \<and> cached (snd (store_cold sha writes k p c)) k = Some p
           else snd (store_cold sha writes k p c) = c)"
proof (cases "fst (hs_cold_limit c) = 0 \<or> snd (hs_cold_limit c) < bytes_of p \<or> \<not> writes k")
  case True
  then show ?thesis using ok by (auto simp: store_cold_def same_state_limits_def)
next
  case False
  have t: "tiers_ok sha c" using ok by (simp add: state_ok_def)
  let ?name = "cold_name sha k p"
  define d where "d = c\<lparr>hs_files := (hs_files c)(?name \<mapsto> \<lparr>cf_opens = True, cf_private = True, cf_bytes = p\<rparr>),
      hs_cold := AList.update k (cold_entry_of sha k p) (hs_cold c), hs_cold_bytes := hs_cold_bytes c + bytes_of p\<rparr>"
  have notin: "k \<notin> fst ` set (hs_cold c)" "k \<notin> fst ` set (hs_hot c)" using fresh by (simp_all add: map_of_eq_None_iff)
  have cold: "hs_cold d = hs_cold c @ [(k, cold_entry_of sha k p)]"
    using notin(1) by (simp add: d_def update_fresh)
  have other: "ce_path (snd x) \<noteq> ?name" if "x \<in> set (hs_cold c)" for x
  proof
    assume name: "ce_path (snd x) = ?name"
    have "tiers_ok sha c" using ok by (simp add: state_ok_def)
    from tiers_cold [OF this that] obtain q where q: "snd x = cold_entry_of sha (fst x) q" by blast
    then have "cold_name sha (fst x) q = cold_name sha k p" using name by (simp add: cold_entry_of_def)
    then have "fst x = k" using n unfolding names_distinct_def by blast
    then show False using that notin(1) by auto
  qed
  have tiers: "tiers_ok sha d"
  proof -
    have entries: "\<forall>x\<in>set (hs_cold d). \<exists>q. snd x = cold_entry_of sha (fst x) q \<and> q \<noteq> []
        \<and> hs_files d (ce_path (snd x)) = Some \<lparr>cf_opens = True, cf_private = True, cf_bytes = q\<rparr>"
    proof
      fix x
      assume "x \<in> set (hs_cold d)"
      then consider "x = (k, cold_entry_of sha k p)" | "x \<in> set (hs_cold c)" by (auto simp: cold)
      then show "\<exists>q. snd x = cold_entry_of sha (fst x) q \<and> q \<noteq> []
          \<and> hs_files d (ce_path (snd x)) = Some \<lparr>cf_opens = True, cf_private = True, cf_bytes = q\<rparr>"
      proof cases
        case 1
        then show ?thesis using p by (intro exI [of _ p]) (simp add: d_def cold_entry_of_def)
      next
        case 2
        then have "hs_files d (ce_path (snd x)) = hs_files c (ce_path (snd x))" using other by (simp add: d_def)
        moreover have "tiers_ok sha c" using ok by (simp add: state_ok_def)
        ultimately show ?thesis using tiers_cold [of sha c x] 2 by simp
      qed
    qed
    have files: "dom (hs_files d) = (ce_path \<circ> snd) ` set (hs_cold d)"
      using tiersD(7) [OF t] unfolding cold by (simp add: d_def cold_entry_of_def)
    show ?thesis
      unfolding tiers_ok_def
    proof (intro conjI entries files)
    qed (use tiersD(1-6,8-11) [OF t] notin in \<open>simp_all add: d_def update_fresh cold_entry_of_def\<close>)
  qed
  from evict_cold_ok [OF n tiers] obtain c' where c': "evict_cold d = (Inr (), c')" "state_ok sha c'" "same_state_limits d c'"
    "hs_hot c' = hs_hot d" "hs_cold c' = fitting (fst (hs_cold_limit d)) (snd (hs_cold_limit d)) ce_size (hs_cold d)"
    "cached c' \<subseteq>\<^sub>m cached d" "\<forall>k. k \<in> fst ` set (hs_cold c') \<longrightarrow> cached c' k = cached d k"
    "\<forall>k. map_of (hs_hot d) k = None \<longrightarrow> k \<notin> fst ` set (hs_cold c') \<longrightarrow> cached c' k = None" .
  have lim: "1 \<le> fst (hs_cold_limit c)" "bytes_of p \<le> snd (hs_cold_limit c)"
    using False tiersD(10) [OF t] by auto
  have "suffix [(k, cold_entry_of sha k p)] (hs_cold c')"
    unfolding c'(5) by (rule fitting_greatest) (use lim notin(1) in \<open>simp_all add: d_def update_fresh suffix_def cold_entry_of_def\<close>)
  then have there: "k \<in> fst ` set (hs_cold c')" by (force simp: suffix_def)
  have "(fst (hs_cold_limit c) = 0 \<or> snd (hs_cold_limit c) < bytes_of p) = False" "(\<not> writes k) = False"
    using False by auto
  then have "store_cold sha writes k p c
      = (case evict_cold d of (r, c') \<Rightarrow> (map_sum id (\<lambda>_. k \<in> set (keys (hs_cold c'))) r, c'))"
    unfolding store_cold_def Let_def d_def cold_entry_of_def by (simp only: if_False)
  then have "store_cold sha writes k p c = (Inr True, c')" using c'(1) there by simp
  moreover have "cached d = (cached c)(k \<mapsto> p)"
  proof
    fix q
    show "cached d q = ((cached c)(k \<mapsto> p)) q"
    proof (cases "q = k")
      case True
      then show ?thesis using fresh by (simp add: cached_def d_def update_conv' cold_entry_of_def)
    next
      case False
      then have "hs_files d (ce_path e) = hs_files c (ce_path e)" if "map_of (hs_cold c) q = Some e" for e
        using other [of "(q, e)"] map_of_SomeD [OF that] by (simp add: d_def)
      with False show ?thesis by (simp add: cached_def d_def update_conv' split: option.split)
    qed
  qed
  ultimately show ?thesis
    using c'(2,3,6,7) there by (simp add: d_def same_state_limits_def)
qed

text \<open>Taking an entry out of the hot tier.\<close>

lemma drop_hot_ok:
  assumes "tiers_ok sha c" and "map_of (hs_hot c) k = Some p"
  shows "tiers_ok sha (c\<lparr>hs_hot := AList.delete k (hs_hot c), hs_hot_bytes := hs_hot_bytes c - bytes_of p\<rparr>)"
    "cached (c\<lparr>hs_hot := AList.delete k (hs_hot c), hs_hot_bytes := hs_hot_bytes c - bytes_of p\<rparr>) = (cached c)(k := None)"
    "map_of (hs_cold c) k = None" "p \<noteq> []"
proof -
  note t = tiersD [OF assms(1)]
  have x: "(k, p) \<in> set (hs_hot c)" using assms(2) by (rule map_of_SomeD)
  have "k \<notin> fst ` set (hs_cold c)" using t(3) x by force
  then show cold: "map_of (hs_cold c) k = None" by (simp add: map_of_eq_None_iff)
  show "p \<noteq> []" using t(6) [OF x] by simp
  show "tiers_ok sha (c\<lparr>hs_hot := AList.delete k (hs_hot c), hs_hot_bytes := hs_hot_bytes c - bytes_of p\<rparr>)"
    unfolding tiers_ok_def
  proof (intro conjI)
    show "fst ` set (hs_hot (c\<lparr>hs_hot := AList.delete k (hs_hot c), hs_hot_bytes := hs_hot_bytes c - bytes_of p\<rparr>))
        \<inter> fst ` set (hs_cold (c\<lparr>hs_hot := AList.delete k (hs_hot c), hs_hot_bytes := hs_hot_bytes c - bytes_of p\<rparr>)) = {}"
      using t(3) by (auto simp: set_delete)
  qed (use t tiers_cold [OF assms(1)] asum_delete [OF t(1) assms(2), of bytes_of] dict_ok_delete [OF t(1)]
      in \<open>auto simp: set_delete\<close>)
  show "cached (c\<lparr>hs_hot := AList.delete k (hs_hot c), hs_hot_bytes := hs_hot_bytes c - bytes_of p\<rparr>) = (cached c)(k := None)"
    using cold by (auto simp: cached_def delete_conv' fun_eq_iff split: option.split)
qed

lemma counters_ok [simp]:
  "state_ok sha (c\<lparr>hs_spills := n\<rparr>) = state_ok sha c" "state_ok sha (c\<lparr>hs_evictions := n\<rparr>) = state_ok sha c"
  "state_ok sha (c\<lparr>hs_misses := n\<rparr>) = state_ok sha c" "state_ok sha (c\<lparr>hs_promotions := n\<rparr>) = state_ok sha c"
  "state_ok sha (c\<lparr>hs_hits_hot := n\<rparr>) = state_ok sha c" "state_ok sha (c\<lparr>hs_hits_cold := n\<rparr>) = state_ok sha c"
  "cached (c\<lparr>hs_hits_hot := n\<rparr>) = cached c" "cached (c\<lparr>hs_hits_cold := n\<rparr>) = cached c"
  "cached (c\<lparr>hs_promotions := n\<rparr>) = cached c"
  "tiers_ok sha (c\<lparr>hs_evictions := n\<rparr>) = tiers_ok sha c" "cold_within (c\<lparr>hs_evictions := n\<rparr>) = cold_within c"
  "cached (c\<lparr>hs_spills := n\<rparr>) = cached c" "cached (c\<lparr>hs_evictions := n\<rparr>) = cached c"
  "cached (c\<lparr>hs_misses := n\<rparr>) = cached c"
  "hot_within (c\<lparr>hs_evictions := n\<rparr>) = hot_within c" "hot_within (c\<lparr>hs_misses := n\<rparr>) = hot_within c"
  by (simp_all add: state_ok_def tiers_ok_def cold_within_def hot_within_def cached_def fun_eq_iff cong: option.case_cong)

lemma spill_ok:
  assumes "names_distinct sha" and "state_ok sha c" and "map_of (hs_hot c) k = Some p"
  shows "state_ok sha (snd (spill sha writes k p c)) \<and> same_state_limits c (snd (spill sha writes k p c))
    \<and> cached (snd (spill sha writes k p c)) \<subseteq>\<^sub>m cached c
    \<and> (fst (spill sha writes k p c) = Inr () \<or> fst (spill sha writes k p c) = Inl OSError \<and> \<not> writes k)"
proof -
  let ?c = "c\<lparr>hs_hot := AList.delete k (hs_hot c), hs_hot_bytes := hs_hot_bytes c - bytes_of p\<rparr>"
  have tiers: "tiers_ok sha c" using assms(2) by (simp add: state_ok_def)
  note d = drop_hot_ok [OF tiers assms(3)]
  have ok: "state_ok sha ?c" using d(1) assms(2) by (simp add: state_ok_def cold_within_def)
  have "map_of (hs_hot ?c) k = None" "map_of (hs_cold ?c) k = None" using d(3) by (simp_all add: delete_conv')
  note st = store_cold_ok [OF assms(1) ok this d(4), of writes]
  have "cached ?c \<subseteq>\<^sub>m cached c" and "(cached ?c)(k \<mapsto> p) = cached c"
    using assms(3) by (auto simp: d(2) map_le_def cached_def fun_eq_iff)
  moreover obtain r c' where r: "store_cold sha writes k p ?c = (r, c')" by force
  ultimately show ?thesis
    using st by (cases r) (auto simp: spill_def same_state_limits_def split: bool.splits if_splits)
qed

text \<open>An entry that the loop must not take: the excluded one, or the newest.\<close>

definition protected :: "state_key option \<Rightarrow> state_key \<Rightarrow> string \<Rightarrow> state_cache \<Rightarrow> bool" where
  "protected exclude k p c \<longleftrightarrow> map_of (hs_hot c) k = Some p
     \<and> (exclude = Some k \<or> exclude = None \<and> (\<exists>older. hs_hot c = older @ [(k, p)]))"

lemma only_protected_left:
  assumes "tiers_ok sha c" and "protected exclude k p c"
    and "find (\<lambda>x. Some (fst x) \<noteq> exclude) (hs_hot c) = None \<or> (exclude = None \<and> hd (hs_hot c) = (k, p))"
  shows "hot_within c"
proof -
  note t = tiersD [OF assms(1)]
  have x: "(k, p) \<in> set (hs_hot c)" using assms(2) by (auto simp: protected_def dest: map_of_SomeD)
  have "hs_hot c = [(k, p)]"
  proof (cases "exclude = None")
    case True
    then obtain older where older: "hs_hot c = older @ [(k, p)]" using assms(2) by (auto simp: protected_def)
    moreover have "hd (hs_hot c) = (k, p)" using assms(3) True older by (auto simp: find_None_iff)
    ultimately show ?thesis using t(1) by (cases older) auto
  next
    case False
    then have "exclude = Some k" and "\<forall>y\<in>set (hs_hot c). fst y = k"
      using assms(2,3) by (auto simp: protected_def find_None_iff)
    then have "set (keys (hs_hot c)) \<subseteq> {k}" by auto
    then have "length (hs_hot c) \<le> 1"
      using distinct_card [OF t(1)] card_mono [of "{k}" "set (keys (hs_hot c))"] by simp
    then show ?thesis using x by (cases "hs_hot c") auto
  qed
  then show ?thesis using t(4) t(6) [OF x] by (simp add: hot_within_def)
qed

lemma trim_hot_ok:
  assumes "names_distinct sha" and "state_ok sha c" and "protected exclude k p c"
  shows "state_ok sha (snd (trim_hot sha writes exclude c)) \<and> same_state_limits c (snd (trim_hot sha writes exclude c))
    \<and> cached (snd (trim_hot sha writes exclude c)) \<subseteq>\<^sub>m cached c
    \<and> map_of (hs_hot (snd (trim_hot sha writes exclude c))) k = Some p
    \<and> (fst (trim_hot sha writes exclude c) = Inr () \<and> hot_within (snd (trim_hot sha writes exclude c))
       \<or> fst (trim_hot sha writes exclude c) = Inl OSError \<and> (\<exists>q. \<not> writes q))"
  using assms
proof (induction sha writes exclude c rule: trim_hot.induct)
  case (1 sha writes exclude c)
  have tiers: "tiers_ok sha c" using "1.prems"(2) by (simp add: state_ok_def)
  show ?case
  proof (cases "hot_within c")
    case True
    then show ?thesis using "1.prems"
      by (simp add: trim_hot.simps [of sha writes exclude c] hot_within_def same_state_limits_def protected_def)
  next
    case False
    then have over: "\<not> (int (length (hs_hot c)) \<le> fst (hs_hot_limit c) \<and> hs_hot_bytes c \<le> snd (hs_hot_limit c))"
      by (simp add: hot_within_def)
    have "find (\<lambda>x. Some (fst x) \<noteq> exclude) (hs_hot c) \<noteq> None"
    proof
      assume "find (\<lambda>x. Some (fst x) \<noteq> exclude) (hs_hot c) = None"
      then have "hot_within c" by (intro only_protected_left [OF tiers "1.prems"(3)] disjI1)
      with False show False ..
    qed
    then obtain q w where f: "find (\<lambda>x. Some (fst x) \<noteq> exclude) (hs_hot c) = Some (q, w)" by (cases "find (\<lambda>x. Some (fst x) \<noteq> exclude) (hs_hot c)") auto
    then have member: "(q, w) \<in> set (hs_hot c)" and other: "Some q \<noteq> exclude"
      unfolding find_Some_iff by (metis nth_mem, metis fst_conv)
    then have qw: "map_of (hs_hot c) q = Some w" using tiersD(1) [OF tiers] by simp
    let ?s = "spill sha writes q w c"
    note sp = spill_ok [OF "1.prems"(1,2) qw, of writes]
    have rest: "protected exclude k p (snd ?s)"
    proof -
      have "q \<noteq> k"
      proof (cases "exclude = None")
        case True
        then have "hd (hs_hot c) = (q, w)" using f by (cases "hs_hot c") auto
        then show ?thesis using only_protected_left [OF tiers "1.prems"(3)] False True qw "1.prems"(3)
          by (auto simp: protected_def)
      next
        case False
        then show ?thesis using "1.prems"(3) other by (auto simp: protected_def)
      qed
      moreover have "\<exists>older'. AList.delete q (older @ [(k, p)]) = older' @ [(k, p)]" if "q \<noteq> k" for older
        using that by (simp add: AList.delete_eq)
      ultimately show ?thesis using "1.prems"(3) by (auto simp: protected_def delete_conv')
    qed
    show ?thesis
    proof (cases "fst ?s")
      case (Inl e)
      then have "trim_hot sha writes exclude c = (Inl e, snd ?s)"
        using over f by (simp add: trim_hot.simps [of sha writes exclude c])
      then show ?thesis using sp Inl rest by (auto simp: protected_def)
    next
      case (Inr u)
      then have "trim_hot sha writes exclude c = trim_hot sha writes exclude (snd ?s)"
        using f Inr by (simp only: trim_hot.simps [of sha writes exclude c] if_not_P [OF over] option.case fst_conv snd_conv sum.case)
      moreover have "state_ok sha (snd ?s)" using sp by blast
      ultimately show ?thesis
        using "1.IH" [OF over f, of u] Inr sp rest "1.prems"(1) map_le_trans by (auto simp: same_state_limits_def)
    qed
  qed
qed

lemma remove_locked_ok:
  assumes "names_distinct sha" and "state_ok sha c"
  shows "state_ok sha (snd (remove_locked k c)) \<and> same_state_limits c (snd (remove_locked k c))
    \<and> cached (snd (remove_locked k c)) \<subseteq>\<^sub>m (cached c)(k := None)
    \<and> map_of (hs_hot (snd (remove_locked k c))) k = None \<and> map_of (hs_cold (snd (remove_locked k c))) k = None
    \<and> (hot_within c \<longrightarrow> hot_within (snd (remove_locked k c)))"
proof -
  have tiers: "tiers_ok sha c" using assms(2) by (simp add: state_ok_def)
  show ?thesis
  proof (cases "map_of (hs_hot c) k")
    case (Some p)
    note d = drop_hot_ok [OF tiers Some]
    have "p \<noteq> []" using d(4) .
    then show ?thesis
      using Some d(1-3) assms(2) length_delete_le [of k "hs_hot c"]
      by (auto simp: remove_locked_def state_ok_def cold_within_def hot_within_def same_state_limits_def delete_conv')
  next
    case None
    show ?thesis
    proof (cases "map_of (hs_cold c) k")
      case (Some e)
      note d = delete_cold_ok [OF assms(1) tiers, of k]
      have "snd (remove_locked k c) = delete_cold k c"
        using None map_of_Some_keys [OF Some] by (simp add: remove_locked_def)
      moreover have "cold_within (delete_cold k c)" "hot_within (delete_cold k c) = hot_within c"
        using d assms(2) length_delete_le [of k "hs_cold c"] Some
        by (simp_all add: state_ok_def cold_within_def hot_within_def same_state_limits_def) (simp add: delete_cold_def)
      ultimately show ?thesis using d None by (auto simp: state_ok_def delete_conv' map_le_def dom_def)
    next
      case False: None
      then have "k \<notin> set (keys (hs_cold c))" by (metis map_of_None_keys)
      then have "snd (remove_locked k c) = c" using None by (simp add: remove_locked_def)
      moreover have "(cached c)(k := None) = cached c" using None False by (auto simp: cached_def)
      ultimately show ?thesis using assms(2) None False by (simp add: same_state_limits_def)
    qed
  qed
qed

text \<open>Making a payload the newest entry of the hot tier.\<close>

lemma add_hot_ok:
  assumes "state_ok sha c" and "map_of (hs_hot c) k = None" "map_of (hs_cold c) k = None" and "p \<noteq> []" and "fits_hot p c"
  defines "d \<equiv> c\<lparr>hs_hot := AList.update k p (hs_hot c), hs_hot_bytes := hs_hot_bytes c + bytes_of p\<rparr>"
  shows "state_ok sha d \<and> same_state_limits c d \<and> cached d = (cached c)(k \<mapsto> p) \<and> hs_hot d = hs_hot c @ [(k, p)]
    \<and> map_of (hs_hot d) k = Some p"
proof -
  have t: "tiers_ok sha c" using assms(1) by (simp add: state_ok_def)
  have notin: "k \<notin> fst ` set (hs_hot c)" "k \<notin> fst ` set (hs_cold c)" using assms(2,3) by (simp_all add: map_of_eq_None_iff)
  have hot: "hs_hot d = hs_hot c @ [(k, p)]" using notin(1) by (simp add: d_def update_fresh)
  have "1 \<le> fst (hs_hot_limit c)" "bytes_of p \<le> snd (hs_hot_limit c)"
    using assms(5) tiersD(8) [OF t] by (auto simp: fits_hot_def)
  then have "tiers_ok sha d"
    unfolding tiers_ok_def using tiersD [OF t] tiers_cold [OF t] notin assms(4) unfolding hot by (auto simp: d_def)
  moreover have "cold_within d" using assms(1) by (simp add: state_ok_def cold_within_def d_def)
  moreover have "cached d = (cached c)(k \<mapsto> p)"
    by (auto simp: cached_def d_def update_conv' fun_eq_iff split: option.split)
  moreover have "map_of (hs_hot d) k = Some p" by (simp add: d_def update_conv')
  moreover have "same_state_limits c d" by (simp add: same_state_limits_def d_def)
  ultimately show ?thesis using hot by (simp add: state_ok_def)
qed

lemma put_state_ok:
  assumes n: "names_distinct sha" and ok: "state_ok sha c"
  shows "state_ok sha (snd (put_state sha writes k p c)) \<and> same_state_limits c (snd (put_state sha writes k p c))
    \<and> (fst (put_state sha writes k p c) = Inl (ValueError ''invalid hierarchical cache value'')
          \<and> snd (put_state sha writes k p c) = c
        \<or> cached (snd (put_state sha writes k p c)) \<subseteq>\<^sub>m (cached c)(k \<mapsto> p)
          \<and> (fst (put_state sha writes k p c) = Inl OSError \<and> (\<exists>q. \<not> writes q)
             \<or> (hot_within c \<longrightarrow> hot_within (snd (put_state sha writes k p c)))
               \<and> (fst (put_state sha writes k p c) = Inr ''dropped''
                  \<or> fst (put_state sha writes k p c) \<in> {Inr ''hot'', Inr ''cold''}
                    \<and> cached (snd (put_state sha writes k p c)) k = Some p)))"
proof (cases "1 \<le> bytes_of p \<and> bytes_of p \<le> MAX_HIERARCHICAL_CACHE_BYTES")
  case True
  define c1 where "c1 = snd (remove_locked k c)"
  note rm = remove_locked_ok [OF n ok, of k, folded c1_def]
  have p: "p \<noteq> []" using True by auto
  have c1: "state_ok sha c1" "map_of (hs_hot c1) k = None" "map_of (hs_cold c1) k = None" "same_state_limits c c1"
    using rm by auto
  have up: "(cached c1)(k \<mapsto> p) \<subseteq>\<^sub>m (cached c)(k \<mapsto> p)" using rm by (auto simp: map_le_def)
  show ?thesis
  proof (cases "fits_hot p c1")
    case fits: True
    define d where "d = c1\<lparr>hs_hot := AList.update k p (hs_hot c1), hs_hot_bytes := hs_hot_bytes c1 + bytes_of p\<rparr>"
    note d = add_hot_ok [OF c1(1-3) p fits, folded d_def]
    have "protected None k p d" using d by (auto simp: protected_def)
    note tr = trim_hot_ok [OF n _ this, of writes]
    obtain r c' where r: "trim_hot sha writes None d = (r, c')" by force
    have put: "put_state sha writes k p c = (map_sum id (\<lambda>_. ''hot'') r, c')"
      using True fits r by (simp add: put_state_def c1_def [symmetric] d_def [symmetric])
    have "cached c' \<subseteq>\<^sub>m (cached c)(k \<mapsto> p)" using tr d up r map_le_trans by fastforce
    moreover have "cached c' k = Some p" using tr d r by (simp add: cached_def)
    ultimately show ?thesis using tr d r c1(4) unfolding put by (auto simp: same_state_limits_def)
  next
    case False
    note st = store_cold_ok [OF n c1(1-3) p, of writes]
    obtain r c' where r: "store_cold sha writes k p c1 = (r, c')" by force
    have "hs_hot c' = hs_hot c1" "hs_hot_bytes c' = hs_hot_bytes c1" "hs_hot_limit c' = hs_hot_limit c1"
      using r by (metis snd_conv store_cold_hot)+
    then have hot: "hot_within c' = hot_within c1" by (simp add: hot_within_def)
    have "(cached c)(k := None) \<subseteq>\<^sub>m (cached c)(k \<mapsto> p)" by simp
    with rm have "cached c1 \<subseteq>\<^sub>m (cached c)(k \<mapsto> p)" using map_le_trans by blast
    have put: "put_state sha writes k p c = (case (r, c') of
          (Inl e, c') \<Rightarrow> (Inl e, c') | (Inr True, c') \<Rightarrow> (Inr ''cold'', c')
        | (Inr False, c') \<Rightarrow> (Inr ''dropped'', c'\<lparr>hs_evictions := hs_evictions c' + 1\<rparr>))"
      using True False r by (simp add: put_state_def c1_def [symmetric])
    show ?thesis
    proof (cases r)
      case (Inl e)
      then show ?thesis using st r c1(4) \<open>cached c1 \<subseteq>\<^sub>m (cached c)(k \<mapsto> p)\<close> unfolding put by auto
    next
      case (Inr stored)
      show ?thesis
      proof (cases stored)
        case True
        then have "cached c' \<subseteq>\<^sub>m (cached c)(k \<mapsto> p)" "cached c' k = Some p"
          using st r Inr up map_le_trans by auto
        then show ?thesis using st r Inr True rm hot unfolding put by (simp add: same_state_limits_def)
      next
        case False
        then show ?thesis using st r Inr rm \<open>cached c1 \<subseteq>\<^sub>m (cached c)(k \<mapsto> p)\<close> unfolding put
          by (simp add: same_state_limits_def)
      qed
    qed
  qed
next
  case False
  then show ?thesis using ok by (auto simp: put_state_def same_state_limits_def)
qed

lemma touch_ok:
  assumes "state_ok sha c"
  shows "state_ok sha (c\<lparr>hs_hot := move_to_end k (hs_hot c)\<rparr>)" "cached (c\<lparr>hs_hot := move_to_end k (hs_hot c)\<rparr>) = cached c"
    "state_ok sha (c\<lparr>hs_cold := move_to_end k (hs_cold c)\<rparr>)" "cached (c\<lparr>hs_cold := move_to_end k (hs_cold c)\<rparr>) = cached c"
proof -
  have t: "tiers_ok sha c" using assms by (simp add: state_ok_def)
  note hot = move_to_end_facts [OF tiersD(1) [OF t]] and cold = move_to_end_facts [OF tiersD(2) [OF t]]
  have "tiers_ok sha (c\<lparr>hs_hot := move_to_end k (hs_hot c)\<rparr>)"
    using tiersD [OF t] tiers_cold [OF t] unfolding tiers_ok_def by (auto simp: hot)
  moreover have "tiers_ok sha (c\<lparr>hs_cold := move_to_end k (hs_cold c)\<rparr>)"
    using tiersD [OF t] tiers_cold [OF t] unfolding tiers_ok_def by (auto simp: cold)
  ultimately show "state_ok sha (c\<lparr>hs_hot := move_to_end k (hs_hot c)\<rparr>)" "state_ok sha (c\<lparr>hs_cold := move_to_end k (hs_cold c)\<rparr>)"
    using assms by (simp_all add: state_ok_def cold_within_def cold)
  show "cached (c\<lparr>hs_hot := move_to_end k (hs_hot c)\<rparr>) = cached c" "cached (c\<lparr>hs_cold := move_to_end k (hs_cold c)\<rparr>) = cached c"
    by (simp_all add: cached_def fun_eq_iff hot cold split: option.split)
qed

lemma get_state_ok:
  assumes n: "names_distinct sha" and ok: "state_ok sha c"
  shows "state_ok sha (snd (get_state sha writes k c)) \<and> same_state_limits c (snd (get_state sha writes k c))
    \<and> cached (snd (get_state sha writes k c)) \<subseteq>\<^sub>m cached c
    \<and> (fst (get_state sha writes k c) = Inl OSError \<and> (\<exists>q. \<not> writes q)
       \<or> (hot_within c \<longrightarrow> hot_within (snd (get_state sha writes k c)))
         \<and> (\<exists>tier. fst (get_state sha writes k c) = Inr (map_option (\<lambda>p. \<lparr>sv_payload = p, sv_tier = tier, sv_sha256 = sha p\<rparr>)
              (cached c k))))"
proof -
  have tiers: "tiers_ok sha c" using ok by (simp add: state_ok_def)
  consider (hot) p where "map_of (hs_hot c) k = Some p"
    | (miss) "map_of (hs_hot c) k = None" "map_of (hs_cold c) k = None"
    | (cold) e where "map_of (hs_hot c) k = None" "map_of (hs_cold c) k = Some e"
    by (cases "map_of (hs_hot c) k"; cases "map_of (hs_cold c) k") auto
  then show ?thesis
  proof cases
    case hot
    have "hot_within (c\<lparr>hs_hot := move_to_end k (hs_hot c), hs_hits_hot := h\<rparr>) = hot_within c" for h
      using move_to_end_facts(5) [OF tiersD(1) [OF tiers]] by (simp add: hot_within_def)
    then show ?thesis using hot touch_ok [OF ok, of k]
      by (simp add: get_state_def same_state_limits_def) (simp add: cached_def)
  next
    case miss
    then show ?thesis using ok by (simp add: get_state_def same_state_limits_def) (simp add: cached_def)
  next
    case cold
    from cached_cold [OF tiers cold(2)] obtain p where p: "e = cold_entry_of sha k p" "p \<noteq> []"
      "hs_files c (ce_path e) = Some \<lparr>cf_opens = True, cf_private = True, cf_bytes = p\<rparr>" "cached c k = Some p" "map_of (hs_hot c) k = None" .
    have read: "read_cold sha e c = Inr p" using p(3) by (simp add: read_cold_def p(1) cold_entry_of_def)
    define c1 where "c1 = c\<lparr>hs_cold := move_to_end k (hs_cold c), hs_hits_cold := hs_hits_cold c + 1\<rparr>"
    have c1: "state_ok sha c1" "cached c1 = cached c" "same_state_limits c c1" "hs_hot c1 = hs_hot c" "hot_within c1 = hot_within c"
      using touch_ok(3,4) [OF ok, of k] by (simp_all add: c1_def same_state_limits_def hot_within_def)
    show ?thesis
    proof (cases "fits_hot p c1")
      case fits: True
      define c2 where "c2 = delete_cold k c1"
      have t1: "tiers_ok sha c1" using c1(1) by (simp add: state_ok_def)
      note d2 = delete_cold_ok [OF n t1, of k, folded c2_def]
      have c2: "state_ok sha c2" "map_of (hs_hot c2) k = None" "map_of (hs_cold c2) k = None" "fits_hot p c2"
        "(cached c2)(k \<mapsto> p) \<subseteq>\<^sub>m cached c"
        using d2 c1(1,2,4) p(4,5) fits length_delete_le [of k "hs_cold c1"]
        by (auto simp: state_ok_def cold_within_def same_state_limits_def delete_conv' fits_hot_def map_le_def)
      define d where "d = c2\<lparr>hs_hot := AList.update k p (hs_hot c2), hs_hot_bytes := hs_hot_bytes c2 + bytes_of p\<rparr>"
      note ad = add_hot_ok [OF c2(1-3) p(2) c2(4), folded d_def]
      let ?d = "d\<lparr>hs_promotions := hs_promotions d + 1\<rparr>"
      have "map_of (hs_hot d) k = Some p" using ad by blast
      then have "protected (Some k) k p ?d" by (simp add: protected_def)
      note tr = trim_hot_ok [OF n _ this, of writes]
      have d: "c2\<lparr>hs_hot := AList.update k p (hs_hot c2), hs_hot_bytes := hs_hot_bytes c2 + bytes_of p,
          hs_promotions := hs_promotions c2 + 1\<rparr> = ?d" by (simp add: d_def)
      obtain r c' where r: "trim_hot sha writes (Some k) ?d = (r, c')" by force
      have get: "get_state sha writes k c
          = (map_sum id (\<lambda>_. Some \<lparr>sv_payload = p, sv_tier = ''hot'', sv_sha256 = ce_sha256 e\<rparr>) r, c')"
        using cold read fits r
        by (simp add: get_state_def Let_def c1_def [symmetric] c2_def [symmetric]) (simp add: d)
      have "cached c' \<subseteq>\<^sub>m cached c" using tr ad r c2(5) map_le_trans by fastforce
      moreover have "same_state_limits c c'" using tr ad r c1(3) d2 by (simp add: same_state_limits_def)
      ultimately show ?thesis using tr ad r p(4) unfolding get by (auto simp: p(1) cold_entry_of_def)
    next
      case False
      then have "get_state sha writes k c = (Inr (Some \<lparr>sv_payload = p, sv_tier = ''cold'', sv_sha256 = ce_sha256 e\<rparr>), c1)"
        using cold read by (simp add: get_state_def Let_def c1_def)
      then show ?thesis using c1 p(4) by (auto simp: p(1) cold_entry_of_def)
    qed
  qed
qed

lemma fold_delete_cold:
  assumes "names_distinct sha" and "state_ok sha c"
  shows "state_ok sha (fold delete_cold ks c) \<and> same_state_limits c (fold delete_cold ks c)
    \<and> hs_hot (fold delete_cold ks c) = hs_hot c \<and> cached (fold delete_cold ks c) \<subseteq>\<^sub>m cached c
    \<and> fst ` set (hs_cold (fold delete_cold ks c)) \<subseteq> fst ` set (hs_cold c) - set ks"
  using assms(2)
proof (induction ks arbitrary: c)
  case (Cons k ks)
  have t: "tiers_ok sha c" using Cons.prems by (simp add: state_ok_def)
  note d = delete_cold_ok [OF assms(1) t, of k]
  have "state_ok sha (delete_cold k c)"
    using d Cons.prems length_delete_le [of k "hs_cold c"] by (auto simp: state_ok_def cold_within_def same_state_limits_def)
  from Cons.IH [OF this] d show ?case
    using map_le_trans by (auto simp: same_state_limits_def set_delete)
qed (simp add: same_state_limits_def)

lemma clear_state_ok:
  assumes "names_distinct sha" and "state_ok sha c"
  shows "state_ok sha (clear_state c) \<and> same_state_limits c (clear_state c) \<and> cached (clear_state c) = Map.empty
    \<and> hot_within (clear_state c) \<and> hs_files (clear_state c) = Map.empty"
proof -
  let ?c = "c\<lparr>hs_hot := [], hs_hot_bytes := 0\<rparr>"
  have t: "tiers_ok sha c" using assms(2) by (simp add: state_ok_def)
  have "tiers_ok sha ?c" using tiersD [OF t] tiers_cold [OF t] unfolding tiers_ok_def by auto
  then have "state_ok sha ?c" using assms(2) by (simp add: state_ok_def cold_within_def)
  note f = fold_delete_cold [OF assms(1) this, of "keys (hs_cold c)"]
  have e: "hs_hot (clear_state c) = []" "hs_cold (clear_state c) = []" using f by (auto simp: clear_state_def)
  have t': "tiers_ok sha (clear_state c)" using f by (simp add: state_ok_def clear_state_def)
  have "hs_files (clear_state c) = Map.empty" "hot_within (clear_state c)"
    using tiersD(4,7,8,9) [OF t'] e by (simp_all add: hot_within_def)
  moreover have "cached (clear_state c) = Map.empty" using e by (simp add: cached_def fun_eq_iff)
  ultimately show ?thesis using f by (simp add: clear_state_def same_state_limits_def)
qed

section \<open>Properties\<close>

text \<open>Any calls on a new cache, with or without failing writes, and the map of the payloads put last.\<close>

inductive state_history :: "(string \<Rightarrow> string) \<Rightarrow> state_cache \<Rightarrow> state_cache \<Rightarrow> (state_key \<Rightarrow> string option) \<Rightarrow> bool \<Rightarrow> bool"
  for sha c0 where
  started: "state_history sha c0 c0 Map.empty True"
| put: "state_history sha c0 c m reliable \<Longrightarrow> fst (put_state sha writes k p c) \<noteq> Inl (ValueError ''invalid hierarchical cache value'') \<Longrightarrow>
    state_history sha c0 (snd (put_state sha writes k p c)) (m(k \<mapsto> p)) (reliable \<and> (\<forall>q. writes q))"
| got: "state_history sha c0 c m reliable \<Longrightarrow>
    state_history sha c0 (snd (get_state sha writes k c)) m (reliable \<and> (\<forall>q. writes q))"
| removed: "state_history sha c0 c m reliable \<Longrightarrow> state_history sha c0 (snd (remove_locked k c)) (m(k := None)) reliable"
| cleared: "state_history sha c0 c m reliable \<Longrightarrow> state_history sha c0 (clear_state c) Map.empty reliable"

lemma new_state_cache_ok:
  assumes "new_state_cache private hn hb cn cb = Inr c"
  shows "state_ok sha c \<and> hot_within c \<and> cached c = Map.empty \<and> hs_hot_limit c = (hn, hb) \<and> hs_cold_limit c = (cn, cb)"
  using assms by (auto simp: new_state_cache_def state_ok_def tiers_ok_def cold_within_def hot_within_def cached_def
      split: if_splits)

lemma state_history_ok:
  assumes "names_distinct sha" and "new_state_cache private hn hb cn cb = Inr c0" and "state_history sha c0 c m reliable"
  shows "state_ok sha c \<and> same_state_limits c0 c \<and> cached c \<subseteq>\<^sub>m m \<and> (reliable \<longrightarrow> hot_within c)"
  using assms(3)
proof induction
  case started
  then show ?case using new_state_cache_ok [OF assms(2), of sha] by (simp add: same_state_limits_def)
next
  case (put c m reliable writes k p)
  note ok = put_state_ok [OF assms(1), of c writes k p]
  have "(cached c)(k \<mapsto> p) \<subseteq>\<^sub>m m(k \<mapsto> p)" using put.IH by (simp add: map_le_def)
  then have "cached (snd (put_state sha writes k p c)) \<subseteq>\<^sub>m m(k \<mapsto> p)" using ok put map_le_trans by blast
  then show ?case using ok put by (auto simp: same_state_limits_def simp del: fun_upd_apply)
next
  case (got c m reliable writes k)
  note ok = get_state_ok [OF assms(1), of c writes k]
  have "cached (snd (get_state sha writes k c)) \<subseteq>\<^sub>m m" using ok got map_le_trans by blast
  then show ?case using ok got by (auto simp: same_state_limits_def)
next
  case (removed c m reliable k)
  note ok = remove_locked_ok [OF assms(1), of c k]
  have "(cached c)(k := None) \<subseteq>\<^sub>m m(k := None)" using removed.IH by (auto simp: map_le_def)
  then have "cached (snd (remove_locked k c)) \<subseteq>\<^sub>m m(k := None)" using ok removed map_le_trans by blast
  then show ?case using ok removed by (auto simp: same_state_limits_def simp del: fun_upd_apply)
next
  case (cleared c m reliable)
  then show ?case using clear_state_ok [OF assms(1), of c] by (auto simp: same_state_limits_def)
qed

text \<open>C9: the hierarchical cache refines a map.  After any calls, failing writes included, what the cache holds
  for a key is the payload put last for it; a lookup finds it exactly if it is held, with its digest, or fails
  because a write failed; the byte counters are exact, the cold limits hold, and the directory holds
  exactly the files of the cold entries.  As long as no write failed, the hot limits hold too.\<close>

theorem state_cache_refines_map:
  assumes "names_distinct sha" and "new_state_cache private hn hb cn cb = Inr c0" and "state_history sha c0 c m reliable"
  shows "cached c \<subseteq>\<^sub>m m
    \<and> (\<forall>writes k. fst (get_state sha writes k c) = Inl OSError \<and> (\<exists>q. \<not> writes q)
        \<or> (\<exists>tier. fst (get_state sha writes k c) = Inr (map_option
             (\<lambda>p. \<lparr>sv_payload = p, sv_tier = tier, sv_sha256 = sha p\<rparr>) (cached c k))))
    \<and> (\<forall>writes k p. fst (put_state sha writes k p c) \<in> {Inr ''hot'', Inr ''cold''} \<longrightarrow>
         cached (snd (put_state sha writes k p c)) k = Some p)
    \<and> hs_hot_bytes c = asum bytes_of (hs_hot c) \<and> hs_cold_bytes c = asum ce_size (hs_cold c)
    \<and> int (length (hs_cold c)) \<le> cn \<and> hs_cold_bytes c \<le> cb
    \<and> dom (hs_files c) = (ce_path \<circ> snd) ` set (hs_cold c)
    \<and> (reliable \<longrightarrow> int (length (hs_hot c)) \<le> hn \<and> hs_hot_bytes c \<le> hb)"
proof -
  have c: "state_ok sha c" "same_state_limits c0 c" "cached c \<subseteq>\<^sub>m m" "reliable \<longrightarrow> hot_within c"
    using state_history_ok [OF assms] by auto
  have lim: "hs_hot_limit c = (hn, hb)" "hs_cold_limit c = (cn, cb)"
    using new_state_cache_ok [OF assms(2)] c(2) by (auto simp: same_state_limits_def)
  have t: "tiers_ok sha c" using c(1) by (simp add: state_ok_def)
  have "cached (snd (put_state sha writes k p c)) k = Some p"
    if "fst (put_state sha writes k p c) \<in> {Inr ''hot'', Inr ''cold''}" for writes k p
    using put_state_ok [OF assms(1) c(1), of writes k p] that by auto
  moreover have "fst (get_state sha writes k c) = Inl OSError \<and> (\<exists>q. \<not> writes q)
      \<or> (\<exists>tier. fst (get_state sha writes k c) = Inr (map_option
           (\<lambda>p. \<lparr>sv_payload = p, sv_tier = tier, sv_sha256 = sha p\<rparr>) (cached c k)))" for writes k
    using get_state_ok [OF assms(1) c(1), of writes k] by blast
  moreover have "int (length (hs_cold c)) \<le> cn \<and> hs_cold_bytes c \<le> cb"
    using c(1) by (simp add: state_ok_def cold_within_def lim)
  moreover have "reliable \<longrightarrow> int (length (hs_hot c)) \<le> hn \<and> hs_hot_bytes c \<le> hb"
    using c(4) by (simp add: hot_within_def lim)
  ultimately show ?thesis using c(3) tiersD(4,5,7) [OF t] by blast
qed

text \<open>C25: changed files are not served.  Whatever the directory holds, a lookup answers with a payload of the cold
  tier only if its file opens, is private and has the recorded size and digest.  A file that opens and has lost its privacy,
  its size or its digest makes the lookup raise the value error of that check, and the entry, its bytes and the file are dropped.
  When there is no file to open (it is gone, or \<open>os.open\<close> refuses it because it is now a symbolic link or unreadable) the
  lookup raises an operating-system error and changes nothing, so the entry stays and every later lookup fails in the same way.\<close>
theorem changed_files_are_not_served:
  assumes "map_of (hs_hot c) k = None" and "map_of (hs_cold c) k = Some e"
  shows "(\<forall>v. fst (get_state sha writes k c) = Inr (Some v) \<longrightarrow>
        (\<exists>f. hs_files c (ce_path e) = Some f \<and> cf_opens f \<and> cf_private f \<and> sv_payload v = cf_bytes f
           \<and> bytes_of (sv_payload v) = ce_size e \<and> sha (sv_payload v) = ce_sha256 e \<and> sv_sha256 v = ce_sha256 e))
    \<and> (\<forall>f. hs_files c (ce_path e) = Some f \<longrightarrow> cf_opens f \<longrightarrow>
         \<not> cf_private f \<or> bytes_of (cf_bytes f) \<noteq> ce_size e \<or> sha (cf_bytes f) \<noteq> ce_sha256 e \<longrightarrow>
         fst (get_state sha writes k c) = Inl (ValueError
           (if \<not> cf_private f \<or> bytes_of (cf_bytes f) \<noteq> ce_size e then ''cold state cache entry is unsafe''
            else ''cold state cache digest mismatch''))
         \<and> hs_cold (snd (get_state sha writes k c)) = AList.delete k (hs_cold c)
         \<and> hs_cold_bytes (snd (get_state sha writes k c)) = hs_cold_bytes c - ce_size e
         \<and> hs_files (snd (get_state sha writes k c)) = (hs_files c)(ce_path e := None))
    \<and> ((case hs_files c (ce_path e) of None \<Rightarrow> True | Some f \<Rightarrow> \<not> cf_opens f) \<longrightarrow>
         get_state sha writes k c = (Inl OSError, c))"
proof -
  have "\<exists>f. hs_files c (ce_path e) = Some f \<and> cf_opens f \<and> cf_private f \<and> sv_payload v = cf_bytes f
      \<and> bytes_of (sv_payload v) = ce_size e \<and> sha (sv_payload v) = ce_sha256 e \<and> sv_sha256 v = ce_sha256 e"
    if get: "fst (get_state sha writes k c) = Inr (Some v)" for v
  proof (cases "read_cold sha e c")
    case (Inl x)
    then show ?thesis using get assms by (cases x) (simp_all add: get_state_def)
  next
    case (Inr p)
    then obtain f where f: "hs_files c (ce_path e) = Some f" "cf_opens f" "cf_private f" "bytes_of (cf_bytes f) = ce_size e"
      "sha (cf_bytes f) = ce_sha256 e" "p = cf_bytes f" by (auto simp: read_cold_def split: option.splits if_splits)
    have "sv_payload v = p \<and> sv_sha256 v = ce_sha256 e"
      using get assms Inr by (auto simp: get_state_def Let_def split: if_splits prod.splits sum.splits)
        (auto simp: map_sum_def split: sum.splits)
    then show ?thesis using f by auto
  qed
  then show ?thesis using assms by (auto simp: get_state_def read_cold_def delete_cold_def split: option.splits)
qed

section \<open>Concrete runs\<close>

text \<open>A digest that is easy to invert: each character after a mark, and an end mark.\<close>

definition example_sha :: "string \<Rightarrow> string" where
  "example_sha x = concat (map (\<lambda>c. [CHR ''1'', c]) x) @ ''0''"

lemma example_sha_prefix: "example_sha x @ r = example_sha y @ s \<Longrightarrow> x = y"
  unfolding example_sha_def
proof (induction x arbitrary: y)
  case Nil
  then show ?case by (cases y) simp_all
next
  case (Cons c x)
  then show ?case by (cases y) simp_all
qed

lemma example_names_distinct: "names_distinct example_sha"
  unfolding names_distinct_def
proof (intro allI impI)
  fix k k' p p'
  assume "cold_name example_sha k p = cold_name example_sha k' p'"
  then have "state_kind_value (sk_kind k) @ '':'' @ sk_fingerprint k = state_kind_value (sk_kind k') @ '':'' @ sk_fingerprint k'"
    unfolding cold_name_def state_cache_id_def by (rule example_sha_prefix)
  then show "k = k'" by (cases "sk_kind k"; cases "sk_kind k'") (auto intro: state_key.equality)
qed

definition example_key :: "string \<Rightarrow> state_key" where
  "example_key x = \<lparr>sk_kind = KVState, sk_fingerprint = x\<rparr>"

definition example_states :: "(state_key, string) dict \<Rightarrow> int \<Rightarrow> state_cache" where
  "example_states hot nbytes = \<lparr>hs_hot_limit = (3, 10), hs_cold_limit = (1, 10), hs_hot = hot, hs_cold = [],
     hs_hot_bytes = nbytes, hs_cold_bytes = 0, hs_hits_hot = 0, hs_hits_cold = 0, hs_misses = 0, hs_promotions = 0,
     hs_spills = 0, hs_evictions = 0, hs_files = Map.empty\<rparr>"

lemmas example_state_simps = example_states_def example_key_def put_state_def remove_locked_def fits_hot_def
  MAX_HIERARCHICAL_CACHE_BYTES_def trim_hot.simps spill_def store_cold_def

lemma example_put:
  "put_state sha writes (example_key ''a'') ''x'' (example_states [] 0)
     = (Inr ''hot'', example_states [(example_key ''a'', ''x'')] 1)"
  "put_state sha writes (example_key ''b'') ''y'' (example_states [(example_key ''a'', ''x'')] 1)
     = (Inr ''hot'', example_states [(example_key ''a'', ''x''), (example_key ''b'', ''y'')] 2)"
  by (simp_all add: example_state_simps)

lemma example_state_history:
  "state_history example_sha (example_states [] 0) (example_states [(example_key ''a'', ''x''), (example_key ''b'', ''y'')] 2)
     [example_key ''a'' \<mapsto> ''x'', example_key ''b'' \<mapsto> ''y''] True"
proof -
  note 0 = state_history.started [of example_sha "example_states [] 0"]
  have 1: "state_history example_sha (example_states [] 0) (example_states [(example_key ''a'', ''x'')] 1)
      [example_key ''a'' \<mapsto> ''x''] True"
    using state_history.put [OF 0, of "\<lambda>q. True" "example_key ''a''" "''x''"] by (simp add: example_put)
  show ?thesis
    using state_history.put [OF 1, of "\<lambda>q. True" "example_key ''b''" "''y''"] by (simp add: example_put)
qed

theorem state_cache_refines_map_witness:
  "fst (get_state example_sha (\<lambda>q. True) (example_key ''a'')
       (example_states [(example_key ''a'', ''x''), (example_key ''b'', ''y'')] 2)) \<noteq> Inl OSError
   \<and> cached (example_states [(example_key ''a'', ''x''), (example_key ''b'', ''y'')] 2)
       \<subseteq>\<^sub>m [example_key ''a'' \<mapsto> ''x'', example_key ''b'' \<mapsto> ''y'']"
proof -
  have "new_state_cache True 3 10 1 10 = Inr (example_states [] 0)"
    by (simp add: new_state_cache_def example_states_def MAX_HIERARCHICAL_CACHE_ENTRIES_def MAX_HIERARCHICAL_CACHE_BYTES_def)
  note all = state_cache_refines_map [OF example_names_distinct this example_state_history]
  from all [THEN conjunct2, THEN conjunct1, rule_format, of "\<lambda>q. True" "example_key ''a''"] all [THEN conjunct1]
  show ?thesis by auto
qed

definition example_cold_cache :: "cold_file option \<Rightarrow> state_cache" where
  "example_cold_cache f = (example_states [] 0)\<lparr>hs_cold := [(example_key ''a'', cold_entry_of example_sha (example_key ''a'') ''x'')],
     hs_cold_bytes := 1, hs_files := (\<lambda>name. if name = cold_name example_sha (example_key ''a'') ''x'' then f else None)\<rparr>"

theorem changed_files_are_not_served_witness:
  "fst (get_state example_sha (\<lambda>q. True) (example_key ''a'')
       (example_cold_cache (Some \<lparr>cf_opens = True, cf_private = True, cf_bytes = ''z''\<rparr>)))
     = Inl (ValueError ''cold state cache digest mismatch'')
   \<and> get_state example_sha (\<lambda>q. True) (example_key ''a'') (example_cold_cache (Some \<lparr>cf_opens = False, cf_private = True, cf_bytes = ''x''\<rparr>))
     = (Inl OSError, example_cold_cache (Some \<lparr>cf_opens = False, cf_private = True, cf_bytes = ''x''\<rparr>))
   \<and> get_state example_sha (\<lambda>q. True) (example_key ''a'') (example_cold_cache None) = (Inl OSError, example_cold_cache None)"
proof -
  let ?e = "cold_entry_of example_sha (example_key ''a'') ''x''"
  have h: "map_of (hs_hot (example_cold_cache f)) (example_key ''a'') = None"
    "map_of (hs_cold (example_cold_cache f)) (example_key ''a'') = Some ?e" for f
    by (simp_all add: example_cold_cache_def example_states_def)
  have "hs_files (example_cold_cache f) (ce_path ?e) = f" for f
    by (simp add: example_cold_cache_def cold_entry_of_def)
  moreover have "example_sha ''z'' \<noteq> ce_sha256 ?e" "ce_size ?e = 1" by (simp_all add: example_sha_def cold_entry_of_def)
  ultimately show ?thesis
    using changed_files_are_not_served [OF h, of example_sha "\<lambda>q. True"] by fastforce
qed

text \<open>A spill that cannot be written raises out of the loop and leaves the hot tier over its byte limit: eleven
  bytes where ten are allowed.\<close>

theorem failed_spill_leaves_hot_tier_over_limit:
  "\<exists>c. put_state example_sha (\<lambda>q. False) (example_key ''c'') (replicate 10 CHR ''z'')
       (example_states [(example_key ''a'', ''x''), (example_key ''b'', ''y'')] 2) = (Inl OSError, c)
     \<and> hs_hot_bytes c = 11 \<and> snd (hs_hot_limit c) = 10 \<and> \<not> hot_within c"
  by (simp add: example_state_simps Let_def hot_within_def)

end
