(* ===== verification/ExpertResidency.thy ===== *)
theory ExpertResidency
  imports Prelude PyFloat "HOL-Library.Product_Lexorder"
begin

text \<open>
  \<open>vllm_apple/expert_residency.py\<close>: which experts of a mixture model are resident, with leases that pin
  them.  The backend is an argument of the calls: what \<open>load_expert\<close> returns or raises and how long it
  takes, the bound it announces (if it has that method), and which releases raise.  The loads and
  releases that succeed are logged in the state, so that leaks and double releases can be stated.  Every method is one
  step under the manager's lock; scores are doubles.
\<close>

definition MAX_EXPERT_RESIDENCY_ENTRIES :: int where "MAX_EXPERT_RESIDENCY_ENTRIES = 65536"
definition MAX_EXPERT_RESIDENCY_BYTES :: int where "MAX_EXPERT_RESIDENCY_BYTES = 2 ^ 40"

text \<open>\<open>ExpertKey\<close> is a frozen dataclass ordered by layer, then expert.\<close>

type_synonym expert_key = "int \<times> int"

definition expert_key_init :: "expert_key \<Rightarrow> expert_key result" where
  "expert_key_init k =
     guard_ok (0 \<le> fst k \<and> fst k < 1000000 \<and> 0 \<le> snd k \<and> snd k < 1000000) ''invalid expert key'' k"

record 'h expert_resource =
  ex_handle :: 'h
  ex_resident_bytes :: int

definition expert_resource_init :: "'h expert_resource \<Rightarrow> 'h expert_resource result" where
  "expert_resource_init x =
     guard_ok (1 \<le> ex_resident_bytes x \<and> ex_resident_bytes x \<le> MAX_EXPERT_RESIDENCY_BYTES) ''invalid expert resource'' x"

record 'h expert_entry =
  en_resource :: "'h expert_resource"
  en_leases :: int
  en_last_used :: int
  en_accesses :: int
  en_load_nanoseconds :: int

abbreviation en_bytes :: "'h expert_entry \<Rightarrow> int" where
  "en_bytes e \<equiv> ex_resident_bytes (en_resource e)"

record 'h residency =
  ey_policy :: string
  ey_maximum_entries :: int
  ey_maximum_bytes :: int
  ey_pending :: "(int \<times> int) option"
  ey_entries :: "(expert_key, 'h expert_entry) dict"
  ey_resident_bytes :: int
  ey_peak_resident :: int
  ey_peak_reserved :: int
  ey_clock :: int
  ey_hits :: int
  ey_misses :: int
  ey_evictions :: int
  ey_rejections :: int
  ey_loaded :: "'h expert_resource list"
  ey_released :: "'h expert_resource list"

definition residency_bounds_ok :: "int \<Rightarrow> int \<Rightarrow> bool" where
  "residency_bounds_ok n b \<longleftrightarrow> 1 \<le> n \<and> n \<le> MAX_EXPERT_RESIDENCY_ENTRIES \<and> 1 \<le> b \<and> b \<le> MAX_EXPERT_RESIDENCY_BYTES"

definition new_residency :: "int \<Rightarrow> int \<Rightarrow> string \<Rightarrow> 'h residency result" where
  "new_residency n b policy =
     (if \<not> residency_bounds_ok n b \<or> policy \<notin> {''lru'', ''cost_frequency''}
      then Inl (ValueError ''invalid expert residency bounds'')
      else Inr \<lparr>ey_policy = policy, ey_maximum_entries = n, ey_maximum_bytes = b, ey_pending = None, ey_entries = [],
                ey_resident_bytes = 0, ey_peak_resident = 0, ey_peak_reserved = 0, ey_clock = 0, ey_hits = 0,
                ey_misses = 0, ey_evictions = 0, ey_rejections = 0, ey_loaded = [],
                ey_released = []\<rparr>)"

section \<open>Victims\<close>

definition retention_score :: "'h residency \<Rightarrow> 'h expert_entry \<Rightarrow> rat" where
  "retention_score c e =
     (if ey_policy c = ''lru'' then rnd (of_int (en_last_used e))
      else let age = max 1 (ey_clock c - en_last_used e)
           in rnd (rnd (of_int (en_accesses e * en_load_nanoseconds e) / of_int (en_bytes e)) / rnd (of_int age)))"

definition idle_in_order :: "'h residency \<Rightarrow> (expert_key \<times> 'h expert_entry) list" where
  "idle_in_order c =
     sort_key (\<lambda>(k, e). (retention_score c e, en_last_used e, k)) (filter (\<lambda>(k, e). en_leases e = 0) (ey_entries c))"

fun take_victims ::
  "int \<Rightarrow> int \<Rightarrow> (expert_key \<times> 'h expert_entry) list \<Rightarrow> int \<Rightarrow> int \<Rightarrow> (expert_key \<times> 'h expert_entry) list \<times> int \<times> int" where
  "take_victims n b [] entries nbytes = ([], entries, nbytes)"
| "take_victims n b (x # xs) entries nbytes =
     (if entries \<le> n \<and> nbytes \<le> b then ([], entries, nbytes)
      else case take_victims n b xs (entries - 1) (nbytes - en_bytes (snd x)) of
             (vs, r) \<Rightarrow> (x # vs, r))"

definition victims_for :: "int \<Rightarrow> int \<Rightarrow> 'h residency \<Rightarrow> (expert_key \<times> 'h expert_entry) list option" where
  "victims_for incoming additional c =
     (if ey_maximum_bytes c < incoming then None
      else case take_victims (ey_maximum_entries c) (ey_maximum_bytes c) (idle_in_order c)
                  (int (length (ey_entries c)) + additional) (ey_resident_bytes c + incoming) of
             (vs, entries, nbytes) \<Rightarrow>
               if ey_maximum_entries c < entries \<or> ey_maximum_bytes c < nbytes then None else Some vs)"

text \<open>One release, and the two orders in which the code accounts for an eviction: before the release in the
  bounded path, after it elsewhere.\<close>

definition backend_release :: "('h expert_resource \<Rightarrow> bool) \<Rightarrow> 'h expert_resource \<Rightarrow> ('h residency, unit) method" where
  "backend_release releases x c =
     (if releases x then (Inr (), c\<lparr>ey_released := ey_released c @ [x]\<rparr>) else (Inl (OtherError ''release_expert''), c))"

fun evict_before_release ::
  "('h expert_resource \<Rightarrow> bool) \<Rightarrow> (expert_key \<times> 'h expert_entry) list \<Rightarrow> ('h residency, unit) method" where
  "evict_before_release releases [] c = (Inr (), c)"
| "evict_before_release releases ((k, e) # vs) c =
     (case backend_release releases (en_resource e)
             (c\<lparr>ey_entries := AList.delete k (ey_entries c), ey_resident_bytes := ey_resident_bytes c - en_bytes e,
                ey_evictions := ey_evictions c + 1\<rparr>) of
        (Inl x, c') \<Rightarrow> (Inl x, c')
      | (Inr u, c') \<Rightarrow> evict_before_release releases vs c')"

fun evict_after_release ::
  "('h expert_resource \<Rightarrow> bool) \<Rightarrow> (expert_key \<times> 'h expert_entry) list \<Rightarrow> ('h residency, unit) method" where
  "evict_after_release releases [] c = (Inr (), c)"
| "evict_after_release releases ((k, e) # vs) c =
     (case backend_release releases (en_resource e) (c\<lparr>ey_entries := AList.delete k (ey_entries c)\<rparr>) of
        (Inl x, c') \<Rightarrow> (Inl x, c')
      | (Inr u, c') \<Rightarrow> evict_after_release releases vs
          (c'\<lparr>ey_resident_bytes := ey_resident_bytes c' - en_bytes e, ey_evictions := ey_evictions c' + 1\<rparr>))"

section \<open>Leases\<close>

record 'h expert_lease =
  xl_key :: expert_key
  xl_resource :: "'h expert_resource"
  xl_cache_hit :: bool
  xl_released :: bool

text \<open>The bounded part of \<open>acquire\<close>: evict for the announced bound before the backend allocates.\<close>

definition reserve_bound :: "('h expert_resource \<Rightarrow> bool) \<Rightarrow> int \<Rightarrow> ('h residency, unit) method" where
  "reserve_bound releases bound c =
     (if \<not> (1 \<le> bound \<and> bound \<le> MAX_EXPERT_RESIDENCY_BYTES) then (Inl (ValueError ''invalid expert allocation bound''), c)
      else (case victims_for bound 1 c of
        None \<Rightarrow> (Inl (ValueError ''expert residency capacity is pinned or insufficient''),
                 c\<lparr>ey_rejections := ey_rejections c + 1\<rparr>)
      | Some vs \<Rightarrow>
          (case evict_before_release releases vs c of
             (Inl x, c') \<Rightarrow> (Inl x, c')
           | (Inr u, c') \<Rightarrow> (Inr (), c'\<lparr>ey_peak_reserved := max (ey_peak_reserved c') (ey_resident_bytes c' + bound)\<rparr>))))"

text \<open>Refusing a loaded resource: it goes back to the backend, whose own exception would replace the error.\<close>

definition refuse ::
  "('h expert_resource \<Rightarrow> bool) \<Rightarrow> 'h expert_resource \<Rightarrow> py_error \<Rightarrow> ('h residency, 'h expert_lease) method" where
  "refuse releases x error c =
     (case backend_release releases x c of (Inl e, c') \<Rightarrow> (Inl e, c') | (Inr u, c') \<Rightarrow> (Inl error, c'))"

definition admit_loaded ::
  "('h expert_resource \<Rightarrow> bool) \<Rightarrow> expert_key \<Rightarrow> int option \<Rightarrow> 'h expert_resource \<Rightarrow> int
    \<Rightarrow> ('h residency, 'h expert_lease) method" where
  "admit_loaded releases k bound x load_nanoseconds c =
     (if (case bound of None \<Rightarrow> False | Some b \<Rightarrow> b < ex_resident_bytes x)
        then refuse releases x (ValueError ''expert allocation exceeds backend bound'')
               (c\<lparr>ey_rejections := ey_rejections c + 1\<rparr>)
      else (case victims_for (ex_resident_bytes x) 1 c of
        None \<Rightarrow> refuse releases x (ValueError ''expert residency capacity is pinned'')
                  (c\<lparr>ey_rejections := ey_rejections c + 1\<rparr>)
      | Some vs \<Rightarrow>
          (case evict_after_release releases vs c of
             (Inl e, c') \<Rightarrow> refuse releases x e c'
           | (Inr u, c') \<Rightarrow>
               (Inr \<lparr>xl_key = k, xl_resource = x, xl_cache_hit = False, xl_released = False\<rparr>,
                c'\<lparr>ey_entries := AList.update k \<lparr>en_resource = x, en_leases = 1, en_last_used = ey_clock c',
                     en_accesses = 1, en_load_nanoseconds = load_nanoseconds\<rparr> (ey_entries c'),
                   ey_resident_bytes := ey_resident_bytes c' + ex_resident_bytes x,
                   ey_peak_resident := max (ey_peak_resident c') (ey_resident_bytes c' + ex_resident_bytes x)\<rparr>))))"

definition acquire ::
  "('h expert_resource \<Rightarrow> bool) \<Rightarrow> int result option \<Rightarrow> 'h expert_resource result \<Rightarrow> int \<Rightarrow> expert_key
    \<Rightarrow> ('h residency, 'h expert_lease) method" where
  "acquire releases bound loaded elapsed k c0 =
     (let c = c0\<lparr>ey_clock := ey_clock c0 + 1\<rparr>
      in case map_of (ey_entries c) k of
        Some e \<Rightarrow>
          (Inr \<lparr>xl_key = k, xl_resource = en_resource e, xl_cache_hit = True, xl_released = False\<rparr>,
           c\<lparr>ey_entries := AList.update k (e\<lparr>en_leases := en_leases e + 1, en_last_used := ey_clock c,
                en_accesses := min (en_accesses e + 1) 1000000\<rparr>) (ey_entries c), ey_hits := ey_hits c + 1\<rparr>)
      | None \<Rightarrow>
          let c1 = c\<lparr>ey_misses := ey_misses c + 1\<rparr>
          in case (case bound of None \<Rightarrow> (Inr None, c1)
                   | Some (Inl x) \<Rightarrow> (Inl x, c1)
                   | Some (Inr b) \<Rightarrow> (case reserve_bound releases b c1 of (r, c2) \<Rightarrow> (map_sum id (\<lambda>_. Some b) r, c2))) of
               (Inl x, c2) \<Rightarrow> (Inl x, c2)
             | (Inr b, c2) \<Rightarrow>
                 (case loaded of
                    Inl x \<Rightarrow> (Inl x, c2)
                  | Inr resource \<Rightarrow> admit_loaded releases k b resource (max 1 elapsed)
                      (c2\<lparr>ey_loaded := ey_loaded c2 @ [resource]\<rparr>)))"

definition resize_residency :: "('h expert_resource \<Rightarrow> bool) \<Rightarrow> int \<Rightarrow> int \<Rightarrow> ('h residency, bool) method" where
  "resize_residency releases n b c =
     (if \<not> residency_bounds_ok n b then (Inl (ValueError ''invalid expert residency bounds''), c)
      else
        let c1 = c\<lparr>ey_maximum_entries := n, ey_maximum_bytes := b\<rparr>
        in case victims_for 0 0 c1 of
             None \<Rightarrow> (Inr False, c\<lparr>ey_pending := Some (n, b)\<rparr>)
           | Some vs \<Rightarrow>
               (case evict_after_release releases vs c1 of
                  (Inl x, c2) \<Rightarrow> (Inl x, c2)
                | (Inr u, c2) \<Rightarrow> (Inr True, c2\<lparr>ey_pending := None\<rparr>)))"

text \<open>\<open>_release_lease\<close>: the resize that waits for it runs after the lock was given up, so other threads
  may run in between.\<close>

definition unpin :: "expert_key \<Rightarrow> ('h residency, (int \<times> int) option) method" where
  "unpin k c =
     (case map_of (ey_entries c) k of
        None \<Rightarrow> (Inl (RuntimeError ''expert lease is stale''), c)
      | Some e \<Rightarrow>
          if en_leases e \<le> 0 then (Inl (RuntimeError ''expert lease is stale''), c)
          else (Inr (ey_pending c),
                c\<lparr>ey_clock := ey_clock c + 1, ey_entries := AList.update k (e\<lparr>en_leases := en_leases e - 1,
                   en_last_used := ey_clock c + 1\<rparr>) (ey_entries c)\<rparr>))"

definition release_expert_lease ::
  "('h expert_resource \<Rightarrow> bool) \<Rightarrow> ('h residency \<Rightarrow> 'h residency) \<Rightarrow> 'h expert_lease \<Rightarrow> 'h residency
    \<Rightarrow> unit result \<times> 'h expert_lease \<times> 'h residency" where
  "release_expert_lease releases others le c =
     (if xl_released le then (Inr (), le, c)
      else (case unpin (xl_key le) c of
        (Inl x, c') \<Rightarrow> (Inl x, le\<lparr>xl_released := True\<rparr>, c')
      | (Inr None, c') \<Rightarrow> (Inr (), le\<lparr>xl_released := True\<rparr>, c')
      | (Inr (Some (n, b)), c') \<Rightarrow>
          (case resize_residency releases n b (others c') of
             (r, c'') \<Rightarrow> (map_sum id (\<lambda>_. ()) r, le\<lparr>xl_released := True\<rparr>, c''))))"

fun release_in_turn :: "('h expert_resource \<Rightarrow> bool) \<Rightarrow> 'h expert_resource list \<Rightarrow> ('h residency, unit) method" where
  "release_in_turn releases [] c = (Inr (), c)"
| "release_in_turn releases (x # xs) c =
     (case backend_release releases x c of
        (Inl e, c') \<Rightarrow> (Inl e, c') | (Inr u, c') \<Rightarrow> release_in_turn releases xs c')"

definition close_residency :: "('h expert_resource \<Rightarrow> bool) \<Rightarrow> ('h residency, unit) method" where
  "close_residency releases c =
     (if list_ex (\<lambda>(k, e). en_leases e \<noteq> 0) (ey_entries c) then (Inl (RuntimeError ''expert residency has active leases''), c)
      else release_in_turn releases (map (en_resource \<circ> snd) (ey_entries c))
             (c\<lparr>ey_entries := [], ey_resident_bytes := 0\<rparr>))"

definition residency_snapshot :: "'h residency \<Rightarrow> json" where
  "residency_snapshot c = JObj
     [(''entries'', JInt (int (length (ey_entries c)))), (''resident_bytes'', JInt (ey_resident_bytes c)),
      (''peak_resident_bytes'', JInt (ey_peak_resident c)), (''peak_reserved_bytes'', JInt (ey_peak_reserved c)),
      (''maximum_entries'', JInt (ey_maximum_entries c)), (''maximum_bytes'', JInt (ey_maximum_bytes c)),
      (''active_leases'', JInt (asum en_leases (ey_entries c))), (''hits'', JInt (ey_hits c)),
      (''misses'', JInt (ey_misses c)), (''evictions'', JInt (ey_evictions c)), (''rejections'', JInt (ey_rejections c)),
      (''resize_pending'', JBool (ey_pending c \<noteq> None)),
      (''pending_maximum_entries'', j_option (\<lambda>p. JInt (fst p)) (ey_pending c)),
      (''pending_maximum_bytes'', j_option (\<lambda>p. JInt (snd p)) (ey_pending c))]"

section \<open>Which entries are evicted\<close>

definition fits_within :: "int \<Rightarrow> int \<Rightarrow> 'h residency \<Rightarrow> (expert_key \<times> 'h expert_entry) list \<Rightarrow> bool" where
  "fits_within incoming additional c vs \<longleftrightarrow>
     int (length (ey_entries c)) + additional - int (length vs) \<le> ey_maximum_entries c
     \<and> ey_resident_bytes c + incoming - asum en_bytes vs \<le> ey_maximum_bytes c"

lemma take_victims_spec:
  "take_victims n b xs entries nbytes = (vs, entries', nbytes') \<Longrightarrow>
     (\<exists>m. vs = take m xs) \<and> entries' = entries - int (length vs) \<and> nbytes' = nbytes - asum en_bytes vs
     \<and> (vs \<noteq> xs \<longrightarrow> entries' \<le> n \<and> nbytes' \<le> b)
     \<and> (\<forall>m < length vs. \<not> (entries - int m \<le> n \<and> nbytes - asum en_bytes (take m xs) \<le> b))"
proof (induction xs arbitrary: entries nbytes vs)
  case (Cons x xs)
  show ?case
  proof (cases "entries \<le> n \<and> nbytes \<le> b")
    case True
    then show ?thesis using Cons.prems by (auto intro: exI [of _ 0])
  next
    case False
    then obtain ws where ws: "take_victims n b xs (entries - 1) (nbytes - en_bytes (snd x)) = (ws, entries', nbytes')" "vs = x # ws"
      using Cons.prems by (auto split: prod.splits)
    note IH = Cons.IH [OF ws(1)]
    obtain m where m: "ws = take m xs" using IH by blast
    have "\<exists>m. vs = take m (x # xs)" by (rule exI [of _ "Suc m"]) (simp add: ws(2) m)
    moreover have "\<not> (entries - int i \<le> n \<and> nbytes - asum en_bytes (take i (x # xs)) \<le> b)" if "i < length vs" for i
    proof (cases i)
      case 0
      then show ?thesis using False by simp
    next
      case (Suc j)
      then have "\<not> (entries - 1 - int j \<le> n \<and> nbytes - en_bytes (snd x) - asum en_bytes (take j xs) \<le> b)"
        using IH that ws(2) by auto
      then show ?thesis using Suc by (cases x) (simp add: algebra_simps)
    qed
    moreover have "entries' = entries - int (length vs)" "nbytes' = nbytes - asum en_bytes vs"
      "vs \<noteq> x # xs \<longrightarrow> entries' \<le> n \<and> nbytes' \<le> b"
      using IH by (cases x; simp add: ws(2))+
    ultimately show ?thesis by blast
  qed
qed simp

lemma victims_for_Some:
  assumes "victims_for incoming additional c = Some vs"
  shows "\<exists>m. vs = take m (idle_in_order c)" "fits_within incoming additional c vs" "incoming \<le> ey_maximum_bytes c"
    "\<forall>m < length vs. \<not> fits_within incoming additional c (take m (idle_in_order c))"
proof -
  obtain entries nbytes where t: "take_victims (ey_maximum_entries c) (ey_maximum_bytes c) (idle_in_order c)
      (int (length (ey_entries c)) + additional) (ey_resident_bytes c + incoming) = (vs, entries, nbytes)"
    "entries \<le> ey_maximum_entries c" "nbytes \<le> ey_maximum_bytes c" "incoming \<le> ey_maximum_bytes c"
    using assms by (auto simp: victims_for_def split: if_splits prod.splits)
  note spec = take_victims_spec [OF t(1)]
  obtain m where m: "vs = take m (idle_in_order c)" using spec by blast
  then have "length (take i (idle_in_order c)) = i" if "i < length vs" for i using that by simp
  with spec show "\<forall>m < length vs. \<not> fits_within incoming additional c (take m (idle_in_order c))"
    by (simp add: fits_within_def algebra_simps)
  show "\<exists>m. vs = take m (idle_in_order c)" using spec by blast
  show "fits_within incoming additional c vs" "incoming \<le> ey_maximum_bytes c"
    using spec t(2-4) by (simp_all add: fits_within_def)
qed

lemma victims_for_None:
  "victims_for incoming additional c = None \<longleftrightarrow>
     ey_maximum_bytes c < incoming \<or> \<not> (\<exists>m. fits_within incoming additional c (take m (idle_in_order c)))"
proof -
  obtain vs entries nbytes where t: "take_victims (ey_maximum_entries c) (ey_maximum_bytes c) (idle_in_order c)
      (int (length (ey_entries c)) + additional) (ey_resident_bytes c + incoming) = (vs, entries, nbytes)"
    by (cases "take_victims (ey_maximum_entries c) (ey_maximum_bytes c) (idle_in_order c)
      (int (length (ey_entries c)) + additional) (ey_resident_bytes c + incoming)") auto
  note spec = take_victims_spec [OF t]
  obtain m where m: "vs = take m (idle_in_order c)" using spec by blast
  have e: "entries = int (length (ey_entries c)) + additional - int (length vs)"
    "nbytes = ey_resident_bytes c + incoming - asum en_bytes vs" using spec by auto
  have fit: "fits_within incoming additional c vs \<longleftrightarrow> entries \<le> ey_maximum_entries c \<and> nbytes \<le> ey_maximum_bytes c"
    by (simp add: fits_within_def e)
  have "fits_within incoming additional c vs" if i: "fits_within incoming additional c (take i (idle_in_order c))" for i
  proof (cases "vs = idle_in_order c")
    case False
    then show ?thesis using spec fit by blast
  next
    case True
    show ?thesis
    proof (cases "i < length vs")
      case i_less: True
      then have "length (take i (idle_in_order c)) = i" using True by simp
      then have False using spec i_less i by (auto simp: fits_within_def)
      then show ?thesis ..
    next
      case False
      then show ?thesis using i True by simp
    qed
  qed
  then have "(\<exists>i. fits_within incoming additional c (take i (idle_in_order c))) \<longleftrightarrow> fits_within incoming additional c vs"
    using m by blast
  then show ?thesis using t fit by (auto simp: victims_for_def not_less)
qed

section \<open>The invariant\<close>

definition entries_ok :: "'h residency \<Rightarrow> bool" where
  "entries_ok c \<longleftrightarrow> dict_ok (ey_entries c) \<and> (\<forall>x\<in>set (ey_entries c). 1 \<le> en_bytes (snd x))
     \<and> ey_resident_bytes c = asum en_bytes (ey_entries c)
     \<and> mset (ey_loaded c) = mset (map (en_resource \<circ> snd) (ey_entries c)) + mset (ey_released c)"

definition within_bounds :: "'h residency \<Rightarrow> bool" where
  "within_bounds c \<longleftrightarrow> int (length (ey_entries c)) \<le> ey_maximum_entries c \<and> ey_resident_bytes c \<le> ey_maximum_bytes c"

text \<open>Every lease that is out finds its own resource resident, and an entry counts its leases.\<close>

definition pinned :: "'h expert_lease list \<Rightarrow> 'h residency \<Rightarrow> bool" where
  "pinned leases c \<longleftrightarrow>
     (\<forall>le\<in>set leases. \<exists>e. map_of (ey_entries c) (xl_key le) = Some e \<and> en_resource e = xl_resource le)
     \<and> (\<forall>x\<in>set (ey_entries c). en_leases (snd x) = int (length (filter (\<lambda>le. xl_key le = fst x) leases)))"

definition same_residency :: "'h residency \<Rightarrow> 'h residency \<Rightarrow> bool" where
  "same_residency c c' \<longleftrightarrow> ey_maximum_entries c' = ey_maximum_entries c \<and> ey_maximum_bytes c' = ey_maximum_bytes c
     \<and> ey_pending c' = ey_pending c \<and> ey_clock c' = ey_clock c \<and> ey_loaded c' = ey_loaded c"

abbreviation reliable :: "'h expert_resource \<Rightarrow> bool" where
  "reliable \<equiv> \<lambda>x. True"

lemma evictions_agree: "evict_before_release reliable vs c = evict_after_release reliable vs c"
proof (induction vs arbitrary: c)
  case (Cons v vs)
  obtain k e where v: "v = (k, e)" by (rule prod.exhaust)
  have "c\<lparr>ey_entries := AList.delete k (ey_entries c), ey_resident_bytes := ey_resident_bytes c - en_bytes e,
      ey_evictions := ey_evictions c + 1, ey_released := ey_released c @ [en_resource e]\<rparr>
    = c\<lparr>ey_entries := AList.delete k (ey_entries c), ey_released := ey_released c @ [en_resource e],
      ey_resident_bytes := ey_resident_bytes c - en_bytes e, ey_evictions := ey_evictions c + 1\<rparr>"
    (is "?x = ?y") by (rule residency.equality) simp_all
  then have "evict_after_release reliable vs ?x = evict_after_release reliable vs ?y" by (rule arg_cong)
  then show ?case using Cons.IH by (simp add: v backend_release_def)
qed simp

lemma mset_without:
  assumes "dict_ok d" and "map_of d k = Some e"
  shows "mset (map (f \<circ> snd) d) = add_mset (f e) (mset (map (f \<circ> snd) (AList.delete k d)))"
  using assms by (induction d) (auto simp: delete_fresh split: if_splits)

lemma evict_ok:
  assumes "entries_ok c" and "pinned leases c" and "set vs \<subseteq> set (ey_entries c)" and "dict_ok vs"
    and "\<forall>x\<in>set vs. en_leases (snd x) = 0"
  obtains c' where "evict_after_release reliable vs c = (Inr (), c')" "entries_ok c'" "pinned leases c'" "same_residency c c'"
    "ey_resident_bytes c' = ey_resident_bytes c - asum en_bytes vs"
    "int (length (ey_entries c')) = int (length (ey_entries c)) - int (length vs)"
    "set (ey_entries c') = {x \<in> set (ey_entries c). fst x \<notin> fst ` set vs}"
proof -
  have "\<exists>c'. evict_after_release reliable vs c = (Inr (), c') \<and> entries_ok c' \<and> pinned leases c' \<and> same_residency c c'
    \<and> ey_resident_bytes c' = ey_resident_bytes c - asum en_bytes vs
    \<and> int (length (ey_entries c')) = int (length (ey_entries c)) - int (length vs)
    \<and> set (ey_entries c') = {x \<in> set (ey_entries c). fst x \<notin> fst ` set vs}"
    using assms
  proof (induction vs arbitrary: c)
    case (Cons v vs)
    obtain k e where v: "v = (k, e)" by (rule prod.exhaust)
    let ?d = "c\<lparr>ey_entries := AList.delete k (ey_entries c), ey_released := ey_released c @ [en_resource e],
        ey_resident_bytes := ey_resident_bytes c - en_bytes e, ey_evictions := ey_evictions c + 1\<rparr>"
    have dict: "dict_ok (ey_entries c)" using Cons.prems(1) by (simp add: entries_ok_def)
    have ke: "map_of (ey_entries c) k = Some e" using Cons.prems(3) dict by (simp add: v)
    have "entries_ok ?d"
      using Cons.prems(1) mset_without [OF dict ke, of en_resource] asum_delete [OF dict ke, of en_bytes] dict_ok_delete [OF dict]
      by (auto simp: entries_ok_def set_delete)
    moreover have "\<forall>le\<in>set leases. xl_key le \<noteq> k"
    proof -
      have "int (length (filter (\<lambda>le. xl_key le = k) leases)) = 0"
        using Cons.prems(2,3,5) by (auto simp: pinned_def v)
      then show ?thesis by (auto simp: filter_empty_conv)
    qed
    then have "pinned leases ?d" using Cons.prems(2) by (auto simp: pinned_def delete_conv' set_delete)
    moreover have "set vs \<subseteq> set (ey_entries ?d)" "dict_ok vs" "\<forall>x\<in>set vs. en_leases (snd x) = 0"
      using Cons.prems(3-5) by (auto simp: v set_delete image_iff)
    ultimately obtain c' where IH: "evict_after_release reliable vs ?d = (Inr (), c')" "entries_ok c'" "pinned leases c'"
      "same_residency ?d c'" "ey_resident_bytes c' = ey_resident_bytes ?d - asum en_bytes vs"
      "int (length (ey_entries c')) = int (length (ey_entries ?d)) - int (length vs)"
      "set (ey_entries c') = {x \<in> set (ey_entries ?d). fst x \<notin> fst ` set vs}" using Cons.IH [of ?d] by blast
    have "Suc (length (AList.delete k (ey_entries c))) = length (ey_entries c)"
      by (rule length_delete [OF dict map_of_Some_keys [OF ke]])
    then show ?case using IH
      by (intro exI [of _ c']) (auto simp: v backend_release_def same_residency_def set_delete)
  qed (simp add: same_residency_def)
  then show ?thesis using that by blast
qed

lemma idle_in_order_facts:
  "set (idle_in_order c) = {x \<in> set (ey_entries c). en_leases (snd x) = 0}"
  "dict_ok (ey_entries c) \<Longrightarrow> dict_ok (idle_in_order c)"
proof -
  show "set (idle_in_order c) = {x \<in> set (ey_entries c). en_leases (snd x) = 0}"
    by (auto simp: idle_in_order_def)
  assume d: "dict_ok (ey_entries c)"
  have "mset (map fst (idle_in_order c)) = mset (map fst (filter (\<lambda>(k, e). en_leases e = 0) (ey_entries c)))"
    by (simp add: idle_in_order_def)
  moreover have "distinct (map fst (filter (\<lambda>(k, e). en_leases e = 0) (ey_entries c)))"
    using d by (simp add: distinct_map_filter)
  ultimately show "dict_ok (idle_in_order c)" by (metis mset_eq_imp_distinct_iff)
qed

lemma victims_evicted:
  assumes "entries_ok c" and "pinned leases c" and "victims_for incoming additional c = Some vs"
  obtains c' where "evict_after_release reliable vs c = (Inr (), c')" "entries_ok c'" "pinned leases c'" "same_residency c c'"
    "int (length (ey_entries c')) + additional \<le> ey_maximum_entries c" "ey_resident_bytes c' + incoming \<le> ey_maximum_bytes c"
    "set (ey_entries c') \<subseteq> set (ey_entries c)"
proof -
  obtain m where m: "vs = take m (idle_in_order c)" using victims_for_Some(1) [OF assms(3)] by blast
  have d: "dict_ok (ey_entries c)" using assms(1) by (simp add: entries_ok_def)
  have "set vs \<subseteq> set (idle_in_order c)" by (simp add: m set_take_subset)
  then have vs: "set vs \<subseteq> set (ey_entries c)" "\<forall>x\<in>set vs. en_leases (snd x) = 0" by (auto simp: idle_in_order_facts(1))
  have vd: "dict_ok vs" using idle_in_order_facts(2) [OF d] by (metis m distinct_take take_map)
  from evict_ok [OF assms(1,2) vs(1) vd vs(2)]
  obtain c' where c': "evict_after_release reliable vs c = (Inr (), c')" "entries_ok c'" "pinned leases c'"
    "same_residency c c'" "ey_resident_bytes c' = ey_resident_bytes c - asum en_bytes vs"
    "int (length (ey_entries c')) = int (length (ey_entries c)) - int (length vs)"
    "set (ey_entries c') = {x \<in> set (ey_entries c). fst x \<notin> fst ` set vs}" .
  have fits: "fits_within incoming additional c vs" using victims_for_Some(2) [OF assms(3)] .
  show ?thesis
  proof (rule that [OF c'(1-4)])
    show "int (length (ey_entries c')) + additional \<le> ey_maximum_entries c" "ey_resident_bytes c' + incoming \<le> ey_maximum_bytes c"
      using c'(5,6) fits by (simp_all add: fits_within_def)
    show "set (ey_entries c') \<subseteq> set (ey_entries c)" unfolding c'(7) by blast
  qed
qed

definition residency_ok :: "'h expert_lease list \<Rightarrow> 'h residency \<Rightarrow> bool" where
  "residency_ok leases c \<longleftrightarrow> entries_ok c \<and> pinned leases c \<and> within_bounds c"

lemma ok_counters [simp]:
  "residency_ok leases (c\<lparr>ey_clock := n\<rparr>) = residency_ok leases c"
  "residency_ok leases (c\<lparr>ey_misses := n\<rparr>) = residency_ok leases c"
  "residency_ok leases (c\<lparr>ey_hits := n\<rparr>) = residency_ok leases c"
  "residency_ok leases (c\<lparr>ey_rejections := n\<rparr>) = residency_ok leases c"
  "residency_ok leases (c\<lparr>ey_pending := p\<rparr>) = residency_ok leases c"
  "residency_ok leases (c\<lparr>ey_peak_reserved := n\<rparr>) = residency_ok leases c"
  "residency_ok leases (c\<lparr>ey_peak_resident := n\<rparr>) = residency_ok leases c"
  by (simp_all add: residency_ok_def entries_ok_def pinned_def within_bounds_def)

lemma reserve_bound_ok:
  assumes "residency_ok leases c" and "reserve_bound reliable bound c = (r, c')"
  shows "residency_ok leases c'" "set (ey_entries c') \<subseteq> set (ey_entries c)"
proof -
  have "residency_ok leases c' \<and> set (ey_entries c') \<subseteq> set (ey_entries c)"
  proof (cases "1 \<le> bound \<and> bound \<le> MAX_EXPERT_RESIDENCY_BYTES \<and> victims_for bound 1 c \<noteq> None")
    case False
    then show ?thesis using assms by (auto simp: reserve_bound_def split: if_splits option.splits)
  next
    case True
    then obtain vs where vs: "victims_for bound 1 c = Some vs" by blast
    have inv: "entries_ok c" "pinned leases c" using assms(1) by (simp_all add: residency_ok_def)
    from victims_evicted [OF inv vs]
    obtain d where d: "evict_after_release reliable vs c = (Inr (), d)" "entries_ok d" "pinned leases d" "same_residency c d"
      "int (length (ey_entries d)) + 1 \<le> ey_maximum_entries c" "ey_resident_bytes d + bound \<le> ey_maximum_bytes c"
      "set (ey_entries d) \<subseteq> set (ey_entries c)" .
    have "within_bounds d" using d(4-6) True by (simp add: within_bounds_def same_residency_def)
    then have "residency_ok leases d" using d(2,3) by (simp add: residency_ok_def)
    moreover have "c' = d\<lparr>ey_peak_reserved := max (ey_peak_reserved d) (ey_resident_bytes d + bound)\<rparr>"
      using assms(2) True vs d(1) by (simp add: reserve_bound_def evictions_agree)
    ultimately show ?thesis using d(7) by simp
  qed
  then show "residency_ok leases c'" "set (ey_entries c') \<subseteq> set (ey_entries c)" by auto
qed

text \<open>A resource was loaded but is not yet an entry: the ledger of loads is one ahead.\<close>

abbreviation just_loaded :: "'h expert_resource \<Rightarrow> 'h residency \<Rightarrow> 'h residency" where
  "just_loaded x c \<equiv> c\<lparr>ey_loaded := ey_loaded c @ [x]\<rparr>"

lemma logs_only [simp]:
  "pinned leases (c\<lparr>ey_loaded := xs\<rparr>) = pinned leases c" "pinned leases (c\<lparr>ey_released := xs\<rparr>) = pinned leases c"
  "pinned leases (c\<lparr>ey_maximum_entries := n\<rparr>) = pinned leases c" "pinned leases (c\<lparr>ey_maximum_bytes := n\<rparr>) = pinned leases c"
  "within_bounds (c\<lparr>ey_loaded := xs\<rparr>) = within_bounds c" "within_bounds (c\<lparr>ey_released := xs\<rparr>) = within_bounds c"
  by (simp_all add: pinned_def within_bounds_def)

lemma refuse_ok:
  assumes "residency_ok leases c" and "refuse reliable x e (just_loaded x c) = (r, c')"
  shows "r = Inl e" "residency_ok leases c'"
proof -
  have c': "c' = just_loaded x c\<lparr>ey_released := ey_released c @ [x]\<rparr>" "r = Inl e"
    using assms(2) by (simp_all add: refuse_def backend_release_def)
  have "entries_ok c'" using assms(1) by (simp add: c' residency_ok_def entries_ok_def)
  then show "residency_ok leases c'" using assms(1) by (simp add: c' residency_ok_def)
qed (use assms(2) in \<open>simp add: refuse_def backend_release_def\<close>)

lemma evict_just_loaded:
  "evict_after_release reliable vs (just_loaded x c) = map_prod id (just_loaded x) (evict_after_release reliable vs c)"
proof (induction vs arbitrary: c)
  case (Cons v vs)
  obtain k e where v: "v = (k, e)" by (rule prod.exhaust)
  let ?next = "\<lambda>d. d\<lparr>ey_entries := AList.delete k (ey_entries d), ey_released := ey_released d @ [en_resource e],
      ey_resident_bytes := ey_resident_bytes d - en_bytes e, ey_evictions := ey_evictions d + 1\<rparr>"
  have step: "evict_after_release reliable (v # vs) d = evict_after_release reliable vs (?next d)" for d
    by (simp add: v backend_release_def)
  have "?next (just_loaded x c) = just_loaded x (?next c)" by (rule residency.equality) simp_all
  then show ?case unfolding step by (simp only: Cons.IH)
qed simp

lemma victims_just_loaded [simp]: "victims_for n a (just_loaded x c) = victims_for n a c"
proof -
  have "retention_score (just_loaded x c) = retention_score c" by (rule ext) (simp add: retention_score_def)
  then have "idle_in_order (just_loaded x c) = idle_in_order c" by (simp add: idle_in_order_def)
  then show ?thesis by (simp add: victims_for_def)
qed

definition settled :: "'h expert_lease list \<Rightarrow> 'h expert_lease result \<Rightarrow> 'h residency \<Rightarrow> bool" where
  "settled leases r c \<longleftrightarrow> residency_ok (case r of Inl e \<Rightarrow> leases | Inr le \<Rightarrow> le # leases) c"

lemma pinned_new:
  assumes "pinned leases c" and fresh: "k \<notin> set (keys (ey_entries c))"
    and "xl_key le = k" and "xl_resource le = en_resource e" and "en_leases e = 1"
  shows "pinned (le # leases) (c\<lparr>ey_entries := AList.update k e (ey_entries c)\<rparr>)"
proof -
  have none: "\<forall>l\<in>set leases. xl_key l \<noteq> k"
    using assms(1) fresh unfolding pinned_def by (metis map_of_Some_keys)
  have mapped: "map_of (ey_entries c @ [(k, e)]) = (map_of (ey_entries c))(k \<mapsto> e)"
    unfolding update_fresh [OF fresh, symmetric] by (simp add: update_conv')
  have "filter (\<lambda>l. xl_key l = k) leases = []" using none by (simp add: filter_empty_conv)
  moreover have "\<forall>y\<in>set (ey_entries c). fst y \<noteq> k" using fresh by auto
  ultimately have "\<forall>y\<in>set (ey_entries c @ [(k, e)]).
      en_leases (snd y) = int (length (filter (\<lambda>l. xl_key l = fst y) (le # leases)))"
    using assms(1,3,5) by (auto simp: pinned_def)
  moreover have "\<forall>l\<in>set (le # leases). \<exists>e'. map_of (ey_entries c @ [(k, e)]) (xl_key l) = Some e' \<and> en_resource e' = xl_resource l"
    unfolding mapped using assms(1,3,4) none by (simp add: pinned_def)
  ultimately show ?thesis unfolding pinned_def by (simp add: update_fresh [OF fresh])
qed

lemma admit_ok:
  assumes ok: "residency_ok leases c" and fresh: "k \<notin> set (keys (ey_entries c))" and x: "1 \<le> ex_resident_bytes x"
    and admit: "admit_loaded reliable k bound x t (just_loaded x c) = (r, c')"
  shows "settled leases r c'"
proof -
  let ?n = "ey_rejections c + 1"
  have counted: "just_loaded x c\<lparr>ey_rejections := ?n\<rparr> = just_loaded x (c\<lparr>ey_rejections := ?n\<rparr>)"
    by (rule residency.equality) simp_all
  have "residency_ok leases (c\<lparr>ey_rejections := ?n\<rparr>)" using ok by simp
  note refused = refuse_ok [OF this, of x, folded counted]
  show ?thesis
  proof (cases "(case bound of None \<Rightarrow> False | Some b \<Rightarrow> b < ex_resident_bytes x) \<or> victims_for (ex_resident_bytes x) 1 c = None")
    case True
    then obtain e where "refuse reliable x e (just_loaded x c\<lparr>ey_rejections := ?n\<rparr>) = (r, c')"
      using admit by (auto simp: admit_loaded_def split: if_splits)
    from refused [OF this] show ?thesis by (simp add: settled_def)
  next
    case False
    then obtain vs where vs: "victims_for (ex_resident_bytes x) 1 c = Some vs" by blast
    have inv: "entries_ok c" "pinned leases c" using ok by (simp_all add: residency_ok_def)
    from victims_evicted [OF inv vs]
    obtain d where d: "evict_after_release reliable vs c = (Inr (), d)" "entries_ok d" "pinned leases d" "same_residency c d"
      "int (length (ey_entries d)) + 1 \<le> ey_maximum_entries c" "ey_resident_bytes d + ex_resident_bytes x \<le> ey_maximum_bytes c"
      "set (ey_entries d) \<subseteq> set (ey_entries c)" .
    have kd: "k \<notin> set (keys (ey_entries d))" using fresh d(7) by auto
    let ?e = "\<lparr>en_resource = x, en_leases = 1, en_last_used = ey_clock d, en_accesses = 1, en_load_nanoseconds = t\<rparr>"
    let ?le = "\<lparr>xl_key = k, xl_resource = x, xl_cache_hit = False, xl_released = False\<rparr>"
    let ?u = "d\<lparr>ey_entries := AList.update k ?e (ey_entries d)\<rparr>"
    have r: "r = Inr ?le" "c' = just_loaded x ?u\<lparr>ey_resident_bytes := ey_resident_bytes d + ex_resident_bytes x,
        ey_peak_resident := max (ey_peak_resident d) (ey_resident_bytes d + ex_resident_bytes x)\<rparr>"
      using admit False vs d(1) by (auto simp: admit_loaded_def evict_just_loaded)
    have "pinned (?le # leases) ?u" by (rule pinned_new [OF d(3) kd]) simp_all
    moreover have "entries_ok c'"
      using d(2) x kd by (auto simp: r entries_ok_def update_fresh)
    moreover have "within_bounds c'"
      using d(4-6) by (simp add: r within_bounds_def same_residency_def update_fresh [OF kd])
    ultimately show ?thesis by (simp add: settled_def residency_ok_def r pinned_def)
  qed
qed


text \<open>A change of an entry that keeps its resource and changes its number of leases by one.\<close>

lemma map_update_same:
  "map_of d k = Some e \<Longrightarrow> f e' = f e \<Longrightarrow> map (f \<circ> snd) (AList.update k e' d) = map (f \<circ> snd) d"
  by (induction d) (auto split: if_splits)

lemma entries_ok_touched:
  assumes "entries_ok c" and "map_of (ey_entries c) k = Some e" and "en_resource e' = en_resource e"
  shows "entries_ok (c\<lparr>ey_entries := AList.update k e' (ey_entries c)\<rparr>)"
    "within_bounds (c\<lparr>ey_entries := AList.update k e' (ey_entries c)\<rparr>) = within_bounds c"
proof -
  have d: "dict_ok (ey_entries c)" using assms(1) by (simp add: entries_ok_def)
  have k: "k \<in> set (keys (ey_entries c))" by (rule map_of_Some_keys [OF assms(2)])
  have same: "map (en_resource \<circ> snd) (AList.update k e' (ey_entries c)) = map (en_resource \<circ> snd) (ey_entries c)"
    by (rule map_update_same [OF assms(2,3)])
  have "1 \<le> en_bytes e" using assms(1) map_of_SomeD [OF assms(2)] unfolding entries_ok_def by force
  then have "\<forall>y\<in>set (AList.update k e' (ey_entries c)). 1 \<le> en_bytes (snd y)"
    using assms(1,3) by (auto simp: entries_ok_def set_update_dict)
  moreover have "asum en_bytes (AList.update k e' (ey_entries c)) = asum en_bytes (ey_entries c)"
    using asum_update_existing [OF d assms(2), of en_bytes e'] assms(3) by simp
  ultimately show "entries_ok (c\<lparr>ey_entries := AList.update k e' (ey_entries c)\<rparr>)"
    using assms(1) dict_ok_update [OF d] arg_cong [OF same, of mset] by (simp add: entries_ok_def)
  show "within_bounds (c\<lparr>ey_entries := AList.update k e' (ey_entries c)\<rparr>) = within_bounds c"
    by (simp add: within_bounds_def length_update_existing [OF k])
qed


lemma pinned_resource:
  "pinned leases c \<Longrightarrow> l \<in> set leases \<Longrightarrow> map_of (ey_entries c) (xl_key l) = Some e \<Longrightarrow> en_resource e = xl_resource l"
  unfolding pinned_def by (metis option.inject)

lemma pinned_leases:
  assumes "pinned leases c" and "map_of (ey_entries c) k = Some e"
  shows "en_leases e = int (length (filter (\<lambda>l. xl_key l = k) leases))"
  using assms(1) map_of_SomeD [OF assms(2)] unfolding pinned_def by fastforce

lemma pinned_touched:
  assumes "pinned leases c" and d: "dict_ok (ey_entries c)" and e: "map_of (ey_entries c) k = Some e"
    and "en_resource e' = en_resource e" and leases': "\<forall>l\<in>set leases'. l \<in> set leases \<or> (xl_key l = k \<and> xl_resource l = en_resource e)"
    and counts: "\<And>q. int (length (filter (\<lambda>l. xl_key l = q) leases'))
      = int (length (filter (\<lambda>l. xl_key l = q) leases)) + (if q = k then en_leases e' - en_leases e else 0)"
  shows "pinned leases' (c\<lparr>ey_entries := AList.update k e' (ey_entries c)\<rparr>)"
  unfolding pinned_def
proof (intro conjI ballI)
  fix l assume l: "l \<in> set leases'"
  show "\<exists>e. map_of (ey_entries (c\<lparr>ey_entries := AList.update k e' (ey_entries c)\<rparr>)) (xl_key l) = Some e
      \<and> en_resource e = xl_resource l"
  proof (cases "xl_key l = k")
    case True
    then have "en_resource e = xl_resource l" using l leases' pinned_resource [OF assms(1)] e by metis
    with True show ?thesis using assms(4) by (simp add: update_conv')
  next
    case False
    then have "l \<in> set leases" using l leases' by auto
    with False show ?thesis using assms(1) by (simp add: pinned_def update_conv')
  qed
next
  fix y assume y: "y \<in> set (ey_entries (c\<lparr>ey_entries := AList.update k e' (ey_entries c)\<rparr>))"
  show "en_leases (snd y) = int (length (filter (\<lambda>l. xl_key l = fst y) leases'))"
  proof (cases "fst y = k")
    case True
    then have "snd y = e'" using y by (auto simp: set_update_dict [OF d])
    then show ?thesis using True counts [of k] pinned_leases [OF assms(1) e] by simp
  next
    case False
    then have "y \<in> set (ey_entries c)" using y by (auto simp: set_update_dict [OF d])
    then show ?thesis using False counts [of "fst y"] assms(1) by (simp add: pinned_def)
  qed
qed

lemma leases_removed:
  fixes q :: expert_key
  shows "le \<in> set leases \<Longrightarrow> int (length (filter (\<lambda>l. xl_key l = q) (remove1 le leases)))
     = int (length (filter (\<lambda>l. xl_key l = q) leases)) - (if q = xl_key le then 1 else 0)"
proof (induction leases)
  case (Cons l ls)
  show ?case
  proof (cases "l = le")
    case False
    then show ?thesis using Cons by (cases "xl_key l = q") simp_all
  qed (cases "xl_key l = q"; simp)
qed simp

lemma leased_is_resident:
  assumes "residency_ok leases c" and "le \<in> set leases"
  obtains e where "map_of (ey_entries c) (xl_key le) = Some e" "en_resource e = xl_resource le" "1 \<le> en_leases e"
proof -
  have pin: "pinned leases c" using assms(1) by (simp add: residency_ok_def)
  obtain e where e: "map_of (ey_entries c) (xl_key le) = Some e" "en_resource e = xl_resource le"
    using pin assms(2) unfolding pinned_def by blast
  have "filter (\<lambda>l. xl_key l = xl_key le) leases \<noteq> []" using assms(2) by (auto simp: filter_empty_conv)
  then have "1 \<le> en_leases e"
    unfolding pinned_leases [OF pin e(1)] by (cases "filter (\<lambda>l. xl_key l = xl_key le) leases") simp_all
  with e show ?thesis by (rule that)
qed

lemma unpin_ok:
  assumes "residency_ok leases c" and "le \<in> set leases"
  shows "fst (unpin (xl_key le) c) = Inr (ey_pending c)" "residency_ok (remove1 le leases) (snd (unpin (xl_key le) c))"
proof -
  from leased_is_resident [OF assms]
  obtain e where e: "map_of (ey_entries c) (xl_key le) = Some e" "en_resource e = xl_resource le" "1 \<le> en_leases e" .
  let ?e = "e\<lparr>en_leases := en_leases e - 1, en_last_used := ey_clock c + 1\<rparr>"
  let ?c = "c\<lparr>ey_entries := AList.update (xl_key le) ?e (ey_entries c)\<rparr>"
  have inv: "entries_ok c" "pinned leases c" "within_bounds c" "dict_ok (ey_entries c)"
    using assms(1) by (simp_all add: residency_ok_def entries_ok_def)
  have "unpin (xl_key le) c = (Inr (ey_pending c), c\<lparr>ey_clock := ey_clock c + 1, ey_entries := AList.update (xl_key le) ?e (ey_entries c)\<rparr>)"
    using e by (simp add: unpin_def)
  moreover have "c\<lparr>ey_clock := ey_clock c + 1, ey_entries := AList.update (xl_key le) ?e (ey_entries c)\<rparr> = ?c\<lparr>ey_clock := ey_clock c + 1\<rparr>"
    by (rule residency.equality) simp_all
  moreover have "pinned (remove1 le leases) ?c"
    by (rule pinned_touched [OF inv(2,4) e(1)])
      (simp_all add: leases_removed [OF assms(2)], meson notin_set_remove1)
  then have "residency_ok (remove1 le leases) ?c"
    using entries_ok_touched [OF inv(1) e(1), of ?e] inv(3) by (simp add: residency_ok_def)
  ultimately show "fst (unpin (xl_key le) c) = Inr (ey_pending c)" "residency_ok (remove1 le leases) (snd (unpin (xl_key le) c))"
    by simp_all
qed


lemma acquire_ok:
  assumes ok: "residency_ok leases c" and fits: "\<And>x. loaded = Inr x \<Longrightarrow> 1 \<le> ex_resident_bytes x"
    and a: "acquire reliable bound loaded elapsed k c = (r, c')"
  shows "settled leases r c'"
proof (cases "map_of (ey_entries c) k")
  case (Some e)
  have inv: "entries_ok c" "pinned leases c" "within_bounds c" "dict_ok (ey_entries c)"
    using ok by (simp_all add: residency_ok_def entries_ok_def)
  let ?e = "e\<lparr>en_leases := en_leases e + 1, en_last_used := ey_clock c + 1, en_accesses := min (en_accesses e + 1) 1000000\<rparr>"
  let ?le = "\<lparr>xl_key = k, xl_resource = en_resource e, xl_cache_hit = True, xl_released = False\<rparr>"
  let ?c = "c\<lparr>ey_entries := AList.update k ?e (ey_entries c)\<rparr>"
  have "pinned (?le # leases) ?c" by (rule pinned_touched [OF inv(2,4) Some]) auto
  then have "residency_ok (?le # leases) ?c"
    using entries_ok_touched [OF inv(1) Some, of ?e] inv(3) by (simp add: residency_ok_def)
  moreover have "c' = ?c\<lparr>ey_clock := ey_clock c + 1, ey_hits := ey_hits c + 1\<rparr>" "r = Inr ?le"
    using a Some by (auto simp: acquire_def intro: residency.equality)
  ultimately show ?thesis by (simp add: settled_def)
next
  case None
  let ?c = "c\<lparr>ey_clock := ey_clock c + 1, ey_misses := ey_misses c + 1\<rparr>"
  obtain r2 c2 where r2: "(case bound of None \<Rightarrow> (Inr None, ?c) | Some (Inl x) \<Rightarrow> (Inl x, ?c)
      | Some (Inr b) \<Rightarrow> (case reserve_bound reliable b ?c of (r, c2) \<Rightarrow> (map_sum id (\<lambda>_. Some b) r, c2))) = (r2, c2)"
    by (rule prod.exhaust)
  have "residency_ok leases ?c" using ok by simp
  then have c2: "residency_ok leases c2 \<and> set (ey_entries c2) \<subseteq> set (ey_entries c)"
    using r2 reserve_bound_ok [of leases ?c] by (auto split: option.splits sum.splits prod.splits)
  have fresh: "k \<notin> set (keys (ey_entries c2))"
    using None c2 unfolding map_of_eq_None_iff set_map by (meson image_mono subsetD)
  show ?thesis
  proof (cases r2)
    case (Inl x)
    then show ?thesis using a None r2 c2 by (auto simp: acquire_def settled_def)
  next
    case b: (Inr b)
    show ?thesis
    proof (cases loaded)
      case (Inl x)
      then show ?thesis using a None r2 c2 b by (auto simp: acquire_def settled_def)
    next
      case (Inr x)
      have "admit_loaded reliable k b x (max 1 elapsed) (just_loaded x c2) = (r, c')"
        using a None r2 b Inr by (simp add: acquire_def)
      then show ?thesis using admit_ok [OF _ fresh fits [OF Inr]] c2 by blast
    qed
  qed
qed

lemma resize_ok:
  assumes ok: "residency_ok leases c"
  shows "residency_ok leases (snd (resize_residency reliable n b c))"
proof (cases "residency_bounds_ok n b \<and> victims_for 0 0 (c\<lparr>ey_maximum_entries := n, ey_maximum_bytes := b\<rparr>) \<noteq> None")
  case False
  then show ?thesis using ok by (auto simp: resize_residency_def)
next
  case True
  let ?c = "c\<lparr>ey_maximum_entries := n, ey_maximum_bytes := b\<rparr>"
  obtain vs where vs: "victims_for 0 0 ?c = Some vs" using True by blast
  have inv: "entries_ok ?c" "pinned leases ?c" using ok by (simp_all add: residency_ok_def entries_ok_def)
  from victims_evicted [OF inv vs]
  obtain d where d: "evict_after_release reliable vs ?c = (Inr (), d)" "entries_ok d" "pinned leases d" "same_residency ?c d"
    "int (length (ey_entries d)) + 0 \<le> ey_maximum_entries ?c" "ey_resident_bytes d + 0 \<le> ey_maximum_bytes ?c"
    "set (ey_entries d) \<subseteq> set (ey_entries ?c)" .
  have "within_bounds d" using d(4-6) by (simp add: within_bounds_def same_residency_def)
  then have "residency_ok leases d" using d(2,3) by (simp add: residency_ok_def)
  then show ?thesis using True vs d(1) by (simp add: resize_residency_def)
qed

lemma release_in_turn_reliable:
  "release_in_turn reliable xs c = (Inr (), c\<lparr>ey_released := ey_released c @ xs\<rparr>)"
  by (induction xs arbitrary: c) (simp_all add: backend_release_def)

lemma close_ok:
  assumes ok: "residency_ok leases c"
  shows "residency_ok leases (snd (close_residency reliable c))"
proof (cases "list_ex (\<lambda>(k, e). en_leases e \<noteq> 0) (ey_entries c)")
  case False
  have "leases = []"
  proof (cases leases)
    case (Cons le ls)
    then obtain e where "map_of (ey_entries c) (xl_key le) = Some e" "1 \<le> en_leases e"
      using leased_is_resident [OF ok, of le] by auto
    then show ?thesis using False by (force simp: list_ex_iff dest: map_of_SomeD)
  qed simp
  moreover have "0 \<le> asum en_bytes (ey_entries c)"
    by (rule asum_nonneg) (use ok in \<open>force simp: residency_ok_def entries_ok_def\<close>)
  then have "0 \<le> ey_maximum_entries c" "0 \<le> ey_maximum_bytes c"
    using ok by (simp_all add: residency_ok_def entries_ok_def within_bounds_def)
  ultimately show ?thesis
    using False ok
    by (simp add: close_residency_def release_in_turn_reliable residency_ok_def entries_ok_def pinned_def within_bounds_def)
qed (simp add: close_residency_def ok)


section \<open>Histories\<close>

text \<open>A backend that releases what it is told to; a lease is released at most once
  (\<^const>\<open>release_expert_lease\<close> sees to that).  Releasing a lease that a resize waits for is the step
  \<open>unpinned\<close> followed, possibly after other steps, by \<open>resized\<close>.\<close>

inductive er_history :: "'h residency \<Rightarrow> 'h expert_lease list \<Rightarrow> bool" where
  started: "new_residency n b policy = Inr c \<Longrightarrow> er_history c []"
| acquired: "er_history c leases \<Longrightarrow> acquire reliable bound loaded elapsed k c = (Inr le, c')
    \<Longrightarrow> (\<forall>x. loaded = Inr x \<longrightarrow> expert_resource_init x = Inr x) \<Longrightarrow> er_history c' (le # leases)"
| refused: "er_history c leases \<Longrightarrow> acquire reliable bound loaded elapsed k c = (Inl e, c')
    \<Longrightarrow> (\<forall>x. loaded = Inr x \<longrightarrow> expert_resource_init x = Inr x) \<Longrightarrow> er_history c' leases"
| unpinned: "er_history c leases \<Longrightarrow> le \<in> set leases \<Longrightarrow> unpin (xl_key le) c = (r, c') \<Longrightarrow> er_history c' (remove1 le leases)"
| resized: "er_history c leases \<Longrightarrow> resize_residency reliable n b c = (r', c') \<Longrightarrow> er_history c' leases"
| closed: "er_history c leases \<Longrightarrow> close_residency reliable c = (r'', c') \<Longrightarrow> er_history c' leases"

lemma residency_invariant: "er_history c leases \<Longrightarrow> residency_ok leases c"
proof (induction rule: er_history.induct)
  case (started n b policy c)
  then show ?case
    by (auto simp: new_residency_def residency_bounds_ok_def residency_ok_def entries_ok_def pinned_def within_bounds_def
        split: if_splits)
next
  case (acquired c leases bound loaded elapsed k le c')
  then have "settled leases (Inr le) c'"
    by (intro acquire_ok [of leases c loaded]) (auto simp: expert_resource_init_def guard_ok_def split: if_splits)
  then show ?case by (simp add: settled_def)
next
  case (refused c leases bound loaded elapsed k e c')
  then have "settled leases (Inl e) c'"
    by (intro acquire_ok [of leases c loaded]) (auto simp: expert_resource_init_def guard_ok_def split: if_splits)
  then show ?case by (simp add: settled_def)
next
  case (unpinned c leases le r c')
  then show ?case using unpin_ok(2) by fastforce
next
  case (resized c leases n b r c')
  then show ?case using resize_ok [of leases c n b] by simp
next
  case (closed c leases r c')
  then show ?case using close_ok [of leases c] by simp
qed

text \<open>C8: Expert residency, over all histories of acquires, refusals, releases, resizes and closes with a
  backend that releases what it is told to: both bounds are kept; the accounted bytes are those of the resident
  entries; every resource ever loaded is resident or was released, exactly once; the resource of every lease that is
  out is still resident, and releasing that lease does not fail.\<close>

theorem leased_experts_stay_resident:
  assumes "er_history c leases"
  shows "int (length (ey_entries c)) \<le> ey_maximum_entries c \<and> ey_resident_bytes c \<le> ey_maximum_bytes c
    \<and> ey_resident_bytes c = asum en_bytes (ey_entries c)
    \<and> mset (ey_loaded c) = mset (map (en_resource \<circ> snd) (ey_entries c)) + mset (ey_released c)
    \<and> (\<forall>le\<in>set leases. (\<exists>e. map_of (ey_entries c) (xl_key le) = Some e \<and> en_resource e = xl_resource le)
        \<and> fst (unpin (xl_key le) c) = Inr (ey_pending c))"
proof -
  have ok: "residency_ok leases c" by (rule residency_invariant [OF assms])
  then have "within_bounds c" "entries_ok c" by (simp_all add: residency_ok_def)
  moreover have "\<forall>le\<in>set leases. (\<exists>e. map_of (ey_entries c) (xl_key le) = Some e \<and> en_resource e = xl_resource le)
      \<and> fst (unpin (xl_key le) c) = Inr (ey_pending c)"
    using leased_is_resident [OF ok] unpin_ok(1) [OF ok] by metis
  ultimately show ?thesis unfolding within_bounds_def entries_ok_def by blast
qed


section \<open>The eviction decision\<close>

definition idle_prefixes :: "'h residency \<Rightarrow> (expert_key \<times> 'h expert_entry) list list" where
  "idle_prefixes c = map (\<lambda>m. take m (idle_in_order c)) [0..<Suc (length (idle_in_order c))]"

lemma idle_prefix_nth: "m \<le> length (idle_in_order c) \<Longrightarrow> idle_prefixes c ! m = take m (idle_in_order c)"
  by (simp add: idle_prefixes_def nth_append del: upt_Suc)

lemma idle_prefixes_set: "set (idle_prefixes c) = range (\<lambda>m. take m (idle_in_order c))"
proof -
  have "take m (idle_in_order c) \<in> set (idle_prefixes c)" for m
  proof -
    have "take m (idle_in_order c) = take (min m (length (idle_in_order c))) (idle_in_order c)" by (simp add: min_def)
    then show ?thesis unfolding idle_prefixes_def set_map set_upt by (rule image_eqI) simp
  qed
  moreover have "set (idle_prefixes c) \<subseteq> range (\<lambda>m. take m (idle_in_order c))"
    unfolding idle_prefixes_def set_map by blast
  ultimately show ?thesis by blast
qed

text \<open>C17: The eviction decision, for every state: it is the shortest prefix of the idle entries, in the
  order of their retention score, last use and key, after whose removal both bounds hold with the newcomer; it fails
  exactly when even removing every idle entry is not enough, or the newcomer alone exceeds the byte bound.  The
  candidates are exactly the entries without a lease, in nondecreasing order.\<close>

theorem victims_are_first_sufficient_prefix:
  "victims_for incoming additional c
     = (if ey_maximum_bytes c < incoming then None else find (fits_within incoming additional c) (idle_prefixes c))
   \<and> set (idle_in_order c) = {x \<in> set (ey_entries c). en_leases (snd x) = 0}
   \<and> sorted (map (\<lambda>(k, e). (retention_score c e, en_last_used e, k)) (idle_in_order c))"
proof -
  have "victims_for incoming additional c = find (fits_within incoming additional c) (idle_prefixes c)"
    if within: "incoming \<le> ey_maximum_bytes c"
  proof (cases "victims_for incoming additional c")
    case None
    then have "\<not> (\<exists>m. fits_within incoming additional c (take m (idle_in_order c)))"
      using victims_for_None [of incoming additional c] within by auto
    then have "find (fits_within incoming additional c) (idle_prefixes c) = None"
      unfolding find_None_iff idle_prefixes_set by blast
    with None show ?thesis by simp
  next
    case (Some vs)
    note facts = victims_for_Some [OF Some]
    obtain m where m: "vs = take m (idle_in_order c)" using facts(1) by blast
    let ?n = "length vs"
    have n: "?n \<le> length (idle_in_order c)" "vs = take ?n (idle_in_order c)" by (simp_all add: m min_def)
    have "find (fits_within incoming additional c) (idle_prefixes c) = Some vs"
      unfolding find_Some_iff
    proof (intro exI [of _ ?n] conjI allI impI)
      show "?n < length (idle_prefixes c)" using n(1) by (simp add: idle_prefixes_def)
      show "fits_within incoming additional c (idle_prefixes c ! ?n)" "vs = idle_prefixes c ! ?n"
        using facts(2) n by (simp_all add: idle_prefix_nth)
      fix i assume "i < ?n"
      then show "\<not> fits_within incoming additional c (idle_prefixes c ! i)"
        using facts(4) n(1) by (simp add: idle_prefix_nth)
    qed
    with Some show ?thesis by simp
  qed
  moreover have "victims_for incoming additional c = None" if "ey_maximum_bytes c < incoming"
    using that by (simp add: victims_for_def)
  moreover have "sorted (map (\<lambda>(k, e). (retention_score c e, en_last_used e, k)) (idle_in_order c))"
    unfolding idle_in_order_def by (rule sorted_sort_key)
  ultimately show ?thesis by (simp add: idle_in_order_facts(1) not_less)
qed

text \<open>An empty cache of four entries and 10 bytes, and a resource, for the witnesses.\<close>

definition small_residency :: "nat residency" where
  "small_residency = \<lparr>ey_policy = ''lru'', ey_maximum_entries = 4, ey_maximum_bytes = 10, ey_pending = None, ey_entries = [],
     ey_resident_bytes = 0, ey_peak_resident = 0, ey_peak_reserved = 0, ey_clock = 0, ey_hits = 0,
     ey_misses = 0, ey_evictions = 0, ey_rejections = 0, ey_loaded = [], ey_released = []\<rparr>"

definition small_expert :: "nat expert_resource" where
  "small_expert = \<lparr>ex_handle = 7, ex_resident_bytes = 6\<rparr>"

lemma small_history:
  "er_history (snd (acquire reliable None (Inr small_expert) 5 (3, 4) small_residency))
     [\<lparr>xl_key = (3, 4), xl_resource = small_expert, xl_cache_hit = False, xl_released = False\<rparr>]"
proof -
  have "er_history small_residency []"
    by (rule er_history.started [of 4 10 "''lru''"])
      (simp add: new_residency_def residency_bounds_ok_def small_residency_def MAX_EXPERT_RESIDENCY_ENTRIES_def MAX_EXPERT_RESIDENCY_BYTES_def)
  moreover have "fst (acquire reliable None (Inr small_expert) 5 (3, 4) small_residency)
      = Inr \<lparr>xl_key = (3, 4), xl_resource = small_expert, xl_cache_hit = False, xl_released = False\<rparr>"
    by code_simp
  moreover have "expert_resource_init small_expert = Inr small_expert" by code_simp
  ultimately show ?thesis
    by (intro er_history.acquired [where bound = None and loaded = "Inr small_expert" and elapsed = 5 and k = "(3, 4)"])
      (auto simp: prod_eq_iff)
qed

theorem leased_experts_witness:
  "fst (unpin (3, 4) (snd (acquire reliable None (Inr small_expert) 5 (3, 4) small_residency)))
     = Inr (ey_pending (snd (acquire reliable None (Inr small_expert) 5 (3, 4) small_residency)))"
  using leased_experts_stay_resident [OF small_history] by simp

text \<open>A resource whose release fails during an eviction after loading: the entry is gone, but its bytes
  stay accounted, so that the byte bound shrinks for good (the second release of \<open>acquire\<close> gives the new
  resource back).\<close>

theorem failed_release_leaks_bytes:
  "(let fails_for_7 = (\<lambda>x. ex_handle x \<noteq> 7);
        c1 = snd (acquire fails_for_7 None (Inr small_expert) 5 (3, 4) small_residency);
        c2 = snd (unpin (3, 4) c1);
        (r, c3) = acquire fails_for_7 None (Inr \<lparr>ex_handle = 8, ex_resident_bytes = 6\<rparr>) 5 (3, 5) c2
    in isl r \<and> ey_entries c3 = [] \<and> ey_resident_bytes c3 = 6)"
  by code_simp


text \<open>The bounds that a releasing thread read under the lock are applied after it gave the lock up: they undo a
  newer resize that succeeded in between.\<close>

theorem older_resize_wins:
  "(let (r, c1) = acquire reliable None (Inr small_expert) 5 (3, 4) small_residency;
        (later, c2) = resize_residency reliable 4 5 c1;
        newer = (\<lambda>c. snd (resize_residency reliable 4 20 c));
        (done_ok, le, c3) = release_expert_lease reliable newer
           \<lparr>xl_key = (3, 4), xl_resource = small_expert, xl_cache_hit = False, xl_released = False\<rparr> c2
    in \<not> isl r \<and> later = Inr False \<and> fst (resize_residency reliable 4 20 (snd (unpin (3, 4) c2))) = Inr True
       \<and> \<not> isl done_ok \<and> ey_maximum_bytes c3 = 5)"
  by code_simp

end
