(* ===== verification/AudioDeadline.thy ===== *)
theory AudioDeadline
  imports HeapQueue PyFloat
begin

text \<open>
  \<open>vllm_apple/audio_deadline_scheduler.py\<close>: earliest deadline first within strict priority classes, with
  admission control.  The heap is \<open>heapq\<close> with entries \<open>(priority, deadline, sequence, task)\<close> (see
  HeapQueue); cancelled tasks stay in it until they reach the head.  Clock readings are arguments, and so is
  the sum of the backlog (\<open>fsum\<close>), whose rounding depends on the layout of the heap array.  Every section
  under the lock is one step; while a task runs, other threads run (\<open>others\<close>).
\<close>

datatype audio_priority = AudioRealtime | AudioInteractive | AudioBackground

fun audio_rank :: "audio_priority \<Rightarrow> int" where
  "audio_rank AudioRealtime = 0"
| "audio_rank AudioInteractive = 1"
| "audio_rank AudioBackground = 2"

record 'p audio_task =
  ak_task_id :: string
  ak_priority :: audio_priority
  ak_deadline :: rat
  ak_duration :: rat
  ak_payload :: 'p

definition audio_task_init :: "string \<Rightarrow> audio_priority \<Rightarrow> xfloat \<Rightarrow> xfloat \<Rightarrow> 'p \<Rightarrow> 'p audio_task result" where
  "audio_task_init i p deadline duration payload =
     guard_ok (i \<noteq> [] \<and> length i \<le> 128 \<and> isfinite deadline \<and> isfinite duration \<and> \<not> x_le duration 0)
       ''invalid audio scheduled task''
       \<lparr>ak_task_id = i, ak_priority = p, ak_deadline = fin_val deadline, ak_duration = fin_val duration, ak_payload = payload\<rparr>"

record 'r audio_outcome =
  ao_task_id :: string
  ao_status :: string
  ao_priority :: audio_priority
  ao_deadline :: rat
  ao_started_at :: "rat option"
  ao_finished_at :: "rat option"
  ao_lateness_seconds :: rat
  ao_result :: "'r option"

type_synonym 'p audio_entry = "int \<times> rat \<times> int \<times> 'p audio_task"

record 'p audio_scheduler =
  ad_maximum_tasks :: int
  ad_heap :: "'p audio_entry list"
  ad_identifiers :: "string set"
  ad_cancelled_ids :: "string set"
  ad_sequence :: int
  ad_submitted :: int
  ad_completed :: int
  ad_rejected :: int
  ad_cancelled :: int
  ad_deadline_misses :: int
  ad_maximum_lateness :: rat

definition new_audio_scheduler :: "int \<Rightarrow> 'p audio_scheduler result" where
  "new_audio_scheduler n =
     guard_ok (1 \<le> n \<and> n \<le> 65536) ''invalid audio scheduler capacity''
       \<lparr>ad_maximum_tasks = n, ad_heap = [], ad_identifiers = {}, ad_cancelled_ids = {}, ad_sequence = 0, ad_submitted = 0,
        ad_completed = 0, ad_rejected = 0, ad_cancelled = 0, ad_deadline_misses = 0, ad_maximum_lateness = 0\<rparr>"

fun audio_entry_key :: "'p audio_entry \<Rightarrow> int \<times> rat \<times> int" where
  "audio_entry_key (p, d, n, t) = (p, d, n)"

fun entry_task :: "'p audio_entry \<Rightarrow> 'p audio_task" where
  "entry_task (p, d, n, t) = t"

abbreviation entry_id :: "'p audio_entry \<Rightarrow> string" where
  "entry_id e \<equiv> ak_task_id (entry_task e)"

definition audio_live :: "'p audio_scheduler \<Rightarrow> 'p audio_entry \<Rightarrow> bool" where
  "audio_live s e \<longleftrightarrow> entry_id e \<notin> ad_cancelled_ids s"

definition audio_backlog :: "(rat list \<Rightarrow> rat) \<Rightarrow> 'p audio_task \<Rightarrow> 'p audio_scheduler \<Rightarrow> rat" where
  "audio_backlog fsum t s =
     fsum (map (ak_duration \<circ> entry_task)
       (filter (\<lambda>e. audio_live s e \<and> audio_rank (ak_priority (entry_task e)) \<le> audio_rank (ak_priority t)
                    \<and> ak_deadline (entry_task e) \<le> ak_deadline t) (ad_heap s)))"

definition submit_audio :: "(rat list \<Rightarrow> rat) \<Rightarrow> rat \<Rightarrow> 'p audio_task \<Rightarrow> 'p audio_scheduler \<Rightarrow> bool \<times> 'p audio_scheduler" where
  "submit_audio fsum now t s =
     (if ak_task_id t \<in> ad_identifiers s \<or> ad_maximum_tasks s \<le> int (card (ad_identifiers s))
         \<or> ak_deadline t < rnd (rnd (now + audio_backlog fsum t s) + ak_duration t)
      then (False, s\<lparr>ad_rejected := ad_rejected s + 1\<rparr>)
      else (True, s\<lparr>ad_heap := insort_key audio_entry_key (audio_rank (ak_priority t), ak_deadline t, ad_sequence s, t) (ad_heap s),
                    ad_sequence := ad_sequence s + 1, ad_identifiers := insert (ak_task_id t) (ad_identifiers s),
                    ad_submitted := ad_submitted s + 1\<rparr>))"

definition cancel_audio :: "string \<Rightarrow> 'p audio_scheduler \<Rightarrow> bool \<times> 'p audio_scheduler" where
  "cancel_audio i s =
     (if i \<notin> ad_identifiers s \<or> i \<in> ad_cancelled_ids s then (False, s)
      else (True, s\<lparr>ad_cancelled_ids := insert i (ad_cancelled_ids s), ad_cancelled := ad_cancelled s + 1\<rparr>))"

text \<open>\<open>_pop_active_locked\<close>.\<close>

definition take_audio :: "'p audio_scheduler \<Rightarrow> 'p audio_entry option \<times> 'p audio_scheduler" where
  "take_audio s =
     (case pop_active entry_id (ad_heap s) (ad_identifiers s) (ad_cancelled_ids s) of
        (r, es, ids, gone) \<Rightarrow> (r, s\<lparr>ad_heap := es, ad_identifiers := ids, ad_cancelled_ids := gone\<rparr>))"

definition count_miss :: "rat \<Rightarrow> 'p audio_scheduler \<Rightarrow> 'p audio_scheduler" where
  "count_miss lateness s =
     s\<lparr>ad_deadline_misses := ad_deadline_misses s + 1, ad_maximum_lateness := max (ad_maximum_lateness s) lateness\<rparr>"

definition run_next ::
  "('p \<Rightarrow> 'r result) \<Rightarrow> rat \<Rightarrow> rat \<Rightarrow> ('p audio_scheduler \<Rightarrow> 'p audio_scheduler)
    \<Rightarrow> ('p audio_scheduler, 'r audio_outcome option) method" where
  "run_next execute started finished others s =
     (case take_audio s of
        (None, s1) \<Rightarrow> (Inr None, s1)
      | (Some e, s1) \<Rightarrow>
          let t = entry_task e; s2 = others s1
          in if ak_deadline t < started
             then let lateness = rnd (started - ak_deadline t)
                  in (Inr (Some \<lparr>ao_task_id = ak_task_id t, ao_status = ''deadline_missed'', ao_priority = ak_priority t,
                        ao_deadline = ak_deadline t, ao_started_at = None, ao_finished_at = None,
                        ao_lateness_seconds = lateness, ao_result = None\<rparr>), count_miss lateness s2)
             else (case execute (ak_payload t) of
                     Inl x \<Rightarrow> (Inl x, s2)
                   | Inr v \<Rightarrow>
                       let lateness = max 0 (rnd (finished - ak_deadline t));
                           s3 = s2\<lparr>ad_completed := ad_completed s2 + 1\<rparr>
                       in (Inr (Some \<lparr>ao_task_id = ak_task_id t,
                             ao_status = (if lateness = 0 then ''completed'' else ''completed_late''),
                             ao_priority = ak_priority t, ao_deadline = ak_deadline t, ao_started_at = Some started,
                             ao_finished_at = Some finished, ao_lateness_seconds = lateness, ao_result = Some v\<rparr>),
                           if lateness = 0 then s3 else count_miss lateness s3)))"

record audio_snapshot_record =
  au_queue_depth :: int
  au_submitted :: int
  au_completed :: int
  au_rejected :: int
  au_cancelled :: int
  au_deadline_misses :: int
  au_maximum_lateness :: rat

definition audio_scheduler_snapshot :: "'p audio_scheduler \<Rightarrow> audio_snapshot_record" where
  "audio_scheduler_snapshot s =
     \<lparr>au_queue_depth = int (card (ad_identifiers s)) - int (card (ad_cancelled_ids s)), au_submitted = ad_submitted s,
      au_completed = ad_completed s, au_rejected = ad_rejected s, au_cancelled = ad_cancelled s,
      au_deadline_misses = ad_deadline_misses s, au_maximum_lateness = ad_maximum_lateness s\<rparr>"


section \<open>The invariant\<close>

fun audio_entry_ok :: "int \<Rightarrow> 'p audio_entry \<Rightarrow> bool" where
  "audio_entry_ok sequence (p, d, n, t) \<longleftrightarrow> p = audio_rank (ak_priority t) \<and> d = ak_deadline t \<and> n < sequence"

definition audio_ok :: "'p audio_scheduler \<Rightarrow> bool" where
  "audio_ok s \<longleftrightarrow> sorted (map audio_entry_key (ad_heap s)) \<and> distinct (map entry_id (ad_heap s))
     \<and> ad_identifiers s = entry_id ` set (ad_heap s) \<and> ad_cancelled_ids s \<subseteq> ad_identifiers s
     \<and> int (length (ad_heap s)) \<le> ad_maximum_tasks s \<and> (\<forall>e\<in>set (ad_heap s). audio_entry_ok (ad_sequence s) e)"

lemma audio_okD:
  assumes "audio_ok s"
  shows "sorted (map audio_entry_key (ad_heap s))" "distinct (map entry_id (ad_heap s))"
    "ad_identifiers s = entry_id ` set (ad_heap s)" "ad_cancelled_ids s \<subseteq> ad_identifiers s"
    "int (length (ad_heap s)) \<le> ad_maximum_tasks s" "\<forall>e\<in>set (ad_heap s). audio_entry_ok (ad_sequence s) e"
  using assms unfolding audio_ok_def by blast+

lemma audio_identifiers_card: "audio_ok s \<Longrightarrow> card (ad_identifiers s) = length (ad_heap s)"
  using distinct_card [of "map entry_id (ad_heap s)"] by (simp add: audio_okD(2,3))

lemma new_audio_scheduler_ok: "new_audio_scheduler n = Inr s \<Longrightarrow> audio_ok s"
  by (auto simp: new_audio_scheduler_def audio_ok_def)

lemma audio_entry_ok_later: "audio_entry_ok n e \<Longrightarrow> audio_entry_ok (n + 1) e"
  by (cases e) simp

lemma submit_audio_ok:
  assumes ok: "audio_ok s"
  shows "audio_ok (snd (submit_audio fsum now t s))"
proof (cases "fst (submit_audio fsum now t s)")
  case False
  then show ?thesis using ok by (auto simp: submit_audio_def audio_ok_def split: if_splits)
next
  case True
  let ?e = "(audio_rank (ak_priority t), ak_deadline t, ad_sequence s, t)"
  have fresh: "ak_task_id t \<notin> ad_identifiers s" "int (length (ad_heap s)) < ad_maximum_tasks s"
    using True audio_identifiers_card [OF ok] by (auto simp: submit_audio_def split: if_splits)
  have s': "snd (submit_audio fsum now t s) = s\<lparr>ad_heap := insort_key audio_entry_key ?e (ad_heap s),
      ad_sequence := ad_sequence s + 1, ad_identifiers := insert (ak_task_id t) (ad_identifiers s),
      ad_submitted := ad_submitted s + 1\<rparr>"
    using True by (auto simp: submit_audio_def split: if_splits)
  have "sorted (map audio_entry_key (insort_key audio_entry_key ?e (ad_heap s)))"
    using audio_okD(1) [OF ok] by (simp add: sorted_insort_key)
  moreover have "distinct (map entry_id (insort_key audio_entry_key ?e (ad_heap s)))"
    using audio_okD(2,3) [OF ok] fresh(1) by (simp add: distinct_map_insort_key)
  moreover have "\<forall>e\<in>set (insort_key audio_entry_key ?e (ad_heap s)). audio_entry_ok (ad_sequence s + 1) e"
    using audio_okD(6) [OF ok] audio_entry_ok_later by (auto simp: set_insort_key)
  ultimately show ?thesis
    using fresh(2) audio_okD(3,4) [OF ok] unfolding s' audio_ok_def by (auto simp: set_insort_key)
qed

lemma cancel_audio_ok: "audio_ok s \<Longrightarrow> audio_ok (snd (cancel_audio i s))"
  unfolding cancel_audio_def audio_ok_def by (cases "i \<notin> ad_identifiers s \<or> i \<in> ad_cancelled_ids s") auto

lemma take_audio_spec:
  assumes ok: "audio_ok s" and take: "take_audio s = (r, s')"
  shows "pop_live (audio_live s) (ad_heap s) = (r, ad_heap s')" "audio_ok s'"
    "\<And>e. e \<in> set (ad_heap s') \<Longrightarrow> audio_live s' e = audio_live s e"
    "s' = s\<lparr>ad_heap := ad_heap s', ad_identifiers := ad_identifiers s', ad_cancelled_ids := ad_cancelled_ids s'\<rparr>"
proof -
  obtain es ids gone where p: "pop_active entry_id (ad_heap s) (ad_identifiers s) (ad_cancelled_ids s) = (r, es, ids, gone)"
    and s': "s' = s\<lparr>ad_heap := es, ad_identifiers := ids, ad_cancelled_ids := gone\<rparr>"
    using take by (auto simp: take_audio_def split: prod.splits)
  note spec = pop_active_spec [OF audio_okD(2) [OF ok] p]
  have live: "audio_live s = (\<lambda>e. entry_id e \<notin> ad_cancelled_ids s)" by (rule ext) (simp add: audio_live_def)
  show pop: "pop_live (audio_live s) (ad_heap s) = (r, ad_heap s')" using spec by (simp add: live s')
  obtain front where front: "ad_heap s = front @ es" using pop_live_front [OF pop] by (auto simp: s')
  have ids: "ids = entry_id ` set es" "gone = ad_cancelled_ids s \<inter> entry_id ` set es"
    using spec audio_okD(2-4) [OF ok] by (auto simp: front)
  show "audio_ok s'"
    using audio_okD(1,2,5,6) [OF ok] unfolding audio_ok_def by (auto simp: s' ids front sorted_append)
  show "audio_live s' e = audio_live s e" if "e \<in> set (ad_heap s')" for e
    using that by (auto simp: audio_live_def s' ids)
  show "s' = s\<lparr>ad_heap := ad_heap s', ad_identifiers := ad_identifiers s', ad_cancelled_ids := ad_cancelled_ids s'\<rparr>"
    by (simp add: s')
qed

interpretation audio: lazy_heap audio_ok ad_heap audio_entry_key audio_live take_audio
proof unfold_locales
  fix s s' :: "'p audio_scheduler" and r e
  show "audio_ok s \<Longrightarrow> sorted (map audio_entry_key (ad_heap s)) \<and> distinct (ad_heap s)"
    using audio_okD(1,2) by (auto simp: distinct_map)
  assume ok: "audio_ok s" and t: "take_audio s = (r, s')"
  show "audio_ok s'" "pop_live (audio_live s) (ad_heap s) = (r, ad_heap s')"
    using take_audio_spec [OF ok t] by simp_all
  assume e: "e \<in> set (ad_heap s')"
  have "r \<noteq> Some e"
    using pop_live_Some [of "audio_live s" "ad_heap s" e "ad_heap s'"] take_audio_spec(1) [OF ok t] audio_okD(2) [OF ok] e
    by (auto simp: distinct_map)
  then show "audio_live s' e = (audio_live s e \<and> r \<noteq> Some e)" using take_audio_spec(3) [OF ok t e] by simp
qed


section \<open>Histories\<close>

text \<open>The locked sections of all threads, with what became of the tasks: \<open>accepted\<close>, handed to a caller of
  \<open>run_next\<close> (\<open>started\<close>), and \<open>cancelled\<close>.\<close>

definition waiting :: "'p audio_scheduler \<Rightarrow> 'p audio_task list" where
  "waiting s = map entry_task (filter (audio_live s) (ad_heap s))"

definition same_audio_queue :: "'p audio_scheduler \<Rightarrow> 'p audio_scheduler \<Rightarrow> bool" where
  "same_audio_queue s s' \<longleftrightarrow> ad_maximum_tasks s' = ad_maximum_tasks s \<and> ad_heap s' = ad_heap s
     \<and> ad_identifiers s' = ad_identifiers s \<and> ad_cancelled_ids s' = ad_cancelled_ids s \<and> ad_sequence s' = ad_sequence s
     \<and> ad_submitted s' = ad_submitted s \<and> ad_cancelled s' = ad_cancelled s"

lemma waiting_alt: "waiting s = map entry_task (filter (\<lambda>e. entry_id e \<notin> ad_cancelled_ids s) (ad_heap s))"
  unfolding waiting_def audio_live_def ..

inductive audio_history ::
  "'p audio_scheduler \<Rightarrow> 'p audio_task multiset \<Rightarrow> 'p audio_task multiset \<Rightarrow> 'p audio_task multiset \<Rightarrow> bool" where
  created: "new_audio_scheduler n = Inr s \<Longrightarrow> audio_history s {#} {#} {#}"
| submitted: "audio_history s accepted started cancelled \<Longrightarrow> submit_audio fsum now t s = (True, s')
    \<Longrightarrow> audio_history s' (add_mset t accepted) started cancelled"
| refused: "audio_history s accepted started cancelled \<Longrightarrow> submit_audio fsum now t s = (False, s')
    \<Longrightarrow> audio_history s' accepted started cancelled"
| cancelled: "audio_history s accepted started cancelled \<Longrightarrow> e \<in> set (ad_heap s) \<Longrightarrow> cancel_audio (entry_id e) s = (True, s')
    \<Longrightarrow> audio_history s' accepted started (add_mset (entry_task e) cancelled)"
| taken: "audio_history s accepted started cancelled \<Longrightarrow> take_audio s = (r, s')
    \<Longrightarrow> audio_history s' accepted (started + image_mset entry_task (mset (case r of None \<Rightarrow> [] | Some e \<Rightarrow> [e]))) cancelled"
| counted: "audio_history s accepted started cancelled \<Longrightarrow> same_audio_queue s s'
    \<Longrightarrow> audio_history s' accepted started cancelled"

lemma waiting_submitted:
  assumes ok: "audio_ok s" and sub: "submit_audio fsum now t s = (True, s')"
  shows "mset (waiting s') = add_mset t (mset (waiting s))"
proof -
  have fresh: "ak_task_id t \<notin> ad_cancelled_ids s"
    using sub audio_okD(4) [OF ok] by (auto simp: submit_audio_def split: if_splits)
  have s': "ad_heap s' = insort_key audio_entry_key (audio_rank (ak_priority t), ak_deadline t, ad_sequence s, t) (ad_heap s)"
    "ad_cancelled_ids s' = ad_cancelled_ids s" using sub by (auto simp: submit_audio_def split: if_splits)
  show ?thesis unfolding waiting_alt s' mset_insort_filter using fresh by simp
qed

lemma waiting_cancelled:
  assumes ok: "audio_ok s" and e: "e \<in> set (ad_heap s)" and c: "cancel_audio (entry_id e) s = (True, s')"
  shows "mset (waiting s) = add_mset (entry_task e) (mset (waiting s'))"
proof -
  have live: "entry_id e \<notin> ad_cancelled_ids s" and s': "ad_heap s' = ad_heap s" "ad_cancelled_ids s' = insert (entry_id e) (ad_cancelled_ids s)"
    using c by (auto simp: cancel_audio_def split: if_splits)
  show ?thesis unfolding waiting_alt s' by (rule mset_filter_cancelled [OF e audio_okD(2) [OF ok] live])
qed

lemma waiting_taken:
  assumes ok: "audio_ok s" and t: "take_audio s = (r, s')"
  shows "waiting s = map entry_task (case r of None \<Rightarrow> [] | Some e \<Rightarrow> [e]) @ waiting s'"
  using audio.take_pending [OF t ok] unfolding waiting_def audio.pending_def by (auto split: list.splits)

lemma audio_history_ok:
  "audio_history s accepted started cancelled \<Longrightarrow> audio_ok s
     \<and> accepted = started + mset (waiting s) + cancelled \<and> int (size accepted) = ad_submitted s \<and> int (size cancelled) = ad_cancelled s"
proof (induction rule: audio_history.induct)
  case (created n s)
  then show ?case using new_audio_scheduler_ok [of n s] by (auto simp: new_audio_scheduler_def waiting_def)
next
  case (submitted s accepted started cancelled fsum now t s')
  then show ?case using submit_audio_ok [of s fsum now t] waiting_submitted [of s fsum now t s']
    by (auto simp: submit_audio_def split: if_splits)
next
  case (refused s accepted started cancelled fsum now t s')
  then show ?case using submit_audio_ok [of s fsum now t]
    by (auto simp: submit_audio_def waiting_def audio_live_def split: if_splits)
next
  case (cancelled s accepted started cancelled e s')
  then show ?case using cancel_audio_ok [of s "entry_id e"] waiting_cancelled [of s e s']
    by (auto simp: cancel_audio_def split: if_splits)
next
  case (taken s accepted started cancelled r s')
  have ok: "audio_ok s" using taken.IH by blast
  have "ad_submitted s' = ad_submitted s" "ad_cancelled s' = ad_cancelled s"
    by (subst take_audio_spec(4) [OF ok taken.hyps(2)], simp)+
  then show ?case using taken.IH waiting_taken [OF ok taken.hyps(2)] take_audio_spec(2) [OF ok taken.hyps(2)]
    by (auto split: option.splits)
next
  case (counted s accepted started cancelled s')
  then have "audio_ok s' = audio_ok s" "waiting s' = waiting s" "ad_submitted s' = ad_submitted s" "ad_cancelled s' = ad_cancelled s"
    by (simp_all add: same_audio_queue_def audio_ok_def waiting_alt)
  with counted.IH show ?case by auto
qed


lemma queue_depth_waiting:
  assumes ok: "audio_ok s"
  shows "au_queue_depth (audio_scheduler_snapshot s) = int (length (waiting s))"
  using queue_depth [OF audio_okD(2) [OF ok], of "ad_cancelled_ids s"] audio_okD(3,4) [OF ok]
  by (simp add: audio_scheduler_snapshot_def waiting_alt)

text \<open>Every task the audio scheduler accepted is, in every history, handed out to run, cancelled before that,
  or still waiting, and exactly one of these; the reported counters and the queue depth say so, and the queue, with its
  cancelled tasks, is within its capacity.\<close>
theorem audio_tasks_accounted:
  assumes "audio_history s accepted started cancelled"
  shows "accepted = started + mset (waiting s) + cancelled
    \<and> au_submitted (audio_scheduler_snapshot s) = int (size accepted)
    \<and> au_cancelled (audio_scheduler_snapshot s) = int (size cancelled)
    \<and> au_queue_depth (audio_scheduler_snapshot s) = int (length (waiting s))
    \<and> int (length (ad_heap s)) \<le> ad_maximum_tasks s"
  using audio_history_ok [OF assms] queue_depth_waiting [of s] by (auto simp: audio_scheduler_snapshot_def audio_ok_def)

text \<open>\<open>run_next\<close> is the locked step \<open>taken\<close>, then steps of other threads and one that only counts.\<close>

lemma counting_keeps_queue [simp]:
  "same_audio_queue s (s\<lparr>ad_completed := n\<rparr>)" "same_audio_queue s (count_miss l s)"
  "same_audio_queue s (count_miss l (s\<lparr>ad_completed := n\<rparr>))"
  by (simp_all add: same_audio_queue_def count_miss_def)

lemma run_next_cases:
  assumes "run_next execute started finished others s = (r, s')"
  obtains (idle) "take_audio s = (None, s')" "r = Inr None"
    | (missed) e s1 x where "take_audio s = (Some e, s1)" "ak_deadline (entry_task e) < started" "r = Inr (Some x)"
        "ao_task_id x = entry_id e" "ao_status x = ''deadline_missed''" "ao_result x = None" "same_audio_queue (others s1) s'"
    | (failed) e s1 err where "take_audio s = (Some e, s1)" "started \<le> ak_deadline (entry_task e)"
        "execute (ak_payload (entry_task e)) = Inl err" "r = Inl err" "s' = others s1"
    | (ran) e s1 x v where "take_audio s = (Some e, s1)" "started \<le> ak_deadline (entry_task e)"
        "execute (ak_payload (entry_task e)) = Inr v" "r = Inr (Some x)" "ao_task_id x = entry_id e" "ao_result x = Some v"
        "ao_status x = (if rnd (finished - ak_deadline (entry_task e)) \<le> 0 then ''completed'' else ''completed_late'')"
        "same_audio_queue (others s1) s'"
proof -
  obtain q s1 where t: "take_audio s = (q, s1)" by (rule prod.exhaust)
  show thesis
  proof (cases q)
    case None
    then show thesis using assms t by (intro idle) (simp_all add: run_next_def)
  next
    case (Some e)
    show thesis
    proof (cases "ak_deadline (entry_task e) < started")
      case True
      then show thesis using assms t Some
        by (intro missed [of e s1]) (auto simp: run_next_def Let_def)
    next
      case False
      show thesis
      proof (cases "execute (ak_payload (entry_task e))")
        case (Inl err)
        then show thesis using assms t Some False by (intro failed [of e s1 err]) (auto simp: run_next_def Let_def)
      next
        case (Inr v)
        then show thesis using assms t Some False
          by (intro ran [of e s1 v]) (auto simp: run_next_def Let_def max_def)
      qed
    qed
  qed
qed

text \<open>What \<open>run_next\<close> does in every reachable state: it has nothing to do exactly when no task waits;
  otherwise it takes the first of the waiting tasks in the order of priority, deadline and arrival, runs it only if it
  can start by its deadline, reports it completed exactly when it also finished by then, and otherwise reports the
  deadline missed or passes the task's exception on.\<close>
theorem audio_earliest_deadline_first:
  assumes "audio_history s accepted started cancelled"
    and "run_next execute begun finished others s = (r, s')"
  shows "(r = Inr None \<longleftrightarrow> waiting s = [])
    \<and> (\<forall>t ts. waiting s = t # ts \<longrightarrow>
        (\<forall>u\<in>set ts. (audio_rank (ak_priority t), ak_deadline t) \<le> (audio_rank (ak_priority u), ak_deadline u))
        \<and> (\<forall>err. r = Inl err \<longleftrightarrow> begun \<le> ak_deadline t \<and> execute (ak_payload t) = Inl err)
        \<and> (\<forall>x. r = Inr (Some x) \<longrightarrow> ao_task_id x = ak_task_id t
            \<and> (ao_status x = ''deadline_missed'' \<longleftrightarrow> ak_deadline t < begun)
            \<and> (ao_status x = ''completed'' \<longleftrightarrow> begun \<le> ak_deadline t \<and> rnd (finished - ak_deadline t) \<le> 0)
            \<and> (ao_result x = None \<longleftrightarrow> ak_deadline t < begun)))"
proof -
  have ok: "audio_ok s" using audio_history_ok [OF assms(1)] by blast
  have sorted_waiting: "sorted (map (\<lambda>u. (audio_rank (ak_priority u), ak_deadline u)) (waiting s))"
  proof -
    let ?g = "\<lambda>e. (audio_rank (ak_priority (entry_task e)), ak_deadline (entry_task e))"
    have mono: "?g x \<le> ?g y" if "audio_entry_ok n x" "audio_entry_ok n y" "audio_entry_key x \<le> audio_entry_key y" for n x and y :: "'a audio_entry"
      using that by (cases x; cases y) auto
    have "sorted (map audio_entry_key (filter (audio_live s) (ad_heap s)))" using audio_okD(1) [OF ok] by (simp add: sorted_filter)
    then have "sorted_wrt (\<lambda>x y. ?g x \<le> ?g y) (filter (audio_live s) (ad_heap s))"
      unfolding sorted_map
      by (rule sorted_wrt_mono_rel [rotated]) (meson audio_okD(6) [OF ok] filter_is_subset mono subsetD)
    then show ?thesis by (simp add: waiting_def sorted_map sorted_wrt_map)
  qed
  from assms(2) show ?thesis
  proof (cases rule: run_next_cases)
    case idle
    then show ?thesis using waiting_taken [OF ok idle(1)] audio.take_none [OF ok idle(1)]
      by (auto simp: waiting_def)
  next
    case (missed e s1 x)
    then show ?thesis using waiting_taken [OF ok missed(1)] sorted_waiting by auto
  next
    case (failed e s1 err)
    then show ?thesis using waiting_taken [OF ok failed(1)] sorted_waiting by auto
  next
    case (ran e s1 x v)
    then show ?thesis using waiting_taken [OF ok ran(1)] sorted_waiting by auto
  qed
qed


text \<open>Three tasks for the witnesses: the later, urgent one overtakes.\<close>

definition example_audio_task :: "string \<Rightarrow> audio_priority \<Rightarrow> rat \<Rightarrow> rat \<Rightarrow> nat audio_task" where
  "example_audio_task i p deadline duration =
     \<lparr>ak_task_id = i, ak_priority = p, ak_deadline = deadline, ak_duration = duration, ak_payload = length i\<rparr>"

definition example_audio_scheduler :: "nat audio_scheduler" where
  "example_audio_scheduler =
     \<lparr>ad_maximum_tasks = 4,
      ad_heap = [(0, 8, 1, example_audio_task ''b'' AudioRealtime 8 2), (2, 9, 0, example_audio_task ''a'' AudioBackground 9 6)],
      ad_identifiers = {''a'', ''b''}, ad_cancelled_ids = {}, ad_sequence = 2, ad_submitted = 2, ad_completed = 0,
      ad_rejected = 0, ad_cancelled = 0, ad_deadline_misses = 0, ad_maximum_lateness = 0\<rparr>"

lemma example_deadline_history:
  "audio_history example_audio_scheduler
     {#example_audio_task ''b'' AudioRealtime 8 2, example_audio_task ''a'' AudioBackground 9 6#} {#} {#}"
proof -
  let ?s0 = "\<lparr>ad_maximum_tasks = 4, ad_heap = [], ad_identifiers = {}, ad_cancelled_ids = {}, ad_sequence = 0,
      ad_submitted = 0, ad_completed = 0, ad_rejected = 0, ad_cancelled = 0, ad_deadline_misses = 0,
      ad_maximum_lateness = 0\<rparr> :: nat audio_scheduler"
  let ?a = "example_audio_task ''a'' AudioBackground 9 6" and ?b = "example_audio_task ''b'' AudioRealtime 8 2"
  have "audio_history ?s0 {#} {#} {#}" by (rule audio_history.created [of 4]) (simp add: new_audio_scheduler_def)
  moreover have "submit_audio (\<lambda>xs. 0) 0 ?a ?s0 = (True, snd (submit_audio (\<lambda>xs. 0) 0 ?a ?s0))"
    by (simp add: submit_audio_def audio_backlog_def example_audio_task_def rnd_int_exact [of 6, simplified])
  ultimately have "audio_history (snd (submit_audio (\<lambda>xs. 0) 0 ?a ?s0)) {#?a#} {#} {#}"
    by (rule audio_history.submitted)
  moreover have "submit_audio (\<lambda>xs. 0) 0 ?b (snd (submit_audio (\<lambda>xs. 0) 0 ?a ?s0)) = (True, example_audio_scheduler)"
    by (simp add: submit_audio_def audio_backlog_def example_audio_task_def example_audio_scheduler_def
        rnd_int_exact [of 6, simplified] rnd_int_exact [of 2, simplified] insert_commute)
  ultimately show ?thesis by (rule audio_history.submitted)
qed


theorem audio_tasks_accounted_witness:
  "au_queue_depth (audio_scheduler_snapshot example_audio_scheduler) = int (length (waiting example_audio_scheduler))
   \<and> int (length (ad_heap example_audio_scheduler)) \<le> ad_maximum_tasks example_audio_scheduler"
  using audio_tasks_accounted [OF example_deadline_history] by blast

theorem audio_earliest_deadline_first_witness:
  "\<exists>x s'. run_next Inr 1 3 id example_audio_scheduler = (Inr (Some x), s') \<and> ao_task_id x = ''b'' \<and> ao_status x = ''completed''"
proof -
  obtain r s' where run: "run_next Inr 1 3 id example_audio_scheduler = (r, s')" by (rule prod.exhaust)
  have w: "waiting example_audio_scheduler
      = [example_audio_task ''b'' AudioRealtime 8 2, example_audio_task ''a'' AudioBackground 9 6]"
    by (simp add: waiting_alt example_audio_scheduler_def example_audio_task_def)
  have "rnd (3 - 8) \<le> 0" by code_simp
  then show ?thesis
    using audio_earliest_deadline_first [OF example_deadline_history run] unfolding w run
    by (cases r) (auto simp: example_audio_task_def split: option.splits)
qed

text \<open>Admission looks only at the tasks of at least the newcomer's priority and deadline: a task that was admitted
  because it could meet its deadline is made late by a later one of higher priority, although every task takes exactly
  its estimate.\<close>

theorem admitted_tasks_are_made_late:
  "(let sum_floats = foldl (\<lambda>a x. rnd (a + x)) 0;
        a = example_audio_task ''a'' AudioBackground 9 6; b = example_audio_task ''b'' AudioRealtime 8 4
    in case new_audio_scheduler 4 of
         Inl e \<Rightarrow> False
       | Inr s0 \<Rightarrow>
           (let (a_in, s1) = submit_audio sum_floats 0 a s0;
                (b_in, s2) = submit_audio sum_floats 0 b s1;
                (first_result, s3) = run_next Inr 0 4 id s2;
                (second_result, s4) = run_next Inr 4 10 id s3
            in a_in \<and> b_in \<and> map_sum id (map_option ao_status) second_result = Inr (Some ''completed_late'')))"
  by code_simp

end
