(* ===== verification/VideoFrames.thy ===== *)
theory VideoFrames
  imports HeapQueue PyFloat "HOL-Library.Monad_Syntax"
begin

text \<open>
  \<open>vllm_apple/video_frame_scheduler.py\<close>: decoded frames in the order of their presentation time; a frame that
  is too late for live presentation is dropped when it becomes due.  The heap and the sets of identifiers are as in
  HeapQueue; every method is one step under the lock, except \<open>drain_late\<close>, which calls \<open>pop_ready\<close> again and
  again and lets other threads run in between.
\<close>

record 'p video_frame =
  vf_frame_id :: string
  vf_presentation :: rat
  vf_duration :: rat
  vf_payload :: 'p
  vf_keyframe :: bool

definition video_frame_init :: "string \<Rightarrow> xfloat \<Rightarrow> xfloat \<Rightarrow> 'p \<Rightarrow> bool \<Rightarrow> 'p video_frame result" where
  "video_frame_init i presentation duration payload keyframe =
     guard_ok (i \<noteq> [] \<and> length i \<le> 128 \<and> isfinite presentation \<and> \<not> x_less presentation 0 \<and> isfinite duration
               \<and> \<not> x_le duration 0)
       ''invalid scheduled video frame''
       \<lparr>vf_frame_id = i, vf_presentation = fin_val presentation, vf_duration = fin_val duration, vf_payload = payload,
        vf_keyframe = keyframe\<rparr>"

record 'p frame_decision =
  fd_frame :: "'p video_frame"
  fd_action :: string
  fd_lateness :: rat

type_synonym 'p frame_entry = "rat \<times> int \<times> 'p video_frame"

record 'p frame_scheduler =
  vs_maximum_frames :: int
  vs_allowed_lateness :: rat
  vs_allowed_reorder :: rat
  vs_heap :: "'p frame_entry list"
  vs_identifiers :: "string set"
  vs_cancelled_ids :: "string set"
  vs_sequence :: int
  vs_latest_pts :: rat
  vs_submitted :: int
  vs_presented :: int
  vs_late_drops :: int
  vs_rejected :: int
  vs_cancelled :: int
  vs_maximum_lateness :: rat

definition new_frame_scheduler :: "int \<Rightarrow> xfloat \<Rightarrow> xfloat \<Rightarrow> 'p frame_scheduler result" where
  "new_frame_scheduler n lateness reorder =
     guard_ok (1 \<le> n \<and> n \<le> 65536 \<and> isfinite lateness \<and> \<not> x_less lateness 0 \<and> isfinite reorder \<and> \<not> x_less reorder 0)
       ''invalid video frame scheduler configuration''
       \<lparr>vs_maximum_frames = n, vs_allowed_lateness = fin_val lateness, vs_allowed_reorder = fin_val reorder, vs_heap = [],
        vs_identifiers = {}, vs_cancelled_ids = {}, vs_sequence = 0, vs_latest_pts = 0, vs_submitted = 0, vs_presented = 0,
        vs_late_drops = 0, vs_rejected = 0, vs_cancelled = 0, vs_maximum_lateness = 0\<rparr>"

fun frame_key :: "'p frame_entry \<Rightarrow> rat \<times> int" where
  "frame_key (p, n, f) = (p, n)"

abbreviation frame_pts :: "'p frame_entry \<Rightarrow> rat" where
  "frame_pts e \<equiv> fst e"

abbreviation entry_frame :: "'p frame_entry \<Rightarrow> 'p video_frame" where
  "entry_frame e \<equiv> snd (snd e)"

abbreviation frame_ident :: "'p frame_entry \<Rightarrow> string" where
  "frame_ident e \<equiv> vf_frame_id (entry_frame e)"

definition submit_frame :: "'p video_frame \<Rightarrow> 'p frame_scheduler \<Rightarrow> bool \<times> 'p frame_scheduler" where
  "submit_frame f s =
     (if vf_frame_id f \<in> vs_identifiers s \<or> vs_maximum_frames s \<le> int (card (vs_identifiers s))
         \<or> vf_presentation f < rnd (vs_latest_pts s - vs_allowed_reorder s)
      then (False, s\<lparr>vs_rejected := vs_rejected s + 1\<rparr>)
      else (True, s\<lparr>vs_heap := insort_key frame_key (vf_presentation f, vs_sequence s, f) (vs_heap s),
                    vs_sequence := vs_sequence s + 1, vs_identifiers := insert (vf_frame_id f) (vs_identifiers s),
                    vs_latest_pts := max (vs_latest_pts s) (vf_presentation f), vs_submitted := vs_submitted s + 1\<rparr>))"

definition cancel_frame :: "string \<Rightarrow> 'p frame_scheduler \<Rightarrow> bool \<times> 'p frame_scheduler" where
  "cancel_frame i s =
     (if i \<notin> vs_identifiers s \<or> i \<in> vs_cancelled_ids s then (False, s)
      else (True, s\<lparr>vs_cancelled_ids := insert i (vs_cancelled_ids s), vs_cancelled := vs_cancelled s + 1\<rparr>))"

text \<open>The loop of \<open>pop_ready\<close>: it stops at the first entry that is not due yet, cancelled or not.\<close>

fun pop_due ::
  "rat \<Rightarrow> 'p frame_entry list \<Rightarrow> string set \<Rightarrow> string set \<Rightarrow> 'p frame_entry option \<times> 'p frame_entry list \<times> string set \<times> string set" where
  "pop_due now [] ids gone = (None, [], ids, gone)"
| "pop_due now (e # es) ids gone =
     (if now < frame_pts e then (None, e # es, ids, gone)
      else if frame_ident e \<in> gone then pop_due now es (ids - {frame_ident e}) (gone - {frame_ident e})
      else (Some e, es, ids - {frame_ident e}, gone))"

definition take_due :: "rat \<Rightarrow> 'p frame_scheduler \<Rightarrow> 'p frame_entry option \<times> 'p frame_scheduler" where
  "take_due now s =
     (case pop_due now (vs_heap s) (vs_identifiers s) (vs_cancelled_ids s) of
        (r, es, ids, gone) \<Rightarrow> (r, s\<lparr>vs_heap := es, vs_identifiers := ids, vs_cancelled_ids := gone\<rparr>))"

definition decide_frame :: "rat \<Rightarrow> 'p frame_entry \<Rightarrow> 'p frame_scheduler \<Rightarrow> 'p frame_decision \<times> 'p frame_scheduler" where
  "decide_frame now e s =
     (let lateness = max 0 (rnd (now - frame_pts e));
          s1 = s\<lparr>vs_maximum_lateness := max (vs_maximum_lateness s) lateness\<rparr>
      in if vs_allowed_lateness s < lateness
         then (\<lparr>fd_frame = entry_frame e, fd_action = ''dropped_late'', fd_lateness = lateness\<rparr>,
               s1\<lparr>vs_late_drops := vs_late_drops s + 1\<rparr>)
         else (\<lparr>fd_frame = entry_frame e, fd_action = ''present'', fd_lateness = lateness\<rparr>,
               s1\<lparr>vs_presented := vs_presented s + 1\<rparr>))"

definition pop_ready :: "xfloat \<Rightarrow> ('p frame_scheduler, 'p frame_decision option) method" where
  "pop_ready media_time s =
     (if \<not> isfinite media_time \<or> x_less media_time 0 then (Inl (ValueError ''invalid video media time''), s)
      else (case take_due (fin_val media_time) s of
              (None, s1) \<Rightarrow> (Inr None, s1)
            | (Some e, s1) \<Rightarrow> (case decide_frame (fin_val media_time) e s1 of (d, s2) \<Rightarrow> (Inr (Some d), s2))))"

text \<open>\<open>others n\<close> is what other threads do between the calls \<open>n\<close> and \<open>n + 1\<close>; they may keep the loop busy
  for ever.\<close>

partial_function (option) drain_late ::
  "xfloat \<Rightarrow> (nat \<Rightarrow> 'p frame_scheduler \<Rightarrow> 'p frame_scheduler) \<Rightarrow> nat \<Rightarrow> 'p frame_scheduler
    \<Rightarrow> ('p frame_decision list result \<times> 'p frame_scheduler) option" where
  "drain_late media_time others n s =
     (case pop_ready media_time s of
        (Inl e, s1) \<Rightarrow> Some (Inl e, s1)
      | (Inr None, s1) \<Rightarrow> Some (Inr [], s1)
      | (Inr (Some d), s1) \<Rightarrow>
          if fd_action d = ''present'' then Some (Inr [d], s1)
          else do { (r, s2) \<leftarrow> drain_late media_time others (n + 1) (others n s1);
                    Some (map_sum id (\<lambda>ds. d # ds) r, s2) })"

record frame_snapshot =
  vx_queue_depth :: int
  vx_submitted :: int
  vx_presented :: int
  vx_late_drops :: int
  vx_rejected :: int
  vx_cancelled :: int
  vx_maximum_lateness :: rat

definition frame_scheduler_snapshot :: "'p frame_scheduler \<Rightarrow> frame_snapshot" where
  "frame_scheduler_snapshot s =
     \<lparr>vx_queue_depth = int (card (vs_identifiers s)) - int (card (vs_cancelled_ids s)), vx_submitted = vs_submitted s,
      vx_presented = vs_presented s, vx_late_drops = vs_late_drops s, vx_rejected = vs_rejected s,
      vx_cancelled = vs_cancelled s, vx_maximum_lateness = vs_maximum_lateness s\<rparr>"

section \<open>The invariant\<close>

definition frames_ok :: "'p frame_scheduler \<Rightarrow> bool" where
  "frames_ok s \<longleftrightarrow> sorted (map frame_key (vs_heap s)) \<and> distinct (map frame_ident (vs_heap s))
     \<and> vs_identifiers s = frame_ident ` set (vs_heap s) \<and> vs_cancelled_ids s \<subseteq> vs_identifiers s
     \<and> int (length (vs_heap s)) \<le> vs_maximum_frames s \<and> (\<forall>e\<in>set (vs_heap s). vf_presentation (entry_frame e) = frame_pts e)
     \<and> 0 \<le> vs_allowed_lateness s"

lemma frames_okD:
  assumes "frames_ok s"
  shows "sorted (map frame_key (vs_heap s))" "distinct (map frame_ident (vs_heap s))"
    "vs_identifiers s = frame_ident ` set (vs_heap s)" "vs_cancelled_ids s \<subseteq> vs_identifiers s"
    "int (length (vs_heap s)) \<le> vs_maximum_frames s" "\<forall>e\<in>set (vs_heap s). vf_presentation (entry_frame e) = frame_pts e"
    "0 \<le> vs_allowed_lateness s"
  using assms unfolding frames_ok_def by blast+

definition frame_live :: "'p frame_scheduler \<Rightarrow> 'p frame_entry \<Rightarrow> bool" where
  "frame_live s e \<longleftrightarrow> frame_ident e \<notin> vs_cancelled_ids s"

definition queued_frames :: "'p frame_scheduler \<Rightarrow> 'p video_frame list" where
  "queued_frames s = map entry_frame (filter (frame_live s) (vs_heap s))"

lemma queued_alt: "queued_frames s = map entry_frame (filter (\<lambda>e. frame_ident e \<notin> vs_cancelled_ids s) (vs_heap s))"
  unfolding queued_frames_def frame_live_def ..

lemma frame_identifiers_card: "frames_ok s \<Longrightarrow> card (vs_identifiers s) = length (vs_heap s)"
  using distinct_card [of "map frame_ident (vs_heap s)"] by (simp add: frames_okD(2,3))

lemma new_frames_ok: "new_frame_scheduler n lateness reorder = Inr s \<Longrightarrow> frames_ok s"
  by (cases lateness) (auto simp: new_frame_scheduler_def frames_ok_def)


lemma submit_frame_ok:
  assumes ok: "frames_ok s"
  shows "frames_ok (snd (submit_frame f s))"
proof (cases "fst (submit_frame f s)")
  case False
  then show ?thesis using ok by (auto simp: submit_frame_def frames_ok_def split: if_splits)
next
  case True
  let ?e = "(vf_presentation f, vs_sequence s, f)"
  have fresh: "vf_frame_id f \<notin> vs_identifiers s" "int (length (vs_heap s)) < vs_maximum_frames s"
    using True frame_identifiers_card [OF ok] by (auto simp: submit_frame_def split: if_splits)
  have s': "snd (submit_frame f s) = s\<lparr>vs_heap := insort_key frame_key ?e (vs_heap s),
      vs_sequence := vs_sequence s + 1, vs_identifiers := insert (vf_frame_id f) (vs_identifiers s),
      vs_latest_pts := max (vs_latest_pts s) (vf_presentation f), vs_submitted := vs_submitted s + 1\<rparr>"
    using True by (auto simp: submit_frame_def split: if_splits)
  have "sorted (map frame_key (insort_key frame_key ?e (vs_heap s)))"
    using frames_okD(1) [OF ok] by (simp add: sorted_insort_key)
  moreover have "distinct (map frame_ident (insort_key frame_key ?e (vs_heap s)))"
    using frames_okD(2,3) [OF ok] fresh(1) by (simp add: distinct_map_insort_key)
  moreover have "\<forall>e\<in>set (insort_key frame_key ?e (vs_heap s)). vf_presentation (entry_frame e) = frame_pts e"
    using frames_okD(6) [OF ok] by (simp add: set_insort_key)
  ultimately show ?thesis
    using fresh(2) frames_okD(3,4,7) [OF ok] unfolding s' frames_ok_def by (auto simp: set_insort_key)
qed

lemma cancel_frame_ok: "frames_ok s \<Longrightarrow> frames_ok (snd (cancel_frame i s))"
  unfolding cancel_frame_def frames_ok_def by (cases "i \<notin> vs_identifiers s \<or> i \<in> vs_cancelled_ids s") auto

definition due_frames :: "rat \<Rightarrow> 'p frame_scheduler \<Rightarrow> 'p frame_entry list" where
  "due_frames now s = takeWhile (\<lambda>e. frame_pts e \<le> now) (vs_heap s)"

lemma pop_due_active:
  "pop_due now es ids gone =
     (case pop_active frame_ident (takeWhile (\<lambda>e. frame_pts e \<le> now) es) ids gone of
        (r, es', ids', gone') \<Rightarrow> (r, es' @ dropWhile (\<lambda>e. frame_pts e \<le> now) es, ids', gone'))"
  by (induction now es ids gone rule: pop_due.induct) (auto simp: not_less split: prod.split)

lemma only_popped_leave:
  "I = F \<union> E \<union> L \<Longrightarrow> F \<inter> E = {} \<Longrightarrow> F \<inter> L = {} \<Longrightarrow> G \<subseteq> I
    \<Longrightarrow> I - (F \<union> E - E) = E \<union> L \<and> G - (F \<union> E - E) = G \<inter> (E \<union> L)"
  by blast

lemma take_due_spec:
  assumes ok: "frames_ok s" and t: "take_due now s = (r, s')"
  shows "pop_live (frame_live s) (due_frames now s) = (r, due_frames now s')" "frames_ok s'"
    "\<And>e. e \<in> set (vs_heap s') \<Longrightarrow> frame_live s' e = frame_live s e"
    "s' = s\<lparr>vs_heap := vs_heap s', vs_identifiers := vs_identifiers s', vs_cancelled_ids := vs_cancelled_ids s'\<rparr>"
    "vs_heap s' = due_frames now s' @ dropWhile (\<lambda>e. frame_pts e \<le> now) (vs_heap s)"
proof -
  define later where "later = dropWhile (\<lambda>e. frame_pts e \<le> now) (vs_heap s)"
  obtain es ids gone where p: "pop_active frame_ident (due_frames now s) (vs_identifiers s) (vs_cancelled_ids s) = (r, es, ids, gone)"
    and s': "s' = s\<lparr>vs_heap := es @ later, vs_identifiers := ids, vs_cancelled_ids := gone\<rparr>"
    using t by (auto simp: take_due_def pop_due_active due_frames_def later_def split: prod.splits)
  have parts: "vs_heap s = due_frames now s @ later" by (simp add: due_frames_def later_def)
  have d: "distinct (map frame_ident (due_frames now s @ later))" using frames_okD(2) [OF ok] parts by simp
  note spec = pop_active_spec [OF distinct_append [THEN iffD1, OF d [unfolded map_append], THEN conjunct1] p]
  have live: "frame_live s = (\<lambda>e. frame_ident e \<notin> vs_cancelled_ids s)" by (rule ext) (simp add: frame_live_def)
  obtain front where front: "due_frames now s = front @ es" using pop_live_front spec by blast
  have "\<forall>e\<in>set es. frame_pts e \<le> now"
    using front set_takeWhileD [of _ "\<lambda>e. frame_pts e \<le> now" "vs_heap s"] by (auto simp: due_frames_def)
  then have "takeWhile (\<lambda>e. frame_pts e \<le> now) (es @ later) = es"
    using hd_dropWhile [of "\<lambda>e. frame_pts e \<le> now" "vs_heap s"] by (auto simp: takeWhile_append2 takeWhile_eq_Nil_iff later_def)
  then have due': "due_frames now s' = es" by (simp add: due_frames_def s')
  show "pop_live (frame_live s) (due_frames now s) = (r, due_frames now s')" using spec by (simp add: live due')
  show "vs_heap s' = due_frames now s' @ dropWhile (\<lambda>e. frame_pts e \<le> now) (vs_heap s)"
    unfolding due' by (simp add: s' later_def)
  have heap: "vs_heap s = front @ vs_heap s'" using parts front by (simp add: s')
  have ids: "ids = frame_ident ` set (vs_heap s')" "gone = vs_cancelled_ids s \<inter> frame_ident ` set (vs_heap s')"
  proof -
    let ?F = "frame_ident ` set front" and ?E = "frame_ident ` set es" and ?L = "frame_ident ` set later"
    have disjoint: "?F \<inter> ?E = {}" "?F \<inter> ?L = {}" using d by (simp_all add: front Int_commute image_Un Int_Un_distrib)
    have due: "frame_ident ` set (due_frames now s) = ?F \<union> ?E" by (simp add: front image_Un)
    have all: "vs_identifiers s = ?F \<union> ?E \<union> ?L" unfolding frames_okD(3) [OF ok] parts by (simp add: front image_Un Un_assoc)
    have heap': "frame_ident ` set (vs_heap s') = ?E \<union> ?L" by (simp add: s' image_Un)
    from only_popped_leave [OF all disjoint frames_okD(4) [OF ok]] spec
    show "ids = frame_ident ` set (vs_heap s')" "gone = vs_cancelled_ids s \<inter> frame_ident ` set (vs_heap s')"
      unfolding due heap' by simp_all
  qed
  have frame: "vs_identifiers s' = ids" "vs_cancelled_ids s' = gone" "vs_maximum_frames s' = vs_maximum_frames s"
    "vs_allowed_lateness s' = vs_allowed_lateness s" by (simp_all add: s')
  show "frames_ok s'"
    unfolding frames_ok_def frame ids
  proof (intro conjI)
    show "sorted (map frame_key (vs_heap s'))" "distinct (map frame_ident (vs_heap s'))"
      "int (length (vs_heap s')) \<le> vs_maximum_frames s"
      using frames_okD(1,2,5) [OF ok] heap by (simp_all add: sorted_append)
    show "\<forall>e\<in>set (vs_heap s'). vf_presentation (entry_frame e) = frame_pts e"
      using frames_okD(6) [OF ok] unfolding heap by auto
  qed (use frames_okD(7) [OF ok] in auto)
  show "frame_live s' e = frame_live s e" if "e \<in> set (vs_heap s')" for e
    unfolding frame_live_def frame ids using that by blast
  show "s' = s\<lparr>vs_heap := vs_heap s', vs_identifiers := vs_identifiers s', vs_cancelled_ids := vs_cancelled_ids s'\<rparr>"
    by (simp add: s')
qed


interpretation video_due: lazy_heap frames_ok "due_frames now" frame_key frame_live "take_due now" for now
proof unfold_locales
  fix s s' :: "'p frame_scheduler" and r e
  show "frames_ok s \<Longrightarrow> sorted (map frame_key (due_frames now s)) \<and> distinct (due_frames now s)"
    using frames_okD(1,2) [of s]
    by (auto simp: due_frames_def distinct_map sorted_wrt_map sorted_map intro: sorted_wrt_takeWhile distinct_takeWhile)
  assume ok: "frames_ok s" and t: "take_due now s = (r, s')"
  note spec = take_due_spec [OF ok t]
  show "frames_ok s'" "pop_live (frame_live s) (due_frames now s) = (r, due_frames now s')" using spec by simp_all
  assume e: "e \<in> set (due_frames now s')"
  have "distinct (due_frames now s)" using frames_okD(2) [OF ok] by (auto simp: due_frames_def distinct_map intro: distinct_takeWhile)
  then have "r \<noteq> Some e" using pop_live_Some [of "frame_live s" "due_frames now s" e "due_frames now s'"] spec(1) e by auto
  moreover have "e \<in> set (vs_heap s')" using e spec(5) by simp
  ultimately show "frame_live s' e = (frame_live s e \<and> r \<noteq> Some e)" using spec(3) by simp
qed

text \<open>Among the frames in presentation order, the due ones come first.\<close>

lemma frames_sorted_pts: "frames_ok s \<Longrightarrow> sorted (map frame_pts (vs_heap s))"
  using frames_okD(1) unfolding sorted_map
  by (rule sorted_wrt_mono_rel [rotated]) (auto simp: less_eq_prod_def)

lemma later_frames:
  assumes "frames_ok s" and "e \<in> set (dropWhile (\<lambda>e. frame_pts e \<le> now) (vs_heap s))"
  shows "now < frame_pts e"
proof -
  have "sorted (map frame_pts es) \<Longrightarrow> e \<in> set (dropWhile (\<lambda>e. frame_pts e \<le> now) es) \<Longrightarrow> now < frame_pts e" for es
    by (induction es) (fastforce split: if_splits)+
  then show ?thesis using frames_sorted_pts assms by blast
qed

lemma queued_due:
  assumes ok: "frames_ok s"
  shows "filter (frame_live s) (due_frames now s) = takeWhile (\<lambda>e. frame_pts e \<le> now) (filter (frame_live s) (vs_heap s))"
proof -
  let ?P = "\<lambda>e. frame_pts e \<le> now" and ?later = "dropWhile (\<lambda>e. frame_pts e \<le> now) (vs_heap s)"
  have "takeWhile ?P (filter (frame_live s) (due_frames now s) @ filter (frame_live s) ?later) = filter (frame_live s) (due_frames now s)"
  proof -
    have "\<forall>e\<in>set (filter (frame_live s) (due_frames now s)). ?P e"
      using set_takeWhileD [of _ ?P "vs_heap s"] by (auto simp: due_frames_def)
    moreover have "\<forall>e\<in>set (filter (frame_live s) ?later). \<not> ?P e" using later_frames [OF ok] by fastforce
    then have "takeWhile ?P (filter (frame_live s) ?later) = []" by (metis hd_in_set takeWhile_eq_Nil_iff)
    ultimately show ?thesis by (metis append_Nil2 takeWhile_append2)
  qed
  moreover have "filter (frame_live s) (vs_heap s) = filter (frame_live s) (due_frames now s) @ filter (frame_live s) ?later"
    by (metis due_frames_def filter_append takeWhile_dropWhile_id)
  ultimately show ?thesis by simp
qed

lemma queued_taken:
  assumes ok: "frames_ok s" and t: "take_due now s = (r, s')"
  shows "queued_frames s = map entry_frame (case r of None \<Rightarrow> [] | Some e \<Rightarrow> [e]) @ queued_frames s'"
    "r = None \<longleftrightarrow> (\<forall>f\<in>set (queued_frames s). now < vf_presentation f)"
    "r = Some e \<Longrightarrow> vf_presentation (entry_frame e) = frame_pts e \<and> frame_pts e \<le> now"
proof -
  let ?later = "dropWhile (\<lambda>e. frame_pts e \<le> now) (vs_heap s)"
  note spec = take_due_spec [OF ok t]
  have parts: "vs_heap s = due_frames now s @ ?later" by (simp add: due_frames_def)
  have "filter (frame_live s') ?later = filter (frame_live s) ?later"
    by (rule filter_cong) (use spec(3,5) in auto)
  moreover have "filter (frame_live s) (due_frames now s) = (case r of None \<Rightarrow> [] | Some e \<Rightarrow> [e]) @ filter (frame_live s') (due_frames now s')"
    using video_due.take_pending [OF t ok] unfolding video_due.pending_def by (auto split: list.splits)
  ultimately show q: "queued_frames s = map entry_frame (case r of None \<Rightarrow> [] | Some e \<Rightarrow> [e]) @ queued_frames s'"
    using arg_cong [OF parts, of "filter (frame_live s)"] arg_cong [OF spec(5), of "filter (frame_live s')"]
    unfolding queued_frames_def by simp
  show due: "r = Some e \<Longrightarrow> vf_presentation (entry_frame e) = frame_pts e \<and> frame_pts e \<le> now" for e
  proof -
    assume "r = Some e"
    then have "e \<in> set (due_frames now s)" using pop_live_Some [of "frame_live s" "due_frames now s" e] spec(1) by auto
    then show ?thesis using frames_okD(6) [OF ok] set_takeWhileD [of e "\<lambda>e. frame_pts e \<le> now" "vs_heap s"]
      by (auto simp: due_frames_def)
  qed
  show "r = None \<longleftrightarrow> (\<forall>f\<in>set (queued_frames s). now < vf_presentation f)"
  proof (cases r)
    case None
    have "now < vf_presentation (entry_frame e)" if "e \<in> set (vs_heap s)" "frame_live s e" for e
    proof -
      have "e \<notin> set (due_frames now s)" using video_due.take_none [OF ok, of now s'] t None that(2) by auto
      then have "e \<in> set ?later" using that(1) parts by (metis Un_iff set_append)
      then show ?thesis using later_frames [OF ok] frames_okD(6) [OF ok] that(1) by fastforce
    qed
    then show ?thesis using None by (auto simp: queued_frames_def)
  next
    case (Some e)
    then show ?thesis using q due [OF Some] by auto
  qed
qed


section \<open>Histories\<close>

text \<open>The calls of all threads, with what became of the frames: accepted, decided (presented or dropped late) and
  cancelled.\<close>

inductive frame_history ::
  "'p frame_scheduler \<Rightarrow> 'p video_frame multiset \<Rightarrow> 'p frame_decision list \<Rightarrow> 'p video_frame multiset \<Rightarrow> bool" where
  created: "new_frame_scheduler n lateness reorder = Inr s \<Longrightarrow> frame_history s {#} [] {#}"
| submitted: "frame_history s accepted decided cancelled \<Longrightarrow> submit_frame f s = (True, s')
    \<Longrightarrow> frame_history s' (add_mset f accepted) decided cancelled"
| refused: "frame_history s accepted decided cancelled \<Longrightarrow> submit_frame f s = (False, s')
    \<Longrightarrow> frame_history s' accepted decided cancelled"
| cancelled: "frame_history s accepted decided cancelled \<Longrightarrow> e \<in> set (vs_heap s) \<Longrightarrow> cancel_frame (frame_ident e) s = (True, s')
    \<Longrightarrow> frame_history s' accepted decided (add_mset (entry_frame e) cancelled)"
| popped: "frame_history s accepted decided cancelled \<Longrightarrow> pop_ready now s = (Inr r, s')
    \<Longrightarrow> frame_history s' accepted (decided @ (case r of None \<Rightarrow> [] | Some d \<Rightarrow> [d])) cancelled"

lemma queued_submitted:
  assumes ok: "frames_ok s" and sub: "submit_frame f s = (True, s')"
  shows "mset (queued_frames s') = add_mset f (mset (queued_frames s))"
proof -
  have fresh: "vf_frame_id f \<notin> vs_cancelled_ids s"
    using sub frames_okD(4) [OF ok] by (auto simp: submit_frame_def split: if_splits)
  have s': "vs_heap s' = insort_key frame_key (vf_presentation f, vs_sequence s, f) (vs_heap s)"
    "vs_cancelled_ids s' = vs_cancelled_ids s" using sub by (auto simp: submit_frame_def split: if_splits)
  show ?thesis unfolding queued_alt s' mset_insort_filter using fresh by simp
qed

lemma queued_cancelled:
  assumes ok: "frames_ok s" and e: "e \<in> set (vs_heap s)" and c: "cancel_frame (frame_ident e) s = (True, s')"
  shows "mset (queued_frames s) = add_mset (entry_frame e) (mset (queued_frames s'))"
proof -
  have live: "frame_ident e \<notin> vs_cancelled_ids s"
    and s': "vs_heap s' = vs_heap s" "vs_cancelled_ids s' = insert (frame_ident e) (vs_cancelled_ids s)"
    using c by (auto simp: cancel_frame_def split: if_splits)
  show ?thesis unfolding queued_alt s' by (rule mset_filter_cancelled [OF e frames_okD(2) [OF ok] live])
qed

text \<open>The functional description of \<open>pop_ready\<close> over the frames that wait.\<close>

definition frame_verdict :: "rat \<Rightarrow> 'p frame_scheduler \<Rightarrow> 'p video_frame \<Rightarrow> 'p frame_decision" where
  "frame_verdict now s f =
     (let lateness = max 0 (rnd (now - vf_presentation f))
      in \<lparr>fd_frame = f, fd_action = (if vs_allowed_lateness s < lateness then ''dropped_late'' else ''present''),
          fd_lateness = lateness\<rparr>)"

definition counts_verdict :: "'p frame_decision option \<Rightarrow> 'p frame_scheduler \<Rightarrow> 'p frame_scheduler \<Rightarrow> bool" where
  "counts_verdict r s s' \<longleftrightarrow> vs_allowed_lateness s' = vs_allowed_lateness s \<and> vs_submitted s' = vs_submitted s
     \<and> vs_cancelled s' = vs_cancelled s
     \<and> vs_presented s' = vs_presented s + (if map_option fd_action r = Some ''present'' then 1 else 0)
     \<and> vs_late_drops s' = vs_late_drops s + (if map_option fd_action r = Some ''dropped_late'' then 1 else 0)"

lemma decide_frame_facts:
  "frames_ok (snd (decide_frame now e s)) = frames_ok s" "queued_frames (snd (decide_frame now e s)) = queued_frames s"
  by (simp_all add: decide_frame_def Let_def frames_ok_def queued_alt)

lemma pop_ready_spec:
  assumes ok: "frames_ok s" and p: "pop_ready (Fin now) s = (Inr r, s')"
  shows "frames_ok s'" "counts_verdict r s s'"
    "r = (case queued_frames s of [] \<Rightarrow> None
          | f # fs \<Rightarrow> if now < vf_presentation f then None else Some (frame_verdict now s f))"
    "queued_frames s = map fd_frame (case r of None \<Rightarrow> [] | Some d \<Rightarrow> [d]) @ queued_frames s'"
proof -
  obtain q s1 where t: "take_due now s = (q, s1)" by (rule prod.exhaust)
  note spec = take_due_spec [OF ok t] and taken = queued_taken [OF ok t]
  have frame: "vs_allowed_lateness s1 = vs_allowed_lateness s" "vs_submitted s1 = vs_submitted s"
    "vs_cancelled s1 = vs_cancelled s" "vs_presented s1 = vs_presented s" "vs_late_drops s1 = vs_late_drops s"
    by (subst spec(4), simp)+
  have "frames_ok s' \<and> counts_verdict r s s'
    \<and> r = (case queued_frames s of [] \<Rightarrow> None
          | f # fs \<Rightarrow> if now < vf_presentation f then None else Some (frame_verdict now s f))
    \<and> queued_frames s = map fd_frame (case r of None \<Rightarrow> [] | Some d \<Rightarrow> [d]) @ queued_frames s'"
  proof (cases q)
    case None
    have "queued_frames s = queued_frames s1" "\<forall>f\<in>set (queued_frames s). now < vf_presentation f"
      using taken(1,2) None by simp_all
    moreover have "r = None" "s' = s1" using p t None by (simp_all add: pop_ready_def split: if_splits)
    moreover have "(case queued_frames s of [] \<Rightarrow> None
        | f # fs \<Rightarrow> if now < vf_presentation f then None else Some (frame_verdict now s f)) = None"
      using calculation(2) by (cases "queued_frames s") simp_all
    ultimately show ?thesis using spec(2) by (simp add: counts_verdict_def frame)
  next
    case (Some e)
    have q: "queued_frames s = entry_frame e # queued_frames s1" using taken(1) Some by simp
    have e: "vf_presentation (entry_frame e) = frame_pts e" "frame_pts e \<le> now" using taken(3) [OF Some] by simp_all
    have r: "r = Some (frame_verdict now s (entry_frame e))" "frames_ok s' = frames_ok s1" "queued_frames s' = queued_frames s1"
      "counts_verdict r s s'"
    proof -
      have d: "r = Some (fst (decide_frame now e s1))" "s' = snd (decide_frame now e s1)"
        using p t Some by (auto simp: pop_ready_def split: if_splits prod.splits)
      show "r = Some (frame_verdict now s (entry_frame e))"
        unfolding d by (simp add: frame_verdict_def decide_frame_def Let_def frame e(1))
      show "frames_ok s' = frames_ok s1" "queued_frames s' = queued_frames s1"
        unfolding d by (rule decide_frame_facts)+
      show "counts_verdict r s s'"
        unfolding d by (simp add: counts_verdict_def decide_frame_def Let_def frame)
    qed
    have "\<not> now < vf_presentation (entry_frame e)" using e by simp
    then show ?thesis unfolding q using spec(2) r by (simp add: frame_verdict_def Let_def)
  qed
  then show "frames_ok s'" "counts_verdict r s s'"
    "r = (case queued_frames s of [] \<Rightarrow> None
          | f # fs \<Rightarrow> if now < vf_presentation f then None else Some (frame_verdict now s f))"
    "queued_frames s = map fd_frame (case r of None \<Rightarrow> [] | Some d \<Rightarrow> [d]) @ queued_frames s'"
    by blast+
qed


abbreviation decided_as :: "string \<Rightarrow> 'p frame_decision list \<Rightarrow> nat" where
  "decided_as action ds \<equiv> length (filter (\<lambda>d. fd_action d = action) ds)"

lemma pop_ready_Inr:
  assumes "pop_ready t s = (Inr r, s')"
  obtains now where "t = Fin now"
  using assms by (cases t) (simp_all add: pop_ready_def)

lemma pop_ready_total:
  assumes "0 \<le> now"
  obtains r s' where "pop_ready (Fin now) s = (Inr r, s')"
proof -
  obtain q s1 where "take_due now s = (q, s1)" by (rule prod.exhaust)
  moreover obtain d s2 where "decide_frame now (the q) s1 = (d, s2)" by (rule prod.exhaust)
  ultimately show thesis using assms that by (cases q) (simp_all add: pop_ready_def)
qed

lemma frame_history_ok:
  "frame_history s accepted decided cancelled \<Longrightarrow> frames_ok s
     \<and> accepted = mset (map fd_frame decided) + mset (queued_frames s) + cancelled
     \<and> vs_submitted s = int (size accepted) \<and> vs_cancelled s = int (size cancelled)
     \<and> vs_presented s = int (decided_as ''present'' decided) \<and> vs_late_drops s = int (decided_as ''dropped_late'' decided)"
proof (induction rule: frame_history.induct)
  case (created n lateness reorder s)
  then show ?case using new_frames_ok [of n lateness reorder s] by (auto simp: new_frame_scheduler_def queued_alt)
next
  case (submitted s accepted decided cancelled f s')
  have "frames_ok s'" using submit_frame_ok [of s f] submitted by simp
  moreover have "mset (queued_frames s') = add_mset f (mset (queued_frames s))"
    by (rule queued_submitted) (use submitted in auto)
  moreover have "vs_submitted s' = vs_submitted s + 1" "vs_cancelled s' = vs_cancelled s" "vs_presented s' = vs_presented s"
    "vs_late_drops s' = vs_late_drops s" using submitted.hyps by (auto simp: submit_frame_def split: if_splits)
  ultimately show ?case using submitted.IH by auto
next
  case (refused s accepted decided cancelled f s')
  have "frames_ok s'" using submit_frame_ok [of s f] refused by simp
  moreover have "queued_frames s' = queued_frames s" "vs_submitted s' = vs_submitted s" "vs_cancelled s' = vs_cancelled s"
    "vs_presented s' = vs_presented s" "vs_late_drops s' = vs_late_drops s"
    using refused.hyps by (auto simp: submit_frame_def queued_alt split: if_splits)
  ultimately show ?case using refused.IH by auto
next
  case (cancelled s accepted decided cancelled e s')
  have "frames_ok s'" using cancel_frame_ok [of s "frame_ident e"] cancelled by simp
  moreover have "mset (queued_frames s) = add_mset (entry_frame e) (mset (queued_frames s'))"
    by (rule queued_cancelled) (use cancelled in auto)
  moreover have "vs_submitted s' = vs_submitted s" "vs_cancelled s' = vs_cancelled s + 1" "vs_presented s' = vs_presented s"
    "vs_late_drops s' = vs_late_drops s" using cancelled.hyps by (auto simp: cancel_frame_def split: if_splits)
  ultimately show ?case using cancelled.IH by auto
next
  case (popped s accepted decided cancelled now r s')
  have ok: "frames_ok s" using popped.IH by blast
  obtain t where t: "now = Fin t" using popped.hyps(2) by (rule pop_ready_Inr)
  note spec = pop_ready_spec [OF ok popped.hyps(2) [unfolded t]]
  show ?case using popped.IH spec(1,2,4) by (cases r) (auto simp: counts_verdict_def)
qed

text \<open>Every frame the video scheduler accepted is, in every history, decided exactly once, cancelled before
  that, or still queued; it counts the presented and the dropped frames exactly, reports the queue depth, and stays within
  its capacity.\<close>
theorem frames_accounted:
  assumes "frame_history s accepted decided cancelled"
  shows "accepted = mset (map fd_frame decided) + mset (queued_frames s) + cancelled
    \<and> vx_presented (frame_scheduler_snapshot s) = int (decided_as ''present'' decided)
    \<and> vx_late_drops (frame_scheduler_snapshot s) = int (decided_as ''dropped_late'' decided)
    \<and> vx_queue_depth (frame_scheduler_snapshot s) = int (length (queued_frames s))
    \<and> int (length (vs_heap s)) \<le> vs_maximum_frames s"
proof -
  have ok: "frames_ok s" using frame_history_ok [OF assms] by blast
  have "vx_queue_depth (frame_scheduler_snapshot s) = int (length (queued_frames s))"
    using queue_depth [OF frames_okD(2) [OF ok], of "vs_cancelled_ids s"] frames_okD(3,4) [OF ok]
    by (simp add: frame_scheduler_snapshot_def queued_alt)
  then show ?thesis using frame_history_ok [OF assms] frames_okD(5) [OF ok] by (simp add: frame_scheduler_snapshot_def)
qed

text \<open>The loop of \<open>drain_late\<close> with no other thread: the late frames at the head of the queue, then the first
  one that can be presented.\<close>

fun late_run :: "rat \<Rightarrow> 'p frame_scheduler \<Rightarrow> 'p video_frame list \<Rightarrow> 'p frame_decision list" where
  "late_run now s [] = []"
| "late_run now s (f # fs) =
     (if now < vf_presentation f then []
      else if fd_action (frame_verdict now s f) = ''present'' then [frame_verdict now s f]
      else frame_verdict now s f # late_run now s fs)"

lemma frame_verdict_frame [simp]: "fd_frame (frame_verdict now s f) = f"
  by (simp add: frame_verdict_def Let_def)

lemma frame_verdict_cong: "vs_allowed_lateness s' = vs_allowed_lateness s \<Longrightarrow> frame_verdict now s' = frame_verdict now s"
  by (rule ext) (simp add: frame_verdict_def)

lemma late_run_cong: "vs_allowed_lateness s' = vs_allowed_lateness s \<Longrightarrow> late_run now s' fs = late_run now s fs"
  using frame_verdict_cong [of s' s now] by (induction fs) simp_all

lemma drain_late_run:
  assumes "frames_ok s" and "0 \<le> now"
  shows "\<exists>s'. drain_late (Fin now) (\<lambda>i. id) n s = Some (Inr (late_run now s (queued_frames s)), s')
    \<and> queued_frames s = map fd_frame (late_run now s (queued_frames s)) @ queued_frames s'"
  using assms(1)
proof (induction "length (queued_frames s)" arbitrary: s n)
  case (Suc m)
  obtain r s1 where p: "pop_ready (Fin now) s = (Inr r, s1)" using assms(2) by (rule pop_ready_total)
  obtain f fs where q: "queued_frames s = f # fs" using Suc.hyps(2) by (cases "queued_frames s") auto
  note spec = pop_ready_spec [OF Suc.prems p]
  show ?case
  proof (cases "now < vf_presentation f")
    case True
    then have "r = None" "late_run now s (queued_frames s) = []" using spec(3) q by simp_all
    then show ?thesis using p spec(4) by (subst drain_late.simps) simp
  next
    case False
    have r1: "r = Some (frame_verdict now s f)" using spec(3) q False by simp
    have r2: "queued_frames s1 = fs" using spec(4) q by (simp add: r1)
    note r = r1 r2
    show ?thesis
    proof (cases "fd_action (frame_verdict now s f) = ''present''")
      case True
      then show ?thesis using p q r spec(4) False by (subst drain_late.simps) simp
    next
      case late: False
      obtain s2 where s2: "drain_late (Fin now) (\<lambda>i. id) (n + 1) s1 = Some (Inr (late_run now s1 (queued_frames s1)), s2)"
        "queued_frames s1 = map fd_frame (late_run now s1 (queued_frames s1)) @ queued_frames s2"
        using Suc.hyps(1) [of s1 "n + 1"] Suc.hyps(2) q r(2) spec(1) by auto
      have "late_run now s1 fs = late_run now s fs" by (rule late_run_cong) (use spec(2) in \<open>simp add: counts_verdict_def\<close>)
      then show ?thesis using p q r False late s2 by (subst drain_late.simps) simp
    qed
  qed
next
  case 0
  obtain r s1 where p: "pop_ready (Fin now) s = (Inr r, s1)" using assms(2) by (rule pop_ready_total)
  note spec = pop_ready_spec [OF "0.prems" p]
  have q: "queued_frames s = []" using "0.hyps" by simp
  have r: "r = None" unfolding spec(3) q by simp
  have "queued_frames s1 = []" using spec(4) q by simp
  then show ?case using p q r by (subst drain_late.simps) simp
qed


lemma late_run_facts:
  assumes "sorted (map vf_presentation fs)"
  shows "\<exists>rest. fs = map fd_frame (late_run now s fs) @ rest
      \<and> (late_run now s fs \<noteq> [] \<and> fd_action (last (late_run now s fs)) = ''present'' \<or> (\<forall>f\<in>set rest. now < vf_presentation f))"
    and "\<forall>d\<in>set (late_run now s fs). vf_presentation (fd_frame d) \<le> now \<and> frame_verdict now s (fd_frame d) = d"
    and "\<forall>d\<in>set (butlast (late_run now s fs)). fd_action d = ''dropped_late''"
proof -
  have verdict: "fd_frame (frame_verdict now s f) = f" "fd_action (frame_verdict now s f) \<noteq> ''present'' \<longleftrightarrow> fd_action (frame_verdict now s f) = ''dropped_late''"
    for f by (simp_all add: frame_verdict_def Let_def)
  show "\<exists>rest. fs = map fd_frame (late_run now s fs) @ rest
      \<and> (late_run now s fs \<noteq> [] \<and> fd_action (last (late_run now s fs)) = ''present'' \<or> (\<forall>f\<in>set rest. now < vf_presentation f))"
    using assms
  proof (induction fs)
    case (Cons f fs)
    then show ?case by (fastforce simp: verdict)
  qed simp
  show "\<forall>d\<in>set (late_run now s fs). vf_presentation (fd_frame d) \<le> now \<and> frame_verdict now s (fd_frame d) = d"
    by (induction fs) (simp_all add: verdict not_less)
  show "\<forall>d\<in>set (butlast (late_run now s fs)). fd_action d = ''dropped_late''"
    by (induction fs) (simp_all add: verdict)
qed

text \<open>With no other thread, \<open>drain_late\<close> ends in every reachable state.  The frames it decides are the
  first ones in presentation order and all due; a frame is dropped exactly when it is later than allowed; only the last
  one can be presented, and if none is, no frame that is left is due.\<close>
theorem drain_presents_the_next_frame:
  assumes "frame_history s accepted decided cancelled" and "0 \<le> now"
  shows "\<exists>ds s'. drain_late (Fin now) (\<lambda>i. id) 0 s = Some (Inr ds, s')
    \<and> sorted (map vf_presentation (queued_frames s)) \<and> queued_frames s = map fd_frame ds @ queued_frames s'
    \<and> (\<forall>d\<in>set ds. vf_presentation (fd_frame d) \<le> now
         \<and> (fd_action d = ''dropped_late'' \<longleftrightarrow> vs_allowed_lateness s < max 0 (rnd (now - vf_presentation (fd_frame d)))))
    \<and> (\<forall>d\<in>set (butlast ds). fd_action d = ''dropped_late'')
    \<and> (ds \<noteq> [] \<and> fd_action (last ds) = ''present'' \<or> (\<forall>f\<in>set (queued_frames s'). now < vf_presentation f))"
proof -
  have ok: "frames_ok s" using frame_history_ok [OF assms(1)] by blast
  let ?ds = "late_run now s (queued_frames s)"
  obtain s' where s': "drain_late (Fin now) (\<lambda>i. id) 0 s = Some (Inr ?ds, s')" "queued_frames s = map fd_frame ?ds @ queued_frames s'"
    using drain_late_run [OF ok assms(2)] by blast
  have sorted: "sorted (map vf_presentation (queued_frames s))"
  proof -
    have "sorted (map frame_pts (filter (frame_live s) (vs_heap s)))" using frames_sorted_pts [OF ok] by (simp add: sorted_filter)
    moreover have "map vf_presentation (queued_frames s) = map frame_pts (filter (frame_live s) (vs_heap s))"
      using frames_okD(6) [OF ok] by (simp add: queued_frames_def)
    ultimately show ?thesis by simp
  qed
  note facts = late_run_facts [OF sorted, of now s]
  have "fd_action (frame_verdict now s f) = ''dropped_late'' \<longleftrightarrow> vs_allowed_lateness s < max 0 (rnd (now - vf_presentation f))" for f
    by (simp add: frame_verdict_def Let_def)
  then have "\<forall>d\<in>set ?ds. vf_presentation (fd_frame d) \<le> now
      \<and> (fd_action d = ''dropped_late'' \<longleftrightarrow> vs_allowed_lateness s < max 0 (rnd (now - vf_presentation (fd_frame d))))"
    using facts(2) by metis
  moreover have "?ds \<noteq> [] \<and> fd_action (last ?ds) = ''present'' \<or> (\<forall>f\<in>set (queued_frames s'). now < vf_presentation f)"
    using facts(1) s'(2) by (metis append_same_eq same_append_eq)
  ultimately show ?thesis using s' sorted facts(3) by blast
qed


text \<open>Two frames of a live stream for the witnesses.\<close>

definition example_frame :: "string \<Rightarrow> rat \<Rightarrow> nat video_frame" where
  "example_frame i pts = \<lparr>vf_frame_id = i, vf_presentation = pts, vf_duration = 2, vf_payload = 0, vf_keyframe = True\<rparr>"

definition empty_frames :: "nat frame_scheduler" where
  "empty_frames = \<lparr>vs_maximum_frames = 4, vs_allowed_lateness = 5, vs_allowed_reorder = 3, vs_heap = [],
     vs_identifiers = {}, vs_cancelled_ids = {}, vs_sequence = 0, vs_latest_pts = 0, vs_submitted = 0, vs_presented = 0,
     vs_late_drops = 0, vs_rejected = 0, vs_cancelled = 0, vs_maximum_lateness = 0\<rparr>"

definition example_frames :: "nat frame_scheduler" where
  "example_frames = snd (submit_frame (example_frame ''b'' 20) (snd (submit_frame (example_frame ''a'' 10) empty_frames)))"

lemma example_frame_history:
  "frame_history example_frames {#example_frame ''b'' 20, example_frame ''a'' 10#} [] {#}"
proof -
  let ?s1 = "snd (submit_frame (example_frame ''a'' 10) empty_frames)"
  have "frame_history empty_frames {#} [] {#}"
    by (rule frame_history.created [of 4 "Fin 5" "Fin 3"]) (simp add: new_frame_scheduler_def empty_frames_def)
  moreover have "submit_frame (example_frame ''a'' 10) empty_frames = (True, ?s1)"
    by (rule prod_eqI) (code_simp, simp)
  ultimately have "frame_history ?s1 {#example_frame ''a'' 10#} [] {#}" by (rule frame_history.submitted)
  moreover have "submit_frame (example_frame ''b'' 20) ?s1 = (True, example_frames)"
    by (rule prod_eqI) (code_simp, simp add: example_frames_def)
  ultimately show ?thesis by (rule frame_history.submitted)
qed

theorem frames_accounted_witness:
  "{#example_frame ''b'' 20, example_frame ''a'' 10#} = mset (queued_frames example_frames)
   \<and> vx_queue_depth (frame_scheduler_snapshot example_frames) = int (length (queued_frames example_frames))"
  using frames_accounted [OF example_frame_history] by simp

theorem drain_presents_the_next_frame_witness:
  "\<exists>ds s'. drain_late (Fin 22) (\<lambda>i. id) 0 example_frames = Some (Inr ds, s')
     \<and> queued_frames example_frames = map fd_frame ds @ queued_frames s'"
  using drain_presents_the_next_frame [OF example_frame_history, of 22] by auto

end
