(* ===== verification/AudioRing.thy ===== *)
theory AudioRing
  imports Prelude
begin

text \<open>
  \<open>vllm_apple/audio_ring_buffer.py\<close>: the ring buffer between one producer and one consumer.  Samples are
  interleaved: frame \<open>i\<close> of a buffer with \<open>c\<close> channels is the elements from \<open>i * c\<close>.  Storing in
  \<open>array("f")\<close> rounds to single precision; that conversion is the parameter \<open>single\<close>, and the type of a
  stored sample is \<open>'f\<close>.  Positions and counters, which are never negative, are natural numbers.
\<close>

record 'f ring =
  rb_capacity :: nat
  rb_channels :: nat
  rb_samples :: "'f list"
  rb_read_position :: nat
  rb_write_position :: nat
  rb_available :: nat
  rb_written :: nat
  rb_read :: nat
  rb_overflow :: nat
  rb_underrun :: nat

definition new_ring :: "(rat \<Rightarrow> 'f) \<Rightarrow> int \<Rightarrow> int \<Rightarrow> 'f ring result" where
  "new_ring single capacity channels =
     guard_ok (2 \<le> capacity \<and> capacity \<le> 10000000 \<and> 1 \<le> channels \<and> channels \<le> 32) ''invalid audio ring buffer shape''
       \<lparr>rb_capacity = nat capacity, rb_channels = nat channels, rb_samples = replicate (nat capacity * nat channels) (single 0),
        rb_read_position = 0, rb_write_position = 0, rb_available = 0, rb_written = 0, rb_read = 0, rb_overflow = 0,
        rb_underrun = 0\<rparr>"

text \<open>The inner loop over the channels of one frame, and the loop over the frames.  A sample that is not finite
  raises out of both; what was stored before stays.\<close>

fun store_frame :: "(rat \<Rightarrow> 'f) \<Rightarrow> nat \<Rightarrow> xfloat list \<Rightarrow> ('f list, unit) method" where
  "store_frame single target [] buf = (Inr (), buf)"
| "store_frame single target (v # vs) buf =
     (if \<not> isfinite v then (Inl (ValueError ''audio samples must be finite''), buf)
      else store_frame single (target + 1) vs (buf[target := single (fin_val v)]))"

definition input_frame :: "nat \<Rightarrow> 'a list \<Rightarrow> nat \<Rightarrow> 'a list" where
  "input_frame channels samples frame = take channels (drop (frame * channels) samples)"

fun store_frames :: "(rat \<Rightarrow> 'f) \<Rightarrow> xfloat list \<Rightarrow> nat list \<Rightarrow> ('f ring, unit) method" where
  "store_frames single samples [] b = (Inr (), b)"
| "store_frames single samples (frame # frames) b =
     (case store_frame single (((rb_write_position b + frame) mod rb_capacity b) * rb_channels b)
             (input_frame (rb_channels b) samples frame) (rb_samples b) of
        (Inl e, buf) \<Rightarrow> (Inl e, b\<lparr>rb_samples := buf\<rparr>)
      | (Inr u, buf) \<Rightarrow> store_frames single samples frames (b\<lparr>rb_samples := buf\<rparr>))"

definition write_from :: "(rat \<Rightarrow> 'f) \<Rightarrow> xfloat list \<Rightarrow> int \<Rightarrow> ('f ring, int) method" where
  "write_from single samples frame_count b =
     (if frame_count < 0 \<or> int (length samples) < frame_count * int (rb_channels b)
      then (Inl (ValueError ''invalid audio producer input''), b)
      else
        let accepted = min (nat frame_count) (rb_capacity b - rb_available b)
        in case store_frames single samples [0..<accepted] b of
             (Inl e, b1) \<Rightarrow> (Inl e, b1)
           | (Inr u, b1) \<Rightarrow>
               (Inr (int accepted),
                b1\<lparr>rb_write_position := (rb_write_position b1 + accepted) mod rb_capacity b1,
                   rb_available := rb_available b1 + accepted, rb_written := rb_written b1 + accepted,
                   rb_overflow := rb_overflow b1 + (nat frame_count - accepted)\<rparr>))"

fun copy_frame :: "nat \<Rightarrow> 'f list \<Rightarrow> 'f list \<Rightarrow> 'f list" where
  "copy_frame target [] out = out"
| "copy_frame target (v # vs) out = copy_frame (target + 1) vs (out[target := v])"

definition stored_frame :: "'f ring \<Rightarrow> nat \<Rightarrow> 'f list" where
  "stored_frame b i = take (rb_channels b) (drop (i * rb_channels b) (rb_samples b))"

fun copy_frames :: "'f ring \<Rightarrow> nat list \<Rightarrow> 'f list \<Rightarrow> 'f list" where
  "copy_frames b [] out = out"
| "copy_frames b (frame # frames) out =
     copy_frames b frames (copy_frame (frame * rb_channels b)
       (stored_frame b ((rb_read_position b + frame) mod rb_capacity b)) out)"

text \<open>\<open>read_into\<close> writes into the caller's list: the result is the count and the new contents of that list.\<close>

definition read_into :: "'f list \<Rightarrow> int \<Rightarrow> ('f ring, int \<times> 'f list) method" where
  "read_into out frame_count b =
     (if frame_count < 0 \<or> int (length out) < frame_count * int (rb_channels b)
      then (Inl (ValueError ''invalid audio consumer output''), b)
      else
        let consumed = min (nat frame_count) (rb_available b)
        in (Inr (int consumed, copy_frames b [0..<consumed] out),
            b\<lparr>rb_read_position := (rb_read_position b + consumed) mod rb_capacity b,
              rb_available := rb_available b - consumed, rb_read := rb_read b + consumed,
              rb_underrun := rb_underrun b + (nat frame_count - consumed)\<rparr>))"

definition clear_ring :: "'f ring \<Rightarrow> 'f ring" where
  "clear_ring b = b\<lparr>rb_read_position := 0, rb_write_position := 0, rb_available := 0\<rparr>"

record ring_snapshot =
  rn_capacity_frames :: nat
  rn_channels :: nat
  rn_available_frames :: nat
  rn_free_frames :: nat
  rn_written_frames :: nat
  rn_read_frames :: nat
  rn_overflow_frames :: nat
  rn_underrun_frames :: nat

definition ring_snapshot_of :: "'f ring \<Rightarrow> ring_snapshot" where
  "ring_snapshot_of b =
     \<lparr>rn_capacity_frames = rb_capacity b, rn_channels = rb_channels b, rn_available_frames = rb_available b,
      rn_free_frames = rb_capacity b - rb_available b, rn_written_frames = rb_written b, rn_read_frames = rb_read b,
      rn_overflow_frames = rb_overflow b, rn_underrun_frames = rb_underrun b\<rparr>"

section \<open>The interface: a bounded stream\<close>

text \<open>A bounded first-in first-out store: writing appends as many of the offered items as fit, or fails and
  changes nothing that can be read; reading takes from the front.\<close>

locale bounded_stream =
  fixes ok :: "'s \<Rightarrow> bool"
    and contents :: "'s \<Rightarrow> 'i list"
    and capacity :: "'s \<Rightarrow> nat"
    and offered :: "'w \<Rightarrow> 's \<Rightarrow> 'i list"
    and write_items :: "'w \<Rightarrow> 's \<Rightarrow> nat option \<times> 's"
    and wanted :: "'q \<Rightarrow> 's \<Rightarrow> nat"
    and read_items :: "'q \<Rightarrow> 's \<Rightarrow> 'i list \<times> 's"
  assumes bounded: "ok s \<Longrightarrow> length (contents s) \<le> capacity s"
    and write_accepts: "ok s \<Longrightarrow> write_items w s = (Some n, s') \<Longrightarrow> ok s'
        \<and> n = min (length (offered w s)) (capacity s - length (contents s)) \<and> contents s' = contents s @ take n (offered w s)"
    and write_refuses: "ok s \<Longrightarrow> write_items w s = (None, s') \<Longrightarrow> ok s' \<and> contents s' = contents s"
    and read_takes: "ok s \<Longrightarrow> read_items q s = (xs, s') \<Longrightarrow> ok s'
        \<and> length xs = min (wanted q s) (length (contents s)) \<and> contents s = xs @ contents s'"
begin

inductive stream_history :: "'s \<Rightarrow> 'i list \<Rightarrow> 'i list \<Rightarrow> bool" where
  started: "ok s \<Longrightarrow> contents s = [] \<Longrightarrow> stream_history s [] []"
| wrote: "stream_history s accepted delivered \<Longrightarrow> write_items w s = (Some n, s')
    \<Longrightarrow> stream_history s' (accepted @ take n (offered w s)) delivered"
| failed: "stream_history s accepted delivered \<Longrightarrow> write_items w s = (None, s') \<Longrightarrow> stream_history s' accepted delivered"
| read: "stream_history s accepted delivered \<Longrightarrow> read_items q s = (xs, s')
    \<Longrightarrow> stream_history s' accepted (delivered @ xs)"

text \<open>Nothing is lost, repeated or reordered.\<close>

lemma stream_exact:
  "stream_history s accepted delivered \<Longrightarrow> ok s \<and> accepted = delivered @ contents s"
proof (induction rule: stream_history.induct)
  case (wrote s accepted delivered w n s')
  then show ?case using write_accepts [of s w n s'] by simp
next
  case (failed s accepted delivered w s')
  then show ?case using write_refuses [of s w s'] by simp
next
  case (read s accepted delivered q xs s')
  then show ?case using read_takes [of s q xs s'] by simp
qed simp

end

section \<open>The ring buffer keeps it\<close>

definition ring_ok :: "'f ring \<Rightarrow> bool" where
  "ring_ok b \<longleftrightarrow> 1 \<le> rb_channels b \<and> 2 \<le> rb_capacity b \<and> length (rb_samples b) = rb_capacity b * rb_channels b
     \<and> rb_available b \<le> rb_capacity b \<and> rb_write_position b = (rb_read_position b + rb_available b) mod rb_capacity b"

definition ring_contents :: "'f ring \<Rightarrow> 'f list list" where
  "ring_contents b = map (\<lambda>k. stored_frame b ((rb_read_position b + k) mod rb_capacity b)) [0..<rb_available b]"

lemma store_frame_spec:
  assumes "store_frame single target vs buf = (r, buf')"
  shows "length buf' = length buf" "\<And>i. i < target \<or> target + length vs \<le> i \<Longrightarrow> buf' ! i = buf ! i"
    "r = Inr () \<longleftrightarrow> (\<forall>v\<in>set vs. isfinite v)"
    "\<And>j. r = Inr () \<Longrightarrow> j < length vs \<Longrightarrow> target + j < length buf \<Longrightarrow> buf' ! (target + j) = single (fin_val (vs ! j))"
proof -
  have "length buf' = length buf \<and> (\<forall>i. i < target \<or> target + length vs \<le> i \<longrightarrow> buf' ! i = buf ! i)
    \<and> (r = Inr () \<longleftrightarrow> (\<forall>v\<in>set vs. isfinite v))
    \<and> (r = Inr () \<longrightarrow> (\<forall>j < length vs. target + j < length buf \<longrightarrow> buf' ! (target + j) = single (fin_val (vs ! j))))"
    using assms
  proof (induction vs arbitrary: target buf)
    case (Cons v vs)
    show ?case
    proof (cases "isfinite v")
      case True
      then have "store_frame single (target + 1) vs (buf[target := single (fin_val v)]) = (r, buf')" using Cons.prems by simp
      note IH = Cons.IH [OF this]
      have "buf' ! (target + j) = single (fin_val ((v # vs) ! j))"
        if "r = Inr ()" "j < length (v # vs)" "target + j < length buf" for j
      proof (cases j)
        case 0
        then show ?thesis using IH that by simp
      next
        case (Suc i)
        then show ?thesis using IH that by auto
      qed
      moreover have "buf' ! i = buf ! i" if "i < target \<or> target + length (v # vs) \<le> i" for i
        using IH that by (auto simp: nth_list_update)
      ultimately show ?thesis using IH True by simp
    qed (use Cons.prems in auto)
  qed simp
  then show "length buf' = length buf" "\<And>i. i < target \<or> target + length vs \<le> i \<Longrightarrow> buf' ! i = buf ! i"
    "r = Inr () \<longleftrightarrow> (\<forall>v\<in>set vs. isfinite v)"
    "\<And>j. r = Inr () \<Longrightarrow> j < length vs \<Longrightarrow> target + j < length buf \<Longrightarrow> buf' ! (target + j) = single (fin_val (vs ! j))"
    by blast+
qed

text \<open>Frames as blocks of a flat list.\<close>

lemma block_nth: "length xs = n * c \<Longrightarrow> i < n \<Longrightarrow> j < c \<Longrightarrow> take c (drop (i * c) xs) ! j = xs ! (i * c + j)"
  by (simp add: ac_simps)

lemma block_end: "i < n \<Longrightarrow> i * c + c \<le> n * (c::nat)"
  using mult_le_mono1 [of "Suc i" n c] by (simp add: add.commute)

lemma block_bound: "i < n \<Longrightarrow> j < c \<Longrightarrow> i * c + j < n * (c::nat)"
  using block_end [of i n c] by simp

lemma block_length: "length xs = n * c \<Longrightarrow> i < n \<Longrightarrow> length (take c (drop (i * c) xs)) = c"
  using block_end [of i n c] by simp

lemma other_block:
  assumes "i \<noteq> k" and "j < (c::nat)"
  shows "i * c + j < k * c \<or> k * c + c \<le> i * c + j"
proof (cases "i < k")
  case True
  then have "Suc i * c \<le> k * c" by (intro mult_le_mono1) simp
  then show ?thesis using assms(2) by simp
next
  case False
  then have "Suc k * c \<le> i * c" using assms(1) by (intro mult_le_mono1) simp
  then show ?thesis by simp
qed


lemma ring_position_free:
  assumes "k < available" and "available + f < capacity"
  shows "(read + k) mod capacity \<noteq> ((read + available) mod capacity + f) mod (capacity::nat)"
proof
  assume "(read + k) mod capacity = ((read + available) mod capacity + f) mod capacity"
  then have "(read + available + f) mod capacity = (read + k) mod capacity" by (simp add: mod_add_left_eq)
  then have "capacity dvd (read + available + f) - (read + k)" using assms(1) by (subst mod_eq_dvd_iff_nat [symmetric]) simp_all
  moreover have "0 < (read + available + f) - (read + k)" "(read + available + f) - (read + k) < capacity" using assms by auto
  ultimately show False by (meson nat_dvd_not_less)
qed

text \<open>Storing frames at distinct positions.\<close>

abbreviation in_frame :: "'f ring \<Rightarrow> xfloat list \<Rightarrow> nat \<Rightarrow> xfloat list" where
  "in_frame b samples f \<equiv> input_frame (rb_channels b) samples f"

definition slot :: "'f ring \<Rightarrow> nat \<Rightarrow> nat" where
  "slot b f = (rb_write_position b + f) mod rb_capacity b"

lemma store_one_frame:
  assumes shape: "1 \<le> rb_channels b" "length (rb_samples b) = rb_capacity b * rb_channels b" and i: "i < rb_capacity b"
    and vs: "length vs = rb_channels b" and st: "store_frame single (i * rb_channels b) vs (rb_samples b) = (r, buf)"
  shows "length buf = length (rb_samples b)" "r = Inr () \<longleftrightarrow> (\<forall>v\<in>set vs. isfinite v)"
    "\<And>k. k < rb_capacity b \<Longrightarrow> k \<noteq> i \<Longrightarrow> stored_frame (b\<lparr>rb_samples := buf\<rparr>) k = stored_frame b k"
    "r = Inr () \<Longrightarrow> stored_frame (b\<lparr>rb_samples := buf\<rparr>) i = map (single \<circ> fin_val) vs"
proof -
  note spec = store_frame_spec [OF st]
  show len: "length buf = length (rb_samples b)" "r = Inr () \<longleftrightarrow> (\<forall>v\<in>set vs. isfinite v)" using spec(1,3) by simp_all
  show "stored_frame (b\<lparr>rb_samples := buf\<rparr>) k = stored_frame b k" if k: "k < rb_capacity b" "k \<noteq> i" for k
  proof (rule nth_equalityI)
    show "length (stored_frame (b\<lparr>rb_samples := buf\<rparr>) k) = length (stored_frame b k)"
      using block_length [OF shape(2) k(1)] block_length [OF len(1) [unfolded shape(2)] k(1)] by (simp add: stored_frame_def)
    fix j assume "j < length (stored_frame (b\<lparr>rb_samples := buf\<rparr>) k)"
    then have j: "j < rb_channels b" by (simp add: stored_frame_def)
    have "buf ! (k * rb_channels b + j) = rb_samples b ! (k * rb_channels b + j)"
      by (rule spec(2)) (use other_block [OF k(2) j] vs in simp)
    then show "stored_frame (b\<lparr>rb_samples := buf\<rparr>) k ! j = stored_frame b k ! j"
      using block_nth [OF shape(2) k(1) j] block_nth [OF len(1) [unfolded shape(2)] k(1) j] by (simp add: stored_frame_def)
  qed
  show "stored_frame (b\<lparr>rb_samples := buf\<rparr>) i = map (single \<circ> fin_val) vs" if r: "r = Inr ()"
  proof (rule nth_equalityI)
    show l: "length (stored_frame (b\<lparr>rb_samples := buf\<rparr>) i) = length (map (single \<circ> fin_val) vs)"
      using block_length [OF len(1) [unfolded shape(2)] i] vs by (simp add: stored_frame_def)
    fix j assume "j < length (stored_frame (b\<lparr>rb_samples := buf\<rparr>) i)"
    then have j: "j < rb_channels b" using l vs by simp
    have "buf ! (i * rb_channels b + j) = single (fin_val (vs ! j))"
      by (rule spec(4) [OF r]) (use j vs block_bound [OF i j] shape(2) in simp_all)
    then show "stored_frame (b\<lparr>rb_samples := buf\<rparr>) i ! j = map (single \<circ> fin_val) vs ! j"
      using block_nth [OF len(1) [unfolded shape(2)] i j] j vs by (simp add: stored_frame_def)
  qed
qed

lemma store_frames_spec:
  assumes "1 \<le> rb_channels b" and "0 < rb_capacity b" and "length (rb_samples b) = rb_capacity b * rb_channels b"
    and "distinct (map (slot b) fs)" and "\<forall>f\<in>set fs. length (in_frame b samples f) = rb_channels b"
    and "store_frames single samples fs b = (r, b')"
  shows "b' = b\<lparr>rb_samples := rb_samples b'\<rparr> \<and> length (rb_samples b') = length (rb_samples b)
    \<and> (r = Inr () \<longleftrightarrow> (\<forall>f\<in>set fs. \<forall>v\<in>set (in_frame b samples f). isfinite v))
    \<and> (\<forall>k < rb_capacity b. k \<notin> slot b ` set fs \<longrightarrow> stored_frame b' k = stored_frame b k)
    \<and> (r = Inr () \<longrightarrow> (\<forall>f\<in>set fs. stored_frame b' (slot b f) = map (single \<circ> fin_val) (in_frame b samples f)))"
  using assms
proof (induction fs arbitrary: b)
  case (Cons f fs)
  let ?st = "store_frame single (slot b f * rb_channels b) (in_frame b samples f) (rb_samples b)"
  obtain q buf where st: "?st = (q, buf)" by (rule prod.exhaust)
  have tf: "slot b f < rb_capacity b" using Cons.prems(2) by (simp add: slot_def)
  note one = store_one_frame [OF Cons.prems(1,3) tf _ st]
  have lf: "length (in_frame b samples f) = rb_channels b" using Cons.prems(5) by simp
  let ?c = "b\<lparr>rb_samples := buf\<rparr>"
  show ?case
  proof (cases q)
    case (Inl e)
    have "r = Inl e" "b' = ?c" using Cons.prems(6) st Inl by (simp_all add: slot_def)
    then show ?thesis using one(1-3) [OF lf] Inl by auto
  next
    case (Inr u)
    have rest: "store_frames single samples fs ?c = (r, b')" using Cons.prems(6) st Inr by (simp add: slot_def)
    have tc: "slot ?c = slot b" by (rule ext) (simp add: slot_def)
    have IH: "b' = ?c\<lparr>rb_samples := rb_samples b'\<rparr>" "length (rb_samples b') = length buf"
      "r = Inr () \<longleftrightarrow> (\<forall>f\<in>set fs. \<forall>v\<in>set (in_frame b samples f). isfinite v)"
      "\<forall>k < rb_capacity b. k \<notin> slot b ` set fs \<longrightarrow> stored_frame b' k = stored_frame ?c k"
      "r = Inr () \<longrightarrow> (\<forall>f\<in>set fs. stored_frame b' (slot b f) = map (single \<circ> fin_val) (in_frame b samples f))"
      using Cons.IH [of ?c, unfolded tc] Cons.prems(1-5) one(1) [OF lf] rest by simp_all
    have fresh: "slot b f \<notin> slot b ` set fs" using Cons.prems(4) by simp
    have "stored_frame b' (slot b f) = map (single \<circ> fin_val) (in_frame b samples f)"
      using IH(4) tf fresh one(4) [OF lf] Inr by simp
    moreover have "\<forall>v\<in>set (in_frame b samples f). isfinite v" using one(2) [OF lf] Inr by simp
    moreover have "b' = b\<lparr>rb_samples := rb_samples b'\<rparr>" by (subst IH(1)) simp
    ultimately show ?thesis using IH(2-5) one(1,3) [OF lf] by auto
  qed
qed simp


lemma ring_okD:
  assumes "ring_ok b"
  shows "1 \<le> rb_channels b" "0 < rb_capacity b" "length (rb_samples b) = rb_capacity b * rb_channels b"
    "rb_available b \<le> rb_capacity b" "rb_write_position b = (rb_read_position b + rb_available b) mod rb_capacity b"
  using assms by (auto simp: ring_ok_def)

lemma new_ring_ok: "new_ring single capacity channels = Inr b \<Longrightarrow> ring_ok b \<and> ring_contents b = []"
  by (auto simp: new_ring_def ring_ok_def ring_contents_def)

text \<open>The positions behind the unread frames are pairwise different and not unread.\<close>

lemma targets_distinct:
  assumes "ring_ok b" and "n \<le> rb_capacity b - rb_available b"
  shows "distinct (map (slot b) [0..<n])"
proof -
  have "slot b i \<noteq> slot b k" if "i < k" "k < n" for i k
  proof
    assume "slot b i = slot b k"
    then have "rb_capacity b dvd (rb_write_position b + k) - (rb_write_position b + i)"
      using that by (subst mod_eq_dvd_iff_nat [symmetric]) (simp_all add: slot_def)
    moreover have "0 < k - i" "k - i < rb_capacity b" using that assms(2) by auto
    ultimately show False by (simp add: nat_dvd_not_less)
  qed
  then have "inj_on (slot b) {0..<n}" by (intro linorder_inj_onI) auto
  then show ?thesis by (simp add: distinct_map)
qed

lemma target_unread:
  assumes "ring_ok b" and "k < rb_available b" and "rb_available b + f < rb_capacity b"
  shows "(rb_read_position b + k) mod rb_capacity b \<noteq> slot b f"
  unfolding slot_def ring_okD(5) [OF assms(1)] by (rule ring_position_free [OF assms(2,3)])

lemma target_ahead:
  assumes "ring_ok b"
  shows "slot b f = (rb_read_position b + (rb_available b + f)) mod rb_capacity b"
  unfolding slot_def ring_okD(5) [OF assms] by (metis add.assoc mod_add_left_eq)

definition offered_frames :: "(rat \<Rightarrow> 'f) \<Rightarrow> xfloat list \<times> int \<Rightarrow> 'f ring \<Rightarrow> 'f list list" where
  "offered_frames single w b = map (\<lambda>f. map (single \<circ> fin_val) (in_frame b (fst w) f)) [0..<nat (snd w)]"

definition accepts :: "xfloat list \<Rightarrow> int \<Rightarrow> 'f ring \<Rightarrow> bool" where
  "accepts samples n b \<longleftrightarrow> 0 \<le> n \<and> n * int (rb_channels b) \<le> int (length samples)
     \<and> (\<forall>f < min (nat n) (rb_capacity b - rb_available b). \<forall>v\<in>set (in_frame b samples f). isfinite v)"

lemma in_frame_length:
  assumes "n * int (rb_channels b) \<le> int (length samples)" and "f < nat n"
  shows "length (in_frame b samples f) = rb_channels b"
proof -
  have "f * rb_channels b + rb_channels b \<le> nat n * rb_channels b" using assms(2) by (rule block_end)
  also have "\<dots> \<le> length samples"
  proof -
    have "0 \<le> n" using assms(2) by simp
    then have "int (nat n * rb_channels b) = n * int (rb_channels b)" by simp
    then show ?thesis using assms(1) by linarith
  qed
  finally show ?thesis by (simp add: input_frame_def)
qed

lemma upt_split: "[0..<m + n] = [0..<m] @ map (\<lambda>i. m + i) [0..<n]"
  by (rule nth_equalityI) (auto simp: nth_append)

lemma write_from_spec:
  assumes ok: "ring_ok b" and w: "write_from single samples n b = (r, b')"
  shows "ring_ok b'" "rb_capacity b' = rb_capacity b"
    "r = (if accepts samples n b then Inr (int (min (nat n) (rb_capacity b - rb_available b)))
          else Inl (ValueError (if n < 0 \<or> int (length samples) < n * int (rb_channels b)
                                then ''invalid audio producer input'' else ''audio samples must be finite'')))"
    "ring_contents b' = ring_contents b @
       (if accepts samples n b
        then take (min (nat n) (rb_capacity b - rb_available b)) (offered_frames single (samples, n) b) else [])"
proof -
  let ?a = "min (nat n) (rb_capacity b - rb_available b)"
  have "ring_ok b' \<and> rb_capacity b' = rb_capacity b
    \<and> r = (if accepts samples n b then Inr (int ?a)
          else Inl (ValueError (if n < 0 \<or> int (length samples) < n * int (rb_channels b)
                                then ''invalid audio producer input'' else ''audio samples must be finite'')))
    \<and> ring_contents b' = ring_contents b @ (if accepts samples n b then take ?a (offered_frames single (samples, n) b) else [])"
  proof (cases "n < 0 \<or> int (length samples) < n * int (rb_channels b)")
    case True
    then show ?thesis using ok w by (auto simp: write_from_def accepts_def)
  next
    case False
    obtain q c where st: "store_frames single samples [0..<?a] b = (q, c)" by (rule prod.exhaust)
    have lengths: "\<forall>f\<in>set [0..<?a]. length (in_frame b samples f) = rb_channels b"
      using in_frame_length [of n b samples] False by simp
    have "distinct (map (slot b) [0..<?a])" by (rule targets_distinct [OF ok]) simp
    from store_frames_spec [OF ring_okD(1-3) [OF ok] this lengths st]
    have c: "c = b\<lparr>rb_samples := rb_samples c\<rparr>" "length (rb_samples c) = length (rb_samples b)"
      "q = Inr () \<longleftrightarrow> accepts samples n b"
      "\<forall>k < rb_capacity b. k \<notin> slot b ` set [0..<?a] \<longrightarrow> stored_frame c k = stored_frame b k"
      "q = Inr () \<longrightarrow> (\<forall>f < ?a. stored_frame c (slot b f) = map (single \<circ> fin_val) (in_frame b samples f))"
      using False by (auto simp: accepts_def)
    have fields: "rb_capacity c = rb_capacity b" "rb_channels c = rb_channels b" "rb_available c = rb_available b"
      "rb_read_position c = rb_read_position b" "rb_write_position c = rb_write_position b"
      by (subst c(1), simp)+
    have ok_c: "ring_ok c" using ok c(2) by (simp add: ring_ok_def fields)
    have old: "stored_frame c ((rb_read_position b + k) mod rb_capacity b) = stored_frame b ((rb_read_position b + k) mod rb_capacity b)"
      if "k < rb_available b" for k
    proof -
      have "(rb_read_position b + k) mod rb_capacity b \<noteq> slot b f" if "f < ?a" for f
        by (rule target_unread [OF ok \<open>k < rb_available b\<close>]) (use that in linarith)
      then have "(rb_read_position b + k) mod rb_capacity b \<notin> slot b ` set [0..<?a]"
        unfolding set_upt image_iff by (meson atLeastLessThan_iff)
      from c(4) [rule_format, OF _ this] show ?thesis using ring_okD(2) [OF ok] by simp
    qed
    have kept: "ring_contents c = ring_contents b" by (simp add: ring_contents_def fields old)
    show ?thesis
    proof (cases q)
      case (Inl e)
      have "\<not> accepts samples n b" using c(3) Inl by simp
      moreover have "r = Inl e" "b' = c" using w False st Inl by (simp_all add: write_from_def Let_def)
      moreover have "e = ValueError ''audio samples must be finite''"
      proof -
        have sf: "store_frame single t vs buf = (Inl e, buf') \<Longrightarrow> e = ValueError ''audio samples must be finite''" for t vs buf buf' e
          by (induction vs arbitrary: t buf) (auto split: if_splits)
        have "store_frames single samples fs b = (Inl e, c) \<Longrightarrow> e = ValueError ''audio samples must be finite''" for fs b
          using sf by (induction fs arbitrary: b) (auto split: prod.splits sum.splits)
        then show ?thesis using st Inl by blast
      qed
      ultimately show ?thesis using False ok_c kept fields by simp
    next
      case (Inr u)
      let ?b = "c\<lparr>rb_write_position := (rb_write_position c + ?a) mod rb_capacity c, rb_available := rb_available c + ?a,
          rb_written := rb_written c + ?a, rb_overflow := rb_overflow c + (nat n - ?a)\<rparr>"
      have acc: "accepts samples n b" using c(3) Inr by simp
      have b': "r = Inr (int ?a)" "b' = ?b" using w False st Inr by (simp_all add: write_from_def Let_def)
      have "ring_ok b'"
        using ok_c ring_okD(4,5) [OF ok] by (auto simp: b'(2) ring_ok_def fields mod_add_left_eq add.assoc)
      moreover have "ring_contents b' = ring_contents b @ take ?a (offered_frames single (samples, n) b)"
      proof -
        have same: "stored_frame b' k = stored_frame c k" for k by (simp add: b'(2) stored_frame_def)
        have "ring_contents b' = map (\<lambda>k. stored_frame c ((rb_read_position b + k) mod rb_capacity b)) [0..<rb_available b + ?a]"
          by (simp add: ring_contents_def same) (simp add: b'(2) fields)
        also have "\<dots> = ring_contents c @ map (\<lambda>f. stored_frame c (slot b f)) [0..<?a]"
          unfolding upt_split map_append map_map ring_contents_def fields
          by (simp add: comp_def target_ahead [OF ok])
        also note kept
        also have "map (\<lambda>f. stored_frame c (slot b f)) [0..<?a] = take ?a (offered_frames single (samples, n) b)"
          using c(5) Inr by (simp add: offered_frames_def take_map)
        finally show ?thesis .
      qed
      ultimately show ?thesis using acc b' fields by simp
    qed
  qed
  then show "ring_ok b'" "rb_capacity b' = rb_capacity b"
    "r = (if accepts samples n b then Inr (int ?a)
          else Inl (ValueError (if n < 0 \<or> int (length samples) < n * int (rb_channels b)
                                then ''invalid audio producer input'' else ''audio samples must be finite'')))"
    "ring_contents b' = ring_contents b @ (if accepts samples n b then take ?a (offered_frames single (samples, n) b) else [])"
    by blast+
qed


lemma copy_frame_splice:
  "target + length vs \<le> length out \<Longrightarrow> copy_frame target vs out = take target out @ vs @ drop (target + length vs) out"
proof (induction vs arbitrary: target out)
  case (Cons v vs)
  then have "copy_frame target (v # vs) out
      = take (target + 1) (out[target := v]) @ vs @ drop (target + 1 + length vs) (out[target := v])" by simp
  also have "take (target + 1) (out[target := v]) = take target out @ [v]"
    using Cons.prems by (simp add: take_Suc_conv_app_nth)
  finally show ?case by simp
qed simp

lemma copy_frames_append: "copy_frames b (fs @ gs) out = copy_frames b gs (copy_frames b fs out)"
  by (induction fs arbitrary: out) simp_all

lemma ring_frame_length: "ring_ok b \<Longrightarrow> i < rb_capacity b \<Longrightarrow> length (stored_frame b i) = rb_channels b"
  using block_length [OF ring_okD(3)] by (simp add: stored_frame_def)

lemma copy_frames_spec:
  assumes ok: "ring_ok b" and "n * rb_channels b \<le> length out" and "n \<le> rb_available b"
  shows "copy_frames b [0..<n] out = concat (take n (ring_contents b)) @ drop (n * rb_channels b) out
    \<and> length (concat (take n (ring_contents b))) = n * rb_channels b"
  using assms(2,3)
proof (induction n)
  case (Suc n)
  let ?f = "stored_frame b ((rb_read_position b + n) mod rb_capacity b)"
  let ?front = "concat (take n (ring_contents b))"
  have f: "length ?f = rb_channels b" using ring_frame_length [OF ok] ring_okD(2) [OF ok] by simp
  have next_frame: "take (Suc n) (ring_contents b) = take n (ring_contents b) @ [?f]"
    using Suc.prems by (simp add: ring_contents_def take_map take_upt)
  have IH: "copy_frames b [0..<n] out = ?front @ drop (n * rb_channels b) out" "length ?front = n * rb_channels b"
    using Suc.IH Suc.prems by simp_all
  have "copy_frames b [0..<Suc n] out = copy_frame (n * rb_channels b) ?f (copy_frames b [0..<n] out)"
    by (simp add: copy_frames_append)
  also have "\<dots> = ?front @ ?f @ drop (n * rb_channels b + rb_channels b) out"
    unfolding IH(1) using Suc.prems f IH(2) by (subst copy_frame_splice) (simp_all add: add.commute)
  finally have "copy_frames b [0..<Suc n] out = concat (take (Suc n) (ring_contents b)) @ drop (Suc n * rb_channels b) out"
    by (simp add: next_frame add.commute)
  moreover have "length (concat (take (Suc n) (ring_contents b))) = Suc n * rb_channels b"
    using IH(2) f by (simp add: next_frame)
  ultimately show ?case by blast
qed simp_all

lemma read_into_spec:
  assumes ok: "ring_ok b" and n: "0 \<le> n" "n * int (rb_channels b) \<le> int (length out)"
    and rd: "read_into out n b = (r, b')"
  shows "ring_ok b'" "rb_capacity b' = rb_capacity b" "rb_channels b' = rb_channels b"
    "r = Inr (int (min (nat n) (rb_available b)),
       concat (take (nat n) (ring_contents b)) @ drop (min (nat n) (rb_available b) * rb_channels b) out)"
    "ring_contents b' = drop (nat n) (ring_contents b)"
proof -
  let ?c = "min (nat n) (rb_available b)"
  have b': "r = Inr (int ?c, copy_frames b [0..<?c] out)"
    "b' = b\<lparr>rb_read_position := (rb_read_position b + ?c) mod rb_capacity b, rb_available := rb_available b - ?c,
        rb_read := rb_read b + ?c, rb_underrun := rb_underrun b + (nat n - ?c)\<rparr>"
    using rd n by (simp_all add: read_into_def Let_def)
  show ok': "ring_ok b'" "rb_capacity b' = rb_capacity b" "rb_channels b' = rb_channels b"
  proof -
    have "(rb_read_position b + rb_available b) mod rb_capacity b
        = ((rb_read_position b + ?c) mod rb_capacity b + (rb_available b - ?c)) mod rb_capacity b"
      by (metis add.assoc le_add_diff_inverse min.cobounded2 mod_add_left_eq)
    then show "ring_ok b'" "rb_capacity b' = rb_capacity b" "rb_channels b' = rb_channels b"
      using ok le_trans [OF diff_le_self, of _ "rb_capacity b" ?c] unfolding b'(2) ring_ok_def by simp_all
  qed
  have "?c * rb_channels b \<le> length out"
  proof -
    have "?c * rb_channels b \<le> nat n * rb_channels b" by (rule mult_le_mono1) simp
    moreover have "int (nat n * rb_channels b) = n * int (rb_channels b)" using n(1) by simp
    ultimately show ?thesis using n(2) by linarith
  qed
  moreover have "take ?c (ring_contents b) = take (nat n) (ring_contents b)"
    by (simp add: ring_contents_def min_def)
  ultimately show "r = Inr (int ?c, concat (take (nat n) (ring_contents b)) @ drop (?c * rb_channels b) out)"
    using copy_frames_spec [OF ok, of ?c out] by (simp add: b'(1))
  have "ring_contents b' = map (\<lambda>k. stored_frame b ((rb_read_position b + (?c + k)) mod rb_capacity b)) [0..<rb_available b - ?c]"
    by (simp add: ring_contents_def b'(2) stored_frame_def mod_add_left_eq add.assoc)
  also have "\<dots> = drop ?c (ring_contents b)"
    by (cases "nat n \<le> rb_available b") (auto intro!: nth_equalityI simp: ring_contents_def min_def)
  also have "\<dots> = drop (nat n) (ring_contents b)" by (simp add: ring_contents_def min_def)
  finally show "ring_contents b' = drop (nat n) (ring_contents b)" .
qed


text \<open>The ring buffer as a stream of frames.\<close>

definition ring_write :: "(rat \<Rightarrow> 'f) \<Rightarrow> xfloat list \<times> int \<Rightarrow> 'f ring \<Rightarrow> nat option \<times> 'f ring" where
  "ring_write single w b =
     (case write_from single (fst w) (snd w) b of (Inl e, b') \<Rightarrow> (None, b') | (Inr n, b') \<Rightarrow> (Some (nat n), b'))"

definition ring_wanted :: "'f list \<times> int \<Rightarrow> 'f ring \<Rightarrow> nat" where
  "ring_wanted q b = (if 0 \<le> snd q \<and> snd q * int (rb_channels b) \<le> int (length (fst q)) then nat (snd q) else 0)"

definition ring_read :: "'f list \<times> int \<Rightarrow> 'f ring \<Rightarrow> 'f list list \<times> 'f ring" where
  "ring_read q b =
     (case read_into (fst q) (snd q) b of
        (Inl e, b') \<Rightarrow> ([], b')
      | (Inr (k, out), b') \<Rightarrow> (map (input_frame (rb_channels b) out) [0..<nat k], b'))"

lemma concat_frames:
  "\<forall>x\<in>set xs. length x = c \<Longrightarrow> map (input_frame c (concat xs @ ys)) [0..<length xs] = xs"
proof (induction xs)
  case (Cons x xs)
  have "map (input_frame c (concat (x # xs) @ ys)) [0..<Suc (length xs)]
      = input_frame c (concat (x # xs) @ ys) 0 # map (\<lambda>i. input_frame c (concat (x # xs) @ ys) (Suc i)) [0..<length xs]"
    by (simp only: upt_conv_Cons [OF zero_less_Suc] list.map map_Suc_upt [symmetric] map_map comp_def)
  also have "input_frame c (concat (x # xs) @ ys) 0 = x" using Cons.prems by (simp add: input_frame_def)
  also have "(\<lambda>i. input_frame c (concat (x # xs) @ ys) (Suc i)) = input_frame c (concat xs @ ys)"
    using Cons.prems by (intro ext) (simp add: input_frame_def)
  finally show ?case using Cons by simp
qed simp

interpretation ring: bounded_stream ring_ok ring_contents rb_capacity "offered_frames single" "ring_write single" ring_wanted ring_read
  for single
proof unfold_locales
  fix b b' :: "'a ring" and w :: "xfloat list \<times> int" and n and q :: "'a list \<times> int" and xs
  have len: "length (ring_contents b) = rb_available b" by (simp add: ring_contents_def)
  show "length (ring_contents b) \<le> rb_capacity b" if "ring_ok b" using ring_okD(4) [OF that] len by simp
  obtain samples m where w: "w = (samples, m)" by (rule prod.exhaust)
  show "ring_ok b' \<and> n = min (length (offered_frames single w b)) (rb_capacity b - length (ring_contents b))
      \<and> ring_contents b' = ring_contents b @ take n (offered_frames single w b)"
    if ok: "ring_ok b" and wr: "ring_write single w b = (Some n, b')"
  proof -
    obtain r where r: "write_from single samples m b = (Inr r, b')" "n = nat r"
      using wr by (auto simp: ring_write_def w split: prod.splits sum.splits)
    note spec = write_from_spec [OF ok r(1)]
    have "accepts samples m b" using spec(3) by (auto split: if_splits)
    then show ?thesis using spec(1,3,4) by (simp add: w r(2) len offered_frames_def)
  qed
  show "ring_ok b' \<and> ring_contents b' = ring_contents b" if ok: "ring_ok b" and wr: "ring_write single w b = (None, b')"
  proof -
    obtain e where r: "write_from single samples m b = (Inl e, b')"
      using wr by (auto simp: ring_write_def w split: prod.splits sum.splits)
    note spec = write_from_spec [OF ok r]
    have "\<not> accepts samples m b" using spec(3) by (auto split: if_splits)
    then show ?thesis using spec(1,4) by simp
  qed
  obtain out k where q: "q = (out, k)" by (rule prod.exhaust)
  show "ring_ok b' \<and> length xs = min (ring_wanted q b) (length (ring_contents b)) \<and> ring_contents b = xs @ ring_contents b'"
    if ok: "ring_ok b" and rd: "ring_read q b = (xs, b')"
  proof (cases "0 \<le> k \<and> k * int (rb_channels b) \<le> int (length out)")
    case False
    then show ?thesis using rd ok by (auto simp: ring_read_def q read_into_def ring_wanted_def not_le)
  next
    case True
    obtain r where r: "read_into out k b = (r, b')" using rd by (auto simp: ring_read_def q split: prod.splits sum.splits)
    note spec = read_into_spec [OF ok _ _ r]
    let ?front = "take (nat k) (ring_contents b)"
    have "\<forall>x\<in>set ?front. length x = rb_channels b"
      using ring_frame_length [OF ok] ring_okD(2) [OF ok] by (auto simp: ring_contents_def dest!: in_set_takeD)
    then have "xs = ?front" using rd r spec(4) True concat_frames [of ?front] by (simp add: ring_read_def q len min.commute)
    then show ?thesis using spec(1,5) True by (simp add: ring_wanted_def q len)
  qed
qed

text \<open>C27: The ring buffer is an exact bounded stream of frames: after any history of writes, failing ones
  included, and reads, the frames the consumer was given followed by the frames still buffered are the frames that were
  accepted, in order, and the buffer holds at most its capacity.\<close>

theorem audio_ring_is_a_stream:
  assumes "ring.stream_history single b accepted delivered"
  shows "accepted = delivered @ ring_contents b \<and> rn_available_frames (ring_snapshot_of b) = length (ring_contents b)
    \<and> length (ring_contents b) \<le> rb_capacity b"
  using ring.stream_exact [OF assms] ring.bounded [of b] by (simp add: ring_snapshot_of_def ring_contents_def)

definition example_ring :: "rat ring" where
  "example_ring = \<lparr>rb_capacity = 2, rb_channels = 1, rb_samples = [0, 0], rb_read_position = 0, rb_write_position = 0,
     rb_available = 0, rb_written = 0, rb_read = 0, rb_overflow = 0, rb_underrun = 0\<rparr>"

theorem audio_ring_is_a_stream_witness:
  "ring_contents (snd (ring_read ([0], 1) (snd (ring_write id ([Fin 5, Fin 7, Fin 9], 3) example_ring)))) = [[7]]"
proof -
  let ?b1 = "snd (ring_write id ([Fin 5, Fin 7, Fin 9], 3) example_ring)" and ?b2 = "snd (ring_read ([0], 1)
      (snd (ring_write id ([Fin 5, Fin 7, Fin 9], 3) example_ring)))"
  have "ring.stream_history id example_ring [] []"
    by (rule ring.stream_history.started) (simp_all add: example_ring_def ring_ok_def ring_contents_def)
  moreover have "ring_write id ([Fin 5, Fin 7, Fin 9], 3) example_ring = (Some 2, ?b1)" by (rule prod_eqI) (code_simp, simp)
  ultimately have "ring.stream_history id ?b1 ([] @ take 2 (offered_frames id ([Fin 5, Fin 7, Fin 9], 3) example_ring)) []"
    by (rule ring.stream_history.wrote)
  moreover have "ring_read ([0], 1) ?b1 = ([[5]], ?b2)" by (rule prod_eqI) (code_simp, simp)
  ultimately have "ring.stream_history id ?b2 ([] @ take 2 (offered_frames id ([Fin 5, Fin 7, Fin 9], 3) example_ring)) ([] @ [[5]])"
    by (rule ring.stream_history.read)
  from audio_ring_is_a_stream [OF this] show ?thesis
    by (simp add: offered_frames_def input_frame_def example_ring_def numeral_2_eq_2 numeral_3_eq_3)
qed

end
