(* ===== verification/AudioFeatures.thy ===== *)
theory AudioFeatures
  imports Prelude PyFloat
begin

text \<open>
  \<open>StreamingLogBandEncoder\<close> of \<open>vllm_apple/audio_preprocessing.py\<close>: log-energy features of overlapping windows,
  computed online from chunks of any size.  Python's \<open>sum\<close> of floats and \<open>math.log\<close> are the parameters
  \<open>fsum\<close> and \<open>flog\<close>.  A specification over the whole signal says what the chunked computation must give.
\<close>

record feature_frame =
  ff_start_sample :: nat
  ff_values :: "rat list"

record band_encoder =
  be_frame_length :: nat
  be_hop_length :: nat
  be_bands :: nat
  be_samples :: "rat list"
  be_start_sample :: nat

definition new_band_encoder :: "int \<Rightarrow> int \<Rightarrow> int \<Rightarrow> band_encoder result" where
  "new_band_encoder frame_length hop_length bands =
     guard_ok (2 \<le> frame_length \<and> frame_length \<le> 8192 \<and> 1 \<le> hop_length \<and> hop_length \<le> frame_length
               \<and> 1 \<le> bands \<and> bands \<le> min 256 frame_length)
       ''invalid audio feature configuration''
       \<lparr>be_frame_length = nat frame_length, be_hop_length = nat hop_length, be_bands = nat bands, be_samples = [],
        be_start_sample = 0\<rparr>"

definition band_value :: "(rat list \<Rightarrow> rat) \<Rightarrow> (rat \<Rightarrow> rat) \<Rightarrow> nat \<Rightarrow> nat \<Rightarrow> rat list \<Rightarrow> nat \<Rightarrow> rat" where
  "band_value fsum flog frame_length bands window band =
     (let first = band * frame_length div bands;
          after = (band + 1) * frame_length div bands;
          energy = rnd (fsum (map (\<lambda>v. rnd (v * v)) (take (after - first) (drop first window))) / of_nat (after - first))
      in flog (max energy (lit 1 1000000000000)))"

definition window_values :: "(rat list \<Rightarrow> rat) \<Rightarrow> (rat \<Rightarrow> rat) \<Rightarrow> nat \<Rightarrow> nat \<Rightarrow> rat list \<Rightarrow> rat list" where
  "window_values fsum flog frame_length bands window =
     map (band_value fsum flog frame_length bands window) [0..<bands]"

text \<open>The loop.  The constructor excludes a hop or frame length of zero, with which it would not end.\<close>

function encode_windows ::
  "(rat list \<Rightarrow> rat list) \<Rightarrow> nat \<Rightarrow> nat \<Rightarrow> rat list \<Rightarrow> nat \<Rightarrow> feature_frame list \<times> rat list \<times> nat" where
  "encode_windows feat frame_length hop samples start =
     (if length samples < frame_length \<or> hop = 0 \<or> frame_length = 0 then ([], samples, start)
      else case encode_windows feat frame_length hop (drop hop samples) (start + hop) of
             (frames, rest, start') \<Rightarrow>
               (\<lparr>ff_start_sample = start, ff_values = feat (take frame_length samples)\<rparr> # frames, rest, start'))"
  by pat_completeness auto
termination
  by (relation "measure (\<lambda>(feat, frame_length, hop, samples, start). length samples)") auto

declare encode_windows.simps [simp del]

definition process_samples ::
  "(rat list \<Rightarrow> rat) \<Rightarrow> (rat \<Rightarrow> rat) \<Rightarrow> xfloat list \<Rightarrow> (band_encoder, feature_frame list) method" where
  "process_samples fsum flog samples e =
     (if 4000000 < length samples then (Inl (ValueError ''audio feature chunk exceeds its bound''), e)
      else if list_ex (\<lambda>v. \<not> isfinite v) samples then (Inl (ValueError ''audio samples must be finite''), e)
      else case encode_windows (window_values fsum flog (be_frame_length e) (be_bands e)) (be_frame_length e) (be_hop_length e)
                  (be_samples e @ map fin_val samples) (be_start_sample e) of
             (frames, rest, start) \<Rightarrow> (Inr frames, e\<lparr>be_samples := rest, be_start_sample := start\<rparr>))"

definition retained_samples :: "band_encoder \<Rightarrow> nat" where
  "retained_samples e = length (be_samples e)"

definition reset_encoder :: "band_encoder \<Rightarrow> band_encoder" where
  "reset_encoder e = e\<lparr>be_samples := [], be_start_sample := 0\<rparr>"

section \<open>The whole signal at once\<close>

definition window_count :: "nat \<Rightarrow> nat \<Rightarrow> nat \<Rightarrow> nat" where
  "window_count frame_length hop n = (if n < frame_length then 0 else (n - frame_length) div hop + 1)"

definition all_windows :: "(rat list \<Rightarrow> rat list) \<Rightarrow> nat \<Rightarrow> nat \<Rightarrow> rat list \<Rightarrow> feature_frame list" where
  "all_windows feat frame_length hop signal =
     map (\<lambda>i. \<lparr>ff_start_sample = i * hop, ff_values = feat (take frame_length (drop (i * hop) signal))\<rparr>)
       [0..<window_count frame_length hop (length signal)]"

lemma window_count_step:
  "0 < hop \<Longrightarrow> hop \<le> frame_length \<Longrightarrow> frame_length \<le> n \<Longrightarrow> window_count frame_length hop n = Suc (window_count frame_length hop (n - hop))"
proof -
  assume a: "0 < hop" "hop \<le> frame_length" "frame_length \<le> n"
  show ?thesis
  proof (cases "n - hop < frame_length")
    case True
    then have "n - frame_length < hop" using a by linarith
    then show ?thesis using a True by (simp add: window_count_def)
  next
    case False
    have split: "n - frame_length = (n - hop - frame_length) + hop" using False a by linarith
    have "(n - frame_length) div hop = (n - hop - frame_length) div hop + 1"
      unfolding split using a(1) by (rule div_add_self2 [OF less_imp_neq [symmetric]])
    then show ?thesis using False a by (simp add: window_count_def)
  qed
qed

text \<open>What is left after the loop and what it gave, as a function of the whole list.\<close>

lemma encode_windows_all:
  assumes "0 < hop" and "hop \<le> frame_length"
  shows "encode_windows feat frame_length hop samples start =
    (let n = window_count frame_length hop (length samples)
     in (map (\<lambda>i. \<lparr>ff_start_sample = start + i * hop, ff_values = feat (take frame_length (drop (i * hop) samples))\<rparr>) [0..<n],
         drop (n * hop) samples, start + n * hop))"
  using assms
proof (induction feat frame_length hop samples start rule: encode_windows.induct)
  case (1 feat frame_length hop samples start)
  show ?case
  proof (cases "length samples < frame_length")
    case True
    then show ?thesis by (subst encode_windows.simps) (simp add: window_count_def)
  next
    case False
    let ?n = "window_count frame_length hop (length samples - hop)"
    have n: "window_count frame_length hop (length samples) = Suc ?n" using window_count_step False "1.prems" by simp
    have IH: "encode_windows feat frame_length hop (drop hop samples) (start + hop)
        = (map (\<lambda>i. \<lparr>ff_start_sample = start + hop + i * hop, ff_values = feat (take frame_length (drop (i * hop) (drop hop samples)))\<rparr>) [0..<?n],
           drop (?n * hop) (drop hop samples), start + hop + ?n * hop)"
      using "1.IH" "1.prems" False by (simp add: Let_def)
    have "encode_windows feat frame_length hop samples start =
        (\<lparr>ff_start_sample = start, ff_values = feat (take frame_length samples)\<rparr>
           # map (\<lambda>i. \<lparr>ff_start_sample = start + hop + i * hop, ff_values = feat (take frame_length (drop (i * hop) (drop hop samples)))\<rparr>) [0..<?n],
         drop (?n * hop) (drop hop samples), start + hop + ?n * hop)"
      using False "1.prems" by (subst encode_windows.simps) (simp add: IH)
    also have "\<dots> = (map (\<lambda>i. \<lparr>ff_start_sample = start + i * hop, ff_values = feat (take frame_length (drop (i * hop) samples))\<rparr>) [0..<Suc ?n],
         drop (Suc ?n * hop) samples, start + Suc ?n * hop)"
      unfolding upt_conv_Cons [OF zero_less_Suc] map_Suc_upt [symmetric] by (simp add: add.commute add.left_commute)
    finally show ?thesis by (simp only: n Let_def)
  qed
qed

lemma window_count_used:
  assumes "0 < hop" and "hop \<le> frame_length" and "n = window_count frame_length hop m"
  shows "n * hop \<le> m" "m - n * hop < frame_length" "\<And>i. i < n \<Longrightarrow> i * hop + frame_length \<le> m"
proof -
  have "n * hop \<le> m \<and> m - n * hop < frame_length \<and> (\<forall>i < n. i * hop + frame_length \<le> m)"
  proof (cases "m < frame_length")
    case False
    let ?q = "(m - frame_length) div hop"
    have q: "n = ?q + 1" using False assms(3) by (simp add: window_count_def)
    have lo: "?q * hop \<le> m - frame_length" by simp
    have hi: "m - frame_length < ?q * hop + hop" using assms(1) by (metis dividend_less_div_times add.commute)
    have "i * hop + frame_length \<le> m" if "i < n" for i
    proof -
      have "i * hop \<le> ?q * hop" using that q by (intro mult_le_mono1) simp
      then show ?thesis using lo False by linarith
    qed
    moreover have "n * hop = ?q * hop + hop" by (simp add: q)
    ultimately have "n * hop \<le> m" "m - n * hop < frame_length" "\<forall>i < n. i * hop + frame_length \<le> m"
      using lo hi False assms(2) by (linarith, linarith, blast)
    then show ?thesis by blast
  qed (use assms in \<open>simp add: window_count_def\<close>)
  then show "n * hop \<le> m" "m - n * hop < frame_length" "\<And>i. i < n \<Longrightarrow> i * hop + frame_length \<le> m" by blast+
qed


lemma window_count_skip:
  assumes "0 < hop" and "hop \<le> frame_length"
  shows "n \<le> window_count frame_length hop m \<Longrightarrow> window_count frame_length hop m = n + window_count frame_length hop (m - n * hop)"
proof (induction n arbitrary: m)
  case (Suc n)
  have "frame_length \<le> m" using Suc.prems by (cases "m < frame_length") (simp_all add: window_count_def)
  then have step: "window_count frame_length hop m = Suc (window_count frame_length hop (m - hop))"
    by (rule window_count_step [OF assms])
  have "window_count frame_length hop (m - hop) = n + window_count frame_length hop (m - hop - n * hop)"
    by (rule Suc.IH) (use Suc.prems step in simp)
  then have "window_count frame_length hop m = Suc n + window_count frame_length hop (m - hop - n * hop)" using step by simp
  then show ?case by simp
qed simp

lemma window_count_mono: "m \<le> m' \<Longrightarrow> window_count frame_length hop m \<le> window_count frame_length hop m'"
  by (auto simp: window_count_def div_le_mono)

text \<open>The state after a prefix of the signal.\<close>

definition encoder_at :: "rat list \<Rightarrow> band_encoder \<Rightarrow> bool" where
  "encoder_at signal e \<longleftrightarrow> 0 < be_hop_length e \<and> be_hop_length e \<le> be_frame_length e
     \<and> (let n = window_count (be_frame_length e) (be_hop_length e) (length signal)
        in be_samples e = drop (n * be_hop_length e) signal \<and> be_start_sample e = n * be_hop_length e)"

definition encoder_features :: "(rat list \<Rightarrow> rat) \<Rightarrow> (rat \<Rightarrow> rat) \<Rightarrow> rat list \<Rightarrow> band_encoder \<Rightarrow> feature_frame list" where
  "encoder_features fsum flog signal e =
     all_windows (window_values fsum flog (be_frame_length e) (be_bands e)) (be_frame_length e) (be_hop_length e) signal"

lemma process_extends:
  assumes "encoder_at signal e" and "process_samples fsum flog chunk e = (Inr frames, e')"
  shows "encoder_at (signal @ map fin_val chunk) e'"
    "encoder_features fsum flog (signal @ map fin_val chunk) e = encoder_features fsum flog signal e @ frames"
    "be_frame_length e' = be_frame_length e" "be_hop_length e' = be_hop_length e" "be_bands e' = be_bands e"
proof -
  define L hop where "L = be_frame_length e" and "hop = be_hop_length e"
  define n where "n = window_count L hop (length signal)"
  define whole where "whole = signal @ map fin_val chunk"
  define k where "k = window_count L hop (length whole - n * hop)"
  let ?feat = "window_values fsum flog L (be_bands e)"
  have hop: "0 < hop" "hop \<le> L" and st: "be_samples e = drop (n * hop) signal" "be_start_sample e = n * hop"
    using assms(1) by (simp_all add: encoder_at_def Let_def L_def hop_def n_def)
  have used: "n * hop \<le> length signal" "\<And>i. i < n \<Longrightarrow> i * hop + L \<le> length signal"
    using window_count_used [OF hop n_def] by blast+
  then have tail: "be_samples e @ map fin_val chunk = drop (n * hop) whole" by (simp add: st whole_def)
  have total: "window_count L hop (length whole) = n + k"
    unfolding k_def by (rule window_count_skip [OF hop]) (auto simp: n_def whole_def intro: window_count_mono)
  have r: "frames = map (\<lambda>i. \<lparr>ff_start_sample = n * hop + i * hop, ff_values = ?feat (take L (drop (i * hop) (drop (n * hop) whole)))\<rparr>) [0..<k]"
    "e' = e\<lparr>be_samples := drop (k * hop) (drop (n * hop) whole), be_start_sample := n * hop + k * hop\<rparr>"
  proof -
    have "(Inr frames, e') = (case encode_windows ?feat L hop (be_samples e @ map fin_val chunk) (be_start_sample e) of
        (fs, rest, start) \<Rightarrow> (Inr fs :: feature_frame list result, e\<lparr>be_samples := rest, be_start_sample := start\<rparr>))"
      using assms(2) unfolding process_samples_def L_def hop_def by (simp split: if_splits)
    then have "frames = map (\<lambda>i. \<lparr>ff_start_sample = n * hop + i * hop, ff_values = ?feat (take L (drop (i * hop) (drop (n * hop) whole)))\<rparr>) [0..<k]
        \<and> e' = e\<lparr>be_samples := drop (k * hop) (drop (n * hop) whole), be_start_sample := n * hop + k * hop\<rparr>"
      unfolding tail st(2) encode_windows_all [OF hop] Let_def length_drop k_def [symmetric] by simp
    then show "frames = map (\<lambda>i. \<lparr>ff_start_sample = n * hop + i * hop, ff_values = ?feat (take L (drop (i * hop) (drop (n * hop) whole)))\<rparr>) [0..<k]"
      "e' = e\<lparr>be_samples := drop (k * hop) (drop (n * hop) whole), be_start_sample := n * hop + k * hop\<rparr>" by blast+
  qed
  show "be_frame_length e' = be_frame_length e" "be_hop_length e' = be_hop_length e" "be_bands e' = be_bands e"
    by (simp_all add: r(2))
  show "encoder_at (signal @ map fin_val chunk) e'"
    using hop total by (simp add: encoder_at_def Let_def r(2) L_def [symmetric] hop_def [symmetric] whole_def [symmetric] algebra_simps)
  have "encoder_features fsum flog whole e = map (\<lambda>i. \<lparr>ff_start_sample = i * hop, ff_values = ?feat (take L (drop (i * hop) whole))\<rparr>) [0..<n + k]"
    by (simp add: encoder_features_def all_windows_def total L_def [symmetric] hop_def [symmetric])
  also have "[0..<n + k] = [0..<n] @ map (\<lambda>i. n + i) [0..<k]" by (rule nth_equalityI) (auto simp: nth_append)
  also have "map (\<lambda>i. \<lparr>ff_start_sample = i * hop, ff_values = ?feat (take L (drop (i * hop) whole))\<rparr>) ([0..<n] @ map (\<lambda>i. n + i) [0..<k])
      = encoder_features fsum flog signal e @ frames"
  proof -
    have "take L (drop (i * hop) whole) = take L (drop (i * hop) signal)" if "i < n" for i
      using used(2) [OF that] by (simp add: whole_def)
    then show ?thesis
      by (simp add: encoder_features_def all_windows_def n_def [symmetric] L_def [symmetric] hop_def [symmetric] r(1) algebra_simps)
  qed
  finally show "encoder_features fsum flog (signal @ map fin_val chunk) e = encoder_features fsum flog signal e @ frames"
    by (simp add: whole_def)
qed

fun process_chunks :: "(rat list \<Rightarrow> rat) \<Rightarrow> (rat \<Rightarrow> rat) \<Rightarrow> xfloat list list \<Rightarrow> (band_encoder, feature_frame list) method" where
  "process_chunks fsum flog [] e = (Inr [], e)"
| "process_chunks fsum flog (c # cs) e =
     (case process_samples fsum flog c e of
        (Inl x, e1) \<Rightarrow> (Inl x, e1)
      | (Inr frames, e1) \<Rightarrow> (case process_chunks fsum flog cs e1 of (r, e2) \<Rightarrow> (map_sum id (\<lambda>fs. frames @ fs) r, e2)))"

lemma process_chunks_extend:
  assumes "encoder_at signal e" and "process_chunks fsum flog chunks e = (Inr frames, e')"
  shows "encoder_at (signal @ map fin_val (concat chunks)) e'
    \<and> encoder_features fsum flog (signal @ map fin_val (concat chunks)) e = encoder_features fsum flog signal e @ frames
    \<and> be_frame_length e' = be_frame_length e"
  using assms
proof (induction chunks arbitrary: signal e frames)
  case (Cons c cs)
  obtain first e1 where p1: "process_samples fsum flog c e = (Inr first, e1)"
    using Cons.prems(2) by (auto split: prod.splits sum.splits)
  obtain q e2 where q: "process_chunks fsum flog cs e1 = (q, e2)" by (rule prod.exhaust)
  obtain rest where p: "process_samples fsum flog c e = (Inr first, e1)" "process_chunks fsum flog cs e1 = (Inr rest, e')"
    "frames = first @ rest"
    using Cons.prems(2) p1 q by (cases q) auto
  note step = process_extends [OF Cons.prems(1) p(1)]
  have same: "encoder_features fsum flog X e1 = encoder_features fsum flog X e" for X
    by (simp add: encoder_features_def step(3-5))
  from Cons.IH [OF step(1) p(2)] show ?case using step(2,3) by (simp add: same p(3))
qed simp

definition chunk_ok :: "xfloat list \<Rightarrow> bool" where
  "chunk_ok samples \<longleftrightarrow> length samples \<le> 4000000 \<and> (\<forall>v\<in>set samples. isfinite v)"

lemma process_chunks_succeeds:
  "(\<exists>frames e'. process_chunks fsum flog chunks e = (Inr frames, e')) \<longleftrightarrow> (\<forall>c\<in>set chunks. chunk_ok c)"
proof (induction chunks arbitrary: e)
  case (Cons c cs)
  obtain r e1 where p: "process_samples fsum flog c e = (r, e1)" by force
  obtain q e2 where q: "process_chunks fsum flog cs e1 = (q, e2)" by force
  have "chunk_ok c \<longleftrightarrow> (\<exists>frames. r = Inr frames)"
    using p by (auto simp: process_samples_def chunk_ok_def list_ex_iff not_less split: if_splits prod.splits)
  moreover have "(\<forall>c\<in>set cs. chunk_ok c) \<longleftrightarrow> (\<exists>frames. q = Inr frames)" using Cons.IH [of e1] q by auto
  ultimately show ?case using p q by (cases r; cases q) auto
qed simp

text \<open>C40: the streamed features do not depend on how the audio is cut into chunks.  Chunks of at most four million finite
  samples each are accepted, and the frames they give together are those of all windows of the whole signal computed at
  once: one for each hop that leaves room for a full window, each at its own start sample; fewer samples than a window are
  retained.  If a chunk is larger or has an infinite or undefined sample, an exception is raised.\<close>
theorem features_independent_of_chunks:
  assumes "new_band_encoder frame_length hop_length bands = Inr e"
  shows "if \<forall>c\<in>set chunks. length c \<le> 4000000 \<and> (\<forall>v\<in>set c. isfinite v)
    then \<exists>e'. process_chunks fsum flog chunks e
            = (Inr (all_windows (window_values fsum flog (nat frame_length) (nat bands)) (nat frame_length) (nat hop_length)
                 (map fin_val (concat chunks))), e')
          \<and> retained_samples e' < nat frame_length
    else \<exists>x e'. process_chunks fsum flog chunks e = (Inl x, e')"
proof (cases "\<forall>c\<in>set chunks. chunk_ok c")
  case True
  then obtain frames e' where run: "process_chunks fsum flog chunks e = (Inr frames, e')"
    using process_chunks_succeeds by blast
  have e: "be_frame_length e = nat frame_length" "be_hop_length e = nat hop_length" "be_bands e = nat bands"
    "be_samples e = []" "be_start_sample e = 0" and hop: "1 \<le> hop_length" "hop_length \<le> frame_length"
    using assms by (auto simp: new_band_encoder_def)
  have pos: "0 < nat hop_length" "nat hop_length \<le> nat frame_length" "0 < nat frame_length"
    using hop by (auto intro: nat_mono)
  have "encoder_at [] e" using pos by (simp add: encoder_at_def e window_count_def)
  note facts = process_chunks_extend [OF this run]
  have "encoder_features fsum flog [] e = []" using pos by (simp add: encoder_features_def all_windows_def window_count_def e)
  moreover have "length (be_samples e') < be_frame_length e'"
    using facts window_count_used(2) [OF _ _ refl] by (auto simp: encoder_at_def Let_def)
  ultimately have "frames = all_windows (window_values fsum flog (nat frame_length) (nat bands)) (nat frame_length) (nat hop_length)
      (map fin_val (concat chunks))" "retained_samples e' < nat frame_length"
    using facts by (simp_all add: encoder_features_def e retained_samples_def)
  then show ?thesis using True run unfolding chunk_ok_def by simp
next
  case False
  then have "\<nexists>frames e'. process_chunks fsum flog chunks e = (Inr frames, e')" using process_chunks_succeeds by blast
  then have "\<exists>x e'. process_chunks fsum flog chunks e = (Inl x, e')"
    by (cases "process_chunks fsum flog chunks e"; cases "fst (process_chunks fsum flog chunks e)") auto
  then show ?thesis using False unfolding chunk_ok_def by (subst if_not_P) blast+
qed

theorem features_independent_of_chunks_witness:
  "\<exists>e'. process_chunks sum_list id [[Fin 1], [], [Fin 2, Fin 3]]
        \<lparr>be_frame_length = 2, be_hop_length = 1, be_bands = 1, be_samples = [], be_start_sample = 0\<rparr>
      = (Inr (all_windows (window_values sum_list id 2 1) 2 1 [1, 2, 3]), e') \<and> retained_samples e' < 2"
proof -
  have "new_band_encoder 2 1 1
      = Inr \<lparr>be_frame_length = 2, be_hop_length = 1, be_bands = 1, be_samples = [], be_start_sample = 0\<rparr>"
    by (simp add: new_band_encoder_def)
  from features_independent_of_chunks [OF this, of "[[Fin 1], [], [Fin 2, Fin 3]]" sum_list id] show ?thesis by simp
qed

end
