(* ===== verification/GenerationAdmission.thy ===== *)
theory GenerationAdmission
  imports Prelude
begin

text \<open>
  \<open>vllm_apple/generation_admission.py\<close>: admission to the single generation worker.  \<open>admit\<close> is a context
  manager that many threads run at once; it is modelled as the atomic steps that its locks make of it, with the place of
  each thread in the code as its phase.  Whether a request was cancelled, whether its deadline has passed, and which
  exception ends it are inputs of the steps.  A ticket is a fresh object, numbered here.
\<close>

record admission_metrics =
  gm_inflight :: int
  gm_active :: int
  gm_started :: int
  gm_cancelled :: int
  gm_timed_out :: int
  gm_rejected :: int
  gm_preparation_failed :: int
  gm_active_disconnects :: int

record admission =
  ga_permits :: int
  ga_ready :: "nat list"
  ga_busy :: bool
  ga_next_ticket :: nat
  ga_metrics :: admission_metrics

definition new_admission :: "int \<Rightarrow> xfloat \<Rightarrow> admission result" where
  "new_admission maximum_waiters timeout =
     (if \<not> (0 \<le> maximum_waiters \<and> maximum_waiters \<le> 128) then Inl (ValueError ''maximum waiters must be between 0 and 128'')
      else if \<not> isfinite timeout \<or> x_le timeout 0 \<or> \<not> x_le timeout 300
      then Inl (ValueError ''queue timeout must be finite and between 0 and 300 seconds'')
      else Inr \<lparr>ga_permits = maximum_waiters + 1, ga_ready = [], ga_busy = False,
                ga_next_ticket = 0,
                ga_metrics = \<lparr>gm_inflight = 0, gm_active = 0, gm_started = 0, gm_cancelled = 0, gm_timed_out = 0,
                  gm_rejected = 0, gm_preparation_failed = 0, gm_active_disconnects = 0\<rparr>\<rparr>)"

definition admission_record :: "(admission_metrics \<Rightarrow> admission_metrics) \<Rightarrow> admission \<Rightarrow> admission" where
  "admission_record change a = a\<lparr>ga_metrics := change (ga_metrics a)\<rparr>"

section \<open>The steps of \<open>admit\<close>\<close>

definition acquire_permit :: "(admission, unit) method" where
  "acquire_permit a =
     (if ga_permits a \<le> 0
      then (Inl (OtherError ''generation_queue_full''), admission_record (\<lambda>m. m\<lparr>gm_rejected := gm_rejected m + 1\<rparr>) a)
      else (Inr (), a\<lparr>ga_permits := ga_permits a - 1\<rparr>))"

definition record_entry :: "admission \<Rightarrow> admission" where
  "record_entry = admission_record (\<lambda>m. m\<lparr>gm_inflight := gm_inflight m + 1\<rparr>)"

definition join_ready :: "admission \<Rightarrow> nat \<times> admission" where
  "join_ready a =
     (ga_next_ticket a, a\<lparr>ga_ready := ga_ready a @ [ga_next_ticket a], ga_next_ticket := Suc (ga_next_ticket a)\<rparr>)"

datatype turn = TurnCancelled | TurnTimedOut | TurnTaken | TurnWaits

text \<open>One round of the loop under the condition, with the accounting of what ended it.\<close>

definition take_turn :: "bool \<Rightarrow> bool \<Rightarrow> nat \<Rightarrow> admission \<Rightarrow> turn \<times> admission" where
  "take_turn cancelled expired ticket a =
     (if cancelled then (TurnCancelled, admission_record (\<lambda>m. m\<lparr>gm_cancelled := gm_cancelled m + 1\<rparr>) a)
      else if expired then (TurnTimedOut, admission_record (\<lambda>m. m\<lparr>gm_timed_out := gm_timed_out m + 1\<rparr>) a)
      else if \<not> ga_busy a \<and> take 1 (ga_ready a) = [ticket]
      then (TurnTaken, a\<lparr>ga_ready := tl (ga_ready a), ga_busy := True\<rparr>)
      else (TurnWaits, a))"

definition begin_generation :: "bool \<Rightarrow> (admission, unit) method" where
  "begin_generation cancelled a =
     (if cancelled
      then (Inl (OtherError ''generation_queue_cancelled''), admission_record (\<lambda>m. m\<lparr>gm_cancelled := gm_cancelled m + 1\<rparr>) a)
      else (Inr (), admission_record (\<lambda>m. m\<lparr>gm_active := gm_active m + 1, gm_started := gm_started m + 1\<rparr>) a))"

text \<open>The place of a thread in \<open>admit\<close>: inside the \<open>try\<close> block it is before its ticket, in the loop, holding
  the worker, or running; then comes the \<open>finally\<close> block with its three critical sections.  A ticket and the worker
  are what the locals \<open>ticket\<close> and \<open>acquired\<close> remember.\<close>

datatype stage = Preparing | Waiting nat | Holding | Running

datatype phase = Entered | Inside stage | Raised stage | Recorded stage | Unlocked

definition record_exit :: "stage \<Rightarrow> admission \<Rightarrow> admission" where
  "record_exit p = admission_record (\<lambda>m. m\<lparr>gm_inflight := gm_inflight m - 1,
     gm_active := gm_active m - (if p = Running then 1 else 0)\<rparr>)"

definition unlock_worker :: "stage \<Rightarrow> admission \<Rightarrow> admission" where
  "unlock_worker p a =
     (case p of
        Preparing \<Rightarrow> a
      | Waiting ticket \<Rightarrow> a\<lparr>ga_ready := remove1 ticket (ga_ready a)\<rparr>
      | Holding \<Rightarrow> a\<lparr>ga_busy := False\<rparr>
      | Running \<Rightarrow> a\<lparr>ga_busy := False\<rparr>)"

definition return_permit :: "admission \<Rightarrow> admission" where
  "return_permit a = a\<lparr>ga_permits := ga_permits a + 1\<rparr>"

text \<open>The steps of all threads.  Inside the \<open>try\<close> block a thread may be sent to the \<open>finally\<close> block at any
  time, because every call there may raise and the body ends.\<close>

type_synonym threads = "(nat, phase) dict"

inductive admission_step :: "admission \<times> threads \<Rightarrow> admission \<times> threads \<Rightarrow> bool" where
  entered: "acquire_permit a = (Inr (), a') \<Longrightarrow> i \<notin> set (keys th) \<Longrightarrow> admission_step (a, th) (a', AList.update i Entered th)"
| rejected: "acquire_permit a = (Inl e, a') \<Longrightarrow> admission_step (a, th) (a', th)"
| counted: "map_of th i = Some Entered \<Longrightarrow> admission_step (a, th) (record_entry a, AList.update i (Inside Preparing) th)"
| preparation_failed: "map_of th i = Some (Inside Preparing)
    \<Longrightarrow> admission_step (a, th) (admission_record (\<lambda>m. m\<lparr>gm_preparation_failed := gm_preparation_failed m + 1\<rparr>) a,
          AList.update i (Raised Preparing) th)"
| joined: "map_of th i = Some (Inside Preparing) \<Longrightarrow> join_ready a = (ticket, a')
    \<Longrightarrow> admission_step (a, th) (a', AList.update i (Inside (Waiting ticket)) th)"
| took: "map_of th i = Some (Inside (Waiting ticket)) \<Longrightarrow> take_turn cancelled expired ticket a = (TurnTaken, a')
    \<Longrightarrow> admission_step (a, th) (a', AList.update i (Inside Holding) th)"
| waits: "map_of th i = Some (Inside (Waiting ticket)) \<Longrightarrow> take_turn cancelled expired ticket a = (TurnWaits, a')
    \<Longrightarrow> admission_step (a, th) (a', th)"
| gave_up: "map_of th i = Some (Inside (Waiting ticket)) \<Longrightarrow> take_turn cancelled expired ticket a = (t, a')
    \<Longrightarrow> t = TurnCancelled \<or> t = TurnTimedOut
    \<Longrightarrow> admission_step (a, th) (a', AList.update i (Raised (Waiting ticket)) th)"
| began: "map_of th i = Some (Inside Holding) \<Longrightarrow> begin_generation cancelled a = (Inr (), a')
    \<Longrightarrow> admission_step (a, th) (a', AList.update i (Inside Running) th)"
| cancelled_late: "map_of th i = Some (Inside Holding) \<Longrightarrow> begin_generation cancelled a = (Inl e, a')
    \<Longrightarrow> admission_step (a, th) (a', AList.update i (Raised Holding) th)"
| disconnected: "map_of th i = Some (Inside Running)
    \<Longrightarrow> admission_step (a, th) (admission_record (\<lambda>m. m\<lparr>gm_active_disconnects := gm_active_disconnects m + 1\<rparr>) a,
          AList.update i (Raised Running) th)"
| ended: "map_of th i = Some (Inside p) \<Longrightarrow> admission_step (a, th) (a, AList.update i (Raised p) th)"
| recorded: "map_of th i = Some (Raised p) \<Longrightarrow> admission_step (a, th) (record_exit p a, AList.update i (Recorded p) th)"
| unlocked: "map_of th i = Some (Recorded p) \<Longrightarrow> admission_step (a, th) (unlock_worker p a, AList.update i Unlocked th)"
| left: "map_of th i = Some Unlocked \<Longrightarrow> admission_step (a, th) (return_permit a, AList.delete i th)"

inductive admission_reachable :: "int \<Rightarrow> admission \<times> threads \<Rightarrow> bool" for maximum_waiters where
  created: "new_admission maximum_waiters timeout = Inr a \<Longrightarrow> admission_reachable maximum_waiters (a, [])"
| stepped: "admission_reachable maximum_waiters s \<Longrightarrow> admission_step s s' \<Longrightarrow> admission_reachable maximum_waiters s'"

section \<open>The invariant\<close>

fun phase_stage :: "phase \<Rightarrow> stage option" where
  "phase_stage (Inside p) = Some p"
| "phase_stage (Raised p) = Some p"
| "phase_stage (Recorded p) = Some p"
| "phase_stage _ = None"

definition waits_with :: "nat \<Rightarrow> phase \<Rightarrow> int" where
  "waits_with ticket p = (if phase_stage p = Some (Waiting ticket) then 1 else 0)"

definition owns_worker :: "phase \<Rightarrow> int" where
  "owns_worker p = (if phase_stage p \<in> {Some Holding, Some Running} then 1 else 0)"

fun counts_inflight :: "phase \<Rightarrow> int" where
  "counts_inflight (Inside p) = 1"
| "counts_inflight (Raised p) = 1"
| "counts_inflight _ = 0"

definition counts_active :: "phase \<Rightarrow> int" where
  "counts_active p = (if p \<in> {Inside Running, Raised Running} then 1 else 0)"

definition admission_ok :: "int \<Rightarrow> admission \<times> threads \<Rightarrow> bool" where
  "admission_ok maximum_waiters s \<longleftrightarrow> (case s of (a, th) \<Rightarrow>
     dict_ok th \<and> ga_permits a + int (length th) = maximum_waiters + 1
     \<and> 0 \<le> ga_permits a \<and> sorted_wrt (<) (ga_ready a) \<and> (\<forall>t\<in>set (ga_ready a). t < ga_next_ticket a)
     \<and> (\<forall>t. asum (waits_with t) th = of_bool (t \<in> set (ga_ready a)))
     \<and> asum owns_worker th = of_bool (ga_busy a)
     \<and> gm_inflight (ga_metrics a) = asum counts_inflight th \<and> gm_active (ga_metrics a) = asum counts_active th)"

lemma admission_okI:
  assumes "dict_ok th" and "ga_permits a + int (length th) = n + 1" and "0 \<le> ga_permits a"
    and "sorted_wrt (<) (ga_ready a)" and "\<And>t. t \<in> set (ga_ready a) \<Longrightarrow> t < ga_next_ticket a"
    and "\<And>t. asum (waits_with t) th = of_bool (t \<in> set (ga_ready a))"
    and "asum owns_worker th = of_bool (ga_busy a)"
    and "gm_inflight (ga_metrics a) = asum counts_inflight th" and "gm_active (ga_metrics a) = asum counts_active th"
  shows "admission_ok n (a, th)"
  using assms unfolding admission_ok_def by auto

lemmas admission_defs = admission_record_def acquire_permit_def record_entry_def join_ready_def take_turn_def
  begin_generation_def record_exit_def unlock_worker_def return_permit_def

lemmas phase_defs = waits_with_def owns_worker_def counts_active_def

lemma new_admission_ok: "new_admission n timeout = Inr a \<Longrightarrow> admission_ok n (a, [])"
  by (auto simp: new_admission_def admission_ok_def split: if_splits)

text \<open>A thread moves from one phase to another; what it holds moves with it.\<close>

lemma move_ok:
  assumes ok: "admission_ok n (a, th)" and thread: "map_of th i = Some p"
    and "ga_permits a' = ga_permits a" and "sorted_wrt (<) (ga_ready a')"
    and "\<And>t. t \<in> set (ga_ready a') \<Longrightarrow> t < ga_next_ticket a'"
    and "\<And>t. of_bool (t \<in> set (ga_ready a')) = of_bool (t \<in> set (ga_ready a)) - waits_with t p + waits_with t q"
    and "of_bool (ga_busy a') = of_bool (ga_busy a) - owns_worker p + owns_worker q"
    and "gm_inflight (ga_metrics a') = gm_inflight (ga_metrics a) - counts_inflight p + counts_inflight q"
    and "gm_active (ga_metrics a') = gm_active (ga_metrics a) - counts_active p + counts_active q"
  shows "admission_ok n (a', AList.update i q th)"
proof -
  have dict: "dict_ok th" and key: "i \<in> set (keys th)"
    using ok thread by (auto simp: admission_ok_def dest: map_of_SomeD intro: rev_image_eqI)
  show ?thesis
    by (rule admission_okI)
      (use assms dict key in \<open>auto simp: admission_ok_def dict_ok_update length_update_existing asum_update_existing [OF dict thread]\<close>)
qed

lemma holds_its_share:
  assumes ok: "admission_ok n (a, th)" and thread: "map_of th i = Some p"
  shows "phase_stage p = Some (Waiting t) \<Longrightarrow> t \<in> set (ga_ready a)"
    and "phase_stage p = Some Holding \<or> phase_stage p = Some Running \<Longrightarrow> ga_busy a"
proof -
  have share: "f p \<le> asum f th" if "\<And>q. 0 \<le> f q" for f :: "phase \<Rightarrow> int"
    by (rule asum_member_le [OF that map_of_SomeD [OF thread]])
  have "waits_with t p \<le> of_bool (t \<in> set (ga_ready a))" and "owns_worker p \<le> of_bool (ga_busy a)"
    using share [of "waits_with t"] share [of owns_worker] ok by (auto simp: admission_ok_def phase_defs)
  then show "phase_stage p = Some (Waiting t) \<Longrightarrow> t \<in> set (ga_ready a)"
    and "phase_stage p = Some Holding \<or> phase_stage p = Some Running \<Longrightarrow> ga_busy a"
    by (cases "t \<in> set (ga_ready a)"; cases "ga_busy a"; auto simp: phase_defs)+
qed

lemma sorted_wrt_parts:
  fixes xs :: "nat list"
  assumes "sorted_wrt (<) xs"
  shows "sorted_wrt (<) (remove1 t xs)" and "set (remove1 t xs) = set xs - {t}"
    and "take 1 xs = [t] \<Longrightarrow> tl xs = remove1 t xs"
proof -
  have "distinct xs"
    using assms strict_sorted_iff by blast
  then show "set (remove1 t xs) = set xs - {t}"
    by simp
  show "sorted_wrt (<) (remove1 t xs)"
    using assms by (simp add: strict_sorted_iff sorted_remove1 distinct_remove1)
  show "take 1 xs = [t] \<Longrightarrow> tl xs = remove1 t xs"
    by (cases xs) auto
qed

lemma admission_okD:
  assumes "admission_ok n (a, th)"
  shows "sorted_wrt (<) (ga_ready a)" and "t \<in> set (ga_ready a) \<Longrightarrow> t < ga_next_ticket a"
  using assms by (auto simp: admission_ok_def)

lemma unlock_ok:
  assumes ok: "admission_ok n (a, th)" and thread: "map_of th i = Some (Recorded p)"
  shows "admission_ok n (unlock_worker p a, AList.update i Unlocked th)"
  by (rule move_ok [OF ok thread])
    (use holds_its_share [OF ok thread] sorted_wrt_parts [OF admission_okD(1) [OF ok]] admission_okD [OF ok]
      in \<open>auto simp: unlock_worker_def phase_defs split: stage.splits if_splits\<close>)

lemma took_ok:
  assumes ok: "admission_ok n (a, th)" and thread: "map_of th i = Some (Inside (Waiting ticket))"
    and taken: "take_turn cancelled expired ticket a = (TurnTaken, a')"
  shows "admission_ok n (a', AList.update i (Inside Holding) th)"
proof -
  have a': "a' = a\<lparr>ga_ready := remove1 ticket (ga_ready a), ga_busy := True\<rparr>" and idle: "\<not> ga_busy a"
    using taken sorted_wrt_parts(3) [OF admission_okD(1) [OF ok]]
    by (auto simp: take_turn_def simp del: One_nat_def split: if_splits)
  show ?thesis
    by (rule move_ok [OF ok thread])
      (use holds_its_share [OF ok thread] sorted_wrt_parts [OF admission_okD(1) [OF ok]] admission_okD [OF ok] a' idle
        in \<open>auto simp: phase_defs split: if_splits\<close>)
qed

lemma joined_ok:
  assumes ok: "admission_ok n (a, th)" and thread: "map_of th i = Some (Inside Preparing)"
    and joined: "join_ready a = (ticket, a')"
  shows "admission_ok n (a', AList.update i (Inside (Waiting ticket)) th)"
  by (rule move_ok [OF ok thread])
    (use admission_okD [OF ok] joined in \<open>auto simp: join_ready_def phase_defs sorted_wrt_append less_Suc_eq\<close>)

lemma admission_step_ok: "admission_step s s' \<Longrightarrow> admission_ok n s \<Longrightarrow> admission_ok n s'"
proof (induction rule: admission_step.induct)
  case (entered a a' i th)
  then show ?case
    by (auto simp: admission_ok_def admission_defs phase_defs asum_update_fresh dict_ok_update length_update_fresh split: if_splits)
next
  case (rejected a e a' th)
  then show ?case
    by (auto simp: admission_ok_def admission_defs split: if_splits)
next
  case (counted th i a)
  then show ?case
    by (rule_tac move_ok) (auto simp: admission_defs phase_defs dest: admission_okD)
next
  case (preparation_failed th i a)
  then show ?case
    by (rule_tac move_ok) (auto simp: admission_defs phase_defs dest: admission_okD)
next
  case (joined th i a ticket a')
  then show ?case by (intro joined_ok)
next
  case (took th i ticket cancelled expired a a')
  then show ?case by (intro took_ok)
next
  case (waits th i ticket cancelled expired a a')
  then show ?case by (auto simp: take_turn_def split: if_splits)
next
  case (gave_up th i ticket cancelled expired a t a')
  then show ?case
    by (intro move_ok [OF gave_up.prems gave_up.hyps(1)])
      (auto simp: admission_defs phase_defs dest: admission_okD split: if_splits)
next
  case (began th i cancelled a a')
  then show ?case
    by (intro move_ok [OF began.prems began.hyps(1)])
      (auto simp: admission_defs phase_defs dest: admission_okD split: if_splits)
next
  case (cancelled_late th i cancelled a e a')
  then show ?case
    by (intro move_ok [OF cancelled_late.prems cancelled_late.hyps(1)])
      (auto simp: admission_defs phase_defs dest: admission_okD split: if_splits)
next
  case (disconnected th i a)
  then show ?case
    by (rule_tac move_ok) (auto simp: admission_defs phase_defs dest: admission_okD)
next
  case (ended th i p a)
  then show ?case
    by (rule_tac move_ok) (auto simp: admission_defs phase_defs dest: admission_okD)
next
  case (recorded th i p a)
  then show ?case
    by (rule_tac move_ok) (auto simp: admission_defs phase_defs dest: admission_okD)
next
  case (unlocked th i p a)
  then show ?case by (intro unlock_ok)
next
  case (left th i a)
  then have dict: "dict_ok th" and key: "i \<in> set (keys th)"
    by (auto simp: admission_ok_def dest: map_of_SomeD intro: rev_image_eqI)
  show ?case
    by (rule admission_okI)
      (use left length_delete [OF dict key] dict
        in \<open>auto simp: admission_ok_def return_permit_def phase_defs dict_ok_delete asum_delete [OF dict left.hyps]\<close>)
qed

lemma admission_reachable_ok: "admission_reachable n s \<Longrightarrow> admission_ok n s"
  by (induction rule: admission_reachable.induct) (auto intro: admission_step_ok new_admission_ok)

section \<open>What the admission promises\<close>

definition owns :: "phase \<Rightarrow> bool" where
  "owns p \<longleftrightarrow> phase_stage p = Some Holding \<or> phase_stage p = Some Running"

lemma asum_two:
  fixes f :: "'v \<Rightarrow> int"
  assumes "dict_ok d" and "map_of d i = Some p" and "map_of d j = Some q" and "i \<noteq> j" and "\<And>v. 0 \<le> f v"
  shows "f p + f q \<le> asum f d"
proof -
  have "map_of (AList.delete i d) j = Some q"
    using assms by (simp add: delete_conv')
  then have "f q \<le> asum f (AList.delete i d)"
    using asum_member_le assms(5) map_of_SomeD by metis
  with asum_delete [OF assms(1,2), of f] show ?thesis by simp
qed

lemma one_owner:
  assumes "admission_ok n (a, th)" and "map_of th i = Some p" and "map_of th j = Some q" and "owns p" and "owns q"
  shows "i = j"
proof (rule ccontr)
  assume "i \<noteq> j"
  then have "owns_worker p + owns_worker q \<le> asum owns_worker th"
    using assms by (intro asum_two) (auto simp: admission_ok_def owns_worker_def)
  with assms show False
    by (auto simp: admission_ok_def owns_def owns_worker_def of_bool_def split: if_splits)
qed

lemma asum_pos_member:
  fixes f :: "'v \<Rightarrow> int"
  assumes "asum f d \<noteq> 0"
  obtains i v where "(i, v) \<in> set d" and "f v \<noteq> 0"
proof -
  have "\<exists>(i, v)\<in>set d. f v \<noteq> 0"
    using assms by (induction d) force+
  with that show thesis by blast
qed

lemma ready_ticket_has_thread:
  assumes ok: "admission_ok n (a, th)" and ready: "t \<in> set (ga_ready a)"
  obtains i p where "map_of th i = Some p" and "phase_stage p = Some (Waiting t)"
proof -
  have "asum (waits_with t) th \<noteq> 0" and "dict_ok th"
    using assms by (auto simp: admission_ok_def)
  then obtain i p where "(i, p) \<in> set th" and "waits_with t p \<noteq> 0"
    using asum_pos_member by blast
  with \<open>dict_ok th\<close> that show thesis
    by (auto simp: waits_with_def map_of_eq_dict split: if_splits)
qed

lemma taken_by_the_first:
  assumes ok: "admission_ok n (a, th)" and taken: "take_turn cancelled expired ticket a = (TurnTaken, a')"
    and thread: "map_of th i = Some p"
  shows "\<not> owns p" and "phase_stage p = Some (Waiting t) \<Longrightarrow> ticket \<le> t"
proof -
  have idle: "\<not> ga_busy a" and first: "take 1 (ga_ready a) = [ticket]"
    using taken by (auto simp: take_turn_def simp del: One_nat_def split: if_splits)
  then have "ticket \<le> t" if "t \<in> set (ga_ready a)" for t
    using that admission_okD(1) [OF ok] by (cases "ga_ready a") auto
  with idle show "\<not> owns p" and "phase_stage p = Some (Waiting t) \<Longrightarrow> ticket \<le> t"
    using holds_its_share [OF ok thread] by (auto simp: owns_def)
qed

lemma turn_is_free:
  assumes ok: "admission_ok n (a, th)" and free: "\<forall>(i, p)\<in>set th. \<not> owns p" and ready: "ga_ready a \<noteq> []"
  shows "\<exists>i p. map_of th i = Some p \<and> phase_stage p = Some (Waiting (hd (ga_ready a)))
    \<and> fst (take_turn False False (hd (ga_ready a)) a) = TurnTaken"
proof -
  have "\<not> ga_busy a"
  proof
    assume "ga_busy a"
    then have "asum owns_worker th \<noteq> 0"
      using ok by (auto simp: admission_ok_def)
    then obtain i p where "(i, p) \<in> set th" and "owns_worker p \<noteq> 0"
      using asum_pos_member by blast
    with free show False
      by (auto simp: owns_def owns_worker_def split: if_splits)
  qed
  with ready have "fst (take_turn False False (hd (ga_ready a)) a) = TurnTaken"
    by (cases "ga_ready a") (auto simp: take_turn_def)
  with ready_ticket_has_thread [OF ok, of "hd (ga_ready a)"] ready show ?thesis
    by (metis hd_in_set)
qed

text \<open>C19: However the threads interleave and whatever raises in them, at most \<open>maximum_waiters + 1\<close> threads are inside,
  at most one owns the worker, the one that takes it has the earliest ticket of all that still wait and nobody owns it
  then; when no one owns the worker and tickets are ready, the thread of the first one is leaving or takes its turn at
  its next look; and when the last thread has left, the permits, the queue, the worker and the gauges are as at the
  start.\<close>

theorem worker_is_exclusive_and_fair:
  assumes "admission_reachable n (a, th)"
  shows "int (length th) \<le> n + 1
    \<and> (\<forall>i j p q. map_of th i = Some p \<and> map_of th j = Some q \<and> owns p \<and> owns q \<longrightarrow> i = j)
    \<and> (\<forall>cancelled expired ticket a' i p. take_turn cancelled expired ticket a = (TurnTaken, a') \<and> map_of th i = Some p
         \<longrightarrow> \<not> owns p \<and> (\<forall>t. phase_stage p = Some (Waiting t) \<longrightarrow> ticket \<le> t))
    \<and> ((\<forall>(i, p)\<in>set th. \<not> owns p) \<and> ga_ready a \<noteq> [] \<longrightarrow>
         (\<exists>i p. map_of th i = Some p \<and> phase_stage p = Some (Waiting (hd (ga_ready a)))
           \<and> fst (take_turn False False (hd (ga_ready a)) a) = TurnTaken))
    \<and> (th = [] \<longrightarrow> ga_permits a = n + 1 \<and> ga_ready a = [] \<and> \<not> ga_busy a
         \<and> gm_inflight (ga_metrics a) = 0 \<and> gm_active (ga_metrics a) = 0)"
proof (intro conjI allI impI; (elim conjE)?)
  note ok = admission_reachable_ok [OF assms]
  show "int (length th) \<le> n + 1"
    using ok by (auto simp: admission_ok_def)
  show "i = j" if "map_of th i = Some p" "map_of th j = Some q" "owns p" "owns q" for i j p q
    using that by (rule one_owner [OF ok])
  show "\<not> owns p" if "take_turn cancelled expired ticket a = (TurnTaken, a')" "map_of th i = Some p"
    for cancelled expired ticket a' i p
    using that by (rule taken_by_the_first [OF ok])
  show "ticket \<le> t" if "take_turn cancelled expired ticket a = (TurnTaken, a')" "map_of th i = Some p"
    "phase_stage p = Some (Waiting t)" for cancelled expired ticket a' i p t
    using that by (rule taken_by_the_first [OF ok])
  show "\<exists>i p. map_of th i = Some p \<and> phase_stage p = Some (Waiting (hd (ga_ready a)))
      \<and> fst (take_turn False False (hd (ga_ready a)) a) = TurnTaken"
    if "\<forall>(i, p)\<in>set th. \<not> owns p" "ga_ready a \<noteq> []"
    using that by (rule turn_is_free [OF ok])
qed (use admission_reachable_ok [OF assms] in \<open>auto simp: admission_ok_def\<close>)

text \<open>Two threads: the second waits while the first runs.\<close>

lemma worker_is_exclusive_and_fair_witness:
  "\<exists>a th. admission_reachable 1 (a, th) \<and> map_of th 7 = Some (Inside Running) \<and> map_of th 8 = Some (Inside (Waiting 1))
     \<and> int (length th) \<le> 1 + 1"
proof -
  define m where "m = \<lparr>gm_inflight = 0, gm_active = 0, gm_started = 0, gm_cancelled = 0, gm_timed_out = 0,
    gm_rejected = 0, gm_preparation_failed = 0, gm_active_disconnects = 0\<rparr>"
  define a0 where "a0 = \<lparr>ga_permits = 2, ga_ready = [], ga_busy = False, ga_next_ticket = 0, ga_metrics = m\<rparr>"
  note steps = admission_step.intros
  note go = admission_reachable.stepped
  have "admission_reachable 1 (a0, [])"
    by (rule admission_reachable.created [of _ "Fin 30"]) (simp add: new_admission_def a0_def m_def)
  from go [OF this steps(1) [of _ "snd (acquire_permit a0)" 7]]
  have "admission_reachable 1 (a0\<lparr>ga_permits := 1\<rparr>, [(7, Entered)])"
    by (simp add: acquire_permit_def a0_def)
  from go [OF this steps(3) [of _ 7]]
  have "admission_reachable 1 (a0\<lparr>ga_permits := 1, ga_metrics := m\<lparr>gm_inflight := 1\<rparr>\<rparr>, [(7, Inside Preparing)])"
    by (simp add: admission_defs a0_def m_def)
  from go [OF this steps(5) [of _ 7]]
  have "admission_reachable 1 (a0\<lparr>ga_permits := 1, ga_metrics := m\<lparr>gm_inflight := 1\<rparr>, ga_ready := [0], ga_next_ticket := 1\<rparr>,
      [(7, Inside (Waiting 0))])"
    by (simp add: admission_defs a0_def m_def)
  from go [OF this steps(6) [of _ 7 _ False False]]
  have "admission_reachable 1 (a0\<lparr>ga_permits := 1, ga_metrics := m\<lparr>gm_inflight := 1\<rparr>, ga_ready := [], ga_next_ticket := 1,
      ga_busy := True\<rparr>, [(7, Inside Holding)])"
    by (simp add: admission_defs a0_def m_def)
  from go [OF this steps(9) [of _ 7 False]]
  have "admission_reachable 1 (a0\<lparr>ga_permits := 1, ga_metrics := m\<lparr>gm_inflight := 1, gm_active := 1, gm_started := 1\<rparr>,
      ga_ready := [], ga_next_ticket := 1, ga_busy := True\<rparr>, [(7, Inside Running)])"
    by (simp add: admission_defs a0_def m_def)
  from go [OF this steps(1) [where i = 8]]
  have "admission_reachable 1 (a0\<lparr>ga_permits := 0, ga_metrics := m\<lparr>gm_inflight := 1, gm_active := 1, gm_started := 1\<rparr>,
      ga_ready := [], ga_next_ticket := 1, ga_busy := True\<rparr>, [(7, Inside Running), (8, Entered)])"
    by (simp add: admission_defs a0_def m_def)
  from go [OF this steps(3) [of _ 8]]
  have "admission_reachable 1 (a0\<lparr>ga_permits := 0, ga_metrics := m\<lparr>gm_inflight := 2, gm_active := 1, gm_started := 1\<rparr>,
      ga_ready := [], ga_next_ticket := 1, ga_busy := True\<rparr>, [(7, Inside Running), (8, Inside Preparing)])"
    by (simp add: admission_defs a0_def m_def)
  from go [OF this steps(5) [of _ 8]]
  have "admission_reachable 1 (a0\<lparr>ga_permits := 0, ga_metrics := m\<lparr>gm_inflight := 2, gm_active := 1, gm_started := 1\<rparr>,
      ga_ready := [1], ga_next_ticket := 2, ga_busy := True\<rparr>, [(7, Inside Running), (8, Inside (Waiting 1))])"
    by (simp add: admission_defs a0_def m_def numeral_2_eq_2)
  from this worker_is_exclusive_and_fair [OF this, THEN conjunct1] show ?thesis
    by (intro exI conjI) (assumption, simp_all)
qed

end
