(* ===== verification/LayerPrefetch.thy ===== *)
theory LayerPrefetch
  imports Prelude
begin

text \<open>
  \<open>vllm_apple/layer_prefetch.py\<close>: while a layer is consumed, one worker thread loads the next one.  What the
  backend, the consumer and the other threads do is the record \<open>prefetch_world\<close>: what each load yields (by the
  worker, or on demand), whether the worker has run its load before the current layer is given back, whether a load that
  is still queued can be cancelled, what consuming yields, which releases raise, and when the cancellation event is set.
  The calls that load and release are logged.  Exceptions that are not an \<open>Exception\<close> (an interrupt) are left
  out, as is a \<open>submit\<close> that fails.
\<close>

datatype 'r prefetch_event = LoadedLayer int 'r | ReleasedLayer int 'r

record ('r, 'a) prefetch_world =
  pw_load :: "int \<Rightarrow> 'r result"
  pw_load_on_demand :: "int \<Rightarrow> 'r result"
  pw_early :: "int \<Rightarrow> bool"
  pw_unstarted :: "int \<Rightarrow> bool"
  pw_consume :: "int \<Rightarrow> 'r \<Rightarrow> 'a result"
  pw_release :: "int \<Rightarrow> 'r \<Rightarrow> unit result"
  pw_cancelled :: "int \<Rightarrow> bool"
  pw_cancelled_later :: "int \<Rightarrow> bool"

datatype 'r prefetch_future = Submitted int | Finished int "'r result"

record 'a prefetch_report =
  pr_results :: "'a list"
  pr_layer_count :: int
  pr_prefetched :: int
  pr_failures :: int
  pr_fallbacks :: int
  pr_released :: int

record ('r, 'a) prefetch_run =
  px_log :: "'r prefetch_event list"
  px_results :: "'a list"
  px_prefetched :: int
  px_failures :: int
  px_fallbacks :: int
  px_released :: int

definition MAX_PREFETCH_LAYERS :: nat where
  "MAX_PREFETCH_LAYERS = 4096"

definition log_event :: "'r prefetch_event \<Rightarrow> ('r, 'a) prefetch_run \<Rightarrow> ('r, 'a) prefetch_run" where
  "log_event e x = x\<lparr>px_log := px_log x @ [e]\<rparr>"

text \<open>A load by the worker, and the result of a future, which waits for the load when it has not run yet.\<close>

definition run_load :: "('r, 'a) prefetch_world \<Rightarrow> int \<Rightarrow> (('r, 'a) prefetch_run, 'r) method" where
  "run_load w layer x =
     (case pw_load w layer of Inl e \<Rightarrow> (Inl e, x) | Inr r \<Rightarrow> (Inr r, log_event (LoadedLayer layer r) x))"

fun future_result :: "('r, 'a) prefetch_world \<Rightarrow> 'r prefetch_future \<Rightarrow> (('r, 'a) prefetch_run, 'r) method" where
  "future_result w (Submitted layer) x = run_load w layer x"
| "future_result w (Finished layer r) x = (r, x)"

definition release_resource :: "('r, 'a) prefetch_world \<Rightarrow> int \<Rightarrow> 'r \<Rightarrow> (('r, 'a) prefetch_run, unit) method" where
  "release_resource w layer r x =
     (let x1 = log_event (ReleasedLayer layer r) x
      in case pw_release w layer r of
           Inl e \<Rightarrow> (Inl e, x1)
         | Inr u \<Rightarrow> (Inr (), x1\<lparr>px_released := px_released x1 + 1\<rparr>))"

text \<open>The resource of the layer at hand: prefetched, or loaded on demand.\<close>

definition obtain_resource :: "('r, 'a) prefetch_world \<Rightarrow> int \<Rightarrow> 'r prefetch_future \<Rightarrow> (('r, 'a) prefetch_run, 'r) method" where
  "obtain_resource w layer future x =
     (case future_result w future x of
        (Inr r, x1) \<Rightarrow> (Inr r, x1\<lparr>px_prefetched := px_prefetched x1 + 1\<rparr>)
      | (Inl e, x1) \<Rightarrow>
          (let x2 = x1\<lparr>px_failures := px_failures x1 + 1\<rparr>
           in if pw_cancelled_later w layer then (Inl (RuntimeError ''layer prefetch cancelled''), x2)
              else case pw_load_on_demand w layer of
                     Inl e \<Rightarrow> (Inl e, x2)
                   | Inr r \<Rightarrow> (Inr r, (log_event (LoadedLayer layer r) x2)\<lparr>px_fallbacks := px_fallbacks x2 + 1\<rparr>)))"

text \<open>The next load is submitted; the worker may run it while the current layer is consumed.\<close>

fun submit_next :: "('r, 'a) prefetch_world \<Rightarrow> int list \<Rightarrow> ('r, 'a) prefetch_run \<Rightarrow> 'r prefetch_future option \<times> ('r, 'a) prefetch_run" where
  "submit_next w [] x = (None, x)"
| "submit_next w (layer # rest) x =
     (if pw_early w layer then case run_load w layer x of (r, x1) \<Rightarrow> (Some (Finished layer r), x1)
      else (Some (Submitted layer), x))"

definition consume_layer :: "('r, 'a) prefetch_world \<Rightarrow> int \<Rightarrow> 'r \<Rightarrow> (('r, 'a) prefetch_run, unit) method" where
  "consume_layer w layer r x =
     (case pw_consume w layer r of
        Inl e \<Rightarrow> (case release_resource w layer r x of
                     (Inl e', x1) \<Rightarrow> (Inl e', x1)
                   | (Inr u, x1) \<Rightarrow> (Inl e, x1))
      | Inr a \<Rightarrow> release_resource w layer r (x\<lparr>px_results := px_results x @ [a]\<rparr>))"

fun prefetch_layers :: "('r, 'a) prefetch_world \<Rightarrow> int list \<Rightarrow> 'r prefetch_future option
    \<Rightarrow> ('r, 'a) prefetch_run \<Rightarrow> unit result \<times> 'r prefetch_future option \<times> ('r, 'a) prefetch_run" where
  "prefetch_layers w [] future x = (Inr (), future, x)"
| "prefetch_layers w (layer # rest) future x =
     (if pw_cancelled w layer then (Inl (RuntimeError ''layer prefetch cancelled''), future, x)
      else case future of
        None \<Rightarrow> (Inl (OtherError ''AssertionError''), future, x)
      | Some f \<Rightarrow>
          (case obtain_resource w layer f x of
             (Inl e, x1) \<Rightarrow> (Inl e, Some (Finished layer (fst (future_result w f x))), x1)
           | (Inr r, x1) \<Rightarrow>
               (case submit_next w rest x1 of
                  (next_future, x2) \<Rightarrow>
                    (case consume_layer w layer r x2 of
                       (Inl e, x3) \<Rightarrow> (Inl e, next_future, x3)
                     | (Inr u, x3) \<Rightarrow> prefetch_layers w rest next_future x3))))"

text \<open>The \<open>finally\<close> block: what the worker may still have loaded is released.\<close>

fun future_layer :: "'r prefetch_future \<Rightarrow> int" where
  "future_layer (Submitted layer) = layer"
| "future_layer (Finished layer r) = layer"

fun cancel_future :: "('r, 'a) prefetch_world \<Rightarrow> 'r prefetch_future \<Rightarrow> bool" where
  "cancel_future w (Submitted layer) = pw_unstarted w layer"
| "cancel_future w (Finished layer r) = False"

definition drain_future :: "('r, 'a) prefetch_world \<Rightarrow> 'r prefetch_future option \<Rightarrow> (('r, 'a) prefetch_run, unit) method" where
  "drain_future w future x =
     (case future of
        None \<Rightarrow> (Inr (), x)
      | Some f \<Rightarrow>
          if cancel_future w f then (Inr (), x)
          else case future_result w f x of
                 (Inl e, x1) \<Rightarrow> (Inr (), x1)
               | (Inr orphan, x1) \<Rightarrow> release_resource w (future_layer f) orphan x1)"

definition new_prefetch_run :: "('r, 'a) prefetch_run" where
  "new_prefetch_run = \<lparr>px_log = [], px_results = [], px_prefetched = 0, px_failures = 0, px_fallbacks = 0, px_released = 0\<rparr>"

definition execute_prefetch :: "('r, 'a) prefetch_world \<Rightarrow> int list \<Rightarrow> 'a prefetch_report result \<times> ('r, 'a) prefetch_run" where
  "execute_prefetch w layers =
     (if layers = [] \<or> length layers > MAX_PREFETCH_LAYERS \<or> \<not> distinct layers \<or> list_ex (\<lambda>l. l < 0) layers
      then (Inl (ValueError ''invalid layer prefetch request''), new_prefetch_run)
      else case submit_next w layers new_prefetch_run of (future, x0) \<Rightarrow>
        case prefetch_layers w layers future x0 of (outcome, future', x1) \<Rightarrow>
        case drain_future w future' x1 of
          (Inl e, x2) \<Rightarrow> (Inl e, x2)
        | (Inr u, x2) \<Rightarrow>
            (case outcome of
               Inl e \<Rightarrow> (Inl e, x2)
             | Inr u \<Rightarrow> (Inr \<lparr>pr_results = px_results x2, pr_layer_count = int (length layers), pr_prefetched = px_prefetched x2,
                              pr_failures = px_failures x2, pr_fallbacks = px_fallbacks x2, pr_released = px_released x2\<rparr>, x2)))"

section \<open>The log\<close>

text \<open>The resources that are loaded after a log, when it never loads a third one and releases only what is
  loaded.\<close>

fun replay :: "(int \<times> 'r) list \<Rightarrow> 'r prefetch_event list \<Rightarrow> (int \<times> 'r) list option" where
  "replay held [] = Some held"
| "replay held (LoadedLayer layer r # es) = (if length held < 2 then replay (held @ [(layer, r)]) es else None)"
| "replay held (ReleasedLayer layer r # es) =
     (if (layer, r) \<in> set held then replay (remove1 (layer, r) held) es else None)"

lemma replay_append: "replay held (es @ fs) = (case replay held es of None \<Rightarrow> None | Some h \<Rightarrow> replay h fs)"
  by (induction held es rule: replay.induct) auto

definition holds :: "('r, 'a) prefetch_run \<Rightarrow> (int \<times> 'r) list \<Rightarrow> bool" where
  "holds x held \<longleftrightarrow> replay [] (px_log x) = Some held"

fun future_holds :: "'r prefetch_future option \<Rightarrow> (int \<times> 'r) list" where
  "future_holds (Some (Finished layer (Inr r))) = [(layer, r)]"
| "future_holds _ = []"

lemma holds_simps [simp]:
  "holds (x\<lparr>px_prefetched := a\<rparr>) h = holds x h" "holds (x\<lparr>px_failures := a\<rparr>) h = holds x h"
  "holds (x\<lparr>px_fallbacks := a\<rparr>) h = holds x h" "holds (x\<lparr>px_released := a\<rparr>) h = holds x h"
  "holds (x\<lparr>px_results := rs\<rparr>) h = holds x h"
  by (simp_all add: holds_def)

lemma holds_loaded: "holds x held \<Longrightarrow> length held < 2 \<Longrightarrow> holds (log_event (LoadedLayer layer r) x) (held @ [(layer, r)])"
  by (simp add: holds_def log_event_def replay_append)

lemma holds_released: "holds x held \<Longrightarrow> (layer, r) \<in> set held \<Longrightarrow>
    holds (log_event (ReleasedLayer layer r) x) (remove1 (layer, r) held)"
  by (simp add: holds_def log_event_def replay_append)

lemma release_holds:
  assumes "holds x held" and "(layer, r) \<in> set held"
  shows "holds (snd (release_resource w layer r x)) (remove1 (layer, r) held)"
  using holds_released [OF assms] by (auto simp: release_resource_def Let_def split: sum.split)

lemma consume_holds:
  assumes "holds x held" and "(layer, r) \<in> set held"
  shows "holds (snd (consume_layer w layer r x)) (remove1 (layer, r) held)"
proof (cases "pw_consume w layer r")
  case (Inl e)
  then show ?thesis
    using release_holds [OF assms, of w] by (auto simp: consume_layer_def split: sum.splits prod.splits)
next
  case (Inr a)
  then show ?thesis
    using release_holds [of "x\<lparr>px_results := px_results x @ [a]\<rparr>" held layer r w] assms by (simp add: consume_layer_def)
qed

lemma run_load_holds:
  assumes "holds x held" and "length held < 2" and "run_load w layer x = (r, x')"
  shows "holds x' (held @ future_holds (Some (Finished layer r)))"
proof (cases "pw_load w layer")
  case (Inl e)
  then have "r = Inl e" and "x' = x"
    using assms(3) by (auto simp: run_load_def)
  with assms(1) show ?thesis by simp
next
  case (Inr v)
  then have "r = Inr v" and "x' = log_event (LoadedLayer layer v) x"
    using assms(3) by (auto simp: run_load_def)
  with holds_loaded [OF assms(1,2)] show ?thesis by simp
qed

lemma submit_holds:
  assumes "holds x held" and "length held < 2" and "submit_next w layers x = (future, x')"
  shows "holds x' (held @ future_holds future)"
  using assms(3,1,2) by (cases layers) (auto split: if_splits prod.splits dest: run_load_holds)

lemma result_holds:
  assumes "holds x (future_holds (Some f))" and "future_result w f x = (r, x')"
  shows "holds x' (case r of Inl e \<Rightarrow> [] | Inr v \<Rightarrow> [(future_layer f, v)])"
proof (cases f)
  case (Submitted layer)
  with assms run_load_holds [of x "[]" w layer r x'] show ?thesis by (cases r) auto
next
  case (Finished layer q)
  with assms show ?thesis by (cases r) auto
qed

lemma obtain_holds:
  assumes "holds x (future_holds (Some f))" and "future_layer f = layer" and "obtain_resource w layer f x = (r, x')"
  shows "holds x' (case r of Inl e \<Rightarrow> [] | Inr v \<Rightarrow> [(layer, v)])"
    and "r = Inl e \<Longrightarrow> future_holds (Some (Finished layer (fst (future_result w f x)))) = []"
proof -
  obtain q x1 where q: "future_result w f x = (q, x1)" by force
  note held = result_holds [OF assms(1) this]
  show "holds x' (case r of Inl e \<Rightarrow> [] | Inr v \<Rightarrow> [(layer, v)])"
    using assms(2,3) held holds_loaded [of "x1\<lparr>px_failures := px_failures x1 + 1\<rparr>" "[]"]
    by (cases q) (auto simp: obtain_resource_def q Let_def split: if_splits sum.splits)
  show "r = Inl e \<Longrightarrow> future_holds (Some (Finished layer (fst (future_result w f x)))) = []"
    using assms(3) by (cases q) (auto simp: obtain_resource_def q)
qed

lemma submit_next_layer: "submit_next w (l # ls) x = (future, x') \<Longrightarrow> \<exists>f. future = Some f \<and> future_layer f = l"
  by (auto split: if_splits prod.splits)

definition future_fits :: "int list \<Rightarrow> 'r prefetch_future option \<Rightarrow> bool" where
  "future_fits layers future \<longleftrightarrow>
     (case layers of [] \<Rightarrow> future = None | l # ls \<Rightarrow> \<exists>f. future = Some f \<and> future_layer f = l)"

lemma submit_fits: "submit_next w layers x = (future, x') \<Longrightarrow> future_fits layers future"
  by (cases layers) (auto simp: future_fits_def split: if_splits prod.splits)

lemma layers_hold:
  assumes "holds x (future_holds future)" and "future_fits layers future"
    and "prefetch_layers w layers future x = (r, future', x')"
  shows "holds x' (future_holds future')"
  using assms
proof (induction w layers future x rule: prefetch_layers.induct)
  case (1 w future x)
  then show ?case by simp
next
  case (2 w layer rest future x)
  obtain f where f: "future = Some f" and layer: "future_layer f = layer"
    using "2.prems"(2) by (auto simp: future_fits_def)
  show ?case
  proof (cases "pw_cancelled w layer")
    case True
    with "2.prems" show ?thesis by simp
  next
    case False
    obtain q x1 where q: "obtain_resource w layer f x = (q, x1)" by force
    note got = obtain_holds [OF "2.prems"(1) [unfolded f] layer q]
    show ?thesis
    proof (cases q)
      case (Inl e)
      with "2.prems"(3) False f q got show ?thesis by auto
    next
      case (Inr v)
      obtain nf x2 where nf: "submit_next w rest x1 = (nf, x2)" by force
      obtain c x3 where c: "consume_layer w layer v x2 = (c, x3)" by force
      have "holds x2 ([(layer, v)] @ future_holds nf)"
        using submit_holds [of x1 "[(layer, v)]", OF _ _ nf] got(1) Inr by simp
      from consume_holds [OF this, of layer v w] c have x3: "holds x3 (future_holds nf)" by simp
      show ?thesis
      proof (cases c)
        case (Inl e)
        with "2.prems"(3) False f q Inr nf c x3 show ?thesis by simp
      next
        case c': (Inr u)
        with "2.prems"(3) False f q Inr nf c have rest: "prefetch_layers w rest nf x3 = (r, future', x')" by simp
        show ?thesis
          by (rule "2.IH" [OF False f q [symmetric] Inr nf [symmetric] c [symmetric] c' x3 submit_fits [OF nf] rest])
      qed
    qed
  qed
qed

lemma drain_holds:
  assumes "holds x (future_holds future)" and "drain_future w future x = (r, x')"
  shows "holds x' []"
proof (cases future)
  case None
  with assms show ?thesis by (simp add: drain_future_def)
next
  case (Some f)
  show ?thesis
  proof (cases "cancel_future w f")
    case True
    then have "future_holds (Some f) = []" by (cases f) auto
    with True Some assms show ?thesis by (simp add: drain_future_def)
  next
    case False
    obtain q x1 where q: "future_result w f x = (q, x1)" by force
    note held = result_holds [OF assms(1) [unfolded Some] q]
    show ?thesis
      using assms(2) Some False q held release_holds [of x1 _ "future_layer f" _ w]
      by (cases q) (auto simp: drain_future_def, metis list.set_intros(1) remove1.simps(2) snd_conv)
  qed
qed

section \<open>When it succeeds\<close>

definition layer_resource :: "('r, 'a) prefetch_world \<Rightarrow> int \<Rightarrow> 'r result" where
  "layer_resource w layer =
     (case pw_load w layer of
        Inr r \<Rightarrow> Inr r
      | Inl e \<Rightarrow> if pw_cancelled_later w layer then Inl (RuntimeError ''layer prefetch cancelled'') else pw_load_on_demand w layer)"

definition layer_result :: "('r, 'a) prefetch_world \<Rightarrow> int \<Rightarrow> 'a result" where
  "layer_result w layer =
     (if pw_cancelled w layer then Inl (RuntimeError ''layer prefetch cancelled'')
      else case layer_resource w layer of
        Inl e \<Rightarrow> Inl e
      | Inr r \<Rightarrow> (case pw_release w layer r of Inl e \<Rightarrow> Inl e | Inr u \<Rightarrow> pw_consume w layer r))"

definition load_failures :: "('r, 'a) prefetch_world \<Rightarrow> int list \<Rightarrow> int" where
  "load_failures w layers = int (length (filter (\<lambda>l. isl (pw_load w l)) layers))"

definition future_true :: "('r, 'a) prefetch_world \<Rightarrow> 'r prefetch_future option \<Rightarrow> bool" where
  "future_true w future \<longleftrightarrow> (\<forall>layer r. future = Some (Finished layer r) \<longrightarrow> r = pw_load w layer)"

definition counted :: "('r, 'a) prefetch_run \<Rightarrow> int \<times> int \<times> int \<times> int" where
  "counted x = (px_prefetched x, px_failures x, px_fallbacks x, px_released x)"

lemma submit_facts:
  assumes "submit_next w layers x = (future, x')"
  shows "future_true w future" and "counted x' = counted x" and "px_results x' = px_results x"
  using assms by (cases layers; auto simp: future_true_def run_load_def log_event_def counted_def split: if_splits sum.splits)+

lemma result_facts:
  assumes "future_true w (Some f)" and "future_result w f x = (r, x')"
  shows "r = pw_load w (future_layer f)" and "counted x' = counted x" and "px_results x' = px_results x"
  using assms by (cases f; auto simp: future_true_def run_load_def log_event_def counted_def split: sum.splits)+

lemma obtain_facts:
  assumes "future_true w (Some f)" and "future_layer f = layer" and "obtain_resource w layer f x = (r, x')"
  shows "r = layer_resource w layer"
    and "r = Inr v \<Longrightarrow> px_results x' = px_results x \<and> px_prefetched x' + px_failures x' = px_prefetched x + px_failures x + 1
      \<and> px_failures x' = px_failures x + load_failures w [layer] \<and> px_fallbacks x' = px_fallbacks x + load_failures w [layer]
      \<and> px_released x' = px_released x"
proof -
  obtain q x1 where q: "future_result w f x = (q, x1)" by force
  note facts = result_facts [OF assms(1) q, unfolded assms(2)]
  show "r = layer_resource w layer"
    using assms(3) facts by (cases q) (auto simp: obtain_resource_def q layer_resource_def Let_def split: if_splits sum.splits)
  show "r = Inr v \<Longrightarrow> px_results x' = px_results x \<and> px_prefetched x' + px_failures x' = px_prefetched x + px_failures x + 1
      \<and> px_failures x' = px_failures x + load_failures w [layer] \<and> px_fallbacks x' = px_fallbacks x + load_failures w [layer]
      \<and> px_released x' = px_released x"
    using assms(3) facts
    by (cases q) (auto simp: obtain_resource_def q load_failures_def counted_def log_event_def Let_def split: if_splits sum.splits)
qed

lemma consume_facts:
  assumes "consume_layer w layer v x = (c, x')" and "layer_resource w layer = Inr v" and "\<not> pw_cancelled w layer"
  shows "c = (case layer_result w layer of Inl e \<Rightarrow> Inl e | Inr a \<Rightarrow> Inr ())"
    and "layer_result w layer = Inr a \<Longrightarrow> px_results x' = px_results x @ [a] \<and> px_released x' = px_released x + 1
      \<and> px_prefetched x' = px_prefetched x \<and> px_failures x' = px_failures x \<and> px_fallbacks x' = px_fallbacks x"
  using assms by (auto simp: consume_layer_def release_resource_def layer_result_def log_event_def Let_def split: sum.splits)

text \<open>The whole loop against the layers one by one.\<close>

fun first_error :: "('r, 'a) prefetch_world \<Rightarrow> int list \<Rightarrow> unit result" where
  "first_error w [] = Inr ()"
| "first_error w (layer # rest) = (case layer_result w layer of Inl e \<Rightarrow> Inl e | Inr a \<Rightarrow> first_error w rest)"

lemma first_error_isl: "first_error w layers = Inl e \<Longrightarrow> \<exists>l\<in>set layers. isl (layer_result w l)"
  by (induction layers) (auto split: sum.splits intro: isl_def [THEN iffD2])

lemma layers_facts:
  assumes "prefetch_layers w layers future x = (r, future', x')" and "future_fits layers future" and "future_true w future"
  shows "r = first_error w layers \<and> (r = Inr () \<longrightarrow> future' = None
     \<and> map Inr (px_results x') = map Inr (px_results x) @ map (layer_result w) layers
     \<and> px_prefetched x' + px_failures x' = px_prefetched x + px_failures x + int (length layers)
     \<and> px_failures x' = px_failures x + load_failures w layers \<and> px_fallbacks x' = px_fallbacks x + load_failures w layers
     \<and> px_released x' = px_released x + int (length layers))"
  using assms
proof (induction w layers future x rule: prefetch_layers.induct)
  case (1 w future x)
  then show ?case by (simp add: future_fits_def load_failures_def)
next
  case (2 w layer rest future x)
  obtain f where f: "future = Some f" and layer: "future_layer f = layer"
    using "2.prems"(2) by (auto simp: future_fits_def)
  show ?case
  proof (cases "pw_cancelled w layer")
    case True
    with "2.prems" show ?thesis by (auto simp: layer_result_def)
  next
    case False
    obtain q x1 where q: "obtain_resource w layer f x = (q, x1)" by force
    note got = obtain_facts [OF "2.prems"(3) [unfolded f] layer q]
    show ?thesis
    proof (cases q)
      case (Inl e)
      with got(1) False have "layer_result w layer = Inl e"
        by (simp add: layer_result_def flip: got(1))
      moreover have "r = Inl e"
        using "2.prems"(1) False f q Inl by simp
      ultimately show ?thesis by simp
    next
      case (Inr v)
      obtain nf x2 where nf: "submit_next w rest x1 = (nf, x2)" by force
      obtain c x3 where c: "consume_layer w layer v x2 = (c, x3)" by force
      have "layer_resource w layer = Inr v" using got(1) Inr by simp
      note consumed = consume_facts [OF c this False]
      show ?thesis
      proof (cases "layer_result w layer")
        case (Inl e)
        with consumed(1) have "c = Inl e" by simp
        then have "r = Inl e"
          using "2.prems"(1) False f q Inr nf c by simp
        with Inl show ?thesis by simp
      next
        case result: (Inr a)
        with consumed(1) have c': "c = Inr ()" by simp
        with "2.prems"(1) False f q Inr nf c have rest: "prefetch_layers w rest nf x3 = (r, future', x')" by simp
        note IH = "2.IH" [OF False f q [symmetric] Inr nf [symmetric] c [symmetric] c' rest submit_fits [OF nf]
            submit_facts(1) [OF nf]]
        show ?thesis
          using IH got(2) [OF Inr] submit_facts(2,3) [OF nf] consumed(2) [OF result] result
          by (auto simp: load_failures_def counted_def)
      qed
    qed
  qed
qed

section \<open>What a run promises\<close>

definition valid_layers :: "int list \<Rightarrow> bool" where
  "valid_layers layers \<longleftrightarrow>
     layers \<noteq> [] \<and> length layers \<le> MAX_PREFETCH_LAYERS \<and> distinct layers \<and> list_all (\<lambda>l. 0 \<le> l) layers"

lemma execute_cases:
  assumes "execute_prefetch w layers = (r, x)" and "valid_layers layers"
  obtains future x0 outcome future' x1 d where "submit_next w layers new_prefetch_run = (future, x0)"
    and "prefetch_layers w layers future x0 = (outcome, future', x1)" and "drain_future w future' x1 = (d, x)"
    and "r = (case d of Inl e \<Rightarrow> Inl e | Inr u \<Rightarrow> (case outcome of Inl e \<Rightarrow> Inl e
           | Inr u \<Rightarrow> Inr \<lparr>pr_results = px_results x, pr_layer_count = int (length layers), pr_prefetched = px_prefetched x,
               pr_failures = px_failures x, pr_fallbacks = px_fallbacks x, pr_released = px_released x\<rparr>))"
proof -
  obtain future x0 where a: "submit_next w layers new_prefetch_run = (future, x0)" by force
  obtain outcome future' x1 where b: "prefetch_layers w layers future x0 = (outcome, future', x1)" by (metis prod_cases3)
  obtain d x2 where c: "drain_future w future' x1 = (d, x2)" by force
  have "\<not> (layers = [] \<or> length layers > MAX_PREFETCH_LAYERS \<or> \<not> distinct layers \<or> list_ex (\<lambda>l. l < 0) layers)"
    using assms(2) by (auto simp: valid_layers_def list_ex_iff list_all_iff)
  with assms(1) a b c that show thesis
    by (auto simp: execute_prefetch_def split: sum.splits)
qed

text \<open>C20: Whatever the backend, the consumer and the other threads do, every layer resource that was loaded is given
  back exactly once, also after a failed load, a failed consumer, a release that raises or a cancellation, and never
  more than two are loaded at a time.\<close>
theorem prefetch_releases_everything: "replay [] (px_log (snd (execute_prefetch w layers))) = Some []"
proof (cases "valid_layers layers")
  case True
  obtain r x where run: "execute_prefetch w layers = (r, x)" by force
  then show ?thesis
  proof (rule execute_cases [OF _ True])
    fix future x0 outcome future' x1 d
    assume a: "submit_next w layers new_prefetch_run = (future, x0)"
      and b: "prefetch_layers w layers future x0 = (outcome, future', x1)" and c: "drain_future w future' x1 = (d, x)"
    have "holds x0 (future_holds future)"
      using submit_holds [OF _ _ a, of "[]"] by (simp add: holds_def new_prefetch_run_def)
    from drain_holds [OF layers_hold [OF this submit_fits [OF a] b] c] run show ?thesis
      by (simp add: holds_def)
  qed
next
  case False
  then have "layers = [] \<or> length layers > MAX_PREFETCH_LAYERS \<or> \<not> distinct layers \<or> list_ex (\<lambda>l. l < 0) layers"
    by (auto simp: valid_layers_def list_ex_iff list_all_iff not_le)
  then show ?thesis
    by (simp add: execute_prefetch_def new_prefetch_run_def del: disj_not1)
qed

text \<open>C26: Prefetching changes nothing but the time: a run succeeds exactly when every layer on its own does (its
  resource, loaded or loaded on demand, is consumed and given back, and nothing cancelled it), the results are those of
  the layers in order, and the report counts the prefetched layers, the failures, the fallbacks and the releases.\<close>
theorem prefetch_equals_sequential:
  assumes "valid_layers layers"
  shows "case fst (execute_prefetch w layers) of
      Inl e \<Rightarrow> (\<exists>l\<in>set layers. isl (layer_result w l))
    | Inr report \<Rightarrow> map (layer_result w) layers = map Inr (pr_results report)
        \<and> pr_layer_count report = int (length layers) \<and> pr_prefetched report = int (length layers) - load_failures w layers
        \<and> pr_failures report = load_failures w layers \<and> pr_fallbacks report = load_failures w layers
        \<and> pr_released report = int (length layers)"
proof -
  obtain r x where run: "execute_prefetch w layers = (r, x)" by force
  then show ?thesis
  proof (rule execute_cases [OF _ assms])
    fix future x0 outcome future' x1 d
    assume a: "submit_next w layers new_prefetch_run = (future, x0)"
      and b: "prefetch_layers w layers future x0 = (outcome, future', x1)" and c: "drain_future w future' x1 = (d, x)"
      and r: "r = (case d of Inl e \<Rightarrow> Inl e | Inr u \<Rightarrow> (case outcome of Inl e \<Rightarrow> Inl e
           | Inr u \<Rightarrow> Inr \<lparr>pr_results = px_results x, pr_layer_count = int (length layers), pr_prefetched = px_prefetched x,
               pr_failures = px_failures x, pr_fallbacks = px_fallbacks x, pr_released = px_released x\<rparr>))"
    note loop = layers_facts [OF b submit_fits [OF a] submit_facts(1) [OF a]]
    show ?thesis
    proof (cases outcome)
      case (Inl e)
      with r run loop first_error_isl [of w layers e] show ?thesis by (auto split: sum.splits)
    next
      case (Inr u)
      with loop c have "d = Inr ()" and "x = x1" by (auto simp: drain_future_def)
      with Inr r run loop submit_facts(2,3) [OF a] show ?thesis
        by (auto simp: counted_def new_prefetch_run_def)
    qed
  qed
qed

text \<open>Layer 3 is prefetched, layer 5 fails to load and is loaded on demand.\<close>

definition example_world :: "(int, int) prefetch_world" where
  "example_world = \<lparr>pw_load = (\<lambda>l. if l = 5 then Inl (RuntimeError ''disk'') else Inr (10 * l)),
     pw_load_on_demand = (\<lambda>l. Inr (100 * l)), pw_early = (\<lambda>l. l = 3), pw_unstarted = (\<lambda>l. False),
     pw_consume = (\<lambda>l r. Inr (r + 1)), pw_release = (\<lambda>l r. Inr ()), pw_cancelled = (\<lambda>l. False),
     pw_cancelled_later = (\<lambda>l. False)\<rparr>"

lemma example_run:
  "fst (execute_prefetch example_world [2, 3, 5]) = Inr \<lparr>pr_results = [21, 31, 501], pr_layer_count = 3,
     pr_prefetched = 2, pr_failures = 1, pr_fallbacks = 1, pr_released = 3\<rparr>"
  by (simp add: execute_prefetch_def example_world_def MAX_PREFETCH_LAYERS_def new_prefetch_run_def run_load_def log_event_def
      obtain_resource_def consume_layer_def release_resource_def drain_future_def)

theorem prefetch_equals_sequential_witness:
  "map (layer_result example_world) [2, 3, 5] = map Inr [21, 31, 501] \<and> load_failures example_world [2, 3, 5] = 1"
  using prefetch_equals_sequential [of "[2, 3, 5]" example_world]
  by (simp add: example_run valid_layers_def MAX_PREFETCH_LAYERS_def)

end
