(* ===== verification/NumericPacking.thy ===== *)
theory NumericPacking
  imports Prelude "HOL-Library.Word"
begin

unbundle bit_operations_syntax

text \<open>
  The bit packing of the numeric formats: \<open>_pack\<close> and \<open>_unpack\<close> of \<open>vllm_apple/numeric_codecs.py\<close> and
  \<open>_unpack_lsb\<close> of \<open>vllm_apple/numeric_mx.py\<close>.  \<open>bytes\<close> is a list of 8-bit words; codes are Python
  integers, read from a byte by \<open>uint\<close>; a value stored into a \<open>bytearray\<close> must be in its range.
\<close>

type_synonym byte = "8 word"

section \<open>Packing\<close>

fun pack_codes :: "nat \<Rightarrow> nat \<Rightarrow> int list \<Rightarrow> byte list \<Rightarrow> byte list result" where
  "pack_codes bits index [] output = Inr output"
| "pack_codes bits index (code # codes) output =
     (if \<not> (0 \<le> code \<and> code \<le> 2 ^ bits - 1) then Inl (ValueError ''numeric code is out of range'')
      else let i = index * bits;
               v = uint (output ! (i div 8)) OR push_bit (i mod 8) code
           in if v > 255 then Inl (ValueError ''byte must be in range(0, 256)'')
              else pack_codes bits (Suc index) codes (output[i div 8 := word_of_int v]))"

definition pack :: "int list \<Rightarrow> nat \<Rightarrow> byte list result" where
  "pack codes bits = pack_codes bits 0 codes (replicate ((length codes * bits + 7) div 8) 0)"

definition unpack :: "byte list \<Rightarrow> nat \<Rightarrow> nat \<Rightarrow> int list result" where
  "unpack payload bits elements =
     (if length payload \<noteq> (elements * bits + 7) div 8 then Inl (ValueError ''packed numeric payload size mismatch'')
      else let codes = map (\<lambda>index. drop_bit (index * bits mod 8) (uint (payload ! (index * bits div 8))) AND (2 ^ bits - 1))
                         [0..<elements];
               used = elements * bits mod 8
           in if used \<noteq> 0 \<and> drop_bit used (uint (last payload)) \<noteq> 0
              then Inl (ValueError ''packed numeric payload padding is nonzero'')
              else Inr codes)"

section \<open>Unpacking through an accumulator\<close>

function refill :: "byte list \<Rightarrow> nat \<Rightarrow> int \<times> nat \<times> nat \<Rightarrow> (int \<times> nat \<times> nat) result" where
  "refill packed bits (accumulator, available, offset) =
     (if available < bits
      then if offset < length packed
           then refill packed bits (accumulator OR push_bit available (uint (packed ! offset)), available + 8, offset + 1)
           else Inl (OtherError ''IndexError'')
      else Inr (accumulator, available, offset))"
  by pat_completeness auto
termination
  by (relation "measure (\<lambda>(packed, bits, accumulator, available, offset). bits - available)") auto

fun unpack_lsb :: "byte list \<Rightarrow> nat \<Rightarrow> nat \<Rightarrow> int \<times> nat \<times> nat \<Rightarrow> int list result" where
  "unpack_lsb packed bits 0 s = Inr []"
| "unpack_lsb packed bits (Suc n) s =
     (case refill packed bits s of
        Inl e \<Rightarrow> Inl e
      | Inr (accumulator, available, offset) \<Rightarrow>
          (case unpack_lsb packed bits n (drop_bit bits accumulator, available - bits, offset) of
             Inl e \<Rightarrow> Inl e
           | Inr codes \<Rightarrow> Inr ((accumulator AND (2 ^ bits - 1)) # codes)))"

declare refill.simps [simp del]

section \<open>The bits of a payload\<close>

text \<open>Bit \<open>k\<close> of a payload is bit \<open>k mod 8\<close> of byte \<open>k div 8\<close>; code \<open>i\<close> of width \<open>b\<close> is
  the bits from \<open>i * b\<close>.\<close>

definition payload_bit :: "byte list \<Rightarrow> nat \<Rightarrow> bool" where
  "payload_bit p k \<longleftrightarrow> k div 8 < length p \<and> bit (p ! (k div 8)) (k mod 8)"

definition code_at :: "byte list \<Rightarrow> nat \<Rightarrow> nat \<Rightarrow> int" where
  "code_at p bits i = horner_sum of_bool 2 (map (\<lambda>j. payload_bit p (i * bits + j)) [0..<bits])"

lemma bit_code_at: "bit (code_at p bits i) j \<longleftrightarrow> j < bits \<and> payload_bit p (i * bits + j)"
  by (auto simp: code_at_def bit_horner_sum_bit_iff)

lemma payload_eqI:
  assumes "length p = length q" and "\<And>k. k < 8 * length p \<Longrightarrow> payload_bit p k = payload_bit q k"
  shows "p = q"
proof (rule nth_equalityI [OF assms(1)], rule bit_word_eqI)
  fix i n
  assume "i < length p" and "n < LENGTH(8)"
  then have "payload_bit p (8 * i + n) = payload_bit q (8 * i + n)"
    by (intro assms(2)) simp
  with \<open>i < length p\<close> \<open>n < LENGTH(8)\<close> assms(1) show "bit (p ! i) n = bit (q ! i) n"
    by (simp add: payload_bit_def)
qed

text \<open>A width that divides 8 keeps a code within one byte.\<close>

lemma within_byte:
  assumes "bits dvd 8" and "j < bits"
  shows "(i * bits + j) div 8 = i * bits div 8" and "(i * bits + j) mod 8 = i * bits mod 8 + j"
    and "i * bits mod 8 + bits \<le> (8::nat)"
proof -
  obtain q where q: "8 = bits * q" using assms(1) by blast
  then have "q > 0" by (cases q) auto
  have m: "i * bits mod 8 = bits * (i mod q)"
    unfolding q mult_mod_right by (simp only: mult.commute [of i bits])
  have "bits * (i mod q) + bits \<le> bits * q"
    using mult_le_mono2 [of "i mod q + 1" q bits] mod_less_divisor [OF \<open>q > 0\<close>, of i] by (simp add: Suc_le_eq)
  then show bound: "i * bits mod 8 + bits \<le> 8"
    unfolding m q [symmetric] .
  have "i * bits + j = i * bits mod 8 + j + 8 * (i * bits div 8)"
    by (simp add: algebra_simps)
  moreover have "i * bits mod 8 + j < 8"
    using bound assms(2) by simp
  ultimately show "(i * bits + j) div 8 = i * bits div 8" and "(i * bits + j) mod 8 = i * bits mod 8 + j"
    using div_mult_self2 [of 8 "i * bits mod 8 + j" "i * bits div 8"] mod_mult_self2 [of "i * bits mod 8 + j" 8 "i * bits div 8"]
    by simp_all
qed

lemma bit_of_code: "0 \<le> code \<Longrightarrow> code < 2 ^ bits \<Longrightarrow> bit (code::int) j \<Longrightarrow> j < bits"
  by (metis bit_take_bit_iff take_bit_int_eq_self)

lemma store_in_range:
  assumes "0 \<le> code" and "code < 2 ^ bits" and "m + bits \<le> 8"
  shows "uint (b :: byte) OR push_bit m code \<le> 255"
proof -
  have "push_bit m code < 2 ^ (m + bits)"
    using assms(2) by (simp add: push_bit_eq_mult power_add mult.commute)
  also have "(2::int) ^ (m + bits) \<le> 2 ^ 8"
    by (rule power_increasing [OF assms(3)]) simp
  finally have "push_bit m code < 2 ^ 8" .
  moreover have "uint b < 2 ^ 8" using uint_lt2p [of b] by simp
  ultimately have "uint b OR push_bit m code < 2 ^ 8"
    by (intro OR_upper) simp_all
  then show ?thesis by simp
qed

lemma store_bits:
  assumes "i < 8 * length p" and "0 \<le> code" and "code < 2 ^ bits" and "i mod 8 + bits \<le> 8"
  shows "payload_bit (p[i div 8 := word_of_int (uint (p ! (i div 8)) OR push_bit (i mod 8) code)]) k
    \<longleftrightarrow> payload_bit p k \<or> i \<le> k \<and> bit code (k - i)"
proof (cases "k div 8 = i div 8")
  case True
  define a m n where amn: "a = i div 8" "m = i mod 8" "n = k mod 8"
  have "i = 8 * a + m" and "k = 8 * a + n"
    unfolding amn using mult_div_mod_eq [of 8 i] mult_div_mod_eq [of 8 k] True by simp_all
  then have "i \<le> k \<longleftrightarrow> i mod 8 \<le> k mod 8" and "k - i = k mod 8 - i mod 8"
    unfolding amn(2,3) [symmetric] by simp_all
  then show ?thesis
    using assms(1) True by (auto simp: payload_bit_def bit_word_of_int_iff bit_or_iff bit_push_bit_iff bit_uint_iff nth_list_update)
next
  case False
  have "\<not> (i \<le> k \<and> bit code (k - i))"
  proof
    assume *: "i \<le> k \<and> bit code (k - i)"
    with bit_of_code [OF assms(2,3)] have "k - i < bits" by blast
    with * have "k < i + bits" by simp
    moreover have "i \<le> k" using * by simp
    moreover have "8 * (i div 8) + i mod 8 = i" by (rule mult_div_mod_eq)
    ultimately have "8 * (i div 8) \<le> k" and "k < 8 * (i div 8) + 8" using assms(4) by linarith+
    then have "k div 8 = i div 8" by (intro div_nat_eqI) simp_all
    with False show False by simp
  qed
  with False show ?thesis by (auto simp: payload_bit_def nth_list_update)
qed

lemma pack_codes_bits:
  assumes "bits dvd 8" and "0 < bits" and "\<forall>c\<in>set codes. 0 \<le> c \<and> c < 2 ^ bits"
    and "(index + length codes) * bits \<le> 8 * length p" and "\<And>k. index * bits \<le> k \<Longrightarrow> \<not> payload_bit p k"
  shows "\<exists>q. pack_codes bits index codes p = Inr q \<and> length q = length p
    \<and> (\<forall>k. payload_bit q k \<longleftrightarrow> payload_bit p k
        \<or> index * bits \<le> k \<and> k < (index + length codes) * bits \<and> bit (codes ! (k div bits - index)) (k mod bits))"
  using assms(3-5)
proof (induction codes arbitrary: index p)
  case Nil
  then show ?case by auto
next
  case (Cons code codes)
  let ?i = "index * bits"
  let ?v = "uint (p ! (?i div 8)) OR push_bit (?i mod 8) code"
  let ?q = "p[?i div 8 := word_of_int ?v]"
  have code: "0 \<le> code" "code < 2 ^ bits" using Cons.prems(1) by auto
  have fit: "?i mod 8 + bits \<le> 8" by (rule within_byte(3) [OF assms(1,2)])
  have "?i + bits \<le> 8 * length p" using Cons.prems(2) by (simp add: algebra_simps)
  with \<open>0 < bits\<close> have inside: "?i < 8 * length p" by simp
  have stored: "payload_bit ?q k \<longleftrightarrow> payload_bit p k \<or> ?i \<le> k \<and> bit code (k - ?i)" for k
    by (rule store_bits [OF inside code fit])
  have "\<not> payload_bit ?q k" if "Suc index * bits \<le> k" for k
    using that Cons.prems(3) [of k] bit_of_code [OF code, of "k - ?i"] by (auto simp: stored)
  then obtain q where q: "pack_codes bits (Suc index) codes ?q = Inr q" "length q = length p"
    "\<And>k. payload_bit q k \<longleftrightarrow> payload_bit ?q k \<or> Suc index * bits \<le> k \<and> k < (Suc index + length codes) * bits
        \<and> bit (codes ! (k div bits - Suc index)) (k mod bits)"
    using Cons.IH [of "Suc index" ?q] Cons.prems(1,2) by auto
  have "pack_codes bits index (code # codes) p = Inr q"
    using q(1) code store_in_range [OF code fit, of "p ! (?i div 8)"] by (simp add: Let_def not_less)
  moreover have "payload_bit q k \<longleftrightarrow> payload_bit p k
        \<or> ?i \<le> k \<and> k < (index + length (code # codes)) * bits \<and> bit ((code # codes) ! (k div bits - index)) (k mod bits)" for k
  proof (cases "Suc index * bits \<le> k")
    case True
    then have "Suc index \<le> k div bits" using \<open>0 < bits\<close> by (simp add: less_eq_div_iff_mult_less_eq)
    then have "(code # codes) ! (k div bits - index) = codes ! (k div bits - Suc index)"
      by (auto simp: nth_Cons')
    moreover have "\<not> (?i \<le> k \<and> bit code (k - ?i))"
      using True bit_of_code [OF code, of "k - ?i"] by auto
    ultimately show ?thesis using True q(3) [of k] stored [of k] by (auto simp: algebra_simps)
  next
    case False
    show ?thesis
    proof (cases "?i \<le> k")
      case True
      with False have "k div bits = index"
        by (intro div_nat_eqI) (auto simp: mult.commute)
      moreover from this have "k mod bits = k - ?i"
        by (simp add: minus_div_mult_eq_mod [symmetric])
      ultimately show ?thesis using False True q(3) [of k] stored [of k] by (auto simp: algebra_simps)
    next
      case no: False
      with False q(3) [of k] stored [of k] show ?thesis by auto
    qed
  qed
  ultimately show ?case using q(2) by blast
qed

text \<open>Packing succeeds on codes of the width, and the bits of the payload are those of the codes, padded with
  zeros.\<close>

lemma pack_bits:
  assumes "bits dvd 8" and "0 < bits" and "\<forall>c\<in>set codes. 0 \<le> c \<and> c < 2 ^ bits"
  obtains q where "pack codes bits = Inr q" and "length q = (length codes * bits + 7) div 8"
    and "\<And>k. payload_bit q k \<longleftrightarrow> k < length codes * bits \<and> bit (codes ! (k div bits)) (k mod bits)"
proof -
  let ?p = "replicate ((length codes * bits + 7) div 8) 0 :: byte list"
  have "\<not> payload_bit ?p k" for k by (simp add: payload_bit_def)
  moreover have "length codes * bits \<le> 8 * ((length codes * bits + 7) div 8)" by linarith
  ultimately show thesis
    using pack_codes_bits [OF assms, of 0 ?p] that by (auto simp: pack_def)
qed

section \<open>Unpacking\<close>

lemma unpack_code:
  assumes "bits dvd 8" and "0 < bits" and "(i + 1) * bits \<le> 8 * length p"
  shows "drop_bit (i * bits mod 8) (uint (p ! (i * bits div 8))) AND (2 ^ bits - 1) = code_at p bits i"
proof (rule bit_eqI)
  fix j
  show "bit (drop_bit (i * bits mod 8) (uint (p ! (i * bits div 8))) AND (2 ^ bits - 1)) j = bit (code_at p bits i) j"
  proof (cases "j < bits")
    case True
    note byte = within_byte [OF assms(1) True, of i]
    have "i * bits div 8 < length p"
      using assms(2,3) by (simp add: algebra_simps less_mult_imp_div_less)
    with True byte show ?thesis
      by (auto simp: bit_code_at payload_bit_def bit_and_iff bit_drop_bit_eq bit_uint_iff bit_mask_iff [unfolded mask_eq_exp_minus_1] add.commute)
  next
    case False
    then show ?thesis
      by (simp add: bit_code_at bit_and_iff bit_mask_iff [unfolded mask_eq_exp_minus_1])
  qed
qed

definition padding_zero :: "byte list \<Rightarrow> nat \<Rightarrow> bool" where
  "padding_zero p n \<longleftrightarrow> (\<forall>k\<ge>n. \<not> payload_bit p k)"

lemma last_byte_padding:
  assumes "length p = (n + 7) div 8" and "n mod 8 \<noteq> 0"
  shows "drop_bit (n mod 8) (uint (last p)) = 0 \<longleftrightarrow> padding_zero p n"
proof -
  define a m where am: "a = n div 8" "m = n mod 8"
  then have n: "n = 8 * a + m" and m: "0 < m" "m < 8" using assms(2) by simp_all
  have len: "length p = Suc a" using assms(1) m by (simp add: n)
  then have last: "last p = p ! a" by (metis diff_Suc_1 last_conv_nth list.size(3) nat.distinct(1))
  have "drop_bit m (uint (last p)) = 0 \<longleftrightarrow> (\<forall>j. \<not> bit (uint (p ! a)) (m + j))"
    unfolding last bit_eq_iff by (simp add: bit_drop_bit_eq)
  also have "\<dots> \<longleftrightarrow> (\<forall>k\<ge>n. \<not> payload_bit p k)"
  proof (intro iffI allI impI)
    fix k assume zero: "\<forall>j. \<not> bit (uint (p ! a)) (m + j)" and "n \<le> k"
    show "\<not> payload_bit p k"
    proof (cases "k div 8 = a")
      case True
      then have "k = 8 * a + k mod 8" using mult_div_mod_eq [of 8 k] by simp
      with \<open>n \<le> k\<close> n have "m \<le> k mod 8" by linarith
      with zero have "\<not> bit (uint (p ! a)) (k mod 8)" by (metis le_Suc_ex)
      with True show ?thesis by (simp add: payload_bit_def bit_uint_iff)
    next
      case False
      with \<open>n \<le> k\<close> n have "\<not> k div 8 < Suc a" by linarith
      with len show ?thesis by (simp add: payload_bit_def)
    qed
  next
    fix j assume "\<forall>k\<ge>n. \<not> payload_bit p k"
    then have none: "\<not> payload_bit p (n + j)" by simp
    show "\<not> bit (uint (p ! a)) (m + j)"
    proof (cases "m + j < 8")
      case True
      then have "(n + j) div 8 = a" and "(n + j) mod 8 = m + j" by (simp_all add: n add.assoc)
      with none len show ?thesis by (simp add: payload_bit_def bit_uint_iff)
    next
      case False
      then show ?thesis by (simp add: bit_uint_iff)
    qed
  qed
  finally show ?thesis by (simp add: am padding_zero_def)
qed

lemma unpack_eq:
  assumes "bits dvd 8" and "0 < bits"
  shows "unpack p bits n = (if length p \<noteq> (n * bits + 7) div 8 then Inl (ValueError ''packed numeric payload size mismatch'')
    else if \<not> padding_zero p (n * bits) then Inl (ValueError ''packed numeric payload padding is nonzero'')
    else Inr (map (code_at p bits) [0..<n]))"
proof (cases "length p = (n * bits + 7) div 8")
  case True
  have "map (\<lambda>index. drop_bit (index * bits mod 8) (uint (p ! (index * bits div 8))) AND (2 ^ bits - 1)) [0..<n]
      = map (code_at p bits) [0..<n]"
  proof (rule map_cong [OF refl], rule unpack_code [OF assms])
    fix i assume "i \<in> set [0..<n]"
    then have "(i + 1) * bits \<le> n * bits" by (intro mult_le_mono1) simp
    also have "\<dots> \<le> 8 * length p" unfolding True by linarith
    finally show "(i + 1) * bits \<le> 8 * length p" .
  qed
  moreover have "n * bits mod 8 = 0 \<Longrightarrow> padding_zero p (n * bits)"
    using True by (auto simp: padding_zero_def payload_bit_def)
  ultimately show ?thesis
    using True last_byte_padding [OF True] by (auto simp: unpack_def Let_def)
next
  case False
  then show ?thesis by (simp add: unpack_def)
qed

lemma code_at_range: "0 \<le> code_at p bits i" "code_at p bits i < 2 ^ bits"
  using horner_sum_of_bool_2_less [of "map (\<lambda>j. payload_bit p (i * bits + j)) [0..<bits]"]
  by (simp_all add: code_at_def horner_sum_nonnegative)

section \<open>Round trips\<close>

lemma unpack_pack:
  assumes "bits dvd 8" and "0 < bits" and codes: "\<forall>c\<in>set codes. 0 \<le> c \<and> c < 2 ^ bits"
  shows "\<exists>p. pack codes bits = Inr p \<and> length p = (length codes * bits + 7) div 8 \<and> unpack p bits (length codes) = Inr codes"
proof -
  obtain p where p: "pack codes bits = Inr p" "length p = (length codes * bits + 7) div 8"
    "\<And>k. payload_bit p k \<longleftrightarrow> k < length codes * bits \<and> bit (codes ! (k div bits)) (k mod bits)"
    using pack_bits [OF assms] by blast
  have code: "code_at p bits i = codes ! i" if i: "i < length codes" for i
  proof (rule bit_eqI)
    fix j
    show "bit (code_at p bits i) j = bit (codes ! i) j"
    proof (cases "j < bits")
      case True
      have "i * bits + bits \<le> length codes * bits"
        using mult_le_mono1 [of "Suc i" "length codes" bits] i by simp
      with True show ?thesis by (simp add: bit_code_at p(3))
    next
      case False
      with codes i bit_of_code [of "codes ! i" bits j] show ?thesis by (auto simp: bit_code_at)
    qed
  qed
  have "map (code_at p bits) [0..<length codes] = codes"
    by (rule nth_equalityI) (simp_all add: code)
  moreover have "padding_zero p (length codes * bits)"
    by (simp add: padding_zero_def p(3))
  ultimately show ?thesis
    using p by (simp add: unpack_eq [OF assms(1,2)])
qed

lemma pack_unpack:
  assumes "bits dvd 8" and "0 < bits" and "unpack p bits n = Inr cs"
  shows "pack cs bits = Inr p \<and> length cs = n \<and> (\<forall>c\<in>set cs. 0 \<le> c \<and> c < 2 ^ bits)"
proof -
  have len: "length p = (n * bits + 7) div 8" and pad: "padding_zero p (n * bits)"
    and cs: "cs = map (code_at p bits) [0..<n]"
    using assms(3) by (auto simp: unpack_eq [OF assms(1,2)] split: if_splits)
  have codes: "\<forall>c\<in>set cs. 0 \<le> c \<and> c < 2 ^ bits" by (auto simp: cs code_at_range)
  then obtain q where q: "pack cs bits = Inr q" "length q = (length cs * bits + 7) div 8"
    "\<And>k. payload_bit q k \<longleftrightarrow> k < length cs * bits \<and> bit (cs ! (k div bits)) (k mod bits)"
    using pack_bits [OF assms(1,2)] by metis
  have "q = p"
  proof (rule payload_eqI)
    show "length q = length p" using q(2) len by (simp add: cs)
    fix k
    show "payload_bit q k = payload_bit p k"
    proof (cases "k < n * bits")
      case True
      then have "k div bits < n" by (simp add: less_mult_imp_div_less)
      then show ?thesis using True assms(2) by (simp add: q(3) cs bit_code_at)
    next
      case False
      with pad show ?thesis by (simp add: q(3) cs padding_zero_def)
    qed
  qed
  with q(1) codes show ?thesis by (simp add: cs)
qed

text \<open>C29: For the widths that divide a byte (1, 2, 4 and 8 bits; the quantisers use 2, 4 and 8), packing and
  unpacking are inverse to each other: codes of that width come back from their payload, whose size is the least number
  of bytes that holds them, and every payload that is accepted is the packing of its codes.\<close>
theorem pack_unpack_roundtrip:
  assumes "bits dvd 8" and "0 < bits"
  shows "(\<forall>codes. (\<forall>c\<in>set codes. 0 \<le> c \<and> c < 2 ^ bits) \<longrightarrow>
      (\<exists>p. pack codes bits = Inr p \<and> length p = (length codes * bits + 7) div 8 \<and> unpack p bits (length codes) = Inr codes))
    \<and> (\<forall>p n cs. unpack p bits n = Inr cs \<longrightarrow> pack cs bits = Inr p \<and> length cs = n)"
  using unpack_pack [OF assms] pack_unpack [OF assms] by blast

theorem pack_unpack_roundtrip_witness:
  "pack [3, 0, 15, 9, 1] 4 = Inr [3, 159, 1] \<and> unpack [3, 159, 1] 4 (length [3, 0, 15, 9, 1::int]) = Inr [3, 0, 15, 9, 1]"
proof -
  have packed: "pack [3, 0, 15, 9, 1] 4 = Inr [3, 159, 1]" by code_simp
  have "\<exists>p. pack [3, 0, 15, 9, 1] 4 = Inr p \<and> length p = (length [3, 0, 15, 9, 1 :: int] * 4 + 7) div 8
      \<and> unpack p 4 (length [3, 0, 15, 9, 1 :: int]) = Inr [3, 0, 15, 9, 1]"
    by (rule pack_unpack_roundtrip [of 4, THEN conjunct1, THEN spec, THEN mp]) simp_all
  then obtain p where "Inr [3, 159, 1] = (Inr p :: byte list result)"
    and "unpack p 4 (length [3, 0, 15, 9, 1 :: int]) = Inr [3, 0, 15, 9, 1]"
    unfolding packed by blast
  with packed show ?thesis by (simp only: sum.inject simp_thms)
qed

section \<open>The accumulator reads the same codes\<close>

fun le_value :: "byte list \<Rightarrow> int" where
  "le_value [] = 0"
| "le_value (b # bs) = uint b + 256 * le_value bs"

lemma le_value_nonneg: "0 \<le> le_value p"
  by (induction p) auto

lemma bit_byte_cons: "bit (uint (b::byte) + 256 * v) k = (if k < 8 then bit b k else bit v (k - 8))"
proof -
  have "256 * v = push_bit 8 v" by (simp add: push_bit_eq_mult)
  moreover have "uint b + push_bit 8 v = uint b OR push_bit 8 v"
    by (rule disjunctive_add) (auto simp: bit_uint_iff bit_push_bit_iff)
  ultimately show ?thesis by (auto simp: bit_or_iff bit_push_bit_iff bit_uint_iff)
qed

lemma bit_le_value: "bit (le_value p) k = payload_bit p k"
proof (induction p arbitrary: k)
  case Nil
  then show ?case by (simp add: payload_bit_def)
next
  case (Cons b p)
  show ?case
  proof (cases "k < 8")
    case True
    then show ?thesis by (simp add: bit_byte_cons payload_bit_def)
  next
    case False
    then obtain m where k: "k = m + 8" by (metis le_add_diff_inverse2 not_less)
    then have "k div 8 = Suc ((k - 8) div 8)" and "k mod 8 = (k - 8) mod 8" by simp_all
    with False show ?thesis by (simp add: bit_byte_cons Cons.IH payload_bit_def)
  qed
qed

lemma code_at_value: "code_at p bits i = le_value p div 2 ^ (i * bits) mod 2 ^ bits"
  by (rule bit_eqI)
    (auto simp: bit_code_at bit_take_bit_iff bit_drop_bit_eq bit_le_value add.commute simp flip: take_bit_eq_mod drop_bit_eq_div)

text \<open>What the accumulator, its \<open>available\<close> bits and the rest of the payload hold together.\<close>

definition stream_value :: "byte list \<Rightarrow> int \<times> nat \<times> nat \<Rightarrow> int" where
  "stream_value packed s = (case s of (accumulator, available, offset) \<Rightarrow>
     accumulator + 2 ^ available * le_value (drop offset packed))"

definition accumulator_ok :: "int \<times> nat \<times> nat \<Rightarrow> bool" where
  "accumulator_ok s \<longleftrightarrow> (case s of (accumulator, available, offset) \<Rightarrow> 0 \<le> accumulator \<and> accumulator < 2 ^ available)"

lemma or_above:
  assumes "0 \<le> a" and "a < 2 ^ n"
  shows "a OR push_bit n b = a + 2 ^ n * (b::int)"
proof -
  have "a + push_bit n b = a OR push_bit n b"
    by (rule disjunctive_add) (use bit_of_code [OF assms] in \<open>force simp: bit_push_bit_iff\<close>)
  then show ?thesis by (simp add: push_bit_eq_mult mult.commute)
qed

lemma refill_value:
  assumes "accumulator_ok s" and "\<exists>accumulator available offset. s = (accumulator, available, offset) \<and> bits \<le> available + 8 * (length packed - offset)"
  shows "\<exists>s'. refill packed bits s = Inr s' \<and> accumulator_ok s' \<and> stream_value packed s' = stream_value packed s
    \<and> bits \<le> fst (snd s') \<and> fst (snd s') + 8 * (length packed - snd (snd s')) = fst (snd s) + 8 * (length packed - snd (snd s))"
  using assms
proof (induction packed bits s rule: refill.induct)
  case (1 packed bits accumulator available offset)
  show ?case
  proof (cases "available < bits")
    case True
    with "1.prems"(2) have offset: "offset < length packed" by auto
    let ?b = "uint (packed ! offset)"
    let ?s = "(accumulator OR push_bit available ?b, available + 8, offset + 1)"
    have acc: "0 \<le> accumulator" "accumulator < 2 ^ available"
      using "1.prems"(1) by (auto simp: accumulator_ok_def)
    have "accumulator + 2 ^ available * ?b < 2 ^ available * (1 + ?b)"
      using acc by (simp add: algebra_simps)
    also have "\<dots> \<le> 2 ^ available * 256"
      using uint_lt2p [of "packed ! offset"] by (intro mult_left_mono) auto
    finally have "accumulator_ok ?s"
      using acc by (simp add: accumulator_ok_def or_above power_add)
    moreover have "stream_value packed ?s = stream_value packed (accumulator, available, offset)"
      using offset acc by (simp add: stream_value_def or_above power_add Cons_nth_drop_Suc [symmetric] algebra_simps)
    moreover have "8 * (length packed - offset) = 8 + 8 * (length packed - Suc offset)"
      using offset by simp
    ultimately show ?thesis
      using "1.IH" [OF True offset] True offset "1.prems"(2) by (subst refill.simps) (auto simp: add.assoc)
  next
    case False
    with "1.prems" show ?thesis by (subst refill.simps) (auto simp: stream_value_def)
  qed
qed

lemma unpack_lsb_value:
  assumes "accumulator_ok (accumulator, available, offset)"
    and "n * bits \<le> available + 8 * (length packed - offset)"
  shows "unpack_lsb packed bits n (accumulator, available, offset)
    = Inr (map (\<lambda>i. stream_value packed (accumulator, available, offset) div 2 ^ (i * bits) mod 2 ^ bits) [0..<n])"
  using assms
proof (induction n arbitrary: accumulator available offset)
  case 0
  then show ?case by simp
next
  case (Suc n)
  let ?v = "stream_value packed (accumulator, available, offset)"
  obtain acc av off where r: "refill packed bits (accumulator, available, offset) = Inr (acc, av, off)"
    and ok: "accumulator_ok (acc, av, off)" and v: "stream_value packed (acc, av, off) = ?v" and av: "bits \<le> av"
    and left: "av + 8 * (length packed - off) = available + 8 * (length packed - offset)"
    using refill_value [OF Suc.prems(1), of bits packed] Suc.prems(2) by auto
  have acc: "0 \<le> acc" "acc < 2 ^ av" using ok by (auto simp: accumulator_ok_def)
  have split: "(2::int) ^ av = 2 ^ bits * 2 ^ (av - bits)" using av by (simp flip: power_add)
  have "acc AND (2 ^ bits - 1) = acc mod 2 ^ bits"
    by (simp add: take_bit_eq_mod flip: mask_eq_exp_minus_1 take_bit_eq_mask)
  also have "\<dots> = ?v mod 2 ^ bits"
    unfolding v [symmetric] by (simp add: stream_value_def split mult.assoc)
  finally have head: "acc AND (2 ^ bits - 1) = ?v mod 2 ^ bits" .
  have "drop_bit bits acc = take_bit (av - bits) (drop_bit bits acc)"
    using acc by (metis drop_bit_take_bit take_bit_int_eq_self)
  then have "drop_bit bits acc < 2 ^ (av - bits)"
    by (metis take_bit_int_less_exp)
  then have ok': "accumulator_ok (drop_bit bits acc, av - bits, off)"
    using acc by (simp add: accumulator_ok_def)
  have v': "stream_value packed (drop_bit bits acc, av - bits, off) = ?v div 2 ^ bits"
    unfolding v [symmetric] by (simp add: stream_value_def split mult.assoc drop_bit_eq_div)
  have "unpack_lsb packed bits n (drop_bit bits acc, av - bits, off)
      = Inr (map (\<lambda>i. ?v div 2 ^ bits div 2 ^ (i * bits) mod 2 ^ bits) [0..<n])"
    using Suc.IH [OF ok'] left Suc.prems(2) av by (simp add: v')
  moreover have "?v div 2 ^ bits div 2 ^ (i * bits) = ?v div 2 ^ (Suc i * bits)" for i
    by (simp add: zdiv_zmult2_eq power_add flip: div_mult2_eq')
  ultimately show ?case
    using head r by (simp add: upt_conv_Cons map_Suc_upt [symmetric] del: upt_Suc)
qed

text \<open>Reading codes through the accumulator gives what the positions say: code \<open>i\<close> is the bits from
  \<open>i * bits\<close>, for every width; for the widths that divide a byte it agrees with \<open>_unpack\<close>.\<close>
theorem accumulator_reads_codes:
  assumes "n * bits \<le> 8 * length p"
  shows "unpack_lsb p bits n (0, 0, 0) = Inr (map (code_at p bits) [0..<n])
    \<and> (bits dvd 8 \<and> 0 < bits \<longrightarrow> (\<forall>codes. unpack p bits n = Inr codes \<longrightarrow> unpack_lsb p bits n (0, 0, 0) = Inr codes))"
proof -
  have "unpack_lsb p bits n (0, 0, 0) = Inr (map (code_at p bits) [0..<n])"
    using unpack_lsb_value [of 0 0 0 n bits p] assms
    by (simp add: accumulator_ok_def stream_value_def code_at_value)
  then show ?thesis by (auto simp: unpack_eq split: if_splits)
qed

text \<open>Three codes of 6 bits in three bytes.\<close>

theorem accumulator_reads_codes_witness:
  "unpack_lsb [225, 7, 3] 6 3 (0, 0, 0) = Inr [33, 31, 48] \<and> map (code_at [225, 7, 3] 6) [0..<3] = [33, 31, 48]"
proof -
  have "unpack_lsb [225, 7, 3] 6 3 (0, 0, 0) = Inr [33, 31, 48]" by code_simp
  with accumulator_reads_codes [of 3 6 "[225, 7, 3]"] show ?thesis by simp
qed

end
