(* ===== verification/TensorGeometry.thy ===== *)
theory TensorGeometry
  imports Prelude
begin

text \<open>
  \<open>TensorGeometry\<close> of \<open>vllm_apple/numeric_formats.py\<close>: the logical C-order shape of a tensor with block scales
  along some of its axes, and the index of the scale that belongs to an element.
\<close>

definition MAX_REFERENCE_ELEMENTS :: int where
  "MAX_REFERENCE_ELEMENTS = 65536"

datatype scale_axis = OneAxis int | ManyAxes "int list"

record geometry =
  ge_shape :: "int list"
  ge_scale_axis :: scale_axis
  ge_block_size :: int
  ge_schema_version :: int

definition elements_of :: "geometry \<Rightarrow> int" where
  "elements_of g = prod_list (ge_shape g)"

definition scale_axes :: "geometry \<Rightarrow> int list" where
  "scale_axes g = (case ge_scale_axis g of OneAxis axis \<Rightarrow> [axis] | ManyAxes axes \<Rightarrow> axes)"

definition geometry_init :: "geometry \<Rightarrow> geometry result" where
  "geometry_init g =
     (let axes = scale_axes g
      in if ge_schema_version g \<noteq> 1 then Inl (ValueError ''unsupported geometry version'')
         else if \<not> (1 \<le> length (ge_shape g) \<and> length (ge_shape g) \<le> 8) \<or> list_ex (\<lambda>s. s \<le> 0) (ge_shape g)
         then Inl (ValueError ''shape must contain 1..8 positive integer dimensions'')
         else if MAX_REFERENCE_ELEMENTS < prod_list (ge_shape g)
         then Inl (ValueError ''geometry exceeds reference element limit'')
         else if axes = [] \<or> axes \<noteq> sort axes \<or> \<not> distinct axes
            \<or> list_ex (\<lambda>axis. \<not> (0 \<le> axis \<and> axis < int (length (ge_shape g)))) axes
         then Inl (ValueError ''scale axes must be sorted unique nonnegative in-range integers'')
         else if \<not> (0 < ge_block_size g \<and> ge_block_size g \<le> MAX_REFERENCE_ELEMENTS)
         then Inl (ValueError ''invalid geometry block size'')
         else Inr g)"

definition scale_shape :: "geometry \<Rightarrow> int list" where
  "scale_shape g =
     map (\<lambda>(axis, extent). if int axis \<in> set (scale_axes g) then (extent + ge_block_size g - 1) div ge_block_size g else extent)
       (zip [0..<length (ge_shape g)] (ge_shape g))"

definition scale_count :: "geometry \<Rightarrow> int" where
  "scale_count g = prod_list (scale_shape g)"

text \<open>The loop from the last axis to the first that splits a flat index.\<close>

fun split_index :: "int list \<Rightarrow> int \<Rightarrow> int list" where
  "split_index [] flat = []"
| "split_index (extent # extents) flat = (flat mod extent) # split_index extents (flat div extent)"

definition coordinates :: "int list \<Rightarrow> int \<Rightarrow> int list" where
  "coordinates shape flat = rev (split_index (rev shape) flat)"

fun block_axes :: "int \<Rightarrow> int list \<Rightarrow> int list \<Rightarrow> int list" where
  "block_axes block [] cs = cs"
| "block_axes block (axis # axes) cs = block_axes block axes (cs[nat axis := cs ! nat axis div block])"

fun join_index :: "int \<Rightarrow> (int \<times> int) list \<Rightarrow> int" where
  "join_index index [] = index"
| "join_index index ((extent, c) # rest) = join_index (index * extent + c) rest"

definition scale_index :: "geometry \<Rightarrow> int \<Rightarrow> int result" where
  "scale_index g flat =
     (if \<not> (0 \<le> flat \<and> flat < elements_of g) then Inl (ValueError ''element index out of range'')
      else Inr (join_index 0 (zip (scale_shape g)
             (block_axes (ge_block_size g) (scale_axes g) (coordinates (ge_shape g) flat)))))"

section \<open>C-order indices\<close>

definition in_shape :: "int list \<Rightarrow> int list \<Rightarrow> bool" where
  "in_shape shape cs \<longleftrightarrow> list_all2 (\<lambda>s c. 0 \<le> c \<and> c < s) shape cs"

lemma positive_prod: "\<forall>s\<in>set shape. 0 < s \<Longrightarrow> 0 < prod_list (shape :: int list)"
  by (induction shape) auto

lemma split_index_in_shape: "\<forall>s\<in>set sizes. 0 < s \<Longrightarrow> in_shape sizes (split_index sizes flat)"
  by (induction sizes arbitrary: flat) (auto simp: in_shape_def)

lemma length_split_index [simp]: "length (split_index sizes flat) = length sizes"
  by (induction sizes arbitrary: flat) auto

lemma coordinates_in_shape: "\<forall>s\<in>set shape. 0 < s \<Longrightarrow> in_shape shape (coordinates shape flat)"
  using split_index_in_shape [of "rev shape" flat] by (simp add: in_shape_def coordinates_def list_all2_rev1)

lemma join_index_append: "join_index index (xs @ [(s, c)]) = join_index index xs * s + c"
  by (induction xs arbitrary: index) auto

lemma div_less_bound: "0 < s \<Longrightarrow> k < m * s \<Longrightarrow> k div s < (m :: int)"
proof -
  assume "0 < s" and k: "k < m * s"
  have "k div s * s = k - k mod s" by (rule minus_mod_eq_div_mult [symmetric])
  also have "\<dots> < m * s" using k pos_mod_sign [OF \<open>0 < s\<close>, of k] by linarith
  finally show "k div s < m" using \<open>0 < s\<close> by simp
qed

text \<open>The coordinates are those of C order: joined over the shape they give the index back.\<close>

lemma join_coordinates:
  assumes "\<forall>s\<in>set shape. 0 < s" and "0 \<le> flat" and "flat < prod_list shape"
  shows "join_index 0 (zip shape (coordinates shape flat)) = flat"
  using assms
proof (induction shape arbitrary: flat rule: rev_induct)
  case Nil
  then show ?case by simp
next
  case (snoc s shape)
  have "coordinates (shape @ [s]) flat = coordinates shape (flat div s) @ [flat mod s]"
    by (simp add: coordinates_def)
  moreover have "length shape = length (coordinates shape (flat div s))"
    by (simp add: coordinates_def)
  moreover have "flat div s < prod_list shape"
    using snoc.prems by (intro div_less_bound) (simp_all add: mult.commute)
  ultimately show ?case
    using snoc by (simp add: join_index_append pos_imp_zdiv_nonneg_iff)
qed

lemma join_index_bounds:
  assumes "in_shape shape cs" and "\<forall>s\<in>set shape. 0 < s"
  shows "index * prod_list shape \<le> join_index index (zip shape cs)
    \<and> join_index index (zip shape cs) < (index + 1) * prod_list shape"
  using assms
proof (induction shape cs arbitrary: index rule: list_induct2')
  case (4 s shape c cs)
  then have c: "0 \<le> c" "c < s" and rest: "in_shape shape cs" by (auto simp: in_shape_def)
  have pos: "0 \<le> prod_list shape" using positive_prod [of shape] "4.prems"(2) by simp
  have "index * s * prod_list shape \<le> (index * s + c) * prod_list shape"
    using c pos by (intro mult_right_mono) simp_all
  moreover have "(index * s + c + 1) * prod_list shape \<le> (index + 1) * s * prod_list shape"
    using c pos by (intro mult_right_mono) (simp_all add: algebra_simps)
  ultimately show ?case
    using "4.IH" [OF rest, of "index * s + c"] "4.prems"(2) by (auto simp: mult.assoc)
qed (auto simp: in_shape_def)

lemma join_index_inject:
  assumes "in_shape shape cs" and "in_shape shape cs'"
  shows "join_index index (zip shape cs) = join_index index' (zip shape cs') \<Longrightarrow> index = index' \<and> cs = cs'"
  using assms
proof (induction shape arbitrary: cs cs' index index')
  case Nil
  then show ?case by (simp add: in_shape_def)
next
  case (Cons s shape)
  obtain c r c' r' where cs: "cs = c # r" "cs' = c' # r'"
    using Cons.prems by (auto simp: in_shape_def list_all2_Cons1)
  then have c: "0 \<le> c" "c < s" "0 \<le> c'" "c' < s" and rest: "in_shape shape r" "in_shape shape r'"
    using Cons.prems by (auto simp: in_shape_def)
  have eq: "index * s + c = index' * s + c'" and r: "r = r'"
    using Cons.IH [OF _ rest, of "index * s + c" "index' * s + c'"] Cons.prems(1) by (auto simp: cs)
  have "(index * s + c) div s = index" "(index' * s + c') div s = index'"
    using c by (simp_all add: div_pos_pos_trivial)
  with eq have "index = index'" by metis
  with eq r show ?case by (simp add: cs)
qed

section \<open>The scale of an element\<close>

lemma length_block_axes [simp]: "length (block_axes block axes cs) = length cs"
  by (induction axes arbitrary: cs) auto

lemma block_axes_nth:
  assumes "distinct axes" and "\<forall>axis\<in>set axes. 0 \<le> axis" and "i < length cs"
  shows "block_axes block axes cs ! i = (if int i \<in> set axes then cs ! i div block else cs ! i)"
  using assms
proof (induction axes arbitrary: cs)
  case Nil
  then show ?case by simp
next
  case (Cons axis axes)
  then have "axis = int (nat axis)" by simp
  with Cons show ?case by (auto simp: nth_list_update)
qed

definition geometry_ok :: "geometry \<Rightarrow> bool" where
  "geometry_ok g \<longleftrightarrow> geometry_init g = Inr g"

lemma geometry_okD:
  assumes "geometry_ok g"
  shows "\<forall>s\<in>set (ge_shape g). 0 < s" and "0 < ge_block_size g" and "distinct (scale_axes g)"
    and "\<forall>axis\<in>set (scale_axes g). 0 \<le> axis \<and> axis < int (length (ge_shape g))" and "ge_shape g \<noteq> []"
  using assms by (auto simp: geometry_ok_def geometry_init_def list_ex_iff Let_def not_le not_less split: if_splits)

definition block_coordinates :: "geometry \<Rightarrow> int \<Rightarrow> int list" where
  "block_coordinates g flat = block_axes (ge_block_size g) (scale_axes g) (coordinates (ge_shape g) flat)"

lemma length_scale_shape [simp]: "length (scale_shape g) = length (ge_shape g)"
  by (simp add: scale_shape_def)

lemma scale_shape_nth:
  "i < length (ge_shape g) \<Longrightarrow> scale_shape g ! i =
     (if int i \<in> set (scale_axes g) then (ge_shape g ! i + ge_block_size g - 1) div ge_block_size g else ge_shape g ! i)"
  by (simp add: scale_shape_def)

lemma block_in_blocks: "0 \<le> c \<Longrightarrow> c < s \<Longrightarrow> 0 < b \<Longrightarrow> c div b < (s + b - 1) div (b::int)"
proof -
  assume "0 \<le> c" "c < s" "0 < b"
  then have "(c + b) div b \<le> (s + b - 1) div b" by (intro zdiv_mono1) simp_all
  with \<open>0 < b\<close> show ?thesis by simp
qed

lemma blocks_in_shape:
  assumes "geometry_ok g"
  shows "in_shape (scale_shape g) (block_coordinates g flat)" and "\<forall>s\<in>set (scale_shape g). 0 < s"
proof -
  note g = geometry_okD [OF assms]
  have cs: "in_shape (ge_shape g) (coordinates (ge_shape g) flat)"
    by (rule coordinates_in_shape [OF g(1)])
  then have len: "length (coordinates (ge_shape g) flat) = length (ge_shape g)"
    by (auto simp: in_shape_def list_all2_lengthD)
  show "in_shape (scale_shape g) (block_coordinates g flat)"
    unfolding in_shape_def
  proof (rule list_all2_all_nthI)
    show "length (scale_shape g) = length (block_coordinates g flat)"
      by (simp add: block_coordinates_def len)
    fix i assume "i < length (scale_shape g)"
    then have i: "i < length (ge_shape g)" by simp
    then have "0 \<le> coordinates (ge_shape g) flat ! i \<and> coordinates (ge_shape g) flat ! i < ge_shape g ! i"
      using cs by (auto simp: in_shape_def list_all2_conv_all_nth)
    then show "0 \<le> block_coordinates g flat ! i \<and> block_coordinates g flat ! i < scale_shape g ! i"
      using i g(2,3,4) block_in_blocks
      by (auto simp: block_coordinates_def block_axes_nth len scale_shape_nth pos_imp_zdiv_nonneg_iff)
  qed
  show "\<forall>s\<in>set (scale_shape g). 0 < s"
  proof
    fix s assume "s \<in> set (scale_shape g)"
    then obtain i where i: "i < length (ge_shape g)" and s: "s = scale_shape g ! i" by (auto simp: in_set_conv_nth)
    have "0 < ge_shape g ! i" using g(1) i by simp
    with block_in_blocks [of 0 "ge_shape g ! i" "ge_block_size g"] g(2) show "0 < s"
      by (auto simp: s scale_shape_nth i)
  qed
qed

lemma scale_index_in_range:
  assumes "geometry_init g = Inr g" and "0 \<le> i" "i < elements_of g"
  shows "\<exists>s. scale_index g i = Inr s \<and> 0 \<le> s \<and> s < scale_count g"
  using join_index_bounds [OF blocks_in_shape [of g], of 0 i] assms
  by (simp add: geometry_ok_def scale_count_def scale_index_def block_coordinates_def)

text \<open>The scale index of every element of a valid geometry is an index into the scales, and two elements share
  their scale exactly when they agree in every coordinate up to the blocks of the blocked axes; blocks never reach
  across the end of an axis.\<close>
theorem scale_index_per_block:
  assumes "geometry_init g = Inr g" and "0 \<le> i" "i < elements_of g" and "0 \<le> j" "j < elements_of g"
  shows "\<exists>s t. scale_index g i = Inr s \<and> scale_index g j = Inr t \<and> 0 \<le> s \<and> s < scale_count g
    \<and> (s = t \<longleftrightarrow> (\<forall>a < length (ge_shape g).
          if int a \<in> set (scale_axes g)
          then coordinates (ge_shape g) i ! a div ge_block_size g = coordinates (ge_shape g) j ! a div ge_block_size g
          else coordinates (ge_shape g) i ! a = coordinates (ge_shape g) j ! a))"
proof -
  have ok: "geometry_ok g" using assms(1) by (simp add: geometry_ok_def)
  note g = geometry_okD [OF ok]
  have len: "length (coordinates (ge_shape g) k) = length (ge_shape g)" for k
    by (simp add: coordinates_def)
  let ?s = "\<lambda>k. join_index 0 (zip (scale_shape g) (block_coordinates g k))"
  have "?s i = ?s j \<longleftrightarrow> block_coordinates g i = block_coordinates g j"
    using join_index_inject [OF blocks_in_shape(1) [OF ok] blocks_in_shape(1) [OF ok]] by metis
  also have "\<dots> \<longleftrightarrow> (\<forall>a < length (ge_shape g). block_coordinates g i ! a = block_coordinates g j ! a)"
    by (simp add: list_eq_iff_nth_eq block_coordinates_def len)
  finally have same: "?s i = ?s j \<longleftrightarrow> (\<forall>a < length (ge_shape g). if int a \<in> set (scale_axes g)
          then coordinates (ge_shape g) i ! a div ge_block_size g = coordinates (ge_shape g) j ! a div ge_block_size g
          else coordinates (ge_shape g) i ! a = coordinates (ge_shape g) j ! a)"
    using g(3,4) by (auto simp: block_coordinates_def block_axes_nth len)
  have "0 \<le> ?s i \<and> ?s i < scale_count g"
    using scale_index_in_range [OF assms(1-3)] assms(2,3) by (auto simp: scale_index_def block_coordinates_def)
  with same assms show ?thesis
    by (simp add: scale_index_def block_coordinates_def)
qed

text \<open>A 2 by 5 tensor with blocks of 2 along its rows has 2 by 3 scales.\<close>

definition example_geometry :: geometry where
  "example_geometry = \<lparr>ge_shape = [2, 5], ge_scale_axis = OneAxis 1, ge_block_size = 2, ge_schema_version = 1\<rparr>"

theorem scale_index_per_block_witness:
  "scale_index example_geometry 4 = Inr 2 \<and> scale_index example_geometry 5 = Inr 3 \<and> scale_count example_geometry = 6
    \<and> (\<exists>s t. scale_index example_geometry 4 = Inr s \<and> scale_index example_geometry 5 = Inr t \<and> 0 \<le> s \<and> s < 6)"
proof -
  have count: "scale_count example_geometry = 6" and four: "scale_index example_geometry 4 = Inr 2"
    and five: "scale_index example_geometry 5 = Inr 3" by code_simp+
  have "geometry_init example_geometry = Inr example_geometry" and "elements_of example_geometry = 10" by code_simp+
  with scale_index_per_block [of example_geometry 4 5] count
  have "\<exists>s t. scale_index example_geometry 4 = Inr s \<and> scale_index example_geometry 5 = Inr t \<and> 0 \<le> s \<and> s < 6" by auto
  with count four five show ?thesis by blast
qed

end
