(* ===== verification/NumericFormats.thy ===== *)
theory NumericFormats
  imports NumericPacking TensorGeometry
begin

unbundle bit_operations_syntax

text \<open>
  \<open>vllm_apple/numeric_formats.py\<close>: format descriptors, the registry that plans conversions, and the conversion of
  NVFP4 (4-bit E2M1 codes with E4M3 block scales) to scaled INT8.  A multiplication of floats, which may overflow to an
  infinity, is the parameter \<open>fmul\<close>; SHA-256, of bytes and of a canonically printed JSON value, and
  \<open>float.hex\<close> are the parameters \<open>digests\<close>.  A zero has no sign here: the source, too, promises only
  numeric equality.
\<close>

section \<open>Descriptors and plans\<close>

record descriptor =
  fd_encoding :: string
  fd_elements :: int
  fd_block_size :: int
  fd_packing :: string
  fd_scale_encoding :: string
  fd_layout :: string
  fd_value_multiplier :: xfloat
  fd_schema_version :: int

definition descriptor_init :: "descriptor \<Rightarrow> descriptor result" where
  "descriptor_init d =
     (if fd_schema_version d \<noteq> 1 then Inl (ValueError ''unsupported descriptor version'')
      else if \<not> (0 < fd_elements d \<and> fd_elements d \<le> MAX_REFERENCE_ELEMENTS)
      then Inl (ValueError ''reference element count must be in 1..65536'')
      else if fd_block_size d \<le> 0 then Inl (ValueError ''invalid block size'')
      else if \<not> isfinite (fd_value_multiplier d) \<or> x_le (fd_value_multiplier d) 0
      then Inl (ValueError ''invalid value multiplier'')
      else if list_ex (\<lambda>v. \<not> (0 < length v \<and> length v \<le> 64)) [fd_encoding d, fd_packing d, fd_scale_encoding d, fd_layout d]
      then Inl (ValueError ''invalid format identifier'')
      else Inr d)"

record conversion_plan =
  cv_source :: descriptor
  cv_target :: descriptor
  cv_adapter :: string
  cv_schema_version :: int

record tensor_plan =
  tp_format_plan :: conversion_plan
  tp_geometry :: geometry
  tp_schema_version :: int

definition tensor_plan_init :: "tensor_plan \<Rightarrow> tensor_plan result" where
  "tensor_plan_init p =
     (if tp_schema_version p \<noteq> 1 then Inl (ValueError ''unsupported tensor plan version'')
      else if list_ex (\<lambda>d. fd_elements d \<noteq> elements_of (tp_geometry p) \<or> fd_block_size d \<noteq> ge_block_size (tp_geometry p))
        [cv_source (tp_format_plan p), cv_target (tp_format_plan p)]
      then Inl (ValueError ''format and geometry mismatch'')
      else Inr p)"

text \<open>Where the source takes a \<open>ConversionPlan | TensorConversionPlan\<close>.\<close>

datatype any_plan = FormatPlan conversion_plan | TensorPlan tensor_plan

fun format_plan :: "any_plan \<Rightarrow> conversion_plan" where
  "format_plan (FormatPlan p) = p"
| "format_plan (TensorPlan p) = tp_format_plan p"

fun plan_geometry :: "any_plan \<Rightarrow> geometry option" where
  "plan_geometry (FormatPlan p) = None"
| "plan_geometry (TensorPlan p) = Some (tp_geometry p)"

section \<open>The registry\<close>

record conversion_adapter =
  ca_adapter_id :: string
  ca_source :: descriptor
  ca_target :: descriptor

definition conversion_adapter_init :: "conversion_adapter \<Rightarrow> conversion_adapter result" where
  "conversion_adapter_init a =
     (if \<not> (0 < length (ca_adapter_id a) \<and> length (ca_adapter_id a) \<le> 128)
        \<or> list_ex (\<lambda>c. c \<notin> set ''abcdefghijklmnopqrstuvwxyz0123456789_'') (ca_adapter_id a)
      then Inl (ValueError ''invalid adapter identifier'')
      else if fd_elements (ca_source a) \<noteq> 1 \<or> fd_elements (ca_target a) \<noteq> 1
      then Inl (ValueError ''adapter templates must have one element'')
      else Inr a)"

type_synonym conversion_registry = "conversion_adapter list"

definition conversion_registry_init :: "conversion_registry \<Rightarrow> conversion_registry result" where
  "conversion_registry_init adapters =
     (if length adapters > 256 then Inl (ValueError ''registry requires at most 256 immutable adapter entries'')
      else if \<not> distinct (map ca_adapter_id adapters) then Inl (ValueError ''duplicate adapter identifier'')
      else Inr adapters)"

definition register_adapter :: "conversion_registry \<Rightarrow> conversion_adapter \<Rightarrow> conversion_registry result" where
  "register_adapter adapters a = conversion_registry_init (adapters @ [a])"

definition plan_conversion :: "conversion_registry \<Rightarrow> descriptor \<Rightarrow> descriptor option \<Rightarrow> string option \<Rightarrow> conversion_plan result" where
  "plan_conversion adapters source tgt adapter_id =
     (let candidates = [\<lparr>cv_source = source, cv_target = (ca_target item)\<lparr>fd_elements := fd_elements source\<rparr>,
                          cv_adapter = ca_adapter_id item, cv_schema_version = 1\<rparr>.
                        item \<leftarrow> adapters, source\<lparr>fd_elements := 1\<rparr> = ca_source item
                          \<and> (adapter_id = None \<or> adapter_id = Some (ca_adapter_id item))];
          chosen = (case tgt of None \<Rightarrow> candidates | Some t \<Rightarrow> filter (\<lambda>p. cv_target p = t) candidates)
      in case chosen of
           [] \<Rightarrow> Inl (ValueError ''unsupported numeric format route'')
         | [p] \<Rightarrow> Inr p
         | _ \<Rightarrow> Inl (ValueError ''ambiguous numeric format route; specify target or adapter_id''))"

definition plan_tensor :: "conversion_registry \<Rightarrow> descriptor \<Rightarrow> geometry \<Rightarrow> descriptor option \<Rightarrow> string option \<Rightarrow> tensor_plan result" where
  "plan_tensor adapters source g tgt adapter_id =
     (case plan_conversion adapters source tgt adapter_id of
        Inl e \<Rightarrow> Inl e
      | Inr p \<Rightarrow> tensor_plan_init \<lparr>tp_format_plan = p, tp_geometry = g, tp_schema_version = 1\<rparr>)"

definition nvfp4_template :: descriptor where
  "nvfp4_template = \<lparr>fd_encoding = ''nvfp4_e2m1'', fd_elements = 1, fd_block_size = 16, fd_packing = ''low_nibble_first'',
     fd_scale_encoding = ''e4m3fn'', fd_layout = ''contiguous_1d'', fd_value_multiplier = Fin 1, fd_schema_version = 1\<rparr>"

definition SCALED_INT8_TEMPLATE :: descriptor where
  "SCALED_INT8_TEMPLATE = nvfp4_template\<lparr>fd_encoding := ''scaled_int8'', fd_packing := ''signed_byte'', fd_value_multiplier := Fin (1/2)\<rparr>"

definition DEFAULT_CONVERSION_REGISTRY :: conversion_registry where
  "DEFAULT_CONVERSION_REGISTRY =
     [\<lparr>ca_adapter_id = ''nvfp4_int8_cpu_reference_v1'', ca_source = nvfp4_template, ca_target = SCALED_INT8_TEMPLATE\<rparr>,
      \<lparr>ca_adapter_id = ''nvfp4_high_nibble_int8_cpu_reference_v1'',
       ca_source = nvfp4_template\<lparr>fd_packing := ''high_nibble_first''\<rparr>, ca_target = SCALED_INT8_TEMPLATE\<rparr>]"

section \<open>NVFP4\<close>

definition E2M1_TWICE :: "int list" where
  "E2M1_TWICE = [0, 1, 2, 3, 4, 6, 8, 12]"

text \<open>\<open>math.ldexp(m, e)\<close>.\<close>

definition ldexp :: "rat \<Rightarrow> int \<Rightarrow> rat" where
  "ldexp m e = (if 0 \<le> e then m * 2 ^ nat e else m / 2 ^ nat (- e))"

definition scale_value :: "byte \<Rightarrow> rat result" where
  "scale_value code =
     (if 127 \<le> uint code then Inl (ValueError ''block scale must be nonnegative finite E4M3FN'')
      else let exponent = drop_bit 3 (uint code); mantissa = uint code AND 7
           in Inr (if exponent = 0 then ldexp (of_int mantissa) (- 9) else ldexp (1 + of_int mantissa / 8) (exponent - 7)))"

fun check_scales :: "(xfloat \<Rightarrow> xfloat \<Rightarrow> xfloat) \<Rightarrow> xfloat \<Rightarrow> byte list \<Rightarrow> unit result" where
  "check_scales fmul global [] = Inr ()"
| "check_scales fmul global (code # codes) =
     (case scale_value code of
        Inl e \<Rightarrow> Inl e
      | Inr s \<Rightarrow> if \<not> isfinite (fmul (fmul (Fin s) global) (Fin 6)) then Inl (ValueError ''reference scale overflow'')
                 else check_scales fmul global codes)"

definition make_plan :: "descriptor \<Rightarrow> geometry option \<Rightarrow> any_plan result" where
  "make_plan d g =
     (case g of
        None \<Rightarrow> (case plan_conversion DEFAULT_CONVERSION_REGISTRY d None None of Inl e \<Rightarrow> Inl e | Inr p \<Rightarrow> Inr (FormatPlan p))
      | Some g \<Rightarrow> (case plan_tensor DEFAULT_CONVERSION_REGISTRY d g None None of Inl e \<Rightarrow> Inl e | Inr p \<Rightarrow> Inr (TensorPlan p)))"

definition validate_inputs :: "(xfloat \<Rightarrow> xfloat \<Rightarrow> xfloat) \<Rightarrow> descriptor \<Rightarrow> byte list \<Rightarrow> byte list \<Rightarrow> xfloat
    \<Rightarrow> geometry option \<Rightarrow> any_plan result" where
  "validate_inputs fmul d packed scales global g =
     (case make_plan d g of
        Inl e \<Rightarrow> Inl e
      | Inr p \<Rightarrow>
          if int (length packed) \<noteq> (fd_elements d + 1) div 2 then Inl (ValueError ''packed payload size mismatch'')
          else if int (length scales) \<noteq> (case g of None \<Rightarrow> (fd_elements d + 15) div 16 | Some g \<Rightarrow> scale_count g)
          then Inl (ValueError ''block scale count mismatch'')
          else if \<not> isfinite global \<or> x_less global 0 then Inl (ValueError ''invalid global scale'')
          else case check_scales fmul global scales of
                 Inl e \<Rightarrow> Inl e
               | Inr u \<Rightarrow>
                   if fd_elements d mod 2 \<noteq> 0
                      \<and> (if fd_packing d = ''low_nibble_first'' then drop_bit 4 (uint (last packed)) else uint (last packed) AND 15) \<noteq> 0
                   then Inl (ValueError ''unused padding nibble must be zero'')
                   else Inr p)"

definition nibble_codes :: "byte list \<Rightarrow> nat \<Rightarrow> string \<Rightarrow> int list result" where
  "nibble_codes packed elements packing =
     (if packing \<notin> {''low_nibble_first'', ''high_nibble_first''} then Inl (ValueError ''unsupported packed nibble order'')
      else Inr (map (\<lambda>index. let shift = (if packing = ''low_nibble_first'' then 4 * (index mod 2) else 4 * (1 - index mod 2))
                             in drop_bit shift (uint (packed ! (index div 2))) AND 15) [0..<elements]))"

text \<open>The scale of an element.\<close>

definition scale_at :: "geometry option \<Rightarrow> byte list \<Rightarrow> nat \<Rightarrow> rat result" where
  "scale_at g scales index =
     (case g of
        None \<Rightarrow> scale_value (scales ! (index div 16))
      | Some g \<Rightarrow> (case scale_index g (int index) of Inl e \<Rightarrow> Inl e | Inr i \<Rightarrow> scale_value (scales ! nat i)))"

text \<open>A tuple of values, or the first error.\<close>

fun collect :: "('a \<Rightarrow> 'b result) \<Rightarrow> 'a list \<Rightarrow> 'b list result" where
  "collect f [] = Inr []"
| "collect f (x # xs) =
     (case f x of Inl e \<Rightarrow> Inl e | Inr y \<Rightarrow> (case collect f xs of Inl e \<Rightarrow> Inl e | Inr ys \<Rightarrow> Inr (y # ys)))"

definition scaled :: "(xfloat \<Rightarrow> xfloat \<Rightarrow> xfloat) \<Rightarrow> xfloat \<Rightarrow> geometry option \<Rightarrow> byte list \<Rightarrow> nat \<times> rat \<Rightarrow> xfloat result" where
  "scaled fmul global g scales e =
     (case scale_at g scales (fst e) of
        Inl er \<Rightarrow> Inl er
      | Inr s \<Rightarrow> Inr (fmul (fmul (Fin (snd e)) (Fin s)) global))"

definition e2m1_value :: "int \<Rightarrow> rat" where
  "e2m1_value code = (if code AND 8 \<noteq> 0 then - 1 else 1) * (of_int (E2M1_TWICE ! nat (code AND 7)) / 2)"

definition decode_nvfp4 :: "(xfloat \<Rightarrow> xfloat \<Rightarrow> xfloat) \<Rightarrow> descriptor \<Rightarrow> byte list \<Rightarrow> byte list \<Rightarrow> xfloat
    \<Rightarrow> geometry option \<Rightarrow> xfloat list result" where
  "decode_nvfp4 fmul d packed scales global g =
     (case validate_inputs fmul d packed scales global g of
        Inl e \<Rightarrow> Inl e
      | Inr p \<Rightarrow>
          (case nibble_codes packed (nat (fd_elements d)) (fd_packing d) of
             Inl e \<Rightarrow> Inl e
           | Inr codes \<Rightarrow> collect (scaled fmul global g scales) (zip [0..<length codes] (map e2m1_value codes))))"

section \<open>Digests\<close>

record digests =
  dg_json :: "json \<Rightarrow> string"
  dg_bytes :: "byte list \<Rightarrow> string"
  dg_hex :: "xfloat \<Rightarrow> string"

definition descriptor_json :: "descriptor \<Rightarrow> json" where
  "descriptor_json d = JObj [(''encoding'', JStr (fd_encoding d)), (''elements'', JInt (fd_elements d)),
     (''block_size'', JInt (fd_block_size d)), (''packing'', JStr (fd_packing d)), (''scale_encoding'', JStr (fd_scale_encoding d)),
     (''layout'', JStr (fd_layout d)), (''value_multiplier'', JFloat (fd_value_multiplier d)),
     (''schema_version'', JInt (fd_schema_version d))]"

definition conversion_plan_json :: "conversion_plan \<Rightarrow> json" where
  "conversion_plan_json p = JObj [(''source'', descriptor_json (cv_source p)), (''target'', descriptor_json (cv_target p)),
     (''adapter'', JStr (cv_adapter p)), (''schema_version'', JInt (cv_schema_version p))]"

definition geometry_json :: "geometry \<Rightarrow> json" where
  "geometry_json g = JObj [(''shape'', JList (map JInt (ge_shape g))),
     (''scale_axis'', case ge_scale_axis g of OneAxis axis \<Rightarrow> JInt axis | ManyAxes axes \<Rightarrow> JList (map JInt axes)),
     (''block_size'', JInt (ge_block_size g)), (''schema_version'', JInt (ge_schema_version g))]"

fun plan_id :: "digests \<Rightarrow> any_plan \<Rightarrow> string" where
  "plan_id dg (FormatPlan p) = dg_json dg (conversion_plan_json p)"
| "plan_id dg (TensorPlan p) = dg_json dg (JObj [(''format_plan'', conversion_plan_json (tp_format_plan p)),
     (''geometry'', geometry_json (tp_geometry p)), (''schema_version'', JInt (tp_schema_version p))])"

definition is_sha256 :: "string \<Rightarrow> bool" where
  "is_sha256 s \<longleftrightarrow> length s = 64 \<and> list_all is_hex s"

definition digest_from_hashes :: "digests \<Rightarrow> any_plan \<Rightarrow> string \<Rightarrow> string \<Rightarrow> xfloat \<Rightarrow> string \<Rightarrow> string result" where
  "digest_from_hashes dg p payload_sha256 scales_sha256 global role =
     (if \<not> is_sha256 payload_sha256 \<or> \<not> is_sha256 scales_sha256 then Inl (ValueError ''invalid numeric content SHA-256'')
      else if role \<notin> {''source'', ''target''} then Inl (ValueError ''invalid numeric content digest role'')
      else if \<not> isfinite global then Inl (ValueError ''invalid numeric content global scale'')
      else Inr (dg_json dg (JObj [(''version'', JInt 1), (''role'', JStr role), (''plan_id'', JStr (plan_id dg p)),
                  (''payload_sha256'', JStr payload_sha256), (''scales_sha256'', JStr scales_sha256),
                  (''global_scale'', JStr (dg_hex dg global))])))"

definition content_digest :: "digests \<Rightarrow> any_plan \<Rightarrow> byte list \<Rightarrow> byte list \<Rightarrow> xfloat \<Rightarrow> string \<Rightarrow> string result" where
  "content_digest dg p payload scales global role =
     digest_from_hashes dg p (dg_bytes dg payload) (dg_bytes dg scales) global role"

section \<open>Scaled INT8\<close>

record int8_tensor =
  it_plan :: any_plan
  it_payload :: "byte list"
  it_block_scales :: "byte list"
  it_global_scale :: xfloat
  it_source_digest :: string
  it_target_digest :: string

definition allowed_int8 :: "byte list" where
  "allowed_int8 = concat (map (\<lambda>m. [word_of_int m, word_of_int (- m)]) E2M1_TWICE)"

definition int8_tensor_init :: "digests \<Rightarrow> (xfloat \<Rightarrow> xfloat \<Rightarrow> xfloat) \<Rightarrow> int8_tensor \<Rightarrow> int8_tensor result" where
  "int8_tensor_init dg fmul t =
     (let fp = format_plan (it_plan t)
      in case plan_conversion DEFAULT_CONVERSION_REGISTRY (cv_source fp) None (Some (cv_adapter fp)) of
           Inl e \<Rightarrow> Inl e
         | Inr expected \<Rightarrow>
             if fp \<noteq> expected then Inl (ValueError ''unsupported conversion plan'')
             else if int (length (it_payload t)) \<noteq> fd_elements (cv_target fp) then Inl (ValueError ''INT8 payload size mismatch'')
             else if list_ex (\<lambda>v. v \<notin> set allowed_int8) (it_payload t) then Inl (ValueError ''invalid reference INT8 value'')
             else case validate_inputs fmul (cv_source fp) (replicate (nat ((fd_elements (cv_source fp) + 1) div 2)) 0)
                         (it_block_scales t) (it_global_scale t) (plan_geometry (it_plan t)) of
                    Inl e \<Rightarrow> Inl e
                  | Inr p \<Rightarrow>
                      if \<not> is_sha256 (it_source_digest t) then Inl (ValueError ''invalid source digest'')
                      else case content_digest dg (it_plan t) (it_payload t) (it_block_scales t) (it_global_scale t) ''target'' of
                             Inl e \<Rightarrow> Inl e
                           | Inr expected_digest \<Rightarrow>
                               if it_target_digest t \<noteq> expected_digest then Inl (ValueError ''target content digest mismatch'')
                               else Inr t)"

definition int8_value :: "byte \<Rightarrow> rat" where
  "int8_value v = (if uint v < 128 then of_int (uint v) else of_int (uint v - 256)) / 2"

definition reference_values :: "(xfloat \<Rightarrow> xfloat \<Rightarrow> xfloat) \<Rightarrow> int8_tensor \<Rightarrow> xfloat list result" where
  "reference_values fmul t =
     collect (scaled fmul (it_global_scale t) (plan_geometry (it_plan t)) (it_block_scales t))
       (zip [0..<length (it_payload t)] (map int8_value (it_payload t)))"

definition int8_code :: "int \<Rightarrow> byte" where
  "int8_code code = word_of_int ((if code AND 8 \<noteq> 0 then - 1 else 1) * E2M1_TWICE ! nat (code AND 7) AND 255)"

definition convert_nvfp4 :: "digests \<Rightarrow> (xfloat \<Rightarrow> xfloat \<Rightarrow> xfloat) \<Rightarrow> descriptor \<Rightarrow> byte list \<Rightarrow> byte list \<Rightarrow> xfloat
    \<Rightarrow> geometry option \<Rightarrow> int8_tensor result" where
  "convert_nvfp4 dg fmul d packed scales global g =
     (case validate_inputs fmul d packed scales global g of
        Inl e \<Rightarrow> Inl e
      | Inr p \<Rightarrow>
          (case nibble_codes packed (nat (fd_elements d)) (fd_packing d) of
             Inl e \<Rightarrow> Inl e
           | Inr codes \<Rightarrow>
               let payload = map int8_code codes
               in case content_digest dg p packed scales global ''source'' of
                    Inl e \<Rightarrow> Inl e
                  | Inr source_digest \<Rightarrow>
                      (case content_digest dg p payload scales global ''target'' of
                         Inl e \<Rightarrow> Inl e
                       | Inr target_digest \<Rightarrow>
                           int8_tensor_init dg fmul \<lparr>it_plan = p, it_payload = payload, it_block_scales = scales,
                             it_global_scale = global, it_source_digest = source_digest, it_target_digest = target_digest\<rparr>)))"

definition verify_source :: "digests \<Rightarrow> (xfloat \<Rightarrow> xfloat \<Rightarrow> xfloat) \<Rightarrow> int8_tensor \<Rightarrow> descriptor \<Rightarrow> byte list \<Rightarrow> byte list
    \<Rightarrow> xfloat \<Rightarrow> geometry option \<Rightarrow> unit result" where
  "verify_source dg fmul t d packed scales global g =
     (case convert_nvfp4 dg fmul d packed scales global g of
        Inl e \<Rightarrow> Inl e
      | Inr expected \<Rightarrow> if t \<noteq> expected then Inl (ValueError ''conversion source or output mismatch'') else Inr ())"

section \<open>The conversion keeps the values\<close>

definition nibbles :: "int list" where
  "nibbles = [0, 1, 2, 3, 4, 5, 6, 7, 8, 9, 10, 11, 12, 13, 14, 15]"

lemma set_nibbles: "set nibbles = {0..<16}"
  unfolding nibbles_def by (simp add: set_eq_iff) presburger

lemma four_bits: "x AND 15 \<in> set nibbles"
proof -
  have "x AND 15 = x mod 16"
    using take_bit_eq_mask [of 4 x] by (simp add: mask_eq_exp_minus_1 take_bit_eq_mod)
  then show ?thesis by (simp add: set_nibbles)
qed

lemma int8_of_code:
  assumes "c \<in> set nibbles"
  shows "int8_value (int8_code c) = e2m1_value c" and "int8_code c \<in> set allowed_int8"
proof -
  have "list_all (\<lambda>c. int8_value (int8_code c) = e2m1_value c \<and> int8_code c \<in> set allowed_int8) nibbles"
    by code_simp
  with assms show "int8_value (int8_code c) = e2m1_value c" and "int8_code c \<in> set allowed_int8"
    by (auto simp only: list_all_iff)
qed

lemma nibbles_are_codes:
  "nibble_codes packed n packing = Inr codes \<Longrightarrow> length codes = n \<and> (\<forall>c\<in>set codes. c \<in> set nibbles)"
  using four_bits by (auto simp: nibble_codes_def Let_def split: if_splits)

lemma template_packing: "nvfp4_template \<noteq> nvfp4_template\<lparr>fd_packing := ''high_nibble_first''\<rparr>"
    "nvfp4_template\<lparr>fd_packing := ''high_nibble_first''\<rparr> \<noteq> nvfp4_template"
    "fd_packing nvfp4_template = ''low_nibble_first''"
  by (simp_all add: nvfp4_template_def)

lemma default_plan_unique:
  assumes "plan_conversion DEFAULT_CONVERSION_REGISTRY d None None = Inr p"
  shows "plan_conversion DEFAULT_CONVERSION_REGISTRY d None (Some (cv_adapter p)) = Inr p"
    and "fd_packing d \<in> {''low_nibble_first'', ''high_nibble_first''}"
proof -
  let ?d = "d\<lparr>fd_elements := 1\<rparr>"
  note plan = assms [unfolded plan_conversion_def DEFAULT_CONVERSION_REGISTRY_def Let_def]
  have packing: "fd_packing d = fd_packing ?d" by simp
  consider (low) "?d = nvfp4_template" | (high) "?d = nvfp4_template\<lparr>fd_packing := ''high_nibble_first''\<rparr>"
    using plan by (auto split: if_splits)
  then have "plan_conversion DEFAULT_CONVERSION_REGISTRY d None (Some (cv_adapter p)) = Inr p
      \<and> fd_packing d \<in> {''low_nibble_first'', ''high_nibble_first''}"
  proof cases
    case low
    from plan have "p = \<lparr>cv_source = d, cv_target = SCALED_INT8_TEMPLATE\<lparr>fd_elements := fd_elements d\<rparr>,
        cv_adapter = ''nvfp4_int8_cpu_reference_v1'', cv_schema_version = 1\<rparr>"
      by (simp add: low template_packing)
    then show ?thesis
      unfolding packing
      by (simp add: plan_conversion_def DEFAULT_CONVERSION_REGISTRY_def low template_packing)
  next
    case high
    from plan have "p = \<lparr>cv_source = d, cv_target = SCALED_INT8_TEMPLATE\<lparr>fd_elements := fd_elements d\<rparr>,
        cv_adapter = ''nvfp4_high_nibble_int8_cpu_reference_v1'', cv_schema_version = 1\<rparr>"
      by (simp add: high template_packing)
    then show ?thesis
      unfolding packing
      by (simp add: plan_conversion_def DEFAULT_CONVERSION_REGISTRY_def high template_packing)
  qed
  then show "plan_conversion DEFAULT_CONVERSION_REGISTRY d None (Some (cv_adapter p)) = Inr p"
    and "fd_packing d \<in> {''low_nibble_first'', ''high_nibble_first''}" by auto
qed

lemma default_plan:
  assumes "plan_conversion DEFAULT_CONVERSION_REGISTRY d None None = Inr p"
  shows "cv_source p = d" and "fd_elements (cv_target p) = fd_elements d"
  using assms unfolding plan_conversion_def DEFAULT_CONVERSION_REGISTRY_def Let_def by (auto split: if_splits)

lemma made_plan:
  assumes "make_plan d g = Inr p"
  shows "plan_conversion DEFAULT_CONVERSION_REGISTRY d None None = Inr (format_plan p)" and "plan_geometry p = g"
    and "g = Some g' \<Longrightarrow> fd_elements d = elements_of g'"
  using assms default_plan(1,2)
  by (auto simp: make_plan_def plan_tensor_def tensor_plan_init_def split: option.splits sum.splits if_splits)

lemma validated:
  assumes "validate_inputs fmul d packed scales global g = Inr p"
  shows "make_plan d g = Inr p" and "int (length packed) = (fd_elements d + 1) div 2" and "isfinite global"
    and "int (length scales) = (case g of None \<Rightarrow> (fd_elements d + 15) div 16 | Some g \<Rightarrow> scale_count g)"
    and "check_scales fmul global scales = Inr ()"
  using assms unfolding validate_inputs_def by (auto split: sum.splits if_splits)

lemma validate_zeros:
  assumes "validate_inputs fmul d packed scales global g = Inr p" and "0 < fd_elements d"
  shows "validate_inputs fmul d (replicate (nat ((fd_elements d + 1) div 2)) 0) scales global g = Inr p"
proof -
  have "nat ((fd_elements d + 1) div 2) \<noteq> 0" using assms(2) by simp
  then have "last (replicate (nat ((fd_elements d + 1) div 2)) 0) = (0 :: byte)" by (simp add: last_replicate)
  with assms show ?thesis
    unfolding validate_inputs_def by (auto split: sum.splits if_splits)
qed

lemma checked_scales: "check_scales fmul global codes = Inr () \<Longrightarrow> c \<in> set codes \<Longrightarrow> \<exists>s. scale_value c = Inr s"
  by (induction codes) (auto split: sum.splits if_splits)

lemma scale_present:
  assumes "validate_inputs fmul d packed scales global g = Inr p" and "\<And>g'. g = Some g' \<Longrightarrow> geometry_init g' = Inr g'"
    and "int i < fd_elements d"
  shows "\<exists>s. scale_at g scales i = Inr s"
proof (cases g)
  case None
  have "int (i div 16) < (fd_elements d + 15) div 16"
    using assms(3) by (simp add: zdiv_int)
  then have "i div 16 < length scales"
    using validated(4) [OF assms(1)] None by simp
  with checked_scales [OF validated(5) [OF assms(1)]] None show ?thesis
    by (simp add: scale_at_def)
next
  case (Some g')
  have "fd_elements d = elements_of g'"
    by (rule made_plan(3) [OF validated(1) [OF assms(1)] Some])
  then obtain s where s: "scale_index g' (int i) = Inr s" "0 \<le> s" "s < scale_count g'"
    using scale_index_in_range [OF assms(2) [OF Some], of "int i"] assms(3) by auto
  then have "nat s < length scales"
    using validated(4) [OF assms(1)] Some by simp
  with checked_scales [OF validated(5) [OF assms(1)]] s Some show ?thesis
    by (simp add: scale_at_def)
qed

lemma collect_ok: "(\<And>x. x \<in> set xs \<Longrightarrow> \<exists>y. f x = Inr y) \<Longrightarrow> \<exists>ys. collect f xs = Inr ys \<and> length ys = length xs"
proof (induction xs)
  case (Cons x xs)
  then obtain ys where "collect f xs = Inr ys" "length ys = length xs" by auto
  moreover obtain y where "f x = Inr y" using Cons.prems [of x] by auto
  ultimately show ?case by simp
qed simp

definition sha256_like :: "digests \<Rightarrow> bool" where
  "sha256_like dg \<longleftrightarrow> (\<forall>x. is_sha256 (dg_json dg x)) \<and> (\<forall>b. is_sha256 (dg_bytes dg b))"

lemma digest_defined:
  assumes "sha256_like dg" and "isfinite global" and "role \<in> {''source'', ''target''}"
  obtains h where "content_digest dg p payload scales global role = Inr h" and "is_sha256 h"
  using assms by (auto simp: sha256_like_def content_digest_def digest_from_hashes_def)

text \<open>A conversion that passes the input checks builds a tensor that passes its own.\<close>

lemma converted:
  assumes sha: "sha256_like dg" and pos: "0 < fd_elements d" and valid: "validate_inputs fmul d packed scales global g = Inr p"
    and codes: "nibble_codes packed (nat (fd_elements d)) (fd_packing d) = Inr codes"
  obtains source_digest target_digest where "convert_nvfp4 dg fmul d packed scales global g =
    Inr \<lparr>it_plan = p, it_payload = map int8_code codes, it_block_scales = scales, it_global_scale = global,
         it_source_digest = source_digest, it_target_digest = target_digest\<rparr>"
proof -
  obtain h where h: "content_digest dg p packed scales global ''source'' = Inr h" "is_sha256 h"
    using digest_defined [OF sha validated(3) [OF valid]] by blast
  obtain h' where h': "content_digest dg p (map int8_code codes) scales global ''target'' = Inr h'"
    using digest_defined [OF sha validated(3) [OF valid]] by blast
  note plan = made_plan(1,2) [OF validated(1) [OF valid]]
  have "int (length codes) = fd_elements d" and allowed: "\<forall>c\<in>set codes. int8_code c \<in> set allowed_int8"
    using nibbles_are_codes [OF codes] int8_of_code(2) pos by auto
  then have "int8_tensor_init dg fmul \<lparr>it_plan = p, it_payload = map int8_code codes, it_block_scales = scales, it_global_scale = global,
      it_source_digest = h, it_target_digest = h'\<rparr> = Inr \<lparr>it_plan = p, it_payload = map int8_code codes,
      it_block_scales = scales, it_global_scale = global, it_source_digest = h, it_target_digest = h'\<rparr>"
    using default_plan [OF plan(1)] default_plan_unique(1) [OF plan(1)] plan(2) validate_zeros [OF valid pos] h(2) h'
    by (simp add: int8_tensor_init_def Let_def list_ex_iff)
  with that valid codes h(1) h' show thesis
    by (simp add: convert_nvfp4_def Let_def)
qed

text \<open>C21: Converting an NVFP4 tensor to scaled INT8 keeps its values exactly: the conversion fails exactly when decoding
  fails, with the same error; otherwise the tensor it builds passes its own checks, reads back the values that decoding
  gives, one per element, and is verified against its source.\<close>
theorem conversion_preserves_values:
  assumes "sha256_like dg" and "descriptor_init d = Inr d" and "\<And>g'. g = Some g' \<Longrightarrow> geometry_init g' = Inr g'"
  shows "case convert_nvfp4 dg fmul d packed scales global g of
      Inl e \<Rightarrow> decode_nvfp4 fmul d packed scales global g = Inl e
    | Inr t \<Rightarrow> (\<exists>vs. decode_nvfp4 fmul d packed scales global g = Inr vs \<and> reference_values fmul t = Inr vs
        \<and> int (length vs) = fd_elements d) \<and> verify_source dg fmul t d packed scales global g = Inr ()"
proof (cases "validate_inputs fmul d packed scales global g")
  case (Inl e)
  then show ?thesis by (simp add: convert_nvfp4_def decode_nvfp4_def)
next
  case (Inr p)
  have pos: "0 < fd_elements d" using assms(2) by (auto simp: descriptor_init_def split: if_splits)
  have "fd_packing d \<in> {''low_nibble_first'', ''high_nibble_first''}"
    by (rule default_plan_unique(2) [OF made_plan(1) [OF validated(1) [OF Inr]]])
  then obtain codes where codes: "nibble_codes packed (nat (fd_elements d)) (fd_packing d) = Inr codes"
    by (auto simp: nibble_codes_def)
  note facts = nibbles_are_codes [OF codes]
  obtain h h' where t: "convert_nvfp4 dg fmul d packed scales global g =
    Inr \<lparr>it_plan = p, it_payload = map int8_code codes, it_block_scales = scales, it_global_scale = global,
         it_source_digest = h, it_target_digest = h'\<rparr>"
    using converted [OF assms(1) pos Inr codes] by blast
  have same: "map int8_value (map int8_code codes) = map e2m1_value codes"
    using facts int8_of_code(1) by simp
  have "\<exists>vs. collect (scaled fmul global g scales) (zip [0..<length codes] (map e2m1_value codes)) = Inr vs
      \<and> length vs = length (zip [0..<length codes] (map e2m1_value codes))"
  proof (rule collect_ok)
    fix x assume "x \<in> set (zip [0..<length codes] (map e2m1_value codes))"
    then have "fst x \<in> set [0..<length codes]" by (metis prod.collapse set_zip_leftD)
    then have "fst x < nat (fd_elements d)" using facts by simp
    then have "int (fst x) < fd_elements d" by linarith
    with scale_present [OF Inr assms(3)] show "\<exists>y. scaled fmul global g scales x = Inr y"
      by (fastforce simp: scaled_def)
  qed
  then show ?thesis
    using t Inr codes same facts pos made_plan(2) [OF validated(1) [OF Inr]]
    by (auto simp: decode_nvfp4_def reference_values_def verify_source_def simp del: map_map)
qed

text \<open>Three elements, with an exact multiplication.\<close>

definition exact_mul :: "xfloat \<Rightarrow> xfloat \<Rightarrow> xfloat" where
  "exact_mul x y = Fin (fin_val x * fin_val y)"

definition example_digests :: digests where
  "example_digests = \<lparr>dg_json = (\<lambda>_. replicate 64 CHR ''0''), dg_bytes = (\<lambda>_. replicate 64 CHR ''1''), dg_hex = (\<lambda>_. ''0x1'')\<rparr>"

definition example_descriptor :: descriptor where
  "example_descriptor = nvfp4_template\<lparr>fd_elements := 3\<rparr>"

lemma example_decoded:
  "decode_nvfp4 exact_mul example_descriptor [0xA7, 0x05] [0x38] (Fin 2) None = Inr [Fin 12, Fin (- 2), Fin 6]"
  by code_simp

theorem conversion_preserves_values_witness:
  "\<exists>t. convert_nvfp4 example_digests exact_mul example_descriptor [0xA7, 0x05] [0x38] (Fin 2) None = Inr t
     \<and> reference_values exact_mul t = Inr [Fin 12, Fin (- 2), Fin 6]"
proof -
  have "sha256_like example_digests"
    by (simp add: sha256_like_def example_digests_def is_sha256_def list_all_iff is_hex_def)
  moreover have "descriptor_init example_descriptor = Inr example_descriptor"
    by (simp add: descriptor_init_def example_descriptor_def nvfp4_template_def MAX_REFERENCE_ELEMENTS_def)
  ultimately show ?thesis
    using conversion_preserves_values [of example_digests example_descriptor None exact_mul "[0xA7, 0x05]" "[0x38]" "Fin 2"]
    by (auto simp: example_decoded split: sum.splits)
qed

end
