(* ===== verification/NumericLayout.thy ===== *)
theory NumericLayout
  imports NumericFormats
begin

unbundle bit_operations_syntax

text \<open>
  \<open>vllm_apple/numeric_layout.py\<close>: how exporters store a matrix of codes (row or column major, padded rows, tiles in
  row-major or Morton order), and repacking into contiguous row-major order.  \<open>math.ceil(a / b)\<close> of the small
  integers here is exact and is written with \<open>div\<close>.  SHA-256 of canonical JSON is a parameter.  The check of
  identifiers reads \<open>str.isalnum\<close> on ASCII.
\<close>

definition MAX_LAYOUT_ELEMENTS :: int where
  "MAX_LAYOUT_ELEMENTS = 65536"

record layout =
  nl_rows :: int
  nl_columns :: int
  nl_order :: string
  nl_row_stride :: "int option"
  nl_tile_rows :: "int option"
  nl_tile_columns :: "int option"
  nl_padding_code :: int

definition ceil_div :: "int \<Rightarrow> int \<Rightarrow> int" where
  "ceil_div a b = - ((- a) div b)"

definition power_of_two :: "int option \<Rightarrow> bool" where
  "power_of_two v = (case v of None \<Rightarrow> False | Some v \<Rightarrow> 0 < v \<and> v AND (v - 1) = 0)"

definition logical_elements :: "layout \<Rightarrow> int" where
  "logical_elements l = nl_rows l * nl_columns l"

definition storage_elements :: "layout \<Rightarrow> int" where
  "storage_elements l =
     (if nl_order l = ''row_padded'' then nl_rows l * the (nl_row_stride l)
      else if take 5 (nl_order l) = ''tile_''
      then ceil_div (nl_rows l) (the (nl_tile_rows l)) * ceil_div (nl_columns l) (the (nl_tile_columns l))
             * the (nl_tile_rows l) * the (nl_tile_columns l)
      else logical_elements l)"

definition in_tile_range :: "int option \<Rightarrow> bool" where
  "in_tile_range v = (case v of None \<Rightarrow> False | Some v \<Rightarrow> 1 \<le> v \<and> v \<le> 16)"

definition layout_valid :: "layout \<Rightarrow> bool" where
  "layout_valid l =
     (if nl_order l = ''contiguous_row_major'' then nl_row_stride l = None \<and> nl_tile_rows l = None \<and> nl_tile_columns l = None
      else if nl_order l = ''column_major'' then nl_row_stride l = None \<and> nl_tile_rows l = None \<and> nl_tile_columns l = None
      else if nl_order l = ''row_padded''
      then (case nl_row_stride l of None \<Rightarrow> False | Some s \<Rightarrow> nl_columns l \<le> s) \<and> nl_tile_rows l = None \<and> nl_tile_columns l = None
      else if nl_order l \<in> {''tile_row_major'', ''tile_morton''}
      then nl_row_stride l = None \<and> in_tile_range (nl_tile_rows l) \<and> in_tile_range (nl_tile_columns l)
        \<and> (nl_order l = ''tile_morton'' \<longrightarrow> nl_tile_rows l = nl_tile_columns l
             \<and> power_of_two (nl_tile_rows l) \<and> power_of_two (nl_tile_columns l))
      else False)"

definition layout_init :: "layout \<Rightarrow> layout result" where
  "layout_init l =
     (if \<not> (1 \<le> nl_rows l * nl_columns l \<and> nl_rows l * nl_columns l \<le> MAX_LAYOUT_ELEMENTS)
        \<or> \<not> (0 \<le> nl_padding_code l \<and> nl_padding_code l \<le> 15)
      then Inl (ValueError ''invalid numeric layout shape'')
      else if \<not> layout_valid l \<or> MAX_LAYOUT_ELEMENTS * 4 < storage_elements l
      then Inl (ValueError ''unsupported numeric layout'')
      else Inr l)"

text \<open>The four rounds of the loop that interleaves the bits of row and column.\<close>

fun morton_bits :: "nat list \<Rightarrow> int \<Rightarrow> int \<Rightarrow> int \<Rightarrow> int" where
  "morton_bits [] row column output = output"
| "morton_bits (b # bs) row column output =
     morton_bits bs row column
       (output OR push_bit (2 * b) (drop_bit b column AND 1) OR push_bit (2 * b + 1) (drop_bit b row AND 1))"

definition morton :: "int \<Rightarrow> int \<Rightarrow> int" where
  "morton row column = morton_bits [0, 1, 2, 3] row column 0"

definition storage_index :: "layout \<Rightarrow> int \<Rightarrow> int \<Rightarrow> int result" where
  "storage_index l row column =
     (if \<not> (0 \<le> row \<and> row < nl_rows l) \<or> \<not> (0 \<le> column \<and> column < nl_columns l)
      then Inl (ValueError ''numeric layout coordinate is out of range'')
      else if nl_order l = ''contiguous_row_major'' then Inr (row * nl_columns l + column)
      else if nl_order l = ''column_major'' then Inr (column * nl_rows l + row)
      else if nl_order l = ''row_padded'' then Inr (row * the (nl_row_stride l) + column)
      else let tile_rows = the (nl_tile_rows l); tile_columns = the (nl_tile_columns l);
               tile_column_count = ceil_div (nl_columns l) tile_columns;
               tile_offset = (row div tile_rows * tile_column_count + column div tile_columns) * tile_rows * tile_columns
           in if nl_order l = ''tile_row_major''
              then Inr (tile_offset + row mod tile_rows * tile_columns + column mod tile_columns)
              else Inr (tile_offset + morton (row mod tile_rows) (column mod tile_columns)))"

definition layout_json :: "layout \<Rightarrow> json" where
  "layout_json l = JObj [(''rows'', JInt (nl_rows l)), (''columns'', JInt (nl_columns l)), (''order'', JStr (nl_order l)),
     (''row_stride'', j_option JInt (nl_row_stride l)), (''tile_rows'', j_option JInt (nl_tile_rows l)),
     (''tile_columns'', j_option JInt (nl_tile_columns l)), (''padding_code'', JInt (nl_padding_code l))]"

definition layout_id :: "(json \<Rightarrow> string) \<Rightarrow> layout \<Rightarrow> string" where
  "layout_id digest l = digest (layout_json l)"

section \<open>Repacking\<close>

definition nibble :: "byte list \<Rightarrow> nat \<Rightarrow> string \<Rightarrow> int" where
  "nibble payload index order =
     (let shift = (if order = ''low_nibble_first'' then 4 * (index mod 2) else 4 * (1 - index mod 2))
      in drop_bit shift (uint (payload ! (index div 2))) AND 15)"

definition cells :: "layout \<Rightarrow> (int \<times> int) list" where
  "cells l = [(row, column). row \<leftarrow> [0..nl_rows l - 1], column \<leftarrow> [0..nl_columns l - 1]]"

definition cell_indices :: "layout \<Rightarrow> int list result" where
  "cell_indices l = collect (\<lambda>(row, column). storage_index l row column) (cells l)"

fun put_nibbles :: "nat \<Rightarrow> int list \<Rightarrow> byte list \<Rightarrow> byte list" where
  "put_nibbles index [] output = output"
| "put_nibbles index (code # codes) output =
     put_nibbles (Suc index) codes
       (output[index div 2 := word_of_int (uint (output ! (index div 2)) OR push_bit (4 * (index mod 2)) code)])"

definition padding_mismatch :: "layout \<Rightarrow> int list \<Rightarrow> int list \<Rightarrow> bool" where
  "padding_mismatch l indices codes \<longleftrightarrow>
     list_ex (\<lambda>i. i \<notin> set indices \<and> codes ! nat i \<noteq> nl_padding_code l) [0..storage_elements l - 1]"

definition repack_packed_nibbles :: "byte list \<Rightarrow> layout \<Rightarrow> string \<Rightarrow> byte list result" where
  "repack_packed_nibbles packed l order =
     (if int (length packed) \<noteq> (storage_elements l + 1) div 2 \<or> order \<notin> {''low_nibble_first'', ''high_nibble_first''}
      then Inl (ValueError ''numeric packed layout payload is invalid'')
      else let codes = map (\<lambda>i. nibble packed i order) [0..<nat (storage_elements l)]
           in if storage_elements l mod 2 \<noteq> 0 \<and> nibble packed (nat (storage_elements l)) order \<noteq> nl_padding_code l
              then Inl (ValueError ''numeric layout trailing padding code mismatch'')
              else case cell_indices l of
                     Inl e \<Rightarrow> Inl e
                   | Inr indices \<Rightarrow>
                       if padding_mismatch l indices codes then Inl (ValueError ''numeric layout padding code mismatch'')
                       else let logical = map (\<lambda>i. codes ! nat i) indices
                            in Inr (put_nibbles 0 logical (replicate ((length logical + 1) div 2) 0)))"

definition repack_bytes :: "byte list \<Rightarrow> layout \<Rightarrow> byte list result" where
  "repack_bytes payload l =
     (if int (length payload) \<noteq> storage_elements l then Inl (ValueError ''numeric byte layout payload is invalid'')
      else case cell_indices l of
             Inl e \<Rightarrow> Inl e
           | Inr indices \<Rightarrow>
               if padding_mismatch l indices (map uint payload) then Inl (ValueError ''numeric layout padding code mismatch'')
               else Inr (map (\<lambda>i. payload ! nat i) indices))"

section \<open>Exporters\<close>

definition ascii_alnum :: "char \<Rightarrow> bool" where
  "ascii_alnum c \<longleftrightarrow> c \<in> set ''0123456789abcdefghijklmnopqrstuvwxyzABCDEFGHIJKLMNOPQRSTUVWXYZ''"

definition layout_identifier :: "string \<Rightarrow> bool" where
  "layout_identifier v \<longleftrightarrow> 1 \<le> length v \<and> length v \<le> 128 \<and> list_all (\<lambda>c. ascii_alnum c \<or> c \<in> set ''._-'') v"

record layout_adapter =
  la_exporter_id :: string
  la_recipe_id :: string
  la_value_layout :: layout
  la_scale_layout :: layout
  la_nibble_order :: string

definition layout_adapter_init :: "layout_adapter \<Rightarrow> layout_adapter result" where
  "layout_adapter_init a =
     (if \<not> layout_identifier (la_exporter_id a) \<or> \<not> layout_identifier (la_recipe_id a)
        \<or> la_nibble_order a \<notin> {''low_nibble_first'', ''high_nibble_first''}
      then Inl (ValueError ''invalid numeric exporter layout adapter'')
      else Inr a)"

definition layout_adapter_id :: "(json \<Rightarrow> string) \<Rightarrow> layout_adapter \<Rightarrow> string" where
  "layout_adapter_id digest a = digest (JObj [(''exporter_id'', JStr (la_exporter_id a)), (''recipe_id'', JStr (la_recipe_id a)),
     (''value_layout'', layout_json (la_value_layout a)), (''scale_layout'', layout_json (la_scale_layout a)),
     (''nibble_order'', JStr (la_nibble_order a))])"

definition repack_values :: "layout_adapter \<Rightarrow> byte list \<Rightarrow> byte list result" where
  "repack_values a packed = repack_packed_nibbles packed (la_value_layout a) (la_nibble_order a)"

definition repack_scales :: "layout_adapter \<Rightarrow> byte list \<Rightarrow> byte list result" where
  "repack_scales a scales = repack_bytes scales (la_scale_layout a)"

type_synonym layout_registry = "(string \<times> string, layout_adapter) dict"

definition new_layout_registry :: "layout_adapter list \<Rightarrow> layout_registry result" where
  "new_layout_registry adapters =
     (if adapters = [] \<or> 256 < length adapters \<or> \<not> distinct (map (\<lambda>a. (la_exporter_id a, la_recipe_id a)) adapters)
      then Inl (ValueError ''invalid numeric exporter layout registry'')
      else Inr (map (\<lambda>a. ((la_exporter_id a, la_recipe_id a), a)) adapters))"

definition resolve_layout :: "layout_registry \<Rightarrow> string \<Rightarrow> string \<Rightarrow> layout_adapter result" where
  "resolve_layout r exporter_id recipe_id =
     (case map_of r (exporter_id, recipe_id) of
        None \<Rightarrow> Inl (ValueError ''unsupported numeric exporter layout'')
      | Some a \<Rightarrow> Inr a)"

section \<open>Morton order\<close>

lemma bit_shifted: "bit (push_bit m (drop_bit b x AND 1)) n \<longleftrightarrow> n = m \<and> bit (x :: int) b"
  unfolding bit_push_bit_iff_int bit_and_int_iff bit_1_iff bit_drop_bit_eq o_def by auto

lemma bit_morton_bits:
  "bit (morton_bits bs r c x) n \<longleftrightarrow> bit x n \<or> (\<exists>b\<in>set bs. n = 2 * b \<and> bit c b \<or> n = 2 * b + 1 \<and> bit r b)"
proof (induction bs r c x rule: morton_bits.induct)
  case (2 b bs row column acc)
  then show ?case
    by (simp only: morton_bits.simps bit_or_int_iff bit_shifted list.set bex_simps) blast
qed simp

lemma bit_morton: "bit (morton r c) n \<longleftrightarrow> (\<exists>b<4. n = 2 * b \<and> bit c b \<or> n = 2 * b + 1 \<and> bit r b)"
proof -
  have "set [0, 1, 2, 3] = {..<4::nat}" by auto
  then show ?thesis
    using bit_morton_bits [of "[0, 1, 2, 3]" r c 0 n] by (simp only: morton_def Bex_def lessThan_iff) simp
qed

lemma morton_inject:
  assumes "morton r c = morton r' c'" and "0 \<le> r" "r < 16" "0 \<le> c" "c < 16" "0 \<le> r'" "r' < 16" "0 \<le> c'" "c' < 16"
  shows "r = r' \<and> c = c'"
proof -
  have high: "\<not> bit x b" if "0 \<le> x" "x < 16" "\<not> b < 4" for x :: int and b
    using bit_of_code [of x 4 b] that by auto
  have "bit r b = bit r' b" and "bit c b = bit c' b" if "b < 4" for b
  proof -
    have "bit (morton r c) (2 * b + 1) = bit r b" "bit (morton r' c') (2 * b + 1) = bit r' b"
      "bit (morton r c) (2 * b) = bit c b" "bit (morton r' c') (2 * b) = bit c' b"
      using that by (auto simp: bit_morton) presburger+
    with assms(1) show "bit r b = bit r' b" and "bit c b = bit c' b" by auto
  qed
  with assms(2-9) high have "bit r b = bit r' b" and "bit c b = bit c' b" for b by metis+
  then show ?thesis by (simp add: bit_eq_iff)
qed

lemma morton_bound:
  assumes "0 \<le> r" "r < 2 ^ k" "0 \<le> c" "c < 2 ^ k"
  shows "0 \<le> morton r c \<and> morton r c < 2 ^ (2 * k)"
proof -
  have "\<not> bit (morton r c) n" if "2 * k \<le> n" for n
    using that bit_of_code [OF assms(1,2)] bit_of_code [OF assms(3,4)] by (fastforce simp: bit_morton)
  then have "take_bit (2 * k) (morton r c) = morton r c"
    by (intro bit_eqI) (auto simp: bit_take_bit_iff, metis not_less)
  then show ?thesis by (metis take_bit_int_less_exp take_bit_nonnegative)
qed

section \<open>Every cell has a place of its own\<close>

lemma pair_bound: "0 \<le> a \<Longrightarrow> a < m \<Longrightarrow> 0 \<le> c \<Longrightarrow> c < n \<Longrightarrow> 0 \<le> a * n + c \<and> a * n + c < m * (n :: int)"
proof -
  assume a: "0 \<le> a" "a < m" and c: "0 \<le> c" "c < n"
  have "(a + 1) * n \<le> m * n" using a c by (intro mult_right_mono) simp_all
  with a c show ?thesis by (simp add: algebra_simps)
qed

lemma pair_inject: "a * n + c = a' * n + c' \<Longrightarrow> 0 \<le> c \<Longrightarrow> c < n \<Longrightarrow> 0 \<le> c' \<Longrightarrow> c' < n \<Longrightarrow> a = a' \<and> c = (c' :: int)"
proof -
  assume eq: "a * n + c = a' * n + c'" and c: "0 \<le> c" "c < n" "0 \<le> c'" "c' < n"
  have "(a * n + c) div n = a" "(a' * n + c') div n = a'"
    using c by (simp_all add: div_pos_pos_trivial)
  with eq have "a = a'" by metis
  with eq show ?thesis by simp
qed

lemma ceil_div_bound: "x < n \<Longrightarrow> 0 < t \<Longrightarrow> x div t < ceil_div n t"
proof -
  assume "x < n" and t: "0 < t"
  have floor: "y div t * t \<le> y" for y
    using pos_mod_sign [OF t, of y] by (simp add: minus_mod_eq_div_mult [symmetric])
  have "x div t * t < ceil_div n t * t"
    using floor [of x] floor [of "- n"] \<open>x < n\<close> by (simp add: ceil_div_def)
  with t show ?thesis by simp
qed

lemma small_power_of_two:
  assumes "in_tile_range v" and "power_of_two v"
  obtains k where "v = Some (2 ^ k)" and "k \<le> 4"
proof -
  obtain x where v: "v = Some x" "x \<in> set [1..16]" using assms(1) by (auto simp: in_tile_range_def split: option.splits)
  have "list_all (\<lambda>x. 0 < x \<and> x AND (x - 1) = 0 \<longrightarrow> x \<in> set (map ((^) 2) [0, 1, 2, 3, 4])) [1..16]" by code_simp
  with v assms(2) have "x \<in> set (map ((^) 2) [0, 1, 2, 3, 4])" by (auto simp only: list_all_iff power_of_two_def option.case)
  then obtain k where "x = 2 ^ k" and "k \<in> set [0, 1, 2, 3, 4]" by (simp only: set_map image_iff) blast
  with v(1) that [of k] show thesis by auto
qed

definition tiled :: "layout \<Rightarrow> int \<Rightarrow> int \<Rightarrow> int \<Rightarrow> int" where
  "tiled l row column inner =
     (row div the (nl_tile_rows l) * ceil_div (nl_columns l) (the (nl_tile_columns l)) + column div the (nl_tile_columns l))
       * (the (nl_tile_rows l) * the (nl_tile_columns l)) + inner"

text \<open>A tile has a place of its own, and so has a cell in its tile.\<close>

lemma tiled_bound:
  assumes "0 \<le> row" "row < nl_rows l" "0 \<le> column" "column < nl_columns l"
    and "0 < the (nl_tile_rows l)" "0 < the (nl_tile_columns l)"
    and "0 \<le> inner" "inner < the (nl_tile_rows l) * the (nl_tile_columns l)"
  shows "0 \<le> tiled l row column inner \<and> tiled l row column inner <
    ceil_div (nl_rows l) (the (nl_tile_rows l)) * ceil_div (nl_columns l) (the (nl_tile_columns l))
      * (the (nl_tile_rows l) * the (nl_tile_columns l))"
proof -
  have "0 \<le> row div the (nl_tile_rows l)" "0 \<le> column div the (nl_tile_columns l)"
    using assms by (simp_all add: pos_imp_zdiv_nonneg_iff)
  then have "0 \<le> row div the (nl_tile_rows l) * ceil_div (nl_columns l) (the (nl_tile_columns l)) + column div the (nl_tile_columns l)
      \<and> row div the (nl_tile_rows l) * ceil_div (nl_columns l) (the (nl_tile_columns l)) + column div the (nl_tile_columns l)
        < ceil_div (nl_rows l) (the (nl_tile_rows l)) * ceil_div (nl_columns l) (the (nl_tile_columns l))"
    using assms by (intro pair_bound ceil_div_bound)
  with assms(7,8) show ?thesis
    unfolding tiled_def by (intro pair_bound) auto
qed

lemma tiled_inject:
  assumes "tiled l row column inner = tiled l row' column' inner'" 
    and "0 \<le> column" "column < nl_columns l" "0 \<le> column'" "column' < nl_columns l"
    and "0 < the (nl_tile_columns l)"
    and "0 \<le> inner" "inner < the (nl_tile_rows l) * the (nl_tile_columns l)"
    and "0 \<le> inner'" "inner' < the (nl_tile_rows l) * the (nl_tile_columns l)"
  shows "row div the (nl_tile_rows l) = row' div the (nl_tile_rows l)
    \<and> column div the (nl_tile_columns l) = column' div the (nl_tile_columns l) \<and> inner = inner'"
  using pair_inject [OF assms(1) [unfolded tiled_def] assms(7-10)] assms(2-6)
    pair_inject [of "row div the (nl_tile_rows l)" "ceil_div (nl_columns l) (the (nl_tile_columns l))" "column div the (nl_tile_columns l)"
      "row' div the (nl_tile_rows l)" "column' div the (nl_tile_columns l)"]
    ceil_div_bound [of column "nl_columns l" "the (nl_tile_columns l)"] ceil_div_bound [of column' "nl_columns l" "the (nl_tile_columns l)"]
  by (simp add: pos_imp_zdiv_nonneg_iff)

definition place :: "layout \<Rightarrow> int \<Rightarrow> int \<Rightarrow> int" where
  "place l row column = (case storage_index l row column of Inl e \<Rightarrow> 0 | Inr i \<Rightarrow> i)"

definition in_layout :: "layout \<Rightarrow> int \<Rightarrow> int \<Rightarrow> bool" where
  "in_layout l row column \<longleftrightarrow> 0 \<le> row \<and> row < nl_rows l \<and> 0 \<le> column \<and> column < nl_columns l"

lemma tile_parts: "0 < t \<Longrightarrow> row div t = row' div t \<Longrightarrow> row mod t = row' mod t \<Longrightarrow> row = (row' :: int)"
  by (metis mult_div_mod_eq)

text \<open>The orders one by one.\<close>

lemma linear_places:
  assumes "layout_valid l" and "nl_order l \<notin> {''tile_row_major'', ''tile_morton''}" 
    and "in_layout l row column" and "in_layout l row' column'"
  shows "\<exists>i j. storage_index l row column = Inr i \<and> storage_index l row' column' = Inr j \<and> 0 \<le> i \<and> i < storage_elements l
    \<and> (i = j \<longrightarrow> row = row' \<and> column = column')"
proof -
  consider "nl_order l = ''contiguous_row_major''" | "nl_order l = ''column_major''"
    | stride where "nl_order l = ''row_padded''" "nl_row_stride l = Some stride" "nl_columns l \<le> stride"
    using assms(1,2) by (auto simp: layout_valid_def split: if_splits option.splits)
  then show ?thesis
  proof cases
    case 1
    then show ?thesis
      using assms(3,4) pair_bound [of row "nl_rows l" column "nl_columns l"] pair_inject [of row "nl_columns l" column row' column']
      by (auto simp: storage_index_def in_layout_def storage_elements_def logical_elements_def)
  next
    case 2
    then show ?thesis
      using assms(3,4) pair_bound [of column "nl_columns l" row "nl_rows l"] pair_inject [of column "nl_rows l" row column' row']
      by (auto simp: storage_index_def in_layout_def storage_elements_def logical_elements_def mult.commute)
  next
    case 3
    then show ?thesis
      using assms(3,4) pair_bound [of row "nl_rows l" column stride] pair_inject [of row stride column row' column']
      by (auto simp: storage_index_def in_layout_def storage_elements_def)
  qed
qed

lemma tiled_places:
  assumes "layout_valid l" and order: "nl_order l \<in> {''tile_row_major'', ''tile_morton''}"
    and "in_layout l row column" and "in_layout l row' column'"
  shows "\<exists>i j. storage_index l row column = Inr i \<and> storage_index l row' column' = Inr j \<and> 0 \<le> i \<and> i < storage_elements l
    \<and> (i = j \<longrightarrow> row = row' \<and> column = column')"
proof -
  obtain R C where RC: "nl_tile_rows l = Some R" "nl_tile_columns l = Some C" and pos: "0 < R" "0 < C"
    using assms(1,2) by (auto simp: layout_valid_def in_tile_range_def split: option.splits if_splits)
  define inner where "inner r c = (if nl_order l = ''tile_row_major'' then (r mod R) * C + c mod C else morton (r mod R) (c mod C))" for r c
  have bound: "0 \<le> inner r c \<and> inner r c < R * C"
    and inject: "inner r c = inner r' c' \<Longrightarrow> r mod R = r' mod R \<and> c mod C = c' mod C" for r c r' c'
  proof -
    have mods: "0 \<le> r mod R" "r mod R < R" "0 \<le> c mod C" "c mod C < C" "0 \<le> r' mod R" "r' mod R < R" "0 \<le> c' mod C" "c' mod C < C"
      using pos by simp_all
    have "0 \<le> inner r c \<and> inner r c < R * C \<and> (inner r c = inner r' c' \<longrightarrow> r mod R = r' mod R \<and> c mod C = c' mod C)"
    proof (cases "nl_order l = ''tile_row_major''")
      case True
      have "0 \<le> r mod R * C + c mod C \<and> r mod R * C + c mod C < R * C"
        using mods by (intro pair_bound)
      moreover have "r mod R * C + c mod C = r' mod R * C + c' mod C \<longrightarrow> r mod R = r' mod R \<and> c mod C = c' mod C"
        using mods pair_inject by blast
      ultimately show ?thesis using True by (simp only: inner_def simp_thms if_True)
    next
      case False
      then have "in_tile_range (Some R)" "power_of_two (Some R)" "C = R"
        using assms(1,2) RC by (auto simp: layout_valid_def)
      then obtain k where k: "R = 2 ^ k" "k \<le> 4" "C = R" using small_power_of_two by (metis option.inject)
      have "R \<le> 16" using power_increasing [OF k(2), of "2 :: int"] k(1) by simp
      then have "r mod R < 16" "c mod C < 16" "r' mod R < 16" "c' mod C < 16"
        using mods k(3) by linarith+
      then have "morton (r mod R) (c mod C) = morton (r' mod R) (c' mod C) \<longrightarrow> r mod R = r' mod R \<and> c mod C = c' mod C"
        using morton_inject [of "r mod R" "c mod C" "r' mod R" "c' mod C"] mods by blast
      moreover have "0 \<le> morton (r mod R) (c mod C) \<and> morton (r mod R) (c mod C) < R * C"
        using morton_bound [of "r mod R" k "c mod C"] mods k by (simp add: mult_2 power_add)
      ultimately show ?thesis using False by (simp only: inner_def simp_thms if_False)
    qed
    then show "0 \<le> inner r c \<and> inner r c < R * C" and "inner r c = inner r' c' \<Longrightarrow> r mod R = r' mod R \<and> c mod C = c' mod C" by auto
  qed
  have index: "storage_index l r c = Inr (tiled l r c (inner r c))" if "in_layout l r c" for r c
    using that order RC by (auto simp: storage_index_def in_layout_def tiled_def inner_def Let_def mult.assoc)
  have count: "storage_elements l = ceil_div (nl_rows l) R * ceil_div (nl_columns l) C * (R * C)"
    using order RC by (auto simp: storage_elements_def mult.assoc)
  have cells: "0 \<le> row" "row < nl_rows l" "0 \<le> column" "column < nl_columns l" "0 \<le> column'" "column' < nl_columns l"
    using assms(3,4) by (auto simp: in_layout_def)
  note tiles = RC pos cells bound
  have "row = row' \<and> column = column'" if "tiled l row column (inner row column) = tiled l row' column' (inner row' column')"
  proof -
    have "row div R = row' div R \<and> column div C = column' div C \<and> inner row column = inner row' column'"
      using tiled_inject [OF that cells(3-6)] tiles by simp
    with inject [of row column row' column'] pos show ?thesis
      using tile_parts [of R row row'] tile_parts [of C column column'] by simp
  qed
  moreover have "0 \<le> tiled l row column (inner row column) \<and> tiled l row column (inner row column) < storage_elements l"
    using tiled_bound [OF cells(1-4), of "inner row column"] tiles by (simp add: count)
  ultimately show ?thesis
    using index [OF assms(3)] index [OF assms(4)] by blast
qed

lemma layout_initD: "layout_init l = Inr l' \<Longrightarrow> l' = l \<and> layout_valid l"
  by (auto simp: layout_init_def split: if_splits)

lemma places:
  assumes "layout_init l = Inr l" and "in_layout l row column" and "in_layout l row' column'"
  shows "\<exists>i j. storage_index l row column = Inr i \<and> storage_index l row' column' = Inr j \<and> 0 \<le> i \<and> i < storage_elements l
    \<and> (i = j \<longrightarrow> row = row' \<and> column = column')"
  using linear_places tiled_places layout_initD [OF assms(1)] assms(2,3) by blast

text \<open>In every layout that is accepted (contiguous, column-major, padded rows, tiles in row-major or Morton order)
  each cell of the matrix has an index within the storage, and different cells have different indices.\<close>
theorem storage_index_injective:
  assumes "layout_init l = Inr l" and "0 \<le> row \<and> row < nl_rows l \<and> 0 \<le> column \<and> column < nl_columns l"
    and "0 \<le> row' \<and> row' < nl_rows l \<and> 0 \<le> column' \<and> column' < nl_columns l"
  shows "\<exists>i j. storage_index l row column = Inr i \<and> storage_index l row' column' = Inr j \<and> 0 \<le> i \<and> i < storage_elements l
    \<and> (i = j \<longrightarrow> row = row' \<and> column = column')"
  using places [of l row column row' column'] assms by (simp add: in_layout_def)

definition example_layout :: layout where
  "example_layout = \<lparr>nl_rows = 3, nl_columns = 5, nl_order = ''tile_morton'', nl_row_stride = None, nl_tile_rows = Some 4,
     nl_tile_columns = Some 4, nl_padding_code = 0\<rparr>"

lemma example_layout_ok: "layout_init example_layout = Inr example_layout"
  by (simp add: layout_init_def example_layout_def layout_valid_def in_tile_range_def power_of_two_def storage_elements_def
      logical_elements_def ceil_div_def MAX_LAYOUT_ELEMENTS_def)

theorem storage_index_injective_witness:
  "storage_index example_layout 2 3 = Inr 13 \<and> storage_index example_layout 1 4 = Inr 18
    \<and> (\<exists>i j. storage_index example_layout 2 3 = Inr i \<and> storage_index example_layout 1 4 = Inr j \<and> 0 \<le> i
        \<and> i < storage_elements example_layout)"
proof -
  have "storage_index example_layout 2 3 = Inr 13" "storage_index example_layout 1 4 = Inr 18" by code_simp+
  moreover have "\<exists>i j. storage_index example_layout 2 3 = Inr i \<and> storage_index example_layout 1 4 = Inr j \<and> 0 \<le> i
        \<and> i < storage_elements example_layout"
    using storage_index_injective [OF example_layout_ok, of 2 3 1 4] by (auto simp: example_layout_def)
  ultimately show ?thesis by blast
qed

section \<open>Repacking loses nothing\<close>

lemma collect_map: "(\<And>x. x \<in> set xs \<Longrightarrow> f x = Inr (g x)) \<Longrightarrow> collect f xs = Inr (map g xs)"
  by (induction xs) auto

lemma set_cells: "set (cells l) = {(row, column). in_layout l row column}"
  by (auto simp: cells_def in_layout_def)

lemma place_bound:
  assumes "layout_init l = Inr l" and "in_layout l row column"
  shows "storage_index l row column = Inr (place l row column)" and "0 \<le> place l row column" "place l row column < storage_elements l"
  using places [OF assms(1,2,2)] by (auto simp: place_def)

lemma place_nat: "layout_init l = Inr l \<Longrightarrow> in_layout l row column \<Longrightarrow> nat (place l row column) < nat (storage_elements l)"
  using place_bound(2,3) [of l row column] by (simp add: nat_less_eq_zless)

lemma cell_indices_places:
  assumes "layout_init l = Inr l"
  shows "cell_indices l = Inr (map (\<lambda>(row, column). place l row column) (cells l))"
  unfolding cell_indices_def
  by (rule collect_map) (use place_bound [OF assms] in \<open>auto simp: set_cells\<close>)

lemma cells_product: "cells l = List.product [0..nl_rows l - 1] [0..nl_columns l - 1]"
  by (simp add: cells_def product_concat_map)

lemma length_cells: "length (cells l) = nat (nl_rows l) * nat (nl_columns l)"
  by (simp add: cells_product)

lemma cell_at:
  assumes "in_layout l row column"
  shows "nat (row * nl_columns l + column) < length (cells l)" and "cells l ! nat (row * nl_columns l + column) = (row, column)"
proof -
  have r: "0 \<le> row" "row < nl_rows l" and c: "0 \<le> column" "column < nl_columns l"
    using assms by (auto simp: in_layout_def)
  then have n: "nat (row * nl_columns l + column) = nat row * nat (nl_columns l) + nat column"
    by (simp add: nat_add_distrib nat_mult_distrib)
  have "int (nat (row * nl_columns l + column)) < nl_rows l * nl_columns l"
    using pair_bound [OF r c] by simp
  then show less: "nat (row * nl_columns l + column) < length (cells l)"
    using r c by (simp add: length_cells flip: nat_mult_distrib)
  have "(nat row * nat (nl_columns l) + nat column) div nat (nl_columns l) = nat row"
    "(nat row * nat (nl_columns l) + nat column) mod nat (nl_columns l) = nat column"
    using c by simp_all
  with less r c show "cells l ! nat (row * nl_columns l + column) = (row, column)"
    unfolding cells_product by (simp add: product_nth n)
qed

lemma storage_determined:
  assumes "length xs = nat (storage_elements l)" "length ys = nat (storage_elements l)"
    and "\<not> padding_mismatch l indices xs" "\<not> padding_mismatch l indices ys"
    and "map (\<lambda>i. xs ! nat i) indices = map (\<lambda>i. ys ! nat i) indices"
  shows "xs = ys"
proof (rule nth_equalityI)
  show "length xs = length ys" using assms(1,2) by simp
  fix k assume "k < length xs"
  then have k: "int k \<in> set [0..storage_elements l - 1]" using assms(1) by auto
  show "xs ! k = ys ! k"
  proof (cases "int k \<in> set indices")
    case True
    with assms(5) show ?thesis by (metis map_eq_conv nat_int)
  next
    case False
    with k assms(3,4) show ?thesis by (fastforce simp: padding_mismatch_def list_ex_iff)
  qed
qed

lemma nibble_position: "i * 4 div 8 = i div 2" "i * 4 mod 8 = 4 * (i mod (2 :: nat))"
  using div_mult_mult2 [of 4 i 2] mult_mod_left [of i 2 4] by (simp_all add: mult.commute)

lemma put_nibbles_pack:
  assumes "\<forall>c\<in>set codes. 0 \<le> c \<and> c < 16"
  shows "pack_codes 4 index codes p = Inr (put_nibbles index codes p)"
  using assms
proof (induction index codes p rule: put_nibbles.induct)
  case (2 index code codes p)
  have "uint (p ! (index div 2)) OR push_bit (4 * (index mod 2)) code \<le> 255"
    by (rule store_in_range [of code 4]) (use "2.prems" in auto)
  with 2 show ?case by (simp add: nibble_position Let_def not_less)
qed simp

lemma nibble_code: "nibble p i ''low_nibble_first'' = drop_bit (i * 4 mod 8) (uint (p ! (i * 4 div 8))) AND (2 ^ 4 - 1)"
  by (simp add: nibble_def nibble_position)

lemma length_put_nibbles: "length (put_nibbles index codes p) = length p"
  by (induction index codes p rule: put_nibbles.induct) auto

text \<open>The nibbles that were put are the codes.\<close>

lemma put_nibbles_read:
  assumes "\<forall>c\<in>set codes. 0 \<le> c \<and> c < 16"
  shows "map (\<lambda>i. nibble (put_nibbles 0 codes (replicate ((length codes + 1) div 2) 0)) i ''low_nibble_first'') [0..<length codes] = codes"
proof -
  have "(length codes * 4 + 7) div 8 = (length codes + 1) div 2" by presburger
  then have "pack codes 4 = Inr (put_nibbles 0 codes (replicate ((length codes + 1) div 2) 0))"
    by (simp add: pack_def put_nibbles_pack [OF assms])
  with unpack_pack [of 4 codes] assms
  have "unpack (put_nibbles 0 codes (replicate ((length codes + 1) div 2) 0)) 4 (length codes) = Inr codes" by auto
  then show ?thesis
    unfolding nibble_code by (auto simp: unpack_def Let_def split: if_splits)
qed

lemma byte_by_nibbles:
  assumes "uint b AND 15 = uint b' AND 15" and "drop_bit 4 (uint b) AND 15 = drop_bit 4 (uint b') AND 15"
  shows "b = (b' :: byte)"
proof (rule bit_word_eqI)
  fix n assume n: "n < LENGTH(8)"
  have mask: "bit (x AND 15) m \<longleftrightarrow> m < 4 \<and> bit x m" for x :: int and m
    using bit_take_bit_iff [of 4 x m] by (simp add: take_bit_eq_mask mask_eq_exp_minus_1)
  show "bit b n = bit b' n"
  proof (cases "n < 4")
    case True
    with assms(1) mask [of "uint b" n] mask [of "uint b'" n] n show ?thesis by (simp add: bit_uint_iff)
  next
    case False
    then obtain m where "n = 4 + m" by (metis le_Suc_ex not_less)
    with assms(2) mask [of "drop_bit 4 (uint b)" m] mask [of "drop_bit 4 (uint b')" m] n show ?thesis
      by (simp add: bit_uint_iff bit_drop_bit_eq)
  qed
qed

lemma payload_by_nibbles:
  assumes "length p = length q" and "order \<in> {''low_nibble_first'', ''high_nibble_first''}"
    and "\<And>i. i < 2 * length p \<Longrightarrow> nibble p i order = nibble q i order"
  shows "p = q"
proof (rule nth_equalityI [OF assms(1)])
  fix j assume "j < length p"
  then have "nibble p (2 * j) order = nibble q (2 * j) order" and "nibble p (2 * j + 1) order = nibble q (2 * j + 1) order"
    using assms(3) by simp_all
  with assms(2) show "p ! j = q ! j"
    by (intro byte_by_nibbles) (auto simp: nibble_def)
qed

text \<open>The bytes case.\<close>

lemma repack_bytes_reads:
  assumes "layout_init l = Inr l" and "repack_bytes p l = Inr output" and "in_layout l row column"
  shows "output ! nat (row * nl_columns l + column) = p ! nat (place l row column)"
  using assms(2) cell_at [OF assms(3)]
  by (auto simp: repack_bytes_def cell_indices_places [OF assms(1)] split: if_splits)

lemma repack_bytes_lossless:
  assumes "layout_init l = Inr l" and "repack_bytes p l = Inr output" and "repack_bytes q l = Inr output"
  shows "p = q"
proof -
  let ?is = "map (\<lambda>(row, column). place l row column) (cells l)"
  note indices = cell_indices_places [OF assms(1)]
  have len: "length p = nat (storage_elements l)" "length q = nat (storage_elements l)"
    using assms(2,3) by (auto simp: repack_bytes_def split: if_splits)
  have "output = map (\<lambda>i. p ! nat i) ?is" and "output = map (\<lambda>i. q ! nat i) ?is"
    and pad: "\<not> padding_mismatch l ?is (map uint p)" "\<not> padding_mismatch l ?is (map uint q)"
    using assms(2,3) by (simp_all add: repack_bytes_def indices split: if_splits)
  then have same: "map (\<lambda>i. p ! nat i) ?is = map (\<lambda>i. q ! nat i) ?is" by metis
  have inside: "nat i < length p" "nat i < length q" if "i \<in> set ?is" for i
    using that place_nat [OF assms(1)] len by (auto simp: set_cells)
  have "map (\<lambda>i. map uint p ! nat i) ?is = map (\<lambda>i. map uint q ! nat i) ?is"
  proof (rule map_cong [OF refl])
    fix i assume "i \<in> set ?is"
    then show "map uint p ! nat i = map uint q ! nat i"
      using same inside [of i] by (simp only: map_eq_conv nth_map)
  qed
  with storage_determined [of "map uint p" l "map uint q" ?is] len pad have "map uint p = map uint q"
    by simp
  moreover have "inj (uint :: byte \<Rightarrow> int)" by (rule injI) (simp add: word_uint_eq_iff)
  ultimately show ?thesis using inj_map_eq_map by blast
qed

text \<open>The nibbles case.\<close>

definition stored_codes :: "byte list \<Rightarrow> layout \<Rightarrow> string \<Rightarrow> int list" where
  "stored_codes p l order = map (\<lambda>i. nibble p i order) [0..<nat (storage_elements l)]"

lemma length_stored_codes: "length (stored_codes p l order) = nat (storage_elements l)"
  by (simp add: stored_codes_def)

lemma repack_nibbles_facts:
  assumes "layout_init l = Inr l" and "repack_packed_nibbles p l order = Inr output"
  shows "map (\<lambda>i. nibble output i ''low_nibble_first'') [0..<length (cells l)]
      = map (\<lambda>(row, column). nibble p (nat (place l row column)) order) (cells l)"
    and "length output = (length (cells l) + 1) div 2" and "int (length p) = (storage_elements l + 1) div 2"
    and "order \<in> {''low_nibble_first'', ''high_nibble_first''}"
    and "\<not> padding_mismatch l (map (\<lambda>(row, column). place l row column) (cells l)) (stored_codes p l order)"
    and "storage_elements l mod 2 \<noteq> 0 \<Longrightarrow> nibble p (nat (storage_elements l)) order = nl_padding_code l"
proof -
  let ?logical = "map (\<lambda>(row, column). nibble p (nat (place l row column)) order) (cells l)"
  have stored: "stored_codes p l order ! nat (place l row column) = nibble p (nat (place l row column)) order"
    if "(row, column) \<in> set (cells l)" for row column
  proof -
    have "nat (place l row column) < nat (storage_elements l)"
      using that place_nat [OF assms(1)] by (simp add: set_cells)
    then show ?thesis by (simp add: stored_codes_def)
  qed
  then have logical: "map (\<lambda>i. stored_codes p l order ! nat i) (map (\<lambda>(row, column). place l row column) (cells l)) = ?logical"
    by auto
  show "int (length p) = (storage_elements l + 1) div 2" and "order \<in> {''low_nibble_first'', ''high_nibble_first''}"
    and "storage_elements l mod 2 \<noteq> 0 \<Longrightarrow> nibble p (nat (storage_elements l)) order = nl_padding_code l"
    and "\<not> padding_mismatch l (map (\<lambda>(row, column). place l row column) (cells l)) (stored_codes p l order)"
    using assms(2) unfolding repack_packed_nibbles_def stored_codes_def [symmetric] cell_indices_places [OF assms(1)]
    by (auto simp: Let_def split: if_splits)
  have out: "output = put_nibbles 0 ?logical (replicate ((length ?logical + 1) div 2) 0)"
    using assms(2) unfolding repack_packed_nibbles_def stored_codes_def [symmetric] cell_indices_places [OF assms(1)] Let_def
      sum.case logical by (auto split: if_splits)
  have "\<forall>c\<in>set ?logical. 0 \<le> c \<and> c < 16"
    using four_bits by (auto simp: nibble_def set_nibbles Let_def)
  from put_nibbles_read [OF this]
  show "map (\<lambda>i. nibble output i ''low_nibble_first'') [0..<length (cells l)] = ?logical"
    unfolding out by simp
  show "length output = (length (cells l) + 1) div 2"
    unfolding out by (simp add: length_put_nibbles)
qed

lemma repack_nibbles_reads:
  assumes "layout_init l = Inr l" and "repack_packed_nibbles p l order = Inr output" and "in_layout l row column"
  shows "nibble output (nat (row * nl_columns l + column)) ''low_nibble_first'' = nibble p (nat (place l row column)) order"
proof -
  let ?n = "nat (row * nl_columns l + column)"
  have "map (\<lambda>i. nibble output i ''low_nibble_first'') [0..<length (cells l)] ! ?n
      = map (\<lambda>(row, column). nibble p (nat (place l row column)) order) (cells l) ! ?n"
    by (simp only: repack_nibbles_facts(1) [OF assms(1,2)])
  with cell_at [OF assms(3)] show ?thesis by simp
qed

lemma below_rounded: "k < 2 * ((s + 1) div 2) \<Longrightarrow> k < s \<or> k = s \<and> s mod 2 \<noteq> (0 :: int)"
  by presburger

lemma repack_nibbles_lossless:
  assumes "layout_init l = Inr l" and "repack_packed_nibbles p l order = Inr output" and "repack_packed_nibbles q l order = Inr output"
  shows "p = q"
proof -
  note p = repack_nibbles_facts [OF assms(1,2)] and q = repack_nibbles_facts [OF assms(1,3)]
  let ?is = "map (\<lambda>(row, column). place l row column) (cells l)"
  have "stored_codes p l order ! nat (place l a b) = stored_codes q l order ! nat (place l a b)" if "in_layout l a b" for a b
    using repack_nibbles_reads [OF assms(1,2) that] repack_nibbles_reads [OF assms(1,3) that] place_nat [OF assms(1) that]
    by (simp add: stored_codes_def)
  then have "map (\<lambda>i. stored_codes p l order ! nat i) ?is = map (\<lambda>i. stored_codes q l order ! nat i) ?is"
    by (auto simp: set_cells)
  then have "stored_codes p l order = stored_codes q l order"
    using storage_determined [OF _ _ p(5) q(5)] by (simp only: length_stored_codes simp_thms)
  then have stored: "nibble p i order = nibble q i order" if "i < nat (storage_elements l)" for i
    using that by (auto simp: stored_codes_def)
  show ?thesis
  proof (rule payload_by_nibbles [OF _ p(4)])
    show "length p = length q" using p(3) q(3) by simp
    fix i assume "i < 2 * length p"
    with p(3) have "int i < 2 * ((storage_elements l + 1) div 2)" by linarith
    then have "int i < storage_elements l \<or> int i = storage_elements l \<and> storage_elements l mod 2 \<noteq> 0"
      by (rule below_rounded)
    then have "i < nat (storage_elements l) \<or> i = nat (storage_elements l) \<and> storage_elements l mod 2 \<noteq> 0" by auto
    with stored p(6) q(6) show "nibble p i order = nibble q i order" by auto
  qed
qed

text \<open>C28: Repacking an exporter's storage into row-major order reads every cell from its place and loses nothing: what
  is outside the cells is the padding code, so that no two payloads, of bytes or of packed nibbles in either order, are
  repacked to the same result.\<close>
theorem repacking_is_lossless:
  assumes "layout_init l = Inr l"
  shows "(\<forall>p output row column i. repack_bytes p l = Inr output \<and> storage_index l row column = Inr i \<longrightarrow>
        output ! nat (row * nl_columns l + column) = p ! nat i)
    \<and> (\<forall>p output order row column i. repack_packed_nibbles p l order = Inr output \<and> storage_index l row column = Inr i \<longrightarrow>
        nibble output (nat (row * nl_columns l + column)) ''low_nibble_first'' = nibble p (nat i) order)
    \<and> (\<forall>p q output. repack_bytes p l = Inr output \<and> repack_bytes q l = Inr output \<longrightarrow> p = q)
    \<and> (\<forall>p q output order. repack_packed_nibbles p l order = Inr output \<and> repack_packed_nibbles q l order = Inr output \<longrightarrow> p = q)"
proof -
  have "in_layout l row column \<and> place l row column = i" if "storage_index l row column = Inr i" for row column i
    using that by (auto simp: storage_index_def in_layout_def place_def split: if_splits)
  then show ?thesis
    using repack_bytes_reads [OF assms] repack_nibbles_reads [OF assms] repack_bytes_lossless [OF assms]
      repack_nibbles_lossless [OF assms] by blast
qed

definition example_padded :: layout where
  "example_padded = \<lparr>nl_rows = 2, nl_columns = 1, nl_order = ''row_padded'', nl_row_stride = Some 3, nl_tile_rows = None,
     nl_tile_columns = None, nl_padding_code = 0\<rparr>"

theorem repacking_is_lossless_witness:
  "repack_packed_nibbles [0x05, 0x90, 0] example_padded ''low_nibble_first'' = Inr [0x95]
    \<and> nibble [0x95] (nat (1 * 1 + 0)) ''low_nibble_first'' = nibble [0x05, 0x90, 0] (nat 3) ''low_nibble_first''"
proof -
  have "repack_packed_nibbles [0x05, 0x90, 0] example_padded ''low_nibble_first'' = Inr [0x95]"
    and "storage_index example_padded 1 0 = Inr 3" and "layout_init example_padded = Inr example_padded" by code_simp+
  with repacking_is_lossless [of example_padded, THEN conjunct2, THEN conjunct1, rule_format,
      of "[0x05, 0x90, 0]" "''low_nibble_first''" "[0x95]" 1 0 3]
  show ?thesis by (simp add: example_padded_def)
qed

text \<open>A shape with two negative sides passes the checks, since only the product is tested; it has storage but no cells,
  and repacking a payload that holds nothing but padding yields the empty payload.\<close>

theorem negative_shape_accepted:
  "\<exists>l. layout_init l = Inr l \<and> nl_rows l < 0 \<and> nl_columns l < 0 \<and> storage_elements l = 6
     \<and> repack_bytes [0, 0, 0, 0, 0, 0] l = Inr []"
proof -
  let ?l = "\<lparr>nl_rows = - 2, nl_columns = - 3, nl_order = ''column_major'', nl_row_stride = None, nl_tile_rows = None,
     nl_tile_columns = None, nl_padding_code = 0\<rparr>"
  have "layout_init ?l = Inr ?l \<and> nl_rows ?l < 0 \<and> nl_columns ?l < 0 \<and> storage_elements ?l = 6
     \<and> repack_bytes [0, 0, 0, 0, 0, 0] ?l = Inr []" by code_simp
  then show ?thesis by blast
qed

end
