(* ===== verification/NumericStream.thy ===== *)
theory NumericStream
  imports NumericPacking
begin

text \<open>
  \<open>vllm_apple/numeric_streaming.py\<close>: a tensor is streamed in tiles through one or two reusable buffers; a tile is
  read through a lease until it is released.  Every method runs under the stream's lock and is one atomic step.  SHA-256
  (of all bytes fed so far) is the parameter \<open>sha\<close>; what a tile provider returns, and whether the cancellation
  signal is set, are arguments; its \<open>close\<close> is taken to return.  \<open>math.ceil(a / b)\<close> is exact for these sizes: a
  quotient of integers up to \<open>2^40\<close> that is no integer differs from one by more than \<open>2^-40\<close> of itself.
\<close>

section \<open>Plans\<close>

definition MAX_NUMERIC_TILE_BYTES :: int where
  "MAX_NUMERIC_TILE_BYTES = 8 * 1024 * 1024"

definition MAX_NUMERIC_STREAM_BYTES :: int where
  "MAX_NUMERIC_STREAM_BYTES = 2 ^ 40"

record stream_plan =
  st_source_digest :: string
  st_source_bytes :: int
  st_tile_bytes :: int
  st_buffer_count :: int
  st_alignment_bytes :: int
  st_schema_version :: int

definition stream_plan_init :: "stream_plan \<Rightarrow> stream_plan result" where
  "stream_plan_init p =
     (if st_schema_version p \<noteq> 1 then Inl (ValueError ''unsupported numeric streaming plan version'')
      else if length (st_source_digest p) \<noteq> 64 \<or> \<not> list_all is_hex (st_source_digest p)
      then Inl (ValueError ''numeric stream source digest is invalid'')
      else if \<not> (1 \<le> st_source_bytes p \<and> st_source_bytes p \<le> MAX_NUMERIC_STREAM_BYTES)
      then Inl (ValueError ''numeric stream source size is invalid'')
      else if \<not> (1 \<le> st_tile_bytes p \<and> st_tile_bytes p \<le> MAX_NUMERIC_TILE_BYTES)
      then Inl (ValueError ''numeric stream tile size is invalid'')
      else if \<not> (1 \<le> st_alignment_bytes p \<and> st_alignment_bytes p \<le> MAX_NUMERIC_TILE_BYTES)
      then Inl (ValueError ''numeric stream alignment is invalid'')
      else if st_source_bytes p < st_tile_bytes p then Inl (ValueError ''numeric stream tile exceeds its source'')
      else if st_tile_bytes p mod st_alignment_bytes p \<noteq> 0
      then Inl (ValueError ''numeric stream tile does not satisfy its alignment'')
      else if st_buffer_count p \<notin> {1, 2} then Inl (ValueError ''numeric stream requires one or two buffers'')
      else Inr p)"

definition tile_count :: "stream_plan \<Rightarrow> nat" where
  "tile_count p = nat ((st_source_bytes p + st_tile_bytes p - 1) div st_tile_bytes p)"

definition active_buffer_count :: "stream_plan \<Rightarrow> nat" where
  "active_buffer_count p = min (nat (st_buffer_count p)) (tile_count p)"

definition working_set_bytes :: "stream_plan \<Rightarrow> int" where
  "working_set_bytes p = st_tile_bytes p * int (active_buffer_count p)"

definition stream_plan_id :: "(json \<Rightarrow> string) \<Rightarrow> stream_plan \<Rightarrow> string" where
  "stream_plan_id digest p = digest (JObj [(''source_digest'', JStr (st_source_digest p)), (''source_bytes'', JInt (st_source_bytes p)),
     (''tile_bytes'', JInt (st_tile_bytes p)), (''buffer_count'', JInt (st_buffer_count p)),
     (''alignment_bytes'', JInt (st_alignment_bytes p)), (''schema_version'', JInt (st_schema_version p))])"

section \<open>The stream\<close>

record tile_lease =
  tl_slot :: nat
  tl_generation :: nat
  tl_index :: nat
  tl_offset :: nat
  tl_length :: nat

record tile_stream =
  ts_plan :: stream_plan
  ts_source :: "byte list option"
  ts_provider :: bool
  ts_observed :: "byte list"
  ts_verified :: bool
  ts_buffers :: "byte list list"
  ts_active :: "bool list"
  ts_generations :: "nat list"
  ts_next :: nat
  ts_closed :: bool
  ts_cancelled :: bool

definition new_tile_stream :: "(byte list \<Rightarrow> string) \<Rightarrow> stream_plan \<Rightarrow> byte list option \<Rightarrow> bool \<Rightarrow> tile_stream result" where
  "new_tile_stream sha p source provider =
     (if (source = None) = (\<not> provider) then Inl (ValueError ''numeric stream requires exactly one source'')
      else if (case source of None \<Rightarrow> False | Some bs \<Rightarrow> int (length bs) \<noteq> st_source_bytes p)
      then Inl (ValueError ''numeric stream source size mismatch'')
      else if (case source of None \<Rightarrow> False | Some bs \<Rightarrow> sha bs \<noteq> st_source_digest p)
      then Inl (ValueError ''numeric stream source digest mismatch'')
      else Inr \<lparr>ts_plan = p, ts_source = source, ts_provider = provider, ts_observed = [], ts_verified = (source \<noteq> None),
                ts_buffers = replicate (active_buffer_count p) (replicate (nat (st_tile_bytes p)) 0),
                ts_active = replicate (active_buffer_count p) False, ts_generations = replicate (active_buffer_count p) 0,
                ts_next = 0, ts_closed = False, ts_cancelled = False\<rparr>)"

text \<open>\<open>_zero_buffer\<close> writes zeros block by block.\<close>

definition ZERO_BLOCK :: nat where
  "ZERO_BLOCK = 64 * 1024"

function zero_from :: "nat \<Rightarrow> byte list \<Rightarrow> byte list" where
  "zero_from offset buffer =
     (if offset < length buffer
      then let len = min ZERO_BLOCK (length buffer - offset)
           in zero_from (offset + ZERO_BLOCK) (take offset buffer @ replicate len 0 @ drop (offset + len) buffer)
      else buffer)"
  by pat_completeness auto
termination
  by (relation "measure (\<lambda>(offset, buffer). length buffer - offset)") (auto simp: ZERO_BLOCK_def)

declare zero_from.simps [simp del]

definition zero_buffer :: "byte list \<Rightarrow> byte list" where
  "zero_buffer buffer = zero_from 0 buffer"

definition close_stream_locked :: "bool \<Rightarrow> tile_stream \<Rightarrow> tile_stream" where
  "close_stream_locked cancelled s =
     (if ts_closed s then s
      else s\<lparr>ts_buffers := map zero_buffer (ts_buffers s), ts_active := map (\<lambda>_. False) (ts_active s),
             ts_generations := map Suc (ts_generations s), ts_source := None, ts_provider := False,
             ts_cancelled := cancelled, ts_closed := True\<rparr>)"

definition check_open :: "bool \<Rightarrow> (tile_stream, unit) method" where
  "check_open cancel s =
     (if ts_closed s then (Inl (ValueError ''numeric stream is closed''), s)
      else if cancel then (Inl (OtherError ''NumericStreamingCancelled''), close_stream_locked True s)
      else (Inr (), s))"

fun first_free :: "bool list \<Rightarrow> nat option" where
  "first_free [] = None"
| "first_free (active # rest) = (if active then map_option Suc (first_free rest) else Some 0)"

definition tile_length :: "stream_plan \<Rightarrow> nat \<Rightarrow> nat" where
  "tile_length p index = min (nat (st_tile_bytes p)) (nat (st_source_bytes p) - index * nat (st_tile_bytes p))"

text \<open>The bytes of the next tile: a slice of the source, or what the provider returns.\<close>

definition tile_payload :: "(nat \<Rightarrow> nat \<Rightarrow> nat \<Rightarrow> byte list result) \<Rightarrow> tile_stream \<Rightarrow> byte list result" where
  "tile_payload read_tile s =
     (let index = ts_next s; offset = index * nat (st_tile_bytes (ts_plan s)); len = tile_length (ts_plan s) index
      in case ts_source s of
           Some bs \<Rightarrow> Inr (take len (drop offset bs))
         | None \<Rightarrow> (case read_tile index offset len of
                      Inl e \<Rightarrow> Inl e
                    | Inr payload \<Rightarrow> if length payload \<noteq> len then Inl (ValueError ''numeric stream provider returned an invalid tile'')
                                     else Inr payload))"

definition load_tile :: "nat \<Rightarrow> byte list \<Rightarrow> tile_stream \<Rightarrow> tile_lease \<times> tile_stream" where
  "load_tile slot payload s =
     (let index = ts_next s; generation = Suc (ts_generations s ! slot)
      in (\<lparr>tl_slot = slot, tl_generation = generation, tl_index = index,
           tl_offset = index * nat (st_tile_bytes (ts_plan s)), tl_length = length payload\<rparr>,
          s\<lparr>ts_observed := (if ts_source s = None then ts_observed s @ payload else ts_observed s),
            ts_buffers := (ts_buffers s)[slot := payload @ drop (length payload) (ts_buffers s ! slot)],
            ts_generations := (ts_generations s)[slot := generation],
            ts_active := (ts_active s)[slot := True], ts_next := Suc index\<rparr>))"

definition acquire_next :: "(byte list \<Rightarrow> string) \<Rightarrow> (nat \<Rightarrow> nat \<Rightarrow> nat \<Rightarrow> byte list result) \<Rightarrow> bool
    \<Rightarrow> (tile_stream, tile_lease option) method" where
  "acquire_next sha read_tile cancel s =
     (case check_open cancel s of
        (Inl e, s1) \<Rightarrow> (Inl e, s1)
      | (Inr u, s1) \<Rightarrow>
          if tile_count (ts_plan s1) \<le> ts_next s1
          then if ts_verified s1 then (Inr None, s1)
               else if sha (ts_observed s1) \<noteq> st_source_digest (ts_plan s1)
               then (Inl (ValueError ''numeric stream provider digest mismatch''), close_stream_locked False s1)
               else (Inr None, s1\<lparr>ts_verified := True\<rparr>)
          else case first_free (ts_active s1) of
                 None \<Rightarrow> (Inl (RuntimeError ''numeric stream buffers are all leased''), s1)
               | Some slot \<Rightarrow>
                   (case tile_payload read_tile s1 of
                      Inl e \<Rightarrow> (Inl e, s1)
                    | Inr payload \<Rightarrow> (case load_tile slot payload s1 of (l, s2) \<Rightarrow> (Inr (Some l), s2))))"

definition poll_cancellation :: "bool \<Rightarrow> (tile_stream, unit) method" where
  "poll_cancellation cancel s = check_open cancel s"

definition close_stream :: "tile_stream \<Rightarrow> tile_stream" where
  "close_stream s = close_stream_locked False s"

definition lease_valid :: "nat \<Rightarrow> nat \<Rightarrow> tile_stream \<Rightarrow> bool" where
  "lease_valid slot generation s \<longleftrightarrow>
     \<not> (ts_closed s \<or> \<not> slot < length (ts_buffers s) \<or> \<not> ts_active s ! slot \<or> ts_generations s ! slot \<noteq> generation)"

definition read_lease :: "tile_lease \<Rightarrow> tile_stream \<Rightarrow> byte list result" where
  "read_lease l s =
     (if \<not> lease_valid (tl_slot l) (tl_generation l) s
      then Inl (ValueError ''numeric tile lease is invalid or already released'')
      else Inr (take (tl_length l) (ts_buffers s ! tl_slot l)))"

text \<open>A view is a read-only alias of the first bytes of a buffer, checked once, when it is taken.\<close>

definition view_lease :: "tile_lease \<Rightarrow> tile_stream \<Rightarrow> (nat \<times> nat) result" where
  "view_lease l s =
     (if \<not> lease_valid (tl_slot l) (tl_generation l) s
      then Inl (ValueError ''numeric tile lease is invalid or already released'')
      else Inr (tl_slot l, tl_length l))"

definition view_bytes :: "nat \<times> nat \<Rightarrow> tile_stream \<Rightarrow> byte list" where
  "view_bytes v s = take (snd v) (ts_buffers s ! fst v)"

definition release_tile :: "tile_lease \<Rightarrow> (tile_stream, unit) method" where
  "release_tile l s =
     (if \<not> lease_valid (tl_slot l) (tl_generation l) s
      then (Inl (ValueError ''numeric tile lease is invalid or already released''), s)
      else (Inr (), s\<lparr>ts_buffers := (ts_buffers s)[tl_slot l := zero_buffer (ts_buffers s ! tl_slot l)],
                      ts_active := (ts_active s)[tl_slot l := False]\<rparr>))"

definition stream_snapshot :: "(json \<Rightarrow> string) \<Rightarrow> tile_stream \<Rightarrow> json" where
  "stream_snapshot digest s = JObj [(''schema_version'', JInt 1), (''plan_id'', JStr (stream_plan_id digest (ts_plan s))),
     (''tile_count'', JInt (int (tile_count (ts_plan s)))), (''next_tile_index'', JInt (int (ts_next s))),
     (''in_flight_tiles'', JInt (int (length (filter (\<lambda>a. a) (ts_active s))))), (''buffer_count'', JInt (int (length (ts_buffers s)))),
     (''working_set_bytes'', JInt (working_set_bytes (ts_plan s))), (''cancelled'', JBool (ts_cancelled s)),
     (''closed'', JBool (ts_closed s)), (''stores_tensor_values'', JBool False)]"

section \<open>Zeroing\<close>

lemma zero_from_spec:
  assumes "take offset buffer = replicate (min offset (length buffer)) 0"
  shows "zero_from offset buffer = replicate (length buffer) 0"
  using assms
proof (induction offset buffer rule: zero_from.induct)
  case (1 offset buffer)
  show ?case
  proof (cases "offset < length buffer")
    case True
    let ?n = "min ZERO_BLOCK (length buffer - offset)"
    let ?b = "take offset buffer @ replicate ?n 0 @ drop (offset + ?n) buffer"
    have len: "length ?b = length buffer" using True by simp
    have "take (offset + ?n) ?b = replicate (offset + ?n) 0"
      using 1(2) True by (simp add: replicate_add)
    moreover have "min (offset + ZERO_BLOCK) (length ?b) = offset + ?n" using True len by simp
    moreover have "take (offset + ZERO_BLOCK) ?b = take (offset + ?n) ?b"
      using True len by (cases "ZERO_BLOCK \<le> length buffer - offset") simp_all
    ultimately have "take (offset + ZERO_BLOCK) ?b = replicate (min (offset + ZERO_BLOCK) (length ?b)) 0"
      by (simp only:)
    with 1(1) [OF True refl] True len show ?thesis by (subst zero_from.simps) (simp add: Let_def)
  next
    case False
    with 1(2) show ?thesis by (subst zero_from.simps) simp
  qed
qed

lemma zero_buffer_eq: "zero_buffer buffer = replicate (length buffer) 0"
  by (simp add: zero_buffer_def zero_from_spec)

section \<open>The invariant\<close>

text \<open>The bookkeeping of a client: the tiles so far, the leases it still holds, and all leases it was given.\<close>

definition tile_shape_ok :: "stream_plan \<Rightarrow> byte list option \<Rightarrow> byte list list \<Rightarrow> tile_stream \<Rightarrow> bool" where
  "tile_shape_ok p source tiles s \<longleftrightarrow> ts_plan s = p
     \<and> length (ts_active s) = length (ts_buffers s) \<and> length (ts_generations s) = length (ts_buffers s)
     \<and> length (ts_buffers s) \<le> active_buffer_count p \<and> (\<forall>b\<in>set (ts_buffers s). length b = nat (st_tile_bytes p))
     \<and> (ts_closed s \<longrightarrow> list_all Not (ts_active s))
     \<and> ts_next s = length tiles \<and> length tiles \<le> tile_count p \<and> (\<forall>i < length tiles. length (tiles ! i) = tile_length p i)"

definition content_ok :: "(byte list \<Rightarrow> string) \<Rightarrow> stream_plan \<Rightarrow> byte list option \<Rightarrow> byte list list \<Rightarrow> tile_stream \<Rightarrow> bool" where
  "content_ok sha p source tiles s \<longleftrightarrow>
     (\<forall>bs. source = Some bs \<longrightarrow> int (length bs) = st_source_bytes p \<and> sha bs = st_source_digest p
        \<and> concat tiles = take (length tiles * nat (st_tile_bytes p)) bs)
     \<and> (\<not> ts_closed s \<longrightarrow> ts_source s = source \<and> (source = None \<longrightarrow> ts_observed s = concat tiles
          \<and> (ts_verified s \<longrightarrow> length tiles = tile_count p \<and> sha (concat tiles) = st_source_digest p)))"

definition tile_leases_ok :: "byte list list \<Rightarrow> tile_lease list \<Rightarrow> tile_lease list \<Rightarrow> tile_stream \<Rightarrow> bool" where
  "tile_leases_ok tiles live issued s \<longleftrightarrow>
     distinct live \<and> set live = {l \<in> set issued. lease_valid (tl_slot l) (tl_generation l) s}
     \<and> (\<forall>l\<in>set issued. tl_slot l < length (ts_buffers s) \<and> tl_generation l \<le> ts_generations s ! tl_slot l
          \<and> tl_index l < length tiles \<and> tl_length l = length (tiles ! tl_index l))
     \<and> inj_on (\<lambda>l. (tl_slot l, tl_generation l)) (set issued)
     \<and> (\<forall>l\<in>set live. take (tl_length l) (ts_buffers s ! tl_slot l) = tiles ! tl_index l)
     \<and> (\<forall>i < length (ts_active s). ts_active s ! i \<longrightarrow> i \<in> tl_slot ` set live)"

definition stream_ok where
  "stream_ok sha p source tiles live issued s \<longleftrightarrow>
     tile_shape_ok p source tiles s \<and> content_ok sha p source tiles s \<and> tile_leases_ok tiles live issued s"

inductive tile_history :: "(byte list \<Rightarrow> string) \<Rightarrow> stream_plan \<Rightarrow> byte list option \<Rightarrow> tile_stream \<Rightarrow> byte list list
    \<Rightarrow> tile_lease list \<Rightarrow> tile_lease list \<Rightarrow> bool" for sha p source where
  started: "new_tile_stream sha p source provider = Inr s \<Longrightarrow> tile_history sha p source s [] [] []"
| acquired: "tile_history sha p source s tiles live issued \<Longrightarrow> acquire_next sha read_tile cancel s = (Inr (Some l), s')
    \<Longrightarrow> tile_payload read_tile s = Inr payload \<Longrightarrow> tile_history sha p source s' (tiles @ [payload]) (l # live) (l # issued)"
| at_end: "tile_history sha p source s tiles live issued \<Longrightarrow> acquire_next sha read_tile cancel s = (Inr None, s')
    \<Longrightarrow> tile_history sha p source s' tiles live issued"
| not_acquired: "tile_history sha p source s tiles live issued \<Longrightarrow> acquire_next sha read_tile cancel s = (Inl e, s')
    \<Longrightarrow> tile_history sha p source s' tiles (if ts_closed s' then [] else live) issued"
| polled: "tile_history sha p source s tiles live issued \<Longrightarrow> poll_cancellation cancel s = (r, s')
    \<Longrightarrow> tile_history sha p source s' tiles (if ts_closed s' then [] else live) issued"
| released: "tile_history sha p source s tiles live issued \<Longrightarrow> l \<in> set issued \<Longrightarrow> release_tile l s = (r, s')
    \<Longrightarrow> tile_history sha p source s' tiles (remove1 l live) issued"
| closed: "tile_history sha p source s tiles live issued \<Longrightarrow> tile_history sha p source (close_stream s) tiles [] issued"

lemma lease_valid_closed: "ts_closed s \<Longrightarrow> \<not> lease_valid slot g s"
  by (simp add: lease_valid_def)

lemma live_when_closed: "tile_leases_ok tiles live issued s \<Longrightarrow> ts_closed s \<Longrightarrow> live = []"
  by (cases live) (auto simp: tile_leases_ok_def lease_valid_closed)

lemma closed_by_close: "ts_closed (close_stream_locked c s)"
  by (simp add: close_stream_locked_def)

lemma tiles_close_ok:
  assumes "stream_ok sha p source tiles live issued s"
  shows "stream_ok sha p source tiles [] issued (close_stream_locked c s)"
proof (cases "ts_closed s")
  case True
  with assms live_when_closed [of tiles live issued s] show ?thesis
    by (simp add: stream_ok_def close_stream_locked_def)
next
  case False
  have "tile_leases_ok tiles [] issued (close_stream_locked c s)"
    using assms False by (auto simp: stream_ok_def tile_leases_ok_def tile_shape_ok_def close_stream_locked_def lease_valid_def le_SucI nth_map)
  then show ?thesis
    using assms False
    by (auto simp: stream_ok_def tile_shape_ok_def content_ok_def close_stream_locked_def zero_buffer_eq list_all_iff)
qed

lemma check_open_ok:
  assumes "stream_ok sha p source tiles live issued s" and "check_open cancel s = (r, s')"
  shows "stream_ok sha p source tiles (if ts_closed s' then [] else live) issued s'" and "r = Inr () \<Longrightarrow> s' = s \<and> \<not> ts_closed s"
proof -
  consider "ts_closed s" "s' = s" | "\<not> ts_closed s" "s' = close_stream_locked True s" | "\<not> ts_closed s" "s' = s"
    using assms(2) by (auto simp: check_open_def split: if_splits)
  then show "stream_ok sha p source tiles (if ts_closed s' then [] else live) issued s'"
  proof cases
    case 1
    with assms(1) live_when_closed [of tiles live issued s] show ?thesis by (auto simp: stream_ok_def)
  next
    case 2
    then show ?thesis using tiles_close_ok [OF assms(1), of True] by (simp add: close_stream_locked_def)
  next
    case 3
    with assms(1) show ?thesis by simp
  qed
  show "r = Inr () \<Longrightarrow> s' = s \<and> \<not> ts_closed s"
    using assms(2) by (auto simp: check_open_def split: if_splits)
qed

lemma all_set_update: "\<forall>b\<in>set xs. P b \<Longrightarrow> P v \<Longrightarrow> \<forall>b\<in>set (xs[i := v]). P b"
  using set_update_subset_insert by fastforce

lemma tile_release_ok:
  assumes "stream_ok sha p source tiles live issued s" and "l \<in> set issued" and "release_tile l s = (r, s')"
  shows "stream_ok sha p source tiles (remove1 l live) issued s'"
proof (cases "lease_valid (tl_slot l) (tl_generation l) s")
  case False
  then have "l \<notin> set live" using assms(1) by (auto simp: stream_ok_def tile_leases_ok_def)
  with assms False show ?thesis by (simp add: release_tile_def remove1_idem)
next
  case True
  have s': "s' = s\<lparr>ts_buffers := (ts_buffers s)[tl_slot l := zero_buffer (ts_buffers s ! tl_slot l)],
      ts_active := (ts_active s)[tl_slot l := False]\<rparr>"
    using assms(3) True by (simp add: release_tile_def)
  have slot: "tl_slot l < length (ts_buffers s)" "\<not> ts_closed s" using True by (auto simp: lease_valid_def)
  note ok = assms(1) [unfolded stream_ok_def]
  have inj: "inj_on (\<lambda>l. (tl_slot l, tl_generation l)) (set issued)" using ok by (auto simp: tile_leases_ok_def)
  have same: "k = l" if "k \<in> set issued" "lease_valid (tl_slot k) (tl_generation k) s" "tl_slot k = tl_slot l" for k
    using inj_onD [OF inj, of k l] that True assms(2) by (auto simp: lease_valid_def)
  have valid': "lease_valid (tl_slot k) (tl_generation k) s' \<longleftrightarrow> lease_valid (tl_slot k) (tl_generation k) s \<and> tl_slot k \<noteq> tl_slot l" for k
    using slot ok by (auto simp: s' lease_valid_def tile_shape_ok_def nth_list_update)
  have live: "set (remove1 l live) = {k \<in> set issued. lease_valid (tl_slot k) (tl_generation k) s'}"
    using ok same by (auto simp: tile_leases_ok_def valid')
  have others: "tl_slot k \<noteq> tl_slot l" if "k \<in> set (remove1 l live)" for k
    using that live valid' by auto
  have "tile_leases_ok tiles (remove1 l live) issued s'"
    unfolding tile_leases_ok_def
  proof (intro conjI live)
    show "distinct (remove1 l live)" using ok by (simp add: tile_leases_ok_def)
    show "inj_on (\<lambda>l. (tl_slot l, tl_generation l)) (set issued)" by (rule inj)
    show "\<forall>k\<in>set issued. tl_slot k < length (ts_buffers s') \<and> tl_generation k \<le> ts_generations s' ! tl_slot k
          \<and> tl_index k < length tiles \<and> tl_length k = length (tiles ! tl_index k)"
      using ok by (simp add: tile_leases_ok_def s')
    show "\<forall>k\<in>set (remove1 l live). take (tl_length k) (ts_buffers s' ! tl_slot k) = tiles ! tl_index k"
    proof
      fix k assume k: "k \<in> set (remove1 l live)"
      then have "k \<in> set live" by (metis notin_set_remove1)
      with ok have "take (tl_length k) (ts_buffers s ! tl_slot k) = tiles ! tl_index k" unfolding tile_leases_ok_def by blast
      with others [OF k] show "take (tl_length k) (ts_buffers s' ! tl_slot k) = tiles ! tl_index k" by (simp add: s')
    qed
    show "\<forall>i<length (ts_active s'). ts_active s' ! i \<longrightarrow> i \<in> tl_slot ` set (remove1 l live)"
    proof (intro allI impI)
      fix i assume "i < length (ts_active s')" "ts_active s' ! i"
      moreover have "tl_slot l < length (ts_active s)" using ok slot by (simp add: tile_shape_ok_def)
      ultimately have "ts_active s ! i" "i < length (ts_active s)" "i \<noteq> tl_slot l"
        by (auto simp: s' nth_list_update split: if_splits)
      then obtain k where k: "k \<in> set live" "i = tl_slot k" using ok by (auto simp: tile_leases_ok_def)
      with \<open>i \<noteq> tl_slot l\<close> have "k \<in> set (remove1 l live)" by (metis in_set_remove1)
      with k show "i \<in> tl_slot ` set (remove1 l live)" by blast
    qed
  qed
  moreover have buffers: "\<forall>b\<in>set (ts_buffers s'). length b = nat (st_tile_bytes p)"
    unfolding s' by (simp, rule all_set_update) (use ok slot in \<open>auto simp: tile_shape_ok_def zero_buffer_eq\<close>)
  have "tile_shape_ok p source tiles s'"
    using ok slot buffers by (auto simp: tile_shape_ok_def s')
  moreover have "content_ok sha p source tiles s'"
    using ok by (simp add: content_ok_def s')
  ultimately show ?thesis by (simp add: stream_ok_def)
qed

section \<open>Acquiring a tile\<close>

lemma first_free_Some: "first_free xs = Some i \<Longrightarrow> i < length xs \<and> \<not> xs ! i"
  by (induction xs arbitrary: i) (auto split: if_splits)

lemma tile_payload_ok:
  assumes "tile_shape_ok p source tiles s" and "content_ok sha p source tiles s" and "\<not> ts_closed s" and "tile_payload read_tile s = Inr payload"
  shows "length payload = tile_length p (length tiles)" and "length payload \<le> nat (st_tile_bytes p)"
    and "source = Some bs \<Longrightarrow> concat (tiles @ [payload]) = take (length (tiles @ [payload]) * nat (st_tile_bytes p)) bs"
proof -
  let ?t = "nat (st_tile_bytes p)" and ?n = "length tiles"
  have s: "ts_plan s = p" "ts_next s = ?n" "ts_source s = source"
    using assms(1-3) by (auto simp: tile_shape_ok_def content_ok_def)
  have cut: "payload = take (tile_length p ?n) (drop (?n * ?t) bs)" "length bs = nat (st_source_bytes p)"
    "concat tiles = take (?n * ?t) bs" if "source = Some bs" for bs
    using that assms(2,4) s by (auto simp: tile_payload_def content_ok_def Let_def)
  show len: "length payload = tile_length p ?n"
  proof (cases source)
    case None
    with assms(4) s show ?thesis by (auto simp: tile_payload_def Let_def split: sum.splits if_splits)
  next
    case (Some bs)
    then show ?thesis using cut [OF Some] by (simp add: tile_length_def)
  qed
  then show "length payload \<le> ?t" by (simp add: tile_length_def)
  show "concat (tiles @ [payload]) = take (length (tiles @ [payload]) * ?t) bs" if "source = Some bs"
  proof -
    note cut = cut [OF that]
    have "concat (tiles @ [payload]) = take (?n * ?t + tile_length p ?n) bs"
      using cut(1,3) by (simp add: take_add)
    also have "\<dots> = take (length (tiles @ [payload]) * ?t) bs"
      using cut(2) by (auto simp: tile_length_def min_def add.commute) linarith
    finally show ?thesis .
  qed
qed

lemma tile_load_ok:
  assumes ok: "stream_ok sha p source tiles live issued s" and open_stream: "\<not> ts_closed s" and more: "ts_next s < tile_count p"
    and free: "first_free (ts_active s) = Some slot" and payload: "tile_payload read_tile s = Inr payload"
    and load: "load_tile slot payload s = (l, s')"
  shows "stream_ok sha p source (tiles @ [payload]) (l # live) (l # issued) s'"
proof -
  note parts = ok [unfolded stream_ok_def] and shape = ok [unfolded stream_ok_def, THEN conjunct1]
  note content = ok [unfolded stream_ok_def, THEN conjunct2, THEN conjunct1]
  note tile = tile_payload_ok [OF shape content open_stream payload]
  have slot: "slot < length (ts_active s)" "\<not> ts_active s ! slot" "slot < length (ts_buffers s)" "slot < length (ts_generations s)"
    using first_free_Some [OF free] shape by (auto simp: tile_shape_ok_def)
  have s': "s' = s\<lparr>ts_observed := (if ts_source s = None then ts_observed s @ payload else ts_observed s),
            ts_buffers := (ts_buffers s)[slot := payload @ drop (length payload) (ts_buffers s ! slot)],
            ts_generations := (ts_generations s)[slot := Suc (ts_generations s ! slot)],
            ts_active := (ts_active s)[slot := True], ts_next := Suc (length tiles)\<rparr>"
    and l: "tl_slot l = slot" "tl_generation l = Suc (ts_generations s ! slot)" "tl_index l = length tiles" "tl_length l = length payload"
    using load shape by (auto simp: load_tile_def Let_def tile_shape_ok_def)
  have issued: "tl_generation k \<le> ts_generations s ! tl_slot k" "tl_index k < length tiles" "tl_slot k < length (ts_buffers s)"
    "tl_length k = length (tiles ! tl_index k)" if "k \<in> set issued" for k
    using that parts by (auto simp: tile_leases_ok_def)
  have valid': "lease_valid (tl_slot k) (tl_generation k) s' \<longleftrightarrow> lease_valid (tl_slot k) (tl_generation k) s" if "k \<in> set issued" for k
    using slot issued(1) [OF that] by (auto simp: s' lease_valid_def nth_list_update)
  have new: "lease_valid (tl_slot l) (tl_generation l) s'" and fresh: "l \<notin> set issued"
    using slot open_stream issued(1) [of l] by (auto simp: s' l lease_valid_def)
  have away: "tl_slot k \<noteq> slot" if "k \<in> set live" for k
    using that parts slot by (auto simp: tile_leases_ok_def lease_valid_def)
  have "tile_leases_ok (tiles @ [payload]) (l # live) (l # issued) s'"
    unfolding tile_leases_ok_def
  proof (intro conjI)
    show "distinct (l # live)" and "set (l # live) = {k \<in> set (l # issued). lease_valid (tl_slot k) (tl_generation k) s'}"
      using parts valid' new fresh by (auto simp: tile_leases_ok_def)
    show "\<forall>k\<in>set (l # issued). tl_slot k < length (ts_buffers s') \<and> tl_generation k \<le> ts_generations s' ! tl_slot k
          \<and> tl_index k < length (tiles @ [payload]) \<and> tl_length k = length ((tiles @ [payload]) ! tl_index k)"
      using issued slot by (auto simp: s' l nth_list_update nth_append intro: le_SucI less_SucI)
    show "inj_on (\<lambda>l. (tl_slot l, tl_generation l)) (set (l # issued))"
      using parts issued(1) by (auto simp: tile_leases_ok_def l inj_on_insert) (metis Suc_n_not_le_n)+
    show "\<forall>k\<in>set (l # live). take (tl_length k) (ts_buffers s' ! tl_slot k) = (tiles @ [payload]) ! tl_index k"
    proof
      fix k assume "k \<in> set (l # live)"
      then consider "k = l" | "k \<in> set live" "k \<in> set issued" using parts by (auto simp: tile_leases_ok_def)
      then show "take (tl_length k) (ts_buffers s' ! tl_slot k) = (tiles @ [payload]) ! tl_index k"
      proof cases
        case 1
        then show ?thesis using slot by (simp add: s' l)
      next
        case 2
        have "take (tl_length k) (ts_buffers s ! tl_slot k) = tiles ! tl_index k"
          using parts 2(1) unfolding tile_leases_ok_def by blast
        with away [OF 2(1)] issued(2) [OF 2(2)] show ?thesis by (simp add: s' nth_append)
      qed
    qed
    show "\<forall>i<length (ts_active s'). ts_active s' ! i \<longrightarrow> i \<in> tl_slot ` set (l # live)"
      using parts slot by (auto simp: s' l tile_leases_ok_def nth_list_update split: if_splits)
  qed
  moreover have buffers: "\<forall>b\<in>set (ts_buffers s'). length b = nat (st_tile_bytes p)"
    unfolding s' by (simp, rule all_set_update) (use shape tile(2) slot in \<open>auto simp: tile_shape_ok_def\<close>)
  have "tile_shape_ok p source (tiles @ [payload]) s'"
    unfolding tile_shape_ok_def
  proof (intro conjI buffers)
    show "\<forall>i<length (tiles @ [payload]). length ((tiles @ [payload]) ! i) = tile_length p i"
      using shape tile(1) by (auto simp: tile_shape_ok_def nth_append less_Suc_eq)
  qed (use shape more open_stream in \<open>simp_all add: tile_shape_ok_def s'\<close>)
  moreover have "content_ok sha p source (tiles @ [payload]) s'"
    using content tile(3) more open_stream shape unfolding s' by (auto simp: content_ok_def tile_shape_ok_def)
  ultimately show ?thesis by (simp add: stream_ok_def)
qed

section \<open>Every history\<close>

lemma new_stream_ok:
  assumes "new_tile_stream sha p source provider = Inr s"
  shows "stream_ok sha p source [] [] [] s"
  using assms by (auto simp: new_tile_stream_def stream_ok_def tile_shape_ok_def content_ok_def tile_leases_ok_def list_all_iff split: if_splits option.splits)

text \<open>What a call of \<open>acquire_next\<close> does, by its result.\<close>

lemma tile_acquire_cases:
  assumes "acquire_next sha read_tile cancel s = (r, s')"
  obtains (refused) e where "check_open cancel s = (Inl e, s')" "r = Inl e"
  | (ended) "check_open cancel s = (Inr (), s)" "tile_count (ts_plan s) \<le> ts_next s" "r = Inr None"
      "ts_verified s \<and> s' = s \<or> sha (ts_observed s) = st_source_digest (ts_plan s) \<and> s' = s\<lparr>ts_verified := True\<rparr>"
  | (mismatch) e where "check_open cancel s = (Inr (), s)" "r = Inl e" "s' = close_stream_locked False s"
  | (failed) e where "check_open cancel s = (Inr (), s)" "r = Inl e" "s' = s"
  | (loaded) slot payload l where "check_open cancel s = (Inr (), s)" "\<not> tile_count (ts_plan s) \<le> ts_next s"
      "first_free (ts_active s) = Some slot" "tile_payload read_tile s = Inr payload" "load_tile slot payload s = (l, s')" "r = Inr (Some l)"
proof -
  obtain c s1 where c: "check_open cancel s = (c, s1)" by force
  have same: "s1 = s" if "c = Inr ()" using c that by (auto simp: check_open_def split: if_splits)
  show thesis
  proof (cases c)
    case (Inl e)
    with assms c refused show thesis by (simp add: acquire_next_def)
  next
    case (Inr u)
    with same have "s1 = s" by simp
    with assms c Inr that(2-5) show thesis
      by (auto simp: acquire_next_def split: if_splits option.splits sum.splits prod.splits)
  qed
qed

lemma tiles_ended_ok:
  assumes "stream_ok sha p source tiles live issued s" and "acquire_next sha read_tile cancel s = (Inr None, s')"
  shows "stream_ok sha p source tiles live issued s'" and "length tiles = tile_count p"
    and "source = None \<Longrightarrow> sha (concat tiles) = st_source_digest p"
proof -
  note parts = assms(1) [unfolded stream_ok_def]
  have plan: "ts_plan s = p" "ts_next s = length tiles" "length tiles \<le> tile_count p" using parts by (auto simp: tile_shape_ok_def)
  from assms(2) have "stream_ok sha p source tiles live issued s' \<and> length tiles = tile_count p
      \<and> (source = None \<longrightarrow> sha (concat tiles) = st_source_digest p)"
  proof (cases rule: tile_acquire_cases)
    case ended
    have "\<not> ts_closed s" using ended(1) by (auto simp: check_open_def split: if_splits)
    moreover have "length tiles = tile_count p" using ended(2) plan by simp
    ultimately show ?thesis
      using ended(4) parts plan by (auto simp: stream_ok_def tile_shape_ok_def content_ok_def tile_leases_ok_def lease_valid_def)
  qed simp_all
  then show "stream_ok sha p source tiles live issued s'" and "length tiles = tile_count p"
    and "source = None \<Longrightarrow> sha (concat tiles) = st_source_digest p" by auto
qed

lemma tile_history_ok: "tile_history sha p source s tiles live issued \<Longrightarrow> stream_ok sha p source tiles live issued s"
proof (induction rule: tile_history.induct)
  case (started provider s)
  then show ?case by (rule new_stream_ok)
next
  case (acquired s tiles live issued read_tile cancel l s' payload)
  from acquired.hyps(2) show ?case
  proof (cases rule: tile_acquire_cases)
    case (loaded slot payload' l')
    have "\<not> ts_closed s" using loaded(1) by (auto simp: check_open_def split: if_splits)
    moreover have "ts_plan s = p" using acquired.IH by (simp add: stream_ok_def tile_shape_ok_def)
    ultimately show ?thesis
      using tile_load_ok [OF acquired.IH, of slot read_tile payload l s'] loaded acquired.hyps(3) by simp
  qed simp_all
next
  case (at_end s tiles live issued read_tile cancel s')
  show ?case by (rule tiles_ended_ok(1) [OF at_end.IH at_end.hyps(2)])
next
  case (not_acquired s tiles live issued read_tile cancel e s')
  from not_acquired.hyps(2) show ?case
  proof (cases rule: tile_acquire_cases)
    case (refused e')
    then show ?thesis using check_open_ok(1) [OF not_acquired.IH] by blast
  next
    case (mismatch e')
    then show ?thesis using tiles_close_ok [OF not_acquired.IH, of False] by (simp add: closed_by_close)
  next
    case (failed e')
    then show ?thesis using not_acquired.IH check_open_ok(2) [OF not_acquired.IH failed(1)] by simp
  qed simp_all
next
  case (polled s tiles live issued cancel r s')
  then show ?case using check_open_ok(1) [OF polled.IH] by (simp add: poll_cancellation_def)
next
  case (released s tiles live issued l r s')
  show ?case by (rule tile_release_ok [OF released.IH released.hyps(2,3)])
next
  case (closed s tiles live issued)
  show ?case unfolding close_stream_def by (rule tiles_close_ok [OF closed.IH])
qed

lemma tiles_length:
  assumes "\<forall>i < length tiles. length (tiles ! i) = tile_length p i"
  shows "length (concat tiles) = min (length tiles * nat (st_tile_bytes p)) (nat (st_source_bytes p))"
  using assms
proof (induction tiles rule: rev_induct)
  case (snoc tile tiles)
  have "length (tiles ! i) = tile_length p i" if "i < length tiles" for i
    using snoc.prems [rule_format, of i] that by (simp add: nth_append)
  then have "length (concat tiles) = min (length tiles * nat (st_tile_bytes p)) (nat (st_source_bytes p))"
    by (intro snoc.IH) simp
  moreover have "length tile = tile_length p (length tiles)" using snoc.prems by (auto simp: nth_append dest: spec [of _ "length tiles"])
  ultimately show ?case by (simp add: tile_length_def) linarith
qed simp

lemma tiles_cover:
  assumes "stream_plan_init p = Inr p"
  shows "nat (st_source_bytes p) \<le> tile_count p * nat (st_tile_bytes p)"
proof -
  have t: "1 \<le> st_tile_bytes p" and n: "1 \<le> st_source_bytes p" using assms by (auto simp: stream_plan_init_def split: if_splits)
  let ?c = "(st_source_bytes p + st_tile_bytes p - 1) div st_tile_bytes p"
  have "st_source_bytes p + st_tile_bytes p - 1 = ?c * st_tile_bytes p + (st_source_bytes p + st_tile_bytes p - 1) mod st_tile_bytes p"
    by simp
  moreover have "(st_source_bytes p + st_tile_bytes p - 1) mod st_tile_bytes p < st_tile_bytes p" using t by simp
  ultimately have "st_source_bytes p \<le> ?c * st_tile_bytes p" by linarith
  moreover have "0 \<le> ?c" using t n by (simp add: pos_imp_zdiv_nonneg_iff)
  ultimately show ?thesis using t by (simp add: tile_count_def flip: nat_mult_distrib)
qed

lemma active_slots:
  assumes "tile_leases_ok tiles live issued s" and "length (ts_active s) = length (ts_buffers s)"
  shows "length (filter (\<lambda>a. a) (ts_active s)) = length live"
proof -
  have "{i. i < length (ts_active s) \<and> ts_active s ! i} = tl_slot ` set live"
    using assms by (auto simp: tile_leases_ok_def lease_valid_def)
  moreover have "inj_on tl_slot (set live)"
    using assms(1) by (auto simp: tile_leases_ok_def lease_valid_def inj_on_def)
  moreover have "card (set live) = length live"
    using assms(1) unfolding tile_leases_ok_def by (blast intro: distinct_card)
  ultimately show ?thesis
    by (simp only: length_filter_conv_card card_image)
qed

text \<open>C22: A tile lease is exclusive and never stale: whatever the client does, a lease that is held reads exactly the
  bytes of its tile, and a lease that was released, or whose stream was closed or cancelled, reads nothing; the leases
  held are the tiles in flight, at most two.  The tiles are the source cut in order, and the stream announces its end only
  after a whole source of the announced size and digest has been delivered.\<close>

theorem tile_leases_read_their_tiles:
  assumes "stream_plan_init p = Inr p" and "tile_history sha p source s tiles live issued"
  shows "(\<forall>l\<in>set issued. read_lease l s =
        (if l \<in> set live then Inr (tiles ! tl_index l) else Inl (ValueError ''numeric tile lease is invalid or already released'')))
    \<and> length (filter (\<lambda>a. a) (ts_active s)) = length live \<and> length live \<le> 2
    \<and> (\<forall>bs. source = Some bs \<longrightarrow> concat tiles = take (length tiles * nat (st_tile_bytes p)) bs)
    \<and> (\<forall>read_tile cancel s'. acquire_next sha read_tile cancel s = (Inr None, s') \<longrightarrow>
         int (length (concat tiles)) = st_source_bytes p \<and> sha (concat tiles) = st_source_digest p)"
proof -
  note ok = tile_history_ok [OF assms(2)] and parts = tile_history_ok [OF assms(2), unfolded stream_ok_def]
  have leases: "\<forall>l\<in>set issued. read_lease l s =
      (if l \<in> set live then Inr (tiles ! tl_index l) else Inl (ValueError ''numeric tile lease is invalid or already released''))"
    using parts by (auto simp: read_lease_def tile_leases_ok_def)
  have active: "length (filter (\<lambda>a. a) (ts_active s)) = length live"
    using parts by (intro active_slots) (auto simp: tile_shape_ok_def)
  have "length (ts_active s) \<le> 2"
    using parts assms(1) by (auto simp: tile_shape_ok_def active_buffer_count_def stream_plan_init_def split: if_splits)
  then have two: "length live \<le> 2"
    using active length_filter_le [of "\<lambda>a. a" "ts_active s"] by linarith
  have size: "length tiles = tile_count p \<Longrightarrow> int (length (concat tiles)) = st_source_bytes p"
    using tiles_length [of tiles p] tiles_cover [OF assms(1)] parts assms(1)
    by (auto simp: tile_shape_ok_def stream_plan_init_def min_def split: if_splits)
  have "int (length (concat tiles)) = st_source_bytes p \<and> sha (concat tiles) = st_source_digest p"
    if "acquire_next sha read_tile cancel s = (Inr None, s')" for read_tile cancel s'
  proof (cases source)
    case None
    with tiles_ended_ok(2,3) [OF ok that] size show ?thesis by simp
  next
    case (Some bs)
    then have "concat tiles = take (tile_count p * nat (st_tile_bytes p)) bs" "int (length bs) = st_source_bytes p" "sha bs = st_source_digest p"
      using parts tiles_ended_ok(2) [OF ok that] by (auto simp: content_ok_def)
    moreover have "take (tile_count p * nat (st_tile_bytes p)) bs = bs"
      using tiles_cover [OF assms(1)] calculation(2) by simp
    ultimately show ?thesis using Some by simp
  qed
  with leases active two parts show ?thesis by (auto simp: content_ok_def)
qed

text \<open>Five bytes in tiles of two, through two buffers.\<close>

definition example_stream_plan :: stream_plan where
  "example_stream_plan = \<lparr>st_source_digest = replicate 64 CHR ''a'', st_source_bytes = 5, st_tile_bytes = 2, st_buffer_count = 2,
     st_alignment_bytes = 1, st_schema_version = 1\<rparr>"

definition example_stream :: tile_stream where
  "example_stream = \<lparr>ts_plan = example_stream_plan, ts_source = Some [1, 2, 3, 4, 5], ts_provider = False, ts_observed = [],
     ts_verified = True, ts_buffers = [[0, 0], [0, 0]], ts_active = [False, False], ts_generations = [0, 0], ts_next = 0,
     ts_closed = False, ts_cancelled = False\<rparr>"

definition example_tile :: "nat \<Rightarrow> nat \<Rightarrow> nat \<Rightarrow> byte list result" where
  "example_tile index offset len = Inl StopIteration"

theorem tile_leases_read_their_tiles_witness:
  "\<exists>s l. tile_history (\<lambda>_. replicate 64 CHR ''a'') example_stream_plan (Some [1, 2, 3, 4, 5]) s [[1, 2]] [] [l]
     \<and> read_lease l s = Inl (ValueError ''numeric tile lease is invalid or already released'')"
proof -
  let ?sha = "\<lambda>_ :: byte list. replicate 64 CHR ''a''"
  let ?l = "\<lparr>tl_slot = 0, tl_generation = 1, tl_index = 0, tl_offset = 0, tl_length = 2\<rparr>"
  let ?s1 = "example_stream\<lparr>ts_buffers := [[1, 2], [0, 0]], ts_active := [True, False], ts_generations := [1, 0], ts_next := 1\<rparr>"
  note defs = example_stream_def example_stream_plan_def
  have count: "tile_count example_stream_plan = 3" by (simp add: tile_count_def example_stream_plan_def)
  have plan: "stream_plan_init example_stream_plan = Inr example_stream_plan"
    by (simp add: stream_plan_init_def example_stream_plan_def is_hex_def list_all_iff MAX_NUMERIC_STREAM_BYTES_def MAX_NUMERIC_TILE_BYTES_def)
  have "new_tile_stream ?sha example_stream_plan (Some [1, 2, 3, 4, 5]) False = Inr example_stream"
    by (simp add: new_tile_stream_def active_buffer_count_def count) (simp add: defs numeral_2_eq_2)
  from tile_history.started [OF this]
  have "tile_history ?sha example_stream_plan (Some [1, 2, 3, 4, 5]) example_stream [] [] []" .
  moreover have payload: "tile_payload example_tile example_stream = Inr [1, 2]"
    by (simp add: tile_payload_def tile_length_def defs)
  moreover have "acquire_next ?sha example_tile False example_stream = (Inr (Some ?l), ?s1)"
    using payload count by (simp add: acquire_next_def check_open_def load_tile_def example_stream_def)
  ultimately have s1: "tile_history ?sha example_stream_plan (Some [1, 2, 3, 4, 5]) ?s1 [[1, 2]] [?l] [?l]"
    using tile_history.acquired [of ?sha example_stream_plan "Some [1, 2, 3, 4, 5]" example_stream "[]" "[]" "[]" example_tile False ?l ?s1 "[1, 2]"]
    by simp
  obtain s2 where "release_tile ?l ?s1 = (Inr (), s2)"
    by (simp add: release_tile_def lease_valid_def example_stream_def)
  from tile_history.released [OF s1 _ this]
  have "tile_history ?sha example_stream_plan (Some [1, 2, 3, 4, 5]) s2 [[1, 2]] [] [?l]" by simp
  with tile_leases_read_their_tiles [OF plan this] show ?thesis by auto
qed

text \<open>What the theorem says of reading does not hold of views: a view taken under a valid lease is not revoked when the
  lease is released, and shows whatever the buffer holds next.\<close>

lemma view_outlives_its_lease:
  assumes "view_lease l s = Inr v"
  shows "\<exists>s'. release_tile l s = (Inr (), s') \<and> view_bytes v s' = replicate (min (tl_length l) (length (ts_buffers s ! tl_slot l))) 0"
  using assms
  by (auto simp: view_lease_def view_bytes_def release_tile_def zero_buffer_eq lease_valid_def split: if_splits)

end
