(* ===== verification/NumericCodecs.thy ===== *)
theory NumericCodecs
  imports NumericFormats PyFloat
begin

unbundle bit_operations_syntax

text \<open>
  \<open>vllm_apple/numeric_codecs.py\<close> and the decoder of \<open>vllm_apple/numeric_mx.py\<close>: FP8, NF4, groupwise affine and
  OCP MX values.  A finite float is its sign bit and its magnitude, so that a negative zero is a value of its own; an
  argument that is not finite is \<open>None\<close>.  Differences, quotients and products of floats are rounded (\<open>rnd\<close>);
  decoded values are exact.
\<close>

type_synonym signed = "bool \<times> rat"

definition signed_value :: "signed \<Rightarrow> rat" where
  "signed_value v = (if fst v then - snd v else snd v)"

definition MAX_CODEC_ELEMENTS :: nat where
  "MAX_CODEC_ELEMENTS = 65536"

definition validate_values :: "signed option list \<Rightarrow> signed list result" where
  "validate_values vs =
     (if \<not> (1 \<le> length vs \<and> length vs \<le> MAX_CODEC_ELEMENTS) \<or> list_ex (\<lambda>v. v = None) vs
      then Inl (ValueError ''invalid numeric codec values'')
      else Inr (map the vs))"

text \<open>\<open>min(xs, key=...)\<close>: the first element with the least key.\<close>

fun least :: "('a \<Rightarrow> 'a \<Rightarrow> bool) \<Rightarrow> 'a \<Rightarrow> 'a list \<Rightarrow> 'a" where
  "least lt x [] = x"
| "least lt x (y # ys) = least lt (if lt y x then y else x) ys"

section \<open>FP8\<close>

definition fp8_parameters :: "string \<Rightarrow> (nat \<times> nat \<times> int \<times> bool) result" where
  "fp8_parameters variant =
     (if variant = ''e4m3fn'' then Inr (4, 3, 7, True)
      else if variant = ''e5m2'' then Inr (5, 2, 15, False)
      else Inl (ValueError ''unsupported FP8 variant''))"

definition fp8_value :: "nat \<times> nat \<times> int \<times> bool \<Rightarrow> byte \<Rightarrow> signed result" where
  "fp8_value parameters byte = (case parameters of (exponent_bits, mantissa_bits, bias, finite_nan) \<Rightarrow>
     let code = uint byte;
         exponent_mask = 2 ^ exponent_bits - 1;
         mantissa_mask = 2 ^ mantissa_bits - 1;
         exponent = drop_bit mantissa_bits code AND exponent_mask;
         mantissa = code AND mantissa_mask;
         negative = (code AND 0x80 \<noteq> 0)
     in if exponent = 0 then Inr (negative, ldexp (of_int mantissa / 2 ^ mantissa_bits) (1 - bias))
        else if finite_nan \<and> exponent = exponent_mask \<and> mantissa = mantissa_mask
        then Inl (ValueError ''FP8 payload contains NaN'')
        else if \<not> finite_nan \<and> exponent = exponent_mask then Inl (ValueError ''FP8 payload contains nonfinite value'')
        else Inr (negative, ldexp (1 + of_int mantissa / 2 ^ mantissa_bits) (exponent - bias)))"

definition decode_fp8 :: "byte list \<Rightarrow> string \<Rightarrow> signed list result" where
  "decode_fp8 payload variant =
     (if \<not> (1 \<le> length payload \<and> length payload \<le> MAX_CODEC_ELEMENTS) then Inl (ValueError ''invalid FP8 payload'')
      else case fp8_parameters variant of Inl e \<Rightarrow> Inl e | Inr ps \<Rightarrow> collect (fp8_value ps) payload)"

definition fp8_codebook :: "nat \<times> nat \<times> int \<times> bool \<Rightarrow> (byte \<times> signed) list" where
  "fp8_codebook ps = concat (map (\<lambda>code. case fp8_value ps (word_of_nat code) of Inl e \<Rightarrow> [] | Inr v \<Rightarrow> [(word_of_nat code, v)]) [0..<256])"

definition distance :: "rat \<Rightarrow> rat \<Rightarrow> rat" where
  "distance x v = \<bar>rnd (x - v)\<bar>"

text \<open>The key \<open>(abs(item[1] - value), item[0] & 1, item[0])\<close>.\<close>

definition fp8_nearer :: "rat \<Rightarrow> byte \<times> signed \<Rightarrow> byte \<times> signed \<Rightarrow> bool" where
  "fp8_nearer v x y =
     (let dx = distance (signed_value (snd x)) v; dy = distance (signed_value (snd y)) v;
          ex = uint (fst x) AND 1; ey = uint (fst y) AND 1
      in dx < dy \<or> dx = dy \<and> (ex < ey \<or> ex = ey \<and> uint (fst x) < uint (fst y)))"

definition fp8_encode_value :: "(byte \<times> signed) list \<Rightarrow> rat \<Rightarrow> signed \<Rightarrow> byte result" where
  "fp8_encode_value codebook maximum value =
     (if maximum < snd value then Inl (ValueError ''FP8 value overflows finite range'')
      else if snd value = 0 then Inr (if fst value then 0x80 else 0)
      else case filter (\<lambda>(code, decoded). fst decoded = fst value) codebook of
             [] \<Rightarrow> Inl (ValueError ''min() arg is an empty sequence'')
           | x # xs \<Rightarrow> Inr (fst (least (fp8_nearer (signed_value value)) x xs)))"

definition encode_fp8 :: "signed option list \<Rightarrow> string \<Rightarrow> byte list result" where
  "encode_fp8 values variant =
     (case validate_values values of
        Inl e \<Rightarrow> Inl e
      | Inr vs \<Rightarrow>
          (case fp8_parameters variant of
             Inl e \<Rightarrow> Inl (ValueError ''max() iterable argument is empty'')
           | Inr ps \<Rightarrow>
               let codebook = fp8_codebook ps; maximum = Max (set (map (\<lambda>(code, v). snd v) codebook))
               in collect (fp8_encode_value codebook maximum) vs))"

text \<open>With an unknown variant every code of the codebook is skipped, and \<open>max\<close> fails instead.\<close>

section \<open>The FP8 tables\<close>

fun ascending :: "rat list \<Rightarrow> bool" where
  "ascending (x # y # ys) = (x < y \<and> ascending (y # ys))"
| "ascending _ = True"

lemma ascending_nth: "ascending xs \<Longrightarrow> i < j \<Longrightarrow> j < length xs \<Longrightarrow> xs ! i < xs ! j"
proof (induction xs arbitrary: i j rule: ascending.induct)
  case (1 x y ys)
  then show ?case
  proof (cases i)
    case 0
    with 1 show ?thesis
      by (cases "j = 1") (auto simp: nth_Cons' intro: less_trans [of _ y] dest: "1.IH" [of 0 "j - 1"])
  next
    case (Suc k)
    with 1 show ?thesis by (cases j) auto
  qed
qed simp_all

definition magnitudes :: "nat \<times> nat \<times> int \<times> bool \<Rightarrow> nat \<Rightarrow> rat list" where
  "magnitudes ps n = map (\<lambda>c. case fp8_value ps (word_of_nat c) of Inl e \<Rightarrow> 0 | Inr v \<Rightarrow> snd v) [0..<n]"

text \<open>Code \<open>128 + c\<close> is code \<open>c\<close> with a minus sign, and codes from \<open>n\<close> on are not finite.\<close>

definition table_row_ok :: "nat \<times> nat \<times> int \<times> bool \<Rightarrow> nat \<Rightarrow> nat \<Rightarrow> bool" where
  "table_row_ok ps n c =
     (case fp8_value ps (word_of_nat c) of
        Inl e \<Rightarrow> n \<le> c \<and> isl (fp8_value ps (word_of_nat (128 + c)))
      | Inr (negative, m) \<Rightarrow> c < n \<and> \<not> negative \<and> fp8_value ps (word_of_nat (128 + c)) = Inr (True, m)
          \<and> snd (quotient_of (m * 65536)) = 1)"

definition e4m3fn :: "nat \<times> nat \<times> int \<times> bool" where
  "e4m3fn = (4, 3, 7, True)"

definition e5m2 :: "nat \<times> nat \<times> int \<times> bool" where
  "e5m2 = (5, 2, 15, False)"

lemma e4m3fn_table: "list_all (table_row_ok e4m3fn 127) [0..<128]" "ascending (magnitudes e4m3fn 127)" "hd (magnitudes e4m3fn 127) = 0"
  by code_simp+

lemma e5m2_table: "list_all (table_row_ok e5m2 124) [0..<128]" "ascending (magnitudes e5m2 124)" "hd (magnitudes e5m2 124) = 0"
  by code_simp+

section \<open>What a table gives\<close>

lemma rnd_pos_positive:
  assumes "2 powi e \<le> x" and "- 1074 \<le> e"
  shows "0 < rnd_pos x"
proof -
  have "0 < x" using assms(1) by (rule less_le_trans [rotated]) simp
  note log = ilog2_bounds [OF this]
  have "(2::rat) powi e < 2 powi (ilog2 x + 1)" using assms(1) log(2) by (rule le_less_trans)
  then have "e < ilog2 x + 1" by (simp only: powi_two_less)
  with assms(2) have "fexp x \<le> ilog2 x" by (simp add: fexp_def)
  from rnd_pos_ge_powi [OF log(1) this] show ?thesis by (rule less_le_trans [rotated]) simp
qed

lemma rnd_visible: "1 / 65536 \<le> \<bar>d\<bar> \<Longrightarrow> 0 < \<bar>rnd d\<bar>"
proof -
  assume "1 / 65536 \<le> \<bar>d\<bar>"
  moreover have "(2::rat) powi (- 16) = 1 / 65536" by (simp add: power_int_def power_divide)
  ultimately have "0 < rnd_pos \<bar>d\<bar>" and "d \<noteq> 0" using rnd_pos_positive [of "- 16" "\<bar>d\<bar>"] by auto
  then show ?thesis by (auto simp: rnd_def abs_if split: if_splits)
qed

lemma least_in: "least lt x xs \<in> set (x # xs)"
  by (induction lt x xs rule: least.induct) auto

lemma least_unique:
  assumes "z \<in> set (x # xs)" and "\<And>y. y \<in> set (x # xs) \<Longrightarrow> y \<noteq> z \<Longrightarrow> lt z y \<and> \<not> lt y z"
  shows "least lt x xs = z"
  using assms
proof (induction lt x xs rule: least.induct)
  case (2 lt x y ys)
  have "z \<in> set ((if lt y x then y else x) # ys)"
    using "2.prems"(1) "2.prems"(2) [of x] "2.prems"(2) [of y] by (cases "x = z"; cases "y = z") auto
  then have "least lt (if lt y x then y else x) ys = z"
    by (rule "2.IH") (use "2.prems"(2) in \<open>auto split: if_splits\<close>)
  then show ?case by simp
qed simp

lemma least_is_least:
  assumes "\<And>a b c. lt a b \<Longrightarrow> lt a c \<or> lt c b" and "\<And>a b. lt a b \<Longrightarrow> \<not> lt b a"
  shows "\<forall>y\<in>set (x # xs). \<not> lt y (least lt x xs)"
  using assms
proof (induction lt x xs rule: least.induct)
  case (1 lt x)
  have "\<not> lt x x" using "1.prems"(2) by blast
  then show ?case by simp
next
  case (2 lt x y ys)
  let ?z = "least lt (if lt y x then y else x) ys"
  have IH: "\<forall>w\<in>set ((if lt y x then y else x) # ys). \<not> lt w ?z"
    by (rule "2.IH") (use "2.prems" in blast)+
  then have "\<not> lt x ?z" and "\<not> lt y ?z"
    using "2.prems"(1) [of y x ?z] "2.prems"(1) [of y ?z x] "2.prems"(2) [of x ?z] by (auto split: if_splits)
  with IH show ?case by simp
qed

lemma fp8_nearer_order:
  "fp8_nearer v a b \<Longrightarrow> fp8_nearer v a c \<or> fp8_nearer v c b" "fp8_nearer v a b \<Longrightarrow> \<not> fp8_nearer v b a"
  by (auto simp: fp8_nearer_def Let_def)

locale fp8_table =
  fixes ps :: "nat \<times> nat \<times> int \<times> bool" and n :: nat
  assumes rows: "list_all (table_row_ok ps n) [0..<128]"
    and ascends: "ascending (magnitudes ps n)"
    and from_zero: "hd (magnitudes ps n) = 0"
    and size_of_table: "0 < n" "n \<le> 128"
begin

lemma row: "c < 128 \<Longrightarrow> table_row_ok ps n c"
  using rows by (simp add: list_all_iff)

lemma magnitude_at: "c < n \<Longrightarrow> fp8_value ps (word_of_nat c) = Inr (negative, m) \<Longrightarrow> magnitudes ps n ! c = m"
  by (simp add: magnitudes_def)

text \<open>A finite code is its sign bit and an index into the magnitudes.\<close>

lemma finite_code:
  assumes "fp8_value ps b = Inr (negative, m)"
  obtains c where "c < n" and "b = word_of_nat (if negative then 128 + c else c)" and "m = magnitudes ps n ! c"
    and "fp8_value ps (word_of_nat c) = Inr (False, m)" and "fp8_value ps (word_of_nat (128 + c)) = Inr (True, m)"
proof -
  have b: "b = word_of_nat (unat b)" by simp
  have small: "unat b < 256" using unsigned_less [of b, where ?'a = nat] by simp
  define c where "c = (if unat b < 128 then unat b else unat b - 128)"
  have c: "c < 128" "unat b = (if unat b < 128 then c else 128 + c)" using small by (auto simp: c_def)
  show thesis
  proof (cases "unat b < 128")
    case True
    with c(2) b assms have "fp8_value ps (word_of_nat c) = Inr (negative, m)" by simp
    with row [OF c(1)] have facts: "c < n" "\<not> negative" "fp8_value ps (word_of_nat (128 + c)) = Inr (True, m)"
      by (simp_all add: table_row_ok_def)
    moreover have "m = magnitudes ps n ! c"
      using magnitude_at [OF facts(1) \<open>fp8_value ps (word_of_nat c) = Inr (negative, m)\<close>] by simp
    ultimately show thesis
      using that [of c] True c(2) b \<open>fp8_value ps (word_of_nat c) = Inr (negative, m)\<close> by simp
  next
    case False
    with c(2) b assms have high: "fp8_value ps (word_of_nat (128 + c)) = Inr (negative, m)" by simp
    show thesis
    proof (cases "fp8_value ps (word_of_nat c)")
      case (Inl e)
      with row [OF c(1)] high show thesis by (simp add: table_row_ok_def)
    next
      case (Inr v)
      with row [OF c(1)] high have facts: "c < n" "v = (False, m)" "negative"
        by (cases v; simp add: table_row_ok_def)+
      moreover have "m = magnitudes ps n ! c"
        using magnitude_at [OF facts(1), of False m] Inr facts(2) by simp
      ultimately show thesis using that [of c] False c(2) b high Inr by simp
    qed
  qed
qed

lemma decoded_determines_code:
  assumes "fp8_value ps b = Inr v" and "fp8_value ps b' = Inr v"
  shows "b = b'"
proof -
  obtain negative m where v: "v = (negative, m)" by force
  obtain c where c: "c < n" "b = word_of_nat (if negative then 128 + c else c)" "m = magnitudes ps n ! c"
    using finite_code assms(1) v by blast
  obtain c' where c': "c' < n" "b' = word_of_nat (if negative then 128 + c' else c')" "m = magnitudes ps n ! c'"
    using finite_code assms(2) v by blast
  have "c = c'"
    using ascending_nth [OF ascends, of c c'] ascending_nth [OF ascends, of c' c] c c'
    by (auto simp: magnitudes_def dest: linorder_neqE_nat)
  with c c' show ?thesis by simp
qed

lemma magnitude_nonneg:
  assumes "fp8_value ps b = Inr (negative, m)"
  shows "0 \<le> m" and "m = 0 \<Longrightarrow> b = (if negative then 0x80 else 0)"
proof -
  obtain c where c: "c < n" "b = word_of_nat (if negative then 128 + c else c)" "m = magnitudes ps n ! c"
    using finite_code assms by blast
  have first: "magnitudes ps n ! 0 = 0" using from_zero size_of_table by (simp add: hd_conv_nth magnitudes_def)
  have above: "0 < c \<Longrightarrow> 0 < m" using ascending_nth [OF ascends, of 0 c] c first by (simp add: magnitudes_def)
  with first c(3) show "0 \<le> m" by (cases "c = 0") auto
  show "m = 0 \<Longrightarrow> b = (if negative then 0x80 else 0)" using above c(2) by (cases "c = 0") auto
qed

text \<open>The magnitudes are multiples of \<open>1 / 65536\<close>, so that different values differ visibly.\<close>

lemma magnitude_multiple:
  assumes "fp8_value ps b = Inr (negative, m)"
  obtains k :: int where "m = of_int k / 65536"
proof -
  obtain c where c: "c < n" "fp8_value ps (word_of_nat c) = Inr (False, m)" using finite_code assms by metis
  then have "snd (quotient_of (m * 65536)) = 1" using row [of c] size_of_table by (simp add: table_row_ok_def)
  then have "m * 65536 = of_int (fst (quotient_of (m * 65536)))"
    by (metis div_by_1 of_int_1 prod.collapse quotient_of_div)
  then have "m = of_int (fst (quotient_of (m * 65536))) / 65536" by simp
  with that show thesis by blast
qed

lemma distance_pos:
  assumes "fp8_value ps b = Inr (negative, m)" and "fp8_value ps b' = Inr (negative, m')" and "m \<noteq> m'"
  shows "0 < distance (signed_value (negative, m)) (signed_value (negative, m'))"
proof -
  obtain k where k: "m = of_int k / 65536" using magnitude_multiple assms(1) by blast
  obtain k' where k': "m' = of_int k' / 65536" using magnitude_multiple assms(2) by blast
  let ?d = "signed_value (negative, m) - signed_value (negative, m')"
  obtain j :: int where j: "?d = of_int j / 65536" "j \<noteq> 0"
    using assms(3) k k' by (cases negative) (auto simp: signed_value_def field_simps intro: that [of "k' - k"] that [of "k - k'"])
  then have "1 \<le> \<bar>j\<bar>" by simp
  then have "(1 :: rat) \<le> of_int \<bar>j\<bar>" by (simp only: of_int_1_le_iff)
  then have "1 / 65536 \<le> \<bar>?d\<bar>" by (simp add: j(1) abs_divide divide_right_mono)
  with rnd_visible [of ?d] show ?thesis by (simp add: distance_def)
qed

text \<open>The codebook holds exactly the finite codes.\<close>

lemma codebook_iff: "(b, v) \<in> set (fp8_codebook ps) \<longleftrightarrow> fp8_value ps b = Inr v"
proof
  assume "fp8_value ps b = Inr v"
  moreover have "b = word_of_nat (unat b)" and "unat b < 256" using unsigned_less [of b, where ?'a = nat] by simp_all
  ultimately have "(b, v) \<in> set (case fp8_value ps (word_of_nat (unat b)) of Inl e \<Rightarrow> [] | Inr v \<Rightarrow> [(word_of_nat (unat b), v)])"
    and "unat b \<in> set [0..<256]" by simp_all
  then show "(b, v) \<in> set (fp8_codebook ps)"
    unfolding fp8_codebook_def set_concat set_map by blast
qed (auto simp: fp8_codebook_def split: sum.splits)

lemma below_maximum: "fp8_value ps b = Inr v \<Longrightarrow> snd v \<le> Max (set (map (\<lambda>(code, v). snd v) (fp8_codebook ps)))"
  by (rule Max_ge) (auto simp: image_iff codebook_iff intro!: bexI [of _ "(b, v)"])

text \<open>Encoding a decoded value finds its code again.\<close>

lemma encode_decoded:
  assumes "fp8_value ps b = Inr v"
  shows "fp8_encode_value (fp8_codebook ps) (Max (set (map (\<lambda>(code, v). snd v) (fp8_codebook ps)))) v = Inr b"
proof (cases "snd v = 0")
  case True
  moreover have "b = (if fst v then 0x80 else 0)"
    by (rule magnitude_nonneg(2) [of b "fst v" "snd v"]) (use assms True in \<open>metis prod.collapse\<close>)+
  ultimately show ?thesis
    using below_maximum [OF assms] by (auto simp: fp8_encode_value_def not_less)
next
  case False
  let ?same = "filter (\<lambda>(code, decoded). fst decoded = fst v) (fp8_codebook ps)"
  have z: "(b, v) \<in> set ?same" using assms by (simp add: codebook_iff)
  then obtain x xs where same: "?same = x # xs" by (cases ?same) auto
  have "least (fp8_nearer (signed_value v)) x xs = (b, v)"
  proof (rule least_unique)
    show "(b, v) \<in> set (x # xs)" using z same by simp
    fix y assume y: "y \<in> set (x # xs)" "y \<noteq> (b, v)"
    obtain c w where cw: "y = (c, w)" by (cases y) auto
    have w: "fp8_value ps c = Inr w" "fst w = fst v"
      using y(1) cw unfolding same [symmetric] by (auto simp: codebook_iff)
    have "w \<noteq> v" using decoded_determines_code [OF assms, of c] w(1) y(2) cw by auto
    then have "snd w \<noteq> snd v" using w(2) by (simp add: prod_eq_iff)
    moreover have "fp8_value ps c = Inr (fst v, snd w)" and "fp8_value ps b = Inr (fst v, snd v)"
      using w assms by (simp_all add: prod_eq_iff flip: w(2))
    ultimately have "0 < distance (signed_value (fst v, snd w)) (signed_value (fst v, snd v))"
      by (intro distance_pos)
    then have "0 < distance (signed_value w) (signed_value v)"
      by (cases "fst v") (simp_all add: signed_value_def w(2))
    moreover have "distance (signed_value v) (signed_value v) = 0" by (simp add: distance_def)
    ultimately show "fp8_nearer (signed_value v) (b, v) y \<and> \<not> fp8_nearer (signed_value v) y (b, v)"
      by (auto simp: fp8_nearer_def cw Let_def)
  qed
  with False same below_maximum [OF assms] show ?thesis by (simp add: fp8_encode_value_def not_less)
qed

lemma zero_codes: "fp8_value ps 0 = Inr (False, 0)" "fp8_value ps 0x80 = Inr (True, 0)"
proof -
  have "magnitudes ps n ! 0 = 0" using from_zero size_of_table by (simp add: hd_conv_nth magnitudes_def)
  then have m: "(case fp8_value ps 0 of Inl e \<Rightarrow> 0 | Inr v \<Rightarrow> snd v) = 0" using size_of_table by (simp add: magnitudes_def)
  have r: "table_row_ok ps n 0" by (rule row) simp
  show "fp8_value ps 0 = Inr (False, 0)" and "fp8_value ps 0x80 = Inr (True, 0)"
    using r m size_of_table by (auto simp: table_row_ok_def split: sum.splits)
qed

text \<open>The code of a value is a nearest one of its sign.\<close>

lemma encode_nearest:
  assumes "fp8_encode_value (fp8_codebook ps) maximum v = Inr b"
  shows "\<exists>w. fp8_value ps b = Inr w \<and> fst w = fst v \<and> (\<forall>c u. fp8_value ps c = Inr u \<and> fst u = fst v \<longrightarrow>
    distance (signed_value w) (signed_value v) \<le> distance (signed_value u) (signed_value v))"
proof (cases "snd v = 0")
  case True
  obtain neg where v: "v = (neg, 0)" using True by (cases v) auto
  have "b = (if neg then 0x80 else 0)" using assms by (simp add: v fp8_encode_value_def split: if_splits)
  moreover have "fp8_value ps 0 = Inr (False, 0)" and "fp8_value ps 0x80 = Inr (True, 0)"
    using zero_codes by auto
  ultimately have "fp8_value ps b = Inr v" by (simp add: v)
  then show ?thesis by (auto simp: distance_def)
next
  case False
  let ?same = "filter (\<lambda>(code, decoded). fst decoded = fst v) (fp8_codebook ps)"
  obtain x xs where same: "?same = x # xs" and b: "b = fst (least (fp8_nearer (signed_value v)) x xs)"
    using assms False by (auto simp: fp8_encode_value_def split: if_splits list.splits)
  let ?z = "least (fp8_nearer (signed_value v)) x xs"
  have z: "?z \<in> set ?same" unfolding same by (rule least_in)
  have near: "distance (signed_value (snd ?z)) (signed_value v) \<le> distance (signed_value (snd y)) (signed_value v)"
    if "y \<in> set ?same" for y
  proof -
    have "\<not> fp8_nearer (signed_value v) y ?z"
      using least_is_least [of "fp8_nearer (signed_value v)", OF fp8_nearer_order, of x xs] that unfolding same by blast
    then show ?thesis by (auto simp: fp8_nearer_def Let_def)
  qed
  obtain w where w: "?z = (b, w)" using b by (metis prod.collapse)
  have "distance (signed_value w) (signed_value v) \<le> distance (signed_value u) (signed_value v)"
    if "fp8_value ps c = Inr u" "fst u = fst v" for c u
    using near [of "(c, u)"] that w by (simp add: codebook_iff)
  with z w show ?thesis by (auto simp: codebook_iff)
qed

text \<open>Only a magnitude beyond the table's greatest is refused.\<close>

lemma encode_decides:
  "fp8_encode_value (fp8_codebook ps) maximum v = Inl (ValueError ''FP8 value overflows finite range'') \<longleftrightarrow> maximum < snd v"
  "isl (fp8_encode_value (fp8_codebook ps) maximum v) \<longleftrightarrow> maximum < snd v"
proof -
  have "(if fst v then 0x80 else 0, (fst v, 0)) \<in> set (filter (\<lambda>(code, decoded). fst decoded = fst v) (fp8_codebook ps))"
    using zero_codes by (auto simp: codebook_iff)
  then obtain x xs where "filter (\<lambda>(code, decoded). fst decoded = fst v) (fp8_codebook ps) = x # xs"
    by (cases "filter (\<lambda>(code, decoded). fst decoded = fst v) (fp8_codebook ps)") auto
  then show "fp8_encode_value (fp8_codebook ps) maximum v = Inl (ValueError ''FP8 value overflows finite range'') \<longleftrightarrow> maximum < snd v"
    "isl (fp8_encode_value (fp8_codebook ps) maximum v) \<longleftrightarrow> maximum < snd v"
    by (simp_all add: fp8_encode_value_def)
qed

end

interpretation e4m3fn: fp8_table e4m3fn 127
  by unfold_locales (use e4m3fn_table in simp_all)

interpretation e5m2: fp8_table e5m2 124
  by unfold_locales (use e5m2_table in simp_all)

section \<open>FP8 payloads\<close>

lemma collect_Inr:
  "collect f xs = Inr ys \<Longrightarrow> length ys = length xs \<and> (\<forall>i < length xs. f (xs ! i) = Inr (ys ! i))"
proof (induction xs arbitrary: ys)
  case (Cons x xs)
  then obtain y zs where "f x = Inr y" "collect f xs = Inr zs" "ys = y # zs" by (auto split: sum.splits)
  with Cons.IH [of zs] show ?case by (auto simp: nth_Cons' less_Suc_eq_0_disj)
qed simp

lemma collect_all:
  assumes "length ys = length xs" and "\<And>i. i < length xs \<Longrightarrow> f (xs ! i) = Inr (ys ! i)"
  shows "collect f xs = Inr ys"
  using assms
proof (induction xs arbitrary: ys)
  case (Cons x xs)
  then obtain y zs where ys: "ys = y # zs" by (cases ys) auto
  have "f x = Inr y" using Cons.prems(2) [of 0] ys by simp
  moreover have "collect f xs = Inr zs"
  proof (rule Cons.IH)
    show "length zs = length xs" using Cons.prems(1) ys by simp
    show "f (xs ! i) = Inr (zs ! i)" if "i < length xs" for i
      using Cons.prems(2) [of "Suc i"] that ys by simp
  qed
  with \<open>f x = Inr y\<close> show ?case by (simp add: ys)
qed simp

lemma variants: "fp8_parameters variant = Inr ps \<Longrightarrow> ps = e4m3fn \<or> ps = e5m2"
  by (auto simp: fp8_parameters_def e4m3fn_def e5m2_def split: if_splits)

lemma encode_decoded_variant:
  assumes "fp8_parameters variant = Inr ps" and "fp8_value ps b = Inr v"
  shows "fp8_encode_value (fp8_codebook ps) (Max (set (map (\<lambda>(code, v). snd v) (fp8_codebook ps)))) v = Inr b"
  using variants [OF assms(1)] assms(2) e4m3fn.encode_decoded e5m2.encode_decoded by blast

lemma fp8_decoded_encodes:
  assumes "decode_fp8 p variant = Inr vs"
  shows "encode_fp8 (map Some vs) variant = Inr p"
proof -
  from assms obtain ps where len: "1 \<le> length p" "length p \<le> MAX_CODEC_ELEMENTS" and ps: "fp8_parameters variant = Inr ps"
    and vs: "collect (fp8_value ps) p = Inr vs"
    by (auto simp: decode_fp8_def split: if_splits sum.splits)
  note facts = collect_Inr [OF vs]
  have "validate_values (map Some vs) = Inr vs"
    using facts len by (auto simp: validate_values_def list_ex_iff comp_def)
  moreover have "collect (fp8_encode_value (fp8_codebook ps) (Max (set (map (\<lambda>(code, v). snd v) (fp8_codebook ps))))) vs = Inr p"
  proof (rule collect_all)
    show "length p = length vs" using facts by simp
    fix i assume "i < length vs"
    then have "fp8_value ps (p ! i) = Inr (vs ! i)" using facts by simp
    from encode_decoded_variant [OF ps this]
    show "fp8_encode_value (fp8_codebook ps) (Max (set (map (\<lambda>(code, v). snd v) (fp8_codebook ps)))) (vs ! i) = Inr (p ! i)" .
  qed
  ultimately show ?thesis
    by (simp add: encode_fp8_def ps Let_def)
qed

lemma fp8_encoded_nearest:
  assumes "encode_fp8 values variant = Inr q"
  shows "\<exists>ws. decode_fp8 q variant = Inr ws \<and> length ws = length values
        \<and> (\<forall>i < length values. \<forall>v. values ! i = Some v \<longrightarrow> fst (ws ! i) = fst v
             \<and> (\<forall>c u. decode_fp8 [c] variant = Inr [u] \<and> fst u = fst v \<longrightarrow>
                  distance (signed_value (ws ! i)) (signed_value v) \<le> distance (signed_value u) (signed_value v)))"
proof -
  from assms obtain ps vs where ps: "fp8_parameters variant = Inr ps" and vs: "validate_values values = Inr vs"
    and q: "collect (fp8_encode_value (fp8_codebook ps) (Max (set (map (\<lambda>(code, v). snd v) (fp8_codebook ps))))) vs = Inr q"
    by (auto simp: encode_fp8_def Let_def split: sum.splits)
  note facts = collect_Inr [OF q]
  have len: "length values = length vs" "1 \<le> length vs" "length vs \<le> MAX_CODEC_ELEMENTS"
    and same: "values ! i = Some v \<Longrightarrow> i < length vs \<Longrightarrow> vs ! i = v" for i v
    using vs by (auto simp: validate_values_def split: if_splits)
  have "\<exists>w. fp8_value ps (q ! i) = Inr w \<and> fst w = fst (vs ! i) \<and> (\<forall>c u. fp8_value ps c = Inr u \<and> fst u = fst (vs ! i) \<longrightarrow>
      distance (signed_value w) (signed_value (vs ! i)) \<le> distance (signed_value u) (signed_value (vs ! i)))" if "i < length vs" for i
    using variants [OF ps] facts that e4m3fn.encode_nearest e5m2.encode_nearest by metis
  then obtain w where w: "\<And>i. i < length vs \<Longrightarrow> fp8_value ps (q ! i) = Inr (w i) \<and> fst (w i) = fst (vs ! i)
      \<and> (\<forall>c u. fp8_value ps c = Inr u \<and> fst u = fst (vs ! i) \<longrightarrow>
        distance (signed_value (w i)) (signed_value (vs ! i)) \<le> distance (signed_value u) (signed_value (vs ! i)))" by metis
  have "collect (fp8_value ps) q = Inr (map w [0..<length vs])"
    using w facts by (intro collect_all) auto
  then have "decode_fp8 q variant = Inr (map w [0..<length vs])"
    using len facts by (simp add: decode_fp8_def ps)
  moreover have single: "fp8_value ps c = Inr u" if "decode_fp8 [c] variant = Inr [u]" for c u
    using that by (auto simp: decode_fp8_def ps split: if_splits sum.splits)
  moreover have "fst (map w [0..<length vs] ! i) = fst v
             \<and> (\<forall>c u. decode_fp8 [c] variant = Inr [u] \<and> fst u = fst v \<longrightarrow>
                  distance (signed_value (map w [0..<length vs] ! i)) (signed_value v) \<le> distance (signed_value u) (signed_value v))"
    if "i < length values" "values ! i = Some v" for i v
  proof -
    have i: "i < length vs" "vs ! i = v" using that same len(1) by auto
    have here: "map w [0..<length vs] ! i = w i" using i by simp
    note nearest = w [OF i(1), unfolded i(2)]
    show ?thesis unfolding here
    proof (intro conjI allI impI)
      show "fst (w i) = fst v" using nearest by blast
      fix c u assume "decode_fp8 [c] variant = Inr [u] \<and> fst u = fst v"
      then show "distance (signed_value (w i)) (signed_value v) \<le> distance (signed_value u) (signed_value v)"
        using nearest single by blast
    qed
  qed
  ultimately show "\<exists>ws. decode_fp8 q variant = Inr ws \<and> length ws = length values
        \<and> (\<forall>i < length values. \<forall>v. values ! i = Some v \<longrightarrow> fst (ws ! i) = fst v
             \<and> (\<forall>c u. decode_fp8 [c] variant = Inr [u] \<and> fst u = fst v \<longrightarrow>
                  distance (signed_value (ws ! i)) (signed_value v) \<le> distance (signed_value u) (signed_value v)))"
    by (intro exI [of _ "map w [0..<length vs]"] conjI) (simp_all only: length_map length_upt len(1) diff_zero, blast)
qed

text \<open>The greatest finite magnitude of each variant.\<close>

definition fp8_limit :: "string \<Rightarrow> rat" where
  "fp8_limit variant = (if variant = ''e4m3fn'' then 448 else 57344)"

lemma fp8_limits:
  "Max (set (map (\<lambda>(code, v). snd v) (fp8_codebook e4m3fn))) = 448"
  "Max (set (map (\<lambda>(code, v). snd v) (fp8_codebook e5m2))) = 57344"
  by code_simp+

lemma collect_error: "collect f xs = Inl e \<Longrightarrow> \<exists>x\<in>set xs. f x = Inl e"
  by (induction xs) (auto split: sum.splits)

lemma collect_decides: "isl (collect f xs) \<longleftrightarrow> (\<exists>x\<in>set xs. isl (f x))"
  by (induction xs) (auto split: sum.splits)

lemma fp8_encode_decides:
  assumes "variant \<in> {''e4m3fn'', ''e5m2''}" and vs: "validate_values values = Inr vs"
  shows "if \<forall>v\<in>set vs. snd v \<le> fp8_limit variant then \<exists>q. encode_fp8 values variant = Inr q
    else encode_fp8 values variant = Inl (ValueError ''FP8 value overflows finite range'')"
proof -
  obtain ps where ps: "fp8_parameters variant = Inr ps" "ps = e4m3fn \<or> ps = e5m2"
    "Max (set (map (\<lambda>(code, v). snd v) (fp8_codebook ps))) = fp8_limit variant"
  proof (cases "variant = ''e4m3fn''")
    case True
    then show ?thesis using that [of e4m3fn] fp8_limits(1) by (simp add: fp8_parameters_def fp8_limit_def e4m3fn_def)
  next
    case False
    then show ?thesis using that [of e5m2] fp8_limits(2) assms(1) by (simp add: fp8_parameters_def fp8_limit_def e5m2_def)
  qed
  let ?f = "fp8_encode_value (fp8_codebook ps) (fp8_limit variant)"
  have f: "?f v = Inl (ValueError ''FP8 value overflows finite range'') \<longleftrightarrow> fp8_limit variant < snd v"
    "isl (?f v) \<longleftrightarrow> fp8_limit variant < snd v" for v
    using ps(2) e4m3fn.encode_decides [of "fp8_limit variant" v] e5m2.encode_decides [of "fp8_limit variant" v] by metis+
  have e: "encode_fp8 values variant = collect ?f vs" using ps(3) by (simp add: encode_fp8_def vs ps(1) Let_def)
  show ?thesis
  proof (cases "\<forall>v\<in>set vs. snd v \<le> fp8_limit variant")
    case True
    then have "\<not> isl (collect ?f vs)" by (auto simp: collect_decides f(2) not_less)
    with True show ?thesis unfolding e by (cases "collect ?f vs") auto
  next
    case False
    then have "isl (collect ?f vs)" unfolding collect_decides f(2) by (auto simp: not_le)
    then obtain x where x: "collect ?f vs = Inl x" by (cases "collect ?f vs") auto
    from collect_error [OF x] obtain v where "?f v = Inl x" by blast
    then have "x = ValueError ''FP8 value overflows finite range''" using f by (metis sum.disc(1) sum.inject(1))
    with x False show ?thesis unfolding e by simp
  qed
qed

text \<open>C23: FP8 encoding, in both variants.  Decoding a payload and encoding the values gives the payload back, the sign of
  zero included.  Finite values in an admissible number are encoded if and only if none has a magnitude beyond the
  greatest finite one, 448 for e4m3fn and 57344 for e5m2; otherwise the call raises the overflow error and encodes nothing.
  What values are encoded to has their signs and, at each position, no finite code of that sign lies nearer.\<close>

theorem fp8_encoding_exact_and_nearest:
  "(decode_fp8 p variant = Inr vs \<longrightarrow> encode_fp8 (map Some vs) variant = Inr p)
   \<and> (variant \<in> {''e4m3fn'', ''e5m2''} \<and> 1 \<le> length vs \<and> length vs \<le> MAX_CODEC_ELEMENTS \<longrightarrow>
        (if \<forall>v\<in>set vs. snd v \<le> fp8_limit variant then \<exists>q. encode_fp8 (map Some vs) variant = Inr q
         else encode_fp8 (map Some vs) variant = Inl (ValueError ''FP8 value overflows finite range'')))
   \<and> (encode_fp8 values variant = Inr q \<longrightarrow> (\<exists>ws. decode_fp8 q variant = Inr ws \<and> length ws = length values
        \<and> (\<forall>i < length values. \<forall>v. values ! i = Some v \<longrightarrow> fst (ws ! i) = fst v
             \<and> (\<forall>c u. decode_fp8 [c] variant = Inr [u] \<and> fst u = fst v \<longrightarrow>
                  distance (signed_value (ws ! i)) (signed_value v) \<le> distance (signed_value u) (signed_value v)))))"
proof -
  have "validate_values (map Some vs) = Inr vs" if "1 \<le> length vs" "length vs \<le> MAX_CODEC_ELEMENTS"
    using that by (auto simp: validate_values_def list_ex_iff comp_def)
  then show ?thesis
    using fp8_decoded_encodes [of p variant vs] fp8_encode_decides [of variant "map Some vs" vs]
      fp8_encoded_nearest [of "values" variant q] by blast
qed

theorem fp8_encoding_exact_and_nearest_witness:
  "decode_fp8 [0x38, 0x80, 0xC4] ''e4m3fn'' = Inr [(False, 1), (True, 0), (True, 3)]
    \<and> encode_fp8 [Some (False, 1), Some (True, 0), Some (True, 3)] ''e4m3fn'' = Inr [0x38, 0x80, 0xC4]
    \<and> encode_fp8 [Some (False, 500)] ''e4m3fn'' = Inl (ValueError ''FP8 value overflows finite range'')
    \<and> (\<exists>q. encode_fp8 [Some (False, 500)] ''e5m2'' = Inr q)"
proof -
  have "decode_fp8 [0x38, 0x80, 0xC4] ''e4m3fn'' = Inr [(False, 1), (True, 0), (True, 3)]" by code_simp
  with fp8_encoding_exact_and_nearest [THEN conjunct1, of "[0x38, 0x80, 0xC4]" "''e4m3fn''" "[(False, 1), (True, 0), (True, 3)]"]
    fp8_encoding_exact_and_nearest [THEN conjunct2, THEN conjunct1, of "''e4m3fn''" "[(False, 500)]"]
    fp8_encoding_exact_and_nearest [THEN conjunct2, THEN conjunct1, of "''e5m2''" "[(False, 500)]"]
  show ?thesis by (simp add: MAX_CODEC_ELEMENTS_def fp8_limit_def)
qed

end
