(* ===== verification/GreedySpeculation.thy ===== *)
theory GreedySpeculation
  imports Prelude
begin

text \<open>
  \<open>vllm_apple/heterogeneous_mlx_speculative.py\<close>: greedy speculative decoding with a draft model on the CPU and a
  verifier on the GPU, each with a KV cache of its own.  A model of MLX is a parameter: its empty prompt cache, what a
  forward pass leaves in the cache and which token is the most likely one after each position (\<open>argmax\<close> of a row of
  the logits), and what \<open>trim_prompt_cache\<close> does.  Elapsed times are arguments.

  The reference is plain greedy decoding, \<open>greedy\<close>: whatever the draft model proposes, the tokens are those of the
  verifier alone.
\<close>

section \<open>Greedy decoding\<close>

fun greedy :: "(int list \<Rightarrow> int) \<Rightarrow> int list \<Rightarrow> nat \<Rightarrow> int list" where
  "greedy predict prefix 0 = []"
| "greedy predict prefix (Suc n) = predict prefix # greedy predict (prefix @ [predict prefix]) n"

lemma length_greedy [simp]: "length (greedy predict prefix n) = n"
  by (induction n arbitrary: prefix) auto

lemma greedy_add: "greedy predict prefix (m + n) = greedy predict prefix m @ greedy predict (prefix @ greedy predict prefix m) n"
  by (induction m arbitrary: prefix) auto

lemma take_greedy: "take m (greedy predict prefix n) = greedy predict prefix (min m n)"
proof (cases "m \<le> n")
  case True
  then show ?thesis using greedy_add [of predict prefix m "n - m"] by (simp add: min_def)
qed (simp add: min_def)

text \<open>A list is greedy when each token is the prediction after the ones before it.\<close>

lemma greedyI:
  assumes "\<And>i. i < length ts \<Longrightarrow> ts ! i = predict (prefix @ take i ts)"
  shows "ts = greedy predict prefix (length ts)"
  using assms
proof (induction ts arbitrary: prefix)
  case (Cons t ts)
  have t: "t = predict prefix" using Cons.prems [of 0] by simp
  have "ts = greedy predict (prefix @ [t]) (length ts)"
    by (rule Cons.IH) (use Cons.prems [of "Suc _"] in simp)
  with t show ?case by simp
qed simp

lemma greedy_extend:
  assumes "output = greedy predict prefix (length output)" and "ts = greedy predict (prefix @ output) (length ts)"
  shows "output @ ts = greedy predict prefix (length (output @ ts))"
  using assms by (metis greedy_add length_append)

section \<open>Models with a cache\<close>

record 'c kv_model =
  kv_new :: 'c
  kv_forward :: "'c \<Rightarrow> int list \<Rightarrow> int list \<times> 'c"
  kv_trim :: "'c \<Rightarrow> nat \<Rightarrow> nat \<times> 'c"

definition forward :: "'c kv_model \<Rightarrow> int list \<Rightarrow> ('c, int list) method" where
  "forward m pending c =
     (case kv_forward m c pending of (rows, c') \<Rightarrow>
        if length rows \<noteq> length pending
        then (Inl (RuntimeError ''heterogeneous model returned an invalid logits shape''), c')
        else (Inr rows, c'))"

record greedy_result =
  gr_token_ids :: "int list"
  gr_elapsed_nanoseconds :: int
  gr_accepted_draft_tokens :: int
  gr_verifier_corrections :: int

definition validate_request :: "int list \<Rightarrow> int \<Rightarrow> int \<Rightarrow> unit result" where
  "validate_request prompt maximum_tokens draft_tokens =
     guard_ok (\<not> (prompt = [] \<or> 4096 < length prompt \<or> list_ex (\<lambda>t. t < 0) prompt
                 \<or> \<not> (1 \<le> maximum_tokens \<and> maximum_tokens \<le> 64) \<or> \<not> (1 \<le> draft_tokens \<and> draft_tokens \<le> 8)))
       ''invalid bounded heterogeneous speculative request'' ()"

fun matching :: "'a list \<Rightarrow> 'a list \<Rightarrow> nat" where
  "matching (x # xs) (y # ys) = (if x = y then Suc (matching xs ys) else 0)"
| "matching _ _ = 0"

definition commit_verified_tokens :: "int list \<Rightarrow> int list \<Rightarrow> (nat \<times> int list) result" where
  "commit_verified_tokens proposals verified =
     (if proposals = [] \<or> length verified \<noteq> length proposals + 1 \<or> list_ex (\<lambda>t. t < 0) (proposals @ verified)
      then Inl (ValueError ''invalid speculative verifier token sequence'')
      else let accepted = matching proposals verified
           in Inr (accepted, take accepted proposals @ [verified ! accepted]))"

text \<open>The verifier alone: one forward pass per token.\<close>

fun greedy_steps :: "'c kv_model \<Rightarrow> nat \<Rightarrow> int list \<Rightarrow> 'c \<Rightarrow> int list result" where
  "greedy_steps m 0 pending c = Inr []"
| "greedy_steps m (Suc n) pending c =
     (case forward m pending c of
        (Inl e, c') \<Rightarrow> Inl e
      | (Inr rows, c') \<Rightarrow>
          (case greedy_steps m n [last rows] c' of Inl e \<Rightarrow> Inl e | Inr ts \<Rightarrow> Inr (last rows # ts)))"

definition greedy_verifier_probe :: "int list \<Rightarrow> 'c kv_model \<Rightarrow> int \<Rightarrow> int \<Rightarrow> greedy_result result" where
  "greedy_verifier_probe prompt m maximum_tokens elapsed =
     (case validate_request prompt maximum_tokens 1 of
        Inl e \<Rightarrow> Inl e
      | Inr u \<Rightarrow>
          (case greedy_steps m (nat maximum_tokens) prompt (kv_new m) of
             Inl e \<Rightarrow> Inl e
           | Inr ts \<Rightarrow> Inr \<lparr>gr_token_ids = ts, gr_elapsed_nanoseconds = max 1 elapsed,
                            gr_accepted_draft_tokens = 0, gr_verifier_corrections = 0\<rparr>))"

section \<open>Speculation\<close>

record ('d, 'v) speculation =
  su_output :: "int list"
  su_draft_pending :: "int list"
  su_verifier_pending :: "int list"
  su_draft_cache :: 'd
  su_verifier_cache :: 'v
  su_accepted :: nat
  su_corrections :: nat

text \<open>The proposals, what is pending after them, and the cache.\<close>

fun propose :: "'d kv_model \<Rightarrow> nat \<Rightarrow> int list \<Rightarrow> 'd \<Rightarrow> (int list \<times> int list \<times> 'd) result" where
  "propose m 0 pending c = Inr ([], pending, c)"
| "propose m (Suc n) pending c =
     (case forward m pending c of
        (Inl e, c') \<Rightarrow> Inl e
      | (Inr rows, c') \<Rightarrow>
          (case propose m n [last rows] c' of
             Inl e \<Rightarrow> Inl e
           | Inr (ts, pending', c'') \<Rightarrow> Inr (last rows # ts, pending', c'')))"

definition verify_batch :: "'v kv_model \<Rightarrow> int list \<Rightarrow> int list \<Rightarrow> 'v \<Rightarrow> (int list \<times> 'v) result" where
  "verify_batch m pending proposals c =
     (case forward m (pending @ proposals) c of
        (Inl e, c') \<Rightarrow> Inl e
      | (Inr rows, c') \<Rightarrow>
          let start = length pending - 1
          in Inr (map (\<lambda>index. rows ! (start + index)) [0..<length proposals + 1], c'))"

definition rewind :: "'c kv_model \<Rightarrow> string \<Rightarrow> nat \<Rightarrow> 'c \<Rightarrow> 'c result" where
  "rewind m message n c =
     (case kv_trim m c n of (trimmed, c') \<Rightarrow> if trimmed \<noteq> n then Inl (RuntimeError message) else Inr c')"

text \<open>The caches after the verdict: both rewound to the accepted prefix, or the draft cache completed.\<close>

definition settle :: "'d kv_model \<Rightarrow> 'v kv_model \<Rightarrow> nat \<Rightarrow> nat \<Rightarrow> bool \<Rightarrow> int list \<Rightarrow> 'd \<Rightarrow> 'v \<Rightarrow> ('d \<times> 'v) result" where
  "settle draft verifier wanted accepted unfinished pending dc vc =
     (if accepted < wanted
      then (case rewind draft ''draft KV cache did not rewind completely'' (wanted - accepted - 1) dc of
              Inl e \<Rightarrow> Inl e
            | Inr dc' \<Rightarrow>
                (case rewind verifier ''verifier KV cache did not rewind completely'' (wanted - accepted) vc of
                   Inl e \<Rightarrow> Inl e
                 | Inr vc' \<Rightarrow> Inr (dc', vc')))
      else if unfinished
      then (case forward draft pending dc of (Inl e, dc') \<Rightarrow> Inl e | (Inr rows, dc') \<Rightarrow> Inr (dc', vc))
      else Inr (dc, vc))"

definition speculation_round :: "'d kv_model \<Rightarrow> 'v kv_model \<Rightarrow> nat \<Rightarrow> nat \<Rightarrow> ('d, 'v) speculation \<Rightarrow> ('d, 'v) speculation result" where
  "speculation_round draft verifier maximum_tokens draft_tokens s =
     (let wanted = min draft_tokens (maximum_tokens - length (su_output s))
      in case propose draft wanted (su_draft_pending s) (su_draft_cache s) of
           Inl e \<Rightarrow> Inl e
         | Inr (proposals, pending, dc) \<Rightarrow>
      (case verify_batch verifier (su_verifier_pending s) proposals (su_verifier_cache s) of
           Inl e \<Rightarrow> Inl e
         | Inr (verified, vc) \<Rightarrow>
      (case commit_verified_tokens proposals verified of
           Inl e \<Rightarrow> Inl e
         | Inr (accepted, committed) \<Rightarrow>
      (case settle draft verifier wanted accepted (length (su_output s) + length committed < maximum_tokens) pending dc vc of
           Inl e \<Rightarrow> Inl e
         | Inr (dc', vc') \<Rightarrow>
             let committed = take (maximum_tokens - length (su_output s)) committed
             in Inr \<lparr>su_output = su_output s @ committed, su_draft_pending = [last committed],
                     su_verifier_pending = [last committed], su_draft_cache = dc', su_verifier_cache = vc',
                     su_accepted = su_accepted s + accepted,
                     su_corrections = (if accepted < wanted then su_corrections s + 1 else su_corrections s)\<rparr>))))"

lemma round_commits:
  assumes "speculation_round draft verifier maximum_tokens draft_tokens s = Inr s'" and "length (su_output s) < maximum_tokens"
  shows "length (su_output s) < length (su_output s')" and "length (su_output s') \<le> maximum_tokens"
  using assms
  by (auto simp: speculation_round_def commit_verified_tokens_def Let_def split: sum.splits if_splits prod.splits)

function speculation_rounds :: "'d kv_model \<Rightarrow> 'v kv_model \<Rightarrow> nat \<Rightarrow> nat \<Rightarrow> ('d, 'v) speculation \<Rightarrow> ('d, 'v) speculation result" where
  "speculation_rounds draft verifier maximum_tokens draft_tokens s =
     (if length (su_output s) < maximum_tokens
      then (case speculation_round draft verifier maximum_tokens draft_tokens s of
              Inl e \<Rightarrow> Inl e
            | Inr s' \<Rightarrow> speculation_rounds draft verifier maximum_tokens draft_tokens s')
      else Inr s)"
  by pat_completeness auto
termination
  by (relation "measure (\<lambda>(draft, verifier, maximum_tokens, draft_tokens, s). maximum_tokens - length (su_output s))")
    (auto dest: round_commits)

declare speculation_rounds.simps [simp del]

definition heterogeneous_greedy_probe ::
  "int list \<Rightarrow> 'd kv_model \<Rightarrow> 'v kv_model \<Rightarrow> int \<Rightarrow> int \<Rightarrow> int \<Rightarrow> greedy_result result" where
  "heterogeneous_greedy_probe prompt draft verifier maximum_tokens draft_tokens elapsed =
     (case validate_request prompt maximum_tokens draft_tokens of
        Inl e \<Rightarrow> Inl e
      | Inr u \<Rightarrow>
          (case speculation_rounds draft verifier (nat maximum_tokens) (nat draft_tokens)
                  \<lparr>su_output = [], su_draft_pending = prompt, su_verifier_pending = prompt, su_draft_cache = kv_new draft,
                   su_verifier_cache = kv_new verifier, su_accepted = 0, su_corrections = 0\<rparr> of
             Inl e \<Rightarrow> Inl e
           | Inr s \<Rightarrow> Inr \<lparr>gr_token_ids = su_output s, gr_elapsed_nanoseconds = max 1 elapsed,
                           gr_accepted_draft_tokens = int (su_accepted s), gr_verifier_corrections = int (su_corrections s)\<rparr>))"

section \<open>The caches\<close>

text \<open>What MLX promises of a causal model: a forward pass predicts after every position from all tokens up to it and
  appends them to the cache, and trimming drops the last tokens.\<close>

definition causal :: "'c kv_model \<Rightarrow> (int list \<Rightarrow> int) \<Rightarrow> ('c \<Rightarrow> int list) \<Rightarrow> bool" where
  "causal m predict seen \<longleftrightarrow>
     seen (kv_new m) = [] \<and> (\<forall>ts. 0 \<le> predict ts)
     \<and> (\<forall>c ts. fst (kv_forward m c ts) = map (\<lambda>i. predict (seen c @ take (Suc i) ts)) [0..<length ts]
          \<and> seen (snd (kv_forward m c ts)) = seen c @ ts)
     \<and> (\<forall>c n. n \<le> length (seen c) \<longrightarrow> fst (kv_trim m c n) = n \<and> seen (snd (kv_trim m c n)) = take (length (seen c) - n) (seen c))"

lemma causal_forward:
  assumes "causal m predict seen"
  obtains c' where "forward m ts c = (Inr (map (\<lambda>i. predict (seen c @ take (Suc i) ts)) [0..<length ts]), c')"
    and "seen c' = seen c @ ts"
  using assms by (cases "kv_forward m c ts") (force simp: causal_def forward_def)

lemma forward_causal:
  assumes "causal m predict seen" and "forward m ts c = (r, c')"
  shows "r = Inr (map (\<lambda>i. predict (seen c @ take (Suc i) ts)) [0..<length ts])" and "seen c' = seen c @ ts"
  using causal_forward [OF assms(1), of ts c] assms(2) by (metis Pair_inject)+

lemma last_prediction: "ts \<noteq> [] \<Longrightarrow> last (map (\<lambda>i. predict (p @ take (Suc i) ts)) [0..<length ts]) = predict (p @ ts)"
  by (simp add: last_map)

lemma rewind_causal:
  assumes "causal m predict seen" and "rewind m message n c = r" and "n \<le> length (seen c)"
  shows "\<exists>c'. r = Inr c' \<and> seen c' = take (length (seen c) - n) (seen c)"
  using assms by (cases "kv_trim m c n") (force simp: causal_def rewind_def)

lemma greedy_steps_causal:
  assumes "causal m predict seen" and "pending \<noteq> []"
  shows "greedy_steps m n pending c = Inr (greedy predict (seen c @ pending) n)"
  using assms(2)
proof (induction n arbitrary: pending c)
  case (Suc n)
  obtain c' where c': "forward m pending c = (Inr (map (\<lambda>i. predict (seen c @ take (Suc i) pending)) [0..<length pending]), c')"
    "seen c' = seen c @ pending" using causal_forward [OF assms(1)] by blast
  with Suc.IH [of "[predict (seen c @ pending)]" c'] Suc.prems show ?case
    by (simp add: last_prediction)
qed simp

lemma propose_length: "propose m n pending c = Inr (ts, pending', c') \<Longrightarrow> length ts = n"
  by (induction n arbitrary: pending c ts) (auto split: prod.splits sum.splits)

lemma propose_causal:
  assumes "causal m predict seen" and "pending \<noteq> []"
  shows "\<exists>c'. propose m n pending c = Inr (greedy predict (seen c @ pending) n, [last (pending @ greedy predict (seen c @ pending) n)], c')
      \<and> seen c' = seen c @ pending @ butlast (greedy predict (seen c @ pending) n)
    \<or> n = 0"
  using assms(2)
proof (induction n arbitrary: pending c)
  case (Suc n)
  obtain c' where c': "forward m pending c = (Inr (map (\<lambda>i. predict (seen c @ take (Suc i) pending)) [0..<length pending]), c')"
    "seen c' = seen c @ pending" using causal_forward [OF assms(1)] by blast
  have now: "last (map (\<lambda>i. predict (seen c @ take (Suc i) pending)) [0..<length pending]) = predict (seen c @ pending)"
    using Suc.prems by (rule last_prediction)
  show ?case
  proof (cases n)
    case 0
    with c' now show ?thesis by simp
  next
    case (Suc k)
    have "greedy predict (seen c' @ [predict (seen c @ pending)]) n \<noteq> []" using Suc by simp
    then show ?thesis
      using Suc.IH [of "[predict (seen c @ pending)]" c'] c' now Suc by auto
  qed
qed simp

lemma verify_batch_causal:
  assumes "causal m predict seen" and "pending \<noteq> []"
  shows "\<exists>c'. verify_batch m pending proposals c = Inr (map (\<lambda>i. predict (seen c @ pending @ take i proposals)) [0..<length proposals + 1], c')
    \<and> seen c' = seen c @ pending @ proposals"
proof -
  obtain c' where c': "forward m (pending @ proposals) c
      = (Inr (map (\<lambda>i. predict (seen c @ take (Suc i) (pending @ proposals))) [0..<length (pending @ proposals)]), c')"
    "seen c' = seen c @ pending @ proposals" using causal_forward [OF assms(1)] by blast
  have "map (\<lambda>index. map (\<lambda>i. predict (seen c @ take (Suc i) (pending @ proposals))) [0..<length (pending @ proposals)]
        ! (length pending - 1 + index)) [0..<length proposals + 1]
      = map (\<lambda>i. predict (seen c @ pending @ take i proposals)) [0..<length proposals + 1]"
  proof (rule map_cong [OF refl])
    fix index assume "index \<in> set [0..<length proposals + 1]"
    then have "length pending - 1 + index < length (pending @ proposals)" using assms(2) by (cases pending) auto
    moreover have "take (Suc (length pending - 1 + index)) (pending @ proposals) = pending @ take index proposals"
      using assms(2) by (cases pending) simp_all
    ultimately show "map (\<lambda>i. predict (seen c @ take (Suc i) (pending @ proposals))) [0..<length (pending @ proposals)]
        ! (length pending - 1 + index) = predict (seen c @ pending @ take index proposals)"
      by simp
  qed
  with c' show ?thesis by (simp add: verify_batch_def Let_def)
qed

lemma matching_prefix: "take (matching xs ys) xs = take (matching xs ys) ys" "matching xs ys \<le> length xs" "matching xs ys \<le> length ys"
  by (induction xs ys rule: matching.induct) auto

lemma matching_stops: "matching xs ys < length xs \<Longrightarrow> matching xs ys < length ys \<Longrightarrow> xs ! matching xs ys \<noteq> ys ! matching xs ys"
  by (induction xs ys rule: matching.induct) (auto split: if_splits)

text \<open>What is committed is greedy: the agreed proposals are predictions, and so is the token after them.\<close>

lemma agreed_greedy:
  assumes "\<And>i. i < length vs \<Longrightarrow> take i ps = take i vs \<Longrightarrow> vs ! i = predict (prefix @ take i ps)"
    and "n \<le> length vs" and "n \<le> Suc (matching ps vs)"
  shows "take n vs = greedy predict prefix n"
proof -
  have "take n vs ! i = predict (prefix @ take i (take n vs))" if "i < length (take n vs)" for i
  proof -
    have i: "i \<le> matching ps vs" "i < length vs" "i < n" using that assms(3) by auto
    then have "take i ps = take i vs"
      using arg_cong [OF matching_prefix(1) [of ps vs], of "take i"] by (simp add: min_absorb1)
    with assms(1) [of i] i show ?thesis by (simp add: min_absorb1)
  qed
  then have "take n vs = greedy predict prefix (length (take n vs))" by (rule greedyI)
  with assms(2) show ?thesis by simp
qed

lemma committed_greedy:
  assumes "commit_verified_tokens ps vs = Inr (accepted, committed)"
    and "\<And>i. i < length vs \<Longrightarrow> take i ps = take i vs \<Longrightarrow> vs ! i = predict (prefix @ take i ps)"
  shows "committed = greedy predict prefix (accepted + 1)" "accepted \<le> length ps" "take accepted committed = take accepted ps"
proof -
  have c: "accepted = matching ps vs" "committed = take accepted ps @ [vs ! accepted]" "length vs = length ps + 1"
    using assms(1) by (auto simp: commit_verified_tokens_def Let_def split: if_splits)
  note m = matching_prefix [of ps vs]
  have "committed = take (accepted + 1) vs"
    using c m by (simp add: take_Suc_conv_app_nth)
  also have "\<dots> = greedy predict prefix (accepted + 1)"
    by (rule agreed_greedy [of vs ps]) (use assms(2) c m in auto)
  finally show "committed = greedy predict prefix (accepted + 1)" .
  show "accepted \<le> length ps" using c m by simp
  then show "take accepted committed = take accepted ps" using c by simp
qed

section \<open>Rounds\<close>

definition verified_ok :: "(int list \<Rightarrow> int) \<Rightarrow> ('v \<Rightarrow> int list) \<Rightarrow> int list \<Rightarrow> nat \<Rightarrow> ('d, 'v) speculation \<Rightarrow> bool" where
  "verified_ok predict seen prompt n s \<longleftrightarrow>
     su_output s = greedy predict prompt (length (su_output s)) \<and> length (su_output s) \<le> n
     \<and> (length (su_output s) < n \<longrightarrow> su_verifier_pending s \<noteq> []
          \<and> seen (su_verifier_cache s) @ su_verifier_pending s = prompt @ su_output s)"

lemma settle_verifier:
  assumes "settle draft verifier wanted accepted unfinished pending dc vc = Inr (dc', vc')"
    and "causal verifier predict seen" and "wanted \<le> length (seen vc)"
  shows "seen vc' = take (length (seen vc) - (wanted - accepted)) (seen vc)"
proof (cases "accepted < wanted")
  case True
  then have "rewind verifier ''verifier KV cache did not rewind completely'' (wanted - accepted) vc = Inr vc'"
    using assms(1) by (auto simp: settle_def split: sum.splits)
  from rewind_causal [OF assms(2) this] assms(3) show ?thesis by simp
next
  case False
  with assms(1) show ?thesis by (auto simp: settle_def split: if_splits prod.splits sum.splits)
qed

lemma round_verified:
  assumes causal: "causal verifier predict seen" and ok: "verified_ok predict seen prompt n s"
    and round: "speculation_round draft verifier n k s = Inr s'" and unfinished: "length (su_output s) < n"
  shows "verified_ok predict seen prompt n s'"
proof -
  let ?out = "su_output s"
  define wanted where "wanted = min k (n - length ?out)"
  obtain ps pending dc vs vc accepted committed dc' vc' where
    ps: "propose draft wanted (su_draft_pending s) (su_draft_cache s) = Inr (ps, pending, dc)"
    and vs: "verify_batch verifier (su_verifier_pending s) ps (su_verifier_cache s) = Inr (vs, vc)"
    and com: "commit_verified_tokens ps vs = Inr (accepted, committed)"
    and settled: "settle draft verifier wanted accepted (length ?out + length committed < n) pending dc vc = Inr (dc', vc')"
    and s': "su_output s' = ?out @ take (n - length ?out) committed" "su_verifier_pending s' = [last (take (n - length ?out) committed)]"
      "su_verifier_cache s' = vc'"
    using round unfolding speculation_round_def wanted_def [symmetric] Let_def by (auto split: sum.splits prod.splits)
  note start = ok [unfolded verified_ok_def]
  have prefix: "seen (su_verifier_cache s) @ su_verifier_pending s = prompt @ ?out" and pend: "su_verifier_pending s \<noteq> []"
    using start unfinished by auto
  have vs_eq: "vs = map (\<lambda>i. predict (prompt @ ?out @ take i ps)) [0..<length ps + 1]" and seen_vc: "seen vc = prompt @ ?out @ ps"
    using verify_batch_causal [OF causal pend, of ps "su_verifier_cache s"] vs prefix by (auto simp flip: append_assoc)
  have len: "length ps = wanted" by (rule propose_length [OF ps])
  have predicted: "vs ! i = predict ((prompt @ ?out) @ take i ps)" if "i < length vs" "take i ps = take i vs" for i
    using that(1) by (simp add: vs_eq del: upt_Suc)
  have greedy: "committed = greedy predict (prompt @ ?out) (accepted + 1)" "accepted \<le> length ps"
    by (rule committed_greedy [OF com], erule (1) predicted)+
  have size: "length committed = accepted + 1" by (simp add: greedy(1))
  have "take (n - length ?out) committed = greedy predict (prompt @ ?out) (min (n - length ?out) (accepted + 1))"
    by (subst greedy(1)) (rule take_greedy)
  then have more: "take (n - length ?out) committed = greedy predict (prompt @ ?out) (length (take (n - length ?out) committed))"
    by (simp add: size min.commute)
  have out: "su_output s' = greedy predict prompt (length (su_output s'))"
    unfolding s' using start more by (intro greedy_extend) simp_all
  moreover have "length (su_output s') \<le> n" using round_commits(2) [OF round unfinished] .
  moreover have "seen vc' @ su_verifier_pending s' = prompt @ su_output s'" if "length (su_output s') < n"
  proof -
    have all: "take (n - length ?out) committed = committed" using that by (simp add: s')
    have "seen vc' = prompt @ ?out @ take accepted ps"
      using settle_verifier [OF settled causal] seen_vc len greedy(2) by (simp add: take_append)
    moreover have "committed = take accepted ps @ [last committed]"
      using com by (auto simp: commit_verified_tokens_def Let_def split: if_splits)
    ultimately show ?thesis by (simp add: s' all)
  qed
  ultimately show ?thesis by (simp add: verified_ok_def s')
qed

lemma rounds_verified:
  assumes "causal verifier predict seen" and "verified_ok predict seen prompt n s"
    and "speculation_rounds draft verifier n k s = Inr s'"
  shows "su_output s' = greedy predict prompt n"
  using assms
proof (induction draft verifier n k s rule: speculation_rounds.induct)
  case (1 draft verifier n k s)
  show ?case
  proof (cases "length (su_output s) < n")
    case True
    with "1.prems"(3) obtain t where t: "speculation_round draft verifier n k s = Inr t"
      "speculation_rounds draft verifier n k t = Inr s'"
      by (subst (asm) speculation_rounds.simps) (auto split: sum.splits)
    show ?thesis
      by (rule "1.IH" [OF True t(1) "1.prems"(1) _ t(2)]) (rule round_verified [OF "1.prems"(1,2) t(1) True])
  next
    case False
    with "1.prems" show ?thesis by (subst (asm) speculation_rounds.simps) (auto simp: verified_ok_def)
  qed
qed

text \<open>With a causal draft model no round fails.\<close>

definition drafted_ok :: "('d \<Rightarrow> int list) \<Rightarrow> int list \<Rightarrow> nat \<Rightarrow> ('d, 'v) speculation \<Rightarrow> bool" where
  "drafted_ok seen prompt n s \<longleftrightarrow>
     (length (su_output s) < n \<longrightarrow> su_draft_pending s \<noteq> [] \<and> seen (su_draft_cache s) @ su_draft_pending s = prompt @ su_output s)"

lemma greedy_nonneg: "(\<And>ts. 0 \<le> predict ts) \<Longrightarrow> t \<in> set (greedy predict prefix n) \<Longrightarrow> 0 \<le> t"
  by (induction n arbitrary: prefix) auto

lemma settle_succeeds:
  assumes draft: "causal draft predict\<^sub>d seen\<^sub>d" and verifier: "causal verifier predict seen"
    and dc: "seen\<^sub>d dc = p @ butlast ps" and vc: "seen vc = p @ ps"
    and ps: "ps \<noteq> []" "pending = [last ps]" "accepted \<le> length ps"
  shows "\<exists>dc' vc'. settle draft verifier (length ps) accepted unfinished pending dc vc = Inr (dc', vc')
    \<and> (accepted < length ps \<or> unfinished \<longrightarrow> seen\<^sub>d dc' = p @ take accepted ps)"
proof (cases "accepted < length ps")
  case True
  obtain dc' where dc': "rewind draft ''draft KV cache did not rewind completely'' (length ps - accepted - 1) dc = Inr dc'"
    "seen\<^sub>d dc' = take (length (p @ butlast ps) - (length ps - accepted - 1)) (p @ butlast ps)"
  proof -
    have "length ps - accepted - 1 \<le> length (seen\<^sub>d dc)" by (simp add: dc)
    from rewind_causal [OF draft refl this] that dc show thesis by metis
  qed
  obtain vc' where vc': "rewind verifier ''verifier KV cache did not rewind completely'' (length ps - accepted) vc = Inr vc'"
  proof -
    have "length ps - accepted \<le> length (seen vc)" by (simp add: vc)
    from rewind_causal [OF verifier refl this] that show thesis by metis
  qed
  have "seen\<^sub>d dc' = p @ take accepted ps" using dc'(2) True by (simp add: take_butlast)
  with dc'(1) vc' True show ?thesis by (simp add: settle_def)
next
  case False
  then have all: "take accepted ps = ps" by simp
  obtain dc' where "forward draft pending dc
      = (Inr (map (\<lambda>i. predict\<^sub>d (seen\<^sub>d dc @ take (Suc i) pending)) [0..<length pending]), dc')" "seen\<^sub>d dc' = seen\<^sub>d dc @ pending"
    by (rule causal_forward [OF draft])
  with False all dc ps show ?thesis by (simp add: settle_def)
qed

lemma round_succeeds:
  assumes draft: "causal draft predict\<^sub>d seen\<^sub>d" and verifier: "causal verifier predict seen"
    and ok: "verified_ok predict seen prompt n s" "drafted_ok seen\<^sub>d prompt n s"
    and unfinished: "length (su_output s) < n" and k: "0 < k"
  shows "\<exists>s'. speculation_round draft verifier n k s = Inr s' \<and> drafted_ok seen\<^sub>d prompt n s'"
proof -
  let ?out = "su_output s"
  define wanted where "wanted = min k (n - length ?out)"
  define ps where "ps = greedy predict\<^sub>d (prompt @ ?out) wanted"
  have len: "length ps = wanted" "ps \<noteq> []" using unfinished k by (auto simp: ps_def wanted_def simp flip: length_greater_0_conv)
  have dp: "su_draft_pending s \<noteq> []" "seen\<^sub>d (su_draft_cache s) @ su_draft_pending s = prompt @ ?out"
    using ok(2) unfinished by (auto simp: drafted_ok_def)
  have vp: "su_verifier_pending s \<noteq> []" "seen (su_verifier_cache s) @ su_verifier_pending s = prompt @ ?out"
    using ok(1) unfinished by (auto simp: verified_ok_def)
  obtain dc where dc: "propose draft wanted (su_draft_pending s) (su_draft_cache s) = Inr (ps, [last ps], dc)"
    "seen\<^sub>d dc = prompt @ ?out @ butlast ps"
    using propose_causal [OF draft dp(1), of wanted "su_draft_cache s"] dp(2) len
    by (auto simp: ps_def simp flip: append_assoc)
  define vs where "vs = map (\<lambda>i. predict (prompt @ ?out @ take i ps)) [0..<length ps + 1]"
  obtain vc where vc: "verify_batch verifier (su_verifier_pending s) ps (su_verifier_cache s) = Inr (vs, vc)"
    "seen vc = prompt @ ?out @ ps"
    using verify_batch_causal [OF verifier vp(1), of ps "su_verifier_cache s"] vp(2)
    by (auto simp: vs_def simp flip: append_assoc)
  define accepted where "accepted = matching ps vs"
  define committed where "committed = take accepted ps @ [vs ! accepted]"
  have "\<forall>t\<in>set ps. 0 \<le> t"
    using greedy_nonneg [of predict\<^sub>d] draft unfolding ps_def causal_def by blast
  moreover have "\<forall>t\<in>set vs. 0 \<le> t"
    using verifier unfolding vs_def causal_def by auto
  ultimately have "\<not> list_ex (\<lambda>t. t < 0) (ps @ vs)" unfolding list_ex_iff by fastforce
  then have com: "commit_verified_tokens ps vs = Inr (accepted, committed)"
    using len by (simp add: commit_verified_tokens_def accepted_def committed_def vs_def Let_def del: upt_Suc)
  have accepted: "accepted \<le> length ps" unfolding accepted_def by (rule matching_prefix)
  obtain dc' vc' where settled: "settle draft verifier wanted accepted (length ?out + length committed < n) [last ps] dc vc = Inr (dc', vc')"
    and rewound: "accepted < length ps \<or> length ?out + length committed < n \<longrightarrow> seen\<^sub>d dc' = (prompt @ ?out) @ take accepted ps"
    using settle_succeeds [OF draft verifier _ _ len(2) refl accepted, of dc "prompt @ ?out" vc "length ?out + length committed < n"]
      dc(2) vc(2) len(1) by auto
  obtain s' where s': "speculation_round draft verifier n k s = Inr s'"
    and fields: "su_output s' = ?out @ take (n - length ?out) committed" "su_draft_pending s' = [last (take (n - length ?out) committed)]"
      "su_draft_cache s' = dc'"
    using dc(1) vc(1) com settled unfolding speculation_round_def wanted_def [symmetric] Let_def by auto
  have "seen\<^sub>d dc' @ su_draft_pending s' = prompt @ su_output s'" if "length (su_output s') < n"
  proof -
    have short: "length ?out + length committed < n" using that by (simp add: fields min_def split: if_splits)
    then have "take (n - length ?out) committed = committed" by simp
    then show ?thesis using rewound short by (simp add: fields) (simp add: committed_def)
  qed
  with s' fields show ?thesis by (auto simp: drafted_ok_def)
qed

lemma rounds_succeed:
  assumes "causal draft predict\<^sub>d seen\<^sub>d" and "causal verifier predict seen" and "0 < k"
    and "verified_ok predict seen prompt n s" and "drafted_ok seen\<^sub>d prompt n s"
  shows "\<exists>s'. speculation_rounds draft verifier n k s = Inr s'"
  using assms
proof (induction draft verifier n k s rule: speculation_rounds.induct)
  case (1 draft verifier n k s)
  show ?case
  proof (cases "length (su_output s) < n")
    case True
    obtain t where t: "speculation_round draft verifier n k s = Inr t" "drafted_ok seen\<^sub>d prompt n t"
      using round_succeeds [OF "1.prems"(1,2,4,5) True "1.prems"(3)] by blast
    from "1.IH" [OF True t(1) "1.prems"(1,2,3) round_verified [OF "1.prems"(2,4) t(1) True] t(2)] t(1)
    show ?thesis by (subst speculation_rounds.simps) (simp add: True)
  next
    case False
    then show ?thesis by (subst speculation_rounds.simps) simp
  qed
qed

section \<open>The property\<close>

text \<open>C14: Speculation does not change the output: with a causal verifier, whatever the draft model does, the
  heterogeneous probe either raises or returns exactly the tokens of the verifier alone, which are its greedy
  continuation of the prompt; and when the draft model is causal too, every valid request returns.\<close>

theorem speculation_equals_greedy:
  assumes "causal verifier predict seen" and "validate_request prompt maximum_tokens draft_tokens = Inr ()"
  shows "\<exists>reference. greedy_verifier_probe prompt verifier maximum_tokens elapsed = Inr reference
    \<and> gr_token_ids reference = greedy predict prompt (nat maximum_tokens)
    \<and> (\<forall>r. heterogeneous_greedy_probe prompt draft verifier maximum_tokens draft_tokens elapsed' = Inr r
         \<longrightarrow> gr_token_ids r = gr_token_ids reference)
    \<and> (causal draft predict\<^sub>d seen\<^sub>d
         \<longrightarrow> (\<exists>r. heterogeneous_greedy_probe prompt draft verifier maximum_tokens draft_tokens elapsed' = Inr r))"
proof -
  have valid: "prompt \<noteq> []" "0 < nat draft_tokens" "validate_request prompt maximum_tokens 1 = Inr ()"
    using assms(2) by (auto simp: validate_request_def)
  have empty: "seen (kv_new verifier) = []" using assms(1) by (simp add: causal_def)
  let ?start = "\<lambda>d. \<lparr>su_output = [], su_draft_pending = prompt, su_verifier_pending = prompt, su_draft_cache = d,
      su_verifier_cache = kv_new verifier, su_accepted = 0, su_corrections = 0\<rparr>"
  have start: "verified_ok predict seen prompt (nat maximum_tokens) (?start d)" for d
    using valid(1) empty by (simp add: verified_ok_def)
  have "gr_token_ids r = greedy predict prompt (nat maximum_tokens)"
    if "heterogeneous_greedy_probe prompt draft verifier maximum_tokens draft_tokens elapsed' = Inr r" for r
    using that rounds_verified [OF assms(1) start] assms(2)
    by (auto simp: heterogeneous_greedy_probe_def split: sum.splits)
  moreover have "\<exists>r. heterogeneous_greedy_probe prompt draft verifier maximum_tokens draft_tokens elapsed' = Inr r"
    if "causal draft predict\<^sub>d seen\<^sub>d"
  proof -
    have "drafted_ok seen\<^sub>d prompt (nat maximum_tokens) (?start (kv_new draft))"
      using that valid(1) by (simp add: drafted_ok_def causal_def)
    from rounds_succeed [OF that assms(1) valid(2) start this] assms(2) show ?thesis
      by (auto simp: heterogeneous_greedy_probe_def)
  qed
  ultimately show ?thesis
    using greedy_steps_causal [OF assms(1) valid(1), of "nat maximum_tokens" "kv_new verifier"] valid(3) empty
    by (simp add: greedy_verifier_probe_def)
qed

text \<open>A model that counts: it predicts one more than the last token, and its cache is the list of its tokens.\<close>

definition counting_model :: "int \<Rightarrow> int list kv_model" where
  "counting_model step = \<lparr>kv_new = [],
     kv_forward = (\<lambda>c ts. (map (\<lambda>i. max 0 (last (c @ take (Suc i) ts) + step)) [0..<length ts], c @ ts)),
     kv_trim = (\<lambda>c n. (min n (length c), take (length c - n) c))\<rparr>"

lemma counting_causal: "causal (counting_model step) (\<lambda>ts. max 0 (last ts + step)) (\<lambda>c. c)"
  by (simp add: causal_def counting_model_def)

theorem speculation_equals_greedy_witness:
  "\<exists>r. heterogeneous_greedy_probe [3] (counting_model 2) (counting_model 1) 4 2 7 = Inr r \<and> gr_token_ids r = [4, 5, 6, 7]"
proof -
  have "validate_request [3] 4 2 = Inr ()" by (simp add: validate_request_def)
  from speculation_equals_greedy [OF counting_causal [of 1] this, where draft = "counting_model 2" and elapsed = 1 and elapsed' = 7
      and predict\<^sub>d = "\<lambda>ts. max 0 (last ts + 2)" and seen\<^sub>d = "\<lambda>c. c"] counting_causal [of 2]
  obtain r and reference :: greedy_result where "heterogeneous_greedy_probe [3] (counting_model 2) (counting_model 1) 4 2 7 = Inr r"
    and "gr_token_ids reference = greedy (\<lambda>ts. max 0 (last ts + 1)) [3] (nat 4)" and "gr_token_ids r = gr_token_ids reference"
    by blast
  moreover have "greedy (\<lambda>ts. max 0 (last ts + 1)) [3] (nat 4) = [4, 5, 6, 7]" by (simp add: numeral_eq_Suc)
  ultimately show ?thesis by auto
qed

end
