(* ===== verification/BackendEngine.thy ===== *)
theory BackendEngine
  imports DevicePipeline
begin

text \<open>
  \<open>vllm_apple/fault_injection.py\<close> and \<open>vllm_apple/backend_engine.py\<close>: the deterministic fault injector and the
  registry that runs a request on the first eligible engine of an explicit chain.  An engine is its descriptor; whether
  it is ready, what its \<open>execute\<close> ends in, and the readings of the cancellation signal and the clock around it are
  arguments, given per backend (a chain names a backend once).  A section under a lock is one atomic step.
\<close>

section \<open>Fault injection\<close>

datatype fault_point = BACKEND_EXECUTE | BACKEND_STOP

datatype fault_action = RETRYABLE | FATAL | TIMEOUT

fun fault_action_value :: "fault_action \<Rightarrow> string" where
  "fault_action_value RETRYABLE = ''retryable''"
| "fault_action_value FATAL = ''fatal''"
| "fault_action_value TIMEOUT = ''timeout''"

fun fault_point_value :: "fault_point \<Rightarrow> string" where
  "fault_point_value BACKEND_EXECUTE = ''backend_execute''"
| "fault_point_value BACKEND_STOP = ''backend_stop''"

record fault_rule =
  fr_point :: fault_point
  fr_action :: fault_action
  fr_trigger_on_hit :: int
  fr_repeat :: bool

definition fault_rule_init :: "fault_rule \<Rightarrow> fault_rule result" where
  "fault_rule_init r =
     guard_ok (1 \<le> fr_trigger_on_hit r \<and> fr_trigger_on_hit r \<le> 1000000) ''invalid fault injection rule'' r"

record fault_injector =
  fi_rules :: "(fault_point, fault_rule) dict"
  fi_hits :: "fault_point \<Rightarrow> int"
  fi_injections :: "fault_point \<Rightarrow> int"

definition MAX_FAULT_RULES :: nat where
  "MAX_FAULT_RULES = 32"

definition new_fault_injector :: "fault_rule list \<Rightarrow> fault_injector result" where
  "new_fault_injector rules =
     guard_ok (\<not> (MAX_FAULT_RULES < length rules \<or> \<not> distinct (map fr_point rules)))
       ''fault injection rules must be bounded and unique''
       \<lparr>fi_rules = map (\<lambda>r. (fr_point r, r)) rules, fi_hits = (\<lambda>_. 0), fi_injections = (\<lambda>_. 0)\<rparr>"

text \<open>\<open>hit\<close>: the action of the fault it raises, when it raises one.\<close>

definition should_inject :: "fault_rule \<Rightarrow> int \<Rightarrow> bool" where
  "should_inject r hits = (if fr_repeat r then fr_trigger_on_hit r \<le> hits else hits = fr_trigger_on_hit r)"

definition hit :: "fault_point \<Rightarrow> fault_injector \<Rightarrow> fault_action option \<times> fault_injector" where
  "hit point f =
     (let hits = fi_hits f point + 1; f = f\<lparr>fi_hits := (fi_hits f)(point := hits)\<rparr>
      in case map_of (fi_rules f) point of
           None \<Rightarrow> (None, f)
         | Some r \<Rightarrow>
             if \<not> should_inject r hits then (None, f)
             else (Some (fr_action r), f\<lparr>fi_injections := (fi_injections f)(point := fi_injections f point + 1)\<rparr>))"

definition injector_snapshot :: "fault_injector \<Rightarrow> json" where
  "injector_snapshot f = JObj [(''schema_version'', JInt 1),
     (''armed_points'', JList (map JStr (sort (map fault_point_value (keys (fi_rules f)))))),
     (''hits'', JObj (map (\<lambda>p. (fault_point_value p, JInt (fi_hits f p))) [BACKEND_EXECUTE, BACKEND_STOP])),
     (''injections'', JObj (map (\<lambda>p. (fault_point_value p, JInt (fi_injections f p))) [BACKEND_EXECUTE, BACKEND_STOP]))]"

section \<open>Descriptors, requests and attempts\<close>

definition MAX_BACKEND_METADATA_VALUES :: nat where
  "MAX_BACKEND_METADATA_VALUES = 128"

definition MAX_BACKEND_TELEMETRY_KEYS :: nat where
  "MAX_BACKEND_TELEMETRY_KEYS = 256"

definition metadata_ok :: "string list \<Rightarrow> bool" where
  "metadata_ok vs \<longleftrightarrow>
     \<not> (vs = [] \<or> MAX_BACKEND_METADATA_VALUES < length vs \<or> \<not> distinct vs
        \<or> list_ex (\<lambda>v. \<not> (1 \<le> length v \<and> length v \<le> 128) \<or> list_ex (\<lambda>c. of_char c < (0x20 :: nat)) v) vs)"

definition check_values :: "string list \<Rightarrow> string \<Rightarrow> unit result" where
  "check_values vs label = guard_ok (metadata_ok vs) (''invalid backend engine '' @ label) ()"

record engine_descriptor =
  bd_backend :: execution_backend
  bd_version :: string
  bd_model_architectures :: "string list"
  bd_precisions :: "string list"
  bd_phases :: "workload_phase list"
  bd_operators :: "string list"
  bd_isolation :: string
  bd_schema_version :: int

definition engine_descriptor_init :: "engine_descriptor \<Rightarrow> engine_descriptor result" where
  "engine_descriptor_init d =
     (if bd_schema_version d \<noteq> 1 then Inl (ValueError ''invalid backend engine descriptor version'')
      else if \<not> metadata_ok [bd_version d] then Inl (ValueError ''invalid backend engine version'')
      else if \<not> metadata_ok (bd_model_architectures d) then Inl (ValueError ''invalid backend engine model architectures'')
      else if \<not> metadata_ok (bd_precisions d) then Inl (ValueError ''invalid backend engine precisions'')
      else if \<not> metadata_ok (bd_operators d) then Inl (ValueError ''invalid backend engine operators'')
      else if bd_phases d = [] \<or> \<not> distinct (bd_phases d) then Inl (ValueError ''invalid backend engine phases'')
      else if bd_isolation d \<notin> {''in_process'', ''dedicated_thread'', ''subprocess''}
      then Inl (ValueError ''invalid backend engine isolation'')
      else Inr d)"

record engine_request =
  br_operator :: string
  br_phase :: workload_phase
  br_precision :: string
  br_model_architecture :: string
  br_candidates :: "execution_backend list"

definition engine_request_init :: "engine_request \<Rightarrow> engine_request result" where
  "engine_request_init r =
     (if \<not> metadata_ok [br_operator r] then Inl (ValueError ''invalid backend engine request operator'')
      else if \<not> metadata_ok [br_precision r] then Inl (ValueError ''invalid backend engine request precision'')
      else if \<not> metadata_ok [br_model_architecture r] then Inl (ValueError ''invalid backend engine request architecture'')
      else if br_candidates r = [] \<or> length all_backends < length (br_candidates r) \<or> \<not> distinct (br_candidates r)
      then Inl (ValueError ''invalid backend engine request'')
      else Inr r)"

record engine_attempt =
  ba_backend :: execution_backend
  ba_status :: string
  ba_reason :: "string option"

definition engine_attempt_init :: "engine_attempt \<Rightarrow> engine_attempt result" where
  "engine_attempt_init a =
     (if ba_status a \<notin> {''rejected'', ''failed'', ''succeeded''} then Inl (ValueError ''invalid backend engine attempt status'')
      else if ba_status a = ''succeeded'' \<and> ba_reason a \<noteq> None
      then Inl (ValueError ''successful backend engine attempt cannot have a reason'')
      else if ba_status a \<noteq> ''succeeded'' \<and> (case ba_reason a of None \<Rightarrow> True | Some r \<Rightarrow> \<not> metadata_ok [r])
      then Inl (ValueError ''invalid backend engine attempt reason'')
      else Inr a)"

section \<open>The registry\<close>

record engine_registry =
  be_engines :: "(execution_backend, engine_descriptor) dict"
  be_injector :: "fault_injector option"
  be_telemetry :: "(string \<times> string \<times> string, int) dict"
  be_overflow :: int

definition new_engine_registry :: "engine_descriptor list \<Rightarrow> fault_injector option \<Rightarrow> engine_registry result" where
  "new_engine_registry engines injector =
     guard_ok (\<not> (engines = [] \<or> length all_backends < length engines \<or> \<not> distinct (map bd_backend engines)))
       ''backend engine registry entries are invalid''
       \<lparr>be_engines = map (\<lambda>d. (bd_backend d, d)) engines, be_injector = injector, be_telemetry = [], be_overflow = 0\<rparr>"

definition record_engine_attempt :: "execution_backend \<Rightarrow> string \<Rightarrow> string \<Rightarrow> engine_registry \<Rightarrow> engine_registry" where
  "record_engine_attempt b status reason g =
     (let key = (execution_backend_value b, status, reason)
      in case map_of (be_telemetry g) key of
           Some n \<Rightarrow> g\<lparr>be_telemetry := AList.update key (n + 1) (be_telemetry g)\<rparr>
         | None \<Rightarrow>
             if length (be_telemetry g) < MAX_BACKEND_TELEMETRY_KEYS
             then g\<lparr>be_telemetry := AList.update key 1 (be_telemetry g)\<rparr>
             else g\<lparr>be_overflow := be_overflow g + 1\<rparr>)"

definition ineligible_reason :: "(execution_backend \<Rightarrow> bool) \<Rightarrow> engine_descriptor option \<Rightarrow> engine_request \<Rightarrow> string option" where
  "ineligible_reason ready engine r =
     (case engine of
        None \<Rightarrow> Some ''backend_unregistered''
      | Some d \<Rightarrow>
          if \<not> ready (bd_backend d) then Some ''backend_not_ready''
          else if br_operator r \<notin> set (bd_operators d) then Some ''operator_unsupported''
          else if br_phase r \<notin> set (bd_phases d) then Some ''phase_unsupported''
          else if br_precision r \<notin> set (bd_precisions d) then Some ''precision_unsupported''
          else if br_model_architecture r \<notin> set (bd_model_architectures d) then Some ''architecture_unsupported''
          else None)"

text \<open>What an engine's \<open>execute\<close> ends in, and what a call of the registry ends in: a \<open>BackendEngineResult\<close>, a
  \<open>BackendEngineFailure\<close>, or another exception.  The constructor of \<open>BackendEngineFailure\<close> has checked its code.\<close>

datatype 'a engine_outcome =
    Returned 'a
  | Failed string bool
  | Faulted fault_action
  | Broken py_error

datatype 'a engine_end =
    Engine_result 'a execution_backend "engine_attempt list"
  | Engine_failure string bool
  | Engine_raised py_error

definition injected_code :: "fault_action \<Rightarrow> string \<times> bool" where
  "injected_code action =
     (if action = TIMEOUT then (''injected_backend_timeout'', True)
      else (''injected_backend_'' @ fault_action_value action, action = RETRYABLE))"

text \<open>The injector first, then the engine.\<close>

definition run_engine :: "'a engine_outcome \<Rightarrow> engine_registry \<Rightarrow> 'a engine_outcome \<times> engine_registry" where
  "run_engine outcome g =
     (case be_injector g of
        None \<Rightarrow> (outcome, g)
      | Some f \<Rightarrow>
          (case hit BACKEND_EXECUTE f of
             (None, f') \<Rightarrow> (outcome, g\<lparr>be_injector := Some f'\<rparr>)
           | (Some action, f') \<Rightarrow> (Faulted action, g\<lparr>be_injector := Some f'\<rparr>)))"

record 'a engine_calls =
  ec_ready :: "execution_backend \<Rightarrow> bool"
  ec_execute :: "execution_backend \<Rightarrow> 'a engine_outcome"
  ec_before :: "execution_backend \<Rightarrow> bool \<times> rat"
  ec_after :: "execution_backend \<Rightarrow> bool \<times> rat"

fun run_candidates ::
  "'a engine_calls \<Rightarrow> inference_context \<Rightarrow> engine_request \<Rightarrow> execution_backend list \<Rightarrow> engine_attempt list
    \<Rightarrow> engine_registry \<Rightarrow> 'a engine_end \<times> engine_registry" where
  "run_candidates calls c r [] tried g = (Engine_failure ''backend_engine_fallback_exhausted'' False, g)"
| "run_candidates calls c r (b # bs) tried g =
     (case ineligible_reason (ec_ready calls) (map_of (be_engines g) b) r of
        Some reason \<Rightarrow>
          run_candidates calls c r bs (tried @ [\<lparr>ba_backend = b, ba_status = ''rejected'', ba_reason = Some reason\<rparr>])
            (record_engine_attempt b ''rejected'' reason g)
      | None \<Rightarrow>
      (case raise_if_cancelled (ec_before calls b) c of
         Inl e \<Rightarrow> (Engine_raised e, g)
       | Inr u \<Rightarrow>
      (case run_engine (ec_execute calls b) g of
         (Faulted action, g') \<Rightarrow>
           (case injected_code action of (code, retryable) \<Rightarrow>
              if \<not> retryable then (Engine_failure code False, record_engine_attempt b ''failed'' code g')
              else run_candidates calls c r bs (tried @ [\<lparr>ba_backend = b, ba_status = ''failed'', ba_reason = Some code\<rparr>])
                     (record_engine_attempt b ''failed'' code g'))
       | (Failed code retryable, g') \<Rightarrow>
           if \<not> retryable then (Engine_failure code False, record_engine_attempt b ''failed'' code g')
           else run_candidates calls c r bs (tried @ [\<lparr>ba_backend = b, ba_status = ''failed'', ba_reason = Some code\<rparr>])
                  (record_engine_attempt b ''failed'' code g')
       | (Broken e, g') \<Rightarrow> (Engine_raised e, g')
       | (Returned v, g') \<Rightarrow>
           (case raise_if_cancelled (ec_after calls b) c of
              Inl e \<Rightarrow> (Engine_raised e, g')
            | Inr u \<Rightarrow>
                (Engine_result v b (tried @ [\<lparr>ba_backend = b, ba_status = ''succeeded'', ba_reason = None\<rparr>]),
                 record_engine_attempt b ''succeeded'' ''none'' g')))))"

definition engine_execute ::
  "'a engine_calls \<Rightarrow> inference_context \<Rightarrow> engine_request \<Rightarrow> engine_registry \<Rightarrow> 'a engine_end \<times> engine_registry" where
  "engine_execute calls c r g = run_candidates calls c r (br_candidates r) [] g"

definition telemetry_snapshot :: "engine_registry \<Rightarrow> json" where
  "telemetry_snapshot g = JObj [(''schema_version'', JInt 1),
     (''attempts'', JList (map (\<lambda>(b, status, reason).
          JObj [(''backend'', JStr b), (''status'', JStr status), (''reason'', JStr reason),
            (''count'', JInt (the (map_of (be_telemetry g) (b, status, reason))))])
        (sort (keys (be_telemetry g))))),
     (''overflow_count'', JInt (be_overflow g))]"

text \<open>\<open>stop_all\<close>: every engine is stopped, in reverse order; the failures are collected (the class name of the
  exception that \<open>stop\<close> raises is an argument), and reported at the end.\<close>

definition stop_engine :: "(execution_backend \<Rightarrow> string option) \<Rightarrow> execution_backend \<Rightarrow> engine_registry
    \<Rightarrow> string option \<times> engine_registry" where
  "stop_engine stop b g =
     (case be_injector g of
        None \<Rightarrow> (stop b, g)
      | Some f \<Rightarrow>
          (case hit BACKEND_STOP f of
             (None, f') \<Rightarrow> (stop b, g\<lparr>be_injector := Some f'\<rparr>)
           | (Some action, f') \<Rightarrow> (Some ''InjectedFault'', g\<lparr>be_injector := Some f'\<rparr>)))"

fun stop_engines :: "(execution_backend \<Rightarrow> string option) \<Rightarrow> execution_backend list \<Rightarrow> engine_registry
    \<Rightarrow> (string \<times> string) list \<times> engine_registry" where
  "stop_engines stop [] g = ([], g)"
| "stop_engines stop (b # bs) g =
     (case stop_engine stop b g of
        (failure, g') \<Rightarrow>
          (case stop_engines stop bs g' of
             (failures, g'') \<Rightarrow> (case failure of None \<Rightarrow> failures | Some n \<Rightarrow> (execution_backend_value b, n) # failures, g'')))"

definition stop_all :: "((string \<times> string) list \<Rightarrow> string) \<Rightarrow> (execution_backend \<Rightarrow> string option)
    \<Rightarrow> (engine_registry, unit) method" where
  "stop_all shown stop g =
     (case stop_engines stop (rev (keys (be_engines g))) g of
        (failures, g') \<Rightarrow>
          (if failures \<noteq> [] then Inl (RuntimeError (''backend engine shutdown failures: '' @ shown failures)) else Inr (), g'))"

section \<open>What a chain does\<close>

definition telemetry_total :: "engine_registry \<Rightarrow> int" where
  "telemetry_total g = asum (\<lambda>n. n) (be_telemetry g) + be_overflow g"

definition engines_ok :: "engine_registry \<Rightarrow> bool" where
  "engines_ok g \<longleftrightarrow> dict_ok (be_engines g) \<and> (\<forall>(b, d)\<in>set (be_engines g). b = bd_backend d)
     \<and> dict_ok (be_telemetry g) \<and> length (be_telemetry g) \<le> MAX_BACKEND_TELEMETRY_KEYS"

lemma record_engine_attempt_frame [simp]:
  "be_engines (record_engine_attempt b status reason g) = be_engines g"
  "be_injector (record_engine_attempt b status reason g) = be_injector g"
  by (auto simp: record_engine_attempt_def Let_def split: option.splits)

lemma record_engine_attempt_ok:
  assumes "engines_ok g"
  shows "engines_ok (record_engine_attempt b status reason g)"
    and "telemetry_total (record_engine_attempt b status reason g) = telemetry_total g + 1"
proof -
  let ?key = "(execution_backend_value b, status, reason)"
  have ok: "dict_ok (be_telemetry g)" "length (be_telemetry g) \<le> MAX_BACKEND_TELEMETRY_KEYS"
    using assms by (auto simp: engines_ok_def)
  have "engines_ok (record_engine_attempt b status reason g)
      \<and> telemetry_total (record_engine_attempt b status reason g) = telemetry_total g + 1"
  proof (cases "map_of (be_telemetry g) ?key")
    case None
    then have "?key \<notin> set (keys (be_telemetry g))" by (simp only: map_of_None_keys not_False_eq_True)
    with None ok assms show ?thesis
      by (auto simp: record_engine_attempt_def engines_ok_def telemetry_total_def dict_ok_update length_update_fresh asum_update_fresh)
  next
    case (Some n)
    then have "?key \<in> set (keys (be_telemetry g))" by (rule map_of_Some_keys)
    with Some ok assms show ?thesis
      by (simp add: record_engine_attempt_def engines_ok_def telemetry_total_def dict_ok_update length_update_existing
          asum_update_existing [OF ok(1) Some])
  qed
  then show "engines_ok (record_engine_attempt b status reason g)"
    and "telemetry_total (record_engine_attempt b status reason g) = telemetry_total g + 1" by auto
qed

lemma run_engine_frame:
  assumes "run_engine outcome g = (x, g')"
  shows "be_engines g' = be_engines g" "telemetry_total g' = telemetry_total g" "engines_ok g' = engines_ok g"
    "x = outcome \<or> (\<exists>action. x = Faulted action)" "be_injector g = None \<Longrightarrow> x = outcome \<and> g' = g"
  using assms by (auto simp: run_engine_def telemetry_total_def engines_ok_def split: option.splits prod.splits)

text \<open>Why a backend was passed over: it is not eligible, or it failed in a way that may be retried elsewhere.\<close>

definition passed_over :: "'a engine_calls \<Rightarrow> engine_request \<Rightarrow> engine_registry \<Rightarrow> engine_attempt \<Rightarrow> bool" where
  "passed_over calls r g a \<longleftrightarrow>
     (case ineligible_reason (ec_ready calls) (map_of (be_engines g) (ba_backend a)) r of
        Some reason \<Rightarrow> ba_status a = ''rejected'' \<and> ba_reason a = Some reason
      | None \<Rightarrow> ba_status a = ''failed'' \<and> (\<exists>code. ba_reason a = Some code
          \<and> (ec_execute calls (ba_backend a) = Failed code True \<or> (\<exists>action. injected_code action = (code, True)))))"

lemma passed_over_frame: "be_engines g' = be_engines g \<Longrightarrow> passed_over calls r g' a = passed_over calls r g a"
  by (simp add: passed_over_def)

definition succeeded :: "execution_backend \<Rightarrow> engine_attempt" where
  "succeeded b = \<lparr>ba_backend = b, ba_status = ''succeeded'', ba_reason = None\<rparr>"

text \<open>One candidate: it is passed over, or it gives the result.\<close>

lemma run_candidates_Cons:
  assumes "run_candidates calls c r (b # bs) tried g = (Engine_result v b' all, g')"
    and "engines_ok g"
  shows "(\<exists>a g1. passed_over calls r g a \<and> ba_backend a = b \<and> run_candidates calls c r bs (tried @ [a]) g1 = (Engine_result v b' all, g')
        \<and> engines_ok g1 \<and> be_engines g1 = be_engines g \<and> telemetry_total g1 = telemetry_total g + 1)
    \<or> b' = b \<and> ineligible_reason (ec_ready calls) (map_of (be_engines g) b) r = None \<and> ec_execute calls b = Returned v
        \<and> all = tried @ [succeeded b] \<and> telemetry_total g' = telemetry_total g + 1 \<and> engines_ok g'"
proof (cases "ineligible_reason (ec_ready calls) (map_of (be_engines g) b) r")
  case (Some reason)
  let ?a = "\<lparr>ba_backend = b, ba_status = ''rejected'', ba_reason = Some reason\<rparr>"
  have "passed_over calls r g ?a" using Some by (simp add: passed_over_def)
  with Some assms(1) record_engine_attempt_ok [OF assms(2)] show ?thesis
    by (intro disjI1 exI [of _ ?a] exI [of _ "record_engine_attempt b ''rejected'' reason g"]) simp
next
  case None
  obtain x g1 where x: "run_engine (ec_execute calls b) g = (x, g1)" by (cases "run_engine (ec_execute calls b) g")
  note frame = run_engine_frame [OF x]
  have ok: "engines_ok g1" using frame(3) assms(2) by simp
  note recorded = record_engine_attempt_ok [OF ok]
  have failed: ?thesis
    if "run_candidates calls c r bs (tried @ [\<lparr>ba_backend = b, ba_status = ''failed'', ba_reason = Some code\<rparr>])
        (record_engine_attempt b ''failed'' code g1) = (Engine_result v b' all, g')"
      and "ec_execute calls b = Failed code True \<or> (\<exists>action. injected_code action = (code, True))" for code
  proof -
    let ?a = "\<lparr>ba_backend = b, ba_status = ''failed'', ba_reason = Some code\<rparr>"
    have "passed_over calls r g ?a" using None that(2) by (simp add: passed_over_def)
    with that(1) recorded frame(1,2) show ?thesis
      by (intro disjI1 exI [of _ ?a] exI [of _ "record_engine_attempt b ''failed'' code g1"]) simp
  qed
  have run: "(case x of Faulted action \<Rightarrow> \<exists>code. injected_code action = (code, True)
          \<and> run_candidates calls c r bs (tried @ [\<lparr>ba_backend = b, ba_status = ''failed'', ba_reason = Some code\<rparr>])
              (record_engine_attempt b ''failed'' code g1) = (Engine_result v b' all, g')
      | Failed code retryable \<Rightarrow> retryable
          \<and> run_candidates calls c r bs (tried @ [\<lparr>ba_backend = b, ba_status = ''failed'', ba_reason = Some code\<rparr>])
              (record_engine_attempt b ''failed'' code g1) = (Engine_result v b' all, g')
      | Broken e \<Rightarrow> False
      | Returned w \<Rightarrow> w = v \<and> b' = b \<and> all = tried @ [succeeded b] \<and> g' = record_engine_attempt b ''succeeded'' ''none'' g1)"
    using assms(1) None x
    by (auto simp: succeeded_def split: sum.splits engine_outcome.splits if_splits prod.splits)
  show ?thesis
  proof (cases x)
    case (Returned w)
    with run frame(4) None recorded frame(2) show ?thesis by auto
  next
    case (Failed code retryable)
    with run frame(4) failed [of code] show ?thesis by auto
  next
    case (Faulted action)
    with run failed show ?thesis by auto
  next
    case (Broken e)
    with run show ?thesis by simp
  qed
qed

lemma run_candidates_result:
  assumes "run_candidates calls c r bs tried g = (Engine_result v b all, g')"
    and "engines_ok g"
  shows "\<exists>new post. all = tried @ new @ [succeeded b] \<and> bs = map ba_backend new @ b # post \<and> (\<forall>a\<in>set new. passed_over calls r g a)
    \<and> ineligible_reason (ec_ready calls) (map_of (be_engines g) b) r = None \<and> ec_execute calls b = Returned v
    \<and> telemetry_total g' = telemetry_total g + int (length new) + 1 \<and> engines_ok g'"
  using assms
proof (induction bs arbitrary: tried g)
  case (Cons b' bs)
  from run_candidates_Cons [OF Cons.prems] show ?case
  proof (elim disjE exE conjE)
    fix a g1
    assume a: "passed_over calls r g a" "ba_backend a = b'"
      and run: "run_candidates calls c r bs (tried @ [a]) g1 = (Engine_result v b all, g')"
      and g1: "engines_ok g1" "be_engines g1 = be_engines g" "telemetry_total g1 = telemetry_total g + 1"
    from Cons.IH [OF run g1(1)] obtain new post where
      rest: "all = (tried @ [a]) @ new @ [succeeded b]" "bs = map ba_backend new @ b # post" "\<forall>a\<in>set new. passed_over calls r g a"
        "ineligible_reason (ec_ready calls) (map_of (be_engines g) b) r = None" "ec_execute calls b = Returned v"
        "telemetry_total g' = telemetry_total g1 + int (length new) + 1" "engines_ok g'"
      by (auto simp: passed_over_frame [OF g1(2)] g1(2))
    show ?case
      by (rule exI [of _ "a # new"], rule exI [of _ post]) (use a rest g1(3) in auto)
  next
    assume "b = b'" "ineligible_reason (ec_ready calls) (map_of (be_engines g) b') r = None" "ec_execute calls b' = Returned v"
      "all = tried @ [succeeded b']" "telemetry_total g' = telemetry_total g + 1" "engines_ok g'"
    then show ?case by (intro exI [of _ "[]"] exI [of _ bs]) simp
  qed
qed simp

text \<open>C24: The engine registry is fail-closed and accounts for what it does.  A result comes from the first candidate
  that could give one: its engine is registered, ready and declares the operator, the phase, the precision and the
  architecture of the request, every candidate before it was not eligible or failed in a retryable way, and the attempts
  say exactly that, in the order of the chain and each backend once.  Every attempt is counted in the telemetry or in its
  overflow, whose table stays bounded.\<close>

theorem engine_chain_fail_closed:
  assumes "new_engine_registry engines injector = Inr g0" and "engines_ok g" and "be_engines g = be_engines g0"
    and "engine_request_init r = Inr r"
    and "engine_execute calls c r g = (Engine_result v b all, g')"
  shows "\<exists>d passed post. d \<in> set engines \<and> bd_backend d = b \<and> ec_ready calls b \<and> ec_execute calls b = Returned v
    \<and> br_operator r \<in> set (bd_operators d) \<and> br_phase r \<in> set (bd_phases d) \<and> br_precision r \<in> set (bd_precisions d)
    \<and> br_model_architecture r \<in> set (bd_model_architectures d)
    \<and> br_candidates r = map ba_backend passed @ b # post \<and> (\<forall>a\<in>set passed. passed_over calls r g a)
    \<and> all = passed @ [succeeded b] \<and> distinct (map ba_backend all)
    \<and> telemetry_total g' = telemetry_total g + int (length all)
    \<and> length (be_telemetry g') \<le> MAX_BACKEND_TELEMETRY_KEYS"
proof -
  have engines: "be_engines g = map (\<lambda>d. (bd_backend d, d)) engines" using assms(1,3) by (auto simp: new_engine_registry_def)
  obtain passed post where run: "all = passed @ [succeeded b]" "br_candidates r = map ba_backend passed @ b # post"
    "\<forall>a\<in>set passed. passed_over calls r g a" "ineligible_reason (ec_ready calls) (map_of (be_engines g) b) r = None"
    "ec_execute calls b = Returned v" "telemetry_total g' = telemetry_total g + int (length passed) + 1" "engines_ok g'"
    using run_candidates_result [OF assms(5) [unfolded engine_execute_def] assms(2)] by auto
  obtain d where d: "map_of (be_engines g) b = Some d" using run(4) by (auto simp: ineligible_reason_def split: option.splits)
  then have "d \<in> set engines" "bd_backend d = b" using map_of_SomeD [OF d] by (auto simp: engines)
  moreover have "distinct (map ba_backend all)"
    using assms(4) run(1,2) by (auto simp: engine_request_init_def succeeded_def split: if_splits)
  ultimately show ?thesis
    using run d by (intro exI [of _ d] exI [of _ passed] exI [of _ post])
      (auto simp: ineligible_reason_def engines_ok_def split: if_splits)
qed

text \<open>Two engines; the first is not ready.\<close>

definition example_engine :: "execution_backend \<Rightarrow> engine_descriptor" where
  "example_engine b = \<lparr>bd_backend = b, bd_version = ''1'', bd_model_architectures = [''llama''], bd_precisions = [''int4''],
     bd_phases = [Draft, Verify], bd_operators = [''op''], bd_isolation = ''in_process'', bd_schema_version = 1\<rparr>"

definition example_engines :: engine_registry where
  "example_engines = \<lparr>be_engines = [(NATIVE_MLX, example_engine NATIVE_MLX), (CPU, example_engine CPU)], be_injector = None,
     be_telemetry = [], be_overflow = 0\<rparr>"

definition example_engine_request :: engine_request where
  "example_engine_request = \<lparr>br_operator = ''op'', br_phase = Draft, br_precision = ''int4'', br_model_architecture = ''llama'',
     br_candidates = [NATIVE_MLX, CPU]\<rparr>"

definition example_engine_calls :: "int engine_calls" where
  "example_engine_calls = \<lparr>ec_ready = (\<lambda>b. b = CPU), ec_execute = (\<lambda>b. Returned 5), ec_before = (\<lambda>b. (False, 0)), ec_after = (\<lambda>b. (False, 0))\<rparr>"

theorem engine_chain_fail_closed_witness:
  "\<exists>g'. engine_execute example_engine_calls \<lparr>ic_request_id = ''r'', ic_deadline = Fin 1\<rparr> example_engine_request example_engines
      = (Engine_result 5 CPU [\<lparr>ba_backend = NATIVE_MLX, ba_status = ''rejected'', ba_reason = Some ''backend_not_ready''\<rparr>, succeeded CPU], g')
    \<and> telemetry_total g' = telemetry_total example_engines + 2"
proof -
  let ?c = "\<lparr>ic_request_id = ''r'', ic_deadline = Fin 1\<rparr>"
  let ?all = "[\<lparr>ba_backend = NATIVE_MLX, ba_status = ''rejected'', ba_reason = Some ''backend_not_ready''\<rparr>, succeeded CPU]"
  obtain g' where g': "engine_execute example_engine_calls ?c example_engine_request example_engines = (Engine_result 5 CPU ?all, g')"
    by (simp add: engine_execute_def example_engine_request_def example_engines_def example_engine_calls_def example_engine_def
        ineligible_reason_def raise_if_cancelled_def remaining_seconds_def run_engine_def succeeded_def)
  have new: "new_engine_registry [example_engine NATIVE_MLX, example_engine CPU] None = Inr example_engines"
    by (simp add: new_engine_registry_def example_engines_def example_engine_def all_backends_def)
  have ok: "engines_ok example_engines" by (simp add: engines_ok_def example_engines_def example_engine_def)
  have request: "engine_request_init example_engine_request = Inr example_engine_request"
    by (simp add: engine_request_init_def example_engine_request_def metadata_ok_def MAX_BACKEND_METADATA_VALUES_def all_backends_def)
  from engine_chain_fail_closed [OF new ok refl request g'] g' show ?thesis by auto
qed

end
