(* ===== verification/SpeculativeExecution.thy ===== *)
theory SpeculativeExecution
  imports BackendEngine GreedySpeculation ProfileStore
begin

text \<open>
  \<open>vllm_apple/speculative_execution.py\<close>: measured profiles that allow speculation, their files, the adapter to the
  backend registry, and the executor that drafts on one device, verifies on another, and commits what the verifier says.
  The file attributes, the length of an encoded JSON text, SHA-256 digests, uuids, clock readings and callbacks are
  arguments; callbacks may depend on the number of the round.  What other threads do to the device ledger before and
  during a stage are functions on the ledger.  The fields of a profile have their declared types: a file whose numbers
  are not integers, or whose \<open>outputs_match\<close> is no boolean, is refused by the model.
\<close>

section \<open>Profiles\<close>

definition MAX_DRAFT_TOKENS :: int where
  "MAX_DRAFT_TOKENS = 64"

definition MAX_OUTPUT_TOKENS :: int where
  "MAX_OUTPUT_TOKENS = 65536"

definition MAX_SPECULATIVE_ROUNDS :: nat where
  "MAX_SPECULATIVE_ROUNDS = 4096"

definition MAX_SPECULATIVE_PROFILE_BYTES :: int where
  "MAX_SPECULATIVE_PROFILE_BYTES = 16 * 1024"

record speculative_profile =
  sx_model_hash :: string
  sx_precision :: string
  sx_draft_backend :: execution_backend
  sx_verify_backend :: execution_backend
  sx_sample_count :: int
  sx_baseline_latency :: int
  sx_speculative_latency :: int
  sx_outputs_match :: bool
  sx_profile_id :: string

definition identity_fields :: "speculative_profile \<Rightarrow> (string \<times> json) list" where
  "identity_fields p =
     [(''model_hash'', JStr (sx_model_hash p)), (''precision'', JStr (sx_precision p)),
      (''draft_backend'', JStr (execution_backend_value (sx_draft_backend p))),
      (''verify_backend'', JStr (execution_backend_value (sx_verify_backend p))),
      (''sample_count'', JInt (sx_sample_count p)),
      (''baseline_latency_nanoseconds'', JInt (sx_baseline_latency p)),
      (''speculative_latency_nanoseconds'', JInt (sx_speculative_latency p)),
      (''outputs_match'', JBool (sx_outputs_match p))]"

definition speculative_profile_id :: "(json \<Rightarrow> string) \<Rightarrow> speculative_profile \<Rightarrow> string" where
  "speculative_profile_id digest p = digest (JObj (identity_fields p))"

definition speculative_profile_init :: "(json \<Rightarrow> string) \<Rightarrow> speculative_profile \<Rightarrow> speculative_profile result" where
  "speculative_profile_init digest p =
     guard_ok (\<not> (length (sx_model_hash p) \<noteq> 64 \<or> sx_precision p = []
         \<or> sx_draft_backend p \<notin> {CPU, COREML_DRAFT} \<or> sx_verify_backend p \<notin> {VLLM_METAL, NATIVE_MLX, NATIVE_METAL}
         \<or> \<not> (3 \<le> sx_sample_count p \<and> sx_sample_count p \<le> 1024) \<or> sx_baseline_latency p \<le> 0 \<or> sx_speculative_latency p \<le> 0
         \<or> length (sx_profile_id p) \<noteq> 64 \<or> sx_profile_id p \<noteq> speculative_profile_id digest p))
       ''invalid speculative execution profile'' p"

definition is_qualified :: "speculative_profile \<Rightarrow> bool" where
  "is_qualified p \<longleftrightarrow> sx_outputs_match p \<and> sx_speculative_latency p * 100 \<le> sx_baseline_latency p * 95"

definition create_speculative_profile :: "(json \<Rightarrow> string) \<Rightarrow> speculative_profile \<Rightarrow> speculative_profile result" where
  "create_speculative_profile digest p =
     speculative_profile_init digest (p\<lparr>sx_profile_id := speculative_profile_id digest p\<rparr>)"

definition speculative_profile_to_dict :: "speculative_profile \<Rightarrow> json" where
  "speculative_profile_to_dict p =
     JObj ((''schema_version'', JInt 1) # identity_fields p @ [(''profile_id'', JStr (sx_profile_id p))])"

definition save_speculative_profile ::
  "(json \<Rightarrow> nat) \<Rightarrow> bool \<Rightarrow> speculative_profile \<Rightarrow> stored_file result" where
  "save_speculative_profile encoded_size owned_directory p =
     (let payload = speculative_profile_to_dict p; size = int (encoded_size payload) + 1
      in if \<not> is_qualified p then Inl (ValueError ''only a qualified speculative profile may be persisted'')
         else if \<not> owned_directory then Inl (ValueError ''speculative profile directory must be owner-only'')
         else if MAX_SPECULATIVE_PROFILE_BYTES < size then Inl (ValueError ''speculative profile exceeds bounded size'')
         else Inr (\<lparr>fa_regular = True, fa_current_user = True, fa_size = size, fa_mode = 0x180\<rparr>, Some payload))"

definition speculative_keys :: "string list" where
  "speculative_keys = [''schema_version'', ''model_hash'', ''precision'', ''draft_backend'', ''verify_backend'',
     ''sample_count'', ''baseline_latency_nanoseconds'', ''speculative_latency_nanoseconds'', ''outputs_match'', ''profile_id'']"

definition parse_speculative_profile :: "(json \<Rightarrow> string) \<Rightarrow> (string \<times> json) list \<Rightarrow> speculative_profile result" where
  "parse_speculative_profile digest d =
     (case (j_str_value (field d ''model_hash''), j_str_value (field d ''precision''),
            Option.bind (j_str_value (field d ''draft_backend'')) backend_of_value,
            Option.bind (j_str_value (field d ''verify_backend'')) backend_of_value,
            j_int_value (field d ''sample_count''), j_int_value (field d ''baseline_latency_nanoseconds''),
            j_int_value (field d ''speculative_latency_nanoseconds''), j_str_value (field d ''profile_id'')) of
        (Some model, Some precision, Some draft, Some verify, Some samples, Some baseline, Some speculative, Some ident) \<Rightarrow>
          if \<not> j_is_bool (field d ''outputs_match'') then Inl (ValueError ''invalid speculative profile values'')
          else
          (case speculative_profile_init digest
                  \<lparr>sx_model_hash = model, sx_precision = precision, sx_draft_backend = draft, sx_verify_backend = verify,
                   sx_sample_count = samples, sx_baseline_latency = baseline, sx_speculative_latency = speculative,
                   sx_outputs_match = j_truth (field d ''outputs_match''), sx_profile_id = ident\<rparr> of
             Inl e \<Rightarrow> Inl (ValueError ''invalid speculative profile values'') | Inr p \<Rightarrow> Inr p)
      | _ \<Rightarrow> Inl (ValueError ''invalid speculative profile values''))"

definition load_speculative_profile ::
  "(json \<Rightarrow> string) \<Rightarrow> bool \<Rightarrow> string \<Rightarrow> string \<Rightarrow> stored_file option \<Rightarrow> speculative_profile result" where
  "load_speculative_profile digest private_directory model_hash precision file =
     (if \<not> private_directory then Inl (ValueError ''speculative profile directory must be owner-only'')
      else (case file of
        None \<Rightarrow> Inl OSError
      | Some (a, content) \<Rightarrow>
          if \<not> fa_regular a \<or> \<not> fa_current_user a \<or> fa_mode a mod 64 \<noteq> 0
             \<or> \<not> (0 < fa_size a \<and> fa_size a \<le> MAX_SPECULATIVE_PROFILE_BYTES)
          then Inl (ValueError ''speculative profile must be a bounded private regular file'')
          else (case content of
            None \<Rightarrow> Inl (ValueError ''JSONDecodeError'')
          | Some (JObj d) \<Rightarrow>
              if set (keys d) \<noteq> set speculative_keys \<or> \<not> number_is 1 (field d ''schema_version'')
                 \<or> field d ''model_hash'' \<noteq> JStr model_hash \<or> field d ''precision'' \<noteq> JStr precision
              then Inl (ValueError ''speculative profile identity mismatch'')
              else (case parse_speculative_profile digest d of
                Inl e \<Rightarrow> Inl e
              | Inr p \<Rightarrow> if \<not> is_qualified p then Inl (ValueError ''persisted speculative profile is not qualified'') else Inr p)
          | Some _ \<Rightarrow> Inl (ValueError ''speculative profile identity mismatch''))))"

section \<open>The registry adapter\<close>

definition validated_tokens :: "int list \<Rightarrow> nat \<Rightarrow> string \<Rightarrow> int list result" where
  "validated_tokens ts maximum label =
     guard_ok (\<not> (maximum < length ts \<or> list_ex (\<lambda>t. t < 0) ts)) (label @ '' backend returned invalid tokens'') ts"

record adapter =
  sa_profile :: speculative_profile
  sa_model_architecture :: string

definition new_adapter :: "speculative_profile \<Rightarrow> string \<Rightarrow> adapter result" where
  "new_adapter p architecture =
     guard_ok (\<not> (\<not> is_qualified p \<or> \<not> (1 \<le> length architecture \<and> length architecture \<le> 128)))
       ''invalid speculative backend registry adapter'' \<lparr>sa_profile = p, sa_model_architecture = architecture\<rparr>"

text \<open>How the end of a registry call reaches the adapter's caller.\<close>

definition adapter_tokens :: "execution_backend \<Rightarrow> nat \<Rightarrow> string \<Rightarrow> int list engine_end \<Rightarrow> int list result" where
  "adapter_tokens expected maximum label outcome =
     (case outcome of
        Engine_failure code retryable \<Rightarrow> Inl (BackendExecutionError code retryable)
      | Engine_raised e \<Rightarrow> Inl e
      | Engine_result v b tried \<Rightarrow>
          if b \<noteq> expected then Inl (RuntimeError (''speculative '' @ label @ '' backend identity mismatch''))
          else validated_tokens v maximum label)"

definition adapter_draft ::
  "adapter \<Rightarrow> (int list \<Rightarrow> nat \<Rightarrow> int list engine_calls) \<Rightarrow> int list \<Rightarrow> nat \<Rightarrow> inference_context \<Rightarrow> (engine_registry, int list) method" where
  "adapter_draft a engines prefix maximum c g =
     (case engine_request_init \<lparr>br_operator = ''speculative.draft'', br_phase = Draft, br_precision = sx_precision (sa_profile a),
             br_model_architecture = sa_model_architecture a, br_candidates = [sx_draft_backend (sa_profile a)]\<rparr> of
        Inl e \<Rightarrow> (Inl e, g)
      | Inr r \<Rightarrow>
          (case engine_execute (engines prefix maximum) c r g of
             (outcome, g') \<Rightarrow> (adapter_tokens (sx_draft_backend (sa_profile a)) maximum ''draft'' outcome, g')))"

definition adapter_verify ::
  "adapter \<Rightarrow> (int list \<Rightarrow> int list \<Rightarrow> int list engine_calls) \<Rightarrow> int list \<Rightarrow> int list \<Rightarrow> inference_context \<Rightarrow> (engine_registry, int list) method" where
  "adapter_verify a engines prefix proposed c g =
     (case engine_request_init \<lparr>br_operator = ''speculative.verify'', br_phase = Verify, br_precision = sx_precision (sa_profile a),
             br_model_architecture = sa_model_architecture a, br_candidates = [sx_verify_backend (sa_profile a)]\<rparr> of
        Inl e \<Rightarrow> (Inl e, g)
      | Inr r \<Rightarrow>
          (case engine_execute (engines prefix proposed) c r g of
             (outcome, g') \<Rightarrow> (adapter_tokens (sx_verify_backend (sa_profile a)) (length proposed) ''verify'' outcome, g')))"

section \<open>The executor\<close>

definition tokens_hash :: "(int list \<Rightarrow> string) \<Rightarrow> int list \<Rightarrow> string result" where
  "tokens_hash sha ts = (if list_ex (\<lambda>t. 2 ^ 64 \<le> t) ts then Inl (OtherError ''OverflowError'') else Inr (sha ts))"

record speculative_result =
  sr_token_ids :: "int list"
  sr_drafted_tokens :: int
  sr_accepted_draft_tokens :: int
  sr_verifier_corrections :: int
  sr_rounds :: int
  sr_elapsed_nanoseconds :: int
  sr_output_fingerprint :: string
  sr_profile_id :: string

definition speculative_result_init :: "(int list \<Rightarrow> string) \<Rightarrow> speculative_result \<Rightarrow> speculative_result result" where
  "speculative_result_init sha r =
     guard_ok (\<not> (sr_token_ids r = [] \<or> MAX_OUTPUT_TOKENS < int (length (sr_token_ids r)) \<or> list_ex (\<lambda>t. t < 0) (sr_token_ids r)
         \<or> \<not> (1 \<le> sr_rounds r \<and> sr_rounds r \<le> int MAX_SPECULATIVE_ROUNDS) \<or> sr_drafted_tokens r < int (length (sr_token_ids r))
         \<or> \<not> (0 \<le> sr_accepted_draft_tokens r \<and> sr_accepted_draft_tokens r \<le> sr_drafted_tokens r)
         \<or> \<not> (0 \<le> sr_verifier_corrections r \<and> sr_verifier_corrections r \<le> sr_rounds r) \<or> sr_elapsed_nanoseconds r \<le> 0
         \<or> Inr (sr_output_fingerprint r) \<noteq> tokens_hash sha (sr_token_ids r) \<or> length (sr_profile_id r) \<noteq> 64))
       ''invalid speculative execution result'' r"

record executor =
  se_profile :: speculative_profile
  se_draft_memory_bytes :: int
  se_verify_memory_bytes :: int
  se_maximum_draft_tokens :: int

definition new_executor :: "speculative_profile \<Rightarrow> int \<Rightarrow> int \<Rightarrow> int \<Rightarrow> executor result" where
  "new_executor p draft_memory verify_memory maximum =
     guard_ok (\<not> (\<not> is_qualified p \<or> draft_memory < 0 \<or> verify_memory < 0 \<or> \<not> (1 \<le> maximum \<and> maximum \<le> MAX_DRAFT_TOKENS)))
       ''invalid or unqualified speculative executor configuration''
       \<lparr>se_profile = p, se_draft_memory_bytes = draft_memory, se_verify_memory_bytes = verify_memory, se_maximum_draft_tokens = maximum\<rparr>"

record spec_world =
  sw_draft :: "nat \<Rightarrow> int list \<Rightarrow> nat \<Rightarrow> int list result"
  sw_verify :: "nat \<Rightarrow> int list \<Rightarrow> int list \<Rightarrow> int list result"
  sw_publish :: "(nat \<Rightarrow> int list \<Rightarrow> unit result) option"
  sw_draft_id :: "nat \<Rightarrow> string"
  sw_verify_id :: "nat \<Rightarrow> string"
  sw_before_draft :: "nat \<Rightarrow> device_ledger \<Rightarrow> device_ledger"
  sw_while_drafting :: "nat \<Rightarrow> device_ledger \<Rightarrow> device_ledger"
  sw_before_verify :: "nat \<Rightarrow> device_ledger \<Rightarrow> device_ledger"
  sw_while_verifying :: "nat \<Rightarrow> device_ledger \<Rightarrow> device_ledger"
  sw_at_start :: "nat \<Rightarrow> bool \<times> rat"
  sw_at_verify :: "nat \<Rightarrow> bool \<times> rat"
  sw_at_end :: "nat \<Rightarrow> bool \<times> rat"

record spec_state =
  sp_output :: "int list"
  sp_drafted :: nat
  sp_accepted :: nat
  sp_corrections :: nat
  sp_rounds :: nat
  sp_published :: "int list list"
  sp_ledger :: device_ledger

definition run_stage ::
  "string \<Rightarrow> execution_backend \<Rightarrow> int \<Rightarrow> (device_ledger \<Rightarrow> device_ledger) \<Rightarrow> (device_ledger \<Rightarrow> device_ledger)
    \<Rightarrow> 'a result \<Rightarrow> (device_ledger, 'a) method" where
  "run_stage uuid b memory_bytes before others operation l =
     (case reserve_backend uuid b memory_bytes (before l) of
        Inl e \<Rightarrow> (Inl e, before l)
      | Inr (v, l') \<Rightarrow> (operation, snd (device_release (dv_reservation_id v) (others l'))))"

text \<open>What a stage must return to be used: valid tokens, and at least one.\<close>

definition stage_tokens :: "nat \<Rightarrow> string \<Rightarrow> int list \<Rightarrow> int list result" where
  "stage_tokens maximum label ts =
     (case validated_tokens ts maximum label of
        Inl e \<Rightarrow> Inl e
      | Inr ts \<Rightarrow> if ts = [] then Inl (RuntimeError (label @ '' backend returned no token'')) else Inr ts)"

definition draft_stage :: "executor \<Rightarrow> spec_world \<Rightarrow> nat \<Rightarrow> (spec_state, int list) method" where
  "draft_stage x w wanted s =
     (case run_stage (sw_draft_id w (sp_rounds s)) (sx_draft_backend (se_profile x)) (se_draft_memory_bytes x)
             (sw_before_draft w (sp_rounds s)) (sw_while_drafting w (sp_rounds s))
             (sw_draft w (sp_rounds s) (sp_output s) wanted) (sp_ledger s) of
        (Inl e, l) \<Rightarrow> (Inl e, s\<lparr>sp_ledger := l\<rparr>)
      | (Inr ts, l) \<Rightarrow> (stage_tokens wanted ''draft'' ts, s\<lparr>sp_ledger := l\<rparr>))"

definition verify_stage :: "executor \<Rightarrow> spec_world \<Rightarrow> int list \<Rightarrow> (spec_state, int list) method" where
  "verify_stage x w proposal s =
     (case run_stage (sw_verify_id w (sp_rounds s)) (sx_verify_backend (se_profile x)) (se_verify_memory_bytes x)
             (sw_before_verify w (sp_rounds s)) (sw_while_verifying w (sp_rounds s))
             (sw_verify w (sp_rounds s) (sp_output s) proposal) (sp_ledger s) of
        (Inl e, l) \<Rightarrow> (Inl e, s\<lparr>sp_ledger := l\<rparr>)
      | (Inr ts, l) \<Rightarrow> (stage_tokens (length proposal) ''verify'' ts, s\<lparr>sp_ledger := l\<rparr>))"

definition commit_tokens :: "nat \<Rightarrow> int list \<Rightarrow> int list \<Rightarrow> spec_state \<Rightarrow> int list \<times> spec_state" where
  "commit_tokens maximum proposal authoritative s =
     (let agreed = matching proposal authoritative;
          corrected = agreed < length authoritative;
          committed = (if corrected then take (agreed + 1) authoritative else authoritative);
          committed = (if maximum < length (sp_output s) + length committed
                       then take (maximum - length (sp_output s)) committed else committed)
      in (committed, s\<lparr>sp_accepted := sp_accepted s + agreed,
                       sp_corrections := (if corrected then sp_corrections s + 1 else sp_corrections s),
                       sp_output := sp_output s @ committed, sp_rounds := sp_rounds s + 1\<rparr>))"

definition publish_tokens :: "spec_world \<Rightarrow> nat \<Rightarrow> int list \<Rightarrow> (spec_state, unit) method" where
  "publish_tokens w k committed s =
     (case sw_publish w of
        None \<Rightarrow> (Inr (), s)
      | Some publish \<Rightarrow>
          (case publish k committed of
             Inl e \<Rightarrow> (Inl e, s) | Inr u \<Rightarrow> (Inr (), s\<lparr>sp_published := sp_published s @ [committed]\<rparr>)))"

definition spec_round :: "executor \<Rightarrow> spec_world \<Rightarrow> inference_context \<Rightarrow> nat \<Rightarrow> (spec_state, unit) method" where
  "spec_round x w c maximum s =
     (case raise_if_cancelled (sw_at_start w (sp_rounds s)) c of
        Inl e \<Rightarrow> (Inl e, s)
      | Inr u \<Rightarrow>
     if MAX_SPECULATIVE_ROUNDS \<le> sp_rounds s then (Inl (RuntimeError ''speculative execution round limit exceeded''), s)
     else (case draft_stage x w (min (nat (se_maximum_draft_tokens x)) (maximum - length (sp_output s))) s of
        (Inl e, s1) \<Rightarrow> (Inl e, s1)
      | (Inr proposal, s1) \<Rightarrow>
     (let s2 = s1\<lparr>sp_drafted := sp_drafted s1 + length proposal\<rparr>
      in case raise_if_cancelled (sw_at_verify w (sp_rounds s)) c of
        Inl e \<Rightarrow> (Inl e, s2)
      | Inr u \<Rightarrow>
     (case verify_stage x w proposal s2 of
        (Inl e, s3) \<Rightarrow> (Inl e, s3)
      | (Inr authoritative, s3) \<Rightarrow>
     (case commit_tokens maximum proposal authoritative s3 of
        (committed, s4) \<Rightarrow>
          (case raise_if_cancelled (sw_at_end w (sp_rounds s)) c of
             Inl e \<Rightarrow> (Inl e, s4)
           | Inr u \<Rightarrow> publish_tokens w (sp_rounds s) committed s4))))))"

lemma stage_tokens_Inr: "stage_tokens n label ts = Inr ts' \<longleftrightarrow> ts' = ts \<and> ts \<noteq> [] \<and> length ts \<le> n \<and> (\<forall>t\<in>set ts. 0 \<le> t)"
  by (auto simp: stage_tokens_def validated_tokens_def list_ex_iff not_less guard_ok_def)

lemma draft_stage_frame:
  "draft_stage x w n s = (r, s') \<Longrightarrow> \<exists>l. s' = s\<lparr>sp_ledger := l\<rparr>"
  by (auto simp: draft_stage_def split: prod.splits sum.splits)

lemma verify_stage_frame:
  "verify_stage x w ps s = (r, s') \<Longrightarrow> \<exists>l. s' = s\<lparr>sp_ledger := l\<rparr>"
  by (auto simp: verify_stage_def split: prod.splits sum.splits)

lemma commit_tokens_spec:
  assumes "commit_tokens maximum proposal authoritative s = (committed, s')" and "authoritative \<noteq> []" and "length (sp_output s) < maximum"
  obtains n where "committed = take n authoritative" "0 < n" "n \<le> length authoritative" "n \<le> Suc (matching proposal authoritative)"
    "n \<le> maximum - length (sp_output s)"
proof -
  let ?agreed = "matching proposal authoritative"
  let ?n = "if ?agreed < length authoritative then ?agreed + 1 else length authoritative"
  have agreed: "?agreed \<le> length authoritative" by (rule matching_prefix)
  have "committed = take (maximum - length (sp_output s)) (take ?n authoritative)"
    using assms(1,3) agreed by (auto simp: commit_tokens_def Let_def)
  then have "committed = take (min ?n (maximum - length (sp_output s))) authoritative"
    by (simp only: take_take min.commute)
  then show thesis
    by (rule that) (use assms(2,3) agreed in \<open>auto simp: min_def\<close>)
qed

lemma commit_tokens_frame:
  assumes "commit_tokens maximum proposal authoritative s = (committed, s')"
  shows "sp_output s' = sp_output s @ committed" "sp_ledger s' = sp_ledger s"
    "sp_published s' = sp_published s" "sp_drafted s' = sp_drafted s" "sp_rounds s' = sp_rounds s + 1"
    "sp_accepted s' = sp_accepted s + matching proposal authoritative" "sp_corrections s' \<le> sp_corrections s + 1"
  using assms by (auto simp: commit_tokens_def Let_def)

text \<open>A round that returns has committed tokens.\<close>

lemma spec_round_Inr:
  assumes "spec_round x w c maximum s = (Inr u, s')"
  obtains proposal s1 authoritative s3 committed s4 where
    "draft_stage x w (min (nat (se_maximum_draft_tokens x)) (maximum - length (sp_output s))) s = (Inr proposal, s1)"
    "verify_stage x w proposal (s1\<lparr>sp_drafted := sp_drafted s1 + length proposal\<rparr>) = (Inr authoritative, s3)"
    "commit_tokens maximum proposal authoritative s3 = (committed, s4)"
    "publish_tokens w (sp_rounds s) committed s4 = (Inr (), s')"
    "sp_rounds s < MAX_SPECULATIVE_ROUNDS"
  using assms that unfolding spec_round_def Let_def by (auto split: sum.splits prod.splits if_splits)

lemma verify_stage_tokens: "verify_stage x w ps s = (Inr vs, s') \<Longrightarrow>
    vs \<noteq> [] \<and> length vs \<le> length ps \<and> sw_verify w (sp_rounds s) (sp_output s) ps = Inr vs"
  by (auto simp: verify_stage_def run_stage_def stage_tokens_Inr split: prod.splits sum.splits)

lemma publish_frame: "publish_tokens w k ts s = (r, s') \<Longrightarrow> sp_output s' = sp_output s \<and> sp_ledger s' = sp_ledger s"
  by (auto simp: publish_tokens_def split: option.splits sum.splits)

lemma spec_round_progress:
  assumes "spec_round x w c maximum s = (Inr u, s')" and "length (sp_output s) < maximum"
  shows "length (sp_output s) < length (sp_output s')"
  using assms(1)
proof (rule spec_round_Inr)
  fix proposal s1 authoritative s3 committed s4
  assume stages: "draft_stage x w (min (nat (se_maximum_draft_tokens x)) (maximum - length (sp_output s))) s = (Inr proposal, s1)"
    "verify_stage x w proposal (s1\<lparr>sp_drafted := sp_drafted s1 + length proposal\<rparr>) = (Inr authoritative, s3)"
    and commit: "commit_tokens maximum proposal authoritative s3 = (committed, s4)"
    and publish: "publish_tokens w (sp_rounds s) committed s4 = (Inr (), s')"
  have out: "sp_output s3 = sp_output s"
    using draft_stage_frame [OF stages(1)] verify_stage_frame [OF stages(2)] by auto
  have "authoritative \<noteq> []" using verify_stage_tokens [OF stages(2)] by simp
  then obtain n where "committed = take n authoritative" "0 < n" "n \<le> length authoritative"
    using commit_tokens_spec [OF commit] assms(2) out by metis
  then have "committed \<noteq> []" by auto
  then show ?thesis using commit_tokens_frame(1) [OF commit] publish_frame [OF publish] out by simp
qed

function speculate :: "executor \<Rightarrow> spec_world \<Rightarrow> inference_context \<Rightarrow> nat \<Rightarrow> (spec_state, unit) method" where
  "speculate x w c maximum s =
     (if length (sp_output s) < maximum
      then (case spec_round x w c maximum s of (Inl e, s') \<Rightarrow> (Inl e, s') | (Inr u, s') \<Rightarrow> speculate x w c maximum s')
      else (Inr (), s))"
  by pat_completeness auto
termination
proof (relation "measure (\<lambda>(x, w, c, maximum, s). maximum - length (sp_output s))")
  show "wf (measure (\<lambda>(x, w, c, maximum, s). maximum - length (sp_output s)))" by simp
  fix x w c maximum s r s' u
  assume "length (sp_output s) < maximum" and "(r, s') = spec_round x w c maximum s" and "r = Inr (u :: unit)"
  then show "((x, w, c, maximum, s'), (x, w, c, maximum, s)) \<in> measure (\<lambda>(x, w, c, maximum, s). maximum - length (sp_output s))"
    using spec_round_progress [of x w c maximum s u s'] by simp
qed

declare speculate.simps [simp del]

definition spec_start :: "device_ledger \<Rightarrow> spec_state" where
  "spec_start l = \<lparr>sp_output = [], sp_drafted = 0, sp_accepted = 0, sp_corrections = 0, sp_rounds = 0, sp_published = [], sp_ledger = l\<rparr>"

definition speculative_execute ::
  "(int list \<Rightarrow> string) \<Rightarrow> executor \<Rightarrow> spec_world \<Rightarrow> int \<Rightarrow> inference_context \<Rightarrow> int
    \<Rightarrow> device_ledger \<Rightarrow> speculative_result result \<times> spec_state" where
  "speculative_execute sha x w elapsed c maximum l =
     (if \<not> (1 \<le> maximum \<and> maximum \<le> MAX_OUTPUT_TOKENS)
      then (Inl (ValueError ''invalid speculative execution request''), spec_start l)
      else (case speculate x w c (nat maximum) (spec_start l) of
              (Inl e, s) \<Rightarrow> (Inl e, s)
            | (Inr u, s) \<Rightarrow>
                (case tokens_hash sha (sp_output s) of
                   Inl e \<Rightarrow> (Inl e, s)
                 | Inr fingerprint \<Rightarrow>
                     (speculative_result_init sha
                          \<lparr>sr_token_ids = sp_output s, sr_drafted_tokens = int (sp_drafted s), sr_accepted_draft_tokens = int (sp_accepted s),
                           sr_verifier_corrections = int (sp_corrections s), sr_rounds = int (sp_rounds s),
                           sr_elapsed_nanoseconds = max 1 elapsed, sr_output_fingerprint = fingerprint,
                           sr_profile_id = sx_profile_id (se_profile x)\<rparr>, s))))"

section \<open>What a run guarantees\<close>

text \<open>A verifier that answers with its own greedy predictions as long as the proposal agrees with them.\<close>

definition faithful :: "(int list \<Rightarrow> int) \<Rightarrow> spec_world \<Rightarrow> bool" where
  "faithful predict w \<longleftrightarrow> (\<forall>k prefix ps vs. sw_verify w k prefix ps = Inr vs \<longrightarrow>
     (\<forall>i < length vs. take i ps = take i vs \<longrightarrow> vs ! i = predict (prefix @ take i ps)))"

text \<open>The identifiers of a run are its own: other threads leave the entries under them alone.\<close>

definition our_ids :: "spec_world \<Rightarrow> string set" where
  "our_ids w = range (sw_draft_id w) \<union> range (sw_verify_id w)"

definition ours_kept :: "spec_world \<Rightarrow> bool" where
  "ours_kept w \<longleftrightarrow> (\<forall>k. \<forall>f\<in>{sw_before_draft w k, sw_while_drafting w k, sw_before_verify w k, sw_while_verifying w k}.
     keeps_ours (our_ids w) f)"

definition nothing_held :: "spec_world \<Rightarrow> device_ledger \<Rightarrow> bool" where
  "nothing_held w l \<longleftrightarrow> ledger_ok l \<and> our_ids w \<inter> set (keys (dl_reservations l)) = {}"

lemma nothing_held_others:
  assumes "nothing_held w l" and "keeps_ours (our_ids w) f"
  shows "nothing_held w (f l)"
  using assms keeps_oursD [OF assms(2)] unfolding nothing_held_def by blast

lemma run_stage_held:
  assumes "run_stage uuid b m before others operation l = (r, l')" and "nothing_held w l" and "uuid \<in> our_ids w"
    and "keeps_ours (our_ids w) before" and "keeps_ours (our_ids w) others"
  shows "nothing_held w l'"
proof -
  have before: "nothing_held w (before l)" using assms(2,4) by (rule nothing_held_others)
  show ?thesis
  proof (cases "reserve_backend uuid b m (before l)")
    case (Inl e)
    with assms(1) before show ?thesis by (simp add: run_stage_def)
  next
    case (Inr p)
    obtain v l1 where p: "p = (v, l1)" by (cases p)
    have fresh: "uuid \<notin> set (keys (dl_reservations (before l)))" and ok: "ledger_ok (before l)"
      using before assms(3) by (auto simp: nothing_held_def)
    note reserved = reserve_backend_ok [OF ok fresh Inr [unfolded p]]
    have l': "l' = snd (device_release uuid (others l1))"
      using assms(1) Inr p reserved(3) by (simp add: run_stage_def)
    have others: "ledger_ok (others l1)" using keeps_oursD(1) [OF assms(5) reserved(1)] .
    have "map_of (dl_reservations (others l1)) i = map_of (dl_reservations l1) i" if "i \<in> our_ids w" for i
      using assms(5) reserved(1) that unfolding keeps_ours_def by blast
    then have kept: "i \<in> set (keys (dl_reservations (others l1))) \<longleftrightarrow> i \<in> set (keys (dl_reservations l1))" if "i \<in> our_ids w" for i
      using that by (metis map_of_None_keys)
    have "our_ids w \<inter> set (keys (dl_reservations (others l1))) \<subseteq> {uuid}"
    proof
      fix i assume i: "i \<in> our_ids w \<inter> set (keys (dl_reservations (others l1)))"
      then have "i \<in> set (keys (dl_reservations l1))" using kept by blast
      then have "i = uuid \<or> i \<in> set (keys (dl_reservations (before l)))" using reserved(2) by blast
      with before i show "i \<in> {uuid}" unfolding nothing_held_def by blast
    qed
    moreover have "ledger_ok l'" using pipeline_release_ok [OF others, of "[v]"] reserved(3) by (simp add: l')
    ultimately show ?thesis
      using device_release_keys [of uuid "others l1"] by (auto simp: nothing_held_def l')
  qed
qed

lemma draft_stage_held:
  assumes "draft_stage x w n s = (r, s')" and "nothing_held w (sp_ledger s)" and "ours_kept w"
  shows "nothing_held w (sp_ledger s')"
proof -
  obtain q l where q: "run_stage (sw_draft_id w (sp_rounds s)) (sx_draft_backend (se_profile x)) (se_draft_memory_bytes x)
      (sw_before_draft w (sp_rounds s)) (sw_while_drafting w (sp_rounds s)) (sw_draft w (sp_rounds s) (sp_output s) n) (sp_ledger s) = (q, l)"
    by fastforce
  have "nothing_held w l"
    by (rule run_stage_held [OF q assms(2)]) (use assms(3) in \<open>auto simp: our_ids_def ours_kept_def\<close>)
  with assms(1) q show ?thesis by (auto simp: draft_stage_def split: sum.splits)
qed

lemma verify_stage_held:
  assumes "verify_stage x w ps s = (r, s')" and "nothing_held w (sp_ledger s)" and "ours_kept w"
  shows "nothing_held w (sp_ledger s')"
proof -
  obtain q l where q: "run_stage (sw_verify_id w (sp_rounds s)) (sx_verify_backend (se_profile x)) (se_verify_memory_bytes x)
      (sw_before_verify w (sp_rounds s)) (sw_while_verifying w (sp_rounds s)) (sw_verify w (sp_rounds s) (sp_output s) ps) (sp_ledger s) = (q, l)"
    by fastforce
  have "nothing_held w l"
    by (rule run_stage_held [OF q assms(2)]) (use assms(3) in \<open>auto simp: our_ids_def ours_kept_def\<close>)
  with assms(1) q show ?thesis by (auto simp: verify_stage_def split: sum.splits)
qed

text \<open>A round fails before it commits, or it commits what the verifier returned and then publishes or fails.\<close>

definition round_committed :: "spec_world \<Rightarrow> nat \<Rightarrow> spec_state \<Rightarrow> unit result \<Rightarrow> spec_state \<Rightarrow> bool" where
  "round_committed w maximum s r s' \<longleftrightarrow>
     (\<exists>proposal authoritative l committed s4.
        proposal \<noteq> [] \<and> authoritative \<noteq> [] \<and> length authoritative \<le> length proposal \<and> (\<forall>t\<in>set authoritative. 0 \<le> t)
        \<and> sw_verify w (sp_rounds s) (sp_output s) proposal = Inr authoritative \<and> nothing_held w l \<and> sp_rounds s < MAX_SPECULATIVE_ROUNDS
        \<and> commit_tokens maximum proposal authoritative (s\<lparr>sp_ledger := l, sp_drafted := sp_drafted s + length proposal\<rparr>) = (committed, s4)
        \<and> (isl r \<and> s' = s4 \<or> publish_tokens w (sp_rounds s) committed s4 = (r, s')))"

lemma spec_round_outcome:
  assumes "spec_round x w c maximum s = (r, s')" and "nothing_held w (sp_ledger s)" and "ours_kept w"
  shows "isl r \<and> (\<exists>l d. s' = s\<lparr>sp_ledger := l, sp_drafted := d\<rparr> \<and> nothing_held w l) \<or> round_committed w maximum s r s'"
proof -
  let ?n = "min (nat (se_maximum_draft_tokens x)) (maximum - length (sp_output s))"
  let ?early = "isl r \<and> (\<exists>l d. s' = s\<lparr>sp_ledger := l, sp_drafted := d\<rparr> \<and> nothing_held w l)"
  obtain q s1 where draft: "draft_stage x w ?n s = (q, s1)" by fastforce
  have held: "nothing_held w (sp_ledger s1)" by (rule draft_stage_held [OF draft assms(2,3)])
  obtain l1 where s1: "s1 = s\<lparr>sp_ledger := l1\<rparr>" using draft_stage_frame [OF draft] by blast
  consider "raise_if_cancelled (sw_at_start w (sp_rounds s)) c \<noteq> Inr () \<or> MAX_SPECULATIVE_ROUNDS \<le> sp_rounds s" | "isl q"
    | proposal where "q = Inr proposal" "raise_if_cancelled (sw_at_start w (sp_rounds s)) c = Inr ()" "sp_rounds s < MAX_SPECULATIVE_ROUNDS"
  proof (cases q)
    case (Inl e)
    then show thesis using that(2) by simp
  next
    case (Inr ps)
    then show thesis using that(1) that(3) [of ps] by (meson not_le)
  qed
  then show ?thesis
  proof cases
    case 1
    then have "\<exists>e. r = Inl e \<and> s' = s"
    proof
      assume "raise_if_cancelled (sw_at_start w (sp_rounds s)) c \<noteq> Inr ()"
      then obtain e where "raise_if_cancelled (sw_at_start w (sp_rounds s)) c = Inl e"
        by (cases "raise_if_cancelled (sw_at_start w (sp_rounds s)) c") auto
      then have "spec_round x w c maximum s = (Inl e, s)" by (simp add: spec_round_def)
      with assms(1) show ?thesis by auto
    next
      assume "MAX_SPECULATIVE_ROUNDS \<le> sp_rounds s"
      then obtain e where "spec_round x w c maximum s = (Inl e, s)"
        by (cases "raise_if_cancelled (sw_at_start w (sp_rounds s)) c") (auto simp: spec_round_def)
      with assms(1) show ?thesis by auto
    qed
    then have "isl r \<and> s' = s" by auto
    then have ?early using assms(2) by (intro conjI exI [of _ "sp_ledger s"] exI [of _ "sp_drafted s"]) simp_all
    then show ?thesis ..
  next
    case 2
    then obtain e where "q = Inl e" by (cases q) auto
    then obtain e' t where "spec_round x w c maximum s = (Inl e', t)" "t = s \<or> t = s1"
      using draft by (cases "raise_if_cancelled (sw_at_start w (sp_rounds s)) c"; cases "MAX_SPECULATIVE_ROUNDS \<le> sp_rounds s")
        (auto simp: spec_round_def)
    then have "isl r \<and> (s' = s \<or> s' = s1)" using assms(1) by auto
    moreover have "s = s\<lparr>sp_ledger := sp_ledger s, sp_drafted := sp_drafted s\<rparr>" by simp
    moreover have "s1 = s\<lparr>sp_ledger := l1, sp_drafted := sp_drafted s\<rparr>" using s1 by simp
    ultimately have ?early using assms(2) held s1 by (metis spec_state.select_convs(7) spec_state.surjective spec_state.update_convs(7))
    then show ?thesis ..
  next
    case (3 proposal)
    let ?s2 = "s1\<lparr>sp_drafted := sp_drafted s1 + length proposal\<rparr>"
    have proposal: "proposal \<noteq> []"
      using draft 3(1) by (auto simp: draft_stage_def stage_tokens_Inr split: prod.splits sum.splits)
    show ?thesis
    proof (cases "raise_if_cancelled (sw_at_verify w (sp_rounds s)) c")
      case (Inl e)
      then have "spec_round x w c maximum s = (Inl e, ?s2)" using draft 3 by (simp add: spec_round_def Let_def)
      then have "isl r \<and> s' = ?s2" using assms(1) by auto
      then have ?early using held s1 by (intro conjI exI [of _ l1] exI [of _ "sp_drafted s + length proposal"]) auto
      then show ?thesis ..
    next
      case (Inr u)
      obtain q' s3 where verify: "verify_stage x w proposal ?s2 = (q', s3)" by fastforce
      have held3: "nothing_held w (sp_ledger s3)" by (rule verify_stage_held [OF verify _ assms(3)]) (simp add: held)
      obtain l3 where s3: "s3 = ?s2\<lparr>sp_ledger := l3\<rparr>" using verify_stage_frame [OF verify] by blast
      then have s3': "s3 = s\<lparr>sp_ledger := l3, sp_drafted := sp_drafted s + length proposal\<rparr>" by (simp add: s1)
      show ?thesis
      proof (cases q')
        case (Inl e)
        then have "spec_round x w c maximum s = (Inl e, s3)" using draft 3 Inr verify by (simp add: spec_round_def Let_def)
        then have "isl r \<and> s' = s3" using assms(1) by auto
        then have ?early using held3 s3' by (intro conjI exI [of _ l3] exI [of _ "sp_drafted s + length proposal"]) auto
        then show ?thesis ..
      next
        case (Inr authoritative)
        obtain committed s4 where commit: "commit_tokens maximum proposal authoritative s3 = (committed, s4)" by fastforce
        have round: "spec_round x w c maximum s = (case raise_if_cancelled (sw_at_end w (sp_rounds s)) c of
            Inl e \<Rightarrow> (Inl e, s4) | Inr u \<Rightarrow> publish_tokens w (sp_rounds s) committed s4)"
          using draft 3 \<open>raise_if_cancelled (sw_at_verify w (sp_rounds s)) c = Inr u\<close> verify Inr commit
          by (simp add: spec_round_def Let_def)
        have "isl r \<and> s' = s4 \<or> publish_tokens w (sp_rounds s) committed s4 = (r, s')"
        proof (cases "raise_if_cancelled (sw_at_end w (sp_rounds s)) c")
          case (Inl e)
          with round have "spec_round x w c maximum s = (Inl e, s4)" by simp
          with assms(1) show ?thesis by auto
        next
          case (Inr u)
          with round assms(1) show ?thesis by simp
        qed
        moreover have "\<forall>t\<in>set authoritative. 0 \<le> t"
          using verify Inr by (auto simp: verify_stage_def stage_tokens_Inr split: prod.splits sum.splits)
        ultimately have "round_committed w maximum s r s'"
          using proposal verify_stage_tokens [OF verify [unfolded Inr]] held3 3(3) commit s1
          unfolding round_committed_def s3' by (intro exI [of _ proposal] exI [of _ authoritative] exI [of _ l3] exI [of _ committed] exI [of _ s4]) auto
        then show ?thesis ..
      qed
    qed
  qed
qed

text \<open>The invariant between rounds, and what still holds when a run fails.\<close>

definition safe_state :: "(int list \<Rightarrow> int) \<Rightarrow> spec_world \<Rightarrow> nat \<Rightarrow> spec_state \<Rightarrow> bool" where
  "safe_state predict w maximum s \<longleftrightarrow> sp_output s = greedy predict [] (length (sp_output s)) \<and> length (sp_output s) \<le> maximum
     \<and> nothing_held w (sp_ledger s) \<and> (\<exists>m. concat (sp_published s) = take m (sp_output s))"

definition counted_state :: "spec_world \<Rightarrow> spec_state \<Rightarrow> bool" where
  "counted_state w s \<longleftrightarrow> (sw_publish w \<noteq> None \<longrightarrow> concat (sp_published s) = sp_output s)
     \<and> (\<forall>t\<in>set (sp_output s). 0 \<le> t) \<and> length (sp_output s) \<le> sp_drafted s \<and> sp_accepted s \<le> sp_drafted s
     \<and> sp_corrections s \<le> sp_rounds s \<and> sp_rounds s \<le> MAX_SPECULATIVE_ROUNDS \<and> (sp_output s \<noteq> [] \<longrightarrow> 0 < sp_rounds s)"

lemma round_committed_safe:
  assumes "round_committed w maximum s r s'" and "faithful predict w" and "safe_state predict w maximum s"
    and "counted_state w s" and "length (sp_output s) < maximum"
  shows "safe_state predict w maximum s' \<and> (r = Inr () \<longrightarrow> counted_state w s')"
proof -
  obtain ps vs l committed s4 where ps: "ps \<noteq> []" "vs \<noteq> []" "length vs \<le> length ps" "\<forall>t\<in>set vs. 0 \<le> t"
    and verified: "sw_verify w (sp_rounds s) (sp_output s) ps = Inr vs" and held: "nothing_held w l"
    and rounds: "sp_rounds s < MAX_SPECULATIVE_ROUNDS"
    and commit: "commit_tokens maximum ps vs (s\<lparr>sp_ledger := l, sp_drafted := sp_drafted s + length ps\<rparr>) = (committed, s4)"
    and finish: "isl r \<and> s' = s4 \<or> publish_tokens w (sp_rounds s) committed s4 = (r, s')"
    using assms(1) unfolding round_committed_def by blast
  obtain n where n: "committed = take n vs" "n \<le> length vs" "n \<le> Suc (matching ps vs)" "n \<le> maximum - length (sp_output s)"
    using commit_tokens_spec [OF commit ps(2)] assms(5) by auto
  note frame = commit_tokens_frame [OF commit]
  have "take n vs = greedy predict (sp_output s) n"
    by (rule agreed_greedy [of vs ps]) (use assms(2) verified n in \<open>auto simp: faithful_def\<close>)
  then have "sp_output s4 = greedy predict [] (length (sp_output s4))"
    unfolding frame(1) using assms(3) n by (intro greedy_extend) (simp_all add: safe_state_def)
  moreover obtain m where m: "concat (sp_published s) = take m (sp_output s)" using assms(3) by (auto simp: safe_state_def)
  moreover have "take m (sp_output s) = take (min m (length (sp_output s))) (sp_output s4)" by (simp add: frame(1) min_def)
  ultimately have s4: "safe_state predict w maximum s4"
    using assms(3,5) held n frame by (auto simp: safe_state_def)
  have agreed: "matching ps vs \<le> length ps" by (rule matching_prefix)
  note facts = assms(4) ps n frame rounds agreed
  have counted: "sw_publish w = None \<Longrightarrow> counted_state w s4"
    using facts by (auto simp: counted_state_def dest: in_set_takeD)
  have counted': "counted_state w (s4\<lparr>sp_published := sp_published s4 @ [committed]\<rparr>)" if "sw_publish w \<noteq> None"
    using that facts by (auto simp: counted_state_def dest: in_set_takeD)
  consider "isl r" "s' = s4" | "sw_publish w = None" "s' = s4"
    | "sw_publish w \<noteq> None" "s' = s4\<lparr>sp_published := sp_published s4 @ [committed]\<rparr>"
    using finish by (auto simp: publish_tokens_def split: option.splits sum.splits)
  then show ?thesis
  proof cases
    case 3
    then have "concat (sp_published s') = sp_output s'"
      using assms(4) frame by (simp add: counted_state_def)
    then have "safe_state predict w maximum s'"
      using s4 3 by (auto simp: safe_state_def intro: exI [of _ "length (sp_output s4)"])
    with counted' 3 show ?thesis by simp
  qed (use s4 counted in auto)
qed

lemma speculate_safe:
  assumes "speculate x w c maximum s = (r, s')" and "faithful predict w" and "ours_kept w"
    and "safe_state predict w maximum s" and "counted_state w s"
  shows "safe_state predict w maximum s' \<and> (r = Inr () \<longrightarrow> counted_state w s' \<and> length (sp_output s') = maximum)"
  using assms
proof (induction x w c maximum s rule: speculate.induct)
  case (1 x w c maximum s)
  show ?case
  proof (cases "length (sp_output s) < maximum")
    case False
    with "1.prems" have "r = Inr ()" "s' = s" by (simp_all add: speculate.simps)
    moreover have "length (sp_output s) = maximum" using False "1.prems"(4) by (simp add: safe_state_def)
    ultimately show ?thesis using "1.prems"(4,5) by simp
  next
    case True
    obtain q t where q: "spec_round x w c maximum s = (q, t)" by fastforce
    have held: "nothing_held w (sp_ledger s)" using "1.prems"(4) by (simp add: safe_state_def)
    from spec_round_outcome [OF q held "1.prems"(3)]
    have step: "safe_state predict w maximum t \<and> (q = Inr () \<longrightarrow> counted_state w t)"
    proof
      assume "isl q \<and> (\<exists>l d. t = s\<lparr>sp_ledger := l, sp_drafted := d\<rparr> \<and> nothing_held w l)"
      with "1.prems"(4) show ?thesis by (auto simp: safe_state_def)
    next
      assume "round_committed w maximum s q t"
      from round_committed_safe [OF this "1.prems"(2,4,5) True] show ?thesis .
    qed
    show ?thesis
    proof (cases q)
      case (Inl e)
      with True "1.prems"(1) q have "r = Inl e" "s' = t" by (simp_all add: speculate.simps [of x w c maximum s])
      with step show ?thesis by simp
    next
      case (Inr u)
      with True "1.prems"(1) q have "speculate x w c maximum t = (r, s')" by (simp add: speculate.simps [of x w c maximum s])
      from "1.IH" [OF True q [symmetric] Inr this "1.prems"(2,3)] step Inr show ?thesis by simp
    qed
  qed
qed

lemma started_safe:
  assumes "nothing_held w l"
  shows "safe_state predict w n (spec_start l)" and "counted_state w (spec_start l)"
  using assms by (simp_all add: safe_state_def counted_state_def spec_start_def)

text \<open>The result passes its own checks unless a token does not fit in eight bytes.\<close>

lemma finished_result:
  assumes "1 \<le> maximum" and "maximum \<le> MAX_OUTPUT_TOKENS" and "speculate x w c (nat maximum) (spec_start l) = (Inr (), t)"
    and "counted_state w t" and "length (sp_output t) = nat maximum" and "length (sx_profile_id (se_profile x)) = 64"
    and "\<forall>t\<in>set (sp_output t). t < 2 ^ 64"
  shows "\<exists>v. speculative_execute sha x w elapsed c maximum l = (Inr v, t) \<and> sr_token_ids v = sp_output t"
proof -
  have hash: "tokens_hash sha (sp_output t) = Inr (sha (sp_output t))" using assms(7) by (auto simp: tokens_hash_def list_ex_iff)
  moreover have "sp_output t \<noteq> []" "int (length (sp_output t)) \<le> MAX_OUTPUT_TOKENS" using assms(1,2,5) by auto
  ultimately show ?thesis
    using assms by (auto simp: speculative_execute_def speculative_result_init_def counted_state_def list_ex_iff)
qed

text \<open>C13: Speculative execution is correctness-neutral.  Whatever the draft proposes, however requests are cancelled and
  whatever fails: with a verifier that answers with its own greedy predictions, everything committed and everything
  published is a prefix of plain greedy decoding, and the device reservations of every round are given back.  A run
  that returns has exactly the greedy tokens of the requested length, all of them published.\<close>

theorem speculative_output_is_greedy:
  assumes "faithful predict w" and "ours_kept w" and "nothing_held w l"
    and "speculative_execute sha x w elapsed c maximum l = (r, s)"
  shows "sp_output s = greedy predict [] (length (sp_output s)) \<and> (\<exists>m. concat (sp_published s) = take m (sp_output s))
    \<and> nothing_held w (sp_ledger s)
    \<and> (\<forall>v. r = Inr v \<longrightarrow> sr_token_ids v = greedy predict [] (nat maximum) \<and> sr_token_ids v = sp_output s
         \<and> (sw_publish w \<noteq> None \<longrightarrow> concat (sp_published s) = sr_token_ids v))"
proof (cases "1 \<le> maximum \<and> maximum \<le> MAX_OUTPUT_TOKENS")
  case False
  with assms(4) have "r = Inl (ValueError ''invalid speculative execution request'')" "s = spec_start l"
    by (auto simp: speculative_execute_def)
  then show ?thesis using assms(3) by (auto simp: spec_start_def)
next
  case True
  obtain q t where q: "speculate x w c (nat maximum) (spec_start l) = (q, t)" by fastforce
  have s: "s = t" and failed: "q = Inl e \<Longrightarrow> r = Inl e" for e
    using assms(4) True q by (auto simp: speculative_execute_def split: sum.splits)
  note safe = speculate_safe [OF q assms(1,2) started_safe [OF assms(3)]]
  show ?thesis
  proof (cases q)
    case (Inl e)
    with failed safe show ?thesis by (simp add: s safe_state_def)
  next
    case (Inr u)
    then have "counted_state w t" "sp_output t = greedy predict [] (nat maximum)" using safe by (auto simp: safe_state_def)
    moreover have "sr_token_ids v = sp_output t" if "r = Inr v" for v
      using that assms(4) True q Inr by (auto simp: speculative_execute_def speculative_result_init_def split: sum.splits)
    ultimately show ?thesis using safe by (auto simp: s safe_state_def counted_state_def)
  qed
qed

section \<open>A run that returns\<close>

text \<open>A stage finds its device free and leaves both free: its reservation succeeds after what other threads did
  before it, and what they do while it runs keeps \<open>free\<close>.\<close>

definition stage_free ::
  "(device_ledger \<Rightarrow> bool) \<Rightarrow> string \<Rightarrow> execution_backend \<Rightarrow> int \<Rightarrow> (device_ledger \<Rightarrow> device_ledger) \<Rightarrow> (device_ledger \<Rightarrow> device_ledger)
    \<Rightarrow> device_ledger \<Rightarrow> bool"
where
  "stage_free free uuid b memory_bytes before others l \<longleftrightarrow>
     (case reserve_backend uuid b memory_bytes (before l) of
        Inl e \<Rightarrow> False | Inr (v, l') \<Rightarrow> free (snd (device_release (dv_reservation_id v) (others l'))))"

text \<open>Nobody cancels, the stages find their devices free whatever the other threads do, both models return valid
  tokens, and publishing does not raise.\<close>

definition cooperative :: "(device_ledger \<Rightarrow> bool) \<Rightarrow> executor \<Rightarrow> spec_world \<Rightarrow> inference_context \<Rightarrow> bool" where
  "cooperative free x w c \<longleftrightarrow>
     (\<forall>k. raise_if_cancelled (sw_at_start w k) c = Inr () \<and> raise_if_cancelled (sw_at_verify w k) c = Inr ()
        \<and> raise_if_cancelled (sw_at_end w k) c = Inr ())
     \<and> (\<forall>k l. free l \<longrightarrow>
          stage_free free (sw_draft_id w k) (sx_draft_backend (se_profile x)) (se_draft_memory_bytes x)
            (sw_before_draft w k) (sw_while_drafting w k) l
        \<and> stage_free free (sw_verify_id w k) (sx_verify_backend (se_profile x)) (se_verify_memory_bytes x)
            (sw_before_verify w k) (sw_while_verifying w k) l)
     \<and> (\<forall>k prefix n. 0 < n \<longrightarrow> (\<exists>ts. sw_draft w k prefix n = Inr ts \<and> stage_tokens n ''draft'' ts = Inr ts))
     \<and> (\<forall>k prefix ps. ps \<noteq> [] \<longrightarrow> (\<exists>vs. sw_verify w k prefix ps = Inr vs \<and> stage_tokens (length ps) ''verify'' vs = Inr vs))
     \<and> (\<forall>f k ts. sw_publish w = Some f \<longrightarrow> f k ts = Inr ())"

lemma cooperativeD:
  assumes "cooperative free x w c"
  shows "raise_if_cancelled (sw_at_start w k) c = Inr ()" "raise_if_cancelled (sw_at_verify w k) c = Inr ()"
    "raise_if_cancelled (sw_at_end w k) c = Inr ()"
    "free l \<Longrightarrow> stage_free free (sw_draft_id w k) (sx_draft_backend (se_profile x)) (se_draft_memory_bytes x)
       (sw_before_draft w k) (sw_while_drafting w k) l"
    "free l \<Longrightarrow> stage_free free (sw_verify_id w k) (sx_verify_backend (se_profile x)) (se_verify_memory_bytes x)
       (sw_before_verify w k) (sw_while_verifying w k) l"
    "sw_publish w = Some f \<Longrightarrow> f k ts = Inr ()"
    "0 < n \<Longrightarrow> \<exists>ts. sw_draft w k prefix n = Inr ts \<and> stage_tokens n ''draft'' ts = Inr ts"
    "ps \<noteq> [] \<Longrightarrow> \<exists>vs. sw_verify w k prefix ps = Inr vs \<and> stage_tokens (length ps) ''verify'' vs = Inr vs"
  using assms unfolding cooperative_def by simp_all

lemma run_stage_free:
  "stage_free free uuid b m before others l \<Longrightarrow> \<exists>l'. run_stage uuid b m before others operation l = (operation, l') \<and> free l'"
  by (auto simp: stage_free_def run_stage_def split: sum.splits)

lemma draft_stage_quiet:
  assumes "cooperative free x w c" and "free (sp_ledger s)" and "0 < n"
  shows "\<exists>ts l. draft_stage x w n s = (Inr ts, s\<lparr>sp_ledger := l\<rparr>) \<and> ts \<noteq> [] \<and> free l"
proof -
  obtain ts where ts: "sw_draft w (sp_rounds s) (sp_output s) n = Inr ts" "stage_tokens n ''draft'' ts = Inr ts"
    using cooperativeD(7) [OF assms(1,3)] by metis
  obtain l where "run_stage (sw_draft_id w (sp_rounds s)) (sx_draft_backend (se_profile x)) (se_draft_memory_bytes x)
      (sw_before_draft w (sp_rounds s)) (sw_while_drafting w (sp_rounds s)) (Inr ts) (sp_ledger s) = (Inr ts, l)" "free l"
    using run_stage_free [OF cooperativeD(4) [OF assms(1,2)]] by metis
  with ts show ?thesis by (auto simp: draft_stage_def stage_tokens_Inr)
qed

lemma verify_stage_quiet:
  assumes "cooperative free x w c" and "free (sp_ledger s)" and "ps \<noteq> []"
  shows "\<exists>vs l. verify_stage x w ps s = (Inr vs, s\<lparr>sp_ledger := l\<rparr>) \<and> free l"
proof -
  obtain vs where vs: "sw_verify w (sp_rounds s) (sp_output s) ps = Inr vs" "stage_tokens (length ps) ''verify'' vs = Inr vs"
    using cooperativeD(8) [OF assms(1,3)] by metis
  obtain l where "run_stage (sw_verify_id w (sp_rounds s)) (sx_verify_backend (se_profile x)) (se_verify_memory_bytes x)
      (sw_before_verify w (sp_rounds s)) (sw_while_verifying w (sp_rounds s)) (Inr vs) (sp_ledger s) = (Inr vs, l)" "free l"
    using run_stage_free [OF cooperativeD(5) [OF assms(1,2)]] by metis
  with vs show ?thesis by (auto simp: verify_stage_def)
qed

lemma spec_round_quiet:
  assumes "cooperative free x w c" and "free (sp_ledger s)" and "1 \<le> se_maximum_draft_tokens x"
    and "length (sp_output s) < maximum" and "sp_rounds s < MAX_SPECULATIVE_ROUNDS"
  shows "\<exists>s'. spec_round x w c maximum s = (Inr (), s') \<and> free (sp_ledger s') \<and> sp_rounds s' = sp_rounds s + 1"
proof -
  let ?wanted = "min (nat (se_maximum_draft_tokens x)) (maximum - length (sp_output s))"
  have "0 < ?wanted" using assms(3,4) by simp
  from draft_stage_quiet [OF assms(1,2) this] obtain ps l1 where
    ps: "draft_stage x w ?wanted s = (Inr ps, s\<lparr>sp_ledger := l1\<rparr>)" "ps \<noteq> []" "free l1" by blast
  let ?s2 = "s\<lparr>sp_ledger := l1, sp_drafted := sp_drafted s + length ps\<rparr>"
  obtain vs l2 where vs: "verify_stage x w ps ?s2 = (Inr vs, ?s2\<lparr>sp_ledger := l2\<rparr>)" "free l2"
    using verify_stage_quiet [OF assms(1) _ ps(2), of ?s2] ps(3) by auto
  obtain committed s4 where commit: "commit_tokens maximum ps vs (?s2\<lparr>sp_ledger := l2\<rparr>) = (committed, s4)" by fastforce
  have "\<exists>s'. publish_tokens w (sp_rounds s) committed s4 = (Inr (), s') \<and> sp_ledger s' = sp_ledger s4 \<and> sp_rounds s' = sp_rounds s4"
  proof (cases "sw_publish w")
    case (Some f)
    then show ?thesis using cooperativeD(6) [OF assms(1) Some] by (simp add: publish_tokens_def)
  qed (simp add: publish_tokens_def)
  then obtain s' where "publish_tokens w (sp_rounds s) committed s4 = (Inr (), s')" "sp_ledger s' = sp_ledger s4" "sp_rounds s' = sp_rounds s4"
    by blast
  with ps(1) vs commit assms(5) commit_tokens_frame(2,5) [OF commit] show ?thesis
    by (simp add: spec_round_def Let_def cooperativeD(1-3) [OF assms(1)])
qed

lemma speculate_quiet:
  assumes "cooperative free x w c" and "1 \<le> se_maximum_draft_tokens x" and "maximum \<le> MAX_SPECULATIVE_ROUNDS"
    and "free (sp_ledger s)" and "sp_rounds s \<le> length (sp_output s)"
  shows "fst (speculate x w c maximum s) = Inr ()"
  using assms
proof (induction x w c maximum s rule: speculate.induct)
  case (1 x w c maximum s)
  show ?case
  proof (cases "length (sp_output s) < maximum")
    case True
    have "sp_rounds s < MAX_SPECULATIVE_ROUNDS" using True "1.prems"(3,5) by simp
    from spec_round_quiet [OF "1.prems"(1,4,2) True this] obtain s' where
      s': "spec_round x w c maximum s = (Inr (), s')" "free (sp_ledger s')" "sp_rounds s' = sp_rounds s + 1" by blast
    have "sp_rounds s' \<le> length (sp_output s')" using spec_round_progress [OF s'(1) True] s'(3) "1.prems"(5) by simp
    from "1.IH" [OF True s'(1) [symmetric] refl "1.prems"(1-3) s'(2) this] s'(1) True show ?thesis
      by (simp add: speculate.simps [of x w c maximum s])
  next
    case False
    then show ?thesis by (simp add: speculate.simps [of x w c maximum s])
  qed
qed

lemma overflowing_result:
  assumes "1 \<le> maximum" and "maximum \<le> MAX_OUTPUT_TOKENS" and "speculate x w c (nat maximum) (spec_start l) = (Inr (), t)"
    and "\<not> (\<forall>t\<in>set (sp_output t). t < 2 ^ 64)"
  shows "speculative_execute sha x w elapsed c maximum l = (Inl (OtherError ''OverflowError''), t)"
  using assms by (auto simp: speculative_execute_def tokens_hash_def list_ex_iff not_less)

text \<open>C30: a cooperative run returns.  Assume that nobody cancels, that both devices can be reserved whenever a stage asks for
  them, whatever other threads do to the ledger in between, that both models return valid tokens, that the verifier answers with
  its greedy predictions and that \<open>publish\<close> does not raise.  Then a run of an executor for at most as many tokens as there may be
  rounds ends with the greedy tokens committed and published, however bad the draft is.  It returns them when each is below
  \<open>2 ^ 64\<close>; when one is not, which the token check lets pass, the call raises an overflow error from the fingerprint after
  everything has been published.\<close>
theorem speculation_returns:
  assumes "cooperative free x w c" and "free l" and "nothing_held w l" and "faithful predict w" and "ours_kept w"
    and "length (sx_profile_id (se_profile x)) = 64" and "1 \<le> se_maximum_draft_tokens x"
    and "1 \<le> maximum" and "maximum \<le> int MAX_SPECULATIVE_ROUNDS"
  shows "\<exists>r s. speculative_execute sha x w elapsed c maximum l = (r, s) \<and> sp_output s = greedy predict [] (nat maximum)
    \<and> (sw_publish w \<noteq> None \<longrightarrow> concat (sp_published s) = sp_output s)
    \<and> (if \<forall>t\<in>set (greedy predict [] (nat maximum)). t < 2 ^ 64
       then \<exists>v. r = Inr v \<and> sr_token_ids v = sp_output s else r = Inl (OtherError ''OverflowError''))"
proof -
  obtain t where t: "speculate x w c (nat maximum) (spec_start l) = (Inr (), t)"
    using speculate_quiet [OF assms(1,7), of "nat maximum" "spec_start l"] assms(2,9)
    by (cases "speculate x w c (nat maximum) (spec_start l)") (auto simp: spec_start_def nat_le_iff)
  have safe: "safe_state predict w (nat maximum) t" "counted_state w t" "length (sp_output t) = nat maximum"
    using speculate_safe [OF t assms(4,5) started_safe [OF assms(3)]] by auto
  then have out: "sp_output t = greedy predict [] (nat maximum)" by (simp add: safe_state_def)
  have "maximum \<le> MAX_OUTPUT_TOKENS" using assms(9) by (simp add: MAX_OUTPUT_TOKENS_def MAX_SPECULATIVE_ROUNDS_def)
  note finish = finished_result [OF assms(8) this t safe(2,3) assms(6), of sha elapsed]
    overflowing_result [OF assms(8) \<open>maximum \<le> MAX_OUTPUT_TOKENS\<close> t, of sha elapsed]
  have "sw_publish w \<noteq> None \<longrightarrow> concat (sp_published t) = sp_output t" using safe(2) by (auto simp: counted_state_def)
  then show ?thesis using finish out by (cases "\<forall>t\<in>set (greedy predict [] (nat maximum)). t < 2 ^ 64") auto
qed

section \<open>The adapter\<close>

text \<open>With one candidate the result cannot come from another backend, and what the adapter returns are valid tokens.\<close>

lemma adapter_draft_valid:
  assumes "adapter_draft a engines prefix maximum c g = (r, g')"
  shows "r \<noteq> Inl (RuntimeError ''speculative draft backend identity mismatch'') \<or>
      (\<exists>b. fst (engine_execute (engines prefix maximum) c \<lparr>br_operator = ''speculative.draft'', br_phase = Draft,
         br_precision = sx_precision (sa_profile a), br_model_architecture = sa_model_architecture a,
         br_candidates = [sx_draft_backend (sa_profile a)]\<rparr> g) = Engine_raised b)"
    and "r = Inr ts \<Longrightarrow> length ts \<le> maximum \<and> (\<forall>t\<in>set ts. 0 \<le> t)"
  using assms
  by (auto simp: adapter_draft_def engine_request_init_def engine_execute_def adapter_tokens_def validated_tokens_def list_ex_iff not_less
      split: if_splits prod.splits engine_end.splits option.splits sum.splits engine_outcome.splits)

section \<open>Files\<close>

definition profile_for :: "(json \<Rightarrow> string) \<Rightarrow> string \<Rightarrow> string \<Rightarrow> speculative_profile \<Rightarrow> bool" where
  "profile_for digest model_hash precision p \<longleftrightarrow> speculative_profile_init digest p = Inr p \<and> is_qualified p
     \<and> sx_model_hash p = model_hash \<and> sx_precision p = precision"

lemma parse_speculative_dict:
  assumes "speculative_profile_to_dict p = JObj d"
  shows "parse_speculative_profile digest d = (case speculative_profile_init digest p of
      Inl e \<Rightarrow> Inl (ValueError ''invalid speculative profile values'') | Inr q \<Rightarrow> Inr q)"
    and "set (keys d) = set speculative_keys" and "field d ''schema_version'' = JInt 1"
    and "field d ''model_hash'' = JStr (sx_model_hash p)" and "field d ''precision'' = JStr (sx_precision p)"
proof -
  have d: "d = (''schema_version'', JInt 1) # identity_fields p @ [(''profile_id'', JStr (sx_profile_id p))]"
    using assms by (simp add: speculative_profile_to_dict_def)
  show "parse_speculative_profile digest d = (case speculative_profile_init digest p of
      Inl e \<Rightarrow> Inl (ValueError ''invalid speculative profile values'') | Inr q \<Rightarrow> Inr q)"
    by (cases p) (simp add: d parse_speculative_profile_def identity_fields_def field_def)
  show "set (keys d) = set speculative_keys" "field d ''schema_version'' = JInt 1"
    "field d ''model_hash'' = JStr (sx_model_hash p)" "field d ''precision'' = JStr (sx_precision p)"
    by (auto simp: d identity_fields_def field_def speculative_keys_def)
qed

lemma str_value: "j_str_value x = Some v \<Longrightarrow> x = JStr v"
  by (cases x) auto

lemma parsed_profile:
  assumes "parse_speculative_profile digest d = Inr p"
  shows "speculative_profile_init digest p = Inr p" "field d ''model_hash'' = JStr (sx_model_hash p)"
    "field d ''precision'' = JStr (sx_precision p)"
  using assms unfolding parse_speculative_profile_def
  by (auto simp: speculative_profile_init_def dest!: str_value split: option.splits if_splits sum.splits)

interpretation speculative: evidence_file
  "load_speculative_profile digest True model_hash precision" "save_speculative_profile encoded_size True"
  "profile_for digest model_hash precision" for digest model_hash precision encoded_size
proof unfold_locales
  fix p f
  show "load_speculative_profile digest True model_hash precision None = Inl OSError"
    by (simp add: load_speculative_profile_def)
  show "save_speculative_profile encoded_size True p = Inr f \<Longrightarrow> profile_for digest model_hash precision p \<Longrightarrow>
      load_speculative_profile digest True model_hash precision (Some f) = Inr p"
  proof -
    assume saved: "save_speculative_profile encoded_size True p = Inr f" and p: "profile_for digest model_hash precision p"
    obtain d where d: "speculative_profile_to_dict p = JObj d" by (simp add: speculative_profile_to_dict_def)
    define size where "size = int (encoded_size (JObj d)) + 1"
    have f: "f = (\<lparr>fa_regular = True, fa_current_user = True, fa_size = size, fa_mode = 0x180\<rparr>, Some (JObj d))"
      and size: "0 < size" "size \<le> MAX_SPECULATIVE_PROFILE_BYTES"
      using saved by (auto simp: save_speculative_profile_def d size_def Let_def split: if_splits)
    note parsed = parse_speculative_dict [OF d]
    show "load_speculative_profile digest True model_hash precision (Some f) = Inr p"
      using p size parsed by (simp add: f load_speculative_profile_def profile_for_def)
  qed
  fix stored
  assume loaded: "load_speculative_profile digest True model_hash precision stored = Inr p"
  then obtain a d where "stored = Some (a, Some (JObj d))"
    by (cases stored) (auto simp: load_speculative_profile_def split: if_splits option.splits json.splits)
  with loaded have "parse_speculative_profile digest d = Inr p" "is_qualified p"
    "field d ''model_hash'' = JStr model_hash" "field d ''precision'' = JStr precision"
    by (auto simp: load_speculative_profile_def split: if_splits sum.splits)
  then show "profile_for digest model_hash precision p" using parsed_profile [of digest d p] by (simp add: profile_for_def)
qed

section \<open>Examples\<close>

text \<open>A draft that is always wrong, and a verifier that counts.\<close>

definition counting :: "int list \<Rightarrow> int" where
  "counting ts = int (length ts mod 10)"

definition example_spec_world :: spec_world where
  "example_spec_world = \<lparr>sw_draft = (\<lambda>k prefix n. Inr [77]), sw_verify = (\<lambda>k prefix ps. Inr [counting prefix]),
     sw_publish = Some (\<lambda>k ts. Inr ()), sw_draft_id = (\<lambda>k. ''d''), sw_verify_id = (\<lambda>k. ''v''),
     sw_before_draft = (\<lambda>k l. l), sw_while_drafting = (\<lambda>k l. l), sw_before_verify = (\<lambda>k l. l), sw_while_verifying = (\<lambda>k l. l),
     sw_at_start = (\<lambda>k. (False, 0)), sw_at_verify = (\<lambda>k. (False, 0)), sw_at_end = (\<lambda>k. (False, 0))\<rparr>"

definition example_executor :: executor where
  "example_executor = \<lparr>se_profile = \<lparr>sx_model_hash = [], sx_precision = ''int4'', sx_draft_backend = CPU, sx_verify_backend = NATIVE_MLX,
     sx_sample_count = 3, sx_baseline_latency = 100, sx_speculative_latency = 50, sx_outputs_match = True,
     sx_profile_id = replicate 64 CHR ''a''\<rparr>,
     se_draft_memory_bytes = 100, se_verify_memory_bytes = 100, se_maximum_draft_tokens = 4\<rparr>"

definition example_spec_context :: inference_context where
  "example_spec_context = \<lparr>ic_request_id = ''r'', ic_deadline = Fin 1\<rparr>"

lemma example_spec_facts:
  "faithful counting example_spec_world" "ours_kept example_spec_world" "nothing_held example_spec_world example_ledger"
  "cooperative (\<lambda>l. l = example_ledger) example_executor example_spec_world example_spec_context"
proof -
  show "faithful counting example_spec_world" by (simp add: faithful_def example_spec_world_def)
  show "ours_kept example_spec_world" by (simp add: ours_kept_def example_spec_world_def keeps_ours_id)
  show held: "nothing_held example_spec_world example_ledger"
    by (simp add: nothing_held_def example_ledger_def balanced_def our_ids_def example_capacity_def split: device_resource.splits)
  have same: "stage_free (\<lambda>l. l = example_ledger) uuid b 100 (\<lambda>l. l) (\<lambda>l. l) example_ledger"
    if reserves: "\<not> isl (reserve_backend uuid b 100 example_ledger)" and "uuid \<notin> set (keys (dl_reservations example_ledger))" for uuid b
  proof -
    obtain v l where r: "reserve_backend uuid b 100 example_ledger = Inr (v, l)"
      using reserves by (cases "reserve_backend uuid b 100 example_ledger") (simp, force)
    have "ledger_ok example_ledger" using held by (simp add: nothing_held_def)
    from reserve_backend_ok(3,4) [OF this that(2) r] show ?thesis by (simp add: stage_free_def r)
  qed
  have "\<not> isl (reserve_backend ''d'' CPU 100 example_ledger)" "\<not> isl (reserve_backend ''v'' NATIVE_MLX 100 example_ledger)"
    by (simp_all add: reserve_backend_def for_backend_def device_request_init_def device_reserve_def Let_def exhausted_Nil
        example_ledger_def example_capacity_def active_backends_def contended_def split: device_resource.splits)
  then have "stage_free (\<lambda>l. l = example_ledger) ''d'' CPU 100 (\<lambda>l. l) (\<lambda>l. l) example_ledger"
    "stage_free (\<lambda>l. l = example_ledger) ''v'' NATIVE_MLX 100 (\<lambda>l. l) (\<lambda>l. l) example_ledger"
    using same by (simp_all add: example_ledger_def)
  then show "cooperative (\<lambda>l. l = example_ledger) example_executor example_spec_world example_spec_context"
    by (auto simp: cooperative_def example_executor_def example_spec_world_def example_spec_context_def stage_tokens_Inr
        raise_if_cancelled_def remaining_seconds_def counting_def Suc_le_eq)
qed

theorem speculative_output_is_greedy_witness:
  "nothing_held example_spec_world
     (sp_ledger (snd (speculative_execute (\<lambda>_. []) example_executor example_spec_world 1 example_spec_context 2 example_ledger)))"
proof -
  obtain r s where run: "speculative_execute (\<lambda>_. []) example_executor example_spec_world 1 example_spec_context 2 example_ledger = (r, s)"
    by fastforce
  from speculative_output_is_greedy [OF example_spec_facts(1,2,3) run] run show ?thesis by simp
qed

theorem speculation_returns_witness:
  "\<exists>v s. speculative_execute (\<lambda>_. []) example_executor example_spec_world 1 example_spec_context 3 example_ledger = (Inr v, s)
     \<and> sr_token_ids v = [0, 1, 2] \<and> concat (sp_published s) = [0, 1, 2]"
proof -
  have "length (sx_profile_id (se_profile example_executor)) = 64" "1 \<le> se_maximum_draft_tokens example_executor"
    by (simp_all add: example_executor_def)
  moreover have "(1::int) \<le> 3" "(3::int) \<le> int MAX_SPECULATIVE_ROUNDS" by (simp_all add: MAX_SPECULATIVE_ROUNDS_def)
  moreover have greedy: "greedy counting [] (nat 3) = [0, 1, 2]" by code_simp
  moreover have "sw_publish example_spec_world \<noteq> None" by (simp add: example_spec_world_def)
  ultimately show ?thesis
    using speculation_returns [OF example_spec_facts(4) refl example_spec_facts(3,1,2), of 3 "\<lambda>_. []" 1] by auto
qed

end
