(* ===== verification/Spec2Isabelle.thy ===== *)
theory Spec2Isabelle
  imports Prelude PyFloat RuntimeTypes ContextPlan Execution OperatorDispatch DeviceContention
    QueueOrder QueuedAdmission MemoryArena EncoderCaches TokenCache SemanticCache VideoCache StateCache ExpertResidency
    AudioDeadline VideoFrames AudioRing AudioFeatures GenerationAdmission LayerPrefetch NumericLayout
    NumericStream NumericCodecs GreedySpeculation BackendEngine SpeculativeExecution
begin

text \<open>
  A verification development for the core of \<open>vllm_apple\<close>, a control plane that runs language, vision
  and audio models on Apple Silicon: it decides how much context fits the unified memory, plans the execution of a
  model, admits, queues and places requests on the CPU, the GPU and the neural engine (ANE), and keeps the caches and
  buffers that the backends share.  The theories model that logic; the backends themselves are parameters.

  \<^bold>\<open>How the code is read.\<close>  A class is a \<open>record\<close>; a method is a function from its arguments and the state to a
  result and the new state (\<open>method\<close> of Prelude: \<open>Inl\<close> an exception, \<open>Inr\<close> a value), so the state
  after an exception is part of every statement.  \<open>__post_init__\<close> is a function with suffix \<open>_init\<close> that
  returns the checked value or the error.  Python integers are \<open>int\<close>; floats are rationals rounded to double precision
  at each operation (PyFloat), with no infinities or NaN.  Dictionaries, ordered ones included, are association lists in
  insertion order.  A section under a lock is one atomic step; where the code gives the lock up, other threads
  run, as a function argument (\<open>others\<close>) about which nothing is assumed, or only what the theorem says: that they
  take the component's own steps, or that they leave alone what a call holds under its own uuids.  Clocks, uuids, SHA-256,
  callbacks and the file system are arguments.

  \<^bold>\<open>Foundations.\<close>
    \<^item> Prelude: results and methods, dictionaries with sums over their values, JSON values, the shared lemmas.
    \<^item> PyFloat: rounding to double precision and its monotonicity.
    \<^item> RuntimeTypes (\<open>types.py\<close>), ExecutionTypes (the plan types of \<open>execution.py\<close>).

  \<^bold>\<open>Planning.\<close>
    \<^item> ContextPlan (\<open>context.py\<close>): the recommended context lengths; each is the greatest that fits its budget, for all
      models but the sparse-only ones, where the code's search looks at no budget (a finding).
    \<^item> Execution, ProfileRegistry (\<open>execution.py\<close>): execution plans; safe for memory, backends, precisions,
      heat and power; the shrinking loop ends.
    \<^item> KernelProbe (\<open>kernel_probe.py\<close>) and OperatorDispatch (\<open>operator_dispatch.py\<close>): measured kernels,
      quarantine, the probe cache on disk, and the fallback chain of an operator.
    \<^item> DeviceCapability (\<open>device_capability.py\<close>), DeviceContention (\<open>device_contention.py\<close>),
      DevicePlacement (\<open>device_placement.py\<close>): evidence about devices and its files, with promotion and rollback
      (ProfileStore).

  \<^bold>\<open>Admission and scheduling.\<close>
    \<^item> Accounting and DeviceResources (\<open>device_resources.py\<close>): the ledger of CPU, GPU, ANE, bandwidth and memory;
      which pairs of backends may run together, and what replacing evidence does to those that already do.
    \<^item> DevicePipeline (\<open>device_pipeline.py\<close>): parallel stages, ANE routes, the bounded encoder pipeline.
    \<^item> HeapQueue, ScheduleQueue, MemoryController, Observability, Scheduler, SchedulerPlans, SchedulerQueueing
      (\<open>scheduler.py\<close>, \<open>scheduling_observability.py\<close>): the priority queue over the heap of \<open>heapq\<close>, the
      memory reservations and every operation of \<open>BasicScheduler\<close>.
    \<^item> SchedulerSteps has the atomic steps of the scheduler and proves its invariant step by step;
      the calls are sequences of these steps whatever other threads do.  SchedulerSafety has the invariant of every
      reachable state and the safe points, SchedulerAdmission what direct admission and completion guarantee,
      QueueOrder the order in which the queue serves requests against a reference queue, and QueuedAdmission what taking and
      stealing a request guarantee while other threads run and cancel.
    \<^item> GenerationAdmission (\<open>generation_admission.py\<close>): admission to the single generation worker, as the atomic
      steps of any number of threads.
    \<^item> BackendEngine (\<open>fault_injection.py\<close>, \<open>backend_engine.py\<close>): the chain of engines and its faults.

  \<^bold>\<open>Memory and caches.\<close>
    \<^item> MemoryArena (\<open>unified_memory_arena.py\<close>): first-fit suballocation, isolation of leases, exact accounts.
    \<^item> LruCache: ordered dictionaries, the eviction loop and the locale \<open>lru_store\<close>, whose lemmas say that a
      store that keeps its laws holds the most recently used keys since it was last cleared, in the order of their last
      use, and evicts no more than its limits demand; EncoderCaches (\<open>vision_cache.py\<close>,
      \<open>audio_encoder_cache.py\<close>) interprets it twice.
    \<^item> TokenCache (\<open>token_count_cache.py\<close>): expiry and single flights.
    \<^item> SemanticCache (\<open>semantic_cache.py\<close>): ownership of the state handles.
    \<^item> VideoCache (\<open>video_cache.py\<close>): budgets per kind and in total.
    \<^item> StateCache (\<open>hierarchical_state_cache.py\<close>): memory over disk, with failing writes and changed files.
    \<^item> ExpertResidency (\<open>expert_residency.py\<close>): leased experts stay, and which idle ones leave.
    \<^item> LayerPrefetch (\<open>layer_prefetch.py\<close>): the next layer is loaded while one is consumed, two at most are live.

  \<^bold>\<open>Media streams.\<close>
    \<^item> AudioDeadline (\<open>audio_deadline_scheduler.py\<close>) and VideoFrames (\<open>video_frame_scheduler.py\<close>): queues by
      deadline and by presentation time, both over the locale \<open>lazy_heap\<close> of HeapQueue.
    \<^item> AudioRing (\<open>audio_ring_buffer.py\<close>): the ring buffer refines a bounded stream (locale \<open>bounded_stream\<close>).
    \<^item> AudioFeatures (\<open>audio_preprocessing.py\<close>): features of a stream do not depend on its chunks.

  \<^bold>\<open>Numeric formats.\<close>
    \<^item> NumericPacking, NumericCodecs (\<open>numeric_codecs.py\<close>, \<open>numeric_mx.py\<close>): bit packing, and FP8, NF4, affine and MX
      values; the FP8 tables are instances of the locale \<open>fp8_table\<close>.
    \<^item> TensorGeometry, NumericFormats (\<open>numeric_formats.py\<close>): which scale belongs to which element, and the conversion
      of NVFP4 to scaled INT8.
    \<^item> NumericLayout (\<open>numeric_layout.py\<close>): the layouts of exporters and lossless repacking.
    \<^item> NumericStream (\<open>numeric_streaming.py\<close>): tiles read through leases of reusable buffers.

  \<^bold>\<open>Speculative decoding.\<close>
    \<^item> GreedySpeculation (\<open>heterogeneous_mlx_speculative.py\<close>): a draft model, a verifier and their KV caches; the output is
      greedy decoding.
    \<^item> SpeculativeExecution (\<open>speculative_execution.py\<close>): the executor over the device ledger, and its profiles, whose files
      are checked like the contention profiles (locale \<open>evidence_file\<close>).

  \<^bold>\<open>Lemma groups.\<close>  Each component theory has its operations first, then its invariant and the lemma that every
  operation keeps it, then an inductive history or step relation and the properties over all its states.  Loops are
  structural recursions or have a measure; no operation of the model uses fuel, so the theorems state what the code
  returns and not only what holds if it returns.  A definition that answers \<open>None\<close> where the source would build a value
  that breaks its own type annotations says so (\<open>build_parsed_result\<close>).

  \<^bold>\<open>Not modelled.\<close>  The command line, the HTTP services and daemons, subprocess workers, the Core ML, MLX, Metal
  and vLLM bindings, model conversion and the qualification scripts are input and output around these components or
  calls of libraries that the repository does not contain.  Type checks of arguments (\<open>type(x) is int\<close>) are what
  the types of the model express.
\<close>

end
